(* ===== verification/Prelude.thy ===== *)
theory Prelude
  imports Main "HOL-Library.Word" "HOL-Library.Multiset" "HOL-Library.Signed_Division"
begin

text \<open>
  What the theories of the simulator share: the ways the program can stop (an error value),
  the bind and the loop over fallible steps with their total-correctness rules, vectors that
  are indexed by a C++ \<open>int\<close> (reading out of range is an error value, since the code does
  not check it), three-dimensional vectors as the bank states use them, and the standard
  library's \<open>multimap\<close>. The laws of the last two are stated as locales and interpreted
  on the definitions of this theory; the components only use the laws.
\<close>

section \<open>Machine types\<close>

text \<open>\<open>uint64_t\<close> values wrap around; \<open>int\<close> values are HOL integers (their overflow is
  undefined behaviour in C++, so no result is specified for it).\<close>

type_synonym u64 = "64 word"

text \<open>The conversion of an unsigned 64-bit value to \<open>int\<close>: the low 32 bits, read as two's
  complement.\<close>

definition to_c_int :: "u64 \<Rightarrow> int" where
  "to_c_int w = signed_take_bit 31 (uint w)"

text \<open>The conversion of an \<open>int\<close> to \<open>uint64_t\<close> reduces modulo 2 to the 64, also for
  negative values: it is \<open>word_of_int\<close>, written \<open>of_c_int\<close>.\<close>

definition of_c_int :: "int \<Rightarrow> u64" where
  "of_c_int i = word_of_int i"

lemma uint_of_c_int: "0 \<le> i \<Longrightarrow> i < 2 ^ 64 \<Longrightarrow> uint (of_c_int i) = i"
  by (simp add: of_c_int_def uint_word_of_int)

lemma div_less_pow:
  assumes "(x::int) < 2 ^ m * 2 ^ s"
  shows "x div 2 ^ s < 2 ^ m"
proof (rule ccontr)
  assume "\<not> x div 2 ^ s < 2 ^ m"
  then have "2 ^ m * 2 ^ s \<le> x div 2 ^ s * 2 ^ s" by (intro mult_right_mono) simp_all
  also have "\<dots> \<le> x" using div_mult_mod_eq [of x "2 ^ s"] pos_mod_sign [OF zero_less_power, of 2 x s] by linarith
  finally show False using assms by simp
qed

text \<open>C++ division of \<open>int\<close> truncates towards zero (\<open>sdiv\<close>, \<open>smod\<close>); on
  non-negative operands it is the division of HOL.\<close>

lemma sdiv_nonneg: "0 \<le> a \<Longrightarrow> 0 < b \<Longrightarrow> a sdiv b = (a div b :: int)"
  by (simp add: signed_divide_int_def sgn_if)

lemma smod_nonneg: "0 \<le> a \<Longrightarrow> 0 < b \<Longrightarrow> a smod b = (a mod b :: int)"
  by (simp add: signed_modulo_int_def sgn_if)

section \<open>Ways the program stops\<close>

text \<open>
  \<open>UncaughtException\<close> is a C++ exception nobody catches (\<open>std::map::at\<close> on a missing key);
  \<open>AbruptExit file line\<close> is a call of the function of that name (\<open>common.cc\<close>),
  \<open>ExitFailure\<close> a call of \<open>exit(1)\<close> and \<open>AssertFailed\<close> a failing \<open>assert\<close>, each with
  its place in the source; \<open>OutOfRange\<close> is an unchecked vector access out of bounds and
  \<open>DivByZero\<close> an integer division by zero,
  \<open>Overflow\<close> an overflow of an \<open>int\<close> or a shift that is too wide, where a component
  checks for it (all undefined behaviour in C++);
  \<open>Endless\<close> is a loop that does not end.
\<close>

datatype sim_error =
    AbruptExit string nat
  | ExitFailure string nat
  | AssertFailed string nat
  | UncaughtException string
  | OutOfRange
  | DivByZero
  | Overflow
  | Endless

type_synonym 'a result = "sim_error + 'a"

definition bindE :: "'a result \<Rightarrow> ('a \<Rightarrow> 'b result) \<Rightarrow> 'b result" where
  "bindE m f = (case m of Inl e \<Rightarrow> Inl e | Inr x \<Rightarrow> f x)"

text \<open>\<open>okE P m\<close>: the computation \<open>m\<close> does not stop with an error and its result satisfies
  \<open>P\<close> (total correctness).\<close>

definition okE :: "('a \<Rightarrow> bool) \<Rightarrow> 'a result \<Rightarrow> bool" where
  "okE P m = (case m of Inl _ \<Rightarrow> False | Inr x \<Rightarrow> P x)"

text \<open>A \<open>for\<close> loop over fallible steps.\<close>

fun foldE :: "('a \<Rightarrow> 's \<Rightarrow> 's result) \<Rightarrow> 'a list \<Rightarrow> 's \<Rightarrow> 's result" where
  "foldE f [] s = Inr s"
| "foldE f (x # xs) s = bindE (f x s) (foldE f xs)"

lemma bindE_simps [simp]:
  "bindE (Inl e) f = Inl e" "bindE (Inr x) f = f x"
  by (simp_all add: bindE_def)

lemma bindE_assoc: "bindE (bindE m f) g = bindE m (\<lambda>x. bindE (f x) g)"
  by (cases m) simp_all

lemma bindE_Inr_right [simp]: "bindE m Inr = m"
  by (cases m) simp_all

lemma bindE_cong [fundef_cong]:
  assumes "m = m'" and "\<And>x. m' = Inr x \<Longrightarrow> f x = f' x"
  shows "bindE m f = bindE m' f'"
  using assms by (cases m') simp_all

lemma bindE_eq_Inr: "bindE m f = Inr y \<longleftrightarrow> (\<exists>x. m = Inr x \<and> f x = Inr y)"
  by (cases m) simp_all

lemma okE_simps [simp]:
  "okE P (Inl e) \<longleftrightarrow> False" "okE P (Inr x) \<longleftrightarrow> P x"
  by (simp_all add: okE_def)

lemma okE_bind [simp]: "okE P (bindE m f) \<longleftrightarrow> okE (\<lambda>x. okE P (f x)) m"
  by (cases m) simp_all

lemma okE_iff: "okE P m \<longleftrightarrow> (\<exists>x. m = Inr x \<and> P x)"
  by (cases m) auto

lemma okE_mono: "okE P m \<Longrightarrow> (\<And>x. m = Inr x \<Longrightarrow> P x \<Longrightarrow> Q x) \<Longrightarrow> okE Q m"
  by (cases m) auto

lemma okE_conj: "okE P m \<Longrightarrow> okE Q m \<Longrightarrow> okE (\<lambda>x. P x \<and> Q x) m"
  by (cases m) auto

lemma okE_E:
  assumes "okE P m"
  obtains x where "m = Inr x" and "P x"
  using assms by (cases m) auto

lemma okE_foldE:
  assumes "I s" and "\<And>x s. x \<in> set xs \<Longrightarrow> I s \<Longrightarrow> okE I (f x s)"
  shows "okE I (foldE f xs s)"
  using assms
proof (induction xs arbitrary: s)
  case Nil
  then show ?case by simp
next
  case (Cons x xs)
  from Cons.prems have "okE I (f x s)" by simp
  then obtain s' where "f x s = Inr s'" and "I s'" by (rule okE_E)
  moreover have "okE I (foldE f xs s')"
    using \<open>I s'\<close> Cons.prems(2) by (intro Cons.IH) auto
  ultimately show ?case by simp
qed

lemma foldE_inv:
  assumes "foldE f xs s = Inr t" and "I s"
    and "\<And>x s t. x \<in> set xs \<Longrightarrow> I s \<Longrightarrow> f x s = Inr t \<Longrightarrow> I t"
  shows "I t"
  using assms
proof (induction xs arbitrary: s)
  case (Cons x xs)
  then show ?case by (auto simp: bindE_eq_Inr)
qed simp

lemma foldE_append: "foldE f (xs @ ys) s = bindE (foldE f xs s) (foldE f ys)"
  by (induction xs arbitrary: s) (auto simp: bindE_def split: sum.splits)

lemma foldE_concat: "foldE f (concat xss) s = foldE (\<lambda>xs. foldE f xs) xss s"
  by (induction xss arbitrary: s) (auto simp: foldE_append bindE_def split: sum.splits)

lemma foldE_map: "foldE f (map g xs) s = foldE (\<lambda>x. f (g x)) xs s"
  by (induction xs arbitrary: s) (auto simp: bindE_def split: sum.splits)

text \<open>A loop that fills a vector by a fallible computation of each element.\<close>

fun mapE :: "('a \<Rightarrow> 'b result) \<Rightarrow> 'a list \<Rightarrow> 'b list result" where
  "mapE f [] = Inr []"
| "mapE f (x # xs) = bindE (f x) (\<lambda>y. bindE (mapE f xs) (\<lambda>ys. Inr (y # ys)))"

lemma mapE_ok: "(\<And>x. x \<in> set xs \<Longrightarrow> f x = Inr (g x)) \<Longrightarrow> mapE f xs = Inr (map g xs)"
  by (induction xs) simp_all

lemma foldE_Nil_fun [simp]: "foldE f [] = Inr"
  by (rule ext) simp

section \<open>Lists\<close>

text \<open>\<open>erase\<close> of the first element that satisfies a predicate.\<close>

fun remove_first :: "('a \<Rightarrow> bool) \<Rightarrow> 'a list \<Rightarrow> 'a list" where
  "remove_first P [] = []"
| "remove_first P (x # xs) = (if P x then xs else x # remove_first P xs)"

lemma remove_first_none: "(\<forall>x \<in> set xs. \<not> P x) \<Longrightarrow> remove_first P xs = xs"
  by (induction xs) simp_all

lemma remove_first_hd: "xs \<noteq> [] \<Longrightarrow> P (hd xs) \<Longrightarrow> remove_first P xs = tl xs"
  by (cases xs) simp_all

lemma set_remove_first: "set (remove_first P xs) \<subseteq> set xs"
  by (induction xs) auto

lemma remove_first_split:
  "\<exists>x \<in> set xs. P x \<Longrightarrow>
   \<exists>as x bs. xs = as @ x # bs \<and> P x \<and> (\<forall>a \<in> set as. \<not> P a) \<and> remove_first P xs = as @ bs"
proof (induction xs)
  case (Cons x xs)
  show ?case
  proof (cases "P x")
    case True
    then have "x # xs = [] @ x # xs \<and> remove_first P (x # xs) = [] @ xs" by simp
    with True show ?thesis by (metis empty_iff empty_set)
  next
    case False
    with Cons obtain as y bs where
      "xs = as @ y # bs" "P y" "\<forall>a \<in> set as. \<not> P a" "remove_first P xs = as @ bs" by auto
    with False have "x # xs = (x # as) @ y # bs \<and> P y \<and> (\<forall>a \<in> set (x # as). \<not> P a)
        \<and> remove_first P (x # xs) = (x # as) @ bs" by simp
    then show ?thesis by blast
  qed
qed simp

lemma mset_remove_first:
  assumes "x \<in> set xs" "P x" "\<And>y. y \<in> set xs \<Longrightarrow> P y \<Longrightarrow> y = x"
  shows "mset (remove_first P xs) = mset xs - {#x#}"
proof -
  from assms(1,2) have "\<exists>x \<in> set xs. P x" by blast
  then obtain as y bs where s: "xs = as @ y # bs" "P y" "remove_first P xs = as @ bs"
    using remove_first_split [of xs P] by blast
  with assms(3) have "y = x" by simp
  with s show ?thesis by simp
qed

section \<open>Vectors indexed by an \<open>int\<close>\<close>

definition vget :: "'a list \<Rightarrow> int \<Rightarrow> 'a result" where
  "vget xs i = (if 0 \<le> i \<and> i < int (length xs) then Inr (xs ! nat i) else Inl OutOfRange)"

definition vset :: "'a list \<Rightarrow> int \<Rightarrow> 'a \<Rightarrow> 'a list result" where
  "vset xs i x = (if 0 \<le> i \<and> i < int (length xs) then Inr (xs[nat i := x]) else Inl OutOfRange)"

lemma vget_eq_Inr: "vget xs i = Inr x \<longleftrightarrow> 0 \<le> i \<and> i < int (length xs) \<and> x = xs ! nat i"
  by (auto simp: vget_def)

lemma vset_eq_Inr: "vset xs i x = Inr ys \<longleftrightarrow> 0 \<le> i \<and> i < int (length xs) \<and> ys = xs[nat i := x]"
  by (auto simp: vset_def)

lemma vset_vget_same [simp]: "vget xs i = Inr x \<Longrightarrow> vset xs i x = Inr xs"
  by (simp add: vget_eq_Inr vset_eq_Inr)

lemma vget_update:
  assumes "0 \<le> i" and "i < int (length xs)"
  shows "vget (xs[nat i := x]) j = (if j = i then Inr x else vget xs j)"
  using assms by (auto simp: vget_def nth_list_update eq_nat_nat_iff)

text \<open>The integers from 0 to \<open>n - 1\<close>, as a \<open>for (int i = 0; i < n; i++)\<close> counts.\<close>

definition indices :: "int \<Rightarrow> int list" where
  "indices n = map int [0..<nat n]"

lemma set_indices [simp]: "set (indices n) = {0..<n}"
  by (auto simp: indices_def image_iff intro!: bexI [of _ "nat _"])

lemma distinct_indices [simp]: "distinct (indices n)"
  by (simp add: indices_def distinct_map)

lemma length_indices [simp]: "length (indices n) = nat n"
  by (simp add: indices_def)

lemma indices_append: "0 \<le> a \<Longrightarrow> 0 \<le> b \<Longrightarrow> indices (a + b) = indices a @ map (\<lambda>i. a + i) (indices b)"
  using upt_add_eq_append [of 0 "nat a" "nat b"] map_add_upt [of "nat a" "nat b"]
  by (auto simp: indices_def nat_add_distrib comp_def intro!: nth_equalityI)

section \<open>Three-dimensional vectors\<close>

type_synonym 'a vec3 = "'a list list list"

definition vec3_get :: "'a vec3 \<Rightarrow> int \<Rightarrow> int \<Rightarrow> int \<Rightarrow> 'a result" where
  "vec3_get v i j k = bindE (vget v i) (\<lambda>p. bindE (vget p j) (\<lambda>l. vget l k))"

text \<open>An access that calls a mutating member function of the element.\<close>

definition vec3_upd :: "'a vec3 \<Rightarrow> int \<Rightarrow> int \<Rightarrow> int \<Rightarrow> ('a \<Rightarrow> 'a result) \<Rightarrow> 'a vec3 result" where
  "vec3_upd v i j k f =
     bindE (vget v i) (\<lambda>p. bindE (vget p j) (\<lambda>l. bindE (vget l k) (\<lambda>x.
     bindE (f x) (\<lambda>y. bindE (vset l k y) (\<lambda>l'. bindE (vset p j l') (\<lambda>p'. vset v i p'))))))"

definition vec3_lookup :: "'a vec3 \<Rightarrow> int \<times> int \<times> int \<Rightarrow> 'a option" where
  "vec3_lookup v = (\<lambda>(i, j, k).
     case vec3_get v i j k of Inl _ \<Rightarrow> None | Inr x \<Rightarrow> Some x)"

definition vec3_replicate :: "int \<Rightarrow> int \<Rightarrow> int \<Rightarrow> 'a \<Rightarrow> 'a vec3" where
  "vec3_replicate a b c x = replicate (nat a) (replicate (nat b) (replicate (nat c) x))"

text \<open>The contract of an array with three indices, through its contents as a partial map.\<close>

locale array3 =
  fixes get :: "'v \<Rightarrow> int \<Rightarrow> int \<Rightarrow> int \<Rightarrow> 'a result"
    and upd :: "'v \<Rightarrow> int \<Rightarrow> int \<Rightarrow> int \<Rightarrow> ('a \<Rightarrow> 'a result) \<Rightarrow> 'v result"
    and lookup :: "'v \<Rightarrow> int \<times> int \<times> int \<Rightarrow> 'a option"
  assumes get_law: "get v i j k =
      (case lookup v (i, j, k) of None \<Rightarrow> Inl OutOfRange | Some x \<Rightarrow> Inr x)"
    and upd_none: "lookup v (i, j, k) = None \<Longrightarrow> upd v i j k f = Inl OutOfRange"
    and upd_fail: "lookup v (i, j, k) = Some x \<Longrightarrow> f x = Inl e \<Longrightarrow> upd v i j k f = Inl e"
    and upd_some: "lookup v (i, j, k) = Some x \<Longrightarrow> f x = Inr y \<Longrightarrow>
      \<exists>w. upd v i j k f = Inr w \<and> lookup w = (lookup v)((i, j, k) \<mapsto> y)"
begin

lemma get_eq_Inr: "get v i j k = Inr x \<longleftrightarrow> lookup v (i, j, k) = Some x"
  by (simp add: get_law split: option.splits)

lemma upd_eq_InrD:
  assumes "upd v i j k f = Inr w"
  obtains x y where "lookup v (i, j, k) = Some x" and "f x = Inr y"
    and "lookup w = (lookup v)((i, j, k) \<mapsto> y)"
proof (cases "lookup v (i, j, k)")
  case None
  with assms upd_none [of v i j k f] show ?thesis by simp
next
  case (Some x)
  show ?thesis
  proof (cases "f x")
    case (Inl e)
    with Some assms upd_fail [of v i j k x f e] show ?thesis by simp
  next
    case (Inr y)
    with Some assms upd_some [of v i j k x f y] that show ?thesis by auto
  qed
qed

lemma upd_okE:
  assumes "lookup v (i, j, k) = Some x" and "f x = Inr y"
    and "\<And>w. lookup w = (lookup v)((i, j, k) \<mapsto> y) \<Longrightarrow> Q w"
  shows "okE Q (upd v i j k f)"
  using upd_some [of v i j k x f y, OF assms(1,2)] assms(3) by auto

text \<open>A loop that applies total updates at given places: each place sees its own updates, in
  the order of the loop.\<close>

lemma fold_upd:
  assumes "\<forall>((i, j, k), f) \<in> set L. lookup v (i, j, k) \<noteq> None"
  shows "\<exists>w. foldE (\<lambda>((i, j, k), f) v. upd v i j k (\<lambda>x. Inr (f x))) L v = Inr w \<and>
    lookup w = (\<lambda>p. map_option (fold (\<lambda>(q, f) x. if q = p then f x else x) L) (lookup v p))"
  using assms
proof (induction L arbitrary: v)
  case Nil
  show ?case by (simp add: option.map_ident)
next
  case (Cons a L)
  obtain i j k f where a: "a = ((i, j, k), f)" by (metis prod.exhaust)
  from Cons.prems a obtain x where x: "lookup v (i, j, k) = Some x" by auto
  from upd_some [OF x, of "\<lambda>x. Inr (f x)"] obtain u where
    u: "upd v i j k (\<lambda>x. Inr (f x)) = Inr u" "lookup u = (lookup v)((i, j, k) \<mapsto> f x)" by auto
  have "\<forall>((i, j, k), f) \<in> set L. lookup u (i, j, k) \<noteq> None"
    using Cons.prems by (auto simp: u(2))
  from Cons.IH [OF this] obtain w where
    w: "foldE (\<lambda>((i, j, k), f) v. upd v i j k (\<lambda>x. Inr (f x))) L u = Inr w"
       "lookup w = (\<lambda>p. map_option (fold (\<lambda>(q, f) x. if q = p then f x else x) L) (lookup u p))"
    by auto
  have "lookup w = (\<lambda>p. map_option
      (fold (\<lambda>(q, f) x. if q = p then f x else x) (a # L)) (lookup v p))"
    by (rule ext) (auto simp: w(2) u(2) a x comp_def)
  with u(1) w(1) show ?case by (simp add: a comp_def)
qed

text \<open>A loop that applies one fallible update at distinct places where it succeeds.\<close>

lemma fold_upd_distinct:
  assumes "distinct ps"
    and "\<forall>p \<in> set ps. \<exists>x. lookup v p = Some x \<and> f x = Inr (g x)"
  shows "\<exists>w. foldE (\<lambda>(i, j, k) v. upd v i j k f) ps v = Inr w \<and>
    lookup w = (\<lambda>p. if p \<in> set ps then map_option g (lookup v p) else lookup v p)"
  using assms
proof (induction ps arbitrary: v)
  case Nil
  show ?case by simp
next
  case (Cons a ps)
  obtain i j k where a: "a = (i, j, k)" by (metis prod.exhaust)
  from Cons.prems(2) a obtain x where x: "lookup v (i, j, k) = Some x" "f x = Inr (g x)" by auto
  from upd_some [of v i j k x f "g x", OF x] obtain u where
    u: "upd v i j k f = Inr u" "lookup u = (lookup v)((i, j, k) \<mapsto> g x)" by auto
  have "\<forall>p \<in> set ps. \<exists>x. lookup u p = Some x \<and> f x = Inr (g x)"
    using Cons.prems a by (auto simp: u(2))
  from Cons.IH [OF _ this] Cons.prems(1) obtain w where
    w: "foldE (\<lambda>(i, j, k) v. upd v i j k f) ps u = Inr w"
       "lookup w = (\<lambda>p. if p \<in> set ps then map_option g (lookup u p) else lookup u p)" by auto
  have "lookup w = (\<lambda>p. if p \<in> set (a # ps) then map_option g (lookup v p) else lookup v p)"
    using Cons.prems(1) by (auto simp: w(2) u(2) a x(1) fun_eq_iff)
  with u(1) w(1) show ?case by (simp add: a)
qed

end

lemma vec3_get_eq_Inr: "vec3_get v i j k = Inr x \<longleftrightarrow>
    0 \<le> i \<and> i < int (length v) \<and> 0 \<le> j \<and> j < int (length (v ! nat i)) \<and>
    0 \<le> k \<and> k < int (length (v ! nat i ! nat j)) \<and> x = v ! nat i ! nat j ! nat k"
  by (auto simp: vec3_get_def bindE_eq_Inr vget_eq_Inr)

lemma vec3_lookup_eq_Some: "vec3_lookup v (i, j, k) = Some x \<longleftrightarrow> vec3_get v i j k = Inr x"
  by (simp add: vec3_lookup_def split: sum.splits)

lemma vec3_get_error: "vec3_get v i j k = Inl e \<Longrightarrow> e = OutOfRange"
  by (auto simp: vec3_get_def vget_def split: if_splits)

lemma vec3_upd_lookup:
  assumes "vec3_lookup v (i, j, k) = Some x" and "f x = Inr y"
  shows "\<exists>w. vec3_upd v i j k f = Inr w \<and> vec3_lookup w = (vec3_lookup v)((i, j, k) \<mapsto> y)"
proof -
  let ?w = "v[nat i := (v ! nat i)[nat j := (v ! nat i ! nat j)[nat k := y]]]"
  from assms(1) have r: "0 \<le> i" "i < int (length v)" "0 \<le> j" "j < int (length (v ! nat i))"
    "0 \<le> k" "k < int (length (v ! nat i ! nat j))" "x = v ! nat i ! nat j ! nat k"
    by (simp_all add: vec3_lookup_eq_Some vec3_get_eq_Inr)
  have "vec3_upd v i j k f = Inr ?w"
    using r assms(2) by (simp add: vec3_upd_def vget_def vset_def)
  moreover have "vec3_lookup ?w (a, b, c) = ((vec3_lookup v)((i, j, k) \<mapsto> y)) (a, b, c)" for a b c
    using r by (simp add: vec3_lookup_def vec3_get_def vget_update)
      (simp add: vget_def)
  then have "vec3_lookup ?w = (vec3_lookup v)((i, j, k) \<mapsto> y)"
    by (simp add: fun_eq_iff split_paired_all)
  ultimately show ?thesis by blast
qed

interpretation vec3: array3 vec3_get vec3_upd vec3_lookup
proof unfold_locales
  fix v :: "'a vec3" and i j k f x y e
  show "vec3_get v i j k =
      (case vec3_lookup v (i, j, k) of None \<Rightarrow> Inl OutOfRange | Some x \<Rightarrow> Inr x)"
    by (auto simp: vec3_lookup_def dest: vec3_get_error split: sum.splits)
  show "vec3_lookup v (i, j, k) = None \<Longrightarrow> vec3_upd v i j k f = Inl OutOfRange"
    by (auto simp: vec3_lookup_def vec3_upd_def vec3_get_def vget_def split: sum.splits if_splits)
  show "vec3_lookup v (i, j, k) = Some x \<Longrightarrow> f x = Inl e \<Longrightarrow> vec3_upd v i j k f = Inl e"
    by (auto simp: vec3_lookup_def vec3_upd_def vec3_get_def vget_def split: sum.splits if_splits)
  show "vec3_lookup v (i, j, k) = Some x \<Longrightarrow> f x = Inr y \<Longrightarrow>
      \<exists>w. vec3_upd v i j k f = Inr w \<and> vec3_lookup w = (vec3_lookup v)((i, j, k) \<mapsto> y)"
    by (rule vec3_upd_lookup)
qed

lemma vec3_lookup_replicate: "vec3_lookup (vec3_replicate a b c x) (i, j, k) =
    (if 0 \<le> i \<and> i < a \<and> 0 \<le> j \<and> j < b \<and> 0 \<le> k \<and> k < c then Some x else None)"
  by (auto simp: vec3_lookup_def vec3_get_def vget_def vec3_replicate_def)

section \<open>The standard library's \<open>multimap\<close>\<close>

text \<open>
  Entries in insertion order. Since C++11 \<open>insert\<close> puts an entry behind those of its key
  and the order of a key's entries never changes; \<open>find\<close> returns the first entry of the key
  (the C++ standard leaves open which one, the library in use returns the lower bound).
\<close>

type_synonym ('k, 'v) multimap = "('k \<times> 'v) list"

definition mm_insert :: "'k \<Rightarrow> 'v \<Rightarrow> ('k, 'v) multimap \<Rightarrow> ('k, 'v) multimap" where
  "mm_insert k v m = m @ [(k, v)]"

definition mm_count :: "('k, 'v) multimap \<Rightarrow> 'k \<Rightarrow> nat" where
  "mm_count m k = length (filter (\<lambda>e. fst e = k) m)"

definition mm_find :: "('k, 'v) multimap \<Rightarrow> 'k \<Rightarrow> 'v option" where
  "mm_find m k = map_of m k"

definition mm_erase :: "'k \<Rightarrow> ('k, 'v) multimap \<Rightarrow> ('k, 'v) multimap" where
  "mm_erase k m = remove_first (\<lambda>e. fst e = k) m"

definition mm_entries :: "('k, 'v) multimap \<Rightarrow> 'k \<Rightarrow> 'v list" where
  "mm_entries m k = map snd (filter (\<lambda>e. fst e = k) m)"

text \<open>The contract of a multimap, through the list of each key's entries.\<close>

locale multimap_spec =
  fixes insert :: "'k \<Rightarrow> 'v \<Rightarrow> 'm \<Rightarrow> 'm"
    and count :: "'m \<Rightarrow> 'k \<Rightarrow> nat"
    and find :: "'m \<Rightarrow> 'k \<Rightarrow> 'v option"
    and erase :: "'k \<Rightarrow> 'm \<Rightarrow> 'm"
    and entries :: "'m \<Rightarrow> 'k \<Rightarrow> 'v list"
  assumes entries_insert: "entries (insert k v m) = (entries m)(k := entries m k @ [v])"
    and count_entries: "count m k = length (entries m k)"
    and find_entries: "find m k = (case entries m k of [] \<Rightarrow> None | v # _ \<Rightarrow> Some v)"
    and entries_erase: "entries (erase k m) = (entries m)(k := tl (entries m k))"
begin

lemma find_None_iff: "find m k = None \<longleftrightarrow> count m k = 0"
  by (simp add: find_entries count_entries split: list.splits)

lemma count_insert: "count (insert k v m) k' = (if k' = k then Suc (count m k) else count m k')"
  by (simp add: count_entries entries_insert)

lemma count_erase: "count (erase k m) k' = (if k' = k then count m k - 1 else count m k')"
  by (simp add: count_entries entries_erase)

lemma find_erase_other: "k' \<noteq> k \<Longrightarrow> find (erase k m) k' = find m k'"
  by (simp add: find_entries entries_erase)

end

interpretation mm: multimap_spec mm_insert mm_count mm_find mm_erase mm_entries
proof unfold_locales
  fix m :: "('k, 'v) multimap" and k v
  show "mm_entries (mm_insert k v m) = (mm_entries m)(k := mm_entries m k @ [v])"
    by (auto simp: mm_entries_def mm_insert_def)
  show "mm_count m k = length (mm_entries m k)"
    by (simp add: mm_count_def mm_entries_def)
  show "mm_find m k = (case mm_entries m k of [] \<Rightarrow> None | v # _ \<Rightarrow> Some v)"
    by (induction m) (auto simp: mm_find_def mm_entries_def)
  show "mm_entries (mm_erase k m) = (mm_entries m)(k := tl (mm_entries m k))"
    by (induction m) (auto simp: mm_erase_def mm_entries_def fun_eq_iff)
qed

end
