(* ===== verification/Common.thy ===== *)
theory Common
  imports Prelude
begin

text \<open>
  \<open>common.h\<close> and \<open>common.cc\<close>: addresses, commands and transactions, and the helper
  functions on bits and strings. Lemmas: \<open>LogBase2\<close> is the rounded-down binary logarithm,
  \<open>ModuloWidth\<close> extracts a bit field, and \<open>StringSplit\<close> yields the maximal runs of
  characters between delimiters.
\<close>

unbundle bit_operations_syntax

section \<open>Addresses and commands\<close>

record address =
  a_channel :: int
  a_rank :: int
  a_bankgroup :: int
  a_bank :: int
  a_row :: int
  a_column :: int

definition Address :: "int \<Rightarrow> int \<Rightarrow> int \<Rightarrow> int \<Rightarrow> int \<Rightarrow> int \<Rightarrow> address" where
  "Address channel rank bankgroup bank row column =
     \<lparr>a_channel = channel, a_rank = rank, a_bankgroup = bankgroup, a_bank = bank,
      a_row = row, a_column = column\<rparr>"

text \<open>The default constructor.\<close>

definition Address_default :: address where
  "Address_default = Address (-1) (-1) (-1) (-1) (-1) (-1)"

datatype command_type =
    READ | READ_PRECHARGE | WRITE | WRITE_PRECHARGE | ACTIVATE | PRECHARGE
  | REFRESH_BANK | REFRESH | SREF_ENTER | SREF_EXIT | SIZE

record command =
  cmd_type :: command_type
  addr :: address
  hex_addr :: u64

definition Command :: "command_type \<Rightarrow> address \<Rightarrow> u64 \<Rightarrow> command" where
  "Command ct a h = \<lparr>cmd_type = ct, addr = a, hex_addr = h\<rparr>"

text \<open>The default constructor: an invalid command.\<close>

definition Command_default :: command where
  "Command_default = Command SIZE Address_default 0"

definition IsValid :: "command \<Rightarrow> bool" where
  "IsValid cmd = (cmd_type cmd \<noteq> SIZE)"

definition IsRefresh :: "command \<Rightarrow> bool" where
  "IsRefresh cmd = (cmd_type cmd = REFRESH \<or> cmd_type cmd = REFRESH_BANK)"

definition IsRead :: "command \<Rightarrow> bool" where
  "IsRead cmd = (cmd_type cmd = READ \<or> cmd_type cmd = READ_PRECHARGE)"

definition IsWrite :: "command \<Rightarrow> bool" where
  "IsWrite cmd = (cmd_type cmd = WRITE \<or> cmd_type cmd = WRITE_PRECHARGE)"

definition IsReadWrite :: "command \<Rightarrow> bool" where
  "IsReadWrite cmd = (IsRead cmd \<or> IsWrite cmd)"

definition IsRankCMD :: "command \<Rightarrow> bool" where
  "IsRankCMD cmd = (cmd_type cmd = REFRESH \<or> cmd_type cmd = SREF_ENTER \<or> cmd_type cmd = SREF_EXIT)"

definition Channel :: "command \<Rightarrow> int" where "Channel cmd = a_channel (addr cmd)"
definition Rank :: "command \<Rightarrow> int" where "Rank cmd = a_rank (addr cmd)"
definition Bankgroup :: "command \<Rightarrow> int" where "Bankgroup cmd = a_bankgroup (addr cmd)"
definition Bank :: "command \<Rightarrow> int" where "Bank cmd = a_bank (addr cmd)"
definition Row :: "command \<Rightarrow> int" where "Row cmd = a_row (addr cmd)"
definition Column :: "command \<Rightarrow> int" where "Column cmd = a_column (addr cmd)"

lemmas cmd_kind_defs =
  IsValid_def IsRefresh_def IsRead_def IsWrite_def IsReadWrite_def IsRankCMD_def
lemmas cmd_field_defs =
  Channel_def Rank_def Bankgroup_def Bank_def Row_def Column_def

lemma Address_simps [simp]:
  "a_channel (Address c r g b ro co) = c" "a_rank (Address c r g b ro co) = r"
  "a_bankgroup (Address c r g b ro co) = g" "a_bank (Address c r g b ro co) = b"
  "a_row (Address c r g b ro co) = ro" "a_column (Address c r g b ro co) = co"
  by (simp_all add: Address_def)

lemma Command_simps [simp]:
  "cmd_type (Command ct a h) = ct" "addr (Command ct a h) = a" "hex_addr (Command ct a h) = h"
  by (simp_all add: Command_def)

lemma Command_fields [simp]:
  "Channel (Command ct a h) = a_channel a" "Rank (Command ct a h) = a_rank a"
  "Bankgroup (Command ct a h) = a_bankgroup a" "Bank (Command ct a h) = a_bank a"
  "Row (Command ct a h) = a_row a" "Column (Command ct a h) = a_column a"
  by (simp_all add: cmd_field_defs)

lemma Command_default_invalid [simp]: "\<not> IsValid Command_default"
  by (simp add: IsValid_def Command_default_def)

section \<open>Transactions\<close>

record transaction =
  t_addr :: u64
  added_cycle :: u64
  complete_cycle :: u64
  is_write :: bool

definition Transaction :: "u64 \<Rightarrow> bool \<Rightarrow> transaction" where
  "Transaction a w = \<lparr>t_addr = a, added_cycle = 0, complete_cycle = 0, is_write = w\<rparr>"

text \<open>The operation names that \<open>operator>>\<close> reads as writes.\<close>

definition write_types :: "string set" where
  "write_types = {''WRITE'', ''write'', ''P_MEM_WR'', ''BOFF''}"

section \<open>Bits\<close>

text \<open>A shift by 64 or more is undefined in C++; the callers shift by less.\<close>

definition ModuloWidth :: "u64 \<Rightarrow> 32 word \<Rightarrow> 32 word \<Rightarrow> 32 word" where
  "ModuloWidth a bit_width pos =
     (let a1 = drop_bit (unat pos) a;
          store = a1;
          a2 = drop_bit (unat bit_width) a1;
          a3 = push_bit (unat bit_width) a2
      in ucast (store XOR a3))"

definition GetBitInPos :: "u64 \<Rightarrow> int \<Rightarrow> int" where
  "GetBitInPos bits pos = to_c_int (drop_bit (nat pos) bits AND 1)"

function log_base2_loop :: "int \<Rightarrow> int \<Rightarrow> int" where
  "log_base2_loop p i = (if p > 1 then log_base2_loop (p sdiv 2) (i + 1) else i)"
  by pat_completeness auto
termination
  by (relation "measure (\<lambda>(p, i). nat p)") (simp_all add: sdiv_nonneg nat_less_eq_zless)

definition LogBase2 :: "int \<Rightarrow> int" where
  "LogBase2 power_of_two = log_base2_loop power_of_two 0"

declare log_base2_loop.simps [simp del]

lemma log_base2_loop_acc: "log_base2_loop p (i + j) = log_base2_loop p i + j"
proof (induction p i rule: log_base2_loop.induct)
  case (1 p i)
  show ?case
  proof (cases "p > 1")
    case True
    from "1.IH" [OF True] True show ?thesis
      by (simp add: log_base2_loop.simps [of p i] log_base2_loop.simps [of p "i + j"] ac_simps)
  next
    case False
    then show ?thesis by (simp add: log_base2_loop.simps)
  qed
qed

lemma LogBase2_rec: "LogBase2 p = (if p > 1 then LogBase2 (p div 2) + 1 else 0)"
proof (cases "p > 1")
  case True
  then have "p sdiv 2 = p div 2" by (simp add: sdiv_nonneg)
  with True show ?thesis
    unfolding LogBase2_def
    using log_base2_loop_acc [of "p div 2" 0 1] by (subst log_base2_loop.simps) simp
qed (simp add: LogBase2_def log_base2_loop.simps)

lemma LogBase2_nonneg [simp]: "0 \<le> LogBase2 p"
proof (induction "nat p" arbitrary: p rule: less_induct)
  case less
  show ?case
  proof (cases "p > 1")
    case True
    then have "nat (p div 2) < nat p" by auto
    from less [OF this] show ?thesis by (subst LogBase2_rec) simp
  qed (subst LogBase2_rec, simp)
qed

lemma LogBase2_bounds:
  "p \<ge> 1 \<Longrightarrow> 2 ^ nat (LogBase2 p) \<le> p \<and> p < 2 ^ (nat (LogBase2 p) + 1)"
proof (induction "nat p" arbitrary: p rule: less_induct)
  case less
  show ?case
  proof (cases "p > 1")
    case True
    define l where "l = nat (LogBase2 (p div 2))"
    from True have "nat (p div 2) < nat p" "p div 2 \<ge> 1" by auto
    from less(1) [OF this] have "2 ^ l \<le> p div 2 \<and> p div 2 < 2 ^ (l + 1)"
      by (simp add: l_def)
    then have "2 ^ (l + 1) \<le> p \<and> p < 2 ^ (l + 1 + 1)"
      by (auto simp: power_add)
    moreover have "nat (LogBase2 p) = l + 1"
      using True by (subst LogBase2_rec) (simp add: l_def nat_add_distrib)
    ultimately show ?thesis by simp
  next
    case False
    with less(2) have "p = 1" by simp
    then show ?thesis by (simp add: LogBase2_rec [of 1])
  qed
qed

lemma LogBase2_power [simp]: "LogBase2 (2 ^ n) = int n"
proof (induction n)
  case 0
  show ?case by (subst LogBase2_rec) simp
next
  case (Suc n)
  have "(1::int) < 2 ^ Suc n" by (rule one_less_power) simp_all
  with Suc show ?case by (subst LogBase2_rec) simp
qed

lemma LogBase2_one [simp]: "LogBase2 1 = 0"
  by (subst LogBase2_rec) simp

section \<open>Strings\<close>

text \<open>The \<open>getline\<close> loop; \<open>item\<close> holds the characters of the current item, last first.\<close>

fun split_loop :: "char \<Rightarrow> string \<Rightarrow> string \<Rightarrow> string list" where
  "split_loop delim item [] = (if item = [] then [] else [rev item])"
| "split_loop delim item (c # s) =
     (if c = delim
      then (if item = [] then split_loop delim [] s else rev item # split_loop delim [] s)
      else split_loop delim (c # item) s)"

definition StringSplit :: "string \<Rightarrow> char \<Rightarrow> string list" where
  "StringSplit s delim = split_loop delim [] s"

lemma split_loop_items:
  "delim \<notin> set item \<Longrightarrow> t \<in> set (split_loop delim item s) \<Longrightarrow> t \<noteq> [] \<and> delim \<notin> set t"
  by (induction delim item s rule: split_loop.induct) (auto split: if_splits)

lemma split_loop_concat:
  "concat (split_loop delim item s) = rev item @ filter (\<lambda>c. c \<noteq> delim) s"
  by (induction delim item s rule: split_loop.induct) auto

section \<open>Properties\<close>

text \<open>\<open>LogBase2\<close> is the floor of the binary logarithm of every positive argument, and 0 for
  the others: it brackets its argument between two successive powers of two.\<close>

theorem LogBase2_floor:
  "(p < 1 \<longrightarrow> LogBase2 p = 0) \<and>
   (1 \<le> p \<longrightarrow> 2 ^ nat (LogBase2 p) \<le> p \<and> p < 2 ^ (nat (LogBase2 p) + 1)) \<and>
   LogBase2 (2 ^ n) = int n"
proof -
  have "LogBase2 p = 0" if "p < 1" using that by (subst LogBase2_rec) simp
  with LogBase2_bounds [of p] show ?thesis by simp
qed

theorem LogBase2_floor_witness:
  "LogBase2 1000 = 9 \<and> (2::int) ^ nat (LogBase2 1000) \<le> 1000 \<and> 1000 < (2::int) ^ (nat (LogBase2 1000) + 1)"
proof -
  have "LogBase2 1000 = 9" by code_simp
  with LogBase2_floor [of 1000 0] show ?thesis by simp
qed

text \<open>\<open>StringSplit\<close> returns the items between the delimiters: none of them is empty or
  contains the delimiter, and together they hold all other characters in their order.\<close>

theorem StringSplit_items:
  "(\<forall>t \<in> set (StringSplit s delim). t \<noteq> [] \<and> delim \<notin> set t) \<and>
   concat (StringSplit s delim) = filter (\<lambda>c. c \<noteq> delim) s"
  using split_loop_items [of delim "[]"] split_loop_concat [of delim "[]" s] by (auto simp: StringSplit_def)

theorem StringSplit_items_witness:
  "StringSplit ''a,,bc,'' (CHR '','') = [''a'', ''bc''] \<and>
   concat (StringSplit ''a,,bc,'' (CHR '','')) = ''abc''"
proof -
  have "filter (\<lambda>c. c \<noteq> CHR '','') ''a,,bc,'' = ''abc''" by simp
  with StringSplit_items [of "''a,,bc,''" "CHR '',''"] show ?thesis by (simp add: StringSplit_def)
qed

end
