(* ===== verification/BankState.thy ===== *)
theory BankState
  imports Common
begin

text \<open>
  \<open>bankstate.h\<close> and \<open>bankstate.cc\<close>: one DRAM bank as a state machine with the earliest cycle
  at which each kind of command may be executed. Lemmas: the answers of \<open>GetReadyCommand\<close> in
  every state, the transitions of \<open>UpdateState\<close>, that a command found ready can be executed,
  and that time constraints only grow.
\<close>

datatype bank_fsm = OPEN | CLOSED | SREF | PD | BANK_SIZE

text \<open>\<open>cmd_timing_\<close> has one element for each command but \<open>SIZE\<close>; it is a function here, and
  an update of the missing element is an access out of range.\<close>

record bank_state =
  bstate :: bank_fsm
  cmd_timing :: "command_type \<Rightarrow> u64"
  open_row :: int
  row_hit_count :: int
  in_serve :: bool
  serve_end_cycle :: u64
  precharge_by_refresh :: bool
  activate_by_who :: bool

definition BankState :: bank_state where
  "BankState = \<lparr>bstate = CLOSED, cmd_timing = (\<lambda>_. 0), open_row = -1, row_hit_count = 0,
     in_serve = False, serve_end_cycle = 0, precharge_by_refresh = False,
     activate_by_who = False\<rparr>"

definition IsRowOpen :: "bank_state \<Rightarrow> bool" where "IsRowOpen b = (bstate b = OPEN)"
definition OpenRow :: "bank_state \<Rightarrow> int" where "OpenRow b = open_row b"
definition RowHitCount :: "bank_state \<Rightarrow> int" where "RowHitCount b = row_hit_count b"
definition IsRowClosed :: "bank_state \<Rightarrow> bool" where "IsRowClosed b = (bstate b = CLOSED)"
definition SetInServe :: "bool \<Rightarrow> bank_state \<Rightarrow> bank_state" where
  "SetInServe v b = b\<lparr>in_serve := v\<rparr>"
definition SetServeEndCycle :: "u64 \<Rightarrow> bank_state \<Rightarrow> bank_state" where
  "SetServeEndCycle v b = b\<lparr>serve_end_cycle := v\<rparr>"
definition ReturnInServe :: "bank_state \<Rightarrow> bool" where "ReturnInServe b = in_serve b"
definition ReturnServeEndCycle :: "bank_state \<Rightarrow> u64" where
  "ReturnServeEndCycle b = serve_end_cycle b"
definition ReturnPrechargeByRefresh :: "bank_state \<Rightarrow> bool" where
  "ReturnPrechargeByRefresh b = precharge_by_refresh b"
definition ReturnActivateByWho :: "bank_state \<Rightarrow> bool" where
  "ReturnActivateByWho b = activate_by_who b"

section \<open>Operations\<close>

text \<open>The \<open>switch\<close> of \<open>GetReadyCommand\<close>: the command required next for \<open>cmd\<close>, and the flags
  it sets.\<close>

definition required_command :: "command \<Rightarrow> bank_state \<Rightarrow> (command_type \<times> bank_state) result" where
  "required_command cmd b = (case bstate b of
     CLOSED \<Rightarrow> (case cmd_type cmd of
         READ \<Rightarrow> Inr (ACTIVATE, b\<lparr>activate_by_who := False\<rparr>)
       | READ_PRECHARGE \<Rightarrow> Inr (ACTIVATE, b\<lparr>activate_by_who := False\<rparr>)
       | WRITE \<Rightarrow> Inr (ACTIVATE, b\<lparr>activate_by_who := True\<rparr>)
       | WRITE_PRECHARGE \<Rightarrow> Inr (ACTIVATE, b\<lparr>activate_by_who := True\<rparr>)
       | REFRESH \<Rightarrow> Inr (REFRESH, b)
       | REFRESH_BANK \<Rightarrow> Inr (REFRESH_BANK, b)
       | SREF_ENTER \<Rightarrow> Inr (SREF_ENTER, b)
       | _ \<Rightarrow> Inl (AbruptExit ''bankstate.cc'' 51))
   | OPEN \<Rightarrow>
       (if cmd_type cmd \<in> {READ, READ_PRECHARGE, WRITE, WRITE_PRECHARGE} then
          (if Row cmd = open_row b then Inr (cmd_type cmd, b)
           else Inr (PRECHARGE, b\<lparr>precharge_by_refresh := True\<rparr>))
        else if cmd_type cmd \<in> {REFRESH, REFRESH_BANK, SREF_ENTER} then
          Inr (PRECHARGE, b\<lparr>precharge_by_refresh := False\<rparr>)
        else Inl (AbruptExit ''bankstate.cc'' 76))
   | SREF \<Rightarrow>
       (if cmd_type cmd \<in> {READ, READ_PRECHARGE, WRITE, WRITE_PRECHARGE} then Inr (SREF_EXIT, b)
        else Inl (AbruptExit ''bankstate.cc'' 90))
   | _ \<Rightarrow> Inl (AbruptExit ''bankstate.cc'' 97))"

definition bank_GetReadyCommand :: "command \<Rightarrow> u64 \<Rightarrow> bank_state \<Rightarrow> (command \<times> bank_state) result" where
  "bank_GetReadyCommand cmd clk b =
     bindE (required_command cmd b) (\<lambda>(required_type, b').
       if required_type \<noteq> SIZE \<and> clk \<ge> cmd_timing b' required_type
       then Inr (Command required_type (addr cmd) (hex_addr cmd), b')
       else Inr (Command_default, b'))"

definition bank_UpdateState :: "command \<Rightarrow> bank_state \<Rightarrow> bank_state result" where
  "bank_UpdateState cmd b = (case bstate b of
     OPEN \<Rightarrow>
       (if cmd_type cmd \<in> {READ, WRITE} then Inr (b\<lparr>row_hit_count := row_hit_count b + 1\<rparr>)
        else if cmd_type cmd \<in> {READ_PRECHARGE, WRITE_PRECHARGE, PRECHARGE} then
          Inr (b\<lparr>bstate := CLOSED, open_row := -1, row_hit_count := 0\<rparr>)
        else Inl (AbruptExit ''bankstate.cc'' 134))
   | CLOSED \<Rightarrow>
       (if cmd_type cmd \<in> {REFRESH, REFRESH_BANK} then Inr b
        else if cmd_type cmd = ACTIVATE then Inr (b\<lparr>bstate := OPEN, open_row := Row cmd\<rparr>)
        else if cmd_type cmd = SREF_ENTER then Inr (b\<lparr>bstate := SREF\<rparr>)
        else Inl (AbruptExit ''bankstate.cc'' 157))
   | SREF \<Rightarrow>
       (if cmd_type cmd = SREF_EXIT then Inr (b\<lparr>bstate := CLOSED\<rparr>)
        else Inl (AbruptExit ''bankstate.cc'' 175))
   | _ \<Rightarrow> Inl (AbruptExit ''bankstate.cc'' 179))"

definition bank_UpdateTiming :: "command_type \<Rightarrow> u64 \<Rightarrow> bank_state \<Rightarrow> bank_state result" where
  "bank_UpdateTiming ct time b =
     (if ct = SIZE then Inl OutOfRange
      else Inr (b\<lparr>cmd_timing := (cmd_timing b)(ct := max (cmd_timing b ct) time)\<rparr>))"

section \<open>The protocol of a bank\<close>

text \<open>The specification: which command a bank in a given state may execute, and the state after
  it.\<close>

inductive bank_step :: "bank_fsm \<Rightarrow> command_type \<Rightarrow> bank_fsm \<Rightarrow> bool" where
  column_access: "ct = READ \<or> ct = WRITE \<Longrightarrow> bank_step OPEN ct OPEN"
| row_close: "ct = READ_PRECHARGE \<or> ct = WRITE_PRECHARGE \<or> ct = PRECHARGE \<Longrightarrow>
    bank_step OPEN ct CLOSED"
| refresh: "ct = REFRESH \<or> ct = REFRESH_BANK \<Longrightarrow> bank_step CLOSED ct CLOSED"
| row_open: "bank_step CLOSED ACTIVATE OPEN"
| sref_enter: "bank_step CLOSED SREF_ENTER SREF"
| sref_exit: "bank_step SREF SREF_EXIT CLOSED"

code_pred (modes: i \<Rightarrow> i \<Rightarrow> i \<Rightarrow> bool) bank_step .

inductive_cases bank_step_openE: "bank_step OPEN ct s"
inductive_cases bank_step_closedE: "bank_step CLOSED ct s"
inductive_cases bank_step_srefE: "bank_step SREF ct s"

inductive_simps bank_step_simps:
  "bank_step OPEN ct s" "bank_step CLOSED ct s" "bank_step SREF ct s" "bank_step PD ct s"
  "bank_step BANK_SIZE ct s"

lemma bank_UpdateState_step:
  "bank_UpdateState cmd b = Inr b' \<Longrightarrow> bank_step (bstate b) (cmd_type cmd) (bstate b')"
  by (cases "bstate b"; cases "cmd_type cmd")
    (auto simp: bank_UpdateState_def bank_step_simps)

lemma bank_step_UpdateState:
  "bank_step (bstate b) (cmd_type cmd) s \<Longrightarrow> okE (\<lambda>b'. bstate b' = s) (bank_UpdateState cmd b)"
  by (cases "bstate b"; cases "cmd_type cmd")
    (auto simp: bank_UpdateState_def bank_step_simps)

lemma bank_step_unique: "bank_step s ct t \<Longrightarrow> bank_step s ct u \<Longrightarrow> t = u"
  by (cases s) (auto simp: bank_step_simps)

section \<open>Ready commands\<close>

lemma required_command_bstate:
  "required_command cmd b = Inr (r, b') \<Longrightarrow>
   bstate b' = bstate b \<and> cmd_timing b' = cmd_timing b \<and> open_row b' = open_row b \<and>
   row_hit_count b' = row_hit_count b \<and> in_serve b' = in_serve b \<and>
   serve_end_cycle b' = serve_end_cycle b"
  by (auto simp: required_command_def split: bank_fsm.splits command_type.splits if_splits)

lemma required_command_legal:
  "required_command cmd b = Inr (r, b') \<Longrightarrow> \<exists>s. bank_step (bstate b) r s"
  by (auto simp: required_command_def bank_step_simps
      split: bank_fsm.splits command_type.splits if_splits)

lemma required_command_valid: "required_command cmd b = Inr (r, b') \<Longrightarrow> r \<noteq> SIZE"
  by (auto simp: required_command_def split: bank_fsm.splits command_type.splits if_splits)

lemma bank_GetReadyCommand_cases:
  assumes "bank_GetReadyCommand cmd clk b = Inr (r, b')"
  obtains ct where "required_command cmd b = Inr (ct, b')" and "ct \<noteq> SIZE"
    and "r = (if cmd_timing b ct \<le> clk then Command ct (addr cmd) (hex_addr cmd) else Command_default)"
proof -
  from assms obtain ct where r: "required_command cmd b = Inr (ct, b')"
    "r = (if ct \<noteq> SIZE \<and> clk \<ge> cmd_timing b' ct
       then Command ct (addr cmd) (hex_addr cmd) else Command_default)"
    by (auto simp: bank_GetReadyCommand_def bindE_eq_Inr split: if_splits)
  with required_command_valid [OF r(1)] required_command_bstate [OF r(1)]
  show thesis by (intro that [of ct]) simp_all
qed

text \<open>A command found ready carries the address of the request, is one the bank may execute,
  and its constraint is met.\<close>

lemma bank_ready:
  assumes "bank_GetReadyCommand cmd clk b = Inr (r, b')" and "IsValid r"
  shows "addr r = addr cmd" "hex_addr r = hex_addr cmd" "cmd_timing b (cmd_type r) \<le> clk"
    "required_command cmd b = Inr (cmd_type r, b')"
    "\<exists>s. bank_step (bstate b) (cmd_type r) s"
proof -
  from assms(1) obtain ct where ct: "required_command cmd b = Inr (ct, b')"
    "r = (if cmd_timing b ct \<le> clk then Command ct (addr cmd) (hex_addr cmd) else Command_default)"
    by (rule bank_GetReadyCommand_cases)
  with assms(2) have "cmd_timing b ct \<le> clk" "r = Command ct (addr cmd) (hex_addr cmd)"
    by (auto split: if_splits)
  with ct(1) required_command_legal [OF ct(1)]
  show "addr r = addr cmd" "hex_addr r = hex_addr cmd" "cmd_timing b (cmd_type r) \<le> clk"
    "required_command cmd b = Inr (cmd_type r, b')" "\<exists>s. bank_step (bstate b) (cmd_type r) s"
    by simp_all
qed

text \<open>A read or write is answered by itself only when its row is open.\<close>

lemma required_command_rw:
  "required_command cmd b = Inr (ct, b') \<Longrightarrow> IsReadWrite (Command ct a h) \<Longrightarrow>
   ct = cmd_type cmd \<and> bstate b = OPEN \<and> open_row b = Row cmd"
  by (auto simp: required_command_def cmd_kind_defs
      split: bank_fsm.splits command_type.splits if_splits)

text \<open>A request for a rank needs itself or a precharge; a request for a bank never needs a
  command for the rank, except to leave self refresh.\<close>

lemma required_command_rank:
  "required_command cmd b = Inr (ct, b') \<Longrightarrow> IsRankCMD cmd \<Longrightarrow> ct \<noteq> cmd_type cmd \<Longrightarrow> ct = PRECHARGE"
  by (auto simp: required_command_def cmd_kind_defs
      split: bank_fsm.splits command_type.splits if_splits)

lemma required_command_bank:
  "required_command cmd b = Inr (ct, b') \<Longrightarrow> \<not> IsRankCMD cmd \<Longrightarrow>
   ct \<noteq> REFRESH \<and> ct \<noteq> SREF_ENTER \<and> (ct = SREF_EXIT \<longrightarrow> bstate b = SREF \<and> IsReadWrite cmd) \<and>
   (ct = REFRESH_BANK \<longrightarrow> cmd_type cmd = REFRESH_BANK)"
  by (auto simp: required_command_def cmd_kind_defs
      split: bank_fsm.splits command_type.splits if_splits)

lemma required_command_rw_ok:
  "IsReadWrite cmd \<Longrightarrow> bstate b \<in> {OPEN, CLOSED, SREF} \<Longrightarrow>
   okE (\<lambda>(ct, b'). ct = (case bstate b of
       OPEN \<Rightarrow> if Row cmd = open_row b then cmd_type cmd else PRECHARGE
     | CLOSED \<Rightarrow> ACTIVATE | _ \<Rightarrow> SREF_EXIT)) (required_command cmd b)"
  by (auto simp: required_command_def cmd_kind_defs)

lemma required_command_refresh_ok:
  "IsRefresh cmd \<or> cmd_type cmd = SREF_ENTER \<Longrightarrow> bstate b \<in> {OPEN, CLOSED} \<Longrightarrow>
   okE (\<lambda>(ct, b'). ct = (if bstate b = OPEN then PRECHARGE else cmd_type cmd))
     (required_command cmd b)"
  by (auto simp: required_command_def cmd_kind_defs)

section \<open>Serving a request\<close>

text \<open>One round of serving a request at a bank whose constraints are all met: execute the
  command that the bank requires next.\<close>

definition serve_round :: "command \<Rightarrow> bank_state \<Rightarrow> (command_type \<times> bank_state) result" where
  "serve_round cmd b = bindE (required_command cmd b) (\<lambda>(ct, b').
     bindE (bank_UpdateState (Command ct (addr cmd) (hex_addr cmd)) b') (\<lambda>b''. Inr (ct, b'')))"

fun serve_rounds :: "nat \<Rightarrow> command \<Rightarrow> bank_state \<Rightarrow> command_type list result" where
  "serve_rounds 0 cmd b = Inr []"
| "serve_rounds (Suc n) cmd b = bindE (serve_round cmd b) (\<lambda>(ct, b').
     if ct = cmd_type cmd then Inr [ct]
     else bindE (serve_rounds n cmd b') (\<lambda>cts. Inr (ct # cts)))"

section \<open>Constraints\<close>

lemma bank_UpdateTiming_okE:
  "ct \<noteq> SIZE \<Longrightarrow>
   bank_UpdateTiming ct t b = Inr (b\<lparr>cmd_timing := (cmd_timing b)(ct := max (cmd_timing b ct) t)\<rparr>)"
  by (simp add: bank_UpdateTiming_def)

lemma bank_UpdateState_timing:
  "bank_UpdateState cmd b = Inr b' \<Longrightarrow> cmd_timing b' = cmd_timing b"
  by (auto simp: bank_UpdateState_def split: bank_fsm.splits if_splits)

text \<open>Only an open bank has an open row, and only then a count of accesses.\<close>

definition bank_wf :: "bank_state \<Rightarrow> bool" where
  "bank_wf b \<longleftrightarrow> bstate b \<in> {OPEN, CLOSED, SREF} \<and> 0 \<le> row_hit_count b \<and>
     (bstate b \<noteq> OPEN \<longrightarrow> open_row b = -1 \<and> row_hit_count b = 0)"

lemma bank_wf_init [simp]: "bank_wf BankState"
  by (simp add: bank_wf_def BankState_def)

lemma bank_wf_UpdateState: "bank_UpdateState cmd b = Inr b' \<Longrightarrow> bank_wf b \<Longrightarrow> bank_wf b'"
  by (auto simp: bank_UpdateState_def bank_wf_def split: bank_fsm.splits if_splits)

lemma bank_wf_required: "required_command cmd b = Inr (r, b') \<Longrightarrow> bank_wf b \<Longrightarrow> bank_wf b'"
  by (drule required_command_bstate) (simp add: bank_wf_def)

section \<open>Properties\<close>

text \<open>C10. The bank implements its protocol: \<open>UpdateState\<close> executes exactly the commands the
  protocol \<open>bank_step\<close> allows in the current state, goes to the protocol's next state, and stops
  the program on every other command.\<close>

theorem bank_refines_protocol:
  "(\<exists>b'. bank_UpdateState cmd b = Inr b' \<and> bstate b' = s) \<longleftrightarrow> bank_step (bstate b) (cmd_type cmd) s"
  using bank_UpdateState_step [of cmd b] bank_step_UpdateState [of b cmd s] by (auto simp: okE_iff)

text \<open>C33. A read or write for a bank is served: if the bank executes the command that
  \<open>GetReadyCommand\<close> requires, again and again, then the request itself is executed after at most
  two other commands, whatever state the bank is in; the other commands only leave self refresh,
  close a row and open one.\<close>

theorem request_served:
  assumes "IsReadWrite cmd" and "bstate b \<in> {OPEN, CLOSED, SREF}"
  shows "okE (\<lambda>cts. \<exists>pre. cts = pre @ [cmd_type cmd] \<and> length pre \<le> 2 \<and>
      set pre \<subseteq> {SREF_EXIT, PRECHARGE, ACTIVATE}) (serve_rounds 3 cmd b)"
proof -
  have w: "cmd_type cmd \<in> {READ, READ_PRECHARGE, WRITE, WRITE_PRECHARGE}"
    using assms(1) by (auto simp: cmd_kind_defs)
  show ?thesis
    using assms(2) w
    by (auto simp: numeral_3_eq_3 serve_round_def required_command_def bank_UpdateState_def Row_def)
qed

theorem request_served_witness:
  "okE (\<lambda>cts. \<exists>pre. cts = pre @ [WRITE] \<and> length pre \<le> 2 \<and> set pre \<subseteq> {SREF_EXIT, PRECHARGE, ACTIVATE})
     (serve_rounds 3 (Command WRITE (Address 0 0 0 0 7 1) 64) (BankState\<lparr>bstate := OPEN, open_row := 3\<rparr>))"
  using request_served [of "Command WRITE (Address 0 0 0 0 7 1) 64" "BankState\<lparr>bstate := OPEN, open_row := 3\<rparr>"]
  by (simp add: cmd_kind_defs)

text \<open>A request to leave self refresh stops the program in every state of the bank, also in
  self refresh: \<open>GetReadyCommand\<close> has no case for it, and the controller's wake-up makes exactly
  this request.\<close>

theorem self_refresh_exit_stops:
  assumes "cmd_type cmd = SREF_EXIT"
  shows "\<exists>line. bank_GetReadyCommand cmd clk b = Inl (AbruptExit ''bankstate.cc'' line)"
  using assms by (cases "bstate b") (simp_all add: bank_GetReadyCommand_def required_command_def)

theorem self_refresh_exit_stops_witness:
  "\<exists>line. bank_GetReadyCommand (Command SREF_EXIT (Address (-1) 0 (-1) (-1) (-1) (-1)) 0) 9
     (BankState\<lparr>bstate := SREF\<rparr>) = Inl (AbruptExit ''bankstate.cc'' line)"
  by (rule self_refresh_exit_stops) simp

end
