(* ===== verification/Configuration.thy ===== *)
theory Configuration
  imports Common
begin

text \<open>
  \<open>configuration.h\<close> and \<open>configuration.cc\<close>: the parameters of a memory system. The
  configuration file is read by the third-party \<open>INIReader\<close>, which is a parameter here
  (\<open>ini_reader\<close>: one function per kind of value, each with section, option and default).
  Modelled are the initialisers of the integer, Boolean and string parameters, the size
  computation (the address mapping is in \<open>Address_Map\<close>; the power parameters, the file names
  and the parameters of the thermal model are in \<open>Power_Params\<close>). Lemma: the size computation yields
  at least one rank and a whole number of ranks.
\<close>

section \<open>Parameters\<close>

datatype dram_protocol =
    DDR3 | DDR4 | GDDR5 | GDDR5X | GDDR6 | LPDDR | LPDDR3 | LPDDR4 | HBM | HBM2 | HMC
  | PROTOCOL_SIZE

datatype refresh_policy_t =
    RANK_LEVEL_SIMULTANEOUS | RANK_LEVEL_STAGGERED | BANK_LEVEL_STAGGERED | POLICY_SIZE

record dram_structure =
  protocol :: dram_protocol
  channel_size :: int
  channels :: int
  ranks :: int
  banks :: int
  bankgroups :: int
  banks_per_group :: int
  rows :: int
  columns :: int
  device_width :: int
  bus_width :: int
  devices_per_rank :: int
  BL :: int

record address_numbers = dram_structure +
  shift_bits :: int
  ch_pos :: int
  ra_pos :: int
  bg_pos :: int
  ba_pos :: int
  ro_pos :: int
  co_pos :: int
  ch_mask :: u64
  ra_mask :: u64
  bg_mask :: u64
  ba_mask :: u64
  ro_mask :: u64
  co_mask :: u64
  request_size_bytes :: int

record timing_params = address_numbers +
  burst_cycle :: int
  AL :: int
  CL :: int
  CWL :: int
  RL :: int
  WL :: int
  tCCD_L :: int
  tCCD_S :: int
  tRTRS :: int
  tRTP :: int
  tWTR_L :: int
  tWTR_S :: int
  tWR :: int
  tRP :: int
  tRRD_L :: int
  tRRD_S :: int
  tRAS :: int
  tRCD :: int
  tRFC :: int
  tRC :: int

record timing_params2 = timing_params +
  tCKE :: int
  tCKESR :: int
  tXS :: int
  tXP :: int
  tRFCb :: int
  tREFI :: int
  tREFIb :: int
  tFAW :: int
  tRPRE :: int
  tWPRE :: int
  read_delay :: int
  write_delay :: int
  tPPD :: int
  t32AW :: int
  tRCDRD :: int
  tRCDWR :: int
  ideal_memory_latency :: int

record link_params = timing_params2 +
  num_links :: int
  num_dies :: int
  link_width :: int
  link_speed :: int
  block_size :: int
  xbar_queue_depth :: int

record config = link_params +
  address_mapping :: string
  queue_structure :: string
  row_buf_policy :: string
  refresh_policy :: refresh_policy_t
  cmd_queue_size :: int
  unified_queue :: bool
  trans_queue_size :: int
  write_buf_size :: int
  enable_self_refresh :: bool
  sref_threshold :: int
  aggressive_precharging_enabled :: bool
  enable_hbm_dual_cmd :: bool
  epoch_period :: int
  output_level :: int

definition IsGDDR :: "config \<Rightarrow> bool" where
  "IsGDDR c = (protocol c = GDDR5 \<or> protocol c = GDDR5X \<or> protocol c = GDDR6)"

definition IsHBM :: "config \<Rightarrow> bool" where
  "IsHBM c = (protocol c = HBM \<or> protocol c = HBM2)"

definition IsHMC :: "config \<Rightarrow> bool" where
  "IsHMC c = (protocol c = HMC)"

definition IsDDR4 :: "config \<Rightarrow> bool" where
  "IsDDR4 c = (protocol c = DDR4)"

section \<open>Reading the parameters\<close>

text \<open>The reader library: \<open>GetInteger\<close> returns a \<open>long\<close>.\<close>

record ini_reader =
  ini_Get :: "string \<Rightarrow> string \<Rightarrow> string \<Rightarrow> string"
  ini_GetInteger :: "string \<Rightarrow> string \<Rightarrow> int \<Rightarrow> int"
  ini_GetBoolean :: "string \<Rightarrow> string \<Rightarrow> bool \<Rightarrow> bool"

definition GetInteger :: "ini_reader \<Rightarrow> string \<Rightarrow> string \<Rightarrow> int \<Rightarrow> int" where
  "GetInteger rd sec opt default_val = signed_take_bit 31 (ini_GetInteger rd sec opt default_val)"

definition protocol_pairs :: "string \<rightharpoonup> dram_protocol" where
  "protocol_pairs = map_of
    [(''DDR3'', DDR3), (''DDR4'', DDR4), (''GDDR5'', GDDR5), (''GDDR5X'', GDDR5X),
     (''GDDR6'', GDDR6), (''LPDDR'', LPDDR), (''LPDDR3'', LPDDR3), (''LPDDR4'', LPDDR4),
     (''HBM'', HBM), (''HBM2'', HBM2), (''HMC'', HMC)]"

definition GetDRAMProtocol :: "string \<Rightarrow> dram_protocol result" where
  "GetDRAMProtocol protocol_str =
     (case protocol_pairs protocol_str of
        None \<Rightarrow> Inl (AbruptExit ''configuration.cc'' 88)
      | Some p \<Rightarrow> Inr p)"

definition InitSystemParams :: "ini_reader \<Rightarrow> config \<Rightarrow> config result" where
  "InitSystemParams rd c =
     (let ref_policy = ini_Get rd ''system'' ''refresh_policy'' ''RANK_LEVEL_STAGGERED'';
          c1 = c\<lparr>channel_size := GetInteger rd ''system'' ''channel_size'' 1024,
                 channels := GetInteger rd ''system'' ''channels'' 1,
                 bus_width := GetInteger rd ''system'' ''bus_width'' 64,
                 address_mapping := ini_Get rd ''system'' ''address_mapping'' ''chrobabgraco'',
                 queue_structure := ini_Get rd ''system'' ''queue_structure'' ''PER_BANK'',
                 row_buf_policy := ini_Get rd ''system'' ''row_buf_policy'' ''OPEN_PAGE'',
                 cmd_queue_size := GetInteger rd ''system'' ''cmd_queue_size'' 16,
                 trans_queue_size := GetInteger rd ''system'' ''trans_queue_size'' 32,
                 unified_queue := ini_GetBoolean rd ''system'' ''unified_queue'' False,
                 write_buf_size := GetInteger rd ''system'' ''write_buf_size'' 16\<rparr>;
          rest = (\<lambda>p. c1\<lparr>refresh_policy := p,
                 enable_self_refresh := ini_GetBoolean rd ''system'' ''enable_self_refresh'' False,
                 sref_threshold := GetInteger rd ''system'' ''sref_threshold'' 1000,
                 aggressive_precharging_enabled :=
                   ini_GetBoolean rd ''system'' ''aggressive_precharging_enabled'' False\<rparr>)
      in if ref_policy = ''RANK_LEVEL_SIMULTANEOUS'' then Inr (rest RANK_LEVEL_SIMULTANEOUS)
         else if ref_policy = ''RANK_LEVEL_STAGGERED'' then Inr (rest RANK_LEVEL_STAGGERED)
         else if ref_policy = ''BANK_LEVEL_STAGGERED'' then Inr (rest BANK_LEVEL_STAGGERED)
         else Inl (AbruptExit ''configuration.cc'' 250))"

text \<open>The burst length and cycles (\<open>BL = 0\<close> asks for perfect bandwidth).\<close>

definition set_burst :: "config \<Rightarrow> config" where
  "set_burst c =
     (if protocol c = GDDR5 then
        c\<lparr>burst_cycle := (if BL c = 0 then 0 else BL c sdiv 4),
          BL := (if BL c = 0 then 8 else BL c)\<rparr>
      else if protocol c = GDDR5X then
        c\<lparr>burst_cycle := (if BL c = 0 then 0 else BL c sdiv 8),
          BL := (if BL c = 0 then 8 else BL c)\<rparr>
      else if protocol c = GDDR6 then
        c\<lparr>burst_cycle := (if BL c = 0 then 0 else BL c sdiv 16),
          BL := (if BL c = 0 then 8 else BL c)\<rparr>
      else
        c\<lparr>burst_cycle := (if BL c = 0 then 0 else BL c sdiv 2),
          BL := (if BL c = 0 then (if IsHBM c then 4 else 8) else BL c)\<rparr>)"

definition set_columns :: "config \<Rightarrow> config" where
  "set_columns c =
     (if IsGDDR c then c\<lparr>columns := columns c * BL c\<rparr>
      else if IsHBM c then c\<lparr>columns := columns c * 2\<rparr>
      else c)"

definition set_structure :: "ini_reader \<Rightarrow> dram_protocol \<Rightarrow> config \<Rightarrow> config" where
  "set_structure rd p c =
     (let bgs = GetInteger rd ''dram_structure'' ''bankgroups'' 2;
          bpg = GetInteger rd ''dram_structure'' ''banks_per_group'' 2;
          bankgroup_enable = ini_GetBoolean rd ''dram_structure'' ''bankgroup_enable'' True;
          bpg' = (if \<not> bankgroup_enable then bpg * bgs else bpg);
          bgs' = (if \<not> bankgroup_enable then 1 else bgs)
      in c\<lparr>protocol := p, bankgroups := bgs', banks_per_group := bpg', banks := bgs' * bpg',
           rows := GetInteger rd ''dram_structure'' ''rows'' (2 ^ 16),
           columns := GetInteger rd ''dram_structure'' ''columns'' (2 ^ 10),
           device_width := GetInteger rd ''dram_structure'' ''device_width'' 8,
           BL := GetInteger rd ''dram_structure'' ''BL'' 8,
           num_dies := GetInteger rd ''dram_structure'' ''num_dies'' 1\<rparr>)"

definition set_links :: "ini_reader \<Rightarrow> config \<Rightarrow> config" where
  "set_links rd c =
     c\<lparr>enable_hbm_dual_cmd := (ini_GetBoolean rd ''dram_structure'' ''hbm_dual_cmd'' True \<and> IsHBM c),
       num_links := GetInteger rd ''hmc'' ''num_links'' 4,
       link_width := GetInteger rd ''hmc'' ''link_width'' 16,
       link_speed := GetInteger rd ''hmc'' ''link_speed'' 15000,
       block_size := GetInteger rd ''hmc'' ''block_size'' 64,
       xbar_queue_depth := GetInteger rd ''hmc'' ''xbar_queue_depth'' 16\<rparr>"

definition set_hmc_burst :: "config \<Rightarrow> config result" where
  "set_hmc_burst c =
     (if IsHMC c
      then (if device_width c = 0 then Inl DivByZero
            else Inr (c\<lparr>BL := (block_size c * 8) sdiv device_width c\<rparr>))
      else Inr c)"

definition InitDRAMParams :: "ini_reader \<Rightarrow> config \<Rightarrow> config result" where
  "InitDRAMParams rd c =
     bindE (GetDRAMProtocol (ini_Get rd ''dram_structure'' ''protocol'' ''DDR3'')) (\<lambda>p.
     bindE (set_hmc_burst (set_links rd (set_structure rd p c))) (\<lambda>c'.
     Inr (set_columns (set_burst c'))))"

text \<open>The timing parameters, in the order of the code: those the file gives, then the rest, then
  the delays.\<close>

definition core_timings :: "ini_reader \<Rightarrow> config \<Rightarrow> config" where
  "core_timings rd c = c\<lparr>
          AL := GetInteger rd ''timing'' ''AL'' 0,
          CL := GetInteger rd ''timing'' ''CL'' 12,
          CWL := GetInteger rd ''timing'' ''CWL'' 12,
          tCCD_L := GetInteger rd ''timing'' ''tCCD_L'' 6,
          tCCD_S := GetInteger rd ''timing'' ''tCCD_S'' 4,
          tRTRS := GetInteger rd ''timing'' ''tRTRS'' 2,
          tRTP := GetInteger rd ''timing'' ''tRTP'' 5,
          tWTR_L := GetInteger rd ''timing'' ''tWTR_L'' 5,
          tWTR_S := GetInteger rd ''timing'' ''tWTR_S'' 5,
          tWR := GetInteger rd ''timing'' ''tWR'' 10,
          tRP := GetInteger rd ''timing'' ''tRP'' 10,
          tRRD_L := GetInteger rd ''timing'' ''tRRD_L'' 4,
          tRRD_S := GetInteger rd ''timing'' ''tRRD_S'' 4,
          tRAS := GetInteger rd ''timing'' ''tRAS'' 24,
          tRCD := GetInteger rd ''timing'' ''tRCD'' 10,
          tRFC := GetInteger rd ''timing'' ''tRFC'' 74\<rparr>"

definition more_timings :: "ini_reader \<Rightarrow> config \<Rightarrow> config" where
  "more_timings rd c = c\<lparr>
          tRC := tRAS c + tRP c,
          tCKE := GetInteger rd ''timing'' ''tCKE'' 6,
          tCKESR := GetInteger rd ''timing'' ''tCKESR'' 12,
          tXS := GetInteger rd ''timing'' ''tXS'' 432,
          tXP := GetInteger rd ''timing'' ''tXP'' 8,
          tRFCb := GetInteger rd ''timing'' ''tRFCb'' 20,
          tREFI := GetInteger rd ''timing'' ''tREFI'' 7800,
          tREFIb := GetInteger rd ''timing'' ''tREFIb'' 1950,
          tFAW := GetInteger rd ''timing'' ''tFAW'' 50,
          tRPRE := GetInteger rd ''timing'' ''tRPRE'' 1,
          tWPRE := GetInteger rd ''timing'' ''tWPRE'' 1,
          tPPD := GetInteger rd ''timing'' ''tPPD'' 0,
          t32AW := GetInteger rd ''timing'' ''t32AW'' 330,
          tRCDRD := GetInteger rd ''timing'' ''tRCDRD'' 24,
          tRCDWR := GetInteger rd ''timing'' ''tRCDWR'' 20,
          ideal_memory_latency := GetInteger rd ''timing'' ''ideal_memory_latency'' 10\<rparr>"

definition set_latencies :: "config \<Rightarrow> config" where
  "set_latencies c = c\<lparr>RL := AL c + CL c, WL := AL c + CWL c\<rparr>"

definition set_delays :: "config \<Rightarrow> config" where
  "set_delays c = c\<lparr>read_delay := RL c + burst_cycle c, write_delay := WL c + burst_cycle c\<rparr>"

definition InitTimingParams :: "ini_reader \<Rightarrow> config \<Rightarrow> config" where
  "InitTimingParams rd c = set_delays (set_latencies (more_timings rd (core_timings rd c)))"

section \<open>The size of a channel\<close>

definition megs_per_rank :: "config \<Rightarrow> int" where
  "megs_per_rank c =
     (let page_size = (columns c * device_width c) sdiv 8;
          megs_per_bank = (page_size * (rows c sdiv 1024)) sdiv 1024
      in megs_per_bank * banks c * (bus_width c sdiv device_width c))"

definition CalculateSize :: "config \<Rightarrow> config result" where
  "CalculateSize c =
     (if device_width c = 0 then Inl DivByZero else
      let c1 = c\<lparr>devices_per_rank := bus_width c sdiv device_width c\<rparr>;
          mpr = megs_per_rank c
      in if mpr > channel_size c then Inr (c1\<lparr>ranks := 1, channel_size := mpr\<rparr>)
         else if mpr = 0 then Inl DivByZero
         else let rs = channel_size c sdiv mpr
              in Inr (c1\<lparr>ranks := rs, channel_size := rs * mpr\<rparr>))"

text \<open>The size the memory gets: at least one rank, a whole number of ranks, and no more than
  was asked for unless one rank is already larger.\<close>

lemma CalculateSize_ok:
  assumes "device_width c \<noteq> 0" and "0 < megs_per_rank c" and "0 \<le> channel_size c"
  shows "okE (\<lambda>c'. 1 \<le> ranks c' \<and> channel_size c' = ranks c' * megs_per_rank c \<and>
      channel_size c' \<le> max (channel_size c) (megs_per_rank c) \<and>
      channel_size c < channel_size c' + megs_per_rank c) (CalculateSize c)"
proof (cases "megs_per_rank c > channel_size c")
  case True
  with assms show ?thesis by (simp add: CalculateSize_def Let_def)
next
  case False
  let ?m = "megs_per_rank c"
  have sd: "channel_size c sdiv ?m = channel_size c div ?m"
    using assms by (simp add: sdiv_nonneg)
  have "1 \<le> channel_size c div ?m"
    using False assms(2) by (simp add: pos_imp_zdiv_pos_iff int_one_le_iff_zero_less)
  moreover have "channel_size c div ?m * ?m \<le> channel_size c"
      "channel_size c < channel_size c div ?m * ?m + ?m"
    using div_mult_mod_eq [of "channel_size c" ?m] pos_mod_sign [OF assms(2), of "channel_size c"]
      pos_mod_bound [OF assms(2), of "channel_size c"] by linarith+
  ultimately show ?thesis
    using False assms by (simp add: CalculateSize_def Let_def sd)
qed

end
