(* ===== verification/Timing.thy ===== *)
theory Timing
  imports Configuration
begin

text \<open>
  \<open>timing.h\<close> and \<open>timing.cc\<close>: the minimum distances between two commands, computed once from
  the configuration. The code keeps five vectors indexed by the earlier command, one for each
  relation between the places of the two commands; here the five lists of a command form a
  record and \<open>Timing\<close> gives the record of every command. Each local variable of the constructor
  is a definition, with the corrections for a single bank group included. Lemmas: which
  commands a list can mention, and which distances are positive.
\<close>

type_synonym timing_list = "(command_type \<times> int) list"

record timing_lists =
  same_bank :: timing_list
  other_banks_same_bankgroup :: timing_list
  other_bankgroups_same_rank :: timing_list
  other_ranks :: timing_list
  same_rank :: timing_list

type_synonym timing = "command_type \<Rightarrow> timing_lists"

section \<open>Distances\<close>

definition read_to_read_l :: "config \<Rightarrow> int" where
  "read_to_read_l c =
     (if bankgroups c = 1 then max (burst_cycle c) (tCCD_S c) else max (burst_cycle c) (tCCD_L c))"

definition read_to_read_s :: "config \<Rightarrow> int" where
  "read_to_read_s c = max (burst_cycle c) (tCCD_S c)"

definition read_to_read_o :: "config \<Rightarrow> int" where
  "read_to_read_o c = burst_cycle c + tRTRS c"

definition read_to_write :: "config \<Rightarrow> int" where
  "read_to_write c = RL c + burst_cycle c - WL c + tRTRS c"

definition read_to_write_o :: "config \<Rightarrow> int" where
  "read_to_write_o c = read_delay c + burst_cycle c + tRTRS c - write_delay c"

definition read_to_precharge :: "config \<Rightarrow> int" where
  "read_to_precharge c = AL c + tRTP c"

definition readp_to_act :: "config \<Rightarrow> int" where
  "readp_to_act c = AL c + burst_cycle c + tRTP c + tRP c"

definition write_to_read_l :: "config \<Rightarrow> int" where
  "write_to_read_l c =
     (if bankgroups c = 1 then write_delay c + tWTR_S c else write_delay c + tWTR_L c)"

definition write_to_read_s :: "config \<Rightarrow> int" where
  "write_to_read_s c = write_delay c + tWTR_S c"

definition write_to_read_o :: "config \<Rightarrow> int" where
  "write_to_read_o c = write_delay c + burst_cycle c + tRTRS c - read_delay c"

definition write_to_write_l :: "config \<Rightarrow> int" where
  "write_to_write_l c =
     (if bankgroups c = 1 then max (burst_cycle c) (tCCD_S c) else max (burst_cycle c) (tCCD_L c))"

definition write_to_write_s :: "config \<Rightarrow> int" where
  "write_to_write_s c = max (burst_cycle c) (tCCD_S c)"

definition write_to_write_o :: "config \<Rightarrow> int" where
  "write_to_write_o c = burst_cycle c"

definition write_to_precharge :: "config \<Rightarrow> int" where
  "write_to_precharge c = WL c + burst_cycle c + tWR c"

definition precharge_to_activate :: "config \<Rightarrow> int" where
  "precharge_to_activate c = tRP c"

definition precharge_to_precharge :: "config \<Rightarrow> int" where
  "precharge_to_precharge c = tPPD c"

definition read_to_activate :: "config \<Rightarrow> int" where
  "read_to_activate c = read_to_precharge c + precharge_to_activate c"

definition write_to_activate :: "config \<Rightarrow> int" where
  "write_to_activate c = write_to_precharge c + precharge_to_activate c"

definition activate_to_activate :: "config \<Rightarrow> int" where
  "activate_to_activate c = tRC c"

definition activate_to_activate_l :: "config \<Rightarrow> int" where
  "activate_to_activate_l c = (if bankgroups c = 1 then tRRD_S c else tRRD_L c)"

definition activate_to_activate_s :: "config \<Rightarrow> int" where
  "activate_to_activate_s c = tRRD_S c"

definition activate_to_precharge :: "config \<Rightarrow> int" where
  "activate_to_precharge c = tRAS c"

definition activate_to_read :: "config \<Rightarrow> int" where
  "activate_to_read c = (if IsGDDR c \<or> IsHBM c then tRCDRD c else tRCD c - AL c)"

definition activate_to_write :: "config \<Rightarrow> int" where
  "activate_to_write c = (if IsGDDR c \<or> IsHBM c then tRCDWR c else tRCD c - AL c)"

definition activate_to_refresh :: "config \<Rightarrow> int" where
  "activate_to_refresh c = tRC c"

definition refresh_to_refresh :: "config \<Rightarrow> int" where
  "refresh_to_refresh c = tREFI c"

definition refresh_to_activate :: "config \<Rightarrow> int" where
  "refresh_to_activate c = tRFC c"

definition refresh_to_activate_bank :: "config \<Rightarrow> int" where
  "refresh_to_activate_bank c = tRFCb c"

definition self_refresh_entry_to_exit :: "config \<Rightarrow> int" where
  "self_refresh_entry_to_exit c = tCKESR c"

definition self_refresh_exit :: "config \<Rightarrow> int" where
  "self_refresh_exit c = tXS c"

section \<open>The lists of each command\<close>

definition no_timing :: timing_lists where
  "no_timing = \<lparr>same_bank = [], other_banks_same_bankgroup = [], other_bankgroups_same_rank = [],
     other_ranks = [], same_rank = []\<rparr>"

text \<open>The next command is a read or a write, plain or with precharge.\<close>

definition rw_list :: "int \<Rightarrow> int \<Rightarrow> timing_list" where
  "rw_list rd wr = [(READ, rd), (WRITE, wr), (READ_PRECHARGE, rd), (WRITE_PRECHARGE, wr)]"

text \<open>The next command needs the bank closed.\<close>

definition closed_list :: "int \<Rightarrow> int \<Rightarrow> timing_list" where
  "closed_list act ref = [(ACTIVATE, act), (REFRESH, ref), (REFRESH_BANK, ref), (SREF_ENTER, ref)]"

definition timing_READ :: "config \<Rightarrow> timing_lists" where
  "timing_READ c = no_timing
     \<lparr>same_bank := rw_list (read_to_read_l c) (read_to_write c) @ [(PRECHARGE, read_to_precharge c)],
      other_banks_same_bankgroup := rw_list (read_to_read_l c) (read_to_write c),
      other_bankgroups_same_rank := rw_list (read_to_read_s c) (read_to_write c),
      other_ranks := rw_list (read_to_read_o c) (read_to_write_o c)\<rparr>"

definition timing_WRITE :: "config \<Rightarrow> timing_lists" where
  "timing_WRITE c = no_timing
     \<lparr>same_bank := rw_list (write_to_read_l c) (write_to_write_l c) @ [(PRECHARGE, write_to_precharge c)],
      other_banks_same_bankgroup := rw_list (write_to_read_l c) (write_to_write_l c),
      other_bankgroups_same_rank := rw_list (write_to_read_s c) (write_to_write_s c),
      other_ranks := rw_list (write_to_read_o c) (write_to_write_o c)\<rparr>"

definition timing_READ_PRECHARGE :: "config \<Rightarrow> timing_lists" where
  "timing_READ_PRECHARGE c = no_timing
     \<lparr>same_bank := closed_list (readp_to_act c) (read_to_activate c),
      other_banks_same_bankgroup := rw_list (read_to_read_l c) (read_to_write c),
      other_bankgroups_same_rank := rw_list (read_to_read_s c) (read_to_write c),
      other_ranks := rw_list (read_to_read_o c) (read_to_write_o c)\<rparr>"

definition timing_WRITE_PRECHARGE :: "config \<Rightarrow> timing_lists" where
  "timing_WRITE_PRECHARGE c = no_timing
     \<lparr>same_bank := closed_list (write_to_activate c) (write_to_activate c),
      other_banks_same_bankgroup := rw_list (write_to_read_l c) (write_to_write_l c),
      other_bankgroups_same_rank := rw_list (write_to_read_s c) (write_to_write_s c),
      other_ranks := rw_list (write_to_read_o c) (write_to_write_o c)\<rparr>"

definition timing_ACTIVATE :: "config \<Rightarrow> timing_lists" where
  "timing_ACTIVATE c = no_timing
     \<lparr>same_bank := [(ACTIVATE, activate_to_activate c)] @
        rw_list (activate_to_read c) (activate_to_write c) @ [(PRECHARGE, activate_to_precharge c)],
      other_banks_same_bankgroup :=
        [(ACTIVATE, activate_to_activate_l c), (REFRESH_BANK, activate_to_refresh c)],
      other_bankgroups_same_rank :=
        [(ACTIVATE, activate_to_activate_s c), (REFRESH_BANK, activate_to_refresh c)]\<rparr>"

definition timing_PRECHARGE :: "config \<Rightarrow> timing_lists" where
  "timing_PRECHARGE c =
     (let t = no_timing
        \<lparr>same_bank := closed_list (precharge_to_activate c) (precharge_to_activate c)\<rparr>
      in if IsGDDR c \<or> protocol c = LPDDR4
         then t\<lparr>other_banks_same_bankgroup := [(PRECHARGE, precharge_to_precharge c)],
                other_bankgroups_same_rank := [(PRECHARGE, precharge_to_precharge c)]\<rparr>
         else t)"

definition timing_REFRESH_BANK :: "config \<Rightarrow> timing_lists" where
  "timing_REFRESH_BANK c = no_timing
     \<lparr>same_rank := closed_list (refresh_to_activate_bank c) (refresh_to_activate_bank c),
      other_banks_same_bankgroup :=
        [(ACTIVATE, refresh_to_activate c), (REFRESH_BANK, refresh_to_refresh c)],
      other_bankgroups_same_rank :=
        [(ACTIVATE, refresh_to_activate c), (REFRESH_BANK, refresh_to_refresh c)]\<rparr>"

definition timing_REFRESH :: "config \<Rightarrow> timing_lists" where
  "timing_REFRESH c = no_timing
     \<lparr>same_rank := [(ACTIVATE, refresh_to_activate c), (REFRESH, refresh_to_activate c),
        (SREF_ENTER, refresh_to_activate c)]\<rparr>"

definition timing_SREF_ENTER :: "config \<Rightarrow> timing_lists" where
  "timing_SREF_ENTER c = no_timing
     \<lparr>same_rank := [(SREF_EXIT, self_refresh_entry_to_exit c)]\<rparr>"

definition timing_SREF_EXIT :: "config \<Rightarrow> timing_lists" where
  "timing_SREF_EXIT c = no_timing
     \<lparr>same_rank := closed_list (self_refresh_exit c) (self_refresh_exit c)\<rparr>"

text \<open>\<open>SIZE\<close> is no command: the vectors have no element for it.\<close>

definition Timing :: "config \<Rightarrow> timing" where
  "Timing c ct = (case ct of
     READ \<Rightarrow> timing_READ c | READ_PRECHARGE \<Rightarrow> timing_READ_PRECHARGE c
   | WRITE \<Rightarrow> timing_WRITE c | WRITE_PRECHARGE \<Rightarrow> timing_WRITE_PRECHARGE c
   | ACTIVATE \<Rightarrow> timing_ACTIVATE c | PRECHARGE \<Rightarrow> timing_PRECHARGE c
   | REFRESH_BANK \<Rightarrow> timing_REFRESH_BANK c | REFRESH \<Rightarrow> timing_REFRESH c
   | SREF_ENTER \<Rightarrow> timing_SREF_ENTER c | SREF_EXIT \<Rightarrow> timing_SREF_EXIT c
   | SIZE \<Rightarrow> no_timing)"

lemmas timing_list_defs = no_timing_def rw_list_def closed_list_def
  timing_READ_def timing_WRITE_def timing_READ_PRECHARGE_def timing_WRITE_PRECHARGE_def
  timing_ACTIVATE_def timing_PRECHARGE_def timing_REFRESH_BANK_def timing_REFRESH_def
  timing_SREF_ENTER_def timing_SREF_EXIT_def

section \<open>Lemmas\<close>

text \<open>Every entry of the tables is about a real command.\<close>

definition timing_wf :: "timing \<Rightarrow> bool" where
  "timing_wf tim \<longleftrightarrow> (\<forall>ct. \<forall>l \<in> {same_bank (tim ct), other_banks_same_bankgroup (tim ct),
     other_bankgroups_same_rank (tim ct), other_ranks (tim ct), same_rank (tim ct)}.
     \<forall>e \<in> set l. fst e \<noteq> SIZE)"

lemma timing_wf_Timing: "timing_wf (Timing c)"
  unfolding timing_wf_def
proof
  fix ct
  show "\<forall>l \<in> {same_bank (Timing c ct), other_banks_same_bankgroup (Timing c ct),
     other_bankgroups_same_rank (Timing c ct), other_ranks (Timing c ct), same_rank (Timing c ct)}.
     \<forall>e \<in> set l. fst e \<noteq> SIZE"
    by (cases ct) (simp_all add: Timing_def timing_list_defs Let_def)
qed

text \<open>The distances between data transfers, for parameters as every configuration file has
  them: no two reads, and no two writes, of a rank on the same cycle.\<close>

lemma read_to_read_pos: "0 < burst_cycle c \<Longrightarrow> 0 < read_to_read_l c \<and> 0 < read_to_read_s c"
  by (auto simp: read_to_read_l_def read_to_read_s_def)

lemma write_to_write_pos: "0 < burst_cycle c \<Longrightarrow> 0 < write_to_write_l c \<and> 0 < write_to_write_s c"
  by (auto simp: write_to_write_l_def write_to_write_s_def)

end
