(* ===== verification/ChannelState.thy ===== *)
theory ChannelState
  imports BankState Timing
begin

text \<open>
  \<open>channel_state.h\<close> and \<open>channel_state.cc\<close>: the banks of one channel, its pending refreshes
  and its activation windows. The member functions that loop over banks are loops over the
  three-dimensional vector \<open>bank_states\<close>; every index is checked, and an index the code would
  read out of range is an error value.
\<close>

record channel_state =
  rank_idle_cycles :: "int list"
  rank_is_sref :: "bool list"
  bank_states :: "bank_state vec3"
  refresh_q :: "command list"
  four_aw :: "u64 list list"
  thirty_two_aw :: "u64 list list"

definition ChannelState :: "config \<Rightarrow> channel_state" where
  "ChannelState cfg = \<lparr>rank_idle_cycles = replicate (nat (ranks cfg)) 0,
     rank_is_sref = replicate (nat (ranks cfg)) False,
     bank_states = vec3_replicate (ranks cfg) (bankgroups cfg) (banks_per_group cfg) BankState,
     refresh_q = [],
     four_aw = replicate (nat (ranks cfg)) [],
     thirty_two_aw = replicate (nat (ranks cfg)) []\<rparr>"

section \<open>Reading and setting bank attributes\<close>

definition bank_at :: "channel_state \<Rightarrow> int \<Rightarrow> int \<Rightarrow> int \<Rightarrow> bank_state result" where
  "bank_at cs r g b = vec3_get (bank_states cs) r g b"

definition upd_bank :: "int \<Rightarrow> int \<Rightarrow> int \<Rightarrow> (bank_state \<Rightarrow> bank_state result) \<Rightarrow> channel_state
    \<Rightarrow> channel_state result" where
  "upd_bank r g b f cs =
     bindE (vec3_upd (bank_states cs) r g b f) (\<lambda>v. Inr (cs\<lparr>bank_states := v\<rparr>))"

definition ch_IsRowOpen :: "channel_state \<Rightarrow> int \<Rightarrow> int \<Rightarrow> int \<Rightarrow> bool result" where
  "ch_IsRowOpen cs r g b = bindE (bank_at cs r g b) (\<lambda>x. Inr (IsRowOpen x))"

definition ch_IsRowClosed :: "channel_state \<Rightarrow> int \<Rightarrow> int \<Rightarrow> int \<Rightarrow> bool result" where
  "ch_IsRowClosed cs r g b = bindE (bank_at cs r g b) (\<lambda>x. Inr (IsRowClosed x))"

definition ch_OpenRow :: "channel_state \<Rightarrow> int \<Rightarrow> int \<Rightarrow> int \<Rightarrow> int result" where
  "ch_OpenRow cs r g b = bindE (bank_at cs r g b) (\<lambda>x. Inr (OpenRow x))"

definition ch_RowHitCount :: "channel_state \<Rightarrow> int \<Rightarrow> int \<Rightarrow> int \<Rightarrow> int result" where
  "ch_RowHitCount cs r g b = bindE (bank_at cs r g b) (\<lambda>x. Inr (RowHitCount x))"

definition GetServeEndCycleBank :: "channel_state \<Rightarrow> int \<Rightarrow> int \<Rightarrow> int \<Rightarrow> u64 result" where
  "GetServeEndCycleBank cs r g b = bindE (bank_at cs r g b) (\<lambda>x. Inr (ReturnServeEndCycle x))"

definition GetPrechargeByRefreshBank :: "channel_state \<Rightarrow> int \<Rightarrow> int \<Rightarrow> int \<Rightarrow> bool result" where
  "GetPrechargeByRefreshBank cs r g b =
     bindE (bank_at cs r g b) (\<lambda>x. Inr (ReturnPrechargeByRefresh x))"

definition GetActivateByWhoBank :: "channel_state \<Rightarrow> int \<Rightarrow> int \<Rightarrow> int \<Rightarrow> bool result" where
  "GetActivateByWhoBank cs r g b = bindE (bank_at cs r g b) (\<lambda>x. Inr (ReturnActivateByWho x))"

definition SetInServeBank :: "int \<Rightarrow> int \<Rightarrow> int \<Rightarrow> bool \<Rightarrow> channel_state \<Rightarrow> channel_state result" where
  "SetInServeBank r g b v cs = upd_bank r g b (\<lambda>x. Inr (SetInServe v x)) cs"

definition SetServeEndCycleBank :: "int \<Rightarrow> int \<Rightarrow> int \<Rightarrow> u64 \<Rightarrow> channel_state \<Rightarrow> channel_state result" where
  "SetServeEndCycleBank r g b v cs = upd_bank r g b (\<lambda>x. Inr (SetServeEndCycle v x)) cs"

definition IsRankSelfRefreshing :: "channel_state \<Rightarrow> int \<Rightarrow> bool result" where
  "IsRankSelfRefreshing cs r = vget (rank_is_sref cs) r"

definition IsRefreshWaiting :: "channel_state \<Rightarrow> bool" where
  "IsRefreshWaiting cs = (refresh_q cs \<noteq> [])"

definition PendingRefCommand :: "channel_state \<Rightarrow> command result" where
  "PendingRefCommand cs = vget (refresh_q cs) 0"

text \<open>The bank group and bank numbers of a rank, in the order of the nested loops.\<close>

definition bank_coords :: "config \<Rightarrow> (int \<times> int) list" where
  "bank_coords cfg = List.product (indices (bankgroups cfg)) (indices (banks_per_group cfg))"

text \<open>The loop with its early \<open>return false\<close>.\<close>

fun all_idle_loop :: "channel_state \<Rightarrow> int \<Rightarrow> (int \<times> int) list \<Rightarrow> bool result" where
  "all_idle_loop cs r [] = Inr True"
| "all_idle_loop cs r ((j, k) # jks) =
     bindE (ch_IsRowOpen cs r j k) (\<lambda>open. if open then Inr False else all_idle_loop cs r jks)"

definition IsAllBankIdleInRank :: "config \<Rightarrow> channel_state \<Rightarrow> int \<Rightarrow> bool result" where
  "IsAllBankIdleInRank cfg cs r = all_idle_loop cs r (bank_coords cfg)"

definition InServeBankNum :: "config \<Rightarrow> channel_state \<Rightarrow> int \<Rightarrow> int result" where
  "InServeBankNum cfg cs r =
     foldE (\<lambda>(j, k) count. bindE (bank_at cs r j k) (\<lambda>x.
        Inr (if ReturnInServe x then count + 1 else count))) (bank_coords cfg) 0"

definition IsRWPendingOnRef :: "channel_state \<Rightarrow> command \<Rightarrow> bool result" where
  "IsRWPendingOnRef cs cmd =
     bindE (bank_at cs (Rank cmd) (Bankgroup cmd) (Bank cmd)) (\<lambda>x.
       Inr (IsRowOpen x \<and> RowHitCount x = 0 \<and> OpenRow x = Row cmd))"

section \<open>Pending refreshes\<close>

definition BankNeedRefresh :: "int \<Rightarrow> int \<Rightarrow> int \<Rightarrow> bool \<Rightarrow> channel_state \<Rightarrow> channel_state" where
  "BankNeedRefresh r g b need cs =
     (if need then
        cs\<lparr>refresh_q := refresh_q cs @ [Command REFRESH_BANK (Address (-1) r g b (-1) (-1)) (-1)]\<rparr>
      else
        cs\<lparr>refresh_q := remove_first (\<lambda>c. Rank c = r \<and> Bankgroup c = g \<and> Bank c = b) (refresh_q cs)\<rparr>)"

definition RankNeedRefresh :: "int \<Rightarrow> bool \<Rightarrow> channel_state \<Rightarrow> channel_state" where
  "RankNeedRefresh r need cs =
     (if need then
        cs\<lparr>refresh_q := refresh_q cs @ [Command REFRESH (Address (-1) r (-1) (-1) (-1) (-1)) (-1)]\<rparr>
      else
        cs\<lparr>refresh_q := remove_first (\<lambda>c. Rank c = r) (refresh_q cs)\<rparr>)"

section \<open>Activation windows\<close>

definition IsFAWReady :: "channel_state \<Rightarrow> int \<Rightarrow> u64 \<Rightarrow> bool result" where
  "IsFAWReady cs r curr_time =
     bindE (vget (four_aw cs) r) (\<lambda>q.
       Inr (case q of [] \<Rightarrow> True | t # _ \<Rightarrow> \<not> (curr_time < t \<and> 4 \<le> length q)))"

definition Is32AWReady :: "channel_state \<Rightarrow> int \<Rightarrow> u64 \<Rightarrow> bool result" where
  "Is32AWReady cs r curr_time =
     bindE (vget (thirty_two_aw cs) r) (\<lambda>q.
       Inr (case q of [] \<Rightarrow> True | t # _ \<Rightarrow> \<not> (curr_time < t \<and> 32 \<le> length q)))"

definition ActivationWindowOk :: "config \<Rightarrow> channel_state \<Rightarrow> int \<Rightarrow> u64 \<Rightarrow> bool result" where
  "ActivationWindowOk cfg cs r curr_time =
     bindE (IsFAWReady cs r curr_time) (\<lambda>tfaw_ok.
       if IsGDDR cfg then (if \<not> tfaw_ok then Inr False else Is32AWReady cs r curr_time)
       else Inr tfaw_ok)"

text \<open>Drop the oldest entry if its window has passed, and append the end of the new one.\<close>

definition push_window :: "u64 \<Rightarrow> int \<Rightarrow> u64 list \<Rightarrow> u64 list" where
  "push_window curr_time width q =
     (if q \<noteq> [] \<and> curr_time \<ge> hd q then tl q else q) @ [curr_time + of_c_int width]"

definition UpdateActivationTimes :: "config \<Rightarrow> int \<Rightarrow> u64 \<Rightarrow> channel_state \<Rightarrow> channel_state result" where
  "UpdateActivationTimes cfg r curr_time cs =
     bindE (vget (four_aw cs) r) (\<lambda>q.
     bindE (vset (four_aw cs) r (push_window curr_time (tFAW cfg) q)) (\<lambda>f.
     if IsGDDR cfg then
       bindE (vget (thirty_two_aw cs) r) (\<lambda>q'.
       bindE (vset (thirty_two_aw cs) r (push_window curr_time (t32AW cfg) q')) (\<lambda>t.
       Inr (cs\<lparr>four_aw := f, thirty_two_aw := t\<rparr>)))
     else Inr (cs\<lparr>four_aw := f\<rparr>)))"

section \<open>Ready commands\<close>

text \<open>A call of a member function of an element that changes it and returns a value.\<close>

definition vec3_call :: "'a vec3 \<Rightarrow> int \<Rightarrow> int \<Rightarrow> int \<Rightarrow> ('a \<Rightarrow> ('r \<times> 'a) result)
    \<Rightarrow> ('r \<times> 'a vec3) result" where
  "vec3_call v i j k f = bindE (vec3_get v i j k) (\<lambda>x. bindE (f x) (\<lambda>(r, y).
     bindE (vec3_upd v i j k (\<lambda>_. Inr y)) (\<lambda>w. Inr (r, w))))"

text \<open>The loops over the banks of a rank: the result says whether they returned early, the
  number of ready banks, and the last value of \<open>ready_cmd\<close>.\<close>

fun rank_ready_loop :: "command \<Rightarrow> u64 \<Rightarrow> (int \<times> int) list \<Rightarrow> int \<Rightarrow> command \<Rightarrow> bank_state vec3
    \<Rightarrow> (bool \<times> int \<times> command \<times> bank_state vec3) result" where
  "rank_ready_loop cmd clk [] num_ready ready_cmd v = Inr (False, num_ready, ready_cmd, v)"
| "rank_ready_loop cmd clk ((j, k) # jks) num_ready ready_cmd v =
     bindE (vec3_call v (Rank cmd) j k (bank_GetReadyCommand cmd clk)) (\<lambda>(rc, v').
       if \<not> IsValid rc then rank_ready_loop cmd clk jks num_ready rc v'
       else if cmd_type rc \<noteq> cmd_type cmd then
         Inr (True, num_ready, rc\<lparr>addr := Address (-1) (Rank cmd) j k (-1) (-1)\<rparr>, v')
       else rank_ready_loop cmd clk jks (num_ready + 1) rc v')"

definition GetReadyCommand :: "config \<Rightarrow> command \<Rightarrow> u64 \<Rightarrow> channel_state
    \<Rightarrow> (command \<times> channel_state) result" where
  "GetReadyCommand cfg cmd clk cs =
     (if IsRankCMD cmd then
        bindE (rank_ready_loop cmd clk (bank_coords cfg) 0 Command_default (bank_states cs))
          (\<lambda>(early, num_ready, ready_cmd, v).
             if early \<or> num_ready = banks cfg then Inr (ready_cmd, cs\<lparr>bank_states := v\<rparr>)
             else Inr (Command_default, cs\<lparr>bank_states := v\<rparr>))
      else
        bindE (vec3_call (bank_states cs) (Rank cmd) (Bankgroup cmd) (Bank cmd)
                 (bank_GetReadyCommand cmd clk))
          (\<lambda>(ready_cmd, v). let cs' = cs\<lparr>bank_states := v\<rparr> in
             if \<not> IsValid ready_cmd then Inr (Command_default, cs')
             else if cmd_type ready_cmd = ACTIVATE then
               bindE (ActivationWindowOk cfg cs' (Rank ready_cmd) clk) (\<lambda>ok.
                 Inr (if ok then ready_cmd else Command_default, cs'))
             else Inr (ready_cmd, cs')))"

section \<open>Executing a command\<close>

definition UpdateState :: "config \<Rightarrow> command \<Rightarrow> channel_state \<Rightarrow> channel_state result" where
  "UpdateState cfg cmd cs =
     (if IsRankCMD cmd then
        bindE (foldE (\<lambda>(j, k) v. vec3_upd v (Rank cmd) j k (bank_UpdateState cmd))
                 (bank_coords cfg) (bank_states cs)) (\<lambda>v.
        let cs' = cs\<lparr>bank_states := v\<rparr> in
        if IsRefresh cmd then Inr (RankNeedRefresh (Rank cmd) False cs')
        else if cmd_type cmd = SREF_ENTER then
          bindE (vset (rank_is_sref cs') (Rank cmd) True) (\<lambda>s. Inr (cs'\<lparr>rank_is_sref := s\<rparr>))
        else if cmd_type cmd = SREF_EXIT then
          bindE (vset (rank_is_sref cs') (Rank cmd) False) (\<lambda>s. Inr (cs'\<lparr>rank_is_sref := s\<rparr>))
        else Inr cs')
      else
        bindE (upd_bank (Rank cmd) (Bankgroup cmd) (Bank cmd) (bank_UpdateState cmd) cs) (\<lambda>cs'.
        Inr (if IsRefresh cmd
             then BankNeedRefresh (Rank cmd) (Bankgroup cmd) (Bank cmd) False cs' else cs')))"

text \<open>One pass over a timing list, at one bank.\<close>

definition update_timings :: "timing_list \<Rightarrow> u64 \<Rightarrow> int \<Rightarrow> int \<Rightarrow> int \<Rightarrow> bank_state vec3
    \<Rightarrow> bank_state vec3 result" where
  "update_timings cmd_timing_list clk r g b v =
     foldE (\<lambda>(ct, d) v. vec3_upd v r g b (bank_UpdateTiming ct (clk + of_c_int d)))
       cmd_timing_list v"

definition UpdateSameBankTiming :: "address \<Rightarrow> timing_list \<Rightarrow> u64 \<Rightarrow> bank_state vec3
    \<Rightarrow> bank_state vec3 result" where
  "UpdateSameBankTiming a l clk v = update_timings l clk (a_rank a) (a_bankgroup a) (a_bank a) v"

definition UpdateOtherBanksSameBankgroupTiming :: "config \<Rightarrow> address \<Rightarrow> timing_list \<Rightarrow> u64
    \<Rightarrow> bank_state vec3 \<Rightarrow> bank_state vec3 result" where
  "UpdateOtherBanksSameBankgroupTiming cfg a l clk v =
     foldE (\<lambda>k v. if k \<noteq> a_bank a then update_timings l clk (a_rank a) (a_bankgroup a) k v
                  else Inr v) (indices (banks_per_group cfg)) v"

definition UpdateOtherBankgroupsSameRankTiming :: "config \<Rightarrow> address \<Rightarrow> timing_list \<Rightarrow> u64
    \<Rightarrow> bank_state vec3 \<Rightarrow> bank_state vec3 result" where
  "UpdateOtherBankgroupsSameRankTiming cfg a l clk v =
     foldE (\<lambda>j v. if j \<noteq> a_bankgroup a
                  then foldE (\<lambda>k v. update_timings l clk (a_rank a) j k v)
                         (indices (banks_per_group cfg)) v
                  else Inr v) (indices (bankgroups cfg)) v"

definition UpdateOtherRanksTiming :: "config \<Rightarrow> address \<Rightarrow> timing_list \<Rightarrow> u64
    \<Rightarrow> bank_state vec3 \<Rightarrow> bank_state vec3 result" where
  "UpdateOtherRanksTiming cfg a l clk v =
     foldE (\<lambda>i v. if i \<noteq> a_rank a
                  then foldE (\<lambda>j v. foldE (\<lambda>k v. update_timings l clk i j k v)
                         (indices (banks_per_group cfg)) v) (indices (bankgroups cfg)) v
                  else Inr v) (indices (ranks cfg)) v"

definition UpdateSameRankTiming :: "config \<Rightarrow> address \<Rightarrow> timing_list \<Rightarrow> u64
    \<Rightarrow> bank_state vec3 \<Rightarrow> bank_state vec3 result" where
  "UpdateSameRankTiming cfg a l clk v =
     foldE (\<lambda>j v. foldE (\<lambda>k v. update_timings l clk (a_rank a) j k v)
              (indices (banks_per_group cfg)) v) (indices (bankgroups cfg)) v"

definition UpdateTiming :: "config \<Rightarrow> timing \<Rightarrow> command \<Rightarrow> u64 \<Rightarrow> channel_state
    \<Rightarrow> channel_state result" where
  "UpdateTiming cfg tim cmd clk cs =
     (let t = tim (cmd_type cmd); a = addr cmd in
      if cmd_type cmd \<in> {ACTIVATE, READ, READ_PRECHARGE, WRITE, WRITE_PRECHARGE, PRECHARGE,
                         REFRESH_BANK} then
        bindE (if cmd_type cmd = ACTIVATE then UpdateActivationTimes cfg (Rank cmd) clk cs
               else Inr cs) (\<lambda>cs'.
        bindE (UpdateSameBankTiming a (same_bank t) clk (bank_states cs')) (\<lambda>v1.
        bindE (UpdateOtherBanksSameBankgroupTiming cfg a (other_banks_same_bankgroup t) clk v1) (\<lambda>v2.
        bindE (UpdateOtherBankgroupsSameRankTiming cfg a (other_bankgroups_same_rank t) clk v2) (\<lambda>v3.
        bindE (UpdateOtherRanksTiming cfg a (other_ranks t) clk v3) (\<lambda>v4.
        Inr (cs'\<lparr>bank_states := v4\<rparr>))))))
      else if cmd_type cmd \<in> {REFRESH, SREF_ENTER, SREF_EXIT} then
        bindE (UpdateSameRankTiming cfg a (same_rank t) clk (bank_states cs)) (\<lambda>v.
        Inr (cs\<lparr>bank_states := v\<rparr>))
      else Inl (AbruptExit ''channel_state.cc'' 207))"

definition UpdateTimingAndStates :: "config \<Rightarrow> timing \<Rightarrow> command \<Rightarrow> u64 \<Rightarrow> channel_state
    \<Rightarrow> channel_state result" where
  "UpdateTimingAndStates cfg tim cmd clk cs =
     bindE (UpdateState cfg cmd cs) (\<lambda>cs'. UpdateTiming cfg tim cmd clk cs')"

end
