(* ===== verification/ChannelTiming.thy ===== *)
theory ChannelTiming
  imports ChannelState
begin

text \<open>
  What the five update loops of \<open>UpdateTiming\<close> do to each bank: the specification
  \<open>constraints_at\<close> gives the constraints that an executed command puts on a bank, and the loops
  are proved to raise the earliest cycles of exactly that bank's commands by exactly those
  constraints, without an error.
\<close>

section \<open>Shape of a channel\<close>

definition cfg_wf :: "config \<Rightarrow> bool" where
  "cfg_wf cfg \<longleftrightarrow> 1 \<le> ranks cfg \<and> 1 \<le> bankgroups cfg \<and> 1 \<le> banks_per_group cfg \<and>
     banks cfg = bankgroups cfg * banks_per_group cfg"

definition in_range :: "config \<Rightarrow> int \<times> int \<times> int \<Rightarrow> bool" where
  "in_range cfg = (\<lambda>(i, j, k). 0 \<le> i \<and> i < ranks cfg \<and> 0 \<le> j \<and> j < bankgroups cfg \<and>
     0 \<le> k \<and> k < banks_per_group cfg)"

definition banks_shape :: "config \<Rightarrow> bank_state vec3 \<Rightarrow> bool" where
  "banks_shape cfg v \<longleftrightarrow> (\<forall>p. vec3_lookup v p \<noteq> None \<longleftrightarrow> in_range cfg p)"

definition chan_shape :: "config \<Rightarrow> channel_state \<Rightarrow> bool" where
  "chan_shape cfg cs \<longleftrightarrow> banks_shape cfg (bank_states cs) \<and>
     length (rank_idle_cycles cs) = nat (ranks cfg) \<and> length (rank_is_sref cs) = nat (ranks cfg) \<and>
     length (four_aw cs) = nat (ranks cfg) \<and> length (thirty_two_aw cs) = nat (ranks cfg)"

lemma in_range_simp [simp]:
  "in_range cfg (i, j, k) \<longleftrightarrow> 0 \<le> i \<and> i < ranks cfg \<and> 0 \<le> j \<and> j < bankgroups cfg \<and>
     0 \<le> k \<and> k < banks_per_group cfg"
  by (simp add: in_range_def)

lemma banks_shape_Some:
  "banks_shape cfg v \<Longrightarrow> in_range cfg p \<Longrightarrow> \<exists>b. vec3_lookup v p = Some b"
  unfolding banks_shape_def by (metis not_None_eq)

lemma banks_shape_range: "banks_shape cfg v \<Longrightarrow> vec3_lookup v p = Some b \<Longrightarrow> in_range cfg p"
  unfolding banks_shape_def by (metis option.distinct(1))

lemma banks_shape_map:
  assumes "banks_shape cfg v" and "\<And>p. vec3_lookup w p = None \<longleftrightarrow> vec3_lookup v p = None"
  shows "banks_shape cfg w"
  using assms by (simp add: banks_shape_def)

lemma banks_shape_init:
  "banks_shape cfg (vec3_replicate (ranks cfg) (bankgroups cfg) (banks_per_group cfg) x)"
  by (auto simp: banks_shape_def vec3_lookup_replicate)

lemma chan_shape_init: "chan_shape cfg (ChannelState cfg)"
  by (simp add: chan_shape_def ChannelState_def banks_shape_init)

lemma set_bank_coords [simp]:
  "set (bank_coords cfg) = {0..<bankgroups cfg} \<times> {0..<banks_per_group cfg}"
  by (simp add: bank_coords_def)

lemma distinct_bank_coords [simp]: "distinct (bank_coords cfg)"
  by (simp add: bank_coords_def distinct_product)

lemma length_bank_coords: "cfg_wf cfg \<Longrightarrow> int (length (bank_coords cfg)) = banks cfg"
  by (simp add: bank_coords_def cfg_wf_def)

section \<open>A timing list at one bank\<close>

text \<open>The specification of a pass over a timing list: every command's earliest cycle becomes
  the maximum of itself and the cycles the list asks for.\<close>

definition delays :: "command_type \<Rightarrow> timing_list \<Rightarrow> int list" where
  "delays ct l = map snd (filter (\<lambda>e. fst e = ct) l)"

definition raise_timings :: "u64 \<Rightarrow> timing_list \<Rightarrow> bank_state \<Rightarrow> bank_state" where
  "raise_timings clk l b = b\<lparr>cmd_timing := (\<lambda>ct.
     fold max (map (\<lambda>d. clk + of_c_int d) (delays ct l)) (cmd_timing b ct))\<rparr>"

lemma raise_timings_Nil [simp]: "raise_timings clk [] b = b"
  by (simp add: raise_timings_def delays_def)

lemma raise_timings_Cons:
  "raise_timings clk ((ct, d) # l) b =
   raise_timings clk l (b\<lparr>cmd_timing := (cmd_timing b)(ct := max (cmd_timing b ct) (clk + of_c_int d))\<rparr>)"
  by (rule bank_state.equality)
    (simp_all add: raise_timings_def delays_def fun_eq_iff max.commute)

lemma raise_timings_fields [simp]:
  "bstate (raise_timings clk l b) = bstate b" "open_row (raise_timings clk l b) = open_row b"
  "row_hit_count (raise_timings clk l b) = row_hit_count b"
  "in_serve (raise_timings clk l b) = in_serve b"
  "bank_wf (raise_timings clk l b) = bank_wf b"
  by (simp_all add: raise_timings_def bank_wf_def)

lemma fold_max_ge: "(a :: 'a :: linorder) \<le> fold max xs a"
proof (induction xs arbitrary: a)
  case (Cons x xs)
  from Cons [of "max x a"] have "max x a \<le> fold max xs (max x a)" .
  then show ?case by simp
qed simp

lemma fold_max_mem: "x \<in> set xs \<Longrightarrow> (x :: 'a :: linorder) \<le> fold max xs a"
  by (induction xs arbitrary: a) (auto intro: order_trans [OF _ fold_max_ge])

definition list_wf :: "timing_list \<Rightarrow> bool" where
  "list_wf l \<longleftrightarrow> (\<forall>e \<in> set l. fst e \<noteq> SIZE)"

lemma update_timings_lookup:
  "vec3_lookup v (i, j, k) = Some b \<Longrightarrow> list_wf l \<Longrightarrow>
   \<exists>w. update_timings l clk i j k v = Inr w \<and>
       vec3_lookup w = (vec3_lookup v)((i, j, k) \<mapsto> raise_timings clk l b)"
proof (induction l arbitrary: v b)
  case Nil
  then show ?case by (simp add: update_timings_def fun_upd_idem)
next
  case (Cons e l)
  obtain ct d where e: "e = (ct, d)" by (cases e)
  let ?b = "b\<lparr>cmd_timing := (cmd_timing b)(ct := max (cmd_timing b ct) (clk + of_c_int d))\<rparr>"
  from Cons.prems(2) e have "bank_UpdateTiming ct (clk + of_c_int d) b = Inr ?b"
    by (simp add: bank_UpdateTiming_okE list_wf_def)
  from vec3.upd_some [of v i j k b "bank_UpdateTiming ct (clk + of_c_int d)" ?b,
      OF Cons.prems(1) this]
  obtain u where u: "vec3_upd v i j k (bank_UpdateTiming ct (clk + of_c_int d)) = Inr u"
    "vec3_lookup u = (vec3_lookup v)((i, j, k) \<mapsto> ?b)" by auto
  have "list_wf l" "vec3_lookup u (i, j, k) = Some ?b"
    using Cons.prems(2) by (simp_all add: list_wf_def u(2))
  with Cons.IH obtain w where "update_timings l clk i j k u = Inr w"
    "vec3_lookup w = (vec3_lookup u)((i, j, k) \<mapsto> raise_timings clk l ?b)" by blast
  with u have "update_timings (e # l) clk i j k v = Inr w"
    "vec3_lookup w = (vec3_lookup v)((i, j, k) \<mapsto> raise_timings clk (e # l) b)"
    by (simp_all only: update_timings_def e foldE.simps prod.case bindE_simps u fun_upd_upd
        raise_timings_Cons)
  then show ?case by blast
qed

section \<open>A timing list at many banks\<close>

text \<open>All five loops are passes over a list of distinct places.\<close>

definition update_places :: "timing_list \<Rightarrow> u64 \<Rightarrow> (int \<times> int \<times> int) list \<Rightarrow> bank_state vec3
    \<Rightarrow> bank_state vec3 result" where
  "update_places l clk ps v = foldE (\<lambda>(i, j, k) v. update_timings l clk i j k v) ps v"

lemma update_places_lookup:
  assumes "distinct ps" and "\<forall>p \<in> set ps. vec3_lookup v p \<noteq> None" and "list_wf l"
  shows "\<exists>w. update_places l clk ps v = Inr w \<and> vec3_lookup w =
    (\<lambda>p. if p \<in> set ps then map_option (raise_timings clk l) (vec3_lookup v p) else vec3_lookup v p)"
  using assms(1,2)
proof (induction ps arbitrary: v)
  case Nil
  show ?case by (simp add: update_places_def)
next
  case (Cons p ps)
  obtain i j k where p: "p = (i, j, k)" by (metis prod.exhaust)
  with Cons.prems(2) obtain b where b: "vec3_lookup v (i, j, k) = Some b" by auto
  from update_timings_lookup [OF b assms(3)] obtain u where
    u: "update_timings l clk i j k v = Inr u"
      "vec3_lookup u = (vec3_lookup v)((i, j, k) \<mapsto> raise_timings clk l b)" by blast
  have "\<forall>q \<in> set ps. vec3_lookup u q \<noteq> None"
    using Cons.prems(2) by (simp add: u(2))
  with Cons.IH [of u] Cons.prems(1) obtain w where
    w: "update_places l clk ps u = Inr w" "vec3_lookup w =
      (\<lambda>p. if p \<in> set ps then map_option (raise_timings clk l) (vec3_lookup u p) else vec3_lookup u p)"
    by auto
  have "vec3_lookup w = (\<lambda>q. if q \<in> set (p # ps)
      then map_option (raise_timings clk l) (vec3_lookup v q) else vec3_lookup v q)"
    using Cons.prems(1) by (auto simp: w(2) u(2) p b fun_eq_iff)
  with u(1) w(1) show ?case by (simp add: update_places_def p)
qed

lemma foldE_filter: "foldE (\<lambda>x s. if P x then f x s else Inr s) xs s = foldE f (filter P xs) s"
  by (induction xs arbitrary: s) (auto simp: bindE_def split: sum.splits)

lemma foldE_product:
  "foldE (\<lambda>j s. foldE (\<lambda>k s. f j k s) ks s) js s = foldE (\<lambda>(j, k) s. f j k s) (List.product js ks) s"
  by (induction js arbitrary: s)
    (auto simp: foldE_append foldE_map bindE_def split: sum.splits)

lemma foldE_product3:
  "foldE (\<lambda>i s. foldE (\<lambda>j s. foldE (\<lambda>k s. f i j k s) ks s) js s) is s =
   foldE (\<lambda>(i, j, k) s. f i j k s) (List.product is (List.product js ks)) s"
proof -
  have "foldE (\<lambda>i s. foldE (\<lambda>j s. foldE (\<lambda>k s. f i j k s) ks s) js s) is s =
      foldE (\<lambda>i s. foldE (\<lambda>(j, k) s. f i j k s) (List.product js ks) s) is s"
    by (simp only: foldE_product)
  also have "\<dots> = foldE (\<lambda>(i, p) s. (\<lambda>(j, k) s. f i j k s) p s)
      (List.product is (List.product js ks)) s"
    using foldE_product [of "\<lambda>i p. (\<lambda>(j, k) s. f i j k s) p" "List.product js ks" "is" s]
    by (simp only:)
  finally show ?thesis by (simp add: split_def)
qed

lemma UpdateSameBank_places:
  "UpdateSameBankTiming a l clk = update_places l clk [(a_rank a, a_bankgroup a, a_bank a)]"
  by (rule ext) (simp add: UpdateSameBankTiming_def update_places_def)

lemma UpdateOtherBanks_places:
  "UpdateOtherBanksSameBankgroupTiming cfg a l clk = update_places l clk
     (map (\<lambda>k. (a_rank a, a_bankgroup a, k))
       (filter (\<lambda>k. k \<noteq> a_bank a) (indices (banks_per_group cfg))))"
  by (rule ext) (simp add: UpdateOtherBanksSameBankgroupTiming_def update_places_def foldE_map
      foldE_filter)

lemma UpdateOtherBankgroups_places:
  "UpdateOtherBankgroupsSameRankTiming cfg a l clk = update_places l clk
     (map (\<lambda>(j, k). (a_rank a, j, k))
       (List.product (filter (\<lambda>j. j \<noteq> a_bankgroup a) (indices (bankgroups cfg)))
          (indices (banks_per_group cfg))))"
  by (rule ext) (simp add: UpdateOtherBankgroupsSameRankTiming_def update_places_def foldE_map
      foldE_filter foldE_product [unfolded split_def] split_def)

lemma UpdateOtherRanks_places:
  "UpdateOtherRanksTiming cfg a l clk = update_places l clk
     (List.product (filter (\<lambda>i. i \<noteq> a_rank a) (indices (ranks cfg))) (bank_coords cfg))"
  by (rule ext) (simp only: UpdateOtherRanksTiming_def update_places_def foldE_filter
      foldE_product3 bank_coords_def)

lemma UpdateSameRank_places:
  "UpdateSameRankTiming cfg a l clk =
     update_places l clk (map (\<lambda>(j, k). (a_rank a, j, k)) (bank_coords cfg))"
  by (rule ext) (simp add: UpdateSameRankTiming_def update_places_def foldE_map
      foldE_product [unfolded split_def] bank_coords_def split_def)

section \<open>The constraints of a command\<close>

text \<open>The specification: the list of constraints an executed command puts on the bank at a
  place, by the relation between that place and the command's address.\<close>

definition constraints_at :: "timing \<Rightarrow> command \<Rightarrow> int \<times> int \<times> int \<Rightarrow> timing_list" where
  "constraints_at tim cmd = (\<lambda>(i, j, k). let t = tim (cmd_type cmd) in
     if IsRankCMD cmd then (if i = Rank cmd then same_rank t else [])
     else if i \<noteq> Rank cmd then other_ranks t
     else if j \<noteq> Bankgroup cmd then other_bankgroups_same_rank t
     else if k \<noteq> Bank cmd then other_banks_same_bankgroup t
     else same_bank t)"

definition place_of :: "command \<Rightarrow> int \<times> int \<times> int" where
  "place_of cmd = (Rank cmd, Bankgroup cmd, Bank cmd)"

lemma timing_wf_lists:
  "timing_wf tim \<Longrightarrow> list_wf (same_bank (tim ct)) \<and> list_wf (other_banks_same_bankgroup (tim ct)) \<and>
     list_wf (other_bankgroups_same_rank (tim ct)) \<and> list_wf (other_ranks (tim ct)) \<and>
     list_wf (same_rank (tim ct))"
  by (simp add: timing_wf_def list_wf_def)

lemma UpdateActivationTimes_ok:
  assumes "chan_shape cfg cs" and "0 \<le> r" and "r < ranks cfg"
  shows "okE (\<lambda>cs'. cs' = cs\<lparr>four_aw := (four_aw cs)[nat r := push_window clk (tFAW cfg) (four_aw cs ! nat r)],
      thirty_two_aw := (if IsGDDR cfg
        then (thirty_two_aw cs)[nat r := push_window clk (t32AW cfg) (thirty_two_aw cs ! nat r)]
        else thirty_two_aw cs)\<rparr>) (UpdateActivationTimes cfg r clk cs)"
  using assms by (auto simp: UpdateActivationTimes_def chan_shape_def vget_def vset_def)

lemma bank_passes:
  assumes v: "banks_shape cfg v" and t: "timing_wf tim" and c: "\<not> IsRankCMD cmd"
    and p: "in_range cfg (place_of cmd)"
  shows "okE (\<lambda>w. vec3_lookup w = (\<lambda>q. map_option
        (raise_timings clk (constraints_at tim cmd q)) (vec3_lookup v q)))
    (bindE (UpdateSameBankTiming (addr cmd) (same_bank (tim (cmd_type cmd))) clk v) (\<lambda>v1.
     bindE (UpdateOtherBanksSameBankgroupTiming cfg (addr cmd) (other_banks_same_bankgroup (tim (cmd_type cmd))) clk v1) (\<lambda>v2.
     bindE (UpdateOtherBankgroupsSameRankTiming cfg (addr cmd) (other_bankgroups_same_rank (tim (cmd_type cmd))) clk v2) (\<lambda>v3.
     UpdateOtherRanksTiming cfg (addr cmd) (other_ranks (tim (cmd_type cmd))) clk v3))))"
proof -
  let ?t = "tim (cmd_type cmd)"
  note wf = timing_wf_lists [OF t, of "cmd_type cmd"]
  have shape: "vec3_lookup v q \<noteq> None" if "in_range cfg q" for q
    using v that unfolding banks_shape_def by blast
  let ?p1 = "[(a_rank (addr cmd), a_bankgroup (addr cmd), a_bank (addr cmd))]"
  let ?p2 = "map (\<lambda>k. (a_rank (addr cmd), a_bankgroup (addr cmd), k))
       (filter (\<lambda>k. k \<noteq> a_bank (addr cmd)) (indices (banks_per_group cfg)))"
  let ?p3 = "map (\<lambda>(j, k). (a_rank (addr cmd), j, k))
       (List.product (filter (\<lambda>j. j \<noteq> a_bankgroup (addr cmd)) (indices (bankgroups cfg)))
          (indices (banks_per_group cfg)))"
  let ?p4 = "List.product (filter (\<lambda>i. i \<noteq> a_rank (addr cmd)) (indices (ranks cfg))) (bank_coords cfg)"
  have pc: "0 \<le> a_rank (addr cmd)" "a_rank (addr cmd) < ranks cfg"
    "0 \<le> a_bankgroup (addr cmd)" "a_bankgroup (addr cmd) < bankgroups cfg"
    "0 \<le> a_bank (addr cmd)" "a_bank (addr cmd) < banks_per_group cfg"
    using p by (simp_all add: place_of_def cmd_field_defs)
  have d: "distinct ?p1" "distinct ?p2" "distinct ?p3" "distinct ?p4"
    by (auto simp: distinct_map distinct_product inj_on_def)
  have r: "\<forall>q \<in> set ?p1. in_range cfg q" "\<forall>q \<in> set ?p2. in_range cfg q"
    "\<forall>q \<in> set ?p3. in_range cfg q" "\<forall>q \<in> set ?p4. in_range cfg q"
    using pc by auto
  from update_places_lookup [of ?p1 v "same_bank ?t" clk] d(1) r(1) shape wf
  obtain v1 where v1: "update_places (same_bank ?t) clk ?p1 v = Inr v1" "vec3_lookup v1 =
      (\<lambda>q. if q \<in> set ?p1 then map_option (raise_timings clk (same_bank ?t)) (vec3_lookup v q)
           else vec3_lookup v q)" by blast
  have s1: "vec3_lookup v1 q \<noteq> None" if "in_range cfg q" for q using shape [OF that] by (auto simp: v1(2))
  from update_places_lookup [of ?p2 v1 "other_banks_same_bankgroup ?t" clk] d(2) r(2) s1 wf
  obtain v2 where v2: "update_places (other_banks_same_bankgroup ?t) clk ?p2 v1 = Inr v2"
    "vec3_lookup v2 = (\<lambda>q. if q \<in> set ?p2 then
        map_option (raise_timings clk (other_banks_same_bankgroup ?t)) (vec3_lookup v1 q)
        else vec3_lookup v1 q)" by blast
  have s2: "vec3_lookup v2 q \<noteq> None" if "in_range cfg q" for q using s1 [OF that] by (auto simp: v2(2))
  from update_places_lookup [of ?p3 v2 "other_bankgroups_same_rank ?t" clk] d(3) r(3) s2 wf
  obtain v3 where v3: "update_places (other_bankgroups_same_rank ?t) clk ?p3 v2 = Inr v3"
    "vec3_lookup v3 = (\<lambda>q. if q \<in> set ?p3 then
        map_option (raise_timings clk (other_bankgroups_same_rank ?t)) (vec3_lookup v2 q)
        else vec3_lookup v2 q)" by blast
  have s3: "vec3_lookup v3 q \<noteq> None" if "in_range cfg q" for q using s2 [OF that] by (auto simp: v3(2))
  from update_places_lookup [of ?p4 v3 "other_ranks ?t" clk] d(4) r(4) s3 wf
  obtain v4 where v4: "update_places (other_ranks ?t) clk ?p4 v3 = Inr v4"
    "vec3_lookup v4 = (\<lambda>q. if q \<in> set ?p4 then
        map_option (raise_timings clk (other_ranks ?t)) (vec3_lookup v3 q)
        else vec3_lookup v3 q)" by blast
  have "vec3_lookup v4 q = map_option (raise_timings clk (constraints_at tim cmd q)) (vec3_lookup v q)" for q
  proof (cases "in_range cfg q")
    case False
    with v have n: "vec3_lookup v q = None" unfolding banks_shape_def by blast
    with False r show ?thesis by (auto simp: v4(2) v3(2) v2(2) v1(2))
  next
    case True
    obtain i j k where q: "q = (i, j, k)" by (metis prod.exhaust)
    consider "i \<noteq> a_rank (addr cmd)" | "i = a_rank (addr cmd)" "j \<noteq> a_bankgroup (addr cmd)"
      | "i = a_rank (addr cmd)" "j = a_bankgroup (addr cmd)" "k \<noteq> a_bank (addr cmd)"
      | "q = (a_rank (addr cmd), a_bankgroup (addr cmd), a_bank (addr cmd))" using q by auto
    then show ?thesis
      by cases (use True c q in \<open>auto simp: v4(2) v3(2) v2(2) v1(2) constraints_at_def cmd_field_defs Let_def\<close>)
  qed
  with v1(1) v2(1) v3(1) v4(1) show ?thesis
    by (simp add: UpdateSameBank_places UpdateOtherBanks_places UpdateOtherBankgroups_places
        UpdateOtherRanks_places fun_eq_iff)
qed

section \<open>The two halves of executing a command\<close>

definition places_of :: "config \<Rightarrow> command \<Rightarrow> (int \<times> int \<times> int) list" where
  "places_of cfg cmd =
     (if IsRankCMD cmd then map (\<lambda>(j, k). (Rank cmd, j, k)) (bank_coords cfg) else [place_of cmd])"

definition cmd_in_range :: "config \<Rightarrow> command \<Rightarrow> bool" where
  "cmd_in_range cfg cmd \<longleftrightarrow> IsValid cmd \<and>
     (if IsRankCMD cmd then 0 \<le> Rank cmd \<and> Rank cmd < ranks cfg else in_range cfg (place_of cmd))"

lemma distinct_places [simp]: "distinct (places_of cfg cmd)"
  by (auto simp: places_of_def distinct_map inj_on_def)

lemma places_in_range: "cmd_in_range cfg cmd \<Longrightarrow> q \<in> set (places_of cfg cmd) \<Longrightarrow> in_range cfg q"
  by (auto simp: places_of_def cmd_in_range_def split: if_splits)

lemma cmd_rank_range: "cmd_in_range cfg cmd \<Longrightarrow> 0 \<le> Rank cmd \<and> Rank cmd < ranks cfg"
  by (auto simp: cmd_in_range_def place_of_def split: if_splits)

text \<open>What \<open>UpdateTiming\<close> does: every bank's earliest cycles are raised by its constraints, and
  an activation enters the windows of its rank.\<close>

definition windows_after :: "config \<Rightarrow> command \<Rightarrow> u64 \<Rightarrow> channel_state \<Rightarrow> channel_state" where
  "windows_after cfg cmd clk cs =
     (if cmd_type cmd = ACTIVATE then
        cs\<lparr>four_aw := (four_aw cs)[nat (Rank cmd) :=
               push_window clk (tFAW cfg) (four_aw cs ! nat (Rank cmd))],
           thirty_two_aw := (if IsGDDR cfg then (thirty_two_aw cs)[nat (Rank cmd) :=
               push_window clk (t32AW cfg) (thirty_two_aw cs ! nat (Rank cmd))]
             else thirty_two_aw cs)\<rparr>
      else cs)"

lemma windows_after_banks [simp]:
  "bank_states (windows_after cfg cmd clk cs) = bank_states cs"
  "refresh_q (windows_after cfg cmd clk cs) = refresh_q cs"
  "rank_is_sref (windows_after cfg cmd clk cs) = rank_is_sref cs"
  "rank_idle_cycles (windows_after cfg cmd clk cs) = rank_idle_cycles cs"
  by (simp_all add: windows_after_def)

lemma UpdateTiming_ok:
  assumes shape: "chan_shape cfg cs" and t: "timing_wf tim" and r: "cmd_in_range cfg cmd"
  shows "okE (\<lambda>cs'. \<exists>v. cs' = (windows_after cfg cmd clk cs)\<lparr>bank_states := v\<rparr> \<and>
      vec3_lookup v = (\<lambda>q. map_option (raise_timings clk (constraints_at tim cmd q))
        (vec3_lookup (bank_states cs) q)))
    (UpdateTiming cfg tim cmd clk cs)"
proof (cases "IsRankCMD cmd")
  case True
  let ?l = "same_rank (tim (cmd_type cmd))"
  from shape have v: "banks_shape cfg (bank_states cs)" by (simp add: chan_shape_def)
  have ps: "\<forall>q \<in> set (places_of cfg cmd). vec3_lookup (bank_states cs) q \<noteq> None"
    using places_in_range [OF r] banks_shape_Some [OF v] by fastforce
  from update_places_lookup [OF distinct_places ps] timing_wf_lists [OF t]
  obtain w where w: "update_places ?l clk (places_of cfg cmd) (bank_states cs) = Inr w"
    "vec3_lookup w = (\<lambda>q. if q \<in> set (places_of cfg cmd)
      then map_option (raise_timings clk ?l) (vec3_lookup (bank_states cs) q)
      else vec3_lookup (bank_states cs) q)" by blast
  have "vec3_lookup w q = map_option (raise_timings clk (constraints_at tim cmd q))
      (vec3_lookup (bank_states cs) q)" for q
    using True banks_shape_range [OF v, of q]
    by (cases q; cases "vec3_lookup (bank_states cs) q")
      (auto simp: w(2) constraints_at_def Let_def places_of_def image_iff)
  then have "vec3_lookup w = (\<lambda>q. map_option (raise_timings clk (constraints_at tim cmd q))
      (vec3_lookup (bank_states cs) q))" by (rule ext)
  moreover from True w(1) have "UpdateSameRankTiming cfg (addr cmd) ?l clk (bank_states cs) = Inr w"
    by (simp add: UpdateSameRank_places places_of_def Rank_def)
  moreover from True have "cmd_type cmd \<in> {REFRESH, SREF_ENTER, SREF_EXIT}"
    by (auto simp: IsRankCMD_def)
  ultimately show ?thesis
    by (auto simp: UpdateTiming_def Let_def windows_after_def)
next
  case False
  with r have p: "in_range cfg (place_of cmd)" and "IsValid cmd" by (simp_all add: cmd_in_range_def)
  with False have ct: "cmd_type cmd \<in> {ACTIVATE, READ, READ_PRECHARGE, WRITE, WRITE_PRECHARGE,
      PRECHARGE, REFRESH_BANK}"
    by (cases "cmd_type cmd") (simp_all add: cmd_kind_defs)
  have "okE (\<lambda>cs'. cs' = windows_after cfg cmd clk cs)
      (if cmd_type cmd = ACTIVATE then UpdateActivationTimes cfg (Rank cmd) clk cs else Inr cs)"
    using UpdateActivationTimes_ok [OF shape, of "Rank cmd" clk] cmd_rank_range [OF r]
    by (auto simp: windows_after_def elim!: okE_mono)
  then have win: "(if cmd_type cmd = ACTIVATE then UpdateActivationTimes cfg (Rank cmd) clk cs
      else Inr cs) = Inr (windows_after cfg cmd clk cs)" by (auto simp: okE_iff)
  from shape have v: "banks_shape cfg (bank_states cs)" by (simp add: chan_shape_def)
  show ?thesis
    using bank_passes [OF v t False p, of clk]
    by (simp only: UpdateTiming_def Let_def ct if_True win bindE_simps windows_after_banks)
      (auto elim!: okE_mono simp: okE_bind)
qed

text \<open>What \<open>UpdateState\<close> does: every bank the command is for takes its step of the bank
  protocol, and the refresh that was waiting is taken off the queue.\<close>

definition exec_bank :: "command \<Rightarrow> bank_state \<Rightarrow> bank_state" where
  "exec_bank cmd b = (case bank_UpdateState cmd b of Inl _ \<Rightarrow> b | Inr b' \<Rightarrow> b')"

definition popped :: "command \<Rightarrow> command list \<Rightarrow> command list" where
  "popped cmd q =
     (if cmd_type cmd = REFRESH then remove_first (\<lambda>c. Rank c = Rank cmd) q
      else if cmd_type cmd = REFRESH_BANK then remove_first (\<lambda>c. place_of c = place_of cmd) q
      else q)"

definition sref_after :: "command \<Rightarrow> bool list \<Rightarrow> bool list" where
  "sref_after cmd s =
     (if cmd_type cmd = SREF_ENTER then s[nat (Rank cmd) := True]
      else if cmd_type cmd = SREF_EXIT then s[nat (Rank cmd) := False] else s)"

lemma exec_bank_Inr:
  "bank_step (bstate b) (cmd_type cmd) s \<Longrightarrow>
   bank_UpdateState cmd b = Inr (exec_bank cmd b) \<and> bstate (exec_bank cmd b) = s"
  using bank_step_UpdateState [of b cmd s] by (auto simp: okE_iff exec_bank_def)

lemma UpdateState_ok:
  assumes shape: "chan_shape cfg cs" and r: "cmd_in_range cfg cmd"
    and legal: "\<forall>q \<in> set (places_of cfg cmd). \<forall>b. vec3_lookup (bank_states cs) q = Some b \<longrightarrow>
      (\<exists>s. bank_step (bstate b) (cmd_type cmd) s)"
  shows "okE (\<lambda>cs'. \<exists>v. cs' = cs\<lparr>bank_states := v, refresh_q := popped cmd (refresh_q cs),
        rank_is_sref := sref_after cmd (rank_is_sref cs)\<rparr> \<and>
      vec3_lookup v = (\<lambda>q. if q \<in> set (places_of cfg cmd)
        then map_option (exec_bank cmd) (vec3_lookup (bank_states cs) q)
        else vec3_lookup (bank_states cs) q))
    (UpdateState cfg cmd cs)"
proof -
  from shape have v: "banks_shape cfg (bank_states cs)" by (simp add: chan_shape_def)
  have "\<forall>q \<in> set (places_of cfg cmd). \<exists>b. vec3_lookup (bank_states cs) q = Some b \<and>
      bank_UpdateState cmd b = Inr (exec_bank cmd b)"
    using places_in_range [OF r] banks_shape_Some [OF v] legal exec_bank_Inr by metis
  from vec3.fold_upd_distinct [OF distinct_places this] obtain w where
    w: "foldE (\<lambda>(i, j, k) v. vec3_upd v i j k (bank_UpdateState cmd)) (places_of cfg cmd)
        (bank_states cs) = Inr w"
      "vec3_lookup w = (\<lambda>q. if q \<in> set (places_of cfg cmd)
        then map_option (exec_bank cmd) (vec3_lookup (bank_states cs) q)
        else vec3_lookup (bank_states cs) q)" by blast
  have len: "length (rank_is_sref cs) = nat (ranks cfg)" using shape by (simp add: chan_shape_def)
  show ?thesis
  proof (cases "IsRankCMD cmd")
    case True
    with w(1) have "foldE (\<lambda>(j, k) v. vec3_upd v (Rank cmd) j k (bank_UpdateState cmd))
        (bank_coords cfg) (bank_states cs) = Inr w"
      by (simp add: places_of_def foldE_map split_def)
    with True len cmd_rank_range [OF r] w(2) show ?thesis
      by (auto simp: UpdateState_def RankNeedRefresh_def Let_def vset_def popped_def sref_after_def
          cmd_kind_defs)
  next
    case False
    with w(1) have "vec3_upd (bank_states cs) (Rank cmd) (Bankgroup cmd) (Bank cmd)
        (bank_UpdateState cmd) = Inr w"
      by (simp add: places_of_def place_of_def)
    with False w(2) show ?thesis
      by (auto simp: UpdateState_def upd_bank_def BankNeedRefresh_def popped_def sref_after_def
          cmd_kind_defs place_of_def)
  qed
qed

end
