(* ===== verification/ChannelRun.thy ===== *)
theory ChannelRun
  imports ChannelTiming
begin

text \<open>
  A channel under the commands its controller executes. The specification is a command trace,
  the list of executed commands with their cycles (the latest first): \<open>trace_ok\<close> says that every
  command obeyed all the constraints of the commands before it, the protocol of the banks it is
  for, the row its bank has open, and the activation windows. The invariant \<open>chan_inv\<close> relates
  the fields of \<open>channel_state\<close> to the trace; every operation the controller uses preserves it
  and none of them stops with an error.
\<close>

type_synonym trace = "(command \<times> u64) list"

section \<open>What a trace obeys\<close>

text \<open>The earliest cycle for a command at a place, by all the commands before.\<close>

fun earliest :: "timing \<Rightarrow> trace \<Rightarrow> int \<times> int \<times> int \<Rightarrow> command_type \<Rightarrow> u64" where
  "earliest tim [] q ct = 0"
| "earliest tim ((c, t) # H) q ct =
     fold max (map (\<lambda>d. t + of_c_int d) (delays ct (constraints_at tim c q))) (earliest tim H q ct)"

definition obeys :: "timing \<Rightarrow> trace \<Rightarrow> command_type \<Rightarrow> u64 \<Rightarrow> int \<times> int \<times> int \<Rightarrow> bool" where
  "obeys tim H ct clk q \<longleftrightarrow>
     (\<forall>(c, t) \<in> set H. \<forall>(ct', d) \<in> set (constraints_at tim c q). ct' = ct \<longrightarrow> t + of_c_int d \<le> clk)"

text \<open>The state of a bank and its open row, by the protocol of a bank.\<close>

inductive bank_path :: "config \<Rightarrow> int \<times> int \<times> int \<Rightarrow> trace \<Rightarrow> bank_fsm \<Rightarrow> int \<Rightarrow> bool" for cfg q where
  path_start: "bank_path cfg q [] CLOSED (-1)"
| path_other: "bank_path cfg q H s row \<Longrightarrow> q \<notin> set (places_of cfg c) \<Longrightarrow>
    bank_path cfg q ((c, t) # H) s row"
| path_exec: "bank_path cfg q H s row \<Longrightarrow> q \<in> set (places_of cfg c) \<Longrightarrow>
    bank_step s (cmd_type c) s' \<Longrightarrow> (IsReadWrite c \<Longrightarrow> Row c = row) \<Longrightarrow>
    row' = (if cmd_type c = ACTIVATE then Row c else if s' = OPEN then row else -1) \<Longrightarrow>
    bank_path cfg q ((c, t) # H) s' row'"

text \<open>The cycles of the activations of a rank, the latest first, and a window that admits at
  most \<open>n\<close> of them.\<close>

definition act_times :: "trace \<Rightarrow> int \<Rightarrow> u64 list" where
  "act_times H r = map snd (filter (\<lambda>(c, t). cmd_type c = ACTIVATE \<and> Rank c = r) H)"

definition window_ok :: "nat \<Rightarrow> int \<Rightarrow> u64 list \<Rightarrow> bool" where
  "window_ok n width ts \<longleftrightarrow>
     (\<forall>i. i + n < length ts \<longrightarrow> ts ! (i + n) + of_c_int width \<le> ts ! i)"

fun times_sorted :: "trace \<Rightarrow> bool" where
  "times_sorted [] = True"
| "times_sorted ((c, t) # H) = ((\<forall>(c', t') \<in> set H. t' \<le> t) \<and> times_sorted H)"

fun timing_ok :: "config \<Rightarrow> timing \<Rightarrow> trace \<Rightarrow> bool" where
  "timing_ok cfg tim [] = True"
| "timing_ok cfg tim ((c, t) # H) =
     ((\<forall>q \<in> set (places_of cfg c). obeys tim H (cmd_type c) t q) \<and> timing_ok cfg tim H)"

definition windows_ok :: "config \<Rightarrow> trace \<Rightarrow> bool" where
  "windows_ok cfg H \<longleftrightarrow> (\<forall>r. window_ok 4 (tFAW cfg) (act_times H r) \<and>
     (IsGDDR cfg \<longrightarrow> window_ok 32 (t32AW cfg) (act_times H r)))"

definition protocol_ok :: "config \<Rightarrow> trace \<Rightarrow> bool" where
  "protocol_ok cfg H \<longleftrightarrow> (\<forall>q. in_range cfg q \<longrightarrow> (\<exists>s row. bank_path cfg q H s row))"

definition trace_ok :: "config \<Rightarrow> timing \<Rightarrow> trace \<Rightarrow> bool" where
  "trace_ok cfg tim H \<longleftrightarrow> times_sorted H \<and> timing_ok cfg tim H \<and> protocol_ok cfg H \<and> windows_ok cfg H"

lemma in_fold_max: "d \<in> set ds \<Longrightarrow> f d \<le> fold max (map f ds) (a :: u64)"
  by (rule fold_max_mem) simp

lemma obeys_earliest:
  "earliest tim H q ct \<le> clk \<Longrightarrow> obeys tim H ct clk q"
proof (induction H)
  case Nil
  show ?case by (simp add: obeys_def)
next
  case (Cons a H)
  obtain c t where a: "a = (c, t)" by (cases a)
  from Cons.prems a fold_max_ge [of "earliest tim H q ct"] have "earliest tim H q ct \<le> clk"
    by (auto intro: order_trans)
  with Cons.IH have "obeys tim H ct clk q" .
  moreover have "t + of_c_int d \<le> clk" if "(ct, d) \<in> set (constraints_at tim c q)" for d
  proof -
    from that have "d \<in> set (delays ct (constraints_at tim c q))" by (force simp: delays_def)
    from in_fold_max [OF this, of "\<lambda>d. t + of_c_int d" "earliest tim H q ct"] Cons.prems a
    show ?thesis by simp
  qed
  ultimately show ?case by (auto simp: obeys_def a)
qed

text \<open>The windows: the deque of a rank holds the ends of the windows of its latest activations,
  and the windows of all earlier activations have passed.\<close>

definition window_inv :: "nat \<Rightarrow> int \<Rightarrow> u64 list \<Rightarrow> u64 list \<Rightarrow> u64 \<Rightarrow> bool" where
  "window_inv n width q ts now \<longleftrightarrow> (\<exists>m \<le> n. q = map (\<lambda>t. t + of_c_int width) (rev (take m ts)) \<and>
     m \<le> length ts \<and> (\<forall>t \<in> set (drop m ts). t + of_c_int width \<le> now))"

lemma window_inv_init: "window_inv n w [] [] now"
  by (simp add: window_inv_def)

lemma window_inv_later: "window_inv n w q ts now \<Longrightarrow> now \<le> clk \<Longrightarrow> window_inv n w q ts clk"
  by (auto simp: window_inv_def intro: order_trans)

lemma window_ok_push:
  assumes inv: "window_inv n w q ts now" and "now \<le> clk" and n: "0 < n"
    and ready: "q = [] \<or> \<not> (clk < hd q \<and> n \<le> length q)"
  shows "window_inv n w (push_window clk w q) (clk # ts) clk"
    and "window_ok n w ts \<Longrightarrow> window_ok n w (clk # ts)"
proof -
  from inv obtain m where m: "m \<le> n" "q = map (\<lambda>t. t + of_c_int w) (rev (take m ts))"
    "m \<le> length ts" "\<forall>t \<in> set (drop m ts). t + of_c_int w \<le> now"
    by (auto simp: window_inv_def)
  have old: "\<forall>t \<in> set (drop m ts). t + of_c_int w \<le> clk" using m(4) assms(2) by force
  have hd: "hd q = ts ! (m - 1) + of_c_int w" if "0 < m"
  proof -
    from that obtain m' where m': "m = Suc m'" using gr0_implies_Suc by blast
    with m(3) have "take m ts = take m' ts @ [ts ! m']" by (simp add: take_Suc_conv_app_nth)
    then show ?thesis by (simp add: m(2) m')
  qed
  have len: "length q = m" using m(2,3) by simp
  show "window_inv n w (push_window clk w q) (clk # ts) clk"
  proof (cases "q \<noteq> [] \<and> hd q \<le> clk")
    case True
    with len have m0: "0 < m" by auto
    then obtain m' where m': "m = Suc m'" using gr0_implies_Suc by blast
    have "take m ts = take m' ts @ [ts ! m']" using m' m(3) by (simp add: take_Suc_conv_app_nth)
    then have "push_window clk w q = map (\<lambda>t. t + of_c_int w) (rev (take m (clk # ts)))"
      using True by (simp add: push_window_def m(2) m')
    moreover have "drop m (clk # ts) = ts ! m' # drop m ts"
      using m' m(3) by (simp add: Cons_nth_drop_Suc)
    moreover have "ts ! m' + of_c_int w \<le> clk" using True hd m0 m' by simp
    ultimately show ?thesis unfolding window_inv_def
      by (intro exI [of _ m]) (use m old in auto)
  next
    case False
    then have "push_window clk w q = q @ [clk + of_c_int w]" by (auto simp: push_window_def)
    moreover have "m < n" using ready False len m(1) by (auto simp: not_le n)
    ultimately show ?thesis unfolding window_inv_def
      by (intro exI [of _ "Suc m"]) (use m old in simp)
  qed
  show "window_ok n w (clk # ts)" if "window_ok n w ts"
    unfolding window_ok_def
  proof (intro allI impI)
    fix i assume i: "i + n < length (clk # ts)"
    show "(clk # ts) ! (i + n) + of_c_int w \<le> (clk # ts) ! i"
    proof (cases i)
      case (Suc i')
      with that i show ?thesis by (simp add: window_ok_def)
    next
      case 0
      have "ts ! (n - 1) + of_c_int w \<le> clk"
      proof (cases "m = n")
        case True
        with ready len hd n show ?thesis by (auto simp: not_less)
      next
        case False
        with m(1) i 0 n have "ts ! (n - 1) \<in> set (drop m ts)"
          by (auto simp: in_set_conv_nth intro!: exI [of _ "n - 1 - m"])
        with old show ?thesis by blast
      qed
      with 0 n show ?thesis by (simp add: nth_Cons')
    qed
  qed
qed

section \<open>The invariant of a channel\<close>

definition banks_inv :: "config \<Rightarrow> timing \<Rightarrow> channel_state \<Rightarrow> trace \<Rightarrow> bool" where
  "banks_inv cfg tim cs H \<longleftrightarrow> (\<forall>q b. vec3_lookup (bank_states cs) q = Some b \<longrightarrow>
     bank_wf b \<and> cmd_timing b = earliest tim H q \<and> bank_path cfg q H (bstate b) (open_row b) \<and>
     (bstate b = SREF \<longleftrightarrow> rank_is_sref cs ! nat (fst q)))"

lemma banks_invD: "banks_inv cfg tim cs H \<Longrightarrow> vec3_lookup (bank_states cs) q = Some b \<Longrightarrow>
   bank_wf b \<and> cmd_timing b = earliest tim H q \<and> bank_path cfg q H (bstate b) (open_row b) \<and>
     (bstate b = SREF \<longleftrightarrow> rank_is_sref cs ! nat (fst q))"
  unfolding banks_inv_def by blast

definition windows_inv :: "config \<Rightarrow> channel_state \<Rightarrow> trace \<Rightarrow> u64 \<Rightarrow> bool" where
  "windows_inv cfg cs H now \<longleftrightarrow> (\<forall>r. 0 \<le> r \<longrightarrow> r < ranks cfg \<longrightarrow>
     window_inv 4 (tFAW cfg) (four_aw cs ! nat r) (act_times H r) now \<and>
     (IsGDDR cfg \<longrightarrow> window_inv 32 (t32AW cfg) (thirty_two_aw cs ! nat r) (act_times H r) now))"

definition refreshes_ok :: "config \<Rightarrow> command list \<Rightarrow> bool" where
  "refreshes_ok cfg q \<longleftrightarrow> (\<forall>c \<in> set q. IsRefresh c \<and> cmd_in_range cfg c)"

definition chan_inv :: "config \<Rightarrow> timing \<Rightarrow> channel_state \<Rightarrow> trace \<Rightarrow> u64 \<Rightarrow> bool" where
  "chan_inv cfg tim cs H now \<longleftrightarrow> chan_shape cfg cs \<and> banks_inv cfg tim cs H \<and>
     windows_inv cfg cs H now \<and> refreshes_ok cfg (refresh_q cs) \<and> trace_ok cfg tim H \<and>
     (\<forall>(c, t) \<in> set H. t \<le> now \<and> cmd_in_range cfg c)"

text \<open>A command that may be executed at a cycle.\<close>

definition issuable :: "config \<Rightarrow> channel_state \<Rightarrow> command \<Rightarrow> u64 \<Rightarrow> bool" where
  "issuable cfg cs cmd clk \<longleftrightarrow> cmd_in_range cfg cmd \<and>
     (\<forall>q \<in> set (places_of cfg cmd). \<forall>b. vec3_lookup (bank_states cs) q = Some b \<longrightarrow>
        cmd_timing b (cmd_type cmd) \<le> clk \<and> (\<exists>s. bank_step (bstate b) (cmd_type cmd) s) \<and>
        (IsReadWrite cmd \<longrightarrow> Row cmd = open_row b)) \<and>
     (cmd_type cmd = ACTIVATE \<longrightarrow> okE (\<lambda>ok. ok) (ActivationWindowOk cfg cs (Rank cmd) clk))"

lemma earliest_init: "earliest tim [] q = (\<lambda>_. 0)"
  by (rule ext) simp

lemma chan_inv_init: "chan_inv cfg tim (ChannelState cfg) [] 0"
proof -
  have "\<exists>s row. bank_path cfg q [] s row" for q
    using path_start by blast
  then have "trace_ok cfg tim []"
    by (simp add: trace_ok_def protocol_ok_def windows_ok_def window_ok_def act_times_def)
  moreover have "banks_inv cfg tim (ChannelState cfg) []"
    by (auto simp: banks_inv_def ChannelState_def vec3_lookup_replicate BankState_def bank_wf_def
        earliest_init path_start split: if_splits)
  moreover have "windows_inv cfg (ChannelState cfg) [] 0"
    by (simp add: windows_inv_def window_inv_init ChannelState_def act_times_def)
  moreover have "refresh_q (ChannelState cfg) = []" by (simp add: ChannelState_def)
  ultimately show ?thesis by (simp add: chan_inv_def chan_shape_init refreshes_ok_def)
qed

lemma chan_inv_later: "chan_inv cfg tim cs H now \<Longrightarrow> now \<le> clk \<Longrightarrow> chan_inv cfg tim cs H clk"
  by (fastforce simp: chan_inv_def windows_inv_def intro: window_inv_later order_trans)

lemma cmd_timing_raise: "cmd_timing (raise_timings clk (constraints_at tim c q) b) =
    earliest tim ((c, clk) # H) q" if "cmd_timing b = earliest tim H q"
  by (rule ext) (simp add: raise_timings_def that)

lemma exec_bank_open_row:
  assumes "bank_step (bstate b) (cmd_type cmd) s" and "bank_wf b"
  shows "open_row (exec_bank cmd b) =
    (if cmd_type cmd = ACTIVATE then Row cmd else if s = OPEN then open_row b else -1)"
  using assms by (cases "bstate b")
    (auto simp: bank_step_simps exec_bank_def bank_UpdateState_def bank_wf_def)

lemma step_sref:
  "bank_step s ct s' \<Longrightarrow> s' = SREF \<longleftrightarrow> ct = SREF_ENTER"
  "bank_step s ct s' \<Longrightarrow> s = SREF \<longleftrightarrow> ct = SREF_EXIT"
  by (auto elim: bank_step.cases)

lemma act_times_Cons [simp]: "act_times ((c, t) # H) r =
    (if cmd_type c = ACTIVATE \<and> Rank c = r then t # act_times H r else act_times H r)"
  by (simp add: act_times_def)

lemma set_popped: "set (popped cmd q) \<subseteq> set q"
  by (auto simp: popped_def dest: subsetD [OF set_remove_first])

lemma ActivationWindowOk_true:
  assumes "okE (\<lambda>ok. ok) (ActivationWindowOk cfg cs r clk)"
  shows "four_aw cs ! nat r = [] \<or> \<not> (clk < hd (four_aw cs ! nat r) \<and> 4 \<le> length (four_aw cs ! nat r))"
    and "IsGDDR cfg \<Longrightarrow> thirty_two_aw cs ! nat r = [] \<or>
      \<not> (clk < hd (thirty_two_aw cs ! nat r) \<and> 32 \<le> length (thirty_two_aw cs ! nat r))"
  using assms by (auto simp: ActivationWindowOk_def IsFAWReady_def Is32AWReady_def vget_def
      split: if_splits list.splits)

text \<open>Executing a command that may be executed.\<close>

lemma UpdateTimingAndStates_effect:
  assumes shape: "chan_shape cfg cs" and t: "timing_wf tim" and i: "issuable cfg cs cmd clk"
  shows "okE (\<lambda>cs'. \<exists>v. cs' = (windows_after cfg cmd clk cs)\<lparr>bank_states := v,
        refresh_q := popped cmd (refresh_q cs), rank_is_sref := sref_after cmd (rank_is_sref cs)\<rparr> \<and>
      vec3_lookup v = (\<lambda>q. map_option (\<lambda>b. raise_timings clk (constraints_at tim cmd q)
          (if q \<in> set (places_of cfg cmd) then exec_bank cmd b else b))
        (vec3_lookup (bank_states cs) q)))
    (UpdateTimingAndStates cfg tim cmd clk cs)"
proof -
  from i have r: "cmd_in_range cfg cmd" by (simp add: issuable_def)
  from i have legal: "\<forall>q \<in> set (places_of cfg cmd). \<forall>b. vec3_lookup (bank_states cs) q = Some b \<longrightarrow>
      (\<exists>s. bank_step (bstate b) (cmd_type cmd) s)" unfolding issuable_def by blast
  from UpdateState_ok [OF shape r legal] obtain v where
    v: "UpdateState cfg cmd cs = Inr (cs\<lparr>bank_states := v, refresh_q := popped cmd (refresh_q cs),
        rank_is_sref := sref_after cmd (rank_is_sref cs)\<rparr>)"
      "vec3_lookup v = (\<lambda>q. if q \<in> set (places_of cfg cmd)
        then map_option (exec_bank cmd) (vec3_lookup (bank_states cs) q)
        else vec3_lookup (bank_states cs) q)"
    by (auto simp: okE_iff)
  let ?cs = "cs\<lparr>bank_states := v, refresh_q := popped cmd (refresh_q cs),
        rank_is_sref := sref_after cmd (rank_is_sref cs)\<rparr>"
  have "banks_shape cfg v"
    by (rule banks_shape_map [of _ "bank_states cs"])
      (use shape in \<open>auto simp: chan_shape_def v(2)\<close>)
  with shape have "chan_shape cfg ?cs"
    by (simp add: chan_shape_def sref_after_def)
  from UpdateTiming_ok [OF this t r, of clk] obtain w where
    w: "UpdateTiming cfg tim cmd clk ?cs = Inr ((windows_after cfg cmd clk ?cs)\<lparr>bank_states := w\<rparr>)"
      "vec3_lookup w = (\<lambda>q. map_option (raise_timings clk (constraints_at tim cmd q)) (vec3_lookup v q))"
    by (auto simp: okE_iff)
  have "(windows_after cfg cmd clk ?cs)\<lparr>bank_states := w\<rparr> =
      (windows_after cfg cmd clk cs)\<lparr>bank_states := w, refresh_q := popped cmd (refresh_q cs),
        rank_is_sref := sref_after cmd (rank_is_sref cs)\<rparr>"
    by (simp add: windows_after_def)
  with v(1) w(1) have "UpdateTimingAndStates cfg tim cmd clk cs =
      Inr ((windows_after cfg cmd clk cs)\<lparr>bank_states := w, refresh_q := popped cmd (refresh_q cs),
        rank_is_sref := sref_after cmd (rank_is_sref cs)\<rparr>)"
    by (simp add: UpdateTimingAndStates_def)
  moreover have "vec3_lookup w = (\<lambda>q. map_option (\<lambda>b. raise_timings clk (constraints_at tim cmd q)
          (if q \<in> set (places_of cfg cmd) then exec_bank cmd b else b))
        (vec3_lookup (bank_states cs) q))"
    by (rule ext) (simp add: w(2) v(2) option.map_comp comp_def)
  ultimately show ?thesis by auto
qed

lemma exec_bank_wf: "bank_wf b \<Longrightarrow> bank_wf (exec_bank cmd b)"
  by (auto simp: exec_bank_def dest: bank_wf_UpdateState split: sum.split)

lemma exec_bank_timing [simp]: "cmd_timing (exec_bank cmd b) = cmd_timing b"
  by (auto simp: exec_bank_def dest: bank_UpdateState_timing split: sum.split)

lemma bank_inv_exec:
  assumes b: "bank_wf b" "cmd_timing b = earliest tim H q" "bank_path cfg q H (bstate b) (open_row b)"
    and q: "q \<in> set (places_of cfg cmd)" and s: "bank_step (bstate b) (cmd_type cmd) s"
    and rw: "IsReadWrite cmd \<longrightarrow> Row cmd = open_row b"
  shows "bank_wf (raise_timings clk (constraints_at tim cmd q) (exec_bank cmd b))"
    "cmd_timing (raise_timings clk (constraints_at tim cmd q) (exec_bank cmd b)) =
      earliest tim ((cmd, clk) # H) q"
    "bank_path cfg q ((cmd, clk) # H) (bstate (exec_bank cmd b)) (open_row (exec_bank cmd b))"
proof -
  show "bank_wf (raise_timings clk (constraints_at tim cmd q) (exec_bank cmd b))"
    by (simp add: exec_bank_wf b(1))
  show "cmd_timing (raise_timings clk (constraints_at tim cmd q) (exec_bank cmd b)) =
      earliest tim ((cmd, clk) # H) q"
    by (rule cmd_timing_raise) (simp add: b(2))
  have "bstate (exec_bank cmd b) = s" using exec_bank_Inr [OF s] by simp
  with exec_bank_open_row [OF s b(1)] s rw
  show "bank_path cfg q ((cmd, clk) # H) (bstate (exec_bank cmd b)) (open_row (exec_bank cmd b))"
    by (intro path_exec [OF b(3) q]) simp_all
qed

lemma banks_inv_exec:
  assumes inv: "banks_inv cfg tim cs H" and shape: "chan_shape cfg cs" and i: "issuable cfg cs cmd clk"
    and v: "vec3_lookup v = (\<lambda>q. map_option (\<lambda>b. raise_timings clk (constraints_at tim cmd q)
          (if q \<in> set (places_of cfg cmd) then exec_bank cmd b else b))
        (vec3_lookup (bank_states cs) q))"
    and cs': "bank_states cs' = v" "rank_is_sref cs' = sref_after cmd (rank_is_sref cs)"
  shows "banks_inv cfg tim cs' ((cmd, clk) # H)"
  unfolding banks_inv_def
proof (intro allI impI)
  fix q b' assume "vec3_lookup (bank_states cs') q = Some b'"
  with v cs'(1) obtain b where b: "vec3_lookup (bank_states cs) q = Some b"
    "b' = raise_timings clk (constraints_at tim cmd q)
       (if q \<in> set (places_of cfg cmd) then exec_bank cmd b else b)" by auto
  from shape have bs: "banks_shape cfg (bank_states cs)"
    and len: "length (rank_is_sref cs) = nat (ranks cfg)" by (simp_all add: chan_shape_def)
  from banks_shape_range [OF bs b(1)] have q: "in_range cfg q" .
  from i have r: "cmd_in_range cfg cmd" by (simp add: issuable_def)
  from inv b(1) have old: "bank_wf b" "cmd_timing b = earliest tim H q"
    "bank_path cfg q H (bstate b) (open_row b)"
    "bstate b = SREF \<longleftrightarrow> rank_is_sref cs ! nat (fst q)" unfolding banks_inv_def by blast+
  have nat_eq: "nat (fst q) = nat (Rank cmd) \<longleftrightarrow> fst q = Rank cmd"
    using q cmd_rank_range [OF r] by (cases q) auto
  have in_len: "nat (fst q) < length (rank_is_sref cs)" using q len by (cases q) auto
  show "bank_wf b' \<and> cmd_timing b' = earliest tim ((cmd, clk) # H) q \<and>
      bank_path cfg q ((cmd, clk) # H) (bstate b') (open_row b') \<and>
      (bstate b' = SREF \<longleftrightarrow> rank_is_sref cs' ! nat (fst q))"
  proof (cases "q \<in> set (places_of cfg cmd)")
    case True
    with i b(1) obtain s where s: "bank_step (bstate b) (cmd_type cmd) s"
      "IsReadWrite cmd \<longrightarrow> Row cmd = open_row b" by (auto simp: issuable_def)
    from True have "fst q = Rank cmd" by (auto simp: places_of_def place_of_def split: if_splits)
    then have "(s = SREF) = rank_is_sref cs' ! nat (fst q)"
      using step_sref [OF s(1)] old(4) in_len nat_eq
      by (auto simp: cs'(2) sref_after_def nth_list_update)
    with bank_inv_exec [OF old(1-3) True s, of clk] exec_bank_Inr [OF s(1)] True
    show ?thesis by (simp add: b(2))
  next
    case False
    have "rank_is_sref cs' ! nat (fst q) = rank_is_sref cs ! nat (fst q)"
    proof (cases "cmd_type cmd = SREF_ENTER \<or> cmd_type cmd = SREF_EXIT")
      case True
      with False q have "fst q \<noteq> Rank cmd"
        by (cases q) (auto simp: places_of_def IsRankCMD_def image_iff)
      with nat_eq show ?thesis by (auto simp: cs'(2) sref_after_def nth_list_update)
    qed (simp add: cs'(2) sref_after_def)
    with False old path_other [OF old(3) False, of clk] cmd_timing_raise [OF old(2), of clk cmd]
    show ?thesis by (simp add: b(2))
  qed
qed

lemma windows_inv_exec:
  assumes inv: "windows_inv cfg cs H now" and clk: "now \<le> clk" and shape: "chan_shape cfg cs"
    and r: "cmd_in_range cfg cmd"
    and act: "cmd_type cmd = ACTIVATE \<longrightarrow> okE (\<lambda>ok. ok) (ActivationWindowOk cfg cs (Rank cmd) clk)"
    and cs': "four_aw cs' = four_aw (windows_after cfg cmd clk cs)"
      "thirty_two_aw cs' = thirty_two_aw (windows_after cfg cmd clk cs)"
  shows "windows_inv cfg cs' ((cmd, clk) # H) clk"
  unfolding windows_inv_def
proof (intro allI impI)
  fix r assume range: "0 \<le> r" "r < ranks cfg"
  from inv range clk have old: "window_inv 4 (tFAW cfg) (four_aw cs ! nat r) (act_times H r) clk"
    "IsGDDR cfg \<Longrightarrow> window_inv 32 (t32AW cfg) (thirty_two_aw cs ! nat r) (act_times H r) clk"
    by (auto simp: windows_inv_def intro: window_inv_later)
  have nat_eq: "nat r = nat (Rank cmd) \<longleftrightarrow> r = Rank cmd"
    using range cmd_rank_range [OF \<open>cmd_in_range cfg cmd\<close>] by auto
  show "window_inv 4 (tFAW cfg) (four_aw cs' ! nat r) (act_times ((cmd, clk) # H) r) clk \<and>
     (IsGDDR cfg \<longrightarrow>
      window_inv 32 (t32AW cfg) (thirty_two_aw cs' ! nat r) (act_times ((cmd, clk) # H) r) clk)"
  proof (cases "cmd_type cmd = ACTIVATE \<and> Rank cmd = r")
    case True
    with act have ok: "okE (\<lambda>ok. ok) (ActivationWindowOk cfg cs r clk)" by simp
    have len: "nat r < length (four_aw cs)" "nat r < length (thirty_two_aw cs)"
      using shape range by (simp_all add: chan_shape_def)
    from True len window_ok_push(1) [OF old(1) order_refl _ ActivationWindowOk_true(1) [OF ok]]
      window_ok_push(1) [OF old(2) order_refl _ ActivationWindowOk_true(2) [OF ok]]
    show ?thesis by (auto simp: cs' windows_after_def)
  next
    case False
    with nat_eq old show ?thesis
      by (auto simp: cs' windows_after_def nth_list_update simp del: nat_eq_iff)
  qed
qed

lemma act_window_exec:
  assumes inv: "windows_inv cfg cs H now" and clk: "now \<le> clk" and r: "cmd_in_range cfg cmd"
    and act: "cmd_type cmd = ACTIVATE \<longrightarrow> okE (\<lambda>ok. ok) (ActivationWindowOk cfg cs (Rank cmd) clk)"
    and old: "windows_ok cfg H"
  shows "windows_ok cfg ((cmd, clk) # H)"
proof (cases "cmd_type cmd = ACTIVATE")
  case True
  let ?r = "Rank cmd"
  from act True have ok: "okE (\<lambda>ok. ok) (ActivationWindowOk cfg cs ?r clk)" by simp
  from inv cmd_rank_range [OF r] have w: "window_inv 4 (tFAW cfg) (four_aw cs ! nat ?r) (act_times H ?r) now"
    "IsGDDR cfg \<Longrightarrow> window_inv 32 (t32AW cfg) (thirty_two_aw cs ! nat ?r) (act_times H ?r) now"
    by (auto simp: windows_inv_def)
  from window_ok_push(2) [OF w(1) clk _ ActivationWindowOk_true(1) [OF ok]]
    window_ok_push(2) [OF w(2) clk _ ActivationWindowOk_true(2) [OF ok]] old
  show ?thesis by (auto simp: windows_ok_def)
qed (use old in \<open>simp add: windows_ok_def\<close>)

lemma timing_ok_exec:
  assumes inv: "banks_inv cfg tim cs H" and shape: "chan_shape cfg cs" and i: "issuable cfg cs cmd clk"
    and old: "timing_ok cfg tim H"
  shows "timing_ok cfg tim ((cmd, clk) # H)"
proof -
  have "obeys tim H (cmd_type cmd) clk q" if q: "q \<in> set (places_of cfg cmd)" for q
  proof -
    from i q have "in_range cfg q" by (auto simp: issuable_def intro: places_in_range)
    with shape obtain b where b: "vec3_lookup (bank_states cs) q = Some b"
      unfolding chan_shape_def by (meson banks_shape_Some)
    with inv have "cmd_timing b = earliest tim H q" unfolding banks_inv_def by blast
    moreover from i q b have "cmd_timing b (cmd_type cmd) \<le> clk" unfolding issuable_def by blast
    ultimately show ?thesis by (intro obeys_earliest) simp
  qed
  with old show ?thesis by simp
qed

lemma banks_inv_protocol:
  assumes "banks_inv cfg tim cs H" and "banks_shape cfg (bank_states cs)"
  shows "protocol_ok cfg H"
  using assms unfolding protocol_ok_def banks_inv_def by (meson banks_shape_Some)

theorem chan_inv_exec:
  assumes inv: "chan_inv cfg tim cs H now" and clk: "now \<le> clk" and t: "timing_wf tim"
    and i: "issuable cfg cs cmd clk"
  shows "okE (\<lambda>cs'. chan_inv cfg tim cs' ((cmd, clk) # H) clk \<and>
      refresh_q cs' = popped cmd (refresh_q cs) \<and> rank_is_sref cs' = sref_after cmd (rank_is_sref cs) \<and>
      rank_idle_cycles cs' = rank_idle_cycles cs)
    (UpdateTimingAndStates cfg tim cmd clk cs)"
proof -
  from inv have shape: "chan_shape cfg cs" by (simp add: chan_inv_def)
  from i have r: "cmd_in_range cfg cmd" by (simp add: issuable_def)
  from UpdateTimingAndStates_effect [OF shape t i] obtain cs' v where
    run: "UpdateTimingAndStates cfg tim cmd clk cs = Inr cs'" and
    cs': "cs' = (windows_after cfg cmd clk cs)\<lparr>bank_states := v,
        refresh_q := popped cmd (refresh_q cs), rank_is_sref := sref_after cmd (rank_is_sref cs)\<rparr>" and
    v: "vec3_lookup v = (\<lambda>q. map_option (\<lambda>b. raise_timings clk (constraints_at tim cmd q)
          (if q \<in> set (places_of cfg cmd) then exec_bank cmd b else b))
        (vec3_lookup (bank_states cs) q))" by (auto simp: okE_iff)
  have "banks_shape cfg v"
    by (rule banks_shape_map [of _ "bank_states cs"]) (use shape in \<open>auto simp: chan_shape_def v\<close>)
  with shape have shape': "chan_shape cfg cs'"
    by (simp add: chan_shape_def cs' sref_after_def windows_after_def)
  from inv have b: "banks_inv cfg tim cs H" and w: "windows_inv cfg cs H now"
    and q: "refreshes_ok cfg (refresh_q cs)" and tr: "trace_ok cfg tim H"
    and times: "\<forall>(c, t) \<in> set H. t \<le> now \<and> cmd_in_range cfg c" by (simp_all add: chan_inv_def)
  have b': "banks_inv cfg tim cs' ((cmd, clk) # H)"
    by (rule banks_inv_exec [OF b shape i v]) (simp_all add: cs')
  from i have act: "cmd_type cmd = ACTIVATE \<longrightarrow> okE (\<lambda>ok. ok) (ActivationWindowOk cfg cs (Rank cmd) clk)"
    by (simp add: issuable_def)
  have w': "windows_inv cfg cs' ((cmd, clk) # H) clk"
    by (rule windows_inv_exec [OF w clk shape r act]) (simp_all add: cs')
  have q': "refreshes_ok cfg (refresh_q cs')"
    using q set_popped [of cmd "refresh_q cs"] by (auto simp: refreshes_ok_def cs')
  have times': "\<forall>(c, t) \<in> set ((cmd, clk) # H). t \<le> clk \<and> cmd_in_range cfg c"
    using times clk r by fastforce
  from tr have old: "times_sorted H" "timing_ok cfg tim H" "windows_ok cfg H"
    by (simp_all add: trace_ok_def)
  from times' old(1) have "times_sorted ((cmd, clk) # H)" by auto
  moreover from b' shape' have "protocol_ok cfg ((cmd, clk) # H)"
    by (intro banks_inv_protocol [of cfg tim cs']) (simp_all add: chan_shape_def)
  ultimately have "trace_ok cfg tim ((cmd, clk) # H)"
    using timing_ok_exec [OF b shape i old(2)] act_window_exec [OF w clk r act old(3)]
    by (simp add: trace_ok_def)
  with shape' b' w' q' times' have "chan_inv cfg tim cs' ((cmd, clk) # H) clk"
    by (simp add: chan_inv_def)
  with run show ?thesis by (simp add: cs')
qed

section \<open>What the other operations leave alone\<close>

text \<open>Banks that differ in nothing but the bookkeeping flags.\<close>

definition flag_eq :: "bank_state \<Rightarrow> bank_state \<Rightarrow> bool" where
  "flag_eq b b' \<longleftrightarrow> bstate b' = bstate b \<and> cmd_timing b' = cmd_timing b \<and>
     open_row b' = open_row b \<and> row_hit_count b' = row_hit_count b"

definition banks_frame :: "bank_state vec3 \<Rightarrow> bank_state vec3 \<Rightarrow> bool" where
  "banks_frame v v' \<longleftrightarrow> (\<forall>q. rel_option flag_eq (vec3_lookup v q) (vec3_lookup v' q))"

definition chan_frame :: "channel_state \<Rightarrow> channel_state \<Rightarrow> bool" where
  "chan_frame cs cs' \<longleftrightarrow> banks_frame (bank_states cs) (bank_states cs') \<and>
     refresh_q cs' = refresh_q cs \<and> rank_is_sref cs' = rank_is_sref cs \<and>
     four_aw cs' = four_aw cs \<and> thirty_two_aw cs' = thirty_two_aw cs \<and>
     length (rank_idle_cycles cs') = length (rank_idle_cycles cs)"

lemma flag_eq_refl [simp]: "flag_eq b b"
  by (simp add: flag_eq_def)

lemma flag_eq_trans: "flag_eq a b \<Longrightarrow> flag_eq b c \<Longrightarrow> flag_eq a c"
  by (simp add: flag_eq_def)

lemma banks_frame_refl [simp]: "banks_frame v v"
  by (simp add: banks_frame_def option.rel_refl)

lemma banks_frame_trans [trans]:
  assumes "banks_frame u v" and "banks_frame v w"
  shows "banks_frame u w"
  unfolding banks_frame_def
proof
  fix q
  from assms have "rel_option flag_eq (vec3_lookup u q) (vec3_lookup v q)"
    "rel_option flag_eq (vec3_lookup v q) (vec3_lookup w q)" unfolding banks_frame_def by blast+
  then show "rel_option flag_eq (vec3_lookup u q) (vec3_lookup w q)"
    by (auto simp: option_rel_Some2 option_rel_Some1 elim!: option.rel_cases intro: flag_eq_trans)
qed

lemma banks_frameD: "banks_frame v v' \<Longrightarrow> vec3_lookup v' q = Some b' \<Longrightarrow>
    \<exists>b. vec3_lookup v q = Some b \<and> flag_eq b b'"
  by (metis banks_frame_def option_rel_Some2)

lemma banks_frameD2: "banks_frame v v' \<Longrightarrow> vec3_lookup v q = Some b \<Longrightarrow>
    \<exists>b'. vec3_lookup v' q = Some b' \<and> flag_eq b b'"
  by (metis banks_frame_def option_rel_Some1)

lemma banks_frame_None: "banks_frame v v' \<Longrightarrow> vec3_lookup v' q = None \<longleftrightarrow> vec3_lookup v q = None"
  by (metis banks_frameD banks_frameD2 not_None_eq)

lemma banks_frame_upd:
  "vec3_lookup v q = Some b \<Longrightarrow> flag_eq b b' \<Longrightarrow> vec3_lookup w = (vec3_lookup v)(q \<mapsto> b') \<Longrightarrow>
   banks_frame v w"
  by (auto simp: banks_frame_def option.rel_refl)

lemma chan_frame_refl [simp]: "chan_frame cs cs"
  by (simp add: chan_frame_def)

lemma chan_frame_trans [trans]: "chan_frame a b \<Longrightarrow> chan_frame b c \<Longrightarrow> chan_frame a c"
  by (auto simp: chan_frame_def intro: banks_frame_trans)

lemma chan_frame_shape: "chan_frame cs cs' \<Longrightarrow> chan_shape cfg cs \<Longrightarrow> chan_shape cfg cs'"
  by (auto simp: chan_frame_def chan_shape_def intro: banks_shape_map dest: banks_frame_None)

lemma chan_frame_inv: "chan_frame cs cs' \<Longrightarrow> chan_inv cfg tim cs H now \<Longrightarrow> chan_inv cfg tim cs' H now"
proof -
  assume f: "chan_frame cs cs'" and inv: "chan_inv cfg tim cs H now"
  have "banks_inv cfg tim cs' H"
    unfolding banks_inv_def
  proof (intro allI impI)
    fix q b' assume "vec3_lookup (bank_states cs') q = Some b'"
    with f obtain b where b: "vec3_lookup (bank_states cs) q = Some b" "flag_eq b b'"
      by (auto simp: chan_frame_def dest: banks_frameD)
    from inv have "banks_inv cfg tim cs H" by (simp add: chan_inv_def)
    from banks_invD [OF this b(1)] b(2) f
    show "bank_wf b' \<and> cmd_timing b' = earliest tim H q \<and>
        bank_path cfg q H (bstate b') (open_row b') \<and>
        (bstate b' = SREF \<longleftrightarrow> rank_is_sref cs' ! nat (fst q))"
      by (auto simp: flag_eq_def bank_wf_def chan_frame_def)
  qed
  moreover from inv f have "windows_inv cfg cs' H now"
    by (simp add: chan_inv_def windows_inv_def chan_frame_def)
  moreover from inv f have "refreshes_ok cfg (refresh_q cs')"
    by (simp add: chan_inv_def chan_frame_def)
  ultimately show ?thesis
    using inv chan_frame_shape [OF f] by (simp add: chan_inv_def)
qed

lemma ActivationWindowOk_frame:
  "chan_frame cs cs' \<Longrightarrow> ActivationWindowOk cfg cs' r clk = ActivationWindowOk cfg cs r clk"
  unfolding ActivationWindowOk_def IsFAWReady_def Is32AWReady_def chan_frame_def by (elim conjE) (simp only:)

lemma chan_frame_issuable: "chan_frame cs cs' \<Longrightarrow> issuable cfg cs cmd clk \<Longrightarrow> issuable cfg cs' cmd clk"
proof -
  assume f: "chan_frame cs cs'" and i: "issuable cfg cs cmd clk"
  have "cmd_timing b' (cmd_type cmd) \<le> clk \<and> (\<exists>s. bank_step (bstate b') (cmd_type cmd) s) \<and>
      (IsReadWrite cmd \<longrightarrow> Row cmd = open_row b')"
    if q: "q \<in> set (places_of cfg cmd)" and b': "vec3_lookup (bank_states cs') q = Some b'" for q b'
  proof -
    from f b' obtain b where b: "vec3_lookup (bank_states cs) q = Some b" "flag_eq b b'"
      by (auto simp: chan_frame_def dest: banks_frameD)
    from i q b(1) have "cmd_timing b (cmd_type cmd) \<le> clk \<and> (\<exists>s. bank_step (bstate b) (cmd_type cmd) s) \<and>
      (IsReadWrite cmd \<longrightarrow> Row cmd = open_row b)" unfolding issuable_def by blast
    with b(2) show ?thesis by (simp add: flag_eq_def)
  qed
  with i show ?thesis
    by (simp add: issuable_def ActivationWindowOk_frame [OF f])
qed

section \<open>Ready commands\<close>

lemma vec3_call_eq_Inr:
  assumes "vec3_call v i j k f = Inr (r, w)"
  obtains b b' where "vec3_lookup v (i, j, k) = Some b" and "f b = Inr (r, b')"
    and "vec3_lookup w = (vec3_lookup v)((i, j, k) \<mapsto> b')"
  using assms vec3.upd_eq_InrD
  by (fastforce simp: vec3_call_def bindE_eq_Inr vec3.get_eq_Inr split: prod.splits)

lemma vec3_call_ok:
  assumes "vec3_lookup v (i, j, k) = Some b" and "okE P (f b)"
  shows "okE (\<lambda>(r, w). \<exists>b'. f b = Inr (r, b') \<and> P (r, b') \<and>
    vec3_lookup w = (vec3_lookup v)((i, j, k) \<mapsto> b')) (vec3_call v i j k f)"
proof -
  from assms(2) obtain r b' where f: "f b = Inr (r, b')" "P (r, b')" by (auto simp: okE_iff)
  from vec3.upd_some [of v i j k b "\<lambda>_. Inr b'" b', OF assms(1)] obtain w where
    "vec3_upd v i j k (\<lambda>_. Inr b') = Inr w" "vec3_lookup w = (vec3_lookup v)((i, j, k) \<mapsto> b')" by auto
  with f assms(1) show ?thesis
    by (simp add: vec3_call_def vec3.get_law)
qed

lemma bank_GetReadyCommand_flags: "bank_GetReadyCommand cmd clk b = Inr (r, b') \<Longrightarrow> flag_eq b b'"
  by (auto elim!: bank_GetReadyCommand_cases dest: required_command_bstate simp: flag_eq_def)

lemma ready_call_frame:
  "vec3_call v i j k (bank_GetReadyCommand cmd clk) = Inr (r, w) \<Longrightarrow> banks_frame v w"
  by (elim vec3_call_eq_Inr) (rule banks_frame_upd, auto intro: bank_GetReadyCommand_flags)

text \<open>What a bank says of a command it finds ready.\<close>

definition bank_ready_for :: "bank_state vec3 \<Rightarrow> int \<times> int \<times> int \<Rightarrow> command \<Rightarrow> u64 \<Rightarrow> command_type \<Rightarrow> bool" where
  "bank_ready_for v q cmd clk ct \<longleftrightarrow> (\<exists>b b'. vec3_lookup v q = Some b \<and> cmd_timing b ct \<le> clk \<and>
     (\<exists>s. bank_step (bstate b) ct s) \<and> required_command cmd b = Inr (ct, b'))"

lemma required_command_flags:
  "flag_eq b c \<Longrightarrow> required_command cmd b = Inr (ct, b') \<Longrightarrow> \<exists>c'. required_command cmd c = Inr (ct, c')"
  by (auto simp: required_command_def flag_eq_def split: bank_fsm.splits command_type.splits if_splits)

lemma bank_ready_for_frame: "banks_frame v w \<Longrightarrow> bank_ready_for w q cmd clk ct \<Longrightarrow> bank_ready_for v q cmd clk ct"
proof -
  assume f: "banks_frame v w" and "bank_ready_for w q cmd clk ct"
  then obtain c c' where c: "vec3_lookup w q = Some c" "cmd_timing c ct \<le> clk"
    "\<exists>s. bank_step (bstate c) ct s" "required_command cmd c = Inr (ct, c')" by (auto simp: bank_ready_for_def)
  from banks_frameD [OF f c(1)] obtain b where b: "vec3_lookup v q = Some b" "flag_eq b c" by blast
  then have "flag_eq c b" by (simp add: flag_eq_def)
  from required_command_flags [OF this c(4)] b c show ?thesis
    by (auto simp: bank_ready_for_def flag_eq_def)
qed

lemma ready_call_ready:
  assumes "vec3_call v i j k (bank_GetReadyCommand cmd clk) = Inr (r, w)" and "IsValid r"
  shows "bank_ready_for v (i, j, k) cmd clk (cmd_type r)" "addr r = addr cmd" "hex_addr r = hex_addr cmd"
proof -
  from assms(1) obtain b b' where b: "vec3_lookup v (i, j, k) = Some b"
    "bank_GetReadyCommand cmd clk b = Inr (r, b')" by (rule vec3_call_eq_Inr)
  from bank_ready [OF b(2) assms(2)] b(1)
  show "bank_ready_for v (i, j, k) cmd clk (cmd_type r)" "addr r = addr cmd" "hex_addr r = hex_addr cmd"
    by (auto simp: bank_ready_for_def)
qed

lemma rank_ready_loop_frame:
  "rank_ready_loop cmd clk jks n rc v = Inr (early, n', rc', v') \<Longrightarrow> banks_frame v v'"
proof (induction cmd clk jks n rc v arbitrary: early n' rc' v' rule: rank_ready_loop.induct)
  case (2 cmd clk j k jks n rc v)
  from 2(3) obtain r w where rw: "vec3_call v (Rank cmd) j k (bank_GetReadyCommand cmd clk) = Inr (r, w)"
    by (auto simp: bindE_eq_Inr)
  from ready_call_frame [OF rw] 2 rw show ?case
    by (auto intro: banks_frame_trans split: if_splits)
qed simp

text \<open>The loop that ran to its end counted at most one for each bank, and one for each bank only if
  all of them are ready.\<close>

lemma rank_ready_loop_end:
  "rank_ready_loop cmd clk jks n rc v = Inr (False, n', rc', v') \<Longrightarrow>
   n' \<le> n + int (length jks) \<and> (n' = n + int (length jks) \<longrightarrow>
     (\<forall>(j, k) \<in> set jks. bank_ready_for v (Rank cmd, j, k) cmd clk (cmd_type cmd)) \<and>
     (jks \<noteq> [] \<longrightarrow> rc' = cmd))"
proof (induction cmd clk jks n rc v arbitrary: n' rc' v' rule: rank_ready_loop.induct)
  case (2 cmd clk j k jks n rc v)
  from 2(3) obtain r w where rw: "vec3_call v (Rank cmd) j k (bank_GetReadyCommand cmd clk) = Inr (r, w)"
    by (auto simp: bindE_eq_Inr)
  note f = ready_call_frame [OF rw]
  show ?case
  proof (cases "IsValid r")
    case False
    with 2(3) rw have "rank_ready_loop cmd clk jks n r w = Inr (False, n', rc', v')" by simp
    from 2(1) [OF rw refl False this] show ?thesis by simp
  next
    case True
    with 2(3) rw have t: "cmd_type r = cmd_type cmd"
      and l: "rank_ready_loop cmd clk jks (n + 1) r w = Inr (False, n', rc', v')"
      by (auto split: if_splits)
    from ready_call_ready [OF rw True] t
    have r: "bank_ready_for v (Rank cmd, j, k) cmd clk (cmd_type cmd)" "r = cmd"
      by simp_all
    from True t have "\<not> \<not> IsValid r" "\<not> cmd_type r \<noteq> cmd_type cmd" by simp_all
    from 2(2) [OF rw refl this l] r l bank_ready_for_frame [OF f] show ?thesis
      by (cases jks) auto
  qed
qed simp

lemma rank_ready_loop_early:
  "rank_ready_loop cmd clk jks n rc v = Inr (True, n', rc', v') \<Longrightarrow>
   \<exists>j k. (j, k) \<in> set jks \<and> IsValid rc' \<and> cmd_type rc' \<noteq> cmd_type cmd \<and>
     addr rc' = Address (-1) (Rank cmd) j k (-1) (-1) \<and>
     bank_ready_for v (Rank cmd, j, k) cmd clk (cmd_type rc')"
proof (induction cmd clk jks n rc v arbitrary: n' rc' v' rule: rank_ready_loop.induct)
  case (2 cmd clk j k jks n rc v)
  from 2(3) obtain r w where rw: "vec3_call v (Rank cmd) j k (bank_GetReadyCommand cmd clk) = Inr (r, w)"
    by (auto simp: bindE_eq_Inr)
  note f = ready_call_frame [OF rw]
  consider "\<not> IsValid r" | "IsValid r" "cmd_type r = cmd_type cmd" | "IsValid r" "cmd_type r \<noteq> cmd_type cmd"
    by blast
  then show ?case
  proof cases
    case 1
    with 2(3) rw have "rank_ready_loop cmd clk jks n r w = Inr (True, n', rc', v')" by simp
    from 2(1) [OF rw refl 1 this] bank_ready_for_frame [OF f] show ?thesis
      by (metis list.set_intros(2))
  next
    case c2: 2
    with 2(3) rw have l: "rank_ready_loop cmd clk jks (n + 1) r w = Inr (True, n', rc', v')" by simp
    from c2 have "\<not> \<not> IsValid r" "\<not> cmd_type r \<noteq> cmd_type cmd" by simp_all
    from 2(2) [OF rw refl this l] bank_ready_for_frame [OF f] show ?thesis
      by (metis list.set_intros(2))
  next
    case 3
    with 2(3) rw have "rc' = r\<lparr>addr := Address (-1) (Rank cmd) j k (-1) (-1)\<rparr>" by simp
    with 3 ready_call_ready [OF rw 3(1)] show ?thesis
      by (intro exI [of _ j] exI [of _ k]) (simp add: IsValid_def)
  qed
qed simp

lemma GetReadyCommand_frame:
  "GetReadyCommand cfg cmd clk cs = Inr (r, cs') \<Longrightarrow> chan_frame cs cs'"
  by (auto simp: GetReadyCommand_def bindE_eq_Inr Let_def chan_frame_def
      dest: rank_ready_loop_frame ready_call_frame split: if_splits prod.splits)

text \<open>The answer of \<open>GetReadyCommand\<close>: for a request at one bank, the command that the bank
  requires next; for a request at a rank, the request itself when every bank of the rank is ready
  for it, or what one bank requires first.\<close>

definition ready_answer :: "config \<Rightarrow> channel_state \<Rightarrow> command \<Rightarrow> u64 \<Rightarrow> command \<Rightarrow> bool" where
  "ready_answer cfg cs cmd clk r \<longleftrightarrow> IsValid r \<and>
     (if IsRankCMD cmd then
        (r = cmd \<and> (\<forall>q \<in> set (places_of cfg cmd). bank_ready_for (bank_states cs) q cmd clk (cmd_type cmd))) \<or>
        (\<exists>j k. (j, k) \<in> set (bank_coords cfg) \<and> cmd_type r \<noteq> cmd_type cmd \<and>
           addr r = Address (-1) (Rank cmd) j k (-1) (-1) \<and>
           bank_ready_for (bank_states cs) (Rank cmd, j, k) cmd clk (cmd_type r))
      else
        addr r = addr cmd \<and> hex_addr r = hex_addr cmd \<and>
        bank_ready_for (bank_states cs) (place_of cmd) cmd clk (cmd_type r) \<and>
        (cmd_type r = ACTIVATE \<longrightarrow> okE (\<lambda>ok. ok) (ActivationWindowOk cfg cs (Rank r) clk)))"

lemma GetReadyCommand_answer:
  assumes wf: "cfg_wf cfg" and run: "GetReadyCommand cfg cmd clk cs = Inr (r, cs')" and "IsValid r"
  shows "ready_answer cfg cs cmd clk r"
proof (cases "IsRankCMD cmd")
  case True
  from True run obtain early n rc v where
    l: "rank_ready_loop cmd clk (bank_coords cfg) 0 Command_default (bank_states cs) = Inr (early, n, rc, v)"
    by (auto simp: GetReadyCommand_def bindE_eq_Inr)
  with True run assms(3) have r: "r = rc" "early \<or> n = banks cfg"
    by (auto simp: GetReadyCommand_def split: if_splits)
  show ?thesis
  proof (cases early)
    case e: True
    with l rank_ready_loop_early [of cmd clk "bank_coords cfg" 0 Command_default "bank_states cs" n rc v] True r(1)
    show ?thesis by (auto simp: ready_answer_def)
  next
    case False
    with l have l': "rank_ready_loop cmd clk (bank_coords cfg) 0 Command_default (bank_states cs) = Inr (False, n, rc, v)"
      by simp
    have "bank_coords cfg \<noteq> []"
      using wf length_bank_coords [OF wf] by (auto simp: cfg_wf_def)
    with rank_ready_loop_end [OF l'] r False length_bank_coords [OF wf] True assms(3) show ?thesis
      by (auto simp: ready_answer_def places_of_def)
  qed
next
  case False
  then obtain rc v where
    c: "vec3_call (bank_states cs) (Rank cmd) (Bankgroup cmd) (Bank cmd) (bank_GetReadyCommand cmd clk) = Inr (rc, v)"
    using run by (auto simp: GetReadyCommand_def bindE_eq_Inr)
  let ?cs = "cs\<lparr>bank_states := v\<rparr>"
  have f: "chan_frame cs ?cs" using ready_call_frame [OF c] by (simp add: chan_frame_def)
  from False c run assms(3) have r: "r = rc" and
    act: "cmd_type r = ACTIVATE \<Longrightarrow> okE (\<lambda>ok. ok) (ActivationWindowOk cfg ?cs (Rank r) clk)"
    by (auto simp: GetReadyCommand_def bindE_eq_Inr Let_def split: if_splits)
  with ready_call_ready [OF c] assms(3) False show ?thesis
    by (simp add: ready_answer_def place_of_def ActivationWindowOk_frame [OF f])
qed

text \<open>No constraint on leaving self refresh but those between commands of the same rank.\<close>

definition sref_rank_only :: "timing \<Rightarrow> bool" where
  "sref_rank_only tim \<longleftrightarrow> (\<forall>ct. \<forall>l \<in> {same_bank (tim ct), other_banks_same_bankgroup (tim ct),
     other_bankgroups_same_rank (tim ct), other_ranks (tim ct)}. \<forall>e \<in> set l. fst e \<noteq> SREF_EXIT)"

lemma sref_rank_only_Timing: "sref_rank_only (Timing c)"
  unfolding sref_rank_only_def
proof
  fix ct
  show "\<forall>l \<in> {same_bank (Timing c ct), other_banks_same_bankgroup (Timing c ct),
     other_bankgroups_same_rank (Timing c ct), other_ranks (Timing c ct)}. \<forall>e \<in> set l. fst e \<noteq> SREF_EXIT"
    by (cases ct) (simp_all add: Timing_def timing_list_defs Let_def)
qed

lemma earliest_sref_exit:
  assumes "sref_rank_only tim"
  shows "earliest tim H (i, j, k) SREF_EXIT = earliest tim H (i, j', k') SREF_EXIT"
proof (induction H)
  case (Cons a H)
  obtain c t where a: "a = (c, t)" by (cases a)
  have "delays SREF_EXIT (constraints_at tim c (i, j, k)) = delays SREF_EXIT (constraints_at tim c (i, j', k'))"
  proof (cases "IsRankCMD c")
    case False
    from assms have "delays SREF_EXIT l = []" if "l \<in> {same_bank (tim (cmd_type c)),
      other_banks_same_bankgroup (tim (cmd_type c)), other_bankgroups_same_rank (tim (cmd_type c)),
      other_ranks (tim (cmd_type c))}" for l
      using that unfolding delays_def sref_rank_only_def by (auto simp: filter_empty_conv)
    with False show ?thesis by (simp add: constraints_at_def Let_def)
  qed (simp add: constraints_at_def)
  with Cons.IH show ?case by (simp add: a)
qed simp

lemma issuable_single:
  assumes "cmd_in_range cfg r" and "\<not> IsRankCMD r"
    and "bank_ready_for (bank_states cs) (place_of r) cmd clk (cmd_type r)"
    and "IsReadWrite r \<longrightarrow> Row r = Row cmd"
    and "cmd_type r = ACTIVATE \<longrightarrow> okE (\<lambda>ok. ok) (ActivationWindowOk cfg cs (Rank r) clk)"
  shows "issuable cfg cs r clk"
proof -
  from assms(3) obtain b b' where b: "vec3_lookup (bank_states cs) (place_of r) = Some b"
    "cmd_timing b (cmd_type r) \<le> clk" "\<exists>s. bank_step (bstate b) (cmd_type r) s"
    "required_command cmd b = Inr (cmd_type r, b')" by (auto simp: bank_ready_for_def)
  have "Row r = open_row b" if "IsReadWrite r"
    using that assms(4) required_command_rw [OF b(4), of "addr r" "hex_addr r"]
    by (simp add: cmd_kind_defs)
  with assms b show ?thesis by (simp add: issuable_def places_of_def)
qed

theorem ready_issuable:
  assumes inv: "chan_inv cfg tim cs H now" and sref: "sref_rank_only tim"
    and r: "cmd_in_range cfg cmd" and ans: "ready_answer cfg cs cmd clk r"
  shows "issuable cfg cs r clk"
proof (cases "IsRankCMD cmd")
  case True
  with ans consider "r = cmd" "\<forall>q \<in> set (places_of cfg cmd). bank_ready_for (bank_states cs) q cmd clk (cmd_type cmd)"
    | j k where "(j, k) \<in> set (bank_coords cfg)" "cmd_type r \<noteq> cmd_type cmd"
      "addr r = Address (-1) (Rank cmd) j k (-1) (-1)"
      "bank_ready_for (bank_states cs) (Rank cmd, j, k) cmd clk (cmd_type r)"
    by (auto simp: ready_answer_def)
  then show ?thesis
  proof cases
    case 1
    with True r show ?thesis
      by (fastforce simp: issuable_def bank_ready_for_def cmd_kind_defs)
  next
    case 2
    from 2(4) obtain b b' where "required_command cmd b = Inr (cmd_type r, b')"
      by (auto simp: bank_ready_for_def)
    from required_command_rank [OF this True] 2(2) have ct: "cmd_type r = PRECHARGE" by simp
    have p: "place_of r = (Rank cmd, j, k)" by (simp add: place_of_def cmd_field_defs 2(3))
    show ?thesis
      by (rule issuable_single [of _ _ _ cmd])
        (use 2 ct p cmd_rank_range [OF r] in \<open>auto simp: cmd_in_range_def cmd_kind_defs\<close>)
  qed
next
  case False
  with ans have a: "IsValid r" "addr r = addr cmd"
    "bank_ready_for (bank_states cs) (place_of cmd) cmd clk (cmd_type r)"
    "cmd_type r = ACTIVATE \<longrightarrow> okE (\<lambda>ok. ok) (ActivationWindowOk cfg cs (Rank r) clk)"
    by (auto simp: ready_answer_def)
  from a(2) have same: "place_of r = place_of cmd" "Row r = Row cmd" "Rank r = Rank cmd"
    by (simp_all add: place_of_def cmd_field_defs)
  from a(3) obtain b b' where b: "vec3_lookup (bank_states cs) (place_of cmd) = Some b"
    "cmd_timing b (cmd_type r) \<le> clk" "required_command cmd b = Inr (cmd_type r, b')"
    by (auto simp: bank_ready_for_def)
  note kind = required_command_bank [OF b(3) False]
  show ?thesis
  proof (cases "IsRankCMD r")
    case rank: False
    with a r same False show ?thesis
      by (intro issuable_single [of _ _ _ cmd]) (auto simp: cmd_in_range_def)
  next
    case True
    with kind have ct: "cmd_type r = SREF_EXIT" and s: "bstate b = SREF" by (auto simp: cmd_kind_defs)
    from inv have bi: "banks_inv cfg tim cs H" by (simp add: chan_inv_def)
    from banks_invD [OF bi b(1)] s have flag: "rank_is_sref cs ! nat (Rank cmd)"
      and t: "earliest tim H (place_of cmd) SREF_EXIT \<le> clk"
      using b(2) ct by (auto simp: place_of_def)
    have "cmd_timing c SREF_EXIT \<le> clk \<and> (\<exists>u. bank_step (bstate c) SREF_EXIT u)"
      if q: "q \<in> set (places_of cfg r)" and c: "vec3_lookup (bank_states cs) q = Some c" for q c
    proof -
      from q True obtain j k where q': "q = (Rank cmd, j, k)" by (auto simp: places_of_def same)
      with banks_invD [OF bi c] flag have "bstate c = SREF" "cmd_timing c = earliest tim H q" by auto
      moreover have "earliest tim H q SREF_EXIT = earliest tim H (place_of cmd) SREF_EXIT"
        unfolding q' place_of_def by (rule earliest_sref_exit [OF sref])
      ultimately show ?thesis using t by (auto intro: sref_exit)
    qed
    moreover have "cmd_in_range cfg r"
      using a(1) True cmd_rank_range [OF r] by (simp add: cmd_in_range_def same)
    ultimately show ?thesis
      using ct by (auto simp: issuable_def cmd_kind_defs)
  qed
qed

text \<open>No request the controller makes stops \<open>GetReadyCommand\<close>.\<close>

definition request_ok :: "config \<Rightarrow> channel_state \<Rightarrow> command \<Rightarrow> bool" where
  "request_ok cfg cs cmd \<longleftrightarrow> cmd_in_range cfg cmd \<and>
     (IsReadWrite cmd \<or>
      (IsRefresh cmd \<or> cmd_type cmd = SREF_ENTER) \<and> \<not> rank_is_sref cs ! nat (Rank cmd))"

definition awake_at :: "bank_state vec3 \<Rightarrow> int \<times> int \<times> int \<Rightarrow> bool" where
  "awake_at v q \<longleftrightarrow> (\<exists>b. vec3_lookup v q = Some b \<and> bstate b \<in> {OPEN, CLOSED})"

lemma awake_at_frame: "banks_frame v w \<Longrightarrow> awake_at v q \<Longrightarrow> awake_at w q"
  by (auto simp: awake_at_def flag_eq_def dest: banks_frameD2)

lemma required_command_request:
  assumes "IsReadWrite cmd \<and> bstate b \<in> {OPEN, CLOSED, SREF} \<or>
    (IsRefresh cmd \<or> cmd_type cmd = SREF_ENTER) \<and> bstate b \<in> {OPEN, CLOSED}"
  shows "okE (\<lambda>_. True) (bank_GetReadyCommand cmd clk b)"
proof -
  have "okE (\<lambda>_. True) (required_command cmd b)"
    using assms required_command_rw_ok [of cmd b] required_command_refresh_ok [of cmd b]
    by (auto elim: okE_mono)
  then show ?thesis by (auto simp: bank_GetReadyCommand_def elim!: okE_mono)
qed

lemma rank_ready_loop_ok:
  assumes "IsRefresh cmd \<or> cmd_type cmd = SREF_ENTER"
    and "\<forall>(j, k) \<in> set jks. awake_at v (Rank cmd, j, k)"
  shows "okE (\<lambda>_. True) (rank_ready_loop cmd clk jks n rc v)"
  using assms(2)
proof (induction jks arbitrary: n rc v)
  case (Cons p jks)
  obtain j k where p: "p = (j, k)" by (cases p)
  with Cons.prems obtain b where b: "vec3_lookup v (Rank cmd, j, k) = Some b" "bstate b \<in> {OPEN, CLOSED}"
    by (auto simp: awake_at_def)
  have "okE (\<lambda>_. True) (bank_GetReadyCommand cmd clk b)"
    using assms(1) b(2) by (intro required_command_request) simp
  from vec3_call_ok [where f = "bank_GetReadyCommand cmd clk", OF b(1) this] obtain r w where rw: "vec3_call v (Rank cmd) j k (bank_GetReadyCommand cmd clk) = Inr (r, w)"
    by (auto simp: okE_iff)
  from awake_at_frame [OF ready_call_frame [OF rw]] Cons.prems
  have "\<forall>(j, k) \<in> set jks. awake_at w (Rank cmd, j, k)" by auto
  with Cons.IH [of w] show ?case by (simp add: p rw)
qed simp

lemma ActivationWindowOk_ok:
  "chan_shape cfg cs \<Longrightarrow> 0 \<le> r \<Longrightarrow> r < ranks cfg \<Longrightarrow> okE (\<lambda>_. True) (ActivationWindowOk cfg cs r clk)"
  by (auto simp: ActivationWindowOk_def IsFAWReady_def Is32AWReady_def vget_def chan_shape_def)

theorem GetReadyCommand_ok:
  assumes inv: "chan_inv cfg tim cs H now" and req: "request_ok cfg cs cmd"
  shows "okE (\<lambda>_. True) (GetReadyCommand cfg cmd clk cs)"
proof -
  from inv have b: "banks_inv cfg tim cs H" and v: "banks_shape cfg (bank_states cs)"
    and shape: "chan_shape cfg cs" by (simp_all add: chan_inv_def chan_shape_def)
  from req have r: "cmd_in_range cfg cmd" by (simp add: request_ok_def)
  show ?thesis
  proof (cases "IsRankCMD cmd")
    case True
    with req have awake: "\<not> rank_is_sref cs ! nat (Rank cmd)"
      and kind: "IsRefresh cmd \<or> cmd_type cmd = SREF_ENTER"
      by (auto simp: request_ok_def cmd_kind_defs)
    have "awake_at (bank_states cs) (Rank cmd, j, k)" if "(j, k) \<in> set (bank_coords cfg)" for j k
    proof -
      from that cmd_rank_range [OF r] have "in_range cfg (Rank cmd, j, k)" by auto
      with v obtain x where x: "vec3_lookup (bank_states cs) (Rank cmd, j, k) = Some x"
        using banks_shape_Some by blast
      with banks_invD [OF b x] awake show ?thesis by (auto simp: awake_at_def bank_wf_def)
    qed
    then have "\<forall>(j, k) \<in> set (bank_coords cfg). awake_at (bank_states cs) (Rank cmd, j, k)" by auto
    from rank_ready_loop_ok [OF kind this, of clk 0 Command_default] obtain x where
      "rank_ready_loop cmd clk (bank_coords cfg) 0 Command_default (bank_states cs) = Inr x"
      by (auto simp: okE_iff)
    with True show ?thesis by (simp add: GetReadyCommand_def split: prod.split)
  next
    case False
    with r have "in_range cfg (place_of cmd)" by (simp add: cmd_in_range_def)
    with v obtain x where x: "vec3_lookup (bank_states cs) (place_of cmd) = Some x"
      using banks_shape_Some by blast
    with banks_invD [OF b x] have wf: "bank_wf x" and s: "bstate x = SREF \<longleftrightarrow> rank_is_sref cs ! nat (Rank cmd)"
      by (simp_all add: place_of_def)
    with req False have "okE (\<lambda>_. True) (bank_GetReadyCommand cmd clk x)"
      by (intro required_command_request) (auto simp: request_ok_def bank_wf_def cmd_kind_defs)
    from vec3_call_ok [where f = "bank_GetReadyCommand cmd clk", OF x [unfolded place_of_def] this] obtain rc w where
      c: "vec3_call (bank_states cs) (Rank cmd) (Bankgroup cmd) (Bank cmd) (bank_GetReadyCommand cmd clk) = Inr (rc, w)"
      by (auto simp: okE_iff)
    have f: "chan_frame cs (cs\<lparr>bank_states := w\<rparr>)"
      using ready_call_frame [OF c] by (simp add: chan_frame_def)
    have "okE (\<lambda>_. True) (ActivationWindowOk cfg (cs\<lparr>bank_states := w\<rparr>) (Rank rc) clk)" if "IsValid rc"
      using ActivationWindowOk_ok [OF chan_frame_shape [OF f shape], of "Rank rc" clk]
        cmd_rank_range [OF r] ready_call_ready(2) [OF c that] by (simp add: Rank_def)
    with False c show ?thesis
      by (auto simp: GetReadyCommand_def Let_def elim!: okE_mono)
  qed
qed

section \<open>The setters and the refresh queue\<close>

lemma upd_bank_flags:
  assumes "chan_shape cfg cs" and "in_range cfg (r, g, k)" and "\<And>b. flag_eq b (f b)"
  shows "okE (chan_frame cs) (upd_bank r g k (\<lambda>b. Inr (f b)) cs)"
proof -
  from assms(1,2) obtain b where b: "vec3_lookup (bank_states cs) (r, g, k) = Some b"
    unfolding chan_shape_def by (meson banks_shape_Some)
  from vec3.upd_some [of "bank_states cs" r g k b "\<lambda>b. Inr (f b)" "f b", OF b] obtain w where
    "vec3_upd (bank_states cs) r g k (\<lambda>b. Inr (f b)) = Inr w"
    "vec3_lookup w = (vec3_lookup (bank_states cs))((r, g, k) \<mapsto> f b)" by auto
  with banks_frame_upd [OF b assms(3)] show ?thesis
    by (simp add: upd_bank_def chan_frame_def)
qed

lemma SetInServeBank_ok:
  "chan_shape cfg cs \<Longrightarrow> in_range cfg (r, g, b) \<Longrightarrow> okE (chan_frame cs) (SetInServeBank r g b v cs)"
  unfolding SetInServeBank_def
  by (rule upd_bank_flags, assumption, assumption) (simp add: SetInServe_def flag_eq_def)

lemma SetServeEndCycleBank_ok:
  "chan_shape cfg cs \<Longrightarrow> in_range cfg (r, g, b) \<Longrightarrow> okE (chan_frame cs) (SetServeEndCycleBank r g b v cs)"
  unfolding SetServeEndCycleBank_def
  by (rule upd_bank_flags, assumption, assumption) (simp add: SetServeEndCycle_def flag_eq_def)

lemma bank_at_ok:
  "chan_shape cfg cs \<Longrightarrow> in_range cfg (r, g, b) \<Longrightarrow>
   okE (\<lambda>x. vec3_lookup (bank_states cs) (r, g, b) = Some x) (bank_at cs r g b)"
proof -
  assume "chan_shape cfg cs" and "in_range cfg (r, g, b)"
  then obtain x where "vec3_lookup (bank_states cs) (r, g, b) = Some x"
    unfolding chan_shape_def by (meson banks_shape_Some)
  then show ?thesis by (simp add: bank_at_def vec3.get_law)
qed

lemma banks_inv_cong: "bank_states cs' = bank_states cs \<Longrightarrow> rank_is_sref cs' = rank_is_sref cs \<Longrightarrow>
    banks_inv cfg tim cs' H = banks_inv cfg tim cs H"
  by (simp only: banks_inv_def)

lemma chan_inv_refresh:
  assumes inv: "chan_inv cfg tim cs H now" and q: "refreshes_ok cfg q"
  shows "chan_inv cfg tim (cs\<lparr>refresh_q := q\<rparr>) H now"
proof -
  have "banks_inv cfg tim (cs\<lparr>refresh_q := q\<rparr>) H = banks_inv cfg tim cs H"
    by (rule banks_inv_cong) simp_all
  with inv q show ?thesis by (simp add: chan_inv_def chan_shape_def windows_inv_def)
qed

lemma refreshes_ok_append: "refreshes_ok cfg (q @ [c]) \<longleftrightarrow>
    refreshes_ok cfg q \<and> IsRefresh c \<and> cmd_in_range cfg c"
  by (auto simp: refreshes_ok_def)

lemma chan_inv_RankNeedRefresh:
  assumes inv: "chan_inv cfg tim cs H now" and "0 \<le> r" and "r < ranks cfg"
  shows "chan_inv cfg tim (RankNeedRefresh r True cs) H now"
proof -
  from inv have "refreshes_ok cfg (refresh_q cs)" by (simp add: chan_inv_def)
  with assms(2,3) have "refreshes_ok cfg (refresh_q cs @
      [Command REFRESH (Address (-1) r (-1) (-1) (-1) (-1)) (-1)])"
    by (simp add: refreshes_ok_append cmd_in_range_def cmd_kind_defs)
  from chan_inv_refresh [OF inv this] show ?thesis by (simp add: RankNeedRefresh_def)
qed

lemma chan_inv_BankNeedRefresh:
  assumes inv: "chan_inv cfg tim cs H now" and "in_range cfg (r, g, b)"
  shows "chan_inv cfg tim (BankNeedRefresh r g b True cs) H now"
proof -
  from inv have "refreshes_ok cfg (refresh_q cs)" by (simp add: chan_inv_def)
  with assms(2) have "refreshes_ok cfg (refresh_q cs @
      [Command REFRESH_BANK (Address (-1) r g b (-1) (-1)) (-1)])"
    by (simp add: refreshes_ok_append cmd_in_range_def cmd_kind_defs place_of_def)
  from chan_inv_refresh [OF inv this] show ?thesis by (simp add: BankNeedRefresh_def)
qed

section \<open>Runs of a channel\<close>

text \<open>The states a channel reaches when its clients use it as they should: requests at a cycle
  not earlier than the cycles before, execution of the commands found ready at the same cycle,
  new refreshes, and the bookkeeping flags.\<close>

inductive chan_run :: "config \<Rightarrow> timing \<Rightarrow> channel_state \<Rightarrow> trace \<Rightarrow> u64 \<Rightarrow> bool" for cfg tim where
  run_start: "chan_run cfg tim (ChannelState cfg) [] 0"
| run_time: "chan_run cfg tim cs H now \<Longrightarrow> now \<le> clk \<Longrightarrow> chan_run cfg tim cs H clk"
| run_ask: "chan_run cfg tim cs H now \<Longrightarrow> request_ok cfg cs cmd \<Longrightarrow>
    GetReadyCommand cfg cmd now cs = Inr (r, cs') \<Longrightarrow> chan_run cfg tim cs' H now"
| run_exec: "chan_run cfg tim cs H now \<Longrightarrow> request_ok cfg cs cmd \<Longrightarrow>
    GetReadyCommand cfg cmd now cs = Inr (r, cs') \<Longrightarrow> IsValid r \<Longrightarrow>
    UpdateTimingAndStates cfg tim r now cs' = Inr cs'' \<Longrightarrow> chan_run cfg tim cs'' ((r, now) # H) now"
| run_ref_rank: "chan_run cfg tim cs H now \<Longrightarrow> 0 \<le> r \<Longrightarrow> r < ranks cfg \<Longrightarrow>
    chan_run cfg tim (RankNeedRefresh r True cs) H now"
| run_ref_bank: "chan_run cfg tim cs H now \<Longrightarrow> in_range cfg (r, g, b) \<Longrightarrow>
    chan_run cfg tim (BankNeedRefresh r g b True cs) H now"
| run_serve: "chan_run cfg tim cs H now \<Longrightarrow> SetInServeBank r g b v cs = Inr cs' \<Longrightarrow>
    in_range cfg (r, g, b) \<Longrightarrow> chan_run cfg tim cs' H now"
| run_serve_end: "chan_run cfg tim cs H now \<Longrightarrow> SetServeEndCycleBank r g b t cs = Inr cs' \<Longrightarrow>
    in_range cfg (r, g, b) \<Longrightarrow> chan_run cfg tim cs' H now"

lemma ready_then_exec:
  assumes wf: "cfg_wf cfg" and t: "timing_wf tim" "sref_rank_only tim"
    and inv: "chan_inv cfg tim cs H now" and req: "cmd_in_range cfg cmd" and clk: "now \<le> clk"
    and g: "GetReadyCommand cfg cmd clk cs = Inr (r, cs')" and v: "IsValid r"
  shows "chan_inv cfg tim cs' H now" and "issuable cfg cs' r clk"
proof -
  note f = GetReadyCommand_frame [OF g]
  show "chan_inv cfg tim cs' H now" by (rule chan_frame_inv [OF f inv])
  from ready_issuable [OF inv t(2) req GetReadyCommand_answer [OF wf g v]]
  show "issuable cfg cs' r clk" by (rule chan_frame_issuable [OF f])
qed

lemma chan_run_inv:
  assumes "chan_run cfg tim cs H now" and wf: "cfg_wf cfg" and t: "timing_wf tim" "sref_rank_only tim"
  shows "chan_inv cfg tim cs H now"
  using assms(1)
proof (induction rule: chan_run.induct)
  case run_start
  show ?case by (rule chan_inv_init)
next
  case (run_time cs H now clk)
  then show ?case by (blast intro: chan_inv_later)
next
  case (run_ask cs H now cmd r cs')
  then show ?case by (blast intro: chan_frame_inv GetReadyCommand_frame)
next
  case (run_exec cs H now cmd r cs' cs'')
  have "cmd_in_range cfg cmd" using run_exec.hyps(2) by (simp add: request_ok_def)
  note ready = ready_then_exec [OF wf t run_exec.IH this order_refl run_exec.hyps(3,4)]
  from chan_inv_exec [OF ready(1) order_refl t(1) ready(2)] run_exec.hyps(5) show ?case by simp
next
  case (run_ref_rank cs H now r)
  then show ?case by (blast intro: chan_inv_RankNeedRefresh)
next
  case (run_ref_bank cs H now r g b)
  then show ?case by (blast intro: chan_inv_BankNeedRefresh)
next
  case (run_serve cs H now r g b v cs')
  then have "chan_shape cfg cs" by (simp add: chan_inv_def)
  from SetInServeBank_ok [OF this run_serve.hyps(3), of v] run_serve.hyps(2) run_serve.IH
  show ?case by (auto intro: chan_frame_inv)
next
  case (run_serve_end cs H now r g b t cs')
  then have "chan_shape cfg cs" by (simp add: chan_inv_def)
  from SetServeEndCycleBank_ok [OF this run_serve_end.hyps(3), of t] run_serve_end.hyps(2) run_serve_end.IH
  show ?case by (auto intro: chan_frame_inv)
qed

end
