(* ===== verification/SimpleStats.thy ===== *)
theory SimpleStats
  imports Configuration "HOL-Library.AList"
begin

text \<open>
  \<open>simple_stats.h\<close> and \<open>simple_stats.cc\<close>: the statistics of a channel, as far as they are
  integers: the named counters, the counters with one value for each rank, and the histograms,
  each with an epoch part that is emptied after every epoch and an overall part. The energy and
  bandwidth figures (\<open>double\<close>) and the printing are in \<open>Stats_Report\<close>; no operation of the
  simulator reads them. Lemmas: an epoch's end moves the epoch's counts into the overall counts and loses
  none of them, and every value of a histogram falls into exactly one bin.
\<close>

section \<open>The standard library's \<open>unordered_map\<close>\<close>

text \<open>Entries with distinct keys, in the order of iteration. \<open>operator[]\<close> inserts the
  default value of a missing key, \<open>emplace\<close> keeps the value of a present one, and \<open>at\<close>
  throws when the key is missing.\<close>

type_synonym ('k, 'v) umap = "('k \<times> 'v) list"

definition um_ref :: "'v \<Rightarrow> ('k, 'v) umap \<Rightarrow> 'k \<Rightarrow> 'v" where
  "um_ref d m k = (case map_of m k of None \<Rightarrow> d | Some v \<Rightarrow> v)"

definition um_at :: "('k, 'v) umap \<Rightarrow> 'k \<Rightarrow> 'v result" where
  "um_at m k = (case map_of m k of None \<Rightarrow> Inl (UncaughtException ''out_of_range'') | Some v \<Rightarrow> Inr v)"

definition um_set :: "'k \<Rightarrow> 'v \<Rightarrow> ('k, 'v) umap \<Rightarrow> ('k, 'v) umap" where
  "um_set k v m = AList.update k v m"

definition um_emplace :: "'k \<Rightarrow> 'v \<Rightarrow> ('k, 'v) umap \<Rightarrow> ('k, 'v) umap" where
  "um_emplace k v m = (case map_of m k of None \<Rightarrow> um_set k v m | Some _ \<Rightarrow> m)"

definition um_map :: "('v \<Rightarrow> 'w) \<Rightarrow> ('k, 'v) umap \<Rightarrow> ('k, 'w) umap" where
  "um_map f m = map (\<lambda>(k, v). (k, f v)) m"

lemma map_of_um_set [simp]: "map_of (um_set k v m) = (map_of m)(k \<mapsto> v)"
  by (simp add: um_set_def update_conv')

lemma map_of_um_emplace [simp]:
  "map_of (um_emplace k v m) = (case map_of m k of None \<Rightarrow> (map_of m)(k \<mapsto> v) | Some _ \<Rightarrow> map_of m)"
  by (simp add: um_emplace_def split: option.split)

lemma map_of_um_map [simp]: "map_of (um_map f m) k = map_option f (map_of m k)"
  by (induction m) (auto simp: um_map_def)

lemma um_ref_set [simp]: "um_ref d (um_set k v m) k' = (if k' = k then v else um_ref d m k')"
  by (simp add: um_ref_def)

lemma um_ref_map: "um_ref (f d) (um_map f m) k = f (um_ref d m k)"
  by (simp add: um_ref_def split: option.split)

lemma distinct_um_set: "distinct (map fst m) \<Longrightarrow> distinct (map fst (um_set k v m))"
  by (simp add: um_set_def distinct_update)

lemma distinct_um_emplace: "distinct (map fst m) \<Longrightarrow> distinct (map fst (um_emplace k v m))"
  by (simp add: um_emplace_def distinct_um_set split: option.split)

lemma keys_um_map [simp]: "map fst (um_map f m) = map fst m"
  by (simp add: um_map_def split_def comp_def)

section \<open>State\<close>

record simple_stats =
  counters :: "(string, u64) umap"
  epoch_counters :: "(string, u64) umap"
  vec_counters :: "(string, u64 list) umap"
  epoch_vec_counters :: "(string, u64 list) umap"
  histo_bounds :: "(string, int \<times> int) umap"
  bin_widths :: "(string, int) umap"
  histo_counts :: "(string, (int, u64) umap) umap"
  epoch_histo_counts :: "(string, (int, u64) umap) umap"
  histo_bins :: "(string, u64 list) umap"
  epoch_histo_bins :: "(string, u64 list) umap"

definition empty_stats :: simple_stats where
  "empty_stats = \<lparr>counters = [], epoch_counters = [], vec_counters = [], epoch_vec_counters = [],
     histo_bounds = [], bin_widths = [], histo_counts = [], epoch_histo_counts = [],
     histo_bins = [], epoch_histo_bins = []\<rparr>"

definition InitStat :: "string \<Rightarrow> string \<Rightarrow> simple_stats \<Rightarrow> simple_stats" where
  "InitStat name stat_type ss =
     (if stat_type = ''counter'' then
        ss\<lparr>counters := um_emplace name 0 (counters ss),
           epoch_counters := um_emplace name 0 (epoch_counters ss)\<rparr>
      else ss)"

definition InitVecStat :: "string \<Rightarrow> string \<Rightarrow> int \<Rightarrow> simple_stats \<Rightarrow> simple_stats" where
  "InitVecStat name stat_type vec_len ss =
     (if stat_type = ''vec_counter'' then
        ss\<lparr>vec_counters := um_emplace name (replicate (nat vec_len) 0) (vec_counters ss),
           epoch_vec_counters := um_emplace name (replicate (nat vec_len) 0) (epoch_vec_counters ss)\<rparr>
      else ss)"

definition InitHistoStat :: "string \<Rightarrow> int \<Rightarrow> int \<Rightarrow> int \<Rightarrow> simple_stats \<Rightarrow> simple_stats" where
  "InitHistoStat name start_val end_val num_bins ss =
     ss\<lparr>bin_widths := um_emplace name ((end_val - start_val) sdiv num_bins) (bin_widths ss),
        histo_bounds := um_emplace name (start_val, end_val) (histo_bounds ss),
        histo_counts := um_emplace name [] (histo_counts ss),
        epoch_histo_counts := um_emplace name [] (epoch_histo_counts ss),
        histo_bins := um_emplace name (replicate (nat (num_bins + 2)) 0) (histo_bins ss),
        epoch_histo_bins := um_emplace name (replicate (nat (num_bins + 2)) 0) (epoch_histo_bins ss)\<rparr>"

text \<open>The constructor's calls, in their order.\<close>

definition counter_names :: "string list" where
  "counter_names = [''num_cycles'', ''epoch_num'', ''num_reads_done'', ''num_writes_done'',
     ''num_write_buf_hits'', ''num_read_row_hits'', ''num_write_row_hits'', ''num_read_cmds'',
     ''num_write_cmds'', ''num_act_cmds'', ''num_pre_cmds'', ''num_ondemand_pres'',
     ''num_ref_cmds'', ''num_refb_cmds'', ''num_srefe_cmds'', ''num_srefx_cmds'', ''hbm_dual_cmds'']"

definition SimpleStats :: "config \<Rightarrow> simple_stats" where
  "SimpleStats cfg =
     (let s1 = fold (\<lambda>name. InitStat name ''counter'') counter_names empty_stats;
          s2 = fold (\<lambda>name. InitVecStat name ''vec_counter'' (ranks cfg))
                 [''all_bank_idle_cycles'', ''rank_active_cycles'', ''sref_cycles''] s1;
          s3 = InitHistoStat ''read_latency'' 0 200 10 s2;
          s4 = InitHistoStat ''write_latency'' 0 200 10 s3
      in InitHistoStat ''interarrival_latency'' 0 100 10 s4)"

section \<open>Counting\<close>

definition Increment :: "string \<Rightarrow> simple_stats \<Rightarrow> simple_stats" where
  "Increment name ss = ss\<lparr>epoch_counters :=
     um_set name (um_ref 0 (epoch_counters ss) name + 1) (epoch_counters ss)\<rparr>"

definition IncrementVecBy :: "string \<Rightarrow> int \<Rightarrow> int \<Rightarrow> simple_stats \<Rightarrow> simple_stats result" where
  "IncrementVecBy name pos num ss =
     (let v = um_ref [] (epoch_vec_counters ss) name in
      bindE (vget v pos) (\<lambda>x. bindE (vset v pos (x + of_c_int num)) (\<lambda>v'.
      Inr (ss\<lparr>epoch_vec_counters := um_set name v' (epoch_vec_counters ss)\<rparr>))))"

definition IncrementVec :: "string \<Rightarrow> int \<Rightarrow> simple_stats \<Rightarrow> simple_stats result" where
  "IncrementVec name pos ss =
     (let v = um_ref [] (epoch_vec_counters ss) name in
      bindE (vget v pos) (\<lambda>x. bindE (vset v pos (x + 1)) (\<lambda>v'.
      Inr (ss\<lparr>epoch_vec_counters := um_set name v' (epoch_vec_counters ss)\<rparr>))))"

definition AddValue :: "string \<Rightarrow> int \<Rightarrow> simple_stats \<Rightarrow> simple_stats" where
  "AddValue name value ss =
     (let epoch_counts = um_ref [] (epoch_histo_counts ss) name;
          counts' = (case map_of epoch_counts value of
              None \<Rightarrow> um_set value 1 epoch_counts
            | Some n \<Rightarrow> um_set value (n + 1) epoch_counts)
      in ss\<lparr>epoch_histo_counts := um_set name counts' (epoch_histo_counts ss)\<rparr>)"

definition GetReadCmds :: "simple_stats \<Rightarrow> u64 result" where
  "GetReadCmds ss = um_at (counters ss) ''num_reads_done''"

definition GetWriteCmds :: "simple_stats \<Rightarrow> u64 result" where
  "GetWriteCmds ss = um_at (counters ss) ''num_writes_done''"

definition GetReadRowHits :: "simple_stats \<Rightarrow> u64 result" where
  "GetReadRowHits ss = um_at (counters ss) ''num_read_row_hits''"

definition GetWriteRowHits :: "simple_stats \<Rightarrow> u64 result" where
  "GetWriteRowHits ss = um_at (counters ss) ''num_write_row_hits''"

definition GetReadLatency :: "simple_stats \<Rightarrow> u64 result" where
  "GetReadLatency ss = bindE (um_at (histo_counts ss) ''read_latency'') (\<lambda>m.
     Inr (sum_list (map (\<lambda>(value, n). of_c_int value * n) m)))"

section \<open>The end of an epoch\<close>

definition Reset :: "simple_stats \<Rightarrow> simple_stats" where
  "Reset ss = ss\<lparr>counters := um_map (\<lambda>_. 0) (counters ss),
     epoch_counters := um_map (\<lambda>_. 0) (epoch_counters ss),
     vec_counters := um_map (map (\<lambda>_. 0)) (vec_counters ss),
     epoch_vec_counters := um_map (map (\<lambda>_. 0)) (epoch_vec_counters ss),
     histo_counts := um_map (\<lambda>_. []) (histo_counts ss),
     epoch_histo_counts := um_map (\<lambda>_. []) (epoch_histo_counts ss)\<rparr>"

text \<open>\<open>dst[i] += src[i]\<close> for every index of \<open>src\<close>.\<close>

definition add_vec :: "u64 list \<Rightarrow> u64 list \<Rightarrow> u64 list result" where
  "add_vec src dst = foldE (\<lambda>i d. bindE (vget src i) (\<lambda>x. bindE (vget d i) (\<lambda>y. vset d i (y + x))))
     (indices (int (length src))) dst"

definition UpdateCounters :: "simple_stats \<Rightarrow> simple_stats result" where
  "UpdateCounters ss =
     (let c = fold (\<lambda>(name, n) c. um_set name (um_ref 0 c name + n) c) (epoch_counters ss) (counters ss)
      in bindE (foldE (\<lambda>(name, src) vc. bindE (add_vec src (um_ref [] vc name)) (\<lambda>dst.
                   Inr (um_set name dst vc))) (epoch_vec_counters ss) (vec_counters ss))
           (\<lambda>vc. Inr (ss\<lparr>counters := c, vec_counters := vc\<rparr>)))"

text \<open>The bin of a value.\<close>

definition bin_idx :: "int \<times> int \<Rightarrow> int \<Rightarrow> int \<Rightarrow> int \<Rightarrow> int result" where
  "bin_idx bounds width num_bins value =
     (if value < fst bounds then Inr 0
      else if value > snd bounds then Inr (num_bins - 1)
      else if width = 0 then Inl DivByZero
      else Inr ((value - fst bounds) sdiv width + 1))"

definition fill_bins :: "int \<times> int \<Rightarrow> int \<Rightarrow> (int, u64) umap \<Rightarrow> u64 list \<Rightarrow> u64 list result" where
  "fill_bins bounds width counts bins =
     foldE (\<lambda>(value, count) bins. bindE (bin_idx bounds width (int (length bins)) value) (\<lambda>i.
        bindE (vget bins i) (\<lambda>n. vset bins i (n + count))))
       counts (map (\<lambda>_. 0) bins)"

definition epoch_bins_loop :: "simple_stats \<Rightarrow> (string, u64 list) umap \<Rightarrow> (string, u64 list) umap result" where
  "epoch_bins_loop ss bins = foldE (\<lambda>(name, b) acc.
       bindE (fill_bins (um_ref (0, 0) (histo_bounds ss) name) (um_ref 0 (bin_widths ss) name)
                (um_ref [] (epoch_histo_counts ss) name) b) (\<lambda>b'. Inr (um_set name b' acc))) bins bins"

definition merge_counts :: "(int, u64) umap \<Rightarrow> (int, u64) umap \<Rightarrow> (int, u64) umap" where
  "merge_counts epoch_counts final_counts = fold (\<lambda>(value, n) c.
       case map_of c value of None \<Rightarrow> um_set value n c | Some m \<Rightarrow> um_set value (m + n) c)
     epoch_counts final_counts"

definition final_bins_add :: "u64 list \<Rightarrow> u64 list \<Rightarrow> u64 list result" where
  "final_bins_add epoch_bins final_bins = foldE (\<lambda>i d. bindE (vget epoch_bins i) (\<lambda>x.
       bindE (vget d i) (\<lambda>y. vset d i (y + x)))) (indices (int (length final_bins))) final_bins"

definition UpdateHistoBins :: "simple_stats \<Rightarrow> simple_stats result" where
  "UpdateHistoBins ss =
     bindE (epoch_bins_loop ss (epoch_histo_bins ss)) (\<lambda>ebins.
     bindE (foldE (\<lambda>(name, epoch_counts) (hc, hb).
        bindE (final_bins_add (um_ref [] ebins name) (um_ref [] hb name)) (\<lambda>b.
          Inr (um_set name (merge_counts epoch_counts (um_ref [] hc name)) hc, um_set name b hb)))
        (epoch_histo_counts ss) (histo_counts ss, histo_bins ss)) (\<lambda>(hc, hb).
     Inr (ss\<lparr>epoch_histo_bins := ebins, histo_counts := hc, histo_bins := hb\<rparr>)))"

definition clear_epoch :: "simple_stats \<Rightarrow> simple_stats" where
  "clear_epoch ss = ss\<lparr>epoch_counters := um_map (\<lambda>_. 0) (epoch_counters ss),
     epoch_vec_counters := um_map (map (\<lambda>_. 0)) (epoch_vec_counters ss),
     epoch_histo_counts := um_map (\<lambda>_. []) (epoch_histo_counts ss)\<rparr>"

definition UpdateEpochStats :: "simple_stats \<Rightarrow> simple_stats result" where
  "UpdateEpochStats ss =
     bindE (UpdateCounters ss) (\<lambda>s1. bindE (UpdateHistoBins s1) (\<lambda>s2. Inr (clear_epoch s2)))"

definition UpdateFinalStats :: "simple_stats \<Rightarrow> simple_stats result" where
  "UpdateFinalStats ss = bindE (UpdateCounters ss) UpdateHistoBins"

section \<open>What the controller relies on\<close>

text \<open>The counters with one value for each rank exist with the right length, the overall
  counters have the shape of the epoch's, and the bins of a histogram cover its bounds, so that
  neither counting nor the end of an epoch stops the program.\<close>

definition rank_stats :: "string set" where
  "rank_stats = {''all_bank_idle_cycles'', ''rank_active_cycles'', ''sref_cycles''}"

definition bin_fits :: "int \<times> int \<Rightarrow> int \<Rightarrow> nat \<Rightarrow> bool" where
  "bin_fits bounds width n \<longleftrightarrow> 0 < width \<and> fst bounds \<le> snd bounds \<and>
     (snd bounds - fst bounds) div width + 1 < int n"

definition histos_ok :: "simple_stats \<Rightarrow> bool" where
  "histos_ok ss \<longleftrightarrow>
     (\<forall>(name, b) \<in> set (epoch_histo_bins ss).
        bin_fits (um_ref (0, 0) (histo_bounds ss) name) (um_ref 0 (bin_widths ss) name) (length b)) \<and>
     (\<forall>name. length (um_ref [] (histo_bins ss) name) = length (um_ref [] (epoch_histo_bins ss) name))"

definition vecs_ok :: "simple_stats \<Rightarrow> bool" where
  "vecs_ok ss \<longleftrightarrow> (\<forall>(name, src) \<in> set (epoch_vec_counters ss).
     length src = length (um_ref [] (vec_counters ss) name))"

definition stats_shape :: "config \<Rightarrow> simple_stats \<Rightarrow> bool" where
  "stats_shape cfg ss \<longleftrightarrow>
     (\<forall>name \<in> rank_stats. length (um_ref [] (epoch_vec_counters ss) name) = nat (ranks cfg)) \<and>
     vecs_ok ss \<and> histos_ok ss"

lemma epoch_vec_InitStats [simp]:
  "epoch_vec_counters (fold (\<lambda>name. InitStat name t) names ss) = epoch_vec_counters ss"
  "vec_counters (fold (\<lambda>name. InitStat name t) names ss) = vec_counters ss"
  "histo_bounds (fold (\<lambda>name. InitStat name t) names ss) = histo_bounds ss"
  "bin_widths (fold (\<lambda>name. InitStat name t) names ss) = bin_widths ss"
  "histo_bins (fold (\<lambda>name. InitStat name t) names ss) = histo_bins ss"
  "epoch_histo_bins (fold (\<lambda>name. InitStat name t) names ss) = epoch_histo_bins ss"
  "epoch_histo_counts (fold (\<lambda>name. InitStat name t) names ss) = epoch_histo_counts ss"
  by (induction names arbitrary: ss) (simp_all add: InitStat_def)

lemma InitHistoStat_fields:
  "epoch_histo_bins (InitHistoStat n a e k ss) = um_emplace n (replicate (nat (k + 2)) 0) (epoch_histo_bins ss)"
  "histo_bins (InitHistoStat n a e k ss) = um_emplace n (replicate (nat (k + 2)) 0) (histo_bins ss)"
  "histo_bounds (InitHistoStat n a e k ss) = um_emplace n (a, e) (histo_bounds ss)"
  "bin_widths (InitHistoStat n a e k ss) = um_emplace n ((e - a) sdiv k) (bin_widths ss)"
  "epoch_vec_counters (InitHistoStat n a e k ss) = epoch_vec_counters ss"
  "vec_counters (InitHistoStat n a e k ss) = vec_counters ss"
  by (simp_all add: InitHistoStat_def)

lemma InitVecStat_fields:
  "epoch_vec_counters (InitVecStat n ''vec_counter'' k ss) =
     um_emplace n (replicate (nat k) 0) (epoch_vec_counters ss)"
  "vec_counters (InitVecStat n ''vec_counter'' k ss) = um_emplace n (replicate (nat k) 0) (vec_counters ss)"
  "epoch_histo_bins (InitVecStat n t k ss) = epoch_histo_bins ss"
  "histo_bins (InitVecStat n t k ss) = histo_bins ss"
  "histo_bounds (InitVecStat n t k ss) = histo_bounds ss"
  "bin_widths (InitVecStat n t k ss) = bin_widths ss"
  by (simp_all add: InitVecStat_def)

lemmas init_stats_fields = SimpleStats_def Let_def InitHistoStat_fields InitVecStat_fields empty_stats_def

lemma SimpleStats_vecs:
  "epoch_vec_counters (SimpleStats cfg) = map (\<lambda>n. (n, replicate (nat (ranks cfg)) 0))
     [''all_bank_idle_cycles'', ''rank_active_cycles'', ''sref_cycles'']"
  "vec_counters (SimpleStats cfg) = map (\<lambda>n. (n, replicate (nat (ranks cfg)) 0))
     [''all_bank_idle_cycles'', ''rank_active_cycles'', ''sref_cycles'']"
  by (simp_all add: init_stats_fields um_emplace_def um_set_def)

lemma SimpleStats_histos:
  "epoch_histo_bins (SimpleStats cfg) = [(''read_latency'', replicate 12 0), (''write_latency'', replicate 12 0),
     (''interarrival_latency'', replicate 12 0)]"
  "histo_bins (SimpleStats cfg) = [(''read_latency'', replicate 12 0), (''write_latency'', replicate 12 0),
     (''interarrival_latency'', replicate 12 0)]"
  "histo_bounds (SimpleStats cfg) = [(''read_latency'', (0, 200)), (''write_latency'', (0, 200)),
     (''interarrival_latency'', (0, 100))]"
  "bin_widths (SimpleStats cfg) = [(''read_latency'', 20), (''write_latency'', 20), (''interarrival_latency'', 10)]"
  by (simp_all add: init_stats_fields um_emplace_def um_set_def signed_divide_int_def)

lemma stats_shape_init: "stats_shape cfg (SimpleStats cfg)"
  unfolding stats_shape_def vecs_ok_def histos_ok_def SimpleStats_vecs SimpleStats_histos
  by (simp add: bin_fits_def rank_stats_def um_ref_def)

lemma stats_shape_Increment [simp]: "stats_shape cfg (Increment name ss) = stats_shape cfg ss"
  by (simp add: stats_shape_def vecs_ok_def histos_ok_def Increment_def)

lemma stats_shape_AddValue [simp]: "stats_shape cfg (AddValue name value ss) = stats_shape cfg ss"
  by (simp add: stats_shape_def vecs_ok_def histos_ok_def AddValue_def Let_def)

lemma set_um_set: "set (um_set k v m) \<subseteq> insert (k, v) (set m)"
  by (induction m) (auto simp: um_set_def)

lemma um_set_entries: "\<forall>(k, x) \<in> set m. P k x \<Longrightarrow> P k v \<Longrightarrow> \<forall>(k, x) \<in> set (um_set k v m). P k x"
  using set_um_set [of k v m] by fastforce

lemma um_ref_in: "um_ref d m k \<noteq> d \<Longrightarrow> (k, um_ref d m k) \<in> set m"
  by (auto simp: um_ref_def dest: map_of_SomeD split: option.splits)

lemma IncrementVec_shape:
  assumes ok: "stats_shape cfg ss" and name: "name \<in> rank_stats" and i: "0 \<le> i" "i < ranks cfg"
  shows "okE (stats_shape cfg) (IncrementVec name i ss)"
proof -
  let ?v = "um_ref [] (epoch_vec_counters ss) name"
  let ?w = "?v[nat i := ?v ! nat i + 1]"
  from ok name have len: "length ?v = nat (ranks cfg)" by (simp add: stats_shape_def)
  with i have "?v \<noteq> []" by auto
  from um_ref_in [OF this] ok have w: "length ?w = length (um_ref [] (vec_counters ss) name)"
    by (auto simp: stats_shape_def vecs_ok_def)
  have "\<forall>(n, src) \<in> set (um_set name ?w (epoch_vec_counters ss)). length src = length (um_ref [] (vec_counters ss) n)"
    by (rule um_set_entries) (use ok w in \<open>simp_all add: stats_shape_def vecs_ok_def\<close>)
  then have "vecs_ok (ss\<lparr>epoch_vec_counters := um_set name ?w (epoch_vec_counters ss)\<rparr>)"
    by (simp add: vecs_ok_def)
  with ok len i show ?thesis
    by (auto simp: stats_shape_def histos_ok_def IncrementVec_def vget_def vset_def Let_def)
qed

lemma set_um_map: "set (um_map f m) = (\<lambda>(k, v). (k, f v)) ` set m"
  by (simp add: um_map_def)

lemma um_ref_map_nil: "um_ref [] (um_map (map f) m) k = map f (um_ref [] m k)"
  by (simp add: um_ref_def split: option.split)

lemma stats_shape_clear: "stats_shape cfg (Reset ss) = stats_shape cfg ss"
  by (auto simp: stats_shape_def vecs_ok_def histos_ok_def Reset_def um_ref_map_nil set_um_map)

section \<open>The end of an epoch keeps the counts\<close>

text \<open>A loop over the entries of a map with distinct keys that changes, for every entry, only
  what \<open>L\<close> finds under its key.\<close>

lemma foldE_keyed:
  assumes "distinct (map fst m)" and "foldE (\<lambda>(k, x). f k x) m s = Inr s'"
    and "\<And>k x s s'. (k, x) \<in> set m \<Longrightarrow> f k x s = Inr s' \<Longrightarrow>
      R k x (L s k) (L s' k) \<and> (\<forall>k'. k' \<noteq> k \<longrightarrow> L s' k' = L s k')"
  shows "case map_of m k of None \<Rightarrow> L s' k = L s k | Some x \<Rightarrow> R k x (L s k) (L s' k)"
  using assms
proof (induction m arbitrary: s)
  case (Cons e m)
  obtain j x where e: "e = (j, x)" by (cases e)
  from Cons.prems(2) e obtain t where t: "f j x s = Inr t" "foldE (\<lambda>(k, x). f k x) m t = Inr s'"
    by (auto simp: bindE_eq_Inr)
  have step: "R k x (L s k) (L s' k) \<and> (\<forall>k'. k' \<noteq> k \<longrightarrow> L s' k' = L s k')"
    if "(k, x) \<in> set m" "f k x s = Inr s'" for k x s s'
    by (rule Cons.prems(3)) (use that in auto)
  have ih: "case map_of m k of None \<Rightarrow> L s' k = L t k | Some x \<Rightarrow> R k x (L t k) (L s' k)"
    using Cons.prems(1) by (intro Cons.IH [OF _ t(2) step]) auto
  have st: "R j x (L s j) (L t j)" "k \<noteq> j \<Longrightarrow> L t k = L s k"
    using Cons.prems(3) [OF _ t(1)] by (auto simp: e)
  from Cons.prems(1) e have "map_of m j = None" by (simp add: map_of_eq_None_iff)
  with ih st show ?case by (cases "k = j") (auto simp: e split: option.splits)
qed simp

lemma fold_um_ref:
  "distinct (map fst m) \<Longrightarrow>
   um_ref d (fold (\<lambda>(k, x) c. um_set k (g (um_ref d c k) x) c) m c) k =
     (case map_of m k of None \<Rightarrow> um_ref d c k | Some x \<Rightarrow> g (um_ref d c k) x)"
proof (induction m arbitrary: c)
  case (Cons e m)
  obtain j x where e: "e = (j, x)" by (cases e)
  with Cons.prems have "map_of m j = None" by (simp add: map_of_eq_None_iff)
  with Cons e show ?case by (auto split: option.split)
qed simp

lemma foldE_add_prefix:
  "n \<le> length src \<Longrightarrow> n \<le> length d \<Longrightarrow>
   foldE (\<lambda>i d. bindE (vget src i) (\<lambda>x. bindE (vget d i) (\<lambda>y. vset d i (y + x)))) (indices (int n)) d =
     Inr (map2 (+) (take n d) (take n src) @ drop n (d :: u64 list))"
proof (induction n)
  case (Suc n)
  have i: "indices (int (Suc n)) = indices (int n) @ [int n]" by (simp add: indices_def del: of_nat_Suc)
  let ?d = "map2 (+) (take n d) (take n src) @ drop n d"
  have "?d ! n = d ! n" using Suc.prems by (simp add: nth_append)
  moreover have "?d[n := d ! n + src ! n] = map2 (+) (take (Suc n) d) (take (Suc n) src) @ drop (Suc n) d"
    using Suc.prems by (simp add: list_update_append take_Suc_conv_app_nth Cons_nth_drop_Suc [symmetric])
  ultimately show ?case using Suc by (simp add: i foldE_append vget_def vset_def del: of_nat_Suc)
qed (simp add: indices_def)

lemma add_vec_eq: "length src = length dst \<Longrightarrow> add_vec src dst = Inr (map2 (+) dst src)"
  using foldE_add_prefix [of "length src" src dst] by (simp add: add_vec_def)

lemma final_bins_add_eq:
  "length src = length dst \<Longrightarrow> final_bins_add src dst = Inr (map2 (+) dst src)"
  using foldE_add_prefix [of "length dst" src dst] by (simp add: final_bins_add_def)

lemma bin_idx_ok:
  assumes "bin_fits bounds width n"
  shows "okE (\<lambda>i. 0 \<le> i \<and> i < int n) (bin_idx bounds width (int n) v)"
proof -
  from assms have w: "0 < width" "fst bounds \<le> snd bounds" "(snd bounds - fst bounds) div width + 1 < int n"
    by (simp_all add: bin_fits_def)
  have n: "0 < int n" using w div_int_pos_iff [of "snd bounds - fst bounds" width] by linarith
  show ?thesis
  proof (cases "v < fst bounds \<or> v > snd bounds")
    case True
    with n show ?thesis by (auto simp: bin_idx_def)
  next
    case False
    then have v: "fst bounds \<le> v" "v \<le> snd bounds" by simp_all
    then have "(v - fst bounds) sdiv width = (v - fst bounds) div width"
      using w(1) by (cases "v = fst bounds") (simp_all add: signed_divide_int_def)
    moreover have "(v - fst bounds) div width \<le> (snd bounds - fst bounds) div width"
      using v w(1) by (intro zdiv_mono1) auto
    moreover have "0 \<le> (v - fst bounds) div width" using v w(1) by (simp add: pos_imp_zdiv_nonneg_iff)
    ultimately show ?thesis using w v by (simp add: bin_idx_def)
  qed
qed

lemma UpdateCounters_ok:
  assumes ok: "stats_shape cfg ss"
  shows "okE (\<lambda>ss'. \<exists>c vc. ss' = ss\<lparr>counters := c, vec_counters := vc\<rparr> \<and> stats_shape cfg ss' \<and>
      (distinct (map fst (epoch_counters ss)) \<longrightarrow>
        (\<forall>k. um_ref 0 c k = um_ref 0 (counters ss) k + um_ref 0 (epoch_counters ss) k)) \<and>
      (distinct (map fst (epoch_vec_counters ss)) \<longrightarrow> (\<forall>k v. map_of (epoch_vec_counters ss) k = Some v \<longrightarrow>
         um_ref [] vc k = map2 (+) (um_ref [] (vec_counters ss) k) v))) (UpdateCounters ss)"
proof -
  let ?f = "\<lambda>name src vc. bindE (add_vec src (um_ref [] vc name)) (\<lambda>dst. Inr (um_set name dst vc))"
  let ?I = "\<lambda>vc. \<forall>k. length (um_ref [] vc k) = length (um_ref [] (vec_counters ss) k)"
  let ?c = "fold (\<lambda>(name, n) c. um_set name (um_ref 0 c name + n) c) (epoch_counters ss) (counters ss)"
  have len: "length src = length (um_ref [] (vec_counters ss) k)" if "(k, src) \<in> set (epoch_vec_counters ss)" for k src
    using ok that by (auto simp: stats_shape_def vecs_ok_def)
  have "okE ?I (foldE (\<lambda>(name, src). ?f name src) (epoch_vec_counters ss) (vec_counters ss))"
    by (rule okE_foldE) (auto simp: add_vec_eq len)
  then obtain vc where vc: "foldE (\<lambda>(name, src). ?f name src) (epoch_vec_counters ss) (vec_counters ss) = Inr vc"
    "?I vc" by (rule okE_E)
  have run: "UpdateCounters ss = Inr (ss\<lparr>counters := ?c, vec_counters := vc\<rparr>)"
    using vc(1) by (simp add: UpdateCounters_def)
  have "stats_shape cfg (ss\<lparr>counters := ?c, vec_counters := vc\<rparr>)"
    using ok vc(2) by (simp add: stats_shape_def vecs_ok_def histos_ok_def)
  moreover have "um_ref 0 ?c k = um_ref 0 (counters ss) k + um_ref 0 (epoch_counters ss) k"
    if "distinct (map fst (epoch_counters ss))" for k
    using fold_um_ref [OF that, of 0 "(+)" "counters ss" k] by (simp add: um_ref_def split: option.splits)
  moreover have "um_ref [] vc k = map2 (+) (um_ref [] (vec_counters ss) k) v"
    if d: "distinct (map fst (epoch_vec_counters ss))" and m: "map_of (epoch_vec_counters ss) k = Some v" for k v
  proof -
    have "case map_of (epoch_vec_counters ss) k of None \<Rightarrow> um_ref [] vc k = um_ref [] (vec_counters ss) k
      | Some x \<Rightarrow> add_vec x (um_ref [] (vec_counters ss) k) = Inr (um_ref [] vc k)"
      by (rule foldE_keyed [OF d vc(1), where R = "\<lambda>k x a b. add_vec x a = Inr b"]) (auto simp: bindE_eq_Inr)
    with m len [OF map_of_SomeD [OF m]] show ?thesis by (simp add: add_vec_eq)
  qed
  ultimately show ?thesis unfolding run by (simp add: exI [of _ ?c] exI [of _ vc])
qed

text \<open>The contents of the bins.\<close>

definition in_bin :: "int \<times> int \<Rightarrow> int \<Rightarrow> nat \<Rightarrow> (int, u64) umap \<Rightarrow> nat \<Rightarrow> u64" where
  "in_bin bounds width n counts i =
     sum_list (map snd (filter (\<lambda>(v, _). bin_idx bounds width (int n) v = Inr (int i)) counts))"

lemma fill_bins_ok:
  assumes fit: "bin_fits bounds width (length b)"
  shows "okE (\<lambda>b'. length b' = length b \<and> (\<forall>i < length b. b' ! i = in_bin bounds width (length b) counts i))
    (fill_bins bounds width counts b)"
proof -
  have "okE (\<lambda>b'. length b' = length d \<and> (\<forall>i < length d. b' ! i = d ! i + in_bin bounds width (length d) counts i))
    (foldE (\<lambda>(value, count) bins. bindE (bin_idx bounds width (int (length bins)) value) (\<lambda>i.
        bindE (vget bins i) (\<lambda>n. vset bins i (n + count)))) counts d)"
    if "length d = length b" for d
    using that
  proof (induction counts arbitrary: d)
    case (Cons e counts)
    obtain v n where e: "e = (v, n)" by (cases e)
    from bin_idx_ok [OF fit, of v] obtain i where
      i: "bin_idx bounds width (int (length d)) v = Inr i" "0 \<le> i" "i < int (length d)"
      using Cons.prems by (auto simp: okE_iff)
    let ?d = "d[nat i := d ! nat i + n]"
    from Cons.IH [of ?d] Cons.prems have
      "okE (\<lambda>b'. length b' = length d \<and> (\<forall>j < length d. b' ! j = ?d ! j + in_bin bounds width (length d) counts j))
        (foldE (\<lambda>(value, count) bins. bindE (bin_idx bounds width (int (length bins)) value) (\<lambda>i.
        bindE (vget bins i) (\<lambda>n. vset bins i (n + count)))) counts ?d)" by simp
    moreover have "?d ! j + in_bin bounds width (length d) counts j = d ! j + in_bin bounds width (length d) (e # counts) j"
      if "j < length d" for j
      using i that by (auto simp: e in_bin_def nth_list_update)
    ultimately show ?case using i by (auto simp: e vget_def vset_def elim!: okE_mono)
  qed (simp add: in_bin_def)
  from this [of "map (\<lambda>_. 0) b"] show ?thesis by (simp add: fill_bins_def)
qed

text \<open>Every value falls into exactly one bin.\<close>

lemma sum_list_bins:
  assumes "\<forall>(v, c) \<in> set counts. \<exists>i < n. f v = Inr (int i)"
  shows "(\<Sum>i \<leftarrow> [0..<n]. sum_list (map snd (filter (\<lambda>(v, _). f v = Inr (int i)) counts))) =
    sum_list (map snd (counts :: (int \<times> u64) list))"
  using assms
proof (induction counts)
  case (Cons e counts)
  obtain v c where e: "e = (v, c)" by (cases e)
  from Cons.prems e obtain j where j: "j < n" "f v = Inr (int j)" by auto
  have one: "(\<Sum>i \<leftarrow> [0..<m]. if i = j then c else 0) = (if j < m then c else 0)" for m
    by (induction m) (auto simp: less_Suc_eq)
  have "(\<Sum>i \<leftarrow> [0..<n]. sum_list (map snd (filter (\<lambda>(v, _). f v = Inr (int i)) (e # counts)))) =
    (\<Sum>i \<leftarrow> [0..<n]. (if i = j then c else 0) + sum_list (map snd (filter (\<lambda>(v, _). f v = Inr (int i)) counts)))"
    by (rule arg_cong [of _ _ sum_list], rule map_cong) (auto simp: e j(2))
  also have "\<dots> = c + sum_list (map snd counts)" using Cons j(1) by (simp add: sum_list_addf one)
  finally show ?case by (simp add: e)
qed simp

lemma in_bin_total:
  assumes "bin_fits bounds width n"
  shows "(\<Sum>i \<leftarrow> [0..<n]. in_bin bounds width n counts i) = sum_list (map snd counts)"
proof -
  have "\<exists>i < n. bin_idx bounds width (int n) v = Inr (int i)" for v
  proof -
    from bin_idx_ok [OF assms, of v] obtain x where "bin_idx bounds width (int n) v = Inr x" "0 \<le> x" "x < int n"
      by (auto simp: okE_iff)
    then show ?thesis by (intro exI [of _ "nat x"]) auto
  qed
  then show ?thesis unfolding in_bin_def by (intro sum_list_bins) auto
qed

definition bins_of :: "simple_stats \<Rightarrow> string \<Rightarrow> nat \<Rightarrow> nat \<Rightarrow> u64" where
  "bins_of ss name n =
     in_bin (um_ref (0, 0) (histo_bounds ss) name) (um_ref 0 (bin_widths ss) name) n
       (um_ref [] (epoch_histo_counts ss) name)"

lemma epoch_bins_loop_ok:
  assumes ok: "stats_shape cfg ss" and d: "distinct (map fst (epoch_histo_bins ss))"
  shows "okE (\<lambda>bins. stats_shape cfg (ss\<lparr>epoch_histo_bins := bins\<rparr>) \<and>
      (\<forall>name b. map_of (epoch_histo_bins ss) name = Some b \<longrightarrow>
        length (um_ref [] bins name) = length b \<and> (\<forall>i < length b. um_ref [] bins name ! i = bins_of ss name (length b) i)))
    (epoch_bins_loop ss (epoch_histo_bins ss))"
proof -
  let ?fits = "\<lambda>name b. bin_fits (um_ref (0, 0) (histo_bounds ss) name) (um_ref 0 (bin_widths ss) name) (length b)"
  let ?fill = "\<lambda>name b. fill_bins (um_ref (0, 0) (histo_bounds ss) name) (um_ref 0 (bin_widths ss) name)
      (um_ref [] (epoch_histo_counts ss) name) b"
  let ?f = "\<lambda>name b acc. bindE (?fill name b) (\<lambda>b'. Inr (um_set name b' acc))"
  let ?I = "\<lambda>acc :: (string, u64 list) umap. (\<forall>(name, b) \<in> set acc. ?fits name b) \<and>
      (\<forall>name. length (um_ref [] acc name) = length (um_ref [] (epoch_histo_bins ss) name))"
  from ok have fits: "\<forall>(name, b) \<in> set (epoch_histo_bins ss). ?fits name b"
    by (simp add: stats_shape_def histos_ok_def)
  have "okE ?I (foldE (\<lambda>(name, b). ?f name b) (epoch_histo_bins ss) (epoch_histo_bins ss))"
  proof (rule okE_foldE)
    fix e acc assume e: "e \<in> set (epoch_histo_bins ss)" and I: "?I acc"
    obtain name b where eq: "e = (name, b)" by (cases e)
    with e d have m: "um_ref [] (epoch_histo_bins ss) name = b" by (simp add: um_ref_def)
    from fits e eq have f: "?fits name b" by auto
    from fill_bins_ok [OF f] obtain b' where b': "?fill name b = Inr b'" "length b' = length b"
      by (auto simp: okE_iff)
    have "\<forall>(name, b) \<in> set (um_set name b' acc). ?fits name b"
      by (rule um_set_entries) (use I f b' in auto)
    with I b' m show "okE ?I ((\<lambda>(name, b). ?f name b) e acc)" by (simp add: eq)
  qed (use fits in simp)
  then obtain bins where bins: "foldE (\<lambda>(name, b). ?f name b) (epoch_histo_bins ss) (epoch_histo_bins ss) = Inr bins"
    "?I bins" by (rule okE_E)
  have "length (um_ref [] bins name) = length b \<and> (\<forall>i < length b. um_ref [] bins name ! i = bins_of ss name (length b) i)"
    if m: "map_of (epoch_histo_bins ss) name = Some b" for name b
  proof -
    have "case map_of (epoch_histo_bins ss) name of
        None \<Rightarrow> um_ref [] bins name = um_ref [] (epoch_histo_bins ss) name
      | Some b \<Rightarrow> ?fill name b = Inr (um_ref [] bins name)"
      by (rule foldE_keyed [OF d bins(1), where R = "\<lambda>k x a b. ?fill k x = Inr b"]) (auto simp: bindE_eq_Inr)
    with m have r: "?fill name b = Inr (um_ref [] bins name)" by simp
    from fits map_of_SomeD [OF m] have "?fits name b" by auto
    from fill_bins_ok [OF this, of "um_ref [] (epoch_histo_counts ss) name"] r
    show ?thesis by (simp add: bins_of_def)
  qed
  moreover have "stats_shape cfg (ss\<lparr>epoch_histo_bins := bins\<rparr>)"
    using ok bins(2) by (simp add: stats_shape_def vecs_ok_def histos_ok_def)
  ultimately show ?thesis using bins(1) by (simp add: epoch_bins_loop_def)
qed

lemma merge_counts_ref:
  "distinct (map fst e) \<Longrightarrow> um_ref 0 (merge_counts e f) v = um_ref 0 f v + um_ref 0 e v"
proof -
  assume d: "distinct (map fst e)"
  have step: "(\<lambda>(value, n) c. case map_of c value of None \<Rightarrow> um_set value n c | Some m \<Rightarrow> um_set value (m + n) c)
    = (\<lambda>(value, n :: u64) c. um_set value (um_ref 0 c value + n) c)"
    by (intro ext) (auto simp: um_ref_def split: option.split)
  show ?thesis
    using fold_um_ref [OF d, of 0 "(+)" f v] by (simp add: merge_counts_def step um_ref_def split: option.splits)
qed

text \<open>The keys of the maps that the end of an epoch runs over are distinct.\<close>

definition stats_keys :: "simple_stats \<Rightarrow> bool" where
  "stats_keys ss \<longleftrightarrow> distinct (map fst (epoch_counters ss)) \<and> distinct (map fst (epoch_vec_counters ss)) \<and>
     distinct (map fst (epoch_histo_bins ss)) \<and> distinct (map fst (epoch_histo_counts ss)) \<and>
     (\<forall>(_, m) \<in> set (epoch_histo_counts ss). distinct (map fst m))"

lemma UpdateHistoBins_ok:
  assumes ok: "stats_shape cfg ss" and k: "stats_keys ss"
  shows "okE (\<lambda>ss'. \<exists>eb hc hb. ss' = ss\<lparr>epoch_histo_bins := eb, histo_counts := hc, histo_bins := hb\<rparr> \<and> stats_shape cfg ss' \<and>
      (\<forall>name b. map_of (epoch_histo_bins ss) name = Some b \<longrightarrow>
        length (um_ref [] eb name) = length b \<and> (\<forall>i < length b. um_ref [] eb name ! i = bins_of ss name (length b) i)) \<and>
      (\<forall>name v. um_ref 0 (um_ref [] hc name) v = um_ref 0 (um_ref [] (histo_counts ss) name) v +
         um_ref 0 (um_ref [] (epoch_histo_counts ss) name) v) \<and>
      (\<forall>name m. map_of (epoch_histo_counts ss) name = Some m \<longrightarrow>
         um_ref [] hb name = map2 (+) (um_ref [] (histo_bins ss) name) (um_ref [] eb name)))
    (UpdateHistoBins ss)"
proof -
  from k have d: "distinct (map fst (epoch_histo_bins ss))" "distinct (map fst (epoch_histo_counts ss))"
    "\<forall>(_, m) \<in> set (epoch_histo_counts ss). distinct (map fst m)" by (simp_all add: stats_keys_def)
  from epoch_bins_loop_ok [OF ok d(1)] obtain eb where
    eb: "epoch_bins_loop ss (epoch_histo_bins ss) = Inr eb" "stats_shape cfg (ss\<lparr>epoch_histo_bins := eb\<rparr>)"
      "\<forall>name b. map_of (epoch_histo_bins ss) name = Some b \<longrightarrow>
        length (um_ref [] eb name) = length b \<and> (\<forall>i < length b. um_ref [] eb name ! i = bins_of ss name (length b) i)" by (rule okE_E) blast
  from eb(2) have len: "length (um_ref [] (histo_bins ss) name) = length (um_ref [] eb name)" for name
    by (simp add: stats_shape_def histos_ok_def)
  let ?f = "\<lambda>name epoch_counts (hc, hb). bindE (final_bins_add (um_ref [] eb name) (um_ref [] hb name)) (\<lambda>b.
      Inr (um_set name (merge_counts epoch_counts (um_ref [] hc name)) hc, um_set name b hb))"
  let ?I = "\<lambda>(hc :: (string, (int, u64) umap) umap, hb). \<forall>name. length (um_ref [] hb name) = length (um_ref [] eb name)"
  let ?run = "foldE (\<lambda>(name, epoch_counts). ?f name epoch_counts) (epoch_histo_counts ss) (histo_counts ss, histo_bins ss)"
  have "okE ?I ?run"
    by (rule okE_foldE) (auto simp: len final_bins_add_eq)
  then obtain hc hb where r: "?run = Inr (hc, hb)" "\<forall>name. length (um_ref [] hb name) = length (um_ref [] eb name)"
    by (auto simp: okE_iff)
  have "case map_of (epoch_histo_counts ss) name of
      None \<Rightarrow> um_ref [] (fst (hc, hb)) name = um_ref [] (fst (histo_counts ss, histo_bins ss)) name
    | Some m \<Rightarrow> um_ref [] (fst (hc, hb)) name = merge_counts m (um_ref [] (fst (histo_counts ss, histo_bins ss)) name)" for name
    by (rule foldE_keyed [OF d(2) r(1), where L = "\<lambda>s k. um_ref [] (fst s) k"
        and R = "\<lambda>k m a b. b = merge_counts m a" and k = name])
      (auto simp: bindE_eq_Inr)
  then have hc: "case map_of (epoch_histo_counts ss) name of
      None \<Rightarrow> um_ref [] hc name = um_ref [] (histo_counts ss) name
    | Some m \<Rightarrow> um_ref [] hc name = merge_counts m (um_ref [] (histo_counts ss) name)" for name by (simp only: fst_conv)
  have "case map_of (epoch_histo_counts ss) name of
      None \<Rightarrow> um_ref [] (snd (hc, hb)) name = um_ref [] (snd (histo_counts ss, histo_bins ss)) name
    | Some m \<Rightarrow> final_bins_add (um_ref [] eb name) (um_ref [] (snd (histo_counts ss, histo_bins ss)) name) =
        Inr (um_ref [] (snd (hc, hb)) name)" for name
    by (rule foldE_keyed [OF d(2) r(1), where L = "\<lambda>s k. um_ref [] (snd s) k"
        and R = "\<lambda>k m a b. final_bins_add (um_ref [] eb k) a = Inr b" and k = name])
      (auto simp: bindE_eq_Inr)
  then have hb: "case map_of (epoch_histo_counts ss) name of
      None \<Rightarrow> um_ref [] hb name = um_ref [] (histo_bins ss) name
    | Some m \<Rightarrow> final_bins_add (um_ref [] eb name) (um_ref [] (histo_bins ss) name) = Inr (um_ref [] hb name)" for name
    by (simp only: snd_conv)
  let ?ss = "ss\<lparr>epoch_histo_bins := eb, histo_counts := hc, histo_bins := hb\<rparr>"
  have "stats_shape cfg ?ss" using eb(2) r(2) by (simp add: stats_shape_def vecs_ok_def histos_ok_def)
  moreover have "um_ref 0 (um_ref [] hc name) v = um_ref 0 (um_ref [] (histo_counts ss) name) v +
     um_ref 0 (um_ref [] (epoch_histo_counts ss) name) v" for name v
  proof (cases "map_of (epoch_histo_counts ss) name")
    case None
    with hc [of name] show ?thesis by (simp add: um_ref_def)
  next
    case (Some m)
    from d(3) map_of_SomeD [OF Some] have "distinct (map fst m)" by auto
    with hc [of name] Some show ?thesis by (simp add: merge_counts_ref um_ref_def [of "[]" "epoch_histo_counts ss"])
  qed
  moreover have "um_ref [] hb name = map2 (+) (um_ref [] (histo_bins ss) name) (um_ref [] eb name)"
    if "map_of (epoch_histo_counts ss) name = Some m" for name m
    using hb [of name] that by (simp add: final_bins_add_eq len)
  moreover have "UpdateHistoBins ss = Inr ?ss" using eb(1) r(1) by (simp add: UpdateHistoBins_def)
  ultimately show ?thesis using eb(3) by (simp only: okE_simps) blast
qed

section \<open>Distinct keys\<close>

lemma epoch_counters_InitStat: "epoch_counters (InitStat n ''counter'' ss) = um_emplace n 0 (epoch_counters ss)"
  by (simp add: InitStat_def)

lemma epoch_counters_fold: "distinct (map fst (epoch_counters ss)) \<Longrightarrow>
   distinct (map fst (epoch_counters (fold (\<lambda>name. InitStat name ''counter'') names ss)))"
  by (induction names arbitrary: ss) (simp_all add: epoch_counters_InitStat distinct_um_emplace)

lemma stats_keys_init: "stats_keys (SimpleStats cfg)"
proof -
  have "epoch_counters (SimpleStats cfg) = epoch_counters (fold (\<lambda>name. InitStat name ''counter'') counter_names empty_stats)"
    by (simp add: SimpleStats_def Let_def InitHistoStat_def InitVecStat_def)
  moreover have "distinct (map fst (epoch_counters (fold (\<lambda>name. InitStat name ''counter'') counter_names empty_stats)))"
    by (rule epoch_counters_fold) (simp add: empty_stats_def)
  moreover have e: "epoch_histo_counts (InitHistoStat n a e k ss) = um_emplace n [] (epoch_histo_counts ss)"
    "epoch_histo_counts (InitVecStat n t l ss) = epoch_histo_counts ss" for n a e k ss t l
    by (simp_all add: InitHistoStat_def InitVecStat_def)
  have "epoch_histo_counts (SimpleStats cfg) = [(''read_latency'', []), (''write_latency'', []), (''interarrival_latency'', [])]"
    by (simp add: SimpleStats_def Let_def e empty_stats_def um_emplace_def um_set_def)
  ultimately show ?thesis by (simp add: stats_keys_def SimpleStats_vecs SimpleStats_histos)
qed

lemma inner_distinct:
  assumes "\<forall>(_, m) \<in> set c. distinct (map fst m)"
  shows "distinct (map fst (um_ref [] c name))"
  using assms by (auto simp: um_ref_def dest!: map_of_SomeD split: option.split)

lemma AddValue_eq: "AddValue name value ss = ss\<lparr>epoch_histo_counts := um_set name
    (um_set value (um_ref 0 (um_ref [] (epoch_histo_counts ss) name) value + 1) (um_ref [] (epoch_histo_counts ss) name))
    (epoch_histo_counts ss)\<rparr>"
  by (simp add: AddValue_def Let_def um_ref_def [of 0] split: option.split)

lemma clear_epoch_keys: "stats_keys ss \<Longrightarrow> stats_keys (clear_epoch ss)"
  by (auto simp: stats_keys_def clear_epoch_def set_um_map)

lemma stats_keys_hist:
  assumes "UpdateHistoBins s1 = Inr s2" and "stats_keys s1"
  shows "stats_keys s2"
proof -
  from assms(1) obtain eb hc hb where s2: "s2 = s1\<lparr>epoch_histo_bins := eb, histo_counts := hc, histo_bins := hb\<rparr>"
    "epoch_bins_loop s1 (epoch_histo_bins s1) = Inr eb"
    by (auto simp: UpdateHistoBins_def bindE_eq_Inr)
  have "distinct (map fst eb)"
    by (rule foldE_inv [OF s2(2) [unfolded epoch_bins_loop_def], where I = "\<lambda>m. distinct (map fst m)"])
      (use assms(2) in \<open>auto simp: stats_keys_def bindE_eq_Inr intro: distinct_um_set\<close>)
  with assms(2) show ?thesis by (simp add: s2(1) stats_keys_def)
qed

lemma stats_keys_epoch:
  assumes "UpdateEpochStats ss = Inr ss'" and "stats_keys ss"
  shows "stats_keys ss'"
proof -
  from assms(1) obtain s1 s2 where u: "UpdateCounters ss = Inr s1" "UpdateHistoBins s1 = Inr s2" "ss' = clear_epoch s2"
    by (auto simp: UpdateEpochStats_def bindE_eq_Inr)
  from u(1) obtain c vc where "s1 = ss\<lparr>counters := c, vec_counters := vc\<rparr>"
    by (auto simp: UpdateCounters_def Let_def bindE_eq_Inr)
  with assms(2) have "stats_keys s1" by (simp add: stats_keys_def)
  with u(2,3) show ?thesis by (simp add: clear_epoch_keys stats_keys_hist)
qed

text \<open>The end of an epoch: it succeeds, the overall counts take over what the epoch counted, and
  the epoch starts again from zero.\<close>

definition taken_over :: "simple_stats \<Rightarrow> simple_stats \<Rightarrow> bool" where
  "taken_over ss ss' \<longleftrightarrow>
     (\<forall>k. um_ref 0 (counters ss') k = um_ref 0 (counters ss) k + um_ref 0 (epoch_counters ss) k \<and>
        um_ref 0 (epoch_counters ss') k = 0) \<and>
     (\<forall>k v. map_of (epoch_vec_counters ss) k = Some v \<longrightarrow>
        um_ref [] (vec_counters ss') k = map2 (+) (um_ref [] (vec_counters ss) k) v \<and>
        um_ref [] (epoch_vec_counters ss') k = map (\<lambda>_. 0) v) \<and>
     (\<forall>name v. um_ref 0 (um_ref [] (histo_counts ss') name) v =
          um_ref 0 (um_ref [] (histo_counts ss) name) v + um_ref 0 (um_ref [] (epoch_histo_counts ss) name) v \<and>
        um_ref 0 (um_ref [] (epoch_histo_counts ss') name) v = 0)"

lemma UpdateEpochStats_shape:
  assumes ok: "stats_shape cfg ss" and k: "stats_keys ss"
  shows "okE (\<lambda>ss'. stats_shape cfg ss' \<and> taken_over ss ss' \<and>
      (\<forall>name b. map_of (epoch_histo_bins ss) name = Some b \<longrightarrow>
        length (um_ref [] (epoch_histo_bins ss') name) = length b \<and> (\<forall>i < length b. um_ref [] (epoch_histo_bins ss') name ! i = bins_of ss name (length b) i)) \<and>
      (\<forall>name m. map_of (epoch_histo_counts ss) name = Some m \<longrightarrow>
         um_ref [] (histo_bins ss') name =
           map2 (+) (um_ref [] (histo_bins ss) name) (um_ref [] (epoch_histo_bins ss') name)))
    (UpdateEpochStats ss)"
proof -
  from UpdateCounters_ok [OF ok] k obtain c vc where
    c: "UpdateCounters ss = Inr (ss\<lparr>counters := c, vec_counters := vc\<rparr>)"
      "stats_shape cfg (ss\<lparr>counters := c, vec_counters := vc\<rparr>)"
      "\<forall>k. um_ref 0 c k = um_ref 0 (counters ss) k + um_ref 0 (epoch_counters ss) k"
      "\<forall>k v. map_of (epoch_vec_counters ss) k = Some v \<longrightarrow> um_ref [] vc k = map2 (+) (um_ref [] (vec_counters ss) k) v"
    by (auto simp: okE_iff stats_keys_def)
  let ?s1 = "ss\<lparr>counters := c, vec_counters := vc\<rparr>"
  have "stats_keys ?s1" using k by (simp add: stats_keys_def)
  from UpdateHistoBins_ok [OF c(2) this] obtain eb hc hb where
    h: "UpdateHistoBins ?s1 = Inr (?s1\<lparr>epoch_histo_bins := eb, histo_counts := hc, histo_bins := hb\<rparr>)"
      "stats_shape cfg (?s1\<lparr>epoch_histo_bins := eb, histo_counts := hc, histo_bins := hb\<rparr>)"
      "\<forall>name b. map_of (epoch_histo_bins ss) name = Some b \<longrightarrow>
        length (um_ref [] eb name) = length b \<and> (\<forall>i < length b. um_ref [] eb name ! i = bins_of ?s1 name (length b) i)"
      "\<forall>name v. um_ref 0 (um_ref [] hc name) v = um_ref 0 (um_ref [] (histo_counts ss) name) v +
         um_ref 0 (um_ref [] (epoch_histo_counts ss) name) v"
      "\<forall>name m. map_of (epoch_histo_counts ss) name = Some m \<longrightarrow>
         um_ref [] hb name = map2 (+) (um_ref [] (histo_bins ss) name) (um_ref [] eb name)"
    by (rule okE_E) auto
  let ?s2 = "?s1\<lparr>epoch_histo_bins := eb, histo_counts := hc, histo_bins := hb\<rparr>"
  have z: "um_ref 0 (um_map (\<lambda>_. 0) m) x = (0 :: u64)" for m :: "(string, u64) umap" and x
    by (simp add: um_ref_def split: option.split)
  have e: "um_ref [] (um_map (\<lambda>_. []) m) x = []" for m :: "(string, (int, u64) umap) umap" and x
    by (simp add: um_ref_def split: option.split)
  have "UpdateEpochStats ss = Inr (clear_epoch ?s2)" by (simp add: UpdateEpochStats_def c(1) h(1))
  moreover have "stats_shape cfg (clear_epoch ?s2)"
    using h(2) by (auto simp: stats_shape_def vecs_ok_def histos_ok_def clear_epoch_def um_ref_map_nil set_um_map)
  moreover have "taken_over ss (clear_epoch ?s2)"
    using c(3,4) h(4) by (auto simp: taken_over_def clear_epoch_def z e um_ref_map_nil um_ref_def [of 0 "[]"] um_ref_def [of "[]" "epoch_vec_counters ss"])
  moreover have "bins_of ?s1 = bins_of ss" by (intro ext) (simp add: bins_of_def)
  ultimately show ?thesis using h(3,5) by (simp add: clear_epoch_def)
qed

lemma keys_um_set: "distinct (map fst (um_set k v m)) = distinct (map fst m)"
  by (auto simp: um_set_def update_keys distinct_update)

lemma entries_um_set:
  "P v = P (um_ref d m k) \<Longrightarrow> P d \<Longrightarrow> (\<forall>(_, x) \<in> set (um_set k v m). P x) = (\<forall>(_, x) \<in> set m. P x)"
  by (induction m) (auto simp: um_set_def um_ref_def)

lemma stats_keys_Increment: "stats_keys (Increment name ss) = stats_keys ss"
  by (simp add: stats_keys_def Increment_def keys_um_set)

lemma stats_keys_AddValue: "stats_keys (AddValue name value ss) = stats_keys ss"
  by (simp add: stats_keys_def AddValue_eq keys_um_set
      entries_um_set [where P = "\<lambda>m. distinct (map fst m)" and d = "[]"])

lemma stats_keys_IncrementVec: "IncrementVec name i ss = Inr ss' \<Longrightarrow> stats_keys ss' = stats_keys ss"
  by (auto simp: IncrementVec_def Let_def bindE_eq_Inr stats_keys_def keys_um_set)

lemma stats_keys_Reset: "stats_keys ss \<Longrightarrow> stats_keys (Reset ss)"
  by (auto simp: stats_keys_def Reset_def set_um_map)

section \<open>The invariant\<close>

definition stats_ok :: "config \<Rightarrow> simple_stats \<Rightarrow> bool" where
  "stats_ok cfg ss \<longleftrightarrow> stats_shape cfg ss \<and> stats_keys ss"

lemma stats_ok_init: "stats_ok cfg (SimpleStats cfg)"
  by (simp add: stats_ok_def stats_shape_init stats_keys_init)

lemma stats_ok_Increment [simp]: "stats_ok cfg (Increment name ss) = stats_ok cfg ss"
  by (simp add: stats_ok_def stats_keys_Increment)

lemma stats_ok_AddValue [simp]: "stats_ok cfg (AddValue name value ss) = stats_ok cfg ss"
  by (simp add: stats_ok_def stats_keys_AddValue)

lemma IncrementVec_ok:
  assumes "stats_ok cfg ss" and "name \<in> rank_stats" and "0 \<le> i" and "i < ranks cfg"
  shows "okE (stats_ok cfg) (IncrementVec name i ss)"
proof -
  from assms(1) have ok: "stats_shape cfg ss" "stats_keys ss" by (simp_all add: stats_ok_def)
  from IncrementVec_shape [OF ok(1) assms(2-4)] ok(2) show ?thesis
    by (auto simp: okE_iff stats_ok_def stats_keys_IncrementVec)
qed

lemma stats_ok_Reset: "stats_ok cfg ss \<Longrightarrow> stats_ok cfg (Reset ss)"
  by (simp add: stats_ok_def stats_shape_clear stats_keys_Reset)

lemma UpdateEpochStats_ok:
  assumes "stats_ok cfg ss"
  shows "okE (\<lambda>ss'. stats_ok cfg ss' \<and> taken_over ss ss' \<and>
      (\<forall>name b. map_of (epoch_histo_bins ss) name = Some b \<longrightarrow>
        length (um_ref [] (epoch_histo_bins ss') name) = length b \<and> (\<forall>i < length b. um_ref [] (epoch_histo_bins ss') name ! i = bins_of ss name (length b) i)) \<and>
      (\<forall>name m. map_of (epoch_histo_counts ss) name = Some m \<longrightarrow>
         um_ref [] (histo_bins ss') name =
           map2 (+) (um_ref [] (histo_bins ss) name) (um_ref [] (epoch_histo_bins ss') name)))
    (UpdateEpochStats ss)"
  using UpdateEpochStats_shape [of cfg ss] assms
  by (auto simp: stats_ok_def elim!: okE_mono intro: stats_keys_epoch)

lemma UpdateFinalStats_ok:
  assumes "stats_ok cfg ss"
  shows "okE (stats_ok cfg) (UpdateFinalStats ss)"
proof -
  from assms have ok: "stats_shape cfg ss" "stats_keys ss" by (simp_all add: stats_ok_def)
  from UpdateCounters_ok [OF ok(1)] obtain c vc where
    c: "UpdateCounters ss = Inr (ss\<lparr>counters := c, vec_counters := vc\<rparr>)"
      "stats_shape cfg (ss\<lparr>counters := c, vec_counters := vc\<rparr>)" by (auto simp: okE_iff)
  have k: "stats_keys (ss\<lparr>counters := c, vec_counters := vc\<rparr>)" using ok(2) by (simp add: stats_keys_def)
  from UpdateHistoBins_ok [OF c(2) k] show ?thesis
    using c(1) k by (auto simp: UpdateFinalStats_def stats_ok_def stats_keys_hist elim!: okE_mono)
qed

section \<open>Runs of the statistics\<close>

text \<open>The statistics a controller can reach.\<close>

inductive stats_run :: "config \<Rightarrow> simple_stats \<Rightarrow> bool" for cfg where
  stats_start: "stats_run cfg (SimpleStats cfg)"
| stats_inc: "stats_run cfg ss \<Longrightarrow> stats_run cfg (Increment name ss)"
| stats_vec: "stats_run cfg ss \<Longrightarrow> name \<in> rank_stats \<Longrightarrow> IncrementVec name i ss = Inr ss' \<Longrightarrow>
    0 \<le> i \<Longrightarrow> i < ranks cfg \<Longrightarrow> stats_run cfg ss'"
| stats_add: "stats_run cfg ss \<Longrightarrow> stats_run cfg (AddValue name value ss)"
| stats_epoch: "stats_run cfg ss \<Longrightarrow> UpdateEpochStats ss = Inr ss' \<Longrightarrow> stats_run cfg ss'"
| stats_reset: "stats_run cfg ss \<Longrightarrow> stats_run cfg (Reset ss)"

lemma stats_run_ok: "stats_run cfg ss \<Longrightarrow> stats_ok cfg ss"
proof (induction rule: stats_run.induct)
  case (stats_vec ss name i ss')
  from IncrementVec_ok [OF stats_vec.IH stats_vec.hyps(2,4,5)] stats_vec.hyps(3) show ?case by simp
next
  case (stats_epoch ss ss')
  from UpdateEpochStats_ok [OF stats_epoch.IH] stats_epoch.hyps(2) show ?case by simp
qed (simp_all add: stats_ok_init stats_ok_Reset)

end
