(* ===== verification/Address_Map.thy ===== *)
theory Address_Map
  imports Configuration
begin

text \<open>
  The address mapping of \<open>configuration.cc\<close>: where each of the six fields of an address lies
  (\<open>SetAddressMapping\<close>, from the order given as a string in the configuration file), how an
  address is taken apart (\<open>AddressMapping\<close>), and the constructor \<open>Config\<close>. Lemmas: the
  fields are packed without gaps, every decoded field is in range, and decoding is the inverse
  of placing the fields at their positions, for every order of the six fields.
\<close>

unbundle bit_operations_syntax

section \<open>Address mapping\<close>

definition field_widths :: "config \<Rightarrow> (string \<rightharpoonup> int)" where
  "field_widths c = map_of
    [(''ch'', LogBase2 (channels c)), (''ra'', LogBase2 (ranks c)),
     (''bg'', LogBase2 (bankgroups c)), (''ba'', LogBase2 (banks_per_group c)),
     (''ro'', LogBase2 (rows c)), (''co'', LogBase2 (columns c) - LogBase2 (BL c))]"

text \<open>The two-character tokens of the mapping string.\<close>

fun mapping_fields :: "string \<Rightarrow> string list" where
  "mapping_fields (a # b # s) = [a, b] # mapping_fields s"
| "mapping_fields _ = []"

text \<open>The loop that pops tokens from the back and gives each the next free position.\<close>

fun assign_pos :: "(string \<rightharpoonup> int) \<Rightarrow> string list \<Rightarrow> (string \<rightharpoonup> int) \<Rightarrow> int
    \<Rightarrow> (string \<rightharpoonup> int) result" where
  "assign_pos widths [] field_pos pos = Inr field_pos"
| "assign_pos widths (token # rest) field_pos pos =
     (case widths token of
        None \<Rightarrow> Inl (AbruptExit ''configuration.cc'' 401)
      | Some w \<Rightarrow> assign_pos widths rest (field_pos(token \<mapsto> pos)) (pos + w))"

definition map_at :: "(string \<rightharpoonup> 'a) \<Rightarrow> string \<Rightarrow> 'a result" where
  "map_at m k = (case m k of None \<Rightarrow> Inl (UncaughtException ''out_of_range'') | Some v \<Rightarrow> Inr v)"

text \<open>\<open>(1 << width) - 1\<close>, an \<open>int\<close> stored in a \<open>uint64_t\<close>.\<close>

definition field_mask :: "int \<Rightarrow> u64" where
  "field_mask width = of_c_int (2 ^ nat width - 1)"

definition SetAddressMapping :: "config \<Rightarrow> config result" where
  "SetAddressMapping c =
     (let rsb = bus_width c sdiv 8 * BL c;
          c1 = c\<lparr>request_size_bytes := rsb, shift_bits := LogBase2 rsb\<rparr>;
          widths = field_widths c
      in if length (address_mapping c) \<noteq> 12 then Inl (AbruptExit ''configuration.cc'' 381)
         else bindE (assign_pos widths (rev (mapping_fields (address_mapping c))) Map.empty 0)
           (\<lambda>field_pos.
              bindE (map_at field_pos ''ch'') (\<lambda>ch. bindE (map_at field_pos ''ra'') (\<lambda>ra.
              bindE (map_at field_pos ''bg'') (\<lambda>bg. bindE (map_at field_pos ''ba'') (\<lambda>ba.
              bindE (map_at field_pos ''ro'') (\<lambda>ro. bindE (map_at field_pos ''co'') (\<lambda>co.
              bindE (map_at widths ''ch'') (\<lambda>wch. bindE (map_at widths ''ra'') (\<lambda>wra.
              bindE (map_at widths ''bg'') (\<lambda>wbg. bindE (map_at widths ''ba'') (\<lambda>wba.
              bindE (map_at widths ''ro'') (\<lambda>wro. bindE (map_at widths ''co'') (\<lambda>wco.
                Inr (c1\<lparr>ch_pos := ch, ra_pos := ra, bg_pos := bg, ba_pos := ba, ro_pos := ro,
                        co_pos := co,
                        ch_mask := field_mask wch, ra_mask := field_mask wra,
                        bg_mask := field_mask wbg, ba_mask := field_mask wba,
                        ro_mask := field_mask wro, co_mask := field_mask wco\<rparr>)))))))))))))))"

definition AddressMapping :: "config \<Rightarrow> u64 \<Rightarrow> address" where
  "AddressMapping c a =
     (let h = drop_bit (nat (shift_bits c)) a;
          channel = to_c_int (drop_bit (nat (ch_pos c)) h AND ch_mask c);
          rank = to_c_int (drop_bit (nat (ra_pos c)) h AND ra_mask c);
          bg = to_c_int (drop_bit (nat (bg_pos c)) h AND bg_mask c);
          ba = to_c_int (drop_bit (nat (ba_pos c)) h AND ba_mask c);
          ro = to_c_int (drop_bit (nat (ro_pos c)) h AND ro_mask c);
          co = to_c_int (drop_bit (nat (co_pos c)) h AND co_mask c)
      in Address channel rank bg ba ro co)"

text \<open>The initialisers in the order of the constructor. The fields that none of them sets keep
  the indeterminate values \<open>c0\<close> of the uninitialised object; the initialisers of floating-point
  and output parameters, which no modelled component reads, are left out.\<close>

definition InitOtherParams :: "ini_reader \<Rightarrow> config \<Rightarrow> config" where
  "InitOtherParams rd c =
     c\<lparr>epoch_period := GetInteger rd ''other'' ''epoch_period'' 100000,
       output_level := GetInteger rd ''other'' ''output_level'' 1\<rparr>"

definition Config :: "ini_reader \<Rightarrow> config \<Rightarrow> config result" where
  "Config rd c0 =
     bindE (InitSystemParams rd c0) (\<lambda>c1. bindE (InitDRAMParams rd c1) (\<lambda>c2.
     bindE (CalculateSize c2) (\<lambda>c3. bindE (SetAddressMapping c3) (\<lambda>c4.
     Inr (InitOtherParams rd (InitTimingParams rd c4))))))"

subsection \<open>Fields in a mixed-radix number\<close>

text \<open>
  The specification of the mapping: fields of given widths, lowest first, packed without gaps.
  \<open>offset\<close> is the position of a field, \<open>pack\<close> the number that holds given field values.
\<close>

fun offset :: "('t \<Rightarrow> nat) \<Rightarrow> 't list \<Rightarrow> 't \<Rightarrow> nat" where
  "offset w [] t = 0"
| "offset w (s # ts) t = (if s = t then 0 else w s + offset w ts t)"

fun pack :: "('t \<Rightarrow> nat) \<Rightarrow> ('t \<Rightarrow> int) \<Rightarrow> 't list \<Rightarrow> int" where
  "pack w v [] = 0"
| "pack w v (t # ts) = v t + 2 ^ w t * pack w v ts"

lemma pack_bounds:
  "(\<And>t. t \<in> set ts \<Longrightarrow> 0 \<le> v t \<and> v t < 2 ^ w t) \<Longrightarrow>
   0 \<le> pack w v ts \<and> pack w v ts < 2 ^ sum_list (map w ts)"
proof (induction ts)
  case (Cons t ts)
  then have t: "0 \<le> v t" "v t < 2 ^ w t" and
    IH: "0 \<le> pack w v ts" "pack w v ts + 1 \<le> 2 ^ sum_list (map w ts)" by auto
  have "2 ^ w t * (pack w v ts + 1) \<le> 2 ^ w t * 2 ^ sum_list (map w ts)"
    using IH(2) by (intro mult_left_mono) simp_all
  with t IH(1) show ?case by (simp add: power_add algebra_simps)
qed simp

lemma unpack_pack:
  assumes "\<And>t. t \<in> set ts \<Longrightarrow> 0 \<le> v t \<and> v t < 2 ^ w t" and "t \<in> set ts"
  shows "pack w v ts div 2 ^ offset w ts t mod 2 ^ w t = v t"
  using assms
proof (induction ts)
  case (Cons s ts)
  show ?case
  proof (cases "s = t")
    case True
    with Cons.prems(1) [of t] show ?thesis by simp
  next
    case False
    have "pack w v (s # ts) div 2 ^ w s = pack w v ts"
      using Cons.prems(1) [of s] by simp
    with False Cons show ?thesis by (simp add: power_add zdiv_zmult2_eq del: pack.simps)
  qed
qed simp

lemma pack_cong: "(\<And>t. t \<in> set ts \<Longrightarrow> f t = g t) \<Longrightarrow> pack w f ts = pack w g ts"
  by (induction ts) auto

lemma pack_unpack:
  "distinct ts \<Longrightarrow>
   pack w (\<lambda>t. x div 2 ^ offset w ts t mod 2 ^ w t) ts = x mod 2 ^ sum_list (map w ts)"
proof (induction ts arbitrary: x)
  case (Cons s ts)
  let ?y = "x div 2 ^ w s"
  have "pack w (\<lambda>t. x div 2 ^ offset w (s # ts) t mod 2 ^ w t) ts =
      pack w (\<lambda>t. ?y div 2 ^ offset w ts t mod 2 ^ w t) ts"
    using Cons.prems by (intro pack_cong) (auto simp: power_add zdiv_zmult2_eq)
  also have "\<dots> = ?y mod 2 ^ sum_list (map w ts)"
    using Cons by simp
  finally have "pack w (\<lambda>t. x div 2 ^ offset w (s # ts) t mod 2 ^ w t) (s # ts) =
      x mod 2 ^ w s + 2 ^ w s * (?y mod 2 ^ sum_list (map w ts))" by simp
  also have "\<dots> = x mod (2 ^ w s * 2 ^ sum_list (map w ts))"
    using zmod_zmult2_eq [of "2 ^ sum_list (map w ts)" x "2 ^ w s"] by simp
  finally show ?case by (simp add: power_add)
qed simp

lemma pack_sum:
  "distinct ts \<Longrightarrow> pack w v ts = (\<Sum>t \<in> set ts. v t * 2 ^ offset w ts t)"
proof (induction ts)
  case (Cons s ts)
  have "(\<Sum>t \<in> set ts. v t * 2 ^ offset w (s # ts) t) =
      (\<Sum>t \<in> set ts. 2 ^ w s * (v t * 2 ^ offset w ts t))"
    using Cons.prems by (intro sum.cong) (auto simp: power_add)
  with Cons show ?case by (simp add: sum_distrib_left)
qed simp

subsection \<open>The computed positions\<close>

definition field_names :: "string list" where
  "field_names = [''ch'', ''ra'', ''bg'', ''ba'', ''ro'', ''co'']"

text \<open>The parameters for which the field widths are between 0 and 30 bits (positive 32-bit
  values, and a burst no longer than a row).\<close>

definition mapping_wf :: "config \<Rightarrow> bool" where
  "mapping_wf c \<longleftrightarrow>
     (\<forall>n \<in> {channels c, ranks c, bankgroups c, banks_per_group c, rows c, columns c}.
        1 \<le> n \<and> n < 2 ^ 31) \<and>
     1 \<le> BL c \<and> BL c \<le> columns c"

definition field_width :: "config \<Rightarrow> string \<Rightarrow> nat" where
  "field_width c t = nat (the (field_widths c t))"

text \<open>The value of a named field of an address.\<close>

definition field_of :: "address \<Rightarrow> string \<Rightarrow> int" where
  "field_of a t =
     (if t = ''ch'' then a_channel a else if t = ''ra'' then a_rank a
      else if t = ''bg'' then a_bankgroup a else if t = ''ba'' then a_bank a
      else if t = ''ro'' then a_row a else a_column a)"

definition mapping_order :: "config \<Rightarrow> string list" where
  "mapping_order c = rev (mapping_fields (address_mapping c))"

definition mapping_bits :: "config \<Rightarrow> nat" where
  "mapping_bits c = sum_list (map (field_width c) (mapping_order c))"

lemma LogBase2_le_30: "1 \<le> n \<Longrightarrow> n < 2 ^ 31 \<Longrightarrow> LogBase2 n \<le> 30"
proof -
  assume n: "1 \<le> n" "n < 2 ^ 31"
  with LogBase2_bounds [of n] have "(2::int) ^ nat (LogBase2 n) < 2 ^ 31" by linarith
  then have "nat (LogBase2 n) < 31" by (rule power_less_imp_less_exp [rotated]) simp
  then show ?thesis by linarith
qed

lemma LogBase2_mono: "1 \<le> m \<Longrightarrow> m \<le> n \<Longrightarrow> LogBase2 m \<le> LogBase2 n"
proof -
  assume mn: "1 \<le> m" "m \<le> n"
  with LogBase2_bounds [of m] LogBase2_bounds [of n]
  have "(2::int) ^ nat (LogBase2 m) < 2 ^ (nat (LogBase2 n) + 1)" by linarith
  then have "nat (LogBase2 m) < nat (LogBase2 n) + 1"
    by (rule power_less_imp_less_exp [rotated]) simp
  then have "nat (LogBase2 m) \<le> nat (LogBase2 n)" by simp
  then show ?thesis by (simp only: nat_le_eq_zle [OF disjI2] LogBase2_nonneg)
qed

lemma field_width_simps:
  assumes "mapping_wf c" and "t \<in> set field_names"
  shows "field_widths c t = Some (int (field_width c t)) \<and> field_width c t \<le> 30"
proof -
  have le: "LogBase2 (columns c) \<le> 30" "LogBase2 (channels c) \<le> 30" "LogBase2 (ranks c) \<le> 30"
    "LogBase2 (bankgroups c) \<le> 30" "LogBase2 (banks_per_group c) \<le> 30" "LogBase2 (rows c) \<le> 30"
    using assms by (auto simp: mapping_wf_def intro!: LogBase2_le_30)
  have co: "0 \<le> LogBase2 (columns c) - LogBase2 (BL c)"
    "LogBase2 (columns c) - LogBase2 (BL c) \<le> 30"
    using assms le(1) LogBase2_nonneg [of "BL c"] LogBase2_mono [of "BL c" "columns c"]
    unfolding mapping_wf_def by linarith+
  have "\<exists>n. field_widths c t = Some n \<and> 0 \<le> n \<and> n \<le> 30"
    using assms(2) le co unfolding field_names_def list.set
    by (elim insertE) (simp_all add: field_widths_def)
  then show ?thesis by (auto simp: field_width_def)
qed

lemma assign_pos_dom: "assign_pos W ts fp pos = Inr fp' \<Longrightarrow> dom fp' = dom fp \<union> set ts"
  by (induction W ts fp pos rule: assign_pos.induct) (auto split: option.splits)

lemma assign_pos_other: "assign_pos W ts fp pos = Inr fp' \<Longrightarrow> t \<notin> set ts \<Longrightarrow> fp' t = fp t"
  by (induction W ts fp pos rule: assign_pos.induct) (auto split: option.splits)

lemma assign_pos_offset:
  "assign_pos W ts fp pos = Inr fp' \<Longrightarrow> distinct ts \<Longrightarrow>
   (\<forall>t \<in> set ts. W t = Some (int (w t))) \<Longrightarrow> t \<in> set ts \<Longrightarrow>
   fp' t = Some (pos + int (offset w ts t))"
  by (induction W ts fp pos rule: assign_pos.induct)
    (auto split: option.splits simp: assign_pos_other)

lemma length_mapping_fields: "length (mapping_fields s) = length s div 2"
  by (induction s rule: mapping_fields.induct) simp_all

lemma SetAddressMapping_E:
  assumes "SetAddressMapping c = Inr c'" and "mapping_wf c"
  obtains fp where "distinct (mapping_order c)" "set (mapping_order c) = set field_names"
    and "\<And>t. t \<in> set field_names \<Longrightarrow>
      fp t = int (offset (field_width c) (mapping_order c) t)"
    and "c' = c\<lparr>request_size_bytes := bus_width c sdiv 8 * BL c,
      shift_bits := LogBase2 (bus_width c sdiv 8 * BL c),
      ch_pos := fp ''ch'', ra_pos := fp ''ra'', bg_pos := fp ''bg'', ba_pos := fp ''ba'',
      ro_pos := fp ''ro'', co_pos := fp ''co'',
      ch_mask := field_mask (int (field_width c ''ch'')),
      ra_mask := field_mask (int (field_width c ''ra'')),
      bg_mask := field_mask (int (field_width c ''bg'')),
      ba_mask := field_mask (int (field_width c ''ba'')),
      ro_mask := field_mask (int (field_width c ''ro'')),
      co_mask := field_mask (int (field_width c ''co''))\<rparr>"
proof -
  let ?ts = "mapping_order c"
  have at: "map_at m k = Inr v \<longleftrightarrow> m k = Some v" for m :: "string \<rightharpoonup> int" and k v
    by (simp add: map_at_def split: option.splits)
  from assms(1) obtain fp where len: "length (address_mapping c) = 12"
    and fp: "assign_pos (field_widths c) ?ts Map.empty 0 = Inr fp"
    and dom: "set field_names \<subseteq> dom fp"
    by (auto simp: SetAddressMapping_def Let_def bindE_eq_Inr at mapping_order_def
        field_names_def dom_def split: if_splits)
  have "set field_names \<subseteq> set ?ts" using dom assign_pos_dom [OF fp] by simp
  moreover have "length ?ts = 6"
    using len by (simp add: mapping_order_def length_mapping_fields)
  moreover have "card (set field_names) = 6" by (simp add: field_names_def)
  ultimately have st: "set ?ts = set field_names" "distinct ?ts"
    by (metis card_length card_seteq finite_set,
        metis card_distinct card_length card_mono finite_set le_antisym)
  have W: "\<forall>t \<in> set ?ts. field_widths c t = Some (int (field_width c t))"
    using field_width_simps [OF assms(2)] st(1) by blast
  have pos: "fp t = Some (int (offset (field_width c) ?ts t))" if "t \<in> set field_names" for t
    using assign_pos_offset [OF fp st(2) W, of t] that st(1) by simp
  have Wn: "field_widths c t = Some (int (field_width c t))" if "t \<in> set field_names" for t
    using W that st(1) by blast
  show thesis
  proof (rule that [of "\<lambda>t. the (fp t)"])
    show "distinct ?ts" "set ?ts = set field_names" using st by simp_all
    show "the (fp t) = int (offset (field_width c) ?ts t)" if "t \<in> set field_names" for t
      using pos [OF that] by simp
    show "c' = c\<lparr>request_size_bytes := bus_width c sdiv 8 * BL c,
      shift_bits := LogBase2 (bus_width c sdiv 8 * BL c),
      ch_pos := the (fp ''ch''), ra_pos := the (fp ''ra''), bg_pos := the (fp ''bg''),
      ba_pos := the (fp ''ba''), ro_pos := the (fp ''ro''), co_pos := the (fp ''co''),
      ch_mask := field_mask (int (field_width c ''ch'')),
      ra_mask := field_mask (int (field_width c ''ra'')),
      bg_mask := field_mask (int (field_width c ''bg'')),
      ba_mask := field_mask (int (field_width c ''ba'')),
      ro_mask := field_mask (int (field_width c ''ro'')),
      co_mask := field_mask (int (field_width c ''co''))\<rparr>"
      using assms(1) len fp Wn [unfolded field_names_def, simplified]
      by (clarsimp simp: SetAddressMapping_def Let_def mapping_order_def [symmetric]
          bindE_eq_Inr at)
  qed
qed

subsection \<open>Decoding\<close>

lemma uint_drop_bit64: "uint (drop_bit n (a :: u64)) = uint a div 2 ^ n"
proof -
  have "take_bit 64 (uint a) = uint a"
    using uint_lt2p [of a] by (intro take_bit_int_eq_self) simp_all
  moreover have "uint (drop_bit n a) = drop_bit n (take_bit 64 (uint a))"
    by (simp only: unsigned_drop_bit_eq) simp
  ultimately show ?thesis by (simp only: drop_bit_eq_div)
qed

lemma field_extract:
  assumes "w \<le> 30"
  shows "to_c_int (drop_bit p h AND field_mask (int w)) = uint h div 2 ^ p mod 2 ^ w"
proof -
  have "field_mask (int w) = mask w"
    by (simp add: field_mask_def of_c_int_def mask_eq_exp_minus_1)
  then have "uint (drop_bit p h AND field_mask (int w)) = uint h div 2 ^ p mod 2 ^ w"
    by (simp only: take_bit_eq_mask [symmetric] unsigned_take_bit_eq uint_drop_bit64)
      (simp add: take_bit_eq_mod)
  moreover have "uint h div 2 ^ p mod 2 ^ w < 2 ^ 31"
  proof -
    have "uint h div 2 ^ p mod 2 ^ w < 2 ^ w" by simp
    also have "(2::int) ^ w \<le> 2 ^ 31" using assms by (intro power_increasing) simp_all
    finally show ?thesis .
  qed
  moreover have "- (2 ^ 31) \<le> uint h div 2 ^ p mod 2 ^ w"
    by (rule order_trans [of _ 0]) simp_all
  ultimately show ?thesis
    by (simp only: to_c_int_def signed_take_bit_int_eq_self)
qed

lemma AddressMapping_field:
  assumes "SetAddressMapping c = Inr c'" and "mapping_wf c" and "t \<in> set field_names"
  shows "field_of (AddressMapping c' a) t =
    uint a div 2 ^ nat (shift_bits c') div 2 ^ offset (field_width c) (mapping_order c) t
      mod 2 ^ field_width c t"
proof -
  from SetAddressMapping_E [OF assms(1,2)] obtain fp where
    fp: "\<And>t. t \<in> set field_names \<Longrightarrow> fp t = int (offset (field_width c) (mapping_order c) t)"
    and c': "c' = c\<lparr>request_size_bytes := bus_width c sdiv 8 * BL c,
      shift_bits := LogBase2 (bus_width c sdiv 8 * BL c),
      ch_pos := fp ''ch'', ra_pos := fp ''ra'', bg_pos := fp ''bg'', ba_pos := fp ''ba'',
      ro_pos := fp ''ro'', co_pos := fp ''co'',
      ch_mask := field_mask (int (field_width c ''ch'')),
      ra_mask := field_mask (int (field_width c ''ra'')),
      bg_mask := field_mask (int (field_width c ''bg'')),
      ba_mask := field_mask (int (field_width c ''ba'')),
      ro_mask := field_mask (int (field_width c ''ro'')),
      co_mask := field_mask (int (field_width c ''co''))\<rparr>" by metis
  have w: "field_width c t \<le> 30" if "t \<in> set field_names" for t
    using field_width_simps [OF assms(2) that] by simp
  have main: "to_c_int (drop_bit (nat (fp t)) (drop_bit (nat (shift_bits c')) a)
        AND field_mask (int (field_width c t))) =
      uint a div 2 ^ nat (shift_bits c') div 2 ^ offset (field_width c) (mapping_order c) t
        mod 2 ^ field_width c t" if "t \<in> set field_names" for t
    by (simp only: field_extract [OF w [OF that]] fp [OF that] uint_drop_bit64 nat_int)
  show ?thesis
    using assms(3) main unfolding field_names_def list.set
    by (elim insertE)
      (simp_all add: AddressMapping_def Let_def field_of_def c' field_names_def)
qed

lemma address_eq_fields:
  assumes "\<forall>t \<in> set field_names. field_of a t = field_of b t"
  shows "a = (b :: address)"
  using assms by (intro address.equality) (simp_all add: field_names_def field_of_def)

text \<open>The fields of \<open>a\<close> at their computed positions.\<close>

definition place_fields :: "config \<Rightarrow> address \<Rightarrow> int" where
  "place_fields c a =
     a_channel a * 2 ^ nat (ch_pos c) + a_rank a * 2 ^ nat (ra_pos c) +
     a_bankgroup a * 2 ^ nat (bg_pos c) + a_bank a * 2 ^ nat (ba_pos c) +
     a_row a * 2 ^ nat (ro_pos c) + a_column a * 2 ^ nat (co_pos c)"

lemma place_fields_pack:
  assumes "SetAddressMapping c = Inr c'" and "mapping_wf c"
  shows "place_fields c' a = pack (field_width c) (field_of a) (mapping_order c)"
proof -
  from SetAddressMapping_E [OF assms] obtain fp where
    ts: "distinct (mapping_order c)" "set (mapping_order c) = set field_names" and
    fp: "\<And>t. t \<in> set field_names \<Longrightarrow> fp t = int (offset (field_width c) (mapping_order c) t)"
    and c': "c' = c\<lparr>request_size_bytes := bus_width c sdiv 8 * BL c,
      shift_bits := LogBase2 (bus_width c sdiv 8 * BL c),
      ch_pos := fp ''ch'', ra_pos := fp ''ra'', bg_pos := fp ''bg'', ba_pos := fp ''ba'',
      ro_pos := fp ''ro'', co_pos := fp ''co'',
      ch_mask := field_mask (int (field_width c ''ch'')),
      ra_mask := field_mask (int (field_width c ''ra'')),
      bg_mask := field_mask (int (field_width c ''bg'')),
      ba_mask := field_mask (int (field_width c ''ba'')),
      ro_mask := field_mask (int (field_width c ''ro'')),
      co_mask := field_mask (int (field_width c ''co''))\<rparr>" by metis
  have "pack (field_width c) (field_of a) (mapping_order c) =
      (\<Sum>t \<in> set field_names. field_of a t * 2 ^ nat (fp t))"
    using ts fp by (simp add: pack_sum)
  also have "\<dots> = place_fields c' a"
    by (simp add: place_fields_def c' field_names_def field_of_def)
  finally show ?thesis by simp
qed

subsection \<open>Properties\<close>

text \<open>The fields of a decoded address are in range, whatever the address is.\<close>

lemma field_of_range:
  assumes "SetAddressMapping c = Inr c'" and "mapping_wf c" and "t \<in> set field_names"
  shows "0 \<le> field_of (AddressMapping c' a) t \<and>
    field_of (AddressMapping c' a) t < 2 ^ field_width c t"
  by (simp add: AddressMapping_field [OF assms])

lemma pow_width_le: "1 \<le> n \<Longrightarrow> (2::int) ^ nat (LogBase2 n) \<le> n"
  using LogBase2_bounds by blast

lemma AddressMapping_ranges:
  assumes "SetAddressMapping c = Inr c'" and "mapping_wf c"
  shows "0 \<le> a_channel (AddressMapping c' a) \<and> a_channel (AddressMapping c' a) < channels c \<and>
    0 \<le> a_rank (AddressMapping c' a) \<and> a_rank (AddressMapping c' a) < ranks c \<and>
    0 \<le> a_bankgroup (AddressMapping c' a) \<and> a_bankgroup (AddressMapping c' a) < bankgroups c \<and>
    0 \<le> a_bank (AddressMapping c' a) \<and> a_bank (AddressMapping c' a) < banks_per_group c \<and>
    0 \<le> a_row (AddressMapping c' a) \<and> a_row (AddressMapping c' a) < rows c \<and>
    0 \<le> a_column (AddressMapping c' a) \<and>
    a_column (AddressMapping c' a) < 2 ^ nat (LogBase2 (columns c) - LogBase2 (BL c))"
proof -
  have r: "\<forall>t \<in> set field_names. 0 \<le> field_of (AddressMapping c' a) t \<and>
      field_of (AddressMapping c' a) t < 2 ^ field_width c t"
    using field_of_range [OF assms] by blast
  have "2 ^ field_width c ''ch'' \<le> channels c" "2 ^ field_width c ''ra'' \<le> ranks c"
    "2 ^ field_width c ''bg'' \<le> bankgroups c" "2 ^ field_width c ''ba'' \<le> banks_per_group c"
    "2 ^ field_width c ''ro'' \<le> rows c"
    using assms(2) pow_width_le by (simp_all add: field_width_def field_widths_def mapping_wf_def)
  moreover have "field_width c ''co'' = nat (LogBase2 (columns c) - LogBase2 (BL c))"
    by (simp add: field_width_def field_widths_def)
  ultimately show ?thesis using r by (simp add: field_names_def field_of_def)
qed

lemma shift_bits_SetAddressMapping:
  "SetAddressMapping c = Inr c' \<Longrightarrow> mapping_wf c \<Longrightarrow>
   shift_bits c' = LogBase2 (bus_width c sdiv 8 * BL c)"
  by (erule (1) SetAddressMapping_E) simp

text \<open>Decoding gives back fields placed at their positions, under any low-order offset inside
  a request.\<close>

lemma AddressMapping_place:
  assumes m: "SetAddressMapping c = Inr c'" "mapping_wf c"
    and fit: "nat (shift_bits c') + mapping_bits c \<le> 64"
    and a: "\<And>t. t \<in> set field_names \<Longrightarrow> 0 \<le> field_of a t \<and> field_of a t < 2 ^ field_width c t"
    and low: "0 \<le> low" "low < 2 ^ nat (shift_bits c')"
  shows "AddressMapping c' (of_c_int (place_fields c' a * 2 ^ nat (shift_bits c') + low)) = a"
proof (rule address_eq_fields, intro ballI)
  fix t assume t: "t \<in> set field_names"
  let ?s = "nat (shift_bits c')" and ?w = "field_width c" and ?ts = "mapping_order c"
  let ?p = "pack ?w (field_of a) ?ts"
  from SetAddressMapping_E [OF m] have ts: "set ?ts = set field_names" by metis
  have p: "place_fields c' a = ?p" by (rule place_fields_pack [OF m])
  have pb: "0 \<le> ?p" "?p + 1 \<le> 2 ^ mapping_bits c"
    using pack_bounds [of ?ts "field_of a" ?w] a ts by (auto simp: mapping_bits_def)
  have "?p * 2 ^ ?s + low < (?p + 1) * 2 ^ ?s"
    using low by (simp add: algebra_simps)
  also have "\<dots> \<le> 2 ^ mapping_bits c * 2 ^ ?s"
    using pb by (intro mult_right_mono) simp_all
  also have "\<dots> \<le> (2::int) ^ 64"
    using fit by (simp only: power_add [symmetric], intro power_increasing) simp_all
  finally have "uint (of_c_int (?p * 2 ^ ?s + low)) = ?p * 2 ^ ?s + low"
    using pb(1) low(1) by (intro uint_of_c_int) simp_all
  then have "uint (of_c_int (?p * 2 ^ ?s + low)) div 2 ^ ?s = ?p"
    using low by simp
  then have "field_of (AddressMapping c' (of_c_int (?p * 2 ^ ?s + low))) t = field_of a t"
    using unpack_pack [of ?ts "field_of a" ?w t] a t ts by (simp only: AddressMapping_field [OF m t])
  then show "field_of (AddressMapping c' (of_c_int (place_fields c' a * 2 ^ ?s + low))) t
      = field_of a t" by (simp only: p)
qed

text \<open>The other direction: the fields of an address determine its mapped bits.\<close>

lemma place_AddressMapping:
  assumes m: "SetAddressMapping c = Inr c'" "mapping_wf c"
  shows "place_fields c' (AddressMapping c' a) =
    uint a div 2 ^ nat (shift_bits c') mod 2 ^ mapping_bits c"
proof -
  from SetAddressMapping_E [OF m] have ts: "distinct (mapping_order c)"
    "set (mapping_order c) = set field_names" by metis+
  have "place_fields c' (AddressMapping c' a) =
      pack (field_width c) (\<lambda>t. uint a div 2 ^ nat (shift_bits c') div
        2 ^ offset (field_width c) (mapping_order c) t mod 2 ^ field_width c t) (mapping_order c)"
    unfolding place_fields_pack [OF m]
    by (rule pack_cong) (simp add: ts(2) AddressMapping_field [OF m])
  then show ?thesis
    by (simp only: pack_unpack [OF ts(1)] mapping_bits_def)
qed

lemma AddressMapping_injective:
  assumes m: "SetAddressMapping c = Inr c'" "mapping_wf c"
    and eq: "AddressMapping c' a = AddressMapping c' b"
    and low: "uint a mod 2 ^ nat (shift_bits c') = uint b mod 2 ^ nat (shift_bits c')"
    and size: "uint a < 2 ^ (nat (shift_bits c') + mapping_bits c)"
      "uint b < 2 ^ (nat (shift_bits c') + mapping_bits c)"
  shows "a = b"
proof -
  let ?s = "nat (shift_bits c')"
  have d: "uint x div 2 ^ ?s mod 2 ^ mapping_bits c = uint x div 2 ^ ?s"
    if "uint x < 2 ^ (?s + mapping_bits c)" for x :: u64
    using that by (intro mod_pos_pos_trivial div_less_pow)
      (simp_all add: pos_imp_zdiv_nonneg_iff power_add mult.commute)
  from eq have "uint a div 2 ^ ?s = uint b div 2 ^ ?s"
    using place_AddressMapping [OF m, of a] place_AddressMapping [OF m, of b]
      d [OF size(1)] d [OF size(2)] by simp
  with low have "uint a = uint b" by (metis div_mult_mod_eq)
  then show ?thesis by (simp add: word_uint_eq_iff)
qed

end
