(* ===== verification/CommandQueue.thy ===== *)
theory CommandQueue
  imports ChannelRun SimpleStats Address_Map
begin

text \<open>
  \<open>command_queue.h\<close> and \<open>command_queue.cc\<close>: the queues of reads and writes of a channel, one for
  each bank or one for each rank. The class holds references to the channel state and the
  statistics of its controller; here the operations that use them take them and return them.
  An iterator into a queue is the split of the queue at it. Lemmas: the command that
  \<open>GetCommandToIssue\<close> or \<open>FinishRefresh\<close> returns may be executed, reads and writes leave
  the queues exactly when they are returned, and no operation stops the program.
\<close>

datatype queue_structure_t = PER_RANK | PER_BANK

record cmd_queue =
  rank_q_empty :: "bool list"
  q_structure :: queue_structure_t
  queues :: "command list list"
  ref_q_indices :: "int set"
  is_in_ref :: bool
  num_queues :: int
  queue_size :: u64
  queue_idx :: int
  cq_clk :: u64

text \<open>The vectors are built with the lengths and the capacities the configuration gives: a
  negative one is a length no vector can have.\<close>

definition CommandQueue :: "config \<Rightarrow> cmd_queue result" where
  "CommandQueue cfg =
     (let init = (\<lambda>structure n.
            if n < 0 \<or> 0 < n \<and> cmd_queue_size cfg < 0 then Inl (UncaughtException ''length_error'')
            else Inr \<lparr>rank_q_empty = replicate (nat (ranks cfg)) True,
              q_structure = structure, queues = replicate (nat n) [], ref_q_indices = {},
              is_in_ref = False, num_queues = n, queue_size = of_c_int (cmd_queue_size cfg),
              queue_idx = 0, cq_clk = 0\<rparr>) in
      if ranks cfg < 0 then Inl (UncaughtException ''length_error'')
      else if queue_structure cfg = ''PER_BANK'' then init PER_BANK (banks cfg * ranks cfg)
      else if queue_structure cfg = ''PER_RANK'' then init PER_RANK (ranks cfg)
      else Inl (AbruptExit ''command_queue.cc'' 26))"

definition GetQueueIndex :: "config \<Rightarrow> cmd_queue \<Rightarrow> int \<Rightarrow> int \<Rightarrow> int \<Rightarrow> int" where
  "GetQueueIndex cfg cq rank bankgroup bank =
     (if q_structure cq = PER_RANK then rank
      else rank * banks cfg + bankgroup * banks_per_group cfg + bank)"

definition GetQueue :: "config \<Rightarrow> cmd_queue \<Rightarrow> int \<Rightarrow> int \<Rightarrow> int \<Rightarrow> command list result" where
  "GetQueue cfg cq rank bankgroup bank = vget (queues cq) (GetQueueIndex cfg cq rank bankgroup bank)"

definition size_u :: "'a list \<Rightarrow> u64" where
  "size_u q = of_nat (length q)"

definition cq_WillAcceptCommand :: "config \<Rightarrow> cmd_queue \<Rightarrow> int \<Rightarrow> int \<Rightarrow> int \<Rightarrow> bool result" where
  "cq_WillAcceptCommand cfg cq rank bankgroup bank =
     bindE (vget (queues cq) (GetQueueIndex cfg cq rank bankgroup bank)) (\<lambda>q.
       Inr (size_u q < queue_size cq))"

definition QueueEmpty :: "cmd_queue \<Rightarrow> bool" where
  "QueueEmpty cq = (\<forall>q \<in> set (queues cq). q = [])"

text \<open>The reference that \<open>GetQueue\<close> returns, written back.\<close>

definition set_queue :: "config \<Rightarrow> cmd_queue \<Rightarrow> int \<Rightarrow> int \<Rightarrow> int \<Rightarrow> command list \<Rightarrow> cmd_queue result" where
  "set_queue cfg cq rank bankgroup bank q =
     bindE (vset (queues cq) (GetQueueIndex cfg cq rank bankgroup bank) q) (\<lambda>qs.
       Inr (cq\<lparr>queues := qs\<rparr>))"

definition AddCommand :: "config \<Rightarrow> command \<Rightarrow> cmd_queue \<Rightarrow> (bool \<times> cmd_queue) result" where
  "AddCommand cfg cmd cq =
     bindE (GetQueue cfg cq (Rank cmd) (Bankgroup cmd) (Bank cmd)) (\<lambda>q.
       if size_u q < queue_size cq then
         bindE (set_queue cfg cq (Rank cmd) (Bankgroup cmd) (Bank cmd) (q @ [cmd])) (\<lambda>cq'.
         bindE (vset (rank_q_empty cq') (Rank cmd) False) (\<lambda>e.
         Inr (True, cq'\<lparr>rank_q_empty := e\<rparr>)))
       else Inr (False, cq))"

definition cq_QueueUsage :: "cmd_queue \<Rightarrow> int" where
  "cq_QueueUsage cq = sum_list (map (\<lambda>q. int (length q)) (queues cq))"

definition cq_ClockTick :: "cmd_queue \<Rightarrow> cmd_queue" where
  "cq_ClockTick cq = cq\<lparr>cq_clk := cq_clk cq + 1\<rparr>"

definition GetNextQueue :: "cmd_queue \<Rightarrow> (command list \<times> cmd_queue) result" where
  "GetNextQueue cq =
     (let i = queue_idx cq + 1; i' = (if i = num_queues cq then 0 else i) in
      bindE (vget (queues cq) i') (\<lambda>q. Inr (q, cq\<lparr>queue_idx := i'\<rparr>)))"

definition GetRefQIndices :: "config \<Rightarrow> command \<Rightarrow> cmd_queue \<Rightarrow> cmd_queue result" where
  "GetRefQIndices cfg ref cq =
     (if cmd_type ref = REFRESH then
        if q_structure cq = PER_BANK then
          (if banks cfg = 0 \<and> 0 < num_queues cq then Inl DivByZero
           else Inr (cq\<lparr>ref_q_indices := ref_q_indices cq \<union>
             set (filter (\<lambda>i. i sdiv banks cfg = Rank ref) (indices (num_queues cq)))\<rparr>))
        else Inr (cq\<lparr>ref_q_indices := insert (Rank ref) (ref_q_indices cq)\<rparr>)
      else Inr (cq\<lparr>ref_q_indices :=
        insert (GetQueueIndex cfg cq (Rank ref) (Bankgroup ref) (Bank ref)) (ref_q_indices cq)\<rparr>))"

definition same_place :: "command \<Rightarrow> command \<Rightarrow> bool" where
  "same_place c d \<longleftrightarrow> Rank c = Rank d \<and> Bankgroup c = Bankgroup d \<and> Bank c = Bank d"

text \<open>\<open>pre\<close> holds the commands before the iterator, \<open>rest\<close> those behind it.\<close>

definition ArbitratePrecharge :: "command list \<Rightarrow> command \<Rightarrow> command list \<Rightarrow> channel_state
    \<Rightarrow> simple_stats \<Rightarrow> (bool \<times> simple_stats) result" where
  "ArbitratePrecharge pre cmd rest cs ss =
     (if \<exists>p \<in> set pre. same_place p cmd then Inr (False, ss)
      else bindE (ch_OpenRow cs (Rank cmd) (Bankgroup cmd) (Bank cmd)) (\<lambda>open_row.
        let pending_row_hits_exist =
          (\<exists>p \<in> set (cmd # rest). Row p = open_row \<and> same_place p cmd) in
        bindE (ch_RowHitCount cs (Rank cmd) (Bankgroup cmd) (Bank cmd)) (\<lambda>n.
        let rowhit_limit_reached = (n \<ge> 4) in
        if \<not> pending_row_hits_exist \<or> rowhit_limit_reached
        then Inr (True, Increment ''num_ondemand_pres'' ss)
        else Inr (False, ss))))"

definition HasRWDependency :: "command list \<Rightarrow> command \<Rightarrow> bool" where
  "HasRWDependency pre cmd = (\<exists>p \<in> set pre. IsRead p \<and> Row p = Row cmd \<and> Column p = Column cmd \<and>
     Bank p = Bank cmd \<and> Bankgroup p = Bankgroup cmd)"

fun first_ready_loop :: "config \<Rightarrow> u64 \<Rightarrow> command list \<Rightarrow> command list \<Rightarrow> channel_state
    \<Rightarrow> simple_stats \<Rightarrow> (command \<times> channel_state \<times> simple_stats) result" where
  "first_ready_loop cfg clk pre [] cs ss = Inr (Command_default, cs, ss)"
| "first_ready_loop cfg clk pre (c # rest) cs ss =
     bindE (GetReadyCommand cfg c clk cs) (\<lambda>(cmd, cs').
       if \<not> IsValid cmd then first_ready_loop cfg clk (pre @ [c]) rest cs' ss
       else if cmd_type cmd = PRECHARGE then
         bindE (ArbitratePrecharge pre c rest cs' ss) (\<lambda>(ok, ss').
           if \<not> ok then first_ready_loop cfg clk (pre @ [c]) rest cs' ss'
           else Inr (cmd, cs', ss'))
       else if IsWrite cmd \<and> HasRWDependency pre c
         then first_ready_loop cfg clk (pre @ [c]) rest cs' ss
       else Inr (cmd, cs', ss))"

definition GetFirstReadyInQueue :: "config \<Rightarrow> cmd_queue \<Rightarrow> command list \<Rightarrow> channel_state
    \<Rightarrow> simple_stats \<Rightarrow> (command \<times> channel_state \<times> simple_stats) result" where
  "GetFirstReadyInQueue cfg cq queue cs ss = first_ready_loop cfg (cq_clk cq) [] queue cs ss"

definition EraseRWCommand :: "config \<Rightarrow> command \<Rightarrow> cmd_queue \<Rightarrow> cmd_queue result" where
  "EraseRWCommand cfg cmd cq =
     bindE (GetQueue cfg cq (Rank cmd) (Bankgroup cmd) (Bank cmd)) (\<lambda>q.
       if \<exists>c \<in> set q. hex_addr cmd = hex_addr c \<and> cmd_type cmd = cmd_type c
       then set_queue cfg cq (Rank cmd) (Bankgroup cmd) (Bank cmd)
              (remove_first (\<lambda>c. hex_addr cmd = hex_addr c \<and> cmd_type cmd = cmd_type c) q)
       else Inl (ExitFailure ''command_queue.cc'' 228))"

fun issue_loop :: "nat \<Rightarrow> config \<Rightarrow> cmd_queue \<Rightarrow> channel_state \<Rightarrow> simple_stats
    \<Rightarrow> (command \<times> cmd_queue \<times> channel_state \<times> simple_stats) result" where
  "issue_loop 0 cfg cq cs ss = Inr (Command_default, cq, cs, ss)"
| "issue_loop (Suc n) cfg cq cs ss =
     bindE (GetNextQueue cq) (\<lambda>(queue, cq').
       if is_in_ref cq' \<and> queue_idx cq' \<in> ref_q_indices cq' then issue_loop n cfg cq' cs ss
       else bindE (GetFirstReadyInQueue cfg cq' queue cs ss) (\<lambda>(cmd, cs', ss').
         if IsValid cmd then
           bindE (if IsReadWrite cmd then EraseRWCommand cfg cmd cq' else Inr cq') (\<lambda>cq''.
             Inr (cmd, cq'', cs', ss'))
         else issue_loop n cfg cq' cs' ss'))"

definition GetCommandToIssue :: "config \<Rightarrow> cmd_queue \<Rightarrow> channel_state \<Rightarrow> simple_stats
    \<Rightarrow> (command \<times> cmd_queue \<times> channel_state \<times> simple_stats) result" where
  "GetCommandToIssue cfg cq cs ss = issue_loop (nat (num_queues cq)) cfg cq cs ss"

definition FinishRefresh :: "config \<Rightarrow> cmd_queue \<Rightarrow> channel_state
    \<Rightarrow> (command \<times> cmd_queue \<times> channel_state) result" where
  "FinishRefresh cfg cq cs =
     bindE (PendingRefCommand cs) (\<lambda>ref.
     bindE (if \<not> is_in_ref cq
            then bindE (GetRefQIndices cfg ref cq) (\<lambda>q. Inr (q\<lparr>is_in_ref := True\<rparr>))
            else Inr cq) (\<lambda>cq'.
     bindE (GetReadyCommand cfg ref (cq_clk cq') cs) (\<lambda>(cmd, cs').
     Inr (cmd, if IsRefresh cmd then cq'\<lparr>ref_q_indices := {}, is_in_ref := False\<rparr> else cq', cs'))))"

section \<open>Invariant\<close>

text \<open>All commands in the queues.\<close>

definition queued :: "cmd_queue \<Rightarrow> command list" where
  "queued cq = concat (queues cq)"

definition queued_cmd_ok :: "config \<Rightarrow> command \<Rightarrow> bool" where
  "queued_cmd_ok cfg c \<longleftrightarrow> IsReadWrite c \<and> cmd_in_range cfg c \<and> addr c = AddressMapping cfg (hex_addr c)"

definition queue_ok :: "config \<Rightarrow> cmd_queue \<Rightarrow> int \<Rightarrow> command list \<Rightarrow> bool" where
  "queue_ok cfg cq i q \<longleftrightarrow>
     (\<forall>c \<in> set q. queued_cmd_ok cfg c \<and> GetQueueIndex cfg cq (Rank c) (Bankgroup c) (Bank c) = i) \<and>
     int (length q) \<le> uint (queue_size cq)"

definition cq_shape :: "config \<Rightarrow> cmd_queue \<Rightarrow> bool" where
  "cq_shape cfg cq \<longleftrightarrow>
     num_queues cq = (if q_structure cq = PER_BANK then banks cfg * ranks cfg else ranks cfg) \<and>
     length (queues cq) = nat (num_queues cq) \<and> 0 \<le> queue_idx cq \<and> queue_idx cq < num_queues cq \<and>
     length (rank_q_empty cq) = nat (ranks cfg)"

definition cq_inv :: "config \<Rightarrow> cmd_queue \<Rightarrow> bool" where
  "cq_inv cfg cq \<longleftrightarrow> cq_shape cfg cq \<and>
     (\<forall>i. 0 \<le> i \<longrightarrow> i < num_queues cq \<longrightarrow> queue_ok cfg cq i (queues cq ! nat i))"

lemma queue_ok_length: "queue_ok cfg cq i q \<Longrightarrow> int (length q) \<le> uint (queue_size cq)"
  by (simp add: queue_ok_def)

lemma queue_ok_append: "queue_ok cfg cq i q \<Longrightarrow> queued_cmd_ok cfg c \<Longrightarrow>
    GetQueueIndex cfg cq (Rank c) (Bankgroup c) (Bank c) = i \<Longrightarrow>
    int (length q) + 1 \<le> uint (queue_size cq) \<Longrightarrow> queue_ok cfg cq i (q @ [c])"
  by (auto simp: queue_ok_def)

lemma queue_ok_subset: "queue_ok cfg cq i q \<Longrightarrow> set q' \<subseteq> set q \<Longrightarrow> length q' \<le> length q \<Longrightarrow> queue_ok cfg cq i q'"
  by (auto simp: queue_ok_def)

lemma cq_inv_queue: "cq_inv cfg cq \<Longrightarrow> 0 \<le> i \<Longrightarrow> i < num_queues cq \<Longrightarrow> queue_ok cfg cq i (queues cq ! nat i)"
  by (simp add: cq_inv_def)

lemma cq_invD:
  assumes "cq_inv cfg cq" and "0 \<le> i" and "i < num_queues cq" and "c \<in> set (queues cq ! nat i)"
  shows "queued_cmd_ok cfg c" and "GetQueueIndex cfg cq (Rank c) (Bankgroup c) (Bank c) = i"
  using cq_inv_queue [OF assms(1-3)] assms(4) by (simp_all add: queue_ok_def)

lemma cq_inv_shape: "cq_inv cfg cq \<Longrightarrow> cq_shape cfg cq"
  by (simp add: cq_inv_def)

lemma cq_inv_length: "cq_inv cfg cq \<Longrightarrow> length (queues cq) = nat (num_queues cq)"
  by (simp add: cq_inv_def cq_shape_def)

lemma queued_iff: "c \<in> set (queued cq) \<longleftrightarrow> (\<exists>i < length (queues cq). c \<in> set (queues cq ! i))"
  unfolding queued_def set_concat UN_iff by (auto simp: in_set_conv_nth [of _ "queues cq"] intro: bexI [OF _ nth_mem])

lemma queued_ok: "cq_inv cfg cq \<Longrightarrow> c \<in> set (queued cq) \<Longrightarrow> queued_cmd_ok cfg c"
proof -
  assume cq: "cq_inv cfg cq" and "c \<in> set (queued cq)"
  then obtain i where i: "i < length (queues cq)" "c \<in> set (queues cq ! i)" by (auto simp: queued_iff)
  with cq have "int i < num_queues cq" by (auto dest: cq_inv_length)
  from cq_invD(1) [OF cq _ this] i(2) show ?thesis by simp
qed

lemma queue_ok_cong: "q_structure cq' = q_structure cq \<Longrightarrow> queue_size cq' = queue_size cq \<Longrightarrow>
    queue_ok cfg cq' = queue_ok cfg cq"
  by (simp add: queue_ok_def GetQueueIndex_def fun_eq_iff)

text \<open>The invariant does not mention the remaining fields.\<close>

lemma cq_inv_cong:
  assumes "q_structure cq' = q_structure cq" "queue_size cq' = queue_size cq" "queues cq' = queues cq"
    "num_queues cq' = num_queues cq" "length (rank_q_empty cq') = length (rank_q_empty cq)"
    "0 \<le> queue_idx cq'" "queue_idx cq' < num_queues cq" "cq_inv cfg cq"
  shows "cq_inv cfg cq'"
  using assms queue_ok_cong [OF assms(1,2), of cfg] by (simp add: cq_inv_def cq_shape_def)

text \<open>The queue of every bank of the channel exists.\<close>

lemma GetQueueIndex_range:
  assumes wf: "cfg_wf cfg" and cq: "cq_inv cfg cq" and r: "in_range cfg (r, g, b)"
  shows "0 \<le> GetQueueIndex cfg cq r g b \<and> GetQueueIndex cfg cq r g b < num_queues cq"
proof (cases "q_structure cq")
  case PER_RANK
  with cq r show ?thesis by (simp add: GetQueueIndex_def cq_inv_def cq_shape_def)
next
  case PER_BANK
  let ?i = "g * banks_per_group cfg + b"
  from r have "g * banks_per_group cfg + b < (g + 1) * banks_per_group cfg" by (simp add: algebra_simps)
  also have "\<dots> \<le> bankgroups cfg * banks_per_group cfg"
    using r by (intro mult_right_mono) simp_all
  finally have i: "0 \<le> ?i" "?i < banks cfg" using wf r by (simp_all add: cfg_wf_def)
  then have pos: "0 \<le> banks cfg" by linarith
  from i have "r * banks cfg + ?i < (r + 1) * banks cfg" by (simp add: algebra_simps)
  also have "\<dots> \<le> ranks cfg * banks cfg"
    using r pos by (intro mult_right_mono) simp_all
  finally have "r * banks cfg + ?i < banks cfg * ranks cfg" by (simp add: mult.commute)
  moreover have "0 \<le> r * banks cfg" using r pos by simp
  with i have "0 \<le> r * banks cfg + ?i" by linarith
  ultimately show ?thesis using cq PER_BANK
    by (simp add: GetQueueIndex_def cq_inv_def cq_shape_def algebra_simps)
qed

lemma queued_place_range: "queued_cmd_ok cfg c \<Longrightarrow> in_range cfg (Rank c, Bankgroup c, Bank c)"
  by (auto simp: queued_cmd_ok_def cmd_in_range_def place_of_def cmd_kind_defs split: if_splits)

lemma CommandQueue_ok:
  assumes wf: "cfg_wf cfg" and "queue_structure cfg = ''PER_BANK'' \<or> queue_structure cfg = ''PER_RANK''"
    and "0 \<le> cmd_queue_size cfg"
  shows "okE (\<lambda>cq. cq_inv cfg cq \<and> queued cq = [] \<and> cq_clk cq = 0 \<and> \<not> is_in_ref cq \<and>
      ref_q_indices cq = {}) (CommandQueue cfg)"
proof -
  have "0 < banks cfg * ranks cfg" using wf by (auto simp: cfg_wf_def intro!: mult_pos_pos)
  moreover have "0 < ranks cfg" using wf by (simp add: cfg_wf_def)
  ultimately show ?thesis using assms(2,3)
    by (auto simp: CommandQueue_def Let_def cq_inv_def cq_shape_def queue_ok_def queued_def
        order_le_less_trans [OF _ zless_nat_conj [THEN iffD2]] not_less)
qed

section \<open>Adding a command\<close>

text \<open>Changing the queue at one index.\<close>

lemma mset_concat_append:
  "i < length qs \<Longrightarrow> mset (concat (qs[i := qs ! i @ [c]])) = mset (concat qs) + {#c#}"
  by (induction qs arbitrary: i) (auto simp: less_Suc_eq_0_disj)

lemma mset_concat_remove:
  "i < length qs \<Longrightarrow> c \<in> set (qs ! i) \<Longrightarrow> mset q' = mset (qs ! i) - {#c#} \<Longrightarrow>
   mset (concat (qs[i := q'])) = mset (concat qs) - {#c#}"
proof (induction qs arbitrary: i)
  case (Cons x qs)
  show ?case
  proof (cases i)
    case 0
    with Cons.prems show ?thesis by simp
  next
    case (Suc j)
    with Cons.prems have "c \<in># mset (concat qs)" by (auto intro!: bexI [of _ "qs ! j"])
    from diff_union_single_conv [OF this, of "mset x"]
    have "mset x + mset (concat qs) - {#c#} = mset x + (mset (concat qs) - {#c#})" .
    moreover have "mset (concat (qs[j := q'])) = mset (concat qs) - {#c#}"
      using Cons.prems Suc by (intro Cons.IH) simp_all
    ultimately show ?thesis by (simp only: Suc list_update_code concat.simps mset_append)
  qed
qed simp

lemma cq_inv_update:
  assumes cq: "cq_inv cfg cq" and i: "0 \<le> i" "i < num_queues cq" and q: "queue_ok cfg cq i q"
  shows "cq_inv cfg (cq\<lparr>queues := (queues cq)[nat i := q]\<rparr>)"
proof -
  have ok: "queue_ok cfg (cq\<lparr>queues := qs\<rparr>) = queue_ok cfg cq" for qs
    by (rule queue_ok_cong) simp_all
  have "queue_ok cfg cq j ((queues cq)[nat i := q] ! nat j)" if "0 \<le> j" "j < num_queues cq" for j
    using that i q cq_inv_queue [OF cq that] cq_inv_length [OF cq]
    by (cases "j = i") (simp_all add: nth_list_update)
  with cq show ?thesis by (simp add: cq_inv_def cq_shape_def ok)
qed

lemma size_u_less:
  assumes "size_u q < n" and "int (length q) \<le> uint n"
  shows "int (length q) + 1 \<le> uint n"
proof -
  have "int (length q) < 2 ^ 64" by (rule le_less_trans [OF assms(2)]) (use uint_lt2p [of n] in simp)
  then have "uint (size_u q) = int (length q)"
    by (simp add: size_u_def unsigned_of_nat take_bit_nat_eq_self)
  with assms(1) have "int (length q) < uint n" by (simp only: word_less_def)
  then show ?thesis by linarith
qed

theorem AddCommand_ok:
  assumes wf: "cfg_wf cfg" and cq: "cq_inv cfg cq" and c: "queued_cmd_ok cfg cmd"
  shows "okE (\<lambda>(added, cq'). cq_inv cfg cq' \<and> is_in_ref cq' = is_in_ref cq \<and>
      ref_q_indices cq' = ref_q_indices cq \<and> q_structure cq' = q_structure cq \<and> cq_clk cq' = cq_clk cq \<and>
      cq_WillAcceptCommand cfg cq (Rank cmd) (Bankgroup cmd) (Bank cmd) = Inr added \<and>
      mset (queued cq') = mset (queued cq) + (if added then {#cmd#} else {#}))
    (AddCommand cfg cmd cq)"
proof -
  let ?i = "GetQueueIndex cfg cq (Rank cmd) (Bankgroup cmd) (Bank cmd)"
  let ?q = "queues cq ! nat ?i"
  from GetQueueIndex_range [OF wf cq queued_place_range [OF c]] have i: "0 \<le> ?i" "?i < num_queues cq" by auto
  then have ni: "nat ?i < length (queues cq)" using cq_inv_length [OF cq] by simp
  have get: "GetQueue cfg cq (Rank cmd) (Bankgroup cmd) (Bank cmd) = Inr ?q"
    using i ni by (simp add: GetQueue_def vget_def)
  have r: "0 \<le> Rank cmd" "Rank cmd < ranks cfg" using queued_place_range [OF c] by auto
  show ?thesis
  proof (cases "size_u ?q < queue_size cq")
    case False
    with get cq i ni show ?thesis
      by (simp add: AddCommand_def cq_WillAcceptCommand_def vget_def)
  next
    case True
    have q: "queue_ok cfg cq ?i ?q" by (rule cq_inv_queue [OF cq i])
    from size_u_less [OF True queue_ok_length [OF q]] have len: "int (length ?q) + 1 \<le> uint (queue_size cq)" .
    from queue_ok_append [OF q c refl len]
    have "queue_ok cfg cq ?i (?q @ [cmd])" .
    from cq_inv_update [OF cq i this]
    have inv: "cq_inv cfg (cq\<lparr>queues := (queues cq)[nat ?i := ?q @ [cmd]],
        rank_q_empty := (rank_q_empty cq)[nat (Rank cmd) := False]\<rparr>)"
      by (rule cq_inv_cong [rotated -1]) (use cq in \<open>simp_all add: cq_inv_def cq_shape_def\<close>)
    let ?cq = "cq\<lparr>queues := (queues cq)[nat ?i := ?q @ [cmd]],
        rank_q_empty := (rank_q_empty cq)[nat (Rank cmd) := False]\<rparr>"
    have "vset (queues cq) ?i (?q @ [cmd]) = Inr ((queues cq)[nat ?i := ?q @ [cmd]])"
      using i ni by (simp add: vset_def)
    moreover have "vset (rank_q_empty cq) (Rank cmd) False = Inr ((rank_q_empty cq)[nat (Rank cmd) := False])"
      using r cq_inv_shape [OF cq] by (simp add: vset_def cq_shape_def)
    ultimately have "AddCommand cfg cmd cq = Inr (True, ?cq)"
      by (simp add: AddCommand_def set_queue_def get True)
    moreover have "mset (queued ?cq) = mset (queued cq) + {#cmd#}"
      using mset_concat_append [OF ni] by (simp add: queued_def)
    moreover have "cq_WillAcceptCommand cfg cq (Rank cmd) (Bankgroup cmd) (Bank cmd) = Inr True"
      using i ni True by (simp add: cq_WillAcceptCommand_def vget_def)
    ultimately show ?thesis
      by (simp only: okE_simps prod.case if_True inv) simp
  qed
qed

section \<open>Taking a command\<close>

lemma queued_cmd_eq:
  "queued_cmd_ok cfg c \<Longrightarrow> queued_cmd_ok cfg d \<Longrightarrow> hex_addr c = hex_addr d \<Longrightarrow> cmd_type c = cmd_type d \<Longrightarrow> c = d"
  by (simp add: queued_cmd_ok_def)

lemma length_remove_first_le: "length (remove_first P xs) \<le> length xs"
  by (induction xs) simp_all

theorem EraseRWCommand_ok:
  assumes wf: "cfg_wf cfg" and cq: "cq_inv cfg cq"
    and i: "GetQueueIndex cfg cq (Rank cmd) (Bankgroup cmd) (Bank cmd) = i" "0 \<le> i" "i < num_queues cq"
    and cmd: "cmd \<in> set (queues cq ! nat i)"
  shows "okE (\<lambda>cq'. cq_inv cfg cq' \<and> mset (queued cq') = mset (queued cq) - {#cmd#} \<and>
      is_in_ref cq' = is_in_ref cq \<and> ref_q_indices cq' = ref_q_indices cq \<and>
      q_structure cq' = q_structure cq \<and> cq_clk cq' = cq_clk cq \<and> queue_idx cq' = queue_idx cq)
    (EraseRWCommand cfg cmd cq)"
proof -
  let ?q = "queues cq ! nat i"
  let ?P = "\<lambda>c. hex_addr cmd = hex_addr c \<and> cmd_type cmd = cmd_type c"
  let ?cq = "cq\<lparr>queues := (queues cq)[nat i := remove_first ?P ?q]\<rparr>"
  have ni: "nat i < length (queues cq)" using i(2,3) cq_inv_length [OF cq] by simp
  note ok = cq_invD(1) [OF cq i(2,3)]
  have m: "mset (remove_first ?P ?q) = mset ?q - {#cmd#}"
    using queued_cmd_eq [OF ok ok [OF cmd]] by (intro mset_remove_first [OF cmd]) simp_all
  have "queue_ok cfg cq i (remove_first ?P ?q)"
    by (rule queue_ok_subset [OF cq_inv_queue [OF cq i(2,3)] set_remove_first length_remove_first_le])
  from cq_inv_update [OF cq i(2,3) this] have inv: "cq_inv cfg ?cq" .
  have get: "GetQueue cfg cq (Rank cmd) (Bankgroup cmd) (Bank cmd) = Inr ?q"
    unfolding GetQueue_def i(1) using i(2) ni by (simp add: vget_def)
  have set: "set_queue cfg cq (Rank cmd) (Bankgroup cmd) (Bank cmd) (remove_first ?P ?q) = Inr ?cq"
    unfolding set_queue_def i(1) using i(2) ni by (simp add: vset_def)
  have "\<exists>c \<in> set ?q. ?P c" using cmd by blast
  then have "EraseRWCommand cfg cmd cq = Inr ?cq"
    by (simp only: EraseRWCommand_def get set bindE_simps if_True)
  moreover have "mset (queued ?cq) = mset (queued cq) - {#cmd#}"
    using mset_concat_remove [OF ni cmd m] by (simp add: queued_def)
  ultimately show ?thesis by (simp only: okE_simps inv) simp
qed

text \<open>A command that the queues answer with: it may be executed, and if it is a read or a write
  it is one of the queued commands; a write has no earlier read of its column in front of it.\<close>

definition ready_from :: "config \<Rightarrow> u64 \<Rightarrow> command list \<Rightarrow> channel_state \<Rightarrow> command \<Rightarrow> bool" where
  "ready_from cfg clk q cs cmd \<longleftrightarrow> IsValid cmd \<and> issuable cfg cs cmd clk \<and>
     cmd_type cmd \<notin> {REFRESH, REFRESH_BANK, SREF_ENTER} \<and>
     (cmd_type cmd = SREF_EXIT \<longrightarrow> rank_is_sref cs ! nat (Rank cmd)) \<and>
     (\<exists>pre c rest. q = pre @ c # rest \<and> addr cmd = addr c \<and> hex_addr cmd = hex_addr c \<and>
        (IsReadWrite cmd \<longrightarrow> cmd = c) \<and> (IsWrite cmd \<longrightarrow> \<not> HasRWDependency pre c))"

lemma ready_fromD:
  assumes "ready_from cfg clk q cs cmd"
  obtains c where "c \<in> set q" and "addr cmd = addr c" and "hex_addr cmd = hex_addr c"
    and "IsReadWrite cmd \<longrightarrow> cmd = c"
proof -
  from assms obtain pre c rest where "q = pre @ c # rest" "addr cmd = addr c" "hex_addr cmd = hex_addr c"
    "IsReadWrite cmd \<longrightarrow> cmd = c" unfolding ready_from_def by blast
  with that [of c] show ?thesis by simp
qed

lemma ArbitratePrecharge_ok:
  assumes "chan_shape cfg cs" and "in_range cfg (Rank c, Bankgroup c, Bank c)" and "stats_ok cfg ss"
  shows "okE (\<lambda>(_, ss'). stats_ok cfg ss') (ArbitratePrecharge pre c rest cs ss)"
proof -
  from bank_at_ok [OF assms(1,2)] obtain b where "bank_at cs (Rank c) (Bankgroup c) (Bank c) = Inr b"
    by (auto simp: okE_iff)
  with assms(3) show ?thesis
    by (simp add: ArbitratePrecharge_def ch_OpenRow_def ch_RowHitCount_def Let_def)
qed

lemma ready_rw:
  assumes inv: "chan_inv cfg tim cs H now" and req: "queued_cmd_ok cfg c"
    and ans: "ready_answer cfg cs c clk r"
  shows "addr r = addr c" "hex_addr r = hex_addr c" "IsReadWrite r \<longrightarrow> r = c"
    "cmd_type r \<notin> {REFRESH, REFRESH_BANK, SREF_ENTER}"
    "cmd_type r = SREF_EXIT \<longrightarrow> rank_is_sref cs ! nat (Rank r)"
proof -
  from req have rw: "IsReadWrite c" "\<not> IsRankCMD c" by (auto simp: queued_cmd_ok_def cmd_kind_defs)
  with ans have a: "addr r = addr c" "hex_addr r = hex_addr c"
    "bank_ready_for (bank_states cs) (place_of c) c clk (cmd_type r)" by (auto simp: ready_answer_def)
  from a(3) obtain b b' where b: "vec3_lookup (bank_states cs) (place_of c) = Some b"
    "required_command c b = Inr (cmd_type r, b')" by (auto simp: bank_ready_for_def)
  show "addr r = addr c" "hex_addr r = hex_addr c" by (fact a)+
  show "IsReadWrite r \<longrightarrow> r = c"
    using required_command_rw [OF b(2), of "addr r" "hex_addr r"] a(1,2) by (auto simp: cmd_kind_defs)
  show "cmd_type r \<notin> {REFRESH, REFRESH_BANK, SREF_ENTER}"
    using required_command_bank [OF b(2) rw(2)] rw by (auto simp: cmd_kind_defs)
  show "cmd_type r = SREF_EXIT \<longrightarrow> rank_is_sref cs ! nat (Rank r)"
  proof
    assume "cmd_type r = SREF_EXIT"
    with required_command_bank [OF b(2) rw(2)] have "bstate b = SREF" by simp
    moreover from inv have "banks_inv cfg tim cs H" by (simp add: chan_inv_def)
    ultimately show "rank_is_sref cs ! nat (Rank r)"
      using banks_invD [OF _ b(1)] a(1) by (auto simp: place_of_def Rank_def)
  qed
qed

theorem first_ready_loop_ok:
  assumes wf: "cfg_wf cfg" and t: "sref_rank_only tim"
    and "chan_inv cfg tim cs H now" and "stats_ok cfg ss" and "\<forall>c \<in> set rest. queued_cmd_ok cfg c"
  shows "okE (\<lambda>(cmd, cs', ss'). chan_frame cs cs' \<and> stats_ok cfg ss' \<and>
      (IsValid cmd \<longrightarrow> ready_from cfg clk (pre @ rest) cs' cmd))
    (first_ready_loop cfg clk pre rest cs ss)"
  using assms(3-)
proof (induction rest arbitrary: pre cs ss)
  case Nil
  then show ?case by simp
next
  case (Cons c rest)
  have c: "queued_cmd_ok cfg c" using Cons.prems(3) by simp
  then have r: "cmd_in_range cfg c" and req: "request_ok cfg cs c"
    by (auto simp: queued_cmd_ok_def request_ok_def)
  from GetReadyCommand_ok [OF Cons.prems(1) req, of clk] obtain cmd cs1 where
    g: "GetReadyCommand cfg c clk cs = Inr (cmd, cs1)" by (auto simp: okE_iff)
  note f = GetReadyCommand_frame [OF g]
  note inv1 = chan_frame_inv [OF f Cons.prems(1)]
  have next1: "okE (\<lambda>(cmd, cs', ss'). chan_frame cs cs' \<and> stats_ok cfg ss' \<and>
      (IsValid cmd \<longrightarrow> ready_from cfg clk (pre @ c # rest) cs' cmd))
      (first_ready_loop cfg clk (pre @ [c]) rest cs1 ss1)" if "stats_ok cfg ss1" for ss1
    using Cons.IH [OF inv1 that, of "pre @ [c]"] Cons.prems(3)
    by (auto elim!: okE_mono intro: chan_frame_trans [OF f])
  have found: "ready_from cfg clk (pre @ c # rest) cs1 cmd"
    if v: "IsValid cmd" and dep: "IsWrite cmd \<longrightarrow> \<not> HasRWDependency pre c"
  proof -
    note ans = GetReadyCommand_answer [OF wf g v]
    from chan_frame_issuable [OF f ready_issuable [OF Cons.prems(1) t r ans]]
    have "issuable cfg cs1 cmd clk" .
    moreover have "rank_is_sref cs1 = rank_is_sref cs" using f by (simp add: chan_frame_def)
    ultimately show ?thesis
      using v dep ready_rw [OF Cons.prems(1) c ans] unfolding ready_from_def by auto
  qed
  from inv1 have shape: "chan_shape cfg cs1" by (simp add: chan_inv_def)
  from ArbitratePrecharge_ok [OF shape queued_place_range [OF c] Cons.prems(2), of pre rest] obtain ok ss1 where
    arb: "ArbitratePrecharge pre c rest cs1 ss = Inr (ok, ss1)" "stats_ok cfg ss1" by (auto simp: okE_iff)
  consider "\<not> IsValid cmd" | "IsValid cmd" "cmd_type cmd = PRECHARGE" "\<not> ok"
    | "IsValid cmd" "cmd_type cmd = PRECHARGE" ok
    | "IsValid cmd" "cmd_type cmd \<noteq> PRECHARGE" "IsWrite cmd \<and> HasRWDependency pre c"
    | "IsValid cmd" "cmd_type cmd \<noteq> PRECHARGE" "\<not> (IsWrite cmd \<and> HasRWDependency pre c)" by blast
  then show ?case
  proof cases
    case 1 then show ?thesis using next1 [OF Cons.prems(2)] by (simp add: g)
  next
    case 2 then show ?thesis using next1 [OF arb(2)] by (simp add: g arb(1))
  next
    case 3
    then have "\<not> IsWrite cmd" by (simp add: cmd_kind_defs)
    with 3 found f arb show ?thesis by (simp add: g)
  next
    case 4 then show ?thesis using next1 [OF Cons.prems(2)] by (simp add: g)
  next
    case 5
    then have "ready_from cfg clk (pre @ c # rest) cs1 cmd" by (intro found) simp_all
    with 5 f Cons.prems(2) show ?thesis by (auto simp: g)
  qed
qed

text \<open>What the queues look like after \<open>GetCommandToIssue\<close>: unchanged, but for the read or
  write it returned.\<close>

definition cq_same :: "cmd_queue \<Rightarrow> cmd_queue \<Rightarrow> bool" where
  "cq_same cq cq' \<longleftrightarrow> is_in_ref cq' = is_in_ref cq \<and> ref_q_indices cq' = ref_q_indices cq \<and>
     q_structure cq' = q_structure cq \<and> cq_clk cq' = cq_clk cq"

definition issue_result :: "config \<Rightarrow> cmd_queue \<Rightarrow> command \<Rightarrow> cmd_queue \<Rightarrow> bool" where
  "issue_result cfg cq cmd cq' \<longleftrightarrow> cq_inv cfg cq' \<and> cq_same cq cq' \<and>
     (if IsReadWrite cmd then cmd \<in> set (queued cq) \<and> mset (queued cq') = mset (queued cq) - {#cmd#}
      else mset (queued cq') = mset (queued cq))"

text \<open>A command that may be executed and comes from a queue that no refresh holds back.\<close>

definition issue_ready :: "config \<Rightarrow> cmd_queue \<Rightarrow> channel_state \<Rightarrow> command \<Rightarrow> bool" where
  "issue_ready cfg cq cs cmd \<longleftrightarrow> (\<exists>i. 0 \<le> i \<and> i < num_queues cq \<and>
     GetQueueIndex cfg cq (Rank cmd) (Bankgroup cmd) (Bank cmd) = i \<and>
     \<not> (is_in_ref cq \<and> i \<in> ref_q_indices cq) \<and> ready_from cfg (cq_clk cq) (queues cq ! nat i) cs cmd)"

lemma GetNextQueue_ok:
  assumes "cq_inv cfg cq"
  shows "\<exists>i. 0 \<le> i \<and> i < num_queues cq \<and> GetNextQueue cq = Inr (queues cq ! nat i, cq\<lparr>queue_idx := i\<rparr>)"
proof -
  let ?i = "if queue_idx cq + 1 = num_queues cq then 0 else queue_idx cq + 1"
  have "0 \<le> queue_idx cq" "queue_idx cq < num_queues cq"
    using assms unfolding cq_inv_def cq_shape_def by blast+
  then have i: "0 \<le> ?i" "?i < num_queues cq" by auto
  then have "GetNextQueue cq = Inr (queues cq ! nat ?i, cq\<lparr>queue_idx := ?i\<rparr>)"
    unfolding GetNextQueue_def Let_def vget_def using cq_inv_length [OF assms] by simp
  with i show ?thesis by blast
qed

lemma cq_inv_idx: "cq_inv cfg cq \<Longrightarrow> 0 \<le> i \<Longrightarrow> i < num_queues cq \<Longrightarrow> cq_inv cfg (cq\<lparr>queue_idx := i\<rparr>)"
  by (rule cq_inv_cong [of _ cq]) simp_all

lemma issue_loop_ok:
  assumes wf: "cfg_wf cfg" and t: "sref_rank_only tim"
    and "chan_inv cfg tim cs H now" and "stats_ok cfg ss" and "cq_inv cfg cq"
  shows "okE (\<lambda>(cmd, cq', cs', ss'). chan_frame cs cs' \<and> stats_ok cfg ss' \<and> issue_result cfg cq cmd cq' \<and>
      (IsValid cmd \<longrightarrow> issue_ready cfg cq cs' cmd))
    (issue_loop n cfg cq cs ss)"
  using assms(3-)
proof (induction n arbitrary: cq cs ss)
  case 0
  then show ?case
    by (simp add: issue_result_def cq_same_def Command_default_def cmd_kind_defs)
next
  case (Suc n)
  note inv = Suc.prems(1) and ss = Suc.prems(2) and cq = Suc.prems(3)
  from GetNextQueue_ok [OF cq] obtain i where i: "0 \<le> i" "i < num_queues cq"
    and nq: "GetNextQueue cq = Inr (queues cq ! nat i, cq\<lparr>queue_idx := i\<rparr>)" by blast
  let ?cq = "cq\<lparr>queue_idx := i\<rparr>" and ?q = "queues cq ! nat i"
  have cq1: "cq_inv cfg ?cq" by (rule cq_inv_idx [OF cq i])
  have idx: "GetQueueIndex cfg ?cq = GetQueueIndex cfg cq" by (simp add: GetQueueIndex_def fun_eq_iff)
  have later: "okE (\<lambda>(cmd, cq', cs', ss'). chan_frame cs cs' \<and> stats_ok cfg ss' \<and> issue_result cfg cq cmd cq' \<and>
      (IsValid cmd \<longrightarrow> issue_ready cfg cq cs' cmd)) (issue_loop n cfg ?cq cs1 ss1)"
    if f: "chan_frame cs cs1" and "stats_ok cfg ss1" for cs1 ss1
    using Suc.IH [OF chan_frame_inv [OF f inv] that(2) cq1] chan_frame_trans [OF f]
    by (auto elim!: okE_mono simp: issue_result_def cq_same_def issue_ready_def queued_def idx)
  show ?case
  proof (cases "is_in_ref cq \<and> i \<in> ref_q_indices cq")
    case True
    with later [OF chan_frame_refl ss] show ?thesis by (simp add: nq)
  next
    case False
    have "\<forall>c \<in> set ?q. queued_cmd_ok cfg c" using cq_invD(1) [OF cq i] by blast
    from first_ready_loop_ok [OF wf t inv ss this, of "cq_clk cq" "[]"] obtain cmd cs1 ss1 where
      run: "GetFirstReadyInQueue cfg ?cq ?q cs ss = Inr (cmd, cs1, ss1)"
      and f: "chan_frame cs cs1" and ss1: "stats_ok cfg ss1"
      and rdy: "IsValid cmd \<longrightarrow> ready_from cfg (cq_clk cq) ?q cs1 cmd"
      by (auto simp: okE_iff GetFirstReadyInQueue_def)
    show ?thesis
    proof (cases "IsValid cmd")
      case False
      with later [OF f ss1] \<open>\<not> (is_in_ref cq \<and> i \<in> ref_q_indices cq)\<close> run show ?thesis by (auto simp: nq)
    next
      case True
      with rdy have rf: "ready_from cfg (cq_clk cq) ?q cs1 cmd" by simp
      from ready_fromD [OF this] obtain c where
        c: "c \<in> set ?q" "addr cmd = addr c" "hex_addr cmd = hex_addr c" "IsReadWrite cmd \<longrightarrow> cmd = c" .
      from cq_invD(2) [OF cq i c(1)] c(2)
      have gi: "GetQueueIndex cfg cq (Rank cmd) (Bankgroup cmd) (Bank cmd) = i"
        by (simp add: Rank_def Bankgroup_def Bank_def)
      have ready: "issue_ready cfg cq cs1 cmd"
        unfolding issue_ready_def using i gi False rf by blast
      show ?thesis
      proof (cases "IsReadWrite cmd")
        case rw: True
        with c have mem: "cmd \<in> set (queues ?cq ! nat i)" by simp
        from gi have gi1: "GetQueueIndex cfg ?cq (Rank cmd) (Bankgroup cmd) (Bank cmd) = i" by (simp add: idx)
        have "i < num_queues ?cq" using i(2) by simp
        from EraseRWCommand_ok [OF wf cq1 gi1 i(1) this mem] obtain cq2 where
          e: "EraseRWCommand cfg cmd ?cq = Inr cq2" "cq_inv cfg cq2"
            "mset (queued cq2) = mset (queued cq) - {#cmd#}" "cq_same cq cq2"
          by (auto simp: okE_iff cq_same_def queued_def)
        have "cmd \<in> set (queued cq)"
          using mem i cq_inv_length [OF cq] by (auto simp: queued_iff intro!: exI [of _ "nat i"])
        with e have "issue_result cfg cq cmd cq2" using rw by (simp add: issue_result_def)
        moreover have "issue_loop (Suc n) cfg cq cs ss = Inr (cmd, cq2, cs1, ss1)"
          using False run True rw e(1) by (auto simp: nq)
        ultimately show ?thesis using f ss1 ready by (simp only: okE_simps prod.case) blast
      next
        case rw: False
        with cq1 have "issue_result cfg cq cmd ?cq" by (simp add: issue_result_def cq_same_def queued_def)
        moreover have "issue_loop (Suc n) cfg cq cs ss = Inr (cmd, ?cq, cs1, ss1)"
          using False run True rw by (auto simp: nq)
        ultimately show ?thesis using f ss1 ready by (simp only: okE_simps prod.case) blast
      qed
    qed
  qed
qed

theorem GetCommandToIssue_ok:
  assumes "cfg_wf cfg" and "sref_rank_only tim"
    and "chan_inv cfg tim cs H now" and "stats_ok cfg ss" and "cq_inv cfg cq"
  shows "okE (\<lambda>(cmd, cq', cs', ss'). chan_frame cs cs' \<and> stats_ok cfg ss' \<and> issue_result cfg cq cmd cq' \<and>
      (IsValid cmd \<longrightarrow> issue_ready cfg cq cs' cmd))
    (GetCommandToIssue cfg cq cs ss)"
  unfolding GetCommandToIssue_def by (rule issue_loop_ok [OF assms])

section \<open>Finishing a refresh\<close>

lemma GetRefQIndices_ok:
  assumes "cfg_wf cfg"
  shows "okE (\<lambda>cq'. \<exists>ids. cq' = cq\<lparr>ref_q_indices := ids\<rparr>) (GetRefQIndices cfg ref cq)"
  using assms by (auto simp: GetRefQIndices_def cfg_wf_def)

text \<open>While a refresh is waiting, its queues are held back: the queue of the bank to be
  refreshed, or all queues of the rank.\<close>

definition holds_back :: "config \<Rightarrow> cmd_queue \<Rightarrow> command \<Rightarrow> bool" where
  "holds_back cfg cq ref \<longleftrightarrow> is_in_ref cq \<longrightarrow>
     (\<forall>c. queued_cmd_ok cfg c \<longrightarrow> Rank c = Rank ref \<longrightarrow>
        (cmd_type ref = REFRESH_BANK \<longrightarrow> Bankgroup c = Bankgroup ref \<and> Bank c = Bank ref) \<longrightarrow>
        GetQueueIndex cfg cq (Rank c) (Bankgroup c) (Bank c) \<in> ref_q_indices cq)"

lemma GetQueueIndex_rank:
  assumes wf: "cfg_wf cfg" and q: "q_structure cq = PER_BANK" and r: "in_range cfg (r, g, b)"
  shows "GetQueueIndex cfg cq r g b sdiv banks cfg = r"
proof -
  let ?i = "g * banks_per_group cfg + b"
  from r have "?i < (g + 1) * banks_per_group cfg" by (simp add: algebra_simps)
  also have "\<dots> \<le> bankgroups cfg * banks_per_group cfg"
    using r by (intro mult_right_mono) simp_all
  finally have i: "0 \<le> ?i" "?i < banks cfg" using wf r by (simp_all add: cfg_wf_def)
  then have pos: "0 < banks cfg" by linarith
  with r have nn: "0 \<le> r * banks cfg" by simp
  with i have "0 \<le> r * banks cfg + ?i" by linarith
  then have "(r * banks cfg + ?i) sdiv banks cfg = (?i + r * banks cfg) div banks cfg"
    using pos by (simp add: sdiv_nonneg add.commute)
  also have "\<dots> = r + ?i div banks cfg" by (rule div_mult_self1) (use pos in simp)
  also have "?i div banks cfg = 0" by (rule div_pos_pos_trivial [OF i])
  finally show ?thesis using q by (simp add: GetQueueIndex_def add.assoc)
qed

lemma GetRefQIndices_holds_back:
  assumes wf: "cfg_wf cfg" and cq: "cq_inv cfg cq" and ref: "IsRefresh ref"
    and run: "GetRefQIndices cfg ref cq = Inr cq'"
  shows "holds_back cfg (cq'\<lparr>is_in_ref := b\<rparr>) ref"
proof -
  have "GetQueueIndex cfg cq (Rank c) (Bankgroup c) (Bank c) \<in> ref_q_indices cq'"
    if c: "queued_cmd_ok cfg c" "Rank c = Rank ref"
      "cmd_type ref = REFRESH_BANK \<longrightarrow> Bankgroup c = Bankgroup ref \<and> Bank c = Bank ref" for c
  proof (cases "cmd_type ref = REFRESH")
    case False
    with ref run c show ?thesis by (auto simp: GetRefQIndices_def IsRefresh_def)
  next
    case True
    show ?thesis
    proof (cases "q_structure cq")
      case PER_RANK
      with True run c(2) show ?thesis by (auto simp: GetRefQIndices_def GetQueueIndex_def)
    next
      case PER_BANK
      note p = queued_place_range [OF c(1)]
      from GetQueueIndex_range [OF wf cq p] GetQueueIndex_rank [OF wf PER_BANK p] True run c(2) PER_BANK
      show ?thesis by (auto simp: GetRefQIndices_def split: if_splits)
    qed
  qed
  moreover have "GetQueueIndex cfg (cq'\<lparr>is_in_ref := x\<rparr>) = GetQueueIndex cfg cq" for x
    using run by (auto simp: GetRefQIndices_def GetQueueIndex_def fun_eq_iff split: if_splits)
  ultimately show ?thesis by (simp add: holds_back_def)
qed

text \<open>What \<open>FinishRefresh\<close> does to the queues: nothing, but for the two fields on refreshes.\<close>

definition cq_ref_same :: "cmd_queue \<Rightarrow> cmd_queue \<Rightarrow> bool" where
  "cq_ref_same cq cq' \<longleftrightarrow> (\<exists>ids r. cq' = cq\<lparr>ref_q_indices := ids, is_in_ref := r\<rparr>)"

lemma cq_ref_same_inv: "cq_ref_same cq cq' \<Longrightarrow> cq_inv cfg cq \<Longrightarrow> cq_inv cfg cq'"
proof -
  assume "cq_ref_same cq cq'" and cq: "cq_inv cfg cq"
  then obtain ids r where "cq' = cq\<lparr>ref_q_indices := ids, is_in_ref := r\<rparr>" by (auto simp: cq_ref_same_def)
  moreover have "0 \<le> queue_idx cq" "queue_idx cq < num_queues cq"
    using cq unfolding cq_inv_def cq_shape_def by blast+
  ultimately show ?thesis by (intro cq_inv_cong [OF _ _ _ _ _ _ _ cq]) simp_all
qed

lemma cq_ref_same_clear:
  "cq_ref_same cq q \<Longrightarrow> cq_ref_same cq (q\<lparr>ref_q_indices := {}, is_in_ref := False\<rparr>)"
  unfolding cq_ref_same_def by (elim exE, rule exI [of _ "{}"], rule exI [of _ False]) simp

text \<open>The command is the waiting refresh itself or a precharge for it.\<close>

definition refresh_cmd :: "config \<Rightarrow> command \<Rightarrow> command \<Rightarrow> bool" where
  "refresh_cmd cfg ref cmd \<longleftrightarrow> cmd = ref \<or> cmd_type cmd = PRECHARGE \<and> Rank cmd = Rank ref"

lemma refresh_ready:
  assumes req: "IsRefresh ref" and ans: "ready_answer cfg cs ref clk r"
  shows "refresh_cmd cfg ref r"
proof (cases "IsRankCMD ref")
  case True
  with ans consider "r = ref"
    | j k where "cmd_type r \<noteq> cmd_type ref" "addr r = Address (-1) (Rank ref) j k (-1) (-1)"
      "bank_ready_for (bank_states cs) (Rank ref, j, k) ref clk (cmd_type r)"
    by (auto simp: ready_answer_def)
  then show ?thesis
  proof cases
    case 2
    from 2(3) obtain b b' where "required_command ref b = Inr (cmd_type r, b')"
      by (auto simp: bank_ready_for_def)
    from required_command_rank [OF this True] 2(1,2) show ?thesis
      by (simp add: refresh_cmd_def Rank_def)
  qed (simp add: refresh_cmd_def)
next
  case False
  with req have ct: "cmd_type ref = REFRESH_BANK" by (auto simp: cmd_kind_defs)
  from False ans have a: "addr r = addr ref" "hex_addr r = hex_addr ref"
    "bank_ready_for (bank_states cs) (place_of ref) ref clk (cmd_type r)" by (auto simp: ready_answer_def)
  from a(3) obtain b b' where "required_command ref b = Inr (cmd_type r, b')"
    by (auto simp: bank_ready_for_def)
  with ct have "cmd_type r = REFRESH_BANK \<or> cmd_type r = PRECHARGE"
    by (auto simp: required_command_def split: bank_fsm.splits if_splits)
  with a ct show ?thesis by (auto simp: refresh_cmd_def Rank_def)
qed

theorem FinishRefresh_ok:
  assumes wf: "cfg_wf cfg" and t: "sref_rank_only tim" and inv: "chan_inv cfg tim cs H now"
    and cq: "cq_inv cfg cq" and w: "refresh_q cs \<noteq> []"
    and awake: "\<not> rank_is_sref cs ! nat (Rank (hd (refresh_q cs)))"
    and hold: "holds_back cfg cq (hd (refresh_q cs))"
  shows "okE (\<lambda>(cmd, cq', cs'). chan_frame cs cs' \<and> cq_ref_same cq cq' \<and>
      holds_back cfg cq' (hd (refresh_q cs)) \<and> (IsRefresh cmd \<longleftrightarrow> \<not> is_in_ref cq') \<and>
      (IsValid cmd \<longrightarrow> issuable cfg cs' cmd (cq_clk cq) \<and> refresh_cmd cfg (hd (refresh_q cs)) cmd))
    (FinishRefresh cfg cq cs)"
proof -
  let ?ref = "hd (refresh_q cs)"
  have pend: "PendingRefCommand cs = Inr ?ref"
    using w by (simp add: PendingRefCommand_def vget_def hd_conv_nth)
  have "?ref \<in> set (refresh_q cs)" using w by simp
  with inv have ref: "IsRefresh ?ref" "cmd_in_range cfg ?ref"
    unfolding chan_inv_def refreshes_ok_def by blast+
  from ref awake have req: "request_ok cfg cs ?ref" by (simp add: request_ok_def)
  have "okE (\<lambda>q. cq_ref_same cq q \<and> is_in_ref q \<and> holds_back cfg q ?ref)
     (if \<not> is_in_ref cq
      then bindE (GetRefQIndices cfg ?ref cq) (\<lambda>q. Inr (q\<lparr>is_in_ref := True\<rparr>)) else Inr cq)"
  proof (cases "is_in_ref cq")
    case True
    have "cq_ref_same cq cq" unfolding cq_ref_same_def
      by (rule exI [of _ "ref_q_indices cq"], rule exI [of _ "is_in_ref cq"]) simp
    with True hold show ?thesis by simp
  next
    case False
    from GetRefQIndices_ok [OF wf] obtain ids where
      g: "GetRefQIndices cfg ?ref cq = Inr (cq\<lparr>ref_q_indices := ids\<rparr>)" by (auto simp: okE_iff)
    have "cq_ref_same cq (cq\<lparr>ref_q_indices := ids, is_in_ref := True\<rparr>)" by (auto simp: cq_ref_same_def)
    with False g GetRefQIndices_holds_back [OF wf cq ref(1) g, of True] show ?thesis by simp
  qed
  then obtain q where q: "(if \<not> is_in_ref cq
      then bindE (GetRefQIndices cfg ?ref cq) (\<lambda>q. Inr (q\<lparr>is_in_ref := True\<rparr>)) else Inr cq) = Inr q"
    "cq_ref_same cq q" "is_in_ref q" "holds_back cfg q ?ref" by (rule okE_E) blast
  from q(2) have clk: "cq_clk q = cq_clk cq" by (auto simp: cq_ref_same_def)
  from GetReadyCommand_ok [OF inv req, of "cq_clk cq"] obtain cmd cs1 where
    g: "GetReadyCommand cfg ?ref (cq_clk cq) cs = Inr (cmd, cs1)" by (auto simp: okE_iff)
  note f = GetReadyCommand_frame [OF g]
  let ?q = "if IsRefresh cmd then q\<lparr>ref_q_indices := {}, is_in_ref := False\<rparr> else q"
  have run: "FinishRefresh cfg cq cs = Inr (cmd, ?q, cs1)"
    by (simp only: FinishRefresh_def pend bindE_simps q(1) clk g prod.case)
  have "cq_ref_same cq ?q" "holds_back cfg ?q ?ref" "IsRefresh cmd \<longleftrightarrow> \<not> is_in_ref ?q"
    using q(2-4) cq_ref_same_clear [OF q(2)] by (auto simp: holds_back_def)
  moreover have "issuable cfg cs1 cmd (cq_clk cq) \<and> refresh_cmd cfg ?ref cmd" if v: "IsValid cmd"
    using chan_frame_issuable [OF f ready_issuable [OF inv t ref(2) GetReadyCommand_answer [OF wf g v]]]
      refresh_ready [OF ref(1) GetReadyCommand_answer [OF wf g v]] by blast
  ultimately show ?thesis using f by (simp only: run okE_simps prod.case) blast
qed

end
