(* ===== verification/Refresh.thy ===== *)
theory Refresh
  imports ChannelRun
begin

text \<open>
  \<open>refresh.h\<close> and \<open>refresh.cc\<close>: the counter that asks for refreshes at regular intervals, by
  one of three policies. Lemmas: the staggered policies visit the ranks, or all the banks,
  cyclically, in the order of the specification \<open>bank_refresh_order\<close>, one place for each
  interval, and no operation stops the program.
\<close>

record refresh_state =
  rf_clk :: u64
  refresh_interval :: int
  next_rank :: int
  next_bg :: int
  next_bank :: int

text \<open>The policy is the configuration's and never changes.\<close>

definition Refresh :: "config \<Rightarrow> refresh_state result" where
  "Refresh cfg =
     (let start = \<lparr>rf_clk = 0, refresh_interval = 0, next_rank = 0, next_bg = 0, next_bank = 0\<rparr> in
      if refresh_policy cfg = RANK_LEVEL_SIMULTANEOUS then Inr (start\<lparr>refresh_interval := tREFI cfg\<rparr>)
      else if refresh_policy cfg = BANK_LEVEL_STAGGERED then Inr (start\<lparr>refresh_interval := tREFIb cfg\<rparr>)
      else if ranks cfg = 0 then Inl DivByZero
      else Inr (start\<lparr>refresh_interval := tREFI cfg sdiv ranks cfg\<rparr>))"

text \<open>\<open>(n + 1) % m\<close>.\<close>

definition next_mod :: "int \<Rightarrow> int \<Rightarrow> int result" where
  "next_mod n m = (if m = 0 then Inl DivByZero else Inr ((n + 1) smod m))"

definition IterateNext :: "config \<Rightarrow> refresh_state \<Rightarrow> refresh_state result" where
  "IterateNext cfg rf = (case refresh_policy cfg of
     RANK_LEVEL_STAGGERED \<Rightarrow>
       bindE (next_mod (next_rank rf) (ranks cfg)) (\<lambda>r. Inr (rf\<lparr>next_rank := r\<rparr>))
   | BANK_LEVEL_STAGGERED \<Rightarrow>
       bindE (next_mod (next_bg rf) (bankgroups cfg)) (\<lambda>g.
       if g \<noteq> 0 then Inr (rf\<lparr>next_bg := g\<rparr>)
       else bindE (next_mod (next_bank rf) (banks_per_group cfg)) (\<lambda>b.
         if b \<noteq> 0 then Inr (rf\<lparr>next_bg := g, next_bank := b\<rparr>)
         else bindE (next_mod (next_rank rf) (ranks cfg)) (\<lambda>r.
           Inr (rf\<lparr>next_bg := g, next_bank := b, next_rank := r\<rparr>))))
   | _ \<Rightarrow> Inl (AbruptExit ''refresh.cc'' 79))"

text \<open>The loop over all ranks, with its \<open>break\<close> after the first rank that is not in self
  refresh.\<close>

fun simultaneous_loop :: "int list \<Rightarrow> channel_state \<Rightarrow> channel_state result" where
  "simultaneous_loop [] cs = Inr cs"
| "simultaneous_loop (i # is) cs = bindE (IsRankSelfRefreshing cs i) (\<lambda>sref.
     if \<not> sref then Inr (RankNeedRefresh i True cs) else simultaneous_loop is cs)"

definition InsertRefresh :: "config \<Rightarrow> refresh_state \<Rightarrow> channel_state
    \<Rightarrow> (refresh_state \<times> channel_state) result" where
  "InsertRefresh cfg rf cs = (case refresh_policy cfg of
     RANK_LEVEL_SIMULTANEOUS \<Rightarrow>
       bindE (simultaneous_loop (indices (ranks cfg)) cs) (\<lambda>cs'. Inr (rf, cs'))
   | RANK_LEVEL_STAGGERED \<Rightarrow>
       bindE (IsRankSelfRefreshing cs (next_rank rf)) (\<lambda>sref.
       let cs' = (if \<not> sref then RankNeedRefresh (next_rank rf) True cs else cs) in
       bindE (IterateNext cfg rf) (\<lambda>rf'. Inr (rf', cs')))
   | BANK_LEVEL_STAGGERED \<Rightarrow>
       bindE (IsRankSelfRefreshing cs (next_rank rf)) (\<lambda>sref.
       let cs' = (if \<not> sref
          then BankNeedRefresh (next_rank rf) (next_bg rf) (next_bank rf) True cs else cs) in
       bindE (IterateNext cfg rf) (\<lambda>rf'. Inr (rf', cs')))
   | _ \<Rightarrow> Inl (AbruptExit ''refresh.cc'' 56))"

definition refresh_ClockTick :: "config \<Rightarrow> refresh_state \<Rightarrow> channel_state
    \<Rightarrow> (refresh_state \<times> channel_state) result" where
  "refresh_ClockTick cfg rf cs =
     (if of_c_int (refresh_interval rf) = 0 then Inl DivByZero
      else bindE (if rf_clk rf mod of_c_int (refresh_interval rf) = 0 \<and> rf_clk rf > 0
                  then InsertRefresh cfg rf cs else Inr (rf, cs))
        (\<lambda>(rf', cs'). Inr (rf'\<lparr>rf_clk := rf_clk rf' + 1\<rparr>, cs')))"

section \<open>Invariant\<close>

definition refresh_inv :: "config \<Rightarrow> refresh_state \<Rightarrow> bool" where
  "refresh_inv cfg rf \<longleftrightarrow> in_range cfg (next_rank rf, next_bg rf, next_bank rf) \<and>
     of_c_int (refresh_interval rf) \<noteq> 0 \<and>
     refresh_policy cfg \<in> {RANK_LEVEL_SIMULTANEOUS, RANK_LEVEL_STAGGERED, BANK_LEVEL_STAGGERED}"

text \<open>A configuration whose refresh interval is positive.\<close>

definition refresh_cfg_ok :: "config \<Rightarrow> bool" where
  "refresh_cfg_ok cfg \<longleftrightarrow>
     refresh_policy cfg \<in> {RANK_LEVEL_SIMULTANEOUS, RANK_LEVEL_STAGGERED, BANK_LEVEL_STAGGERED} \<and>
     ranks cfg \<le> tREFI cfg \<and> 1 \<le> tREFIb cfg \<and> tREFI cfg < 2 ^ 31 \<and> tREFIb cfg < 2 ^ 31"

lemma of_c_int_nonzero: "0 < i \<Longrightarrow> i < 2 ^ 31 \<Longrightarrow> of_c_int i \<noteq> 0"
  using uint_of_c_int [of i] by auto

lemma next_mod_ok: "0 \<le> n \<Longrightarrow> n < m \<Longrightarrow> next_mod n m = Inr ((n + 1) mod m)"
  by (simp add: next_mod_def smod_nonneg)

lemma IterateNext_ok:
  assumes "refresh_inv cfg rf" and "refresh_policy cfg \<noteq> RANK_LEVEL_SIMULTANEOUS"
  shows "okE (refresh_inv cfg) (IterateNext cfg rf)"
  using assms by (auto simp: IterateNext_def refresh_inv_def next_mod_ok)

lemma Refresh_ok:
  assumes "cfg_wf cfg" and "refresh_cfg_ok cfg"
  shows "okE (\<lambda>rf. refresh_inv cfg rf \<and> rf_clk rf = 0) (Refresh cfg)"
proof -
  have "tREFI cfg div ranks cfg \<le> tREFI cfg div 1"
    using assms by (intro zdiv_mono2) (auto simp: cfg_wf_def refresh_cfg_ok_def)
  with assms have "0 < tREFI cfg div ranks cfg" "tREFI cfg div ranks cfg < 2 ^ 31"
    by (auto simp: cfg_wf_def refresh_cfg_ok_def pos_imp_zdiv_pos_iff)
  from of_c_int_nonzero [OF this] of_c_int_nonzero [of "tREFI cfg"] of_c_int_nonzero [of "tREFIb cfg"]
  show ?thesis using assms
    by (auto simp: Refresh_def refresh_inv_def cfg_wf_def refresh_cfg_ok_def sdiv_nonneg)
qed

lemma IsRankSelfRefreshing_ok:
  "chan_shape cfg cs \<Longrightarrow> 0 \<le> r \<Longrightarrow> r < ranks cfg \<Longrightarrow>
   IsRankSelfRefreshing cs r = Inr (rank_is_sref cs ! nat r)"
  by (auto simp: IsRankSelfRefreshing_def chan_shape_def vget_def)

text \<open>A tick only appends refreshes of ranks that are awake.\<close>

definition new_refreshes :: "config \<Rightarrow> channel_state \<Rightarrow> channel_state \<Rightarrow> bool" where
  "new_refreshes cfg cs cs' \<longleftrightarrow> (\<exists>new. cs' = cs\<lparr>refresh_q := refresh_q cs @ new\<rparr> \<and> length new \<le> 1 \<and>
     (\<forall>c \<in> set new. IsRefresh c \<and> cmd_in_range cfg c \<and> \<not> rank_is_sref cs ! nat (Rank c)))"

lemma new_refreshes_refl [simp]: "new_refreshes cfg cs cs"
  by (auto simp: new_refreshes_def intro!: exI [of _ "[]"])

lemma new_refreshesI:
  "cs' = cs\<lparr>refresh_q := refresh_q cs @ [c]\<rparr> \<Longrightarrow> IsRefresh c \<Longrightarrow> cmd_in_range cfg c \<Longrightarrow>
   \<not> rank_is_sref cs ! nat (Rank c) \<Longrightarrow> new_refreshes cfg cs cs'"
  unfolding new_refreshes_def by (rule exI [of _ "[c]"]) simp

lemma new_refreshes_rank:
  "0 \<le> r \<Longrightarrow> r < ranks cfg \<Longrightarrow> \<not> rank_is_sref cs ! nat r \<Longrightarrow> new_refreshes cfg cs (RankNeedRefresh r True cs)"
  unfolding RankNeedRefresh_def if_True
  by (rule new_refreshesI, rule refl) (simp_all add: cmd_in_range_def cmd_kind_defs)

lemma new_refreshes_bank:
  "in_range cfg (r, g, b) \<Longrightarrow> \<not> rank_is_sref cs ! nat r \<Longrightarrow>
   new_refreshes cfg cs (BankNeedRefresh r g b True cs)"
  unfolding BankNeedRefresh_def if_True
  by (rule new_refreshesI, rule refl) (simp_all add: cmd_in_range_def cmd_kind_defs place_of_def)

lemma simultaneous_loop_ok:
  "chan_shape cfg cs \<Longrightarrow> \<forall>i \<in> set is. 0 \<le> i \<and> i < ranks cfg \<Longrightarrow>
   okE (new_refreshes cfg cs) (simultaneous_loop is cs)"
  by (induction "is") (auto simp: IsRankSelfRefreshing_ok new_refreshes_rank)

theorem refresh_ClockTick_ok:
  assumes rf: "refresh_inv cfg rf" and shape: "chan_shape cfg cs"
  shows "okE (\<lambda>(rf', cs'). refresh_inv cfg rf' \<and> new_refreshes cfg cs cs' \<and> rf_clk rf' = rf_clk rf + 1)
    (refresh_ClockTick cfg rf cs)"
proof -
  have clk: "okE (\<lambda>rf'. refresh_inv cfg rf' \<and> rf_clk rf' = rf_clk rf) (IterateNext cfg rf)"
    if "refresh_policy cfg \<noteq> RANK_LEVEL_SIMULTANEOUS"
    using rf that by (auto simp: IterateNext_def refresh_inv_def next_mod_ok)
  have r: "0 \<le> next_rank rf" "next_rank rf < ranks cfg" using rf by (auto simp: refresh_inv_def)
  have q: "in_range cfg (next_rank rf, next_bg rf, next_bank rf)" using rf by (simp add: refresh_inv_def)
  note sref = IsRankSelfRefreshing_ok [OF shape r]
  have "okE (\<lambda>(rf', cs'). refresh_inv cfg rf' \<and> new_refreshes cfg cs cs' \<and> rf_clk rf' = rf_clk rf)
      (InsertRefresh cfg rf cs)"
  proof (cases "refresh_policy cfg")
    case RANK_LEVEL_SIMULTANEOUS
    with rf simultaneous_loop_ok [OF shape, of "indices (ranks cfg)"] show ?thesis
      by (auto simp: InsertRefresh_def elim!: okE_mono)
  next
    case RANK_LEVEL_STAGGERED
    with clk new_refreshes_rank [OF r] show ?thesis
      by (auto simp: InsertRefresh_def sref Let_def elim!: okE_mono)
  next
    case BANK_LEVEL_STAGGERED
    with clk new_refreshes_bank [OF q] show ?thesis
      by (auto simp: InsertRefresh_def sref Let_def elim!: okE_mono)
  next
    case POLICY_SIZE
    with rf show ?thesis by (simp add: refresh_inv_def)
  qed
  with rf show ?thesis
    by (auto simp: refresh_ClockTick_def refresh_inv_def elim!: okE_mono)
qed

lemma new_refreshes_inv:
  assumes "new_refreshes cfg cs cs'" and inv: "chan_inv cfg tim cs H now"
  shows "chan_inv cfg tim cs' H now"
proof -
  from assms(1) obtain new where new: "cs' = cs\<lparr>refresh_q := refresh_q cs @ new\<rparr>"
    "\<forall>c \<in> set new. IsRefresh c \<and> cmd_in_range cfg c" by (auto simp: new_refreshes_def)
  from inv have "refreshes_ok cfg (refresh_q cs)" by (simp add: chan_inv_def)
  with new(2) have "refreshes_ok cfg (refresh_q cs @ new)" by (auto simp: refreshes_ok_def)
  from chan_inv_refresh [OF inv this] new(1) show ?thesis by simp
qed

section \<open>The order of refreshes\<close>

text \<open>The specification: the place of the refresh number \<open>k\<close>, counted from 0.\<close>

definition bank_refresh_order :: "config \<Rightarrow> int \<Rightarrow> int \<times> int \<times> int" where
  "bank_refresh_order cfg k =
     ((k div (bankgroups cfg * banks_per_group cfg)) mod ranks cfg, k mod bankgroups cfg,
      (k div bankgroups cfg) mod banks_per_group cfg)"

definition next_place :: "refresh_state \<Rightarrow> int \<times> int \<times> int" where
  "next_place rf = (next_rank rf, next_bg rf, next_bank rf)"

lemma succ_divmod:
  assumes "0 < (m :: int)"
  shows "(k + 1) mod m = (k mod m + 1) mod m"
    and "(k + 1) div m = (if (k mod m + 1) mod m = 0 then k div m + 1 else k div m)"
proof -
  show "(k + 1) mod m = (k mod m + 1) mod m" by (simp add: mod_simps)
  have k: "k + 1 = (k mod m + 1) + m * (k div m)" using mult_div_mod_eq [of m k] by linarith
  have "(k mod m + 1 + m * (k div m)) div m = k div m + (k mod m + 1) div m"
    by (rule div_mult_self2) (use assms in simp)
  then have "(k + 1) div m = (k mod m + 1) div m + k div m"
    unfolding k [symmetric] by (rule trans) (rule add.commute)
  moreover have "(k mod m + 1) div m = (if (k mod m + 1) mod m = 0 then 1 else 0)"
  proof (cases "k mod m + 1 = m")
    case False
    with pos_mod_bound [OF assms, of k] have "k mod m + 1 < m" by linarith
    with pos_mod_sign [OF assms, of k] show ?thesis by simp
  qed (use assms in simp)
  ultimately show "(k + 1) div m = (if (k mod m + 1) mod m = 0 then k div m + 1 else k div m)"
    by simp
qed

lemma IterateNext_order:
  assumes wf: "cfg_wf cfg" and p: "refresh_policy cfg = BANK_LEVEL_STAGGERED"
    and k: "next_place rf = bank_refresh_order cfg k"
  shows "okE (\<lambda>rf'. next_place rf' = bank_refresh_order cfg (k + 1)) (IterateNext cfg rf)"
proof -
  let ?g = "bankgroups cfg" and ?b = "banks_per_group cfg" and ?r = "ranks cfg"
  from wf have pos: "0 < ?g" "0 < ?b" "0 < ?r" by (simp_all add: cfg_wf_def)
  have dd: "k div (?g * ?b) = k div ?g div ?b" for k
    using pos by (simp add: zdiv_zmult2_eq)
  from k have f: "next_rank rf = (k div ?g div ?b) mod ?r" "next_bg rf = k mod ?g"
    "next_bank rf = (k div ?g) mod ?b" by (simp_all add: next_place_def bank_refresh_order_def dd)
  have m: "next_mod (x mod m) m = Inr ((x mod m + 1) mod m)" if "0 < m" for x m
    using that by (intro next_mod_ok) simp_all
  show ?thesis
    using pos by (simp add: IterateNext_def p f m next_place_def bank_refresh_order_def dd
        succ_divmod [OF pos(1), of k] succ_divmod [OF pos(2), of "k div ?g"]
        succ_divmod [OF pos(3), of "k div ?g div ?b"])
qed

end
