(* ===== verification/Controller.thy ===== *)
theory Controller
  imports CommandQueue Refresh
begin

text \<open>
  \<open>controller.h\<close> and \<open>controller.cc\<close>: the memory controller of one channel. It takes
  transactions into its buffers, turns them into commands, issues at most one command (two with
  HBM dual commands) in every cycle, and returns finished transactions. The command trace that
  the code writes to a file under \<open>CMD_TRACE\<close> is the field \<open>cmd_trace\<close>, the latest command first.
\<close>

datatype row_buf_policy_t = OPEN_PAGE | CLOSE_PAGE

text \<open>A \<open>std::vector\<close> with its capacity: the controller admits transactions by it. A push
  beyond the capacity doubles it, as the library in use does.\<close>

record trans_vec =
  tv_items :: "transaction list"
  tv_capacity :: nat

definition tv_reserve :: "int \<Rightarrow> trans_vec \<Rightarrow> trans_vec result" where
  "tv_reserve n v = (if n < 0 then Inl (UncaughtException ''length_error'')
     else Inr (v\<lparr>tv_capacity := max (nat n) (tv_capacity v)\<rparr>))"

definition tv_push_back :: "transaction \<Rightarrow> trans_vec \<Rightarrow> trans_vec" where
  "tv_push_back t v = v\<lparr>tv_items := tv_items v @ [t],
     tv_capacity := (if length (tv_items v) < tv_capacity v then tv_capacity v
        else max 1 (2 * tv_capacity v))\<rparr>"

record controller =
  channel_id :: int
  ct_clk :: u64
  ct_stats :: simple_stats
  ct_channel :: channel_state
  ct_queue :: cmd_queue
  ct_refresh :: refresh_state
  concurrent_serve :: u64
  is_active_cycles :: bool
  read_cmds :: u64
  write_cmds :: u64
  read_row_hits :: u64
  write_row_hits :: u64
  is_unified_queue :: bool
  uni_queue :: trans_vec
  read_queue :: trans_vec
  write_buffer :: trans_vec
  pending_rd_q :: "(u64, transaction) multimap"
  pending_wr_q :: "(u64, transaction) multimap"
  return_queue :: "transaction list"
  buf_policy :: row_buf_policy_t
  last_trans_clk :: u64
  write_draining :: int
  cmd_trace :: trace

definition Controller :: "int \<Rightarrow> config \<Rightarrow> controller result" where
  "Controller channel cfg =
     (let empty = \<lparr>tv_items = [], tv_capacity = 0\<rparr> in
      bindE (CommandQueue cfg) (\<lambda>cq. bindE (Refresh cfg) (\<lambda>rf.
      bindE (tv_reserve (trans_queue_size cfg) empty) (\<lambda>full.
      Inr \<lparr>channel_id = channel, ct_clk = 0, ct_stats = SimpleStats cfg, ct_channel = ChannelState cfg,
         ct_queue = cq, ct_refresh = rf, concurrent_serve = 0, is_active_cycles = False,
         read_cmds = 0, write_cmds = 0, read_row_hits = 0, write_row_hits = 0,
         is_unified_queue = unified_queue cfg,
         uni_queue = (if unified_queue cfg then full else empty),
         read_queue = (if unified_queue cfg then empty else full),
         write_buffer = (if unified_queue cfg then empty else full),
         pending_rd_q = [], pending_wr_q = [], return_queue = [],
         buf_policy = (if row_buf_policy cfg = ''CLOSE_PAGE'' then CLOSE_PAGE else OPEN_PAGE),
         last_trans_clk = 0, write_draining = 0, cmd_trace = []\<rparr>))))"

section \<open>Returning transactions\<close>

text \<open>The pair that stands for no transaction.\<close>

definition no_trans :: "u64 \<times> int" where
  "no_trans = (of_c_int (-1), -1)"

definition done_stats :: "u64 \<Rightarrow> transaction \<Rightarrow> simple_stats \<Rightarrow> simple_stats" where
  "done_stats now t ss =
     (if is_write t then Increment ''num_writes_done'' ss
      else AddValue ''read_latency'' (to_c_int (now - added_cycle t)) (Increment ''num_reads_done'' ss))"

definition ReturnDoneTrans :: "u64 \<Rightarrow> controller \<Rightarrow> (u64 \<times> int) \<times> controller" where
  "ReturnDoneTrans clk ct =
     (case List.find (\<lambda>t. clk \<ge> complete_cycle t) (return_queue ct) of
        None \<Rightarrow> (no_trans, ct)
      | Some t \<Rightarrow> ((t_addr t, if is_write t then 1 else 0),
          ct\<lparr>ct_stats := done_stats (ct_clk ct) t (ct_stats ct),
             return_queue := remove_first (\<lambda>t. clk \<ge> complete_cycle t) (return_queue ct)\<rparr>))"

section \<open>Taking transactions\<close>

definition tv_has_room :: "trans_vec \<Rightarrow> bool" where
  "tv_has_room v = (length (tv_items v) < tv_capacity v)"

definition WillAcceptTransaction :: "u64 \<Rightarrow> bool \<Rightarrow> controller \<Rightarrow> bool" where
  "WillAcceptTransaction a w ct =
     (if is_unified_queue ct then tv_has_room (uni_queue ct)
      else if \<not> w then tv_has_room (read_queue ct)
      else tv_has_room (write_buffer ct))"

definition AddTransaction :: "transaction \<Rightarrow> controller \<Rightarrow> bool \<times> controller" where
  "AddTransaction trans0 ct0 =
     (let trans = trans0\<lparr>added_cycle := ct_clk ct0\<rparr>;
          ct = ct0\<lparr>ct_stats := AddValue ''interarrival_latency''
                      (to_c_int (ct_clk ct0 - last_trans_clk ct0)) (ct_stats ct0),
                   last_trans_clk := ct_clk ct0\<rparr>
      in if is_write trans then
           (let ct1 = (if mm_count (pending_wr_q ct) (t_addr trans) = 0 then
               (let ct' = ct\<lparr>pending_wr_q := mm_insert (t_addr trans) trans (pending_wr_q ct)\<rparr>
                in if is_unified_queue ct' then ct'\<lparr>uni_queue := tv_push_back trans (uni_queue ct')\<rparr>
                   else ct'\<lparr>write_buffer := tv_push_back trans (write_buffer ct')\<rparr>)
               else ct)
            in (True, ct1\<lparr>return_queue := return_queue ct1 @ [trans\<lparr>complete_cycle := ct_clk ct1 + 1\<rparr>]\<rparr>))
         else if 0 < mm_count (pending_wr_q ct) (t_addr trans) then
           (True, ct\<lparr>return_queue := return_queue ct @ [trans\<lparr>complete_cycle := ct_clk ct + 1\<rparr>]\<rparr>)
         else
           (let ct1 = ct\<lparr>pending_rd_q := mm_insert (t_addr trans) trans (pending_rd_q ct)\<rparr>
            in (True,
              if mm_count (pending_rd_q ct1) (t_addr trans) = 1 then
                (if is_unified_queue ct1 then ct1\<lparr>uni_queue := tv_push_back trans (uni_queue ct1)\<rparr>
                 else ct1\<lparr>read_queue := tv_push_back trans (read_queue ct1)\<rparr>)
              else ct1)))"

section \<open>Issuing a command\<close>

text \<open>The loop that returns all pending reads of an address.\<close>

fun return_reads :: "nat \<Rightarrow> u64 \<Rightarrow> u64 \<Rightarrow> (u64, transaction) multimap \<Rightarrow> transaction list
    \<Rightarrow> ((u64, transaction) multimap \<times> transaction list) result" where
  "return_reads 0 a done_at pending rq = Inr (pending, rq)"
| "return_reads (Suc n) a done_at pending rq = (case mm_find pending a of
     None \<Rightarrow> Inl OutOfRange
   | Some t \<Rightarrow> return_reads n a done_at (mm_erase a pending) (rq @ [t\<lparr>complete_cycle := done_at\<rparr>]))"

definition UpdateCommandStats :: "command \<Rightarrow> int \<Rightarrow> controller \<Rightarrow> controller result" where
  "UpdateCommandStats cmd cnt ct =
     (let inc = (\<lambda>name ct. ct\<lparr>ct_stats := Increment name (ct_stats ct)\<rparr>) in
      if IsRead cmd then
        (let ct1 = (inc ''num_read_cmds'' ct)\<lparr>read_cmds := read_cmds ct + of_c_int cnt\<rparr> in
         bindE (ch_RowHitCount (ct_channel ct1) (Rank cmd) (Bankgroup cmd) (Bank cmd)) (\<lambda>n.
         Inr (if n \<noteq> 0
              then (inc ''num_read_row_hits'' ct1)\<lparr>read_row_hits := read_row_hits ct1 + of_c_int cnt\<rparr>
              else ct1)))
      else if IsWrite cmd then
        (let ct1 = (inc ''num_write_cmds'' ct)\<lparr>write_cmds := write_cmds ct + of_c_int cnt\<rparr> in
         bindE (ch_RowHitCount (ct_channel ct1) (Rank cmd) (Bankgroup cmd) (Bank cmd)) (\<lambda>n.
         Inr (if n \<noteq> 0
              then (inc ''num_write_row_hits'' ct1)\<lparr>write_row_hits := write_row_hits ct1 + of_c_int cnt\<rparr>
              else ct1)))
      else (case cmd_type cmd of
          ACTIVATE \<Rightarrow> Inr (inc ''num_act_cmds'' ct)
        | PRECHARGE \<Rightarrow> Inr (inc ''num_pre_cmds'' ct)
        | REFRESH \<Rightarrow> Inr (inc ''num_ref_cmds'' ct)
        | REFRESH_BANK \<Rightarrow> Inr (inc ''num_refb_cmds'' ct)
        | SREF_ENTER \<Rightarrow> Inr (inc ''num_srefe_cmds'' ct)
        | SREF_EXIT \<Rightarrow> Inr (inc ''num_srefx_cmds'' ct)
        | _ \<Rightarrow> Inl (AbruptExit ''controller.cc'' 492)))"

text \<open>The first part of \<open>IssueCommand\<close>: the pending and return queues. The result is the number
  of transactions served.\<close>

definition issue_pending :: "config \<Rightarrow> command \<Rightarrow> controller \<Rightarrow> (int \<times> controller) result" where
  "issue_pending cfg cmd ct =
     (if IsRead cmd then
        (let num_reads = mm_count (pending_rd_q ct) (hex_addr cmd) in
         if num_reads = 0 then Inl (ExitFailure ''controller.cc'' 333)
         else bindE (return_reads num_reads (hex_addr cmd) (ct_clk ct + of_c_int (read_delay cfg))
                       (pending_rd_q ct) (return_queue ct)) (\<lambda>(p, rq).
           Inr (to_c_int (of_nat num_reads), ct\<lparr>pending_rd_q := p, return_queue := rq\<rparr>)))
      else if IsWrite cmd then
        (case mm_find (pending_wr_q ct) (hex_addr cmd) of
           None \<Rightarrow> Inl (ExitFailure ''controller.cc'' 349)
         | Some t \<Rightarrow>
             (let wr_lat = ct_clk ct - added_cycle t + of_c_int (write_delay cfg) in
              Inr (1, ct\<lparr>ct_stats := AddValue ''write_latency'' (to_c_int wr_lat) (ct_stats ct),
                         pending_wr_q := mm_erase (hex_addr cmd) (pending_wr_q ct)\<rparr>)))
      else Inr (0, ct))"

text \<open>The last part: when a bank begins to serve a request.\<close>

definition issue_serve :: "config \<Rightarrow> command \<Rightarrow> controller \<Rightarrow> controller result" where
  "issue_serve cfg cmd ct =
     (let cs = ct_channel ct; r = Rank cmd; g = Bankgroup cmd; b = Bank cmd in
      bindE
       (if IsRead cmd then
          bindE (SetInServeBank r g b True cs) (\<lambda>cs'.
            SetServeEndCycleBank r g b (ct_clk ct + of_c_int (read_delay cfg)) cs')
        else if cmd_type cmd = ACTIVATE then
          bindE (GetActivateByWhoBank cs r g b) (\<lambda>by_write.
            if \<not> by_write then SetInServeBank r g b True cs else Inr cs)
        else if cmd_type cmd = PRECHARGE then
          bindE (GetPrechargeByRefreshBank cs r g b) (\<lambda>by_act.
            if by_act then SetInServeBank r g b True cs else Inr cs)
        else Inr cs)
       (\<lambda>cs'. Inr (ct\<lparr>ct_channel := cs'\<rparr>)))"

definition IssueCommand :: "config \<Rightarrow> timing \<Rightarrow> command \<Rightarrow> controller \<Rightarrow> controller result" where
  "IssueCommand cfg tim cmd ct0 =
     (let ct = ct0\<lparr>cmd_trace := (cmd, ct_clk ct0) # cmd_trace ct0\<rparr> in
      bindE (issue_pending cfg cmd ct) (\<lambda>(num_count, ct1).
      bindE (UpdateCommandStats cmd num_count ct1) (\<lambda>ct2.
      bindE (UpdateTimingAndStates cfg tim cmd (ct_clk ct2) (ct_channel ct2)) (\<lambda>cs.
      issue_serve cfg cmd (ct2\<lparr>ct_channel := cs\<rparr>)))))"

section \<open>Scheduling a transaction\<close>

definition TransToCommand :: "config \<Rightarrow> controller \<Rightarrow> transaction \<Rightarrow> command" where
  "TransToCommand cfg ct t =
     Command (if buf_policy ct = OPEN_PAGE then (if is_write t then WRITE else READ)
              else (if is_write t then WRITE_PRECHARGE else READ_PRECHARGE))
       (AddressMapping cfg (t_addr t)) (t_addr t)"

datatype queue_sel = UnifiedQueue | WriteBuffer | ReadQueue

definition sel_items :: "queue_sel \<Rightarrow> controller \<Rightarrow> transaction list" where
  "sel_items s ct = (case s of UnifiedQueue \<Rightarrow> tv_items (uni_queue ct)
     | WriteBuffer \<Rightarrow> tv_items (write_buffer ct) | ReadQueue \<Rightarrow> tv_items (read_queue ct))"

definition sel_update :: "queue_sel \<Rightarrow> transaction list \<Rightarrow> controller \<Rightarrow> controller" where
  "sel_update s ts ct = (case s of
       UnifiedQueue \<Rightarrow> ct\<lparr>uni_queue := (uni_queue ct)\<lparr>tv_items := ts\<rparr>\<rparr>
     | WriteBuffer \<Rightarrow> ct\<lparr>write_buffer := (write_buffer ct)\<lparr>tv_items := ts\<rparr>\<rparr>
     | ReadQueue \<Rightarrow> ct\<lparr>read_queue := (read_queue ct)\<lparr>tv_items := ts\<rparr>\<rparr>)"

text \<open>The loop over the chosen queue; \<open>pre\<close> are the transactions already passed over.\<close>

fun schedule_loop :: "config \<Rightarrow> queue_sel \<Rightarrow> transaction list \<Rightarrow> transaction list \<Rightarrow> controller
    \<Rightarrow> controller result" where
  "schedule_loop cfg s pre [] ct = Inr ct"
| "schedule_loop cfg s pre (t # rest) ct =
     (let cmd = TransToCommand cfg ct t in
      bindE (cq_WillAcceptCommand cfg (ct_queue ct) (Rank cmd) (Bankgroup cmd) (Bank cmd)) (\<lambda>ok.
        if ok then
          if \<not> is_unified_queue ct \<and> IsWrite cmd \<and> 0 < mm_count (pending_rd_q ct) (t_addr t)
          then Inr (ct\<lparr>write_draining := 0\<rparr>)
          else
            (let ct1 = (if \<not> is_unified_queue ct \<and> IsWrite cmd
                        then ct\<lparr>write_draining := write_draining ct - 1\<rparr> else ct) in
             bindE (AddCommand cfg cmd (ct_queue ct1)) (\<lambda>(_, cq).
               Inr (sel_update s (pre @ rest) (ct1\<lparr>ct_queue := cq\<rparr>))))
        else schedule_loop cfg s (pre @ [t]) rest ct))"

definition start_draining :: "controller \<Rightarrow> controller" where
  "start_draining ct =
     (if write_draining ct = 0 \<and> \<not> is_unified_queue ct \<and>
         (length (tv_items (write_buffer ct)) \<ge> tv_capacity (write_buffer ct) \<or>
          length (tv_items (write_buffer ct)) > 8 \<and> QueueEmpty (ct_queue ct))
      then ct\<lparr>write_draining := int (length (tv_items (write_buffer ct)))\<rparr> else ct)"

definition ScheduleTransaction :: "config \<Rightarrow> controller \<Rightarrow> controller result" where
  "ScheduleTransaction cfg ct0 =
     (let ct = start_draining ct0;
          s = (if is_unified_queue ct then UnifiedQueue
               else if 0 < write_draining ct then WriteBuffer else ReadQueue)
      in schedule_loop cfg s [] (sel_items s ct) ct)"

section \<open>One cycle\<close>

text \<open>Lines 88 to 117: the refresh command or the next ready command, and a second command of the
  other kind for HBM. The result says whether a command was issued.\<close>

definition issue_phase :: "config \<Rightarrow> timing \<Rightarrow> controller \<Rightarrow> (bool \<times> controller) result" where
  "issue_phase cfg tim ct =
     bindE (if IsRefreshWaiting (ct_channel ct) then
              bindE (FinishRefresh cfg (ct_queue ct) (ct_channel ct)) (\<lambda>(cmd, cq, cs).
                Inr (cmd, ct\<lparr>ct_queue := cq, ct_channel := cs\<rparr>))
            else Inr (Command_default, ct)) (\<lambda>(cmd0, ct1).
     bindE (if \<not> IsValid cmd0 then
              bindE (GetCommandToIssue cfg (ct_queue ct1) (ct_channel ct1) (ct_stats ct1))
                (\<lambda>(cmd, cq, cs, ss). Inr (cmd, ct1\<lparr>ct_queue := cq, ct_channel := cs, ct_stats := ss\<rparr>))
            else Inr (cmd0, ct1)) (\<lambda>(cmd, ct2).
     if \<not> IsValid cmd then Inr (False, ct2)
     else bindE (IssueCommand cfg tim cmd ct2) (\<lambda>ct3.
       if enable_hbm_dual_cmd cfg then
         bindE (GetCommandToIssue cfg (ct_queue ct3) (ct_channel ct3) (ct_stats ct3))
           (\<lambda>(second_cmd, cq, cs, ss).
             let ct4 = ct3\<lparr>ct_queue := cq, ct_channel := cs, ct_stats := ss\<rparr> in
             if IsValid second_cmd \<and> IsReadWrite second_cmd \<noteq> IsReadWrite cmd then
               bindE (IssueCommand cfg tim second_cmd ct4) (\<lambda>ct5.
                 Inr (True, ct5\<lparr>ct_stats := Increment ''hbm_dual_cmds'' (ct_stats ct5)\<rparr>))
             else Inr (True, ct4))
       else Inr (True, ct3))))"

text \<open>Lines 125 to 139.\<close>

definition rank_cycle_stats :: "config \<Rightarrow> int \<Rightarrow> controller \<Rightarrow> controller result" where
  "rank_cycle_stats cfg i ct =
     (let set_idle = (\<lambda>f ct. bindE (vget (rank_idle_cycles (ct_channel ct)) i) (\<lambda>n.
            bindE (vset (rank_idle_cycles (ct_channel ct)) i (f n)) (\<lambda>ns.
            Inr (ct\<lparr>ct_channel := (ct_channel ct)\<lparr>rank_idle_cycles := ns\<rparr>\<rparr>)))) in
      bindE (IsRankSelfRefreshing (ct_channel ct) i) (\<lambda>sref.
      if sref then bindE (IncrementVec ''sref_cycles'' i (ct_stats ct)) (\<lambda>ss. Inr (ct\<lparr>ct_stats := ss\<rparr>))
      else bindE (IsAllBankIdleInRank cfg (ct_channel ct) i) (\<lambda>all_idle.
        if all_idle then
          bindE (IncrementVec ''all_bank_idle_cycles'' i (ct_stats ct)) (\<lambda>ss.
            set_idle (\<lambda>n. n + 1) (ct\<lparr>ct_stats := ss\<rparr>))
        else
          bindE (IncrementVec ''rank_active_cycles'' i (ct_stats ct)) (\<lambda>ss.
            set_idle (\<lambda>_. 0) (ct\<lparr>ct_stats := ss\<rparr>)))))"

text \<open>A request for rank \<open>i\<close> alone: \<open>Address()\<close> with its rank set.\<close>

definition rank_request :: "command_type \<Rightarrow> int \<Rightarrow> command" where
  "rank_request ty i = Command ty (Address_default\<lparr>a_rank := i\<rparr>) (of_c_int (-1))"

text \<open>Lines 145 to 172, with the \<open>break\<close> after a command.\<close>

fun sref_loop :: "config \<Rightarrow> timing \<Rightarrow> int list \<Rightarrow> controller \<Rightarrow> controller result" where
  "sref_loop cfg tim [] ct = Inr ct"
| "sref_loop cfg tim (i # is) ct =
     bindE (IsRankSelfRefreshing (ct_channel ct) i) (\<lambda>sref.
     bindE (vget (rank_q_empty (ct_queue ct)) i) (\<lambda>empty.
     bindE (vget (rank_idle_cycles (ct_channel ct)) i) (\<lambda>idle.
       let ask = (\<lambda>ty. bindE (GetReadyCommand cfg (rank_request ty i) (ct_clk ct) (ct_channel ct))
             (\<lambda>(cmd, cs). let ct' = ct\<lparr>ct_channel := cs\<rparr> in
                if IsValid cmd then IssueCommand cfg tim cmd ct' else sref_loop cfg tim is ct')) in
       if sref then (if \<not> empty then ask SREF_EXIT else sref_loop cfg tim is ct)
       else if empty \<and> idle \<ge> sref_threshold cfg then ask SREF_ENTER
       else sref_loop cfg tim is ct)))"

definition serve_bank_stats :: "config \<Rightarrow> u64 \<Rightarrow> int \<Rightarrow> int \<times> int \<Rightarrow> channel_state \<Rightarrow> channel_state result" where
  "serve_bank_stats cfg clk i = (\<lambda>(j, k) cs.
     bindE (GetServeEndCycleBank cs i j k) (\<lambda>e.
     bindE (if clk = e + 1 then SetInServeBank i j k False cs else Inr cs) (\<lambda>cs1.
     bindE (ch_IsRowClosed cs1 i j k) (\<lambda>closed.
     if closed then SetInServeBank i j k False cs1 else Inr cs1))))"

definition Calculate_stats :: "config \<Rightarrow> controller \<Rightarrow> controller result" where
  "Calculate_stats cfg ct =
     foldE (\<lambda>i ct.
       bindE (foldE (serve_bank_stats cfg (ct_clk ct) i) (bank_coords cfg) (ct_channel ct)) (\<lambda>cs.
       bindE (InServeBankNum cfg cs i) (\<lambda>n.
       Inr (if n > 0
            then ct\<lparr>ct_channel := cs, is_active_cycles := True,
                    concurrent_serve := concurrent_serve ct + of_c_int n\<rparr>
            else ct\<lparr>ct_channel := cs\<rparr>))))
      (indices (ranks cfg)) (ct\<lparr>is_active_cycles := False, concurrent_serve := 0\<rparr>)"

definition ct_ClockTick :: "config \<Rightarrow> timing \<Rightarrow> controller \<Rightarrow> controller result" where
  "ct_ClockTick cfg tim ct =
     bindE (refresh_ClockTick cfg (ct_refresh ct) (ct_channel ct)) (\<lambda>(rf, cs).
     bindE (issue_phase cfg tim (ct\<lparr>ct_refresh := rf, ct_channel := cs\<rparr>)) (\<lambda>(cmd_issued, ct1).
     bindE (foldE (rank_cycle_stats cfg) (indices (ranks cfg)) ct1) (\<lambda>ct2.
     bindE (if enable_self_refresh cfg \<and> \<not> cmd_issued
            then sref_loop cfg tim (indices (ranks cfg)) ct2 else Inr ct2) (\<lambda>ct3.
     bindE (Calculate_stats cfg ct3) (\<lambda>ct4.
     bindE (ScheduleTransaction cfg ct4) (\<lambda>ct5.
     Inr (ct5\<lparr>ct_clk := ct_clk ct5 + 1, ct_queue := cq_ClockTick (ct_queue ct5),
              ct_stats := Increment ''num_cycles'' (ct_stats ct5)\<rparr>)))))))"

definition ct_QueueUsage :: "controller \<Rightarrow> int" where
  "ct_QueueUsage ct = cq_QueueUsage (ct_queue ct)"

text \<open>The end of an epoch, as far as it changes the state of the controller.\<close>

definition ct_PrintEpochStats :: "controller \<Rightarrow> controller result" where
  "ct_PrintEpochStats ct =
     bindE (UpdateEpochStats (Increment ''epoch_num'' (ct_stats ct))) (\<lambda>ss. Inr (ct\<lparr>ct_stats := ss\<rparr>))"

definition ct_PrintFinalStats :: "controller \<Rightarrow> controller result" where
  "ct_PrintFinalStats ct = bindE (UpdateFinalStats (ct_stats ct)) (\<lambda>ss. Inr (ct\<lparr>ct_stats := ss\<rparr>))"

definition ct_ResetStats :: "controller \<Rightarrow> controller" where
  "ct_ResetStats ct = ct\<lparr>ct_stats := Reset (ct_stats ct)\<rparr>"

definition ReturnReadLatency :: "controller \<Rightarrow> u64 result" where
  "ReturnReadLatency ct = GetReadLatency (ct_stats ct)"

end
