(* ===== verification/ControllerInv.thy ===== *)
theory ControllerInv
  imports Controller
begin

text \<open>
  The memory controller never stops with an error, obeys all constraints of the channel, and
  keeps exact account of its transactions, for configurations without self refresh: the
  invariants, and that every operation preserves them.
\<close>

section \<open>Pending reads and writes\<close>

definition keys :: "('k, 'v) multimap \<Rightarrow> 'k set" where
  "keys m = fst ` set m"

lemma finite_keys [simp]: "finite (keys m)"
  by (simp add: keys_def)

lemma keys_insert [simp]: "keys (mm_insert k v m) = insert k (keys m)"
  by (auto simp: keys_def mm_insert_def)

lemma mm_count_pos: "0 < mm_count m k \<longleftrightarrow> k \<in> keys m"
  by (force simp: mm_count_def keys_def filter_empty_conv)

lemma mm_count_0: "mm_count m k = 0 \<longleftrightarrow> k \<notin> keys m"
  by (metis mm_count_pos neq0_conv)

lemma mm_find_keys: "k \<in> keys m \<Longrightarrow> \<exists>v. mm_find m k = Some v \<and> (k, v) \<in> set m"
  by (induction m) (auto simp: keys_def mm_find_def)

lemma keys_filter: "keys (filter (\<lambda>e. fst e \<noteq> k) m) = keys m - {k}"
  by (auto simp: keys_def)

lemma mm_erase_distinct:
  "distinct (map fst m) \<Longrightarrow> mm_erase k m = filter (\<lambda>e. fst e \<noteq> k) m"
proof (induction m)
  case (Cons e m)
  then have "\<forall>x \<in> set m. fst x \<noteq> fst e" by (metis distinct.simps(2) image_eqI list.set_map list.simps(9))
  then have "filter (\<lambda>x. fst x \<noteq> fst e) m = m" by (simp add: filter_id_conv)
  with Cons show ?case by (auto simp: mm_erase_def)
qed (simp add: mm_erase_def)

text \<open>The loop of \<open>IssueCommand\<close> returns all pending reads of the address, in their order.\<close>

definition served :: "u64 \<Rightarrow> (u64, transaction) multimap \<Rightarrow> u64 \<Rightarrow> transaction list" where
  "served a p done_at = map (\<lambda>t. t\<lparr>complete_cycle := done_at\<rparr>) (mm_entries p a)"

lemma return_reads_all:
  "return_reads (mm_count p a) a done_at p rq =
     Inr (filter (\<lambda>e. fst e \<noteq> a) p, rq @ served a p done_at)"
proof (induction "mm_count p a" arbitrary: p rq)
  case 0
  then have "\<forall>e \<in> set p. fst e \<noteq> a" by (auto simp: mm_count_def filter_empty_conv)
  then have "filter (\<lambda>e. fst e \<noteq> a) p = p" "filter (\<lambda>e. fst e = a) p = []"
    by (auto simp: filter_id_conv filter_empty_conv)
  with 0 show ?case by (simp add: served_def mm_entries_def)
next
  case (Suc n)
  from Suc(2) mm.find_entries [of p a] mm.count_entries [of p a] obtain t ts where
    t: "mm_find p a = Some t" "mm_entries p a = t # ts" by (cases "mm_entries p a") auto
  have n: "n = mm_count (mm_erase a p) a" using Suc(2) by (simp add: mm.count_erase)
  have f: "filter (\<lambda>e. fst e \<noteq> a) (mm_erase a p) = filter (\<lambda>e. fst e \<noteq> a) p" for p :: "(u64, transaction) multimap"
    by (induction p) (auto simp: mm_erase_def)
  have "served a p done_at = t\<lparr>complete_cycle := done_at\<rparr> # served a (mm_erase a p) done_at"
    by (simp add: served_def t(2) mm.entries_erase)
  then show ?case
    using Suc(1) [OF n, of "rq @ [t\<lparr>complete_cycle := done_at\<rparr>]"] by (simp add: Suc(2) [symmetric] t(1) n [symmetric] f)
qed

section \<open>What an issued command changes\<close>

text \<open>The fields no command touches.\<close>

definition ct_same :: "controller \<Rightarrow> controller \<Rightarrow> bool" where
  "ct_same ct ct' \<longleftrightarrow> channel_id ct' = channel_id ct \<and> ct_clk ct' = ct_clk ct \<and> ct_refresh ct' = ct_refresh ct \<and>
     is_unified_queue ct' = is_unified_queue ct \<and> uni_queue ct' = uni_queue ct \<and>
     read_queue ct' = read_queue ct \<and> write_buffer ct' = write_buffer ct \<and> buf_policy ct' = buf_policy ct \<and>
     last_trans_clk ct' = last_trans_clk ct \<and> write_draining ct' = write_draining ct"

lemma ct_same_refl [simp]: "ct_same ct ct"
  by (simp add: ct_same_def)

lemma ct_same_trans: "ct_same a b \<Longrightarrow> ct_same b c \<Longrightarrow> ct_same a c"
  by (simp add: ct_same_def)

definition rd_after :: "command \<Rightarrow> (u64, transaction) multimap \<Rightarrow> (u64, transaction) multimap" where
  "rd_after cmd p = (if IsRead cmd then filter (\<lambda>e. fst e \<noteq> hex_addr cmd) p else p)"

definition wr_after :: "command \<Rightarrow> (u64, transaction) multimap \<Rightarrow> (u64, transaction) multimap" where
  "wr_after cmd p = (if IsWrite cmd then mm_erase (hex_addr cmd) p else p)"

definition returned_by :: "config \<Rightarrow> command \<Rightarrow> controller \<Rightarrow> transaction list" where
  "returned_by cfg cmd ct = (if IsRead cmd
     then served (hex_addr cmd) (pending_rd_q ct) (ct_clk ct + of_c_int (read_delay cfg)) else [])"

lemma returned_by_trace [simp]: "returned_by cfg cmd (ct\<lparr>cmd_trace := H\<rparr>) = returned_by cfg cmd ct"
  by (simp add: returned_by_def)

definition has_pending :: "command \<Rightarrow> controller \<Rightarrow> bool" where
  "has_pending cmd ct \<longleftrightarrow> (IsRead cmd \<longrightarrow> hex_addr cmd \<in> keys (pending_rd_q ct)) \<and>
     (IsWrite cmd \<longrightarrow> hex_addr cmd \<in> keys (pending_wr_q ct))"

lemma not_read_write [simp]: "IsRead cmd \<Longrightarrow> \<not> IsWrite cmd"
  by (auto simp: cmd_kind_defs)

lemma issue_pending_ok:
  assumes "has_pending cmd ct"
  shows "okE (\<lambda>(n, ct'). ct_same ct ct' \<and> ct_channel ct' = ct_channel ct \<and> ct_queue ct' = ct_queue ct \<and>
      cmd_trace ct' = cmd_trace ct \<and> stats_ok cfg (ct_stats ct') = stats_ok cfg (ct_stats ct) \<and>
      pending_rd_q ct' = rd_after cmd (pending_rd_q ct) \<and> pending_wr_q ct' = wr_after cmd (pending_wr_q ct) \<and>
      return_queue ct' = return_queue ct @ returned_by cfg cmd ct) (issue_pending cfg cmd ct)"
proof -
  consider "IsRead cmd" | "IsWrite cmd" "\<not> IsRead cmd" | "\<not> IsRead cmd" "\<not> IsWrite cmd" by blast
  then show ?thesis
  proof cases
    case 1
    with assms have "mm_count (pending_rd_q ct) (hex_addr cmd) \<noteq> 0"
      by (simp add: has_pending_def mm_count_0)
    with 1 show ?thesis
      by (simp add: issue_pending_def Let_def return_reads_all rd_after_def wr_after_def returned_by_def
          ct_same_def)
  next
    case 2
    with assms have "hex_addr cmd \<in> keys (pending_wr_q ct)" by (simp add: has_pending_def)
    from mm_find_keys [OF this] obtain t where "mm_find (pending_wr_q ct) (hex_addr cmd) = Some t" by blast
    with 2 show ?thesis
      by (simp add: issue_pending_def Let_def rd_after_def wr_after_def returned_by_def ct_same_def)
  next
    case 3
    then show ?thesis
      by (simp add: issue_pending_def rd_after_def wr_after_def returned_by_def)
  qed
qed

lemma ch_RowHitCount_ok:
  "chan_shape cfg cs \<Longrightarrow> in_range cfg (r, g, b) \<Longrightarrow> okE (\<lambda>_. True) (ch_RowHitCount cs r g b)"
  using bank_at_ok [of cfg cs r g b] by (auto simp: ch_RowHitCount_def okE_iff)

definition only_stats :: "controller \<Rightarrow> controller \<Rightarrow> bool" where
  "only_stats ct ct' \<longleftrightarrow> ct_same ct ct' \<and> ct_channel ct' = ct_channel ct \<and> ct_queue ct' = ct_queue ct \<and>
     cmd_trace ct' = cmd_trace ct \<and> pending_rd_q ct' = pending_rd_q ct \<and>
     pending_wr_q ct' = pending_wr_q ct \<and> return_queue ct' = return_queue ct"

lemma UpdateCommandStats_ok:
  assumes shape: "chan_shape cfg (ct_channel ct)" and r: "cmd_in_range cfg cmd" and "stats_ok cfg (ct_stats ct)"
  shows "okE (\<lambda>ct'. only_stats ct ct' \<and> stats_ok cfg (ct_stats ct')) (UpdateCommandStats cmd n ct)"
proof (cases "IsReadWrite cmd")
  case True
  then have "\<not> IsRankCMD cmd" by (auto simp: cmd_kind_defs)
  with r have "in_range cfg (Rank cmd, Bankgroup cmd, Bank cmd)"
    by (simp add: cmd_in_range_def place_of_def)
  from ch_RowHitCount_ok [OF shape this] obtain m where
    "ch_RowHitCount (ct_channel ct) (Rank cmd) (Bankgroup cmd) (Bank cmd) = Inr m" by (auto simp: okE_iff)
  with True assms(3) show ?thesis
    by (auto simp: UpdateCommandStats_def Let_def only_stats_def ct_same_def IsReadWrite_def)
next
  case False
  then have "\<not> IsRead cmd" "\<not> IsWrite cmd" by (auto simp: IsReadWrite_def)
  moreover from r have "IsValid cmd" by (simp add: cmd_in_range_def)
  ultimately show ?thesis using assms(3)
    by (cases "cmd_type cmd")
      (auto simp: UpdateCommandStats_def Let_def only_stats_def ct_same_def cmd_kind_defs)
qed

lemma issue_serve_ok:
  assumes shape: "chan_shape cfg (ct_channel ct)" and r: "cmd_in_range cfg cmd"
  shows "okE (\<lambda>ct'. \<exists>cs. ct' = ct\<lparr>ct_channel := cs\<rparr> \<and> chan_frame (ct_channel ct) cs) (issue_serve cfg cmd ct)"
proof (cases "IsRead cmd \<or> cmd_type cmd = ACTIVATE \<or> cmd_type cmd = PRECHARGE")
  case True
  then have "\<not> IsRankCMD cmd" by (auto simp: cmd_kind_defs)
  with r have p: "in_range cfg (Rank cmd, Bankgroup cmd, Bank cmd)"
    by (simp add: cmd_in_range_def place_of_def)
  let ?cs = "ct_channel ct"
  from bank_at_ok [OF shape p] obtain b where
    b: "bank_at ?cs (Rank cmd) (Bankgroup cmd) (Bank cmd) = Inr b" by (auto simp: okE_iff)
  from SetInServeBank_ok [OF shape p, of True] obtain cs1 where
    s: "SetInServeBank (Rank cmd) (Bankgroup cmd) (Bank cmd) True ?cs = Inr cs1" "chan_frame ?cs cs1"
    by (auto simp: okE_iff)
  from SetServeEndCycleBank_ok [OF chan_frame_shape [OF s(2) shape] p] obtain cs2 where
    e: "SetServeEndCycleBank (Rank cmd) (Bankgroup cmd) (Bank cmd) (ct_clk ct + of_c_int (read_delay cfg)) cs1 = Inr cs2"
    "chan_frame cs1 cs2" by (auto simp: okE_iff)
  let ?m = "(if IsRead cmd then bindE (SetInServeBank (Rank cmd) (Bankgroup cmd) (Bank cmd) True ?cs) (\<lambda>cs'.
        SetServeEndCycleBank (Rank cmd) (Bankgroup cmd) (Bank cmd) (ct_clk ct + of_c_int (read_delay cfg)) cs')
      else if cmd_type cmd = ACTIVATE then
        bindE (GetActivateByWhoBank ?cs (Rank cmd) (Bankgroup cmd) (Bank cmd)) (\<lambda>by_write.
          if \<not> by_write then SetInServeBank (Rank cmd) (Bankgroup cmd) (Bank cmd) True ?cs else Inr ?cs)
      else if cmd_type cmd = PRECHARGE then
        bindE (GetPrechargeByRefreshBank ?cs (Rank cmd) (Bankgroup cmd) (Bank cmd)) (\<lambda>by_act.
          if by_act then SetInServeBank (Rank cmd) (Bankgroup cmd) (Bank cmd) True ?cs else Inr ?cs)
      else Inr ?cs)"
  have "okE (chan_frame ?cs) ?m"
    using chan_frame_trans [OF s(2) e(2)]
    by (simp add: s e(1) b GetActivateByWhoBank_def GetPrechargeByRefreshBank_def)
  then obtain cs where c: "?m = Inr cs" "chan_frame ?cs cs" by (rule okE_E)
  have "issue_serve cfg cmd ct = Inr (ct\<lparr>ct_channel := cs\<rparr>)"
    unfolding issue_serve_def Let_def c(1) by simp
  with c(2) show ?thesis by (simp only: okE_simps) blast
next
  case False
  then have "issue_serve cfg cmd ct = Inr (ct\<lparr>ct_channel := ct_channel ct\<rparr>)"
    by (simp add: issue_serve_def Let_def)
  then show ?thesis by (simp only: okE_simps) (blast intro: chan_frame_refl)
qed

definition issued :: "config \<Rightarrow> command \<Rightarrow> controller \<Rightarrow> controller \<Rightarrow> bool" where
  "issued cfg cmd ct ct' \<longleftrightarrow> ct_same ct ct' \<and> ct_queue ct' = ct_queue ct \<and>
     cmd_trace ct' = (cmd, ct_clk ct) # cmd_trace ct \<and>
     refresh_q (ct_channel ct') = popped cmd (refresh_q (ct_channel ct)) \<and>
     rank_is_sref (ct_channel ct') = sref_after cmd (rank_is_sref (ct_channel ct)) \<and>
     pending_rd_q ct' = rd_after cmd (pending_rd_q ct) \<and> pending_wr_q ct' = wr_after cmd (pending_wr_q ct) \<and>
     return_queue ct' = return_queue ct @ returned_by cfg cmd ct"

theorem IssueCommand_ok:
  assumes t: "timing_wf tim" and inv: "chan_inv cfg tim (ct_channel ct) (cmd_trace ct) (ct_clk ct)"
    and ss: "stats_ok cfg (ct_stats ct)" and i: "issuable cfg (ct_channel ct) cmd (ct_clk ct)"
    and pend: "has_pending cmd ct"
  shows "okE (\<lambda>ct'. issued cfg cmd ct ct' \<and> stats_ok cfg (ct_stats ct') \<and>
      chan_inv cfg tim (ct_channel ct') (cmd_trace ct') (ct_clk ct')) (IssueCommand cfg tim cmd ct)"
proof -
  let ?ct = "ct\<lparr>cmd_trace := (cmd, ct_clk ct) # cmd_trace ct\<rparr>"
  have "has_pending cmd ?ct" using pend by (simp add: has_pending_def)
  from issue_pending_ok [OF this, of cfg] obtain n ct1 where
    p: "issue_pending cfg cmd ?ct = Inr (n, ct1)" and
    p1: "ct_same ct ct1" "ct_channel ct1 = ct_channel ct" "ct_queue ct1 = ct_queue ct"
      "cmd_trace ct1 = (cmd, ct_clk ct) # cmd_trace ct" "stats_ok cfg (ct_stats ct1)"
      "pending_rd_q ct1 = rd_after cmd (pending_rd_q ct)" "pending_wr_q ct1 = wr_after cmd (pending_wr_q ct)"
      "return_queue ct1 = return_queue ct @ returned_by cfg cmd ct"
    using ss by (auto simp: okE_iff ct_same_def)
  from inv have shape: "chan_shape cfg (ct_channel ct1)" by (simp add: p1(2) chan_inv_def)
  from i have r: "cmd_in_range cfg cmd" by (simp add: issuable_def)
  from UpdateCommandStats_ok [OF shape r p1(5), of n] obtain ct2 where
    u: "UpdateCommandStats cmd n ct1 = Inr ct2" "only_stats ct1 ct2" "stats_ok cfg (ct_stats ct2)"
    by (auto simp: okE_iff)
  from u(2) p1 have c2: "ct_same ct ct2" "ct_clk ct2 = ct_clk ct" "ct_channel ct2 = ct_channel ct"
    "ct_queue ct2 = ct_queue ct" "cmd_trace ct2 = (cmd, ct_clk ct) # cmd_trace ct"
    "pending_rd_q ct2 = rd_after cmd (pending_rd_q ct)" "pending_wr_q ct2 = wr_after cmd (pending_wr_q ct)"
    "return_queue ct2 = return_queue ct @ returned_by cfg cmd ct"
    by (auto simp: only_stats_def ct_same_def)
  from chan_inv_exec [OF inv order_refl t i] obtain cs where
    e: "UpdateTimingAndStates cfg tim cmd (ct_clk ct) (ct_channel ct) = Inr cs"
      "chan_inv cfg tim cs ((cmd, ct_clk ct) # cmd_trace ct) (ct_clk ct)"
      "refresh_q cs = popped cmd (refresh_q (ct_channel ct))"
      "rank_is_sref cs = sref_after cmd (rank_is_sref (ct_channel ct))" by (auto simp: okE_iff)
  have "chan_shape cfg (ct_channel (ct2\<lparr>ct_channel := cs\<rparr>))" using e(2) by (simp add: chan_inv_def)
  from issue_serve_ok [OF this r] obtain cs' where
    s: "issue_serve cfg cmd (ct2\<lparr>ct_channel := cs\<rparr>) = Inr (ct2\<lparr>ct_channel := cs'\<rparr>)" "chan_frame cs cs'"
    by (auto simp: okE_iff)
  have "IssueCommand cfg tim cmd ct = Inr (ct2\<lparr>ct_channel := cs'\<rparr>)"
    by (simp add: IssueCommand_def Let_def p u(1) c2(2,3) e(1) s(1))
  moreover have "chan_inv cfg tim cs' ((cmd, ct_clk ct) # cmd_trace ct) (ct_clk ct)"
    by (rule chan_frame_inv [OF s(2) e(2)])
  moreover have "refresh_q cs' = refresh_q cs" "rank_is_sref cs' = rank_is_sref cs"
    using s(2) by (simp_all add: chan_frame_def)
  ultimately show ?thesis
    using c2 u(3) e(3,4) by (simp add: issued_def ct_same_def)
qed

section \<open>The account of transactions\<close>

text \<open>The transactions waiting in the buffers, and the addresses of the reads and of the writes
  that wait there or, as commands, in the command queues.\<close>

definition waiting :: "controller \<Rightarrow> transaction list" where
  "waiting ct = tv_items (uni_queue ct) @ tv_items (read_queue ct) @ tv_items (write_buffer ct)"

definition due :: "(transaction \<Rightarrow> bool) \<Rightarrow> (command \<Rightarrow> bool) \<Rightarrow> transaction list \<Rightarrow> command multiset \<Rightarrow> u64 multiset" where
  "due P Q ts cmds = image_mset t_addr (filter_mset P (mset ts)) + image_mset hex_addr (filter_mset Q cmds)"

definition reads_due :: "controller \<Rightarrow> u64 multiset" where
  "reads_due ct = due (\<lambda>t. \<not> is_write t) IsRead (waiting ct) (mset (queued (ct_queue ct)))"

definition writes_due :: "controller \<Rightarrow> u64 multiset" where
  "writes_due ct = due is_write IsWrite (waiting ct) (mset (queued (ct_queue ct)))"

text \<open>Every pending read address waits exactly once, and so does every pending write address; a
  command that has left its queue and is about to be issued is the argument \<open>cmd\<close>.\<close>

definition acct :: "command \<Rightarrow> controller \<Rightarrow> bool" where
  "acct cmd ct \<longleftrightarrow>
     reads_due ct + (if IsRead cmd then {#hex_addr cmd#} else {#}) = mset_set (keys (pending_rd_q ct)) \<and>
     writes_due ct + (if IsWrite cmd then {#hex_addr cmd#} else {#}) = mset_set (keys (pending_wr_q ct)) \<and>
     distinct (map fst (pending_wr_q ct)) \<and>
     (\<forall>(a, t) \<in> set (pending_rd_q ct). t_addr t = a \<and> \<not> is_write t) \<and>
     (\<forall>(a, t) \<in> set (pending_wr_q ct). t_addr t = a \<and> is_write t)"

text \<open>With separate queues, no write is in the command queues while a read of its address is
  pending.\<close>

definition excl :: "command \<Rightarrow> controller \<Rightarrow> bool" where
  "excl cmd ct \<longleftrightarrow> (\<not> is_unified_queue ct \<longrightarrow>
     (\<forall>c \<in> set (queued (ct_queue ct)) \<union> {cmd}. IsWrite c \<longrightarrow> hex_addr c \<notin> keys (pending_rd_q ct)))"

text \<open>The buffers in use, and the count of the writes left to drain.\<close>

definition mode_inv :: "config \<Rightarrow> controller \<Rightarrow> bool" where
  "mode_inv cfg ct \<longleftrightarrow> is_unified_queue ct = unified_queue cfg \<and>
     (if is_unified_queue ct then tv_items (read_queue ct) = [] \<and> tv_items (write_buffer ct) = []
      else tv_items (uni_queue ct) = [] \<and> (\<forall>t \<in> set (tv_items (read_queue ct)). \<not> is_write t) \<and>
        (\<forall>t \<in> set (tv_items (write_buffer ct)). is_write t)) \<and>
     0 \<le> write_draining ct \<and> write_draining ct \<le> int (length (tv_items (write_buffer ct)))"

definition trans_inv :: "config \<Rightarrow> command \<Rightarrow> controller \<Rightarrow> bool" where
  "trans_inv cfg cmd ct \<longleftrightarrow> acct cmd ct \<and> excl cmd ct \<and> mode_inv cfg ct"

lemma acct_has_pending:
  assumes "acct cmd ct"
  shows "has_pending cmd ct"
proof -
  have last: "x \<in># M" if "N + {#x#} = M" for x :: u64 and M N using that by auto
  have "hex_addr cmd \<in># mset_set (keys (pending_rd_q ct))" if "IsRead cmd"
    using assms that by (intro last [of "reads_due ct"]) (simp add: acct_def)
  moreover have "hex_addr cmd \<in># mset_set (keys (pending_wr_q ct))" if "IsWrite cmd"
    using assms that by (intro last [of "writes_due ct"]) (simp add: acct_def)
  ultimately show ?thesis by (simp add: has_pending_def)
qed

text \<open>Only these fields matter.\<close>

lemma trans_inv_cong:
  assumes "uni_queue ct' = uni_queue ct" "read_queue ct' = read_queue ct" "write_buffer ct' = write_buffer ct"
    "pending_rd_q ct' = pending_rd_q ct" "pending_wr_q ct' = pending_wr_q ct"
    "mset (queued (ct_queue ct')) = mset (queued (ct_queue ct))"
    "is_unified_queue ct' = is_unified_queue ct" "write_draining ct' = write_draining ct"
  shows "trans_inv cfg cmd ct' = trans_inv cfg cmd ct"
proof -
  have "set (queued (ct_queue ct')) = set (queued (ct_queue ct))" by (rule mset_eq_setD [OF assms(6)])
  then have "excl cmd ct' = excl cmd ct" by (simp only: excl_def assms)
  moreover have "reads_due ct' = reads_due ct" "writes_due ct' = writes_due ct"
    by (simp_all only: reads_due_def writes_due_def waiting_def assms)
  then have "acct cmd ct' = acct cmd ct" by (simp only: acct_def assms)
  moreover have "mode_inv cfg ct' = mode_inv cfg ct" by (simp only: mode_inv_def assms)
  ultimately show ?thesis by (simp only: trans_inv_def)
qed

lemma due_taken:
  assumes "c \<in># cmds"
  shows "due P Q ts (cmds - {#c#}) + (if Q c then {#hex_addr c#} else {#}) = due P Q ts cmds"
proof -
  from multi_member_split [OF assms] obtain M where M: "cmds = add_mset c M" by blast
  show ?thesis by (simp add: M due_def)
qed

text \<open>Taking a command from its queue.\<close>

lemma Command_default_kind [simp]: "\<not> IsRead Command_default" "\<not> IsWrite Command_default"
  by (simp_all add: Command_default_def cmd_kind_defs)

lemma trans_inv_take:
  assumes inv: "trans_inv cfg Command_default ct" and res: "issue_result cfg (ct_queue ct) cmd cq"
  shows "trans_inv cfg cmd (ct\<lparr>ct_queue := cq, ct_channel := cs, ct_stats := ss\<rparr>)"
proof (cases "IsReadWrite cmd")
  case True
  with res have m: "cmd \<in># mset (queued (ct_queue ct))"
    "mset (queued cq) = mset (queued (ct_queue ct)) - {#cmd#}" by (simp_all add: issue_result_def)
  have "set (queued cq) \<subseteq> set (queued (ct_queue ct))"
    by (rule set_mset_mono [of "mset (queued cq)" "mset (queued (ct_queue ct))", simplified]) (simp add: m(2))
  with inv m show ?thesis
    by (auto simp: trans_inv_def acct_def excl_def mode_inv_def reads_due_def writes_due_def
        waiting_def due_taken)
next
  case False
  then have k: "\<not> IsRead cmd" "\<not> IsWrite cmd" by (auto simp: IsReadWrite_def)
  from False res have m: "mset (queued cq) = mset (queued (ct_queue ct))" by (simp add: issue_result_def)
  have "trans_inv cfg Command_default (ct\<lparr>ct_queue := cq, ct_channel := cs, ct_stats := ss\<rparr>)"
    using inv m trans_inv_cong [of "ct\<lparr>ct_queue := cq, ct_channel := cs, ct_stats := ss\<rparr>" ct cfg Command_default]
    by simp
  with k show ?thesis by (auto simp: trans_inv_def acct_def excl_def)
qed

text \<open>Issuing it.\<close>

lemma mset_set_minus:
  assumes "finite A" and "M + {#x#} = mset_set A"
  shows "M = mset_set (A - {x})"
proof -
  have "x \<in># mset_set A" unfolding assms(2) [symmetric] by simp
  with assms(1) have "x \<in> A" by simp
  with assms mset_set.remove [of A x] show ?thesis by simp
qed

lemma keys_rd_after: "keys (rd_after cmd p) = (if IsRead cmd then keys p - {hex_addr cmd} else keys p)"
  by (simp add: rd_after_def keys_filter)

lemma wr_after_distinct:
  "distinct (map fst p) \<Longrightarrow> wr_after cmd p = (if IsWrite cmd then filter (\<lambda>e. fst e \<noteq> hex_addr cmd) p else p)"
  by (simp add: wr_after_def mm_erase_distinct)

lemma distinct_map_filter_fst: "distinct (map fst p) \<Longrightarrow> distinct (map fst (filter P p))"
  by (rule distinct_map_filter)

lemma trans_inv_issued:
  assumes inv: "trans_inv cfg cmd ct" and i: "issued cfg cmd ct ct'"
  shows "trans_inv cfg Command_default ct'"
proof -
  from i have same: "uni_queue ct' = uni_queue ct" "read_queue ct' = read_queue ct"
    "write_buffer ct' = write_buffer ct" "is_unified_queue ct' = is_unified_queue ct"
    "write_draining ct' = write_draining ct" "ct_queue ct' = ct_queue ct"
    "pending_rd_q ct' = rd_after cmd (pending_rd_q ct)" "pending_wr_q ct' = wr_after cmd (pending_wr_q ct)"
    by (simp_all add: issued_def ct_same_def)
  from inv have a: "acct cmd ct" and e: "excl cmd ct" and m: "mode_inv cfg ct" by (simp_all add: trans_inv_def)
  from a have d: "distinct (map fst (pending_wr_q ct))" by (simp add: acct_def)
  note wr = wr_after_distinct [OF d, of cmd]
  have due: "reads_due ct' = reads_due ct" "writes_due ct' = writes_due ct"
    by (simp_all add: reads_due_def writes_due_def waiting_def same)
  have "reads_due ct = mset_set (keys (rd_after cmd (pending_rd_q ct)))"
    using a mset_set_minus [OF finite_keys] by (auto simp: acct_def keys_rd_after)
  moreover have "writes_due ct = mset_set (keys (wr_after cmd (pending_wr_q ct)))"
    using a mset_set_minus [OF finite_keys] by (auto simp: acct_def wr keys_filter)
  moreover have "distinct (map fst (wr_after cmd (pending_wr_q ct)))"
    using d by (simp add: wr distinct_map_filter_fst)
  ultimately have "acct Command_default ct'"
    using a by (auto simp: acct_def due same rd_after_def wr)
  moreover have "excl Command_default ct'"
    using e by (auto simp: excl_def same keys_rd_after)
  moreover have "mode_inv cfg ct'" using m by (simp add: mode_inv_def same)
  ultimately show ?thesis by (simp add: trans_inv_def)
qed

section \<open>The invariant of the controller\<close>

definition awake :: "channel_state \<Rightarrow> bool" where
  "awake cs \<longleftrightarrow> (\<forall>sref \<in> set (rank_is_sref cs). \<not> sref)"

text \<open>While a refresh is being finished it is the first in the queue of refreshes, and its command
  queues are held back.\<close>

definition ref_sync :: "config \<Rightarrow> cmd_queue \<Rightarrow> channel_state \<Rightarrow> bool" where
  "ref_sync cfg cq cs \<longleftrightarrow> (is_in_ref cq \<longrightarrow> refresh_q cs \<noteq> [] \<and> holds_back cfg cq (hd (refresh_q cs)))"

text \<open>The address of an activation, a read or a write is decoded from the address of a transaction.\<close>

definition from_map :: "config \<Rightarrow> command \<Rightarrow> bool" where
  "from_map cfg cmd \<longleftrightarrow> (cmd_type cmd \<in> {READ, READ_PRECHARGE, WRITE, WRITE_PRECHARGE, ACTIVATE} \<longrightarrow>
     addr cmd = AddressMapping cfg (hex_addr cmd))"

definition trace_mapped :: "config \<Rightarrow> trace \<Rightarrow> bool" where
  "trace_mapped cfg H \<longleftrightarrow> (\<forall>(cmd, t) \<in> set H. from_map cfg cmd)"

lemma trace_mapped_simps [simp]:
  "trace_mapped cfg []" "trace_mapped cfg ((cmd, t) # H) \<longleftrightarrow> from_map cfg cmd \<and> trace_mapped cfg H"
  by (simp_all add: trace_mapped_def)

lemma from_map_other: "cmd_type cmd \<notin> {READ, READ_PRECHARGE, WRITE, WRITE_PRECHARGE, ACTIVATE} \<Longrightarrow> from_map cfg cmd"
  by (simp add: from_map_def)

definition ctl_inv :: "config \<Rightarrow> timing \<Rightarrow> controller \<Rightarrow> bool" where
  "ctl_inv cfg tim ct \<longleftrightarrow> chan_inv cfg tim (ct_channel ct) (cmd_trace ct) (ct_clk ct) \<and>
     awake (ct_channel ct) \<and> stats_ok cfg (ct_stats ct) \<and> cq_inv cfg (ct_queue ct) \<and>
     cq_clk (ct_queue ct) = ct_clk ct \<and> refresh_inv cfg (ct_refresh ct) \<and>
     ref_sync cfg (ct_queue ct) (ct_channel ct) \<and> trace_mapped cfg (cmd_trace ct)"

definition ct_inv :: "config \<Rightarrow> timing \<Rightarrow> command \<Rightarrow> controller \<Rightarrow> bool" where
  "ct_inv cfg tim cmd ct \<longleftrightarrow> ctl_inv cfg tim ct \<and> trans_inv cfg cmd ct"

text \<open>The configurations: the address mapping stays in range, the refresh intervals are
  positive, the capacities are not negative and there is no self refresh.\<close>

definition addr_ok :: "config \<Rightarrow> bool" where
  "addr_ok cfg \<longleftrightarrow> (\<forall>a. in_range cfg (a_rank (AddressMapping cfg a),
     a_bankgroup (AddressMapping cfg a), a_bank (AddressMapping cfg a)))"

definition cfg_ok :: "config \<Rightarrow> timing \<Rightarrow> bool" where
  "cfg_ok cfg tim \<longleftrightarrow> cfg_wf cfg \<and> timing_wf tim \<and> sref_rank_only tim \<and> refresh_cfg_ok cfg \<and> addr_ok cfg \<and>
     (queue_structure cfg = ''PER_BANK'' \<or> queue_structure cfg = ''PER_RANK'') \<and>
     0 \<le> trans_queue_size cfg \<and> 0 \<le> cmd_queue_size cfg \<and> \<not> enable_self_refresh cfg"

lemma awake_rank: "awake cs \<Longrightarrow> chan_shape cfg cs \<Longrightarrow> 0 \<le> r \<Longrightarrow> r < ranks cfg \<Longrightarrow> \<not> rank_is_sref cs ! nat r"
  using nth_mem [of "nat r" "rank_is_sref cs"] unfolding awake_def chan_shape_def by force

lemma ctl_inv_shape: "ctl_inv cfg tim ct \<Longrightarrow> chan_shape cfg (ct_channel ct)"
  by (simp add: ctl_inv_def chan_inv_def)

lemma ref_sync_frame: "chan_frame cs cs' \<Longrightarrow> ref_sync cfg cq cs \<Longrightarrow> ref_sync cfg cq cs'"
  by (simp add: ref_sync_def chan_frame_def)

lemma awake_frame: "chan_frame cs cs' \<Longrightarrow> awake cs \<Longrightarrow> awake cs'"
  by (simp add: awake_def chan_frame_def)

lemma holds_back_cong:
  "q_structure cq' = q_structure cq \<Longrightarrow> is_in_ref cq' = is_in_ref cq \<Longrightarrow>
   ref_q_indices cq' = ref_q_indices cq \<Longrightarrow> holds_back cfg cq' ref = holds_back cfg cq ref"
  by (simp add: holds_back_def GetQueueIndex_def)

text \<open>Steps that change nothing but flags, idle counters and statistics.\<close>

definition ct_quiet :: "config \<Rightarrow> controller \<Rightarrow> controller \<Rightarrow> bool" where
  "ct_quiet cfg ct ct' \<longleftrightarrow> ct_same ct ct' \<and> ct_queue ct' = ct_queue ct \<and> cmd_trace ct' = cmd_trace ct \<and>
     pending_rd_q ct' = pending_rd_q ct \<and> pending_wr_q ct' = pending_wr_q ct \<and>
     return_queue ct' = return_queue ct \<and> chan_frame (ct_channel ct) (ct_channel ct') \<and>
     stats_ok cfg (ct_stats ct')"

lemma ct_quiet_trans: "ct_quiet cfg a b \<Longrightarrow> ct_quiet cfg b c \<Longrightarrow> ct_quiet cfg a c"
  by (auto simp: ct_quiet_def intro: chan_frame_trans ct_same_trans)

lemma ct_quiet_ctl: "ct_quiet cfg ct ct' \<Longrightarrow> ctl_inv cfg tim ct \<Longrightarrow> ctl_inv cfg tim ct'"
  by (auto simp: ct_quiet_def ctl_inv_def ct_same_def
      intro: chan_frame_inv ref_sync_frame awake_frame)

lemma ct_quiet_trans_inv: "ct_quiet cfg ct ct' \<Longrightarrow> trans_inv cfg cmd ct' = trans_inv cfg cmd ct"
  by (rule trans_inv_cong) (simp_all add: ct_quiet_def ct_same_def)

lemma ct_quiet_inv: "ct_quiet cfg ct ct' \<Longrightarrow> ct_inv cfg tim cmd ct \<Longrightarrow> ct_inv cfg tim cmd ct'"
  by (simp add: ct_inv_def ct_quiet_ctl ct_quiet_trans_inv)

lemma all_idle_loop_ok:
  "chan_shape cfg cs \<Longrightarrow> 0 \<le> r \<Longrightarrow> r < ranks cfg \<Longrightarrow> set jks \<subseteq> set (bank_coords cfg) \<Longrightarrow>
   okE (\<lambda>_. True) (all_idle_loop cs r jks)"
proof (induction jks)
  case (Cons p jks)
  obtain j k where p: "p = (j, k)" by (cases p)
  with Cons.prems have "in_range cfg (r, j, k)" by auto
  from bank_at_ok [OF Cons.prems(1) this] obtain b where "bank_at cs r j k = Inr b" by (auto simp: okE_iff)
  with Cons show ?case by (simp add: p ch_IsRowOpen_def)
qed simp

lemma set_idle_frame:
  "length ns = length (rank_idle_cycles cs) \<Longrightarrow> chan_frame cs (cs\<lparr>rank_idle_cycles := ns\<rparr>)"
  by (simp add: chan_frame_def)

lemma rank_cycle_stats_ok:
  assumes inv: "ctl_inv cfg tim ct" and i: "0 \<le> i" "i < ranks cfg"
  shows "okE (ct_quiet cfg ct) (rank_cycle_stats cfg i ct)"
proof -
  note shape = ctl_inv_shape [OF inv]
  from inv have ss: "stats_ok cfg (ct_stats ct)" by (simp add: ctl_inv_def)
  have sref: "IsRankSelfRefreshing (ct_channel ct) i = Inr (rank_is_sref (ct_channel ct) ! nat i)"
    by (rule IsRankSelfRefreshing_ok [OF shape i])
  from all_idle_loop_ok [OF shape i, of "bank_coords cfg"] obtain idle where
    idle: "IsAllBankIdleInRank cfg (ct_channel ct) i = Inr idle"
    by (auto simp: okE_iff IsAllBankIdleInRank_def)
  have len: "length (rank_idle_cycles (ct_channel ct)) = nat (ranks cfg)" using shape by (simp add: chan_shape_def)
  have inc: "\<exists>ss'. IncrementVec name i (ct_stats ct) = Inr ss' \<and> stats_ok cfg ss'" if "name \<in> rank_stats" for name
    using IncrementVec_ok [OF ss that i] by (auto simp: okE_iff)
  from inc [of "''sref_cycles''"] inc [of "''all_bank_idle_cycles''"] inc [of "''rank_active_cycles''"]
  obtain s1 s2 s3 where s: "IncrementVec ''sref_cycles'' i (ct_stats ct) = Inr s1" "stats_ok cfg s1"
    "IncrementVec ''all_bank_idle_cycles'' i (ct_stats ct) = Inr s2" "stats_ok cfg s2"
    "IncrementVec ''rank_active_cycles'' i (ct_stats ct) = Inr s3" "stats_ok cfg s3"
    by (auto simp: rank_stats_def)
  show ?thesis
    using i s len by (simp add: rank_cycle_stats_def Let_def sref idle vget_def vset_def ct_quiet_def
        ct_same_def set_idle_frame)
qed

lemma serve_bank_stats_ok:
  assumes shape: "chan_shape cfg cs" and r: "in_range cfg (i, j, k)"
  shows "okE (chan_frame cs) (serve_bank_stats cfg clk i (j, k) cs)"
proof -
  from bank_at_ok [OF shape r] obtain b where b: "bank_at cs i j k = Inr b" by (auto simp: okE_iff)
  from SetInServeBank_ok [OF shape r, of False] obtain cs1 where
    s: "SetInServeBank i j k False cs = Inr cs1" "chan_frame cs cs1" by (auto simp: okE_iff)
  have close: "okE (chan_frame cs) (bindE (ch_IsRowClosed cs' i j k) (\<lambda>closed.
      if closed then SetInServeBank i j k False cs' else Inr cs'))" if f: "chan_frame cs cs'" for cs'
  proof -
    note shape' = chan_frame_shape [OF f shape]
    from bank_at_ok [OF shape' r] obtain b' where b': "bank_at cs' i j k = Inr b'" by (auto simp: okE_iff)
    from SetInServeBank_ok [OF shape' r, of False] obtain cs2 where
      "SetInServeBank i j k False cs' = Inr cs2" "chan_frame cs' cs2" by (auto simp: okE_iff)
    with chan_frame_trans [OF f] f b' show ?thesis by (auto simp: ch_IsRowClosed_def)
  qed
  show ?thesis
    using close [OF s(2)] close [OF chan_frame_refl] s(1)
    by (simp add: serve_bank_stats_def GetServeEndCycleBank_def b)
qed

lemma InServeBankNum_ok:
  assumes shape: "chan_shape cfg cs" and r: "0 \<le> i" "i < ranks cfg"
  shows "okE (\<lambda>_. True) (InServeBankNum cfg cs i)"
proof -
  have "okE (\<lambda>_. True) (bindE (bank_at cs i j k) (\<lambda>x. Inr (if ReturnInServe x then n + 1 else n)))"
    if "(j, k) \<in> set (bank_coords cfg)" for j k n
    using bank_at_ok [OF shape, of i j k] that r by (auto elim!: okE_mono)
  then show ?thesis unfolding InServeBankNum_def by (intro okE_foldE) auto
qed

lemma Calculate_stats_ok:
  assumes inv: "ctl_inv cfg tim ct"
  shows "okE (ct_quiet cfg ct) (Calculate_stats cfg ct)"
proof -
  note shape = ctl_inv_shape [OF inv]
  from inv have ss: "stats_ok cfg (ct_stats ct)" by (simp add: ctl_inv_def)
  have step: "okE (ct_quiet cfg ct)
      (bindE (foldE (serve_bank_stats cfg (ct_clk c) i) (bank_coords cfg) (ct_channel c)) (\<lambda>cs.
       bindE (InServeBankNum cfg cs i) (\<lambda>n.
       Inr (if n > 0
            then c\<lparr>ct_channel := cs, is_active_cycles := True,
                    concurrent_serve := concurrent_serve c + of_c_int n\<rparr>
            else c\<lparr>ct_channel := cs\<rparr>))))"
    if i: "i \<in> set (indices (ranks cfg))" and q: "ct_quiet cfg ct c" for i c
  proof -
    from q have f: "chan_frame (ct_channel ct) (ct_channel c)" by (simp add: ct_quiet_def)
    have "okE (chan_frame (ct_channel ct)) (foldE (serve_bank_stats cfg (ct_clk c) i) (bank_coords cfg) (ct_channel c))"
    proof (rule okE_foldE [of "chan_frame (ct_channel ct)", OF f])
      fix jk cs assume jk: "jk \<in> set (bank_coords cfg)" and f': "chan_frame (ct_channel ct) cs"
      obtain j k where p: "jk = (j, k)" by (cases jk)
      with jk i have "in_range cfg (i, j, k)" by auto
      from serve_bank_stats_ok [OF chan_frame_shape [OF f' shape] this, of "ct_clk c"]
      show "okE (chan_frame (ct_channel ct)) (serve_bank_stats cfg (ct_clk c) i jk cs)"
        unfolding p by (rule okE_mono) (rule chan_frame_trans [OF f'])
    qed
    then obtain cs where cs: "foldE (serve_bank_stats cfg (ct_clk c) i) (bank_coords cfg) (ct_channel c) = Inr cs"
      "chan_frame (ct_channel ct) cs" by (rule okE_E)
    from InServeBankNum_ok [OF chan_frame_shape [OF cs(2) shape], of i] i obtain n where
      "InServeBankNum cfg cs i = Inr n" by (auto simp: okE_iff)
    with cs q show ?thesis by (simp add: ct_quiet_def ct_same_def)
  qed
  have "ct_quiet cfg ct (ct\<lparr>is_active_cycles := False, concurrent_serve := 0\<rparr>)"
    using ss by (simp add: ct_quiet_def ct_same_def)
  with step show ?thesis unfolding Calculate_stats_def by (intro okE_foldE) blast+
qed

lemma rank_cycles_ok:
  assumes inv: "ctl_inv cfg tim ct"
  shows "okE (ct_quiet cfg ct) (foldE (rank_cycle_stats cfg) (indices (ranks cfg)) ct)"
proof (rule okE_foldE)
  show "ct_quiet cfg ct ct" using inv by (simp add: ct_quiet_def ctl_inv_def)
next
  fix i c assume "i \<in> set (indices (ranks cfg))" and q: "ct_quiet cfg ct c"
  then have i: "0 \<le> i" "i < ranks cfg" by simp_all
  from rank_cycle_stats_ok [OF ct_quiet_ctl [OF q inv] i]
  show "okE (ct_quiet cfg ct) (rank_cycle_stats cfg i c)"
    by (rule okE_mono) (rule ct_quiet_trans [OF q])
qed

section \<open>Issuing commands\<close>

lemma sref_after_other: "cmd_type cmd \<noteq> SREF_ENTER \<Longrightarrow> cmd_type cmd \<noteq> SREF_EXIT \<Longrightarrow> sref_after cmd s = s"
  by (simp add: sref_after_def)

lemma popped_other: "\<not> IsRefresh cmd \<Longrightarrow> popped cmd q = q"
  by (simp add: popped_def IsRefresh_def)

lemma issue_step:
  assumes ok: "cfg_ok cfg tim" and inv: "ct_inv cfg tim cmd ct"
    and i: "issuable cfg (ct_channel ct) cmd (ct_clk ct)"
    and sref: "cmd_type cmd \<noteq> SREF_ENTER" "cmd_type cmd \<noteq> SREF_EXIT"
    and ref: "IsRefresh cmd \<longrightarrow> \<not> is_in_ref (ct_queue ct)" and fm: "from_map cfg cmd"
  shows "okE (\<lambda>ct'. issued cfg cmd ct ct' \<and> ct_inv cfg tim Command_default ct') (IssueCommand cfg tim cmd ct)"
proof -
  from inv have c: "ctl_inv cfg tim ct" and tr: "trans_inv cfg cmd ct" by (simp_all add: ct_inv_def)
  from ok have t: "timing_wf tim" by (simp add: cfg_ok_def)
  from c have ch: "chan_inv cfg tim (ct_channel ct) (cmd_trace ct) (ct_clk ct)"
    and ss: "stats_ok cfg (ct_stats ct)" by (simp_all add: ctl_inv_def)
  from tr have "has_pending cmd ct" by (simp add: trans_inv_def acct_has_pending)
  from IssueCommand_ok [OF t ch ss i this] obtain ct' where
    run: "IssueCommand cfg tim cmd ct = Inr ct'" and isd: "issued cfg cmd ct ct'"
    and ss': "stats_ok cfg (ct_stats ct')"
    and ch': "chan_inv cfg tim (ct_channel ct') (cmd_trace ct') (ct_clk ct')" by (auto simp: okE_iff)
  from isd have same: "ct_queue ct' = ct_queue ct" "ct_clk ct' = ct_clk ct" "ct_refresh ct' = ct_refresh ct"
    "rank_is_sref (ct_channel ct') = rank_is_sref (ct_channel ct)"
    by (simp_all add: issued_def ct_same_def sref_after_other sref)
  have "ref_sync cfg (ct_queue ct') (ct_channel ct')"
  proof (cases "IsRefresh cmd")
    case True
    with ref show ?thesis by (simp add: ref_sync_def same)
  next
    case False
    with isd have "refresh_q (ct_channel ct') = refresh_q (ct_channel ct)" by (simp add: issued_def popped_other)
    with c show ?thesis by (simp add: ref_sync_def same ctl_inv_def)
  qed
  moreover have "awake (ct_channel ct')" using c unfolding ctl_inv_def awake_def same by blast
  moreover have "trace_mapped cfg (cmd_trace ct')" using c isd fm by (simp add: ctl_inv_def issued_def)
  ultimately have "ctl_inv cfg tim ct'" using c ss' ch' by (simp add: ctl_inv_def same)
  with trans_inv_issued [OF tr isd] run isd show ?thesis by (simp add: ct_inv_def)
qed

lemma ready_from_kind:
  assumes "ready_from cfg clk q cs cmd" and "awake cs" and "chan_shape cfg cs"
  shows "issuable cfg cs cmd clk" "cmd_type cmd \<noteq> SREF_ENTER" "cmd_type cmd \<noteq> SREF_EXIT" "\<not> IsRefresh cmd"
proof -
  from assms(1) have r: "issuable cfg cs cmd clk" "cmd_type cmd \<notin> {REFRESH, REFRESH_BANK, SREF_ENTER}"
    "cmd_type cmd = SREF_EXIT \<longrightarrow> rank_is_sref cs ! nat (Rank cmd)" by (simp_all add: ready_from_def)
  from r(1) have "cmd_in_range cfg cmd" by (simp add: issuable_def)
  from cmd_rank_range [OF this] awake_rank [OF assms(2,3)] r
  show "issuable cfg cs cmd clk" "cmd_type cmd \<noteq> SREF_ENTER" "cmd_type cmd \<noteq> SREF_EXIT" "\<not> IsRefresh cmd"
    by (auto simp: IsRefresh_def)
qed

lemma ready_from_mapped:
  assumes "ready_from cfg clk q cs cmd" and "queue_ok cfg cq i q"
  shows "from_map cfg cmd"
proof -
  from assms(1) obtain c where c: "c \<in> set q" "addr cmd = addr c" "hex_addr cmd = hex_addr c" by (rule ready_fromD)
  from c(1) assms(2) have "addr c = AddressMapping cfg (hex_addr c)" by (auto simp: queue_ok_def queued_cmd_ok_def)
  with c(2,3) show ?thesis by (simp add: from_map_def)
qed

lemma take_step:
  assumes ok: "cfg_ok cfg tim" and inv: "ct_inv cfg tim Command_default ct"
  shows "okE (\<lambda>(cmd, cq, cs, ss). ct_inv cfg tim cmd (ct\<lparr>ct_queue := cq, ct_channel := cs, ct_stats := ss\<rparr>) \<and>
      chan_frame (ct_channel ct) cs \<and> issue_result cfg (ct_queue ct) cmd cq \<and>
      (IsValid cmd \<longrightarrow> issue_ready cfg (ct_queue ct) cs cmd \<and> issuable cfg cs cmd (ct_clk ct) \<and>
         cmd_type cmd \<noteq> SREF_ENTER \<and> cmd_type cmd \<noteq> SREF_EXIT \<and> \<not> IsRefresh cmd \<and> from_map cfg cmd))
    (GetCommandToIssue cfg (ct_queue ct) (ct_channel ct) (ct_stats ct))"
proof -
  from inv have c: "ctl_inv cfg tim ct" and tr: "trans_inv cfg Command_default ct" by (simp_all add: ct_inv_def)
  from ok have wf: "cfg_wf cfg" "sref_rank_only tim" by (simp_all add: cfg_ok_def)
  from c have pre: "chan_inv cfg tim (ct_channel ct) (cmd_trace ct) (ct_clk ct)"
    "stats_ok cfg (ct_stats ct)" "cq_inv cfg (ct_queue ct)" by (simp_all add: ctl_inv_def)
  from GetCommandToIssue_ok [OF wf pre] obtain cmd cq cs ss where
    run: "GetCommandToIssue cfg (ct_queue ct) (ct_channel ct) (ct_stats ct) = Inr (cmd, cq, cs, ss)"
    and f: "chan_frame (ct_channel ct) cs" and ss: "stats_ok cfg ss"
    and res: "issue_result cfg (ct_queue ct) cmd cq"
    and rdy: "IsValid cmd \<longrightarrow> issue_ready cfg (ct_queue ct) cs cmd" by (auto simp: okE_iff)
  from res have q: "cq_inv cfg cq" "cq_clk cq = cq_clk (ct_queue ct)"
    "q_structure cq = q_structure (ct_queue ct)" "is_in_ref cq = is_in_ref (ct_queue ct)"
    "ref_q_indices cq = ref_q_indices (ct_queue ct)" by (simp_all add: issue_result_def cq_same_def)
  have aw: "awake cs" using c f by (simp add: ctl_inv_def awake_frame)
  have "ref_sync cfg cq cs"
    using c ref_sync_frame [OF f, of cfg "ct_queue ct"] holds_back_cong [OF q(3-5)] q(4)
    by (simp add: ref_sync_def ctl_inv_def)
  then have "ctl_inv cfg tim (ct\<lparr>ct_queue := cq, ct_channel := cs, ct_stats := ss\<rparr>)"
    using c q ss aw chan_frame_inv [OF f pre(1)] by (simp add: ctl_inv_def)
  with trans_inv_take [OF tr res]
  have "ct_inv cfg tim cmd (ct\<lparr>ct_queue := cq, ct_channel := cs, ct_stats := ss\<rparr>)" by (simp add: ct_inv_def)
  moreover have "issuable cfg cs cmd (ct_clk ct) \<and> cmd_type cmd \<noteq> SREF_ENTER \<and>
      cmd_type cmd \<noteq> SREF_EXIT \<and> \<not> IsRefresh cmd \<and> from_map cfg cmd" if "IsValid cmd"
  proof -
    from rdy that obtain j where j: "0 \<le> j" "j < num_queues (ct_queue ct)"
      and "ready_from cfg (cq_clk (ct_queue ct)) (queues (ct_queue ct) ! nat j) cs cmd"
      by (auto simp: issue_ready_def)
    moreover have "cq_clk (ct_queue ct) = ct_clk ct" using c by (simp add: ctl_inv_def)
    ultimately have r: "ready_from cfg (ct_clk ct) (queues (ct_queue ct) ! nat j) cs cmd" by simp
    have "queue_ok cfg (ct_queue ct) j (queues (ct_queue ct) ! nat j)" using pre(3) j by (simp add: cq_inv_def)
    from ready_from_mapped [OF r this] ready_from_kind [OF r aw chan_frame_shape [OF f ctl_inv_shape [OF c]]]
    show ?thesis by blast
  qed
  ultimately show ?thesis using run f res rdy by simp
qed

lemma finish_step:
  assumes ok: "cfg_ok cfg tim" and inv: "ct_inv cfg tim Command_default ct"
    and w: "IsRefreshWaiting (ct_channel ct)"
  shows "okE (\<lambda>(cmd, cq, cs). ct_inv cfg tim Command_default (ct\<lparr>ct_queue := cq, ct_channel := cs\<rparr>) \<and>
      chan_frame (ct_channel ct) cs \<and> cq_ref_same (ct_queue ct) cq \<and> \<not> IsReadWrite cmd \<and>
      (IsValid cmd \<longrightarrow> issuable cfg cs cmd (ct_clk ct) \<and> refresh_cmd cfg (hd (refresh_q (ct_channel ct))) cmd \<and>
         cmd_type cmd \<noteq> SREF_ENTER \<and> cmd_type cmd \<noteq> SREF_EXIT \<and> from_map cfg cmd \<and>
         (IsRefresh cmd \<longrightarrow> \<not> is_in_ref cq)))
    (FinishRefresh cfg (ct_queue ct) (ct_channel ct))"
proof -
  let ?ref = "hd (refresh_q (ct_channel ct))"
  from inv have c: "ctl_inv cfg tim ct" and tr: "trans_inv cfg Command_default ct" by (simp_all add: ct_inv_def)
  from ok have wf: "cfg_wf cfg" "sref_rank_only tim" by (simp_all add: cfg_ok_def)
  from c have ch: "chan_inv cfg tim (ct_channel ct) (cmd_trace ct) (ct_clk ct)"
    and q: "cq_inv cfg (ct_queue ct)" and sync: "ref_sync cfg (ct_queue ct) (ct_channel ct)"
    and clk: "cq_clk (ct_queue ct) = ct_clk ct" and aw: "awake (ct_channel ct)" by (simp_all add: ctl_inv_def)
  from w have ne: "refresh_q (ct_channel ct) \<noteq> []" by (simp add: IsRefreshWaiting_def)
  then have mem: "?ref \<in> set (refresh_q (ct_channel ct))" by simp
  with ch have ref: "IsRefresh ?ref" "cmd_in_range cfg ?ref" unfolding chan_inv_def refreshes_ok_def by blast+
  have awr: "\<not> rank_is_sref (ct_channel ct) ! nat (Rank ?ref)"
    using awake_rank [OF aw ctl_inv_shape [OF c]] cmd_rank_range [OF ref(2)] by blast
  have hold: "holds_back cfg (ct_queue ct) ?ref"
    using sync by (cases "is_in_ref (ct_queue ct)") (simp_all add: ref_sync_def holds_back_def)
  from FinishRefresh_ok [OF wf ch q ne awr hold] obtain cmd cq cs where
    run: "FinishRefresh cfg (ct_queue ct) (ct_channel ct) = Inr (cmd, cq, cs)"
    and f: "chan_frame (ct_channel ct) cs" and same: "cq_ref_same (ct_queue ct) cq"
    and hb: "holds_back cfg cq ?ref" and isr: "IsRefresh cmd \<longleftrightarrow> \<not> is_in_ref cq"
    and rdy: "IsValid cmd \<longrightarrow> issuable cfg cs cmd (cq_clk (ct_queue ct)) \<and> refresh_cmd cfg ?ref cmd"
    by (auto simp: okE_iff)
  from same have qs: "cq_clk cq = cq_clk (ct_queue ct)" "queued cq = queued (ct_queue ct)"
    by (auto simp: cq_ref_same_def queued_def)
  have rq: "refresh_q cs = refresh_q (ct_channel ct)" using f by (simp add: chan_frame_def)
  have "ref_sync cfg cq cs" using hb ne by (simp add: ref_sync_def rq)
  then have "ctl_inv cfg tim (ct\<lparr>ct_queue := cq, ct_channel := cs\<rparr>)"
    using c clk qs(1) cq_ref_same_inv [OF same q] chan_frame_inv [OF f ch] awake_frame [OF f aw]
    by (simp add: ctl_inv_def)
  moreover have "trans_inv cfg Command_default (ct\<lparr>ct_queue := cq, ct_channel := cs\<rparr>)"
    using tr qs(2) trans_inv_cong [of "ct\<lparr>ct_queue := cq, ct_channel := cs\<rparr>" ct] by simp
  moreover have "\<not> IsReadWrite cmd" "cmd_type cmd \<noteq> SREF_ENTER \<and> cmd_type cmd \<noteq> SREF_EXIT \<and> from_map cfg cmd"
    if "IsValid cmd"
  proof -
    from rdy that have "refresh_cmd cfg ?ref cmd" by simp
    then have "cmd_type cmd = PRECHARGE \<or> IsRefresh cmd" using ref(1) by (auto simp: refresh_cmd_def)
    then show "\<not> IsReadWrite cmd" "cmd_type cmd \<noteq> SREF_ENTER \<and> cmd_type cmd \<noteq> SREF_EXIT \<and> from_map cfg cmd"
      by (auto simp: cmd_kind_defs from_map_def)
  qed
  moreover have "\<not> IsReadWrite cmd" if "\<not> IsValid cmd" using that by (auto simp: cmd_kind_defs)
  ultimately show ?thesis using run f same isr rdy clk by (simp add: ct_inv_def) blast
qed

section \<open>Scheduling transactions\<close>

lemma TransToCommand_kind:
  "IsWrite (TransToCommand cfg ct t) = is_write t" "IsRead (TransToCommand cfg ct t) = (\<not> is_write t)"
  "hex_addr (TransToCommand cfg ct t) = t_addr t"
  by (auto simp: TransToCommand_def cmd_kind_defs)

lemma TransToCommand_queued: "cfg_ok cfg tim \<Longrightarrow> queued_cmd_ok cfg (TransToCommand cfg ct t)"
  by (auto simp: cfg_ok_def addr_ok_def queued_cmd_ok_def TransToCommand_def cmd_in_range_def
      cmd_kind_defs place_of_def)

lemma due_move:
  assumes "mset ts = add_mset t (mset ts')" and "Q cmd = P t" and "hex_addr cmd = t_addr t"
  shows "due P Q ts' (M + {#cmd#}) = due P Q ts M"
  using assms by (simp add: due_def)

lemma sel_update_fields [simp]:
  "ct_queue (sel_update s ts ct) = ct_queue ct" "ct_channel (sel_update s ts ct) = ct_channel ct"
  "ct_stats (sel_update s ts ct) = ct_stats ct" "ct_refresh (sel_update s ts ct) = ct_refresh ct"
  "ct_clk (sel_update s ts ct) = ct_clk ct" "cmd_trace (sel_update s ts ct) = cmd_trace ct"
  "pending_rd_q (sel_update s ts ct) = pending_rd_q ct" "pending_wr_q (sel_update s ts ct) = pending_wr_q ct"
  "return_queue (sel_update s ts ct) = return_queue ct" "is_unified_queue (sel_update s ts ct) = is_unified_queue ct"
  "write_draining (sel_update s ts ct) = write_draining ct" "buf_policy (sel_update s ts ct) = buf_policy ct"
  by (simp_all add: sel_update_def split: queue_sel.split)

lemma waiting_sel_update:
  assumes "sel_items s ct = pre @ t # rest"
  shows "mset (waiting ct) = add_mset t (mset (waiting (sel_update s (pre @ rest) ct)))"
  using assms by (cases s) (simp_all add: sel_items_def sel_update_def waiting_def)

section \<open>Transactions in flight\<close>

text \<open>A transaction by its address, kind and arrival, and all those accepted but not yet
  returned: writes are answered at once, so that only reads are pending.\<close>

definition txn_id :: "transaction \<Rightarrow> u64 \<times> bool \<times> u64" where
  "txn_id t = (t_addr t, is_write t, added_cycle t)"

definition inflight :: "controller \<Rightarrow> (u64 \<times> bool \<times> u64) multiset" where
  "inflight ct = image_mset txn_id (mset (return_queue ct)) +
     image_mset (\<lambda>e. txn_id (snd e)) (mset (pending_rd_q ct))"

lemma mset_served: "image_mset txn_id (mset (served a p d)) =
    image_mset (\<lambda>e. txn_id (snd e)) (mset (filter (\<lambda>e. fst e = a) p))"
  by (induction p) (auto simp: served_def mm_entries_def txn_id_def)

lemma inflight_issued: "issued cfg cmd ct ct' \<Longrightarrow> inflight ct' = inflight ct"
proof -
  assume "issued cfg cmd ct ct'"
  then have f: "pending_rd_q ct' = rd_after cmd (pending_rd_q ct)"
    "return_queue ct' = return_queue ct @ returned_by cfg cmd ct" by (simp_all add: issued_def)
  have split: "mset p = mset (filter (\<lambda>e. fst e = hex_addr cmd) p) + mset (filter (\<lambda>e. fst e \<noteq> hex_addr cmd) p)"
    for p :: "(u64, transaction) multimap"
    using multiset_partition [of "mset p" "\<lambda>e. fst e = hex_addr cmd"] by simp
  show ?thesis
  proof (cases "IsRead cmd")
    case True
    have "image_mset (\<lambda>e. txn_id (snd e)) (mset (pending_rd_q ct)) =
      image_mset (\<lambda>e. txn_id (snd e)) (mset (filter (\<lambda>e. fst e = hex_addr cmd) (pending_rd_q ct))) +
      image_mset (\<lambda>e. txn_id (snd e)) (mset (filter (\<lambda>e. fst e \<noteq> hex_addr cmd) (pending_rd_q ct)))"
      by (subst split) (simp only: image_mset_union)
    with True show ?thesis
      by (simp only: inflight_def f rd_after_def returned_by_def if_True mset_append image_mset_union
          mset_served add.assoc)
  next
    case False
    then show ?thesis by (simp add: inflight_def f rd_after_def returned_by_def)
  qed
qed

text \<open>The buffers, which only \<open>ScheduleTransaction\<close> shortens in a cycle.\<close>

definition bufs :: "controller \<Rightarrow> trans_vec list" where
  "bufs ct = [uni_queue ct, read_queue ct, write_buffer ct]"

definition tv_le :: "trans_vec \<Rightarrow> trans_vec \<Rightarrow> bool" where
  "tv_le v w \<longleftrightarrow> tv_capacity v = tv_capacity w \<and> length (tv_items v) \<le> length (tv_items w)"

lemma bufs_same: "ct_same ct ct' \<Longrightarrow> bufs ct' = bufs ct"
  by (simp add: ct_same_def bufs_def)

lemma bufs_issued: "issued cfg cmd ct ct' \<Longrightarrow> bufs ct' = bufs ct"
  by (simp add: issued_def bufs_same)

lemma tv_le_refl [simp]: "list_all2 tv_le vs vs"
  by (simp add: list_all2_refl tv_le_def)

lemma bufs_fields [simp]: "bufs (ct\<lparr>write_draining := n\<rparr>) = bufs ct" "bufs (ct\<lparr>ct_queue := cq\<rparr>) = bufs ct"
  "bufs (ct\<lparr>ct_channel := cs\<rparr>) = bufs ct" "bufs (ct\<lparr>ct_stats := ss\<rparr>) = bufs ct"
  "bufs (ct\<lparr>ct_refresh := rf\<rparr>) = bufs ct" "bufs (ct\<lparr>ct_clk := clk\<rparr>) = bufs ct"
  by (simp_all add: bufs_def)

lemma sel_items_fields [simp]: "sel_items s (ct\<lparr>write_draining := n\<rparr>) = sel_items s ct"
  "sel_items s (ct\<lparr>ct_queue := cq\<rparr>) = sel_items s ct"
  by (cases s; simp add: sel_items_def)+

lemma bufs_sel_update:
  "sel_items s ct = pre @ t # rest \<Longrightarrow> list_all2 tv_le (bufs (sel_update s (pre @ rest) ct)) (bufs ct)"
  by (cases s) (simp_all add: sel_items_def sel_update_def bufs_def tv_le_def)

lemma inflight_cong:
  "return_queue ct' = return_queue ct \<Longrightarrow> pending_rd_q ct' = pending_rd_q ct \<Longrightarrow> inflight ct' = inflight ct"
  by (simp add: inflight_def)

section \<open>The scheduler\<close>

text \<open>The queue that \<open>ScheduleTransaction\<close> looks into.\<close>

definition sel_ok :: "queue_sel \<Rightarrow> controller \<Rightarrow> bool" where
  "sel_ok s ct \<longleftrightarrow> (if is_unified_queue ct then s = UnifiedQueue
     else if 0 < write_draining ct then s = WriteBuffer else s = ReadQueue)"

text \<open>One transaction moved into the command queues.\<close>

lemma trans_inv_schedule:
  assumes tr: "trans_inv cfg Command_default ct" and sel: "sel_ok s ct"
    and items: "sel_items s ct = pre @ t # rest" and cmd: "cmd = TransToCommand cfg ct t"
    and q: "mset (queued cq) = mset (queued (ct_queue ct)) + {#cmd#}"
    and dep: "\<not> (\<not> is_unified_queue ct \<and> IsWrite cmd \<and> 0 < mm_count (pending_rd_q ct) (t_addr t))"
    and ct': "ct' = sel_update s (pre @ rest) ((if \<not> is_unified_queue ct \<and> IsWrite cmd
        then ct\<lparr>write_draining := write_draining ct - 1\<rparr> else ct)\<lparr>ct_queue := cq\<rparr>)"
  shows "trans_inv cfg Command_default ct'"
proof -
  from tr have a: "acct Command_default ct" and e: "excl Command_default ct" and m: "mode_inv cfg ct"
    by (simp_all add: trans_inv_def)
  have f: "ct_queue ct' = cq" "pending_rd_q ct' = pending_rd_q ct" "pending_wr_q ct' = pending_wr_q ct"
    "is_unified_queue ct' = is_unified_queue ct" by (simp_all add: ct')
  note kind = TransToCommand_kind [of cfg ct t, folded cmd]
  have w': "waiting ct' = waiting (sel_update s (pre @ rest) ct)"
    by (cases s) (simp_all add: ct' waiting_def sel_update_def)
  note w = waiting_sel_update [OF items, folded w']
  have "reads_due ct' = reads_due ct"
    unfolding reads_due_def f(1) q by (rule due_move [OF w]) (simp_all add: kind)
  moreover have "writes_due ct' = writes_due ct"
    unfolding writes_due_def f(1) q by (rule due_move [OF w]) (simp_all add: kind)
  ultimately have "acct Command_default ct'" using a unfolding acct_def f by simp
  moreover have "excl Command_default ct'"
  proof -
    have "set (queued cq) = insert cmd (set (queued (ct_queue ct)))"
      using arg_cong [OF q, of set_mset] by simp
    with e dep kind show ?thesis by (auto simp: excl_def f mm_count_pos)
  qed
  moreover have "mode_inv cfg ct'"
  proof (cases "is_unified_queue ct")
    case True
    with sel have "s = UnifiedQueue" by (simp add: sel_ok_def)
    with m True show ?thesis by (auto simp: mode_inv_def ct' sel_update_def)
  next
    case False
    show ?thesis
    proof (cases "0 < write_draining ct")
      case True
      with sel False have s: "s = WriteBuffer" by (simp add: sel_ok_def)
      with items m False have wb: "tv_items (write_buffer ct) = pre @ t # rest" "is_write t"
        by (auto simp: sel_items_def mode_inv_def)
      with m False True s kind show ?thesis by (simp add: mode_inv_def ct' sel_update_def)
    next
      case wd: False
      with sel False have s: "s = ReadQueue" by (simp add: sel_ok_def)
      with items m False have wb: "tv_items (read_queue ct) = pre @ t # rest" "\<not> is_write t"
        by (auto simp: sel_items_def mode_inv_def)
      with m False s kind show ?thesis by (simp add: mode_inv_def ct' sel_update_def)
    qed
  qed
  ultimately show ?thesis by (simp add: trans_inv_def)
qed

lemma schedule_loop_ok:
  assumes ok: "cfg_ok cfg tim" and inv: "ct_inv cfg tim Command_default ct" and sel: "sel_ok s ct"
  shows "sel_items s ct = pre @ rest \<Longrightarrow>
    okE (\<lambda>ct'. ct_inv cfg tim Command_default ct' \<and> ct_clk ct' = ct_clk ct \<and> cmd_trace ct' = cmd_trace ct \<and>
      list_all2 tv_le (bufs ct') (bufs ct) \<and> pending_rd_q ct' = pending_rd_q ct \<and> pending_wr_q ct' = pending_wr_q ct \<and> return_queue ct' = return_queue ct)
    (schedule_loop cfg s pre rest ct)"
proof (induction rest arbitrary: pre)
  case Nil
  with inv show ?case by simp
next
  case (Cons t rest)
  let ?cmd = "TransToCommand cfg ct t"
  from inv have c: "ctl_inv cfg tim ct" and tr: "trans_inv cfg Command_default ct" by (simp_all add: ct_inv_def)
  from ok have wf: "cfg_wf cfg" by (simp add: cfg_ok_def)
  from c have cq: "cq_inv cfg (ct_queue ct)" by (simp add: ctl_inv_def)
  from AddCommand_ok [OF wf cq TransToCommand_queued [OF ok, of ct t]] obtain added cq' where
    add: "AddCommand cfg ?cmd (ct_queue ct) = Inr (added, cq')" and
    a: "cq_inv cfg cq'" "is_in_ref cq' = is_in_ref (ct_queue ct)" "ref_q_indices cq' = ref_q_indices (ct_queue ct)"
      "q_structure cq' = q_structure (ct_queue ct)" "cq_clk cq' = cq_clk (ct_queue ct)"
      "cq_WillAcceptCommand cfg (ct_queue ct) (Rank ?cmd) (Bankgroup ?cmd) (Bank ?cmd) = Inr added"
      "mset (queued cq') = mset (queued (ct_queue ct)) + (if added then {#?cmd#} else {#})"
    by (auto simp: okE_iff)
  show ?case
  proof (cases added)
    case False
    with a(6) Cons.IH [of "pre @ [t]"] Cons.prems show ?thesis by (simp add: Let_def)
  next
    case True
    show ?thesis
    proof (cases "\<not> is_unified_queue ct \<and> IsWrite ?cmd \<and> 0 < mm_count (pending_rd_q ct) (t_addr t)")
      case brk: True
      from tr have "trans_inv cfg Command_default (ct\<lparr>write_draining := 0\<rparr>)"
        by (simp add: trans_inv_def acct_def excl_def mode_inv_def reads_due_def writes_due_def waiting_def)
      with c have "ct_inv cfg tim Command_default (ct\<lparr>write_draining := 0\<rparr>)"
        by (simp add: ct_inv_def ctl_inv_def)
      with a(6) True brk show ?thesis by (simp add: Let_def)
    next
      case go: False
      let ?ct1 = "if \<not> is_unified_queue ct \<and> IsWrite ?cmd
        then ct\<lparr>write_draining := write_draining ct - 1\<rparr> else ct"
      let ?ct = "sel_update s (pre @ rest) (?ct1\<lparr>ct_queue := cq'\<rparr>)"
      have q1: "ct_queue ?ct1 = ct_queue ct" by simp
      have run: "schedule_loop cfg s pre (t # rest) ct = Inr ?ct"
        by (simp only: schedule_loop.simps Let_def a(6) True bindE_simps if_True go if_False q1 add prod.case)
      from a(7) True have "mset (queued cq') = mset (queued (ct_queue ct)) + {#?cmd#}" by simp
      from trans_inv_schedule [OF tr sel Cons.prems refl this go refl]
      have "trans_inv cfg Command_default ?ct" .
      moreover have "ref_sync cfg cq' (ct_channel ct)"
        using c holds_back_cong [OF a(4,2,3)] a(2) by (simp add: ref_sync_def ctl_inv_def)
      then have "ctl_inv cfg tim ?ct" using c a(1,5) by (simp add: ctl_inv_def)
      moreover have s2: "sel_items s (?ct1\<lparr>ct_queue := cq'\<rparr>) = pre @ t # rest"
        and b2: "bufs (?ct1\<lparr>ct_queue := cq'\<rparr>) = bufs ct" using Cons.prems by simp_all
      have "list_all2 tv_le (bufs ?ct) (bufs ct)" using bufs_sel_update [OF s2] unfolding b2 .
      ultimately show ?thesis unfolding run by (simp add: ct_inv_def)
    qed
  qed
qed

lemma acct_draining [simp]: "acct cmd (ct\<lparr>write_draining := n\<rparr>) = acct cmd ct"
  by (simp add: acct_def reads_due_def writes_due_def waiting_def)

lemma excl_draining [simp]: "excl cmd (ct\<lparr>write_draining := n\<rparr>) = excl cmd ct"
  by (simp add: excl_def)

lemma trans_inv_draining: "trans_inv cfg cmd ct \<Longrightarrow> trans_inv cfg cmd (start_draining ct)"
  unfolding start_draining_def trans_inv_def by (auto simp: mode_inv_def)

theorem ScheduleTransaction_ok:
  assumes ok: "cfg_ok cfg tim" and inv: "ct_inv cfg tim Command_default ct"
  shows "okE (\<lambda>ct'. ct_inv cfg tim Command_default ct' \<and> ct_clk ct' = ct_clk ct \<and> cmd_trace ct' = cmd_trace ct \<and>
      list_all2 tv_le (bufs ct') (bufs ct) \<and> pending_rd_q ct' = pending_rd_q ct \<and> pending_wr_q ct' = pending_wr_q ct \<and> return_queue ct' = return_queue ct)
    (ScheduleTransaction cfg ct)"
proof -
  let ?ct = "start_draining ct"
  have f: "ct_channel ?ct = ct_channel ct" "ct_queue ?ct = ct_queue ct" "ct_stats ?ct = ct_stats ct"
    "ct_refresh ?ct = ct_refresh ct" "ct_clk ?ct = ct_clk ct" "cmd_trace ?ct = cmd_trace ct"
    "pending_rd_q ?ct = pending_rd_q ct" "pending_wr_q ?ct = pending_wr_q ct" "return_queue ?ct = return_queue ct"
    "bufs ?ct = bufs ct" by (simp_all add: start_draining_def)
  have inv': "ct_inv cfg tim Command_default ?ct"
    using inv by (simp add: ct_inv_def ctl_inv_def f trans_inv_draining)
  let ?s = "if is_unified_queue ?ct then UnifiedQueue
               else if 0 < write_draining ?ct then WriteBuffer else ReadQueue"
  have "sel_ok ?s ?ct" by (simp add: sel_ok_def)
  from schedule_loop_ok [OF ok inv' this, of "[]" "sel_items ?s ?ct"] show ?thesis
    by (simp add: ScheduleTransaction_def Let_def f)
qed

section \<open>The issue phase\<close>

text \<open>No two reads or writes fit into one cycle: what the controller needs when it issues two
  commands in a cycle. Only the bank that a command with precharge closes needs no distance.\<close>

definition rw_spaced :: "timing \<Rightarrow> u64 \<Rightarrow> bool" where
  "rw_spaced tim clk \<longleftrightarrow> (\<forall>c q. \<forall>ct \<in> {READ, READ_PRECHARGE, WRITE, WRITE_PRECHARGE}.
     cmd_type c \<in> {READ, WRITE} \<or> cmd_type c \<in> {READ_PRECHARGE, WRITE_PRECHARGE} \<and> q \<noteq> place_of c \<longrightarrow>
     (\<exists>d. (ct, d) \<in> set (constraints_at tim c q) \<and> clk < clk + of_c_int d))"

definition dual_ok :: "config \<Rightarrow> timing \<Rightarrow> u64 \<Rightarrow> bool" where
  "dual_ok cfg tim clk \<longleftrightarrow> (enable_hbm_dual_cmd cfg \<longrightarrow> rw_spaced tim clk)"

lemma closed_after_precharge:
  assumes "bank_path cfg q ((c, t) # H) s row" and "cmd_type c \<in> {READ_PRECHARGE, WRITE_PRECHARGE}" and "q \<in> set (places_of cfg c)"
  shows "s = CLOSED"
  using assms(1)
proof cases
  case (path_exec s0 row0)
  from path_exec(3) assms(2) show ?thesis by (auto elim: bank_step.cases)
qed (use assms(3) in simp)

lemma rw_not_issuable:
  assumes sp: "rw_spaced tim clk" and inv: "chan_inv cfg tim cs ((c, clk) # H) now"
    and c: "IsReadWrite c" and d: "IsReadWrite d"
  shows "\<not> issuable cfg cs d clk"
proof
  assume i: "issuable cfg cs d clk"
  from d have nr: "\<not> IsRankCMD d" and k: "cmd_type d \<in> {READ, READ_PRECHARGE, WRITE, WRITE_PRECHARGE}"
    by (auto simp: cmd_kind_defs)
  from i nr have "in_range cfg (place_of d)" by (simp add: issuable_def cmd_in_range_def)
  with inv obtain b where b: "vec3_lookup (bank_states cs) (place_of d) = Some b"
    unfolding chan_inv_def chan_shape_def by (meson banks_shape_Some)
  have "place_of d \<in> set (places_of cfg d)" using nr by (simp add: places_of_def)
  with i b have e: "cmd_timing b (cmd_type d) \<le> clk" "\<exists>s. bank_step (bstate b) (cmd_type d) s" unfolding issuable_def by blast+
  from inv have "banks_inv cfg tim cs ((c, clk) # H)" by (simp add: chan_inv_def)
  from banks_invD [OF this b] have old: "cmd_timing b = earliest tim ((c, clk) # H) (place_of d)"
    "bank_path cfg (place_of d) ((c, clk) # H) (bstate b) (open_row b)" by blast+
  show False
  proof (cases "cmd_type c \<in> {READ_PRECHARGE, WRITE_PRECHARGE} \<and> place_of d = place_of c")
    case True
    then have "place_of d \<in> set (places_of cfg c)" by (auto simp: places_of_def cmd_kind_defs)
    then have "bstate b = CLOSED" using closed_after_precharge [OF old(2)] True by blast
    then show False using e(2) k by (auto elim: bank_step_closedE)
  next
    case False
    have "obeys tim ((c, clk) # H) (cmd_type d) clk (place_of d)"
      using e(1) old(1) by (intro obeys_earliest) simp
    moreover from sp c k False obtain x where "(cmd_type d, x) \<in> set (constraints_at tim c (place_of d))"
      "clk < clk + of_c_int x" unfolding rw_spaced_def IsReadWrite_def IsRead_def IsWrite_def by blast
    ultimately show False by (fastforce simp: obeys_def)
  qed
qed

lemma ct_inv_not_rw: "\<not> IsReadWrite cmd \<Longrightarrow> ct_inv cfg tim cmd ct = ct_inv cfg tim Command_default ct"
  by (auto simp: ct_inv_def trans_inv_def acct_def excl_def IsReadWrite_def)

lemma issued_same: "issued cfg cmd ct ct' \<Longrightarrow> ct_clk ct' = ct_clk ct \<and> ct_queue ct' = ct_queue ct \<and>
    cmd_trace ct' = (cmd, ct_clk ct) # cmd_trace ct"
  by (simp add: issued_def ct_same_def)

text \<open>The commands a phase adds to the trace.\<close>

definition phase_result :: "config \<Rightarrow> controller \<Rightarrow> controller \<Rightarrow> bool" where
  "phase_result cfg ct ct' \<longleftrightarrow> ct_clk ct' = ct_clk ct \<and> inflight ct' = inflight ct \<and> bufs ct' = bufs ct \<and>
     (\<exists>new. cmd_trace ct' = new @ cmd_trace ct \<and> length new \<le> (if enable_hbm_dual_cmd cfg then 2 else 1) \<and>
        (\<forall>(c, t) \<in> set new. t = ct_clk ct))"

lemma second_step:
  assumes ok: "cfg_ok cfg tim" and d: "rw_spaced tim (ct_clk ct)"
    and inv: "ct_inv cfg tim Command_default ct"
    and tr: "cmd_trace ct = (cmd, ct_clk ct) # H"
  shows "okE (\<lambda>(b, ct'). ct_inv cfg tim Command_default ct' \<and> ct_clk ct' = ct_clk ct \<and> inflight ct' = inflight ct \<and> bufs ct' = bufs ct \<and>
      (cmd_trace ct' = cmd_trace ct \<or> (\<exists>c. cmd_trace ct' = (c, ct_clk ct) # cmd_trace ct)))
    (bindE (GetCommandToIssue cfg (ct_queue ct) (ct_channel ct) (ct_stats ct))
       (\<lambda>(second_cmd, cq, cs, ss).
         let ct4 = ct\<lparr>ct_queue := cq, ct_channel := cs, ct_stats := ss\<rparr> in
         if IsValid second_cmd \<and> IsReadWrite second_cmd \<noteq> IsReadWrite cmd then
           bindE (IssueCommand cfg tim second_cmd ct4) (\<lambda>ct5.
             Inr (True, ct5\<lparr>ct_stats := Increment ''hbm_dual_cmds'' (ct_stats ct5)\<rparr>))
         else Inr (True, ct4)))"
proof -
  from take_step [OF ok inv] obtain c2 cq cs ss where
    g: "GetCommandToIssue cfg (ct_queue ct) (ct_channel ct) (ct_stats ct) = Inr (c2, cq, cs, ss)"
    and i2: "ct_inv cfg tim c2 (ct\<lparr>ct_queue := cq, ct_channel := cs, ct_stats := ss\<rparr>)"
    and r2: "IsValid c2 \<longrightarrow> issuable cfg cs c2 (ct_clk ct) \<and> cmd_type c2 \<noteq> SREF_ENTER \<and>
      cmd_type c2 \<noteq> SREF_EXIT \<and> \<not> IsRefresh c2 \<and> from_map cfg c2" by (auto simp: okE_iff)
  let ?ct = "ct\<lparr>ct_queue := cq, ct_channel := cs, ct_stats := ss\<rparr>"
  show ?thesis
  proof (cases "IsValid c2 \<and> IsReadWrite c2 \<noteq> IsReadWrite cmd")
    case True
    with r2 have i: "issuable cfg (ct_channel ?ct) c2 (ct_clk ?ct)"
      and k: "cmd_type c2 \<noteq> SREF_ENTER" "cmd_type c2 \<noteq> SREF_EXIT" "IsRefresh c2 \<longrightarrow> \<not> is_in_ref (ct_queue ?ct)"
      "from_map cfg c2" by simp_all
    from issue_step [OF ok i2 i k] obtain ct5 where
      s: "IssueCommand cfg tim c2 ?ct = Inr ct5" "issued cfg c2 ?ct ct5" "ct_inv cfg tim Command_default ct5"
      by (auto simp: okE_iff)
    let ?ct5 = "ct5\<lparr>ct_stats := Increment ''hbm_dual_cmds'' (ct_stats ct5)\<rparr>"
    have "ct_quiet cfg ct5 ?ct5" using s(3) by (simp add: ct_quiet_def ct_same_def ct_inv_def ctl_inv_def)
    from ct_quiet_inv [OF this s(3)] have "ct_inv cfg tim Command_default ?ct5" .
    moreover have "inflight ?ct5 = inflight ct"
      using inflight_issued [OF s(2)] by (simp add: inflight_def)
    moreover have "bufs ?ct5 = bufs ct" using bufs_issued [OF s(2)] by simp
    ultimately show ?thesis
      using True g s(1) issued_same [OF s(2)] by (simp add: Let_def)
  next
    case False
    have "\<not> IsReadWrite c2"
    proof
      assume rw: "IsReadWrite c2"
      then have "IsValid c2" by (auto simp: cmd_kind_defs)
      with False rw have "IsReadWrite cmd" by simp
      moreover have "chan_inv cfg tim cs ((cmd, ct_clk ct) # H) (ct_clk ct)"
        using i2 tr by (simp add: ct_inv_def ctl_inv_def)
      ultimately show False using rw_not_issuable [OF d] rw r2 \<open>IsValid c2\<close> by blast
    qed
    with i2 have "ct_inv cfg tim Command_default ?ct" by (simp add: ct_inv_not_rw)
    with False g show ?thesis by (auto simp: Let_def inflight_def)
  qed
qed

text \<open>A command about to be issued.\<close>

definition to_issue :: "config \<Rightarrow> command \<Rightarrow> controller \<Rightarrow> bool" where
  "to_issue cfg cmd ct \<longleftrightarrow> (IsValid cmd \<longrightarrow> issuable cfg (ct_channel ct) cmd (ct_clk ct) \<and>
     cmd_type cmd \<noteq> SREF_ENTER \<and> cmd_type cmd \<noteq> SREF_EXIT \<and>
     (IsRefresh cmd \<longrightarrow> \<not> is_in_ref (ct_queue ct)) \<and> from_map cfg cmd)"

definition same_so_far :: "controller \<Rightarrow> controller \<Rightarrow> bool" where
  "same_so_far ct ct' \<longleftrightarrow> ct_clk ct' = ct_clk ct \<and> cmd_trace ct' = cmd_trace ct \<and> inflight ct' = inflight ct \<and>
     bufs ct' = bufs ct"

lemma refresh_choice:
  assumes ok: "cfg_ok cfg tim" and inv: "ct_inv cfg tim Command_default ct"
  shows "okE (\<lambda>(cmd, ct'). ct_inv cfg tim Command_default ct' \<and> same_so_far ct ct' \<and>
      \<not> IsReadWrite cmd \<and> to_issue cfg cmd ct')
    (if IsRefreshWaiting (ct_channel ct) then
       bindE (FinishRefresh cfg (ct_queue ct) (ct_channel ct)) (\<lambda>(cmd, cq, cs).
         Inr (cmd, ct\<lparr>ct_queue := cq, ct_channel := cs\<rparr>))
     else Inr (Command_default, ct))"
proof (cases "IsRefreshWaiting (ct_channel ct)")
  case True
  from finish_step [OF ok inv True] show ?thesis
    using True by (auto simp: same_so_far_def to_issue_def inflight_def elim!: okE_mono)
next
  case False
  with inv show ?thesis by (simp add: same_so_far_def to_issue_def cmd_kind_defs Command_default_def)
qed

lemma queue_choice:
  assumes ok: "cfg_ok cfg tim" and inv: "ct_inv cfg tim Command_default ct"
    and cmd0: "\<not> IsReadWrite cmd0" "to_issue cfg cmd0 ct"
  shows "okE (\<lambda>(cmd, ct'). ct_inv cfg tim cmd ct' \<and> same_so_far ct ct' \<and> to_issue cfg cmd ct')
    (if \<not> IsValid cmd0 then
       bindE (GetCommandToIssue cfg (ct_queue ct) (ct_channel ct) (ct_stats ct))
         (\<lambda>(cmd, cq, cs, ss). Inr (cmd, ct\<lparr>ct_queue := cq, ct_channel := cs, ct_stats := ss\<rparr>))
     else Inr (cmd0, ct))"
proof (cases "IsValid cmd0")
  case True
  with inv cmd0 show ?thesis by (simp add: ct_inv_not_rw same_so_far_def)
next
  case False
  from take_step [OF ok inv] show ?thesis
    using False by (auto simp: same_so_far_def to_issue_def inflight_def elim!: okE_mono)
qed

theorem issue_phase_ok:
  assumes ok: "cfg_ok cfg tim" and inv: "ct_inv cfg tim Command_default ct"
    and dual: "dual_ok cfg tim (ct_clk ct)"
  shows "okE (\<lambda>(_, ct'). ct_inv cfg tim Command_default ct' \<and> phase_result cfg ct ct') (issue_phase cfg tim ct)"
proof -
  from refresh_choice [OF ok inv] obtain cmd0 ct1 where
    c1: "(if IsRefreshWaiting (ct_channel ct) then
       bindE (FinishRefresh cfg (ct_queue ct) (ct_channel ct)) (\<lambda>(cmd, cq, cs).
         Inr (cmd, ct\<lparr>ct_queue := cq, ct_channel := cs\<rparr>))
     else Inr (Command_default, ct)) = Inr (cmd0, ct1)" and
    i1: "ct_inv cfg tim Command_default ct1" "same_so_far ct ct1" "\<not> IsReadWrite cmd0" "to_issue cfg cmd0 ct1"
    by (rule okE_E) auto
  from queue_choice [OF ok i1(1,3,4)] obtain cmd ct2 where
    c2: "(if \<not> IsValid cmd0 then
       bindE (GetCommandToIssue cfg (ct_queue ct1) (ct_channel ct1) (ct_stats ct1))
         (\<lambda>(cmd, cq, cs, ss). Inr (cmd, ct1\<lparr>ct_queue := cq, ct_channel := cs, ct_stats := ss\<rparr>))
     else Inr (cmd0, ct1)) = Inr (cmd, ct2)" and
    i2: "ct_inv cfg tim cmd ct2" "same_so_far ct1 ct2" "to_issue cfg cmd ct2"
    by (rule okE_E) auto
  from i1(2) i2(2) have sf: "ct_clk ct2 = ct_clk ct" "cmd_trace ct2 = cmd_trace ct" "inflight ct2 = inflight ct"
    "bufs ct2 = bufs ct" by (simp_all add: same_so_far_def)
  show ?thesis
  proof (cases "IsValid cmd")
    case False
    then have "\<not> IsReadWrite cmd" by (auto simp: cmd_kind_defs)
    with False i2(1) sf show ?thesis
      unfolding issue_phase_def c1 bindE_simps prod.case c2
      by (simp add: ct_inv_not_rw phase_result_def)
  next
    case True
    with i2(3) have r: "issuable cfg (ct_channel ct2) cmd (ct_clk ct2)" "cmd_type cmd \<noteq> SREF_ENTER"
      "cmd_type cmd \<noteq> SREF_EXIT" "IsRefresh cmd \<longrightarrow> \<not> is_in_ref (ct_queue ct2)" "from_map cfg cmd"
      by (simp_all add: to_issue_def)
    from issue_step [OF ok i2(1) r] obtain ct3 where
      c3: "IssueCommand cfg tim cmd ct2 = Inr ct3" and
      i3: "issued cfg cmd ct2 ct3" "ct_inv cfg tim Command_default ct3" by (auto simp: okE_iff)
    from issued_same [OF i3(1)] inflight_issued [OF i3(1)] bufs_issued [OF i3(1)] sf
    have s3: "ct_clk ct3 = ct_clk ct" "cmd_trace ct3 = (cmd, ct_clk ct) # cmd_trace ct" "inflight ct3 = inflight ct"
      "bufs ct3 = bufs ct" by simp_all
    show ?thesis
    proof (cases "enable_hbm_dual_cmd cfg")
      case False
      with True i3(2) s3 show ?thesis
        unfolding issue_phase_def c1 bindE_simps prod.case c2
        by (auto simp: c3 phase_result_def intro!: exI [of _ "[(cmd, ct_clk ct)]"])
    next
      case dual_on: True
      with dual have d: "rw_spaced tim (ct_clk ct3)" by (simp add: dual_ok_def s3(1))
      have "cmd_trace ct3 = (cmd, ct_clk ct3) # cmd_trace ct" by (simp add: s3)
      from second_step [OF ok d i3(2) this] show ?thesis
        unfolding issue_phase_def c1 bindE_simps prod.case c2
        using True dual_on
        by (auto simp: c3 s3 phase_result_def elim!: okE_mono
            intro: exI [of _ "[(cmd, ct_clk ct)]"] exI [of _ "[(c, ct_clk ct), (cmd, ct_clk ct)]" for c])
    qed
  qed
qed

section \<open>One cycle\<close>

lemma refresh_phase:
  assumes inv: "ct_inv cfg tim Command_default ct"
  shows "okE (\<lambda>(rf, cs). ct_inv cfg tim Command_default (ct\<lparr>ct_refresh := rf, ct_channel := cs\<rparr>) \<and>
      new_refreshes cfg (ct_channel ct) cs)
    (refresh_ClockTick cfg (ct_refresh ct) (ct_channel ct))"
proof -
  from inv have c: "ctl_inv cfg tim ct" and tr: "trans_inv cfg Command_default ct" by (simp_all add: ct_inv_def)
  from c have rf: "refresh_inv cfg (ct_refresh ct)" by (simp add: ctl_inv_def)
  from refresh_ClockTick_ok [OF rf ctl_inv_shape [OF c]] obtain rf' cs where
    run: "refresh_ClockTick cfg (ct_refresh ct) (ct_channel ct) = Inr (rf', cs)"
    and n: "refresh_inv cfg rf'" "new_refreshes cfg (ct_channel ct) cs" by (auto simp: okE_iff)
  from n(2) obtain new where new: "cs = (ct_channel ct)\<lparr>refresh_q := refresh_q (ct_channel ct) @ new\<rparr>"
    by (auto simp: new_refreshes_def)
  from c have "ref_sync cfg (ct_queue ct) cs" by (auto simp: ref_sync_def ctl_inv_def new)
  moreover have "rank_is_sref cs = rank_is_sref (ct_channel ct)" by (simp add: new)
  with c have "awake cs" unfolding ctl_inv_def awake_def by metis
  moreover from c have "chan_inv cfg tim cs (cmd_trace ct) (ct_clk ct)"
    by (intro new_refreshes_inv [OF n(2)]) (simp add: ctl_inv_def)
  ultimately have "ctl_inv cfg tim (ct\<lparr>ct_refresh := rf', ct_channel := cs\<rparr>)"
    using c n(1) by (simp add: ctl_inv_def)
  moreover have "trans_inv cfg Command_default (ct\<lparr>ct_refresh := rf', ct_channel := cs\<rparr>)"
    using tr trans_inv_cong [of "ct\<lparr>ct_refresh := rf', ct_channel := cs\<rparr>" ct] by simp
  ultimately show ?thesis using run n(2) by (simp add: ct_inv_def)
qed

lemma quiet_result: "ct_quiet cfg ct ct' \<Longrightarrow> phase_result cfg ct0 ct \<Longrightarrow> phase_result cfg ct0 ct'"
proof -
  assume q: "ct_quiet cfg ct ct'" and r: "phase_result cfg ct0 ct"
  from q have e: "bufs ct' = bufs ct" "inflight ct' = inflight ct" "ct_clk ct' = ct_clk ct"
    "cmd_trace ct' = cmd_trace ct"
    using bufs_same [of ct ct'] inflight_cong [of ct' ct] by (simp_all add: ct_quiet_def ct_same_def)
  from r show ?thesis unfolding phase_result_def e .
qed

theorem ct_ClockTick_ok:
  assumes ok: "cfg_ok cfg tim" and inv: "ct_inv cfg tim Command_default ct"
    and dual: "dual_ok cfg tim (ct_clk ct)" and clk: "ct_clk ct < ct_clk ct + 1"
  shows "okE (\<lambda>ct'. ct_inv cfg tim Command_default ct' \<and> ct_clk ct' = ct_clk ct + 1 \<and> inflight ct' = inflight ct \<and>
      list_all2 tv_le (bufs ct') (bufs ct) \<and> (\<exists>new. cmd_trace ct' = new @ cmd_trace ct \<and> length new \<le> (if enable_hbm_dual_cmd cfg then 2 else 1) \<and>
        (\<forall>(c, t) \<in> set new. t = ct_clk ct)))
    (ct_ClockTick cfg tim ct)"
proof -
  from refresh_phase [OF inv] obtain rf cs where
    c0: "refresh_ClockTick cfg (ct_refresh ct) (ct_channel ct) = Inr (rf, cs)" and
    i0: "ct_inv cfg tim Command_default (ct\<lparr>ct_refresh := rf, ct_channel := cs\<rparr>)" by (auto simp: okE_iff)
  let ?ct0 = "ct\<lparr>ct_refresh := rf, ct_channel := cs\<rparr>"
  have "dual_ok cfg tim (ct_clk ?ct0)" using dual by simp
  from issue_phase_ok [OF ok i0 this] obtain b ct1 where
    c1: "issue_phase cfg tim ?ct0 = Inr (b, ct1)" and
    i1: "ct_inv cfg tim Command_default ct1" "phase_result cfg ?ct0 ct1" by (auto simp: okE_iff)
  from i1(1) have "ctl_inv cfg tim ct1" by (simp add: ct_inv_def)
  from rank_cycles_ok [OF this] obtain ct2 where
    c2: "foldE (rank_cycle_stats cfg) (indices (ranks cfg)) ct1 = Inr ct2" "ct_quiet cfg ct1 ct2"
    by (auto simp: okE_iff)
  note i2 = ct_quiet_inv [OF c2(2) i1(1)] and r2 = quiet_result [OF c2(2) i1(2)]
  from i2 have "ctl_inv cfg tim ct2" by (simp add: ct_inv_def)
  from Calculate_stats_ok [OF this] obtain ct4 where
    c4: "Calculate_stats cfg ct2 = Inr ct4" "ct_quiet cfg ct2 ct4" by (auto simp: okE_iff)
  note i4 = ct_quiet_inv [OF c4(2) i2] and r4 = quiet_result [OF c4(2) r2]
  from ScheduleTransaction_ok [OF ok i4] obtain ct5 where
    c5: "ScheduleTransaction cfg ct4 = Inr ct5" and
    i5: "ct_inv cfg tim Command_default ct5" "ct_clk ct5 = ct_clk ct4" "cmd_trace ct5 = cmd_trace ct4"
      "list_all2 tv_le (bufs ct5) (bufs ct4)" "inflight ct5 = inflight ct4" by (auto simp: okE_iff inflight_def)
  let ?ct6 = "ct5\<lparr>ct_clk := ct_clk ct5 + 1, ct_queue := cq_ClockTick (ct_queue ct5),
      ct_stats := Increment ''num_cycles'' (ct_stats ct5)\<rparr>"
  from ok have "\<not> enable_self_refresh cfg" by (simp add: cfg_ok_def)
  then have run: "ct_ClockTick cfg tim ct = Inr ?ct6"
    by (simp add: ct_ClockTick_def c0 c1 c2(1) c4(1) c5)
  from i5(1) have c: "ctl_inv cfg tim ct5" and tr: "trans_inv cfg Command_default ct5" by (simp_all add: ct_inv_def)
  have clk5: "ct_clk ct5 = ct_clk ct" using i5(2) r4 by (simp add: phase_result_def)
  have le: "ct_clk ct5 \<le> ct_clk ct5 + 1" unfolding clk5 by (rule less_imp_le [OF clk])
  let ?cq = "cq_ClockTick (ct_queue ct5)"
  have q: "queued ?cq = queued (ct_queue ct5)" "cq_clk ?cq = cq_clk (ct_queue ct5) + 1"
    "is_in_ref ?cq = is_in_ref (ct_queue ct5)" by (simp_all add: cq_ClockTick_def queued_def)
  have "0 \<le> queue_idx (ct_queue ct5)" "queue_idx (ct_queue ct5) < num_queues (ct_queue ct5)"
    "cq_inv cfg (ct_queue ct5)"
    using c unfolding ctl_inv_def cq_inv_def cq_shape_def by blast+
  then have "cq_inv cfg ?cq"
    by (intro cq_inv_cong [of ?cq "ct_queue ct5"]) (simp_all add: cq_ClockTick_def)
  moreover have "ref_sync cfg ?cq (ct_channel ct5)"
    using c holds_back_cong [of ?cq "ct_queue ct5"] by (simp add: ctl_inv_def ref_sync_def cq_ClockTick_def)
  moreover have "chan_inv cfg tim (ct_channel ct5) (cmd_trace ct5) (ct_clk ct5 + 1)"
    using chan_inv_later [OF _ le] c unfolding ctl_inv_def by blast
  ultimately have "ctl_inv cfg tim ?ct6" using c by (simp add: ctl_inv_def q)
  moreover have "trans_inv cfg Command_default ?ct6"
    using tr q(1) trans_inv_cong [of ?ct6 ct5] by simp
  moreover have "inflight ?ct6 = inflight ct"
    using r4 i5(5) by (simp add: phase_result_def inflight_def)
  moreover have "bufs ct4 = bufs ct" using r4 by (simp add: phase_result_def)
  with i5(4) have "list_all2 tv_le (bufs ?ct6) (bufs ct)" by simp
  moreover have "\<exists>new. cmd_trace ?ct6 = new @ cmd_trace ct \<and>
      length new \<le> (if enable_hbm_dual_cmd cfg then 2 else 1) \<and> (\<forall>(c, t) \<in> set new. t = ct_clk ct)"
    using r4 i5(3) by (simp add: phase_result_def)
  moreover have "ct_clk ?ct6 = ct_clk ct + 1" by (simp add: clk5)
  ultimately show ?thesis unfolding run okE_simps ct_inv_def by blast
qed

end
