(* ===== verification/ControllerRun.thy ===== *)
theory ControllerRun
  imports ControllerInv
begin

text \<open>
  The remaining operations of the controller keep its invariants, and so does every run of a
  controller that is used as the memory system uses it: transactions are added only when the
  controller accepts them. A run carries the transactions that were added and those that came
  back.
\<close>

section \<open>The start\<close>

definition cap_inv :: "config \<Rightarrow> controller \<Rightarrow> bool" where
  "cap_inv cfg ct \<longleftrightarrow>
     (\<forall>v \<in> (if unified_queue cfg then {uni_queue ct} else {read_queue ct, write_buffer ct}).
        tv_capacity v = nat (trans_queue_size cfg) \<and> length (tv_items v) \<le> tv_capacity v)"

lemma tv_reserve_ok: "0 \<le> n \<Longrightarrow>
    tv_reserve n \<lparr>tv_items = [], tv_capacity = 0\<rparr> = Inr \<lparr>tv_items = [], tv_capacity = nat n\<rparr>"
  by (simp add: tv_reserve_def)

lemma Controller_ok:
  assumes ok: "cfg_ok cfg tim"
  shows "okE (\<lambda>ct. ct_inv cfg tim Command_default ct \<and> cap_inv cfg ct \<and> inflight ct = {#} \<and>
      ct_clk ct = 0 \<and> cmd_trace ct = []) (Controller ch cfg)"
proof -
  from ok have wf: "cfg_wf cfg" and r: "refresh_cfg_ok cfg" and n: "0 \<le> trans_queue_size cfg"
    and k: "0 \<le> cmd_queue_size cfg"
    and q: "queue_structure cfg = ''PER_BANK'' \<or> queue_structure cfg = ''PER_RANK''"
    by (simp_all add: cfg_ok_def)
  from CommandQueue_ok [OF wf q k] obtain cq where cq: "CommandQueue cfg = Inr cq" "cq_inv cfg cq"
    "queued cq = []" "cq_clk cq = 0" "\<not> is_in_ref cq" by (auto simp: okE_iff)
  from Refresh_ok [OF wf r] obtain rf where rf: "Refresh cfg = Inr rf" "refresh_inv cfg rf"
    by (auto simp: okE_iff)
  have aw: "awake (ChannelState cfg)" by (simp add: awake_def ChannelState_def)
  show ?thesis
    using cq rf aw chan_inv_init [of cfg tim] stats_ok_init [of cfg]
    by (simp add: Controller_def Let_def tv_reserve_ok [OF n] ct_inv_def ctl_inv_def ref_sync_def
        trans_inv_def acct_def excl_def mode_inv_def reads_due_def writes_due_def waiting_def due_def
        keys_def inflight_def cap_inv_def)
qed

section \<open>Adding a transaction\<close>

lemma AddTransaction_ctl:
  assumes "ctl_inv cfg tim ct"
  shows "ctl_inv cfg tim (snd (AddTransaction t ct))"
  using assms by (simp add: AddTransaction_def Let_def ctl_inv_def)

lemma AddTransaction_true: "fst (AddTransaction t ct)"
  by (simp add: AddTransaction_def Let_def)

text \<open>The four cases, by what the pending writes and reads hold.\<close>

definition arrived :: "transaction \<Rightarrow> controller \<Rightarrow> transaction" where
  "arrived t ct = t\<lparr>added_cycle := ct_clk ct\<rparr>"

definition answered :: "transaction \<Rightarrow> controller \<Rightarrow> transaction" where
  "answered t ct = (arrived t ct)\<lparr>complete_cycle := ct_clk ct + 1\<rparr>"

definition buffer_push :: "transaction \<Rightarrow> controller \<Rightarrow> controller" where
  "buffer_push t ct = (if is_unified_queue ct then ct\<lparr>uni_queue := tv_push_back t (uni_queue ct)\<rparr>
     else if is_write t then ct\<lparr>write_buffer := tv_push_back t (write_buffer ct)\<rparr>
     else ct\<lparr>read_queue := tv_push_back t (read_queue ct)\<rparr>)"

definition add_stats :: "controller \<Rightarrow> controller" where
  "add_stats ct = ct\<lparr>ct_stats := AddValue ''interarrival_latency''
     (to_c_int (ct_clk ct - last_trans_clk ct)) (ct_stats ct), last_trans_clk := ct_clk ct\<rparr>"

lemma AddTransaction_cases:
  "snd (AddTransaction t ct) =
    (let c = add_stats ct; a = arrived t ct in
     if is_write t then
       (if t_addr t \<in> keys (pending_wr_q ct) then c\<lparr>return_queue := return_queue ct @ [answered t ct]\<rparr>
        else (buffer_push a c)\<lparr>pending_wr_q := mm_insert (t_addr t) a (pending_wr_q ct),
               return_queue := return_queue ct @ [answered t ct]\<rparr>)
     else if t_addr t \<in> keys (pending_wr_q ct) then c\<lparr>return_queue := return_queue ct @ [answered t ct]\<rparr>
     else if t_addr t \<in> keys (pending_rd_q ct)
       then c\<lparr>pending_rd_q := mm_insert (t_addr t) a (pending_rd_q ct)\<rparr>
     else (buffer_push a c)\<lparr>pending_rd_q := mm_insert (t_addr t) a (pending_rd_q ct)\<rparr>)"
  by (simp add: AddTransaction_def Let_def add_stats_def arrived_def answered_def buffer_push_def
      mm_count_0 mm_count_pos mm.count_insert)

lemma add_stats_trans: "trans_inv cfg cmd (add_stats ct) = trans_inv cfg cmd ct"
  by (rule trans_inv_cong) (simp_all add: add_stats_def)

lemma due_add: "due P Q (ts1 @ ts2 @ ts3) M = due P Q ts1 M + due P Q ts2 {#} + due P Q ts3 {#}"
  by (simp add: due_def ac_simps)

lemma due_snoc: "due P Q (ts @ [t]) M = due P Q ts M + (if P t then {#t_addr t#} else {#})"
  by (simp add: due_def)

lemma buffer_push_fields [simp]:
  "pending_rd_q (buffer_push t ct) = pending_rd_q ct" "pending_wr_q (buffer_push t ct) = pending_wr_q ct"
  "return_queue (buffer_push t ct) = return_queue ct" "ct_queue (buffer_push t ct) = ct_queue ct"
  "is_unified_queue (buffer_push t ct) = is_unified_queue ct"
  "write_draining (buffer_push t ct) = write_draining ct"
  by (simp_all add: buffer_push_def)

lemma due_buffer_push:
  "reads_due (buffer_push t ct) = reads_due ct + (if is_write t then {#} else {#t_addr t#})"
  "writes_due (buffer_push t ct) = writes_due ct + (if is_write t then {#t_addr t#} else {#})"
  by (simp_all add: reads_due_def writes_due_def waiting_def buffer_push_def tv_push_back_def due_def)

lemma mode_buffer_push: "mode_inv cfg ct \<Longrightarrow> mode_inv cfg (buffer_push t ct)"
  by (auto simp: mode_inv_def buffer_push_def tv_push_back_def)

lemma acct_no_cmd: "acct Command_default ct \<longleftrightarrow> reads_due ct = mset_set (keys (pending_rd_q ct)) \<and>
     writes_due ct = mset_set (keys (pending_wr_q ct)) \<and> distinct (map fst (pending_wr_q ct)) \<and>
     (\<forall>(a, t) \<in> set (pending_rd_q ct). t_addr t = a \<and> \<not> is_write t) \<and>
     (\<forall>(a, t) \<in> set (pending_wr_q ct). t_addr t = a \<and> is_write t)"
  by (simp add: acct_def)

lemma queued_write_pending:
  assumes "acct Command_default ct" and "c \<in> set (queued (ct_queue ct))" and "IsWrite c"
  shows "hex_addr c \<in> keys (pending_wr_q ct)"
proof -
  have "hex_addr c \<in># writes_due ct" using assms(2,3) by (auto simp: writes_due_def due_def)
  with assms(1) show ?thesis by (simp add: acct_no_cmd)
qed

text \<open>A new pending entry, with its transaction in a buffer if the address is new.\<close>

lemma trans_inv_new_read:
  assumes tr: "trans_inv cfg Command_default ct" and w: "\<not> is_write a" "t_addr a \<notin> keys (pending_wr_q ct)"
    and c: "c = (if t_addr a \<in> keys (pending_rd_q ct) then ct else buffer_push a ct)"
  shows "trans_inv cfg Command_default (c\<lparr>pending_rd_q := mm_insert (t_addr a) a (pending_rd_q ct)\<rparr>)"
proof -
  let ?ct = "c\<lparr>pending_rd_q := mm_insert (t_addr a) a (pending_rd_q ct)\<rparr>"
  from tr have ac: "acct Command_default ct" and e: "excl Command_default ct" and m: "mode_inv cfg ct"
    by (simp_all add: trans_inv_def)
  have f: "ct_queue ?ct = ct_queue ct" "pending_wr_q ?ct = pending_wr_q ct" "is_unified_queue ?ct = is_unified_queue ct"
    by (simp_all add: c)
  have d: "reads_due ?ct = reads_due c" "writes_due ?ct = writes_due c"
    by (simp_all add: reads_due_def writes_due_def waiting_def)
  have "reads_due ?ct = mset_set (insert (t_addr a) (keys (pending_rd_q ct)))"
    unfolding d using ac w(1) by (auto simp: c due_buffer_push acct_no_cmd insert_absorb)
  moreover have "writes_due ?ct = mset_set (keys (pending_wr_q ct))"
    unfolding d using ac w(1) by (auto simp: c due_buffer_push acct_no_cmd)
  moreover have "\<forall>(k, t) \<in> set (mm_insert (t_addr a) a (pending_rd_q ct)). t_addr t = k \<and> \<not> is_write t"
    using ac w(1) by (auto simp: acct_no_cmd mm_insert_def)
  ultimately have "acct Command_default ?ct" using ac by (simp add: acct_no_cmd f)
  moreover have "excl Command_default ?ct"
  proof -
    have "hex_addr x \<noteq> t_addr a" if "x \<in> set (queued (ct_queue ct))" "IsWrite x" for x
      using queued_write_pending [OF ac that] w(2) by auto
    with e show ?thesis by (auto simp: excl_def f)
  qed
  moreover have "mode_inv cfg c" using m mode_buffer_push [OF m] by (simp add: c)
  then have "mode_inv cfg ?ct" by (simp add: mode_inv_def)
  ultimately show ?thesis by (simp add: trans_inv_def)
qed

lemma trans_inv_new_write:
  assumes tr: "trans_inv cfg Command_default ct" and w: "is_write a" "t_addr a \<notin> keys (pending_wr_q ct)"
  shows "trans_inv cfg Command_default ((buffer_push a ct)
     \<lparr>pending_wr_q := mm_insert (t_addr a) a (pending_wr_q ct), return_queue := rq\<rparr>)"
proof -
  let ?c = "buffer_push a ct"
  let ?ct = "?c\<lparr>pending_wr_q := mm_insert (t_addr a) a (pending_wr_q ct), return_queue := rq\<rparr>"
  from tr have ac: "acct Command_default ct" and e: "excl Command_default ct" and m: "mode_inv cfg ct"
    by (simp_all add: trans_inv_def)
  have d: "reads_due ?ct = reads_due ?c" "writes_due ?ct = writes_due ?c"
    by (simp_all add: reads_due_def writes_due_def waiting_def)
  have "reads_due ?ct = mset_set (keys (pending_rd_q ct))"
    using ac w(1) by (simp add: d due_buffer_push acct_no_cmd)
  moreover have "writes_due ?ct = mset_set (insert (t_addr a) (keys (pending_wr_q ct)))"
    using ac w by (simp add: d due_buffer_push acct_no_cmd)
  moreover have "distinct (map fst (mm_insert (t_addr a) a (pending_wr_q ct)))"
    using ac w(2) by (simp add: acct_no_cmd mm_insert_def keys_def)
  moreover have "\<forall>(k, t) \<in> set (mm_insert (t_addr a) a (pending_wr_q ct)). t_addr t = k \<and> is_write t"
    using ac w(1) by (auto simp: acct_no_cmd mm_insert_def)
  ultimately have "acct Command_default ?ct" using ac by (simp add: acct_no_cmd)
  moreover have "excl Command_default ?ct" using e by (simp add: excl_def)
  moreover have "mode_inv cfg ?ct" using mode_buffer_push [OF m, of a] by (simp add: mode_inv_def)
  ultimately show ?thesis by (simp add: trans_inv_def)
qed

lemma trans_inv_return: "trans_inv cfg Command_default (ct\<lparr>return_queue := rq\<rparr>) = trans_inv cfg Command_default ct"
  by (rule trans_inv_cong) simp_all

lemma add_stats_fields [simp]:
  "pending_rd_q (add_stats ct) = pending_rd_q ct" "pending_wr_q (add_stats ct) = pending_wr_q ct"
  "return_queue (add_stats ct) = return_queue ct" "is_unified_queue (add_stats ct) = is_unified_queue ct"
  "uni_queue (add_stats ct) = uni_queue ct" "read_queue (add_stats ct) = read_queue ct"
  "write_buffer (add_stats ct) = write_buffer ct"
  by (simp_all add: add_stats_def)

theorem AddTransaction_ok:
  assumes inv: "ct_inv cfg tim Command_default ct"
  shows "ct_inv cfg tim Command_default (snd (AddTransaction t ct))"
    and "inflight (snd (AddTransaction t ct)) = inflight ct + {#(t_addr t, is_write t, ct_clk ct)#}"
proof -
  from inv have c: "ctl_inv cfg tim ct" and tr: "trans_inv cfg Command_default ct" by (simp_all add: ct_inv_def)
  from tr have tr': "trans_inv cfg Command_default (add_stats ct)" by (simp add: add_stats_trans)
  have a: "t_addr (arrived t ct) = t_addr t" "is_write (arrived t ct) = is_write t" by (simp_all add: arrived_def)
  have "trans_inv cfg Command_default (snd (AddTransaction t ct))"
  proof (cases "is_write t")
    case True
    show ?thesis
    proof (cases "t_addr t \<in> keys (pending_wr_q ct)")
      case False
      with True trans_inv_new_write [OF tr', of "arrived t ct"] show ?thesis
        by (simp add: AddTransaction_cases Let_def a)
    qed (use True tr' in \<open>simp add: AddTransaction_cases Let_def trans_inv_return\<close>)
  next
    case False
    show ?thesis
    proof (cases "t_addr t \<in> keys (pending_wr_q ct)")
      case fwd: False
      with False trans_inv_new_read [OF tr', of "arrived t ct"] show ?thesis
        by (cases "t_addr t \<in> keys (pending_rd_q ct)") (simp_all add: AddTransaction_cases Let_def a)
    qed (use False tr' in \<open>simp add: AddTransaction_cases Let_def trans_inv_return\<close>)
  qed
  with AddTransaction_ctl [OF c] show "ct_inv cfg tim Command_default (snd (AddTransaction t ct))"
    by (simp add: ct_inv_def)
  show "inflight (snd (AddTransaction t ct)) = inflight ct + {#(t_addr t, is_write t, ct_clk ct)#}"
    by (auto simp: AddTransaction_cases Let_def inflight_def mm_insert_def txn_id_def arrived_def answered_def)
qed

text \<open>A transaction that the controller accepts finds room.\<close>

lemma AddTransaction_cap:
  assumes cap: "cap_inv cfg ct" and mode: "mode_inv cfg ct" and room: "WillAcceptTransaction (t_addr t) (is_write t) ct"
  shows "cap_inv cfg (snd (AddTransaction t ct))"
proof -
  have push: "cap_inv cfg (buffer_push a (add_stats ct))" if "is_write a = is_write t" for a
    using cap mode room that
    by (auto simp: cap_inv_def buffer_push_def tv_push_back_def WillAcceptTransaction_def tv_has_room_def mode_inv_def)
  have same: "cap_inv cfg (add_stats ct)" using cap by (auto simp: cap_inv_def split: if_splits)
  have [simp]: "cap_inv cfg (c\<lparr>return_queue := rq\<rparr>) = cap_inv cfg c"
    "cap_inv cfg (c\<lparr>pending_rd_q := p\<rparr>) = cap_inv cfg c"
    "cap_inv cfg (c\<lparr>pending_wr_q := p\<rparr>) = cap_inv cfg c" for c rq p
    by (simp_all add: cap_inv_def)
  show ?thesis
    using push [of "arrived t ct"] same by (auto simp: AddTransaction_cases Let_def arrived_def)
qed

section \<open>Returning a transaction\<close>

lemma find_remove_first:
  "List.find P xs = Some x \<Longrightarrow> mset xs = mset (remove_first P xs) + {#x#}"
  by (induction xs) (auto split: if_splits)

theorem ReturnDoneTrans_ok:
  assumes inv: "ct_inv cfg tim Command_default ct" and run: "ReturnDoneTrans clk ct = (p, ct')"
  shows "ct_inv cfg tim Command_default ct'" "bufs ct' = bufs ct"
    "(p = no_trans \<and> inflight ct' = inflight ct \<and> (\<forall>t \<in> set (return_queue ct). clk < complete_cycle t)) \<or>
     (\<exists>t \<in> set (return_queue ct). p = (t_addr t, if is_write t then 1 else 0) \<and> complete_cycle t \<le> clk \<and>
        inflight ct = inflight ct' + {#txn_id t#})"
proof -
  from inv have c: "ctl_inv cfg tim ct" and tr: "trans_inv cfg Command_default ct" by (simp_all add: ct_inv_def)
  show "ct_inv cfg tim Command_default ct'"
  proof (cases "List.find (\<lambda>t. clk \<ge> complete_cycle t) (return_queue ct)")
    case None
    with run inv show ?thesis by (simp add: ReturnDoneTrans_def)
  next
    case (Some t)
    with run have ct': "ct' = ct\<lparr>ct_stats := done_stats (ct_clk ct) t (ct_stats ct),
        return_queue := remove_first (\<lambda>t. clk \<ge> complete_cycle t) (return_queue ct)\<rparr>"
      by (simp add: ReturnDoneTrans_def)
    have "ctl_inv cfg tim ct'" using c by (simp add: ct' ctl_inv_def done_stats_def)
    moreover have "trans_inv cfg Command_default ct'"
      using tr trans_inv_cong [of ct' ct] by (simp add: ct')
    ultimately show ?thesis by (simp add: ct_inv_def)
  qed
  show "bufs ct' = bufs ct" using run by (auto simp: ReturnDoneTrans_def bufs_def split: option.splits)
  show "(p = no_trans \<and> inflight ct' = inflight ct \<and> (\<forall>t \<in> set (return_queue ct). clk < complete_cycle t)) \<or>
     (\<exists>t \<in> set (return_queue ct). p = (t_addr t, if is_write t then 1 else 0) \<and> complete_cycle t \<le> clk \<and>
        inflight ct = inflight ct' + {#txn_id t#})"
  proof (cases "List.find (\<lambda>t. clk \<ge> complete_cycle t) (return_queue ct)")
    case None
    with run show ?thesis by (auto simp: ReturnDoneTrans_def find_None_iff)
  next
    case (Some t)
    then have "t \<in> set (return_queue ct)" "complete_cycle t \<le> clk" by (auto simp: find_Some_iff)
    with Some run find_remove_first [OF Some] show ?thesis
      by (intro disjI2 bexI [of _ t]) (auto simp: ReturnDoneTrans_def inflight_def)
  qed
qed

section \<open>The end of an epoch\<close>

lemma ct_stats_inv:
  assumes "ct_inv cfg tim cmd ct" and "stats_ok cfg ss"
  shows "ct_inv cfg tim cmd (ct\<lparr>ct_stats := ss\<rparr>)"
  using assms trans_inv_cong [of "ct\<lparr>ct_stats := ss\<rparr>" ct cfg cmd] by (simp add: ct_inv_def ctl_inv_def)

lemma ct_inv_stats: "ct_inv cfg tim cmd ct \<Longrightarrow> stats_ok cfg (ct_stats ct)"
  by (simp add: ct_inv_def ctl_inv_def)

definition stats_only :: "controller \<Rightarrow> controller \<Rightarrow> bool" where
  "stats_only ct ct' \<longleftrightarrow> ct' = ct\<lparr>ct_stats := ct_stats ct'\<rparr>"

lemma stats_epoch_ok:
  assumes inv: "ct_inv cfg tim cmd ct"
  shows "okE (\<lambda>ct'. ct_inv cfg tim cmd ct' \<and> stats_only ct ct') (ct_PrintEpochStats ct)"
    and "okE (\<lambda>ct'. ct_inv cfg tim cmd ct' \<and> stats_only ct ct') (ct_PrintFinalStats ct)"
    and "ct_inv cfg tim cmd (ct_ResetStats ct)" and "stats_only ct (ct_ResetStats ct)"
  using UpdateEpochStats_ok [of cfg "Increment ''epoch_num'' (ct_stats ct)"] UpdateFinalStats_ok [of cfg "ct_stats ct"]
    stats_ok_Reset [of cfg "ct_stats ct"] ct_inv_stats [OF inv] ct_stats_inv [OF inv]
  by (auto simp: ct_PrintEpochStats_def ct_PrintFinalStats_def ct_ResetStats_def stats_only_def elim!: okE_mono)

lemma stats_only_fields:
  assumes "stats_only ct ct'"
  shows "bufs ct' = bufs ct" "inflight ct' = inflight ct" "cap_inv cfg ct' = cap_inv cfg ct"
    "cmd_trace ct' = cmd_trace ct" "ct_clk ct' = ct_clk ct"
proof -
  from assms obtain ss where "ct' = ct\<lparr>ct_stats := ss\<rparr>" by (auto simp: stats_only_def)
  then show "bufs ct' = bufs ct" "inflight ct' = inflight ct" "cap_inv cfg ct' = cap_inv cfg ct"
    "cmd_trace ct' = cmd_trace ct" "ct_clk ct' = ct_clk ct"
    by (simp_all add: bufs_def inflight_def cap_inv_def)
qed

section \<open>Runs of a controller\<close>

text \<open>A transaction as the client knows it: its address and whether it is a write (1) or a read (0).\<close>

definition as_pair :: "u64 \<times> bool \<times> u64 \<Rightarrow> u64 \<times> int" where
  "as_pair x = (fst x, if fst (snd x) then 1 else 0)"

definition outstanding :: "controller \<Rightarrow> (u64 \<times> int) multiset" where
  "outstanding ct = image_mset as_pair (inflight ct)"

text \<open>The states a controller reaches, with the transactions it accepted and those it returned.\<close>

inductive ct_run :: "config \<Rightarrow> timing \<Rightarrow> controller \<Rightarrow> (u64 \<times> int) multiset \<Rightarrow> (u64 \<times> int) multiset \<Rightarrow> bool"
  for cfg tim where
  run_new: "Controller ch cfg = Inr ct \<Longrightarrow> ct_run cfg tim ct {#} {#}"
| run_add: "ct_run cfg tim ct A R \<Longrightarrow> WillAcceptTransaction (t_addr t) (is_write t) ct \<Longrightarrow>
    AddTransaction t ct = (b, ct') \<Longrightarrow> ct_run cfg tim ct' (A + {#(t_addr t, if is_write t then 1 else 0)#}) R"
| run_tick: "ct_run cfg tim ct A R \<Longrightarrow> dual_ok cfg tim (ct_clk ct) \<Longrightarrow> ct_clk ct < ct_clk ct + 1 \<Longrightarrow>
    ct_ClockTick cfg tim ct = Inr ct' \<Longrightarrow> ct_run cfg tim ct' A R"
| run_return: "ct_run cfg tim ct A R \<Longrightarrow> ReturnDoneTrans clk ct = (p, ct') \<Longrightarrow>
    ct_run cfg tim ct' A (R + (if p = no_trans then {#} else {#p#}))"
| run_epoch: "ct_run cfg tim ct A R \<Longrightarrow> ct_PrintEpochStats ct = Inr ct' \<Longrightarrow> ct_run cfg tim ct' A R"
| run_final: "ct_run cfg tim ct A R \<Longrightarrow> ct_PrintFinalStats ct = Inr ct' \<Longrightarrow> ct_run cfg tim ct' A R"
| run_reset: "ct_run cfg tim ct A R \<Longrightarrow> ct_run cfg tim (ct_ResetStats ct) A R"

lemma cap_inv_bufs:
  assumes le: "list_all2 tv_le (bufs ct') (bufs ct)" and cap: "cap_inv cfg ct"
  shows "cap_inv cfg ct'"
proof -
  from le have "tv_le (uni_queue ct') (uni_queue ct)" "tv_le (read_queue ct') (read_queue ct)"
    "tv_le (write_buffer ct') (write_buffer ct)" by (simp_all add: bufs_def)
  with cap show ?thesis by (auto simp: cap_inv_def tv_le_def split: if_splits)
qed

lemma no_trans_pair: "(a, if w then 1 else 0) \<noteq> no_trans"
  by (simp add: no_trans_def)

lemma ct_run_inv:
  assumes "ct_run cfg tim ct A R" and ok: "cfg_ok cfg tim"
  shows "ct_inv cfg tim Command_default ct \<and> cap_inv cfg ct \<and> A = R + outstanding ct"
  using assms(1)
proof (induction rule: ct_run.induct)
  case (run_new ch ct)
  from Controller_ok [OF ok, of ch] run_new show ?case by (simp add: outstanding_def)
next
  case (run_add ct A R t b ct')
  from run_add.hyps(3) have ct': "ct' = snd (AddTransaction t ct)" by simp
  from run_add.IH have inv: "ct_inv cfg tim Command_default ct" "cap_inv cfg ct" "A = R + outstanding ct" by simp_all
  from inv(1) have "mode_inv cfg ct" by (simp add: ct_inv_def trans_inv_def)
  with AddTransaction_ok [OF inv(1), of t] AddTransaction_cap [OF inv(2) _ run_add.hyps(2)] inv(3)
  show ?case by (simp add: ct' outstanding_def as_pair_def)
next
  case (run_tick ct A R ct')
  from run_tick.IH have inv: "ct_inv cfg tim Command_default ct" "cap_inv cfg ct" "A = R + outstanding ct" by simp_all
  from ct_ClockTick_ok [OF ok inv(1) run_tick.hyps(2,3)] run_tick.hyps(4)
  have "ct_inv cfg tim Command_default ct'" "inflight ct' = inflight ct" "list_all2 tv_le (bufs ct') (bufs ct)" by simp_all
  with cap_inv_bufs [OF _ inv(2)] inv(3) show ?case by (simp add: outstanding_def)
next
  case (run_return ct A R clk p ct')
  from run_return.IH have inv: "ct_inv cfg tim Command_default ct" "cap_inv cfg ct" "A = R + outstanding ct" by simp_all
  note r = ReturnDoneTrans_ok [OF inv(1) run_return.hyps(2)]
  have "cap_inv cfg ct'" by (rule cap_inv_bufs [OF _ inv(2)]) (simp add: r(2))
  moreover have "R + outstanding ct = R + (if p = no_trans then {#} else {#p#}) + outstanding ct'"
    using r(3)
  proof
    assume "\<exists>t \<in> set (return_queue ct). p = (t_addr t, if is_write t then 1 else 0) \<and> complete_cycle t \<le> clk \<and>
        inflight ct = inflight ct' + {#txn_id t#}"
    then obtain t where p: "p = (t_addr t, if is_write t then 1 else 0)" "inflight ct = inflight ct' + {#txn_id t#}" by blast
    have "p \<noteq> no_trans" unfolding p(1) by (rule no_trans_pair)
    then show ?thesis by (simp add: outstanding_def p(2) as_pair_def txn_id_def p(1))
  qed (simp add: outstanding_def)
  ultimately show ?case using r(1) inv(3) by simp
next
  case (run_epoch ct A R ct')
  then show ?case using stats_epoch_ok(1) [of cfg tim Command_default ct] stats_only_fields [of ct ct']
    by (simp add: outstanding_def)
next
  case (run_final ct A R ct')
  then show ?case using stats_epoch_ok(2) [of cfg tim Command_default ct] stats_only_fields [of ct ct']
    by (simp add: outstanding_def)
next
  case (run_reset ct A R)
  then show ?case using stats_epoch_ok(3,4) [of cfg tim Command_default ct] stats_only_fields [of ct "ct_ResetStats ct"]
    by (simp add: outstanding_def)
qed

end
