(* ===== verification/Timing_Table.thy ===== *)
theory Timing_Table
  imports ChannelRun
begin

text \<open>
  What the timing table asks of a trace, stated from the table alone: for every pair of an earlier
  and a later command and every bank the later one is for, the distances which the relation
  between that bank and the earlier command's address selects. No case of
  \<open>ChannelState::UpdateTiming\<close> occurs in it; that the loops of that function
  enforce the table is the lemma \<open>table_ok_Timing\<close>. The one list they never apply is the
  \<open>same_rank\<close> list of \<open>REFRESH_BANK\<close>: \<open>table_ok\<close> names it as its exception, and
  \<open>refreshed_bank_unconstrained\<close> (\<open>Channel_Properties\<close>) shows that it has to.
\<close>

text \<open>The distances by the place of a bank, for the lists between banks.\<close>

definition bank_distances :: "timing \<Rightarrow> command \<Rightarrow> int \<times> int \<times> int \<Rightarrow> (command_type \<times> int) set" where
  "bank_distances tim c = (\<lambda>(r, g, b). let t = tim (cmd_type c) in
     (if r = Rank c \<and> g = Bankgroup c \<and> b = Bank c then set (same_bank t) else {}) \<union>
     (if r = Rank c \<and> g = Bankgroup c \<and> b \<noteq> Bank c then set (other_banks_same_bankgroup t) else {}) \<union>
     (if r = Rank c \<and> g \<noteq> Bankgroup c then set (other_bankgroups_same_rank t) else {}) \<union>
     (if r \<noteq> Rank c then set (other_ranks t) else {}))"

text \<open>The distances for all banks of the command's rank.\<close>

definition rank_distances :: "timing \<Rightarrow> command \<Rightarrow> int \<times> int \<times> int \<Rightarrow> (command_type \<times> int) set" where
  "rank_distances tim c = (\<lambda>(r, g, b). if r = Rank c then set (same_rank (tim (cmd_type c))) else {})"

text \<open>The latest command is the first of a trace, so \<open>j < i\<close> makes \<open>H ! i\<close> the earlier one.\<close>

definition table_ok :: "config \<Rightarrow> timing \<Rightarrow> trace \<Rightarrow> bool" where
  "table_ok cfg tim H \<longleftrightarrow> (\<forall>i j. j < i \<longrightarrow> i < length H \<longrightarrow>
     (let (c, t) = H ! i; (c', t') = H ! j in
       \<forall>q \<in> set (places_of cfg c'). \<forall>d.
         (cmd_type c', d) \<in> bank_distances tim c q \<or>
         cmd_type c \<noteq> REFRESH_BANK \<and> (cmd_type c', d) \<in> rank_distances tim c q \<longrightarrow>
         t + of_c_int d \<le> t'))"

lemma Timing_no_same_rank:
  "\<not> IsRankCMD c \<Longrightarrow> cmd_type c \<noteq> REFRESH_BANK \<Longrightarrow> same_rank (Timing cfg (cmd_type c)) = []"
  by (cases "cmd_type c") (auto simp: Timing_def timing_list_defs Let_def IsRankCMD_def)

lemma Timing_rank_lists:
  assumes "IsRankCMD c"
  shows "same_bank (Timing cfg (cmd_type c)) = []" "other_banks_same_bankgroup (Timing cfg (cmd_type c)) = []"
    "other_bankgroups_same_rank (Timing cfg (cmd_type c)) = []" "other_ranks (Timing cfg (cmd_type c)) = []"
  using assms by (auto simp: Timing_def timing_list_defs IsRankCMD_def)

lemma distances_constraints:
  "bank_distances (Timing cfg) c q \<union>
     (if cmd_type c = REFRESH_BANK then {} else rank_distances (Timing cfg) c q) =
   set (constraints_at (Timing cfg) c q)"
proof (cases "IsRankCMD c")
  case True
  then have "cmd_type c \<noteq> REFRESH_BANK" by (auto simp: IsRankCMD_def)
  with True show ?thesis
    by (cases q) (simp add: bank_distances_def rank_distances_def constraints_at_def Let_def Timing_rank_lists)
next
  case False
  then show ?thesis
    by (cases q) (auto simp: bank_distances_def rank_distances_def constraints_at_def Let_def
        Timing_no_same_rank split: if_splits)
qed

lemma timing_ok_nth:
  assumes "timing_ok cfg tim H" and "j < i" and "i < length H"
  shows "\<forall>q \<in> set (places_of cfg (fst (H ! j))). \<forall>d.
    (cmd_type (fst (H ! j)), d) \<in> set (constraints_at tim (fst (H ! i)) q) \<longrightarrow>
    snd (H ! i) + of_c_int d \<le> snd (H ! j)"
  using assms
proof (induction H arbitrary: i j)
  case (Cons a H)
  obtain c t where a: "a = (c, t)" by (cases a)
  from Cons.prems(2) obtain i' where i: "i = Suc i'" by (cases i) auto
  show ?case
  proof (cases j)
    case 0
    have "(fst (H ! i'), snd (H ! i')) \<in> set H" using Cons.prems(3) i by simp
    with Cons.prems(1) show ?thesis unfolding a 0 i by (fastforce simp: obeys_def)
  next
    case (Suc j')
    with Cons.IH [of j' i'] Cons.prems show ?thesis by (simp add: a i)
  qed
qed simp

lemma table_ok_Timing:
  assumes "timing_ok cfg (Timing cfg) H"
  shows "table_ok cfg (Timing cfg) H"
proof -
  have "t + of_c_int d \<le> t'"
    if ij: "j < i" "i < length H" and h: "H ! i = (c, t)" "H ! j = (c', t')"
      and q: "q \<in> set (places_of cfg c')"
      and d: "(cmd_type c', d) \<in> bank_distances (Timing cfg) c q \<or>
        cmd_type c \<noteq> REFRESH_BANK \<and> (cmd_type c', d) \<in> rank_distances (Timing cfg) c q"
    for i j c t c' t' q d
  proof -
    from d have "(cmd_type c', d) \<in> set (constraints_at (Timing cfg) c q)"
      unfolding distances_constraints [symmetric] by auto
    with timing_ok_nth [OF assms ij] q show ?thesis by (simp add: h)
  qed
  then show ?thesis unfolding table_ok_def by (simp add: Let_def split: prod.split)
qed

end
