(* ===== verification/ConfigOk.thy ===== *)
theory ConfigOk
  imports ControllerRun
begin

text \<open>
  The configurations that \<open>Config\<close> reads from a file satisfy what the controller relies on, if
  the values in the file are sensible.
\<close>

text \<open>What the steps of the constructor keep.\<close>

definition same_structure :: "config \<Rightarrow> config \<Rightarrow> bool" where
  "same_structure c d \<longleftrightarrow> channels d = channels c \<and> ranks d = ranks c \<and> banks d = banks c \<and>
     bankgroups d = bankgroups c \<and> banks_per_group d = banks_per_group c \<and> rows d = rows c \<and>
     columns d = columns c \<and> BL d = BL c"

lemma SetAddressMapping_structure: "SetAddressMapping c = Inr d \<Longrightarrow> same_structure c d"
  by (auto simp: SetAddressMapping_def Let_def bindE_eq_Inr same_structure_def split: if_splits)

definition same_mapping :: "config \<Rightarrow> config \<Rightarrow> bool" where
  "same_mapping c d \<longleftrightarrow> shift_bits d = shift_bits c \<and> ch_pos d = ch_pos c \<and> ra_pos d = ra_pos c \<and>
     bg_pos d = bg_pos c \<and> ba_pos d = ba_pos c \<and> ro_pos d = ro_pos c \<and> co_pos d = co_pos c \<and>
     ch_mask d = ch_mask c \<and> ra_mask d = ra_mask c \<and> bg_mask d = bg_mask c \<and> ba_mask d = ba_mask c \<and>
     ro_mask d = ro_mask c \<and> co_mask d = co_mask c"

lemma AddressMapping_cong: "same_mapping c d \<Longrightarrow> AddressMapping d a = AddressMapping c a"
  by (simp add: AddressMapping_def same_mapping_def)

definition same_layout :: "config \<Rightarrow> config \<Rightarrow> bool" where
  "same_layout c d \<longleftrightarrow> same_structure c d \<and> same_mapping c d"

lemma same_layout_trans: "same_layout a b \<Longrightarrow> same_layout b c \<Longrightarrow> same_layout a c"
  by (simp add: same_layout_def same_structure_def same_mapping_def)

lemma timings_layout:
  "same_layout c (core_timings rd c)" "same_layout c (more_timings rd c)" "same_layout c (set_latencies c)"
  "same_layout c (set_delays c)" "same_layout c (InitOtherParams rd c)"
  by (simp_all add: same_layout_def same_structure_def same_mapping_def core_timings_def more_timings_def
      set_latencies_def set_delays_def InitOtherParams_def)

lemma InitTimingParams_layout: "same_layout c (InitOtherParams rd (InitTimingParams rd c))"
  unfolding InitTimingParams_def by (meson same_layout_trans timings_layout)

lemma InitTimingParams_same:
  "same_structure c (InitOtherParams rd (InitTimingParams rd c))"
  "same_mapping c (InitOtherParams rd (InitTimingParams rd c))"
  using InitTimingParams_layout [of c rd] by (simp_all add: same_layout_def)

definition same_banks :: "config \<Rightarrow> config \<Rightarrow> bool" where
  "same_banks c d \<longleftrightarrow> banks d = banks c \<and> bankgroups d = bankgroups c \<and> banks_per_group d = banks_per_group c"

lemma structure_banks:
  "banks (set_structure rd p c) = bankgroups (set_structure rd p c) * banks_per_group (set_structure rd p c)"
  by (simp add: set_structure_def Let_def)

lemma steps_banks:
  "same_banks c (set_links rd c)" "same_banks c (set_burst c)" "same_banks c (set_columns c)"
  by (simp_all add: same_banks_def set_links_def set_burst_def set_columns_def)

lemma hmc_burst_banks: "set_hmc_burst c = Inr d \<Longrightarrow> same_banks c d"
  by (auto simp: set_hmc_burst_def same_banks_def split: if_splits)

lemma InitDRAMParams_banks:
  assumes "InitDRAMParams rd c = Inr d"
  shows "banks d = bankgroups d * banks_per_group d"
proof -
  from assms obtain p c' where c': "set_hmc_burst (set_links rd (set_structure rd p c)) = Inr c'"
    "d = set_columns (set_burst c')" by (auto simp: InitDRAMParams_def bindE_eq_Inr)
  note s = steps_banks(1) [of "set_structure rd p c" rd] hmc_burst_banks [OF c'(1)] steps_banks(2) [of c']
    steps_banks(3) [of "set_burst c'"]
  with structure_banks [of rd p c] show ?thesis by (simp add: c'(2) same_banks_def)
qed

lemma CalculateSize_banks: "CalculateSize c = Inr d \<Longrightarrow>
    banks d = banks c \<and> bankgroups d = bankgroups c \<and> banks_per_group d = banks_per_group c"
  by (auto simp: CalculateSize_def Let_def split: if_splits)

lemma mapping_wf_cong: "same_structure c d \<Longrightarrow> mapping_wf d = mapping_wf c"
  by (simp add: mapping_wf_def same_structure_def)

lemma Config_ok:
  assumes run: "Config rd c0 = Inr c" and wf: "mapping_wf c" and r: "refresh_cfg_ok c"
    and q: "queue_structure c = ''PER_BANK'' \<or> queue_structure c = ''PER_RANK''"
    and t: "0 \<le> trans_queue_size c" "0 \<le> cmd_queue_size c" and s: "\<not> enable_self_refresh c"
  shows "cfg_ok c (Timing c)"
proof -
  from run obtain c1 c2 c3 c4 where c: "InitDRAMParams rd c1 = Inr c2" "CalculateSize c2 = Inr c3"
    "SetAddressMapping c3 = Inr c4" "c = InitOtherParams rd (InitTimingParams rd c4)"
    by (auto simp: Config_def bindE_eq_Inr)
  note s3 = SetAddressMapping_structure [OF c(3)]
  have s4: "same_structure c4 c" "same_mapping c4 c" unfolding c(4) by (rule InitTimingParams_same)+
  from wf s3 s4(1) have wf3: "mapping_wf c3" by (simp add: mapping_wf_cong)
  have "banks c = bankgroups c * banks_per_group c"
    using InitDRAMParams_banks [OF c(1)] CalculateSize_banks [OF c(2)] s3 s4(1) by (simp add: same_structure_def)
  with wf have "cfg_wf c" by (simp add: cfg_wf_def mapping_wf_def)
  moreover have "addr_ok c"
    using AddressMapping_ranges [OF c(3) wf3] s3 s4 by (simp add: addr_ok_def AddressMapping_cong same_structure_def)
  ultimately show ?thesis
    using r q t s by (simp add: cfg_ok_def timing_wf_Timing sref_rank_only_Timing)
qed

text \<open>Every address is decoded to a place that exists.\<close>

definition place_ok :: "config \<Rightarrow> address \<Rightarrow> bool" where
  "place_ok c a \<longleftrightarrow> 0 \<le> a_channel a \<and> a_channel a < channels c \<and> 0 \<le> a_rank a \<and> a_rank a < ranks c \<and>
     0 \<le> a_bankgroup a \<and> a_bankgroup a < bankgroups c \<and> 0 \<le> a_bank a \<and> a_bank a < banks_per_group c \<and>
     0 \<le> a_row a \<and> a_row a < rows c \<and> 0 \<le> a_column a \<and> a_column a < 2 ^ nat (LogBase2 (columns c) - LogBase2 (BL c))"

lemma Config_places:
  assumes run: "Config rd c0 = Inr c" and wf: "mapping_wf c"
  shows "place_ok c (AddressMapping c a)"
proof -
  from run obtain c3 c4 where c: "SetAddressMapping c3 = Inr c4" "c = InitOtherParams rd (InitTimingParams rd c4)"
    by (auto simp: Config_def bindE_eq_Inr)
  note s3 = SetAddressMapping_structure [OF c(1)]
  have s4: "same_structure c4 c" "same_mapping c4 c" unfolding c(2) by (rule InitTimingParams_same)+
  from wf s3 s4(1) have "mapping_wf c3" by (simp add: mapping_wf_cong)
  from AddressMapping_ranges [OF c(1) this] s3 s4 show ?thesis
    by (simp add: place_ok_def AddressMapping_cong same_structure_def)
qed

section \<open>Two commands in a cycle\<close>

text \<open>A stack of memory dies (HBM) may issue two commands in a cycle. That is safe when all distances
  between reads and writes are positive, as those of every configuration file of a stack are.\<close>

definition rw_distances :: "config \<Rightarrow> int list" where
  "rw_distances c = map (\<lambda>f. f c) [read_to_read_l, read_to_read_s, read_to_read_o, read_to_write, read_to_write_o,
     write_to_read_l, write_to_read_s, write_to_read_o, write_to_write_l, write_to_write_s, write_to_write_o]"

definition rw_apart :: "config \<Rightarrow> bool" where
  "rw_apart c \<longleftrightarrow> list_all (\<lambda>d. 0 < d \<and> d < 2 ^ 31) (rw_distances c)"

lemma later_clk:
  assumes "0 < d" "d < 2 ^ 31" and "unat clk < 2 ^ 63"
  shows "clk < clk + of_c_int d"
proof -
  have d: "uint (of_c_int d) = d" using assms(1,2) by (simp add: uint_of_c_int)
  have "int (unat clk) < int (2 ^ 63)" using assms(3) by (simp only: of_nat_less_iff)
  then have "uint clk < 2 ^ 63" by simp
  then have "uint clk + uint (of_c_int d) < 2 ^ LENGTH(64)" using d assms(2) by simp
  from uint_add_lem [THEN iffD1, OF this] have "uint (clk + of_c_int d) = uint clk + d" unfolding d .
  then show ?thesis using assms(1) by (simp add: word_less_def)
qed

definition rw_covered :: "config \<Rightarrow> timing_list \<Rightarrow> bool" where
  "rw_covered c l \<longleftrightarrow> (\<forall>nxt \<in> {READ, READ_PRECHARGE, WRITE, WRITE_PRECHARGE}. \<exists>d \<in> set (rw_distances c). (nxt, d) \<in> set l)"

lemma rw_covered_list:
  "rd \<in> set (rw_distances c) \<Longrightarrow> wr \<in> set (rw_distances c) \<Longrightarrow> rw_covered c (rw_list rd wr @ l)"
  by (auto simp: rw_covered_def rw_list_def)

lemmas rw_covered_only = rw_covered_list [where l = "[]", simplified]

lemma rw_constraint:
  assumes "cmd_type c \<in> {READ, WRITE} \<or> cmd_type c \<in> {READ_PRECHARGE, WRITE_PRECHARGE} \<and> q \<noteq> place_of c"
  shows "rw_covered cfg (constraints_at (Timing cfg) c q)"
proof (cases "cmd_type c")
  case READ
  then show ?thesis by (cases q)
    (simp add: constraints_at_def Let_def IsRankCMD_def Timing_def timing_READ_def no_timing_def rw_covered_only rw_covered_list rw_distances_def)
next
  case WRITE
  then show ?thesis by (cases q)
    (simp add: constraints_at_def Let_def IsRankCMD_def Timing_def timing_WRITE_def no_timing_def rw_covered_only rw_covered_list rw_distances_def)
next
  case READ_PRECHARGE
  then show ?thesis using assms by (cases q)
    (auto simp: constraints_at_def Let_def IsRankCMD_def Timing_def timing_READ_PRECHARGE_def no_timing_def rw_covered_only rw_distances_def place_of_def)
next
  case WRITE_PRECHARGE
  then show ?thesis using assms by (cases q)
    (auto simp: constraints_at_def Let_def IsRankCMD_def Timing_def timing_WRITE_PRECHARGE_def no_timing_def rw_covered_only rw_distances_def place_of_def)
qed (use assms in simp_all)

lemma rw_spaced_Timing:
  assumes "rw_apart cfg" and "unat clk < 2 ^ 63"
  shows "rw_spaced (Timing cfg) clk"
  unfolding rw_spaced_def
proof (intro allI ballI impI)
  fix c q nxt
  assume "nxt \<in> {READ, READ_PRECHARGE, WRITE, WRITE_PRECHARGE}"
    and "cmd_type c \<in> {READ, WRITE} \<or> cmd_type c \<in> {READ_PRECHARGE, WRITE_PRECHARGE} \<and> q \<noteq> place_of c"
  with rw_constraint [of c q cfg] obtain d where
    d: "d \<in> set (rw_distances cfg)" "(nxt, d) \<in> set (constraints_at (Timing cfg) c q)" unfolding rw_covered_def by blast
  from d(1) assms(1) have "0 < d" "d < 2 ^ 31" by (auto simp: rw_apart_def list_all_iff)
  from later_clk [OF this assms(2)] d(2)
  show "\<exists>d. (nxt, d) \<in> set (constraints_at (Timing cfg) c q) \<and> clk < clk + of_c_int d" by blast
qed

lemma dual_ok_Timing:
  assumes "enable_hbm_dual_cmd cfg \<longrightarrow> rw_apart cfg" and "unat clk < 2 ^ 63"
  shows "dual_ok cfg (Timing cfg) clk"
  using rw_spaced_Timing [OF _ assms(2)] assms(1) by (simp add: dual_ok_def)

end
