(* ===== verification/Default_Config.thy ===== *)
theory Default_Config
  imports Address_Map
begin

text \<open>
  A configuration to apply the theorems to: the default values of \<open>configuration.cc\<close>, read from
  a configuration file that sets the size, the banks and three latencies. The properties of the
  configuration: the size of a channel and the mapping of addresses.
\<close>

definition ex_reader :: ini_reader where
  "ex_reader = \<lparr>ini_Get = (\<lambda>_ _ d. d),
     ini_GetInteger = (\<lambda>_ opt d. if opt = ''channel_size'' then 2048 else if opt = ''banks_per_group'' then 1
        else if opt = ''tRCD'' \<or> opt = ''CL'' \<or> opt = ''CWL'' then 3 else d),
     ini_GetBoolean = (\<lambda>_ _ d. d)\<rparr>"

text \<open>The object before its constructor runs.\<close>

definition zero_config :: config where
  "zero_config = \<lparr>protocol = DDR3, channel_size = 0, channels = 0, ranks = 0, banks = 0, bankgroups = 0,
     banks_per_group = 0, rows = 0, columns = 0, device_width = 0, bus_width = 0, devices_per_rank = 0,
     BL = 0, shift_bits = 0, ch_pos = 0, ra_pos = 0, bg_pos = 0, ba_pos = 0, ro_pos = 0, co_pos = 0,
     ch_mask = 0, ra_mask = 0, bg_mask = 0, ba_mask = 0, ro_mask = 0, co_mask = 0,
     request_size_bytes = 0, burst_cycle = 0, AL = 0, CL = 0, CWL = 0, RL = 0, WL = 0, tCCD_L = 0,
     tCCD_S = 0, tRTRS = 0, tRTP = 0, tWTR_L = 0, tWTR_S = 0, tWR = 0, tRP = 0, tRRD_L = 0,
     tRRD_S = 0, tRAS = 0, tRCD = 0, tRFC = 0, tRC = 0, tCKE = 0, tCKESR = 0, tXS = 0, tXP = 0,
     tRFCb = 0, tREFI = 0, tREFIb = 0, tFAW = 0, tRPRE = 0, tWPRE = 0, read_delay = 0,
     write_delay = 0, tPPD = 0, t32AW = 0, tRCDRD = 0, tRCDWR = 0, ideal_memory_latency = 0,
     num_links = 0, num_dies = 0, link_width = 0, link_speed = 0, block_size = 0,
     xbar_queue_depth = 0, address_mapping = [], queue_structure = [], row_buf_policy = [],
     refresh_policy = RANK_LEVEL_STAGGERED, cmd_queue_size = 0, unified_queue = False,
     trans_queue_size = 0, write_buf_size = 0, enable_self_refresh = False, sref_threshold = 0,
     aggressive_precharging_enabled = False, enable_hbm_dual_cmd = False, epoch_period = 0,
     output_level = 0\<rparr>"

definition ex_cfg :: config where
  "ex_cfg = \<lparr>protocol = DDR3, channel_size = 2048, channels = 1, ranks = 2,
     banks = 2, bankgroups = 2, banks_per_group = 1, rows = 65536,
     columns = 1024, device_width = 8, bus_width = 64,
     devices_per_rank = 8, BL = 8, shift_bits = 6, ch_pos = 25,
     ra_pos = 7, bg_pos = 8, ba_pos = 9, ro_pos = 9, co_pos = 0,
     ch_mask = 0, ra_mask = 1, bg_mask = 1, ba_mask = 0, ro_mask = 65535,
     co_mask = 127, request_size_bytes = 64, burst_cycle = 4, AL = 0,
     CL = 3, CWL = 3, RL = 3, WL = 3, tCCD_L = 6, tCCD_S = 4, tRTRS = 2,
     tRTP = 5, tWTR_L = 5, tWTR_S = 5, tWR = 10, tRP = 10, tRRD_L = 4,
     tRRD_S = 4, tRAS = 24, tRCD = 3, tRFC = 74, tRC = 34, tCKE = 6,
     tCKESR = 12, tXS = 432, tXP = 8, tRFCb = 20, tREFI = 7800,
     tREFIb = 1950, tFAW = 50, tRPRE = 1, tWPRE = 1, read_delay = 7,
     write_delay = 7, tPPD = 0, t32AW = 330, tRCDRD = 24, tRCDWR = 20,
     ideal_memory_latency = 10, num_links = 4, num_dies = 1,
     link_width = 16, link_speed = 15000, block_size = 64,
     xbar_queue_depth = 16, address_mapping = ''chrobabgraco'',
     queue_structure = ''PER_BANK'', row_buf_policy = ''OPEN_PAGE'',
     refresh_policy = RANK_LEVEL_STAGGERED, cmd_queue_size = 16,
     unified_queue = False, trans_queue_size = 32, write_buf_size = 16,
     enable_self_refresh = False, sref_threshold = 1000,
     aggressive_precharging_enabled = False, enable_hbm_dual_cmd = False,
     epoch_period = 100000, output_level = 1\<rparr>"

lemma ex_Config: "Config ex_reader zero_config = Inr ex_cfg"
  by code_simp

lemma ex_fields:
  "protocol ex_cfg = DDR3" "channels ex_cfg = 1" "ranks ex_cfg = 2" "bankgroups ex_cfg = 2"
  "banks_per_group ex_cfg = 1" "banks ex_cfg = 2" "rows ex_cfg = 65536" "columns ex_cfg = 1024" "BL ex_cfg = 8"
  "queue_structure ex_cfg = ''PER_BANK''" "trans_queue_size ex_cfg = 32" "enable_self_refresh ex_cfg = False"
  "enable_hbm_dual_cmd ex_cfg = False" "refresh_policy ex_cfg = RANK_LEVEL_STAGGERED"
  "tREFI ex_cfg = 7800" "tREFIb ex_cfg = 1950" "unified_queue ex_cfg = False" "cmd_queue_size ex_cfg = 16"
  by code_simp+


lemma ex_SetAddressMapping:
  "SetAddressMapping (ex_cfg\<lparr>shift_bits := 0, ch_pos := 0\<rparr>) = Inr ex_cfg"
  by code_simp

lemma ex_mapping_wf: "mapping_wf (ex_cfg\<lparr>shift_bits := 0, ch_pos := 0\<rparr>)"
  by (simp add: mapping_wf_def ex_fields)

lemma ex_mapping_bits:
  "shift_bits ex_cfg = 6" "mapping_bits (ex_cfg\<lparr>shift_bits := 0, ch_pos := 0\<rparr>) = 25"
  by code_simp+

section \<open>Properties\<close>

text \<open>The size computation: a channel gets at least one rank, its size becomes a whole number
  of ranks, and it is what was asked for up to less than one rank (more only when one rank is
  already larger).\<close>

theorem channel_size_whole_ranks:
  assumes "device_width c \<noteq> 0" and "0 < megs_per_rank c" and "0 \<le> channel_size c"
  shows "okE (\<lambda>c'. 1 \<le> ranks c' \<and> channel_size c' = ranks c' * megs_per_rank c \<and>
      channel_size c' \<le> max (channel_size c) (megs_per_rank c) \<and>
      channel_size c < channel_size c' + megs_per_rank c) (CalculateSize c)"
  by (rule CalculateSize_ok [OF assms])

theorem channel_size_whole_ranks_witness:
  "okE (\<lambda>c'. 1 \<le> ranks c' \<and> channel_size c' = ranks c' * 1024 \<and> channel_size c' \<le> 3000)
     (CalculateSize (ex_cfg\<lparr>channel_size := 3000\<rparr>))"
proof -
  have m: "megs_per_rank (ex_cfg\<lparr>channel_size := 3000\<rparr>) = 1024"
    "device_width (ex_cfg\<lparr>channel_size := 3000\<rparr>) = 8" by code_simp+
  from channel_size_whole_ranks [of "ex_cfg\<lparr>channel_size := 3000\<rparr>"] show ?thesis
    by (auto simp: m elim!: okE_mono)
qed

text \<open>C20. Round trip of the address mapping: from every choice of channel, rank, bank group, bank,
  row and column in range, placed at their positions under any low-order offset within a request,
  \<open>AddressMapping\<close> decodes exactly this choice.\<close>

theorem address_roundtrip:
  assumes "SetAddressMapping c = Inr c'" and "mapping_wf c"
    and "nat (shift_bits c') + mapping_bits c \<le> 64"
    and "\<And>t. t \<in> set field_names \<Longrightarrow> 0 \<le> field_of a t \<and> field_of a t < 2 ^ field_width c t"
    and "0 \<le> low" and "low < 2 ^ nat (shift_bits c')"
  shows "AddressMapping c' (of_c_int (place_fields c' a * 2 ^ nat (shift_bits c') + low)) = a"
  by (rule AddressMapping_place [OF assms])

theorem address_roundtrip_witness:
  "AddressMapping ex_cfg (of_c_int (place_fields ex_cfg (Address 0 1 1 0 4711 100) * 2 ^ 6 + 5)) =
     Address 0 1 1 0 4711 100"
proof -
  let ?c = "ex_cfg\<lparr>shift_bits := 0, ch_pos := 0\<rparr>"
  have "\<forall>t \<in> set field_names. 0 \<le> field_of (Address 0 1 1 0 4711 100) t \<and>
      field_of (Address 0 1 1 0 4711 100) t < 2 ^ field_width ?c t" by code_simp
  then show ?thesis
    using address_roundtrip [OF ex_SetAddressMapping ex_mapping_wf, of "Address 0 1 1 0 4711 100" 5]
    by (simp add: ex_mapping_bits)
qed

text \<open>No two requests share a place: two addresses within the memory that are decoded alike lie
  in the same request.\<close>

theorem address_injective:
  assumes "SetAddressMapping c = Inr c'" and "mapping_wf c"
    and "AddressMapping c' a = AddressMapping c' b"
    and "uint a mod 2 ^ nat (shift_bits c') = uint b mod 2 ^ nat (shift_bits c')"
    and "uint a < 2 ^ (nat (shift_bits c') + mapping_bits c)"
    and "uint b < 2 ^ (nat (shift_bits c') + mapping_bits c)"
  shows "a = b"
  by (rule AddressMapping_injective [OF assms])

theorem address_injective_witness:
  "AddressMapping ex_cfg 64 \<noteq> AddressMapping ex_cfg 128"
  using address_injective [OF ex_SetAddressMapping ex_mapping_wf, of 64 128] by (auto simp: ex_mapping_bits)

text \<open>Every address, also one beyond the memory, is decoded to a channel, rank, bank group, bank,
  row and column that exist.\<close>

theorem address_in_range:
  assumes "SetAddressMapping c = Inr c'" and "mapping_wf c"
  shows "0 \<le> a_channel (AddressMapping c' a) \<and> a_channel (AddressMapping c' a) < channels c \<and>
    0 \<le> a_rank (AddressMapping c' a) \<and> a_rank (AddressMapping c' a) < ranks c \<and>
    0 \<le> a_bankgroup (AddressMapping c' a) \<and> a_bankgroup (AddressMapping c' a) < bankgroups c \<and>
    0 \<le> a_bank (AddressMapping c' a) \<and> a_bank (AddressMapping c' a) < banks_per_group c \<and>
    0 \<le> a_row (AddressMapping c' a) \<and> a_row (AddressMapping c' a) < rows c \<and>
    0 \<le> a_column (AddressMapping c' a) \<and>
    a_column (AddressMapping c' a) < 2 ^ nat (LogBase2 (columns c) - LogBase2 (BL c))"
  by (rule AddressMapping_ranges [OF assms])

theorem address_in_range_witness:
  "0 \<le> a_rank (AddressMapping ex_cfg (- 1)) \<and> a_rank (AddressMapping ex_cfg (- 1)) < 2 \<and>
   a_row (AddressMapping ex_cfg (- 1)) < 65536"
  using address_in_range [OF ex_SetAddressMapping ex_mapping_wf, of "- 1"] by (simp add: ex_fields)

end
