(* ===== verification/Example.thy ===== *)
theory Example
  imports ConfigOk Default_Config
begin

text \<open>
  A run of a controller of the example configuration: a client that adds a read and a write, waits
  for them and takes them back.
\<close>

lemma ex_cfg_ok: "cfg_ok ex_cfg (Timing ex_cfg)"
  by (rule Config_ok [OF ex_Config]) (simp_all add: ex_fields mapping_wf_def refresh_cfg_ok_def)

lemma ex_dual_ok: "dual_ok ex_cfg tim clk"
  by (simp add: dual_ok_def ex_fields)

section \<open>A client\<close>

text \<open>What a client of a controller does, and a run of it: the controller, the transactions
  accepted and the transactions returned. A transaction the controller does not accept stops
  the client.\<close>

datatype request = Add_trans transaction | Ticks nat | Take_done u64 | End_epoch

fun ticks :: "config \<Rightarrow> nat \<Rightarrow> controller \<Rightarrow> controller result" where
  "ticks cfg 0 ct = Inr ct"
| "ticks cfg (Suc n) ct = (if uint (ct_clk ct) < 9223372036854775808 \<and> (enable_hbm_dual_cmd cfg \<longrightarrow> rw_apart cfg)
     then bindE (ct_ClockTick cfg (Timing cfg) ct) (ticks cfg n) else Inl OutOfRange)"

fun client :: "config \<Rightarrow> request list \<Rightarrow> controller \<Rightarrow> (u64 \<times> int) list \<Rightarrow> (u64 \<times> int) list
    \<Rightarrow> (controller \<times> (u64 \<times> int) list \<times> (u64 \<times> int) list) result" where
  "client cfg [] ct A R = Inr (ct, A, R)"
| "client cfg (Add_trans t # rs) ct A R =
     (if WillAcceptTransaction (t_addr t) (is_write t) ct
      then client cfg rs (snd (AddTransaction t ct)) ((t_addr t, if is_write t then 1 else 0) # A) R
      else Inl OutOfRange)"
| "client cfg (Ticks n # rs) ct A R = bindE (ticks cfg n ct) (\<lambda>ct'. client cfg rs ct' A R)"
| "client cfg (Take_done clk # rs) ct A R = (let (p, ct') = ReturnDoneTrans clk ct in
     client cfg rs ct' A (if p = no_trans then R else p # R))"
| "client cfg (End_epoch # rs) ct A R = bindE (ct_PrintEpochStats ct) (\<lambda>ct'. client cfg rs ct' A R)"

definition run_client :: "int \<Rightarrow> config \<Rightarrow> request list \<Rightarrow> (controller \<times> (u64 \<times> int) list \<times> (u64 \<times> int) list) result" where
  "run_client ch cfg rs = bindE (Controller ch cfg) (\<lambda>ct. client cfg rs ct [] [])"

abbreviation "ex_run \<equiv> run_client 0 ex_cfg"

lemma next_clk_later: "unat (clk :: u64) < 2 ^ 63 \<Longrightarrow> clk < clk + 1"
  using later_clk [of 1 clk] by (simp add: of_c_int_def)

lemma ticks_run:
  "ct_run cfg (Timing cfg) ct A R \<Longrightarrow> ticks cfg n ct = Inr ct' \<Longrightarrow> ct_run cfg (Timing cfg) ct' A R"
proof (induction n arbitrary: ct)
  case (Suc n)
  from Suc.prems(2) obtain c where c: "uint (ct_clk ct) < 2 ^ 63" "enable_hbm_dual_cmd cfg \<longrightarrow> rw_apart cfg"
    "ct_ClockTick cfg (Timing cfg) ct = Inr c" "ticks cfg n c = Inr ct'"
    by (auto simp: bindE_eq_Inr split: if_splits)
  from c(1) have "int (unat (ct_clk ct)) < int (2 ^ 63)" by simp
  then have "unat (ct_clk ct) < 2 ^ 63" by (simp only: of_nat_less_iff)
  note c = this c(2-)
  from Suc.IH [OF run_tick [OF Suc.prems(1) dual_ok_Timing [OF c(2,1)] next_clk_later [OF c(1)] c(3)] c(4)] show ?case .
qed simp

lemma client_run:
  "ct_run cfg (Timing cfg) ct (mset A) (mset R) \<Longrightarrow> client cfg rs ct A R = Inr (ct', A', R') \<Longrightarrow>
   ct_run cfg (Timing cfg) ct' (mset A') (mset R')"
proof (induction cfg rs ct A R rule: client.induct)
  case (2 cfg t rs ct A R)
  from 2(3) have w: "WillAcceptTransaction (t_addr t) (is_write t) ct" by (simp split: if_splits)
  have "AddTransaction t ct = (fst (AddTransaction t ct), snd (AddTransaction t ct))" by simp
  from run_add [OF 2(2) w this] 2(1) [OF w] 2(3) w show ?case by simp
next
  case (3 cfg n rs ct A R)
  then show ?case by (auto simp: bindE_eq_Inr intro: ticks_run)
next
  case (4 cfg clk rs ct A R)
  obtain p c where p: "ReturnDoneTrans clk ct = (p, c)" by fastforce
  have "mset R + (if p = no_trans then {#} else {#p#}) = mset (if p = no_trans then R else p # R)" by simp
  with run_return [OF 4(2) p] have "ct_run cfg (Timing cfg) c (mset A) (mset (if p = no_trans then R else p # R))" by simp
  with 4(1) [OF p [symmetric] refl] 4(3) show ?case by (simp add: p)
next
  case (5 cfg rs ct A R)
  then show ?case by (auto simp: bindE_eq_Inr intro: run_epoch)
qed simp

lemma run_client_ok: "run_client ch cfg rs = Inr (ct, A, R) \<Longrightarrow> ct_run cfg (Timing cfg) ct (mset A) (mset R)"
proof -
  assume "run_client ch cfg rs = Inr (ct, A, R)"
  then obtain ct0 where c: "Controller ch cfg = Inr ct0"
    "client cfg rs ct0 [] [] = Inr (ct, A, R)" by (auto simp: run_client_def bindE_eq_Inr)
  from run_new [OF c(1), of "Timing cfg"] client_run [OF _ c(2)] show ?thesis by simp
qed

text \<open>A read and a write, served and taken; then a second read, still outstanding.\<close>

definition ex_requests :: "request list" where
  "ex_requests = [Add_trans (Transaction 64 False), Add_trans (Transaction 128 True), Ticks 2, Take_done 2,
     Ticks 10, Take_done 12, Add_trans (Transaction 64 False)]"

lemma ex_run_result:
  "okE (\<lambda>(ct, A, R). map (\<lambda>(c, t). (cmd_type c, t)) (cmd_trace ct) = [(READ, 4), (ACTIVATE, 1)] \<and>
     A = [(64, 0), (128, 1), (64, 0)] \<and> R = [(64, 0), (128, 1)] \<and> ct_clk ct = 12 \<and>
     mm_count (pending_rd_q ct) 64 = 1) (ex_run ex_requests)"
  by code_simp

lemma ex_state:
  obtains ct where "ct_run ex_cfg (Timing ex_cfg) ct {#(64, 0), (128, 1), (64, 0)#} {#(64, 0), (128, 1)#}"
    and "ct_clk ct = 12" and "map (\<lambda>(c, t). (cmd_type c, t)) (cmd_trace ct) = [(READ, 4), (ACTIVATE, 1)]"
    and "mm_count (pending_rd_q ct) 64 = 1"
proof -
  from ex_run_result obtain ct A R where r: "ex_run ex_requests = Inr (ct, A, R)" and
    p: "map (\<lambda>(c, t). (cmd_type c, t)) (cmd_trace ct) = [(READ, 4), (ACTIVATE, 1)]"
      "A = [(64, 0), (128, 1), (64, 0)]" "R = [(64, 0), (128, 1)]" "ct_clk ct = 12" "mm_count (pending_rd_q ct) 64 = 1"
    by (auto simp: okE_iff)
  from run_client_ok [OF r] p that show thesis by simp
qed

text \<open>Nine writes, enough for the controller to drain its write buffer.\<close>

definition ex_writes :: "request list" where
  "ex_writes = map (\<lambda>n. Add_trans (Transaction (of_nat n * 64) True)) [1..<10] @ [Ticks 1]"

lemma ex_writes_result:
  "okE (\<lambda>(ct, A, R). map (\<lambda>c. (cmd_type c, hex_addr c)) (queued (ct_queue ct)) = [(WRITE, 64)])
     (ex_run ex_writes)"
  by code_simp

lemma ex_write_state:
  obtains ct A R c where "ct_run ex_cfg (Timing ex_cfg) ct A R" and "c \<in> set (queued (ct_queue ct))"
    and "cmd_type c = WRITE" and "hex_addr c = 64"
proof -
  from ex_writes_result obtain ct A R where r: "ex_run ex_writes = Inr (ct, A, R)" and
    p: "map (\<lambda>c. (cmd_type c, hex_addr c)) (queued (ct_queue ct)) = [(WRITE, 64)]"
    by (auto simp: okE_iff)
  from p obtain c where "queued (ct_queue ct) = [c]" "cmd_type c = WRITE" "hex_addr c = 64" by auto
  with that [OF run_client_ok [OF r]] show thesis by simp
qed

end
