(* ===== verification/Controller_Properties.thy ===== *)
theory Controller_Properties
  imports ControllerRun Timing_Table Example
begin

text \<open>
  The properties of a memory controller in use: what holds in every state that a run of its
  operations reaches.
\<close>

text \<open>The invariant of a run, by parts.\<close>

lemma ct_runD:
  assumes "ct_run cfg tim ct A R" and "cfg_ok cfg tim"
  shows "ct_inv cfg tim Command_default ct" and "cap_inv cfg ct" and "A = R + outstanding ct"
    and "acct Command_default ct" and "excl Command_default ct" and "mode_inv cfg ct"
    and "chan_inv cfg tim (ct_channel ct) (cmd_trace ct) (ct_clk ct)"
  using ct_run_inv [OF assms] by (simp_all add: ct_inv_def trans_inv_def ctl_inv_def)

text \<open>C3. A controller whose configuration fits (\<open>cfg_ok\<close>: ranges, address mapping, timing table, positive
  refresh intervals, a known queue structure, no negative sizes, and no self refresh) does not stop the
  program: in every state that a run reaches, the next cycle, the end of an epoch and the final
  statistics return normally, as long as the clock is not at the last value of its 64 bits and, where
  two commands may be issued in a cycle, reads and writes are spaced (\<open>dual_ok\<close>). Without the
  first condition this fails: with self refresh the first wake-up aborts (\<open>self_refresh_exit_stops\<close>).\<close>

theorem controller_never_stops:
  assumes "ct_run cfg tim ct A R" and "cfg_ok cfg tim" and "dual_ok cfg tim (ct_clk ct)"
    and "ct_clk ct < ct_clk ct + 1"
  shows "(\<exists>ct'. ct_ClockTick cfg tim ct = Inr ct') \<and> (\<exists>ct'. ct_PrintEpochStats ct = Inr ct') \<and>
    (\<exists>ct'. ct_PrintFinalStats ct = Inr ct')"
  using ct_ClockTick_ok [OF assms(2) ct_runD(1) [OF assms(1,2)] assms(3,4)]
    stats_epoch_ok(1,2) [OF ct_runD(1) [OF assms(1,2)]]
  by (auto simp: okE_iff)

theorem controller_never_stops_witness:
  "\<exists>(ct :: controller) ct'. ct_clk ct = 12 \<and> ct_ClockTick ex_cfg (Timing ex_cfg) ct = Inr ct'"
proof -
  obtain ct where ct: "ct_run ex_cfg (Timing ex_cfg) ct {#(64, 0), (128, 1), (64, 0)#} {#(64, 0), (128, 1)#}"
    "ct_clk ct = 12" by (rule ex_state)
  from controller_never_stops [OF ct(1) ex_cfg_ok ex_dual_ok] ct(2) show ?thesis by auto
qed

text \<open>C2. Every command a controller issues obeys the memory's rules: cycles never decrease;
  between any two commands lie the distances the timing table lists for the relation of their
  places, with one exception, the \<open>same_rank\<close> distances after \<open>REFRESH_BANK\<close>
  (\<open>tRFCb\<close>), which the code never applies; every bank
  executes only what its state allows; and the activation windows of every rank are kept.\<close>

theorem controller_trace_ok:
  assumes "ct_run cfg (Timing cfg) ct A R" and "cfg_ok cfg (Timing cfg)"
  shows "times_sorted (cmd_trace ct) \<and> table_ok cfg (Timing cfg) (cmd_trace ct) \<and>
    protocol_ok cfg (cmd_trace ct) \<and> windows_ok cfg (cmd_trace ct)"
  using ct_runD(7) [OF assms] by (simp add: chan_inv_def trace_ok_def table_ok_Timing)

theorem controller_trace_ok_witness:
  "\<exists>H. map (\<lambda>(c, t). (cmd_type c, t)) H = [(READ, 4), (ACTIVATE, 1)] \<and>
     table_ok ex_cfg (Timing ex_cfg) H \<and> protocol_ok ex_cfg H"
proof -
  obtain ct where ct: "ct_run ex_cfg (Timing ex_cfg) ct {#(64, 0), (128, 1), (64, 0)#} {#(64, 0), (128, 1)#}"
    "map (\<lambda>(c, t). (cmd_type c, t)) (cmd_trace ct) = [(READ, 4), (ACTIVATE, 1)]" by (rule ex_state)
  from controller_trace_ok [OF ct(1) ex_cfg_ok] ct(2) show ?thesis
    by (intro exI [of _ "cmd_trace ct"]) simp
qed

text \<open>C1. No transaction is lost, duplicated or invented: at every moment the transactions a
  controller accepted are, as a multiset of addresses and kinds, exactly those it has returned
  and those it still holds.\<close>

theorem transactions_conserved:
  assumes "ct_run cfg tim ct A R" and "cfg_ok cfg tim"
  shows "A = R + outstanding ct"
  by (rule ct_runD(3) [OF assms])

theorem transactions_conserved_witness:
  "\<exists>ct. ct_run ex_cfg (Timing ex_cfg) ct {#(64, 0), (128, 1), (64, 0)#} {#(64, 0), (128, 1)#} \<and>
     outstanding ct = {#(64, 0)#}"
proof -
  obtain ct where ct: "ct_run ex_cfg (Timing ex_cfg) ct {#(64, 0), (128, 1), (64, 0)#} {#(64, 0), (128, 1)#}"
    by (rule ex_state)
  from transactions_conserved [OF ct ex_cfg_ok] have "outstanding ct = {#(64, 0)#}"
    by (simp add: add_mset_commute)
  with ct show ?thesis by blast
qed

text \<open>Every address with pending reads waits exactly once, in a buffer or as a command in the
  queues, however many reads of it are pending, and so does every address with a pending write;
  nothing else waits.\<close>

theorem pending_waits_once:
  assumes "ct_run cfg tim ct A R" and "cfg_ok cfg tim"
  shows "reads_due ct = mset_set (keys (pending_rd_q ct)) \<and>
    writes_due ct = mset_set (keys (pending_wr_q ct)) \<and> distinct (map fst (pending_wr_q ct))"
  using ct_runD(4) [OF assms] by (simp add: acct_no_cmd)

theorem pending_waits_once_witness:
  "\<exists>ct :: controller. ct_clk ct = 12 \<and> reads_due ct = mset_set (keys (pending_rd_q ct))"
proof -
  obtain ct where ct: "ct_run ex_cfg (Timing ex_cfg) ct {#(64, 0), (128, 1), (64, 0)#} {#(64, 0), (128, 1)#}"
    "ct_clk ct = 12" by (rule ex_state)
  from pending_waits_once [OF ct(1) ex_cfg_ok] ct(2) show ?thesis by blast
qed

text \<open>C17. A read is never overtaken by a write of its address: with separate buffers, no write
  command enters the command queues while a read of the same address is pending.\<close>

theorem reads_before_writes:
  assumes "ct_run cfg tim ct A R" and "cfg_ok cfg tim" and "\<not> unified_queue cfg"
    and "c \<in> set (queued (ct_queue ct))" and "IsWrite c"
  shows "mm_count (pending_rd_q ct) (hex_addr c) = 0 \<and> 0 < mm_count (pending_wr_q ct) (hex_addr c)"
proof -
  from ct_runD(6) [OF assms(1,2)] assms(3) have "\<not> is_unified_queue ct" by (simp add: mode_inv_def)
  with ct_runD(5) [OF assms(1,2)] assms(4,5) queued_write_pending [OF ct_runD(4) [OF assms(1,2)] assms(4,5)]
  show ?thesis by (auto simp: excl_def mm_count_0 mm_count_pos)
qed

theorem reads_before_writes_witness:
  "\<exists>ct :: controller. 0 < mm_count (pending_wr_q ct) 64 \<and> mm_count (pending_rd_q ct) 64 = 0"
proof -
  obtain ct A R c where c: "ct_run ex_cfg (Timing ex_cfg) ct A R" "c \<in> set (queued (ct_queue ct))"
    "cmd_type c = WRITE" "hex_addr c = 64" by (rule ex_write_state)
  have "\<not> unified_queue ex_cfg" "IsWrite c" by (simp_all add: ex_fields cmd_kind_defs c(3))
  from reads_before_writes [OF c(1) ex_cfg_ok this(1) c(2) this(2)] c(4) show ?thesis by auto
qed

text \<open>The buffers of a controller never hold more transactions than the configured size, and
  are never reallocated, when transactions are only added after \<open>WillAcceptTransaction\<close>.\<close>

theorem buffers_bounded:
  assumes "ct_run cfg tim ct A R" and "cfg_ok cfg tim"
    and "v \<in> (if unified_queue cfg then {uni_queue ct} else {read_queue ct, write_buffer ct})"
  shows "int (length (tv_items v)) \<le> trans_queue_size cfg \<and> tv_capacity v = nat (trans_queue_size cfg)"
proof -
  from ct_runD(2) [OF assms(1,2)] assms(3) have "tv_capacity v = nat (trans_queue_size cfg)"
    "length (tv_items v) \<le> nat (trans_queue_size cfg)" unfolding cap_inv_def by fastforce+
  moreover have "0 \<le> trans_queue_size cfg" using assms(2) by (simp add: cfg_ok_def)
  ultimately show ?thesis by linarith
qed

theorem buffers_bounded_witness:
  "\<exists>ct :: controller. ct_clk ct = 12 \<and> int (length (tv_items (read_queue ct))) \<le> 32"
proof -
  obtain ct where ct: "ct_run ex_cfg (Timing ex_cfg) ct {#(64, 0), (128, 1), (64, 0)#} {#(64, 0), (128, 1)#}"
    "ct_clk ct = 12" by (rule ex_state)
  have "read_queue ct \<in> (if unified_queue ex_cfg then {uni_queue ct} else {read_queue ct, write_buffer ct})"
    by (simp add: ex_fields)
  from buffers_bounded [OF ct(1) ex_cfg_ok this] ct(2) show ?thesis
    by (intro exI [of _ ct]) (simp add: ex_fields)
qed

text \<open>A cycle issues at most one command, or two where the memory has two command buses, all
  in the cycle's own time; it moves the clock by one and accepts, returns or drops no
  transaction.\<close>

theorem commands_per_cycle:
  assumes "ct_run cfg tim ct A R" and "cfg_ok cfg tim" and "dual_ok cfg tim (ct_clk ct)"
    and "ct_clk ct < ct_clk ct + 1" and "ct_ClockTick cfg tim ct = Inr ct'"
  shows "ct_clk ct' = ct_clk ct + 1 \<and> outstanding ct' = outstanding ct \<and>
    (\<exists>new. cmd_trace ct' = new @ cmd_trace ct \<and>
       length new \<le> (if enable_hbm_dual_cmd cfg then 2 else 1) \<and> (\<forall>(c, t) \<in> set new. t = ct_clk ct))"
  using ct_ClockTick_ok [OF assms(2) ct_runD(1) [OF assms(1,2)] assms(3,4)] assms(5)
  by (simp add: outstanding_def)

theorem commands_per_cycle_witness:
  "\<exists>ct ct' new. ct_ClockTick ex_cfg (Timing ex_cfg) ct = Inr ct' \<and> ct_clk ct' = 13 \<and>
     cmd_trace ct' = new @ cmd_trace ct \<and> length new \<le> 1"
proof -
  obtain ct where ct: "ct_run ex_cfg (Timing ex_cfg) ct {#(64, 0), (128, 1), (64, 0)#} {#(64, 0), (128, 1)#}"
    "ct_clk ct = 12" by (rule ex_state)
  have clk: "ct_clk ct < ct_clk ct + 1" by (simp add: ct(2))
  from ct_ClockTick_ok [OF ex_cfg_ok ct_runD(1) [OF ct(1) ex_cfg_ok] ex_dual_ok clk] obtain ct' where
    t: "ct_ClockTick ex_cfg (Timing ex_cfg) ct = Inr ct'" by (auto simp: okE_iff)
  from commands_per_cycle [OF ct(1) ex_cfg_ok ex_dual_ok clk t] ct(2) t show ?thesis
    by (auto simp: ex_fields)
qed

text \<open>Issuing a read answers every pending read of its address at once: all of them move, in
  their order, to the return queue with the cycle now + \<open>read_delay\<close>, and no read of the address
  stays pending.\<close>

theorem read_serves_all:
  assumes "IsRead cmd" and "0 < mm_count (pending_rd_q ct) (hex_addr cmd)"
  shows "okE (\<lambda>(n, ct'). mm_count (pending_rd_q ct') (hex_addr cmd) = 0 \<and>
      return_queue ct' = return_queue ct @ map (\<lambda>t. t\<lparr>complete_cycle := ct_clk ct + of_c_int (read_delay cfg)\<rparr>)
        (mm_entries (pending_rd_q ct) (hex_addr cmd)))
    (issue_pending cfg cmd ct)"
proof -
  have "has_pending cmd ct" using assms by (simp add: has_pending_def mm_count_pos)
  from issue_pending_ok [OF this, of cfg] show ?thesis
    using assms(1) by (auto simp: rd_after_def returned_by_def served_def mm_count_0 keys_filter elim!: okE_mono)
qed

theorem read_serves_all_witness:
  "\<exists>ct ct' n. issue_pending ex_cfg (Command READ (Address 0 0 0 0 0 1) 64) ct = Inr (n, ct') \<and>
     mm_count (pending_rd_q ct) 64 = 1 \<and> mm_count (pending_rd_q ct') 64 = 0"
proof -
  obtain ct :: controller where ct: "mm_count (pending_rd_q ct) 64 = 1" by (rule ex_state) (rule that)
  let ?cmd = "Command READ (Address 0 0 0 0 0 1) 64"
  have c: "IsRead ?cmd" "0 < mm_count (pending_rd_q ct) (hex_addr ?cmd)"
    using ct by (simp_all add: cmd_kind_defs cmd_field_defs)
  from read_serves_all [OF c, of ex_cfg] ct show ?thesis by (auto simp: okE_iff cmd_field_defs)
qed

text \<open>C37. A configuration that the reader accepts is fit for a controller: with a well-formed
  address mapping, positive refresh intervals, a queue structure the program knows, sizes of the
  transaction buffers and command queues that are not negative and no self refresh, the address
  mapping stays within the ranks and
  banks of the channel and the timing table is well formed. If moreover all distances between reads
  and writes are positive (\<open>rw_apart\<close>), no two of them fit into one cycle before
  cycle \<open>2 ^ 63\<close>, as a stack that issues two commands needs.\<close>

theorem config_fit:
  assumes "Config rd c0 = Inr c" and "mapping_wf c" and "refresh_cfg_ok c"
    and "queue_structure c = ''PER_BANK'' \<or> queue_structure c = ''PER_RANK''"
    and "0 \<le> trans_queue_size c" and "0 \<le> cmd_queue_size c" and "\<not> enable_self_refresh c"
  shows "cfg_wf c \<and> addr_ok c \<and> timing_wf (Timing c) \<and> sref_rank_only (Timing c) \<and>
    (rw_apart c \<longrightarrow> (\<forall>clk. unat clk < 2 ^ 63 \<longrightarrow> rw_spaced (Timing c) clk))"
  using Config_ok [OF assms] rw_spaced_Timing by (simp add: cfg_ok_def)

theorem config_fit_witness:
  "cfg_wf ex_cfg \<and> addr_ok ex_cfg \<and> timing_wf (Timing ex_cfg) \<and> sref_rank_only (Timing ex_cfg) \<and>
     {clk. unat clk < 2 ^ 63} \<subseteq> {clk. rw_spaced (Timing ex_cfg) clk}"
proof -
  have "rw_apart ex_cfg" by code_simp
  then show ?thesis using config_fit [OF ex_Config] by (auto simp: ex_fields mapping_wf_def refresh_cfg_ok_def)
qed

end
