(* ===== verification/Channel_Properties.thy ===== *)
theory Channel_Properties
  imports Timing_Table Default_Config
begin

text \<open>
  The properties of a channel: its constraints, its runs, and the gap in the constraints of a
  refresh of one bank.
\<close>

lemma ex_cfg_wf: "cfg_wf ex_cfg"
  by (simp add: cfg_wf_def ex_fields)

section \<open>The constraints\<close>

text \<open>C11. \<open>UpdateTiming\<close>, five nested loops over the banks of a channel, is equivalent to its
  specification: the earliest cycle of every kind of command at every bank becomes the maximum of
  itself and the cycles that the timing table asks for at a bank in this relation to the command
  (same bank, other bank of the bank group, other bank group, other rank), and nothing else of any
  bank changes.\<close>

theorem UpdateTiming_equals_table:
  assumes "chan_shape cfg cs" and "timing_wf tim" and "cmd_in_range cfg cmd"
  shows "okE (\<lambda>cs'. \<forall>q. vec3_lookup (bank_states cs') q =
      map_option (\<lambda>b. b\<lparr>cmd_timing := (\<lambda>ct. fold max (map (\<lambda>d. clk + of_c_int d)
          (delays ct (constraints_at tim cmd q))) (cmd_timing b ct))\<rparr>)
        (vec3_lookup (bank_states cs) q)) (UpdateTiming cfg tim cmd clk cs)"
  using UpdateTiming_ok [OF assms, of clk]
  by (auto simp: raise_timings_def elim!: okE_mono intro!: map_option_cong)

theorem UpdateTiming_equals_table_witness:
  "okE (\<lambda>cs'. vec3_lookup (bank_states cs') (0, 1, 0) =
      Some (BankState\<lparr>cmd_timing := (\<lambda>ct. if ct \<in> {READ, READ_PRECHARGE} then 14
        else if ct \<in> {WRITE, WRITE_PRECHARGE} then 16 else 0)\<rparr>))
    (UpdateTiming ex_cfg (Timing ex_cfg) (Command READ (Address 0 0 0 0 5 0) 64) 10 (ChannelState ex_cfg))"
proof -
  let ?cmd = "Command READ (Address 0 0 0 0 5 0) 64"
  have c: "constraints_at (Timing ex_cfg) ?cmd (0, 1, 0) =
      [(READ, 4), (WRITE, 6), (READ_PRECHARGE, 4), (WRITE_PRECHARGE, 6)]" by code_simp
  have l: "vec3_lookup (bank_states (ChannelState ex_cfg)) (0, 1, 0) = Some BankState"
    by (simp add: ChannelState_def vec3_lookup_replicate ex_fields)
  have r: "cmd_in_range ex_cfg ?cmd" by (simp add: cmd_in_range_def cmd_kind_defs place_of_def ex_fields)
  have b: "BankState\<lparr>cmd_timing := (\<lambda>ct. fold max (map (\<lambda>d. 10 + of_c_int d)
        (delays ct [(READ, 4), (WRITE, 6), (READ_PRECHARGE, 4), (WRITE_PRECHARGE, 6)])) (cmd_timing BankState ct))\<rparr> =
      BankState\<lparr>cmd_timing := (\<lambda>ct. if ct \<in> {READ, READ_PRECHARGE} then 14
        else if ct \<in> {WRITE, WRITE_PRECHARGE} then 16 else 0)\<rparr>"
    by (rule bank_state.equality) (auto simp: fun_eq_iff delays_def BankState_def of_c_int_def)
  show ?thesis
    using UpdateTiming_equals_table [OF chan_shape_init timing_wf_Timing r, of 10 ex_cfg]
    by (auto simp: l c b simp del: delays_def elim!: okE_mono)
qed

text \<open>A refresh of one bank puts no constraint on that bank: the table keeps the distance
  after \<open>REFRESH_BANK\<close> in \<open>same_rank\<close>, which \<open>UpdateTiming\<close> reads only for commands of a rank, so
  the refreshed bank may be activated again at once, without the time \<open>tRFCb\<close>.\<close>

theorem refreshed_bank_unconstrained:
  assumes "chan_shape cfg cs" and "cmd_in_range cfg cmd" and "cmd_type cmd = REFRESH_BANK"
  shows "okE (\<lambda>cs'. vec3_lookup (bank_states cs') (Rank cmd, Bankgroup cmd, Bank cmd) =
      vec3_lookup (bank_states cs) (Rank cmd, Bankgroup cmd, Bank cmd))
    (UpdateTiming cfg (Timing cfg) cmd clk cs)"
proof -
  have "constraints_at (Timing cfg) cmd (Rank cmd, Bankgroup cmd, Bank cmd) = []"
    using assms(3) by (simp add: constraints_at_def Timing_def timing_list_defs cmd_kind_defs Let_def)
  moreover have "raise_timings clk [] = (\<lambda>b. b)" by (rule ext) simp
  ultimately show ?thesis
    using UpdateTiming_ok [OF assms(1) timing_wf_Timing [of cfg] assms(2), of clk]
    by (auto simp: option.map_ident elim!: okE_mono)
qed

theorem refreshed_bank_unconstrained_witness:
  "okE (\<lambda>cs'. vec3_lookup (bank_states cs') (1, 0, 0) = Some BankState)
    (UpdateTiming ex_cfg (Timing ex_cfg) (Command REFRESH_BANK (Address (-1) 1 0 0 (-1) (-1)) 0) 10
      (ChannelState ex_cfg))"
proof -
  let ?cmd = "Command REFRESH_BANK (Address (-1) 1 0 0 (-1) (-1)) 0"
  have l: "vec3_lookup (bank_states (ChannelState ex_cfg)) (1, 0, 0) = Some BankState"
    by (simp add: ChannelState_def vec3_lookup_replicate ex_fields)
  have r: "cmd_in_range ex_cfg ?cmd" by (simp add: cmd_in_range_def cmd_kind_defs place_of_def ex_fields)
  show ?thesis
    using refreshed_bank_unconstrained [OF chan_shape_init r, of 10] by (simp add: l cmd_field_defs)
qed

section \<open>Runs\<close>

text \<open>A channel never stops the program: in every state it reaches, a read, a write, a refresh
  of an awake rank or bank and a request for self refresh get an answer, and the command answered
  can be executed.\<close>

theorem channel_never_stops:
  assumes "chan_run cfg tim cs H now" and "cfg_wf cfg" and "timing_wf tim" and "sref_rank_only tim"
    and "request_ok cfg cs cmd"
  shows "okE (\<lambda>(r, cs'). IsValid r \<longrightarrow> okE (\<lambda>_. True) (UpdateTimingAndStates cfg tim r now cs'))
    (GetReadyCommand cfg cmd now cs)"
proof -
  note inv = chan_run_inv [OF assms(1-4)]
  from GetReadyCommand_ok [OF inv assms(5), of now] obtain r cs' where
    g: "GetReadyCommand cfg cmd now cs = Inr (r, cs')" by (auto simp: okE_iff)
  have "cmd_in_range cfg cmd" using assms(5) by (simp add: request_ok_def)
  note ready = ready_then_exec [OF assms(2-4) inv this order_refl g]
  have "okE (\<lambda>_. True) (UpdateTimingAndStates cfg tim r now cs')" if "IsValid r"
    using chan_inv_exec [OF ready(1) [OF that] order_refl assms(3) ready(2) [OF that]] by (auto elim!: okE_mono)
  then show ?thesis by (simp add: g)
qed

text \<open>C14. Every command a channel executes obeys the memory's rules: the cycles never decrease;
  between any two commands lie the distances the timing table lists for the relation of their
  places, with one exception, the \<open>same_rank\<close> distances after \<open>REFRESH_BANK\<close>, which
  \<open>UpdateTiming\<close> never applies; every bank
  executes only commands its state allows, reads and writes only in the row it has open; and no
  rank gets a fifth activation within \<open>tFAW\<close> cycles (with GDDR, a 33rd within \<open>t32AW\<close>).\<close>

theorem channel_trace_ok:
  assumes "chan_run cfg (Timing cfg) cs H now" and "cfg_wf cfg"
  shows "times_sorted H \<and> table_ok cfg (Timing cfg) H \<and> protocol_ok cfg H \<and> windows_ok cfg H"
  using chan_run_inv [OF assms timing_wf_Timing sref_rank_only_Timing]
  by (simp add: chan_inv_def trace_ok_def table_ok_Timing)

section \<open>A run of the example channel\<close>

definition ex_request :: command where
  "ex_request = Command READ (Address 0 1 1 0 5 0) 64"

lemma ex_request_ok: "request_ok ex_cfg cs ex_request"
  by (simp add: request_ok_def ex_request_def cmd_in_range_def cmd_kind_defs place_of_def ex_fields)

lemma ex_chan_run:
  obtains cs where "chan_run ex_cfg (Timing ex_cfg) cs [(Command ACTIVATE (Address 0 1 1 0 5 0) 64, 7)] 7"
proof -
  have start: "chan_run ex_cfg (Timing ex_cfg) (ChannelState ex_cfg) [] 7"
    by (rule run_time [OF run_start]) simp
  have "okE (\<lambda>(r, cs'). r = Command ACTIVATE (Address 0 1 1 0 5 0) 64 \<and>
      okE (\<lambda>_. True) (UpdateTimingAndStates ex_cfg (Timing ex_cfg) r 7 cs'))
    (GetReadyCommand ex_cfg ex_request 7 (ChannelState ex_cfg))" by code_simp
  then obtain r cs' cs'' where r: "GetReadyCommand ex_cfg ex_request 7 (ChannelState ex_cfg) = Inr (r, cs')"
    "r = Command ACTIVATE (Address 0 1 1 0 5 0) 64"
    "UpdateTimingAndStates ex_cfg (Timing ex_cfg) r 7 cs' = Inr cs''" by (auto simp: okE_iff)
  have "IsValid r" by (simp add: r(2) cmd_kind_defs)
  from that [OF run_exec [OF start ex_request_ok r(1) this r(3), unfolded r(2)]] show thesis .
qed

text \<open>The read is given back as soon as the row is open long enough.\<close>

lemma ex_chan_run_read:
  obtains cs where "chan_run ex_cfg (Timing ex_cfg) cs
    [(ex_request, 10), (Command ACTIVATE (Address 0 1 1 0 5 0) 64, 7)] 10"
proof -
  let ?C = "ChannelState ex_cfg" and ?T = "Timing ex_cfg"
  have start: "chan_run ex_cfg ?T ?C [] 7" by (rule run_time [OF run_start]) simp
  have "okE (\<lambda>(r, cs'). r = Command ACTIVATE (Address 0 1 1 0 5 0) 64 \<and>
      okE (\<lambda>c. okE (\<lambda>(r', c'). r' = ex_request \<and> okE (\<lambda>_. True) (UpdateTimingAndStates ex_cfg ?T r' 10 c'))
        (GetReadyCommand ex_cfg ex_request 10 c)) (UpdateTimingAndStates ex_cfg ?T r 7 cs'))
    (GetReadyCommand ex_cfg ex_request 7 ?C)" by code_simp
  then obtain r cs' c r' c' c'' where r: "GetReadyCommand ex_cfg ex_request 7 ?C = Inr (r, cs')"
    "r = Command ACTIVATE (Address 0 1 1 0 5 0) 64" "UpdateTimingAndStates ex_cfg ?T r 7 cs' = Inr c"
    "GetReadyCommand ex_cfg ex_request 10 c = Inr (r', c')" "r' = ex_request"
    "UpdateTimingAndStates ex_cfg ?T r' 10 c' = Inr c''" by (auto simp: okE_iff)
  have v: "IsValid r" "IsValid r'" by (simp_all add: r(2,5) ex_request_def cmd_kind_defs)
  have "chan_run ex_cfg ?T c [(r, 7)] 10"
    by (rule run_time [OF run_exec [OF start ex_request_ok r(1) v(1) r(3)]]) simp
  from that [OF run_exec [OF this ex_request_ok r(4) v(2) r(6), unfolded r(2,5)]] show thesis .
qed

theorem channel_never_stops_witness:
  "\<exists>cs. chan_run ex_cfg (Timing ex_cfg) cs [(Command ACTIVATE (Address 0 1 1 0 5 0) 64, 7)] 7 \<and>
     okE (\<lambda>_. True) (GetReadyCommand ex_cfg ex_request 7 cs)"
proof -
  obtain cs where c: "chan_run ex_cfg (Timing ex_cfg) cs [(Command ACTIVATE (Address 0 1 1 0 5 0) 64, 7)] 7"
    by (rule ex_chan_run)
  from channel_never_stops [OF c ex_cfg_wf timing_wf_Timing sref_rank_only_Timing ex_request_ok] c
  show ?thesis by (auto elim!: okE_mono)
qed

theorem channel_trace_ok_witness:
  "table_ok ex_cfg (Timing ex_cfg) [(ex_request, 10), (Command ACTIVATE (Address 0 1 1 0 5 0) 64, 7)] \<and>
     protocol_ok ex_cfg [(ex_request, 10), (Command ACTIVATE (Address 0 1 1 0 5 0) 64, 7)]"
proof -
  obtain cs where c: "chan_run ex_cfg (Timing ex_cfg) cs
    [(ex_request, 10), (Command ACTIVATE (Address 0 1 1 0 5 0) 64, 7)] 10" by (rule ex_chan_run_read)
  from channel_trace_ok [OF c ex_cfg_wf] show ?thesis by simp
qed

end
