(* ===== verification/Queue_Properties.thy ===== *)
theory Queue_Properties
  imports CommandQueue Refresh Channel_Properties
begin

text \<open>
  The properties of the command queues and of the refresh generator.
\<close>

section \<open>The command queues\<close>

text \<open>A read of the example channel, empty queues, and queues that hold the read.\<close>

definition ex_read :: command where
  "ex_read = Command READ (Address 0 1 1 0 5 0) 188416"

definition ex_write :: command where
  "ex_write = Command WRITE (Address 0 1 1 0 5 0) 188416"

lemma ex_read_ok: "queued_cmd_ok ex_cfg ex_read" and ex_write_ok: "queued_cmd_ok ex_cfg ex_write"
proof -
  have "AddressMapping ex_cfg 188416 = Address 0 1 1 0 5 0" by code_simp
  then show "queued_cmd_ok ex_cfg ex_read" "queued_cmd_ok ex_cfg ex_write"
    by (simp_all add: ex_read_def ex_write_def queued_cmd_ok_def cmd_in_range_def cmd_kind_defs place_of_def ex_fields cmd_field_defs)
qed

lemma ex_empty_queue:
  obtains cq where "CommandQueue ex_cfg = Inr cq" and "cq_inv ex_cfg cq" and "queued cq = []"
    and "\<not> is_in_ref cq"
  using CommandQueue_ok [OF ex_cfg_wf, unfolded ex_fields] by (auto simp: ex_fields okE_iff)

definition ex_queue :: "command \<Rightarrow> cmd_queue result" where
  "ex_queue c = bindE (CommandQueue ex_cfg) (\<lambda>cq. bindE (AddCommand ex_cfg c cq) (\<lambda>(_, cq'). Inr cq'))"

lemma ex_queue_inv:
  assumes c: "queued_cmd_ok ex_cfg c" and q: "ex_queue c = Inr cq"
  shows "cq_inv ex_cfg cq \<and> \<not> is_in_ref cq"
proof -
  obtain cq0 where cq0: "CommandQueue ex_cfg = Inr cq0" "cq_inv ex_cfg cq0" "queued cq0 = []" "\<not> is_in_ref cq0"
    by (rule ex_empty_queue)
  from AddCommand_ok [OF ex_cfg_wf cq0(2) c] obtain b cq' where
    a: "AddCommand ex_cfg c cq0 = Inr (b, cq')" "cq_inv ex_cfg cq'" "is_in_ref cq' = is_in_ref cq0"
    by (auto simp: okE_iff)
  from q have "cq = cq'" by (simp add: ex_queue_def cq0(1) a(1))
  with a cq0(4) show ?thesis by simp
qed

text \<open>The run of the example channel that opens the row of the read, in cycle 7: then the queues
  answer with the read in cycle 20.\<close>

definition at_clock :: "u64 \<Rightarrow> cmd_queue \<Rightarrow> cmd_queue" where
  "at_clock clk cq = cq\<lparr>cq_clk := clk\<rparr>"

lemma at_clock_inv: "cq_inv cfg cq \<Longrightarrow> cq_inv cfg (at_clock clk cq)"
  by (rule cq_inv_cong [of _ cq]) (auto simp: at_clock_def cq_inv_def cq_shape_def)

lemma ex_open_run:
  assumes "okE (\<lambda>(r, cs'). r = Command ACTIVATE (Address 0 1 1 0 5 0) 64 \<and>
      okE P (UpdateTimingAndStates ex_cfg (Timing ex_cfg) r 7 cs'))
    (GetReadyCommand ex_cfg ex_request 7 (ChannelState ex_cfg))"
  obtains cs H where "chan_inv ex_cfg (Timing ex_cfg) cs H 7" and "P cs"
proof -
  have start: "chan_run ex_cfg (Timing ex_cfg) (ChannelState ex_cfg) [] 7"
    by (rule run_time [OF run_start]) simp
  from assms obtain r cs' cs'' where r: "GetReadyCommand ex_cfg ex_request 7 (ChannelState ex_cfg) = Inr (r, cs')"
    "r = Command ACTIVATE (Address 0 1 1 0 5 0) 64"
    "UpdateTimingAndStates ex_cfg (Timing ex_cfg) r 7 cs' = Inr cs''" "P cs''" by (auto simp: okE_iff)
  have "IsValid r" by (simp add: r(2) cmd_kind_defs)
  from run_exec [OF start ex_request_ok r(1) this r(3)]
  have "chan_run ex_cfg (Timing ex_cfg) cs'' [(r, 7)] 7" .
  from that [OF chan_run_inv [OF this ex_cfg_wf timing_wf_Timing sref_rank_only_Timing] r(4)] show thesis .
qed

text \<open>The queues never lose or duplicate a command: \<open>AddCommand\<close> adds the command exactly
  when \<open>WillAcceptCommand\<close> said so and leaves the queues alone otherwise, and the invariant of the
  queues (every command in the queue of its bank or rank, no queue beyond its size) holds again.\<close>

theorem AddCommand_adds_once:
  assumes "cfg_wf cfg" and "cq_inv cfg cq" and "queued_cmd_ok cfg cmd"
  shows "okE (\<lambda>(added, cq'). cq_inv cfg cq' \<and>
      cq_WillAcceptCommand cfg cq (Rank cmd) (Bankgroup cmd) (Bank cmd) = Inr added \<and>
      mset (queued cq') = mset (queued cq) + (if added then {#cmd#} else {#}))
    (AddCommand cfg cmd cq)"
  using AddCommand_ok [OF assms] by (auto elim!: okE_mono)

theorem AddCommand_adds_once_witness:
  "\<exists>cq. okE (\<lambda>(added, cq'). added \<and> mset (queued cq') = {#ex_read#}) (AddCommand ex_cfg ex_read cq)"
proof -
  obtain cq where cq: "CommandQueue ex_cfg = Inr cq" "cq_inv ex_cfg cq" "queued cq = []" by (rule ex_empty_queue)
  have "okE (\<lambda>cq. cq_WillAcceptCommand ex_cfg cq 1 1 0 = Inr True) (CommandQueue ex_cfg)" by code_simp
  with cq(1) have "cq_WillAcceptCommand ex_cfg cq 1 1 0 = Inr True" by simp
  with AddCommand_adds_once [OF ex_cfg_wf cq(2) ex_read_ok] cq(3) show ?thesis
    by (intro exI [of _ cq]) (auto simp: ex_read_def cmd_field_defs elim!: okE_mono)
qed

text \<open>C34. What \<open>GetCommandToIssue\<close> returns may be executed now; a read or write it returns was
  in the queues and leaves them exactly once, and nothing else leaves them.\<close>

theorem GetCommandToIssue_sound:
  assumes "cfg_wf cfg" and "sref_rank_only tim" and "chan_inv cfg tim cs H now"
    and "stats_ok cfg ss" and "cq_inv cfg cq"
  shows "okE (\<lambda>(cmd, cq', cs', _). cq_inv cfg cq' \<and>
      (IsValid cmd \<longrightarrow> issuable cfg cs' cmd (cq_clk cq)) \<and>
      (if IsReadWrite cmd then cmd \<in> set (queued cq) \<and> mset (queued cq') = mset (queued cq) - {#cmd#}
       else mset (queued cq') = mset (queued cq)))
    (GetCommandToIssue cfg cq cs ss)"
  using GetCommandToIssue_ok [OF assms]
  by (auto simp: issue_result_def issue_ready_def ready_from_def elim!: okE_mono)

theorem GetCommandToIssue_sound_witness:
  "\<exists>cq cq' cs cs' ss'. ex_queue ex_read = Inr cq \<and> queued cq = [ex_read] \<and> queued cq' = [] \<and>
     GetCommandToIssue ex_cfg (at_clock 20 cq) cs (SimpleStats ex_cfg) = Inr (ex_read, cq', cs', ss')"
proof -
  have "okE (\<lambda>(r, cs'). r = Command ACTIVATE (Address 0 1 1 0 5 0) 64 \<and>
      okE (\<lambda>cs. okE (\<lambda>cq. queued cq = [ex_read] \<and> okE (\<lambda>(cmd, _). cmd = ex_read)
          (GetCommandToIssue ex_cfg (at_clock 20 cq) cs (SimpleStats ex_cfg))) (ex_queue ex_read))
        (UpdateTimingAndStates ex_cfg (Timing ex_cfg) r 7 cs'))
    (GetReadyCommand ex_cfg ex_request 7 (ChannelState ex_cfg))" by code_simp
  from ex_open_run [OF this] obtain cs H where inv: "chan_inv ex_cfg (Timing ex_cfg) cs H 7" and
    "okE (\<lambda>cq. queued cq = [ex_read] \<and> okE (\<lambda>(cmd, _). cmd = ex_read)
          (GetCommandToIssue ex_cfg (at_clock 20 cq) cs (SimpleStats ex_cfg))) (ex_queue ex_read)" .
  then obtain cq cq' cs' ss' where q: "ex_queue ex_read = Inr cq" "queued cq = [ex_read]"
    "GetCommandToIssue ex_cfg (at_clock 20 cq) cs (SimpleStats ex_cfg) = Inr (ex_read, cq', cs', ss')"
    by (auto simp: okE_iff)
  have "cq_inv ex_cfg (at_clock 20 cq)" using ex_queue_inv [OF ex_read_ok q(1)] by (simp add: at_clock_inv)
  from GetCommandToIssue_sound [OF ex_cfg_wf sref_rank_only_Timing inv stats_ok_init this] q
  have "queued cq' = []" by (simp add: ex_read_def cmd_kind_defs at_clock_def queued_def)
  with q show ?thesis by blast
qed

text \<open>No write overtakes an earlier read of the same column: a write that
  \<open>GetCommandToIssue\<close> returns has no read of its row and column before it in its queue.\<close>

theorem write_after_reads:
  assumes "cfg_wf cfg" and "sref_rank_only tim" and "chan_inv cfg tim cs H now"
    and "stats_ok cfg ss" and "cq_inv cfg cq"
  shows "okE (\<lambda>(cmd, _). IsWrite cmd \<longrightarrow> (\<exists>pre rest.
      queues cq ! nat (GetQueueIndex cfg cq (Rank cmd) (Bankgroup cmd) (Bank cmd)) = pre @ cmd # rest \<and>
      \<not> HasRWDependency pre cmd))
    (GetCommandToIssue cfg cq cs ss)"
proof -
  have "\<exists>pre rest. queues cq ! nat (GetQueueIndex cfg cq (Rank cmd) (Bankgroup cmd) (Bank cmd)) = pre @ cmd # rest \<and>
      \<not> HasRWDependency pre cmd"
    if "IsValid cmd \<longrightarrow> issue_ready cfg cq cs' cmd" and w: "IsWrite cmd" for cmd cs'
  proof -
    have "IsValid cmd" "IsReadWrite cmd" using w by (auto simp: cmd_kind_defs)
    with that show ?thesis unfolding issue_ready_def ready_from_def by blast
  qed
  with GetCommandToIssue_ok [OF assms] show ?thesis by (auto elim!: okE_mono)
qed

theorem write_after_reads_witness:
  "\<exists>cq pre rest. ex_queue ex_write = Inr cq \<and> queues cq ! 3 = pre @ ex_write # rest \<and>
     \<not> HasRWDependency pre ex_write"
proof -
  have "okE (\<lambda>(r, cs'). r = Command ACTIVATE (Address 0 1 1 0 5 0) 64 \<and>
      okE (\<lambda>cs. okE (\<lambda>cq. okE (\<lambda>(cmd, _). cmd = ex_write)
          (GetCommandToIssue ex_cfg (at_clock 20 cq) cs (SimpleStats ex_cfg))) (ex_queue ex_write))
        (UpdateTimingAndStates ex_cfg (Timing ex_cfg) r 7 cs'))
    (GetReadyCommand ex_cfg ex_request 7 (ChannelState ex_cfg))" by code_simp
  from ex_open_run [OF this] obtain cs H where inv: "chan_inv ex_cfg (Timing ex_cfg) cs H 7" and
    "okE (\<lambda>cq. okE (\<lambda>(cmd, _). cmd = ex_write)
          (GetCommandToIssue ex_cfg (at_clock 20 cq) cs (SimpleStats ex_cfg))) (ex_queue ex_write)" .
  then obtain cq cq' cs' ss' where q: "ex_queue ex_write = Inr cq"
    "GetCommandToIssue ex_cfg (at_clock 20 cq) cs (SimpleStats ex_cfg) = Inr (ex_write, cq', cs', ss')"
    by (auto simp: okE_iff)
  have "cq_inv ex_cfg (at_clock 20 cq)" using ex_queue_inv [OF ex_write_ok q(1)] by (simp add: at_clock_inv)
  moreover have "okE (\<lambda>cq. GetQueueIndex ex_cfg cq 1 1 0 = 3) (ex_queue ex_write)" by code_simp
  with q(1) have "nat (GetQueueIndex ex_cfg cq 1 1 0) = 3" by simp
  then have "nat (GetQueueIndex ex_cfg (at_clock 20 cq) 1 1 0) = 3" by (simp add: GetQueueIndex_def at_clock_def)
  ultimately show ?thesis
    using write_after_reads [OF ex_cfg_wf sref_rank_only_Timing inv stats_ok_init, of "at_clock 20 cq"] q
    by (simp add: ex_write_def cmd_kind_defs cmd_field_defs) (simp add: at_clock_def)
qed

text \<open>C16. A waiting refresh cannot be overtaken for ever: once \<open>FinishRefresh\<close> has started on a
  refresh that is not yet ready, \<open>GetCommandToIssue\<close> returns no command for the rank (or, for the
  refresh of a bank, the bank) that is to be refreshed.\<close>

theorem refresh_holds_queues_back:
  assumes wf: "cfg_wf cfg" and t: "sref_rank_only tim" and inv: "chan_inv cfg tim cs H now"
    and ss: "stats_ok cfg ss" and cq: "cq_inv cfg cq" and w: "refresh_q cs \<noteq> []"
    and awake: "\<not> rank_is_sref cs ! nat (Rank (hd (refresh_q cs)))"
    and hold: "holds_back cfg cq (hd (refresh_q cs))"
    and run: "FinishRefresh cfg cq cs = Inr (cmd, cq', cs')" and nr: "\<not> IsRefresh cmd"
  shows "okE (\<lambda>(c, _). IsValid c \<longrightarrow> Rank c \<noteq> Rank (hd (refresh_q cs)) \<or>
      (cmd_type (hd (refresh_q cs)) = REFRESH_BANK \<and> \<not> same_place c (hd (refresh_q cs))))
    (GetCommandToIssue cfg cq' cs' ss)"
proof -
  let ?ref = "hd (refresh_q cs)"
  from FinishRefresh_ok [OF wf t inv cq w awake hold] run nr have f: "chan_frame cs cs'" "cq_ref_same cq cq'"
    "holds_back cfg cq' ?ref" "is_in_ref cq'" by simp_all
  have cq': "cq_inv cfg cq'" by (rule cq_ref_same_inv [OF f(2) cq])
  have "Rank c \<noteq> Rank ?ref \<or> (cmd_type ?ref = REFRESH_BANK \<and> \<not> same_place c ?ref)"
    if "issue_ready cfg cq' cs'' c" for c cs''
  proof (rule ccontr)
    assume a: "\<not> ?thesis"
    from that obtain i where i: "0 \<le> i" "i < num_queues cq'" "i \<notin> ref_q_indices cq'"
      "ready_from cfg (cq_clk cq') (queues cq' ! nat i) cs'' c" using f(4) unfolding issue_ready_def by blast
    from ready_fromD [OF i(4)] obtain d where d: "d \<in> set (queues cq' ! nat i)" "addr c = addr d" by metis
    note q = cq_invD [OF cq' i(1,2) d(1)]
    have "Rank d = Rank ?ref" "cmd_type ?ref = REFRESH_BANK \<longrightarrow> Bankgroup d = Bankgroup ?ref \<and> Bank d = Bank ?ref"
      using a d(2) by (auto simp: same_place_def cmd_field_defs)
    with f(3,4) q i(3) show False unfolding holds_back_def by auto
  qed
  with GetCommandToIssue_ok [OF wf t chan_frame_inv [OF f(1) inv] ss cq'] show ?thesis
    by (auto elim!: okE_mono)
qed

theorem refresh_holds_queues_back_witness:
  "\<exists>cq cq' cs cs'. FinishRefresh ex_cfg cq (RankNeedRefresh 1 True cs) = Inr (Command_default, cq', cs') \<and>
     okE (\<lambda>(c, _). IsValid c \<longrightarrow> Rank c \<noteq> 1) (GetCommandToIssue ex_cfg cq' cs' (SimpleStats ex_cfg))"
proof -
  have "okE (\<lambda>(r, cs'). r = Command ACTIVATE (Address 0 1 1 0 5 0) 64 \<and>
      okE (\<lambda>cs. refresh_q cs = [] \<and> rank_is_sref cs = [False, False] \<and>
          okE (\<lambda>cq. okE (\<lambda>(cmd, _). cmd = Command_default)
            (FinishRefresh ex_cfg (at_clock 20 cq) (RankNeedRefresh 1 True cs))) (ex_queue ex_read))
        (UpdateTimingAndStates ex_cfg (Timing ex_cfg) r 7 cs'))
    (GetReadyCommand ex_cfg ex_request 7 (ChannelState ex_cfg))" by code_simp
  from ex_open_run [OF this] obtain cs H where inv: "chan_inv ex_cfg (Timing ex_cfg) cs H 7" and
    c: "refresh_q cs = [] \<and> rank_is_sref cs = [False, False] \<and>
      okE (\<lambda>cq. okE (\<lambda>(cmd, _). cmd = Command_default)
            (FinishRefresh ex_cfg (at_clock 20 cq) (RankNeedRefresh 1 True cs))) (ex_queue ex_read)" .
  let ?cs = "RankNeedRefresh 1 True cs"
  from c obtain cq cq' cs' where q: "ex_queue ex_read = Inr cq"
    "FinishRefresh ex_cfg (at_clock 20 cq) ?cs = Inr (Command_default, cq', cs')" by (auto simp: okE_iff)
  have "new_refreshes ex_cfg cs ?cs" using c by (intro new_refreshes_rank) (simp_all add: ex_fields)
  from new_refreshes_inv [OF this inv] have inv': "chan_inv ex_cfg (Timing ex_cfg) ?cs H 7" .
  have h: "hd (refresh_q ?cs) = Command REFRESH (Address (-1) 1 (-1) (-1) (-1) (-1)) (-1)" "refresh_q ?cs \<noteq> []"
    using c by (simp_all add: RankNeedRefresh_def)
  have "\<not> rank_is_sref ?cs ! nat (Rank (hd (refresh_q ?cs)))"
    using c by (simp add: h cmd_field_defs) (simp add: RankNeedRefresh_def)
  moreover have "holds_back ex_cfg (at_clock 20 cq) (hd (refresh_q ?cs))"
    using ex_queue_inv [OF ex_read_ok q(1)] by (simp add: holds_back_def at_clock_def)
  moreover have "cq_inv ex_cfg (at_clock 20 cq)" using ex_queue_inv [OF ex_read_ok q(1)] by (simp add: at_clock_inv)
  ultimately have "okE (\<lambda>(c, _). IsValid c \<longrightarrow> Rank c \<noteq> 1) (GetCommandToIssue ex_cfg cq' cs' (SimpleStats ex_cfg))"
    using refresh_holds_queues_back [OF ex_cfg_wf sref_rank_only_Timing inv' stats_ok_init _ h(2) _ _ q(2)]
    by (simp add: h(1) cmd_field_defs cmd_kind_defs Command_default_def)
  with q show ?thesis by blast
qed

section \<open>The order of refreshes\<close>

fun iterate_refresh :: "config \<Rightarrow> nat \<Rightarrow> refresh_state \<Rightarrow> refresh_state result" where
  "iterate_refresh cfg 0 rf = Inr rf"
| "iterate_refresh cfg (Suc n) rf = bindE (iterate_refresh cfg n rf) (IterateNext cfg)"

lemma iterate_refresh_order:
  assumes "cfg_wf cfg" and "refresh_policy cfg = BANK_LEVEL_STAGGERED" and "next_place rf = bank_refresh_order cfg 0"
  shows "okE (\<lambda>rf'. next_place rf' = bank_refresh_order cfg (int n)) (iterate_refresh cfg n rf)"
proof (induction n)
  case (Suc n)
  then obtain rf' where "iterate_refresh cfg n rf = Inr rf'" "next_place rf' = bank_refresh_order cfg (int n)"
    by (auto simp: okE_iff)
  with IterateNext_order [OF assms(1,2) this(2)] show ?case by (simp add: add.commute)
qed (simp add: assms(3))

text \<open>The number of a place within a round.\<close>

definition refresh_number :: "config \<Rightarrow> int \<times> int \<times> int \<Rightarrow> int" where
  "refresh_number cfg = (\<lambda>(r, g, b). (r * banks_per_group cfg + b) * bankgroups cfg + g)"

lemma mixed_radix:
  assumes "0 \<le> (a :: int)" "a < n" "0 \<le> i" "i < m"
  shows "0 \<le> a * m + i" "a * m + i < n * m" "(a * m + i) div m = a" "(a * m + i) mod m = i"
proof -
  from assms have "a * m + i < (a + 1) * m" by (simp add: algebra_simps)
  also have "\<dots> \<le> n * m" using assms by (intro mult_right_mono) simp_all
  finally show "a * m + i < n * m" .
  show "0 \<le> a * m + i" "(a * m + i) div m = a" "(a * m + i) mod m = i" using assms by simp_all
qed

lemma refresh_number_place:
  assumes wf: "cfg_wf cfg" and q: "in_range cfg q"
  shows "bank_refresh_order cfg (refresh_number cfg q) = q" "0 \<le> refresh_number cfg q"
    "refresh_number cfg q < ranks cfg * banks_per_group cfg * bankgroups cfg"
proof -
  obtain r g b where e: "q = (r, g, b)" by (cases q)
  from q have p: "0 \<le> r" "r < ranks cfg" "0 \<le> g" "g < bankgroups cfg" "0 \<le> b" "b < banks_per_group cfg"
    by (simp_all add: e)
  note i = mixed_radix [OF p(1,2,5,6)]
  note o = mixed_radix [OF i(1,2) p(3,4)]
  have "refresh_number cfg q div (bankgroups cfg * banks_per_group cfg) = r"
    using o(3) i(3) p by (simp add: refresh_number_def e zdiv_zmult2_eq)
  then show "bank_refresh_order cfg (refresh_number cfg q) = q"
    using o(3,4) i(4) p by (simp add: bank_refresh_order_def refresh_number_def e)
  show "0 \<le> refresh_number cfg q" "refresh_number cfg q < ranks cfg * banks_per_group cfg * bankgroups cfg"
    using o(1,2) by (simp_all add: refresh_number_def e)
qed

lemma div_bound:
  assumes "0 < (m :: int)" and "k < n * m"
  shows "k div m < n"
proof (rule ccontr)
  assume "\<not> k div m < n"
  then have "n * m \<le> (k div m) * m" using assms(1) by (intro mult_right_mono) simp_all
  also have "\<dots> \<le> k" using pos_mod_sign [OF assms(1), of k] div_mult_mod_eq [of k m] by linarith
  finally show False using assms(2) by simp
qed

lemma refresh_number_order:
  assumes wf: "cfg_wf cfg" and k: "0 \<le> k" "k < ranks cfg * banks_per_group cfg * bankgroups cfg"
  shows "refresh_number cfg (bank_refresh_order cfg k) = k"
proof -
  let ?g = "bankgroups cfg" and ?b = "banks_per_group cfg"
  from wf have pos: "0 < ?g" "0 < ?b" by (simp_all add: cfg_wf_def)
  have d: "k div (?g * ?b) = k div ?g div ?b" using pos by (simp add: zdiv_zmult2_eq)
  have "k < ranks cfg * (?g * ?b)" using k(2) by (simp add: ac_simps)
  then have "k div (?g * ?b) < ranks cfg" using pos by (intro div_bound) simp_all
  moreover have "0 \<le> k div (?g * ?b)" using pos k(1) by (simp add: pos_imp_zdiv_nonneg_iff)
  ultimately have m: "(k div (?g * ?b)) mod ranks cfg = k div ?g div ?b" by (simp add: d)
  show ?thesis by (simp add: refresh_number_def bank_refresh_order_def m)
qed

text \<open>The order repeats after a round.\<close>

lemma bank_refresh_order_mod:
  assumes wf: "cfg_wf cfg"
  shows "bank_refresh_order cfg (k mod (ranks cfg * banks_per_group cfg * bankgroups cfg)) = bank_refresh_order cfg k"
proof -
  let ?g = "bankgroups cfg" and ?b = "banks_per_group cfg" and ?r = "ranks cfg"
  from wf have pos: "0 < ?g" "0 < ?b" "0 < ?r" by (simp_all add: cfg_wf_def)
  have N: "?r * ?b * ?g = ?g * (?b * ?r)" by simp
  have r: "k mod (?g * (?b * ?r)) = ?g * (k div ?g mod (?b * ?r)) + k mod ?g"
    using pos by (intro zmod_zmult2_eq) simp
  have b: "k div ?g mod (?b * ?r) = ?b * (k div ?g div ?b mod ?r) + k div ?g mod ?b"
    using pos by (intro zmod_zmult2_eq) simp
  have dg: "k mod (?g * (?b * ?r)) div ?g = k div ?g mod (?b * ?r)" using pos by (simp add: r)
  have "k div ?g mod (?b * ?r) div ?b = k div ?g div ?b mod ?r" using pos by (simp add: b)
  moreover have "k div ?g mod (?b * ?r) mod ?b = k div ?g mod ?b" by (simp add: b)
  moreover have "k mod (?g * (?b * ?r)) mod ?g = k mod ?g" by (simp add: r)
  ultimately show ?thesis using pos
    by (simp add: N bank_refresh_order_def dg zdiv_zmult2_eq)
qed

lemma nat_small_diff:
  assumes "a mod N = (b :: nat) mod N" "a \<le> b" "b < a + N"
  shows "a = b"
proof -
  from assms(1,2) have "N dvd b - a" using mod_eq_dvd_iff_nat [of a b N] by simp
  with assms(2,3) show ?thesis by (auto dest: dvd_imp_le)
qed

lemma mod_interval_unique:
  assumes "m \<le> a" "a < m + N" "m \<le> b" "b < m + N" "a mod N = (b :: nat) mod N"
  shows "a = b"
  using nat_small_diff [of a N b] nat_small_diff [of b N a] assms by linarith

lemma mod_window:
  assumes "0 < N" and "p < N"
  shows "\<exists>!n :: nat. m \<le> n \<and> n < m + N \<and> n mod N = p"
proof -
  let ?d = "(p + (N - m mod N)) mod N"
  have d: "?d < N" using assms(1) by simp
  have "m mod N + (p + (N - m mod N)) = p + N" using mod_less_divisor [OF assms(1), of m] by simp
  then have "(m + ?d) mod N = (p + N) mod N" by (metis mod_add_left_eq mod_add_right_eq)
  then have m: "(m + ?d) mod N = p" using assms(2) by simp
  show ?thesis
  proof (rule ex1I [of _ "m + ?d"])
    show "m \<le> m + ?d \<and> m + ?d < m + N \<and> (m + ?d) mod N = p" using d m by simp
    show "n = m + ?d" if n: "m \<le> n \<and> n < m + N \<and> n mod N = p" for n
      by (rule mod_interval_unique [of m _ N]) (use n d m in linarith)+
  qed
qed

text \<open>C36. With the bank level policy every bank of the channel is refreshed, and equally often: from
  any moment on, among as many successive refreshes as the channel has banks, the generator comes to
  every bank exactly once, round after round.\<close>

theorem every_bank_once_per_round:
  assumes wf: "cfg_wf cfg" and p: "refresh_policy cfg = BANK_LEVEL_STAGGERED" and rf: "Refresh cfg = Inr rf"
    and q: "in_range cfg q"
  shows "\<exists>!n. m \<le> n \<and> n < m + nat (ranks cfg * banks_per_group cfg * bankgroups cfg) \<and>
    okE (\<lambda>rf'. next_place rf' = q) (iterate_refresh cfg n rf)"
proof -
  let ?N = "ranks cfg * banks_per_group cfg * bankgroups cfg"
  from rf p have "next_place rf = bank_refresh_order cfg 0"
    by (auto simp: Refresh_def Let_def next_place_def bank_refresh_order_def)
  note o = iterate_refresh_order [OF wf p this]
  have N: "0 < ?N" using wf by (simp add: cfg_wf_def)
  note r = refresh_number_place [OF wf q]
  have "okE (\<lambda>rf'. next_place rf' = q) (iterate_refresh cfg n rf) \<longleftrightarrow> n mod nat ?N = nat (refresh_number cfg q)" for n
  proof -
    have m: "0 \<le> int n mod ?N" "int n mod ?N < ?N" using N by simp_all
    have "okE (\<lambda>rf'. next_place rf' = q) (iterate_refresh cfg n rf) \<longleftrightarrow> bank_refresh_order cfg (int n mod ?N) = q"
      using o [of n] bank_refresh_order_mod [OF wf, of "int n"] by (auto simp: okE_iff)
    also have "\<dots> \<longleftrightarrow> int n mod ?N = refresh_number cfg q"
      using refresh_number_order [OF wf m] r(1) by metis
    also have "\<dots> \<longleftrightarrow> n mod nat ?N = nat (refresh_number cfg q)" using N r(2) zmod_int [of n "nat ?N"] by auto
    finally show ?thesis .
  qed
  with mod_window [of "nat ?N" "nat (refresh_number cfg q)" m] N r(2,3) show ?thesis by simp
qed

theorem every_bank_once_per_round_witness:
  "\<exists>n. 4 \<le> n \<and> n < 8 \<and> okE (\<lambda>rf. okE (\<lambda>rf'. next_place rf' = (1, 0, 0))
     (iterate_refresh (ex_cfg\<lparr>refresh_policy := BANK_LEVEL_STAGGERED\<rparr>) n rf)) (Refresh (ex_cfg\<lparr>refresh_policy := BANK_LEVEL_STAGGERED\<rparr>))"
proof -
  let ?cfg = "ex_cfg\<lparr>refresh_policy := BANK_LEVEL_STAGGERED\<rparr>"
  have wf: "cfg_wf ?cfg" using ex_cfg_wf by (simp add: cfg_wf_def)
  obtain rf where rf: "Refresh ?cfg = Inr rf" by (simp add: Refresh_def Let_def)
  from every_bank_once_per_round [OF wf _ rf, of "(1, 0, 0)" 4] show ?thesis
    by (auto simp: ex_fields rf)
qed

text \<open>\<open>RANK_LEVEL_SIMULTANEOUS\<close> does not refresh all ranks at once: the loop ends after the
  first rank that is not in self refresh, so with several ranks awake every interval asks for a
  refresh of rank 0 alone.\<close>

theorem simultaneous_refreshes_one_rank:
  assumes "cfg_wf cfg" and "refresh_policy cfg = RANK_LEVEL_SIMULTANEOUS" and "chan_shape cfg cs"
    and "\<not> rank_is_sref cs ! 0"
  shows "InsertRefresh cfg rf cs = Inr (rf, RankNeedRefresh 0 True cs)"
proof -
  from assms(1) have r: "0 < ranks cfg" by (simp add: cfg_wf_def)
  then obtain "is" where i: "indices (ranks cfg) = 0 # is"
    by (cases "nat (ranks cfg)") (auto simp: indices_def upt_conv_Cons simp del: upt_Suc)
  have "IsRankSelfRefreshing cs 0 = Inr False" using IsRankSelfRefreshing_ok [OF assms(3) order_refl r] assms(4) by simp
  then show ?thesis by (simp add: InsertRefresh_def assms(2) i)
qed

theorem simultaneous_refreshes_one_rank_witness:
  "\<exists>rf. okE (\<lambda>(_, cs). map Rank (refresh_q cs) = [0])
     (InsertRefresh (ex_cfg\<lparr>refresh_policy := RANK_LEVEL_SIMULTANEOUS\<rparr>) rf (ChannelState ex_cfg))"
proof -
  let ?cfg = "ex_cfg\<lparr>refresh_policy := RANK_LEVEL_SIMULTANEOUS\<rparr>"
  have wf: "cfg_wf ?cfg" using ex_cfg_wf by (simp add: cfg_wf_def)
  have "chan_shape ?cfg (ChannelState ex_cfg)" "\<not> rank_is_sref (ChannelState ex_cfg) ! 0"
    using chan_shape_init [of ex_cfg] by (simp_all add: chan_shape_def banks_shape_def ChannelState_def ex_fields)
  from simultaneous_refreshes_one_rank [OF wf _ this] show ?thesis
    by (simp add: RankNeedRefresh_def ChannelState_def cmd_field_defs)
qed

end
