(* ===== verification/Stats_Properties.thy ===== *)
theory Stats_Properties
  imports SimpleStats Default_Config
begin

text \<open>
  The properties of the statistics of a controller.
\<close>

text \<open>The end of an epoch loses no count: it always succeeds, every overall counter, vector of
  counters and count of a histogram value grows by exactly what the epoch counted, and the epoch
  starts again from zero.\<close>

theorem epoch_taken_over:
  assumes "stats_run cfg ss"
  shows "okE (\<lambda>ss'.
      (\<forall>k. um_ref 0 (counters ss') k = um_ref 0 (counters ss) k + um_ref 0 (epoch_counters ss) k \<and>
        um_ref 0 (epoch_counters ss') k = 0) \<and>
      (\<forall>k v. map_of (epoch_vec_counters ss) k = Some v \<longrightarrow>
        um_ref [] (vec_counters ss') k = map2 (+) (um_ref [] (vec_counters ss) k) v \<and>
        um_ref [] (epoch_vec_counters ss') k = map (\<lambda>_. 0) v) \<and>
      (\<forall>name x. um_ref 0 (um_ref [] (histo_counts ss') name) x =
          um_ref 0 (um_ref [] (histo_counts ss) name) x + um_ref 0 (um_ref [] (epoch_histo_counts ss) name) x \<and>
        um_ref 0 (um_ref [] (epoch_histo_counts ss') name) x = 0))
    (UpdateEpochStats ss)"
  using UpdateEpochStats_ok [OF stats_run_ok [OF assms]]
  by (rule okE_mono) (simp add: taken_over_def)

text \<open>A run: two reads with latencies 25 and 31 are counted.\<close>

definition ex_stats :: simple_stats where
  "ex_stats = AddValue ''read_latency'' 31 (AddValue ''read_latency'' 25
     (Increment ''num_reads_done'' (Increment ''num_reads_done'' (SimpleStats ex_cfg))))"

lemma ex_stats_run: "stats_run ex_cfg ex_stats"
  unfolding ex_stats_def by (intro stats_add stats_inc stats_start)

lemma ex_stats_values:
  "um_ref 0 (counters ex_stats) ''num_reads_done'' = 0" "um_ref 0 (epoch_counters ex_stats) ''num_reads_done'' = 2"
  "um_ref 0 (um_ref [] (histo_counts ex_stats) ''read_latency'') 25 = 0"
  "um_ref 0 (um_ref [] (epoch_histo_counts ex_stats) ''read_latency'') 25 = 1"
  by code_simp+

theorem epoch_taken_over_witness:
  "okE (\<lambda>ss. um_ref 0 (counters ss) ''num_reads_done'' = 2 \<and> um_ref 0 (epoch_counters ss) ''num_reads_done'' = 0 \<and>
     um_ref 0 (um_ref [] (histo_counts ss) ''read_latency'') 25 = 1) (UpdateEpochStats ex_stats)"
  using epoch_taken_over [OF ex_stats_run] by (rule okE_mono) (simp add: ex_stats_values)

text \<open>The histograms are complete: at the end of an epoch the bins of a histogram add up to
  the number of values the epoch recorded for it; no value misses the bins, and each falls into
  one bin only.\<close>

theorem histogram_complete:
  assumes "stats_run cfg ss" and "map_of (epoch_histo_bins ss) name = Some b"
  shows "okE (\<lambda>ss'. sum_list (um_ref [] (epoch_histo_bins ss') name) =
      sum_list (map snd (um_ref [] (epoch_histo_counts ss) name)))
    (UpdateEpochStats ss)"
proof -
  note ok = stats_run_ok [OF assms(1)]
  then have "bin_fits (um_ref (0, 0) (histo_bounds ss) name) (um_ref 0 (bin_widths ss) name) (length b)"
    using map_of_SomeD [OF assms(2)] by (auto simp: stats_ok_def stats_shape_def histos_ok_def)
  from in_bin_total [OF this] have total: "(\<Sum>i \<leftarrow> [0..<length b]. bins_of ss name (length b) i) =
      sum_list (map snd (um_ref [] (epoch_histo_counts ss) name))" by (simp add: bins_of_def)
  have sum: "sum_list bins = (\<Sum>i \<leftarrow> [0..<length b]. bins_of ss name (length b) i)"
    if "length bins = length b" "\<forall>i < length b. bins ! i = bins_of ss name (length b) i" for bins
  proof -
    have "bins = map (bins_of ss name (length b)) [0..<length b]"
      by (rule nth_equalityI) (use that in simp_all)
    then show ?thesis by simp
  qed
  from UpdateEpochStats_ok [OF ok] show ?thesis
    by (rule okE_mono) (use assms(2) in \<open>simp add: sum total\<close>)
qed

theorem histogram_complete_witness:
  "okE (\<lambda>ss. sum_list (um_ref [] (epoch_histo_bins ss) ''read_latency'') = 2) (UpdateEpochStats ex_stats)"
proof -
  have "map_option length (map_of (epoch_histo_bins ex_stats) ''read_latency'') = Some 12" by code_simp
  then obtain bins where b: "map_of (epoch_histo_bins ex_stats) ''read_latency'' = Some bins" by auto
  have "um_ref [] (epoch_histo_counts ex_stats) ''read_latency'' = [(25, 1), (31, 1)]" by code_simp
  then have n: "sum_list (map snd (um_ref [] (epoch_histo_counts ex_stats) ''read_latency'')) = 2" by simp
  from histogram_complete [OF ex_stats_run b] show ?thesis by (simp add: n)
qed

end
