(* ===== verification/Memory_Port.thy ===== *)
theory Memory_Port
  imports Prelude "HOL-Library.Multiset"
begin

text \<open>
  The interface between a memory and its client, as a contract: what the memory systems promise
  and what the traffic generators rely on. The client asks whether a transaction is accepted,
  adds it, and lets a cycle pass, at most \<open>limit\<close> times, before a clock of the memory could wrap
  around; the memory holds transactions and answers them.
\<close>

text \<open>The pattern of every client: ask, and add what is accepted.\<close>

definition offer :: "(u64 \<Rightarrow> bool \<Rightarrow> 's \<Rightarrow> bool result) \<Rightarrow> (u64 \<Rightarrow> bool \<Rightarrow> 's \<Rightarrow> (bool \<times> 's) result)
    \<Rightarrow> u64 \<Rightarrow> bool \<Rightarrow> 's \<Rightarrow> (bool \<times> 's) result" where
  "offer accepts add a w s = bindE (accepts a w s) (\<lambda>ok.
     if ok then bindE (add a w s) (\<lambda>(_, s'). Inr (True, s')) else Inr (False, s))"

locale memory_port =
  fixes inv :: "'s \<Rightarrow> bool"
    and accepts :: "u64 \<Rightarrow> bool \<Rightarrow> 's \<Rightarrow> bool result"
    and add :: "u64 \<Rightarrow> bool \<Rightarrow> 's \<Rightarrow> (bool \<times> 's) result"
    and tick :: "'s \<Rightarrow> 's result"
    and time :: "'s \<Rightarrow> nat"
    and token :: "u64 \<Rightarrow> bool \<Rightarrow> 't"
    and held :: "'s \<Rightarrow> 't multiset"
    and answered :: "'s \<Rightarrow> 't list"
    and limit :: nat
  assumes accepts_ok: "inv s \<Longrightarrow> okE (\<lambda>_. True) (accepts a w s)"
    and add_ok: "inv s \<Longrightarrow> accepts a w s = Inr True \<Longrightarrow>
      okE (\<lambda>(b, s'). b \<and> inv s' \<and> time s' = time s \<and> held s' = held s + {#token a w#} \<and>
        answered s' = answered s) (add a w s)"
    and tick_ok: "inv s \<Longrightarrow> time s < limit \<Longrightarrow>
      okE (\<lambda>s'. inv s' \<and> time s' = time s + 1 \<and> (\<exists>new. answered s' = answered s @ new \<and>
        held s = held s' + mset new)) (tick s)"
begin

lemma offer_ok:
  assumes "inv s"
  shows "okE (\<lambda>(ok, s'). inv s' \<and> time s' = time s \<and> answered s' = answered s \<and>
      held s' = held s + (if ok then {#token a w#} else {#}) \<and> accepts a w s = Inr ok)
    (offer accepts add a w s)"
proof -
  from accepts_ok [OF assms] obtain ok where a: "accepts a w s = Inr ok" by (auto simp: okE_iff)
  show ?thesis
  proof (cases ok)
    case True
    with a have acc: "accepts a w s = Inr True" by simp
    from add_ok [OF assms acc] obtain b s' where "add a w s = Inr (b, s')" "inv s'" "time s' = time s"
      "held s' = held s + {#token a w#}" "answered s' = answered s" by (auto simp: okE_iff)
    then show ?thesis by (simp add: offer_def acc)
  qed (simp add: offer_def a assms)
qed

text \<open>What the memory received and what it answered or holds.\<close>

lemma tick_balance:
  assumes "inv s" and "time s < limit" and "held s + mset (answered s) = A"
  shows "okE (\<lambda>s'. inv s' \<and> time s' = time s + 1 \<and> held s' + mset (answered s') = A) (tick s)"
  using tick_ok [OF assms(1,2)] assms(3) by (auto elim!: okE_mono simp: ac_simps)

lemma offer_balance:
  assumes "inv s" and "held s + mset (answered s) = A"
  shows "okE (\<lambda>(ok, s'). inv s' \<and> time s' = time s \<and>
      held s' + mset (answered s') = A + (if ok then {#token a w#} else {#})) (offer accepts add a w s)"
  using offer_ok [OF assms(1), of a w] assms(2) by (auto elim!: okE_mono split: if_splits)

end

text \<open>A session of a client: cycles (\<open>None\<close>) and offers, and the transactions that were accepted.\<close>

fun session :: "(u64 \<Rightarrow> bool \<Rightarrow> 's \<Rightarrow> bool result) \<Rightarrow> (u64 \<Rightarrow> bool \<Rightarrow> 's \<Rightarrow> (bool \<times> 's) result)
    \<Rightarrow> ('s \<Rightarrow> 's result) \<Rightarrow> (u64 \<times> bool) option list \<Rightarrow> 's \<Rightarrow> ('s \<times> (u64 \<times> bool) list) result" where
  "session accepts add tick [] s = Inr (s, [])"
| "session accepts add tick (None # rs) s = bindE (tick s) (session accepts add tick rs)"
| "session accepts add tick (Some (a, w) # rs) s =
     bindE (offer accepts add a w s) (\<lambda>(ok, s'). bindE (session accepts add tick rs s')
       (\<lambda>(s'', log). Inr (s'', if ok then (a, w) # log else log)))"

context memory_port
begin

lemma session_ok:
  assumes "inv s" and "time s + length rs \<le> limit"
  shows "okE (\<lambda>(s', log). inv s' \<and>
      held s' + mset (answered s') = held s + mset (answered s) + mset (map (\<lambda>(a, w). token a w) log))
    (session accepts add tick rs s)"
  using assms
proof (induction rs arbitrary: s)
  case (Cons r rs)
  show ?case
  proof (cases r)
    case None
    from tick_balance [OF Cons.prems(1) _ refl] Cons.prems(2) obtain s' where
      t: "tick s = Inr s'" "inv s'" "time s' = time s + 1"
        "held s' + mset (answered s') = held s + mset (answered s)" by (auto simp: okE_iff)
    with Cons.IH [of s'] Cons.prems(2) show ?thesis by (simp add: None)
  next
    case (Some x)
    obtain a w where x: "x = (a, w)" by (cases x)
    from offer_balance [OF Cons.prems(1) refl, of a w] obtain ok s' where
      t: "offer accepts add a w s = Inr (ok, s')" "inv s'" "time s' = time s"
        "held s' + mset (answered s') = held s + mset (answered s) + (if ok then {#token a w#} else {#})"
      by (auto simp: okE_iff)
    with Cons.IH [of s'] Cons.prems(2) show ?thesis
      by (auto simp: Some x elim!: okE_mono)
  qed
qed simp

end

end
