(* ===== verification/DRAMSystem.thy ===== *)
theory DRAMSystem
  imports ControllerRun Memory_Port
begin

text \<open>
  \<open>dram_system.h\<close> and \<open>dram_system.cc\<close>: the base of all memory systems and the system with one
  controller for each channel. The callbacks of the client are not under \<open>src\<close>; their calls are
  logged, in their order, in the field \<open>calls\<close>: the address and 1 for a write, 0 for a read. The
  references to the configuration and its timing table are arguments, and so is the static
  count of channels. An \<open>assert\<close> is checked: a build that defines \<open>NDEBUG\<close> would drop a
  refused transaction instead of stopping.
\<close>

unbundle bit_operations_syntax

record dram_system =
  last_req_clk :: u64
  ds_concurrent_serve :: u64
  active_cycles :: u64
  last_concurrent_serve :: u64
  last_active_cycles :: u64
  last_read_cmds :: u64
  last_write_cmds :: u64
  last_read_hits :: u64
  last_write_hits :: u64
  ds_clk :: u64
  ctrls :: "controller list"
  calls :: "(u64 \<times> int) list"

text \<open>The new object and the count of channels so far.\<close>

definition BaseDRAMSystem :: "config \<Rightarrow> int \<Rightarrow> dram_system \<times> int" where
  "BaseDRAMSystem cfg total_channels =
     (\<lparr>last_req_clk = 0, ds_concurrent_serve = 0, active_cycles = 0, last_concurrent_serve = 0,
       last_active_cycles = 0, last_read_cmds = 0, last_write_cmds = 0, last_read_hits = 0,
       last_write_hits = 0, ds_clk = 0, ctrls = [], calls = []\<rparr>, total_channels + channels cfg)"

definition GetChannel :: "config \<Rightarrow> u64 \<Rightarrow> int" where
  "GetChannel cfg a =
     to_c_int (drop_bit (nat (ch_pos cfg)) (drop_bit (nat (shift_bits cfg)) a) AND ch_mask cfg)"

text \<open>A loop over the controllers that may change each of them and the state \<open>s\<close>.\<close>

fun each_ctrl :: "(controller \<Rightarrow> 's \<Rightarrow> (controller \<times> 's) result) \<Rightarrow> controller list \<Rightarrow> 's
    \<Rightarrow> (controller list \<times> 's) result" where
  "each_ctrl f [] s = Inr ([], s)"
| "each_ctrl f (ct # cts) s = bindE (f ct s) (\<lambda>(ct', s1).
     bindE (each_ctrl f cts s1) (\<lambda>(cts', s2). Inr (ct' # cts', s2)))"

definition ds_PrintEpochStats :: "'a dram_system_scheme \<Rightarrow> 'a dram_system_scheme result" where
  "ds_PrintEpochStats s = bindE (each_ctrl (\<lambda>ct u. bindE (ct_PrintEpochStats ct) (\<lambda>ct'. Inr (ct', u)))
     (ctrls s) ()) (\<lambda>(cts, _). Inr (s\<lparr>ctrls := cts\<rparr>))"

definition ds_PrintStats :: "'a dram_system_scheme \<Rightarrow> 'a dram_system_scheme result" where
  "ds_PrintStats s = bindE (each_ctrl (\<lambda>ct u. bindE (ct_PrintFinalStats ct) (\<lambda>ct'. Inr (ct', u)))
     (ctrls s) ()) (\<lambda>(cts, _). Inr (s\<lparr>ctrls := cts\<rparr>))"

definition ds_ResetStats :: "'a dram_system_scheme \<Rightarrow> 'a dram_system_scheme" where
  "ds_ResetStats s = s\<lparr>ctrls := map ct_ResetStats (ctrls s)\<rparr>"

text \<open>What a report of a phase keeps; its lines are in theory \<open>Phases\<close>.\<close>

definition stats_mo :: "'a dram_system_scheme \<Rightarrow> 'a dram_system_scheme" where
  "stats_mo s = s\<lparr>last_read_cmds := sum_list (map read_cmds (ctrls s)),
     last_write_cmds := sum_list (map write_cmds (ctrls s)),
     last_read_hits := sum_list (map read_row_hits (ctrls s)),
     last_write_hits := sum_list (map write_row_hits (ctrls s)),
     last_concurrent_serve := ds_concurrent_serve s, last_active_cycles := active_cycles s\<rparr>"

text \<open>The end of a cycle: the clock, and the end of an epoch.\<close>

definition next_clk :: "config \<Rightarrow> 'a dram_system_scheme \<Rightarrow> 'a dram_system_scheme result" where
  "next_clk cfg s0 = (let s = s0\<lparr>ds_clk := ds_clk s0 + 1\<rparr> in
     if of_c_int (epoch_period cfg) = 0 then Inl DivByZero
     else if ds_clk s mod of_c_int (epoch_period cfg) = 0 then ds_PrintEpochStats s else Inr s)"

section \<open>One controller for each channel\<close>

definition JedecDRAMSystem :: "config \<Rightarrow> int \<Rightarrow> (dram_system \<times> int) result" where
  "JedecDRAMSystem cfg total_channels = (let (s, n) = BaseDRAMSystem cfg total_channels in
     if IsHMC cfg then Inl (AbruptExit ''dram_system.cc'' 161)
     else if channels cfg < 0 then Inl (UncaughtException ''length_error'')
     else bindE (foldE (\<lambda>i cts. bindE (Controller i cfg) (\<lambda>ct. Inr (cts @ [ct])))
            (indices (channels cfg)) []) (\<lambda>cts. Inr (s\<lparr>ctrls := cts\<rparr>, n)))"

definition Jedec_WillAcceptTransaction :: "config \<Rightarrow> u64 \<Rightarrow> bool \<Rightarrow> dram_system \<Rightarrow> bool result" where
  "Jedec_WillAcceptTransaction cfg a w s =
     bindE (vget (ctrls s) (GetChannel cfg a)) (\<lambda>ct. Inr (WillAcceptTransaction a w ct))"

definition Jedec_AddTransaction :: "config \<Rightarrow> u64 \<Rightarrow> bool \<Rightarrow> dram_system \<Rightarrow> (bool \<times> dram_system) result" where
  "Jedec_AddTransaction cfg a w s =
     (let channel = GetChannel cfg a in
      bindE (vget (ctrls s) channel) (\<lambda>ct.
      let ok = WillAcceptTransaction a w ct in
      if \<not> ok then Inl (AssertFailed ''dram_system.cc'' 227)
      else bindE (vset (ctrls s) channel (snd (AddTransaction (Transaction a w) ct))) (\<lambda>cts.
        Inr (ok, s\<lparr>ctrls := cts, last_req_clk := ds_clk s\<rparr>))))"

text \<open>The loop that takes all finished transactions of a controller and hands each to a callback.\<close>

lemma ReturnDoneTrans_shrinks:
  assumes "ReturnDoneTrans clk ct = (p, ct')" and "p \<noteq> no_trans"
  shows "length (return_queue ct') < length (return_queue ct)"
proof -
  have shrink: "length (remove_first P xs) < length xs" if "List.find P xs = Some x" for P and xs :: "transaction list" and x
    using that by (induction xs) (auto split: if_splits)
  from assms show ?thesis by (auto simp: ReturnDoneTrans_def split: option.splits intro: shrink)
qed

function drain_done :: "(bool \<Rightarrow> u64 \<Rightarrow> 's \<Rightarrow> 's result) \<Rightarrow> u64 \<Rightarrow> controller \<Rightarrow> 's \<Rightarrow> (controller \<times> 's) result" where
  "drain_done callback clk ct s =
     (let p = fst (ReturnDoneTrans clk ct); ct' = snd (ReturnDoneTrans clk ct) in
      if snd p = 1 then bindE (callback True (fst p) s) (drain_done callback clk ct')
      else if snd p = 0 then bindE (callback False (fst p) s) (drain_done callback clk ct')
      else Inr (ct', s))"
  by auto
termination
proof (relation "measure (\<lambda>(_, _, ct, _). length (return_queue ct))")
  fix clk and ct ct' :: controller and p :: "u64 \<times> int" and callback :: "bool \<Rightarrow> u64 \<Rightarrow> 's \<Rightarrow> 's result" and s x :: 's
  assume "p = fst (ReturnDoneTrans clk ct)" "ct' = snd (ReturnDoneTrans clk ct)"
  then have r: "ReturnDoneTrans clk ct = (p, ct')" by simp
  have n: "p \<noteq> no_trans" if "snd p \<in> {0, 1}" using that by (auto simp: no_trans_def)
  show "((callback, clk, ct', x), callback, clk, ct, s) \<in> measure (\<lambda>(_, _, ct, _). length (return_queue ct))"
    if "snd p = 1" using ReturnDoneTrans_shrinks [OF r n] that by simp
  show "((callback, clk, ct', x), callback, clk, ct, s) \<in> measure (\<lambda>(_, _, ct, _). length (return_queue ct))"
    if "snd p \<noteq> 1" "snd p = 0" using ReturnDoneTrans_shrinks [OF r n] that by simp
qed simp

declare drain_done.simps [simp del]

definition log_call :: "bool \<Rightarrow> u64 \<Rightarrow> (u64 \<times> int) list \<Rightarrow> (u64 \<times> int) list result" where
  "log_call w a log = Inr (log @ [(a, if w then 1 else 0)])"

definition tick_ctrl :: "config \<Rightarrow> timing \<Rightarrow> controller \<Rightarrow> u64 \<times> u64 \<Rightarrow> (controller \<times> u64 \<times> u64) result" where
  "tick_ctrl cfg tim ct = (\<lambda>(active, concurrent).
     bindE (ct_ClockTick cfg tim ct) (\<lambda>ct'.
       Inr (if is_active_cycles ct' then (ct', active + 1, concurrent + concurrent_serve ct')
            else (ct', active, concurrent))))"

definition Jedec_ClockTick :: "config \<Rightarrow> timing \<Rightarrow> dram_system \<Rightarrow> dram_system result" where
  "Jedec_ClockTick cfg tim s =
     bindE (each_ctrl (drain_done log_call (ds_clk s)) (ctrls s) (calls s)) (\<lambda>(cts, log).
     bindE (each_ctrl (tick_ctrl cfg tim) cts (active_cycles s, ds_concurrent_serve s))
       (\<lambda>(cts', active, concurrent).
     next_clk cfg (s\<lparr>ctrls := cts', calls := log, active_cycles := active,
                     ds_concurrent_serve := concurrent\<rparr>)))"

section \<open>The contract of a memory\<close>

text \<open>The state of the channel controllers, and the transactions the system holds.\<close>

definition ctrl_ok :: "config \<Rightarrow> timing \<Rightarrow> u64 \<Rightarrow> controller \<Rightarrow> bool" where
  "ctrl_ok cfg tim clk ct \<longleftrightarrow> ct_inv cfg tim Command_default ct \<and> cap_inv cfg ct \<and> ct_clk ct = clk"

definition ds_held :: "'a dram_system_scheme \<Rightarrow> (u64 \<times> int) multiset" where
  "ds_held s = sum_list (map outstanding (ctrls s))"

text \<open>What the systems need of the configuration: also channels for all addresses, epochs, and two
  commands in a cycle only where columns commands are spaced.\<close>

definition ds_cfg_ok :: "config \<Rightarrow> bool" where
  "ds_cfg_ok cfg \<longleftrightarrow> cfg_ok cfg (Timing cfg) \<and> of_c_int (epoch_period cfg) \<noteq> 0 \<and>
     (\<forall>a. 0 \<le> GetChannel cfg a \<and> GetChannel cfg a < channels cfg) \<and>
     (\<forall>clk. unat clk < 2 ^ 63 \<longrightarrow> dual_ok cfg (Timing cfg) clk)"

definition ds_inv :: "config \<Rightarrow> 'a dram_system_scheme \<Rightarrow> bool" where
  "ds_inv cfg s \<longleftrightarrow> ds_cfg_ok cfg \<and> length (ctrls s) = nat (channels cfg) \<and>
     (\<forall>ct \<in> set (ctrls s). ctrl_ok cfg (Timing cfg) (ds_clk s) ct)"

text \<open>The rule for a loop over the controllers: \<open>J\<close> relates what all controllers hold (\<open>h\<close>), with
  anything else \<open>M\<close>, to the rest of the state.\<close>

lemma each_ctrl_rule:
  fixes h :: "controller \<Rightarrow> 'm :: comm_monoid_add"
  assumes step: "\<And>ct M s. P ct \<Longrightarrow> J (h ct + M) s \<Longrightarrow> okE (\<lambda>(ct', s'). Q ct' \<and> J (h ct' + M) s') (f ct s)"
    and "\<forall>ct \<in> set cts. P ct" and "J (sum_list (map h cts) + M) s"
  shows "okE (\<lambda>(cts', s'). length cts' = length cts \<and> (\<forall>ct \<in> set cts'. Q ct) \<and>
      J (sum_list (map h cts') + M) s') (each_ctrl f cts s)"
  using assms(2,3)
proof (induction cts arbitrary: s M)
  case (Cons ct cts)
  from step [of ct "sum_list (map h cts) + M" s] Cons.prems obtain ct' s1 where
    c: "f ct s = Inr (ct', s1)" "Q ct'" "J (h ct' + (sum_list (map h cts) + M)) s1"
    by (auto simp: okE_iff add.assoc)
  from c(3) have "J (sum_list (map h cts) + (h ct' + M)) s1" by (simp only: add.left_commute)
  from Cons.IH [OF _ this] Cons.prems(1) obtain cts' s2 where
    r: "each_ctrl f cts s1 = Inr (cts', s2)" "length cts' = length cts" "\<forall>ct \<in> set cts'. Q ct"
      "J (sum_list (map h cts') + (h ct' + M)) s2" by (auto simp: okE_iff)
  from r(4) have "J (h ct' + (sum_list (map h cts') + M)) s2" by (simp only: add.left_commute)
  with c r show ?case by (simp add: add.assoc)
qed simp

text \<open>The loop over finished transactions: the callback takes over one transaction at a time, and
  none is left behind whose time has come.\<close>

lemma ReturnDoneTrans_ctrl:
  assumes ok: "ctrl_ok cfg tim now ct" and run: "ReturnDoneTrans clk ct = (p, ct')"
  shows "ctrl_ok cfg tim now ct'"
    and "(p = no_trans \<and> ct' = ct \<and> (\<forall>t \<in> set (return_queue ct). clk < complete_cycle t)) \<or>
     (\<exists>w. p = (fst p, if w then 1 else 0) \<and> outstanding ct = outstanding ct' + {#p#})"
proof -
  from ok have inv: "ct_inv cfg tim Command_default ct" and cap: "cap_inv cfg ct" and clk: "ct_clk ct = now"
    by (simp_all add: ctrl_ok_def)
  note r = ReturnDoneTrans_ok [OF inv run]
  have "cap_inv cfg ct'" by (rule cap_inv_bufs [OF _ cap]) (simp add: r(2))
  moreover have "ct_clk ct' = now" using run clk by (auto simp: ReturnDoneTrans_def split: option.splits)
  ultimately show "ctrl_ok cfg tim now ct'" using r(1) by (simp add: ctrl_ok_def)
  have same: "ct' = ct" if "p = no_trans"
    using run that no_trans_pair by (auto simp: ReturnDoneTrans_def split: option.splits)
  show "(p = no_trans \<and> ct' = ct \<and> (\<forall>t \<in> set (return_queue ct). clk < complete_cycle t)) \<or>
     (\<exists>w. p = (fst p, if w then 1 else 0) \<and> outstanding ct = outstanding ct' + {#p#})"
    using r(3)
  proof
    assume "p = no_trans \<and> inflight ct' = inflight ct \<and> (\<forall>t \<in> set (return_queue ct). clk < complete_cycle t)"
    with same show ?thesis by blast
  next
    assume "\<exists>t \<in> set (return_queue ct). p = (t_addr t, if is_write t then 1 else 0) \<and> complete_cycle t \<le> clk \<and>
        inflight ct = inflight ct' + {#txn_id t#}"
    then obtain t where t: "p = (t_addr t, if is_write t then 1 else 0)" "inflight ct = inflight ct' + {#txn_id t#}"
      by blast
    have "outstanding ct = outstanding ct' + {#p#}"
      by (simp add: outstanding_def t(2) as_pair_def txn_id_def t(1))
    with t(1) show ?thesis by (intro disjI2 exI [of _ "is_write t"]) simp
  qed
qed

lemma drain_done_rule:
  assumes cb: "\<And>w a M s. J (M + {#(a, if w then 1 else 0)#}) s \<Longrightarrow> okE (J M) (cb w a s)"
    and "ctrl_ok cfg tim now ct" and "J (outstanding ct + M) s"
  shows "okE (\<lambda>(ct', s'). ctrl_ok cfg tim now ct' \<and> J (outstanding ct' + M) s' \<and>
      (\<forall>t \<in> set (return_queue ct'). clk < complete_cycle t)) (drain_done cb clk ct s)"
  using assms(2,3)
proof (induction "length (return_queue ct)" arbitrary: ct s rule: less_induct)
  case less
  obtain p ct' where r: "ReturnDoneTrans clk ct = (p, ct')" by fastforce
  note c = ReturnDoneTrans_ctrl [OF less.prems(1) r]
  from c(2) show ?case
  proof
    assume "p = no_trans \<and> ct' = ct \<and> (\<forall>t \<in> set (return_queue ct). clk < complete_cycle t)"
    with less.prems r show ?thesis by (subst drain_done.simps) (simp add: no_trans_def)
  next
    assume "\<exists>w. p = (fst p, if w then 1 else 0) \<and> outstanding ct = outstanding ct' + {#p#}"
    then obtain w a where p: "p = (a, if w then 1 else 0)" "outstanding ct = outstanding ct' + {#p#}"
      by (metis fst_conv)
    have n: "p \<noteq> no_trans" unfolding p(1) by (rule no_trans_pair)
    from less.prems(2) p have "J (outstanding ct' + M + {#(a, if w then 1 else 0)#}) s" by (simp add: ac_simps)
    from cb [OF this] obtain s' where s': "cb w a s = Inr s'" "J (outstanding ct' + M) s'" by (auto simp: okE_iff)
    from less.hyps [OF ReturnDoneTrans_shrinks [OF r n] c(1) s'(2)] show ?thesis
      using s'(1) by (subst drain_done.simps) (cases w, simp_all add: r p(1))
  qed
qed

lemma ctrl_tick_ok:
  assumes cfg: "ds_cfg_ok cfg" and ok: "ctrl_ok cfg (Timing cfg) now ct" and now: "unat now < 2 ^ 63"
  shows "okE (\<lambda>ct'. ctrl_ok cfg (Timing cfg) (now + 1) ct' \<and> outstanding ct' = outstanding ct)
    (ct_ClockTick cfg (Timing cfg) ct)"
proof -
  from cfg have c: "cfg_ok cfg (Timing cfg)" and d: "dual_ok cfg (Timing cfg) now"
    using now by (simp_all add: ds_cfg_ok_def)
  from ok have inv: "ct_inv cfg (Timing cfg) Command_default ct" "cap_inv cfg ct" "ct_clk ct = now"
    by (simp_all add: ctrl_ok_def)
  have "now < now + 1" using now by (simp add: word_less_nat_alt unat_word_ariths)
  with ct_ClockTick_ok [OF c inv(1)] inv(3) d obtain ct' where
    t: "ct_ClockTick cfg (Timing cfg) ct = Inr ct'" "ct_inv cfg (Timing cfg) Command_default ct'"
      "ct_clk ct' = now + 1" "inflight ct' = inflight ct" "list_all2 tv_le (bufs ct') (bufs ct)"
    by (auto simp: okE_iff)
  with cap_inv_bufs [OF t(5) inv(2)] show ?thesis by (simp add: ctrl_ok_def outstanding_def)
qed

lemma tick_ctrl_ok:
  assumes "ds_cfg_ok cfg" and "ctrl_ok cfg (Timing cfg) now ct" and "unat now < 2 ^ 63"
  shows "okE (\<lambda>(ct', _). ctrl_ok cfg (Timing cfg) (now + 1) ct' \<and> outstanding ct' = outstanding ct)
    (tick_ctrl cfg (Timing cfg) ct s)"
  using ctrl_tick_ok [OF assms] by (cases s) (auto simp: tick_ctrl_def okE_iff)

text \<open>The end of a cycle and the statistics.\<close>

lemma stats_ctrl_ok:
  assumes "ctrl_ok cfg tim now ct"
  shows "okE (\<lambda>ct'. ctrl_ok cfg tim now ct' \<and> outstanding ct' = outstanding ct) (ct_PrintEpochStats ct)"
    and "okE (\<lambda>ct'. ctrl_ok cfg tim now ct' \<and> outstanding ct' = outstanding ct) (ct_PrintFinalStats ct)"
    and "ctrl_ok cfg tim now (ct_ResetStats ct)" and "outstanding (ct_ResetStats ct) = outstanding ct"
  using assms stats_epoch_ok [of cfg tim Command_default ct] stats_only_fields [of ct]
  by (auto simp: ctrl_ok_def outstanding_def elim!: okE_mono)

lemma ds_stats_ok:
  assumes "ds_inv cfg s"
  shows "okE (\<lambda>s'. ds_inv cfg s' \<and> ds_held s' = ds_held s \<and> (\<exists>cts. s' = s\<lparr>ctrls := cts\<rparr>)) (ds_PrintEpochStats s)"
    and "okE (\<lambda>s'. ds_inv cfg s' \<and> ds_held s' = ds_held s \<and> (\<exists>cts. s' = s\<lparr>ctrls := cts\<rparr>)) (ds_PrintStats s)"
    and "ds_inv cfg (ds_ResetStats s)" and "ds_held (ds_ResetStats s) = ds_held s"
proof -
  from assms have c: "\<forall>ct \<in> set (ctrls s). ctrl_ok cfg (Timing cfg) (ds_clk s) ct" by (simp add: ds_inv_def)
  have "okE (\<lambda>(cts, u). length cts = length (ctrls s) \<and> (\<forall>ct \<in> set cts. ctrl_ok cfg (Timing cfg) (ds_clk s) ct) \<and>
      sum_list (map outstanding cts) + {#} = ds_held s)
    (each_ctrl (\<lambda>ct u. bindE (op ct) (\<lambda>ct'. Inr (ct', u))) (ctrls s) ())"
    if "\<And>ct. ctrl_ok cfg (Timing cfg) (ds_clk s) ct \<Longrightarrow>
      okE (\<lambda>ct'. ctrl_ok cfg (Timing cfg) (ds_clk s) ct' \<and> outstanding ct' = outstanding ct) (op ct)" for op
  proof (rule each_ctrl_rule [where J = "\<lambda>N _. N = ds_held s" and P = "ctrl_ok cfg (Timing cfg) (ds_clk s)", OF _ c])
    fix ct M u
    assume "ctrl_ok cfg (Timing cfg) (ds_clk s) ct" and "outstanding ct + M = ds_held s"
    with that [of ct] show "okE (\<lambda>(ct', u). ctrl_ok cfg (Timing cfg) (ds_clk s) ct' \<and> outstanding ct' + M = ds_held s)
        (bindE (op ct) (\<lambda>ct'. Inr (ct', u)))" by (auto simp: okE_iff)
  qed (simp add: ds_held_def)
  from this [OF stats_ctrl_ok(1)] this [OF stats_ctrl_ok(2)] assms show
    "okE (\<lambda>s'. ds_inv cfg s' \<and> ds_held s' = ds_held s \<and> (\<exists>cts. s' = s\<lparr>ctrls := cts\<rparr>)) (ds_PrintEpochStats s)"
    "okE (\<lambda>s'. ds_inv cfg s' \<and> ds_held s' = ds_held s \<and> (\<exists>cts. s' = s\<lparr>ctrls := cts\<rparr>)) (ds_PrintStats s)"
    by (auto simp: ds_PrintEpochStats_def ds_PrintStats_def ds_inv_def ds_held_def [of "s\<lparr>ctrls := cts\<rparr>" for cts]
        elim!: okE_mono)
  show "ds_inv cfg (ds_ResetStats s)" "ds_held (ds_ResetStats s) = ds_held s"
    using assms stats_ctrl_ok(3) by (auto simp: ds_inv_def ds_ResetStats_def ds_held_def stats_ctrl_ok(4) ct_ResetStats_def
        outstanding_def inflight_def cong: map_cong)
qed

lemma next_clk_ok:
  assumes "ds_inv cfg (s\<lparr>ds_clk := ds_clk s + 1\<rparr>)"
  shows "okE (\<lambda>s'. ds_inv cfg s' \<and> ds_held s' = ds_held s \<and> (\<exists>cts. s' = s\<lparr>ds_clk := ds_clk s + 1, ctrls := cts\<rparr>))
    (next_clk cfg s)"
proof -
  from assms have "of_c_int (epoch_period cfg) \<noteq> 0" by (simp add: ds_inv_def ds_cfg_ok_def)
  moreover have "ds_held (s\<lparr>ds_clk := ds_clk s + 1\<rparr>) = ds_held s" by (simp add: ds_held_def)
  moreover have "\<exists>cts. s\<lparr>ds_clk := ds_clk s + 1\<rparr> = s\<lparr>ds_clk := ds_clk s + 1, ctrls := cts\<rparr>"
    by (rule exI [of _ "ctrls s"]) simp
  ultimately show ?thesis
    using ds_stats_ok(1) [OF assms] assms by (auto simp: next_clk_def Let_def elim!: okE_mono)
qed

theorem Jedec_ClockTick_ok:
  assumes inv: "ds_inv cfg s" and now: "unat (ds_clk s) < 2 ^ 63"
  shows "okE (\<lambda>s'. ds_inv cfg s' \<and> ds_clk s' = ds_clk s + 1 \<and>
      (\<exists>new. calls s' = calls s @ new \<and> ds_held s = ds_held s' + mset new)) (Jedec_ClockTick cfg (Timing cfg) s)"
proof -
  from inv have cfg: "ds_cfg_ok cfg" and n: "length (ctrls s) = nat (channels cfg)"
    and c: "\<forall>ct \<in> set (ctrls s). ctrl_ok cfg (Timing cfg) (ds_clk s) ct" by (simp_all add: ds_inv_def)
  let ?J = "\<lambda>N log. \<exists>new. log = calls s @ new \<and> ds_held s = N + mset new"
  have "okE (\<lambda>(cts, log). length cts = length (ctrls s) \<and> (\<forall>ct \<in> set cts. ctrl_ok cfg (Timing cfg) (ds_clk s) ct) \<and>
      ?J (sum_list (map outstanding cts) + {#}) log)
    (each_ctrl (drain_done log_call (ds_clk s)) (ctrls s) (calls s))"
  proof (rule each_ctrl_rule [OF _ c])
    fix ct M log
    assume ct: "ctrl_ok cfg (Timing cfg) (ds_clk s) ct" and J: "?J (outstanding ct + M) log"
    have "okE (?J N) (log_call w a log)" if "?J (N + {#(a, if w then 1 else 0)#}) log" for w a N log
    proof -
      from that obtain new where "log = calls s @ new" "ds_held s = N + {#(a, if w then 1 else 0)#} + mset new" by blast
      then show ?thesis
        by (simp only: log_call_def okE_simps) (rule exI [of _ "new @ [(a, if w then 1 else 0)]"], simp)
    qed
    from drain_done_rule [where J = ?J, OF this ct J, where clk = "ds_clk s"]
    show "okE (\<lambda>(ct', log'). ctrl_ok cfg (Timing cfg) (ds_clk s) ct' \<and> ?J (outstanding ct' + M) log')
        (drain_done log_call (ds_clk s) ct log)"
      by (rule okE_mono) auto
  qed (simp add: ds_held_def)
  then obtain cts log where
    d: "each_ctrl (drain_done log_call (ds_clk s)) (ctrls s) (calls s) = Inr (cts, log)" "length cts = length (ctrls s)"
      "\<forall>ct \<in> set cts. ctrl_ok cfg (Timing cfg) (ds_clk s) ct" "?J (sum_list (map outstanding cts) + {#}) log"
    by (auto simp: okE_iff)
  let ?K = "\<lambda>N (_ :: u64 \<times> u64). N = sum_list (map outstanding cts) + {#}"
  have "okE (\<lambda>(cts', ac). length cts' = length cts \<and> (\<forall>ct \<in> set cts'. ctrl_ok cfg (Timing cfg) (ds_clk s + 1) ct) \<and>
      ?K (sum_list (map outstanding cts') + {#}) ac)
    (each_ctrl (tick_ctrl cfg (Timing cfg)) cts (active_cycles s, ds_concurrent_serve s))"
  proof (rule each_ctrl_rule [OF _ d(3)])
    fix ct M ac
    assume "ctrl_ok cfg (Timing cfg) (ds_clk s) ct" and "outstanding ct + M = sum_list (map outstanding cts) + {#}"
    with tick_ctrl_ok [OF cfg this(1) now, of ac]
    show "okE (\<lambda>(ct', ac). ctrl_ok cfg (Timing cfg) (ds_clk s + 1) ct' \<and>
        outstanding ct' + M = sum_list (map outstanding cts) + {#}) (tick_ctrl cfg (Timing cfg) ct ac)"
      by (auto simp: okE_iff)
  qed simp
  then obtain cts' active conc where
    t: "each_ctrl (tick_ctrl cfg (Timing cfg)) cts (active_cycles s, ds_concurrent_serve s) = Inr (cts', active, conc)"
      "length cts' = length cts" "\<forall>ct \<in> set cts'. ctrl_ok cfg (Timing cfg) (ds_clk s + 1) ct"
      "sum_list (map outstanding cts') = sum_list (map outstanding cts)" by (auto simp: okE_iff)
  let ?s = "s\<lparr>ctrls := cts', calls := log, active_cycles := active, ds_concurrent_serve := conc\<rparr>"
  have "ds_inv cfg (?s\<lparr>ds_clk := ds_clk ?s + 1\<rparr>)" using cfg n d(2) t(2,3) by (simp add: ds_inv_def)
  from next_clk_ok [OF this] obtain s' where
    s': "next_clk cfg ?s = Inr s'" "ds_inv cfg s'" "ds_held s' = ds_held ?s" "ds_clk s' = ds_clk s + 1" "calls s' = log"
    by (auto simp: okE_iff)
  have "ds_held s' = sum_list (map outstanding cts)" using s'(3) t(4) by (simp add: ds_held_def)
  with d(4) s' show ?thesis by (simp add: Jedec_ClockTick_def d(1) t(1))
qed

lemma vget_GetChannel:
  assumes "ds_inv cfg s"
  shows "\<exists>ct. vget (ctrls s) (GetChannel cfg a) = Inr ct \<and> ct \<in> set (ctrls s) \<and>
    ct = ctrls s ! nat (GetChannel cfg a) \<and> nat (GetChannel cfg a) < length (ctrls s) \<and> 0 \<le> GetChannel cfg a"
proof -
  from assms have "0 \<le> GetChannel cfg a" "GetChannel cfg a < channels cfg" "length (ctrls s) = nat (channels cfg)"
    by (simp_all add: ds_inv_def ds_cfg_ok_def)
  then have "0 \<le> GetChannel cfg a" "GetChannel cfg a < int (length (ctrls s))" by simp_all
  then show ?thesis by (simp add: vget_def)
qed

text \<open>A transaction that a controller accepts, added to it.\<close>

lemma add_ctrl:
  assumes inv: "ds_inv cfg s" and i: "i < length (ctrls s)" and acc: "WillAcceptTransaction a w (ctrls s ! i)"
    and cts: "ctrls s' = (ctrls s)[i := snd (AddTransaction (Transaction a w) (ctrls s ! i))]" and clk: "ds_clk s' = ds_clk s"
  shows "ds_inv cfg s'" and "ds_held s' = ds_held s + {#(a, if w then 1 else 0)#}"
proof -
  let ?ct = "ctrls s ! i" and ?ct' = "snd (AddTransaction (Transaction a w) (ctrls s ! i))"
  from inv i have ok: "ctrl_ok cfg (Timing cfg) (ds_clk s) ?ct" by (simp add: ds_inv_def)
  then have c: "ct_inv cfg (Timing cfg) Command_default ?ct" "cap_inv cfg ?ct" "ct_clk ?ct = ds_clk s"
    by (simp_all add: ctrl_ok_def)
  have m: "mode_inv cfg ?ct" using c(1) by (simp add: ct_inv_def trans_inv_def)
  have t: "t_addr (Transaction a w) = a" "is_write (Transaction a w) = w" by (simp_all add: Transaction_def)
  have "ct_clk ?ct' = ct_clk ?ct" by (simp add: AddTransaction_def Let_def)
  with AddTransaction_ok(1) [OF c(1)] AddTransaction_cap [OF c(2) m, of "Transaction a w"] acc c(3)
  have ok': "ctrl_ok cfg (Timing cfg) (ds_clk s) ?ct'" by (simp add: ctrl_ok_def t)
  then show "ds_inv cfg s'"
    using inv set_update_subset_insert [of "ctrls s" i ?ct'] by (auto simp: ds_inv_def cts clk)
  have o: "outstanding ?ct' = map outstanding (ctrls s) ! i + {#(a, if w then 1 else 0)#}"
    using AddTransaction_ok(2) [OF c(1), of "Transaction a w"] i by (simp add: outstanding_def t as_pair_def)
  have sum: "sum_list ((xs :: (u64 \<times> int) multiset list)[i := xs ! i + m]) = sum_list xs + m" if "i < length xs" for xs i m
    using that by (induction xs arbitrary: i) (auto simp: less_Suc_eq_0_disj ac_simps)
  show "ds_held s' = ds_held s + {#(a, if w then 1 else 0)#}"
    unfolding ds_held_def cts map_update o using i by (simp only: sum length_map)
qed

lemma Jedec_AddTransaction_ok:
  assumes inv: "ds_inv cfg s" and acc: "Jedec_WillAcceptTransaction cfg a w s = Inr True"
  shows "okE (\<lambda>(b, s'). b \<and> ds_inv cfg s' \<and> ds_clk s' = ds_clk s \<and> calls s' = calls s \<and>
      ds_held s' = ds_held s + {#(a, if w then 1 else 0)#}) (Jedec_AddTransaction cfg a w s)"
proof -
  let ?i = "nat (GetChannel cfg a)"
  from vget_GetChannel [OF inv, of a] have i: "vget (ctrls s) (GetChannel cfg a) = Inr (ctrls s ! ?i)"
    "?i < length (ctrls s)" "0 \<le> GetChannel cfg a" by auto
  from acc i(1) have w: "WillAcceptTransaction a w (ctrls s ! ?i)" by (simp add: Jedec_WillAcceptTransaction_def)
  let ?cts = "(ctrls s)[?i := snd (AddTransaction (Transaction a w) (ctrls s ! ?i))]"
  let ?s = "s\<lparr>ctrls := ?cts, last_req_clk := ds_clk s\<rparr>"
  have "vset (ctrls s) (GetChannel cfg a) (snd (AddTransaction (Transaction a w) (ctrls s ! ?i))) = Inr ?cts"
    using i(2,3) by (simp add: vset_def)
  then have run: "Jedec_AddTransaction cfg a w s = Inr (True, ?s)" by (simp add: Jedec_AddTransaction_def Let_def i(1) w)
  from add_ctrl [OF inv i(2) w, of ?s] show ?thesis unfolding run by simp
qed

interpretation jedec: memory_port "ds_inv cfg" "Jedec_WillAcceptTransaction cfg" "Jedec_AddTransaction cfg"
  "Jedec_ClockTick cfg (Timing cfg)" "\<lambda>s. unat (ds_clk s)" "\<lambda>a w. (a, if w then 1 else (0 :: int))"
  "ds_held :: dram_system \<Rightarrow> _" calls "2 ^ 63" for cfg
proof
  fix s :: dram_system and a w
  assume inv: "ds_inv cfg s"
  from vget_GetChannel [OF inv, of a] show "okE (\<lambda>_. True) (Jedec_WillAcceptTransaction cfg a w s)"
    by (auto simp: Jedec_WillAcceptTransaction_def)
  show "okE (\<lambda>(b, s'). b \<and> ds_inv cfg s' \<and> unat (ds_clk s') = unat (ds_clk s) \<and>
        ds_held s' = ds_held s + {#(a, if w then 1 else 0)#} \<and> calls s' = calls s) (Jedec_AddTransaction cfg a w s)"
    if "Jedec_WillAcceptTransaction cfg a w s = Inr True"
    using Jedec_AddTransaction_ok [OF inv that] by (auto elim!: okE_mono)
  show "okE (\<lambda>s'. ds_inv cfg s' \<and> unat (ds_clk s') = unat (ds_clk s) + 1 \<and>
        (\<exists>new. calls s' = calls s @ new \<and> ds_held s = ds_held s' + mset new)) (Jedec_ClockTick cfg (Timing cfg) s)"
    if now: "unat (ds_clk s) < 2 ^ 63"
  proof -
    have "unat (ds_clk s + 1) = unat (ds_clk s) + 1" using now by (simp add: unat_word_ariths)
    with Jedec_ClockTick_ok [OF inv now] show ?thesis by (auto elim!: okE_mono)
  qed
qed

lemma new_ctrls_ok:
  assumes "ds_cfg_ok cfg"
  shows "okE (\<lambda>cts. length cts = nat (channels cfg) \<and> (\<forall>ct \<in> set cts. ctrl_ok cfg (Timing cfg) 0 ct) \<and>
      sum_list (map outstanding cts) = {#})
    (foldE (\<lambda>i cts. bindE (Controller i cfg) (\<lambda>ct. Inr (cts @ [ct]))) (indices (channels cfg)) [])"
proof -
  let ?f = "\<lambda>i cts. bindE (Controller i cfg) (\<lambda>ct. Inr (cts @ [ct]))"
  from assms have c: "cfg_ok cfg (Timing cfg)" by (simp add: ds_cfg_ok_def)
  have "okE (\<lambda>cts. length cts = length is \<and> (\<forall>ct \<in> set cts. ctrl_ok cfg (Timing cfg) 0 ct) \<and>
      sum_list (map outstanding cts) = {#}) (foldE ?f is [])" for "is"
  proof (induction "is" rule: rev_induct)
    case (snoc i "is")
    from Controller_ok [OF c, of i] obtain ct where
      "Controller i cfg = Inr ct" "ctrl_ok cfg (Timing cfg) 0 ct" "outstanding ct = {#}"
      by (auto simp: okE_iff ctrl_ok_def outstanding_def)
    with snoc show ?case by (auto simp: foldE_append elim!: okE_mono)
  qed simp
  from this [of "indices (channels cfg)"] show ?thesis by simp
qed

lemma JedecDRAMSystem_ok:
  assumes cfg: "ds_cfg_ok cfg" and h: "\<not> IsHMC cfg"
  shows "okE (\<lambda>(s, n). ds_inv cfg s \<and> ds_held s = {#} \<and> calls s = [] \<and> ds_clk s = 0 \<and>
      n = total_channels + channels cfg) (JedecDRAMSystem cfg total_channels)"
proof -
  from cfg have n: "0 \<le> channels cfg" by (auto simp: ds_cfg_ok_def dest!: spec)
  from new_ctrls_ok [OF cfg] obtain cts where
    "foldE (\<lambda>i cts. bindE (Controller i cfg) (\<lambda>ct. Inr (cts @ [ct]))) (indices (channels cfg)) [] = Inr cts"
    "length cts = nat (channels cfg)" "\<forall>ct \<in> set cts. ctrl_ok cfg (Timing cfg) 0 ct"
    "sum_list (map outstanding cts) = {#}" by (auto simp: okE_iff)
  with cfg h n show ?thesis by (simp add: JedecDRAMSystem_def BaseDRAMSystem_def ds_inv_def ds_held_def)
qed

end
