(* ===== verification/IdealSystem.thy ===== *)
theory IdealSystem
  imports DRAMSystem Default_Config
begin

text \<open>
  The ideal memory of \<open>dram_system.cc\<close>: unbounded, with a fixed latency. It keeps the contract of a
  memory, but its loop passes over the transaction behind each one it erases.
\<close>

record ideal_system = dram_system +
  latency :: int
  infinite_buffer_q :: "transaction list"

definition IdealDRAMSystem :: "config \<Rightarrow> int \<Rightarrow> ideal_system \<times> int" where
  "IdealDRAMSystem cfg total_channels = (let (s, n) = BaseDRAMSystem cfg total_channels in
     (dram_system.extend s \<lparr>latency = ideal_memory_latency cfg, infinite_buffer_q = []\<rparr>, n))"

definition Ideal_WillAcceptTransaction :: "u64 \<Rightarrow> bool \<Rightarrow> ideal_system \<Rightarrow> bool result" where
  "Ideal_WillAcceptTransaction a w s = Inr True"

definition Ideal_AddTransaction :: "u64 \<Rightarrow> bool \<Rightarrow> ideal_system \<Rightarrow> (bool \<times> ideal_system) result" where
  "Ideal_AddTransaction a w s = Inr (True, s\<lparr>infinite_buffer_q :=
     infinite_buffer_q s @ [(Transaction a w)\<lparr>added_cycle := ds_clk s\<rparr>]\<rparr>)"

definition done_pair :: "transaction \<Rightarrow> u64 \<times> int" where
  "done_pair t = (t_addr t, if is_write t then 1 else 0)"

text \<open>The loop: what stays in the buffer, and the calls of the callbacks. After \<open>erase\<close> the iterator
  is at the next transaction already, and is moved on once more.\<close>

fun ideal_loop :: "u64 \<Rightarrow> int \<Rightarrow> transaction list \<Rightarrow> transaction list \<times> (u64 \<times> int) list" where
  "ideal_loop clk lat [] = ([], [])"
| "ideal_loop clk lat (t # ts) =
     (if clk - added_cycle t \<ge> of_c_int lat then
        (case ts of [] \<Rightarrow> ([], [done_pair t])
         | u # us \<Rightarrow> (let (kept, out) = ideal_loop clk lat us in (u # kept, done_pair t # out)))
      else (let (kept, out) = ideal_loop clk lat ts in (t # kept, out)))"

definition Ideal_ClockTick :: "ideal_system \<Rightarrow> ideal_system result" where
  "Ideal_ClockTick s = (let (kept, out) = ideal_loop (ds_clk s) (latency s) (infinite_buffer_q s) in
     Inr (s\<lparr>infinite_buffer_q := kept, calls := calls s @ out, ds_clk := ds_clk s + 1\<rparr>))"

lemma ideal_loop_mset: "ideal_loop clk lat ts = (kept, out) \<Longrightarrow>
    mset (map done_pair ts) = mset (map done_pair kept) + mset out"
proof (induction clk lat ts arbitrary: kept out rule: ideal_loop.induct)
  case (2 clk lat t ts)
  then show ?case by (cases ts) (auto simp: Let_def split: if_splits prod.splits)
qed simp

definition ideal_held :: "ideal_system \<Rightarrow> (u64 \<times> int) multiset" where
  "ideal_held s = mset (map done_pair (infinite_buffer_q s))"

interpretation ideal: memory_port "\<lambda>_. True" Ideal_WillAcceptTransaction Ideal_AddTransaction
  Ideal_ClockTick "\<lambda>s. unat (ds_clk s)" "\<lambda>a w. (a, if w then 1 else (0 :: int))" ideal_held calls "2 ^ 63"
proof
  fix s :: ideal_system and a w
  show "okE (\<lambda>_. True) (Ideal_WillAcceptTransaction a w s)" by (simp add: Ideal_WillAcceptTransaction_def)
  show "okE (\<lambda>(b, s'). b \<and> True \<and> unat (ds_clk s') = unat (ds_clk s) \<and>
      ideal_held s' = ideal_held s + {#(a, if w then 1 else 0)#} \<and> calls s' = calls s) (Ideal_AddTransaction a w s)"
    by (simp add: Ideal_AddTransaction_def ideal_held_def done_pair_def Transaction_def)
  obtain kept out where l: "ideal_loop (ds_clk s) (latency s) (infinite_buffer_q s) = (kept, out)" by fastforce
  show "okE (\<lambda>s'. True \<and> unat (ds_clk s') = unat (ds_clk s) + 1 \<and>
      (\<exists>new. calls s' = calls s @ new \<and> ideal_held s = ideal_held s' + mset new)) (Ideal_ClockTick s)"
    if "unat (ds_clk s) < 2 ^ 63"
    using that ideal_loop_mset [OF l] by (simp add: Ideal_ClockTick_def l ideal_held_def unat_word_ariths)
qed

section \<open>Properties\<close>

fun every_other :: "'a list \<Rightarrow> 'a list" where
  "every_other [] = []"
| "every_other [x] = [x]"
| "every_other (x # _ # xs) = x # every_other xs"

lemma ideal_loop_none: "\<forall>t \<in> set ts. \<not> (clk - added_cycle t \<ge> of_c_int lat) \<Longrightarrow> ideal_loop clk lat ts = (ts, [])"
  by (induction ts) (auto simp: Let_def)

lemma ideal_loop_due:
  "\<forall>t \<in> set ripe. clk - added_cycle t \<ge> of_c_int lat \<Longrightarrow> \<forall>t \<in> set rest. \<not> (clk - added_cycle t \<ge> of_c_int lat) \<Longrightarrow>
   snd (ideal_loop clk lat (ripe @ rest)) = map done_pair (every_other ripe)"
proof (induction ripe rule: every_other.induct)
  case 1
  then show ?case by (simp add: ideal_loop_none)
next
  case (2 x)
  then show ?case by (cases rest) (simp_all add: ideal_loop_none Let_def)
next
  case (3 x y xs)
  obtain k out where "ideal_loop clk lat (xs @ rest) = (k, out)" by fastforce
  with 3 show ?case by simp
qed

text \<open>The ideal memory does not have a fixed latency: of the transactions whose time has come,
  which are the first of its buffer, a cycle answers only every other one, because the loop
  passes over the transaction behind each one it erases.\<close>

theorem ideal_answers_every_other:
  assumes "infinite_buffer_q s = ripe @ rest"
    and "\<forall>t \<in> set ripe. ds_clk s - added_cycle t \<ge> of_c_int (latency s)"
    and "\<forall>t \<in> set rest. \<not> (ds_clk s - added_cycle t \<ge> of_c_int (latency s))"
  shows "okE (\<lambda>s'. calls s' = calls s @ map done_pair (every_other ripe)) (Ideal_ClockTick s)"
proof -
  obtain kept out where l: "ideal_loop (ds_clk s) (latency s) (ripe @ rest) = (kept, out)" by fastforce
  with ideal_loop_due [OF assms(2,3)] assms(1) show ?thesis by (simp add: Ideal_ClockTick_def)
qed

text \<open>Three reads added in cycle 0; in cycle 10 the first and the third are answered.\<close>

definition ex_ideal :: ideal_system where
  "ex_ideal = (fst (IdealDRAMSystem ex_cfg 0))\<lparr>ds_clk := 10, infinite_buffer_q :=
     map (\<lambda>a. Transaction a False) [0, 64, 128]\<rparr>"

theorem ideal_answers_every_other_witness:
  "okE (\<lambda>s. calls s = [(0, 0), (128, 0)]) (Ideal_ClockTick ex_ideal)"
proof -
  have f: "ds_clk ex_ideal = 10" "latency ex_ideal = 10" "calls ex_ideal = []"
    "infinite_buffer_q ex_ideal = map (\<lambda>a. Transaction a False) [0, 64, 128]"
    by (simp_all add: ex_ideal_def IdealDRAMSystem_def BaseDRAMSystem_def dram_system.defs) (simp add: ex_cfg_def)
  have "of_c_int 10 = (10 :: u64)" by (simp add: of_c_int_def)
  with ideal_answers_every_other [of ex_ideal "map (\<lambda>a. Transaction a False) [0, 64, 128]" "[]"] show ?thesis
    by (simp add: f Transaction_def done_pair_def)
qed

text \<open>The ideal memory loses nothing: whatever a client does in a session of less than
  \<open>2 ^ 63\<close> cycles, each transaction is accepted, and is answered or still held.\<close>

theorem ideal_session_conserved:
  assumes "length rs \<le> 2 ^ 63"
  shows "okE (\<lambda>(s, log). mset (map (\<lambda>(a, w). (a, if w then 1 else 0)) log) = ideal_held s + mset (calls s))
    (session Ideal_WillAcceptTransaction Ideal_AddTransaction Ideal_ClockTick rs (fst (IdealDRAMSystem cfg n)))"
proof -
  have "ds_clk (fst (IdealDRAMSystem cfg n)) = 0" "calls (fst (IdealDRAMSystem cfg n)) = []"
    "ideal_held (fst (IdealDRAMSystem cfg n)) = {#}"
    by (simp_all add: IdealDRAMSystem_def BaseDRAMSystem_def dram_system.defs ideal_held_def)
  with ideal.session_ok [of "fst (IdealDRAMSystem cfg n)" rs] assms show ?thesis
    by (auto simp: case_prod_beta' elim!: okE_mono)
qed

theorem ideal_session_conserved_witness:
  "okE (\<lambda>(s, log). ideal_held s + mset (calls s) = mset (map (\<lambda>(a, w). (a, if w then 1 else 0)) log))
    (session Ideal_WillAcceptTransaction Ideal_AddTransaction Ideal_ClockTick
       [Some (64, True), None, Some (64, False)] (fst (IdealDRAMSystem ex_cfg 0)))"
  using ideal_session_conserved [of "[Some (64, True), None, Some (64, False)]" ex_cfg 0]
  by (auto elim!: okE_mono)

end
