(* ===== verification/System_Properties.thy ===== *)
theory System_Properties
  imports IdealSystem Example
begin

text \<open>
  The properties of the system with one controller for each channel: it loses no transaction and
  never stops, answers what is due in order, and routes by the mapped channel.
\<close>

section \<open>Configurations\<close>

lemma GetChannel_AddressMapping: "GetChannel cfg a = a_channel (AddressMapping cfg a)"
  by (simp add: GetChannel_def AddressMapping_def Let_def Address_def)

text \<open>A configuration that the constructor accepts fits a system, under the hypotheses of \<open>Config_ok\<close> and
  with an epoch that is not empty.\<close>

lemma cfg_ok_system:
  assumes "cfg_ok cfg (Timing cfg)" and "of_c_int (epoch_period cfg) \<noteq> 0" and "enable_hbm_dual_cmd cfg \<longrightarrow> rw_apart cfg"
    and "\<And>a. 0 \<le> a_channel (AddressMapping cfg a) \<and> a_channel (AddressMapping cfg a) < channels cfg"
  shows "ds_cfg_ok cfg"
  using assms by (auto simp: ds_cfg_ok_def dual_ok_Timing GetChannel_AddressMapping)

lemma Config_channel:
  "Config rd c0 = Inr c \<Longrightarrow> mapping_wf c \<Longrightarrow>
   0 \<le> a_channel (AddressMapping c a) \<and> a_channel (AddressMapping c a) < channels c"
  using Config_places by (simp add: place_ok_def)

lemma Config_system_ok:
  assumes "Config rd c0 = Inr c" and "mapping_wf c" and "refresh_cfg_ok c"
    and "queue_structure c = ''PER_BANK'' \<or> queue_structure c = ''PER_RANK''" and "0 \<le> trans_queue_size c"
    and "0 \<le> cmd_queue_size c" and "\<not> enable_self_refresh c" and "enable_hbm_dual_cmd c \<longrightarrow> rw_apart c" and "of_c_int (epoch_period c) \<noteq> 0"
  shows "ds_cfg_ok c"
  by (rule cfg_ok_system [OF Config_ok [OF assms(1-7)] assms(9,8) Config_channel [OF assms(1,2)]])

lemma ex_ds_cfg_ok: "ds_cfg_ok ex_cfg"
proof (rule Config_system_ok [OF ex_Config])
  show "of_c_int (epoch_period ex_cfg) \<noteq> 0" by code_simp
qed (simp_all add: ex_fields mapping_wf_def refresh_cfg_ok_def)

lemma ex_not_HMC: "\<not> IsHMC ex_cfg"
  by (simp add: IsHMC_def ex_fields)

text \<open>A system on which a client offers three transactions in ten cycles: a read is due.\<close>

definition ex_session :: "(u64 \<times> bool) option list" where
  "ex_session = [Some (64, False), Some (128, True), Some (64, False)] @ replicate 11 None"

definition ex_jedec :: "(dram_system \<times> (u64 \<times> bool) list) result" where
  "ex_jedec = bindE (JedecDRAMSystem ex_cfg 0) (\<lambda>(s, _). session (Jedec_WillAcceptTransaction ex_cfg)
     (Jedec_AddTransaction ex_cfg) (Jedec_ClockTick ex_cfg (Timing ex_cfg)) ex_session s)"

lemma ex_jedec_value:
  "okE (\<lambda>(s, log). (log = [(64, False), (128, True), (64, False)] \<and> ds_clk s = 11 \<and> calls s = [(128, 1)] \<and>
      map (\<lambda>ct. map (\<lambda>t. (t_addr t, is_write t, complete_cycle t)) (return_queue ct)) (ctrls s) =
        [[(64, False, 11), (64, False, 11)]]) \<and>
     (map read_cmds (ctrls s) = [2] \<and> map write_cmds (ctrls s) = [0] \<and> map read_row_hits (ctrls s) = [0] \<and>
      map write_row_hits (ctrls s) = [0] \<and> active_cycles s = 7 \<and> ds_concurrent_serve s = 7)) ex_jedec"
  by code_simp

lemma ex_jedec_result:
  "okE (\<lambda>(s, log). log = [(64, False), (128, True), (64, False)] \<and> ds_clk s = 11 \<and> calls s = [(128, 1)] \<and>
      map (\<lambda>ct. map (\<lambda>t. (t_addr t, is_write t, complete_cycle t)) (return_queue ct)) (ctrls s) =
        [[(64, False, 11), (64, False, 11)]]) ex_jedec"
  by (rule okE_mono [OF ex_jedec_value]) blast

lemma ex_jedec_state:
  obtains s :: dram_system where "ds_inv ex_cfg s" and "ds_clk s = 11" and "calls s = [(128, 1)]"
    and "map (\<lambda>ct. map (\<lambda>t. (t_addr t, is_write t, complete_cycle t)) (return_queue ct)) (ctrls s) =
        [[(64, False, 11), (64, False, 11)]]"
proof -
  from JedecDRAMSystem_ok [OF ex_ds_cfg_ok ex_not_HMC, of 0] obtain s0 n where
    j: "JedecDRAMSystem ex_cfg 0 = Inr (s0, n)" "ds_inv ex_cfg s0" "ds_clk s0 = 0" by (auto simp: okE_iff)
  from jedec.session_ok [OF j(2), of ex_session] j(3) obtain s log where
    r: "session (Jedec_WillAcceptTransaction ex_cfg) (Jedec_AddTransaction ex_cfg)
      (Jedec_ClockTick ex_cfg (Timing ex_cfg)) ex_session s0 = Inr (s, log)" "ds_inv ex_cfg s"
    by (auto simp: okE_iff ex_session_def)
  from ex_jedec_result r that [OF r(2)] show thesis by (simp add: ex_jedec_def j(1))
qed

section \<open>What is due is answered\<close>

definition due_pairs :: "u64 \<Rightarrow> controller \<Rightarrow> (u64 \<times> int) list" where
  "due_pairs clk ct = map done_pair (filter (\<lambda>t. complete_cycle t \<le> clk) (return_queue ct))"

lemma filter_remove_first:
  "List.find P xs = Some x \<Longrightarrow> filter P xs = x # filter P (remove_first P xs)"
  by (induction xs) (auto split: if_splits)

lemma drain_done_log:
  "\<exists>ct'. drain_done log_call clk ct log = Inr (ct', log @ due_pairs clk ct)"
proof (induction "length (return_queue ct)" arbitrary: ct log rule: less_induct)
  case less
  show ?case
  proof (cases "List.find (\<lambda>t. complete_cycle t \<le> clk) (return_queue ct)")
    case None
    then have "ReturnDoneTrans clk ct = (no_trans, ct)" by (simp add: ReturnDoneTrans_def)
    moreover have "due_pairs clk ct = []"
      using None by (simp add: due_pairs_def find_None_iff filter_empty_conv)
    ultimately show ?thesis by (subst drain_done.simps) (simp add: no_trans_def)
  next
    case (Some t)
    obtain ct' where r: "ReturnDoneTrans clk ct = (done_pair t, ct')"
      and q: "return_queue ct' = remove_first (\<lambda>t. complete_cycle t \<le> clk) (return_queue ct)"
      by (simp add: ReturnDoneTrans_def Some done_pair_def)
    have n: "done_pair t \<noteq> no_trans" by (simp add: done_pair_def no_trans_pair)
    have "due_pairs clk ct = done_pair t # due_pairs clk ct'"
      by (simp add: due_pairs_def q filter_remove_first [OF Some])
    moreover from less [OF ReturnDoneTrans_shrinks [OF r n], of "log @ [done_pair t]"] obtain ct'' where
      "drain_done log_call clk ct' (log @ [done_pair t]) = Inr (ct'', log @ done_pair t # due_pairs clk ct')" by auto
    ultimately show ?thesis
      by (subst drain_done.simps) (cases "is_write t"; simp add: r done_pair_def log_call_def)
  qed
qed

lemma drain_all_log:
  "\<exists>cts'. each_ctrl (drain_done log_call clk) cts log = Inr (cts', log @ concat (map (due_pairs clk) cts))"
proof (induction cts arbitrary: log)
  case (Cons ct cts)
  from drain_done_log [of clk ct log] obtain ct' where
    d: "drain_done log_call clk ct log = Inr (ct', log @ due_pairs clk ct)" by blast
  from Cons [of "log @ due_pairs clk ct"] obtain cts' where
    "each_ctrl (drain_done log_call clk) cts (log @ due_pairs clk ct) =
       Inr (cts', log @ due_pairs clk ct @ concat (map (due_pairs clk) cts))" by auto
  with d show ?case by simp
qed simp

lemma next_clk_calls: "next_clk cfg s = Inr s' \<Longrightarrow> calls s' = calls s \<and> active_cycles s' = active_cycles s \<and>
    ds_concurrent_serve s' = ds_concurrent_serve s"
  by (auto simp: next_clk_def Let_def ds_PrintEpochStats_def bindE_eq_Inr split: if_splits)

text \<open>C26. In each cycle the system answers exactly the transactions whose time has come: those of the
  first channel first, and within a channel in the order of its return queue. Reads go to the read
  callback and writes to the write callback.\<close>

theorem jedec_answers_due:
  assumes "ds_inv cfg s" and "unat (ds_clk s) < 2 ^ 63"
  shows "okE (\<lambda>s'. calls s' = calls s @ concat (map (\<lambda>ct. map (\<lambda>t. (t_addr t, if is_write t then 1 else 0))
      (filter (\<lambda>t. complete_cycle t \<le> ds_clk s) (return_queue ct))) (ctrls s)))
    (Jedec_ClockTick cfg (Timing cfg) s)"
proof -
  from drain_all_log [of "ds_clk s" "ctrls s" "calls s"] obtain cts where
    d: "each_ctrl (drain_done log_call (ds_clk s)) (ctrls s) (calls s) =
      Inr (cts, calls s @ concat (map (due_pairs (ds_clk s)) (ctrls s)))" by blast
  from Jedec_ClockTick_ok [OF assms] obtain s' where s': "Jedec_ClockTick cfg (Timing cfg) s = Inr s'"
    by (auto simp: okE_iff)
  then have "calls s' = calls s @ concat (map (due_pairs (ds_clk s)) (ctrls s))"
    by (auto simp: Jedec_ClockTick_def d bindE_eq_Inr dest!: next_clk_calls)
  then show ?thesis by (simp add: s' due_pairs_def [abs_def] done_pair_def [abs_def])
qed

theorem jedec_answers_due_witness:
  "\<exists>s :: dram_system. ds_inv ex_cfg s \<and> calls s = [(128, 1)] \<and>
     okE (\<lambda>s'. calls s' = [(128, 1), (64, 0), (64, 0)]) (Jedec_ClockTick ex_cfg (Timing ex_cfg) s)"
proof -
  obtain s :: dram_system where s: "ds_inv ex_cfg s" "ds_clk s = 11" "calls s = [(128, 1)]"
    "map (\<lambda>ct. map (\<lambda>t. (t_addr t, is_write t, complete_cycle t)) (return_queue ct)) (ctrls s) =
        [[(64, False, 11), (64, False, 11)]]" by (rule ex_jedec_state)
  from s(4) obtain ct t u where q: "ctrls s = [ct]" "return_queue ct = [t, u]" "t_addr t = 64" "t_addr u = 64"
    "\<not> is_write t" "\<not> is_write u" "complete_cycle t = 11" "complete_cycle u = 11"
    by (auto simp: map_eq_Cons_conv)
  from jedec_answers_due [OF s(1)] s have "okE (\<lambda>s'. calls s' = [(128, 1), (64, 0), (64, 0)])
      (Jedec_ClockTick ex_cfg (Timing ex_cfg) s)" by (simp add: q)
  with s show ?thesis by blast
qed

section \<open>Conservation\<close>

text \<open>C4. Whatever a client does in a session of at most \<open>2 ^ 63\<close> cycles and offers with a system whose
  configuration fits (\<open>ds_cfg_ok\<close>, which excludes self refresh), the system never
  stops the program, and the transactions it accepted are exactly, as a multiset, those it answered
  and those its controllers hold.\<close>

theorem jedec_session_conserved:
  assumes "ds_cfg_ok cfg" and "JedecDRAMSystem cfg n = Inr (s, m)" and "length rs \<le> 2 ^ 63"
  shows "okE (\<lambda>(s', log). mset (map (\<lambda>(a, w). (a, if w then 1 else 0)) log) = ds_held s' + mset (calls s'))
    (session (Jedec_WillAcceptTransaction cfg) (Jedec_AddTransaction cfg)
       (Jedec_ClockTick cfg (Timing cfg)) rs s)"
proof -
  from assms(2) have "\<not> IsHMC cfg" by (auto simp: JedecDRAMSystem_def BaseDRAMSystem_def)
  from JedecDRAMSystem_ok [OF assms(1) this, of n] assms(2) have
    "ds_inv cfg s" "ds_held s = {#}" "calls s = []" "ds_clk s = 0" by simp_all
  with jedec.session_ok [of cfg s rs] assms(3) show ?thesis
    by (auto simp: case_prod_beta' elim!: okE_mono)
qed

theorem jedec_session_conserved_witness:
  "okE (\<lambda>(s, log). ds_held s + {#(128, 1)#} = {#(64, 0), (128, 1), (64, 0)#}) ex_jedec"
proof -
  from JedecDRAMSystem_ok [OF ex_ds_cfg_ok ex_not_HMC, of 0] obtain s0 n where
    j: "JedecDRAMSystem ex_cfg 0 = Inr (s0, n)" by (auto simp: okE_iff)
  from jedec_session_conserved [OF ex_ds_cfg_ok j, of ex_session] ex_jedec_result show ?thesis
    by (auto simp: ex_jedec_def j okE_iff ex_session_def)
qed

section \<open>Routing\<close>

text \<open>Routing: an accepted transaction is added, once, to the controller of the channel to which
  \<open>AddressMapping\<close> decodes its address; every other controller stays as it is.\<close>

theorem jedec_routes_by_channel:
  assumes "ds_inv cfg s" and "Jedec_WillAcceptTransaction cfg a w s = Inr True"
  shows "okE (\<lambda>(b, s'). b \<and> length (ctrls s') = length (ctrls s) \<and> (\<forall>i < length (ctrls s).
      outstanding (ctrls s' ! i) = outstanding (ctrls s ! i) +
        (if int i = a_channel (AddressMapping cfg a) then {#(a, if w then 1 else 0)#} else {#}) \<and>
      (int i \<noteq> a_channel (AddressMapping cfg a) \<longrightarrow> ctrls s' ! i = ctrls s ! i)))
    (Jedec_AddTransaction cfg a w s)"
proof -
  from vget_GetChannel [OF assms(1), of a] obtain ct where ct: "vget (ctrls s) (GetChannel cfg a) = Inr ct"
    "ct \<in> set (ctrls s)" "ct = ctrls s ! nat (GetChannel cfg a)" "nat (GetChannel cfg a) < length (ctrls s)"
    "0 \<le> GetChannel cfg a" by blast
  let ?ct = "snd (AddTransaction (Transaction a w) ct)"
  from assms(2) ct(1) have w: "WillAcceptTransaction a w ct" by (simp add: Jedec_WillAcceptTransaction_def)
  from assms(1) ct(2) have "ct_inv cfg (Timing cfg) Command_default ct" by (simp add: ds_inv_def ctrl_ok_def)
  from AddTransaction_ok(2) [OF this, of "Transaction a w"]
  have o: "outstanding ?ct = outstanding ct + {#(a, if w then 1 else 0)#}"
    by (simp add: outstanding_def Transaction_def as_pair_def)
  have "vset (ctrls s) (GetChannel cfg a) ?ct = Inr ((ctrls s)[nat (GetChannel cfg a) := ?ct])"
    using ct(4,5) by (simp add: vset_def)
  then have run: "Jedec_AddTransaction cfg a w s =
      Inr (True, s\<lparr>ctrls := (ctrls s)[nat (GetChannel cfg a) := ?ct], last_req_clk := ds_clk s\<rparr>)"
    by (simp add: Jedec_AddTransaction_def Let_def ct(1) w)
  have "int i = a_channel (AddressMapping cfg a) \<longleftrightarrow> i = nat (GetChannel cfg a)" for i
    using ct(5) by (auto simp: GetChannel_AddressMapping)
  with o show ?thesis unfolding run okE_simps by (cases w) (simp_all add: nth_list_update ct(3) [symmetric])
qed

theorem jedec_routes_by_channel_witness:
  "\<exists>s :: dram_system. ds_inv ex_cfg s \<and>
     okE (\<lambda>(b, s'). b \<and> outstanding (ctrls s' ! 0) = outstanding (ctrls s ! 0) + {#(192, 1)#})
       (Jedec_AddTransaction ex_cfg 192 True s)"
proof -
  from JedecDRAMSystem_ok [OF ex_ds_cfg_ok ex_not_HMC, of 0] obtain s n where
    j: "JedecDRAMSystem ex_cfg 0 = Inr (s, n)" "ds_inv ex_cfg s" by (auto simp: okE_iff)
  have "okE (\<lambda>(s, _). Jedec_WillAcceptTransaction ex_cfg 192 True s = Inr True) (JedecDRAMSystem ex_cfg 0)"
    by code_simp
  with j(1) have "Jedec_WillAcceptTransaction ex_cfg 192 True s = Inr True" by simp
  moreover have "a_channel (AddressMapping ex_cfg 192) = 0" by code_simp
  moreover have "length (ctrls s) = 1" using j(2) by (simp add: ds_inv_def ex_fields)
  ultimately show ?thesis using jedec_routes_by_channel [OF j(2), of 192 True] j(2) by (auto elim!: okE_mono)
qed

section \<open>Active cycles\<close>

lemma tick_all_active:
  "each_ctrl (tick_ctrl cfg tim) cts (x, y) = Inr (cts', a, c) \<Longrightarrow>
     a = x + of_nat (length (filter is_active_cycles cts')) \<and>
     c = y + sum_list (map concurrent_serve (filter is_active_cycles cts'))"
proof (induction cts arbitrary: x y cts')
  case (Cons ct cts)
  from Cons.prems obtain ct' x' y' cs where t: "tick_ctrl cfg tim ct (x, y) = Inr (ct', x', y')"
    "each_ctrl (tick_ctrl cfg tim) cts (x', y') = Inr (cs, a, c)" "cts' = ct' # cs" by (auto simp: bindE_eq_Inr)
  from Cons.IH [OF t(2)] t(1) show ?case
    by (auto simp: tick_ctrl_def bindE_eq_Inr t(3) split: if_splits)
qed simp

lemma epoch_keeps_active:
  "each_ctrl (\<lambda>ct u. bindE (ct_PrintEpochStats ct) (\<lambda>ct'. Inr (ct', u))) cts () = Inr (cts', v) \<Longrightarrow>
     map is_active_cycles cts' = map is_active_cycles cts \<and> map concurrent_serve cts' = map concurrent_serve cts"
  by (induction cts arbitrary: cts' v) (auto simp: bindE_eq_Inr ct_PrintEpochStats_def)

lemma active_counts:
  "map is_active_cycles cts' = map is_active_cycles cts \<Longrightarrow> map concurrent_serve cts' = map concurrent_serve cts \<Longrightarrow>
     length (filter is_active_cycles cts') = length (filter is_active_cycles cts) \<and>
     sum_list (map concurrent_serve (filter is_active_cycles cts')) =
       sum_list (map concurrent_serve (filter is_active_cycles cts))"
  by (induction cts arbitrary: cts') (auto simp: map_eq_Cons_conv)

text \<open>The counter of active cycles: a cycle adds the number of channels that are active in it, not
  one, to \<open>active_cycles\<close> (so it counts pairs of a cycle and an active channel), and the requests
  these channels serve to \<open>concurrent_serve\<close>.\<close>

theorem active_cycles_per_channel:
  assumes "Jedec_ClockTick cfg tim s = Inr s'"
  shows "active_cycles s' = active_cycles s + of_nat (length (filter is_active_cycles (ctrls s'))) \<and>
    ds_concurrent_serve s' = ds_concurrent_serve s + sum_list (map concurrent_serve (filter is_active_cycles (ctrls s')))"
proof -
  from assms obtain cts log cts' a c where
    t: "each_ctrl (tick_ctrl cfg tim) cts (active_cycles s, ds_concurrent_serve s) = Inr (cts', a, c)"
      "next_clk cfg (s\<lparr>ctrls := cts', calls := log, active_cycles := a, ds_concurrent_serve := c\<rparr>) = Inr s'"
    by (auto simp: Jedec_ClockTick_def bindE_eq_Inr)
  have "map is_active_cycles (ctrls s') = map is_active_cycles cts' \<and> map concurrent_serve (ctrls s') = map concurrent_serve cts'"
    using t(2) by (auto simp: next_clk_def Let_def ds_PrintEpochStats_def bindE_eq_Inr epoch_keeps_active split: if_splits)
  then have "length (filter is_active_cycles (ctrls s')) = length (filter is_active_cycles cts') \<and>
      sum_list (map concurrent_serve (filter is_active_cycles (ctrls s'))) = sum_list (map concurrent_serve (filter is_active_cycles cts'))"
    using active_counts by blast
  with tick_all_active [OF t(1)] next_clk_calls [OF t(2)] show ?thesis by simp
qed

theorem active_cycles_per_channel_witness:
  "okE (\<lambda>(s, _). okE (\<lambda>s'. active_cycles s' =
      active_cycles s + of_nat (length (filter is_active_cycles (ctrls s')))) (Jedec_ClockTick ex_cfg (Timing ex_cfg) s))
    (JedecDRAMSystem ex_cfg 0)"
proof -
  from JedecDRAMSystem_ok [OF ex_ds_cfg_ok ex_not_HMC, of 0] obtain s n where
    j: "JedecDRAMSystem ex_cfg 0 = Inr (s, n)" "ds_inv ex_cfg s" "ds_clk s = 0" by (auto simp: okE_iff)
  from Jedec_ClockTick_ok [OF j(2)] j(3) obtain s' where t: "Jedec_ClockTick ex_cfg (Timing ex_cfg) s = Inr s'"
    by (auto simp: okE_iff)
  from active_cycles_per_channel [OF this] show ?thesis by (simp add: j(1) t)
qed

end
