(* ===== verification/Double.thy ===== *)
theory Double
  imports Complex_Main "HOL-Library.Log_Nat"
begin

text \<open>
  The type \<open>double\<close> of C and C++ as the simulator's figures use it: IEEE 754 binary64 with
  rounding to the nearest, ties to even, each operation rounded once (no wider intermediate
  results, no fused operations). A finite number is a sign, an integer mantissa and an exponent;
  every operation computes the exact rational result and rounds it by \<open>rnd\<close>, so that all
  definitions can be evaluated. The sign and payload of a NaN are not kept. Lemmas: results
  are canonical, the rounding is off by at most half a unit of the last place and exact on
  integers up to 2 to the 53, and addition is commutative.
\<close>

section \<open>Numbers\<close>

datatype double = NaN | Inf bool | Fin bool int int

abbreviation dzero :: double where "dzero \<equiv> Fin False 0 (-1074)"

text \<open>The mantissa of a normal number has 53 bits, that of a subnormal one fewer and the least
  exponent.\<close>

definition canonical :: "double \<Rightarrow> bool" where
  "canonical x = (case x of Fin s m e \<Rightarrow> 0 \<le> m \<and> m < 2 ^ 53 \<and> -1074 \<le> e \<and> e \<le> 971 \<and>
      (m < 2 ^ 52 \<longrightarrow> e = -1074) | _ \<Rightarrow> True)"

fun finite_d :: "double \<Rightarrow> bool" where
  "finite_d (Fin s m e) = True"
| "finite_d _ = False"

definition signed :: "bool \<Rightarrow> int \<Rightarrow> int" where
  "signed s m = (if s then - m else m)"

text \<open>The value of a finite number.\<close>

fun dval :: "double \<Rightarrow> real" where
  "dval (Fin s m e) = of_int (signed s m) * 2 powi e"
| "dval _ = 0"

section \<open>Rounding\<close>

definition pow2 :: "int \<Rightarrow> int" where
  "pow2 e = 2 ^ nat e"

text \<open>The integer nearest to \<open>n / d\<close>, the even one of two.\<close>

definition round_div :: "int \<Rightarrow> int \<Rightarrow> int" where
  "round_div n d = (let q = n div d; r = n mod d in
     if 2 * r < d \<or> (2 * r = d \<and> even q) then q else q + 1)"

text \<open>The exponent for \<open>n / d\<close>: the one that leaves 53 bits, but not below the least.\<close>

definition dexp :: "int \<Rightarrow> int \<Rightarrow> int" where
  "dexp n d = (let k = bitlen n - bitlen d in
     max (-1074) (if d * pow2 k \<le> n * pow2 (- k) then k - 52 else k - 53))"

definition mk :: "bool \<Rightarrow> int \<Rightarrow> int \<Rightarrow> double" where
  "mk s m e = (if e > 971 then Inf s else Fin s m e)"

definition rnd :: "bool \<Rightarrow> int \<Rightarrow> int \<Rightarrow> double" where
  "rnd s n d =
     (if n \<le> 0 then Fin s 0 (-1074) else
      let e = dexp n d; m = round_div (n * pow2 (- e)) (d * pow2 e)
      in if m = 2 ^ 53 then mk s (2 ^ 52) (e + 1) else mk s m e)"

section \<open>Operations\<close>

definition dlit :: "int \<Rightarrow> int \<Rightarrow> double" where
  "dlit n d = rnd (n < 0) \<bar>n\<bar> d"

definition d_of_int :: "int \<Rightarrow> double" where
  "d_of_int z = rnd (z < 0) \<bar>z\<bar> 1"

fun dneg :: "double \<Rightarrow> double" where
  "dneg NaN = NaN"
| "dneg (Inf s) = Inf (\<not> s)"
| "dneg (Fin s m e) = Fin (\<not> s) m e"

text \<open>An exact sum of zero is positive unless both operands are negative zeros.\<close>

fun dadd :: "double \<Rightarrow> double \<Rightarrow> double" where
  "dadd (Fin s m e) (Fin s' m' e') =
     (let k = min e e'; z = signed s m * pow2 (e - k) + signed s' m' * pow2 (e' - k)
      in if z = 0 then Fin (s \<and> s') 0 (-1074) else rnd (z < 0) (\<bar>z\<bar> * pow2 k) (pow2 (- k)))"
| "dadd (Inf s) (Inf s') = (if s = s' then Inf s else NaN)"
| "dadd (Inf s) (Fin _ _ _) = Inf s"
| "dadd (Fin _ _ _) (Inf s) = Inf s"
| "dadd NaN _ = NaN"
| "dadd _ NaN = NaN"

definition dsub :: "double \<Rightarrow> double \<Rightarrow> double" where
  "dsub x y = dadd x (dneg y)"

fun dmul :: "double \<Rightarrow> double \<Rightarrow> double" where
  "dmul (Fin s m e) (Fin s' m' e') = rnd (s \<noteq> s') (m * m' * pow2 (e + e')) (pow2 (- (e + e')))"
| "dmul (Inf s) (Inf s') = Inf (s \<noteq> s')"
| "dmul (Inf s) (Fin s' m _) = (if m = 0 then NaN else Inf (s \<noteq> s'))"
| "dmul (Fin s m _) (Inf s') = (if m = 0 then NaN else Inf (s \<noteq> s'))"
| "dmul NaN _ = NaN"
| "dmul _ NaN = NaN"

fun ddiv :: "double \<Rightarrow> double \<Rightarrow> double" where
  "ddiv (Fin s m e) (Fin s' m' e') =
     (if m' = 0 then (if m = 0 then NaN else Inf (s \<noteq> s'))
      else rnd (s \<noteq> s') (m * pow2 (e - e')) (m' * pow2 (e' - e)))"
| "ddiv (Inf s) (Inf s') = NaN"
| "ddiv (Inf s) (Fin s' _ _) = Inf (s \<noteq> s')"
| "ddiv (Fin s _ _) (Inf s') = Fin (s \<noteq> s') 0 (-1074)"
| "ddiv NaN _ = NaN"
| "ddiv _ NaN = NaN"

text \<open>Comparisons are false when an operand is NaN.\<close>

fun dless :: "double \<Rightarrow> double \<Rightarrow> bool" where
  "dless (Fin s m e) (Fin s' m' e') =
     (let k = min e e' in signed s m * pow2 (e - k) < signed s' m' * pow2 (e' - k))"
| "dless (Inf s) (Inf s') = (s \<and> \<not> s')"
| "dless (Inf s) (Fin _ _ _) = s"
| "dless (Fin _ _ _) (Inf s) = (\<not> s)"
| "dless NaN _ = False"
| "dless _ NaN = False"

fun deq :: "double \<Rightarrow> double \<Rightarrow> bool" where
  "deq (Fin s m e) (Fin s' m' e') =
     (let k = min e e' in signed s m * pow2 (e - k) = signed s' m' * pow2 (e' - k))"
| "deq (Inf s) (Inf s') = (s = s')"
| "deq _ _ = False"

definition dle :: "double \<Rightarrow> double \<Rightarrow> bool" where
  "dle x y = (dless x y \<or> deq x y)"

text \<open>The conversion to \<open>int\<close> drops the fraction; it is undefined for a value that
  does not fit.\<close>

definition int_range :: "int \<Rightarrow> bool" where
  "int_range z \<longleftrightarrow> - (2 ^ 31) \<le> z \<and> z < 2 ^ 31"

fun dtrunc :: "double \<Rightarrow> int option" where
  "dtrunc (Fin s m e) = (let z = signed s (m * pow2 e div pow2 (- e)) in
     if int_range z then Some z else None)"
| "dtrunc _ = None"

text \<open>\<open>ceil\<close>.\<close>

fun dceil :: "double \<Rightarrow> double" where
  "dceil (Fin s m e) = (if 0 \<le> e then Fin s m e
     else let z = - (- signed s m div pow2 (- e)) in rnd s \<bar>z\<bar> 1)"
| "dceil x = x"

section \<open>The exact values\<close>

lemma pow2_pos [simp]: "0 < pow2 e"
  by (simp add: pow2_def)

lemma pow2_nonneg [simp]: "0 \<le> pow2 e"
  by (simp add: pow2_def)

lemma pow2_0 [simp]: "e \<le> 0 \<Longrightarrow> pow2 e = 1"
  by (simp add: pow2_def)

lemma pow2_real: "real_of_int (pow2 e) / of_int (pow2 (- e)) = 2 powi e"
proof (cases "0 \<le> e")
  case True
  then show ?thesis by (simp add: power_int_def pow2_def)
next
  case False
  then have "nat e = 0" by simp
  with False show ?thesis by (simp add: power_int_def pow2_def power_one_over)
qed

lemma pow2_real_nonneg: "0 \<le> e \<Longrightarrow> real_of_int (pow2 e) = 2 powi e"
  by (simp add: pow2_def power_int_def)

lemma powi_add2: "(2::real) powi (a + b) = 2 powi a * 2 powi b"
  by (simp add: power_int_add)

lemma powi_mono2: "a \<le> b \<Longrightarrow> (2::real) powi a \<le> 2 powi b"
  by (rule power_int_increasing) simp_all

lemma signed_simps [simp]: "signed s 0 = 0" "\<bar>signed s m\<bar> = \<bar>m\<bar>"
  by (simp_all add: signed_def)

lemma round_div_bounds:
  assumes "0 < d"
  shows "\<bar>2 * (n - d * round_div n d)\<bar> \<le> d"
proof -
  define q where "q = n div d"
  define r where "r = n mod d"
  note q = q_def [symmetric] and r = r_def [symmetric]
  have n: "n = d * q + r" by (simp add: q_def r_def)
  have "0 \<le> r" "r < d" using assms by (simp_all add: r_def)
  moreover have "2 * (n - d * q) = 2 * r" "2 * (n - d * (q + 1)) = 2 * r - 2 * d"
    by (simp_all add: n distrib_left)
  ultimately show ?thesis unfolding round_div_def Let_def q r by (simp split: if_splits)
qed

lemma round_div_real:
  assumes "0 < d"
  shows "\<bar>real_of_int n / of_int d - of_int (round_div n d)\<bar> \<le> 1 / 2"
proof -
  have "real_of_int \<bar>2 * (n - d * round_div n d)\<bar> \<le> of_int d"
    using round_div_bounds [OF assms] by (simp only: of_int_le_iff)
  moreover have "real_of_int \<bar>2 * (n - d * round_div n d)\<bar> = 2 * \<bar>real_of_int n - of_int d * of_int (round_div n d)\<bar>"
    by (simp only: of_int_abs of_int_mult of_int_diff abs_mult of_int_numeral abs_numeral)
  ultimately have "\<bar>real_of_int n - of_int d * of_int (round_div n d)\<bar> \<le> of_int d / 2" by simp
  moreover have "real_of_int n / of_int d - of_int (round_div n d)
      = (of_int n - of_int d * of_int (round_div n d)) / of_int d"
    using assms by (simp add: diff_divide_distrib)
  ultimately show ?thesis using assms by (simp add: abs_divide pos_divide_le_eq)
qed

lemma round_div_exact: "0 < d \<Longrightarrow> round_div (q * d) d = q"
  by (simp add: round_div_def)

lemma round_div_ge:
  assumes "0 < d" and "M * d \<le> n"
  shows "M \<le> round_div n d"
proof -
  have "M \<le> n div d" using assms by (simp add: zdiv_mono1 [of "M * d" n d, simplified])
  then show ?thesis by (auto simp: round_div_def Let_def)
qed

lemma round_div_le:
  assumes "0 < d" and "n \<le> M * d"
  shows "round_div n d \<le> M"
proof (cases "n = M * d")
  case True
  with assms(1) show ?thesis by (simp add: round_div_exact)
next
  case False
  with assms(2) have "n < M * d" by simp
  then have "n div d < M"
    using assms(1) div_mult_mod_eq [of n d] pos_mod_sign [of d n] by (smt (verit) mult_right_mono)
  then show ?thesis by (auto simp: round_div_def Let_def)
qed

text \<open>The quotient, scaled by the chosen exponent, lies between 2 to the 52 and 2 to the 53,
  unless the exponent is the least.\<close>

lemma quot_bitlen:
  assumes "0 < n" and "0 < d"
  defines "k \<equiv> bitlen n - bitlen d"
  shows "2 powi (k - 1) \<le> real_of_int n / of_int d" and "real_of_int n / of_int d < 2 powi (k + 1)"
proof -
  have pos: "1 \<le> bitlen n" "1 \<le> bitlen d" using assms by (auto simp: bitlen_alt_def)
  note b = bitlen_bounds [OF assms(1)] bitlen_bounds [OF assms(2)]
  have R: "real_of_int (2 ^ nat j) = 2 powi j" if "0 \<le> j" for j :: int
    using that by (simp add: power_int_def)
  have ln: "2 powi (bitlen n - 1) \<le> real_of_int n" and un: "real_of_int n < 2 powi bitlen n"
    using b pos R [of "bitlen n - 1"] R [of "bitlen n"] by (metis of_int_le_iff of_int_less_iff diff_ge_0_iff_ge bitlen_nonneg)+
  have ld: "2 powi (bitlen d - 1) \<le> real_of_int d" and ud: "real_of_int d < 2 powi bitlen d"
    using b pos R [of "bitlen d - 1"] R [of "bitlen d"] by (metis of_int_le_iff of_int_less_iff diff_ge_0_iff_ge bitlen_nonneg)+
  have "2 powi (k - 1) * real_of_int d \<le> 2 powi (k - 1) * 2 powi bitlen d"
    using ud by simp
  also have "\<dots> = 2 powi (bitlen n - 1)" by (simp add: k_def flip: powi_add2)
  finally show "2 powi (k - 1) \<le> real_of_int n / of_int d"
    using ln assms(2) by (simp add: pos_le_divide_eq)
  have "(2::real) powi bitlen n = 2 powi (k + 1) * 2 powi (bitlen d - 1)" by (simp add: k_def flip: powi_add2)
  also have "\<dots> \<le> 2 powi (k + 1) * real_of_int d" using ld by simp
  finally show "real_of_int n / of_int d < 2 powi (k + 1)"
    using un assms(2) by (simp add: pos_divide_less_eq)
qed

lemma dexp_ge: "-1074 \<le> dexp n d"
  by (simp add: dexp_def Let_def)

lemma pow2_test:
  assumes "0 < d"
  shows "d * pow2 k \<le> n * pow2 (- k) \<longleftrightarrow> 2 powi k \<le> real_of_int n / of_int d"
proof -
  have "2 powi k \<le> real_of_int n / of_int d \<longleftrightarrow>
      real_of_int (pow2 k) * of_int d \<le> real_of_int n * of_int (pow2 (- k))"
    using assms pow2_pos [of "- k"] unfolding pow2_real [symmetric]
    by (simp add: divide_simps del: pow2_pos)
  then show ?thesis by (simp add: mult.commute flip: of_int_mult)
qed

lemma dexp_upper:
  assumes "0 < n" and "0 < d"
  shows "real_of_int n / of_int d < 2 powi (dexp n d + 53)"
proof -
  let ?k = "bitlen n - bitlen d"
  have "real_of_int n / of_int d < 2 powi ((if d * pow2 ?k \<le> n * pow2 (- ?k) then ?k - 52 else ?k - 53) + 53)"
    using quot_bitlen(2) [OF assms] pow2_test [OF assms(2), of ?k n] by (auto simp: algebra_simps)
  also have "\<dots> \<le> 2 powi (dexp n d + 53)" by (rule powi_mono2) (simp add: dexp_def Let_def)
  finally show ?thesis .
qed

lemma dexp_lower:
  assumes "0 < n" and "0 < d" and "dexp n d > -1074"
  shows "2 powi (dexp n d + 52) \<le> real_of_int n / of_int d"
proof -
  let ?k = "bitlen n - bitlen d"
  have e: "dexp n d = (if d * pow2 ?k \<le> n * pow2 (- ?k) then ?k - 52 else ?k - 53)"
    using assms(3) by (simp add: dexp_def Let_def split: if_splits)
  show ?thesis
    using quot_bitlen(1) [OF assms(1,2)] pow2_test [OF assms(2), of ?k n] by (auto simp: e algebra_simps)
qed

lemma scaled_real:
  assumes "0 < d"
  shows "real_of_int (n * pow2 (- e)) / of_int (d * pow2 e) = (of_int n / of_int d) / 2 powi e"
  using assms pow2_pos [of e] pow2_pos [of "- e"] by (simp add: divide_simps del: pow2_pos flip: pow2_real)

text \<open>The mantissa before the last step.\<close>

definition mant :: "int \<Rightarrow> int \<Rightarrow> int" where
  "mant n d = (let e = dexp n d in round_div (n * pow2 (- e)) (d * pow2 e))"

lemma mant_le: "0 < n \<Longrightarrow> 0 < d \<Longrightarrow> mant n d \<le> 2 ^ 53"
proof -
  assume nd: "0 < n" "0 < d"
  let ?e = "dexp n d"
  have "real_of_int (n * pow2 (- ?e)) / of_int (d * pow2 ?e) < 2 ^ 53"
    unfolding scaled_real [OF nd(2)] using dexp_upper [OF nd] by (simp only: pos_divide_less_eq zero_less_power_int zero_less_numeral) (simp add: powi_add2 mult.commute)
  then have "real_of_int (n * pow2 (- ?e)) < of_int (2 ^ 53 * (d * pow2 ?e))"
    using nd by (simp add: pos_divide_less_eq)
  then have "n * pow2 (- ?e) < 2 ^ 53 * (d * pow2 ?e)" unfolding of_int_less_iff .
  then show ?thesis using nd by (simp add: mant_def Let_def round_div_le)
qed

lemma mant_ge: "0 < n \<Longrightarrow> 0 < d \<Longrightarrow> dexp n d > -1074 \<Longrightarrow> 2 ^ 52 \<le> mant n d"
proof -
  assume nd: "0 < n" "0 < d" and "dexp n d > -1074"
  let ?e = "dexp n d"
  have "2 ^ 52 \<le> real_of_int (n * pow2 (- ?e)) / of_int (d * pow2 ?e)"
    unfolding scaled_real [OF nd(2)] using dexp_lower [OF nd \<open>dexp n d > -1074\<close>]
    by (simp only: pos_le_divide_eq zero_less_power_int zero_less_numeral) (simp add: powi_add2 mult.commute)
  then have "real_of_int (2 ^ 52 * (d * pow2 ?e)) \<le> of_int (n * pow2 (- ?e))"
    using nd by (simp add: pos_le_divide_eq)
  then have "2 ^ 52 * (d * pow2 ?e) \<le> n * pow2 (- ?e)" unfolding of_int_le_iff .
  then show ?thesis using nd by (simp add: mant_def Let_def round_div_ge)
qed

lemma mant_nonneg: "0 < n \<Longrightarrow> 0 < d \<Longrightarrow> 0 \<le> mant n d"
  by (simp add: mant_def Let_def round_div_ge)

lemma rnd_eq: "rnd s n d = (if n \<le> 0 then Fin s 0 (-1074)
    else if mant n d = 2 ^ 53 then mk s (2 ^ 52) (dexp n d + 1) else mk s (mant n d) (dexp n d))"
  by (simp add: rnd_def mant_def Let_def)

lemma canonical_rnd: "0 < d \<Longrightarrow> canonical (rnd s n d)"
  using mant_le [of n d] mant_ge [of n d] mant_nonneg [of n d] dexp_ge [of n d]
  by (fastforce simp: rnd_eq mk_def canonical_def)

lemma mant_error:
  assumes "0 < n" and "0 < d"
  shows "\<bar>real_of_int (mant n d) * 2 powi dexp n d - of_int n / of_int d\<bar> \<le> 2 powi dexp n d / 2"
proof -
  let ?e = "dexp n d" and ?N = "n * pow2 (- dexp n d)" and ?D = "d * pow2 (dexp n d)"
  have D: "0 < ?D" using assms by simp
  have "\<bar>real_of_int ?N / of_int ?D - of_int (mant n d)\<bar> \<le> 1 / 2"
    using round_div_real [OF D, of ?N] by (simp only: mant_def Let_def)
  then have "\<bar>(real_of_int n / of_int d) / 2 powi ?e - of_int (mant n d)\<bar> \<le> 1 / 2"
    unfolding scaled_real [OF assms(2)] .
  then have "\<bar>((real_of_int n / of_int d) / 2 powi ?e - of_int (mant n d)) * 2 powi ?e\<bar> \<le> 1 / 2 * 2 powi ?e"
    unfolding abs_mult by (simp add: mult_right_mono)
  then show ?thesis by (simp add: left_diff_distrib abs_minus_commute)
qed


section \<open>Results are canonical\<close>

lemma canonical_simps [simp]: "canonical NaN" "canonical (Inf s)" "canonical (Fin s 0 (-1074))"
  by (simp_all add: canonical_def)

lemma canonical_neg [simp]: "canonical (dneg x) \<longleftrightarrow> canonical x"
  by (cases x) (simp_all add: canonical_def)

lemma canonical_dadd: "canonical x \<Longrightarrow> canonical y \<Longrightarrow> canonical (dadd x y)"
  by (induction x y rule: dadd.induct) (simp_all add: canonical_rnd Let_def)

lemma canonical_dsub: "canonical x \<Longrightarrow> canonical y \<Longrightarrow> canonical (dsub x y)"
  by (simp add: dsub_def canonical_dadd)

lemma canonical_dmul: "canonical (dmul x y)"
  by (induction x y rule: dmul.induct) (simp_all add: canonical_rnd)

lemma canonical_ddiv: "canonical y \<Longrightarrow> canonical (ddiv x y)"
  by (induction x y rule: ddiv.induct) (auto simp: canonical_def intro!: canonical_rnd [unfolded canonical_def])

lemma canonical_of_int: "canonical (d_of_int z)"
  by (simp add: d_of_int_def canonical_rnd)

section \<open>Laws that hold with rounding\<close>

lemma dadd_comm: "dadd x y = dadd y x"
proof (cases "finite_d x \<and> finite_d y")
  case True
  then obtain s m e s' m' e' where xy: "x = Fin s m e" "y = Fin s' m' e'"
    by (metis finite_d.elims(2))
  show ?thesis
    unfolding xy dadd.simps Let_def min.commute [of e' e] add.commute [of "signed s' m' * _"]
    by (simp add: conj_commute)
next
  case False
  then show ?thesis by (cases x; cases y) auto
qed

lemma dmul_comm: "dmul x y = dmul y x"
proof (cases "finite_d x \<and> finite_d y")
  case True
  then obtain s m e s' m' e' where xy: "x = Fin s m e" "y = Fin s' m' e'"
    by (metis finite_d.elims(2))
  have "(s \<noteq> s') = (s' \<noteq> s)" by blast
  then show ?thesis
    unfolding xy dmul.simps mult.commute [of m' m] add.commute [of e' e] by simp
next
  case False
  then show ?thesis by (cases x; cases y) auto
qed

lemma rnd_value:
  assumes "0 < n" and "0 < d" and "rnd s n d = Fin s' m e"
  shows "s' = s" and "\<bar>of_int m * 2 powi e - real_of_int n / of_int d\<bar> \<le> 2 powi dexp n d / 2"
proof -
  show "s' = s" using assms by (auto simp: rnd_eq mk_def split: if_splits)
  show "\<bar>of_int m * 2 powi e - real_of_int n / of_int d\<bar> \<le> 2 powi dexp n d / 2"
  proof (cases "mant n d = 2 ^ 53")
    case True
    then have "of_int m * 2 powi e = real_of_int (mant n d) * 2 powi dexp n d"
      using assms by (auto simp: rnd_eq mk_def power_int_add split: if_splits)
    then show ?thesis using mant_error [OF assms(1,2)] by simp
  next
    case False
    then show ?thesis using assms mant_error [OF assms(1,2)] by (auto simp: rnd_eq mk_def split: if_splits)
  qed
qed

text \<open>A quotient below 2 to the 1023 does not overflow.\<close>

lemma rnd_finite:
  assumes "0 < n" and "0 < d" and "real_of_int n / of_int d < 2 powi 1023"
  shows "\<exists>m e. rnd s n d = Fin s m e"
proof -
  have "dexp n d < 971"
  proof (rule ccontr)
    assume "\<not> dexp n d < 971"
    then have "2 powi 1023 \<le> (2::real) powi (dexp n d + 52)" by (intro powi_mono2) simp
    also have "\<dots> \<le> real_of_int n / of_int d" using \<open>\<not> dexp n d < 971\<close> by (intro dexp_lower assms) simp
    finally show False using assms(3) by simp
  qed
  then show ?thesis using assms by (simp add: rnd_eq mk_def)
qed

text \<open>Integers of up to 53 bits are exact.\<close>

lemma mant_int:
  assumes "0 < n" and "n < 2 ^ 53"
  shows "dexp n 1 \<le> 0" and "real_of_int (mant n 1) * 2 powi dexp n 1 = of_int n"
    and "mant n 1 \<noteq> 2 ^ 53"
proof -
  show e: "dexp n 1 \<le> 0"
  proof (rule ccontr)
    assume e: "\<not> dexp n 1 \<le> 0"
    then have "2 powi 53 \<le> (2::real) powi (dexp n 1 + 52)" by (intro powi_mono2) simp
    also have "\<dots> \<le> real_of_int n" using dexp_lower [of n 1] assms e by simp
    finally have "real_of_int (2 ^ 53) \<le> of_int n" by simp
    then show False using assms(2) by linarith
  qed
  then have m: "mant n 1 = n * pow2 (- dexp n 1)"
    using round_div_exact [of 1 "n * pow2 (- dexp n 1)"] by (simp add: mant_def Let_def)
  then have "real_of_int (mant n 1) = of_int n * 2 powi (- dexp n 1)"
    using e by (simp add: pow2_real_nonneg)
  then show v: "real_of_int (mant n 1) * 2 powi dexp n 1 = of_int n"
    by (simp flip: powi_add2)
  show "mant n 1 \<noteq> 2 ^ 53"
  proof
    assume "mant n 1 = 2 ^ 53"
    with v have "real_of_int n = 2 powi (dexp n 1 + 53)" by (simp add: powi_add2)
    then show False using dexp_upper [of n 1] assms(1) by simp
  qed
qed

lemma rnd_int:
  assumes "0 < n" and "n < 2 ^ 53"
  shows "rnd s n 1 = Fin s (n * pow2 (- dexp n 1)) (dexp n 1)"
  using assms mant_int [OF assms] round_div_exact [of 1 "n * pow2 (- dexp n 1)"]
  by (simp add: rnd_eq mk_def mant_def Let_def)

lemma d_of_int_value:
  assumes "\<bar>z\<bar> < 2 ^ 53"
  shows "finite_d (d_of_int z)" and "dval (d_of_int z) = of_int z"
proof -
  have "finite_d (d_of_int z) \<and> dval (d_of_int z) = of_int z"
  proof (cases "z = 0")
    case True
    then show ?thesis by (simp add: d_of_int_def rnd_eq)
  next
    case False
    then have "0 < \<bar>z\<bar>" by simp
    from mant_int [OF this assms] rnd_int [OF this assms] \<open>0 < \<bar>z\<bar>\<close>
    show ?thesis by (auto simp: d_of_int_def rnd_eq mk_def signed_def)
  qed
  then show "finite_d (d_of_int z)" and "dval (d_of_int z) = of_int z" by auto
qed

section \<open>Comparisons\<close>

lemma scale_val:
  assumes "k \<le> e"
  shows "real_of_int (z * pow2 (e - k)) * 2 powi k = of_int z * 2 powi e"
  using assms by (simp add: pow2_real_nonneg flip: powi_add2)

lemma dless_dval: "finite_d x \<Longrightarrow> finite_d y \<Longrightarrow> dless x y \<longleftrightarrow> dval x < dval y"
proof (cases x; cases y)
  fix s m e s' m' e'
  assume xy: "x = Fin s m e" "y = Fin s' m' e'"
  let ?k = "min e e'"
  have "dless x y \<longleftrightarrow> real_of_int (signed s m * pow2 (e - ?k)) * 2 powi ?k
      < real_of_int (signed s' m' * pow2 (e' - ?k)) * 2 powi ?k"
    by (simp add: xy Let_def del: of_int_mult)
  then show ?thesis by (simp add: xy scale_val del: of_int_mult)
qed simp_all

lemma deq_dval: "finite_d x \<Longrightarrow> finite_d y \<Longrightarrow> deq x y \<longleftrightarrow> dval x = dval y"
proof (cases x; cases y)
  fix s m e s' m' e'
  assume xy: "x = Fin s m e" "y = Fin s' m' e'"
  let ?k = "min e e'"
  have "deq x y \<longleftrightarrow> real_of_int (signed s m * pow2 (e - ?k)) * 2 powi ?k
      = real_of_int (signed s' m' * pow2 (e' - ?k)) * 2 powi ?k"
    by (simp add: xy Let_def del: of_int_mult)
  then show ?thesis by (simp add: xy scale_val del: of_int_mult)
qed simp_all

lemma dless_of_int:
  "\<bar>a\<bar> < 2 ^ 53 \<Longrightarrow> \<bar>b\<bar> < 2 ^ 53 \<Longrightarrow> dless (d_of_int a) (d_of_int b) \<longleftrightarrow> a < b"
  by (simp add: dless_dval d_of_int_value)

lemma dless_irrefl [simp]: "\<not> dless x x"
  by (cases x) (simp_all add: Let_def)

lemma dless_trans: "dless x y \<Longrightarrow> dless y z \<Longrightarrow> dless x z"
proof (cases "finite_d x \<and> finite_d y \<and> finite_d z")
  case True
  then show "dless x y \<Longrightarrow> dless y z \<Longrightarrow> dless x z" by (auto simp: dless_dval)
next
  case False
  then show "dless x y \<Longrightarrow> dless y z \<Longrightarrow> dless x z" by (cases x; cases y; cases z) auto
qed


section \<open>An integer that is stored as a \<open>double\<close>\<close>

lemma dadd_pos:
  assumes "finite_d x" and "finite_d y" and "0 < dval x + dval y"
  shows "\<exists>n d. 0 < n \<and> 0 < d \<and> real_of_int n / of_int d = dval x + dval y \<and> dadd x y = rnd False n d"
proof -
  obtain s m e s' m' e' where xy: "x = Fin s m e" "y = Fin s' m' e'"
    using assms(1,2) by (metis finite_d.elims(2))
  define k where "k = min e e'"
  define z where "z = signed s m * pow2 (e - k) + signed s' m' * pow2 (e' - k)"
  have "of_int z * 2 powi k = dval x + dval y"
    using scale_val [of k e "signed s m"] scale_val [of k e' "signed s' m'"]
    unfolding z_def xy of_int_add distrib_right by (simp add: k_def del: of_int_mult)
  then have v: "of_int z * 2 powi k = dval x + dval y" and z: "0 < z"
    using assms(3) zero_less_power_int [of "2::real" k] by (simp, metis of_int_0_less_iff zero_less_mult_pos2 zero_less_numeral)
  have "dadd x y = rnd False (z * pow2 k) (pow2 (- k))"
    using z by (simp add: xy Let_def flip: k_def z_def)
  moreover have "real_of_int (z * pow2 k) / of_int (pow2 (- k)) = dval x + dval y"
    using v by (simp add: pow2_real flip: times_divide_eq_right)
  moreover have "0 < z * pow2 k" using z by simp
  ultimately show ?thesis by (intro exI [of _ "z * pow2 k"] exI [of _ "pow2 (- k)"]) simp
qed

lemma rnd_error_small:
  assumes "0 < n" and "0 < d" and "real_of_int n / of_int d < 2 powi 32"
  obtains m e where "rnd s n d = Fin s m e"
    and "\<bar>of_int m * 2 powi e - real_of_int n / of_int d\<bar> \<le> 2 powi (-21)"
proof -
  have "dexp n d \<le> -20"
  proof (rule ccontr)
    assume "\<not> dexp n d \<le> -20"
    then have "2 powi 32 \<le> (2::real) powi (dexp n d + 52)" by (intro powi_mono2) simp
    also have "\<dots> \<le> real_of_int n / of_int d" using \<open>\<not> dexp n d \<le> -20\<close> by (intro dexp_lower assms) simp
    finally show False using assms(3) by simp
  qed
  then have "(2::real) powi dexp n d \<le> 2 powi (-20)" by (rule powi_mono2)
  then have "2 powi dexp n d / 2 \<le> (2::real) powi (-20) / 2" by simp
  also have "\<dots> = 2 powi (-21)" using powi_add2 [of "-21" 1] by simp
  finally have small: "2 powi dexp n d / 2 \<le> (2::real) powi (-21)" .
  have "(2::real) powi 32 \<le> 2 powi 1023" by (rule powi_mono2) simp
  with assms obtain m e where r: "rnd s n d = Fin s m e" using rnd_finite [of n d s] by auto
  have "\<bar>of_int m * 2 powi e - real_of_int n / of_int d\<bar> \<le> 2 powi (-21)"
    using rnd_value(2) [OF assms(1,2) r] small by linarith
  with r show thesis by (rule that)
qed

lemma dtrunc_floor:
  assumes "int_range \<lfloor>real_of_int m * 2 powi e\<rfloor>"
  shows "dtrunc (Fin False m e) = Some \<lfloor>real_of_int m * 2 powi e\<rfloor>"
proof -
  have "m * pow2 e div pow2 (- e) = \<lfloor>real_of_int (m * pow2 e) / of_int (pow2 (- e))\<rfloor>"
    by (rule floor_divide_of_int_eq [symmetric])
  also have "\<dots> = \<lfloor>real_of_int m * 2 powi e\<rfloor>"
    by (simp add: pow2_real flip: times_divide_eq_right)
  finally show ?thesis using assms by (simp add: Let_def signed_def)
qed

lemma dtrunc_of_int:
  assumes "0 \<le> n" and "n < 2 ^ 31"
  shows "dtrunc (d_of_int n) = Some n"
proof (cases "n = 0")
  case True
  then show ?thesis by (simp add: d_of_int_def rnd_eq int_range_def signed_def)
next
  case False
  with assms have n: "0 < n" "n < 2 ^ 53" by simp_all
  define m where "m = n * pow2 (- dexp n 1)"
  have r: "d_of_int n = Fin False m (dexp n 1)" using rnd_int [OF n] n by (simp add: d_of_int_def m_def)
  moreover have "real_of_int m * 2 powi dexp n 1 = of_int n"
    using d_of_int_value(2) [of n] n r by (simp add: signed_def)
  ultimately show ?thesis using dtrunc_floor [of m "dexp n 1"] assms by (simp add: int_range_def)
qed

text \<open>The code stores indices as doubles and reads them back with \<open>(int)(x + 0.01)\<close>.\<close>

lemma hundredth: "dlit 1 100 = Fin False 5764607523034235 (-59)"
  by code_simp

lemma dtrunc_index:
  assumes "0 \<le> n" and "n < 2 ^ 31"
  shows "dtrunc (dadd (d_of_int n) (dlit 1 100)) = Some n"
proof -
  have n53: "\<bar>n\<bar> < 2 ^ 53" using assms by simp
  have c: "finite_d (dlit 1 100)" "9 / 1000 < dval (dlit 1 100)" "dval (dlit 1 100) < 11 / 1000"
    by (simp_all add: hundredth signed_def power_int_def divide_simps)
  note x = d_of_int_value [OF n53]
  have "0 < dval (d_of_int n) + dval (dlit 1 100)" using c x assms by simp
  from dadd_pos [OF x(1) c(1) this] obtain p d where pd: "0 < p" "0 < d"
      "real_of_int p / of_int d = of_int n + dval (dlit 1 100)"
      "dadd (d_of_int n) (dlit 1 100) = rnd False p d" by (auto simp: x)
  have "real_of_int n < 2 ^ 31" using assms(2) by (metis of_int_less_iff of_int_numeral of_int_power)
  then have "real_of_int p / of_int d < 2 powi 32" using pd(3) c(3) by (simp add: power_int_def)
  from rnd_error_small [OF pd(1,2) this] obtain m e where r: "rnd False p d = Fin False m e"
      "\<bar>of_int m * 2 powi e - real_of_int p / of_int d\<bar> \<le> 2 powi (-21)" by metis
  have "(2::real) powi (-21) < 1 / 1000" by (simp add: power_int_def power_one_over)
  then have "\<lfloor>real_of_int m * 2 powi e\<rfloor> = n"
    using r(2) pd(3) c by (intro floor_unique) linarith+
  then show ?thesis
    using dtrunc_floor [of m e] assms by (simp add: pd r int_range_def)
qed

section \<open>Rounding keeps integer bounds\<close>

lemma dle_dval: "finite_d x \<Longrightarrow> finite_d y \<Longrightarrow> dle x y \<longleftrightarrow> dval x \<le> dval y"
  by (auto simp: dle_def dless_dval deq_dval)

lemma rnd_between:
  assumes "0 < n" and "0 < d" and "0 \<le> L" and "L * d \<le> n" and "n \<le> H * d" and "H < 2 ^ 53"
  shows "finite_d (rnd False n d)" and "of_int L \<le> dval (rnd False n d)" and "dval (rnd False n d) \<le> of_int H"
proof -
  let ?e = "dexp n d" and ?m = "mant n d"
  have q: "real_of_int n / of_int d \<le> of_int H"
    using assms(2,5) by (simp add: pos_divide_le_eq flip: of_int_mult)
  have e: "?e \<le> 0"
  proof (rule ccontr)
    assume e: "\<not> ?e \<le> 0"
    then have "2 powi 53 \<le> (2::real) powi (?e + 52)" by (intro powi_mono2) simp
    also have "\<dots> \<le> real_of_int n / of_int d" using e by (intro dexp_lower assms) simp
    also have "\<dots> \<le> of_int H" by (rule q)
    finally have "real_of_int (2 ^ 53) \<le> of_int H" by simp
    then show False using assms(6) by linarith
  qed
  define k where "k = pow2 (- ?e)"
  have k: "0 < k" "real_of_int k * 2 powi ?e = 1" using e by (simp_all add: k_def pow2_real_nonneg flip: powi_add2)
  have m: "?m = round_div (n * k) d" using e by (simp add: mant_def Let_def k_def)
  have "L * k * d \<le> n * k" using mult_right_mono [OF assms(4), of k] k(1) by (simp add: ac_simps)
  then have lo: "L * k \<le> ?m" unfolding m by (rule round_div_ge [OF assms(2)])
  have "n * k \<le> H * k * d" using mult_right_mono [OF assms(5), of k] k(1) by (simp add: ac_simps)
  then have hi: "?m \<le> H * k" unfolding m by (rule round_div_le [OF assms(2)])
  have fin: "finite_d (rnd False n d) \<and> dval (rnd False n d) = of_int ?m * 2 powi ?e"
    using assms(1) e by (auto simp: rnd_eq mk_def signed_def power_int_add)
  then show "finite_d (rnd False n d)" by simp
  have scale: "of_int (x * k) * 2 powi ?e = real_of_int x" for x using k(2) by (simp add: mult.assoc)
  have "of_int (L * k) * 2 powi ?e \<le> of_int ?m * (2::real) powi ?e" "of_int ?m * (2::real) powi ?e \<le> of_int (H * k) * 2 powi ?e"
    using lo hi by (simp_all del: of_int_mult)
  then show "of_int L \<le> dval (rnd False n d)" "dval (rnd False n d) \<le> of_int H" using fin by (simp_all only: scale)
qed

lemma ddiv_ints_between:
  assumes "0 \<le> a" "a < 2 ^ 53" "0 < b" "b < 2 ^ 53" and "0 \<le> L" "L * b \<le> a" "a \<le> H * b" "H < 2 ^ 53"
  shows "dle (d_of_int L) (ddiv (d_of_int a) (d_of_int b))" and "dle (ddiv (d_of_int a) (d_of_int b)) (d_of_int H)"
proof -
  have "L \<le> a"
  proof -
    have "L * 1 \<le> L * b" using assms(3,5) by (intro mult_left_mono) simp_all
    then show ?thesis using assms(6) by simp
  qed
  have "0 \<le> H" using assms(1,3,7) by (smt (verit) mult_neg_pos)
  then have b: "\<bar>L\<bar> < 2 ^ 53" "\<bar>H\<bar> < 2 ^ 53" "\<bar>a\<bar> < 2 ^ 53" "\<bar>b\<bar> < 2 ^ 53"
    using assms \<open>L \<le> a\<close> by simp_all
  have "finite_d (ddiv (d_of_int a) (d_of_int b)) \<and> of_int L \<le> dval (ddiv (d_of_int a) (d_of_int b)) \<and>
      dval (ddiv (d_of_int a) (d_of_int b)) \<le> of_int H"
  proof (cases "a = 0")
    case True
    then have "L = 0" using \<open>L \<le> a\<close> assms(5) by simp
    have "d_of_int a = Fin False 0 (-1074)" using True by (simp add: d_of_int_def rnd_eq)
    moreover have "d_of_int b = Fin False (b * pow2 (- dexp b 1)) (dexp b 1)"
      using rnd_int [OF assms(3,4)] assms(3) by (simp add: d_of_int_def)
    moreover have "b * pow2 (- dexp b 1) \<noteq> 0" using assms(3) by (simp add: pow2_def)
    ultimately show ?thesis using \<open>L = 0\<close> \<open>0 \<le> H\<close> by (simp add: rnd_eq)
  next
    case False
    then have "0 < a" using assms(1) by simp
    let ?ea = "dexp a 1" and ?eb = "dexp b 1"
    have ea: "?ea \<le> 0" "?eb \<le> 0" using mant_int(1) [OF \<open>0 < a\<close> assms(2)] mant_int(1) [OF assms(3,4)] by simp_all
    have da: "d_of_int a = Fin False (a * pow2 (- ?ea)) ?ea" "d_of_int b = Fin False (b * pow2 (- ?eb)) ?eb"
      using rnd_int [OF \<open>0 < a\<close> assms(2)] rnd_int [OF assms(3,4)] \<open>0 < a\<close> assms(3) by (simp_all add: d_of_int_def)
    define n where "n = a * pow2 (- ?ea) * pow2 (?ea - ?eb)"
    define d where "d = b * pow2 (- ?eb) * pow2 (?eb - ?ea)"
    define c where "c = pow2 (- ?ea) * pow2 (?ea - ?eb)"
    have c: "c = pow2 (- ?eb) * pow2 (?eb - ?ea)"
      using ea unfolding c_def pow2_def by (cases "?ea \<le> ?eb") (simp_all flip: power_add nat_add_distrib)
    have nd: "n = a * c" "d = b * c" by (simp add: n_def c_def mult.assoc) (simp add: d_def c mult.assoc)
    have "0 < c" by (simp add: c_def)
    then have "0 < n" "0 < d" "L * d \<le> n" "n \<le> H * d"
      using \<open>0 < a\<close> assms(3) mult_right_mono [OF assms(6), of c] mult_right_mono [OF assms(7), of c]
      by (simp_all add: nd mult.assoc)
    from rnd_between [OF this(1,2) assms(5) this(3,4) assms(8)] show ?thesis
      using assms(3) by (simp add: da n_def d_def pow2_def)
  qed
  then show "dle (d_of_int L) (ddiv (d_of_int a) (d_of_int b))" "dle (ddiv (d_of_int a) (d_of_int b)) (d_of_int H)"
    using d_of_int_value [OF b(1)] d_of_int_value [OF b(2)] by (simp_all add: dle_dval)
qed

end
