(* ===== verification/Power_Params.thy ===== *)
theory Power_Params
  imports Address_Map Double "HOL-Library.While_Combinator"
begin

text \<open>
  \<open>configuration.cc\<close>, the parameters of type \<open>double\<close>: the clock period, the energy that each
  command or cycle adds, and the parameters of the thermal model (with \<open>THERMAL\<close>); also the names
  of the output files, and the whole constructor. The reader's \<open>GetReal\<close>, its \<open>ParseError\<close> and
  the existence of a directory are parameters. Lemmas: how the loop that tiles the rows of a bank ends.
\<close>

section \<open>Energies\<close>

type_synonym real_reader = "string \<Rightarrow> string \<Rightarrow> double \<Rightarrow> double"

record power_params =
  tCK :: double
  act_energy_inc :: double
  read_energy_inc :: double
  write_energy_inc :: double
  ref_energy_inc :: double
  refb_energy_inc :: double
  act_stb_energy_inc :: double
  pre_stb_energy_inc :: double
  pre_pd_energy_inc :: double
  sref_energy_inc :: double

definition InitPowerParams :: "real_reader \<Rightarrow> config \<Rightarrow> power_params" where
  "InitPowerParams GetReal c =
     (let VDD = GetReal ''power'' ''VDD'' (dlit 12 10);
          IDD0 = GetReal ''power'' ''IDD0'' (dlit 48 1);
          IDD2P = GetReal ''power'' ''IDD2P'' (dlit 25 1);
          IDD2N = GetReal ''power'' ''IDD2N'' (dlit 34 1);
          IDD3N = GetReal ''power'' ''IDD3N'' (dlit 43 1);
          IDD4W = GetReal ''power'' ''IDD4W'' (dlit 123 1);
          IDD4R = GetReal ''power'' ''IDD4R'' (dlit 135 1);
          IDD5AB = GetReal ''power'' ''IDD5AB'' (dlit 250 1);
          IDD5PB = GetReal ''power'' ''IDD5PB'' (dlit 5 1);
          IDD6x = GetReal ''power'' ''IDD6x'' (dlit 31 1);
          devices = d_of_int (devices_per_rank c);
          background = dadd (dmul IDD3N (d_of_int (tRAS c))) (dmul IDD2N (d_of_int (tRP c)));
          burst = d_of_int (burst_cycle c)
      in \<lparr>tCK = GetReal ''timing'' ''tCK'' (dlit 1 1),
          act_energy_inc = dmul (dmul VDD (dsub (dmul IDD0 (d_of_int (tRC c))) background)) devices,
          read_energy_inc = dmul (dmul (dmul VDD (dsub IDD4R IDD3N)) burst) devices,
          write_energy_inc = dmul (dmul (dmul VDD (dsub IDD4W IDD3N)) burst) devices,
          ref_energy_inc = dmul (dmul (dmul VDD (dsub IDD5AB IDD3N)) (d_of_int (tRFC c))) devices,
          refb_energy_inc = dmul (dmul (dmul VDD (dsub IDD5PB IDD3N)) (d_of_int (tRFCb c))) devices,
          act_stb_energy_inc = dmul (dmul VDD IDD3N) devices,
          pre_stb_energy_inc = dmul (dmul VDD IDD2N) devices,
          pre_pd_energy_inc = dmul (dmul VDD IDD2P) devices,
          sref_energy_inc = dmul (dmul VDD IDD6x) devices\<rparr>)"

text \<open>\<open>MemorySystem::GetTCK\<close>.\<close>

definition GetTCK :: "power_params \<Rightarrow> double" where "GetTCK pw = tCK pw"

section \<open>The thermal model's parameters\<close>

record thermal_params =
  loc_mapping :: string
  num_row_refresh :: int
  amb_temp :: double
  const_logic_power :: double
  chip_dim_x :: double
  chip_dim_y :: double
  num_x_grids :: int
  num_y_grids :: int
  mat_dim_x :: int
  mat_dim_y :: int
  bank_order :: int
  bank_layer_order :: int
  row_tile :: int
  tile_row_num :: int
  bank_asr :: double

definition to_int :: "double \<Rightarrow> int result" where
  "to_int x = (case dtrunc x of None \<Rightarrow> Inl OutOfRange | Some i \<Rightarrow> Inr i)"

text \<open>\<open>a / b\<close> on \<open>int\<close>.\<close>

definition idiv :: "int \<Rightarrow> int \<Rightarrow> int result" where
  "idiv a b = (if b = 0 then Inl DivByZero else Inr (a sdiv b))"

text \<open>\<open>while (row_tile * row_tile * 4 < bank_asr) row_tile *= 2\<close>; the loop also ends where
  the product overflows.\<close>

definition tile_loop :: "double \<Rightarrow> int result" where
  "tile_loop asr =
     (case while_option (\<lambda>r. int_range (r * r * 4) \<and> dless (d_of_int (r * r * 4)) asr) (\<lambda>r. r * 2) 1 of
        None \<Rightarrow> Inl Endless
      | Some r \<Rightarrow> if int_range (r * r * 4) then Inr r else Inl Overflow)"

text \<open>The parameters that only one branch sets keep their old values in the other.\<close>

definition set_grids :: "ini_reader \<Rightarrow> real_reader \<Rightarrow> config \<Rightarrow> thermal_params \<Rightarrow> thermal_params result" where
  "set_grids rd GetReal c t =
     (let mx = GetInteger rd ''thermal'' ''mat_dim_x'' 512;
          my = GetInteger rd ''thermal'' ''mat_dim_y'' 512
      in bindE (idiv (rows c) mx) (\<lambda>nx.
         bindE (idiv (columns c * device_width c) my) (\<lambda>ny.
         Inr (t\<lparr>const_logic_power := GetReal ''thermal'' ''const_logic_power'' (dlit 5 1),
                mat_dim_x := mx, mat_dim_y := my, num_x_grids := nx, tile_row_num := rows c,
                num_y_grids := ny, bank_asr := ddiv (d_of_int nx) (d_of_int ny), row_tile := 1\<rparr>))))"

definition set_tiles :: "thermal_params \<Rightarrow> thermal_params result" where
  "set_tiles t =
     bindE (tile_loop (bank_asr t)) (\<lambda>r.
     bindE (idiv (num_x_grids t) r) (\<lambda>nx.
     bindE (idiv (tile_row_num t) r) (\<lambda>rn.
     let ny = num_y_grids t * r
     in Inr (t\<lparr>row_tile := r, num_x_grids := nx, tile_row_num := rn, num_y_grids := ny,
               bank_asr := ddiv (d_of_int nx) (d_of_int ny)\<rparr>))))"

definition set_chip :: "ini_reader \<Rightarrow> real_reader \<Rightarrow> config \<Rightarrow> power_params \<Rightarrow> thermal_params \<Rightarrow> thermal_params result" where
  "set_chip rd GetReal c pw t =
     bindE (to_int (dceil (ddiv (d_of_int (rows c))
        (ddiv (dmul (d_of_int 64) (dlit 1000000 1)) (dmul (d_of_int (tREFI c)) (tCK pw)))))) (\<lambda>nrr.
     Inr (t\<lparr>loc_mapping := ini_Get rd ''thermal'' ''loc_mapping'' [],
            bank_order := GetInteger rd ''thermal'' ''bank_order'' 1,
            bank_layer_order := GetInteger rd ''thermal'' ''bank_layer_order'' 0,
            num_row_refresh := nrr,
            chip_dim_x := GetReal ''thermal'' ''chip_dim_x'' (dlit 1 100),
            chip_dim_y := GetReal ''thermal'' ''chip_dim_y'' (dlit 1 100),
            amb_temp := GetReal ''thermal'' ''amb_temp'' (dlit 40 1)\<rparr>))"

definition InitThermalParams ::
  "ini_reader \<Rightarrow> real_reader \<Rightarrow> config \<Rightarrow> power_params \<Rightarrow> thermal_params \<Rightarrow> thermal_params result" where
  "InitThermalParams rd GetReal c pw t0 =
     bindE (set_grids rd GetReal c t0) (\<lambda>t.
     if dless (d_of_int 4) (bank_asr t) \<and> banks_per_group c = 1 then set_tiles t
     else set_chip rd GetReal c pw t)"

section \<open>The files and the whole constructor\<close>

record output_names =
  output_dir :: string
  output_prefix :: string
  json_stats_name :: string
  json_epoch_name :: string
  txt_stats_name :: string

text \<open>Whether a directory exists is up to the file system.\<close>

definition InitOutputNames :: "(string \<Rightarrow> bool) \<Rightarrow> ini_reader \<Rightarrow> string \<Rightarrow> output_names" where
  "InitOutputNames DirExist rd out_dir =
     (let dir = (if \<not> DirExist out_dir then ''./'' else out_dir @ ''/'');
          prefix = dir @ ini_Get rd ''other'' ''output_prefix'' ''dramsim3''
      in \<lparr>output_dir = dir, output_prefix = prefix, json_stats_name = prefix @ ''.json'',
          json_epoch_name = prefix @ ''epoch.json'', txt_stats_name = prefix @ ''.txt''\<rparr>)"

definition ConfigAll :: "(string \<Rightarrow> bool) \<Rightarrow> int \<Rightarrow> ini_reader \<Rightarrow> real_reader \<Rightarrow> string \<Rightarrow> config \<Rightarrow> thermal_params
    \<Rightarrow> (config \<times> power_params \<times> output_names \<times> thermal_params) result" where
  "ConfigAll DirExist ParseError rd GetReal out_dir c0 t0 =
     (if ParseError < 0 then Inl (AbruptExit ''configuration.cc'' 16) else
      bindE (Config rd c0) (\<lambda>c.
      let pw = InitPowerParams GetReal c
      in bindE (InitThermalParams rd GetReal c pw t0) (\<lambda>t.
         Inr (c, pw, InitOutputNames DirExist rd out_dir, t))))"

section \<open>The tiling loop\<close>

text \<open>The loop runs through the powers of two and stops at the first of the 16 candidates.\<close>

definition tile_ok :: "double \<Rightarrow> nat \<Rightarrow> bool" where
  "tile_ok asr j \<longleftrightarrow> int_range (2 ^ j * 2 ^ j * 4) \<and> dless (d_of_int (2 ^ j * 2 ^ j * 4)) asr"

lemma tile_range: "int_range (2 ^ j * 2 ^ j * 4) \<longleftrightarrow> j \<le> 14"
proof -
  have "(2::int) ^ j * 2 ^ j * 4 = 2 ^ (2 * j + 2)" by (simp add: power_add power_mult power2_eq_square flip: power_mult_distrib)
  moreover have "(2::int) ^ (2 * j + 2) < 2 ^ 31 \<longleftrightarrow> j \<le> 14"
    by (subst power_strict_increasing_iff) auto
  moreover have "- (2 ^ 31) \<le> (2::int) ^ (2 * j + 2)"
    by (rule order_trans [of _ 0]) simp_all
  ultimately show ?thesis unfolding int_range_def by metis
qed

lemma tile_steps: "((\<lambda>r. r * 2) ^^ j) (1::int) = 2 ^ j"
  by (induction j) simp_all

lemma tile_while:
  obtains j where "j \<le> 15" and "while_option (\<lambda>r. int_range (r * r * 4) \<and> dless (d_of_int (r * r * 4)) asr) (\<lambda>r. r * 2) 1 = Some (2 ^ j)"
    and "\<not> tile_ok asr j" and "\<forall>i < j. tile_ok asr i"
proof -
  have "\<not> tile_ok asr 15" using tile_range [of 15] by (simp add: tile_ok_def)
  then have ex: "\<exists>j. \<not> tile_ok asr j" by blast
  define j where "j = (LEAST j. \<not> tile_ok asr j)"
  have "\<not> tile_ok asr j" unfolding j_def by (rule LeastI_ex [OF ex])
  moreover have "\<forall>i < j. tile_ok asr i" unfolding j_def using not_less_Least by blast
  moreover have "j \<le> 15" unfolding j_def by (rule Least_le) fact
  moreover have "while_option (\<lambda>r. int_range (r * r * 4) \<and> dless (d_of_int (r * r * 4)) asr) (\<lambda>r. r * 2) 1 = Some (2 ^ j)"
    unfolding while_option_def tile_steps using ex by (simp add: j_def tile_ok_def)
  ultimately show thesis using that by blast
qed

text \<open>The loop that tiles the rows always stops. For an aspect ratio of at most 2 to the 30 (or
  one that is not a number) it yields the least power of two whose fourfold square is not below
  the ratio; for a larger or infinite one, which arises when a row has fewer columns than a mat,
  the product overflows.\<close>

theorem tile_loop_result:
  "(\<exists>j \<le> 14. tile_loop asr = Inr (2 ^ j) \<and> \<not> dless (d_of_int (4 * (2 ^ j) ^ 2)) asr \<and>
      (\<forall>i < j. dless (d_of_int (4 * (2 ^ i) ^ 2)) asr)) \<or>
   (tile_loop asr = Inl Overflow \<and> dless (d_of_int (2 ^ 30)) asr)"
proof -
  have sq: "(2::int) ^ j * 2 ^ j * 4 = 4 * (2 ^ j) ^ 2" for j by (simp add: power2_eq_square)
  obtain j where j: "j \<le> 15" "\<not> tile_ok asr j" "\<forall>i < j. tile_ok asr i"
      "while_option (\<lambda>r. int_range (r * r * 4) \<and> dless (d_of_int (r * r * 4)) asr) (\<lambda>r. r * 2) 1 = Some (2 ^ j)"
    by (rule tile_while)
  then have r: "tile_loop asr = (if j \<le> 14 then Inr (2 ^ j) else Inl Overflow)"
    by (simp add: tile_loop_def tile_range)
  show ?thesis
  proof (cases "j \<le> 14")
    case True
    then have "\<not> dless (d_of_int (4 * (2 ^ j) ^ 2)) asr" using j(2) tile_range [of j] unfolding tile_ok_def sq by blast
    moreover have "dless (d_of_int (4 * (2 ^ i) ^ 2)) asr" if "i < j" for i
      using j(3) that unfolding tile_ok_def sq by blast
    moreover have "tile_loop asr = Inr (2 ^ j)" unfolding r using True by simp
    ultimately show ?thesis using True by (intro disjI1 exI [of _ j] conjI allI impI)
  next
    case False
    then have "tile_ok asr 14" using j by simp
    moreover have "(2::int) ^ 14 * 2 ^ 14 * 4 = 2 ^ 30" by simp
    ultimately have "dless (d_of_int (2 ^ 30)) asr" unfolding tile_ok_def by metis
    moreover have "tile_loop asr = Inl Overflow" unfolding r using False by simp
    ultimately show ?thesis by blast
  qed
qed

theorem tile_loop_result_witness: "tile_loop (d_of_int 16) = Inr 2"
proof -
  have d: "dless (d_of_int 4) (d_of_int 16)" "\<not> dless (d_of_int 16) (d_of_int 16)" "\<not> dless (d_of_int (2 ^ 30)) (d_of_int 16)"
    by code_simp+
  from tile_loop_result [of "d_of_int 16"] obtain j where j: "tile_loop (d_of_int 16) = Inr (2 ^ j)"
      "\<not> dless (d_of_int (4 * (2 ^ j) ^ 2)) (d_of_int 16)" "\<forall>i < j. dless (d_of_int (4 * (2 ^ i) ^ 2)) (d_of_int 16)"
    using d(3) by blast
  have "j \<noteq> 0" using j(2) d(1) by (cases j) simp_all
  moreover have "\<not> 1 < j" using j(3) d(2) by force
  ultimately have "j = 1" by simp
  with j(1) show ?thesis by simp
qed

end
