(* ===== verification/Thermal_Solver.thy ===== *)
theory Thermal_Solver
  imports Power_Params
begin

text \<open>
  \<open>thermal_config.h\<close>, \<open>thermal_solver.c\<close> and \<open>sp_ienv.c\<close>: the chip as a grid of
  \<open>dimX\<close> by \<open>dimZ\<close> nodes in each of \<open>3 * numP + 1\<close> layers (a heat sink, then silicon, metal
  and insulator for every memory layer), the conductance matrix in the coordinate form
  \<open>Midx\<close>, its compression for SuperLU, the right-hand sides, and the explicit time steps.
  The linear solver SuperLU is not part of the repository: it is a parameter
  (\<open>superlu\<close>). Memory management and the messages are not modelled. A conversion of a
  \<open>double\<close> that does not fit into the integer is undefined and counts as \<open>OutOfRange\<close>.
\<close>

section \<open>Constants\<close>

definition M_PI :: double where "M_PI = dlit 314159265358979323846 (10 ^ 20)"
definition T0 :: double where "T0 = dlit 27315 100"
definition R_TSV :: double where "R_TSV = dlit 5 (10 ^ 6)"
definition Ksi :: double where "Ksi = dlit 148 1"
definition Kcu :: double where "Kcu = dlit 401 1"
definition Kin :: double where "Kin = dlit 15 10"
definition Khs :: double where "Khs = dlit 4 1"
definition Csi :: double where "Csi = dlit 1660000 1"
definition Ccu :: double where "Ccu = dlit 3200000 1"
definition Cin :: double where "Cin = dlit 1650000 1"
definition Chs :: double where "Chs = dlit 2420000 1"
definition Hsi :: double where "Hsi = dlit 400 (10 ^ 6)"
definition Hcu :: double where "Hcu = dlit 5 (10 ^ 6)"
definition Hin :: double where "Hin = dlit 20 (10 ^ 6)"
definition Hhs :: double where "Hhs = dlit 1000 (10 ^ 6)"

text \<open>The parameters of SuperLU. A header of the library, which is not in the repository, decides
  for which of the machines the file is compiled, and holds the error handler.\<close>

datatype machine = SGI | ORIGIN | DEC | CRAY_PVP | SUN | OTHER

fun tuning :: "machine \<Rightarrow> int list" where
  "tuning SGI = [20, 6, 100, 800, 100]"
| "tuning ORIGIN = [12, 6, 100, 400, 100]"
| "tuning DEC = [16, 6, 50, 100, 40]"
| "tuning CRAY_PVP = [1, 6, 64, 400, 200]"
| "tuning SUN = [8, 6, 100, 400, 40]"
| "tuning OTHER = [8, 1, 200, 200, 40]"

definition sp_ienv :: "(string \<Rightarrow> int \<Rightarrow> unit result) \<Rightarrow> machine \<Rightarrow> int \<Rightarrow> int result" where
  "sp_ienv xerbla mach ispec =
     (if 1 \<le> ispec \<and> ispec \<le> 5 then Inr (tuning mach ! nat (ispec - 1))
      else if ispec = 6 then Inr (-20)
      else if ispec = 7 \<or> ispec = 8 then Inr (-1000000)
      else bindE (xerbla ''sp_ienv'' 1) (\<lambda>_. Inr 0))"

section \<open>Temperatures and capacities\<close>

definition initialize_Temperature :: "int \<Rightarrow> int \<Rightarrow> int \<Rightarrow> double \<Rightarrow> double list" where
  "initialize_Temperature numP dimX dimZ Tamb = replicate (nat (dimX * dimZ * (numP * 3 + 1))) Tamb"

text \<open>The material of a layer, by its position modulo 3: silicon, copper, insulator.\<close>

definition layer_C :: "int \<Rightarrow> double" where
  "layer_C i = (if i mod 3 = 0 then Csi else if i mod 3 = 1 then Ccu else Cin)"

definition layer_K :: "int \<Rightarrow> double" where
  "layer_K i = (if i mod 3 = 0 then Ksi else if i mod 3 = 1 then Kcu else Kin)"

definition layer_H :: "int \<Rightarrow> double" where
  "layer_H i = (if i mod 3 = 0 then Hsi else if i mod 3 = 1 then Hcu else Hin)"

definition calculate_Cap_array :: "double \<Rightarrow> double \<Rightarrow> int \<Rightarrow> int \<Rightarrow> int \<Rightarrow> double list" where
  "calculate_Cap_array W Lc numP dimX dimZ =
     (let numLayer = numP * 3;
          gridX = ddiv W (d_of_int dimX);
          gridZ = ddiv Lc (d_of_int dimZ);
          sink = dmul (dmul (dmul Chs Hhs) gridX) gridZ
      in sink # map (\<lambda>i. dmul (dmul (dmul (layer_C i) (layer_H i)) gridX) gridZ) (indices numLayer))"

section \<open>Resistances\<close>

text \<open>The number of the tier whose vias run through a layer; 0: none.\<close>

definition mapTSV :: "int \<Rightarrow> int list result" where
  "mapTSV numP =
     (let numLayer = numP * 3
      in vset (map (\<lambda>i. if i = 0 \<or> i = numLayer - 1 then 0 else (i - 1) div 3 + 1) (indices numLayer))
           (numLayer - 2) (numP - 1))"

record grid =
  g_numP :: int
  g_dimX :: int
  g_dimZ :: int
  g_W :: double
  g_Lc :: double

definition numLayer :: "grid \<Rightarrow> int" where "numLayer g = g_numP g * 3"
definition gridX :: "grid \<Rightarrow> double" where "gridX g = ddiv (g_W g) (d_of_int (g_dimX g))"
definition gridZ :: "grid \<Rightarrow> double" where "gridZ g = ddiv (g_Lc g) (d_of_int (g_dimZ g))"

definition Rsinkx :: "grid \<Rightarrow> double" where
  "Rsinkx g = ddiv (ddiv (ddiv (gridX g) Khs) (gridZ g)) Hhs"

definition Rsinky :: "grid \<Rightarrow> double" where
  "Rsinky g = ddiv (ddiv (ddiv Hhs Khs) (gridX g)) (gridZ g)"

definition Rsinkz :: "grid \<Rightarrow> double" where
  "Rsinkz g = ddiv (ddiv (ddiv (gridZ g) Khs) (gridX g)) Hhs"

definition Ramb :: "grid \<Rightarrow> double" where
  "Ramb g = ddiv (Rsinky g) (d_of_int 2)"

text \<open>The vertical resistance of a layer with \<open>n\<close> vias, which conduct in parallel.\<close>

definition via_area :: "int \<Rightarrow> double" where
  "via_area n = dmul (dmul (dmul M_PI R_TSV) R_TSV) (d_of_int n)"

definition layer_R :: "grid \<Rightarrow> int \<Rightarrow> double" where
  "layer_R g l = ddiv (ddiv (layer_H l) (layer_K l)) (dmul (gridX g) (gridZ g))"

definition layer_R_vias :: "grid \<Rightarrow> int \<Rightarrow> int \<Rightarrow> double" where
  "layer_R_vias g l n =
     (let one = d_of_int 1;
          silicon = ddiv (ddiv (layer_H l) (layer_K l)) (dsub (dmul (gridX g) (gridZ g)) (via_area n));
          vias = ddiv (ddiv (layer_H l) Kcu) (via_area n)
      in ddiv one (dadd (ddiv one silicon) (ddiv one vias)))"

definition Rvert_at :: "grid \<Rightarrow> int list \<Rightarrow> int vec3 \<Rightarrow> int \<Rightarrow> int \<Rightarrow> int \<Rightarrow> double result" where
  "Rvert_at g mtsv tsv i j k =
     (if k = 0 then Inr (Rsinky g) else
      bindE (vget mtsv (k - 1)) (\<lambda>tier.
      if tier \<noteq> 0 then bindE (vec3_get tsv i j (tier - 1)) (\<lambda>n. Inr (layer_R_vias g (k - 1) n))
      else Inr (layer_R g (k - 1))))"

definition Rvert_of :: "grid \<Rightarrow> double vec3 result" where
  "Rvert_of g =
     bindE (mapTSV (g_numP g)) (\<lambda>mtsv.
     let tsv = vec3_replicate (g_dimX g) (g_dimZ g) (g_numP g - 1) 0
     in mapE (\<lambda>i. mapE (\<lambda>j. mapE (Rvert_at g mtsv tsv i j) (indices (numLayer g + 1)))
          (indices (g_dimZ g))) (indices (g_dimX g)))"

text \<open>The horizontal resistances of a layer, in the two directions; the second divides by
  \<open>gridZ\<close>, as the code does.\<close>

definition Rhori :: "grid \<Rightarrow> int \<Rightarrow> double \<times> double" where
  "Rhori g l =
     (if l = 0 then (Rsinkx g, Rsinkz g)
      else (dmul (ddiv (ddiv (ddiv (gridX g) (layer_K (l - 1))) (gridZ g)) (layer_H (l - 1))) (d_of_int 10),
            dmul (ddiv (ddiv (ddiv (gridZ g) (layer_K (l - 1))) (gridZ g)) (layer_H (l - 1))) (d_of_int 10)))"

section \<open>The conductance matrix\<close>

type_synonym entry = "double \<times> double \<times> double"

definition e_row :: "entry \<Rightarrow> double" where "e_row e = fst e"
definition e_col :: "entry \<Rightarrow> double" where "e_col e = fst (snd e)"
definition e_val :: "entry \<Rightarrow> double" where "e_val e = snd (snd e)"

definition node :: "grid \<Rightarrow> int \<Rightarrow> int \<Rightarrow> int \<Rightarrow> int" where
  "node g l j i = l * g_dimX g * g_dimZ g + j * g_dimX g + i"

definition count_at :: "grid \<Rightarrow> int \<Rightarrow> int \<Rightarrow> int \<Rightarrow> int" where
  "count_at g l i j =
     (if i - 1 \<ge> 0 then 1 else 0) + (if i + 1 < g_dimX g then 1 else 0) +
     (if j - 1 \<ge> 0 then 1 else 0) + (if j + 1 < g_dimZ g then 1 else 0) +
     (if l < numLayer g then 1 else 0) + (if l > 0 then 1 else 0)"

text \<open>The number of entries that are allocated: the neighbours of every node and its own. The program
  counts them in an \<open>int\<close>; as the counter only grows, it overflows when the last value does not fit.\<close>

definition midx_count :: "grid \<Rightarrow> int" where
  "midx_count g =
     sum_list (map (\<lambda>l. sum_list (map (\<lambda>i. sum_list (map (count_at g l i) (indices (g_dimZ g))))
       (indices (g_dimX g)))) (indices (numLayer g + 1)))
     + g_dimX g * g_dimZ g * (numLayer g + 1)"

definition minus_inv :: "double \<Rightarrow> double" where
  "minus_inv r = ddiv (d_of_int (-1)) r"

definition half :: "double \<Rightarrow> double" where
  "half r = ddiv r (d_of_int 2)"

text \<open>The entries of a node for its neighbours, in the order of the code: the layer below, the
  four neighbours in the layer, the layer above; \<open>rv\<close> holds the vertical resistances at the
  node's place.\<close>

definition ent :: "grid \<Rightarrow> int \<times> int \<times> int \<Rightarrow> int \<times> int \<times> int \<Rightarrow> double \<Rightarrow> entry" where
  "ent g p q v = (case (p, q) of ((l, j, i), (l', j', i')) \<Rightarrow>
     (d_of_int (node g l j i), d_of_int (node g l' j' i'), v))"

definition vertical :: "double list \<Rightarrow> int \<Rightarrow> int \<Rightarrow> double result" where
  "vertical rv l l' = bindE (vget rv l) (\<lambda>r. bindE (vget rv l') (\<lambda>r'.
     Inr (minus_inv (dadd (half r) (half r')))))"

definition horizontal :: "grid \<Rightarrow> int \<Rightarrow> int \<Rightarrow> int \<Rightarrow> entry list" where
  "horizontal g l j i =
     (let x = minus_inv (fst (Rhori g l)); z = minus_inv (snd (Rhori g l)) in
      (if j - 1 \<ge> 0 then [ent g (l, j, i) (l, j - 1, i) z] else []) @
      (if i - 1 \<ge> 0 then [ent g (l, j, i) (l, j, i - 1) x] else []) @
      (if i + 1 < g_dimX g then [ent g (l, j, i) (l, j, i + 1) x] else []) @
      (if j + 1 < g_dimZ g then [ent g (l, j, i) (l, j + 1, i) z] else []))"

definition offdiag :: "grid \<Rightarrow> double list \<Rightarrow> int \<Rightarrow> int \<Rightarrow> int \<Rightarrow> entry list result" where
  "offdiag g rv l j i =
     bindE (if l > 0 then bindE (vertical rv l (l - 1)) (\<lambda>v. Inr [ent g (l, j, i) (l - 1, j, i) v])
            else Inr []) (\<lambda>below.
     bindE (if l < numLayer g then bindE (vertical rv l (l + 1)) (\<lambda>v. Inr [ent g (l, j, i) (l + 1, j, i) v])
            else Inr []) (\<lambda>above.
     Inr (below @ horizontal g l j i @ above)))"

definition diag :: "grid \<Rightarrow> entry list \<Rightarrow> int \<Rightarrow> int \<Rightarrow> int \<Rightarrow> entry" where
  "diag g off l j i =
     (let d = d_of_int (node g l j i);
          v = fold (\<lambda>e acc. dsub acc (e_val e)) off dzero
      in (d, d, if dless d (d_of_int (g_dimX g * g_dimZ g)) then dadd v (ddiv (d_of_int 1) (Ramb g)) else v))"

text \<open>The last entry moves down while the column before it is larger; the list is reversed.\<close>

fun sink_down :: "entry \<Rightarrow> entry list \<Rightarrow> entry list" where
  "sink_down x [] = [x]"
| "sink_down x (y # ys) = (if dless (e_col x) (e_col y) then y # sink_down x ys else x # y # ys)"

definition midx_row :: "grid \<Rightarrow> double vec3 \<Rightarrow> int \<Rightarrow> int \<Rightarrow> int \<Rightarrow> entry list result" where
  "midx_row g rvert l j i =
     bindE (vget rvert i) (\<lambda>p. bindE (vget p j) (\<lambda>rv.
     bindE (offdiag g rv l j i) (\<lambda>off. Inr (rev (sink_down (diag g off l j i) (rev off))))))"

text \<open>The array and the next free position; writing behind the array is an error.\<close>

definition put_entry :: "entry \<Rightarrow> entry list \<times> int \<Rightarrow> (entry list \<times> int) result" where
  "put_entry e = (\<lambda>(arr, idx). bindE (vset arr idx e) (\<lambda>arr'. Inr (arr', idx + 1)))"

definition midx_nodes :: "grid \<Rightarrow> (int \<times> int \<times> int) list" where
  "midx_nodes g = concat (map (\<lambda>l. concat (map (\<lambda>j. map (\<lambda>i. (l, j, i)) (indices (g_dimX g)))
     (indices (g_dimZ g)))) (indices (numLayer g + 1)))"

definition calculate_Midx_array :: "grid \<Rightarrow> (entry list \<times> int) result" where
  "calculate_Midx_array g =
     bindE (Rvert_of g) (\<lambda>rvert.
     if 2 ^ 31 \<le> midx_count g then Inl Overflow else
     bindE (foldE (\<lambda>(l, j, i) st. bindE (midx_row g rvert l j i) (\<lambda>row. foldE put_entry row st))
       (midx_nodes g) (replicate (nat (midx_count g)) (dzero, dzero, dzero), 0)) (\<lambda>(arr, idx).
     Inr (arr, midx_count g)))"


section \<open>The linear system\<close>

text \<open>A compressed sparse matrix as SuperLU takes it; positions of \<open>cm_xa\<close> that were
  never written are \<open>None\<close>.\<close>

record comp_matrix =
  cm_n :: int
  cm_nnz :: int
  cm_a :: "double list"
  cm_asub :: "int list"
  cm_xa :: "int option list"

text \<open>The library: the column ordering and the solver, which replaces the right-hand side by
  the solution and returns a status.\<close>

record superlu =
  omp_get_max_threads :: int
  get_perm_c :: "int \<Rightarrow> comp_matrix \<Rightarrow> int list"
  pdgssv :: "int \<Rightarrow> comp_matrix \<Rightarrow> int list \<Rightarrow> double list \<Rightarrow> double list \<times> int"

text \<open>The loop over \<open>Midx\<close>: the state is the last row and the positions written so far.\<close>

definition compress_step :: "entry list \<Rightarrow> int \<Rightarrow> int \<times> comp_matrix \<Rightarrow> (int \<times> comp_matrix) result" where
  "compress_step Midx i = (\<lambda>(row, m).
     bindE (vget Midx i) (\<lambda>e.
     bindE (if dless (d_of_int row) (e_row e)
            then bindE (to_int (e_row e)) (\<lambda>r. bindE (vset (cm_xa m) r (Some i)) (\<lambda>xa.
                 Inr (r, m\<lparr>cm_xa := xa\<rparr>)))
            else Inr (row, m)) (\<lambda>(row', m').
     bindE (to_int (e_col e)) (\<lambda>c.
     Inr (row', m'\<lparr>cm_a := cm_a m' @ [e_val e], cm_asub := cm_asub m' @ [c]\<rparr>)))))"

definition compress :: "int \<Rightarrow> entry list \<Rightarrow> int \<Rightarrow> comp_matrix result" where
  "compress n Midx nnz =
     bindE (foldE (compress_step Midx) (indices nnz)
        (-1, \<lparr>cm_n = n, cm_nnz = nnz, cm_a = [], cm_asub = [], cm_xa = replicate (nat (n + 1)) None\<rparr>))
       (\<lambda>(row, m). bindE (vset (cm_xa m) (row + 1) (Some nnz)) (\<lambda>xa. Inr (m\<lparr>cm_xa := xa\<rparr>)))"

definition layerP :: "int \<Rightarrow> int" where "layerP l = l * 3"

text \<open>The right-hand side: the heat that leaves to the ambience and the power of every node.\<close>

definition ambient_rhs :: "grid \<Rightarrow> double \<Rightarrow> double list result" where
  "ambient_rhs g Tamb =
     foldE (\<lambda>i rhs. vset rhs i (ddiv Tamb (Ramb g))) (indices (g_dimX g * g_dimZ g))
       (replicate (nat (g_dimX g * g_dimZ g * (numLayer g + 1))) dzero)"

definition steady_rhs :: "grid \<Rightarrow> double vec3 \<Rightarrow> double \<Rightarrow> double list result" where
  "steady_rhs g powerM Tamb =
     bindE (ambient_rhs g Tamb) (foldE (\<lambda>l. foldE (\<lambda>i. foldE (\<lambda>j rhs.
       bindE (vec3_get powerM i j l) (vset rhs (g_dimX g * g_dimZ g * (layerP l + 1) + j * g_dimX g + i)))
       (indices (g_dimZ g))) (indices (g_dimX g))) (indices (g_numP g)))"

definition steady_thermal_solver ::
  "superlu \<Rightarrow> grid \<Rightarrow> double vec3 \<Rightarrow> entry list \<Rightarrow> int \<Rightarrow> double \<Rightarrow> double list result" where
  "steady_thermal_solver slu g powerM Midx nnz Tamb =
     (let n = g_dimX g * g_dimZ g * (numLayer g + 1) in
      bindE (compress n Midx nnz) (\<lambda>m.
      bindE (steady_rhs g powerM Tamb) (\<lambda>rhs.
      let perm_c = get_perm_c slu 1 m;
          (T, info) = pdgssv slu (omp_get_max_threads slu) m perm_c rhs
      in mapE (\<lambda>i. bindE (vget T i) (\<lambda>t. Inr (dsub t T0))) (indices n))))"

section \<open>The time steps\<close>

text \<open>The power of a node; the position is \<open>i * dimZ + j\<close>, as the code has it.\<close>

definition transient_rhs :: "grid \<Rightarrow> double vec3 \<Rightarrow> double \<Rightarrow> double list result" where
  "transient_rhs g powerM Tamb =
     bindE (ambient_rhs g Tamb) (foldE (\<lambda>l. foldE (\<lambda>j. foldE (\<lambda>i P.
       bindE (vec3_get powerM i j l) (vset P (g_dimX g * g_dimZ g * (layerP l + 1) + i * g_dimZ g + j)))
       (indices (g_dimX g))) (indices (g_dimZ g))) (indices (g_numP g)))"

text \<open>The contribution of one entry to the next temperatures \<open>T\<close>; \<open>Tp\<close> are the present
  ones.\<close>

definition heat_entry ::
  "grid \<Rightarrow> entry list \<Rightarrow> double list \<Rightarrow> double list \<Rightarrow> double \<Rightarrow> double list \<Rightarrow> int \<Rightarrow> double list \<Rightarrow> double list result" where
  "heat_entry g Midx Cap P dt Tp b T =
     bindE (vget Midx b) (\<lambda>e.
     bindE (to_int (dadd (e_row e) (dlit 1 100))) (\<lambda>idx0.
     bindE (to_int (dadd (e_col e) (dlit 1 100))) (\<lambda>idx1.
     if g_dimX g * g_dimZ g = 0 then Inl DivByZero else
     bindE (vget Cap (idx0 sdiv (g_dimX g * g_dimZ g))) (\<lambda>c.
     bindE (vget Tp idx1) (\<lambda>t1. bindE (vget T idx0) (\<lambda>t0.
     if idx0 = idx1 then
       bindE (vget P idx0) (\<lambda>p.
       let tmp_a = dsub (d_of_int 1) (ddiv (dmul (e_val e) dt) c);
           tmp_b = dadd (dmul tmp_a t1) (ddiv (dmul p dt) c)
       in vset T idx0 (dadd t0 tmp_b))
     else
       let tmp_a = ddiv (dmul (dmul (e_val e) t1) dt) c
       in vset T idx0 (dsub t0 tmp_a)))))))"

text \<open>The loop over the entries in blocks of eight.\<close>

function tiled_loop :: "int \<Rightarrow> int \<Rightarrow> (int \<Rightarrow> 's \<Rightarrow> 's result) \<Rightarrow> 's \<Rightarrow> 's result" where
  "tiled_loop j bound body s =
     (if j < bound
      then bindE (foldE body (map (\<lambda>b. j + b) (indices (min (j + 8) bound - j))) s)
             (tiled_loop (j + 8) bound body)
      else Inr s)"
  by pat_completeness auto
termination
  by (relation "measure (\<lambda>(j, bound, body, s). nat (bound - j))") auto

declare tiled_loop.simps [simp del]

definition heat_step ::
  "grid \<Rightarrow> entry list \<Rightarrow> int \<Rightarrow> double list \<Rightarrow> double list \<Rightarrow> double \<Rightarrow> double list \<Rightarrow> double list result" where
  "heat_step g Midx MidxSize Cap P dt Tp =
     tiled_loop 0 MidxSize (heat_entry g Midx Cap P dt Tp)
       (replicate (nat (g_dimX g * g_dimZ g * (numLayer g + 1))) dzero)"

definition transient_thermal_solver ::
  "grid \<Rightarrow> double vec3 \<Rightarrow> entry list \<Rightarrow> int \<Rightarrow> double list \<Rightarrow> double \<Rightarrow> int \<Rightarrow> double list \<Rightarrow> double
   \<Rightarrow> double list result" where
  "transient_thermal_solver g powerM Midx MidxSize Cap time iter T_trans Tamb =
     bindE (transient_rhs g powerM Tamb) (\<lambda>P.
     let dt = ddiv time (d_of_int iter)
     in foldE (\<lambda>_ Tp. heat_step g Midx MidxSize Cap P dt Tp) (indices iter) T_trans)"

definition get_maxT :: "double list \<Rightarrow> int \<Rightarrow> double result" where
  "get_maxT T Tsize = foldE (\<lambda>i maxT. bindE (vget T i) (\<lambda>t. Inr (if dless maxT t then t else maxT)))
     (indices Tsize) dzero"

end
