(* ===== verification/Trace.thy ===== *)
theory Trace
  imports Common
begin

text \<open>
  The trace file of \<open>TraceBasedCPU\<close>: the formatted input of a \<open>std::istream\<close> as far as \<open>operator>>\<close>
  for transactions in \<open>common.cc\<close> uses it, and this operator. A stream is its remaining characters
  with its flags for the end of the file and for failure.
\<close>

record istream =
  in_chars :: string
  eofbit :: bool
  failbit :: bool

section \<open>The standard library\<close>

definition is_space :: "char \<Rightarrow> bool" where
  "is_space c \<longleftrightarrow> c \<in> set [CHR '' '', CHR 0x09, CHR 0x0A, CHR 0x0B, CHR 0x0C, CHR 0x0D]"

text \<open>Every extraction begins with a sentry: it fails on a stream that is not good, skips white
  space, and fails at the end of the file.\<close>

definition sentry :: "istream \<Rightarrow> bool \<times> istream" where
  "sentry s =
     (if eofbit s \<or> failbit s then (False, s\<lparr>failbit := True\<rparr>)
      else let cs = dropWhile is_space (in_chars s) in
        if cs = [] then (False, s\<lparr>in_chars := [], eofbit := True, failbit := True\<rparr>)
        else (True, s\<lparr>in_chars := cs\<rparr>))"

definition digit_of :: "char \<Rightarrow> nat option" where
  "digit_of = map_of (zip ''0123456789'' [0..<10] @ zip ''abcdef'' [10..<16] @ zip ''ABCDEF'' [10..<16])"

definition is_digit :: "nat \<Rightarrow> char \<Rightarrow> bool" where
  "is_digit base c = (case digit_of c of Some d \<Rightarrow> d < base | None \<Rightarrow> False)"

definition digits_value :: "nat \<Rightarrow> string \<Rightarrow> nat" where
  "digits_value base = foldl (\<lambda>v c. v * base + (case digit_of c of Some d \<Rightarrow> d | None \<Rightarrow> 0)) 0"

text \<open>The optional sign of a number, the prefix of a hexadecimal one, and its digits.\<close>

definition split_sign :: "string \<Rightarrow> bool \<times> string" where
  "split_sign cs = (case cs of c # r \<Rightarrow>
     if c = CHR ''-'' then (True, r) else if c = CHR ''+'' then (False, r) else (False, cs) | [] \<Rightarrow> (False, cs))"

definition drop_prefix :: "nat \<Rightarrow> string \<Rightarrow> string" where
  "drop_prefix base cs = (case cs of z # x # r \<Rightarrow>
     if base = 16 \<and> z = CHR ''0'' \<and> (x = CHR ''x'' \<or> x = CHR ''X'') then r else cs | _ \<Rightarrow> cs)"

text \<open>\<open>operator>>(uint64_t&)\<close>: without a number the value becomes 0, a number that is too large
  becomes the largest value, both with \<open>failbit\<close>; where the sentry fails the variable keeps
  its value.\<close>

definition read_u64 :: "nat \<Rightarrow> istream \<Rightarrow> u64 \<Rightarrow> istream \<times> u64" where
  "read_u64 base s0 old = (case sentry s0 of
     (False, s) \<Rightarrow> (s, old)
   | (True, s) \<Rightarrow>
       let (neg, cs) = split_sign (in_chars s);
           ds = drop_prefix base cs;
           num = takeWhile (is_digit base) ds;
           rest = dropWhile (is_digit base) ds;
           n = digits_value base num;
           s' = s\<lparr>in_chars := rest, eofbit := (rest = [])\<rparr>
       in if num = [] then (s'\<lparr>failbit := True\<rparr>, 0)
          else if n \<ge> 2 ^ 64 then (s'\<lparr>failbit := True\<rparr>, - 1)
          else (s', if neg then - of_nat n else of_nat n))"

text \<open>\<open>operator>>(std::string&)\<close>.\<close>

definition read_word :: "istream \<Rightarrow> string \<Rightarrow> istream \<times> string" where
  "read_word s0 old = (case sentry s0 of
     (False, s) \<Rightarrow> (s, old)
   | (True, s) \<Rightarrow>
       let w = takeWhile (\<lambda>c. \<not> is_space c) (in_chars s); rest = dropWhile (\<lambda>c. \<not> is_space c) (in_chars s)
       in (s\<lparr>in_chars := rest, eofbit := (rest = [])\<rparr>, w))"

section \<open>Reading a transaction\<close>

definition read_transaction :: "istream \<Rightarrow> transaction \<Rightarrow> istream \<times> transaction" where
  "read_transaction s t =
     (let (s1, a) = read_u64 16 s (t_addr t);
          (s2, mem_op) = read_word s1 [];
          (s3, added) = read_u64 10 s2 (added_cycle t)
      in (s3, t\<lparr>t_addr := a, added_cycle := added, is_write := (mem_op \<in> write_types)\<rparr>))"

lemma sentry_skips:
  assumes "\<not> eofbit s" "\<not> failbit s" "in_chars s = ws @ c # r" "\<forall>x \<in> set ws. is_space x" "\<not> is_space c"
  shows "sentry s = (True, s\<lparr>in_chars := c # r\<rparr>)"
  using assms by (simp add: sentry_def)

lemma takeWhile_stop: "\<forall>x \<in> set xs. P x \<Longrightarrow> \<not> P y \<Longrightarrow> takeWhile P (xs @ y # ys) = xs \<and> dropWhile P (xs @ y # ys) = y # ys"
  by (simp add: takeWhile_tail)

lemma digit_in_list:
  assumes "is_digit base c"
  shows "c \<in> set (''0123456789'' @ ''abcdef'' @ ''ABCDEF'')"
proof -
  from assms obtain d where "digit_of c = Some d" by (auto simp: is_digit_def split: option.splits)
  then have "(c, d) \<in> set (zip ''0123456789'' [0..<10] @ zip ''abcdef'' [10..<16] @ zip ''ABCDEF'' [10..<16])"
    unfolding digit_of_def by (rule map_of_SomeD)
  then have "(c, d) \<in> set (zip ''0123456789'' [0..<10]) \<or> (c, d) \<in> set (zip ''abcdef'' [10..<16]) \<or>
      (c, d) \<in> set (zip ''ABCDEF'' [10..<16])" by (simp only: set_append Un_iff)
  then show ?thesis unfolding set_append Un_iff by (blast dest: set_zip_leftD)
qed

lemma digit_char:
  assumes "is_digit base c"
  shows "\<not> is_space c \<and> c \<noteq> CHR ''-'' \<and> c \<noteq> CHR ''+'' \<and> c \<noteq> CHR ''x'' \<and> c \<noteq> CHR ''X''"
proof -
  have "list_all (\<lambda>c. \<not> is_space c \<and> c \<noteq> CHR ''-'' \<and> c \<noteq> CHR ''+'' \<and> c \<noteq> CHR ''x'' \<and> c \<noteq> CHR ''X'')
      (''0123456789'' @ ''abcdef'' @ ''ABCDEF'')" by code_simp
  with digit_in_list [OF assms] show ?thesis unfolding list_all_iff by blast
qed

lemma read_u64_digits:
  assumes g: "\<not> eofbit s" "\<not> failbit s" "in_chars s = ws @ ds @ c # r"
    and d: "ds \<noteq> []" "\<forall>x \<in> set ds. is_digit base x" "digits_value base ds < 2 ^ 64"
    and w: "\<forall>x \<in> set ws. is_space x" "is_space c"
  shows "read_u64 base s old = (s\<lparr>in_chars := c # r\<rparr>, of_nat (digits_value base ds))"
proof -
  obtain x xs where x: "ds = x # xs" using d(1) by (cases ds) auto
  note dx = digit_char [of base x]
  have "sentry s = (True, s\<lparr>in_chars := ds @ c # r\<rparr>)"
    using sentry_skips [OF g(1,2), of ws x "xs @ c # r"] g(3) w(1) d(2) dx by (simp add: x)
  moreover have "split_sign (ds @ c # r) = (False, ds @ c # r)" using dx d(2) by (simp add: x split_sign_def)
  moreover have "c \<noteq> CHR ''x''" "c \<noteq> CHR ''X''" using w(2) by (auto simp: is_space_def)
  then have "drop_prefix base (ds @ c # r) = ds @ c # r"
    using digit_char [of base "hd xs"] d(2) by (cases xs) (simp_all add: x drop_prefix_def)
  moreover have "takeWhile (is_digit base) (ds @ c # r) = ds \<and> dropWhile (is_digit base) (ds @ c # r) = c # r"
    by (rule takeWhile_stop [OF d(2)]) (use digit_char w(2) in blast)
  ultimately show ?thesis using d g(1) by (simp add: read_u64_def Let_def del: dropWhile_eq_Nil_conv)
qed

lemma read_word_ok:
  assumes g: "\<not> eofbit s" "\<not> failbit s" "in_chars s = ws @ op @ c # r"
    and o: "op \<noteq> []" "\<forall>x \<in> set op. \<not> is_space x" and w: "\<forall>x \<in> set ws. is_space x" "is_space c"
  shows "read_word s old = (s\<lparr>in_chars := c # r\<rparr>, op)"
proof -
  obtain x xs where x: "op = x # xs" using o(1) by (cases op) auto
  have "sentry s = (True, s\<lparr>in_chars := op @ c # r\<rparr>)"
    using sentry_skips [OF g(1,2), of ws x "xs @ c # r"] g(3) w(1) o(2) by (simp add: x)
  moreover have "takeWhile (\<lambda>c. \<not> is_space c) (op @ c # r) = op \<and> dropWhile (\<lambda>c. \<not> is_space c) (op @ c # r) = c # r"
    by (rule takeWhile_stop) (use o(2) w(2) in auto)
  ultimately show ?thesis using g(1) by (simp add: read_word_def Let_def del: dropWhile_eq_Nil_conv)
qed

text \<open>A line of a trace file: a hexadecimal address, an operation and a decimal cycle, with white space
  between and behind them.\<close>

lemma read_transaction_line:
  assumes g: "\<not> eofbit s" "\<not> failbit s" "in_chars s = ws @ a @ [b] @ op @ [c] @ n @ e # r"
    and w: "\<forall>x \<in> set ws. is_space x" "is_space b" "is_space c" "is_space e"
    and a: "a \<noteq> []" "\<forall>x \<in> set a. is_digit 16 x" "digits_value 16 a < 2 ^ 64"
    and o: "op \<noteq> []" "\<forall>x \<in> set op. \<not> is_space x"
    and n: "n \<noteq> []" "\<forall>x \<in> set n. is_digit 10 x" "digits_value 10 n < 2 ^ 64"
  shows "read_transaction s t = (s\<lparr>in_chars := e # r\<rparr>, t\<lparr>t_addr := of_nat (digits_value 16 a),
     added_cycle := of_nat (digits_value 10 n), is_write := (op \<in> write_types)\<rparr>)"
proof -
  let ?s1 = "s\<lparr>in_chars := b # op @ c # n @ e # r\<rparr>" and ?s2 = "s\<lparr>in_chars := c # n @ e # r\<rparr>"
  have "read_u64 16 s old = (?s1, of_nat (digits_value 16 a))" for old
    by (rule read_u64_digits [OF g(1,2) _ a w(1,2)]) (simp add: g(3))
  moreover have "read_word ?s1 old = (?s2, op)" for old
    using read_word_ok [of ?s1 "[b]" op c "n @ e # r"] g o w by simp
  moreover have "read_u64 10 ?s2 old = (s\<lparr>in_chars := e # r\<rparr>, of_nat (digits_value 10 n))" for old
    using read_u64_digits [of ?s2 "[c]" n e r 10] g n w by simp
  ultimately show ?thesis by (simp add: read_transaction_def)
qed

text \<open>Behind the last line: only white space is left, so all three extractions fail, and the
  transaction becomes a read of the address it had before.\<close>

lemma read_transaction_exhausted:
  assumes "\<not> eofbit s" "\<not> failbit s" "\<forall>x \<in> set (in_chars s). is_space x"
  shows "read_transaction s t = (s\<lparr>in_chars := [], eofbit := True, failbit := True\<rparr>, t\<lparr>is_write := False\<rparr>)"
proof -
  have "dropWhile is_space (in_chars s) = []" using assms(3) by (simp add: dropWhile_eq_Nil_conv)
  then show ?thesis
    by (simp add: read_transaction_def read_u64_def read_word_def sentry_def assms write_types_def)
qed

end
