(* ===== verification/Thermal.thy ===== *)
theory Thermal
  imports Thermal_Solver Trace
begin

text \<open>
  \<open>thermal.h\<close> and \<open>thermal.cc\<close>: the \<open>ThermalCalculator\<close>, compiled with \<open>THERMAL\<close>. Its
  state: the geometry of the chip, the power maps (energy for every cell of every layer, one map
  for each case that is simulated), the refresh positions of the banks, the background energies,
  and the temperatures. The messages on the console are not modelled; the rows of the CSV files
  are the results of the functions that write them. The physical address mapping, a global
  function in the code, is a field (\<open>None\<close>: the identity).
\<close>

section \<open>State\<close>

text \<open>The configuration: the integer parameters, the energies and the thermal parameters.\<close>

record thermal_config =
  tc_cfg :: config
  tc_pw :: power_params
  tc_th :: thermal_params

abbreviation num_dummy :: int where "num_dummy \<equiv> 2"

record geometry =
  numP :: int
  dimX :: int
  dimY :: int
  vault_x :: int
  vault_y :: int
  bank_x :: int
  bank_y :: int
  num_case :: int

record thermal = geometry +
  Tamb :: double
  phy_map :: "(int list list \<times> int) option"
  accu_Pmap :: "double list list"
  cur_Pmap :: "double list list"
  refresh_count :: "int list list"
  background_energy :: "double list list"
  avg_logic_power :: double
  sample_id :: int
  time_iter :: int
  T_trans :: "double list list"
  T_final :: "double list list"
  Midx :: "entry list"
  MidxSize :: int
  Cap :: "double list"

definition layers_P :: "'a geometry_scheme \<Rightarrow> int list" where
  "layers_P tc = map (\<lambda>l. l * 3) (indices (numP tc))"

definition T_size :: "'a geometry_scheme \<Rightarrow> int" where
  "T_size tc = (numP tc * 3 + 1) * (dimX tc + num_dummy) * (dimY tc + num_dummy)"

text \<open>The grid that the solver is called with: the chip with a margin of dummy cells.\<close>

definition solver_grid :: "thermal_config \<Rightarrow> 'a geometry_scheme \<Rightarrow> grid" where
  "solver_grid c tc = \<lparr>g_numP = numP tc, g_dimX = dimX tc + num_dummy, g_dimZ = dimY tc + num_dummy,
     g_W = chip_dim_x (tc_th c), g_Lc = chip_dim_y (tc_th c)\<rparr>"

section \<open>The floor plan\<close>

text \<open>The factors of \<open>total\<close> with the most square plan.\<close>

definition xy_step :: "double \<Rightarrow> double \<Rightarrow> int \<Rightarrow> int \<Rightarrow> int \<times> double \<Rightarrow> int \<times> double" where
  "xy_step xd yd tot y = (\<lambda>(x_re, asr_re).
     let x = tot sdiv y in
     if x * y = tot then
       let xs = dmul (d_of_int x) xd; ys = dmul (d_of_int y) yd;
           asr = (if dle ys xs then ddiv (ddiv xs (d_of_int y)) yd else ddiv (ddiv ys (d_of_int x)) xd)
       in if dless asr asr_re then (tot sdiv y, asr) else (x_re, asr_re)
     else (x_re, asr_re))"

definition determineXY :: "double \<Rightarrow> double \<Rightarrow> int \<Rightarrow> int" where
  "determineXY xd yd tot = fst (fold (xy_step xd yd tot) (map (\<lambda>k. k + 1) (indices tot)) (1, d_of_int 1000))"

text \<open>Where a variant does not set \<open>vault_x\<close> and \<open>vault_y\<close>, they are only printed; here they
  are 0.\<close>

definition init_geometry :: "thermal_config \<Rightarrow> geometry result" where
  "init_geometry c =
     (let cfg = tc_cfg c; th = tc_th c in
      if IsHMC cfg then
        let vx = determineXY (dmul (d_of_int 1) (bank_asr th)) (dmul (d_of_int 2) (d_of_int 1)) (channels cfg) in
        bindE (idiv (channels cfg) vx) (\<lambda>vy.
        Inr \<lparr>numP = num_dies cfg + 1, dimX = vx * 1 * num_x_grids th, dimY = vy * 2 * num_y_grids th,
             vault_x = vx, vault_y = vy, bank_x = 1, bank_y = 2, num_case = 1\<rparr>)
      else if IsHBM cfg then
        Inr \<lparr>numP = num_dies cfg + 1, dimX = 1 * 8 * num_x_grids th, dimY = 2 * 2 * num_y_grids th,
             vault_x = 1, vault_y = 2, bank_x = 8, bank_y = 2, num_case = 1\<rparr>
      else
        let bx = determineXY (bank_asr th) (d_of_int 1) (banks cfg) in
        bindE (idiv (banks cfg) bx) (\<lambda>bk_y.
        Inr \<lparr>numP = 1, dimX = bx * num_x_grids th, dimY = bk_y * num_y_grids th,
             vault_x = 0, vault_y = 0, bank_x = bx, bank_y = bk_y, num_case = ranks cfg * channels cfg\<rparr>))"

section \<open>The physical address\<close>

text \<open>\<open>std::stoi\<close>: white space, a sign, digits; what follows is ignored.\<close>

definition stoi :: "string \<Rightarrow> int result" where
  "stoi s =
     (let (neg, cs) = split_sign (dropWhile is_space s);
          num = takeWhile (is_digit 10) cs;
          n = int (digits_value 10 num);
          z = (if neg then - n else n)
      in if num = [] then Inl (UncaughtException ''invalid_argument'')
         else if int_range z then Inr z else Inl (UncaughtException ''out_of_range''))"

text \<open>A position, or a range of positions \<open>start:end\<close> in either direction.\<close>

definition bit_positions :: "string \<Rightarrow> int list result" where
  "bit_positions s =
     (if CHR '':'' \<notin> set s then bindE (stoi s) (\<lambda>p. Inr [p])
      else bindE (stoi (takeWhile (\<lambda>ch. ch \<noteq> CHR '':'') s)) (\<lambda>start_pos.
           bindE (stoi (tl (dropWhile (\<lambda>ch. ch \<noteq> CHR '':'') s))) (\<lambda>end_pos.
           Inr (if start_pos > end_pos then map (\<lambda>k. start_pos - k) (indices (start_pos - end_pos + 1))
                else map (\<lambda>k. start_pos + k) (indices (end_pos - start_pos + 1))))))"

definition SetPhyAddressMapping :: "thermal_config \<Rightarrow> (int list list \<times> int) option result" where
  "SetPhyAddressMapping c =
     (let s = loc_mapping (tc_th c) in
      if s = [] then Inr None else
      let bit_fields = StringSplit s (CHR '','') in
      if length bit_fields \<noteq> 6 then Inl (ExitFailure ''thermal.cc'' 142) else
      bindE (mapE (\<lambda>f. bindE (mapE bit_positions (StringSplit f (CHR ''-''))) (\<lambda>ps. Inr (concat ps))) bit_fields)
        (\<lambda>mapped_pos. Inr (Some (mapped_pos, LogBase2 (BL (tc_cfg c))))))"

text \<open>\<open>new_hex\<close>: every bit of every field at its new place, the highest bit of a field first; a
  shift by 64 or more is undefined.\<close>

definition gather_bits :: "(int list \<times> int) list \<Rightarrow> u64 result" where
  "gather_bits flds =
     foldE (\<lambda>(ps, origin) new_hex. foldE (\<lambda>j new_hex.
        bindE (vget ps j) (\<lambda>p.
        if p < 0 \<or> 64 \<le> p then Inl Overflow else
        Inr (new_hex OR push_bit (nat p) (of_c_int (GetBitInPos (of_c_int origin) (int (length ps) - j - 1))))))
        (indices (int (length ps))) new_hex) flds 0"

text \<open>The new fields, taken from the lowest (the column) upwards.\<close>

fun scatter_bits :: "u64 \<Rightarrow> int list list \<Rightarrow> int \<Rightarrow> int list" where
  "scatter_bits h [] pos = []"
| "scatter_bits h (ps # rest) pos =
     signed_take_bit 31 (uint (ModuloWidth h (of_nat (length ps)) (of_int pos))) #
     scatter_bits h rest (pos + int (length ps))"

definition GetPhyAddress :: "(int list list \<times> int) option \<Rightarrow> address \<Rightarrow> address result" where
  "GetPhyAddress m a =
     (case m of
        None \<Rightarrow> Inr a
      | Some (mapped_pos, column_offset) \<Rightarrow>
          bindE (gather_bits (zip mapped_pos [a_channel a, a_rank a, a_bankgroup a, a_bank a, a_row a, a_column a]))
            (\<lambda>new_hex.
             case rev (scatter_bits new_hex (rev mapped_pos) column_offset) of
               [ch, ra, bg, ba, ro, co] \<Rightarrow> Inr (Address ch ra bg ba ro co)
             | _ \<Rightarrow> Inl OutOfRange))"

section \<open>Places on the chip\<close>

definition MapToVault :: "thermal_config \<Rightarrow> 'a geometry_scheme \<Rightarrow> int \<Rightarrow> (int \<times> int) result" where
  "MapToVault c tc channel_id =
     (let cfg = tc_cfg c; x_first = (bank_order (tc_th c) = 0) in
      if IsHMC cfg then
        let vault_factor = (if x_first then vault_x tc else vault_y tc) in
        bindE (idiv channel_id vault_factor) (\<lambda>q.
        let r = channel_id smod vault_factor
        in Inr (if x_first then (r, q) else (q, r)))
      else if IsHBM cfg then Inr (0, channel_id smod 2)
      else Inr (0, 0))"

definition MapToBank :: "thermal_config \<Rightarrow> 'a geometry_scheme \<Rightarrow> int \<Rightarrow> int \<Rightarrow> (int \<times> int) result" where
  "MapToBank c tc bankgroup_id bank_id =
     (let cfg = tc_cfg c; x_first = (bank_order (tc_th c) = 0);
          abs_bank_id = bankgroup_id * banks_per_group cfg + bank_id;
          bank_factor = (if x_first then bank_x tc else bank_y tc);
          swap = (\<lambda>(a, b). if x_first then (b, a) else (a, b))
      in if IsHMC cfg then
           bindE (idiv (banks cfg) (num_dies cfg)) (\<lambda>num_bank_per_layer.
           if num_bank_per_layer = 0 then Inl DivByZero else
           let bank_same_layer = abs_bank_id smod num_bank_per_layer in
           bindE (idiv bank_same_layer bank_factor) (\<lambda>q. Inr (swap (q, bank_same_layer smod bank_factor))))
         else if IsHBM cfg then Inr (bankgroup_id * 2 + bank_id sdiv 2, bank_id smod 2)
         else if bankgroups cfg > 1 then
           let (x, y) = swap (bank_id sdiv 2, bank_id smod 2)
           in Inr (if bank_x tc \<le> bank_y tc then (x, y + bankgroup_id * 2) else (x + bankgroup_id * 2, y))
         else bindE (idiv abs_bank_id bank_factor) (\<lambda>q. Inr (swap (q, abs_bank_id smod bank_factor))))"

definition MapToZ :: "thermal_config \<Rightarrow> 'a geometry_scheme \<Rightarrow> int \<Rightarrow> int \<Rightarrow> int result" where
  "MapToZ c tc channel_id bank_id =
     (let cfg = tc_cfg c in
      if IsHMC cfg then
        bindE (idiv (banks cfg) (num_dies cfg)) (\<lambda>num_bank_per_layer.
        bindE (idiv bank_id num_bank_per_layer) (\<lambda>layer.
        Inr (if bank_layer_order (tc_th c) = 0 then layer else numP tc - layer - 2)))
      else if IsHBM cfg then Inr (channel_id sdiv 2)
      else Inr 0)"

text \<open>The cells that a row and a column of a mat belong to.\<close>

definition grid_x :: "thermal_config \<Rightarrow> int \<Rightarrow> int result" where
  "grid_x c row_id = bindE (idiv row_id (mat_dim_x (tc_th c))) (\<lambda>m. idiv m (row_tile (tc_th c)))"

definition grid_y :: "thermal_config \<Rightarrow> int \<Rightarrow> int \<Rightarrow> int result" where
  "grid_y c row_id col_id =
     bindE (idiv row_id (tile_row_num (tc_th c))) (\<lambda>col_tile_id.
     bindE (idiv col_id (mat_dim_y (tc_th c))) (\<lambda>m.
     bindE (idiv (num_y_grids (tc_th c)) (row_tile (tc_th c))) (\<lambda>per_tile.
     Inr (m + col_tile_id * per_tile))))"

definition place_x :: "thermal_config \<Rightarrow> 'a geometry_scheme \<Rightarrow> int \<Rightarrow> int \<Rightarrow> int \<Rightarrow> int" where
  "place_x c tc vault_id_x bank_id_x gx =
     vault_id_x * (bank_x tc * num_x_grids (tc_th c)) + bank_id_x * num_x_grids (tc_th c) + gx"

definition place_y :: "thermal_config \<Rightarrow> 'a geometry_scheme \<Rightarrow> int \<Rightarrow> int \<Rightarrow> int \<Rightarrow> int" where
  "place_y c tc vault_id_y bank_id_y gy =
     vault_id_y * (bank_y tc * num_y_grids (tc_th c)) + bank_id_y * num_y_grids (tc_th c) + gy"

text \<open>The cells of a burst: one for each bit of each beat.\<close>

definition MapToXY :: "thermal_config \<Rightarrow> thermal \<Rightarrow> command \<Rightarrow> int \<times> int \<Rightarrow> int \<times> int \<Rightarrow> (int \<times> int) list result" where
  "MapToXY c tc cmd vault bank =
     (let cfg = tc_cfg c in
      bindE (grid_x c (Row cmd)) (\<lambda>gx.
      bindE (mapE (\<lambda>i.
        bindE (GetPhyAddress (phy_map tc) ((addr cmd)\<lparr>a_column := a_column (addr cmd) + i\<rparr>)) (\<lambda>phy_loc.
        mapE (\<lambda>j. bindE (grid_y c (Row cmd) (a_column phy_loc * device_width cfg + j)) (\<lambda>gy.
            Inr (place_x c tc (fst vault) (fst bank) gx, place_y c tc (snd vault) (snd bank) gy)))
          (indices (device_width cfg))))
        (indices (BL cfg))) (\<lambda>cells. Inr (concat cells))))"


section \<open>Energy\<close>

definition map_add :: "int \<Rightarrow> int \<Rightarrow> double \<Rightarrow> double list list \<Rightarrow> double list list result" where
  "map_add k idx e maps =
     bindE (vget maps k) (\<lambda>m. bindE (vget m idx) (\<lambda>x. bindE (vset m idx (dadd x e)) (vset maps k)))"

definition add_cell :: "int \<Rightarrow> int \<Rightarrow> double \<Rightarrow> thermal \<Rightarrow> thermal result" where
  "add_cell caseID idx e tc =
     bindE (map_add caseID idx e (accu_Pmap tc)) (\<lambda>am.
     bindE (map_add caseID idx e (cur_Pmap tc)) (\<lambda>cm.
     Inr (tc\<lparr>accu_Pmap := am, cur_Pmap := cm\<rparr>)))"

definition LocationMappingANDaddEnergy ::
  "thermal_config \<Rightarrow> int \<Rightarrow> command \<Rightarrow> int \<Rightarrow> double \<Rightarrow> thermal \<Rightarrow> thermal result" where
  "LocationMappingANDaddEnergy c channel cmd caseID add_energy tc =
     bindE (MapToVault c tc channel) (\<lambda>vault.
     bindE (MapToBank c tc (Bankgroup cmd) (Bank cmd)) (\<lambda>bank.
     bindE (MapToXY c tc cmd vault bank) (\<lambda>cells.
     bindE (MapToZ c tc channel (Bank cmd)) (\<lambda>z.
     let z_offset = z * dimX tc * dimY tc;
         energy = ddiv add_energy (d_of_int (device_width (tc_cfg c)))
     in foldE (\<lambda>(x, y). add_cell caseID (z_offset + y * dimX tc + x) energy) cells tc))))"

text \<open>A row that is refreshed: all cells of the row's line in the bank.\<close>

definition LocationMappingANDaddEnergy_RF ::
  "thermal_config \<Rightarrow> int \<Rightarrow> command \<Rightarrow> int \<Rightarrow> int \<Rightarrow> int \<Rightarrow> double \<Rightarrow> thermal \<Rightarrow> thermal result" where
  "LocationMappingANDaddEnergy_RF c channel cmd bank0 row0 caseID add_energy tc =
     bindE (idiv bank0 (banks_per_group (tc_cfg c))) (\<lambda>bankgroup_id.
     let bank_id = bank0 smod banks_per_group (tc_cfg c);
         new_addr = (addr cmd)\<lparr>a_row := row0, a_bankgroup := bankgroup_id, a_bank := bank_id\<rparr>
     in bindE (MapToVault c tc channel) (\<lambda>vault.
        bindE (MapToBank c tc bankgroup_id bank_id) (\<lambda>bank.
        bindE (MapToZ c tc channel bank_id) (\<lambda>z.
        bindE (GetPhyAddress (phy_map tc) new_addr) (\<lambda>phy_addr.
        bindE (grid_x c (a_row phy_addr)) (\<lambda>gx.
        bindE (grid_y c (a_row phy_addr) 0) (\<lambda>gy.
        let x = place_x c tc (fst vault) (fst bank) gx;
            y = place_y c tc (snd vault) (snd bank) gy;
            z_offset = z * (dimX tc * dimY tc)
        in foldE (\<lambda>i. add_cell caseID (z_offset + (y + i) * dimX tc + x) add_energy)
             (indices (num_y_grids (tc_th c))) tc)))))))"

text \<open>Energy for all cells of the memory layers, and the power of the logic layer.\<close>

definition update_map :: "'a geometry_scheme \<Rightarrow> double \<Rightarrow> double \<Rightarrow> int \<Rightarrow> double list list \<Rightarrow> double list list result" where
  "update_map tc add_energy logic j pm =
     bindE (foldE (\<lambda>i. map_add j i add_energy) (indices (dimX tc * dimY tc * (numP tc - 1))) pm)
       (foldE (\<lambda>i. map_add j (dimX tc * dimY tc * (numP tc - 1) + i) logic) (indices (dimX tc * dimY tc)))"

definition UpdatePowerMaps :: "thermal_config \<Rightarrow> double \<Rightarrow> bool \<Rightarrow> u64 \<Rightarrow> thermal \<Rightarrow> thermal result" where
  "UpdatePowerMaps c add_energy is_trans clk tc =
     (let period = (if is_trans then d_of_int (epoch_period (tc_cfg c)) else d_of_int (uint clk));
          logic = dmul (ddiv (ddiv (avg_logic_power tc) (d_of_int (dimX tc))) (d_of_int (dimY tc))) period
      in bindE (foldE (update_map tc add_energy logic) (indices (num_case tc))
                  (if is_trans then cur_Pmap tc else accu_Pmap tc)) (\<lambda>pm.
         Inr (if is_trans then tc\<lparr>cur_Pmap := pm\<rparr> else tc\<lparr>accu_Pmap := pm\<rparr>)))"

text \<open>The rows of a bank that are refreshed next: the position moves on, and returns to 0 where it
  equals the number of rows.\<close>

definition next_refresh :: "thermal_config \<Rightarrow> int \<Rightarrow> int \<Rightarrow> thermal \<Rightarrow> (int \<times> thermal) result" where
  "next_refresh c rank_idx ib tc =
     bindE (vget (refresh_count tc) rank_idx) (\<lambda>counts. bindE (vget counts ib) (\<lambda>n.
     let n' = (if (n + 1) * num_row_refresh (tc_th c) = rows (tc_cfg c) then 0 else n + 1) in
     bindE (vset counts ib n') (\<lambda>counts'. bindE (vset (refresh_count tc) rank_idx counts') (\<lambda>rc.
     Inr (n * num_row_refresh (tc_th c), tc\<lparr>refresh_count := rc\<rparr>)))))"

definition refresh_rows ::
  "thermal_config \<Rightarrow> int \<Rightarrow> command \<Rightarrow> int \<Rightarrow> double \<Rightarrow> int \<Rightarrow> thermal \<Rightarrow> thermal result" where
  "refresh_rows c channel cmd case_id energy ib tc =
     bindE (next_refresh c (channel * ranks (tc_cfg c) + Rank cmd) ib tc) (\<lambda>(row_s, tc').
     foldE (\<lambda>k. LocationMappingANDaddEnergy_RF c channel cmd ib (row_s + k) case_id energy)
       (indices (num_row_refresh (tc_th c))) tc')"

definition UpdateCMDPower :: "thermal_config \<Rightarrow> int \<Rightarrow> command \<Rightarrow> thermal \<Rightarrow> thermal result" where
  "UpdateCMDPower c channel cmd tc =
     (let cfg = tc_cfg c; pw = tc_pw c; th = tc_th c;
          stacked = (IsHMC cfg \<or> IsHBM cfg);
          device_scale = (if stacked then d_of_int 1 else d_of_int (devices_per_rank cfg));
          case_id = (if stacked then 0 else channel * ranks cfg + Rank cmd);
          scaled = (\<lambda>e. ddiv (ddiv e (dlit 1000 1)) device_scale)
      in case cmd_type cmd of
        REFRESH \<Rightarrow>
          let energy = ddiv (ddiv (ddiv (ref_energy_inc pw) (d_of_int (num_row_refresh th)))
                (d_of_int (banks cfg))) (d_of_int (num_y_grids th))
          in foldE (refresh_rows c channel cmd case_id (scaled energy)) (indices (banks cfg)) tc
      | REFRESH_BANK \<Rightarrow>
          let energy = ddiv (ddiv (refb_energy_inc pw) (d_of_int (num_row_refresh th))) (d_of_int (num_y_grids th))
          in refresh_rows c channel cmd case_id (scaled energy) (Bank cmd) tc
      | ct \<Rightarrow>
          let energy = (if ct = ACTIVATE then act_energy_inc pw
                else if ct = READ \<or> ct = READ_PRECHARGE then read_energy_inc pw
                else if ct = WRITE \<or> ct = WRITE_PRECHARGE then write_energy_inc pw else dzero)
          in if dless dzero energy then
               LocationMappingANDaddEnergy c channel cmd case_id (scaled (ddiv energy (d_of_int (BL cfg)))) tc
             else Inr tc)"

definition UpdateBackgroundEnergy :: "int \<Rightarrow> int \<Rightarrow> double \<Rightarrow> thermal \<Rightarrow> thermal result" where
  "UpdateBackgroundEnergy channel rank energy tc =
     bindE (vget (background_energy tc) channel) (\<lambda>es. bindE (vset es rank energy) (\<lambda>es'.
     bindE (vset (background_energy tc) channel es') (\<lambda>bg. Inr (tc\<lparr>background_energy := bg\<rparr>))))"

definition SetLogicPower :: "double \<Rightarrow> thermal \<Rightarrow> thermal" where
  "SetLogicPower logic_power tc = tc\<lparr>avg_logic_power := logic_power\<rparr>"

text \<open>The loop \<open>for (k = 0; k < n; i++)\<close>: it increments the wrong variable, which overflows.\<close>

function wrong_loop :: "int \<Rightarrow> int \<Rightarrow> int \<Rightarrow> (int \<Rightarrow> int \<Rightarrow> 's \<Rightarrow> 's result) \<Rightarrow> 's \<Rightarrow> (int \<times> 's) result" where
  "wrong_loop i k n body s =
     (if k < n then bindE (body i k s) (\<lambda>s'. if i + 1 < 2 ^ 31 then wrong_loop (i + 1) k n body s' else Inl Overflow)
      else Inr (i, s))"
  by pat_completeness auto
termination
  by (relation "measure (\<lambda>(i, k, n, body, s). nat (2 ^ 31 - i))") auto

declare wrong_loop.simps [simp del]

definition total_background :: "thermal \<Rightarrow> double" where
  "total_background tc = fold (\<lambda>es acc. fold (\<lambda>e acc. dadd acc e) es acc) (background_energy tc) dzero"

text \<open>The loops over the channels and ranks share \<open>i\<close> with the innermost loop.\<close>

fun rank_loop :: "thermal_config \<Rightarrow> (int \<Rightarrow> int \<Rightarrow> int \<Rightarrow> double \<Rightarrow> thermal \<Rightarrow> thermal result) \<Rightarrow> int list \<Rightarrow> int \<times> thermal
    \<Rightarrow> (int \<times> thermal) result" where
  "rank_loop c body [] st = Inr st"
| "rank_loop c body (j # js) (i, tc) =
     bindE (vget (background_energy tc) i) (\<lambda>es. bindE (vget es j) (\<lambda>e.
     let bg = ddiv e (d_of_int (dimX tc * dimY tc * numP tc));
         add = ddiv (ddiv bg (d_of_int 1000)) (d_of_int (devices_per_rank (tc_cfg c)))
     in bindE (wrong_loop i 0 (dimX tc * dimY tc * numP tc)
            (\<lambda>i' k. body i' k (i * ranks (tc_cfg c) + j) add) tc)
          (rank_loop c body js)))"

fun channel_loop :: "thermal_config \<Rightarrow> (int \<Rightarrow> int \<Rightarrow> int \<Rightarrow> double \<Rightarrow> thermal \<Rightarrow> thermal result) \<Rightarrow> nat \<Rightarrow> int \<times> thermal
    \<Rightarrow> thermal result" where
  "channel_loop c body 0 (i, tc) = Inr tc"
| "channel_loop c body (Suc fuel) (i, tc) =
     (if i < channels (tc_cfg c)
      then bindE (rank_loop c body (indices (ranks (tc_cfg c))) (i, tc)) (\<lambda>(i', tc').
           channel_loop c body fuel (i' + 1, tc'))
      else Inr tc)"

definition add_cur :: "int \<Rightarrow> int \<Rightarrow> int \<Rightarrow> double \<Rightarrow> thermal \<Rightarrow> thermal result" where
  "add_cur i k case_id add tc = bindE (map_add case_id k add (cur_Pmap tc)) (\<lambda>m. Inr (tc\<lparr>cur_Pmap := m\<rparr>))"

definition add_accu :: "int \<Rightarrow> int \<Rightarrow> int \<Rightarrow> double \<Rightarrow> thermal \<Rightarrow> thermal result" where
  "add_accu i k case_id add tc = bindE (map_add case_id i add (accu_Pmap tc)) (\<lambda>m. Inr (tc\<lparr>accu_Pmap := m\<rparr>))"

definition UpdateEpoch :: "thermal_config \<Rightarrow> u64 \<Rightarrow> thermal \<Rightarrow> thermal result" where
  "UpdateEpoch c clk tc =
     (if IsHBM (tc_cfg c) \<or> IsHMC (tc_cfg c) then
        let bg = ddiv (total_background tc) (d_of_int (dimX tc * dimY tc * (numP tc - 1)))
        in UpdatePowerMaps c (ddiv bg (d_of_int 1000)) True (of_c_int (epoch_period (tc_cfg c))) tc
      else channel_loop c add_cur (nat (channels (tc_cfg c))) (0, tc))"


section \<open>Temperatures\<close>

text \<open>\<open>powerM\<close>: the power of the cells, with a margin of zeros; \<open>clk = 0\<close> asks for the
  power of the present epoch, otherwise the average over the whole time.\<close>

definition InitPowerM :: "thermal_config \<Rightarrow> thermal \<Rightarrow> int \<Rightarrow> u64 \<Rightarrow> double vec3 result" where
  "InitPowerM c tc case_id clk =
     (let pdiv = (if clk = 0 then d_of_int (epoch_period (tc_cfg c)) else d_of_int (uint clk));
          power_map = (if clk = 0 then cur_Pmap tc else accu_Pmap tc);
          lo = num_dummy sdiv 2
      in mapE (\<lambda>i. mapE (\<lambda>j. mapE (\<lambda>l.
           if lo \<le> i \<and> i < dimX tc + lo \<and> lo \<le> j \<and> j < dimY tc + lo then
             bindE (vget power_map case_id) (\<lambda>m.
             bindE (vget m (l * (dimX tc * dimY tc) + (j - lo) * dimX tc + (i - lo))) (\<lambda>p. Inr (ddiv p pdiv)))
           else Inr dzero)
         (indices (numP tc))) (indices (dimY tc + num_dummy))) (indices (dimX tc + num_dummy)))"

definition GetTotalPower :: "thermal \<Rightarrow> double vec3 \<Rightarrow> double result" where
  "GetTotalPower tc powerM =
     foldE (\<lambda>i. foldE (\<lambda>j. foldE (\<lambda>l acc.
        bindE (vec3_get powerM (i + num_dummy sdiv 2) (j + num_dummy sdiv 2) l) (\<lambda>p. Inr (dadd acc p)))
        (indices (numP tc))) (indices (dimY tc))) (indices (dimX tc)) dzero"

definition power_epoch_time :: "thermal_config \<Rightarrow> double" where
  "power_epoch_time c = dmul (dmul (d_of_int (epoch_period (tc_cfg c))) (tCK (tc_pw c))) (dlit 1 (10 ^ 9))"

definition CalcTransT :: "thermal_config \<Rightarrow> int \<Rightarrow> thermal \<Rightarrow> thermal result" where
  "CalcTransT c case_id tc =
     bindE (InitPowerM c tc case_id 0) (\<lambda>powerM.
     bindE (GetTotalPower tc powerM) (\<lambda>totP.
     bindE (vget (T_trans tc) case_id) (\<lambda>T.
     bindE (transient_thermal_solver (solver_grid c tc) powerM (Midx tc) (MidxSize tc) (Cap tc)
              (power_epoch_time c) (time_iter tc) T (Tamb tc)) (\<lambda>T'.
     bindE (vset (T_trans tc) case_id T') (\<lambda>Ts. Inr (tc\<lparr>T_trans := Ts\<rparr>))))))"

definition CalcFinalT :: "superlu \<Rightarrow> thermal_config \<Rightarrow> int \<Rightarrow> u64 \<Rightarrow> thermal \<Rightarrow> thermal result" where
  "CalcFinalT slu c case_id clk tc =
     bindE (InitPowerM c tc case_id clk) (\<lambda>powerM.
     bindE (GetTotalPower tc powerM) (\<lambda>totP.
     bindE (steady_thermal_solver slu (solver_grid c tc) powerM (Midx tc) (MidxSize tc) (Tamb tc)) (\<lambda>T.
     bindE (vset (T_final tc) case_id T) (\<lambda>Ts. Inr (tc\<lparr>T_final := Ts\<rparr>)))))"

definition dmax_step :: "double \<Rightarrow> double \<Rightarrow> double" where
  "dmax_step t m = (if dless m t then t else m)"

definition GetMaxTofCase :: "thermal \<Rightarrow> double list list \<Rightarrow> int \<Rightarrow> double result" where
  "GetMaxTofCase tc temp_map case_id =
     bindE (vget temp_map case_id) (\<lambda>T.
     foldE (\<lambda>i m. bindE (vget T i) (\<lambda>t. Inr (dmax_step t m))) (indices (T_size tc)) dzero)"

text \<open>The nodes of a memory layer without the margin: \<open>maxT > t ? maxT : t\<close>.\<close>

definition inner :: "int \<Rightarrow> int list" where
  "inner n = map (\<lambda>k. k + num_dummy sdiv 2) (indices n)"

definition layer_temp :: "thermal \<Rightarrow> double list \<Rightarrow> int \<Rightarrow> int \<Rightarrow> int \<Rightarrow> double result" where
  "layer_temp tc T l j i =
     bindE (vget (layers_P tc) l) (\<lambda>lp.
     vget T ((lp + 1) * ((dimX tc + num_dummy) * (dimY tc + num_dummy)) + j * (dimX tc + num_dummy) + i))"

definition GetMaxTofCaseLayer :: "thermal \<Rightarrow> double list list \<Rightarrow> int \<Rightarrow> int \<Rightarrow> double result" where
  "GetMaxTofCaseLayer tc temp_map case_id layer =
     foldE (\<lambda>j. foldE (\<lambda>i m.
        bindE (vget temp_map case_id) (\<lambda>T. bindE (layer_temp tc T layer j i) (\<lambda>t0.
        let t = dsub t0 T0 in Inr (if dless t m then m else t))))
        (inner (dimX tc))) (inner (dimY tc)) dzero"

text \<open>The rows of the CSV files: case, x, y, layer, power and temperature; the temperatures of
  the transient solver are in Kelvin, those of the steady solver in degrees Celsius.\<close>

type_synonym csv_row = "int \<times> int \<times> int \<times> int \<times> double \<times> double"

definition csv_rows :: "bool \<Rightarrow> thermal \<Rightarrow> double list list \<Rightarrow> double list list \<Rightarrow> int \<Rightarrow> u64 \<Rightarrow> csv_row list result" where
  "csv_rows kelvin tc P T k scale =
     bindE (mapE (\<lambda>l. mapE (\<lambda>j. mapE (\<lambda>i.
        let x = i - num_dummy sdiv 2; y = j - num_dummy sdiv 2 in
        bindE (vget P k) (\<lambda>m. bindE (vget m (l * (dimX tc * dimY tc) + y * dimX tc + x)) (\<lambda>p.
        bindE (vget T k) (\<lambda>Tk. bindE (layer_temp tc Tk l j i) (\<lambda>t.
        Inr (k, x, y, l, ddiv p (d_of_int (uint scale)), if kelvin then dsub t T0 else t))))))
        (inner (dimX tc))) (inner (dimY tc))) (indices (numP tc)))
     (\<lambda>rows. Inr (concat (concat rows)))"

definition PrintCSV_trans :: "thermal \<Rightarrow> double list list \<Rightarrow> double list list \<Rightarrow> int \<Rightarrow> u64 \<Rightarrow> (csv_row \<times> int) list result" where
  "PrintCSV_trans tc P T k scale =
     bindE (csv_rows True tc P T k scale) (\<lambda>rows. Inr (map (\<lambda>r. (r, sample_id tc)) rows))"

definition PrintCSV_final :: "thermal \<Rightarrow> double list list \<Rightarrow> double list list \<Rightarrow> int \<Rightarrow> u64 \<Rightarrow> csv_row list result" where
  "PrintCSV_final tc P T k scale = csv_rows False tc P T k scale"

text \<open>The place of every bank: vault, bank, first and last x, first and last y, layer.\<close>

definition bank_row :: "thermal_config \<Rightarrow> 'a geometry_scheme \<Rightarrow> int \<Rightarrow> int \<Rightarrow> int
    \<Rightarrow> (int \<times> int \<times> int \<times> int \<times> int \<times> int \<times> int) result" where
  "bank_row c tc vault_id bg bank =
     (let th = tc_th c; abs_bank_id = bg * banks_per_group (tc_cfg c) + bank in
      bindE (MapToVault c tc vault_id) (\<lambda>(vx, vy).
      bindE (MapToZ c tc vault_id abs_bank_id) (\<lambda>z.
      bindE (MapToBank c tc bg bank) (\<lambda>(bx, by).
      let xo = bank_x tc * num_x_grids th; yo = bank_y tc * num_y_grids th
      in Inr (vault_id, abs_bank_id,
              vx * xo + bx * num_x_grids th, vx * xo + (bx + 1) * num_x_grids th - 1,
              vy * yo + by * num_y_grids th, vy * yo + (by + 1) * num_y_grids th - 1, z)))))"

definition PrintCSV_bank :: "thermal_config \<Rightarrow> 'a geometry_scheme
    \<Rightarrow> (int \<times> int \<times> int \<times> int \<times> int \<times> int \<times> int) list result" where
  "PrintCSV_bank c tc =
     bindE (mapE (\<lambda>vault_id. mapE (\<lambda>bg. mapE (bank_row c tc vault_id bg)
        (indices (banks_per_group (tc_cfg c)))) (indices (bankgroups (tc_cfg c)))) (indices (channels (tc_cfg c))))
     (\<lambda>rows. Inr (concat (concat rows)))"

section \<open>Epochs and the end\<close>

definition case_maxima :: "thermal \<Rightarrow> int \<Rightarrow> double \<Rightarrow> (int \<times> double \<times> double) list result" where
  "case_maxima tc ir ms =
     mapE (\<lambda>layer. bindE (GetMaxTofCaseLayer tc (T_trans tc) ir layer) (\<lambda>m. Inr (layer, m, ms)))
       (indices (numP tc))"

text \<open>The result: the rows of the file of maxima and of the temperature file.\<close>

definition PrintTransPT :: "thermal_config \<Rightarrow> u64 \<Rightarrow> thermal
    \<Rightarrow> (thermal \<times> (int \<times> double \<times> double) list \<times> (csv_row \<times> int) list) result" where
  "PrintTransPT c clk tc0 =
     (let ms = dmul (dmul (d_of_int (uint clk)) (tCK (tc_pw c))) (dlit 1 (10 ^ 6)) in
      bindE (UpdateEpoch c clk tc0) (\<lambda>tc1.
      bindE (foldE (\<lambda>ir (tc, maxima, rows).
        bindE (CalcTransT c ir tc) (\<lambda>tc'.
        bindE (case_maxima tc' ir ms) (\<lambda>ms'.
        bindE (if output_level (tc_cfg c) \<ge> 2
               then PrintCSV_trans tc' (cur_Pmap tc') (T_trans tc') ir (of_c_int (epoch_period (tc_cfg c)))
               else Inr []) (\<lambda>rs. Inr (tc', maxima @ ms', rows @ rs)))))
        (indices (num_case tc1)) (tc1, [], [])) (\<lambda>(tc2, maxima, rows).
      Inr (tc2\<lparr>cur_Pmap := map (map (\<lambda>_. dzero)) (cur_Pmap tc2), sample_id := sample_id tc2 + 1\<rparr>, maxima, rows))))"

definition PrintFinalPT :: "superlu \<Rightarrow> thermal_config \<Rightarrow> u64 \<Rightarrow> thermal \<Rightarrow> (thermal \<times> csv_row list) result" where
  "PrintFinalPT slu c clk tc0 =
     bindE (if IsHBM (tc_cfg c) \<or> IsHMC (tc_cfg c) then
              let bg = ddiv (total_background tc0) (d_of_int (dimX tc0 * dimY tc0 * (numP tc0 - 1)))
              in UpdatePowerMaps c (ddiv bg (d_of_int 1000)) False clk tc0
            else channel_loop c add_accu (nat (channels (tc_cfg c))) (0, tc0)) (\<lambda>tc1.
     foldE (\<lambda>ir (tc, rows).
        bindE (CalcFinalT slu c ir clk tc) (\<lambda>tc'.
        bindE (GetMaxTofCase tc' (T_final tc') ir) (\<lambda>maxT.
        bindE (PrintCSV_final tc' (accu_Pmap tc') (T_final tc') ir clk) (\<lambda>rs. Inr (tc', rows @ rs)))))
       (indices (num_case tc1)) (tc1, []))"

section \<open>Construction\<close>

text \<open>The largest time step for which no diagonal coefficient becomes negative, and the number of
  steps of an epoch: at least 10, more until the steps are shorter than that.\<close>

definition max_dt :: "thermal \<Rightarrow> double result" where
  "max_dt tc =
     (let layer_dim = (dimX tc + num_dummy) * (dimY tc + num_dummy) in
      foldE (\<lambda>j dt. bindE (vget (Midx tc) j) (\<lambda>e.
        bindE (to_int (dadd (e_row e) (dlit 1 100))) (\<lambda>idx0.
        bindE (to_int (dadd (e_col e) (dlit 1 100))) (\<lambda>idx1.
        bindE (idiv idx0 layer_dim) (\<lambda>idxC.
        if idx0 = idx1 then
          bindE (vget (Cap tc) idxC) (\<lambda>cp.
          Inr (if dless (ddiv cp (e_val e)) dt then ddiv cp (e_val e) else dt))
        else Inr dt))))) (indices (MidxSize tc)) (d_of_int 100))"

definition time_steps :: "double \<Rightarrow> double \<Rightarrow> int result" where
  "time_steps t dt =
     (case while_option (\<lambda>n. int_range n \<and> dle dt (ddiv t (d_of_int n))) (\<lambda>n. n + 1) 10 of
        None \<Rightarrow> Inl Endless
      | Some n \<Rightarrow> if int_range n then Inr n else Inl Overflow)"

definition calculate_time_step :: "thermal_config \<Rightarrow> thermal \<Rightarrow> thermal result" where
  "calculate_time_step c tc =
     bindE (max_dt tc) (\<lambda>dt. bindE (time_steps (power_epoch_time c) dt) (\<lambda>n. Inr (tc\<lparr>time_iter := n\<rparr>)))"

definition InitialParameters :: "thermal_config \<Rightarrow> thermal \<Rightarrow> thermal result" where
  "InitialParameters c tc =
     (let g = solver_grid c tc in
      bindE (calculate_Midx_array g) (\<lambda>(M, n).
      let tc1 = tc\<lparr>Midx := M, MidxSize := n,
            Cap := calculate_Cap_array (g_W g) (g_Lc g) (g_numP g) (g_dimX g) (g_dimZ g)\<rparr>
      in bindE (calculate_time_step c tc1) (\<lambda>tc2.
         Inr (tc2\<lparr>T_trans := map (\<lambda>_. initialize_Temperature (g_numP g) (g_dimX g) (g_dimZ g) (Tamb tc))
                (indices (num_case tc))\<rparr>))))"

definition ThermalCalculator :: "thermal_config \<Rightarrow> thermal result" where
  "ThermalCalculator c =
     (let cfg = tc_cfg c in
      bindE (init_geometry c) (\<lambda>geo.
      bindE (SetPhyAddressMapping c) (\<lambda>pm.
      let zero_map = replicate (nat (num_case geo)) (replicate (nat (numP geo * dimX geo * dimY geo)) dzero) in
      bindE (InitialParameters c (geometry.extend geo
        (thermal.fields (dadd (amb_temp (tc_th c)) T0) pm zero_map zero_map
          (replicate (nat (channels cfg * ranks cfg)) (replicate (nat (banks cfg)) 0))
          (replicate (nat (channels cfg)) (replicate (nat (ranks cfg)) dzero))
          dzero 0 10 (replicate (nat (num_case geo)) []) (replicate (nat (num_case geo)) []) [] 0 []))) (\<lambda>tc.
      bindE (if output_level cfg \<ge> 0 then PrintCSV_bank c tc else Inr []) (\<lambda>rows. Inr tc)))))"

end
