(* ===== verification/Thermal_Example.thy ===== *)
theory Thermal_Example
  imports Thermal Default_Config
begin

text \<open>
  Configurations to apply the theorems on the thermal calculator to: a stack with four memory
  dies (HBM), a memory cube with four vaults (HMC) and a plain memory of DDR4 x4 devices, with
  the energies of the default configuration file.
\<close>

definition ex_power_params :: power_params where
  "ex_power_params = InitPowerParams (\<lambda>_ _ d. d) ex_cfg"

definition ex_thermal_params :: thermal_params where
  "ex_thermal_params = \<lparr>loc_mapping = [], num_row_refresh = 8, amb_temp = dlit 40 1, const_logic_power = dlit 5 1,
     chip_dim_x = dlit 1 100, chip_dim_y = dlit 1 100, num_x_grids = 1, num_y_grids = 1, mat_dim_x = 65536,
     mat_dim_y = 8192, bank_order = 1, bank_layer_order = 0, row_tile = 1, tile_row_num = 65536, bank_asr = d_of_int 1\<rparr>"

definition ex_hbm :: thermal_config where
  "ex_hbm = \<lparr>tc_cfg = ex_cfg\<lparr>protocol := HBM, channels := 8, ranks := 1, banks := 16, bankgroups := 4,
      banks_per_group := 4, num_dies := 4, output_level := -1\<rparr>, tc_pw = ex_power_params, tc_th = ex_thermal_params\<rparr>"

definition ex_hmc :: thermal_config where
  "ex_hmc = \<lparr>tc_cfg = ex_cfg\<lparr>protocol := HMC, channels := 4, ranks := 1, banks := 8, num_dies := 4\<rparr>,
     tc_pw = ex_power_params, tc_th = ex_thermal_params\<lparr>bank_asr := d_of_int 2\<rparr>\<rparr>"

definition ex_ddr4 :: thermal_config where
  "ex_ddr4 = \<lparr>tc_cfg = ex_cfg\<lparr>protocol := DDR4, banks := 16, bankgroups := 4, banks_per_group := 4\<rparr>,
     tc_pw = ex_power_params, tc_th = ex_thermal_params\<lparr>bank_asr := d_of_int 16\<rparr>\<rparr>"

lemma ex_hbm_sel [simp]:
  "IsHBM (tc_cfg ex_hbm)" "\<not> IsHMC (tc_cfg ex_hbm)" "num_dies (tc_cfg ex_hbm) = 4" "output_level (tc_cfg ex_hbm) = -1"
  "tc_th ex_hbm = ex_thermal_params"
  by (simp_all add: ex_hbm_def IsHBM_def IsHMC_def ex_cfg_def)

definition ex_hbm_plan :: geometry where
  "ex_hbm_plan = \<lparr>numP = 5, dimX = 8, dimY = 4, vault_x = 1, vault_y = 2, bank_x = 8, bank_y = 2, num_case = 1\<rparr>"

lemma ex_hbm_geometry: "init_geometry ex_hbm = Inr ex_hbm_plan"
  by (simp add: init_geometry_def Let_def ex_thermal_params_def ex_hbm_plan_def)

lemma ex_hbm_mapping: "SetPhyAddressMapping ex_hbm = Inr None"
  by (simp add: SetPhyAddressMapping_def Let_def ex_thermal_params_def)

text \<open>A state of the calculator for a given plan: no energy, all nodes at the temperature of
  the ambience; the matrix is the one that the solver builds.\<close>

definition plan_state :: "thermal_config \<Rightarrow> geometry \<Rightarrow> thermal" where
  "plan_state c geo =
     (let g = solver_grid c geo; zero_map = replicate (nat (num_case geo)) (replicate (nat (numP geo * dimX geo * dimY geo)) dzero);
          (M, n) = (case calculate_Midx_array g of Inr r \<Rightarrow> r | Inl _ \<Rightarrow> ([], 0))
      in geometry.extend geo (thermal.fields (dlit 31315 100) None zero_map zero_map
          (replicate (nat (channels (tc_cfg c) * ranks (tc_cfg c))) (replicate (nat (banks (tc_cfg c))) 0))
          (replicate (nat (channels (tc_cfg c))) (replicate (nat (ranks (tc_cfg c))) dzero))
          dzero 0 10 (replicate (nat (num_case geo)) (initialize_Temperature (g_numP g) (g_dimX g) (g_dimZ g) (dlit 31315 100)))
          (replicate (nat (num_case geo)) []) M n
          (calculate_Cap_array (g_W g) (g_Lc g) (g_numP g) (g_dimX g) (g_dimZ g))))"

end
