(* ===== verification/Thermal_Matrix.thy ===== *)
theory Thermal_Matrix
  imports Thermal_Solver
begin

text \<open>
  Properties of the thermal solver: the conductance matrix is built without an access out of
  bounds and fills its array exactly; each row is sorted, holds its diagonal entry once, and
  the matrix is symmetric bit for bit, so that the compressed rows which the code hands over as
  compressed columns are the same matrix.
\<close>

section \<open>Resistances\<close>

text \<open>The grids: every node has at most seven entries in the matrix, whose number is an \<open>int\<close>.\<close>

definition grid_ok :: "grid \<Rightarrow> bool" where
  "grid_ok g \<longleftrightarrow> 1 \<le> g_numP g \<and> 1 \<le> g_dimX g \<and> 1 \<le> g_dimZ g \<and>
     7 * (g_dimX g * g_dimZ g * (numLayer g + 1)) < 2 ^ 31"

text \<open>A grid to apply the theorems to.\<close>

definition ex_grid :: grid where
  "ex_grid = \<lparr>g_numP = 1, g_dimX = 3, g_dimZ = 4, g_W = dlit 1 100, g_Lc = dlit 1 100\<rparr>"

lemma ex_grid_ok: "grid_ok ex_grid"
  by (simp add: grid_ok_def ex_grid_def numLayer_def)

abbreviation nodes_n :: "grid \<Rightarrow> int" where
  "nodes_n g \<equiv> g_dimX g * g_dimZ g * (numLayer g + 1)"

definition tier :: "int \<Rightarrow> int \<Rightarrow> int" where
  "tier P k = (if k = 3 * P - 2 then P - 1 else if k = 0 \<or> k = 3 * P - 1 then 0 else (k - 1) div 3 + 1)"

lemma mapTSV_ok: "1 \<le> P \<Longrightarrow> mapTSV P = Inr (map (tier P) (indices (P * 3)))"
  by (auto simp: mapTSV_def vset_def indices_def tier_def nth_list_update Let_def intro!: nth_equalityI split: if_splits)

lemma tier_bounds:
  assumes "1 \<le> P" and "0 \<le> k" and "k < 3 * P"
  shows "0 \<le> tier P k" and "tier P k \<le> P - 1"
proof -
  have "(k - 1) div 3 + 1 \<le> P - 1" if "k \<noteq> 3 * P - 1" "k \<noteq> 3 * P - 2" "k \<noteq> 0"
    using that assms by linarith
  then show "0 \<le> tier P k" "tier P k \<le> P - 1" using assms by (auto simp: tier_def)
qed

definition Rv :: "grid \<Rightarrow> int \<Rightarrow> double" where
  "Rv g k = (if k = 0 then Rsinky g else if tier (g_numP g) (k - 1) \<noteq> 0 then layer_R_vias g (k - 1) 0
     else layer_R g (k - 1))"

lemma vget_map_indices: "0 \<le> i \<Longrightarrow> i < n \<Longrightarrow> vget (map f (indices n)) i = Inr (f i)"
  by (simp add: vget_def indices_def)

lemma Rvert_of_ok:
  assumes "grid_ok g"
  shows "Rvert_of g = Inr (map (\<lambda>i. map (\<lambda>j. map (Rv g) (indices (numLayer g + 1)))
      (indices (g_dimZ g))) (indices (g_dimX g)))"
proof -
  have P: "1 \<le> g_numP g" using assms by (simp add: grid_ok_def)
  have "Rvert_at g (map (tier (g_numP g)) (indices (g_numP g * 3)))
      (vec3_replicate (g_dimX g) (g_dimZ g) (g_numP g - 1) 0) i j k = Inr (Rv g k)"
    if "0 \<le> i" "i < g_dimX g" "0 \<le> j" "j < g_dimZ g" "0 \<le> k" "k < numLayer g + 1" for i j k
  proof (cases "k = 0")
    case False
    then have k: "0 \<le> k - 1" "k - 1 < g_numP g * 3" using that by (auto simp: numLayer_def)
    then have t: "vget (map (tier (g_numP g)) (indices (g_numP g * 3))) (k - 1) = Inr (tier (g_numP g) (k - 1))"
      by (rule vget_map_indices)
    have "vec3_lookup (vec3_replicate (g_dimX g) (g_dimZ g) (g_numP g - 1) 0) (i, j, tier (g_numP g) (k - 1) - 1)
        = Some (0::int)" if "tier (g_numP g) (k - 1) \<noteq> 0"
      using that \<open>0 \<le> i\<close> \<open>i < g_dimX g\<close> \<open>0 \<le> j\<close> \<open>j < g_dimZ g\<close> tier_bounds [OF P, of "k - 1"] k
      by (simp add: vec3_lookup_replicate)
    then show ?thesis using False by (simp add: Rvert_at_def t Rv_def vec3_lookup_eq_Some)
  qed (simp add: Rvert_at_def Rv_def)
  then show ?thesis
    unfolding Rvert_of_def mapTSV_ok [OF P] Let_def bindE_simps
    by (intro mapE_ok) simp
qed

section \<open>The rows\<close>

definition vcond :: "grid \<Rightarrow> int \<Rightarrow> int \<Rightarrow> double" where
  "vcond g l l' = minus_inv (dadd (half (Rv g l)) (half (Rv g l')))"

lemma vcond_sym: "vcond g l l' = vcond g l' l"
  by (simp add: vcond_def dadd_comm)

definition xcond :: "grid \<Rightarrow> int \<Rightarrow> double" where "xcond g l = minus_inv (fst (Rhori g l))"
definition zcond :: "grid \<Rightarrow> int \<Rightarrow> double" where "zcond g l = minus_inv (snd (Rhori g l))"

text \<open>The neighbours of a node before and behind it, in ascending order of their numbers.\<close>

definition lower :: "grid \<Rightarrow> int \<Rightarrow> int \<Rightarrow> int \<Rightarrow> entry list" where
  "lower g l j i =
     (if l > 0 then [ent g (l, j, i) (l - 1, j, i) (vcond g l (l - 1))] else []) @
     (if j - 1 \<ge> 0 then [ent g (l, j, i) (l, j - 1, i) (zcond g l)] else []) @
     (if i - 1 \<ge> 0 then [ent g (l, j, i) (l, j, i - 1) (xcond g l)] else [])"

definition upper :: "grid \<Rightarrow> int \<Rightarrow> int \<Rightarrow> int \<Rightarrow> entry list" where
  "upper g l j i =
     (if i + 1 < g_dimX g then [ent g (l, j, i) (l, j, i + 1) (xcond g l)] else []) @
     (if j + 1 < g_dimZ g then [ent g (l, j, i) (l, j + 1, i) (zcond g l)] else []) @
     (if l < numLayer g then [ent g (l, j, i) (l + 1, j, i) (vcond g l (l + 1))] else [])"

definition in_grid :: "grid \<Rightarrow> int \<times> int \<times> int \<Rightarrow> bool" where
  "in_grid g = (\<lambda>(l, j, i). 0 \<le> l \<and> l \<le> numLayer g \<and> 0 \<le> j \<and> j < g_dimZ g \<and> 0 \<le> i \<and> i < g_dimX g)"

lemma offdiag_ok:
  assumes "0 \<le> l" and "l \<le> numLayer g"
  shows "offdiag g (map (Rv g) (indices (numLayer g + 1))) l j i = Inr (lower g l j i @ upper g l j i)"
  using assms by (simp add: offdiag_def vertical_def vget_map_indices lower_def upper_def horizontal_def
      Let_def vcond_def xcond_def zcond_def)

lemma node_bounds:
  assumes "grid_ok g" and "in_grid g (l, j, i)"
  shows "0 \<le> node g l j i" and "node g l j i < nodes_n g"
proof -
  let ?X = "g_dimX g" and ?Z = "g_dimZ g"
  have b: "0 \<le> l" "l \<le> numLayer g" "0 \<le> j" "j < ?Z" "0 \<le> i" "i < ?X" "1 \<le> ?X" "1 \<le> ?Z"
    using assms by (simp_all add: grid_ok_def in_grid_def)
  then show "0 \<le> node g l j i" by (simp add: node_def)
  have "j * ?X + i < (j + 1) * ?X" using b by (simp add: algebra_simps)
  also have "\<dots> \<le> ?Z * ?X" using b by (intro mult_right_mono) simp_all
  finally have "node g l j i < l * (?X * ?Z) + ?X * ?Z" by (simp add: node_def algebra_simps)
  also have "\<dots> = (?X * ?Z) * (l + 1)" by (simp add: algebra_simps)
  also have "\<dots> \<le> nodes_n g" using b by (intro mult_left_mono) simp_all
  finally show "node g l j i < nodes_n g" .
qed

lemma node_small: "grid_ok g \<Longrightarrow> in_grid g (l, j, i) \<Longrightarrow> \<bar>node g l j i\<bar> < 2 ^ 31"
  using node_bounds [of g l j i] by (simp add: grid_ok_def)

lemma node_steps:
  "node g (l - 1) j i = node g l j i - g_dimX g * g_dimZ g" "node g (l + 1) j i = node g l j i + g_dimX g * g_dimZ g"
  "node g l (j - 1) i = node g l j i - g_dimX g" "node g l (j + 1) i = node g l j i + g_dimX g"
  "node g l j (i - 1) = node g l j i - 1" "node g l j (i + 1) = node g l j i + 1"
  by (simp_all add: node_def algebra_simps)


text \<open>A row is its lower neighbours, the diagonal entry and its upper neighbours: moving the
  diagonal entry down stops behind the lower neighbours.\<close>

lemma sink_down_stop:
  "(\<And>y. y \<in> set us \<Longrightarrow> dless (e_col x) (e_col y)) \<Longrightarrow> (\<And>y. y \<in> set ls \<Longrightarrow> \<not> dless (e_col x) (e_col y)) \<Longrightarrow>
   sink_down x (us @ ls) = us @ x # ls"
proof (induction us)
  case Nil
  then show ?case by (cases ls) auto
qed simp

lemma e_ent [simp]:
  "e_row (ent g (l, j, i) q v) = d_of_int (node g l j i)"
  "e_col (ent g p (l, j, i) v) = d_of_int (node g l j i)"
  "e_val (ent g p q v) = v"
  by (simp_all add: ent_def e_row_def e_col_def e_val_def split: prod.splits)

lemma e_diag [simp]:
  "e_row (diag g off l j i) = d_of_int (node g l j i)" "e_col (diag g off l j i) = d_of_int (node g l j i)"
  by (simp_all add: diag_def Let_def e_row_def e_col_def)

text \<open>The neighbours of a node: the places one step away.\<close>

definition below_of :: "grid \<Rightarrow> int \<times> int \<times> int \<Rightarrow> (int \<times> int \<times> int) list" where
  "below_of g = (\<lambda>(l, j, i). filter (in_grid g) [(l - 1, j, i), (l, j - 1, i), (l, j, i - 1)])"

definition above_of :: "grid \<Rightarrow> int \<times> int \<times> int \<Rightarrow> (int \<times> int \<times> int) list" where
  "above_of g = (\<lambda>(l, j, i). filter (in_grid g) [(l, j, i + 1), (l, j + 1, i), (l + 1, j, i)])"

definition cond :: "grid \<Rightarrow> int \<times> int \<times> int \<Rightarrow> int \<times> int \<times> int \<Rightarrow> double" where
  "cond g = (\<lambda>(l, j, i) (l', j', i'). if l \<noteq> l' then vcond g l l' else if j \<noteq> j' then zcond g l else xcond g l)"

definition number :: "grid \<Rightarrow> int \<times> int \<times> int \<Rightarrow> int" where
  "number g = (\<lambda>(l, j, i). node g l j i)"

lemma in_grid_steps:
  assumes "in_grid g (l, j, i)"
  shows "in_grid g (l - 1, j, i) \<longleftrightarrow> 0 < l" "in_grid g (l, j - 1, i) \<longleftrightarrow> 0 \<le> j - 1"
    "in_grid g (l, j, i - 1) \<longleftrightarrow> 0 \<le> i - 1" "in_grid g (l, j, i + 1) \<longleftrightarrow> i + 1 < g_dimX g"
    "in_grid g (l, j + 1, i) \<longleftrightarrow> j + 1 < g_dimZ g" "in_grid g (l + 1, j, i) \<longleftrightarrow> l < numLayer g"
  using assms by (auto simp: in_grid_def)

lemma lower_eq: "in_grid g (l, j, i) \<Longrightarrow>
    lower g l j i = map (\<lambda>q. ent g (l, j, i) q (cond g (l, j, i) q)) (below_of g (l, j, i))"
  by (simp add: lower_def below_of_def in_grid_steps cond_def)

lemma upper_eq: "in_grid g (l, j, i) \<Longrightarrow>
    upper g l j i = map (\<lambda>q. ent g (l, j, i) q (cond g (l, j, i) q)) (above_of g (l, j, i))"
  by (simp add: upper_def above_of_def in_grid_steps cond_def)

lemma e_ent_number [simp]:
  "e_row (ent g p q v) = d_of_int (number g p)" "e_col (ent g p q v) = d_of_int (number g q)"
  by (simp_all add: number_def ent_def e_row_def e_col_def split: prod.splits)

lemma in_below: "q \<in> set (below_of g (l, j, i)) \<longleftrightarrow>
    in_grid g q \<and> (q = (l - 1, j, i) \<or> q = (l, j - 1, i) \<or> q = (l, j, i - 1))"
  by (auto simp: below_of_def simp del: filter.simps)

lemma in_above: "q \<in> set (above_of g (l, j, i)) \<longleftrightarrow>
    in_grid g q \<and> (q = (l + 1, j, i) \<or> q = (l, j + 1, i) \<or> q = (l, j, i + 1))"
  by (auto simp: above_of_def simp del: filter.simps)

lemma below_above: "in_grid g p \<Longrightarrow> q \<in> set (below_of g p) \<Longrightarrow> p \<in> set (above_of g q)"
  by (cases p; cases q) (auto simp: in_below in_above)

lemma above_below: "in_grid g p \<Longrightarrow> q \<in> set (above_of g p) \<Longrightarrow> p \<in> set (below_of g q)"
  by (cases p; cases q) (auto simp: in_below in_above)

lemma neighbour_grid: "q \<in> set (below_of g p) \<or> q \<in> set (above_of g p) \<Longrightarrow> in_grid g q"
  by (cases p) (auto simp: in_below in_above)

lemma cond_sym: "q \<in> set (below_of g p) \<Longrightarrow> cond g p q = cond g q p"
  by (cases p; cases q) (auto simp: in_below cond_def vcond_sym)

text \<open>The numbers of a row's columns ascend.\<close>

lemma strides:
  assumes "grid_ok g"
  shows "1 \<le> g_dimX g * g_dimZ g" and "2 \<le> g_dimZ g \<Longrightarrow> g_dimX g < g_dimX g * g_dimZ g"
    and "2 \<le> g_dimX g \<Longrightarrow> 1 < g_dimX g * g_dimZ g" and "1 \<le> g_dimX g"
proof -
  have b: "1 \<le> g_dimX g" "1 \<le> g_dimZ g" using assms by (simp_all add: grid_ok_def)
  then show "1 \<le> g_dimX g" by simp
  show "1 \<le> g_dimX g * g_dimZ g" using b mult_mono [of 1 "g_dimX g" 1 "g_dimZ g"] by simp
  show "g_dimX g < g_dimX g * g_dimZ g" if "2 \<le> g_dimZ g"
    using b mult_left_mono [OF that, of "g_dimX g"] by simp
  show "1 < g_dimX g * g_dimZ g" if "2 \<le> g_dimX g"
    using b mult_mono [OF that b(2)] by simp
qed

lemma below_sorted:
  assumes "grid_ok g" and "in_grid g p"
  shows "sorted_wrt (<) (map (number g) (below_of g p))"
    and "\<forall>q \<in> set (below_of g p). number g q < number g p"
  using assms(2) strides [OF assms(1)]
  by (cases p; simp add: below_of_def in_grid_def number_def node_steps)+

lemma above_sorted:
  assumes "grid_ok g" and "in_grid g p"
  shows "sorted_wrt (<) (map (number g) (above_of g p))"
    and "\<forall>q \<in> set (above_of g p). number g p < number g q"
  using assms(2) strides [OF assms(1)]
  by (cases p; simp add: above_of_def in_grid_def number_def node_steps)+

lemma number_small: "grid_ok g \<Longrightarrow> in_grid g p \<Longrightarrow> 0 \<le> number g p \<and> number g p < nodes_n g \<and> \<bar>number g p\<bar> < 2 ^ 53"
  using node_bounds [of g] node_small [of g] by (cases p) (fastforce simp: number_def)

lemma dless_number:
  "grid_ok g \<Longrightarrow> in_grid g p \<Longrightarrow> in_grid g q \<Longrightarrow>
   dless (d_of_int (number g p)) (d_of_int (number g q)) \<longleftrightarrow> number g p < number g q"
  using number_small [of g p] number_small [of g q] by (intro dless_of_int) auto

text \<open>The pure form of a row.\<close>

definition nbr :: "grid \<Rightarrow> int \<times> int \<times> int \<Rightarrow> int \<times> int \<times> int \<Rightarrow> entry" where
  "nbr g p q = ent g p q (cond g p q)"

definition self :: "grid \<Rightarrow> int \<times> int \<times> int \<Rightarrow> entry" where
  "self g = (\<lambda>(l, j, i). diag g (map (nbr g (l, j, i)) (below_of g (l, j, i) @ above_of g (l, j, i))) l j i)"

definition row_of :: "grid \<Rightarrow> int \<times> int \<times> int \<Rightarrow> entry list" where
  "row_of g p = map (nbr g p) (below_of g p) @ self g p # map (nbr g p) (above_of g p)"

lemma e_self [simp]:
  "e_row (self g p) = d_of_int (number g p)" "e_col (self g p) = d_of_int (number g p)"
  by (simp_all add: self_def number_def split: prod.splits)

lemma e_nbr [simp]:
  "e_row (nbr g p q) = d_of_int (number g p)" "e_col (nbr g p q) = d_of_int (number g q)"
  "e_val (nbr g p q) = cond g p q"
  by (simp_all add: nbr_def)

lemma midx_row_ok:
  assumes "grid_ok g" and "in_grid g (l, j, i)" and "Rvert_of g = Inr rvert"
  shows "midx_row g rvert l j i = Inr (row_of g (l, j, i))"
proof -
  let ?p = "(l, j, i)"
  have b: "0 \<le> l" "l \<le> numLayer g" "0 \<le> j" "j < g_dimZ g" "0 \<le> i" "i < g_dimX g"
    using assms(2) by (simp_all add: in_grid_def)
  have rv: "rvert = map (\<lambda>i. map (\<lambda>j. map (Rv g) (indices (numLayer g + 1))) (indices (g_dimZ g))) (indices (g_dimX g))"
    using assms(3) Rvert_of_ok [OF assms(1)] by simp
  have off: "lower g l j i = map (nbr g ?p) (below_of g ?p)" "upper g l j i = map (nbr g ?p) (above_of g ?p)"
    using assms(2) by (simp_all add: lower_eq upper_eq nbr_def)
  have "sink_down (self g ?p) (rev (map (nbr g ?p) (above_of g ?p)) @ rev (map (nbr g ?p) (below_of g ?p)))
      = rev (map (nbr g ?p) (above_of g ?p)) @ self g ?p # rev (map (nbr g ?p) (below_of g ?p))"
  proof (rule sink_down_stop)
    fix y assume "y \<in> set (rev (map (nbr g ?p) (above_of g ?p)))"
    then obtain q where q: "y = nbr g ?p q" "q \<in> set (above_of g ?p)" by auto
    then have "in_grid g q" using neighbour_grid by blast
    then show "dless (e_col (self g ?p)) (e_col y)"
      using q above_sorted(2) [OF assms(1,2)] by (simp add: dless_number assms)
  next
    fix y assume "y \<in> set (rev (map (nbr g ?p) (below_of g ?p)))"
    then obtain q where q: "y = nbr g ?p q" "q \<in> set (below_of g ?p)" by auto
    then have "in_grid g q" using neighbour_grid by blast
    then show "\<not> dless (e_col (self g ?p)) (e_col y)"
      using q below_sorted(2) [OF assms(1,2)] by (auto simp: dless_number assms)
  qed
  then show ?thesis
    using b by (simp add: midx_row_def rv vget_map_indices offdiag_ok off row_of_def rev_map [symmetric])
      (simp add: self_def rev_map)
qed


section \<open>The array is filled exactly\<close>

lemma foldE_put:
  "0 \<le> idx \<Longrightarrow> nat idx + length xs \<le> length arr \<Longrightarrow> foldE put_entry xs (arr, idx) =
     Inr (take (nat idx) arr @ xs @ drop (nat idx + length xs) arr, idx + int (length xs))"
proof (induction xs arbitrary: arr idx)
  case (Cons x xs)
  have "take (nat (idx + 1)) (arr[nat idx := x]) = take (nat idx) arr @ [x]"
    using Cons.prems by (simp add: nat_add_distrib take_Suc_conv_app_nth)
  moreover have "drop (nat (idx + 1) + length xs) (arr[nat idx := x]) = drop (nat idx + length (x # xs)) arr"
    using Cons.prems by (simp add: nat_add_distrib)
  ultimately show ?case
    using Cons.prems Cons.IH [of "idx + 1" "arr[nat idx := x]"] by (simp add: put_entry_def vset_def nat_add_distrib)
qed simp

lemma foldE_rows:
  "(\<And>p. p \<in> set ps \<Longrightarrow> f p = Inr (r p)) \<Longrightarrow>
   foldE (\<lambda>p st. bindE (f p) (\<lambda>row. foldE put_entry row st)) ps st = foldE put_entry (concat (map r ps)) st"
  by (induction ps arbitrary: st) (auto simp: foldE_append bindE_def split: sum.splits)

lemma set_midx_nodes: "set (midx_nodes g) = {p. in_grid g p}"
  by (force simp: midx_nodes_def in_grid_def image_iff)

lemma length_row: "in_grid g (l, j, i) \<Longrightarrow> int (length (row_of g (l, j, i))) = count_at g l i j + 1"
  by (simp add: row_of_def below_of_def above_of_def count_at_def in_grid_steps)

lemma sum_list_indices: "sum_list (map f (indices n)) = (\<Sum>i = 0..<n. f i :: int)"
  by (simp add: sum_list_distinct_conv_sum_set)

lemma int_length_concat: "int (length (concat (map r ps))) = sum_list (map (\<lambda>p. int (length (r p))) ps)"
  by (induction ps) auto

lemma sum_list_concat_map: "sum_list (map f (concat (map g xs))) = sum_list (map (\<lambda>x. sum_list (map f (g x)) :: int) xs)"
  by (induction xs) auto

lemma length_rows:
  assumes "grid_ok g"
  shows "int (length (concat (map (row_of g) (midx_nodes g)))) = midx_count g"
proof -
  let ?L = "{0..<numLayer g + 1}" and ?J = "{0..<g_dimZ g}" and ?I = "{0..<g_dimX g}"
  have dims: "0 \<le> g_dimX g" "0 \<le> g_dimZ g" "0 \<le> numLayer g" using assms by (auto simp: grid_ok_def numLayer_def)
  have "int (length (concat (map (row_of g) (midx_nodes g))))
      = (\<Sum>l\<in>?L. \<Sum>j\<in>?J. \<Sum>i\<in>?I. int (length (row_of g (l, j, i))))"
    by (simp add: int_length_concat midx_nodes_def sum_list_concat_map sum_list_indices comp_def)
  also have "\<dots> = (\<Sum>l\<in>?L. \<Sum>j\<in>?J. \<Sum>i\<in>?I. count_at g l i j + 1)"
    by (intro sum.cong refl) (simp add: length_row in_grid_def)
  also have "\<dots> = (\<Sum>l\<in>?L. \<Sum>i\<in>?I. \<Sum>j\<in>?J. count_at g l i j) + (\<Sum>l\<in>?L. \<Sum>i\<in>?I. \<Sum>j\<in>?J. 1)"
    by (subst sum.swap) (simp add: sum.distrib)
  also have "(\<Sum>l\<in>?L. \<Sum>i\<in>?I. \<Sum>j\<in>?J. 1) = nodes_n g" using dims by simp
  finally show ?thesis by (simp add: midx_count_def sum_list_indices)
qed

lemma midx_count_small:
  assumes "grid_ok g"
  shows "midx_count g < 2 ^ 31"
proof -
  let ?L = "{0..<numLayer g + 1}" and ?J = "{0..<g_dimZ g}" and ?I = "{0..<g_dimX g}"
  have dims: "0 \<le> g_dimX g" "0 \<le> g_dimZ g" "0 \<le> numLayer g" using assms by (auto simp: grid_ok_def numLayer_def)
  have "(\<Sum>l\<in>?L. \<Sum>i\<in>?I. \<Sum>j\<in>?J. count_at g l i j) \<le> (\<Sum>l\<in>?L. \<Sum>i\<in>?I. \<Sum>j\<in>?J. 6)"
    by (intro sum_mono) (simp add: count_at_def)
  also have "\<dots> = 6 * nodes_n g" using dims by simp
  finally show ?thesis using assms by (simp add: midx_count_def sum_list_indices grid_ok_def)
qed

lemma Midx_ok:
  assumes "grid_ok g"
  shows "calculate_Midx_array g = Inr (concat (map (row_of g) (midx_nodes g)), midx_count g)"
proof -
  obtain rvert where rv: "Rvert_of g = Inr rvert" using Rvert_of_ok [OF assms] by blast
  have rows: "(\<lambda>(l, j, i). midx_row g rvert l j i) p = Inr (row_of g p)" if "p \<in> set (midx_nodes g)" for p
  proof -
    obtain l j i where "p = (l, j, i)" by (metis prod.exhaust)
    with that show ?thesis using midx_row_ok [OF assms _ rv] by (simp add: set_midx_nodes)
  qed
  let ?arr = "replicate (nat (midx_count g)) (dzero, dzero, dzero)" and ?xs = "concat (map (row_of g) (midx_nodes g))"
  have len: "length ?xs = nat (midx_count g)" using length_rows [OF assms] by simp
  have "foldE (\<lambda>(l, j, i) st. bindE (midx_row g rvert l j i) (\<lambda>row. foldE put_entry row st)) (midx_nodes g) (?arr, 0)
      = foldE (\<lambda>p st. bindE ((\<lambda>(l, j, i). midx_row g rvert l j i) p) (\<lambda>row. foldE put_entry row st)) (midx_nodes g) (?arr, 0)"
    by (simp add: case_prod_unfold)
  also have "\<dots> = foldE put_entry ?xs (?arr, 0)" by (rule foldE_rows) (rule rows)
  also have "\<dots> = Inr (?xs, int (length ?xs))" using foldE_put [of 0 ?xs ?arr] len by simp
  finally show ?thesis using midx_count_small [OF assms] by (simp add: calculate_Midx_array_def rv not_le)
qed


section \<open>The compressed matrix\<close>

text \<open>The nodes are visited in the order of their numbers.\<close>

lemma indices_Suc: "indices (int (Suc n)) = indices (int n) @ [int n]"
  by (simp add: indices_def del: of_nat_Suc)

lemma indices_product:
  assumes "0 \<le> X" and "0 \<le> Z"
  shows "concat (map (\<lambda>j. map (\<lambda>i. a + j * X + i) (indices X)) (indices Z)) = map (\<lambda>k. a + k) (indices (Z * X))"
proof -
  have "concat (map (\<lambda>j. map (\<lambda>i. a + j * int x + i) (indices (int x))) (indices (int n)))
      = map (\<lambda>k. a + k) (indices (int n * int x))" for n x
  proof (induction n)
    case (Suc n)
    have "[0..<Suc n * x] = [0..<n * x] @ map (\<lambda>i. n * x + i) [0..<x]"
      using upt_add_eq_append [of 0 "n * x" x] map_add_upt [of "n * x" x] by (simp add: add.commute)
    then have "indices (int (Suc n * x)) = indices (int (n * x)) @ map (\<lambda>i. int (n * x) + i) (indices (int x))"
      by (simp add: indices_def del: of_nat_Suc of_nat_mult mult_Suc)
    then have "indices (int (Suc n) * int x) = indices (int n * int x) @ map (\<lambda>i. int n * int x + i) (indices (int x))"
      by (simp only: of_nat_mult)
    then show ?case using Suc by (simp add: indices_Suc add.assoc del: of_nat_Suc)
  qed (simp add: indices_def)
  from this [of "nat X" "nat Z"] assms show ?thesis by simp
qed

lemma midx_nodes_numbers:
  assumes "grid_ok g"
  shows "map (number g) (midx_nodes g) = indices (nodes_n g)"
proof -
  let ?X = "g_dimX g" and ?Z = "g_dimZ g"
  have dims: "0 \<le> ?X" "0 \<le> ?Z" "0 \<le> numLayer g + 1" using assms by (auto simp: grid_ok_def numLayer_def)
  have "map (number g) (midx_nodes g) = concat (map (\<lambda>l. concat (map (\<lambda>j.
      map (\<lambda>i. l * (?Z * ?X) + j * ?X + i) (indices ?X)) (indices ?Z))) (indices (numLayer g + 1)))"
    by (simp add: midx_nodes_def map_concat comp_def number_def node_def ac_simps)
  also have "\<dots> = concat (map (\<lambda>l. map (\<lambda>k. 0 + l * (?Z * ?X) + k) (indices (?Z * ?X))) (indices (numLayer g + 1)))"
    by (simp add: indices_product dims)
  also have "\<dots> = indices ((numLayer g + 1) * (?Z * ?X))"
    by (subst indices_product) (simp_all add: dims map_idI)
  finally show ?thesis by (simp add: ac_simps)
qed

text \<open>Reading the conductances by index is reading them in order.\<close>

lemma foldE_vget:
  "foldE (\<lambda>i s. bindE (vget (zs @ ys) i) (\<lambda>x. F i x s)) (map int [length zs..<length zs + length ys]) s =
   foldE (\<lambda>(n, x). F (int n) x) (enumerate (length zs) ys) s"
proof (induction ys arbitrary: zs s)
  case (Cons y ys)
  have v: "vget (zs @ y # ys) (int (length zs)) = Inr y" by (simp add: vget_def)
  have "map int [length zs..<length zs + length (y # ys)]
      = int (length zs) # map int [length (zs @ [y])..<length (zs @ [y]) + length ys]"
    by (simp add: upt_conv_Cons del: upt_Suc)
  then show ?case
    using Cons.IH [of "zs @ [y]"] by (cases "F (int (length zs)) y s") (simp_all add: v del: upt_Suc)
qed simp

definition cstep :: "nat \<times> entry \<Rightarrow> int \<times> comp_matrix \<Rightarrow> (int \<times> comp_matrix) result" where
  "cstep = (\<lambda>(i, e) (row, m).
     bindE (if dless (d_of_int row) (e_row e)
            then bindE (to_int (e_row e)) (\<lambda>r. bindE (vset (cm_xa m) r (Some (int i))) (\<lambda>xa.
                 Inr (r, m\<lparr>cm_xa := xa\<rparr>)))
            else Inr (row, m)) (\<lambda>(row', m').
     bindE (to_int (e_col e)) (\<lambda>c.
     Inr (row', m'\<lparr>cm_a := cm_a m' @ [e_val e], cm_asub := cm_asub m' @ [c]\<rparr>))))"

lemma foldE_compress: "foldE (compress_step M) (indices (int (length M))) s = foldE cstep (enumerate 0 M) s"
proof -
  have "compress_step M = (\<lambda>i s. bindE (vget M i) (\<lambda>e. (case s of (row, m) \<Rightarrow>
     bindE (if dless (d_of_int row) (e_row e)
            then bindE (to_int (e_row e)) (\<lambda>r. bindE (vset (cm_xa m) r (Some i)) (\<lambda>xa.
                 Inr (r, m\<lparr>cm_xa := xa\<rparr>)))
            else Inr (row, m)) (\<lambda>(row', m').
     bindE (to_int (e_col e)) (\<lambda>c.
     Inr (row', m'\<lparr>cm_a := cm_a m' @ [e_val e], cm_asub := cm_asub m' @ [c]\<rparr>))))))"
    by (auto simp: compress_step_def fun_eq_iff)
  then show ?thesis
    using foldE_vget [of "[]" M] by (simp add: indices_def cstep_def case_prod_unfold)
qed

lemma to_int_of_int: "0 \<le> n \<Longrightarrow> n < 2 ^ 31 \<Longrightarrow> to_int (d_of_int n) = Inr n"
  by (simp add: to_int_def dtrunc_of_int)

definition row_ok :: "int \<Rightarrow> entry list \<Rightarrow> bool" where
  "row_ok k R \<longleftrightarrow> R \<noteq> [] \<and>
     (\<forall>e \<in> set R. e_row e = d_of_int k \<and> (\<exists>c. e_col e = d_of_int c \<and> 0 \<le> c \<and> c < 2 ^ 31))"

definition col_of :: "entry \<Rightarrow> int" where
  "col_of e = (case dtrunc (e_col e) of Some c \<Rightarrow> c | None \<Rightarrow> 0)"

lemma foldE_cstep_row:
  assumes "\<forall>e \<in> set R. e_row e = d_of_int k \<and> (\<exists>c. e_col e = d_of_int c \<and> 0 \<le> c \<and> c < 2 ^ 31)"
  shows "foldE cstep (enumerate s R) (k, m) =
     Inr (k, m\<lparr>cm_a := cm_a m @ map e_val R, cm_asub := cm_asub m @ map col_of R\<rparr>)"
  using assms
proof (induction R arbitrary: s m)
  case (Cons e R)
  then obtain c where "e_col e = d_of_int c" "0 \<le> c" "c < 2 ^ 31" "e_row e = d_of_int k" by auto
  then show ?case using Cons by (simp add: cstep_def to_int_of_int col_of_def dtrunc_of_int)
qed simp

lemma foldE_cstep_new_row:
  assumes "row_ok k R" and "0 \<le> k" and "k < 2 ^ 31" and "k < int (length (cm_xa m))"
  shows "foldE cstep (enumerate s R) (k - 1, m) =
     Inr (k, m\<lparr>cm_xa := (cm_xa m)[nat k := Some (int s)],
       cm_a := cm_a m @ map e_val R, cm_asub := cm_asub m @ map col_of R\<rparr>)"
proof (cases R)
  case (Cons e R')
  with assms(1) obtain c where e: "e_col e = d_of_int c" "0 \<le> c" "c < 2 ^ 31" "e_row e = d_of_int k"
    by (auto simp: row_ok_def)
  moreover have "dless (d_of_int (k - 1)) (d_of_int k)" using assms by (simp add: dless_of_int)
  ultimately show ?thesis
    using assms Cons foldE_cstep_row [of R' k "Suc s"]
    by (simp add: row_ok_def cstep_def to_int_of_int col_of_def dtrunc_of_int vset_def)
qed (use assms in \<open>simp add: row_ok_def\<close>)


definition starts :: "'a list list \<Rightarrow> int option list" where
  "starts Rs = map (\<lambda>k. Some (int (length (concat (take k Rs))))) [0..<length Rs]"

lemma length_starts [simp]: "length (starts Rs) = length Rs"
  by (simp add: starts_def)

lemma starts_snoc: "starts (Rs @ [R]) = starts Rs @ [Some (int (length (concat Rs)))]"
  by (simp add: starts_def)

lemma foldE_cstep_rows:
  assumes "\<And>k. k < length Rs \<Longrightarrow> row_ok (int k) (Rs ! k)" and "length Rs \<le> N" and "int N < 2 ^ 31"
  shows "foldE cstep (enumerate 0 (concat Rs))
      (-1, \<lparr>cm_n = n, cm_nnz = z, cm_a = [], cm_asub = [], cm_xa = replicate (Suc N) None\<rparr>) =
    Inr (int (length Rs) - 1, \<lparr>cm_n = n, cm_nnz = z, cm_a = map e_val (concat Rs), cm_asub = map col_of (concat Rs),
      cm_xa = starts Rs @ replicate (Suc N - length Rs) None\<rparr>)"
  using assms(1,2)
proof (induction Rs rule: rev_induct)
  case Nil
  show ?case by (simp add: starts_def)
next
  case (snoc R Rs)
  have "row_ok (int (length Rs)) R" using snoc.prems(1) [of "length Rs"] by simp
  moreover have "row_ok (int k) (Rs ! k)" if "k < length Rs" for k
    using snoc.prems(1) [of k] that by (simp add: nth_append)
  moreover have "replicate (Suc N - length Rs) (None :: int option) = None # replicate (Suc N - length (Rs @ [R])) None"
    using snoc.prems(2) by (simp add: Suc_diff_le flip: replicate_Suc)
  moreover define m where "m = \<lparr>cm_n = n, cm_nnz = z, cm_a = map e_val (concat Rs), cm_asub = map col_of (concat Rs),
      cm_xa = starts Rs @ replicate (Suc N - length Rs) None\<rparr>"
  ultimately have "foldE cstep (enumerate (length (concat Rs)) R) (int (length Rs) - 1, m) =
      Inr (int (length Rs), m\<lparr>cm_xa := (cm_xa m)[length Rs := Some (int (length (concat Rs)))],
       cm_a := cm_a m @ map e_val R, cm_asub := cm_asub m @ map col_of R\<rparr>)"
      and "foldE cstep (enumerate 0 (concat Rs)) (-1, \<lparr>cm_n = n, cm_nnz = z, cm_a = [], cm_asub = [],
        cm_xa = replicate (Suc N) None\<rparr>) = Inr (int (length Rs) - 1, m)"
      and "(cm_xa m)[length Rs := Some (int (length (concat Rs)))]
        = starts Rs @ Some (int (length (concat Rs))) # replicate (Suc N - length (Rs @ [R])) None"
    using foldE_cstep_new_row [of "int (length Rs)" R m "length (concat Rs)"] snoc.IH snoc.prems(2) assms(3)
    by (simp_all add: list_update_append del: length_concat)
  then show ?case by (simp add: enumerate_append_eq foldE_append starts_snoc m_def del: length_concat)
qed

lemma compress_rows:
  assumes "\<And>k. k < length Rs \<Longrightarrow> row_ok (int k) (Rs ! k)" and "int (length Rs) < 2 ^ 31"
  shows "compress (int (length Rs)) (concat Rs) (int (length (concat Rs))) =
    Inr \<lparr>cm_n = int (length Rs), cm_nnz = int (length (concat Rs)), cm_a = map e_val (concat Rs),
      cm_asub = map col_of (concat Rs), cm_xa = starts Rs @ [Some (int (length (concat Rs)))]\<rparr>"
  using foldE_cstep_rows [OF assms(1) order.refl assms(2)]
  by (simp add: compress_def foldE_compress nat_add_distrib vset_def list_update_append del: length_concat)

text \<open>The entries of a matrix in compressed columns: row, column and value.\<close>

definition csc_entries :: "comp_matrix \<Rightarrow> (int \<times> int \<times> double) set" where
  "csc_entries m = {(cm_asub m ! b, int k, cm_a m ! b) | k b s e. Suc k < length (cm_xa m) \<and>
     cm_xa m ! k = Some s \<and> cm_xa m ! Suc k = Some e \<and> s \<le> int b \<and> int b < e}"

lemma concat_split: "k < length Rs \<Longrightarrow> concat Rs = concat (take k Rs) @ Rs ! k @ concat (drop (Suc k) Rs)"
  by (metis append_take_drop_id concat.simps(2) concat_append Cons_nth_drop_Suc)

lemma starts_nth:
  assumes "k \<le> length Rs"
  shows "(starts Rs @ [Some (int (length (concat Rs)))]) ! k = Some (int (length (concat (take k Rs))))"
  using assms by (cases "k = length Rs") (auto simp: starts_def nth_append)

lemma csc_entries_rows:
  "csc_entries \<lparr>cm_n = n, cm_nnz = z, cm_a = map e_val (concat Rs), cm_asub = map col_of (concat Rs),
      cm_xa = starts Rs @ [Some (int (length (concat Rs)))]\<rparr> =
   {(col_of e, int k, e_val e) | k e. k < length Rs \<and> e \<in> set (Rs ! k)}"
proof -
  have len: "length (starts Rs) = length Rs" by (simp add: starts_def)
  have "(\<exists>b. length (concat (take k Rs)) \<le> b \<and> b < length (concat (take (Suc k) Rs)) \<and>
      x = (map col_of (concat Rs) ! b, int k, map e_val (concat Rs) ! b)) \<longleftrightarrow>
      (\<exists>e \<in> set (Rs ! k). x = (col_of e, int k, e_val e))" if k: "k < length Rs" for k x
  proof -
    let ?s = "length (concat (take k Rs))"
    have e: "length (concat (take (Suc k) Rs)) = ?s + length (Rs ! k)"
      using k by (simp add: take_Suc_conv_app_nth)
    have nth: "concat Rs ! (?s + i) = Rs ! k ! i" "?s + i < length (concat Rs)" if "i < length (Rs ! k)" for i
      using that unfolding concat_split [OF k] by (simp_all add: nth_append)
    have "(\<exists>b. ?s \<le> b \<and> b < ?s + length (Rs ! k) \<and> Q b) \<longleftrightarrow> (\<exists>i < length (Rs ! k). Q (?s + i))" for Q
      by (metis add_less_cancel_left le_add1 le_add_diff_inverse)
    then have "(\<exists>b. ?s \<le> b \<and> b < ?s + length (Rs ! k) \<and> x = (map col_of (concat Rs) ! b, int k, map e_val (concat Rs) ! b))
        \<longleftrightarrow> (\<exists>i < length (Rs ! k). x = (map col_of (concat Rs) ! (?s + i), int k, map e_val (concat Rs) ! (?s + i)))" .
    also have "\<dots> \<longleftrightarrow> (\<exists>i < length (Rs ! k). x = (col_of (Rs ! k ! i), int k, e_val (Rs ! k ! i)))"
      by (simp add: nth cong: conj_cong)
    also have "\<dots> \<longleftrightarrow> (\<exists>e \<in> set (Rs ! k). x = (col_of e, int k, e_val e))"
      by (metis in_set_conv_nth)
    finally show ?thesis unfolding e by (simp only: conj_assoc)
  qed
  then show ?thesis
    unfolding csc_entries_def using len by (fastforce simp: starts_nth)
qed

section \<open>Properties\<close>

definition midx_rows :: "grid \<Rightarrow> entry list list" where
  "midx_rows g = map (row_of g) (midx_nodes g)"

lemma length_midx_nodes: "grid_ok g \<Longrightarrow> int (length (midx_nodes g)) = nodes_n g"
  using arg_cong [OF midx_nodes_numbers, of g length] by (auto simp: grid_ok_def numLayer_def)

lemma midx_node_nth:
  assumes "grid_ok g" and "k < length (midx_nodes g)"
  shows "number g (midx_nodes g ! k) = int k"
proof -
  have "map (number g) (midx_nodes g) ! k = indices (nodes_n g) ! k" by (simp add: midx_nodes_numbers assms)
  then show ?thesis using assms length_midx_nodes [OF assms(1)] by (simp add: indices_def)
qed

lemma row_entries: "e \<in> set (row_of g p) \<longleftrightarrow> e = self g p \<or> (\<exists>q \<in> set (below_of g p) \<union> set (above_of g p). e = nbr g p q)"
  by (auto simp: row_of_def)

lemma row_of_ok:
  assumes "grid_ok g" and "in_grid g p"
  shows "row_ok (number g p) (row_of g p)"
proof -
  have "0 \<le> number g q \<and> number g q < 2 ^ 31" if "in_grid g q" for q
    using number_small [OF assms(1) that] assms(1) by (simp add: grid_ok_def)
  then have "e_row (self g p) = d_of_int (number g p) \<and> (\<exists>c. e_col (self g p) = d_of_int c \<and> 0 \<le> c \<and> c < 2 ^ 31)"
    using assms(2) e_self [of g p] by blast
  moreover have "e_row (nbr g p q) = d_of_int (number g p) \<and> (\<exists>c. e_col (nbr g p q) = d_of_int c \<and> 0 \<le> c \<and> c < 2 ^ 31)"
    if "q \<in> set (below_of g p) \<union> set (above_of g p)" for q
    using \<open>\<And>q. in_grid g q \<Longrightarrow> 0 \<le> number g q \<and> number g q < 2 ^ 31\<close> [of q] neighbour_grid [of q g p] that e_nbr [of g p q] by blast
  ultimately show ?thesis unfolding row_ok_def row_entries by (auto simp: row_of_def simp del: e_self e_nbr)
qed

lemma Midx_set: "grid_ok g \<Longrightarrow> set (concat (midx_rows g)) = (\<Union>p \<in> Collect (in_grid g). set (row_of g p))"
  by (simp add: midx_rows_def set_midx_nodes)

lemma nbr_sym:
  assumes "in_grid g p" and "q \<in> set (below_of g p) \<union> set (above_of g p)"
  shows "p \<in> set (below_of g q) \<union> set (above_of g q)" and "cond g p q = cond g q p"
  using assms below_above [of g p q] above_below [of g p q] cond_sym [of q g p] cond_sym [of p g q] by auto


lemma Midx_mem: "grid_ok g \<Longrightarrow> e \<in> set (concat (midx_rows g)) \<longleftrightarrow>
    (\<exists>p. in_grid g p \<and> (e = self g p \<or> (\<exists>q \<in> set (below_of g p) \<union> set (above_of g p). e = nbr g p q)))"
  unfolding Midx_set by (simp only: UN_iff mem_Collect_eq row_entries Bex_def)

text \<open>The places of a row, in order, and the order of places.\<close>

definition places :: "grid \<Rightarrow> int \<times> int \<times> int \<Rightarrow> (int \<times> int) list" where
  "places g p = map (Pair (number g p)) (map (number g) (below_of g p) @ number g p # map (number g) (above_of g p))"

definition place_less :: "int \<times> int \<Rightarrow> int \<times> int \<Rightarrow> bool" where
  "place_less = (\<lambda>(r, c) (r', c'). r < r' \<or> (r = r' \<and> c < c'))"

lemma places_row: "map (\<lambda>e. (e_row e, e_col e)) (row_of g p) = map (\<lambda>(r, c). (d_of_int r, d_of_int c)) (places g p)"
  by (simp add: row_of_def places_def)

lemma places_fst: "x \<in> set (places g p) \<Longrightarrow> fst x = number g p"
  by (auto simp: places_def)

lemma places_self: "(number g p, number g p) \<in> set (places g p)"
  by (simp add: places_def)

lemma places_bounds: "grid_ok g \<Longrightarrow> in_grid g p \<Longrightarrow> (r, c) \<in> set (places g p) \<Longrightarrow>
    0 \<le> r \<and> r < nodes_n g \<and> 0 \<le> c \<and> c < nodes_n g"
proof -
  assume g: "grid_ok g" "in_grid g p" and rc: "(r, c) \<in> set (places g p)"
  from rc have r: "r = number g p" and "c \<in> number g ` (insert p (set (below_of g p) \<union> set (above_of g p)))"
    by (auto simp: places_def)
  then obtain q where q: "q \<in> insert p (set (below_of g p) \<union> set (above_of g p))" "c = number g q" by blast
  then have "in_grid g q" using g(2) neighbour_grid [of q g p] by blast
  note q = this r q(2)
  then show ?thesis using number_small [OF g] number_small [OF g(1) q(1)] by simp
qed

lemma places_sorted:
  assumes "grid_ok g" and "in_grid g p"
  shows "sorted_wrt place_less (places g p)"
proof -
  have "sorted_wrt (<) (map (number g) (below_of g p) @ number g p # map (number g) (above_of g p))"
    using below_sorted [OF assms] above_sorted [OF assms]
    by (auto simp: sorted_wrt_append simp del: split_paired_All) (meson order_less_trans)
  then show ?thesis unfolding places_def sorted_wrt_map place_less_def by simp
qed

lemma places_concat_sorted:
  "grid_ok g \<Longrightarrow> sorted_wrt (<) (map (number g) ps) \<Longrightarrow> \<forall>p \<in> set ps. in_grid g p \<Longrightarrow>
   sorted_wrt place_less (concat (map (places g) ps))"
proof (induction ps)
  case (Cons p ps)
  have "place_less x y" if "x \<in> set (places g p)" "y \<in> set (places g q)" "q \<in> set ps" for x y q
    using places_fst [OF that(1)] places_fst [OF that(2)] Cons.prems(2) that(3)
    by (auto simp: place_less_def split_beta)
  then show ?case using Cons places_sorted [of g p] by (auto simp: sorted_wrt_append simp del: split_paired_All)
qed simp

text \<open>C19. \<open>calculate_Midx_array\<close> never reads or writes out of bounds, and it fills the array
  that it allocated exactly: the number of entries built is the number counted before. The
  coordinates ascend, first by row and then by column, so no place of the matrix has two entries,
  and every node has its diagonal entry.\<close>

theorem Midx_filled:
  assumes "grid_ok g"
  shows "okE (\<lambda>(Midx, MidxSize). int (length Midx) = MidxSize \<and>
      (\<exists>rcs. map (\<lambda>e. (e_row e, e_col e)) Midx = map (\<lambda>(r, c). (d_of_int r, d_of_int c)) rcs \<and>
        sorted_wrt place_less rcs \<and>
        (\<forall>(r, c) \<in> set rcs. 0 \<le> r \<and> r < nodes_n g \<and> 0 \<le> c \<and> c < nodes_n g) \<and>
        (\<forall>r. 0 \<le> r \<and> r < nodes_n g \<longrightarrow> (r, r) \<in> set rcs)))
    (calculate_Midx_array g)"
proof -
  define rcs where "rcs = concat (map (places g) (midx_nodes g))"
  have "map (\<lambda>e. (e_row e, e_col e)) (concat (midx_rows g)) = map (\<lambda>(r, c). (d_of_int r, d_of_int c)) rcs"
    by (simp add: midx_rows_def rcs_def map_concat comp_def places_row)
  moreover have "sorted_wrt (<) (indices n)" for n by (simp add: indices_def sorted_wrt_map)
  then have "sorted_wrt place_less rcs"
    unfolding rcs_def using midx_nodes_numbers [OF assms]
    by (intro places_concat_sorted assms) (simp_all add: set_midx_nodes)
  moreover have "\<forall>(r, c) \<in> set rcs. 0 \<le> r \<and> r < nodes_n g \<and> 0 \<le> c \<and> c < nodes_n g"
    using places_bounds [OF assms] by (auto simp: rcs_def set_midx_nodes)
  moreover have "(r, r) \<in> set rcs" if "0 \<le> r" "r < nodes_n g" for r
  proof -
    have "r \<in> number g ` set (midx_nodes g)"
      using that arg_cong [OF midx_nodes_numbers [OF assms], of set] by simp
    then obtain p where "p \<in> set (midx_nodes g)" "r = number g p" by blast
    then show ?thesis using places_self [of g p] by (auto simp: rcs_def simp del: split_paired_Ex)
  qed
  moreover have "int (length (concat (midx_rows g))) = midx_count g"
    using length_rows [OF assms] by (simp add: midx_rows_def)
  ultimately show ?thesis
    using Midx_ok [OF assms] by (auto simp: midx_rows_def)
qed

theorem Midx_filled_witness:
  "grid_ok ex_grid \<and> okE (\<lambda>(M, n). int (length M) = n) (calculate_Midx_array ex_grid)"
  using Midx_filled [OF ex_grid_ok] ex_grid_ok by (auto elim!: okE_mono)

text \<open>C25. The conductance matrix is symmetric, bit for bit: the conductance from a node to its
  neighbour and that from the neighbour back are the same \<open>double\<close>, with all roundings.\<close>

theorem Midx_symmetric:
  assumes "grid_ok g"
  shows "okE (\<lambda>(Midx, MidxSize). \<forall>(r, c, v) \<in> set Midx. (c, r, v) \<in> set Midx) (calculate_Midx_array g)"
proof -
  have triple: "e = (e_row e, e_col e, e_val e)" for e :: entry
    by (simp add: e_row_def e_col_def e_val_def)
  have "(e_col e, e_row e, e_val e) \<in> set (concat (midx_rows g))" if e: "e \<in> set (concat (midx_rows g))" for e
  proof -
    from e obtain p where p: "in_grid g p"
        "e = self g p \<or> (\<exists>q \<in> set (below_of g p) \<union> set (above_of g p). e = nbr g p q)"
      unfolding Midx_mem [OF assms] by blast
    from p(2) show ?thesis
    proof (elim disjE bexE)
      assume "e = self g p"
      with e triple [of e] show ?thesis by simp
    next
      fix q assume q: "q \<in> set (below_of g p) \<union> set (above_of g p)" "e = nbr g p q"
      have "nbr g q p \<in> set (concat (midx_rows g))"
        unfolding Midx_mem [OF assms] using nbr_sym(1) [OF p(1) q(1)] neighbour_grid [of q g p] q(1) by blast
      then show ?thesis using q(2) triple [of "nbr g q p"] nbr_sym(2) [OF p(1) q(1)] by simp
    qed
  qed
  then have "\<forall>(r, c, v) \<in> set (concat (midx_rows g)). (c, r, v) \<in> set (concat (midx_rows g))"
    unfolding e_row_def e_col_def e_val_def by (metis (no_types, lifting) case_prodI2 fst_conv snd_conv)
  then show ?thesis using Midx_ok [OF assms] by (simp add: midx_rows_def del: set_concat)
qed

theorem Midx_symmetric_witness:
  "okE (\<lambda>(M, n). \<forall>(r, c, v) \<in> set M. (c, r, v) \<in> set M) (calculate_Midx_array ex_grid)"
  by (rule Midx_symmetric [OF ex_grid_ok])


text \<open>The places and values of the entries, as integers.\<close>

definition triples :: "grid \<Rightarrow> (int \<times> int \<times> double) set" where
  "triples g = {(number g p, col_of e, e_val e) | p e. in_grid g p \<and> e \<in> set (row_of g p)}"

lemma col_of_row:
  assumes "grid_ok g" and "in_grid g p"
  shows "col_of (self g p) = number g p"
    and "q \<in> set (below_of g p) \<union> set (above_of g p) \<Longrightarrow> col_of (nbr g p q) = number g q"
  using number_small [OF assms] number_small [OF assms(1), of q] neighbour_grid [of q g p] assms(1)
  by (auto simp: col_of_def dtrunc_of_int grid_ok_def simp del: split_paired_All)

lemma row_entry:
  assumes "grid_ok g" and "in_grid g p" and "e \<in> set (row_of g p)"
  shows "e_row e = d_of_int (number g p)" and "e_col e = d_of_int (col_of e)"
    and "0 \<le> col_of e \<and> col_of e < nodes_n g"
proof -
  from assms(3) have "e = self g p \<or> (\<exists>q \<in> set (below_of g p) \<union> set (above_of g p). e = nbr g p q)"
    unfolding row_entries .
  then show "e_row e = d_of_int (number g p)" "e_col e = d_of_int (col_of e)"
      "0 \<le> col_of e \<and> col_of e < nodes_n g"
    using number_small [OF assms(1)] assms(2) col_of_row [OF assms(1,2)] neighbour_grid [of _ g p] e_self e_nbr
    by (metis UnE)+
qed

lemma triples_sym:
  assumes "grid_ok g" and "(r, c, v) \<in> triples g"
  shows "(c, r, v) \<in> triples g"
proof -
  from assms(2) obtain p e where p: "in_grid g p" "e \<in> set (row_of g p)" "r = number g p" "c = col_of e" "v = e_val e"
    unfolding triples_def by blast
  from p(2) show ?thesis unfolding row_entries
  proof (elim disjE bexE)
    assume "e = self g p"
    with p col_of_row(1) [OF assms(1) p(1)] assms(2) show ?thesis by simp
  next
    fix q assume q: "q \<in> set (below_of g p) \<union> set (above_of g p)" "e = nbr g p q"
    have "in_grid g q" "nbr g q p \<in> set (row_of g q)"
      using neighbour_grid [of q g p] q(1) nbr_sym(1) [OF p(1) q(1)] by (auto simp: row_entries simp del: split_paired_Ex)
    moreover have "(c, r, v) = (number g q, col_of (nbr g q p), e_val (nbr g q p))"
      using p q col_of_row(2) [OF assms(1) p(1) q(1)] nbr_sym [OF p(1) q(1)]
        col_of_row(2) [OF assms(1) \<open>in_grid g q\<close>, of p] by simp
    ultimately show ?thesis unfolding triples_def by blast
  qed
qed

lemma d_of_int_inj: "d_of_int a = d_of_int b \<Longrightarrow> 0 \<le> a \<Longrightarrow> a < 2 ^ 31 \<Longrightarrow> 0 \<le> b \<Longrightarrow> b < 2 ^ 31 \<Longrightarrow> a = b"
  by (metis dtrunc_of_int option.inject)

lemma Midx_triples:
  assumes "grid_ok g" and "0 \<le> r" "r < nodes_n g" "0 \<le> c" "c < nodes_n g"
  shows "(d_of_int r, d_of_int c, v) \<in> set (concat (midx_rows g)) \<longleftrightarrow> (r, c, v) \<in> triples g"
proof
  have lt: "k < 2 ^ 31" if "k < nodes_n g" for k using that assms(1) by (simp add: grid_ok_def)
  assume "(d_of_int r, d_of_int c, v) \<in> set (concat (midx_rows g))"
  then obtain p where p: "in_grid g p" "(d_of_int r, d_of_int c, v) \<in> set (row_of g p)"
    unfolding Midx_set [OF assms(1)] by blast
  note e = row_entry [OF assms(1) p]
  have "r = number g p"
    using e(1) number_small [OF assms(1) p(1)] assms lt by (intro d_of_int_inj) (auto simp: e_row_def)
  moreover have "c = col_of (d_of_int r, d_of_int c, v)"
    using assms lt by (simp add: col_of_def e_col_def dtrunc_of_int)
  ultimately show "(r, c, v) \<in> triples g"
    unfolding triples_def using p e_val_def [of "(d_of_int r, d_of_int c, v)"] by (metis (mono_tags, lifting) mem_Collect_eq snd_conv)
next
  assume "(r, c, v) \<in> triples g"
  then obtain p e where p: "in_grid g p" "e \<in> set (row_of g p)" "r = number g p" "c = col_of e" "v = e_val e"
    unfolding triples_def by blast
  then have "e = (d_of_int r, d_of_int c, v)"
    using row_entry [OF assms(1) p(1,2)] by (simp add: e_row_def e_col_def e_val_def prod_eq_iff)
  with p show "(d_of_int r, d_of_int c, v) \<in> set (concat (midx_rows g))"
    unfolding Midx_set [OF assms(1)] by blast
qed

lemma compressed_ok:
  assumes "grid_ok g"
  shows "okE (\<lambda>(Midx, MidxSize). okE (\<lambda>m. None \<notin> set (cm_xa m) \<and> int (length (cm_xa m)) = nodes_n g + 1 \<and>
      csc_entries m = {(r, c, v). 0 \<le> r \<and> r < nodes_n g \<and> 0 \<le> c \<and> c < nodes_n g \<and>
        (d_of_int r, d_of_int c, v) \<in> set Midx}) (compress (nodes_n g) Midx MidxSize))
    (calculate_Midx_array g)"
proof -
  let ?M = "concat (midx_rows g)"
  define m where "m = \<lparr>cm_n = int (length (midx_rows g)), cm_nnz = int (length ?M), cm_a = map e_val ?M,
    cm_asub = map col_of ?M, cm_xa = starts (midx_rows g) @ [Some (int (length ?M))]\<rparr>"
  have len: "length (midx_rows g) = length (midx_nodes g)" "int (length (midx_rows g)) = nodes_n g"
    using length_midx_nodes [OF assms] by (simp_all add: midx_rows_def)
  have row: "midx_rows g ! k = row_of g (midx_nodes g ! k)" "in_grid g (midx_nodes g ! k)"
    if "k < length (midx_rows g)" for k
    using that nth_mem [of k "midx_nodes g"] by (simp_all add: midx_rows_def set_midx_nodes)
  have "row_ok (int k) (midx_rows g ! k)" if "k < length (midx_rows g)" for k
    using row_of_ok [OF assms row(2) [OF that]] row(1) [OF that] midx_node_nth [OF assms, of k] that len by simp
  then have c: "compress (nodes_n g) ?M (int (length ?M)) = Inr m"
    using compress_rows [of "midx_rows g"] len assms unfolding m_def by (simp add: grid_ok_def)
  have "csc_entries m = {(col_of e, number g p, e_val e) | p e. in_grid g p \<and> e \<in> set (row_of g p)}"
  proof -
    have "(\<exists>k e. x = (col_of e, int k, e_val e) \<and> k < length (midx_rows g) \<and> e \<in> set (midx_rows g ! k)) \<longleftrightarrow>
        (\<exists>p e. x = (col_of e, number g p, e_val e) \<and> p \<in> set (midx_nodes g) \<and> e \<in> set (row_of g p))" for x
      using row len(1) midx_node_nth [OF assms] by (metis in_set_conv_nth)
    then show ?thesis unfolding m_def csc_entries_rows set_midx_nodes mem_Collect_eq
      by (simp only: conj_assoc)
  qed
  also have "\<dots> = {(c, r, v). (r, c, v) \<in> triples g}" unfolding triples_def by blast
  also have "\<dots> = triples g" using triples_sym [OF assms] by blast
  finally have e: "csc_entries m = triples g" .
  have b: "0 \<le> r \<and> r < nodes_n g \<and> 0 \<le> c \<and> c < nodes_n g" if "(r, c, v) \<in> triples g" for r c v
    using that row_entry(3) [OF assms] number_small [OF assms] unfolding triples_def by blast
  have "csc_entries m = {(r, c, v). 0 \<le> r \<and> r < nodes_n g \<and> 0 \<le> c \<and> c < nodes_n g \<and>
        (d_of_int r, d_of_int c, v) \<in> set ?M}"
    unfolding e using b Midx_triples [OF assms] by blast
  moreover have "None \<notin> set (cm_xa m) \<and> int (length (cm_xa m)) = nodes_n g + 1"
    using len by (auto simp: m_def starts_def)
  ultimately have "okE (\<lambda>m. None \<notin> set (cm_xa m) \<and> int (length (cm_xa m)) = nodes_n g + 1 \<and>
      csc_entries m = {(r, c, v). 0 \<le> r \<and> r < nodes_n g \<and> 0 \<le> c \<and> c < nodes_n g \<and>
        (d_of_int r, d_of_int c, v) \<in> set ?M}) (compress (nodes_n g) ?M (int (length ?M)))"
    unfolding c by simp
  then show ?thesis
    using Midx_ok [OF assms] length_rows [OF assms] by (simp only: okE_simps midx_rows_def prod.case)
qed

text \<open>C18. The code builds the matrix by rows and hands it to SuperLU as compressed columns. The
  compressed arrays are well formed (every start position is written, every index fits), and
  because the matrix is symmetric, the entries of the compressed columns are those of \<open>Midx\<close>.\<close>

theorem compress_is_Midx:
  assumes "grid_ok g"
  shows "okE (\<lambda>(Midx, MidxSize). okE (\<lambda>m. None \<notin> set (cm_xa m) \<and> int (length (cm_xa m)) = nodes_n g + 1 \<and>
      csc_entries m = {(r, c, v). 0 \<le> r \<and> r < nodes_n g \<and> 0 \<le> c \<and> c < nodes_n g \<and>
        (d_of_int r, d_of_int c, v) \<in> set Midx}) (compress (nodes_n g) Midx MidxSize))
    (calculate_Midx_array g)"
  by (rule compressed_ok [OF assms])

theorem compress_is_Midx_witness:
  "okE (\<lambda>(M, n). okE (\<lambda>m. None \<notin> set (cm_xa m) \<and> int (length (cm_xa m)) = 49) (compress 48 M n))
    (calculate_Midx_array ex_grid)"
  using compress_is_Midx [OF ex_grid_ok] by (auto simp: ex_grid_def numLayer_def elim!: okE_mono)

end
