(* ===== verification/Thermal_Heat.thy ===== *)
theory Thermal_Heat
  imports Thermal_Matrix
begin

text \<open>
  Properties of the thermal solver's computations: the blocked loop is the plain loop, the
  right-hand sides hold the power of every cell (the transient solver at a transposed place), a
  time step is the explicit formula at every node, and the solvers never read out of bounds.
\<close>

section \<open>Loops\<close>

lemma tiled_loop_foldE: "tiled_loop 0 n body s = foldE body (indices n) s"
proof -
  have "tiled_loop j n body s = foldE body (map (\<lambda>b. j + b) (indices (n - j))) s" for j
  proof (induction j n body s rule: tiled_loop.induct)
    case (1 j n body s)
    show ?case
    proof (cases "j < n")
      case True
      define k where "k = min (j + 8) n - j"
      have k: "0 \<le> k" "k \<le> n - j" "j + 8 \<le> n \<longrightarrow> k = 8" "\<not> j + 8 \<le> n \<longrightarrow> k = n - j" using True by (auto simp: k_def)
      have rest: "map (\<lambda>b. j + 8 + b) (indices (n - (j + 8))) = map (\<lambda>b. j + (k + b)) (indices (n - j - k))"
        using k by (cases "j + 8 \<le> n") (auto simp: indices_def algebra_simps)
      have "indices (n - j) = indices k @ map (\<lambda>b. k + b) (indices (n - j - k))"
        using k indices_append [of k "n - j - k"] by simp
      then have "map (\<lambda>b. j + b) (indices (n - j)) = map (\<lambda>b. j + b) (indices k) @ map (\<lambda>b. j + 8 + b) (indices (n - (j + 8)))"
        unfolding rest by (simp add: comp_def)
      moreover have "bindE (foldE body (map (\<lambda>b. j + b) (indices k)) s) (tiled_loop (j + 8) n body)
          = bindE (foldE body (map (\<lambda>b. j + b) (indices k)) s) (foldE body (map (\<lambda>b. j + 8 + b) (indices (n - (j + 8)))))"
        using "1.IH" [OF True] by (intro bindE_cong refl) (simp add: k_def)
      ultimately show ?thesis
        using True by (subst tiled_loop.simps) (simp add: foldE_append flip: k_def)
    next
      case False
      then show ?thesis by (subst tiled_loop.simps) (simp add: indices_def)
    qed
  qed
  from this [of 0] show ?thesis by (simp add: map_idI)
qed

text \<open>The loop over the entries in blocks of eight ends and does what the plain loop does, in
  the same order.\<close>

theorem tiled_loop_plain: "tiled_loop 0 n body s = foldE body (indices n) s"
  by (rule tiled_loop_foldE)

text \<open>Nested loops as one loop, and a loop that writes every place once.\<close>

lemma foldE_nested: "foldE (\<lambda>x. foldE (f x) (ys x)) xs s = foldE (\<lambda>(x, y). f x y) (concat (map (\<lambda>x. map (Pair x) (ys x)) xs)) s"
  by (induction xs arbitrary: s) (auto simp: foldE_append foldE_map bindE_def split: sum.splits)

lemma foldE_vset:
  assumes "distinct (map pos ps)" and "\<And>p. p \<in> set ps \<Longrightarrow> 0 \<le> pos p \<and> pos p < int (length r)"
    and "\<And>p s. p \<in> set ps \<Longrightarrow> f p s = vset s (pos p) (v p)"
  shows "\<exists>r'. foldE f ps r = Inr r' \<and> length r' = length r \<and> (\<forall>p \<in> set ps. r' ! nat (pos p) = v p) \<and>
      (\<forall>k. int k \<notin> pos ` set ps \<longrightarrow> r' ! k = r ! k)"
    using assms
  proof (induction ps arbitrary: r)
    case (Cons p ps)
    have p: "0 \<le> pos p" "pos p < int (length r)" using Cons.prems(2) [of p] by simp_all
    have "\<exists>r'. foldE f ps (r[nat (pos p) := v p]) = Inr r' \<and> length r' = length (r[nat (pos p) := v p]) \<and>
        (\<forall>q \<in> set ps. r' ! nat (pos q) = v q) \<and>
        (\<forall>k. int k \<notin> pos ` set ps \<longrightarrow> r' ! k = r[nat (pos p) := v p] ! k)"
      using Cons.prems by (intro Cons.IH) auto
    then obtain r' where r': "foldE f ps (r[nat (pos p) := v p]) = Inr r'" "length r' = length r"
        "\<forall>q \<in> set ps. r' ! nat (pos q) = v q" "\<forall>k. int k \<notin> pos ` set ps \<longrightarrow> r' ! k = r[nat (pos p) := v p] ! k" by auto
    have "int (nat (pos p)) \<notin> pos ` set ps" using Cons.prems(1) p by auto
    then have "r' ! nat (pos p) = v p" using r'(4) p by auto
    moreover have "f p r = Inr (r[nat (pos p) := v p])" using Cons.prems(3) [of p r] p by (simp add: vset_def)
    ultimately show ?case using r' p by (auto simp: nth_list_update)
qed simp

section \<open>The right-hand sides\<close>

definition power_ok :: "grid \<Rightarrow> double vec3 \<Rightarrow> bool" where
  "power_ok g powerM \<longleftrightarrow> (\<forall>i j l. 0 \<le> i \<and> i < g_dimX g \<and> 0 \<le> j \<and> j < g_dimZ g \<and> 0 \<le> l \<and> l < g_numP g
     \<longrightarrow> vec3_lookup powerM (i, j, l) \<noteq> None)"

definition power_at :: "double vec3 \<Rightarrow> int \<Rightarrow> int \<Rightarrow> int \<Rightarrow> double" where
  "power_at powerM i j l = powerM ! nat i ! nat j ! nat l"

lemma power_get:
  assumes "power_ok g powerM" and "0 \<le> i" "i < g_dimX g" "0 \<le> j" "j < g_dimZ g" "0 \<le> l" "l < g_numP g"
  shows "vec3_get powerM i j l = Inr (power_at powerM i j l)"
proof -
  obtain x where "vec3_get powerM i j l = Inr x"
    using assms unfolding power_ok_def by (metis not_None_eq vec3_lookup_eq_Some)
  then show ?thesis by (auto simp: vec3_get_eq_Inr power_at_def)
qed

text \<open>A power array for the grid of the examples: cell (i, j) has power 10 i + j.\<close>

definition ex_power :: "double vec3" where
  "ex_power = map (\<lambda>i. map (\<lambda>j. map (\<lambda>l. d_of_int (10 * i + j)) (indices 1)) (indices 4)) (indices 3)"

lemma ex_power_ok: "power_ok ex_grid ex_power"
  by (auto simp: power_ok_def ex_grid_def ex_power_def vec3_lookup_def vec3_get_def vget_map_indices)

lemma ex_power_at: "0 \<le> i \<Longrightarrow> i < 3 \<Longrightarrow> 0 \<le> j \<Longrightarrow> j < 4 \<Longrightarrow> power_at ex_power i j 0 = d_of_int (10 * i + j)"
  by (simp add: power_at_def ex_power_def indices_def)

text \<open>The position of a cell in the layer of node numbers of a memory layer.\<close>

definition power_node :: "grid \<Rightarrow> int \<Rightarrow> int \<Rightarrow> int" where
  "power_node g l c = g_dimX g * g_dimZ g * (3 * l + 1) + c"

lemma power_node_inj:
  assumes "power_node g l c = power_node g l' c'" and "0 \<le> c" "c < g_dimX g * g_dimZ g" "0 \<le> c'" "c' < g_dimX g * g_dimZ g"
  shows "l = l'" and "c = c'"
proof -
  let ?N = "g_dimX g * g_dimZ g"
  have "(?N * (3 * l + 1) + c) mod ?N = c" "(?N * (3 * l' + 1) + c') mod ?N = c'" using assms by simp_all
  then show c: "c = c'" using assms(1) unfolding power_node_def by metis
  have "?N * (3 * l + 1) = ?N * (3 * l' + 1)" using assms(1) c by (simp add: power_node_def)
  moreover have "0 < ?N" using assms(2,3) by linarith
  ultimately show "l = l'" by auto
qed

lemma cell_bounds:
  assumes "0 \<le> a" "a < A" "0 \<le> b" "b < (B::int)"
  shows "0 \<le> a * B + b" and "a * B + b < A * B" and "a * B + b = a' * B + b' \<Longrightarrow> 0 \<le> b' \<Longrightarrow> b' < B \<Longrightarrow> a = a' \<and> b = b'"
proof -
  show "0 \<le> a * B + b" using assms by simp
  have "a * B + b < (a + 1) * B" using assms by (simp add: algebra_simps)
  also have "\<dots> \<le> A * B" using assms by (intro mult_right_mono) simp_all
  finally show "a * B + b < A * B" .
  show "a = a' \<and> b = b'" if "a * B + b = a' * B + b'" "0 \<le> b'" "b' < B"
  proof -
    have "(a * B + b) div B = a" "(a' * B + b') div B = a'" "(a * B + b) mod B = b" "(a' * B + b') mod B = b'"
      using assms that(2,3) by simp_all
    then show ?thesis using that(1) by simp
  qed
qed

lemma power_node_bounds:
  assumes "grid_ok g" and "0 \<le> l" "l < g_numP g" "0 \<le> c" "c < g_dimX g * g_dimZ g"
  shows "g_dimX g * g_dimZ g \<le> power_node g l c" and "power_node g l c < nodes_n g"
proof -
  let ?N = "g_dimX g * g_dimZ g"
  have "?N * 1 \<le> ?N * (3 * l + 1)" using assms by (intro mult_left_mono) simp_all
  then show "?N \<le> power_node g l c" using assms by (simp add: power_node_def)
  have "power_node g l c < ?N * (3 * l + 1) + ?N * 1" using assms by (simp add: power_node_def)
  also have "\<dots> = ?N * (3 * l + 2)" by (simp add: algebra_simps)
  also have "\<dots> \<le> ?N * (numLayer g + 1)" using assms by (intro mult_left_mono) (simp_all add: numLayer_def)
  finally show "power_node g l c < nodes_n g" .
qed

lemma ambient_rhs_ok:
  assumes "grid_ok g"
  obtains rhs where "ambient_rhs g Tamb = Inr rhs" and "int (length rhs) = nodes_n g"
    and "\<And>k. 0 \<le> k \<Longrightarrow> k < g_dimX g * g_dimZ g \<Longrightarrow> rhs ! nat k = ddiv Tamb (Ramb g)"
    and "\<And>k. g_dimX g * g_dimZ g \<le> k \<Longrightarrow> k < nodes_n g \<Longrightarrow> rhs ! nat k = dzero"
proof -
  let ?N = "g_dimX g * g_dimZ g" and ?r = "replicate (nat (nodes_n g)) dzero"
  have N: "1 \<le> ?N" using strides [OF assms] by simp
  have "?N * 1 \<le> nodes_n g" using assms N by (intro mult_left_mono) (auto simp: grid_ok_def numLayer_def)
  then have le: "?N \<le> nodes_n g" by simp
  obtain rhs where r: "ambient_rhs g Tamb = Inr rhs" "length rhs = length ?r"
      "\<And>p. p \<in> set (indices ?N) \<Longrightarrow> rhs ! nat p = ddiv Tamb (Ramb g)"
      "\<And>k. int k \<notin> (\<lambda>i. i) ` set (indices ?N) \<Longrightarrow> rhs ! k = ?r ! k"
    using foldE_vset [of "\<lambda>i. i" "indices ?N" ?r "\<lambda>i rhs. vset rhs i (ddiv Tamb (Ramb g))" "\<lambda>_. ddiv Tamb (Ramb g)"] le
    unfolding ambient_rhs_def by (auto simp: map_idI)
  show thesis
  proof (rule that [OF r(1)])
    show "int (length rhs) = nodes_n g" using r(2) le N by simp
    show "rhs ! nat k = ddiv Tamb (Ramb g)" if "0 \<le> k" "k < ?N" for k using r(3) that by simp
    show "rhs ! nat k = dzero" if "?N \<le> k" "k < nodes_n g" for k
      using r(4) [of "nat k"] that N by auto
  qed
qed


text \<open>Writing the power of every cell at its place: \<open>cell i j\<close> numbers the cells of a layer.\<close>

definition put_power :: "grid \<Rightarrow> double vec3 \<Rightarrow> (int \<Rightarrow> int \<Rightarrow> int) \<Rightarrow> int \<times> int \<times> int \<Rightarrow> double list \<Rightarrow> double list result" where
  "put_power g powerM cell = (\<lambda>(l, i, j) rhs.
     bindE (vec3_get powerM i j l) (vset rhs (power_node g l (cell i j))))"

lemma put_power_ok:
  assumes g: "grid_ok g" "power_ok g powerM" and rhs: "int (length rhs) = nodes_n g"
    and ps: "distinct ps" "\<And>l i j. (l, i, j) \<in> set ps \<longleftrightarrow>
      0 \<le> l \<and> l < g_numP g \<and> 0 \<le> i \<and> i < g_dimX g \<and> 0 \<le> j \<and> j < g_dimZ g"
    and cell: "\<And>i j. 0 \<le> i \<Longrightarrow> i < g_dimX g \<Longrightarrow> 0 \<le> j \<Longrightarrow> j < g_dimZ g \<Longrightarrow>
      0 \<le> cell i j \<and> cell i j < g_dimX g * g_dimZ g"
    and inj: "\<And>i j i' j'. 0 \<le> i \<Longrightarrow> i < g_dimX g \<Longrightarrow> 0 \<le> j \<Longrightarrow> j < g_dimZ g \<Longrightarrow>
      0 \<le> i' \<Longrightarrow> i' < g_dimX g \<Longrightarrow> 0 \<le> j' \<Longrightarrow> j' < g_dimZ g \<Longrightarrow> cell i j = cell i' j' \<Longrightarrow> i = i' \<and> j = j'"
  obtains r where "foldE (put_power g powerM cell) ps rhs = Inr r" and "length r = length rhs"
    and "\<And>l i j. (l, i, j) \<in> set ps \<Longrightarrow> r ! nat (power_node g l (cell i j)) = power_at powerM i j l"
    and "\<And>k. 0 \<le> k \<Longrightarrow> k < g_dimX g * g_dimZ g \<Longrightarrow> r ! nat k = rhs ! nat k"
proof -
  define pos where "pos = (\<lambda>(l, i, j). power_node g l (cell i j))"
  define v where "v = (\<lambda>(l, i, j). power_at powerM i j l)"
  have b: "g_dimX g * g_dimZ g \<le> pos p \<and> pos p < nodes_n g" if "p \<in> set ps" for p
  proof -
    obtain l i j where "p = (l, i, j)" by (metis prod.exhaust)
    with that ps(2) show ?thesis using cell power_node_bounds [OF g(1)] by (simp add: pos_def)
  qed
  have N: "0 \<le> g_dimX g * g_dimZ g" using strides(1) [OF g(1)] by simp
  have "inj_on pos (set ps)"
  proof (rule inj_onI)
    fix p q assume pq: "p \<in> set ps" "q \<in> set ps" "pos p = pos q"
    obtain l i j l' i' j' where "p = (l, i, j)" "q = (l', i', j')" by (metis prod.exhaust)
    then show "p = q" using pq ps(2) cell [of i j] cell [of i' j'] inj [of i j i' j'] power_node_inj [of g l "cell i j" l' "cell i' j'"]
      by (auto simp: pos_def)
  qed
  then have "distinct (map pos ps)" using ps(1) by (simp add: distinct_map)
  moreover have "0 \<le> pos p \<and> pos p < int (length rhs)" if "p \<in> set ps" for p using b [OF that] N rhs by simp
  moreover have "put_power g powerM cell p s = vset s (pos p) (v p)" if "p \<in> set ps" for p s
  proof -
    obtain l i j where "p = (l, i, j)" by (metis prod.exhaust)
    with that ps(2) show ?thesis using power_get [OF g(2)] by (simp add: put_power_def pos_def v_def)
  qed
  ultimately have "\<exists>r. foldE (put_power g powerM cell) ps rhs = Inr r \<and> length r = length rhs \<and>
      (\<forall>p \<in> set ps. r ! nat (pos p) = v p) \<and> (\<forall>k. int k \<notin> pos ` set ps \<longrightarrow> r ! k = rhs ! k)"
    by (rule foldE_vset)
  then obtain r where r: "foldE (put_power g powerM cell) ps rhs = Inr r" "length r = length rhs"
      "\<And>p. p \<in> set ps \<Longrightarrow> r ! nat (pos p) = v p" "\<And>k. int k \<notin> pos ` set ps \<Longrightarrow> r ! k = rhs ! k"
    by (auto simp del: split_paired_All split_paired_Ex)
  show thesis
  proof (rule that [OF r(1,2)])
    show "r ! nat (power_node g l (cell i j)) = power_at powerM i j l" if "(l, i, j) \<in> set ps" for l i j
      using r(3) [OF that] by (simp add: pos_def v_def)
    show "r ! nat k = rhs ! nat k" if k: "0 \<le> k" "k < g_dimX g * g_dimZ g" for k
    proof (rule r(4))
      show "int (nat k) \<notin> pos ` set ps" using b k by (metis (no_types, lifting) image_iff int_nat_eq not_less)
    qed
  qed
qed

definition steady_cells :: "grid \<Rightarrow> (int \<times> int \<times> int) list" where
  "steady_cells g = concat (map (\<lambda>l. concat (map (\<lambda>i. map (\<lambda>j. (l, i, j)) (indices (g_dimZ g))) (indices (g_dimX g)))) (indices (g_numP g)))"

definition transient_cells :: "grid \<Rightarrow> (int \<times> int \<times> int) list" where
  "transient_cells g = concat (map (\<lambda>l. concat (map (\<lambda>j. map (\<lambda>i. (l, i, j)) (indices (g_dimX g))) (indices (g_dimZ g)))) (indices (g_numP g)))"

lemma distinct_concat_disjoint:
  "distinct xs \<Longrightarrow> (\<And>x. x \<in> set xs \<Longrightarrow> distinct (f x)) \<Longrightarrow> (\<And>x y z. z \<in> set (f x) \<Longrightarrow> z \<in> set (f y) \<Longrightarrow> x = y) \<Longrightarrow>
   distinct (concat (map f xs))"
  by (induction xs) fastforce+

lemma distinct_cells: "distinct (steady_cells g)" "distinct (transient_cells g)"
  unfolding steady_cells_def transient_cells_def
  by (intro distinct_concat_disjoint; auto simp: distinct_map inj_on_def)+

lemma mem_cells:
  "(l, i, j) \<in> set (steady_cells g) \<longleftrightarrow> 0 \<le> l \<and> l < g_numP g \<and> 0 \<le> i \<and> i < g_dimX g \<and> 0 \<le> j \<and> j < g_dimZ g"
  "(l, i, j) \<in> set (transient_cells g) \<longleftrightarrow> 0 \<le> l \<and> l < g_numP g \<and> 0 \<le> i \<and> i < g_dimX g \<and> 0 \<le> j \<and> j < g_dimZ g"
  by (force simp: steady_cells_def transient_cells_def image_iff)+

lemma steady_rhs_cells: "steady_rhs g powerM Tamb =
    bindE (ambient_rhs g Tamb) (foldE (put_power g powerM (\<lambda>i j. j * g_dimX g + i)) (steady_cells g))"
  unfolding steady_rhs_def steady_cells_def foldE_concat foldE_map put_power_def power_node_def layerP_def
  by (simp add: algebra_simps)

lemma transient_rhs_cells: "transient_rhs g powerM Tamb =
    bindE (ambient_rhs g Tamb) (foldE (put_power g powerM (\<lambda>i j. i * g_dimZ g + j)) (transient_cells g))"
  unfolding transient_rhs_def transient_cells_def foldE_concat foldE_map put_power_def power_node_def layerP_def
  by (simp add: algebra_simps)


lemma steady_rhs_ok:
  assumes "grid_ok g" and "power_ok g powerM"
  shows "okE (\<lambda>rhs. int (length rhs) = nodes_n g \<and>
      (\<forall>k. 0 \<le> k \<and> k < g_dimX g * g_dimZ g \<longrightarrow> rhs ! nat k = ddiv Tamb (Ramb g)) \<and>
      (\<forall>l i j. 0 \<le> l \<and> l < g_numP g \<and> 0 \<le> i \<and> i < g_dimX g \<and> 0 \<le> j \<and> j < g_dimZ g \<longrightarrow>
         rhs ! nat (node g (3 * l + 1) j i) = power_at powerM i j l)) (steady_rhs g powerM Tamb)"
proof -
  obtain a where a: "ambient_rhs g Tamb = Inr a" "int (length a) = nodes_n g"
      "\<And>k. 0 \<le> k \<Longrightarrow> k < g_dimX g * g_dimZ g \<Longrightarrow> a ! nat k = ddiv Tamb (Ramb g)"
    by (rule ambient_rhs_ok [OF assms(1)]) blast
  have cell: "0 \<le> j * g_dimX g + i \<and> j * g_dimX g + i < g_dimX g * g_dimZ g"
    if "0 \<le> i" "i < g_dimX g" "0 \<le> j" "j < g_dimZ g" for i j
    using cell_bounds(1,2) [of j "g_dimZ g" i "g_dimX g"] that by (simp add: mult.commute)
  have inj: "i = i' \<and> j = j'" if "0 \<le> i" "i < g_dimX g" "0 \<le> j" "j < g_dimZ g"
      "0 \<le> i'" "i' < g_dimX g" "0 \<le> j'" "j' < g_dimZ g" "j * g_dimX g + i = j' * g_dimX g + i'" for i j i' j'
    using cell_bounds(3) [of j "g_dimZ g" i "g_dimX g" j' i'] that by simp
  obtain r where r: "foldE (put_power g powerM (\<lambda>i j. j * g_dimX g + i)) (steady_cells g) a = Inr r" "length r = length a"
      "\<And>l i j. (l, i, j) \<in> set (steady_cells g) \<Longrightarrow> r ! nat (power_node g l (j * g_dimX g + i)) = power_at powerM i j l"
      "\<And>k. 0 \<le> k \<Longrightarrow> k < g_dimX g * g_dimZ g \<Longrightarrow> r ! nat k = a ! nat k"
    by (rule put_power_ok [OF assms a(2) distinct_cells(1) mem_cells(1) cell inj]) blast+
  have "node g (3 * l + 1) j i = power_node g l (j * g_dimX g + i)" for l i j
    by (simp add: node_def power_node_def algebra_simps)
  then show ?thesis using a r by (simp add: steady_rhs_cells mem_cells)
qed

text \<open>The right-hand side of the steady solver: Tamb / Ramb at the heat sink, and the power of
  every cell at that cell's node in the second layer of its memory layer.\<close>

theorem steady_rhs_places:
  assumes "grid_ok g" and "power_ok g powerM"
  shows "okE (\<lambda>rhs. int (length rhs) = nodes_n g \<and>
      (\<forall>k. 0 \<le> k \<and> k < g_dimX g * g_dimZ g \<longrightarrow> rhs ! nat k = ddiv Tamb (Ramb g)) \<and>
      (\<forall>l i j. 0 \<le> l \<and> l < g_numP g \<and> 0 \<le> i \<and> i < g_dimX g \<and> 0 \<le> j \<and> j < g_dimZ g \<longrightarrow>
         rhs ! nat (node g (3 * l + 1) j i) = power_at powerM i j l)) (steady_rhs g powerM Tamb)"
  by (rule steady_rhs_ok [OF assms])

theorem steady_rhs_places_witness:
  "okE (\<lambda>rhs. rhs ! nat (node ex_grid 1 3 2) = d_of_int 23) (steady_rhs ex_grid ex_power (d_of_int 300))"
  using steady_rhs_places [OF ex_grid_ok ex_power_ok, of "d_of_int 300"] ex_power_at [of 2 3]
  by (auto simp: ex_grid_def dest: spec [of _ 0] elim!: okE_mono)

lemma transient_rhs_ok:
  assumes "grid_ok g" and "power_ok g powerM"
  shows "okE (\<lambda>P. int (length P) = nodes_n g \<and>
      (\<forall>k. 0 \<le> k \<and> k < g_dimX g * g_dimZ g \<longrightarrow> P ! nat k = ddiv Tamb (Ramb g)) \<and>
      (\<forall>l i j. 0 \<le> l \<and> l < g_numP g \<and> 0 \<le> i \<and> i < g_dimX g \<and> 0 \<le> j \<and> j < g_dimZ g \<longrightarrow>
         P ! nat (node g (3 * l + 1) ((i * g_dimZ g + j) div g_dimX g) ((i * g_dimZ g + j) mod g_dimX g))
           = power_at powerM i j l \<and>
         (g_dimX g = g_dimZ g \<longrightarrow> P ! nat (node g (3 * l + 1) i j) = power_at powerM i j l)))
    (transient_rhs g powerM Tamb)"
proof -
  obtain a where a: "ambient_rhs g Tamb = Inr a" "int (length a) = nodes_n g"
      "\<And>k. 0 \<le> k \<Longrightarrow> k < g_dimX g * g_dimZ g \<Longrightarrow> a ! nat k = ddiv Tamb (Ramb g)"
    by (rule ambient_rhs_ok [OF assms(1)]) blast
  have cell: "0 \<le> i * g_dimZ g + j \<and> i * g_dimZ g + j < g_dimX g * g_dimZ g"
    if "0 \<le> i" "i < g_dimX g" "0 \<le> j" "j < g_dimZ g" for i j
    using cell_bounds(1,2) [of i "g_dimX g" j "g_dimZ g"] that by simp
  have inj: "i = i' \<and> j = j'" if "0 \<le> i" "i < g_dimX g" "0 \<le> j" "j < g_dimZ g"
      "0 \<le> i'" "i' < g_dimX g" "0 \<le> j'" "j' < g_dimZ g" "i * g_dimZ g + j = i' * g_dimZ g + j'" for i j i' j'
    using cell_bounds(3) [of i "g_dimX g" j "g_dimZ g" i' j'] that by simp
  obtain r where r: "foldE (put_power g powerM (\<lambda>i j. i * g_dimZ g + j)) (transient_cells g) a = Inr r" "length r = length a"
      "\<And>l i j. (l, i, j) \<in> set (transient_cells g) \<Longrightarrow> r ! nat (power_node g l (i * g_dimZ g + j)) = power_at powerM i j l"
      "\<And>k. 0 \<le> k \<Longrightarrow> k < g_dimX g * g_dimZ g \<Longrightarrow> r ! nat k = a ! nat k"
    by (rule put_power_ok [OF assms a(2) distinct_cells(2) mem_cells(2) cell inj]) blast+
  have "node g (3 * l + 1) (c div g_dimX g) (c mod g_dimX g) = power_node g l c" for l c
    by (simp add: node_def power_node_def algebra_simps)
  moreover have "node g (3 * l + 1) i j = power_node g l (i * g_dimZ g + j)" if "g_dimX g = g_dimZ g" for l i j
    using that by (simp add: node_def power_node_def algebra_simps)
  ultimately show ?thesis using a r by (simp add: transient_rhs_cells mem_cells)
qed

text \<open>C30. The transient solver puts the power of the cell (i, j) at the position of the
  cell that is numbered \<open>i * dimZ + j\<close>, although the matrix numbers it \<open>j * dimX + i\<close>: on a
  square chip the power map enters transposed, otherwise scrambled.\<close>

theorem transient_rhs_transposed:
  assumes "grid_ok g" and "power_ok g powerM"
  shows "okE (\<lambda>P. int (length P) = nodes_n g \<and>
      (\<forall>k. 0 \<le> k \<and> k < g_dimX g * g_dimZ g \<longrightarrow> P ! nat k = ddiv Tamb (Ramb g)) \<and>
      (\<forall>l i j. 0 \<le> l \<and> l < g_numP g \<and> 0 \<le> i \<and> i < g_dimX g \<and> 0 \<le> j \<and> j < g_dimZ g \<longrightarrow>
         P ! nat (node g (3 * l + 1) ((i * g_dimZ g + j) div g_dimX g) ((i * g_dimZ g + j) mod g_dimX g))
           = power_at powerM i j l \<and>
         (g_dimX g = g_dimZ g \<longrightarrow> P ! nat (node g (3 * l + 1) i j) = power_at powerM i j l)))
    (transient_rhs g powerM Tamb)"
  by (rule transient_rhs_ok [OF assms])

theorem transient_rhs_transposed_witness:
  "okE (\<lambda>P. P ! nat (node ex_grid 1 0 1) = d_of_int 1) (transient_rhs ex_grid ex_power (d_of_int 300)) \<and>
   power_at ex_power 1 0 0 = d_of_int 10"
proof
  show "okE (\<lambda>P. P ! nat (node ex_grid 1 0 1) = d_of_int 1) (transient_rhs ex_grid ex_power (d_of_int 300))"
  proof (rule okE_mono [OF transient_rhs_transposed [OF ex_grid_ok ex_power_ok]], elim conjE)
    fix P assume "\<forall>l i j. 0 \<le> l \<and> l < g_numP ex_grid \<and> 0 \<le> i \<and> i < g_dimX ex_grid \<and> 0 \<le> j \<and> j < g_dimZ ex_grid \<longrightarrow>
         P ! nat (node ex_grid (3 * l + 1) ((i * g_dimZ ex_grid + j) div g_dimX ex_grid) ((i * g_dimZ ex_grid + j) mod g_dimX ex_grid))
           = power_at ex_power i j l \<and>
         (g_dimX ex_grid = g_dimZ ex_grid \<longrightarrow> P ! nat (node ex_grid (3 * l + 1) i j) = power_at ex_power i j l)"
    from this [rule_format, of 0 0 1] show "P ! nat (node ex_grid 1 0 1) = d_of_int 1"
      using ex_power_at [of 0 1] by (simp add: ex_grid_def)
  qed
  show "power_at ex_power 1 0 0 = d_of_int 10" using ex_power_at [of 1 0] by simp
qed


section \<open>A time step\<close>

text \<open>The explicit formula at a node: its row of the matrix, from left to right.\<close>

definition euler_entry ::
  "grid \<Rightarrow> double list \<Rightarrow> double list \<Rightarrow> double \<Rightarrow> double list \<Rightarrow> int \<Rightarrow> entry \<Rightarrow> double \<Rightarrow> double" where
  "euler_entry g Cap P dt Tp k e t =
     (let c = Cap ! nat (k div (g_dimX g * g_dimZ g)) in
      if col_of e = k then
        dadd t (dadd (dmul (dsub (d_of_int 1) (ddiv (dmul (e_val e) dt) c)) (Tp ! nat k))
                     (ddiv (dmul (P ! nat k) dt) c))
      else dsub t (ddiv (dmul (dmul (e_val e) (Tp ! nat (col_of e))) dt) c))"

definition euler_node ::
  "grid \<Rightarrow> double list \<Rightarrow> double list \<Rightarrow> double \<Rightarrow> double list \<Rightarrow> int \<times> int \<times> int \<Rightarrow> double" where
  "euler_node g Cap P dt Tp p = fold (euler_entry g Cap P dt Tp (number g p)) (row_of g p) dzero"

definition euler_step :: "grid \<Rightarrow> double list \<Rightarrow> double list \<Rightarrow> double \<Rightarrow> double list \<Rightarrow> double list" where
  "euler_step g Cap P dt Tp = map (euler_node g Cap P dt Tp) (midx_nodes g)"

definition heat_one ::
  "grid \<Rightarrow> double list \<Rightarrow> double list \<Rightarrow> double \<Rightarrow> double list \<Rightarrow> entry \<Rightarrow> double list \<Rightarrow> double list result" where
  "heat_one g Cap P dt Tp e T = heat_entry g [e] Cap P dt Tp 0 T"

lemma heat_entry_vget: "heat_entry g M Cap P dt Tp b T = bindE (vget M b) (\<lambda>e. heat_one g Cap P dt Tp e T)"
  by (simp add: heat_one_def heat_entry_def vget_def)

lemma foldE_enumerate: "foldE (\<lambda>(n, x). F x) (enumerate k xs) s = foldE F xs s"
  by (induction xs arbitrary: k s) (auto simp: bindE_def split: sum.splits)

lemma heat_loop_entries:
  "foldE (heat_entry g M Cap P dt Tp) (indices (int (length M))) T = foldE (heat_one g Cap P dt Tp) M T"
proof -
  have "heat_entry g M Cap P dt Tp = (\<lambda>b T. bindE (vget M b) (\<lambda>e. heat_one g Cap P dt Tp e T))"
    by (simp add: heat_entry_vget fun_eq_iff)
  then show ?thesis using foldE_vget [of "[]" M "\<lambda>n e. heat_one g Cap P dt Tp e" T]
    by (simp add: indices_def foldE_enumerate)
qed

definition heat_sizes :: "grid \<Rightarrow> double list \<Rightarrow> double list \<Rightarrow> double list \<Rightarrow> bool" where
  "heat_sizes g Cap P Tp \<longleftrightarrow> int (length Cap) = numLayer g + 1 \<and> int (length P) = nodes_n g \<and> int (length Tp) = nodes_n g"

lemma div_less_mult:
  assumes "0 < (N::int)" and "x < m * N"
  shows "x div N < m"
proof (rule ccontr)
  assume "\<not> x div N < m"
  then have "m * N \<le> x div N * N" using assms(1) by (intro mult_right_mono) simp_all
  also have "\<dots> \<le> x" using assms(1) by (simp add: minus_mod_eq_div_mult [symmetric])
  finally show False using assms(2) by simp
qed

lemma number_layer:
  assumes "grid_ok g" and "in_grid g p"
  shows "0 \<le> number g p sdiv (g_dimX g * g_dimZ g)" and "number g p sdiv (g_dimX g * g_dimZ g) < numLayer g + 1"
    and "number g p sdiv (g_dimX g * g_dimZ g) = number g p div (g_dimX g * g_dimZ g)"
proof -
  have N: "0 < g_dimX g * g_dimZ g" using strides(1) [OF assms(1)] by simp
  note n = number_small [OF assms]
  show d: "number g p sdiv (g_dimX g * g_dimZ g) = number g p div (g_dimX g * g_dimZ g)"
    using N n by (intro sdiv_nonneg) simp_all
  show "0 \<le> number g p sdiv (g_dimX g * g_dimZ g)" using N n by (simp add: d pos_imp_zdiv_nonneg_iff)
  have "number g p < (numLayer g + 1) * (g_dimX g * g_dimZ g)" using n by (simp add: mult.commute)
  then show "number g p sdiv (g_dimX g * g_dimZ g) < numLayer g + 1"
    unfolding d by (rule div_less_mult [OF N])
qed

lemma heat_one_ok:
  assumes g: "grid_ok g" and p: "in_grid g p" and e: "e \<in> set (row_of g p)" and s: "heat_sizes g Cap P Tp"
    and T: "number g p < int (length T)"
  shows "heat_one g Cap P dt Tp e T = Inr (T[nat (number g p) := euler_entry g Cap P dt Tp (number g p) e (T ! nat (number g p))])"
proof -
  let ?k = "number g p" and ?c = "col_of e"
  note n = number_small [OF g p] and r = row_entry [OF g p e] and l = number_layer [OF g p]
  have N: "g_dimX g * g_dimZ g \<noteq> 0" using strides(1) [OF g] by auto
  have lt: "x < 2 ^ 31" if "x < nodes_n g" for x using that g by (simp add: grid_ok_def)
  have i: "to_int (dadd (e_row e) (dlit 1 100)) = Inr ?k" "to_int (dadd (e_col e) (dlit 1 100)) = Inr ?c"
    using r n lt [of ?k] lt [of ?c] by (simp_all add: to_int_def dtrunc_index)
  have v: "vget Cap (?k sdiv (g_dimX g * g_dimZ g)) = Inr (Cap ! nat (?k div (g_dimX g * g_dimZ g)))"
      "vget Tp ?c = Inr (Tp ! nat ?c)" "vget Tp ?k = Inr (Tp ! nat ?k)" "vget P ?k = Inr (P ! nat ?k)" "vget T ?k = Inr (T ! nat ?k)"
      "vset T ?k x = Inr (T[nat ?k := x])" for x
    using s T n r l by (simp_all add: vget_def vset_def heat_sizes_def)
  show ?thesis
    using N by (cases "?c = ?k") (simp_all add: heat_one_def heat_entry_def vget_def [of "[e]"] i v Let_def euler_entry_def)
qed

lemma heat_row_ok:
  assumes g: "grid_ok g" and p: "in_grid g p" and s: "heat_sizes g Cap P Tp" and "number g p < int (length T)"
    and "set es \<subseteq> set (row_of g p)"
  shows "foldE (heat_one g Cap P dt Tp) es T =
    Inr (T[nat (number g p) := fold (euler_entry g Cap P dt Tp (number g p)) es (T ! nat (number g p))])"
  using assms(4,5)
proof (induction es arbitrary: T)
  case (Cons e es)
  then show ?case
    using number_small [OF g p] by (simp add: heat_one_ok [OF g p _ s] nat_less_iff)
qed simp

lemma heat_rows_ok:
  assumes g: "grid_ok g" and s: "heat_sizes g Cap P Tp"
    and "map (number g) ps = indices (int (length ps))" and "\<forall>p \<in> set ps. in_grid g p"
  shows "foldE (heat_one g Cap P dt Tp) (concat (map (row_of g) ps)) (replicate (length ps + m) dzero) =
    Inr (map (euler_node g Cap P dt Tp) ps @ replicate m dzero)"
  using assms(3,4)
proof (induction ps arbitrary: m rule: rev_induct)
  case (snoc p ps)
  have n: "number g p = int (length ps)" "map (number g) ps = indices (int (length ps))"
    using snoc.prems(1) by (simp_all add: indices_Suc flip: of_nat_Suc)
  let ?T = "map (euler_node g Cap P dt Tp) ps @ replicate (Suc m) dzero"
  have "foldE (heat_one g Cap P dt Tp) (concat (map (row_of g) ps)) (replicate (length ps + Suc m) dzero) = Inr ?T"
    using snoc.IH [of "Suc m"] snoc.prems n by simp
  moreover have "foldE (heat_one g Cap P dt Tp) (row_of g p) ?T =
      Inr (?T[length ps := fold (euler_entry g Cap P dt Tp (number g p)) (row_of g p) (?T ! length ps)])"
    using heat_row_ok [OF g _ s, of p ?T "row_of g p"] snoc.prems n by simp
  moreover have "?T[length ps := x] = map (euler_node g Cap P dt Tp) ps @ x # replicate m dzero" for x
    by (simp add: list_update_append)
  moreover have "?T ! length ps = dzero" by (simp add: nth_append)
  ultimately show ?case by (simp add: foldE_append euler_node_def del: replicate_Suc)
qed simp

lemma heat_step_ok:
  assumes g: "grid_ok g" and "heat_sizes g Cap P Tp" and "calculate_Midx_array g = Inr (M, n)"
  shows "heat_step g M n Cap P dt Tp = Inr (euler_step g Cap P dt Tp)"
proof -
  have M: "M = concat (map (row_of g) (midx_nodes g))" and n: "n = int (length M)"
    using assms(3) Midx_ok [OF g] length_rows [OF g] by auto
  have "length (midx_nodes g) + 0 = nat (nodes_n g)" using length_midx_nodes [OF g] by simp
  then show ?thesis
    using heat_rows_ok [OF g assms(2), of "midx_nodes g" dt 0] midx_nodes_numbers [OF g] length_midx_nodes [OF g]
    by (simp add: heat_step_def tiled_loop_foldE n heat_loop_entries euler_step_def set_midx_nodes flip: M)
qed

lemma transient_solver_ok:
  assumes "grid_ok g" and "power_ok g powerM" and "int (length T_trans) = nodes_n g"
  shows "bindE (calculate_Midx_array g) (\<lambda>(Midx, MidxSize).
      transient_thermal_solver g powerM Midx MidxSize
        (calculate_Cap_array (g_W g) (g_Lc g) (g_numP g) (g_dimX g) (g_dimZ g)) time iter T_trans Tamb) =
    bindE (transient_rhs g powerM Tamb) (\<lambda>P.
      Inr ((euler_step g (calculate_Cap_array (g_W g) (g_Lc g) (g_numP g) (g_dimX g) (g_dimZ g)) P
        (ddiv time (d_of_int iter)) ^^ nat iter) T_trans)) \<and>
    okE (\<lambda>P. int (length P) = nodes_n g) (transient_rhs g powerM Tamb)"
proof -
  obtain M n where M: "calculate_Midx_array g = Inr (M, n)" using Midx_ok [OF assms(1)] by blast
  obtain P where P: "transient_rhs g powerM Tamb = Inr P" "int (length P) = nodes_n g"
    using transient_rhs_ok [OF assms(1,2), of Tamb] by (auto elim: okE_E)
  let ?Cap = "calculate_Cap_array (g_W g) (g_Lc g) (g_numP g) (g_dimX g) (g_dimZ g)" and ?dt = "ddiv time (d_of_int iter)"
  have cap: "int (length ?Cap) = numLayer g + 1"
    using assms(1) by (simp add: calculate_Cap_array_def Let_def numLayer_def grid_ok_def)
  have steps: "foldE (\<lambda>_ Tp. heat_step g M n ?Cap P ?dt Tp) xs T = Inr ((euler_step g ?Cap P ?dt ^^ length xs) T)"
    if "int (length T) = nodes_n g" for xs :: "int list" and T
    using that
  proof (induction xs arbitrary: T)
    case (Cons x xs)
    have "heat_step g M n ?Cap P ?dt T = Inr (euler_step g ?Cap P ?dt T)"
      using heat_step_ok [OF assms(1) _ M] cap P(2) Cons.prems by (simp add: heat_sizes_def)
    moreover have "int (length (euler_step g ?Cap P ?dt T)) = nodes_n g"
      using length_midx_nodes [OF assms(1)] by (simp add: euler_step_def)
    ultimately show ?case using Cons.IH by (simp add: funpow_swap1)
  qed simp
  show ?thesis using M P steps [OF assms(3), of "indices iter"] by (simp add: transient_thermal_solver_def Let_def)
qed

text \<open>C9. With the arrays that the other functions build, the transient solver never reads or
  writes out of bounds, and its result is \<open>iter\<close> steps of the explicit formula: every node gets
  the sum over its row of the matrix, computed with the temperatures before the step.\<close>

theorem transient_solver_euler:
  assumes "grid_ok g" and "power_ok g powerM" and "int (length T_trans) = nodes_n g"
  shows "bindE (calculate_Midx_array g) (\<lambda>(Midx, MidxSize).
      transient_thermal_solver g powerM Midx MidxSize
        (calculate_Cap_array (g_W g) (g_Lc g) (g_numP g) (g_dimX g) (g_dimZ g)) time iter T_trans Tamb) =
    bindE (transient_rhs g powerM Tamb) (\<lambda>P.
      Inr ((euler_step g (calculate_Cap_array (g_W g) (g_Lc g) (g_numP g) (g_dimX g) (g_dimZ g)) P
        (ddiv time (d_of_int iter)) ^^ nat iter) T_trans)) \<and>
    okE (\<lambda>P. int (length P) = nodes_n g) (transient_rhs g powerM Tamb)"
  by (rule transient_solver_ok [OF assms])

theorem transient_solver_euler_witness:
  "okE (\<lambda>(M, n). \<exists>T. transient_thermal_solver ex_grid ex_power M n
      (calculate_Cap_array (g_W ex_grid) (g_Lc ex_grid) 1 3 4) (dlit 1 1000) 2 (replicate 48 (d_of_int 300)) (d_of_int 300) = Inr T)
    (calculate_Midx_array ex_grid)"
proof -
  have g: "g_numP ex_grid = 1" "g_dimX ex_grid = 3" "g_dimZ ex_grid = 4" by (simp_all add: ex_grid_def)
  have "int (length (replicate 48 (d_of_int 300))) = nodes_n ex_grid" by (simp add: ex_grid_def numLayer_def)
  from transient_solver_euler [OF ex_grid_ok ex_power_ok this, of "dlit 1 1000" 2 "d_of_int 300"]
  show ?thesis unfolding g by (auto simp: okE_iff bindE_eq_Inr)
qed

end
