(* ===== verification/Thermal_Plan.thy ===== *)
theory Thermal_Plan
  imports Thermal_Example Thermal_Heat
begin

text \<open>
  Properties of the thermal calculator's map of the chip: the floor plan is a best factorisation,
  the vaults of a memory cube fill it, the banks of a plain memory can miss it, and the rows that
  a bank refreshes in turn.
\<close>

section \<open>The floor plan\<close>

text \<open>The aspect ratio of a plan of \<open>x\<close> by \<open>y\<close> banks.\<close>

definition aspect :: "double \<Rightarrow> double \<Rightarrow> int \<Rightarrow> int \<Rightarrow> double" where
  "aspect xd yd x y =
     (let xs = dmul (d_of_int x) xd; ys = dmul (d_of_int y) yd
      in if dle ys xs then ddiv (ddiv xs (d_of_int y)) yd else ddiv (ddiv ys (d_of_int x)) xd)"

definition plan_inv :: "double \<Rightarrow> double \<Rightarrow> int \<Rightarrow> int set \<Rightarrow> int \<times> double \<Rightarrow> bool" where
  "plan_inv xd yd tot Y st \<longleftrightarrow>
     (\<forall>y \<in> Y. y dvd tot \<longrightarrow> \<not> dless (aspect xd yd (tot div y) y) (snd st)) \<and>
     (st = (1, d_of_int 1000) \<or>
      (\<exists>y \<in> Y. y dvd tot \<and> fst st = tot div y \<and> snd st = aspect xd yd (tot div y) y \<and> dless (snd st) (d_of_int 1000)))"

lemma xy_step_eq:
  assumes "1 \<le> tot" and "1 \<le> y"
  shows "xy_step xd yd tot y st =
    (if y dvd tot \<and> dless (aspect xd yd (tot div y) y) (snd st) then (tot div y, aspect xd yd (tot div y) y) else st)"
proof -
  have d: "tot sdiv y = tot div y" using assms by (intro sdiv_nonneg) simp_all
  have "tot div y * y = tot \<longleftrightarrow> y dvd tot" using dvd_div_mult_self [of y tot] by (metis dvd_triv_right)
  then show ?thesis by (simp add: xy_step_def d Let_def aspect_def split_beta)
qed

lemma plan_inv_step:
  assumes "1 \<le> tot" and "1 \<le> y" and "plan_inv xd yd tot Y st"
  shows "plan_inv xd yd tot (insert y Y) (xy_step xd yd tot y st)"
proof (cases "y dvd tot \<and> dless (aspect xd yd (tot div y) y) (snd st)")
  case True
  let ?a = "aspect xd yd (tot div y) y"
  have "dless ?a (d_of_int 1000)"
    using True assms(3) dless_trans [of ?a "snd st" "d_of_int 1000"] by (auto simp: plan_inv_def)
  moreover have "\<not> dless (aspect xd yd (tot div z) z) ?a" if "z \<in> insert y Y" "z dvd tot" for z
    using that True assms(3) dless_trans [of "aspect xd yd (tot div z) z" ?a "snd st"]
    by (auto simp: plan_inv_def)
  ultimately show ?thesis using True assms(1,2) by (auto simp: xy_step_eq plan_inv_def)
next
  case False
  then show ?thesis using assms by (auto simp: xy_step_eq plan_inv_def)
qed

lemma plan_inv_fold:
  assumes "1 \<le> tot" and "\<forall>y \<in> set ys. 1 \<le> y" and "plan_inv xd yd tot Y st"
  shows "plan_inv xd yd tot (Y \<union> set ys) (fold (xy_step xd yd tot) ys st)"
  using assms(2,3)
proof (induction ys arbitrary: Y st)
  case (Cons y ys)
  then have "plan_inv xd yd tot (insert y Y) (xy_step xd yd tot y st)"
    by (intro plan_inv_step [OF assms(1)]) simp_all
  with Cons.IH [of "insert y Y"] Cons.prems show ?case by simp
qed simp

lemma determineXY_inv:
  assumes "1 \<le> tot"
  obtains asr where "plan_inv xd yd tot {1..tot} (determineXY xd yd tot, asr)"
proof -
  have "set (map (\<lambda>k. k + 1) (indices tot)) = {1..tot}"
    by (auto simp: image_iff intro!: bexI [of _ "_ - 1"])
  moreover have "plan_inv xd yd tot {} (1, d_of_int 1000)" by (simp add: plan_inv_def)
  ultimately have "plan_inv xd yd tot {1..tot} (fold (xy_step xd yd tot) (map (\<lambda>k. k + 1) (indices tot)) (1, d_of_int 1000))"
    using plan_inv_fold [OF assms, of "map (\<lambda>k. k + 1) (indices tot)" xd yd "{}"] by simp
  then show thesis using that unfolding determineXY_def by (metis prod.collapse)
qed

lemma determineXY_plan:
  assumes "1 \<le> tot"
  shows "determineXY xd yd tot dvd tot \<and> 1 \<le> determineXY xd yd tot \<and> determineXY xd yd tot \<le> tot \<and>
    (\<forall>y. 1 \<le> y \<and> y dvd tot \<longrightarrow>
       \<not> dless (aspect xd yd (tot div y) y) (aspect xd yd (determineXY xd yd tot) (tot div determineXY xd yd tot))
       \<or> \<not> dless (aspect xd yd (tot div y) y) (d_of_int 1000))"
proof -
  let ?x = "determineXY xd yd tot"
  obtain asr where inv: "plan_inv xd yd tot {1..tot} (?x, asr)" by (rule determineXY_inv [OF assms])
  have all: "\<not> dless (aspect xd yd (tot div y) y) asr" if "1 \<le> y" "y dvd tot" for y
    using inv that zdvd_imp_le [OF that(2)] assms by (simp add: plan_inv_def)
  show ?thesis
  proof (cases "?x = 1 \<and> asr = d_of_int 1000")
    case True
    then show ?thesis using all assms by simp
  next
    case False
    with inv obtain y where y: "1 \<le> y" "y dvd tot" "?x = tot div y" "asr = aspect xd yd (tot div y) y"
      by (auto simp: plan_inv_def)
    then have x: "?x * y = tot" by simp
    have p: "1 \<le> ?x" using x y(1) assms by (smt (verit) mult_nonneg_nonpos mult_le_0_iff)
    have "tot div ?x = y" using x p by (metis nonzero_mult_div_cancel_left not_one_le_zero)
    moreover have "?x dvd tot" using x by (metis dvd_triv_left)
    ultimately show ?thesis using p zdvd_imp_le [of ?x tot] assms y all by auto
  qed
qed

text \<open>\<open>determineXY\<close> returns a divisor of the number of banks or vaults, so the plan holds all
  of them, and no factorisation has a smaller aspect ratio than the one chosen (the plan of one
  column stays when no ratio is below 1000).\<close>

theorem determineXY_best:
  assumes "1 \<le> tot"
  shows "determineXY xd yd tot dvd tot \<and> 1 \<le> determineXY xd yd tot \<and> determineXY xd yd tot \<le> tot \<and>
    (\<forall>y. 1 \<le> y \<and> y dvd tot \<longrightarrow>
       \<not> dless (aspect xd yd (tot div y) y) (aspect xd yd (determineXY xd yd tot) (tot div determineXY xd yd tot))
       \<or> \<not> dless (aspect xd yd (tot div y) y) (d_of_int 1000))"
  by (rule determineXY_plan [OF assms])

theorem determineXY_best_witness:
  "determineXY (d_of_int 1) (d_of_int 1) 12 dvd 12 \<and> 1 \<le> determineXY (d_of_int 1) (d_of_int 1) 12"
  using determineXY_best [of 12 "d_of_int 1" "d_of_int 1"] by simp

section \<open>Places\<close>

lemma divmod_bij:
  assumes "1 \<le> A" and "1 \<le> (B::int)"
  shows "bij_betw (\<lambda>k. (k div B, k mod B)) {0..<A * B} ({0..<A} \<times> {0..<B})"
proof (rule bij_betw_byWitness [where f' = "\<lambda>(q, r). q * B + r"])
  have "k div B < A" if "0 \<le> k" "k < A * B" for k using that assms div_less_mult [of B k A] by simp
  then show "(\<lambda>k. (k div B, k mod B)) ` {0..<A * B} \<subseteq> {0..<A} \<times> {0..<B}"
    using assms by (auto simp: pos_imp_zdiv_nonneg_iff)
  show "(\<lambda>(q, r). q * B + r) ` ({0..<A} \<times> {0..<B}) \<subseteq> {0..<A * B}"
    using cell_bounds(1,2) [where B = B] by auto
qed (use assms in auto)

lemma swap_bij: "bij_betw f S (A \<times> B) \<Longrightarrow> bij_betw (\<lambda>x. prod.swap (f x)) S (B \<times> A)"
  using bij_betw_trans [of f S "A \<times> B" prod.swap "B \<times> A"] by (simp add: bij_betw_def comp_def product_swap)

text \<open>In a memory cube every channel has a place of its own in the plan of vaults, and every
  place is taken, in both orders.\<close>

theorem MapToVault_bijection:
  assumes "IsHMC (tc_cfg c)" and "1 \<le> channels (tc_cfg c)" and "init_geometry c = Inr geo"
  shows "1 \<le> vault_x geo \<and> 1 \<le> vault_y geo \<and> vault_x geo * vault_y geo = channels (tc_cfg c) \<and>
    (\<exists>f. bij_betw f {0..<channels (tc_cfg c)} ({0..<vault_x geo} \<times> {0..<vault_y geo}) \<and>
       (\<forall>ch \<in> {0..<channels (tc_cfg c)}. MapToVault c geo ch = Inr (f ch)))"
proof -
  define vx where "vx = determineXY (dmul (d_of_int 1) (bank_asr (tc_th c))) (dmul (d_of_int 2) (d_of_int 1)) (channels (tc_cfg c))"
  have vx: "vx dvd channels (tc_cfg c)" "1 \<le> vx" "vx \<le> channels (tc_cfg c)"
    unfolding vx_def using determineXY_plan [OF assms(2)] by blast+
  have geo: "vault_x geo = vx" "vault_y geo = channels (tc_cfg c) div vx"
    using assms vx by (auto simp: init_geometry_def Let_def vx_def [symmetric] idiv_def sdiv_nonneg)
  then have p: "vault_x geo * vault_y geo = channels (tc_cfg c)" "1 \<le> vault_y geo"
    using vx by (auto simp: pos_imp_zdiv_pos_iff int_one_le_iff_zero_less)
  have X: "1 \<le> vault_x geo" using geo vx by simp
  show ?thesis
  proof (cases "bank_order (tc_th c) = 0")
    case True
    have "bij_betw (\<lambda>k. prod.swap (k div vault_x geo, k mod vault_x geo)) {0..<channels (tc_cfg c)}
        ({0..<vault_x geo} \<times> {0..<vault_y geo})"
      using swap_bij [OF divmod_bij [OF p(2) X]] p(1) by (simp add: mult.commute)
    moreover have "MapToVault c geo ch = Inr (prod.swap (ch div vault_x geo, ch mod vault_x geo))"
      if "ch \<in> {0..<channels (tc_cfg c)}" for ch
      using that assms(1) X True by (simp add: MapToVault_def Let_def idiv_def sdiv_nonneg smod_nonneg)
    ultimately show ?thesis using p X by blast
  next
    case False
    have "bij_betw (\<lambda>k. (k div vault_y geo, k mod vault_y geo)) {0..<channels (tc_cfg c)}
        ({0..<vault_x geo} \<times> {0..<vault_y geo})"
      using divmod_bij [OF X p(2)] p(1) by simp
    moreover have "MapToVault c geo ch = Inr (ch div vault_y geo, ch mod vault_y geo)"
      if "ch \<in> {0..<channels (tc_cfg c)}" for ch
      using that assms(1) p(2) False by (simp add: MapToVault_def Let_def idiv_def sdiv_nonneg smod_nonneg)
    ultimately show ?thesis using p X by blast
  qed
qed

theorem MapToVault_bijection_witness:
  "\<exists>geo. init_geometry ex_hmc = Inr geo \<and> vault_x geo * vault_y geo = 4"
proof -
  have c: "IsHMC (tc_cfg ex_hmc)" "channels (tc_cfg ex_hmc) = 4" by (simp_all add: ex_hmc_def IsHMC_def)
  have "1 \<le> determineXY xd yd 4" for xd yd using determineXY_plan [of 4] by simp
  then have "determineXY xd yd 4 \<noteq> 0" for xd yd by (metis not_one_le_zero)
  then obtain geo where geo: "init_geometry ex_hmc = Inr geo"
    using c by (simp add: init_geometry_def Let_def idiv_def)
  then show ?thesis using MapToVault_bijection [OF c(1) _ geo] c(2) by simp
qed

lemma rectangle_unique:
  assumes "2 \<le> x" and "2 * g \<le> y" and "x * y = g * 4" and "0 < (g :: int)"
  shows "x = 2 \<and> y = 2 * g"
proof -
  have "x < 3"
  proof (rule ccontr)
    assume "\<not> x < 3"
    then have "3 * (2 * g) \<le> x * y" using assms by (intro mult_mono) auto
    with assms(3,4) show False by simp
  qed
  with assms(1) have "x = 2" by simp
  with assms(3) show ?thesis by simp
qed

lemma plain_geometry:
  assumes "\<not> IsHMC (tc_cfg c)" and "\<not> IsHBM (tc_cfg c)" and "1 \<le> banks (tc_cfg c)" and "init_geometry c = Inr geo"
  shows "1 \<le> bank_x geo" and "bank_x geo * bank_y geo = banks (tc_cfg c)"
proof -
  define bx where "bx = determineXY (bank_asr (tc_th c)) (d_of_int 1) (banks (tc_cfg c))"
  have bx: "bx dvd banks (tc_cfg c)" "1 \<le> bx" unfolding bx_def using determineXY_plan [OF assms(3)] by blast+
  have "bank_x geo = bx" "bank_y geo = banks (tc_cfg c) div bx"
    using assms bx by (auto simp: init_geometry_def Let_def bx_def [symmetric] idiv_def sdiv_nonneg)
  with bx show "1 \<le> bank_x geo" "bank_x geo * bank_y geo = banks (tc_cfg c)" by simp_all
qed

text \<open>C40. Where the banks of a plain memory are placed and the plan that \<open>determineXY\<close> chooses for them
  are two computations that do not know of each other. With several bank groups of 4 banks, whatever the
  order of the banks and the aspect ratio, every bank lies inside the plan in exactly two cases: the plan has
  2 columns and twice as many rows as there are groups, or the other way round. Every other plan has
  banks outside it, and the witness is one: the aspect ratio of 16 of the DDR4 x4 devices that come with the
  program gives a plan of one column.\<close>

theorem banks_in_plan_iff:
  assumes "\<not> IsHMC (tc_cfg c)" and "\<not> IsHBM (tc_cfg c)" and "1 < bankgroups (tc_cfg c)"
    and "banks_per_group (tc_cfg c) = 4" and "banks (tc_cfg c) = bankgroups (tc_cfg c) * 4" and "init_geometry c = Inr geo"
  shows "(\<forall>g \<in> {0..<bankgroups (tc_cfg c)}. \<forall>b \<in> {0..<4}.
      okE (\<lambda>(x, y). 0 \<le> x \<and> x < bank_x geo \<and> 0 \<le> y \<and> y < bank_y geo) (MapToBank c geo g b)) \<longleftrightarrow>
    (bank_x geo, bank_y geo) \<in> {(2, 2 * bankgroups (tc_cfg c)), (2 * bankgroups (tc_cfg c), 2)}"
    (is "?all \<longleftrightarrow> ?fits")
proof
  let ?G = "bankgroups (tc_cfg c)"
  have xy: "bank_x geo * bank_y geo = ?G * 4" using plain_geometry(2) [OF assms(1,2) _ assms(6)] assms(3,5) by simp
  have yx: "bank_y geo * bank_x geo = ?G * 4" using xy by (simp add: mult.commute)
  have three: "(3 :: int) sdiv 2 = 1" "(3 :: int) smod 2 = 1" by (simp_all add: sdiv_nonneg smod_nonneg)
  assume ?all
  then have "okE (\<lambda>(x, y). 0 \<le> x \<and> x < bank_x geo \<and> 0 \<le> y \<and> y < bank_y geo) (MapToBank c geo (?G - 1) 3)"
    using assms(3) by (auto dest!: bspec [of _ _ "?G - 1"] bspec [of _ _ 3])
  then have "if bank_x geo \<le> bank_y geo then 2 \<le> bank_x geo \<and> 2 * ?G \<le> bank_y geo else 2 \<le> bank_y geo \<and> 2 * ?G \<le> bank_x geo"
    using assms(1-3) by (auto simp: MapToBank_def Let_def three split: if_splits)
  then show ?fits
    using rectangle_unique [OF _ _ xy] rectangle_unique [OF _ _ yx] assms(3) by (auto split: if_splits)
next
  assume fits: ?fits
  have "okE (\<lambda>(x, y). 0 \<le> x \<and> x < bank_x geo \<and> 0 \<le> y \<and> y < bank_y geo) (MapToBank c geo g b)"
    if g: "g \<in> {0..<bankgroups (tc_cfg c)}" and b: "b \<in> {0..<4}" for g b
  proof -
    from b have "b div 2 < 2" using div_less_mult [of 2 b 2] by simp
    with b have d: "0 \<le> b sdiv 2" "b sdiv 2 < 2" "0 \<le> b smod 2" "b smod 2 < 2"
      by (simp_all add: sdiv_nonneg smod_nonneg)
    from g have "0 \<le> g * 2" "g * 2 + 2 \<le> 2 * bankgroups (tc_cfg c)" by simp_all
    with d fits assms(1-3) show ?thesis by (auto simp: MapToBank_def Let_def)
  qed
  then show ?all by blast
qed

theorem banks_in_plan_iff_witness:
  "okE (\<lambda>geo. bank_x geo = 1 \<and> (\<exists>g \<in> {0..<4}. \<exists>b \<in> {0..<4}.
     \<not> okE (\<lambda>(x, y). 0 \<le> x \<and> x < bank_x geo \<and> 0 \<le> y \<and> y < bank_y geo) (MapToBank ex_ddr4 geo g b))) (init_geometry ex_ddr4)"
proof -
  have c: "\<not> IsHMC (tc_cfg ex_ddr4)" "\<not> IsHBM (tc_cfg ex_ddr4)" "bankgroups (tc_cfg ex_ddr4) = 4"
    "banks_per_group (tc_cfg ex_ddr4) = 4" "banks (tc_cfg ex_ddr4) = 16" "bank_asr (tc_th ex_ddr4) = d_of_int 16"
    by (simp_all add: ex_ddr4_def ex_thermal_params_def IsHMC_def IsHBM_def)
  have "determineXY (d_of_int 16) (d_of_int 1) 16 = 1" by code_simp
  then obtain geo where geo: "init_geometry ex_ddr4 = Inr geo" "bank_x geo = 1"
    using c by (auto simp: init_geometry_def Let_def idiv_def)
  with banks_in_plan_iff [OF c(1,2) _ c(4) _ geo(1)] c show ?thesis by auto
qed

section \<open>Refresh positions\<close>

definition refresh_at :: "thermal \<Rightarrow> int \<Rightarrow> int \<Rightarrow> int" where
  "refresh_at tc r b = refresh_count tc ! nat r ! nat b"

definition refresh_shape :: "thermal \<Rightarrow> int \<Rightarrow> int \<Rightarrow> bool" where
  "refresh_shape tc r b \<longleftrightarrow> 0 \<le> r \<and> r < int (length (refresh_count tc)) \<and>
     0 \<le> b \<and> b < int (length (refresh_count tc ! nat r))"

fun refresh_walk :: "thermal_config \<Rightarrow> int \<Rightarrow> int \<Rightarrow> nat \<Rightarrow> thermal \<Rightarrow> (int list \<times> thermal) result" where
  "refresh_walk c r b 0 tc = Inr ([], tc)"
| "refresh_walk c r b (Suc n) tc =
     bindE (next_refresh c r b tc) (\<lambda>(row_s, tc'). bindE (refresh_walk c r b n tc') (\<lambda>(rows, tc'').
     Inr (row_s # rows, tc'')))"

lemma next_refresh_ok:
  assumes "refresh_shape tc r b"
  obtains tc' where "next_refresh c r b tc = Inr (refresh_at tc r b * num_row_refresh (tc_th c), tc')"
    and "refresh_shape tc' r b"
    and "refresh_at tc' r b = (if (refresh_at tc r b + 1) * num_row_refresh (tc_th c) = rows (tc_cfg c) then 0
      else refresh_at tc r b + 1)"
  using assms that by (auto simp: next_refresh_def refresh_shape_def refresh_at_def vget_def vset_def)

lemma refresh_walk_up:
  assumes "refresh_shape tc r b" and "\<forall>i. 1 \<le> i \<and> i < int n \<longrightarrow> (refresh_at tc r b + i) * num_row_refresh (tc_th c) \<noteq> rows (tc_cfg c)"
    and "1 \<le> n"
  shows "\<exists>tc'. refresh_walk c r b n tc =
      Inr (map (\<lambda>i. (refresh_at tc r b + int i) * num_row_refresh (tc_th c)) [0..<n], tc') \<and>
    refresh_shape tc' r b \<and>
    refresh_at tc' r b = (if (refresh_at tc r b + int n) * num_row_refresh (tc_th c) = rows (tc_cfg c) then 0
      else refresh_at tc r b + int n)"
  using assms
proof (induction n arbitrary: tc)
  case (Suc n)
  obtain tc' where t: "next_refresh c r b tc = Inr (refresh_at tc r b * num_row_refresh (tc_th c), tc')"
      "refresh_shape tc' r b"
      "refresh_at tc' r b = (if (refresh_at tc r b + 1) * num_row_refresh (tc_th c) = rows (tc_cfg c) then 0
        else refresh_at tc r b + 1)"
    by (rule next_refresh_ok [OF Suc.prems(1)])
  show ?case
  proof (cases "n = 0")
    case True
    then show ?thesis using t by simp
  next
    case False
    then have at: "refresh_at tc' r b = refresh_at tc r b + 1" using t(3) Suc.prems(2) by (auto dest: spec [of _ 1])
    have "(refresh_at tc' r b + i) * num_row_refresh (tc_th c) \<noteq> rows (tc_cfg c)" if "1 \<le> i" "i < int n" for i
      using Suc.prems(2) [rule_format, of "i + 1"] that by (simp add: at algebra_simps)
    then obtain tc'' where w: "refresh_walk c r b n tc' =
        Inr (map (\<lambda>i. (refresh_at tc' r b + int i) * num_row_refresh (tc_th c)) [0..<n], tc'')"
        "refresh_shape tc'' r b"
        "refresh_at tc'' r b = (if (refresh_at tc' r b + int n) * num_row_refresh (tc_th c) = rows (tc_cfg c) then 0
          else refresh_at tc' r b + int n)"
      using Suc.IH [OF t(2)] False by auto
    have "map (\<lambda>i. (refresh_at tc r b + int i) * num_row_refresh (tc_th c)) [0..<Suc n] =
        refresh_at tc r b * num_row_refresh (tc_th c) # map (\<lambda>i. (refresh_at tc' r b + int i) * num_row_refresh (tc_th c)) [0..<n]"
      unfolding map_upt_Suc by (simp add: at ac_simps)
    moreover have "refresh_at tc' r b + int n = refresh_at tc r b + int (Suc n)" using at by simp
    ultimately show ?thesis using t(1) w by (simp del: upt_Suc of_nat_Suc)
  qed
qed simp

text \<open>The refreshes of a bank start at the rows 0, n, 2 n, ... in turn. Where the number n of rows
  per refresh divides the number of rows, all rows are covered and the position is 0 again; where
  it does not, the position never returns: after any number of refreshes it is that number
  times n, beyond the last row from some time on.\<close>

theorem refresh_cycle:
  assumes "refresh_shape tc r b" and "refresh_at tc r b = 0" and "1 \<le> num_row_refresh (tc_th c)" and "1 \<le> rows (tc_cfg c)"
    and "1 \<le> n" and "num_row_refresh (tc_th c) dvd rows (tc_cfg c) \<longrightarrow> int n * num_row_refresh (tc_th c) = rows (tc_cfg c)"
  shows "okE (\<lambda>(starts, tc'). starts = map (\<lambda>i. int i * num_row_refresh (tc_th c)) [0..<n] \<and>
      refresh_at tc' r b = (if num_row_refresh (tc_th c) dvd rows (tc_cfg c) then 0 else int n))
    (refresh_walk c r b n tc)"
proof -
  have "(refresh_at tc r b + i) * num_row_refresh (tc_th c) \<noteq> rows (tc_cfg c)" if "1 \<le> i" "i < int n" for i
  proof
    assume i: "(refresh_at tc r b + i) * num_row_refresh (tc_th c) = rows (tc_cfg c)"
    then have "int n * num_row_refresh (tc_th c) = i * num_row_refresh (tc_th c)"
      using assms(2,6) by (metis add_0 dvd_triv_right)
    then show False using assms(3) that by simp
  qed
  then obtain tc' where "refresh_walk c r b n tc = Inr (map (\<lambda>i. (refresh_at tc r b + int i) * num_row_refresh (tc_th c)) [0..<n], tc')"
      "refresh_at tc' r b = (if (refresh_at tc r b + int n) * num_row_refresh (tc_th c) = rows (tc_cfg c) then 0
      else refresh_at tc r b + int n)"
    using refresh_walk_up [OF assms(1) _ assms(5)] by blast
  moreover have "int n * num_row_refresh (tc_th c) = rows (tc_cfg c) \<longleftrightarrow> num_row_refresh (tc_th c) dvd rows (tc_cfg c)"
    using assms(6) by (metis dvd_triv_right)
  ultimately show ?thesis using assms(2) by simp
qed

theorem refresh_cycle_witness:
  "okE (\<lambda>(starts, tc'). length starts = 8192 \<and> refresh_at tc' 2 5 = 0)
      (refresh_walk ex_hbm 2 5 8192 (plan_state ex_hbm ex_hbm_plan))"
proof -
  have r: "refresh_count (plan_state ex_hbm ex_hbm_plan) = replicate 8 (replicate 16 0)"
    by (simp add: plan_state_def Let_def split_beta ex_hbm_def thermal.defs geometry.defs)
  have c: "num_row_refresh (tc_th ex_hbm) = 8" "rows (tc_cfg ex_hbm) = 65536"
    by (simp_all add: ex_thermal_params_def ex_hbm_def ex_cfg_def)
  have "refresh_shape (plan_state ex_hbm ex_hbm_plan) 2 5" "refresh_at (plan_state ex_hbm ex_hbm_plan) 2 5 = 0"
    by (simp_all add: refresh_shape_def refresh_at_def r)
  from refresh_cycle [OF this, of ex_hbm 8192] show ?thesis
    unfolding c by (auto elim!: okE_mono)
qed

end
