(* ===== verification/Thermal_Epoch.thy ===== *)
theory Thermal_Epoch
  imports Thermal_Example Thermal_Heat
begin

text \<open>
  The epochs of the thermal calculator. On a stacked memory the state keeps its shape under every
  operation, and an epoch or the final report never fails; on the other memories both always
  fail, since the loop over the cells increments the wrong variable. Also: the layout of the power
  that the solver is given, the constructor, and the number of time steps.
\<close>

section \<open>The number of time steps\<close>

lemma count_steps: "((\<lambda>n. n + 1) ^^ j) (k::int) = k + int j"
  by (induction j) simp_all

definition step_needed :: "double \<Rightarrow> double \<Rightarrow> nat \<Rightarrow> bool" where
  "step_needed t dt j \<longleftrightarrow> int_range (10 + int j) \<and> dle dt (ddiv t (d_of_int (10 + int j)))"

lemma time_while:
  obtains j where "while_option (\<lambda>n. int_range n \<and> dle dt (ddiv t (d_of_int n))) (\<lambda>n. n + 1) 10 = Some (10 + int j)"
    and "\<not> step_needed t dt j" and "\<forall>i < j. step_needed t dt i"
proof -
  have "\<not> step_needed t dt (2 ^ 31)" by (simp add: step_needed_def int_range_def)
  then have ex: "\<exists>j. \<not> step_needed t dt j" by blast
  define j where "j = (LEAST j. \<not> step_needed t dt j)"
  have "\<not> step_needed t dt j" unfolding j_def by (rule LeastI_ex [OF ex])
  moreover have "\<forall>i < j. step_needed t dt i" unfolding j_def using not_less_Least by blast
  moreover have "while_option (\<lambda>n. int_range n \<and> dle dt (ddiv t (d_of_int n))) (\<lambda>n. n + 1) 10 = Some (10 + int j)"
    unfolding while_option_def count_steps using ex by (simp add: j_def step_needed_def)
  ultimately show thesis using that by blast
qed

text \<open>C32. The search for the number of time steps always stops: with the least number from 10 on for
  which the time step is shorter than the bound for stability (or not comparable to it), or with an
  overflow of the counter when no \<open>int\<close> is enough.\<close>

theorem time_steps_result:
  "(\<exists>n \<ge> 10. time_steps t dt = Inr n \<and> int_range n \<and> \<not> dle dt (ddiv t (d_of_int n)) \<and>
      (\<forall>m. 10 \<le> m \<and> m < n \<longrightarrow> dle dt (ddiv t (d_of_int m)))) \<or>
   (time_steps t dt = Inl Overflow \<and> (\<forall>m. 10 \<le> m \<and> int_range m \<longrightarrow> dle dt (ddiv t (d_of_int m))))"
proof -
  obtain j where w: "while_option (\<lambda>n. int_range n \<and> dle dt (ddiv t (d_of_int n))) (\<lambda>n. n + 1) 10 = Some (10 + int j)"
    and j: "\<not> step_needed t dt j" "\<forall>i < j. step_needed t dt i" by (rule time_while)
  have below: "dle dt (ddiv t (d_of_int m))" if "10 \<le> m" "m < 10 + int j" for m
  proof -
    have "nat (m - 10) < j" using that by simp
    then have "step_needed t dt (nat (m - 10))" using j(2) by blast
    moreover have "10 + int (nat (m - 10)) = m" using that by simp
    ultimately show ?thesis unfolding step_needed_def by metis
  qed
  show ?thesis
  proof (cases "int_range (10 + int j)")
    case True
    then show ?thesis using j(1) below unfolding time_steps_def w step_needed_def
      by (intro disjI1 exI [of _ "10 + int j"]) simp
  next
    case False
    then have "m < 10 + int j" if "int_range m" for m using that by (simp add: int_range_def)
    then show ?thesis using below False unfolding time_steps_def w by simp
  qed
qed

theorem time_steps_result_witness: "time_steps (d_of_int 100) (d_of_int 9) = Inr 12"
proof -
  have d: "dle (d_of_int 9) (ddiv (d_of_int 100) (d_of_int 10))" "dle (d_of_int 9) (ddiv (d_of_int 100) (d_of_int 11))"
    "\<not> dle (d_of_int 9) (ddiv (d_of_int 100) (d_of_int 12))" by code_simp+
  have "\<not> (\<forall>m. 10 \<le> m \<and> int_range m \<longrightarrow> dle (d_of_int 9) (ddiv (d_of_int 100) (d_of_int m)))"
    using d(3) by (intro notI) (drule spec [of _ 12], simp add: int_range_def)
  then obtain n where
    n: "n \<ge> 10" "time_steps (d_of_int 100) (d_of_int 9) = Inr n" "\<not> dle (d_of_int 9) (ddiv (d_of_int 100) (d_of_int n))"
      "\<forall>m. 10 \<le> m \<and> m < n \<longrightarrow> dle (d_of_int 9) (ddiv (d_of_int 100) (d_of_int m))"
    using time_steps_result [of "d_of_int 100" "d_of_int 9"] by blast
  have "n \<noteq> 10" "n \<noteq> 11" using n(3) d(1,2) by auto
  moreover have "\<not> 12 < n" using n(4) d(3) by auto
  ultimately have "n = 12" using n(1) by linarith
  with n(2) show ?thesis by simp
qed

lemma time_steps_error: "time_steps t dt = Inl e \<Longrightarrow> e = Overflow"
  by (rule time_while [of dt t]) (auto simp: time_steps_def split: if_splits)

section \<open>The shape of the state\<close>

definition map_shape :: "'a geometry_scheme \<Rightarrow> double list list \<Rightarrow> bool" where
  "map_shape tc pm \<longleftrightarrow> int (length pm) = num_case tc \<and>
     (\<forall>m \<in> set pm. int (length m) = dimX tc * dimY tc * numP tc)"

definition temps_shape :: "thermal_config \<Rightarrow> thermal \<Rightarrow> bool" where
  "temps_shape c tc \<longleftrightarrow> int (length (T_trans tc)) = num_case tc \<and> int (length (T_final tc)) = num_case tc \<and>
     (\<forall>T \<in> set (T_trans tc). int (length T) = nodes_n (solver_grid c tc))"

definition dims_ok :: "thermal_config \<Rightarrow> 'a geometry_scheme \<Rightarrow> bool" where
  "dims_ok c tc \<longleftrightarrow> 1 \<le> dimX tc \<and> 1 \<le> dimY tc \<and> 0 \<le> num_case tc \<and> grid_ok (solver_grid c tc)"

definition thermal_ok :: "thermal_config \<Rightarrow> thermal \<Rightarrow> bool" where
  "thermal_ok c tc \<longleftrightarrow> dims_ok c tc \<and> map_shape tc (accu_Pmap tc) \<and> map_shape tc (cur_Pmap tc) \<and>
     temps_shape c tc \<and> calculate_Midx_array (solver_grid c tc) = Inr (Midx tc, MidxSize tc) \<and>
     Cap tc = calculate_Cap_array (g_W (solver_grid c tc)) (g_Lc (solver_grid c tc)) (g_numP (solver_grid c tc))
       (g_dimX (solver_grid c tc)) (g_dimZ (solver_grid c tc))"

lemma solver_grid_sel [simp]:
  "g_numP (solver_grid c tc) = numP tc" "g_dimX (solver_grid c tc) = dimX tc + 2"
  "g_dimZ (solver_grid c tc) = dimY tc + 2"
  by (simp_all add: solver_grid_def)

lemma shape_upd [simp]:
  "map_shape (tc\<lparr>cur_Pmap := a\<rparr>) = map_shape tc" "map_shape (tc\<lparr>accu_Pmap := a\<rparr>) = map_shape tc"
  "solver_grid c (tc\<lparr>cur_Pmap := a\<rparr>) = solver_grid c tc" "solver_grid c (tc\<lparr>accu_Pmap := a\<rparr>) = solver_grid c tc"
  "solver_grid c (tc\<lparr>T_trans := t\<rparr>) = solver_grid c tc" "solver_grid c (tc\<lparr>T_final := t\<rparr>) = solver_grid c tc"
  "map_shape (tc\<lparr>T_trans := t\<rparr>) = map_shape tc" "map_shape (tc\<lparr>T_final := t\<rparr>) = map_shape tc"
  by (simp_all add: fun_eq_iff map_shape_def solver_grid_def)

lemma one_margin [simp]: "(2::int) sdiv 2 = 1"
  by code_simp

lemma map_add_ok:
  assumes "map_shape tc pm" and "0 \<le> k" "k < num_case tc" "0 \<le> idx" "idx < dimX tc * dimY tc * numP tc"
  shows "okE (map_shape tc) (map_add k idx e pm)"
proof -
  have k: "nat k < length pm" using assms by (simp add: map_shape_def nat_less_iff)
  then have "int (length (pm ! nat k)) = dimX tc * dimY tc * numP tc" using assms(1) by (simp add: map_shape_def)
  then show ?thesis using assms k
    by (auto simp: map_add_def vget_def vset_def map_shape_def dest!: set_update_subset_insert [THEN subsetD])
qed

lemma map_add_shape:
  assumes "map_add k idx e pm = Inr pm'" and "map_shape tc pm"
  shows "map_shape tc pm'"
proof -
  have k: "0 \<le> k" "nat k < length pm" "pm' = pm[nat k := (pm ! nat k)[nat idx := dadd (pm ! nat k ! nat idx) e]]"
    using assms(1) by (auto simp: map_add_def bindE_eq_Inr vget_eq_Inr vset_eq_Inr)
  then have "int (length (pm ! nat k)) = dimX tc * dimY tc * numP tc" using assms(2) by (simp add: map_shape_def)
  then show ?thesis using assms(2) k(3)
    by (auto simp: map_shape_def dest!: set_update_subset_insert [THEN subsetD])
qed

lemma dims_pos:
  assumes "dims_ok c tc"
  shows "1 \<le> dimX tc * dimY tc" and "1 \<le> numP tc"
  using assms mult_mono [of 1 "dimX tc" 1 "dimY tc"] by (auto simp: dims_ok_def grid_ok_def)

lemma update_map_ok:
  assumes "dims_ok c tc" and "map_shape tc pm" and "0 \<le> j" "j < num_case tc"
  shows "okE (map_shape tc) (update_map tc e logic j pm)"
proof -
  let ?N = "dimX tc * dimY tc"
  note N = dims_pos [OF assms(1)]
  have le: "?N * (numP tc - 1) + ?N = ?N * numP tc" by (simp add: algebra_simps)
  have "okE (map_shape tc) (foldE (\<lambda>i. map_add j i e) (indices (?N * (numP tc - 1))) pm)"
    using assms(3,4) N le by (intro okE_foldE assms(2) map_add_ok) auto
  moreover have "okE (map_shape tc) (foldE (\<lambda>i. map_add j (?N * (numP tc - 1) + i) logic) (indices ?N) pm')"
    if "map_shape tc pm'" for pm'
  proof (intro okE_foldE that map_add_ok assms(3,4))
    fix i assume i: "i \<in> set (indices ?N)"
    then show "0 \<le> ?N * (numP tc - 1) + i" using N by simp
    show "?N * (numP tc - 1) + i < ?N * numP tc" using i le by simp
  qed
  ultimately show ?thesis unfolding update_map_def okE_bind by (rule okE_mono) simp
qed

definition put_map :: "bool \<Rightarrow> double list list \<Rightarrow> thermal \<Rightarrow> thermal" where
  "put_map is_trans pm tc = (if is_trans then tc\<lparr>cur_Pmap := pm\<rparr> else tc\<lparr>accu_Pmap := pm\<rparr>)"

lemma UpdatePowerMaps_ok:
  assumes "thermal_ok c tc"
  obtains pm where "UpdatePowerMaps c e is_trans clk tc = Inr (put_map is_trans pm tc)" and "map_shape tc pm"
proof -
  have d: "dims_ok c tc" and s: "map_shape tc (if is_trans then cur_Pmap tc else accu_Pmap tc)"
    using assms by (simp_all add: thermal_ok_def)
  have "okE (map_shape tc) (foldE (update_map tc e l) (indices (num_case tc)) (if is_trans then cur_Pmap tc else accu_Pmap tc))" for l
    by (intro okE_foldE s update_map_ok [OF d]) simp_all
  moreover define l where "l = dmul (ddiv (ddiv (avg_logic_power tc) (d_of_int (dimX tc))) (d_of_int (dimY tc)))
    (if is_trans then d_of_int (epoch_period (tc_cfg c)) else d_of_int (uint clk))"
  ultimately obtain pm where "foldE (update_map tc e l) (indices (num_case tc)) (if is_trans then cur_Pmap tc else accu_Pmap tc) = Inr pm"
      "map_shape tc pm" by (metis okE_E)
  then show thesis by (intro that) (simp_all add: UpdatePowerMaps_def Let_def put_map_def l_def)
qed

lemma put_map_ok: "thermal_ok c tc \<Longrightarrow> map_shape tc pm \<Longrightarrow> thermal_ok c (put_map b pm tc)"
  by (simp add: thermal_ok_def put_map_def dims_ok_def temps_shape_def)

text \<open>The states of the examples are well formed.\<close>

lemma plan_state_sel:
  "numP (plan_state c geo) = numP geo" "dimX (plan_state c geo) = dimX geo" "dimY (plan_state c geo) = dimY geo"
  "num_case (plan_state c geo) = num_case geo" "solver_grid c (plan_state c geo) = solver_grid c geo"
  "cur_Pmap (plan_state c geo) = replicate (nat (num_case geo)) (replicate (nat (numP geo * dimX geo * dimY geo)) dzero)"
  "accu_Pmap (plan_state c geo) = replicate (nat (num_case geo)) (replicate (nat (numP geo * dimX geo * dimY geo)) dzero)"
  "background_energy (plan_state c geo) = replicate (nat (channels (tc_cfg c))) (replicate (nat (ranks (tc_cfg c))) dzero)"
  by (simp_all add: plan_state_def Let_def split_beta geometry.defs thermal.defs solver_grid_def)

lemma plan_state_ok:
  assumes "dims_ok c geo"
  shows "thermal_ok c (plan_state c geo)"
proof -
  have g: "grid_ok (solver_grid c geo)" and n: "0 \<le> num_case geo" using assms by (simp_all add: dims_ok_def)
  have "0 \<le> dimX geo * dimY geo * numP geo" "0 \<le> numP geo" "0 \<le> dimX geo" "0 \<le> dimY geo"
    using assms dims_pos [OF assms] by (simp_all add: dims_ok_def)
  moreover from this have "0 \<le> (dimX geo + 2) * (dimY geo + 2) * (numP geo * 3 + 1)" by simp
  ultimately have "map_shape (plan_state c geo) (cur_Pmap (plan_state c geo))" "map_shape (plan_state c geo) (accu_Pmap (plan_state c geo))"
    "temps_shape c (plan_state c geo)"
    using n by (auto simp: map_shape_def temps_shape_def plan_state_sel ac_simps numLayer_def)
      (auto simp: plan_state_def Let_def split_beta geometry.defs thermal.defs initialize_Temperature_def ac_simps)
  then show ?thesis
    using assms Midx_ok [OF g] by (simp add: thermal_ok_def dims_ok_def plan_state_sel)
      (simp add: plan_state_def Let_def split_beta geometry.defs thermal.defs)
qed

lemma ex_hbm_dims: "dims_ok ex_hbm ex_hbm_plan"
  by (simp add: dims_ok_def grid_ok_def ex_hbm_plan_def numLayer_def)

section \<open>The power of the cells\<close>

lemma mapE_okE: "(\<And>x. x \<in> set xs \<Longrightarrow> okE P (f x)) \<Longrightarrow>
    okE (\<lambda>ys. length ys = length xs \<and> (\<forall>y \<in> set ys. P y)) (mapE f xs)"
proof (induction xs)
  case (Cons x xs)
  have "okE P (f x)" and "okE (\<lambda>ys. length ys = length xs \<and> (\<forall>y \<in> set ys. P y)) (mapE f xs)"
    using Cons by simp_all
  then show ?case by (auto simp: okE_iff)
qed simp

definition cell_power :: "thermal \<Rightarrow> double list list \<Rightarrow> double \<Rightarrow> int \<Rightarrow> int \<Rightarrow> int \<Rightarrow> int \<Rightarrow> double" where
  "cell_power tc pm pdiv k x y l = ddiv (pm ! nat k ! nat (l * (dimX tc * dimY tc) + y * dimX tc + x)) pdiv"

lemma cell_index:
  assumes "0 \<le> x" "x < X" "0 \<le> y" "y < Y" "0 \<le> l" "l < (L::int)"
  shows "0 \<le> l * (X * Y) + y * X + x" and "l * (X * Y) + y * X + x < X * Y * L"
proof -
  have "0 \<le> y * X + x" "y * X + x < Y * X" using cell_bounds(1,2) assms by blast+
  then have "0 \<le> l * (Y * X) + (y * X + x)" "l * (Y * X) + (y * X + x) < L * (Y * X)"
    using cell_bounds(1,2) assms(5,6) by blast+
  then show "0 \<le> l * (X * Y) + y * X + x" "l * (X * Y) + y * X + x < X * Y * L"
    by (simp_all add: ac_simps)
qed

definition power_array :: "thermal \<Rightarrow> double list list \<Rightarrow> double \<Rightarrow> int \<Rightarrow> double vec3" where
  "power_array tc pm pdiv k = map (\<lambda>i. map (\<lambda>j. map (\<lambda>l.
      if 1 \<le> i \<and> i < dimX tc + 1 \<and> 1 \<le> j \<and> j < dimY tc + 1 then cell_power tc pm pdiv k (i - 1) (j - 1) l else dzero)
    (indices (numP tc))) (indices (dimY tc + 2))) (indices (dimX tc + 2))"

lemma map_lookup:
  assumes "map_shape tc pm" and "0 \<le> k" "k < num_case tc"
  shows "vget pm k = Inr (pm ! nat k)" and "int (length (pm ! nat k)) = dimX tc * dimY tc * numP tc"
  using assms by (auto simp: map_shape_def vget_def nat_less_iff)

lemma cell_get:
  assumes "map_shape tc pm" and "0 \<le> k" "k < num_case tc"
    and "0 \<le> x" "x < dimX tc" "0 \<le> y" "y < dimY tc" "0 \<le> l" "l < numP tc"
  shows "bindE (vget pm k) (\<lambda>m. bindE (vget m (l * (dimX tc * dimY tc) + y * dimX tc + x)) F) =
    F (pm ! nat k ! nat (l * (dimX tc * dimY tc) + y * dimX tc + x))"
  using map_lookup [OF assms(1-3)] cell_index [OF assms(4-)] by (simp add: vget_def)

lemma power_array_built:
  assumes "map_shape tc pm" and "0 \<le> k" "k < num_case tc"
  shows "mapE (\<lambda>i. mapE (\<lambda>j. mapE (\<lambda>l.
      if 1 \<le> i \<and> i < dimX tc + 1 \<and> 1 \<le> j \<and> j < dimY tc + 1
      then bindE (vget pm k) (\<lambda>m. bindE (vget m (l * (dimX tc * dimY tc) + (j - 1) * dimX tc + (i - 1)))
        (\<lambda>p. Inr (ddiv p pdiv)))
      else Inr dzero) (indices (numP tc))) (indices (dimY tc + 2))) (indices (dimX tc + 2)) = Inr (power_array tc pm pdiv k)"
  unfolding power_array_def
proof (intro mapE_ok, unfold set_indices atLeastLessThan_iff)
  fix i j l assume "0 \<le> l \<and> l < numP tc"
  then show "(if 1 \<le> i \<and> i < dimX tc + 1 \<and> 1 \<le> j \<and> j < dimY tc + 1
      then bindE (vget pm k) (\<lambda>m. bindE (vget m (l * (dimX tc * dimY tc) + (j - 1) * dimX tc + (i - 1)))
        (\<lambda>p. Inr (ddiv p pdiv)))
      else Inr dzero) = Inr (if 1 \<le> i \<and> i < dimX tc + 1 \<and> 1 \<le> j \<and> j < dimY tc + 1
      then cell_power tc pm pdiv k (i - 1) (j - 1) l else dzero)"
    using cell_get [OF assms, where x = "i - 1" and y = "j - 1" and l = l and F = "\<lambda>p. Inr (ddiv p pdiv)"]
    by (auto simp: cell_power_def)
qed

lemma InitPowerM_ok:
  assumes "map_shape tc (if clk = 0 then cur_Pmap tc else accu_Pmap tc)" and "0 \<le> k" "k < num_case tc"
  shows "InitPowerM c tc k clk = Inr (power_array tc (if clk = 0 then cur_Pmap tc else accu_Pmap tc)
    (if clk = 0 then d_of_int (epoch_period (tc_cfg c)) else d_of_int (uint clk)) k)"
  unfolding InitPowerM_def Let_def one_margin by (rule power_array_built [OF assms])

lemma power_array_get:
  assumes "0 \<le> i" "i < dimX tc + 2" "0 \<le> j" "j < dimY tc + 2" "0 \<le> l" "l < numP tc"
  shows "vec3_get (power_array tc pm pdiv k) i j l =
    Inr (if 1 \<le> i \<and> i < dimX tc + 1 \<and> 1 \<le> j \<and> j < dimY tc + 1 then cell_power tc pm pdiv k (i - 1) (j - 1) l else dzero)"
  using assms by (simp add: power_array_def vec3_get_def vget_map_indices)

lemma power_array_ok: "power_ok (solver_grid c tc) (power_array tc pm pdiv k)"
  by (auto simp: power_ok_def vec3_lookup_def power_array_get)

text \<open>The power that the solver gets: on the chip the energy of the cell over the time of the
  epoch (or of the whole run), on the margin of one cell around the chip nothing; and the
  total that is reported reads exactly the cells of the chip.\<close>

theorem power_of_cells:
  assumes "map_shape tc (if clk = 0 then cur_Pmap tc else accu_Pmap tc)" and "0 \<le> k" "k < num_case tc"
  shows "okE (\<lambda>powerM.
      (\<forall>x y l. 0 \<le> x \<and> x < dimX tc \<and> 0 \<le> y \<and> y < dimY tc \<and> 0 \<le> l \<and> l < numP tc \<longrightarrow>
         vec3_get powerM (x + 1) (y + 1) l =
         Inr (ddiv ((if clk = 0 then cur_Pmap tc else accu_Pmap tc) ! nat k ! nat (l * (dimX tc * dimY tc) + y * dimX tc + x))
           (d_of_int (if clk = 0 then epoch_period (tc_cfg c) else uint clk)))) \<and>
      (\<forall>i j l. 0 \<le> i \<and> i \<le> dimX tc + 1 \<and> 0 \<le> j \<and> j \<le> dimY tc + 1 \<and> 0 \<le> l \<and> l < numP tc \<and>
         (i = 0 \<or> i = dimX tc + 1 \<or> j = 0 \<or> j = dimY tc + 1) \<longrightarrow> vec3_get powerM i j l = Inr dzero) \<and>
      GetTotalPower tc powerM = Inr (fold (\<lambda>x. fold (\<lambda>y. fold (\<lambda>l acc. dadd acc
          (power_at powerM (x + 1) (y + 1) l)) (indices (numP tc))) (indices (dimY tc))) (indices (dimX tc)) dzero))
    (InitPowerM c tc k clk)"
proof -
  have dist: "(if b then d_of_int m else d_of_int n) = d_of_int (if b then m else n)" for b m n by simp
  have fold: "foldE f xs s = Inr (fold g xs s)" if "\<And>x s. x \<in> set xs \<Longrightarrow> f x s = Inr (g x s)"
    for f :: "int \<Rightarrow> double \<Rightarrow> double result" and g xs s using that by (induction xs arbitrary: s) simp_all
  have "GetTotalPower tc p = Inr (fold (\<lambda>x. fold (\<lambda>y. fold (\<lambda>l acc. dadd acc
          (power_at p (x + 1) (y + 1) l)) (indices (numP tc))) (indices (dimY tc))) (indices (dimX tc)) dzero)"
    if p: "power_ok (solver_grid c tc) p" for p
    unfolding GetTotalPower_def one_margin
    by (intro fold) (simp add: power_get [OF p])
  then show ?thesis
    unfolding InitPowerM_ok [OF assms] okE_simps
    by (auto simp: power_array_get power_array_ok cell_power_def dist)
qed

theorem power_of_cells_witness:
  "okE (\<lambda>powerM. vec3_get powerM 0 3 2 = Inr dzero) (InitPowerM ex_hbm (plan_state ex_hbm ex_hbm_plan) 0 1000)"
proof -
  have s: "map_shape (plan_state ex_hbm ex_hbm_plan) (accu_Pmap (plan_state ex_hbm ex_hbm_plan))"
    using plan_state_ok [OF ex_hbm_dims] by (simp add: thermal_ok_def)
  have n: "numP (plan_state ex_hbm ex_hbm_plan) = 5" "dimX (plan_state ex_hbm ex_hbm_plan) = 8"
      "dimY (plan_state ex_hbm ex_hbm_plan) = 4" "num_case (plan_state ex_hbm ex_hbm_plan) = 1"
    by (simp_all add: plan_state_sel ex_hbm_plan_def)
  show ?thesis
    by (rule okE_mono [OF power_of_cells [of "plan_state ex_hbm ex_hbm_plan" 1000 0 ex_hbm]])
      (use s in \<open>simp_all add: n\<close>)
qed

section \<open>Epochs on a stacked memory\<close>

lemma nodes_euler: "grid_ok g \<Longrightarrow> int (length (euler_step g cap P dt T)) = nodes_n g"
  using length_midx_nodes by (simp add: euler_step_def)

lemma euler_steps_length:
  assumes "grid_ok g" and "int (length T) = nodes_n g"
  shows "int (length ((euler_step g cap P dt ^^ n) T)) = nodes_n g"
  using assms(2) by (cases n) (simp_all add: nodes_euler [OF assms(1)])

lemma total_power_ok: "\<exists>p. GetTotalPower tc (power_array tc pm pdiv k) = Inr p"
proof -
  have "okE (\<lambda>_. True) (GetTotalPower tc (power_array tc pm pdiv k))"
    unfolding GetTotalPower_def one_margin by (intro okE_foldE TrueI) (simp add: power_array_get)
  then show ?thesis by (simp add: okE_iff)
qed

lemma T_get:
  assumes "thermal_ok c tc" and "0 \<le> k" "k < num_case tc"
  shows "vget (T_trans tc) k = Inr (T_trans tc ! nat k)" and "int (length (T_trans tc ! nat k)) = nodes_n (solver_grid c tc)"
proof -
  have "nat k < length (T_trans tc)" using assms by (simp add: thermal_ok_def temps_shape_def nat_less_iff)
  then have "T_trans tc ! nat k \<in> set (T_trans tc)" by simp
  then show "int (length (T_trans tc ! nat k)) = nodes_n (solver_grid c tc)"
    using assms(1) unfolding thermal_ok_def temps_shape_def by blast
  show "vget (T_trans tc) k = Inr (T_trans tc ! nat k)"
    using assms by (simp add: thermal_ok_def temps_shape_def vget_def)
qed

lemma CalcTransT_ok:
  assumes "thermal_ok c tc" and "0 \<le> k" "k < num_case tc"
  obtains T where "CalcTransT c k tc = Inr (tc\<lparr>T_trans := (T_trans tc)[nat k := T]\<rparr>)"
    and "int (length T) = nodes_n (solver_grid c tc)"
proof -
  let ?g = "solver_grid c tc"
  have g: "grid_ok ?g" and m: "map_shape tc (cur_Pmap tc)" using assms(1) by (simp_all add: thermal_ok_def dims_ok_def)
  let ?p = "power_array tc (cur_Pmap tc) (d_of_int (epoch_period (tc_cfg c))) k"
  have p: "InitPowerM c tc k 0 = Inr ?p" using InitPowerM_ok [of tc 0 k c] m assms(2,3) by simp
  have k: "0 \<le> k" "k < int (length (T_trans tc))" using assms by (simp_all add: thermal_ok_def temps_shape_def)
  note T = T_get(2) [OF assms]
  note solver = transient_solver_ok [OF g power_array_ok T, of "cur_Pmap tc" "d_of_int (epoch_period (tc_cfg c))" k
      "power_epoch_time c" "time_iter tc" "Tamb tc"]
  then obtain P where P: "transient_rhs ?g ?p (Tamb tc) = Inr P" unfolding okE_iff by blast
  have "transient_thermal_solver ?g ?p (Midx tc) (MidxSize tc) (Cap tc) (power_epoch_time c) (time_iter tc) (T_trans tc ! nat k) (Tamb tc) =
      Inr ((euler_step ?g (Cap tc) P (ddiv (power_epoch_time c) (d_of_int (time_iter tc))) ^^ nat (time_iter tc)) (T_trans tc ! nat k))"
    using solver assms(1) by (simp add: thermal_ok_def P)
  then show thesis
    using that [OF _ euler_steps_length [OF g T]] total_power_ok [of tc "cur_Pmap tc" "d_of_int (epoch_period (tc_cfg c))" k] k
    by (auto simp: CalcTransT_def p vget_def vset_def)
qed

lemma Trans_ok:
  assumes "thermal_ok c tc" and "int (length T) = nodes_n (solver_grid c tc)"
  shows "thermal_ok c (tc\<lparr>T_trans := (T_trans tc)[k := T]\<rparr>)"
  using assms by (auto simp: thermal_ok_def dims_ok_def temps_shape_def dest!: set_update_subset_insert [THEN subsetD])

lemma inner_set [simp]: "set (inner n) = {1..<n + 1}"
  by (auto simp: inner_def image_iff intro!: bexI [of _ "_ - 1"])

lemma layer_temp_ok:
  assumes "dims_ok c tc" and "int (length T) = nodes_n (solver_grid c tc)"
    and "0 \<le> l" "l < numP tc" "j \<in> set (inner (dimY tc))" "i \<in> set (inner (dimX tc))"
  shows "\<exists>t. layer_temp tc T l j i = Inr t"
proof -
  let ?X = "dimX tc + 2" and ?Y = "dimY tc + 2"
  have "0 \<le> (3 * l + 1) * (?X * ?Y) + j * ?X + i" "(3 * l + 1) * (?X * ?Y) + j * ?X + i < ?X * ?Y * (3 * numP tc + 1)"
    using assms(3-) cell_index [of i ?X j ?Y "3 * l + 1" "3 * numP tc + 1"] by simp_all
  then show ?thesis using assms(2-4)
    by (simp add: layer_temp_def layers_P_def vget_map_indices numLayer_def vget_def [of T] ac_simps)
qed

lemma case_maxima_ok:
  assumes "thermal_ok c tc" and "0 \<le> k" "k < num_case tc"
  shows "okE (\<lambda>ms. length ms = nat (numP tc)) (case_maxima tc k t)"
proof -
  have d: "dims_ok c tc" using assms(1) by (simp add: thermal_ok_def)
  have "okE (\<lambda>_. True) (GetMaxTofCaseLayer tc (T_trans tc) k l)" if l: "0 \<le> l" "l < numP tc" for l
    unfolding GetMaxTofCaseLayer_def
  proof (intro okE_foldE TrueI)
    fix j i m assume "j \<in> set (inner (dimY tc))" "i \<in> set (inner (dimX tc))"
    from layer_temp_ok [OF d T_get(2) [OF assms] l this] obtain t where
      "layer_temp tc (T_trans tc ! nat k) l j i = Inr t" by blast
    then show "okE (\<lambda>_. True) (bindE (vget (T_trans tc) k) (\<lambda>T. bindE (layer_temp tc T l j i) (\<lambda>t0.
        let t = dsub t0 T0 in Inr (if dless t m then m else t))))"
      by (simp add: T_get(1) [OF assms] Let_def)
  qed
  then show ?thesis unfolding case_maxima_def
    by (intro okE_mono [OF mapE_okE [where P = "\<lambda>_. True"]]) auto
qed

lemma csv_rows_ok:
  assumes "dims_ok c tc" and "map_shape tc P" and "vget T k = Inr Tk" "int (length Tk) = nodes_n (solver_grid c tc)"
    and "0 \<le> k" "k < num_case tc"
  shows "okE (\<lambda>_. True) (csv_rows b tc P T k scale)"
  unfolding csv_rows_def one_margin okE_bind okE_simps Let_def
proof (intro okE_mono [OF mapE_okE [where P = "\<lambda>_. True"]] TrueI)
  fix l j i assume r: "l \<in> set (indices (numP tc))" "j \<in> set (inner (dimY tc))" "i \<in> set (inner (dimX tc))"
  then obtain t where "layer_temp tc Tk l j i = Inr t"
    using layer_temp_ok [OF assms(1,4) _ _ r(2,3), of l] by auto
  then show "okE (\<lambda>_. True) (bindE (vget P k) (\<lambda>m. bindE (vget m (l * (dimX tc * dimY tc) + (j - 1) * dimX tc + (i - 1)))
      (\<lambda>p. bindE (vget T k) (\<lambda>Tk. bindE (layer_temp tc Tk l j i) (\<lambda>t.
      Inr (k, i - 1, j - 1, l, ddiv p (d_of_int (uint scale)), if b then dsub t T0 else t))))))"
    using r by (subst cell_get [OF assms(2,5,6)]) (simp_all add: assms(3))
qed

text \<open>What an epoch does, besides the temperatures and the files.\<close>

definition epoch_done :: "thermal_config \<Rightarrow> thermal \<Rightarrow> thermal \<times> 'a list \<times> 'b list \<Rightarrow> bool" where
  "epoch_done c tc r = (case r of (tc', maxima, rws) \<Rightarrow>
     thermal_ok c tc' \<and> (\<forall>m \<in> set (cur_Pmap tc'). set m \<subseteq> {dzero}) \<and> sample_id tc' = sample_id tc + 1 \<and>
     accu_Pmap tc' = accu_Pmap tc \<and> T_final tc' = T_final tc \<and> refresh_count tc' = refresh_count tc \<and>
     background_energy tc' = background_energy tc \<and> int (length maxima) = num_case tc * numP tc)"

definition stacked :: "thermal_config \<Rightarrow> bool" where
  "stacked c \<longleftrightarrow> IsHBM (tc_cfg c) \<or> IsHMC (tc_cfg c)"

definition epoch_inv :: "thermal_config \<Rightarrow> thermal \<Rightarrow> thermal \<times> 'a list \<times> 'b list \<Rightarrow> bool" where
  "epoch_inv c tc r = (case r of (tc', maxima, rws) \<Rightarrow> thermal_ok c tc' \<and> (\<exists>Ts. tc' = tc\<lparr>T_trans := Ts\<rparr>))"

lemma epoch_case_ok:
  assumes "epoch_inv c tc0 (tc, maxima, rws)" and "0 \<le> k" "k < num_case tc0"
  shows "okE (\<lambda>(tc', maxima', rws'). epoch_inv c tc0 (tc', maxima', rws') \<and> length maxima' = length maxima + nat (numP tc0))
    (bindE (CalcTransT c k tc) (\<lambda>tc'.
      bindE (case_maxima tc' k ms) (\<lambda>ms'.
      bindE (if output_level (tc_cfg c) \<ge> 2
             then PrintCSV_trans tc' (cur_Pmap tc') (T_trans tc') k scale
             else Inr []) (\<lambda>rs. Inr (tc', maxima @ ms', rws @ rs)))))"
proof -
  obtain Ts0 where Ts0: "tc = tc0\<lparr>T_trans := Ts0\<rparr>" and ok: "thermal_ok c tc" using assms(1) by (auto simp: epoch_inv_def)
  then have k: "k < num_case tc" "numP tc = numP tc0" using assms(3) by simp_all
  obtain T where T: "CalcTransT c k tc = Inr (tc\<lparr>T_trans := (T_trans tc)[nat k := T]\<rparr>)" "int (length T) = nodes_n (solver_grid c tc)"
    by (rule CalcTransT_ok [OF ok assms(2) k(1)])
  define tc' where "tc' = tc\<lparr>T_trans := (T_trans tc)[nat k := T]\<rparr>"
  have ok': "thermal_ok c tc'" unfolding tc'_def by (rule Trans_ok [OF ok T(2)])
  have k': "k < num_case tc'" "numP tc' = numP tc0" using k by (simp_all add: tc'_def)
  note m = case_maxima_ok [OF ok' assms(2) k'(1), of ms]
  have d: "dims_ok c tc'" "map_shape tc' (cur_Pmap tc')" using ok' by (simp_all add: thermal_ok_def)
  have "okE (\<lambda>_. True) (PrintCSV_trans tc' (cur_Pmap tc') (T_trans tc') k scale)"
    unfolding PrintCSV_trans_def using csv_rows_ok [OF d T_get [OF ok' assms(2) k'(1)] assms(2) k'(1)] by simp
  then have "okE (\<lambda>_. True) (if output_level (tc_cfg c) \<ge> 2 then PrintCSV_trans tc' (cur_Pmap tc') (T_trans tc') k scale else Inr [])"
    by simp
  then obtain rs where "(if output_level (tc_cfg c) \<ge> 2 then PrintCSV_trans tc' (cur_Pmap tc') (T_trans tc') k scale else Inr []) = Inr rs"
    by (auto elim: okE_E)
  moreover obtain ms' where "case_maxima tc' k ms = Inr ms'" "length ms' = nat (numP tc0)"
    using m k'(2) by (auto simp: okE_iff)
  ultimately have "bindE (CalcTransT c k tc) (\<lambda>tc'. bindE (case_maxima tc' k ms) (\<lambda>ms'.
      bindE (if output_level (tc_cfg c) \<ge> 2 then PrintCSV_trans tc' (cur_Pmap tc') (T_trans tc') k scale else Inr [])
        (\<lambda>rs. Inr (tc', maxima @ ms', rws @ rs)))) = Inr (tc', maxima @ ms', rws @ rs)"
      and "length (maxima @ ms') = length maxima + nat (numP tc0)"
    using T(1) by (simp_all flip: tc'_def)
  then show ?thesis using ok' by (auto simp: epoch_inv_def tc'_def Ts0)
qed

definition epoch_case :: "thermal_config \<Rightarrow> double \<Rightarrow> u64 \<Rightarrow> int \<Rightarrow> thermal \<times> (int \<times> double \<times> double) list \<times> (csv_row \<times> int) list
    \<Rightarrow> (thermal \<times> (int \<times> double \<times> double) list \<times> (csv_row \<times> int) list) result" where
  "epoch_case c ms scale k = (\<lambda>(tc, maxima, rws).
     bindE (CalcTransT c k tc) (\<lambda>tc'.
      bindE (case_maxima tc' k ms) (\<lambda>ms'.
      bindE (if output_level (tc_cfg c) \<ge> 2
             then PrintCSV_trans tc' (cur_Pmap tc') (T_trans tc') k scale
             else Inr []) (\<lambda>rs. Inr (tc', maxima @ ms', rws @ rs)))))"

lemma epoch_cases_ok:
  assumes "set ks \<subseteq> {0..<num_case tc0}" and "epoch_inv c tc0 (tc, maxima, rws)"
  shows "okE (\<lambda>(tc', maxima', rws'). epoch_inv c tc0 (tc', maxima', rws') \<and>
      length maxima' = length maxima + length ks * nat (numP tc0))
    (foldE (epoch_case c ms scale) ks (tc, maxima, rws))"
  using assms
proof (induction ks arbitrary: tc maxima rws)
  case (Cons k ks)
  have "okE (\<lambda>(tc', maxima', rws'). epoch_inv c tc0 (tc', maxima', rws') \<and> length maxima' = length maxima + nat (numP tc0))
      (epoch_case c ms scale k (tc, maxima, rws))"
    unfolding epoch_case_def split using Cons.prems by (intro epoch_case_ok) auto
  then obtain tc1 m1 r1 where s: "epoch_case c ms scale k (tc, maxima, rws) = Inr (tc1, m1, r1)"
      "epoch_inv c tc0 (tc1, m1, r1)" "length m1 = length maxima + nat (numP tc0)"
    by (elim okE_E) auto
  have "okE (\<lambda>(tc', maxima', rws'). epoch_inv c tc0 (tc', maxima', rws') \<and>
      length maxima' = length m1 + length ks * nat (numP tc0)) (foldE (epoch_case c ms scale) ks (tc1, m1, r1))"
    using Cons.prems(1) s(2) by (intro Cons.IH) simp_all
  then show ?case unfolding foldE.simps s(1) bindE_simps by (rule okE_mono) (use s(3) in auto)
qed simp

lemma cleared_ok:
  assumes "thermal_ok c tc"
  shows "thermal_ok c (tc\<lparr>cur_Pmap := map (map (\<lambda>_. dzero)) (cur_Pmap tc), sample_id := n\<rparr>)"
  using assms by (auto simp: thermal_ok_def dims_ok_def temps_shape_def map_shape_def solver_grid_def)

lemma PrintTransPT_ok:
  assumes "thermal_ok c tc" and "stacked c"
  shows "okE (epoch_done c tc) (PrintTransPT c clk tc)"
proof -
  obtain pm where pm: "UpdateEpoch c clk tc = Inr (tc\<lparr>cur_Pmap := pm\<rparr>)" "map_shape tc pm"
    using UpdatePowerMaps_ok [OF assms(1), of _ True "of_c_int (epoch_period (tc_cfg c))"] assms(2)
    by (metis (full_types) UpdateEpoch_def put_map_def stacked_def)
  define tc1 where "tc1 = tc\<lparr>cur_Pmap := pm\<rparr>"
  have ok: "thermal_ok c tc1" using put_map_ok [OF assms(1) pm(2), of True] by (simp add: tc1_def put_map_def)
  then have "epoch_inv c tc1 (tc1, [] :: (int \<times> double \<times> double) list, [] :: (csv_row \<times> int) list)"
    by (auto simp: epoch_inv_def intro!: exI [of _ "T_trans tc1"])
  then have "okE (\<lambda>(tc', maxima', rws'). epoch_inv c tc1 (tc', maxima', rws') \<and>
      length maxima' = length ([] :: (int \<times> double \<times> double) list) + length (indices (num_case tc1)) * nat (numP tc1))
    (foldE (epoch_case c (dmul (dmul (d_of_int (uint clk)) (tCK (tc_pw c))) (dlit 1 (10 ^ 6)))
        (of_c_int (epoch_period (tc_cfg c)))) (indices (num_case tc1)) (tc1, [], []))"
    by (intro epoch_cases_ok) simp_all
  then obtain tc2 ms rws where r: "foldE (epoch_case c (dmul (dmul (d_of_int (uint clk)) (tCK (tc_pw c))) (dlit 1 (10 ^ 6)))
        (of_c_int (epoch_period (tc_cfg c)))) (indices (num_case tc1)) (tc1, [], []) = Inr (tc2, ms, rws)"
      "epoch_inv c tc1 (tc2, ms, rws)" "length ms = nat (num_case tc1) * nat (numP tc1)"
    by (elim okE_E) auto
  then obtain Ts where Ts: "tc2 = tc1\<lparr>T_trans := Ts\<rparr>" "thermal_ok c tc2" by (auto simp: epoch_inv_def)
  have "0 \<le> num_case tc" "0 \<le> numP tc" using assms(1) by (auto simp: thermal_ok_def dims_ok_def grid_ok_def)
  then show ?thesis
    using cleared_ok [OF Ts(2)] r(1,3) pm(1) Ts(1)
    by (simp add: PrintTransPT_def Let_def epoch_done_def epoch_case_def [abs_def] flip: tc1_def) (auto simp: tc1_def)
qed

section \<open>The final report\<close>

text \<open>The solver replaces the right-hand side by the solution, a vector of the same length.\<close>

definition solver_keeps_length :: "superlu \<Rightarrow> bool" where
  "solver_keeps_length slu \<longleftrightarrow> (\<forall>n m p rhs. length (fst (pdgssv slu n m p rhs)) = length rhs)"

lemma steady_solver_ok:
  assumes "grid_ok g" and "power_ok g powerM" and "calculate_Midx_array g = Inr (M, n)" and "solver_keeps_length slu"
  shows "okE (\<lambda>T. int (length T) = nodes_n g) (steady_thermal_solver slu g powerM M n amb)"
proof -
  obtain m where m: "compress (nodes_n g) M n = Inr m"
    using compressed_ok [OF assms(1)] assms(3) by (auto elim: okE_E)
  obtain rhs where rhs: "steady_rhs g powerM amb = Inr rhs" "int (length rhs) = nodes_n g"
    using steady_rhs_ok [OF assms(1,2), of amb] by (auto elim: okE_E)
  obtain T info where T: "pdgssv slu (omp_get_max_threads slu) m (get_perm_c slu 1 m) rhs = (T, info)" by (metis prod.exhaust)
  then have "int (length T) = nodes_n g" using assms(4) rhs(2) unfolding solver_keeps_length_def by (metis fst_conv)
  moreover from this have "mapE (\<lambda>i. bindE (vget T i) (\<lambda>t. Inr (dsub t T0))) (indices (nodes_n g)) =
      Inr (map (\<lambda>i. dsub (T ! nat i) T0) (indices (nodes_n g)))" by (intro mapE_ok) (simp add: vget_def)
  ultimately show ?thesis
    by (simp add: steady_thermal_solver_def Let_def m rhs(1) T)
qed

lemma CalcFinalT_ok:
  assumes "thermal_ok c tc" and "solver_keeps_length slu" and "0 \<le> k" "k < num_case tc" and "clk \<noteq> 0"
  obtains T where "CalcFinalT slu c k clk tc = Inr (tc\<lparr>T_final := (T_final tc)[nat k := T]\<rparr>)"
    and "int (length T) = nodes_n (solver_grid c tc)"
proof -
  let ?g = "solver_grid c tc" and ?p = "power_array tc (accu_Pmap tc) (d_of_int (uint clk)) k"
  have g: "grid_ok ?g" and m: "map_shape tc (accu_Pmap tc)" and M: "calculate_Midx_array ?g = Inr (Midx tc, MidxSize tc)"
    using assms(1) by (simp_all add: thermal_ok_def dims_ok_def)
  have "InitPowerM c tc k clk = Inr ?p" using InitPowerM_ok [of tc clk k c] m assms(3-5) by simp
  moreover obtain T where "steady_thermal_solver slu ?g ?p (Midx tc) (MidxSize tc) (Tamb tc) = Inr T" "int (length T) = nodes_n ?g"
    using steady_solver_ok [OF g power_array_ok M assms(2)] unfolding okE_iff by blast
  moreover have "0 \<le> k" "k < int (length (T_final tc))" using assms by (simp_all add: thermal_ok_def temps_shape_def)
  ultimately show thesis
    using that total_power_ok [of tc "accu_Pmap tc" "d_of_int (uint clk)" k] by (auto simp: CalcFinalT_def vset_def)
qed

definition final_case :: "superlu \<Rightarrow> thermal_config \<Rightarrow> u64 \<Rightarrow> int \<Rightarrow> thermal \<times> csv_row list \<Rightarrow> (thermal \<times> csv_row list) result" where
  "final_case slu c clk ir = (\<lambda>(tc, rws).
     bindE (CalcFinalT slu c ir clk tc) (\<lambda>tc'.
        bindE (GetMaxTofCase tc' (T_final tc') ir) (\<lambda>maxT.
        bindE (PrintCSV_final tc' (accu_Pmap tc') (T_final tc') ir clk) (\<lambda>rs. Inr (tc', rws @ rs)))))"

lemma final_case_ok:
  assumes "thermal_ok c tc" and "solver_keeps_length slu" and "0 \<le> k" "k < num_case tc" and "clk \<noteq> 0"
  shows "okE (\<lambda>(tc', rws'). thermal_ok c tc' \<and> num_case tc' = num_case tc) (final_case slu c clk k (tc, rws))"
proof -
  obtain T where T: "CalcFinalT slu c k clk tc = Inr (tc\<lparr>T_final := (T_final tc)[nat k := T]\<rparr>)"
      "int (length T) = nodes_n (solver_grid c tc)" by (rule CalcFinalT_ok [OF assms])
  define tc' where "tc' = tc\<lparr>T_final := (T_final tc)[nat k := T]\<rparr>"
  have ok: "thermal_ok c tc'" using assms(1) by (simp add: tc'_def thermal_ok_def dims_ok_def temps_shape_def)
  have k: "k < num_case tc'" using assms(4) by (simp add: tc'_def)
  have "nat k < length (T_final tc)" using assms(1,3,4) by (simp add: thermal_ok_def temps_shape_def nat_less_iff)
  then have g: "vget (T_final tc') k = Inr T" using assms(3) by (simp add: tc'_def vget_def nat_less_iff)
  have T': "int (length T) = nodes_n (solver_grid c tc')" using T(2) by (simp add: tc'_def)
  have sz: "T_size tc' = nodes_n (solver_grid c tc')" by (simp add: T_size_def numLayer_def mult.assoc mult.commute)
  have "okE (\<lambda>_. True) (GetMaxTofCase tc' (T_final tc') k)"
    unfolding GetMaxTofCase_def g bindE_simps
    by (intro okE_foldE TrueI) (use T' sz in \<open>auto simp: vget_def\<close>)
  moreover have "okE (\<lambda>_. True) (PrintCSV_final tc' (accu_Pmap tc') (T_final tc') k clk)"
    unfolding PrintCSV_final_def using ok by (intro csv_rows_ok [OF _ _ g T' assms(3) k]) (simp_all add: thermal_ok_def)
  ultimately show ?thesis
    using ok by (auto simp: final_case_def T(1) okE_iff simp flip: tc'_def) (simp add: tc'_def)
qed

lemma PrintFinalPT_ok:
  assumes "thermal_ok c tc" and "stacked c" and "solver_keeps_length slu" and "clk \<noteq> 0"
  shows "okE (\<lambda>(tc', rws). thermal_ok c tc') (PrintFinalPT slu c clk tc)"
proof -
  obtain pm where pm: "UpdatePowerMaps c (ddiv (ddiv (total_background tc) (d_of_int (dimX tc * dimY tc * (numP tc - 1)))) (d_of_int 1000)) False clk tc =
      Inr (put_map False pm tc)" "map_shape tc pm" by (rule UpdatePowerMaps_ok [OF assms(1)])
  define tc1 where "tc1 = put_map False pm tc"
  have ok: "thermal_ok c tc1" unfolding tc1_def by (rule put_map_ok [OF assms(1) pm(2)])
  have "okE (\<lambda>(tc', rws). thermal_ok c tc' \<and> num_case tc' = num_case tc1) (foldE (final_case slu c clk) (indices (num_case tc1)) (tc1, []))"
  proof (rule okE_foldE)
    fix k and st :: "thermal \<times> csv_row list" assume "k \<in> set (indices (num_case tc1))" "case st of (tc', rws) \<Rightarrow> thermal_ok c tc' \<and> num_case tc' = num_case tc1"
    then show "okE (\<lambda>(tc', rws). thermal_ok c tc' \<and> num_case tc' = num_case tc1) (final_case slu c clk k st)"
      using final_case_ok [OF _ assms(3) _ _ assms(4)] by (cases st) fastforce
  qed (use ok in simp)
  moreover have "PrintFinalPT slu c clk tc = foldE (final_case slu c clk) (indices (num_case tc1)) (tc1, [])"
    using assms(2) pm(1) by (auto simp: PrintFinalPT_def stacked_def Let_def final_case_def [abs_def] tc1_def)
  ultimately show ?thesis by (auto elim!: okE_mono)
qed

section \<open>The other operations\<close>

text \<open>The parts of the state that the energy of a command or the background can change.\<close>

definition energy_change :: "thermal \<Rightarrow> thermal \<Rightarrow> bool" where
  "energy_change tc tc' \<longleftrightarrow> (\<exists>am cm rc bg lp.
     tc' = tc\<lparr>accu_Pmap := am, cur_Pmap := cm, refresh_count := rc, background_energy := bg, avg_logic_power := lp\<rparr> \<and>
     (map_shape tc (accu_Pmap tc) \<longrightarrow> map_shape tc am) \<and> (map_shape tc (cur_Pmap tc) \<longrightarrow> map_shape tc cm))"

lemma energy_changeI:
  assumes "tc' = tc\<lparr>accu_Pmap := am, cur_Pmap := cm, refresh_count := rc, background_energy := bg, avg_logic_power := lp\<rparr>"
    and "map_shape tc (accu_Pmap tc) \<Longrightarrow> map_shape tc am" and "map_shape tc (cur_Pmap tc) \<Longrightarrow> map_shape tc cm"
  shows "energy_change tc tc'"
  using assms unfolding energy_change_def by blast

lemma energy_change_refl: "energy_change tc tc"
  by (rule energy_changeI [where am = "accu_Pmap tc" and cm = "cur_Pmap tc" and rc = "refresh_count tc"
        and bg = "background_energy tc" and lp = "avg_logic_power tc"]) simp_all

lemma energy_change_trans:
  assumes "energy_change a b" and "energy_change b c"
  shows "energy_change a c"
proof -
  from assms(1) obtain am cm rc bg lp where
    b: "b = a\<lparr>accu_Pmap := am, cur_Pmap := cm, refresh_count := rc, background_energy := bg, avg_logic_power := lp\<rparr>"
      "map_shape a (accu_Pmap a) \<longrightarrow> map_shape a am" "map_shape a (cur_Pmap a) \<longrightarrow> map_shape a cm"
    unfolding energy_change_def by blast
  from assms(2) obtain am' cm' rc' bg' lp' where
    c: "c = b\<lparr>accu_Pmap := am', cur_Pmap := cm', refresh_count := rc', background_energy := bg', avg_logic_power := lp'\<rparr>"
      "map_shape b (accu_Pmap b) \<longrightarrow> map_shape b am'" "map_shape b (cur_Pmap b) \<longrightarrow> map_shape b cm'"
    unfolding energy_change_def by blast
  have sel: "accu_Pmap b = am" "cur_Pmap b = cm" by (simp_all add: b(1))
  have same: "map_shape b = map_shape a" by (simp add: b(1) fun_eq_iff map_shape_def)
  have "c = a\<lparr>accu_Pmap := am', cur_Pmap := cm', refresh_count := rc', background_energy := bg', avg_logic_power := lp'\<rparr>"
    unfolding c(1) b(1) by simp
  then show ?thesis
    by (rule energy_changeI) (use b(2,3) c(2,3) sel in \<open>simp_all add: same\<close>)
qed

lemma energy_change_ok: "thermal_ok c tc \<Longrightarrow> energy_change tc tc' \<Longrightarrow> thermal_ok c tc'"
  by (auto simp: energy_change_def thermal_ok_def dims_ok_def temps_shape_def map_shape_def solver_grid_def)

lemma energy_change_fold:
  assumes "foldE f xs tc = Inr tc'" and "\<And>x s s'. f x s = Inr s' \<Longrightarrow> energy_change s s'"
  shows "energy_change tc tc'"
  using foldE_inv [OF assms(1), of "energy_change tc"] energy_change_refl energy_change_trans assms(2) by blast

lemma add_cell_change: "add_cell k i e tc = Inr tc' \<Longrightarrow> energy_change tc tc'"
  by (auto simp: add_cell_def bindE_eq_Inr dest: map_add_shape
      intro!: energy_changeI [where rc = "refresh_count tc" and bg = "background_energy tc" and lp = "avg_logic_power tc"])

lemma location_change:
  "LocationMappingANDaddEnergy c ch cmd k e tc = Inr tc' \<Longrightarrow> energy_change tc tc'"
  "LocationMappingANDaddEnergy_RF c ch cmd b r k e tc = Inr tc' \<Longrightarrow> energy_change tc tc'"
  by (auto simp: LocationMappingANDaddEnergy_def LocationMappingANDaddEnergy_RF_def Let_def bindE_eq_Inr
      elim!: energy_change_fold intro: add_cell_change split: prod.splits)

lemma refresh_rows_change: "refresh_rows c ch cmd k e ib tc = Inr tc' \<Longrightarrow> energy_change tc tc'"
proof -
  assume "refresh_rows c ch cmd k e ib tc = Inr tc'"
  then obtain r tc1 where n: "next_refresh c (ch * ranks (tc_cfg c) + Rank cmd) ib tc = Inr (r, tc1)"
      and "foldE (\<lambda>j. LocationMappingANDaddEnergy_RF c ch cmd ib (r + j) k e) (indices (num_row_refresh (tc_th c))) tc1 = Inr tc'"
    unfolding refresh_rows_def by (auto simp: bindE_eq_Inr)
  then have "energy_change tc1 tc'" by (elim energy_change_fold location_change(2))
  moreover have "energy_change tc tc1" using n
    by (auto simp: next_refresh_def bindE_eq_Inr Let_def
        intro!: energy_changeI [where am = "accu_Pmap tc" and cm = "cur_Pmap tc" and bg = "background_energy tc" and lp = "avg_logic_power tc"])
  ultimately show ?thesis by (rule energy_change_trans [rotated])
qed

lemma UpdateCMDPower_change: "UpdateCMDPower c ch cmd tc = Inr tc' \<Longrightarrow> energy_change tc tc'"
  unfolding UpdateCMDPower_def Let_def
  by (auto split: command_type.splits if_splits elim!: energy_change_fold
      intro: refresh_rows_change location_change(1) energy_change_refl)

lemma Background_change: "UpdateBackgroundEnergy ch r e tc = Inr tc' \<Longrightarrow> energy_change tc tc'"
  by (auto simp: UpdateBackgroundEnergy_def bindE_eq_Inr
      intro!: energy_changeI [where am = "accu_Pmap tc" and cm = "cur_Pmap tc" and rc = "refresh_count tc" and lp = "avg_logic_power tc"])

lemma SetLogicPower_change: "energy_change tc (SetLogicPower p tc)"
  by (auto simp: SetLogicPower_def
      intro!: energy_changeI [where am = "accu_Pmap tc" and cm = "cur_Pmap tc" and rc = "refresh_count tc" and bg = "background_energy tc"])

text \<open>The steps that the simulator takes on the calculator between its construction and the final
  report.\<close>

inductive thermal_step :: "thermal_config \<Rightarrow> thermal \<Rightarrow> thermal \<Rightarrow> bool" for c where
  cmd: "UpdateCMDPower c ch cmd tc = Inr tc' \<Longrightarrow> thermal_step c tc tc'"
| background: "UpdateBackgroundEnergy ch r e tc = Inr tc' \<Longrightarrow> thermal_step c tc tc'"
| logic: "thermal_step c tc (SetLogicPower p tc)"
| epoch: "PrintTransPT c clk tc = Inr (tc', maxima, rws) \<Longrightarrow> thermal_step c tc tc'"

inductive_cases thermal_stepE: "thermal_step c tc tc'"

lemma thermal_step_ok:
  assumes "thermal_step c tc tc'" and "stacked c" and "thermal_ok c tc"
  shows "thermal_ok c tc'"
  using assms(1)
proof (cases rule: thermal_step.cases)
  case (epoch clk maxima rws)
  then show ?thesis using PrintTransPT_ok [OF assms(3,2), of clk] by (simp add: epoch_done_def)
qed (use energy_change_ok [OF assms(3)] UpdateCMDPower_change Background_change SetLogicPower_change in blast)+

lemma thermal_steps_ok:
  assumes "(thermal_step c)\<^sup>*\<^sup>* tc tc'" and "stacked c" and "thermal_ok c tc"
  shows "thermal_ok c tc'"
  using assms(1) by induction (auto intro: thermal_step_ok [OF _ assms(2)] assms(3))

text \<open>C7. On a stacked memory the thermal calculator keeps its shape: from any well-formed state,
  after any commands, background energies, logic powers and epochs, the maps, temperatures and
  the conductance matrix fit the chip; the next epoch cannot fail, clears the current map, counts
  the sample and writes one maximum for every case and layer; and the final report cannot fail
  (with a linear solver that returns a vector of the length it is given).\<close>

theorem thermal_run_safe:
  assumes "(thermal_step c)\<^sup>*\<^sup>* tc0 tc" and "stacked c" and "thermal_ok c tc0"
  shows "thermal_ok c tc \<and> okE (epoch_done c tc) (PrintTransPT c clk tc) \<and>
    (clk \<noteq> 0 \<and> solver_keeps_length slu \<longrightarrow> okE (\<lambda>(tc', rws). thermal_ok c tc') (PrintFinalPT slu c clk tc))"
proof -
  have "thermal_ok c tc" by (rule thermal_steps_ok [OF assms])
  then show ?thesis using PrintTransPT_ok PrintFinalPT_ok assms(2) by blast
qed

theorem thermal_run_safe_witness:
  "\<exists>tc. (thermal_step ex_hbm)\<^sup>*\<^sup>* (plan_state ex_hbm ex_hbm_plan) tc \<and> avg_logic_power tc = d_of_int 5 \<and>
     okE (epoch_done ex_hbm tc) (PrintTransPT ex_hbm 100000 tc)"
proof -
  let ?tc = "SetLogicPower (d_of_int 5) (plan_state ex_hbm ex_hbm_plan)"
  have "(thermal_step ex_hbm)\<^sup>*\<^sup>* (plan_state ex_hbm ex_hbm_plan) ?tc" by (intro r_into_rtranclp thermal_step.logic)
  moreover have "stacked ex_hbm" by (simp add: stacked_def)
  ultimately show ?thesis
    using thermal_run_safe [of ex_hbm "plan_state ex_hbm ex_hbm_plan" ?tc 100000] plan_state_ok [OF ex_hbm_dims]
    by (intro exI [of _ ?tc]) (simp add: SetLogicPower_def)
qed

section \<open>The loops that never end well\<close>

text \<open>A loop whose condition never becomes false and whose body keeps an invariant: the counter
  overflows.\<close>

lemma wrong_loop_overflow:
  assumes "k < n" and "i < 2 ^ 31" and "I s" and "\<And>i s. I s \<Longrightarrow> okE I (body i k s)"
  shows "wrong_loop i k n body s = Inl Overflow"
  using assms
proof (induction i k n body s rule: wrong_loop.induct)
  case (1 i k n body s)
  obtain s' where s': "body i k s = Inr s'" "I s'" by (rule okE_E [OF "1.prems"(4) [OF "1.prems"(3)]])
  show ?case
  proof (cases "i + 1 < 2 ^ 31")
    case True
    have "wrong_loop (i + 1) k n body s' = Inl Overflow"
      by (rule "1.IH" [OF "1.prems"(1) s'(1) True "1.prems"(1) True s'(2) "1.prems"(4)])
    then show ?thesis using "1.prems"(1) s'(1) True by (subst wrong_loop.simps) simp
  next
    case False
    then show ?thesis using "1.prems"(1) s'(1) by (subst wrong_loop.simps) simp
  qed
qed

text \<open>A loop whose body fails from some value of the counter on.\<close>

lemma wrong_loop_error:
  assumes "0 \<le> i" and "k < n" and "i \<le> m" and "m < 2 ^ 31" and "I s"
    and "\<And>i s. 0 \<le> i \<Longrightarrow> i < m \<Longrightarrow> I s \<Longrightarrow> okE I (body i k s)" and "\<And>s. I s \<Longrightarrow> body m k s = Inl e"
  shows "wrong_loop i k n body s = Inl e"
  using assms
proof (induction i k n body s rule: wrong_loop.induct)
  case (1 i k n body s)
  show ?case
  proof (cases "i = m")
    case True
    then show ?thesis using "1.prems"(2,5,7) by (subst wrong_loop.simps) simp
  next
    case False
    then have i: "i < m" "i + 1 \<le> m" "i + 1 < 2 ^ 31" using "1.prems"(3,4) by simp_all
    obtain s' where s': "body i k s = Inr s'" "I s'" by (rule okE_E [OF "1.prems"(6) [OF "1.prems"(1) i(1) "1.prems"(5)]])
    have "wrong_loop (i + 1) k n body s' = Inl e"
      by (rule "1.IH" [OF "1.prems"(2) s'(1) i(3) _ "1.prems"(2) i(2) "1.prems"(4) s'(2) "1.prems"(6,7)]) (use "1.prems"(1) in simp_all)
    then show ?thesis using "1.prems"(2) s'(1) i(3) by (subst wrong_loop.simps) simp
  qed
qed

text \<open>The first pass of the loops over channels and ranks.\<close>

lemma first_pass_error:
  assumes "1 \<le> channels (tc_cfg c)" and "1 \<le> ranks (tc_cfg c)"
    and "vget (background_energy tc) 0 = Inr es" and "vget es 0 = Inr eg"
    and "\<And>add. wrong_loop 0 0 (dimX tc * dimY tc * numP tc) (\<lambda>i' k. body i' k 0 add) tc = Inl e"
  shows "channel_loop c body (nat (channels (tc_cfg c))) (0, tc) = Inl e"
proof -
  have pos: "0 < nat (ranks (tc_cfg c))" "0 < nat (channels (tc_cfg c))" using assms(1,2) by simp_all
  then obtain m n where m: "nat (ranks (tc_cfg c)) = Suc m" and n: "nat (channels (tc_cfg c)) = Suc n"
    by (metis gr0_conv_Suc)
  have "indices (ranks (tc_cfg c)) = 0 # map int [1..<Suc m]" by (simp add: indices_def m upt_conv_Cons del: upt_Suc)
  then show ?thesis using assms(1,3-5) by (simp add: n Let_def del: upt_Suc)
qed

text \<open>C29. On a memory that is not stacked the power model never gets through an epoch or the final
  report: the loop over the cells increments the channel instead of the cell. In an epoch it adds
  to the first cell until the counter overflows; in the final report it walks through the first
  map and then reads behind its end.\<close>

theorem plain_epoch_fails:
  assumes "\<not> stacked c" and "1 \<le> channels (tc_cfg c)" and "1 \<le> ranks (tc_cfg c)"
    and "map_shape tc (cur_Pmap tc)" and "map_shape tc (accu_Pmap tc)"
    and "1 \<le> num_case tc" and "1 \<le> dimX tc * dimY tc * numP tc" and "dimX tc * dimY tc * numP tc < 2 ^ 31"
    and "vget (background_energy tc) 0 = Inr es" and "vget es 0 = Inr eg"
  shows "PrintTransPT c clk tc = Inl Overflow \<and> PrintFinalPT slu c clk tc = Inl OutOfRange"
proof -
  define I where "I = (\<lambda>tc' :: thermal. map_shape tc (cur_Pmap tc') \<and> map_shape tc (accu_Pmap tc'))"
  have I: "I tc" using assms(4,5) by (simp add: I_def)
  have k: "0 \<le> (0::int)" "0 < num_case tc" "0 < dimX tc * dimY tc * numP tc" using assms(6,7) by simp_all
  have "okE I (add_cur i 0 0 add s)" if "I s" for i s add
    using map_add_ok [of tc "cur_Pmap s" 0 0 add] that k by (auto simp: add_cur_def I_def okE_iff)
  then have "wrong_loop 0 0 (dimX tc * dimY tc * numP tc) (\<lambda>i' k. add_cur i' k 0 add) tc = Inl Overflow" for add
    using k(3) I by (intro wrong_loop_overflow [where I = I]) simp_all
  then have "channel_loop c add_cur (nat (channels (tc_cfg c))) (0, tc) = Inl Overflow"
    by (rule first_pass_error [OF assms(2,3,9,10)])
  then have 1: "PrintTransPT c clk tc = Inl Overflow"
    using assms(1) by (simp add: PrintTransPT_def UpdateEpoch_def stacked_def)
  have "okE I (add_accu i 0 0 add s)" if "I s" "0 \<le> i" "i < dimX tc * dimY tc * numP tc" for i s add
    using map_add_ok [of tc "accu_Pmap s" 0 i add] that k by (auto simp: add_accu_def I_def okE_iff)
  moreover have "add_accu (dimX tc * dimY tc * numP tc) 0 0 add s = Inl OutOfRange" if "I s" for s add
    using map_lookup [of tc "accu_Pmap s" 0] that k by (simp add: add_accu_def map_add_def I_def vget_def)
  ultimately have "wrong_loop 0 0 (dimX tc * dimY tc * numP tc) (\<lambda>i' k. add_accu i' k 0 add) tc = Inl OutOfRange" for add
    using k(3) I assms(8) by (intro wrong_loop_error [where I = I and m = "dimX tc * dimY tc * numP tc"]) simp_all
  then have "channel_loop c add_accu (nat (channels (tc_cfg c))) (0, tc) = Inl OutOfRange"
    by (rule first_pass_error [OF assms(2,3,9,10)])
  then show ?thesis using 1 assms(1) by (simp add: PrintFinalPT_def stacked_def)
qed

theorem plain_epoch_fails_witness:
  "\<exists>geo. PrintTransPT ex_ddr4 100000 (plan_state ex_ddr4 geo) = Inl Overflow"
proof -
  let ?geo = "\<lparr>numP = 1, dimX = 4, dimY = 4, vault_x = 0, vault_y = 0, bank_x = 4, bank_y = 4, num_case = 2\<rparr>"
  have "dims_ok ex_ddr4 ?geo" by (simp add: dims_ok_def grid_ok_def numLayer_def)
  from plan_state_ok [OF this] have m: "map_shape (plan_state ex_ddr4 ?geo) (cur_Pmap (plan_state ex_ddr4 ?geo))"
      "map_shape (plan_state ex_ddr4 ?geo) (accu_Pmap (plan_state ex_ddr4 ?geo))" by (simp_all add: thermal_ok_def)
  have c: "\<not> stacked ex_ddr4" "channels (tc_cfg ex_ddr4) = 1" "ranks (tc_cfg ex_ddr4) = 2"
    by (simp_all add: stacked_def ex_ddr4_def IsHBM_def IsHMC_def ex_cfg_def)
  have b: "vget (background_energy (plan_state ex_ddr4 ?geo)) 0 = Inr [dzero, dzero]" "vget [dzero, dzero] 0 = Inr dzero"
    by (simp_all add: plan_state_sel c vget_def numeral_2_eq_2)
  show ?thesis
    using plain_epoch_fails [OF c(1) _ _ m _ _ _ b] by (intro exI [of _ ?geo]) (simp add: c plan_state_sel)
qed

section \<open>Construction\<close>

lemma Midx_entry:
  assumes "grid_ok g" and "calculate_Midx_array g = Inr (M, n)" and "0 \<le> j" "j < n"
  obtains p where "vget M j = Inr (M ! nat j)" and "in_grid g p" and "M ! nat j \<in> set (row_of g p)"
proof -
  have M: "M = concat (midx_rows g)" "n = int (length M)"
    using assms(2) Midx_ok [OF assms(1)] length_rows [OF assms(1)] by (auto simp: midx_rows_def)
  then have "M ! nat j \<in> set (concat (midx_rows g))" using assms(3,4) by (metis nat_less_iff nth_mem)
  then show thesis using that assms(3,4) M(2) unfolding Midx_set [OF assms(1)] by (auto simp: vget_def)
qed

lemma max_dt_ok:
  assumes g: "grid_ok (solver_grid c tc)" and M: "calculate_Midx_array (solver_grid c tc) = Inr (Midx tc, MidxSize tc)"
    and C: "int (length (Cap tc)) = numP tc * 3 + 1"
  shows "okE (\<lambda>_. True) (max_dt tc)"
  unfolding max_dt_def Let_def
proof (intro okE_foldE TrueI)
  let ?g = "solver_grid c tc"
  fix j dt assume "j \<in> set (indices (MidxSize tc))"
  then obtain p where p: "vget (Midx tc) j = Inr (Midx tc ! nat j)" "in_grid ?g p" "Midx tc ! nat j \<in> set (row_of ?g p)"
    using Midx_entry [OF g M, of j] by auto
  let ?e = "Midx tc ! nat j" and ?k = "number ?g p"
  note r = row_entry [OF g p(2,3)] and n = number_small [OF g p(2)] and l = number_layer [OF g p(2)]
  have lt: "x < 2 ^ 31" if "x < nodes_n ?g" for x using that g by (simp add: grid_ok_def)
  have i: "to_int (dadd (e_row ?e) (dlit 1 100)) = Inr ?k" "to_int (dadd (e_col ?e) (dlit 1 100)) = Inr (col_of ?e)"
    using r n lt [of ?k] lt [of "col_of ?e"] by (simp_all add: to_int_def dtrunc_index)
  have d: "idiv ?k ((dimX tc + 2) * (dimY tc + 2)) = Inr (?k sdiv ((dimX tc + 2) * (dimY tc + 2)))"
    using strides(1) [OF g] by (auto simp: idiv_def)
  have c: "vget (Cap tc) (?k sdiv ((dimX tc + 2) * (dimY tc + 2))) = Inr (Cap tc ! nat (?k sdiv ((dimX tc + 2) * (dimY tc + 2))))"
    using l(1,2) C by (simp add: vget_def numLayer_def)
  show "okE (\<lambda>_. True) (bindE (vget (Midx tc) j) (\<lambda>e. bindE (to_int (dadd (e_row e) (dlit 1 100))) (\<lambda>idx0.
        bindE (to_int (dadd (e_col e) (dlit 1 100))) (\<lambda>idx1. bindE (idiv idx0 ((dimX tc + 2) * (dimY tc + 2))) (\<lambda>idxC.
        if idx0 = idx1 then bindE (vget (Cap tc) idxC) (\<lambda>cp. Inr (if dless (ddiv cp (e_val e)) dt then ddiv cp (e_val e) else dt))
        else Inr dt)))))"
    unfolding p(1) bindE_simps i d by (cases "?k = col_of ?e") (use c in simp_all)
qed

lemma InitialParameters_ok:
  assumes "dims_ok c tc" and "map_shape tc (accu_Pmap tc)" "map_shape tc (cur_Pmap tc)" and "int (length (T_final tc)) = num_case tc"
  shows "case InitialParameters c tc of
      Inr tc' \<Rightarrow> thermal_ok c tc' \<and> (\<exists>M m ca n Ts. tc' = tc\<lparr>Midx := M, MidxSize := m, Cap := ca, time_iter := n, T_trans := Ts\<rparr>)
        \<and> 10 \<le> time_iter tc' \<and> (\<forall>T \<in> set (T_trans tc'). set T \<subseteq> {Tamb tc})
    | Inl e \<Rightarrow> e = Overflow"
proof -
  let ?g = "solver_grid c tc"
  have g: "grid_ok ?g" using assms(1) by (simp add: dims_ok_def)
  obtain M m where M: "calculate_Midx_array ?g = Inr (M, m)" using Midx_ok [OF g] by blast
  define ca where "ca = calculate_Cap_array (g_W ?g) (g_Lc ?g) (g_numP ?g) (g_dimX ?g) (g_dimZ ?g)"
  define tc1 where "tc1 = tc\<lparr>Midx := M, MidxSize := m, Cap := ca\<rparr>"
  have g1: "solver_grid c tc1 = ?g" by (simp add: tc1_def solver_grid_def)
  have cl: "int (length ca) = numP tc * 3 + 1"
    using g by (simp add: ca_def calculate_Cap_array_def Let_def grid_ok_def)
  have "okE (\<lambda>_. True) (max_dt tc1)"
    by (rule max_dt_ok [of c]) (use g M cl in \<open>simp_all only: g1\<close>, simp_all add: tc1_def)
  then obtain dt where dt: "max_dt tc1 = Inr dt" by (auto elim: okE_E)
  let ?T = "map (\<lambda>_. initialize_Temperature (g_numP ?g) (g_dimX ?g) (g_dimZ ?g) (Tamb tc)) (indices (num_case tc))"
  have I: "InitialParameters c tc = bindE (calculate_time_step c tc1) (\<lambda>tc2. Inr (tc2\<lparr>T_trans := ?T\<rparr>))"
    by (simp add: InitialParameters_def Let_def M tc1_def ca_def)
  show ?thesis
  proof (cases "time_steps (power_epoch_time c) dt")
    case (Inl e)
    then show ?thesis using time_steps_error [OF Inl] by (simp add: I calculate_time_step_def dt)
  next
    case (Inr n)
    define tc2 where "tc2 = tc1\<lparr>time_iter := n, T_trans := ?T\<rparr>"
    have i: "InitialParameters c tc = Inr tc2" by (simp add: I calculate_time_step_def dt Inr tc2_def)
    have "10 \<le> n" by (rule time_while [of dt "power_epoch_time c"]) (use Inr in \<open>auto simp: time_steps_def split: if_splits\<close>)
    moreover have g2: "solver_grid c tc2 = ?g" by (simp add: tc2_def tc1_def solver_grid_def)
    have "thermal_ok c tc2"
      using assms M g by (simp add: thermal_ok_def g2 dims_ok_def temps_shape_def)
        (auto simp: tc2_def tc1_def map_shape_def ca_def initialize_Temperature_def numLayer_def grid_ok_def)
    moreover have "\<exists>M m ca n Ts. tc2 = tc\<lparr>Midx := M, MidxSize := m, Cap := ca, time_iter := n, T_trans := Ts\<rparr>"
      unfolding tc2_def tc1_def by (intro exI) (rule refl)
    moreover have "time_iter tc2 = n" "\<forall>T \<in> set (T_trans tc2). set T \<subseteq> {Tamb tc}"
      by (auto simp: tc2_def initialize_Temperature_def)
    ultimately show ?thesis unfolding i by simp
  qed
qed

lemma ThermalCalculator_cases:
  assumes "init_geometry c = Inr geo" and "dims_ok c geo" and "SetPhyAddressMapping c = Inr pm"
  shows "case ThermalCalculator c of
      Inr tc \<Rightarrow> thermal_ok c tc \<and> geometry.truncate tc = geo \<and> phy_map tc = pm \<and> 10 \<le> time_iter tc \<and> sample_id tc = 0 \<and>
        (\<forall>m \<in> set (cur_Pmap tc) \<union> set (accu_Pmap tc). set m \<subseteq> {dzero}) \<and>
        (\<forall>T \<in> set (T_trans tc). set T \<subseteq> {dadd (amb_temp (tc_th c)) T0}) \<and>
        cur_Pmap tc = replicate (nat (num_case geo)) (replicate (nat (numP geo * dimX geo * dimY geo)) dzero) \<and>
        refresh_count tc = replicate (nat (channels (tc_cfg c) * ranks (tc_cfg c))) (replicate (nat (banks (tc_cfg c))) 0) \<and>
        background_energy tc = replicate (nat (channels (tc_cfg c))) (replicate (nat (ranks (tc_cfg c))) dzero)
    | Inl e \<Rightarrow> e = Overflow \<or> 0 \<le> output_level (tc_cfg c) \<and> PrintCSV_bank c geo = Inl e"
proof -
  define zero_map where "zero_map = replicate (nat (num_case geo)) (replicate (nat (numP geo * dimX geo * dimY geo)) dzero)"
  define tc0 where "tc0 = geometry.extend geo (thermal.fields (dadd (amb_temp (tc_th c)) T0) pm zero_map zero_map
          (replicate (nat (channels (tc_cfg c) * ranks (tc_cfg c))) (replicate (nat (banks (tc_cfg c))) 0))
          (replicate (nat (channels (tc_cfg c))) (replicate (nat (ranks (tc_cfg c))) dzero))
          dzero 0 10 (replicate (nat (num_case geo)) []) (replicate (nat (num_case geo)) []) [] 0 [])"
  have sel: "numP tc0 = numP geo" "dimX tc0 = dimX geo" "dimY tc0 = dimY geo" "num_case tc0 = num_case geo" "phy_map tc0 = pm"
      "cur_Pmap tc0 = zero_map" "accu_Pmap tc0 = zero_map" "T_final tc0 = replicate (nat (num_case geo)) []"
      "sample_id tc0 = 0" "Tamb tc0 = dadd (amb_temp (tc_th c)) T0" "geometry.truncate tc0 = geo"
      "refresh_count tc0 = replicate (nat (channels (tc_cfg c) * ranks (tc_cfg c))) (replicate (nat (banks (tc_cfg c))) 0)"
      "background_energy tc0 = replicate (nat (channels (tc_cfg c))) (replicate (nat (ranks (tc_cfg c))) dzero)"
    by (simp_all add: tc0_def geometry.defs thermal.defs)
  have bank: "PrintCSV_bank c tc' = PrintCSV_bank c geo" if "geometry.truncate tc' = geo" for tc' :: thermal
  proof -
    have eqs: "bank_x tc' = bank_x geo" "bank_y tc' = bank_y geo" "vault_x tc' = vault_x geo" "vault_y tc' = vault_y geo" "numP tc' = numP geo"
      unfolding that [symmetric] by (simp_all add: geometry.defs)
    have "bank_row c tc' = bank_row c geo"
      by (intro ext) (unfold bank_row_def MapToVault_def MapToBank_def MapToZ_def eqs, rule refl)
    then show ?thesis by (simp add: PrintCSV_bank_def)
  qed
  have d: "dims_ok c tc0" using assms(2) by (simp add: dims_ok_def solver_grid_def sel)
  have "0 \<le> num_case geo" "0 \<le> dimX geo * dimY geo * numP geo"
    using assms(2) dims_pos [OF assms(2)] by (simp_all add: dims_ok_def)
  then have shape: "map_shape tc0 zero_map" by (auto simp: map_shape_def zero_map_def sel ac_simps)
  have tf: "int (length (T_final tc0)) = num_case tc0" using \<open>0 \<le> num_case geo\<close> by (simp add: sel)
  have C: "ThermalCalculator c = bindE (InitialParameters c tc0) (\<lambda>tc.
      bindE (if output_level (tc_cfg c) \<ge> 0 then PrintCSV_bank c tc else Inr []) (\<lambda>_. Inr tc))"
    by (simp add: ThermalCalculator_def assms(1,3) Let_def tc0_def zero_map_def)
  show ?thesis
  proof (cases "InitialParameters c tc0")
    case (Inl e)
    then show ?thesis using InitialParameters_ok [OF d _ _ tf] shape by (simp add: C sel)
  next
    case (Inr tc)
    then have i: "thermal_ok c tc" "10 \<le> time_iter tc" "\<forall>T \<in> set (T_trans tc). set T \<subseteq> {Tamb tc0}"
        "\<exists>M m ca n Ts. tc = tc0\<lparr>Midx := M, MidxSize := m, Cap := ca, time_iter := n, T_trans := Ts\<rparr>"
      using InitialParameters_ok [OF d _ _ tf] shape by (simp_all add: sel)
    from i(4) have s: "geometry.truncate tc = geo" "phy_map tc = pm" "sample_id tc = 0" "cur_Pmap tc = zero_map" "accu_Pmap tc = zero_map"
        "refresh_count tc = replicate (nat (channels (tc_cfg c) * ranks (tc_cfg c))) (replicate (nat (banks (tc_cfg c))) 0)"
        "background_energy tc = replicate (nat (channels (tc_cfg c))) (replicate (nat (ranks (tc_cfg c))) dzero)"
      using sel by (auto simp: geometry.defs)
    have "ThermalCalculator c = bindE (if output_level (tc_cfg c) \<ge> 0 then PrintCSV_bank c geo else Inr []) (\<lambda>_. Inr tc)"
      by (simp add: C Inr bank [OF s(1)])
    moreover have ?thesis if "ThermalCalculator c = Inr tc" using i(1-3) s that by (auto simp: sel(10) zero_map_def)
    ultimately show ?thesis by (cases "PrintCSV_bank c geo") (auto split: if_splits)
  qed
qed

lemma ThermalCalculator_start:
  assumes "init_geometry c = Inr geo" and "dims_ok c geo" and "SetPhyAddressMapping c = Inr pm"
    and "output_level (tc_cfg c) < 0 \<or> (\<exists>rws. PrintCSV_bank c geo = Inr rws)"
  shows "case ThermalCalculator c of
      Inr tc \<Rightarrow> thermal_ok c tc \<and> geometry.truncate tc = geo \<and> phy_map tc = pm \<and> 10 \<le> time_iter tc \<and> sample_id tc = 0 \<and>
        (\<forall>m \<in> set (cur_Pmap tc) \<union> set (accu_Pmap tc). set m \<subseteq> {dzero}) \<and>
        (\<forall>T \<in> set (T_trans tc). set T \<subseteq> {dadd (amb_temp (tc_th c)) T0}) \<and>
        cur_Pmap tc = replicate (nat (num_case geo)) (replicate (nat (numP geo * dimX geo * dimY geo)) dzero) \<and>
        refresh_count tc = replicate (nat (channels (tc_cfg c) * ranks (tc_cfg c))) (replicate (nat (banks (tc_cfg c))) 0) \<and>
        background_energy tc = replicate (nat (channels (tc_cfg c))) (replicate (nat (ranks (tc_cfg c))) dzero)
    | Inl e \<Rightarrow> e = Overflow"
  using ThermalCalculator_cases [OF assms(1-3)] assms(4) by (auto split: sum.splits)

text \<open>What can be wrong with a mapping of locations: not six fields, or a position that is no number or no \<open>int\<close>.\<close>

lemma mapE_Inl: "mapE f xs = Inl e \<Longrightarrow> \<exists>x \<in> set xs. f x = Inl e"
  by (induction xs) (auto simp: bindE_def split: sum.splits)

lemma bit_positions_errors:
  "bit_positions s = Inl e \<Longrightarrow> e \<in> {UncaughtException ''invalid_argument'', UncaughtException ''out_of_range''}"
  by (auto simp: bit_positions_def stoi_def Let_def bindE_def split: if_splits sum.splits prod.splits)

lemma SetPhyAddressMapping_errors:
  assumes "SetPhyAddressMapping c = Inl e"
  shows "e \<in> {ExitFailure ''thermal.cc'' 142, UncaughtException ''invalid_argument'', UncaughtException ''out_of_range''}"
proof -
  let ?f = "\<lambda>f. bindE (mapE bit_positions (StringSplit f (CHR ''-''))) (\<lambda>ps. Inr (concat ps))"
  have "bit_positions p = Inl e \<Longrightarrow> ?thesis" for p using bit_positions_errors [of p e] by auto
  moreover have "\<exists>p. bit_positions p = Inl e" if "mapE ?f fs = Inl e" for fs
  proof -
    from mapE_Inl [OF that] obtain f where "?f f = Inl e" by blast
    then have "mapE bit_positions (StringSplit f (CHR ''-'')) = Inl e" by (simp add: bindE_def split: sum.splits)
    from mapE_Inl [OF this] show ?thesis by blast
  qed
  ultimately show ?thesis
    using assms by (auto simp: SetPhyAddressMapping_def Let_def bindE_def split: if_splits sum.splits)
qed

text \<open>C31. What the constructor of the calculator does, for every configuration whose plan, if there is
  one, fits the solver's \<open>int\<close> arithmetic. It fails where the plan cannot be made (a division by zero); on
  a mapping of locations that has not six fields (it exits at \<open>thermal.cc:142\<close>) or a position
  that \<open>stoi\<close> rejects (an exception nobody catches); when no \<open>int\<close> is a number of time steps that
  is large enough; or in the table of bank positions, if that is written. In no other way: otherwise the
  state is well formed, no energy is recorded, every node has the ambient temperature, and an epoch has at
  least 10 time steps.\<close>

theorem ThermalCalculator_result:
  assumes "\<forall>geo. init_geometry c = Inr geo \<longrightarrow> dims_ok c geo"
  shows "case init_geometry c of Inl e \<Rightarrow> ThermalCalculator c = Inl e | Inr geo \<Rightarrow> (case SetPhyAddressMapping c of
      Inl e \<Rightarrow> ThermalCalculator c = Inl e \<and>
        e \<in> {ExitFailure ''thermal.cc'' 142, UncaughtException ''invalid_argument'', UncaughtException ''out_of_range''}
    | Inr pm \<Rightarrow> (case ThermalCalculator c of
        Inl e \<Rightarrow> e = Overflow \<or> 0 \<le> output_level (tc_cfg c) \<and> PrintCSV_bank c geo = Inl e
      | Inr tc \<Rightarrow> thermal_ok c tc \<and> geometry.truncate tc = geo \<and> phy_map tc = pm \<and> 10 \<le> time_iter tc \<and> sample_id tc = 0 \<and>
        (\<forall>m \<in> set (cur_Pmap tc) \<union> set (accu_Pmap tc). set m \<subseteq> {dzero}) \<and>
        (\<forall>T \<in> set (T_trans tc). set T \<subseteq> {dadd (amb_temp (tc_th c)) T0})))"
proof (cases "init_geometry c")
  case (Inl e)
  then show ?thesis by (simp add: ThermalCalculator_def)
next
  case (Inr geo)
  show ?thesis
  proof (cases "SetPhyAddressMapping c")
    case (Inl e)
    then show ?thesis using SetPhyAddressMapping_errors [OF Inl] by (simp add: ThermalCalculator_def Inr)
  next
    case m: (Inr pm)
    have "dims_ok c geo" using assms Inr by blast
    from ThermalCalculator_cases [OF Inr this m] show ?thesis
      unfolding Inr m sum.case by (cases "ThermalCalculator c") simp_all
  qed
qed

definition ex_bad_mapping :: thermal_config where
  "ex_bad_mapping = ex_hbm\<lparr>tc_th := ex_thermal_params\<lparr>loc_mapping := ''3-4,5''\<rparr>\<rparr>"

theorem ThermalCalculator_result_witness:
  "ThermalCalculator ex_bad_mapping = Inl (ExitFailure ''thermal.cc'' 142)"
proof -
  have "init_geometry ex_bad_mapping = init_geometry ex_hbm"
    by (simp add: init_geometry_def Let_def ex_bad_mapping_def ex_thermal_params_def)
  then have g: "init_geometry ex_bad_mapping = Inr ex_hbm_plan" by (simp add: ex_hbm_geometry)
  have d: "dims_ok ex_bad_mapping ex_hbm_plan"
    by (simp add: dims_ok_def grid_ok_def ex_hbm_plan_def numLayer_def)
  have "SetPhyAddressMapping ex_bad_mapping = Inl (ExitFailure ''thermal.cc'' 142)"
    by (simp add: SetPhyAddressMapping_def Let_def ex_bad_mapping_def ex_thermal_params_def StringSplit_def)
  with ThermalCalculator_result [of ex_bad_mapping] d show ?thesis by (simp add: g)
qed

end
