(* ===== verification/Text_Format.thy ===== *)
theory Text_Format
  imports Trace
begin

text \<open>
  The text that the program writes: numbers in decimal and hexadecimal (the library fmt's
  \<open>{}\<close> and \<open>{:#x}\<close>), the padding of a field to a width, and the operators that write a
  command and a transaction (\<open>common.cc\<close>). Lemmas: the digits read back as the number, and
  \<open>StringSplit\<close> recovers the fields of a line.
\<close>

section \<open>Numbers and fields\<close>

fun show_nat :: "nat \<Rightarrow> string" where
  "show_nat n = (if n < 10 then [char_of (48 + n)] else show_nat (n div 10) @ [char_of (48 + n mod 10)])"

declare show_nat.simps [simp del]

definition show_int :: "int \<Rightarrow> string" where
  "show_int i = (if i < 0 then CHR ''-'' # show_nat (nat (- i)) else show_nat (nat i))"

definition show_u64 :: "u64 \<Rightarrow> string" where
  "show_u64 n = show_nat (unat n)"

definition hex_digit :: "nat \<Rightarrow> char" where
  "hex_digit d = ''0123456789abcdef'' ! d"

fun show_hex :: "nat \<Rightarrow> string" where
  "show_hex n = (if n < 16 then [hex_digit n] else show_hex (n div 16) @ [hex_digit (n mod 16)])"

declare show_hex.simps [simp del]

definition show_hex_int :: "int \<Rightarrow> string" where
  "show_hex_int i = (if i < 0 then ''-0x'' @ show_hex (nat (- i)) else ''0x'' @ show_hex (nat i))"

definition newline :: string where "newline = [CHR 0x0A]"

definition pad_left :: "nat \<Rightarrow> string \<Rightarrow> string" where
  "pad_left n s = replicate (n - length s) CHR '' '' @ s"

definition pad_right :: "nat \<Rightarrow> string \<Rightarrow> string" where
  "pad_right n s = s @ replicate (n - length s) CHR '' ''"

section \<open>Commands and transactions\<close>

definition command_string :: "command_type \<Rightarrow> string" where
  "command_string ct = (case ct of
     READ \<Rightarrow> ''read'' | READ_PRECHARGE \<Rightarrow> ''read_p'' | WRITE \<Rightarrow> ''write'' | WRITE_PRECHARGE \<Rightarrow> ''write_p''
   | ACTIVATE \<Rightarrow> ''activate'' | PRECHARGE \<Rightarrow> ''precharge'' | REFRESH_BANK \<Rightarrow> ''refresh_bank'' | REFRESH \<Rightarrow> ''refresh''
   | SREF_ENTER \<Rightarrow> ''self_refresh_enter'' | SREF_EXIT \<Rightarrow> ''self_refresh_exit'' | SIZE \<Rightarrow> ''WRONG'')"

definition command_text :: "command \<Rightarrow> string" where
  "command_text cmd = pad_right 20 (command_string (cmd_type cmd)) @ '' '' @ pad_left 3 (show_int (Channel cmd)) @ '' '' @
     pad_left 3 (show_int (Rank cmd)) @ '' '' @ pad_left 3 (show_int (Bankgroup cmd)) @ '' '' @ pad_left 3 (show_int (Bank cmd)) @ '' '' @
     pad_left 8 (show_hex_int (Row cmd)) @ '' '' @ pad_left 8 (show_hex_int (Column cmd))"

definition transaction_text :: "transaction \<Rightarrow> string" where
  "transaction_text tr = pad_right 30 (show_u64 (t_addr tr)) @ '' '' @
     pad_left 8 (if is_write tr then ''WRITE'' else ''READ'')"

section \<open>Reading numbers back\<close>

lemma digits_value_snoc: "digits_value base (s @ [c]) = digits_value base s * base + (case digit_of c of Some d \<Rightarrow> d | None \<Rightarrow> 0)"
  by (simp add: digits_value_def)

lemma digit_of_char: "d < 10 \<Longrightarrow> digit_of (char_of (48 + d)) = Some d"
proof -
  assume "d < 10"
  then have "d \<in> {0, 1, 2, 3, 4, 5, 6, 7, 8, 9}" by auto
  moreover have "\<forall>d \<in> {0, 1, 2, 3, 4, 5, 6, 7, 8, 9}. digit_of (char_of (48 + d)) = Some d" by code_simp
  ultimately show ?thesis by blast
qed

lemma digits_value_show: "digits_value 10 (show_nat n) = n"
proof (induction n rule: show_nat.induct)
  case (1 n)
  show ?case
  proof (cases "n < 10")
    case True
    then show ?thesis by (simp add: show_nat.simps [of n] digits_value_def digit_of_char)
  next
    case False
    then show ?thesis using 1 by (simp add: show_nat.simps [of n] digits_value_snoc digit_of_char)
  qed
qed

lemma show_nat_digits: "c \<in> set (show_nat n) \<Longrightarrow> is_digit 10 c"
proof (induction n rule: show_nat.induct)
  case (1 n)
  then show ?case
    by (subst (asm) (2) show_nat.simps) (auto simp: is_digit_def digit_of_char split: if_splits)
qed

lemma show_nat_nonempty [simp]: "show_nat n \<noteq> []"
  by (subst show_nat.simps) simp

lemma show_hex_digits: "c \<in> set (show_hex n) \<Longrightarrow> c \<in> set ''0123456789abcdef''"
proof (induction n rule: show_hex.induct)
  case (1 n)
  have "hex_digit d \<in> set ''0123456789abcdef''" if "d < 16" for d
    unfolding hex_digit_def by (rule nth_mem) (use that in simp)
  then have h: "hex_digit (n mod 16) \<in> set ''0123456789abcdef''" "n < 16 \<Longrightarrow> hex_digit n \<in> set ''0123456789abcdef''" by simp_all
  show ?case
  proof (cases "n < 16")
    case True
    then have "c = hex_digit n" using "1.prems" by (subst (asm) show_hex.simps) simp
    then show ?thesis using h(2) [OF True] by simp
  next
    case False
    then have "c \<in> set (show_hex (n div 16)) \<or> c = hex_digit (n mod 16)" using "1.prems" by (subst (asm) show_hex.simps) auto
    then show ?thesis using "1.IH" False h(1) by blast
  qed
qed

section \<open>Splitting lines\<close>

lemma split_delims [simp]: "split_loop d [] (replicate n d @ s) = split_loop d [] s"
  by (induction n) simp_all

lemma split_loop_item: "d \<notin> set t \<Longrightarrow> split_loop d item (t @ s) = split_loop d (rev t @ item) s"
  by (induction t arbitrary: item) auto

lemma split_token: "d \<notin> set t \<Longrightarrow> t \<noteq> [] \<Longrightarrow> split_loop d [] (t @ d # s) = t # split_loop d [] s"
  by (simp add: split_loop_item)

lemma split_last: "d \<notin> set t \<Longrightarrow> t \<noteq> [] \<Longrightarrow> split_loop d [] t = [t]"
  using split_loop_item [of d t "[]" "[]"] by simp

lemma split_pad_left [simp]: "split_loop CHR '' '' [] (pad_left n t @ s) = split_loop CHR '' '' [] (t @ s)"
  by (simp add: pad_left_def)

lemma replicate_shift: "replicate k c @ c # s = c # replicate k c @ s"
  by (induction k) simp_all

lemma split_pad_right:
  "CHR '' '' \<notin> set t \<Longrightarrow> t \<noteq> [] \<Longrightarrow> split_loop CHR '' '' [] (pad_right n t @ CHR '' '' # s) = t # split_loop CHR '' '' [] s"
proof -
  assume t: "CHR '' '' \<notin> set t" "t \<noteq> []"
  have "pad_right n t @ CHR '' '' # s = t @ CHR '' '' # replicate (n - length t) CHR '' '' @ s"
    unfolding pad_right_def append_assoc replicate_shift ..
  then show ?thesis by (simp only: split_token [OF t] split_delims)
qed

end
