(* ===== verification/Stats_Report.thy ===== *)
theory Stats_Report
  imports SimpleStats Power_Params Text_Format
begin

text \<open>
  \<open>simple_stats.cc\<close>, the figures of type \<open>double\<close> and the reports: the energies and averages
  that the end of an epoch or of the run computes from the counters, the descriptions, the list of
  lines and the JSON object, and the text that is printed. They are a second part of the
  object's state, a \<open>report\<close>, beside the \<open>simple_stats\<close> of the counters. The format of a
  \<open>double\<close> (the library fmt) is a parameter; a JSON object is a map, as everywhere in this
  class the order of an \<open>unordered_map\<close> is that of the list.
\<close>

section \<open>State\<close>

datatype json =
    JInt int
  | JUInt u64
  | JReal double
  | JNull
  | JObject "(string \<times> json) list"

record report =
  header_descs :: "(string, string) umap"
  doubles :: "(string, double) umap"
  vec_doubles :: "(string, double list) umap"
  calculated :: "(string, double) umap"
  histo_headers :: "(string, string list) umap"
  j_data :: "(string, json) umap"
  print_pairs :: "(string \<times> string) list"

definition empty_report :: report where
  "empty_report = \<lparr>header_descs = [], doubles = [], vec_doubles = [], calculated = [], histo_headers = [],
     j_data = [], print_pairs = []\<rparr>"

definition describe :: "string \<Rightarrow> string \<Rightarrow> report \<Rightarrow> report" where
  "describe name description r = r\<lparr>header_descs := um_emplace name description (header_descs r)\<rparr>"

definition report_stat :: "string \<Rightarrow> string \<Rightarrow> string \<Rightarrow> report \<Rightarrow> report" where
  "report_stat name stat_type description r =
     (let r' = describe name description r in
      if stat_type = ''double'' then r'\<lparr>doubles := um_emplace name dzero (doubles r')\<rparr>
      else if stat_type = ''calculated'' then r'\<lparr>calculated := um_emplace name dzero (calculated r')\<rparr>
      else r')"

definition item_name :: "string \<Rightarrow> int \<Rightarrow> string" where
  "item_name name i = name @ ''.'' @ show_int i"

definition report_vec :: "string \<Rightarrow> string \<Rightarrow> string \<Rightarrow> string \<Rightarrow> int \<Rightarrow> report \<Rightarrow> report" where
  "report_vec name stat_type description part_name vec_len r =
     (let r' = fold (\<lambda>i. describe (item_name name i) (description @ '' '' @ item_name part_name i)) (indices vec_len) r in
      if stat_type = ''vec_double'' then r'\<lparr>vec_doubles := um_emplace name (replicate (nat vec_len) dzero) (vec_doubles r')\<rparr>
      else r')"

definition histo_names :: "string \<Rightarrow> int \<Rightarrow> int \<Rightarrow> int \<Rightarrow> string list" where
  "histo_names name start_val end_val num_bins =
     (let bin_width = (end_val - start_val) sdiv num_bins in
      [name @ ''[-'' @ show_int start_val @ '']''] @
      map (\<lambda>k. let i = k + 1 in name @ ''['' @ show_int (start_val + (i - 1) * bin_width) @ ''-'' @
             show_int (start_val + i * bin_width - 1) @ '']'') (indices num_bins) @
      [name @ ''['' @ show_int end_val @ ''-]''])"

definition report_histo :: "string \<Rightarrow> string \<Rightarrow> int \<Rightarrow> int \<Rightarrow> int \<Rightarrow> report \<Rightarrow> report" where
  "report_histo name description start_val end_val num_bins r =
     (let names = histo_names name start_val end_val num_bins;
          r' = fold (\<lambda>h. describe h description) names r
      in r'\<lparr>histo_headers := um_emplace name names (histo_headers r')\<rparr>)"

definition counter_descs :: "(string \<times> string) list" where
  "counter_descs = [(''num_cycles'', ''Number of DRAM cycles''), (''epoch_num'', ''Number of epochs''),
     (''num_reads_done'', ''Number of read requests issued''),
     (''num_writes_done'', ''Number of write requests issued''),
     (''num_write_buf_hits'', ''Number of write buffer hits''),
     (''num_read_row_hits'', ''Number of read row buffer hits''),
     (''num_write_row_hits'', ''Number of write row buffer hits''),
     (''num_read_cmds'', ''Number of READ/READP commands''),
     (''num_write_cmds'', ''Number of WRITE/WRITEP commands''),
     (''num_act_cmds'', ''Number of ACT commands''), (''num_pre_cmds'', ''Number of PRE commands''),
     (''num_ondemand_pres'', ''Number of ondemend PRE commands''),
     (''num_ref_cmds'', ''Number of REF commands''), (''num_refb_cmds'', ''Number of REFb commands''),
     (''num_srefe_cmds'', ''Number of SREFE commands''), (''num_srefx_cmds'', ''Number of SREFX commands''),
     (''hbm_dual_cmds'', ''Number of cycles dual cmds issued'')]"

definition double_descs :: "(string \<times> string) list" where
  "double_descs = [(''act_energy'', ''Activation energy''), (''read_energy'', ''Read energy''),
     (''write_energy'', ''Write energy''), (''ref_energy'', ''Refresh energy''),
     (''refb_energy'', ''Refresh-bank energy'')]"

definition calculated_descs :: "(string \<times> string) list" where
  "calculated_descs = [(''average_bandwidth'', ''Average bandwidth''), (''total_energy'', ''Total energy (pJ)''),
     (''average_power'', ''Average power (mW)''),
     (''average_read_latency'', ''Average read request latency (cycles)''),
     (''average_interarrival'', ''Average request interarrival latency (cycles)'')]"

definition Report :: "config \<Rightarrow> report" where
  "Report cfg =
     (let r1 = fold (\<lambda>(n, d). report_stat n ''counter'' d) counter_descs empty_report;
          r2 = fold (\<lambda>(n, d). report_stat n ''double'' d) double_descs r1;
          r3 = fold (\<lambda>(n, d). report_vec n ''vec_counter'' d ''rank'' (ranks cfg))
                 [(''all_bank_idle_cycles'', ''Cyles of all bank idle in rank''),
                  (''rank_active_cycles'', ''Cyles of rank active''),
                  (''sref_cycles'', ''Cyles of rank in SREF mode'')] r2;
          r4 = fold (\<lambda>(n, d). report_vec n ''vec_double'' d ''rank'' (ranks cfg))
                 [(''act_stb_energy'', ''Active standby energy''), (''pre_stb_energy'', ''Precharge standby energy''),
                  (''sref_energy'', ''SREF energy'')] r3;
          r5 = report_histo ''read_latency'' ''Read request latency (cycles)'' 0 200 10 r4;
          r6 = report_histo ''write_latency'' ''Write cmd latency (cycles)'' 0 200 10 r5;
          r7 = report_histo ''interarrival_latency'' ''Request interarrival latency (cycles)'' 0 100 10 r6
      in fold (\<lambda>(n, d). report_stat n ''calculated'' d) calculated_descs r7)"

section \<open>Energies and averages\<close>

definition dnum :: "u64 \<Rightarrow> double" where
  "dnum n = d_of_int (uint n)"

definition energies :: "power_params \<Rightarrow> (string, u64) umap \<Rightarrow> report \<Rightarrow> report" where
  "energies pw cs r =
     (let e = (\<lambda>name inc. dmul (dnum (um_ref 0 cs name)) inc);
          d1 = um_set ''act_energy'' (e ''num_act_cmds'' (act_energy_inc pw)) (doubles r);
          d2 = um_set ''read_energy'' (e ''num_read_cmds'' (read_energy_inc pw)) d1;
          d3 = um_set ''write_energy'' (e ''num_write_cmds'' (write_energy_inc pw)) d2;
          d4 = um_set ''ref_energy'' (e ''num_ref_cmds'' (ref_energy_inc pw)) d3
      in r\<lparr>doubles := um_set ''refb_energy'' (e ''num_refb_cmds'' (refb_energy_inc pw)) d4\<rparr>)"

definition set_item :: "string \<Rightarrow> int \<Rightarrow> double \<Rightarrow> (string, double list) umap \<Rightarrow> (string, double list) umap result" where
  "set_item name i x m = bindE (vset (um_ref [] m name) i x) (\<lambda>v. Inr (um_set name v m))"

definition rank_energy :: "power_params \<Rightarrow> (string, u64 list) umap \<Rightarrow> int \<Rightarrow>
    (string, double list) umap \<times> double \<Rightarrow> ((string, double list) umap \<times> double) result" where
  "rank_energy pw vcs i = (\<lambda>(vd, background_energy).
     bindE (vget (um_ref [] vcs ''rank_active_cycles'') i) (\<lambda>active.
     bindE (vget (um_ref [] vcs ''all_bank_idle_cycles'') i) (\<lambda>idle.
     bindE (vget (um_ref [] vcs ''sref_cycles'') i) (\<lambda>sref.
     let act_stb = dmul (dnum active) (act_stb_energy_inc pw);
         pre_stb = dmul (dnum idle) (pre_stb_energy_inc pw);
         sref_energy = dmul (dnum sref) (sref_energy_inc pw)
     in bindE (set_item ''act_stb_energy'' i act_stb vd) (\<lambda>vd1.
        bindE (set_item ''pre_stb_energy'' i pre_stb vd1) (\<lambda>vd2.
        bindE (set_item ''sref_energy'' i sref_energy vd2) (\<lambda>vd3.
        Inr (vd3, dadd background_energy (dadd (dadd act_stb pre_stb) sref_energy)))))))))"

definition background :: "power_params \<Rightarrow> config \<Rightarrow> (string, u64 list) umap \<Rightarrow> report \<Rightarrow> (report \<times> double) result" where
  "background pw cfg vcs r =
     bindE (foldE (rank_energy pw vcs) (indices (ranks cfg)) (vec_doubles r, dzero)) (\<lambda>(vd, bg).
     Inr (r\<lparr>vec_doubles := vd\<rparr>, bg))"

definition GetHistoAvg :: "(int, u64) umap \<Rightarrow> double" where
  "GetHistoAvg hist_counts =
     (let accu_sum = sum_list (map (\<lambda>(value, n). of_c_int value * n) hist_counts);
          cnt = sum_list (map snd hist_counts)
      in if cnt = 0 then dzero else ddiv (dnum accu_sum) (dnum cnt))"

definition calculate :: "power_params \<Rightarrow> config \<Rightarrow> (string, u64) umap \<Rightarrow> (string, (int, u64) umap) umap \<Rightarrow> double
    \<Rightarrow> report \<Rightarrow> report result" where
  "calculate pw cfg cs hcs background_energy r =
     (let total_reqs = um_ref 0 cs ''num_reads_done'' + um_ref 0 cs ''num_writes_done'';
          num_cycles = dnum (um_ref 0 cs ''num_cycles'');
          total_time = dmul num_cycles (tCK pw);
          avg_bw = ddiv (dnum (total_reqs * of_c_int (request_size_bytes cfg))) total_time;
          d = um_ref dzero (doubles r);
          total_energy = dadd (dadd (dadd (dadd (dadd (d ''act_energy'') (d ''read_energy'')) (d ''write_energy''))
            (d ''ref_energy'')) (d ''refb_energy'')) background_energy;
          c1 = um_set ''average_bandwidth'' avg_bw (calculated r);
          c2 = um_set ''total_energy'' total_energy c1;
          c3 = um_set ''average_power'' (ddiv total_energy num_cycles) c2
      in bindE (um_at hcs ''read_latency'') (\<lambda>rl.
         bindE (um_at hcs ''interarrival_latency'') (\<lambda>ia.
         Inr (r\<lparr>calculated := um_set ''average_interarrival'' (GetHistoAvg ia)
            (um_set ''average_read_latency'' (GetHistoAvg rl) c3)\<rparr>))))"

section \<open>The lines and the JSON object\<close>

definition put_pair :: "string \<Rightarrow> string \<Rightarrow> report \<Rightarrow> report" where
  "put_pair name value r = r\<lparr>print_pairs := print_pairs r @ [(name, value)]\<rparr>"

definition put_json :: "string \<Rightarrow> json \<Rightarrow> report \<Rightarrow> report" where
  "put_json name j r = r\<lparr>j_data := um_set name j (j_data r)\<rparr>"

definition put_value :: "string \<Rightarrow> string \<Rightarrow> json \<Rightarrow> report \<Rightarrow> report" where
  "put_value name value j r = put_json name j (put_pair name value r)"

definition put_vector :: "('a \<Rightarrow> string) \<Rightarrow> ('a \<Rightarrow> json) \<Rightarrow> string \<times> 'a list \<Rightarrow> report \<Rightarrow> report" where
  "put_vector f g = (\<lambda>(name, v) r.
     put_json name (if v = [] then JNull else JObject (map (\<lambda>(i, x). (show_int (int i), g x)) (enumerate 0 v)))
       (fold (\<lambda>(i, x). put_pair (item_name name (int i)) (f x)) (enumerate 0 v) r))"

definition put_bins :: "string \<times> u64 list \<Rightarrow> report \<Rightarrow> report result" where
  "put_bins = (\<lambda>(name, bins) r.
     foldE (\<lambda>(i, n) r'. bindE (vget (um_ref [] (histo_headers r) name) (int i)) (\<lambda>h.
        Inr (put_value h (show_u64 n) (JUInt n) r'))) (enumerate 0 bins) r)"

definition put_counts :: "string \<times> (int, u64) umap \<Rightarrow> report \<Rightarrow> report" where
  "put_counts = (\<lambda>(name, counts).
     put_json name (if counts = [] then JNull else JObject (map (\<lambda>(v, n). (show_int v, JUInt n)) counts)))"

definition UpdatePrints :: "(double \<Rightarrow> string) \<Rightarrow> int \<Rightarrow> bool \<Rightarrow> simple_stats \<Rightarrow> report \<Rightarrow> report result" where
  "UpdatePrints fmt channel_id epoch ss r =
     (let r1 = put_json ''channel'' (JInt channel_id) r;
          r2 = fold (\<lambda>(name, n). put_value name (show_u64 n) (JUInt n)) (if epoch then epoch_counters ss else counters ss) r1;
          r3 = put_json ''epoch_num'' (JUInt (um_ref 0 (counters ss) ''epoch_num'')) r2;
          r4 = fold (put_vector show_u64 JUInt) (if epoch then epoch_vec_counters ss else vec_counters ss) r3
      in bindE (foldE put_bins (if epoch then epoch_histo_bins ss else histo_bins ss) r4) (\<lambda>r5.
         let r6 = (if \<not> epoch then fold put_counts (histo_counts ss) r5 else r5);
             r7 = fold (\<lambda>(name, x). put_value name (fmt x) (JReal x)) (doubles r6) r6;
             r8 = fold (put_vector fmt JReal) (vec_doubles r7) r7
         in Inr (fold (\<lambda>(name, x). put_value name (fmt x) (JReal x)) (calculated r8) r8)))"

section \<open>The ends of an epoch and of the run\<close>

definition EpochReport :: "(double \<Rightarrow> string) \<Rightarrow> power_params \<Rightarrow> config \<Rightarrow> int \<Rightarrow> simple_stats \<times> report
    \<Rightarrow> (simple_stats \<times> report) result" where
  "EpochReport fmt pw cfg channel_id = (\<lambda>(ss, r).
     bindE (UpdateCounters ss) (\<lambda>s1.
     bindE (background pw cfg (epoch_vec_counters s1) (energies pw (epoch_counters s1) r)) (\<lambda>(r1, bg).
     bindE (UpdateHistoBins s1) (\<lambda>s2.
     bindE (calculate pw cfg (epoch_counters s2) (epoch_histo_counts s2) bg r1) (\<lambda>r2.
     bindE (UpdatePrints fmt channel_id True s2 r2) (\<lambda>r3.
     Inr (clear_epoch s2, r3)))))))"

definition FinalReport :: "(double \<Rightarrow> string) \<Rightarrow> power_params \<Rightarrow> config \<Rightarrow> int \<Rightarrow> simple_stats \<times> report
    \<Rightarrow> (simple_stats \<times> report) result" where
  "FinalReport fmt pw cfg channel_id = (\<lambda>(ss, r).
     bindE (UpdateCounters ss) (\<lambda>s1.
     bindE (background pw cfg (vec_counters s1) (energies pw (counters s1) r)) (\<lambda>(r1, bg).
     bindE (UpdateHistoBins s1) (\<lambda>s2.
     bindE (calculate pw cfg (counters s2) (histo_counts s2) bg r1) (\<lambda>r2.
     bindE (UpdatePrints fmt channel_id False s2 r2) (\<lambda>r3.
     Inr (s2, r3)))))))"

definition ReportReset :: "simple_stats \<times> report \<Rightarrow> simple_stats \<times> report" where
  "ReportReset = (\<lambda>(ss, r). (Reset ss, r\<lparr>doubles := um_map (\<lambda>_. dzero) (doubles r),
     vec_doubles := um_map (map (\<lambda>_. dzero)) (vec_doubles r), calculated := um_map (\<lambda>_. dzero) (calculated r)\<rparr>))"

section \<open>The text\<close>

definition PrintStatText :: "string \<Rightarrow> string \<Rightarrow> string \<Rightarrow> string" where
  "PrintStatText name value description =
     pad_right 30 name @ '' = '' @ pad_left 12 value @ pad_left 5 '' # '' @ description @ newline"

definition GetTextHeader :: "int \<Rightarrow> simple_stats \<Rightarrow> bool \<Rightarrow> string result" where
  "GetTextHeader channel_id ss is_final =
     bindE (if is_final then Inr [] else bindE (um_at (counters ss) ''epoch_num'') (\<lambda>n. Inr ('' of epoch '' @ show_u64 n))) (\<lambda>e.
     Inr (''###########################################'' @ newline @ ''## Statistics of Channel '' @ show_int channel_id @ e @
       newline @ ''###########################################'' @ newline))"

definition text_lines :: "report \<Rightarrow> string" where
  "text_lines r = concat (map (\<lambda>(name, value). PrintStatText name value (um_ref [] (header_descs r) name)) (print_pairs r))"

text \<open>What is written: the JSON file (with the text before the object), and the text (with
  whether it replaces the file).\<close>

definition PrintEpochReport :: "(double \<Rightarrow> string) \<Rightarrow> power_params \<Rightarrow> config \<Rightarrow> int \<Rightarrow> simple_stats \<times> report
    \<Rightarrow> ((simple_stats \<times> report) \<times> (string, json) umap option \<times> string option) result" where
  "PrintEpochReport fmt pw cfg channel_id st =
     bindE (EpochReport fmt pw cfg channel_id st) (\<lambda>(ss, r).
     bindE (if output_level cfg \<ge> 2 then bindE (GetTextHeader channel_id ss False) (\<lambda>h. Inr (Some (h @ text_lines r))) else Inr None) (\<lambda>t.
     Inr ((ss, r\<lparr>print_pairs := []\<rparr>), if output_level cfg \<ge> 1 then Some (j_data r) else None, t)))"

definition PrintFinalReport :: "(double \<Rightarrow> string) \<Rightarrow> power_params \<Rightarrow> config \<Rightarrow> int \<Rightarrow> simple_stats \<times> report
    \<Rightarrow> ((simple_stats \<times> report) \<times> (string \<times> (string, json) umap) option \<times> (bool \<times> string) option) result" where
  "PrintFinalReport fmt pw cfg channel_id st =
     bindE (FinalReport fmt pw cfg channel_id st) (\<lambda>(ss, r).
     bindE (if output_level cfg \<ge> 1 then bindE (GetTextHeader channel_id ss True) (\<lambda>h. Inr (Some (channel_id = 0, h @ text_lines r)))
            else Inr None) (\<lambda>t.
     Inr ((ss, r\<lparr>print_pairs := []\<rparr>),
       if output_level cfg \<ge> 0 then Some (CHR 0x22 # show_int channel_id @ [CHR 0x22, CHR '':''], j_data r) else None, t)))"

end
