(* ===== verification/Report_Properties.thy ===== *)
theory Report_Properties
  imports Stats_Report Stats_Properties
begin

text \<open>
  The properties of the reports: they never fail in a state the simulator can reach and leave the
  counters to the operations of the counters alone, the lines hold every counter, and the
  averages lie between the smallest and the largest value.
\<close>

section \<open>The lines\<close>

text \<open>Writing a line or an entry of the JSON object changes nothing else and keeps the lines.\<close>

definition extends :: "report \<Rightarrow> report \<Rightarrow> bool" where
  "extends r r' \<longleftrightarrow> (\<exists>ps js. r' = r\<lparr>print_pairs := print_pairs r @ ps, j_data := js\<rparr>)"

lemma extendsI: "r' = r\<lparr>print_pairs := print_pairs r @ ps, j_data := js\<rparr> \<Longrightarrow> extends r r'"
  unfolding extends_def by blast

lemma extends_refl [simp]: "extends r r"
  by (rule extendsI [where ps = "[]" and js = "j_data r"]) simp

lemma extends_trans: "extends a b \<Longrightarrow> extends b c \<Longrightarrow> extends a c"
proof -
  assume "extends a b" "extends b c"
  then obtain ps js ps' js' where b: "b = a\<lparr>print_pairs := print_pairs a @ ps, j_data := js\<rparr>"
    and c: "c = b\<lparr>print_pairs := print_pairs b @ ps', j_data := js'\<rparr>" unfolding extends_def by blast
  show ?thesis by (rule extendsI [where ps = "ps @ ps'" and js = js']) (simp add: c b)
qed

lemma extends_put:
  "extends r (put_pair n v r)" "extends r (put_json n j r)" "extends r (put_value n v j r)"
  by (rule extendsI [where ps = "[(n, v)]" and js = "j_data r"], simp add: put_pair_def)
    (rule extendsI [where ps = "[]" and js = "um_set n j (j_data r)"], simp add: put_json_def,
      rule extendsI [where ps = "[(n, v)]" and js = "um_set n j (j_data r)"], simp add: put_value_def put_pair_def put_json_def)

lemma extends_fold: "(\<And>x s. x \<in> set xs \<Longrightarrow> extends s (f x s)) \<Longrightarrow> extends r (fold f xs r)"
proof (induction xs arbitrary: r)
  case (Cons x xs)
  have "extends (f x r) (fold f xs (f x r))" using Cons by simp
  moreover have "extends r (f x r)" using Cons.prems by simp
  ultimately show ?case using extends_trans by simp
qed simp

lemma extends_sel:
  assumes "extends r r'"
  shows "histo_headers r' = histo_headers r" and "header_descs r' = header_descs r" and "doubles r' = doubles r"
    and "vec_doubles r' = vec_doubles r" and "calculated r' = calculated r" and "set (print_pairs r) \<subseteq> set (print_pairs r')"
  using assms by (auto simp: extends_def)

lemma extends_vector: "extends r (put_vector f g nv r)"
  by (cases nv) (auto simp: put_vector_def intro!: extends_trans [OF extends_fold extends_put(2)] extends_put)

lemma extends_counts: "extends r (put_counts nv r)"
  by (cases nv) (simp add: put_counts_def extends_put)

definition bins_named :: "report \<Rightarrow> (string, u64 list) umap \<Rightarrow> bool" where
  "bins_named r bins \<longleftrightarrow> (\<forall>(name, b) \<in> set bins. length b \<le> length (um_ref [] (histo_headers r) name))"

lemma put_bins_ok:
  assumes "length b \<le> length (um_ref [] (histo_headers r) name)"
  shows "okE (extends r) (put_bins (name, b) r)"
proof -
  have "okE (extends r) (foldE (\<lambda>(i, n) r'. bindE (vget (um_ref [] (histo_headers r) name) (int i)) (\<lambda>h.
        Inr (put_value h (show_u64 n) (JUInt n) r'))) (enumerate 0 b) r)"
  proof (rule okE_foldE [where I = "extends r", OF extends_refl])
    fix x s assume x: "x \<in> set (enumerate 0 b)" and s: "extends r s"
    obtain i n where "x = (i, n)" by (metis prod.exhaust)
    from this x have "i < length b" by (auto simp: in_set_enumerate_eq)
    from \<open>x = (i, n)\<close> \<open>i < length b\<close> show "okE (extends r) ((case x of (i, n) \<Rightarrow> \<lambda>r'. bindE (vget (um_ref [] (histo_headers r) name) (int i)) (\<lambda>h.
        Inr (put_value h (show_u64 n) (JUInt n) r'))) s)"
      using assms s extends_trans [OF s extends_put(3)] by (simp add: vget_def)
  qed
  then show ?thesis by (simp add: put_bins_def)
qed

lemma all_bins_ok:
  assumes "bins_named r bins"
  shows "okE (extends r) (foldE put_bins bins r)"
proof (rule okE_foldE [where I = "extends r", OF extends_refl])
  fix nb s assume nb: "nb \<in> set bins" and s: "extends r s"
  obtain name b where e: "nb = (name, b)" by (metis prod.exhaust)
  have "length b \<le> length (um_ref [] (histo_headers s) name)"
    using assms nb extends_sel(1) [OF s] by (auto simp: bins_named_def e)
  from put_bins_ok [OF this] show "okE (extends r) (put_bins nb s)"
    unfolding e by (rule okE_mono) (rule extends_trans [OF s])
qed

lemma put_counters_lines:
  "(k, n) \<in> set cs \<Longrightarrow> (k, show_u64 n) \<in> set (print_pairs (fold (\<lambda>(name, n). put_value name (show_u64 n) (JUInt n)) cs r))"
proof (induction cs arbitrary: r)
  case (Cons c cs)
  obtain a m where c: "c = (a, m)" by (metis prod.exhaust)
  have "extends (put_value a (show_u64 m) (JUInt m) r) (fold (\<lambda>(name, n). put_value name (show_u64 n) (JUInt n)) cs (put_value a (show_u64 m) (JUInt m) r))"
    by (rule extends_fold) (auto simp: extends_put)
  from extends_sel(6) [OF this] have "(a, show_u64 m) \<in> set (print_pairs (fold (\<lambda>(name, n). put_value name (show_u64 n) (JUInt n)) cs (put_value a (show_u64 m) (JUInt m) r)))"
    by (auto simp: put_value_def put_json_def put_pair_def)
  then show ?case using Cons c by auto
qed simp

definition reported :: "bool \<Rightarrow> simple_stats \<Rightarrow> (string, u64) umap" where
  "reported epoch ss = (if epoch then epoch_counters ss else counters ss)"

lemma UpdatePrints_ok:
  assumes "bins_named r (if epoch then epoch_histo_bins ss else histo_bins ss)"
  obtains r' where "UpdatePrints fmt ch epoch ss r = Inr r'" and "extends r r'"
    and "\<forall>(k, n) \<in> set (reported epoch ss). (k, show_u64 n) \<in> set (print_pairs r')"
proof -
  define r1 where "r1 = put_json ''channel'' (JInt ch) r"
  define r2 where "r2 = fold (\<lambda>(name, n). put_value name (show_u64 n) (JUInt n)) (reported epoch ss) r1"
  define r3 where "r3 = put_json ''epoch_num'' (JUInt (um_ref 0 (counters ss) ''epoch_num'')) r2"
  define r4 where "r4 = fold (put_vector show_u64 JUInt) (if epoch then epoch_vec_counters ss else vec_counters ss) r3"
  have e12: "extends r r1" "extends r1 r2"
    unfolding r1_def r2_def by (auto simp: extends_put intro!: extends_fold)
  have "extends r2 r3" "extends r3 r4"
    unfolding r3_def r4_def by (auto simp: extends_put extends_vector intro!: extends_fold)
  then have e24: "extends r2 r4" by (rule extends_trans)
  have e4: "extends r r4" using e12 e24 extends_trans by blast
  have "bins_named r4 (if epoch then epoch_histo_bins ss else histo_bins ss)"
    using assms extends_sel(1) [OF e4] by (simp add: bins_named_def)
  from all_bins_ok [OF this] obtain r5 where r5: "foldE put_bins (if epoch then epoch_histo_bins ss else histo_bins ss) r4 = Inr r5"
      "extends r4 r5" by (rule okE_E)
  define r6 where "r6 = (if \<not> epoch then fold put_counts (histo_counts ss) r5 else r5)"
  define r7 where "r7 = fold (\<lambda>(name, x). put_value name (fmt x) (JReal x)) (doubles r6) r6"
  define r8 where "r8 = fold (put_vector fmt JReal) (vec_doubles r7) r7"
  define r9 where "r9 = fold (\<lambda>(name, x). put_value name (fmt x) (JReal x)) (calculated r8) r8"
  have "extends r5 r6" "extends r6 r7" "extends r7 r8" "extends r8 r9"
    unfolding r6_def r7_def r8_def r9_def
    by (auto simp: extends_put extends_vector extends_counts intro!: extends_fold)
  then have e9: "extends r5 r9" using extends_trans by blast
  have run: "UpdatePrints fmt ch epoch ss r = Inr r9"
    using r5(1) unfolding UpdatePrints_def Let_def r9_def r8_def r7_def r6_def r4_def r3_def r2_def r1_def reported_def by simp
  have "extends r2 r9" using e24 r5(2) e9 extends_trans by blast
  then have "set (print_pairs r2) \<subseteq> set (print_pairs r9)" by (rule extends_sel(6))
  moreover have "\<forall>(k, n) \<in> set (reported epoch ss). (k, show_u64 n) \<in> set (print_pairs r2)"
    unfolding r2_def using put_counters_lines by fastforce
  moreover have "extends r r9" using e4 r5(2) e9 extends_trans by blast
  ultimately show thesis using run that by blast
qed

section \<open>The figures\<close>

definition rank_figures :: "string set" where
  "rank_figures = {''act_stb_energy'', ''pre_stb_energy'', ''sref_energy''}"

definition figures_ok :: "config \<Rightarrow> (string, double list) umap \<Rightarrow> bool" where
  "figures_ok cfg vd \<longleftrightarrow> (\<forall>name \<in> rank_figures. length (um_ref [] vd name) = nat (ranks cfg))"

definition ranks_ok :: "config \<Rightarrow> (string, u64 list) umap \<Rightarrow> bool" where
  "ranks_ok cfg vcs \<longleftrightarrow> 0 < ranks cfg \<longrightarrow> (\<forall>name \<in> rank_stats. length (um_ref [] vcs name) = nat (ranks cfg))"

lemma set_item_ok:
  assumes "figures_ok cfg vd" and "name \<in> rank_figures" and "0 \<le> i" "i < ranks cfg"
  shows "okE (figures_ok cfg) (set_item name i x vd)"
  using assms by (auto simp: set_item_def figures_ok_def vset_def)

lemma rank_energy_ok:
  assumes "ranks_ok cfg vcs" and "figures_ok cfg vd" and "0 \<le> i" "i < ranks cfg"
  shows "okE (\<lambda>(vd', bg). figures_ok cfg vd') (rank_energy pw vcs i (vd, bg0))"
proof -
  have g: "\<exists>n. vget (um_ref [] vcs name) i = Inr n" if "name \<in> rank_stats" for name
    using assms that by (simp add: ranks_ok_def vget_def)
  then obtain a b c where "vget (um_ref [] vcs ''rank_active_cycles'') i = Inr a"
      "vget (um_ref [] vcs ''all_bank_idle_cycles'') i = Inr b" "vget (um_ref [] vcs ''sref_cycles'') i = Inr c"
    by (metis insertCI rank_stats_def)
  moreover have s: "\<exists>m'. set_item name i x m = Inr m' \<and> figures_ok cfg m'" if "name \<in> rank_figures" "figures_ok cfg m" for name x m
    using set_item_ok [OF that(2,1) assms(3,4), of x] by (auto simp: okE_iff)
  have n: "''act_stb_energy'' \<in> rank_figures" "''pre_stb_energy'' \<in> rank_figures" "''sref_energy'' \<in> rank_figures"
    by (simp_all add: rank_figures_def)
  have "okE (\<lambda>(vd', bg). figures_ok cfg vd') (bindE (set_item ''act_stb_energy'' i x vd) (\<lambda>vd1.
        bindE (set_item ''pre_stb_energy'' i y vd1) (\<lambda>vd2. bindE (set_item ''sref_energy'' i z vd2) (\<lambda>vd3. Inr (vd3, w)))))" for x y z w
  proof -
    obtain vd1 where "set_item ''act_stb_energy'' i x vd = Inr vd1" "figures_ok cfg vd1" using s [OF n(1) assms(2)] by blast
    moreover from this(2) obtain vd2 where "set_item ''pre_stb_energy'' i y vd1 = Inr vd2" "figures_ok cfg vd2" using s [OF n(2)] by blast
    moreover from this(2) obtain vd3 where "set_item ''sref_energy'' i z vd2 = Inr vd3" "figures_ok cfg vd3" using s [OF n(3)] by blast
    ultimately show ?thesis by simp
  qed
  ultimately show ?thesis by (simp add: rank_energy_def Let_def)
qed

lemma background_ok:
  assumes "ranks_ok cfg vcs" and "figures_ok cfg (vec_doubles r)"
  obtains vd bg where "background pw cfg vcs r = Inr (r\<lparr>vec_doubles := vd\<rparr>, bg)" and "figures_ok cfg vd"
proof -
  have "okE (\<lambda>(vd, bg). figures_ok cfg vd) (foldE (rank_energy pw vcs) (indices (ranks cfg)) (vec_doubles r, dzero))"
  proof (rule okE_foldE)
    fix i and st :: "(string, double list) umap \<times> double" assume "i \<in> set (indices (ranks cfg))" "case st of (vd, bg) \<Rightarrow> figures_ok cfg vd"
    then show "okE (\<lambda>(vd, bg). figures_ok cfg vd) (rank_energy pw vcs i st)"
      using rank_energy_ok [OF assms(1)] by (cases st) auto
  qed (use assms(2) in simp)
  then show thesis using that by (auto simp: background_def okE_iff)
qed

lemma figures_energies [simp]: "vec_doubles (energies pw cs r) = vec_doubles r" "histo_headers (energies pw cs r) = histo_headers r"
  by (simp_all add: energies_def Let_def)

definition averages_ok :: "(string, (int, u64) umap) umap \<Rightarrow> bool" where
  "averages_ok hcs \<longleftrightarrow> map_of hcs ''read_latency'' \<noteq> None \<and> map_of hcs ''interarrival_latency'' \<noteq> None"

lemma calculate_ok:
  assumes "averages_ok hcs"
  obtains ca where "calculate pw cfg cs hcs bg r = Inr (r\<lparr>calculated := ca\<rparr>)"
  using assms that by (auto simp: averages_ok_def calculate_def Let_def um_at_def)

section \<open>The bins keep their names\<close>

lemma bins_named_ref: "bins_named r m \<Longrightarrow> length (um_ref [] m name) \<le> length (um_ref [] (histo_headers r) name)"
  using um_ref_in [of "[]" m name] by (cases "um_ref [] m name = []") (auto simp: bins_named_def)

lemma bins_named_set:
  "bins_named r m \<Longrightarrow> length b \<le> length (um_ref [] (histo_headers r) name) \<Longrightarrow> bins_named r (um_set name b m)"
  unfolding bins_named_def by (rule um_set_entries)

lemma fill_bins_length: "fill_bins bounds width cnts bins = Inr bins' \<Longrightarrow> length bins' = length bins"
  unfolding fill_bins_def
  by (erule foldE_inv [where I = "\<lambda>b. length b = length bins"]) (auto simp: bindE_eq_Inr vset_eq_Inr)

lemma final_bins_add_length: "final_bins_add eb fb = Inr fb' \<Longrightarrow> length fb' = length fb"
  unfolding final_bins_add_def
  by (erule foldE_inv [where I = "\<lambda>b. length b = length fb"]) (auto simp: bindE_eq_Inr vset_eq_Inr)

lemma UpdateHistoBins_named:
  assumes "UpdateHistoBins ss = Inr ss'" and "bins_named r (epoch_histo_bins ss)" and "bins_named r (histo_bins ss)"
    and "averages_ok (histo_counts ss)"
  shows "bins_named r (epoch_histo_bins ss') \<and> bins_named r (histo_bins ss') \<and> averages_ok (histo_counts ss') \<and>
    (\<exists>eb hc hb. ss' = ss\<lparr>epoch_histo_bins := eb, histo_counts := hc, histo_bins := hb\<rparr>)"
proof -
  from assms(1) obtain eb hc hb where eb: "epoch_bins_loop ss (epoch_histo_bins ss) = Inr eb"
    and h: "foldE (\<lambda>(name, epoch_counts) (hc, hb). bindE (final_bins_add (um_ref [] eb name) (um_ref [] hb name)) (\<lambda>b.
          Inr (um_set name (merge_counts epoch_counts (um_ref [] hc name)) hc, um_set name b hb)))
        (epoch_histo_counts ss) (histo_counts ss, histo_bins ss) = Inr (hc, hb)"
    and ss': "ss' = ss\<lparr>epoch_histo_bins := eb, histo_counts := hc, histo_bins := hb\<rparr>"
    by (auto simp: UpdateHistoBins_def bindE_eq_Inr)
  have "bins_named r eb"
    using eb unfolding epoch_bins_loop_def
  proof (rule foldE_inv [where I = "bins_named r"])
    fix x s t assume x: "x \<in> set (epoch_histo_bins ss)" and s: "bins_named r s"
    obtain name b where e: "x = (name, b)" by (metis prod.exhaust)
    have "length b \<le> length (um_ref [] (histo_headers r) name)" using assms(2) x by (auto simp: bins_named_def e)
    then show "(case x of (name, b) \<Rightarrow> \<lambda>acc. bindE (fill_bins (um_ref (0, 0) (histo_bounds ss) name) (um_ref 0 (bin_widths ss) name)
                (um_ref [] (epoch_histo_counts ss) name) b) (\<lambda>b'. Inr (um_set name b' acc))) s = Inr t \<Longrightarrow> bins_named r t"
      using s by (auto simp: e bindE_eq_Inr fill_bins_length intro!: bins_named_set)
  qed (rule assms(2))
  moreover have "(\<lambda>(hc, hb). bins_named r hb \<and> averages_ok hc) (hc, hb)"
    using h
  proof (rule foldE_inv)
    fix x s t assume s: "case s of (hc, hb) \<Rightarrow> bins_named r hb \<and> averages_ok hc"
      and t: "(case x of (name, epoch_counts) \<Rightarrow> \<lambda>(hc, hb). bindE (final_bins_add (um_ref [] eb name) (um_ref [] hb name)) (\<lambda>b.
          Inr (um_set name (merge_counts epoch_counts (um_ref [] hc name)) hc, um_set name b hb))) s = Inr t"
    obtain name ec hc0 hb0 where e: "x = (name, ec)" "s = (hc0, hb0)" by (metis prod.exhaust)
    show "case t of (hc, hb) \<Rightarrow> bins_named r hb \<and> averages_ok hc"
      using s t bins_named_ref [of r hb0 name]
      by (auto simp: e bindE_eq_Inr final_bins_add_length averages_ok_def intro!: bins_named_set)
  qed (use assms(3,4) in simp)
  ultimately show ?thesis using ss' by auto
qed

section \<open>Reports on reachable states\<close>

definition report_ok :: "config \<Rightarrow> simple_stats \<times> report \<Rightarrow> bool" where
  "report_ok cfg = (\<lambda>(ss, r). stats_ok cfg ss \<and> figures_ok cfg (vec_doubles r) \<and>
     bins_named r (epoch_histo_bins ss) \<and> bins_named r (histo_bins ss) \<and>
     averages_ok (epoch_histo_counts ss) \<and> averages_ok (histo_counts ss) \<and> map_of (counters ss) ''epoch_num'' \<noteq> None)"

lemma UpdateCounters_parts:
  assumes "stats_ok cfg ss"
  obtains c vc where "UpdateCounters ss = Inr (ss\<lparr>counters := c, vec_counters := vc\<rparr>)"
    and "stats_ok cfg (ss\<lparr>counters := c, vec_counters := vc\<rparr>)" and "ranks_ok cfg vc"
    and "map_of (counters ss) ''epoch_num'' \<noteq> None \<Longrightarrow> map_of c ''epoch_num'' \<noteq> None"
proof -
  from assms have ok: "stats_shape cfg ss" "stats_keys ss" by (simp_all add: stats_ok_def)
  from UpdateCounters_ok [OF ok(1)] obtain c vc where
    c: "UpdateCounters ss = Inr (ss\<lparr>counters := c, vec_counters := vc\<rparr>)"
      "stats_shape cfg (ss\<lparr>counters := c, vec_counters := vc\<rparr>)" by (auto simp: okE_iff)
  have "stats_ok cfg (ss\<lparr>counters := c, vec_counters := vc\<rparr>)" using c(2) ok(2) by (simp add: stats_ok_def stats_keys_def)
  moreover have "length (um_ref [] vc name) = nat (ranks cfg)" if "name \<in> rank_stats" "0 < ranks cfg" for name
  proof -
    have l: "length (um_ref [] (epoch_vec_counters ss) name) = nat (ranks cfg)" using ok(1) that by (simp add: stats_shape_def)
    then have "um_ref [] (epoch_vec_counters ss) name \<noteq> []" using that(2) by auto
    from um_ref_in [OF this] show ?thesis using c(2) l by (auto simp: stats_shape_def vecs_ok_def)
  qed
  moreover have "map_of c ''epoch_num'' \<noteq> None" if "map_of (counters ss) ''epoch_num'' \<noteq> None"
  proof -
    have "map_of (fold (\<lambda>(name, n) c. um_set name (um_ref 0 c name + n) c) es cs) k \<noteq> None" if "map_of cs k \<noteq> None"
      for es :: "(string \<times> u64) list" and cs k using that by (induction es arbitrary: cs) auto
    moreover have "c = fold (\<lambda>(name, n) c. um_set name (um_ref 0 c name + n) c) (epoch_counters ss) (counters ss)"
      using c(1) by (auto simp: UpdateCounters_def bindE_eq_Inr dest: arg_cong [where f = counters])
    ultimately show ?thesis using that by blast
  qed
  ultimately show thesis using c(1) that unfolding ranks_ok_def by blast
qed

lemma report_parts:
  assumes "report_ok cfg (ss, r)"
  obtains s1 s2 r1 r2 where "UpdateCounters ss = Inr s1" and "UpdateHistoBins s1 = Inr s2"
    and "UpdatePrints fmt ch epoch s2 r1 = Inr r2" and "extends r1 r2"
    and "\<forall>(k, n) \<in> set (reported epoch s2). (k, show_u64 n) \<in> set (print_pairs r2)"
    and "report_ok cfg (s2, r2)" and "report_ok cfg (clear_epoch s2, r2)"
    and "(if epoch then EpochReport else FinalReport) fmt pw cfg ch (ss, r) = Inr (if epoch then clear_epoch s2 else s2, r2)"
proof -
  from assms have ok: "stats_ok cfg ss" "figures_ok cfg (vec_doubles r)" "bins_named r (epoch_histo_bins ss)" "bins_named r (histo_bins ss)"
      "averages_ok (epoch_histo_counts ss)" "averages_ok (histo_counts ss)" "map_of (counters ss) ''epoch_num'' \<noteq> None"
    by (simp_all add: report_ok_def)
  obtain c vc where c: "UpdateCounters ss = Inr (ss\<lparr>counters := c, vec_counters := vc\<rparr>)" "ranks_ok cfg vc"
      "map_of c ''epoch_num'' \<noteq> None" by (rule UpdateCounters_parts [OF ok(1)]) (use ok(7) in blast)
  define s1 where "s1 = ss\<lparr>counters := c, vec_counters := vc\<rparr>"
  have s1: "UpdateCounters ss = Inr s1" "epoch_histo_bins s1 = epoch_histo_bins ss" "histo_bins s1 = histo_bins ss"
      "epoch_histo_counts s1 = epoch_histo_counts ss" "histo_counts s1 = histo_counts ss" "counters s1 = c" "vec_counters s1 = vc"
      "epoch_vec_counters s1 = epoch_vec_counters ss"
    using c(1) by (simp_all add: s1_def)
  obtain s2 where s2: "UpdateHistoBins s1 = Inr s2" "stats_ok cfg s2"
    using UpdateFinalStats_ok [OF ok(1)] s1(1) by (auto simp: UpdateFinalStats_def elim: okE_E)
  have cl: "stats_ok cfg (clear_epoch s2)"
    using UpdateEpochStats_ok [OF ok(1)] s1(1) s2(1) by (simp add: UpdateEpochStats_def)
  have n: "bins_named r (epoch_histo_bins s2)" "bins_named r (histo_bins s2)" "averages_ok (histo_counts s2)"
      "epoch_histo_counts s2 = epoch_histo_counts ss" "counters s2 = c"
    using UpdateHistoBins_named [OF s2(1), of r] ok(3,4,6) by (auto simp: s1)
  have "ranks_ok cfg (epoch_vec_counters ss)" using ok(1) by (simp add: ranks_ok_def stats_ok_def stats_shape_def)
  then have rk: "ranks_ok cfg (if epoch then epoch_vec_counters s1 else vec_counters s1)" using c(2) by (simp add: s1)
  have fg: "figures_ok cfg (vec_doubles (energies pw (if epoch then epoch_counters s1 else counters s1) r))" using ok(2) by simp
  obtain vd bg where b: "background pw cfg (if epoch then epoch_vec_counters s1 else vec_counters s1)
      (energies pw (if epoch then epoch_counters s1 else counters s1) r) =
      Inr ((energies pw (if epoch then epoch_counters s1 else counters s1) r)\<lparr>vec_doubles := vd\<rparr>, bg)" "figures_ok cfg vd"
    by (rule background_ok [OF rk fg])
  define r1 where "r1 = (energies pw (if epoch then epoch_counters s1 else counters s1) r)\<lparr>vec_doubles := vd\<rparr>"
  have av: "averages_ok (if epoch then epoch_histo_counts s2 else histo_counts s2)" using n(3,4) ok(5) by simp
  obtain ca where ca: "calculate pw cfg (if epoch then epoch_counters s2 else counters s2)
      (if epoch then epoch_histo_counts s2 else histo_counts s2) bg r1 = Inr (r1\<lparr>calculated := ca\<rparr>)"
    by (rule calculate_ok [OF av])
  define r2 where "r2 = r1\<lparr>calculated := ca\<rparr>"
  have h: "histo_headers r2 = histo_headers r" "vec_doubles r2 = vd" by (simp_all add: r2_def r1_def)
  have "bins_named r2 (if epoch then epoch_histo_bins s2 else histo_bins s2)" using n(1,2) by (simp add: bins_named_def h)
  then obtain r3 where r3: "UpdatePrints fmt ch epoch s2 r2 = Inr r3" "extends r2 r3"
      "\<forall>(k, n) \<in> set (reported epoch s2). (k, show_u64 n) \<in> set (print_pairs r3)" by (rule UpdatePrints_ok)
  have h3: "histo_headers r3 = histo_headers r" "vec_doubles r3 = vd" using extends_sel [OF r3(2)] h by simp_all
  have ok2: "report_ok cfg (s2, r3)"
    using s2(2) n c(3) ok(5) b(2) by (simp add: report_ok_def bins_named_def h3)
  have "report_ok cfg (clear_epoch s2, r3)"
    using ok2 cl by (simp add: report_ok_def clear_epoch_def averages_ok_def)
  moreover have "(if epoch then EpochReport else FinalReport) fmt pw cfg ch (ss, r) = Inr (if epoch then clear_epoch s2 else s2, r3)"
    using s1(1) s2(1) b(1) ca r3(1) by (cases epoch) (simp_all add: EpochReport_def FinalReport_def r2_def r1_def)
  ultimately show thesis using that s1(1) s2(1) r3 ok2 by blast
qed

lemma describe_sel [simp]:
  "histo_headers (describe n d r) = histo_headers r" "vec_doubles (describe n d r) = vec_doubles r"
  "histo_headers (fold (\<lambda>x. describe (f x) (g x)) xs r) = histo_headers r"
  "vec_doubles (fold (\<lambda>x. describe (f x) (g x)) xs r) = vec_doubles r"
proof -
  show d: "histo_headers (describe n d r) = histo_headers r" "vec_doubles (describe n d r) = vec_doubles r" for n d r
    by (simp_all add: describe_def)
  show "histo_headers (fold (\<lambda>x. describe (f x) (g x)) xs r) = histo_headers r"
    "vec_doubles (fold (\<lambda>x. describe (f x) (g x)) xs r) = vec_doubles r"
    by (induction xs arbitrary: r) (simp_all add: d)
qed

lemma report_init_sel [simp]:
  "histo_headers (report_stat n t d r) = histo_headers r" "vec_doubles (report_stat n t d r) = vec_doubles r"
  "histo_headers (report_vec n t d p k r) = histo_headers r"
  "vec_doubles (report_vec n t d p k r) =
     (if t = ''vec_double'' then um_emplace n (replicate (nat k) dzero) (vec_doubles r) else vec_doubles r)"
  "vec_doubles (report_histo n d a e k r) = vec_doubles r"
  "histo_headers (report_histo n d a e k r) = um_emplace n (histo_names n a e k) (histo_headers r)"
  by (simp_all add: report_stat_def report_vec_def report_histo_def Let_def)

lemma report_stats_sel [simp]:
  "histo_headers (fold (\<lambda>(n, d). report_stat n t d) xs r) = histo_headers r"
  "vec_doubles (fold (\<lambda>(n, d). report_stat n t d) xs r) = vec_doubles r"
  by (induction xs arbitrary: r) auto

lemma length_histo_names: "length (histo_names n a e k) = nat k + 2"
  by (simp add: histo_names_def Let_def)

lemma emplace_key: "(map_of (um_emplace k' v m) k \<noteq> None) = (k = k' \<or> map_of m k \<noteq> None)"
  by (auto split: option.splits)

lemma report_ok_init: "report_ok cfg (SimpleStats cfg, Report cfg)"
proof -
  have "figures_ok cfg (vec_doubles (Report cfg))"
    by (simp add: figures_ok_def rank_figures_def Report_def Let_def um_ref_def empty_report_def)
  moreover have "bins_named (Report cfg) (epoch_histo_bins (SimpleStats cfg))" "bins_named (Report cfg) (histo_bins (SimpleStats cfg))"
    by (simp_all add: bins_named_def init_stats_fields um_emplace_def um_set_def um_ref_def Report_def empty_report_def length_histo_names)
  moreover have "averages_ok (epoch_histo_counts (SimpleStats cfg))" "averages_ok (histo_counts (SimpleStats cfg))"
    unfolding averages_ok_def SimpleStats_def Let_def
    by (simp_all add: InitHistoStat_def emplace_key del: map_of_um_emplace not_None_eq)
  moreover have "counters (SimpleStats cfg) = counters (fold (\<lambda>name. InitStat name ''counter'') counter_names empty_stats)"
    by (simp add: SimpleStats_def Let_def InitHistoStat_def InitVecStat_def)
  moreover have "map_of (counters (fold (\<lambda>name. InitStat name ''counter'') counter_names empty_stats)) ''epoch_num'' = Some 0"
    by code_simp
  ultimately show ?thesis by (simp add: report_ok_def stats_ok_init)
qed

lemma report_ok_count:
  assumes "report_ok cfg (ss, r)"
  shows "report_ok cfg (Increment n ss, r)" and "report_ok cfg (AddValue n v ss, r)"
    and "n \<in> rank_stats \<Longrightarrow> IncrementVec n i ss = Inr ss' \<Longrightarrow> 0 \<le> i \<Longrightarrow> i < ranks cfg \<Longrightarrow> report_ok cfg (ss', r)"
    and "report_ok cfg (ReportReset (ss, r))"
proof -
  show "report_ok cfg (Increment n ss, r)" using assms by (simp add: report_ok_def) (simp add: Increment_def)
  show "report_ok cfg (AddValue n v ss, r)"
    using assms by (simp add: report_ok_def) (auto simp: AddValue_eq averages_ok_def)
  show "report_ok cfg (ss', r)" if "n \<in> rank_stats" "IncrementVec n i ss = Inr ss'" "0 \<le> i" "i < ranks cfg"
    using assms that IncrementVec_ok [of cfg ss n i] by (auto simp: report_ok_def IncrementVec_def Let_def bindE_eq_Inr)
  have "figures_ok cfg (um_map (map (\<lambda>_. dzero)) (vec_doubles r))"
    using assms by (auto simp: report_ok_def figures_ok_def um_ref_def split: option.splits)
  then show "report_ok cfg (ReportReset (ss, r))"
    using assms by (simp add: report_ok_def ReportReset_def stats_ok_Reset bins_named_def averages_ok_def) (simp add: Reset_def)
qed

section \<open>Runs\<close>

text \<open>The states that a channel's statistics can reach, with their reports.\<close>

inductive report_run :: "(double \<Rightarrow> string) \<Rightarrow> power_params \<Rightarrow> config \<Rightarrow> int \<Rightarrow> simple_stats \<times> report \<Rightarrow> bool"
  for fmt pw cfg ch where
  report_start: "report_run fmt pw cfg ch (SimpleStats cfg, Report cfg)"
| report_inc: "report_run fmt pw cfg ch (ss, r) \<Longrightarrow> report_run fmt pw cfg ch (Increment n ss, r)"
| report_vecinc: "report_run fmt pw cfg ch (ss, r) \<Longrightarrow> n \<in> rank_stats \<Longrightarrow> 0 \<le> i \<Longrightarrow> i < ranks cfg \<Longrightarrow>
    IncrementVec n i ss = Inr ss' \<Longrightarrow> report_run fmt pw cfg ch (ss', r)"
| report_add: "report_run fmt pw cfg ch (ss, r) \<Longrightarrow> report_run fmt pw cfg ch (AddValue n v ss, r)"
| report_epoch: "report_run fmt pw cfg ch st \<Longrightarrow> PrintEpochReport fmt pw cfg ch st = Inr (st', out) \<Longrightarrow>
    report_run fmt pw cfg ch st'"
| report_reset: "report_run fmt pw cfg ch st \<Longrightarrow> report_run fmt pw cfg ch (ReportReset st)"

lemma header_ok: "map_of (counters ss) ''epoch_num'' \<noteq> None \<Longrightarrow> \<exists>h. GetTextHeader ch ss b = Inr h"
  by (auto simp: GetTextHeader_def um_at_def)

lemma printed_ok: "report_ok cfg (ss, r) \<Longrightarrow> report_ok cfg (ss, r\<lparr>print_pairs := ps\<rparr>)"
  by (simp add: report_ok_def bins_named_def)

lemma PrintEpochReport_ok:
  assumes "report_ok cfg (ss, r)"
  obtains ss' r' out where "PrintEpochReport fmt pw cfg ch (ss, r) = Inr ((ss', r'), out)"
    and "UpdateEpochStats ss = Inr ss'" and "report_ok cfg (ss', r')" and "print_pairs r' = []"
proof -
  obtain s1 s2 r2 where p: "UpdateCounters ss = Inr s1" "UpdateHistoBins s1 = Inr s2" "report_ok cfg (clear_epoch s2, r2)"
      "EpochReport fmt pw cfg ch (ss, r) = Inr (clear_epoch s2, r2)"
    by (rule report_parts [OF assms, of fmt ch True pw]) simp
  have "map_of (counters (clear_epoch s2)) ''epoch_num'' \<noteq> None" using p(3) by (simp add: report_ok_def)
  then obtain h where "GetTextHeader ch (clear_epoch s2) False = Inr h" using header_ok by blast
  then show thesis
    using that p printed_ok [OF p(3), of "[]"]
    by (cases "2 \<le> output_level cfg") (auto simp: PrintEpochReport_def UpdateEpochStats_def)
qed

lemma PrintFinalReport_ok:
  assumes "report_ok cfg (ss, r)"
  obtains ss' r' out where "PrintFinalReport fmt pw cfg ch (ss, r) = Inr ((ss', r'), out)" and "UpdateFinalStats ss = Inr ss'"
proof -
  obtain s1 s2 r2 where p: "UpdateCounters ss = Inr s1" "UpdateHistoBins s1 = Inr s2" "report_ok cfg (s2, r2)"
      "FinalReport fmt pw cfg ch (ss, r) = Inr (s2, r2)"
    by (rule report_parts [OF assms, of fmt ch False pw]) simp
  have "map_of (counters s2) ''epoch_num'' \<noteq> None" using p(3) by (simp add: report_ok_def)
  then obtain h where "GetTextHeader ch s2 True = Inr h" using header_ok by blast
  then show thesis using that p by (cases "1 \<le> output_level cfg") (auto simp: PrintFinalReport_def UpdateFinalStats_def)
qed

lemma report_run_ok: "report_run fmt pw cfg ch st \<Longrightarrow> report_ok cfg st \<and> stats_run cfg (fst st)"
proof (induction rule: report_run.induct)
  case report_start
  then show ?case by (simp add: report_ok_init stats_start)
next
  case (report_inc ss r n)
  then show ?case by (simp add: report_ok_count stats_inc)
next
  case (report_vecinc ss r n i ss')
  have "report_ok cfg (ss', r)" by (rule report_ok_count(3)) (use report_vecinc in simp_all)
  then show ?case using report_vecinc by (auto intro: stats_vec)
next
  case (report_add ss r n v)
  then show ?case by (simp add: report_ok_count stats_add)
next
  case (report_epoch st st' out)
  obtain ss r where st: "st = (ss, r)" by (metis prod.exhaust)
  with report_epoch.IH have ok: "report_ok cfg (ss, r)" "stats_run cfg ss" by simp_all
  obtain ss' r' out' where "PrintEpochReport fmt pw cfg ch (ss, r) = Inr ((ss', r'), out')"
      "UpdateEpochStats ss = Inr ss'" "report_ok cfg (ss', r')" by (rule PrintEpochReport_ok [OF ok(1)])
  then show ?case using report_epoch.hyps(2) ok(2) by (auto simp: st intro: stats_epoch)
next
  case (report_reset st)
  obtain ss r where "st = (ss, r)" by (metis prod.exhaust)
  then show ?case using report_reset.IH report_ok_count(4) by (auto simp: ReportReset_def intro: stats_reset)
qed

text \<open>C12. The reports refine the counters: in every state that a channel's statistics can reach, the
  report of an epoch and the final report never fail (no missing key, no missing name for a bin,
  no rank out of range), and what they do to the counters is exactly what the operations on the
  counters alone do.\<close>

theorem report_refines_stats:
  assumes "report_run fmt pw cfg ch (ss, r)"
  shows "stats_run cfg ss \<and>
    okE (\<lambda>((ss', r'), out). UpdateEpochStats ss = Inr ss' \<and> print_pairs r' = []) (PrintEpochReport fmt pw cfg ch (ss, r)) \<and>
    okE (\<lambda>((ss', r'), out). UpdateFinalStats ss = Inr ss') (PrintFinalReport fmt pw cfg ch (ss, r))"
proof -
  have ok: "report_ok cfg (ss, r)" "stats_run cfg ss" using report_run_ok [OF assms] by simp_all
  obtain s1 r1 o1 where "PrintEpochReport fmt pw cfg ch (ss, r) = Inr ((s1, r1), o1)" "UpdateEpochStats ss = Inr s1" "print_pairs r1 = []"
    by (rule PrintEpochReport_ok [OF ok(1)])
  moreover obtain s2 r2 o2 where "PrintFinalReport fmt pw cfg ch (ss, r) = Inr ((s2, r2), o2)" "UpdateFinalStats ss = Inr s2"
    by (rule PrintFinalReport_ok [OF ok(1)])
  ultimately show ?thesis using ok(2) by simp
qed

definition ex_report :: "simple_stats \<times> report" where
  "ex_report = (ex_stats, Report ex_cfg)"

lemma ex_report_run: "report_run fmt pw ex_cfg ch ex_report"
  unfolding ex_report_def ex_stats_def by (intro report_add report_inc report_start)

theorem report_refines_stats_witness:
  "okE (\<lambda>((ss', r'), out). UpdateFinalStats ex_stats = Inr ss')
     (PrintFinalReport (\<lambda>_. []) (InitPowerParams (\<lambda>_ _ d. d) ex_cfg) ex_cfg 0 (ex_stats, Report ex_cfg))"
  using report_refines_stats [OF ex_report_run [unfolded ex_report_def]] by blast

section \<open>The printed text\<close>

text \<open>The text has for each of the counters \<open>cs\<close> the line of its name, its value in decimal digits that
  read back as the value, and its description.\<close>

definition prints :: "report \<Rightarrow> (string \<times> u64) list \<Rightarrow> string \<Rightarrow> bool" where
  "prints r cs t \<longleftrightarrow> (\<forall>(k, n) \<in> set cs.
     (\<exists>a b. t = a @ PrintStatText k (show_u64 n) (um_ref [] (header_descs r) k) @ b) \<and> digits_value 10 (show_u64 n) = unat n)"

lemma printsD:
  "prints r cs t \<Longrightarrow> (k, n) \<in> set cs \<Longrightarrow> \<exists>a b. t = a @ PrintStatText k (show_u64 n) (um_ref [] (header_descs r) k) @ b"
  unfolding prints_def by (drule (1) bspec) simp

lemma text_lines_prints:
  assumes "\<forall>(k, n) \<in> set cs. (k, show_u64 n) \<in> set (print_pairs r)"
  shows "prints (r\<lparr>print_pairs := []\<rparr>) cs (h @ text_lines r)"
  unfolding prints_def
proof clarify
  fix k and n :: u64
  assume "(k, n) \<in> set cs"
  then have "(k, show_u64 n) \<in> set (print_pairs r)" using assms by blast
  then obtain ps qs where ps: "print_pairs r = ps @ (k, show_u64 n) # qs" by (meson split_list)
  have "digits_value 10 (show_u64 n) = unat n" using digits_value_show [of "unat n"] by (simp add: show_u64_def)
  moreover have "h @ text_lines r =
      (h @ text_lines (r\<lparr>print_pairs := ps\<rparr>)) @ PrintStatText k (show_u64 n) (um_ref [] (header_descs r) k) @
      text_lines (r\<lparr>print_pairs := qs\<rparr>)"
    by (simp add: text_lines_def ps)
  ultimately show "(\<exists>a b. h @ text_lines r =
      a @ PrintStatText k (show_u64 n) (um_ref [] (header_descs (r\<lparr>print_pairs := []\<rparr>)) k) @ b) \<and>
      digits_value 10 (show_u64 n) = unat n"
    by (intro conjI exI [of _ "h @ text_lines (r\<lparr>print_pairs := ps\<rparr>)"] exI [of _ "text_lines (r\<lparr>print_pairs := qs\<rparr>)"]) simp_all
qed

text \<open>C35. Nothing is lost in the printed reports: the text that the end of the run prints (at output
  level 1 and above, into a new file for channel 0 and appended for the others) has a line for
  every counter with its name, its total and its description, and the text that the end of an
  epoch prints (at output level 2 and above) has one for every counter of the epoch; the digits
  of each read back as the value. At lower levels no text is written. After either, no line is
  pending.\<close>

theorem report_roundtrip:
  assumes "report_run fmt pw cfg ch (ss, r)"
  shows "okE (\<lambda>((ss', r'), j, t). print_pairs r' = [] \<and>
      (case t of None \<Rightarrow> output_level cfg < 1
       | Some (new, txt) \<Rightarrow> 1 \<le> output_level cfg \<and> new = (ch = 0) \<and> prints r' (counters ss') txt))
      (PrintFinalReport fmt pw cfg ch (ss, r)) \<and>
    okE (\<lambda>((ss', r'), j, t). print_pairs r' = [] \<and>
      (case t of None \<Rightarrow> output_level cfg < 2
       | Some txt \<Rightarrow> 2 \<le> output_level cfg \<and> prints r' (epoch_counters ss) txt))
      (PrintEpochReport fmt pw cfg ch (ss, r))" (is "?final \<and> ?epoch")
proof
  have ok: "report_ok cfg (ss, r)" using report_run_ok [OF assms] by simp
  obtain s1 s2 r2 where f: "FinalReport fmt pw cfg ch (ss, r) = Inr (s2, r2)" "report_ok cfg (s2, r2)"
      "\<forall>(k, n) \<in> set (counters s2). (k, show_u64 n) \<in> set (print_pairs r2)"
    by (rule report_parts [OF ok, of fmt ch False pw]) (simp add: reported_def)
  have "map_of (counters s2) ''epoch_num'' \<noteq> None" using f(2) by (simp add: report_ok_def)
  then obtain h where "GetTextHeader ch s2 True = Inr h" using header_ok by blast
  then show ?final using f(1) text_lines_prints [OF f(3)] by (simp add: PrintFinalReport_def)
  obtain s1 s3 r3 where e: "EpochReport fmt pw cfg ch (ss, r) = Inr (clear_epoch s3, r3)" "report_ok cfg (clear_epoch s3, r3)"
      "\<forall>(k, n) \<in> set (epoch_counters s3). (k, show_u64 n) \<in> set (print_pairs r3)"
      "UpdateCounters ss = Inr s1" "UpdateHistoBins s1 = Inr s3"
    by (rule report_parts [OF ok, of fmt ch True pw]) (simp add: reported_def)
  have "epoch_counters s3 = epoch_counters ss"
    using e(4,5) by (auto simp: UpdateCounters_def UpdateHistoBins_def bindE_eq_Inr)
  then have p: "prints (r3\<lparr>print_pairs := []\<rparr>) (epoch_counters ss) (h @ text_lines r3)" for h
    using text_lines_prints [OF e(3)] by simp
  have "map_of (counters (clear_epoch s3)) ''epoch_num'' \<noteq> None" using e(2) by (simp add: report_ok_def)
  then obtain h' where "GetTextHeader ch (clear_epoch s3) False = Inr h'" using header_ok by blast
  then show ?epoch using e(1) p by (simp add: PrintEpochReport_def)
qed

text \<open>The final report at output level 1 of a channel that has completed two reads.\<close>

theorem report_roundtrip_witness:
  "okE (\<lambda>((ss', r'), j, t). \<exists>txt a b. t = Some (True, txt) \<and>
      txt = a @ PrintStatText ''num_reads_done'' ''2'' (um_ref [] (header_descs r') ''num_reads_done'') @ b)
     (PrintFinalReport (\<lambda>_. []) (InitPowerParams (\<lambda>_ _ d. d) ex_cfg) ex_cfg 0 (ex_stats, Report ex_cfg))"
proof -
  let ?pw = "InitPowerParams (\<lambda>_ _ d. d) ex_cfg"
  have run: "report_run (\<lambda>_. []) ?pw ex_cfg 0 (ex_stats, Report ex_cfg)"
    using ex_report_run by (simp add: ex_report_def)
  obtain ss' r' out where q: "PrintFinalReport (\<lambda>_. []) ?pw ex_cfg 0 (ex_stats, Report ex_cfg) = Inr ((ss', r'), out)"
      "UpdateFinalStats ex_stats = Inr ss'"
    by (rule PrintFinalReport_ok [OF conjunct1 [OF report_run_ok [OF run]]])
  obtain j t where p: "PrintFinalReport (\<lambda>_. []) ?pw ex_cfg 0 (ex_stats, Report ex_cfg) = Inr ((ss', r'), j, t)"
      "UpdateFinalStats ex_stats = Inr ss'" using q by (cases out) blast
  have "okE (\<lambda>s. map_of (counters s) ''num_reads_done'' = Some 2) (UpdateCounters ex_stats)" by code_simp
  then have "map_of (counters ss') ''num_reads_done'' = Some 2"
    using p(2) by (auto simp: UpdateFinalStats_def UpdateHistoBins_def bindE_eq_Inr)
  then have m: "(''num_reads_done'', 2) \<in> set (counters ss')" by (rule map_of_SomeD)
  have e: "show_u64 2 = ''2''" "\<not> output_level ex_cfg < 1" by code_simp+
  then obtain u where t: "t = Some (True, u)" "prints r' (counters ss') u"
    using conjunct1 [OF report_roundtrip [OF run]] by (auto simp: p(1) split: option.splits)
  from printsD [OF t(2) m] show ?thesis by (simp add: p(1) t(1) e(1))
qed

section \<open>Averages\<close>

lemma uint_sum_list:
  assumes "\<And>x. x \<in> set xs \<Longrightarrow> uint (f x :: u64) = g x" and "(\<Sum>x \<leftarrow> xs. g x) < 2 ^ 64"
  shows "uint (\<Sum>x \<leftarrow> xs. f x) = (\<Sum>x \<leftarrow> xs. g x)"
  using assms
proof (induction xs)
  case (Cons x xs)
  have nn: "0 \<le> g y" if "y \<in> set (x # xs)" for y using Cons.prems(1) [OF that] by (metis uint_ge_0)
  then have "0 \<le> (\<Sum>x \<leftarrow> xs. g x)" by (intro sum_list_nonneg) auto
  with Cons nn [of x] show ?case by (simp add: uint_word_ariths(1) take_bit_eq_mod)
qed simp

text \<open>C38. An average latency lies between the smallest and the largest latency that was recorded,
  also after the rounding, as long as the latencies are not negative \<open>int\<close> values and their number and
  total stay below 2 to the 53; and it is 0 when none was recorded.\<close>

theorem average_between:
  assumes "\<forall>(v, n) \<in> set h. lo \<le> v \<and> v \<le> hi" and "0 \<le> lo" and "hi < 2 ^ 31"
    and "(\<Sum>(v, n) \<leftarrow> h. v * uint n) < 2 ^ 53" and "(\<Sum>(v, n) \<leftarrow> h. uint n) < 2 ^ 53"
  shows "GetHistoAvg h = dzero \<and> (\<Sum>(v, n) \<leftarrow> h. uint n) = 0 \<or>
    dle (d_of_int lo) (GetHistoAvg h) \<and> dle (GetHistoAvg h) (d_of_int hi)"
proof -
  let ?S = "\<Sum>(v, n) \<leftarrow> h. v * uint n" and ?N = "\<Sum>(v, n) \<leftarrow> h. uint n"
  have v: "0 \<le> v" "v < 2 ^ 31" if "(v, n) \<in> set h" for v n using assms(1-3) that by fastforce+
  have nn: "0 \<le> v * uint n" if "(v, n) \<in> set h" for v n using v(1) [OF that] by simp
  have S0: "0 \<le> ?S" and N0: "0 \<le> ?N" using nn by (intro sum_list_nonneg; auto)+
  have item: "uint (case x of (v, n) \<Rightarrow> of_c_int v * n) = (case x of (v, n) \<Rightarrow> v * uint n)" if x: "x \<in> set h" for x
  proof -
    obtain v n where e: "x = (v, n)" by (metis prod.exhaust)
    have "(case x of (v, n) \<Rightarrow> v * uint n) \<le> ?S"
      using x nn by (intro member_le_sum_list) auto
    then have "v * uint n < 2 ^ 64" using assms(4) by (simp add: e)
    moreover have "uint (of_c_int v) = v" using v [of v n] x by (intro uint_of_c_int) (simp_all add: e)
    moreover have "0 \<le> v * uint n" using nn x by (simp add: e)
    ultimately show ?thesis by (simp add: e uint_word_ariths(3) take_bit_eq_mod)
  qed
  have S: "uint (sum_list (map (\<lambda>(v, n). of_c_int v * n) h)) = ?S"
    using item assms(4) by (intro uint_sum_list) simp_all
  have N: "uint (sum_list (map snd h)) = ?N"
    using assms(5) uint_sum_list [where xs = h and f = snd and g = "\<lambda>(v, n). uint n"] by auto
  have bounds: "lo * ?N \<le> ?S" "?S \<le> hi * ?N"
    using assms(1) by (induction h) (auto simp: algebra_simps intro!: add_mono mult_right_mono)
  show ?thesis
  proof (cases "sum_list (map snd h) = 0")
    case True
    then show ?thesis using N by (simp add: GetHistoAvg_def Let_def)
  next
    case False
    then have "0 < ?N" using N N0 by (metis order_le_less uint_0_iff)
    then show ?thesis
      using ddiv_ints_between [OF S0 assms(4) _ assms(5,2) bounds] assms(3) False
      by (simp add: GetHistoAvg_def Let_def dnum_def S N)
  qed
qed

theorem average_between_witness:
  "dle (d_of_int 25) (GetHistoAvg [(25, 3), (31, 1)]) \<and> dle (GetHistoAvg [(25, 3), (31, 1)]) (d_of_int 31)"
  using average_between [of "[(25, 3), (31, 1)]" 25 31] by simp

end
