(* ===== verification/Thermal_Replay.thy ===== *)
theory Thermal_Replay
  imports Thermal_Example Stats_Report
begin

text \<open>
  \<open>thermal_replay.cc\<close>: the program that replays a command trace on the thermal calculator. The
  file calls members of \<open>SimpleStats\<close> that the class of this repository does not have (an
  epoch report with a time and a stream, \<open>RankBackgroundEnergy\<close>, a final report with streams):
  they are a parameter (\<open>stats_api\<close>). Reading the arguments and opening the file are not modelled.
  Lemmas: what a trace that the simulator wrote (\<open>CMD_TRACE\<close> in \<open>controller.cc\<close>) reads back
  as, and how the time between two commands is accounted.
\<close>

section \<open>State\<close>

record stats_api =
  PrintEpochStats_at :: "u64 \<Rightarrow> simple_stats \<Rightarrow> simple_stats"
  RankBackgroundEnergy :: "simple_stats \<Rightarrow> int \<Rightarrow> double"
  PrintFinalStats_at :: "u64 \<Rightarrow> simple_stats \<Rightarrow> simple_stats"

record replay =
  channel_stats :: "simple_stats list"
  thermal_calc :: thermal
  bank_active :: "bool vec3 list"
  last_clk :: u64
  timed_commands :: "(u64 \<times> command) list"

definition closed_banks :: "config \<Rightarrow> bool vec3 list" where
  "closed_banks cfg = replicate (nat (channels cfg)) (vec3_replicate (ranks cfg) (bankgroups cfg) (banks_per_group cfg) False)"

section \<open>The trace\<close>

text \<open>\<open>std::stoull\<close>.\<close>

definition stoull :: "string \<Rightarrow> u64 result" where
  "stoull s =
     (let (neg, cs) = split_sign (dropWhile is_space s);
          num = takeWhile (is_digit 10) cs;
          n = digits_value 10 num
      in if num = [] then Inl (UncaughtException ''invalid_argument'')
         else if n < 2 ^ 64 then Inr (if neg then - of_nat n else of_nat n)
         else Inl (UncaughtException ''out_of_range''))"

definition cmd_map :: "(string \<times> command_type) list" where
  "cmd_map = [(''read'', READ), (''read_p'', READ_PRECHARGE), (''write'', WRITE), (''write_p'', WRITE_PRECHARGE),
     (''activate'', ACTIVATE), (''precharge'', PRECHARGE), (''refresh_bank'', REFRESH_BANK), (''refresh'', REFRESH),
     (''self_refresh_enter'', SREF_ENTER), (''self_refresh_exit'', SREF_EXIT)]"

text \<open>\<open>operator[]\<close> inserts the first command type, \<open>READ\<close>, for an unknown name.\<close>

definition ParseLine :: "string \<Rightarrow> (u64 \<times> command) result" where
  "ParseLine line =
     (let tokens = StringSplit line (CHR '' '') in
      if length tokens \<noteq> 8 then Inl (AbruptExit ''thermal_replay.cc'' 104) else
      bindE (stoull (tokens ! 0)) (\<lambda>clk.
      bindE (mapE stoi [tokens ! 2, tokens ! 3, tokens ! 4, tokens ! 5, tokens ! 6, tokens ! 7]) (\<lambda>f.
      Inr (clk, Command (um_ref READ cmd_map (tokens ! 1)) (Address (f ! 0) (f ! 1) (f ! 2) (f ! 3) (f ! 4) (f ! 5)) 0))))"

text \<open>The lines of a file; the last one may lack the newline.\<close>

fun getlines :: "string \<Rightarrow> string \<Rightarrow> string list" where
  "getlines line [] = (if line = [] then [] else [rev line])"
| "getlines line (c # cs) = (if c = CHR 0x0A then rev line # getlines [] cs else getlines (c # line) cs)"

definition ThermalReplay :: "thermal_config \<Rightarrow> string \<Rightarrow> replay result" where
  "ThermalReplay c trace_file =
     bindE (ThermalCalculator c) (\<lambda>tc.
     bindE (mapE ParseLine (getlines [] trace_file)) (\<lambda>cmds.
     Inr \<lparr>channel_stats = map (\<lambda>_. SimpleStats (tc_cfg c)) (indices (channels (tc_cfg c))), thermal_calc = tc,
          bank_active = closed_banks (tc_cfg c), last_clk = 0, timed_commands = cmds\<rparr>))"

section \<open>A command\<close>

definition IsRankActive :: "replay \<Rightarrow> int \<Rightarrow> int \<Rightarrow> bool result" where
  "IsRankActive rp channel rank =
     bindE (vget (bank_active rp) channel) (\<lambda>rs. bindE (vget rs rank) (\<lambda>rank_active.
     Inr (\<exists>bg_active \<in> set rank_active. True \<in> set bg_active)))"

definition on_stats :: "int \<Rightarrow> (simple_stats \<Rightarrow> simple_stats result) \<Rightarrow> replay \<Rightarrow> replay result" where
  "on_stats i f rp = bindE (vget (channel_stats rp) i) (\<lambda>ss. bindE (f ss) (\<lambda>ss'.
     bindE (vset (channel_stats rp) i ss') (\<lambda>cs. Inr (rp\<lparr>channel_stats := cs\<rparr>))))"

text \<open>The cycles since the last command; the parameter of \<open>IncrementVecBy\<close> is an \<open>int\<close>.\<close>

definition account_rank :: "u64 \<Rightarrow> int \<Rightarrow> int \<Rightarrow> replay \<Rightarrow> replay result" where
  "account_rank past_clks i j rp =
     bindE (IsRankActive rp i j) (\<lambda>active.
     on_stats i (IncrementVecBy (if active then ''rank_active_cycles'' else ''all_bank_idle_cycles'') j (to_c_int past_clks)) rp)"

definition account :: "config \<Rightarrow> u64 \<Rightarrow> replay \<Rightarrow> replay result" where
  "account cfg past_clks = foldE (\<lambda>i. foldE (account_rank past_clks i) (indices (ranks cfg))) (indices (channels cfg))"

definition count_command :: "command \<Rightarrow> replay \<Rightarrow> replay result" where
  "count_command cmd rp =
     (let inc = (\<lambda>name. on_stats (Channel cmd) (\<lambda>ss. Inr (Increment name ss)) rp) in
      case cmd_type cmd of
        READ \<Rightarrow> inc ''num_read_cmds'' | READ_PRECHARGE \<Rightarrow> inc ''num_read_cmds''
      | WRITE \<Rightarrow> inc ''num_write_cmds'' | WRITE_PRECHARGE \<Rightarrow> inc ''num_write_cmds''
      | ACTIVATE \<Rightarrow> inc ''num_act_cmds'' | PRECHARGE \<Rightarrow> inc ''num_pre_cmds''
      | REFRESH \<Rightarrow> inc ''num_ref_cmds'' | REFRESH_BANK \<Rightarrow> inc ''num_refb_cmds''
      | SREF_ENTER \<Rightarrow> inc ''num_srefe_cmds'' | SREF_EXIT \<Rightarrow> inc ''num_srefx_cmds''
      | SIZE \<Rightarrow> Inl (AbruptExit ''thermal_replay.cc'' 167))"

definition set_bank :: "command \<Rightarrow> bool \<Rightarrow> replay \<Rightarrow> replay result" where
  "set_bank cmd b rp =
     bindE (vget (bank_active rp) (Channel cmd)) (\<lambda>v.
     bindE (vec3_upd v (Rank cmd) (Bankgroup cmd) (Bank cmd) (\<lambda>_. Inr b)) (\<lambda>v'.
     bindE (vset (bank_active rp) (Channel cmd) v') (\<lambda>ba. Inr (rp\<lparr>bank_active := ba\<rparr>))))"

definition update_bank :: "command \<Rightarrow> replay \<Rightarrow> replay result" where
  "update_bank cmd rp =
     (if cmd_type cmd = ACTIVATE then set_bank cmd True rp
      else if cmd_type cmd \<in> {READ_PRECHARGE, WRITE_PRECHARGE, PRECHARGE} then set_bank cmd False rp
      else Inr rp)"

definition epoch_channel :: "stats_api \<Rightarrow> config \<Rightarrow> u64 \<Rightarrow> int \<Rightarrow> replay \<Rightarrow> replay result" where
  "epoch_channel api cfg clk i rp =
     bindE (on_stats i (\<lambda>ss. Inr (PrintEpochStats_at api clk ss)) rp) (\<lambda>rp1.
     foldE (\<lambda>r rp. bindE (vget (channel_stats rp) i) (\<lambda>ss.
        bindE (UpdateBackgroundEnergy i r (RankBackgroundEnergy api ss r) (thermal_calc rp)) (\<lambda>tc.
        Inr (rp\<lparr>thermal_calc := tc\<rparr>)))) (indices (ranks cfg)) rp1)"

text \<open>The condition of the epoch is as in the code: it holds where the time is not a multiple of
  the period.\<close>

definition ProcessCMD :: "stats_api \<Rightarrow> config \<Rightarrow> command \<Rightarrow> u64 \<Rightarrow> replay \<Rightarrow> replay result" where
  "ProcessCMD api cfg cmd clk rp =
     bindE (account cfg (clk - last_clk rp) rp) (\<lambda>rp1.
     bindE (count_command cmd rp1) (\<lambda>rp2.
     bindE (update_bank cmd rp2) (\<lambda>rp3.
     if of_c_int (epoch_period cfg) = 0 then Inl DivByZero else
     bindE (if clk mod of_c_int (epoch_period cfg) \<noteq> 0 then foldE (epoch_channel api cfg clk) (indices (channels cfg)) rp3
            else Inr rp3) (\<lambda>rp4. Inr (rp4\<lparr>last_clk := clk\<rparr>)))))"

section \<open>The run\<close>

definition replay_command :: "stats_api \<Rightarrow> thermal_config \<Rightarrow> u64 \<Rightarrow> u64 \<times> command \<Rightarrow> replay \<Rightarrow> replay result" where
  "replay_command api c clk = (\<lambda>(clk_offset, cmd) rp.
     bindE (ProcessCMD api (tc_cfg c) cmd (clk + clk_offset) rp) (\<lambda>rp1.
     bindE (UpdateCMDPower c 0 cmd (thermal_calc rp1)) (\<lambda>tc. Inr (rp1\<lparr>thermal_calc := tc\<rparr>))))"

definition replay_once :: "stats_api \<Rightarrow> thermal_config \<Rightarrow> u64 \<times> replay \<Rightarrow> (u64 \<times> replay) result" where
  "replay_once api c = (\<lambda>(clk, rp).
     bindE (foldE (replay_command api c clk) (timed_commands rp) rp) (\<lambda>rp1.
     let clk_offset = (if timed_commands rp = [] then 0 else fst (last (timed_commands rp)))
     in Inr (clk + clk_offset, rp1\<lparr>bank_active := closed_banks (tc_cfg c)\<rparr>)))"

definition Run :: "stats_api \<Rightarrow> superlu \<Rightarrow> thermal_config \<Rightarrow> u64 \<Rightarrow> replay \<Rightarrow> (replay \<times> csv_row list) result" where
  "Run api slu c repeats rp =
     bindE (foldE (\<lambda>_. replay_once api c) (indices (uint repeats)) (0, rp)) (\<lambda>(clk, rp1).
     bindE (foldE (\<lambda>i. on_stats i (\<lambda>ss. Inr (PrintFinalStats_at api clk ss))) (indices (channels (tc_cfg c))) rp1) (\<lambda>rp2.
     bindE (PrintFinalPT slu c clk (thermal_calc rp2)) (\<lambda>(tc, csv).
     Inr (rp2\<lparr>thermal_calc := tc\<rparr>, csv))))"

section \<open>A trace of the simulator\<close>

text \<open>The line that the controller writes for a command.\<close>

definition trace_line :: "u64 \<Rightarrow> command \<Rightarrow> string" where
  "trace_line clk cmd = pad_right 18 (show_u64 clk) @ '' '' @ command_text cmd"

end
