(* ===== verification/System_Reports.thy ===== *)
theory System_Reports
  imports Thermal_Epoch Report_Properties Thermal_Replay
begin

text \<open>
  The ends of epochs and of the run for the whole system, with \<open>THERMAL\<close>: \<open>dram_system.cc\<close>
  (\<open>PrintEpochStats\<close>, \<open>PrintStats\<close>) and the parts of \<open>controller.cc\<close> that it calls, on the
  statistics and reports of all channels, the two JSON files and the thermal calculator. The
  format of a JSON object is a parameter; so is \<open>RankBackgroundEnergy\<close>, which the class
  \<open>SimpleStats\<close> of this repository lacks. The traffic of the controllers is in other theories.
\<close>

section \<open>State and operations\<close>

record reporting =
  channel_reports :: "(simple_stats \<times> report) list"
  tcalc :: thermal
  json_epoch :: string
  json_stats :: string

text \<open>The library's formats.\<close>

record formats =
  fmt_double :: "double \<Rightarrow> string"
  fmt_json :: "(string, json) umap \<Rightarrow> string"

definition separator :: string where "separator = '','' @ newline"

text \<open>The background energies of a channel go to the thermal calculator.\<close>

definition pass_background :: "stats_api \<Rightarrow> config \<Rightarrow> int \<Rightarrow> simple_stats \<Rightarrow> thermal \<Rightarrow> thermal result" where
  "pass_background api cfg i ss =
     foldE (\<lambda>r. UpdateBackgroundEnergy i r (RankBackgroundEnergy api ss r)) (indices (ranks cfg))"

definition optional :: "string option \<Rightarrow> string" where
  "optional s = (case s of None \<Rightarrow> [] | Some t \<Rightarrow> t)"

definition channel_epoch :: "formats \<Rightarrow> stats_api \<Rightarrow> thermal_config \<Rightarrow> int \<Rightarrow> reporting \<Rightarrow> reporting result" where
  "channel_epoch fs api c i st =
     bindE (vget (channel_reports st) i) (\<lambda>(ss, r).
     bindE (PrintEpochReport (fmt_double fs) (tc_pw c) (tc_cfg c) i (Increment ''epoch_num'' ss, r)) (\<lambda>((ss', r'), j, text).
     bindE (pass_background api (tc_cfg c) i ss' (tcalc st)) (\<lambda>tc.
     bindE (vset (channel_reports st) i (ss', r')) (\<lambda>cr.
     Inr (st\<lparr>channel_reports := cr, tcalc := tc,
         json_epoch := json_epoch st @ optional (map_option (fmt_json fs) j) @ separator\<rparr>)))))"

definition system_epoch :: "formats \<Rightarrow> stats_api \<Rightarrow> thermal_config \<Rightarrow> u64 \<Rightarrow> reporting \<Rightarrow> reporting result" where
  "system_epoch fs api c clk st =
     (let st0 = (if clk - of_c_int (epoch_period (tc_cfg c)) = 0 then st\<lparr>json_epoch := ''[''\<rparr> else st) in
      bindE (foldE (channel_epoch fs api c) (indices (int (length (channel_reports st0)))) st0) (\<lambda>st1.
      bindE (PrintTransPT c clk (tcalc st1)) (\<lambda>(tc, maxima, rws).
      Inr (st1\<lparr>tcalc := tc\<rparr>))))"

text \<open>\<open>seekp(-2)\<close> and one character: the last two characters become the bracket and what was
  last; on a file that does not exist nothing happens.\<close>

definition close_bracket :: "string \<Rightarrow> string" where
  "close_bracket s = (if length s < 2 then s else butlast (butlast s) @ '']'' @ [last s])"

definition channel_final :: "formats \<Rightarrow> stats_api \<Rightarrow> thermal_config \<Rightarrow> int \<Rightarrow> reporting \<Rightarrow> reporting result" where
  "channel_final fs api c i st =
     bindE (vget (channel_reports st) i) (\<lambda>(ss, r).
     bindE (PrintFinalReport (fmt_double fs) (tc_pw c) (tc_cfg c) i (ss, r)) (\<lambda>((ss', r'), j, text).
     bindE (pass_background api (tc_cfg c) i ss' (tcalc st)) (\<lambda>tc.
     bindE (vset (channel_reports st) i (ss', r')) (\<lambda>cr.
     Inr (st\<lparr>channel_reports := cr, tcalc := tc,
         json_stats := json_stats st @ optional (map_option (\<lambda>(key, obj). key @ fmt_json fs obj) j) @
           (if i \<noteq> int (length (channel_reports st)) - 1 then separator else [])\<rparr>)))))"

definition system_final :: "superlu \<Rightarrow> formats \<Rightarrow> stats_api \<Rightarrow> thermal_config \<Rightarrow> u64 \<Rightarrow> reporting \<Rightarrow> reporting result" where
  "system_final slu fs api c clk st =
     bindE (foldE (channel_final fs api c) (indices (int (length (channel_reports st))))
        (st\<lparr>json_epoch := close_bracket (json_epoch st), json_stats := ''{''\<rparr>)) (\<lambda>st1.
     bindE (PrintFinalPT slu c clk (tcalc st1)) (\<lambda>(tc, rws).
     Inr (st1\<lparr>tcalc := tc, json_stats := json_stats st1 @ ''}''\<rparr>)))"

section \<open>Well-formed states\<close>

definition energies_shape :: "config \<Rightarrow> nat \<Rightarrow> thermal \<Rightarrow> bool" where
  "energies_shape cfg n tc \<longleftrightarrow> length (background_energy tc) = n \<and>
     (\<forall>es \<in> set (background_energy tc). length es = nat (ranks cfg))"

definition reporting_ok :: "thermal_config \<Rightarrow> reporting \<Rightarrow> bool" where
  "reporting_ok c st \<longleftrightarrow> (\<forall>sr \<in> set (channel_reports st). report_ok (tc_cfg c) sr) \<and> thermal_ok c (tcalc st) \<and>
     energies_shape (tc_cfg c) (length (channel_reports st)) (tcalc st)"

lemma UpdateBackground_ok:
  assumes "thermal_ok c tc" and "energies_shape cfg n tc" and "0 \<le> i" "i < int n" and "0 \<le> r" "r < ranks cfg"
  shows "okE (\<lambda>tc'. thermal_ok c tc' \<and> energies_shape cfg n tc') (UpdateBackgroundEnergy i r e tc)"
proof -
  have n: "nat i < length (background_energy tc)" using assms by (simp add: energies_shape_def)
  then have "length (background_energy tc ! nat i) = nat (ranks cfg)" using assms(2) by (simp add: energies_shape_def)
  then have u: "UpdateBackgroundEnergy i r e tc =
      Inr (tc\<lparr>background_energy := (background_energy tc)[nat i := (background_energy tc ! nat i)[nat r := e]]\<rparr>)"
    using assms n by (auto simp: UpdateBackgroundEnergy_def vget_def vset_def energies_shape_def)
  have "energies_shape cfg n (tc\<lparr>background_energy := (background_energy tc)[nat i := (background_energy tc ! nat i)[nat r := e]]\<rparr>)"
    using assms(2) n by (simp add: energies_shape_def all_set_conv_all_nth nth_list_update)
  with u obtain tc' where tc': "UpdateBackgroundEnergy i r e tc = Inr tc'" "energies_shape cfg n tc'" by blast
  then show ?thesis using energy_change_ok [OF assms(1) Background_change [OF tc'(1)]] by simp
qed

lemma pass_background_ok:
  assumes "thermal_ok c tc" and "energies_shape cfg n tc" and "0 \<le> i" "i < int n"
  shows "okE (\<lambda>tc'. thermal_ok c tc' \<and> energies_shape cfg n tc') (pass_background api cfg i ss tc)"
  unfolding pass_background_def by (rule okE_foldE) (use assms in \<open>auto intro!: UpdateBackground_ok\<close>)

lemma reporting_update:
  assumes "reporting_ok c st" and "report_ok (tc_cfg c) sr" and "thermal_ok c tc"
    and "energies_shape (tc_cfg c) (length (channel_reports st)) tc"
  shows "reporting_ok c (st\<lparr>channel_reports := (channel_reports st)[i := sr], tcalc := tc, json_epoch := a, json_stats := b\<rparr>)"
  using assms by (auto simp: reporting_ok_def dest!: set_update_subset_insert [THEN subsetD])

section \<open>One channel\<close>

definition epoch_object :: "formats \<Rightarrow> config \<Rightarrow> (string, json) umap \<Rightarrow> string" where
  "epoch_object fs cfg j = (if output_level cfg \<ge> 1 then fmt_json fs j else [])"

text \<open>The report of the epoch of channel \<open>i\<close> turns the statistics and report \<open>a\<close> into \<open>b\<close>; its JSON
  object is the data \<open>b\<close> holds then.\<close>

definition epoch_reported :: "formats \<Rightarrow> thermal_config \<Rightarrow> nat \<Rightarrow> simple_stats \<times> report \<Rightarrow> simple_stats \<times> report \<Rightarrow> bool" where
  "epoch_reported fs c i a b \<longleftrightarrow>
     (\<exists>j t. PrintEpochReport (fmt_double fs) (tc_pw c) (tc_cfg c) (int i) (Increment ''epoch_num'' (fst a), snd a) = Inr (b, j, t))"

definition epoch_text :: "formats \<Rightarrow> config \<Rightarrow> (simple_stats \<times> report) list \<Rightarrow> string" where
  "epoch_text fs cfg rs = concat (map (\<lambda>sr. epoch_object fs cfg (j_data (snd sr)) @ separator) rs)"

text \<open>What the channels before number \<open>n\<close> did to the state \<open>st0\<close>: they reported the epoch, their
  counters ended it, and the file got the object of each and a separator.\<close>

definition epochs_done :: "formats \<Rightarrow> thermal_config \<Rightarrow> reporting \<Rightarrow> nat \<Rightarrow> reporting \<Rightarrow> bool" where
  "epochs_done fs c st0 n st \<longleftrightarrow> reporting_ok c st \<and> length (channel_reports st) = length (channel_reports st0) \<and>
     (\<forall>i < n. epoch_reported fs c i (channel_reports st0 ! i) (channel_reports st ! i) \<and>
        UpdateEpochStats (Increment ''epoch_num'' (fst (channel_reports st0 ! i))) = Inr (fst (channel_reports st ! i))) \<and>
     (\<forall>i \<ge> n. i < length (channel_reports st0) \<longrightarrow> channel_reports st ! i = channel_reports st0 ! i) \<and>
     json_epoch st = json_epoch st0 @ epoch_text fs (tc_cfg c) (take n (channel_reports st))"

lemma channel_epoch_ok:
  assumes "epochs_done fs c st0 n st" and "n < length (channel_reports st0)"
  shows "okE (epochs_done fs c st0 (Suc n)) (channel_epoch fs api c (int n) st)"
proof -
  note inv = assms(1) [unfolded epochs_done_def]
  have ok: "reporting_ok c st" and len: "n < length (channel_reports st)" using inv assms(2) by simp_all
  obtain ss r where sr: "channel_reports st ! n = (ss, r)" by (metis prod.exhaust)
  then have same: "channel_reports st0 ! n = (ss, r)" using inv assms(2) by auto
  have "(ss, r) \<in> set (channel_reports st)" using len sr by (metis nth_mem)
  then have "report_ok (tc_cfg c) (ss, r)" using ok by (auto simp: reporting_ok_def)
  from report_ok_count(1) [OF this] have "report_ok (tc_cfg c) (Increment ''epoch_num'' ss, r)" .
  then obtain ss' r' out where
    p: "PrintEpochReport (fmt_double fs) (tc_pw c) (tc_cfg c) (int n) (Increment ''epoch_num'' ss, r) = Inr ((ss', r'), out)"
      "UpdateEpochStats (Increment ''epoch_num'' ss) = Inr ss'" "report_ok (tc_cfg c) (ss', r')"
    by (rule PrintEpochReport_ok)
  obtain j t where out: "out = (j, t)" by (metis prod.exhaust)
  have j: "j = (if output_level (tc_cfg c) \<ge> 1 then Some (j_data r') else None)"
    using p(1) by (auto simp: PrintEpochReport_def bindE_eq_Inr out split: if_splits)
  have tc0: "thermal_ok c (tcalc st)" "energies_shape (tc_cfg c) (length (channel_reports st)) (tcalc st)"
    using ok by (simp_all add: reporting_ok_def)
  obtain tc where tc: "pass_background api (tc_cfg c) (int n) ss' (tcalc st) = Inr tc"
      "thermal_ok c tc" "energies_shape (tc_cfg c) (length (channel_reports st)) tc"
    using pass_background_ok [OF tc0, of "int n" api ss'] len by (auto simp: okE_iff)
  define st' where "st' = st\<lparr>channel_reports := (channel_reports st)[n := (ss', r')], tcalc := tc,
      json_epoch := json_epoch st @ epoch_object fs (tc_cfg c) (j_data r') @ separator\<rparr>"
  have run: "channel_epoch fs api c (int n) st = Inr st'"
    using len p(1) tc(1) by (simp add: channel_epoch_def vget_def vset_def sr st'_def out j optional_def epoch_object_def)
  have "reporting_ok c st'" using reporting_update [OF ok p(3) tc(2,3), where b = "json_stats st"] by (simp add: st'_def)
  moreover have "json_epoch st' = json_epoch st0 @ epoch_text fs (tc_cfg c) (take (Suc n) (channel_reports st'))"
    using inv len by (simp add: st'_def epoch_text_def take_Suc_conv_app_nth)
  moreover have "epoch_reported fs c n (ss, r) (ss', r')" using p(1) out by (auto simp: epoch_reported_def)
  ultimately have "epochs_done fs c st0 (Suc n) st'"
    using inv len p(2) same by (auto simp: epochs_done_def st'_def nth_list_update less_Suc_eq)
  with run show ?thesis by simp
qed

lemma channels_epoch_ok:
  assumes "reporting_ok c st0" and "n \<le> length (channel_reports st0)"
  shows "okE (epochs_done fs c st0 n) (foldE (channel_epoch fs api c) (indices (int n)) st0)"
  using assms(2)
proof (induction n)
  case 0
  then show ?case using assms(1) by (simp add: epochs_done_def epoch_text_def indices_def)
next
  case (Suc n)
  then obtain st where "foldE (channel_epoch fs api c) (indices (int n)) st0 = Inr st" "epochs_done fs c st0 n st"
    by (auto simp: okE_iff)
  then show ?case using channel_epoch_ok Suc.prems unfolding indices_Suc foldE_append by simp
qed

lemma system_epoch_ok:
  assumes "reporting_ok c st" and "stacked c"
  shows "okE (\<lambda>st'. reporting_ok c st' \<and> length (channel_reports st') = length (channel_reports st) \<and>
     (\<forall>i < length (channel_reports st). epoch_reported fs c i (channel_reports st ! i) (channel_reports st' ! i) \<and>
       UpdateEpochStats (Increment ''epoch_num'' (fst (channel_reports st ! i))) = Inr (fst (channel_reports st' ! i))) \<and>
     json_epoch st' = (if clk = of_c_int (epoch_period (tc_cfg c)) then ''['' else json_epoch st) @
       epoch_text fs (tc_cfg c) (channel_reports st'))
    (system_epoch fs api c clk st)"
proof -
  define st0 where "st0 = (if clk - of_c_int (epoch_period (tc_cfg c)) = 0 then st\<lparr>json_epoch := ''[''\<rparr> else st)"
  have same: "channel_reports st0 = channel_reports st"
      "json_epoch st0 = (if clk = of_c_int (epoch_period (tc_cfg c)) then ''['' else json_epoch st)" by (simp_all add: st0_def)
  have "reporting_ok c st0" using assms(1) by (simp add: reporting_ok_def st0_def)
  then obtain st1 where st1: "foldE (channel_epoch fs api c) (indices (int (length (channel_reports st0)))) st0 = Inr st1"
      "epochs_done fs c st0 (length (channel_reports st0)) st1"
    using channels_epoch_ok by (blast elim: okE_E)
  have ok1: "reporting_ok c st1" using st1(2) by (simp add: epochs_done_def)
  then have "okE (epoch_done c (tcalc st1)) (PrintTransPT c clk (tcalc st1))"
    using PrintTransPT_ok assms(2) by (simp add: reporting_ok_def)
  then obtain tc ms rws where tc: "PrintTransPT c clk (tcalc st1) = Inr (tc, ms, rws)" "epoch_done c (tcalc st1) (tc, ms, rws)"
    by (elim okE_E) auto
  have "reporting_ok c (st1\<lparr>tcalc := tc\<rparr>)"
    using ok1 tc(2) by (simp add: reporting_ok_def epoch_done_def energies_shape_def)
  moreover have "system_epoch fs api c clk st = Inr (st1\<lparr>tcalc := tc\<rparr>)"
    unfolding system_epoch_def Let_def unfolding st0_def [symmetric] using st1(1) tc(1) by simp
  ultimately show ?thesis using st1(2) by (simp add: epochs_done_def same)
qed

section \<open>The end of the run\<close>

definition stats_key :: "int \<Rightarrow> string" where
  "stats_key ch = CHR 0x22 # show_int ch @ [CHR 0x22, CHR '':'']"

definition final_object :: "formats \<Rightarrow> config \<Rightarrow> nat \<Rightarrow> (string, json) umap \<Rightarrow> string" where
  "final_object fs cfg i j = (if output_level cfg \<ge> 0 then stats_key (int i) @ fmt_json fs j else [])"

definition final_reported :: "formats \<Rightarrow> thermal_config \<Rightarrow> nat \<Rightarrow> simple_stats \<times> report \<Rightarrow> simple_stats \<times> report \<Rightarrow> bool" where
  "final_reported fs c i a b \<longleftrightarrow>
     (\<exists>j t. PrintFinalReport (fmt_double fs) (tc_pw c) (tc_cfg c) (int i) a = Inr (b, j, t))"

definition final_entry :: "formats \<Rightarrow> config \<Rightarrow> nat \<Rightarrow> simple_stats \<times> report \<Rightarrow> string" where
  "final_entry fs cfg i sr = final_object fs cfg i (j_data (snd sr))"

definition finals_done :: "formats \<Rightarrow> thermal_config \<Rightarrow> reporting \<Rightarrow> nat \<Rightarrow> reporting \<Rightarrow> bool" where
  "finals_done fs c st0 n st \<longleftrightarrow> reporting_ok c st \<and> length (channel_reports st) = length (channel_reports st0) \<and>
     (\<forall>i < n. final_reported fs c i (channel_reports st0 ! i) (channel_reports st ! i) \<and>
        UpdateFinalStats (fst (channel_reports st0 ! i)) = Inr (fst (channel_reports st ! i))) \<and>
     (\<forall>i \<ge> n. i < length (channel_reports st0) \<longrightarrow> channel_reports st ! i = channel_reports st0 ! i) \<and>
     json_epoch st = json_epoch st0 \<and>
     json_stats st = json_stats st0 @ concat (map (\<lambda>(i, sr). final_entry fs (tc_cfg c) i sr @
        (if Suc i \<noteq> length (channel_reports st0) then separator else [])) (enumerate 0 (take n (channel_reports st))))"

lemma PrintFinalReport_keeps:
  assumes "report_ok cfg (ss, r)"
  obtains ss' r' t where "PrintFinalReport fmt pw cfg ch (ss, r) =
      Inr ((ss', r'), if output_level cfg \<ge> 0 then Some (stats_key ch, j_data r') else None, t)"
    and "UpdateFinalStats ss = Inr ss'" and "report_ok cfg (ss', r')"
proof -
  obtain s1 s2 r2 where p: "UpdateCounters ss = Inr s1" "UpdateHistoBins s1 = Inr s2" "report_ok cfg (s2, r2)"
      "FinalReport fmt pw cfg ch (ss, r) = Inr (s2, r2)"
    by (rule report_parts [OF assms, of fmt ch False pw]) simp
  have "map_of (counters s2) ''epoch_num'' \<noteq> None" using p(3) by (simp add: report_ok_def)
  then obtain h where "GetTextHeader ch s2 True = Inr h" using header_ok by blast
  then show thesis using that p printed_ok [OF p(3), of "[]"]
    by (cases "1 \<le> output_level cfg") (auto simp: PrintFinalReport_def UpdateFinalStats_def stats_key_def)
qed

lemma channel_final_ok:
  assumes "finals_done fs c st0 n st" and "n < length (channel_reports st0)"
  shows "okE (finals_done fs c st0 (Suc n)) (channel_final fs api c (int n) st)"
proof -
  note inv = assms(1) [unfolded finals_done_def]
  have ok: "reporting_ok c st" and len: "n < length (channel_reports st)" using inv assms(2) by simp_all
  obtain ss r where sr: "channel_reports st ! n = (ss, r)" by (metis prod.exhaust)
  then have same: "channel_reports st0 ! n = (ss, r)" using inv assms(2) by auto
  have "(ss, r) \<in> set (channel_reports st)" using len sr by (metis nth_mem)
  then have "report_ok (tc_cfg c) (ss, r)" using ok by (auto simp: reporting_ok_def)
  then obtain ss' r' t where
    p: "PrintFinalReport (fmt_double fs) (tc_pw c) (tc_cfg c) (int n) (ss, r) =
        Inr ((ss', r'), if output_level (tc_cfg c) \<ge> 0 then Some (stats_key (int n), j_data r') else None, t)"
      "UpdateFinalStats ss = Inr ss'" "report_ok (tc_cfg c) (ss', r')"
    by (rule PrintFinalReport_keeps)
  have tc0: "thermal_ok c (tcalc st)" "energies_shape (tc_cfg c) (length (channel_reports st)) (tcalc st)"
    using ok by (simp_all add: reporting_ok_def)
  obtain tc where tc: "pass_background api (tc_cfg c) (int n) ss' (tcalc st) = Inr tc"
      "thermal_ok c tc" "energies_shape (tc_cfg c) (length (channel_reports st)) tc"
    using pass_background_ok [OF tc0, of "int n" api ss'] len by (auto simp: okE_iff)
  define out where "out = final_object fs (tc_cfg c) n (j_data r') @ (if Suc n \<noteq> length (channel_reports st0) then separator else [])"
  define st' where "st' = st\<lparr>channel_reports := (channel_reports st)[n := (ss', r')], tcalc := tc,
      json_stats := json_stats st @ out\<rparr>"
  have last: "(int n \<noteq> int (length (channel_reports st)) - 1) = (Suc n \<noteq> length (channel_reports st0))" using inv by auto
  have run: "channel_final fs api c (int n) st = Inr st'"
    using len p(1) tc(1) by (simp add: channel_final_def vget_def vset_def sr st'_def optional_def final_object_def out_def last)
  have "reporting_ok c st'" using reporting_update [OF ok p(3) tc(2,3), where a = "json_epoch st"] by (simp add: st'_def)
  moreover have "json_stats st' = json_stats st0 @ concat (map (\<lambda>(i, sr). final_entry fs (tc_cfg c) i sr @
        (if Suc i \<noteq> length (channel_reports st0) then separator else [])) (enumerate 0 (take (Suc n) (channel_reports st'))))"
    using inv len by (simp add: st'_def out_def final_entry_def take_Suc_conv_app_nth enumerate_append_eq)
  moreover have "final_reported fs c n (ss, r) (ss', r')" using p(1) by (auto simp: final_reported_def)
  ultimately have "finals_done fs c st0 (Suc n) st'"
    using inv len p(2) same by (auto simp: finals_done_def st'_def nth_list_update less_Suc_eq)
  with run show ?thesis by simp
qed

lemma channels_final_ok:
  assumes "reporting_ok c st0" and "n \<le> length (channel_reports st0)"
  shows "okE (finals_done fs c st0 n) (foldE (channel_final fs api c) (indices (int n)) st0)"
  using assms(2)
proof (induction n)
  case 0
  then show ?case using assms(1) by (simp add: finals_done_def indices_def)
next
  case (Suc n)
  then obtain st where "foldE (channel_final fs api c) (indices (int n)) st0 = Inr st" "finals_done fs c st0 n st"
    by (auto simp: okE_iff)
  then show ?case using channel_final_ok Suc.prems unfolding indices_Suc foldE_append by simp
qed

text \<open>The elements of a JSON array or object: separators between them, none after the last.\<close>

fun joined :: "string list \<Rightarrow> string" where
  "joined [] = []"
| "joined [t] = t"
| "joined (t # u # ts) = t @ separator @ joined (u # ts)"

lemma joined_terminated: "ts \<noteq> [] \<Longrightarrow> concat (map (\<lambda>t. t @ separator) ts) = joined ts @ separator"
  by (induction ts rule: joined.induct) auto

lemma close_bracket_joined:
  assumes "ts \<noteq> []"
  shows "close_bracket (''['' @ concat (map (\<lambda>t. t @ separator) ts)) = ''['' @ joined ts @ '']'' @ newline"
  using joined_terminated [OF assms] by (simp add: close_bracket_def separator_def newline_def butlast_append)

lemma joined_enumerate:
  assumes "length os = m - k" and "k \<le> m"
  shows "concat (map (\<lambda>(i, t). f i t @ (if Suc i \<noteq> m then separator else [])) (enumerate k os)) =
    joined (map (\<lambda>(i, t). f i t) (enumerate k os))"
  using assms
proof (induction os arbitrary: k)
  case (Cons t os)
  have "concat (map (\<lambda>(i, t). f i t @ (if Suc i \<noteq> m then separator else [])) (enumerate (Suc k) os)) =
      joined (map (\<lambda>(i, t). f i t) (enumerate (Suc k) os))"
    using Cons.prems by (intro Cons.IH) simp_all
  then show ?case using Cons.prems by (cases os) auto
qed simp

lemma system_final_ok:
  assumes "reporting_ok c st" and "stacked c" and "solver_keeps_length slu" and "clk \<noteq> 0"
    and "json_epoch st = (if ts = [] then [] else ''['' @ concat (map (\<lambda>t. t @ separator) ts))"
  shows "okE (\<lambda>st'. json_epoch st' = (if ts = [] then [] else ''['' @ joined ts @ '']'' @ newline) \<and>
     length (channel_reports st') = length (channel_reports st) \<and>
     (\<forall>i < length (channel_reports st). final_reported fs c i (channel_reports st ! i) (channel_reports st' ! i) \<and>
       UpdateFinalStats (fst (channel_reports st ! i)) = Inr (fst (channel_reports st' ! i))) \<and>
     json_stats st' = ''{'' @
       joined (map (\<lambda>(i, sr). final_entry fs (tc_cfg c) i sr) (enumerate 0 (channel_reports st'))) @ ''}'')
    (system_final slu fs api c clk st)"
proof -
  define st0 where "st0 = st\<lparr>json_epoch := close_bracket (json_epoch st), json_stats := ''{''\<rparr>"
  have same: "channel_reports st0 = channel_reports st" "json_stats st0 = ''{''"
      "json_epoch st0 = (if ts = [] then [] else ''['' @ joined ts @ '']'' @ newline)"
    using close_bracket_joined [of ts] by (simp_all add: st0_def assms(5)) (simp add: close_bracket_def)
  have "reporting_ok c st0" using assms(1) by (simp add: reporting_ok_def st0_def)
  then obtain st1 where st1: "foldE (channel_final fs api c) (indices (int (length (channel_reports st0)))) st0 = Inr st1"
      "finals_done fs c st0 (length (channel_reports st0)) st1"
    using channels_final_ok by (blast elim: okE_E)
  then have "thermal_ok c (tcalc st1)" by (simp add: finals_done_def reporting_ok_def)
  from PrintFinalPT_ok [OF this assms(2,3,4)] obtain tc rws where tc: "PrintFinalPT slu c clk (tcalc st1) = Inr (tc, rws)"
    by (elim okE_E) auto
  have run: "system_final slu fs api c clk st = Inr (st1\<lparr>tcalc := tc, json_stats := json_stats st1 @ ''}''\<rparr>)"
    unfolding system_final_def unfolding st0_def [symmetric] using st1(1) tc(1) by (simp add: same)
  have "length (channel_reports st1) = length (channel_reports st)"
      "json_stats st1 = ''{'' @ concat (map (\<lambda>(i, sr). final_entry fs (tc_cfg c) i sr @
        (if Suc i \<noteq> length (channel_reports st) then separator else [])) (enumerate 0 (channel_reports st1)))"
    using st1(2) by (auto simp: finals_done_def same)
  then have "json_stats st1 = ''{'' @ joined (map (\<lambda>(i, sr). final_entry fs (tc_cfg c) i sr) (enumerate 0 (channel_reports st1)))"
    using joined_enumerate [of "channel_reports st1" "length (channel_reports st)" 0 "final_entry fs (tc_cfg c)"] by simp
  with run st1(2) show ?thesis by (auto simp: finals_done_def same)
qed

section \<open>The files\<close>

text \<open>C13. The end of an epoch of the whole system, on a stacked memory: it cannot fail; it keeps
  the state of the statistics, the reports and the thermal calculator well formed; every
  channel's statistics and report become what the channel's own report of the epoch returns, with
  the counters that the end of the epoch alone returns; and the epoch file, emptied to an opening
  bracket when the epoch is the first, gets for every channel in their order the JSON object of
  that report, at output level 1 and above only, and a separator, at every output level.\<close>

theorem system_epoch_reports:
  assumes "reporting_ok c st" and "stacked c"
  shows "okE (\<lambda>st'. reporting_ok c st' \<and> length (channel_reports st') = length (channel_reports st) \<and>
     (\<forall>i < length (channel_reports st). epoch_reported fs c i (channel_reports st ! i) (channel_reports st' ! i) \<and>
       UpdateEpochStats (Increment ''epoch_num'' (fst (channel_reports st ! i))) = Inr (fst (channel_reports st' ! i))) \<and>
     json_epoch st' = (if clk = of_c_int (epoch_period (tc_cfg c)) then ''['' else json_epoch st) @
       epoch_text fs (tc_cfg c) (channel_reports st'))
    (system_epoch fs api c clk st)"
  by (rule system_epoch_ok [OF assms])

definition ex_hbm_out :: thermal_config where
  "ex_hbm_out = ex_hbm\<lparr>tc_cfg := (tc_cfg ex_hbm)\<lparr>output_level := 1\<rparr>\<rparr>"

definition ex_reporting :: reporting where
  "ex_reporting = \<lparr>channel_reports = replicate 8 (SimpleStats (tc_cfg ex_hbm_out), Report (tc_cfg ex_hbm_out)),
     tcalc = plan_state ex_hbm_out ex_hbm_plan, json_epoch = [], json_stats = []\<rparr>"

lemma ex_reporting_ok: "reporting_ok ex_hbm_out ex_reporting"
proof -
  have "dims_ok ex_hbm_out ex_hbm_plan"
    by (simp add: dims_ok_def grid_ok_def ex_hbm_plan_def numLayer_def)
  then show ?thesis
    using report_ok_init [of "tc_cfg ex_hbm_out"] plan_state_ok [of ex_hbm_out ex_hbm_plan]
    by (simp add: reporting_ok_def ex_reporting_def energies_shape_def plan_state_sel)
      (simp add: ex_hbm_out_def ex_hbm_def)
qed

lemma ex_reporting_stacked: "stacked ex_hbm_out"
  by (simp add: stacked_def ex_hbm_out_def ex_hbm_def IsHBM_def)

theorem system_epoch_reports_witness:
  "\<forall>fs api. \<exists>st'. system_epoch fs api ex_hbm_out (of_c_int (epoch_period (tc_cfg ex_hbm_out))) ex_reporting = Inr st' \<and>
     length (channel_reports st') = 8 \<and>
     json_epoch st' = ''['' @ concat (map (\<lambda>sr. fmt_json fs (j_data (snd sr)) @ separator) (channel_reports st'))"
proof (intro allI)
  fix fs api
  have "output_level (tc_cfg ex_hbm_out) = 1" "length (channel_reports ex_reporting) = 8"
    by (simp_all add: ex_hbm_out_def ex_reporting_def)
  then show "\<exists>st'. system_epoch fs api ex_hbm_out (of_c_int (epoch_period (tc_cfg ex_hbm_out))) ex_reporting = Inr st' \<and>
     length (channel_reports st') = 8 \<and>
     json_epoch st' = ''['' @ concat (map (\<lambda>sr. fmt_json fs (j_data (snd sr)) @ separator) (channel_reports st'))"
    using system_epoch_reports [OF ex_reporting_ok ex_reporting_stacked, where clk = "of_c_int (epoch_period (tc_cfg ex_hbm_out))" and fs = fs and api = api]
    by (auto simp: okE_iff epoch_object_def epoch_text_def)
qed

text \<open>C21. The end of the run on a stacked memory, after at least one cycle and with a linear
  solver that keeps the length of the vector: it cannot fail; the epoch file, when epochs wrote
  to it, becomes a bracketed list with the separators between the entries only, and is not made
  when there was no epoch; every channel's statistics and report become what the channel's own
  final report returns, with the counters that the end of the run alone returns; and the
  statistics file is one object whose entries are, for the channels in their order, the channel's
  number and the JSON object of that report (at output level 0 and above; below, the entries are
  empty and only the separators remain).\<close>

theorem system_final_files:
  assumes "reporting_ok c st" and "stacked c" and "solver_keeps_length slu" and "clk \<noteq> 0"
    and "json_epoch st = (if ts = [] then [] else ''['' @ concat (map (\<lambda>t. t @ separator) ts))"
  shows "okE (\<lambda>st'. json_epoch st' = (if ts = [] then [] else ''['' @ joined ts @ '']'' @ newline) \<and>
     length (channel_reports st') = length (channel_reports st) \<and>
     (\<forall>i < length (channel_reports st). final_reported fs c i (channel_reports st ! i) (channel_reports st' ! i) \<and>
       UpdateFinalStats (fst (channel_reports st ! i)) = Inr (fst (channel_reports st' ! i))) \<and>
     json_stats st' = ''{'' @
       joined (map (\<lambda>(i, sr). final_entry fs (tc_cfg c) i sr) (enumerate 0 (channel_reports st'))) @ ''}'')
    (system_final slu fs api c clk st)"
  by (rule system_final_ok [OF assms])

definition ex_solver :: superlu where
  "ex_solver = \<lparr>omp_get_max_threads = 1, get_perm_c = (\<lambda>_ _. []), pdgssv = (\<lambda>_ _ _ rhs. (rhs, 0))\<rparr>"

theorem system_final_files_witness:
  "\<forall>fs api. \<exists>st'. system_final ex_solver fs api ex_hbm_out 100000
       (ex_reporting\<lparr>json_epoch := ''[{},'' @ newline @ ''{},'' @ newline\<rparr>) = Inr st' \<and>
     json_epoch st' = ''[{},'' @ newline @ ''{}]'' @ newline \<and> length (channel_reports st') = 8 \<and>
     json_stats st' = ''{'' @
       joined (map (\<lambda>(i, sr). stats_key (int i) @ fmt_json fs (j_data (snd sr))) (enumerate 0 (channel_reports st'))) @ ''}''"
proof (intro allI)
  fix fs api
  let ?st = "ex_reporting\<lparr>json_epoch := ''[{},'' @ newline @ ''{},'' @ newline\<rparr>"
  have "reporting_ok ex_hbm_out ?st" using ex_reporting_ok by (simp add: reporting_ok_def)
  moreover have "solver_keeps_length ex_solver" by (simp add: solver_keeps_length_def ex_solver_def)
  moreover have "json_epoch ?st = ''['' @ concat (map (\<lambda>t. t @ separator) [''{}'', ''{}''])"
    by (simp add: separator_def)
  moreover have "output_level (tc_cfg ex_hbm_out) = 1" "length (channel_reports ?st) = 8"
    by (simp_all add: ex_hbm_out_def ex_reporting_def)
  ultimately show "\<exists>st'. system_final ex_solver fs api ex_hbm_out 100000
       (ex_reporting\<lparr>json_epoch := ''[{},'' @ newline @ ''{},'' @ newline\<rparr>) = Inr st' \<and>
     json_epoch st' = ''[{},'' @ newline @ ''{}]'' @ newline \<and> length (channel_reports st') = 8 \<and>
     json_stats st' = ''{'' @
       joined (map (\<lambda>(i, sr). stats_key (int i) @ fmt_json fs (j_data (snd sr))) (enumerate 0 (channel_reports st'))) @ ''}''"
    using system_final_files [of ex_hbm_out ?st ex_solver 100000 "[''{}'', ''{}'']" fs api] ex_reporting_stacked
    by (auto simp: okE_iff final_entry_def final_object_def separator_def)
qed

end
