(* ===== verification/HMC.thy ===== *)
theory HMC
  imports DRAMSystem
begin

text \<open>
  \<open>hmc.h\<close> and \<open>hmc.cc\<close>: the Hybrid Memory Cube. Requests go from the links through a crossbar to
  four quads and on to the vaults, which are the controllers; responses go back the same way.
  Requests and responses are owned by one queue at a time, so they are values here; the fields
  that their constructors leave uninitialised are 0 until they are set. The class inherits the
  fields and operations of \<open>BaseDRAMSystem\<close>.
\<close>

datatype hmc_req_type =
    RD0 | RD16 | RD32 | RD48 | RD64 | RD80 | RD96 | RD112 | RD128 | RD256
  | WR0 | WR16 | WR32 | WR48 | WR64 | WR80 | WR96 | WR112 | WR128 | WR256
  | P_WR16 | P_WR32 | P_WR48 | P_WR64 | P_WR80 | P_WR96 | P_WR112 | P_WR128 | P_WR256
  | ADD8 | ADD16 | P_2ADD8 | P_ADD16 | ADDS8R | ADDS16R | INC8 | P_INC8
  | XOR16 | OR16 | NOR16 | AND16 | NAND16
  | CASGT8 | CASGT16 | CASLT8 | CASLT16 | CASEQ8 | CASZERO16
  | EQ8 | EQ16 | BWR | P_BWR | BWR8R | SWAP16 | REQ_SIZE

datatype hmc_resp_type = NONE | RD_RS | WR_RS | ERR | RESP_SIZE

record hmc_request =
  rq_type :: hmc_req_type
  mem_operand :: u64
  rq_link :: int
  rq_quad :: int
  rq_vault :: int
  rq_flits :: int
  rq_is_write :: bool
  rq_exit_time :: u64

record hmc_response =
  resp_id :: u64
  rs_type :: hmc_resp_type
  rs_link :: int
  rs_quad :: int
  rs_flits :: int
  rs_exit_time :: u64

text \<open>\<open>type >= WR0 && type <= P_WR256\<close>.\<close>

definition is_write_type :: "hmc_req_type \<Rightarrow> bool" where
  "is_write_type ty \<longleftrightarrow> ty \<in> {WR0, WR16, WR32, WR48, WR64, WR80, WR96, WR112, WR128, WR256,
     P_WR16, P_WR32, P_WR48, P_WR64, P_WR80, P_WR96, P_WR112, P_WR128, P_WR256}"

definition req_flits :: "hmc_req_type \<Rightarrow> int result" where
  "req_flits ty =
     (if ty \<in> {RD0, WR0} then Inr 0
      else if ty \<in> {RD16, RD32, RD48, RD64, RD80, RD96, RD112, RD128, RD256} then Inr 1
      else if ty \<in> {WR16, P_WR16} then Inr 2
      else if ty \<in> {WR32, P_WR32} then Inr 3
      else if ty \<in> {WR48, P_WR48} then Inr 4
      else if ty \<in> {WR64, P_WR64} then Inr 5
      else if ty \<in> {WR80, P_WR80} then Inr 6
      else if ty \<in> {WR96, P_WR96} then Inr 7
      else if ty \<in> {WR112, P_WR112} then Inr 8
      else if ty \<in> {WR128, P_WR128} then Inr 9
      else if ty \<in> {WR256, P_WR256} then Inr 17
      else if ty \<in> {ADD8, ADD16, P_2ADD8, P_ADD16, ADDS8R, ADDS16R} then Inr 2
      else if ty \<in> {INC8, P_INC8} then Inr 1
      else if ty \<in> {XOR16, OR16, NOR16, AND16, NAND16, CASGT8, CASGT16, CASLT8, CASLT16, CASEQ8,
        CASZERO16, EQ8, EQ16, BWR, P_BWR, BWR8R, SWAP16} then Inr 2
      else Inl (AbruptExit ''hmc.cc'' 107))"

definition HMCRequest :: "hmc_req_type \<Rightarrow> u64 \<Rightarrow> int \<Rightarrow> hmc_request result" where
  "HMCRequest ty a vault = bindE (req_flits ty) (\<lambda>n.
     Inr \<lparr>rq_type = ty, mem_operand = a, rq_link = 0, rq_quad = vault smod 4, rq_vault = vault,
          rq_flits = n, rq_is_write = is_write_type ty, rq_exit_time = 0\<rparr>)"

definition resp_kind :: "hmc_req_type \<Rightarrow> (hmc_resp_type \<times> int) result" where
  "resp_kind ty =
     (if ty = RD0 then Inr (RD_RS, 0)
      else if ty = RD16 then Inr (RD_RS, 2)
      else if ty = RD32 then Inr (RD_RS, 3)
      else if ty = RD48 then Inr (RD_RS, 4)
      else if ty = RD64 then Inr (RD_RS, 5)
      else if ty = RD80 then Inr (RD_RS, 6)
      else if ty = RD96 then Inr (RD_RS, 7)
      else if ty = RD112 then Inr (RD_RS, 8)
      else if ty = RD128 then Inr (RD_RS, 9)
      else if ty = RD256 then Inr (RD_RS, 17)
      else if ty = WR0 then Inr (WR_RS, 0)
      else if ty \<in> {WR16, WR32, WR48, WR64, WR80, WR96, WR112, WR128, WR256} then Inr (WR_RS, 1)
      else if ty \<in> {P_WR16, P_WR32, P_WR48, P_WR64, P_WR80, P_WR96, P_WR112, P_WR128, P_WR256}
        then Inr (NONE, 0)
      else if ty \<in> {ADD8, ADD16} then Inr (WR_RS, 1)
      else if ty \<in> {P_2ADD8, P_ADD16} then Inr (NONE, 0)
      else if ty \<in> {ADDS8R, ADDS16R} then Inr (RD_RS, 2)
      else if ty = INC8 then Inr (WR_RS, 1)
      else if ty = P_INC8 then Inr (NONE, 0)
      else if ty \<in> {XOR16, OR16, NOR16, AND16, NAND16, CASGT8, CASGT16, CASLT8, CASLT16, CASEQ8, CASZERO16}
        then Inr (RD_RS, 2)
      else if ty \<in> {EQ8, EQ16, BWR} then Inr (WR_RS, 1)
      else if ty = P_BWR then Inr (NONE, 0)
      else if ty \<in> {BWR8R, SWAP16} then Inr (RD_RS, 2)
      else Inl (AbruptExit ''hmc.cc'' 237))"

definition HMCResponse :: "u64 \<Rightarrow> hmc_req_type \<Rightarrow> int \<Rightarrow> int \<Rightarrow> hmc_response result" where
  "HMCResponse i ty dest_link src_quad = bindE (resp_kind ty) (\<lambda>(k, n).
     Inr \<lparr>resp_id = i, rs_type = k, rs_link = dest_link, rs_quad = src_quad, rs_flits = n, rs_exit_time = 0\<rparr>)"

section \<open>The system\<close>

record hmc_system = dram_system +
  logic_clk :: u64
  ps_per_dram :: u64
  ps_per_logic :: u64
  logic_ps :: u64
  dram_ps :: u64
  next_link :: int
  hmc_links :: int
  queue_depth :: u64
  resp_lookup_table :: "(u64, hmc_response) multimap"
  link_req_queues :: "hmc_request list list"
  link_resp_queues :: "hmc_response list list"
  quad_req_queues :: "hmc_request list list"
  quad_resp_queues :: "hmc_response list list"
  link_busy :: "int list"
  quad_busy :: "int list"
  link_age_counter :: "int list"
  quad_age_counter :: "int list"

text \<open>The division of doubles is exact enough that its truncation is that of the integers. A speed
  that is not positive would be converted out of the range of \<open>uint64_t\<close>.\<close>

definition SetClockRatio :: "config \<Rightarrow> hmc_system \<Rightarrow> hmc_system result" where
  "SetClockRatio cfg s =
     (if link_width cfg = 0 then Inl DivByZero
      else let link_cycles_per_flit = 128 sdiv link_width cfg in
      if link_cycles_per_flit = 0 then Inl DivByZero
      else let logic_speed = link_speed cfg sdiv link_cycles_per_flit in
      if logic_speed \<le> 0 then Inl OutOfRange
      else let ps = of_c_int (1000000 sdiv logic_speed) in
        Inr (s\<lparr>ps_per_dram := 800, ps_per_logic := (if ps > 800 then 800 else ps)\<rparr>))"

definition HMCMemorySystem :: "config \<Rightarrow> int \<Rightarrow> (hmc_system \<times> int) result" where
  "HMCMemorySystem cfg total_channels = (let (b, n) = BaseDRAMSystem cfg total_channels;
        links = num_links cfg;
        s = dram_system.extend b \<lparr>logic_clk = 0, ps_per_dram = 0, ps_per_logic = 0, logic_ps = 0, dram_ps = 0,
              next_link = 0, hmc_links = links, queue_depth = of_c_int (xbar_queue_depth cfg),
              resp_lookup_table = [],
              link_req_queues = replicate (nat links) [], link_resp_queues = replicate (nat links) [],
              quad_req_queues = replicate 4 [], quad_resp_queues = replicate 4 [],
              link_busy = replicate (nat links) 0, quad_busy = [0, 0, 0, 0],
              link_age_counter = replicate (nat links) 0, quad_age_counter = [0, 0, 0, 0]\<rparr> in
     if \<not> IsHMC cfg then Inl (AbruptExit ''hmc.cc'' 255)
     else bindE (SetClockRatio cfg s) (\<lambda>s1.
       if channels cfg < 0 then Inl (UncaughtException ''length_error'')
       else bindE (foldE (\<lambda>i cts. bindE (Controller i cfg) (\<lambda>ct. Inr (cts @ [ct])))
            (indices (channels cfg)) []) (\<lambda>cts.
          if links < 0 then Inl (UncaughtException ''length_error'') else Inr (s1\<lparr>ctrls := cts\<rparr>, n))))"

definition IterateNextLink :: "hmc_system \<Rightarrow> hmc_system result" where
  "IterateNextLink s = (if hmc_links s = 0 then Inl DivByZero
     else Inr (s\<lparr>next_link := (next_link s + 1) smod hmc_links s\<rparr>))"

definition HMC_WillAcceptTransaction :: "u64 \<Rightarrow> bool \<Rightarrow> hmc_system \<Rightarrow> bool result" where
  "HMC_WillAcceptTransaction a w s = Inr (\<exists>q \<in> set (link_req_queues s). size_u q < queue_depth s)"

definition InsertReqToLink :: "hmc_request \<Rightarrow> int \<Rightarrow> hmc_system \<Rightarrow> (bool \<times> hmc_system) result" where
  "InsertReqToLink req link s =
     bindE (vget (link_req_queues s) link) (\<lambda>q.
     if size_u q < queue_depth s then
       bindE (vset (link_req_queues s) link (q @ [req\<lparr>rq_link := link\<rparr>])) (\<lambda>qs.
       bindE (HMCResponse (mem_operand req) (rq_type req) link (rq_quad req)) (\<lambda>resp.
       bindE (vset (link_age_counter s) link 1) (\<lambda>ages.
       Inr (True, s\<lparr>link_req_queues := qs,
          resp_lookup_table := mm_insert (resp_id resp) resp (resp_lookup_table s),
          link_age_counter := ages, last_req_clk := ds_clk s\<rparr>))))
     else Inr (False, s))"

text \<open>The links after the first, until one takes the request or the first comes round again.\<close>

fun insert_loop :: "nat \<Rightarrow> int \<Rightarrow> hmc_request \<Rightarrow> hmc_system \<Rightarrow> (bool \<times> hmc_system) result" where
  "insert_loop 0 start_link req s = Inl Endless"
| "insert_loop (Suc n) start_link req s =
     (if start_link = next_link s then Inr (False, s)
      else bindE (InsertReqToLink req (next_link s) s) (\<lambda>(ok, s1).
        bindE (IterateNextLink s1) (\<lambda>s2.
          if ok then Inr (True, s2) else insert_loop n start_link req s2)))"

definition InsertHMCReq :: "hmc_request \<Rightarrow> hmc_system \<Rightarrow> (bool \<times> hmc_system) result" where
  "InsertHMCReq req s =
     bindE (InsertReqToLink req (next_link s) s) (\<lambda>(ok, s1).
       bindE (IterateNextLink s1) (\<lambda>s2.
         if ok then Inr (True, s2) else insert_loop (nat (hmc_links s)) (next_link s) req s2))"

definition block_req_type :: "config \<Rightarrow> bool \<Rightarrow> hmc_req_type result" where
  "block_req_type cfg w =
     (if w then
        (if block_size cfg = 0 then Inr WR0 else if block_size cfg = 32 then Inr WR32
         else if block_size cfg = 64 then Inr WR64 else if block_size cfg = 128 then Inr WR128
         else if block_size cfg = 256 then Inr WR256 else Inl (AbruptExit ''hmc.cc'' 366))
      else
        (if block_size cfg = 0 then Inr RD0 else if block_size cfg = 32 then Inr RD32
         else if block_size cfg = 64 then Inr RD64 else if block_size cfg = 128 then Inr RD128
         else if block_size cfg = 256 then Inr RD256 else Inl (AbruptExit ''hmc.cc'' 388)))"

definition HMC_AddTransaction :: "config \<Rightarrow> u64 \<Rightarrow> bool \<Rightarrow> hmc_system \<Rightarrow> (bool \<times> hmc_system) result" where
  "HMC_AddTransaction cfg a w s =
     bindE (block_req_type cfg w) (\<lambda>ty. bindE (HMCRequest ty a (GetChannel cfg a)) (\<lambda>req. InsertHMCReq req s))"

section \<open>The crossbar\<close>

text \<open>The position is put in front of the first entry \<open>it\<close> with \<open>age_counter[pos] > *it\<close>: the age is
  compared with a position.\<close>

fun age_insert :: "int \<Rightarrow> int \<Rightarrow> int list \<Rightarrow> int list" where
  "age_insert age pos [] = [pos]"
| "age_insert age pos (it # q) = (if age > it then pos # it # q else it # age_insert age pos q)"

definition BuildAgeQueue :: "u64 \<Rightarrow> int list \<Rightarrow> int list result" where
  "BuildAgeQueue clk age_counter =
     (let queue_len = int (length age_counter) in
      if queue_len = 0 then Inl DivByZero
      else let start_pos = to_c_int (clk mod of_c_int queue_len) in
        foldE (\<lambda>i age_queue. let pos = (i + start_pos) smod queue_len in
            bindE (vget age_counter pos) (\<lambda>age.
              Inr (if age > 0 then age_insert age pos age_queue else age_queue)))
          (indices queue_len) [])"

definition InsertReqToDRAM :: "hmc_request \<Rightarrow> hmc_system \<Rightarrow> hmc_system result" where
  "InsertReqToDRAM req s =
     bindE (vget (ctrls s) (rq_vault req)) (\<lambda>ct.
     bindE (vset (ctrls s) (rq_vault req) (snd (AddTransaction (Transaction (mem_operand req) (rq_is_write req)) ct)))
       (\<lambda>cts. Inr (s\<lparr>ctrls := cts\<rparr>)))"

definition drain_quad :: "int \<Rightarrow> hmc_system \<Rightarrow> hmc_system result" where
  "drain_quad i s =
     bindE (vget (quad_req_queues s) i) (\<lambda>q.
     bindE (vget (quad_resp_queues s) i) (\<lambda>r.
     case q of [] \<Rightarrow> Inr s
     | req # rest \<Rightarrow>
        if size_u r < queue_depth s \<and> rq_exit_time req \<le> logic_clk s then
          bindE (vget (ctrls s) (rq_vault req)) (\<lambda>ct.
          if WillAcceptTransaction (mem_operand req) (rq_is_write req) ct then
            bindE (InsertReqToDRAM req s) (\<lambda>s'.
            bindE (vset (quad_req_queues s') i rest) (\<lambda>qs. Inr (s'\<lparr>quad_req_queues := qs\<rparr>)))
          else Inr s)
        else Inr s))"

definition drain_busy :: "int list \<Rightarrow> int list" where
  "drain_busy = map (\<lambda>i. if i > 0 then i - 2 else i)"

definition move_request :: "int \<Rightarrow> hmc_system \<Rightarrow> hmc_system result" where
  "move_request src_link s =
     bindE (vget (link_req_queues s) src_link) (\<lambda>q.
     bindE (vget q 0) (\<lambda>req. let dest_quad = rq_quad req in
     bindE (vget (quad_req_queues s) dest_quad) (\<lambda>d.
     bindE (vget (quad_busy s) dest_quad) (\<lambda>busy.
     bindE (vget (link_age_counter s) src_link) (\<lambda>age.
     if size_u d < queue_depth s \<and> busy \<le> 0 then
       bindE (vset (link_req_queues s) src_link (tl q)) (\<lambda>lq.
       bindE (vset (quad_req_queues s) dest_quad
                (d @ [req\<lparr>rq_exit_time := logic_clk s + of_c_int (rq_flits req)\<rparr>])) (\<lambda>qq.
       bindE (vset (quad_busy s) dest_quad (rq_flits req)) (\<lambda>qb.
       bindE (vset (link_age_counter s) src_link (if tl q = [] then 0 else 1)) (\<lambda>la.
       Inr (s\<lparr>link_req_queues := lq, quad_req_queues := qq, quad_busy := qb, link_age_counter := la\<rparr>)))))
     else
       bindE (vset (link_age_counter s) src_link (age + 1)) (\<lambda>la. Inr (s\<lparr>link_age_counter := la\<rparr>)))))))"

definition DrainRequests :: "hmc_system \<Rightarrow> hmc_system result" where
  "DrainRequests s0 =
     bindE (foldE drain_quad (indices 4) s0) (\<lambda>s1. let s = s1\<lparr>quad_busy := drain_busy (quad_busy s1)\<rparr> in
     bindE (BuildAgeQueue (logic_clk s) (link_age_counter s)) (\<lambda>age_queue. foldE move_request age_queue s))"

definition answer_link :: "int \<Rightarrow> hmc_system \<Rightarrow> hmc_system result" where
  "answer_link i s =
     bindE (vget (link_resp_queues s) i) (\<lambda>q.
     case q of [] \<Rightarrow> Inr s
     | resp # rest \<Rightarrow>
        if rs_exit_time resp \<le> logic_clk s then
          bindE (vset (link_resp_queues s) i rest) (\<lambda>qs. Inr (s\<lparr>link_resp_queues := qs,
            calls := calls s @ [(resp_id resp, if rs_type resp = RD_RS then 0 else 1)]\<rparr>))
        else Inr s)"

definition move_response :: "int \<Rightarrow> hmc_system \<Rightarrow> hmc_system result" where
  "move_response src_quad s =
     bindE (vget (quad_resp_queues s) src_quad) (\<lambda>q.
     bindE (vget q 0) (\<lambda>resp. let dest_link = rs_link resp in
     bindE (vget (link_resp_queues s) dest_link) (\<lambda>d.
     bindE (vget (link_busy s) dest_link) (\<lambda>busy.
     bindE (vget (quad_age_counter s) src_quad) (\<lambda>age.
     if size_u d < queue_depth s \<and> busy \<le> 0 then
       bindE (vset (quad_resp_queues s) src_quad (tl q)) (\<lambda>qq.
       bindE (vset (link_resp_queues s) dest_link
                (d @ [resp\<lparr>rs_exit_time := logic_clk s + of_c_int (rs_flits resp)\<rparr>])) (\<lambda>lq.
       bindE (vset (link_busy s) dest_link (rs_flits resp)) (\<lambda>lb.
       bindE (vset (quad_age_counter s) src_quad (if tl q = [] then 0 else 1)) (\<lambda>qa.
       Inr (s\<lparr>quad_resp_queues := qq, link_resp_queues := lq, link_busy := lb, quad_age_counter := qa\<rparr>)))))
     else
       bindE (vset (quad_age_counter s) src_quad (age + 1)) (\<lambda>qa. Inr (s\<lparr>quad_age_counter := qa\<rparr>)))))))"

definition DrainResponses :: "hmc_system \<Rightarrow> hmc_system result" where
  "DrainResponses s0 =
     bindE (foldE answer_link (indices (hmc_links s0)) s0) (\<lambda>s1. let s = s1\<lparr>link_busy := drain_busy (link_busy s1)\<rparr> in
     bindE (BuildAgeQueue (logic_clk s) (quad_age_counter s)) (\<lambda>age_queue. foldE move_response age_queue s))"

section \<open>A cycle\<close>

text \<open>\<open>it\<close> is dereferenced without a check.\<close>

definition VaultCallback :: "bool \<Rightarrow> u64 \<Rightarrow> hmc_system \<Rightarrow> hmc_system result" where
  "VaultCallback w req_id s = (case mm_find (resp_lookup_table s) req_id of
     None \<Rightarrow> Inl OutOfRange
   | Some resp \<Rightarrow>
       bindE (vget (quad_resp_queues s) (rs_quad resp)) (\<lambda>q.
       bindE (vset (quad_resp_queues s) (rs_quad resp) (q @ [resp])) (\<lambda>qs.
       bindE (vset (quad_age_counter s) (rs_quad resp) 1) (\<lambda>ages.
       Inr (s\<lparr>resp_lookup_table := mm_erase req_id (resp_lookup_table s),
              quad_resp_queues := qs, quad_age_counter := ages\<rparr>)))))"

definition DRAMClockTick :: "config \<Rightarrow> timing \<Rightarrow> hmc_system \<Rightarrow> hmc_system result" where
  "DRAMClockTick cfg tim s =
     bindE (each_ctrl (drain_done VaultCallback (ds_clk s)) (ctrls s) s) (\<lambda>(cts, s1).
     bindE (each_ctrl (\<lambda>ct u. bindE (ct_ClockTick cfg tim ct) (\<lambda>ct'. Inr (ct', u))) cts ()) (\<lambda>(cts', _).
     next_clk cfg (s1\<lparr>ctrls := cts'\<rparr>)))"

definition next_logic :: "hmc_system \<Rightarrow> hmc_system" where
  "next_logic s = s\<lparr>logic_ps := logic_ps s + ps_per_logic s, logic_clk := logic_clk s + 1\<rparr>"

text \<open>The loop over the logic cycles of a DRAM cycle. The fuel is the distance of the two clocks,
  which every round shortens, unless a logic cycle takes no time: then the program hangs.\<close>

fun logic_loop :: "nat \<Rightarrow> hmc_system \<Rightarrow> hmc_system result" where
  "logic_loop n s =
     (if logic_ps s < dram_ps s + ps_per_dram s then
        (case n of 0 \<Rightarrow> Inl Endless
         | Suc m \<Rightarrow> bindE (DrainResponses s) (\<lambda>s1. bindE (DrainRequests s1) (\<lambda>s2. logic_loop m (next_logic s2))))
      else Inr s)"

declare logic_loop.simps [simp del]

definition HMC_ClockTick :: "config \<Rightarrow> timing \<Rightarrow> hmc_system \<Rightarrow> hmc_system result" where
  "HMC_ClockTick cfg tim s =
     bindE (if dram_ps s = logic_ps s then
              bindE (DrainResponses s) (\<lambda>s1. bindE (DRAMClockTick cfg tim s1) (\<lambda>s2.
              bindE (DrainRequests s2) (\<lambda>s3. Inr (next_logic s3))))
            else DRAMClockTick cfg tim s) (\<lambda>s1.
     bindE (logic_loop (unat (dram_ps s1 + ps_per_dram s1 - logic_ps s1)) s1) (\<lambda>s2.
     Inr (s2\<lparr>dram_ps := dram_ps s2 + ps_per_dram s2\<rparr>)))"

end
