(* ===== verification/HMC_Queues.thy ===== *)
theory HMC_Queues
  imports HMC
begin

text \<open>
  The queues of the crossbar as lists: what moving an element from one queue to another does to
  the elements, to the ages of the queues and to the number of elements of each address; and the
  order in which the queues are served.
\<close>

section \<open>Queues and their ages\<close>

text \<open>The age of a queue is positive exactly when something waits in it.\<close>

definition ages_ok :: "int list \<Rightarrow> 'a list list \<Rightarrow> bool" where
  "ages_ok ages qs \<longleftrightarrow> length ages = length qs \<and> (\<forall>i < length qs. 0 < ages ! i \<longleftrightarrow> qs ! i \<noteq> [])"

lemma ages_ok_update:
  "ages_ok ages qs \<Longrightarrow> 0 < a \<longleftrightarrow> q \<noteq> [] \<Longrightarrow> ages_ok (ages[i := a]) (qs[i := q])"
  by (cases "i < length qs") (auto simp: ages_ok_def nth_list_update split: if_splits)

lemma ages_ok_older:
  assumes "ages_ok ages qs" and "i < length qs" and "qs ! i \<noteq> []"
  shows "ages_ok (ages[i := ages ! i + 1]) qs"
  using ages_ok_update [OF assms(1), of "ages ! i + 1" "qs ! i" i] assms by (auto simp: ages_ok_def)

lemma ages_ok_length: "ages_ok ages qs \<Longrightarrow> length ages = length qs"
  by (simp add: ages_ok_def)

text \<open>The elements of all queues, by a token of each.\<close>

definition tok :: "('a \<Rightarrow> 't) \<Rightarrow> 'a list list \<Rightarrow> 't multiset" where
  "tok f qs = image_mset f (mset (concat qs))"

lemma tok_update:
  "i < length qs \<Longrightarrow> tok f (qs[i := q]) + image_mset f (mset (qs ! i)) = tok f qs + image_mset f (mset q)"
proof (induction qs arbitrary: i)
  case (Cons x qs)
  then show ?case by (cases i) (auto simp: tok_def ac_simps)
qed simp

lemma tok_push: "i < length qs \<Longrightarrow> tok f (qs[i := qs ! i @ [x]]) = tok f qs + {#f x#}"
  using tok_update [of i qs f "qs ! i @ [x]"] by simp

lemma tok_pop: "i < length qs \<Longrightarrow> qs ! i = x # q \<Longrightarrow> tok f (qs[i := q]) + {#f x#} = tok f qs"
  using tok_update [of i qs f q] by simp

lemma all_update:
  "\<forall>x \<in> set (concat qs). P x \<Longrightarrow> \<forall>x \<in> set q. P x \<Longrightarrow> \<forall>x \<in> set (concat (qs[i := q])). P x"
  using set_update_subset_insert [of qs i q] by fastforce

lemma all_nth: "\<forall>x \<in> set (concat qs). P x \<Longrightarrow> i < length qs \<Longrightarrow> \<forall>x \<in> set (qs ! i). P x"
  by (auto intro: nth_mem)

lemma vget_in: "0 \<le> i \<Longrightarrow> i < int (length xs) \<Longrightarrow> vget xs i = Inr (xs ! nat i)"
  by (simp add: vget_def)

lemma vset_in: "0 \<le> i \<Longrightarrow> i < int (length xs) \<Longrightarrow> vset xs i x = Inr (xs[nat i := x])"
  by (simp add: vset_def)

section \<open>The order of service\<close>

lemma set_age_insert: "set (age_insert a pos q) = insert pos (set q)"
  by (induction q) auto

lemma distinct_age_insert: "distinct q \<Longrightarrow> pos \<notin> set q \<Longrightarrow> distinct (age_insert a pos q)"
  by (induction q) (auto simp: set_age_insert)

lemma smod_shift_inj:
  assumes "0 \<le> i" "i < n" "0 \<le> j" "j < n" "0 \<le> s" "(i + s) smod n = (j + s) smod (n :: int)"
  shows "i = j"
proof -
  have "(i + s) mod n = (j + s) mod n" using assms by (simp add: smod_nonneg)
  then have "i mod n = j mod n" by (metis add_diff_cancel_right' mod_diff_left_eq)
  with assms show ?thesis by simp
qed

lemma smod_shift_surj:
  assumes "0 \<le> p" "p < n" "0 \<le> s"
  shows "\<exists>i \<in> {0..<n}. (i + s) smod n = (p :: int)"
proof (rule bexI [of _ "(p - s) mod n"])
  have "((p - s) mod n + s) mod n = p" using assms by (simp add: mod_simps)
  moreover have "0 \<le> (p - s) mod n" using assms by simp
  ultimately show "((p - s) mod n + s) smod n = p" using assms by (simp add: smod_nonneg)
  show "(p - s) mod n \<in> {0..<n}" using assms by simp
qed

text \<open>The queue of ages holds every position whose age is positive, once.\<close>

lemma BuildAgeQueue_ok:
  assumes n: "0 < int (length ages)" "int (length ages) < 2 ^ 31"
  shows "okE (\<lambda>q. distinct q \<and> set q = {p. 0 \<le> p \<and> p < int (length ages) \<and> 0 < ages ! nat p}) (BuildAgeQueue clk ages)"
proof -
  let ?n = "int (length ages)"
  let ?s = "to_c_int (clk mod of_c_int ?n)"
  have u: "uint (of_c_int ?n) = ?n" using n by (intro uint_of_c_int) simp_all
  then have "uint (clk mod of_c_int ?n) = uint clk mod ?n" by (simp add: uint_mod)
  moreover have "uint clk mod ?n < ?n" "0 \<le> uint clk mod ?n" using n by simp_all
  ultimately have s: "0 \<le> ?s"
    using n signed_take_bit_int_eq_self [of 31 "uint clk mod ?n"] by (simp only: to_c_int_def)
  let ?pos = "\<lambda>i. (i + ?s) smod ?n"
  have range: "0 \<le> ?pos i \<and> ?pos i < ?n" if "0 \<le> i" "i < ?n" for i using that n s by (simp add: smod_nonneg)
  let ?f = "\<lambda>i age_queue. let pos = ?pos i in bindE (vget ages pos) (\<lambda>age.
      Inr (if age > 0 then age_insert age pos age_queue else age_queue))"
  have step: "okE (\<lambda>q. distinct q \<and> set q = {p \<in> ?pos ` set is. 0 < ages ! nat p}) (foldE ?f is [])"
    if "distinct is" "\<forall>i \<in> set is. 0 \<le> i \<and> i < ?n" for "is"
    using that
  proof (induction "is" rule: rev_induct)
    case (snoc i "is")
    then obtain q where q: "foldE ?f is [] = Inr q" "distinct q" "set q = {p \<in> ?pos ` set is. 0 < ages ! nat p}"
      by (auto simp: okE_iff)
    have i: "0 \<le> i" "i < ?n" using snoc.prems by simp_all
    have "?pos i \<notin> ?pos ` set is"
    proof
      assume "?pos i \<in> ?pos ` set is"
      then obtain j where "j \<in> set is" "?pos i = ?pos j" by auto
      with snoc.prems smod_shift_inj [OF i, of j ?s] s show False by auto
    qed
    with q have "?pos i \<notin> set q" by blast
    with q range [OF i] show ?case
      by (auto simp: foldE_append vget_in Let_def distinct_age_insert set_age_insert)
  qed simp
  have "{p \<in> ?pos ` set (indices ?n). 0 < ages ! nat p} = {p. 0 \<le> p \<and> p < ?n \<and> 0 < ages ! nat p}"
    using range smod_shift_surj [OF _ _ s] by (auto simp: image_iff) metis
  with step [of "indices ?n"] n(1) show ?thesis
    by (auto simp: BuildAgeQueue_def Let_def elim!: okE_mono)
qed

end
