(* ===== verification/HMC_Inv.thy ===== *)
theory HMC_Inv
  imports HMC_Queues
begin

text \<open>
  The invariant of the memory cube: every transaction is in exactly one place on its way to a vault
  and back, the table of responses has an entry for each request on its way to a vault or in it, and
  no operation stops the program.
\<close>

section \<open>The invariant\<close>

definition req_ok :: "config \<Rightarrow> hmc_request \<Rightarrow> bool" where
  "req_ok cfg r \<longleftrightarrow> 0 \<le> rq_quad r \<and> rq_quad r < 4 \<and> 0 \<le> rq_vault r \<and> rq_vault r < channels cfg"

definition resp_ok :: "int \<Rightarrow> hmc_response \<Rightarrow> bool" where
  "resp_ok n r \<longleftrightarrow> 0 \<le> rs_link r \<and> rs_link r < n \<and> 0 \<le> rs_quad r \<and> rs_quad r < 4"

definition req_side :: "config \<Rightarrow> hmc_system \<Rightarrow> bool" where
  "req_side cfg s \<longleftrightarrow> length (link_req_queues s) = nat (hmc_links s) \<and>
     ages_ok (link_age_counter s) (link_req_queues s) \<and> (\<forall>r \<in> set (concat (link_req_queues s)). req_ok cfg r) \<and>
     length (quad_req_queues s) = 4 \<and> length (quad_busy s) = 4 \<and>
     (\<forall>r \<in> set (concat (quad_req_queues s)). req_ok cfg r)"

definition resp_side :: "hmc_system \<Rightarrow> bool" where
  "resp_side s \<longleftrightarrow> length (link_resp_queues s) = nat (hmc_links s) \<and> length (link_busy s) = nat (hmc_links s) \<and>
     (\<forall>r \<in> set (concat (link_resp_queues s)). resp_ok (hmc_links s) r) \<and>
     length (quad_resp_queues s) = 4 \<and> ages_ok (quad_age_counter s) (quad_resp_queues s) \<and>
     (\<forall>r \<in> set (concat (quad_resp_queues s)). resp_ok (hmc_links s) r) \<and>
     (\<forall>(k, r) \<in> set (resp_lookup_table s). resp_id r = k \<and> resp_ok (hmc_links s) r)"

definition links_ok :: "hmc_system \<Rightarrow> bool" where
  "links_ok s \<longleftrightarrow> 0 < hmc_links s \<and> hmc_links s < 2 ^ 31 \<and> 0 \<le> next_link s \<and> next_link s < hmc_links s"

text \<open>The addresses of the requests on their way, of the responses on their way back, and of the
  entries of the table.\<close>

definition reqs_on_way :: "hmc_system \<Rightarrow> u64 multiset" where
  "reqs_on_way s = tok mem_operand (link_req_queues s) + tok mem_operand (quad_req_queues s)"

definition resps_on_way :: "hmc_system \<Rightarrow> u64 multiset" where
  "resps_on_way s = tok resp_id (quad_resp_queues s) + tok resp_id (link_resp_queues s)"

definition table_keys :: "hmc_system \<Rightarrow> u64 multiset" where
  "table_keys s = image_mset fst (mset (resp_lookup_table s))"

definition hmc_held :: "hmc_system \<Rightarrow> u64 multiset" where
  "hmc_held s = table_keys s + resps_on_way s"

definition hmc_answered :: "hmc_system \<Rightarrow> u64 list" where
  "hmc_answered s = map fst (calls s)"

text \<open>All that the crossbar guarantees when the vaults hold transactions with the addresses \<open>M\<close>, and
  \<open>A\<close> is held or answered.\<close>

definition xbar_inv :: "config \<Rightarrow> u64 multiset \<Rightarrow> u64 multiset \<Rightarrow> hmc_system \<Rightarrow> bool" where
  "xbar_inv cfg M A s \<longleftrightarrow> links_ok s \<and> req_side cfg s \<and> resp_side s \<and> table_keys s = reqs_on_way s + M \<and>
     hmc_held s + mset (hmc_answered s) = A"

section \<open>The crossbar\<close>

lemma xbar_cong:
  assumes "xbar_inv cfg M A s" and "hmc_links s' = hmc_links s" "0 \<le> next_link s'" "next_link s' < hmc_links s"
    "link_req_queues s' = link_req_queues s" "link_age_counter s' = link_age_counter s"
    "quad_req_queues s' = quad_req_queues s" "length (quad_busy s') = length (quad_busy s)"
    "link_resp_queues s' = link_resp_queues s" "length (link_busy s') = length (link_busy s)"
    "quad_resp_queues s' = quad_resp_queues s" "quad_age_counter s' = quad_age_counter s"
    "resp_lookup_table s' = resp_lookup_table s" "calls s' = calls s"
  shows "xbar_inv cfg M A s'"
  using assms(1,3,4)
  unfolding xbar_inv_def links_ok_def req_side_def resp_side_def table_keys_def reqs_on_way_def
    resps_on_way_def hmc_held_def hmc_answered_def assms(2,5-)
  by blast

text \<open>Moving one element from a queue to another queue.\<close>

lemma xbar_req_side:
  assumes "xbar_inv cfg M A s"
  shows "length (link_req_queues s) = nat (hmc_links s)" "ages_ok (link_age_counter s) (link_req_queues s)"
    "length (link_age_counter s) = nat (hmc_links s)"
    "\<forall>r \<in> set (concat (link_req_queues s)). req_ok cfg r" "length (quad_req_queues s) = 4" "length (quad_busy s) = 4"
    "\<forall>r \<in> set (concat (quad_req_queues s)). req_ok cfg r"
  using assms ages_ok_length [of "link_age_counter s" "link_req_queues s"]
  by (simp_all add: xbar_inv_def req_side_def)

lemma xbar_resp_side:
  assumes "xbar_inv cfg M A s"
  shows "length (link_resp_queues s) = nat (hmc_links s)" "length (link_busy s) = nat (hmc_links s)"
    "\<forall>r \<in> set (concat (link_resp_queues s)). resp_ok (hmc_links s) r" "length (quad_resp_queues s) = 4"
    "ages_ok (quad_age_counter s) (quad_resp_queues s)" "length (quad_age_counter s) = 4"
    "\<forall>r \<in> set (concat (quad_resp_queues s)). resp_ok (hmc_links s) r"
    "\<forall>(k, r) \<in> set (resp_lookup_table s). resp_id r = k \<and> resp_ok (hmc_links s) r"
  using assms ages_ok_length [of "quad_age_counter s" "quad_resp_queues s"]
  by (simp_all add: xbar_inv_def resp_side_def)

text \<open>What an operation of the crossbar leaves alone.\<close>

definition same_rest :: "hmc_system \<Rightarrow> hmc_system \<Rightarrow> bool" where
  "same_rest s s' \<longleftrightarrow> ds_clk s' = ds_clk s \<and> logic_clk s' = logic_clk s \<and> ps_per_dram s' = ps_per_dram s \<and>
     ps_per_logic s' = ps_per_logic s \<and> logic_ps s' = logic_ps s \<and> dram_ps s' = dram_ps s \<and>
     hmc_links s' = hmc_links s \<and> queue_depth s' = queue_depth s"

lemma same_rest_refl [simp]: "same_rest s s"
  by (simp add: same_rest_def)

lemma same_rest_trans: "same_rest a b \<Longrightarrow> same_rest b c \<Longrightarrow> same_rest a c"
  by (simp add: same_rest_def)

text \<open>A request moves from a link to its quad.\<close>

lemma move_request_ok:
  assumes x: "xbar_inv cfg M A s" and p: "0 \<le> p" "p < hmc_links s" and q: "link_req_queues s ! nat p \<noteq> []"
  shows "okE (\<lambda>s'. xbar_inv cfg M A s' \<and> same_rest s s' \<and> ctrls s' = ctrls s \<and> calls s' = calls s \<and>
      (\<forall>j. 0 \<le> j \<longrightarrow> j \<noteq> p \<longrightarrow> link_req_queues s' ! nat j = link_req_queues s ! nat j)) (move_request p s)"
proof -
  note r = xbar_req_side [OF x]
  obtain req rest where h: "link_req_queues s ! nat p = req # rest" using q by (cases "link_req_queues s ! nat p") auto
  have np: "nat p < length (link_req_queues s)" using p r(1) by simp
  have "req_ok cfg req" using all_nth [OF r(4) np] by (simp add: h)
  then have d: "0 \<le> rq_quad req" "rq_quad req < 4" by (simp_all add: req_ok_def)
  let ?d = "rq_quad req"
  have nd: "nat ?d < length (quad_req_queues s)" using d r(5) by simp
  have g: "vget (link_req_queues s) p = Inr (req # rest)" "vget (req # rest) 0 = Inr req"
    "vget (quad_req_queues s) ?d = Inr (quad_req_queues s ! nat ?d)" "vget (quad_busy s) ?d = Inr (quad_busy s ! nat ?d)"
    "vget (link_age_counter s) p = Inr (link_age_counter s ! nat p)"
    using p d r h by (simp_all add: vget_in)
  show ?thesis
  proof (cases "size_u (quad_req_queues s ! nat ?d) < queue_depth s \<and> quad_busy s ! nat ?d \<le> 0")
    case True
    let ?req = "req\<lparr>rq_exit_time := logic_clk s + of_c_int (rq_flits req)\<rparr>"
    let ?lq = "(link_req_queues s)[nat p := rest]" and ?qq = "(quad_req_queues s)[nat ?d := quad_req_queues s ! nat ?d @ [?req]]"
    let ?s = "s\<lparr>link_req_queues := ?lq, quad_req_queues := ?qq, quad_busy := (quad_busy s)[nat ?d := rq_flits req],
      link_age_counter := (link_age_counter s)[nat p := if rest = [] then 0 else 1]\<rparr>"
    have run: "move_request p s = Inr ?s"
      using p d r True by (simp add: move_request_def g Let_def vset_in)
    have "ages_ok ((link_age_counter s)[nat p := if rest = [] then 0 else 1]) ?lq"
      by (rule ages_ok_update [OF r(2)]) simp
    moreover have "\<forall>r \<in> set (concat ?lq). req_ok cfg r"
      by (rule all_update [OF r(4)]) (use all_nth [OF r(4) np] in \<open>simp add: h\<close>)
    moreover have "\<forall>r \<in> set (concat ?qq). req_ok cfg r"
      by (rule all_update [OF r(7)]) (use all_nth [OF r(7) nd] \<open>req_ok cfg req\<close> in \<open>auto simp: req_ok_def\<close>)
    ultimately have "req_side cfg ?s" using r by (simp add: req_side_def)
    moreover have "reqs_on_way ?s = reqs_on_way s"
      using tok_pop [OF np h, of mem_operand] tok_push [OF nd, of mem_operand ?req]
      by (simp add: reqs_on_way_def)
    moreover have "links_ok ?s = links_ok s" "resp_side ?s = resp_side s" "table_keys ?s = table_keys s"
      "hmc_held ?s = hmc_held s" "hmc_answered ?s = hmc_answered s"
      by (simp_all add: links_ok_def resp_side_def table_keys_def hmc_held_def resps_on_way_def hmc_answered_def)
    ultimately have "xbar_inv cfg M A ?s" using x by (simp add: xbar_inv_def)
    moreover have "link_req_queues ?s ! nat j = link_req_queues s ! nat j" if "0 \<le> j" "j \<noteq> p" for j
      using that p by simp
    ultimately show ?thesis unfolding run okE_simps by (simp add: same_rest_def)
  next
    case False
    let ?s = "s\<lparr>link_age_counter := (link_age_counter s)[nat p := link_age_counter s ! nat p + 1]\<rparr>"
    have c: "(size_u (quad_req_queues s ! nat ?d) < queue_depth s \<and> quad_busy s ! nat ?d \<le> 0) = False"
      using False by (rule Eq_FalseI [THEN meta_eq_to_obj_eq])
    have run: "move_request p s = Inr ?s"
      using p r(1,3) by (simp add: move_request_def g Let_def vset_in c del: not_less not_le)
    have "req_side cfg ?s" using r ages_ok_older [OF r(2) np q] by (simp add: req_side_def)
    moreover have "reqs_on_way ?s = reqs_on_way s" "links_ok ?s = links_ok s" "resp_side ?s = resp_side s"
      "table_keys ?s = table_keys s" "hmc_held ?s = hmc_held s" "hmc_answered ?s = hmc_answered s"
      by (simp_all add: reqs_on_way_def links_ok_def resp_side_def table_keys_def hmc_held_def resps_on_way_def hmc_answered_def)
    ultimately have "xbar_inv cfg M A ?s" using x by (simp add: xbar_inv_def)
    then show ?thesis unfolding run okE_simps by (simp add: same_rest_def)
  qed
qed

text \<open>A response moves from a quad to its link.\<close>

lemma move_response_ok:
  assumes x: "xbar_inv cfg M A s" and p: "0 \<le> p" "p < 4" and q: "quad_resp_queues s ! nat p \<noteq> []"
  shows "okE (\<lambda>s'. xbar_inv cfg M A s' \<and> same_rest s s' \<and> ctrls s' = ctrls s \<and> calls s' = calls s \<and>
      (\<forall>j. 0 \<le> j \<longrightarrow> j \<noteq> p \<longrightarrow> quad_resp_queues s' ! nat j = quad_resp_queues s ! nat j)) (move_response p s)"
proof -
  note r = xbar_resp_side [OF x]
  obtain resp rest where h: "quad_resp_queues s ! nat p = resp # rest" using q by (cases "quad_resp_queues s ! nat p") auto
  have np: "nat p < length (quad_resp_queues s)" using p r(4) by simp
  have k: "resp_ok (hmc_links s) resp" using all_nth [OF r(7) np] by (simp add: h)
  then have d: "0 \<le> rs_link resp" "rs_link resp < hmc_links s" by (simp_all add: resp_ok_def)
  let ?d = "rs_link resp"
  have nd: "nat ?d < length (link_resp_queues s)" using d r(1) by simp
  have g: "vget (quad_resp_queues s) p = Inr (resp # rest)" "vget (resp # rest) 0 = Inr resp"
    "vget (link_resp_queues s) ?d = Inr (link_resp_queues s ! nat ?d)" "vget (link_busy s) ?d = Inr (link_busy s ! nat ?d)"
    "vget (quad_age_counter s) p = Inr (quad_age_counter s ! nat p)"
    using p d r h by (simp_all add: vget_in)
  show ?thesis
  proof (cases "size_u (link_resp_queues s ! nat ?d) < queue_depth s \<and> link_busy s ! nat ?d \<le> 0")
    case True
    let ?resp = "resp\<lparr>rs_exit_time := logic_clk s + of_c_int (rs_flits resp)\<rparr>"
    let ?qq = "(quad_resp_queues s)[nat p := rest]" and ?lq = "(link_resp_queues s)[nat ?d := link_resp_queues s ! nat ?d @ [?resp]]"
    let ?s = "s\<lparr>quad_resp_queues := ?qq, link_resp_queues := ?lq, link_busy := (link_busy s)[nat ?d := rs_flits resp],
      quad_age_counter := (quad_age_counter s)[nat p := if rest = [] then 0 else 1]\<rparr>"
    have run: "move_response p s = Inr ?s"
      using p d r True by (simp add: move_response_def g Let_def vset_in)
    have "ages_ok ((quad_age_counter s)[nat p := if rest = [] then 0 else 1]) ?qq"
      by (rule ages_ok_update [OF r(5)]) simp
    moreover have "\<forall>r \<in> set (concat ?qq). resp_ok (hmc_links s) r"
      by (rule all_update [OF r(7)]) (use all_nth [OF r(7) np] in \<open>simp add: h\<close>)
    moreover have "\<forall>r \<in> set (concat ?lq). resp_ok (hmc_links s) r"
      by (rule all_update [OF r(3)]) (use all_nth [OF r(3) nd] k in \<open>auto simp: resp_ok_def\<close>)
    ultimately have "resp_side ?s" using r by (simp add: resp_side_def)
    moreover have t: "resps_on_way ?s = resps_on_way s"
      using tok_pop [OF np h, of resp_id] tok_push [OF nd, of resp_id ?resp]
      by (simp add: resps_on_way_def)
    moreover have "links_ok ?s = links_ok s" "req_side cfg ?s = req_side cfg s" "table_keys ?s = table_keys s"
      "reqs_on_way ?s = reqs_on_way s" "hmc_answered ?s = hmc_answered s"
      by (simp_all add: links_ok_def req_side_def table_keys_def reqs_on_way_def hmc_answered_def)
    moreover from this(3) t have "hmc_held ?s = hmc_held s" by (simp only: hmc_held_def)
    ultimately have "xbar_inv cfg M A ?s" using x by (simp only: xbar_inv_def simp_thms)
    moreover have "quad_resp_queues ?s ! nat j = quad_resp_queues s ! nat j" if "0 \<le> j" "j \<noteq> p" for j
      using that p by simp
    ultimately show ?thesis unfolding run okE_simps by (simp add: same_rest_def)
  next
    case False
    let ?s = "s\<lparr>quad_age_counter := (quad_age_counter s)[nat p := quad_age_counter s ! nat p + 1]\<rparr>"
    have c: "(size_u (link_resp_queues s ! nat ?d) < queue_depth s \<and> link_busy s ! nat ?d \<le> 0) = False"
      using False by (rule Eq_FalseI [THEN meta_eq_to_obj_eq])
    have run: "move_response p s = Inr ?s"
      using p r(4,6) by (simp add: move_response_def g Let_def vset_in c del: not_less not_le)
    have "resp_side ?s" using r ages_ok_older [OF r(5) np q] by (simp add: resp_side_def)
    moreover have "reqs_on_way ?s = reqs_on_way s" "links_ok ?s = links_ok s" "req_side cfg ?s = req_side cfg s"
      "table_keys ?s = table_keys s" "hmc_held ?s = hmc_held s" "hmc_answered ?s = hmc_answered s"
      by (simp_all add: reqs_on_way_def links_ok_def req_side_def table_keys_def hmc_held_def resps_on_way_def hmc_answered_def)
    ultimately have "xbar_inv cfg M A ?s" using x by (simp only: xbar_inv_def simp_thms)
    then show ?thesis unfolding run okE_simps by (simp add: same_rest_def)
  qed
qed

text \<open>A link answers the client.\<close>

lemma answer_link_ok:
  assumes x: "xbar_inv cfg M A s" and i: "0 \<le> i" "i < hmc_links s"
  shows "okE (\<lambda>s'. xbar_inv cfg M A s' \<and> same_rest s s' \<and> ctrls s' = ctrls s \<and> (\<exists>new. calls s' = calls s @ new)) (answer_link i s)"
proof -
  note r = xbar_resp_side [OF x]
  have ni: "nat i < length (link_resp_queues s)" using i r(1) by simp
  then have g: "vget (link_resp_queues s) i = Inr (link_resp_queues s ! nat i)" using i by (simp add: vget_in)
  show ?thesis
  proof (cases "link_resp_queues s ! nat i")
    case Nil
    with x show ?thesis by (simp add: answer_link_def g)
  next
    case (Cons resp rest)
    show ?thesis
    proof (cases "rs_exit_time resp \<le> logic_clk s")
      case True
      let ?lq = "(link_resp_queues s)[nat i := rest]"
      let ?new = "[(resp_id resp, if rs_type resp = RD_RS then 0 else 1 :: int)]"
      let ?s = "s\<lparr>link_resp_queues := ?lq, calls := calls s @ ?new\<rparr>"
      have run: "answer_link i s = Inr ?s" using i r(1) ni True by (simp add: answer_link_def g Cons vset_in)
      have "\<forall>r \<in> set (concat ?lq). resp_ok (hmc_links s) r"
        by (rule all_update [OF r(3)]) (use all_nth [OF r(3) ni] in \<open>simp add: Cons\<close>)
      then have "resp_side ?s" using r by (simp add: resp_side_def)
      moreover have "links_ok ?s = links_ok s" "req_side cfg ?s = req_side cfg s" "table_keys ?s = table_keys s"
        "reqs_on_way ?s = reqs_on_way s"
        by (simp_all add: links_ok_def req_side_def table_keys_def reqs_on_way_def)
      moreover have "resps_on_way s = resps_on_way ?s + {#resp_id resp#}"
        using tok_pop [OF ni Cons, of resp_id] by (simp add: resps_on_way_def)
      then have "hmc_held ?s + mset (hmc_answered ?s) = hmc_held s + mset (hmc_answered s)"
        using \<open>table_keys ?s = table_keys s\<close> by (simp add: hmc_held_def hmc_answered_def)
      ultimately have "xbar_inv cfg M A ?s" using x by (simp only: xbar_inv_def simp_thms)
      then show ?thesis unfolding run okE_simps by (simp add: same_rest_def)
    next
      case False
      with x show ?thesis by (simp add: answer_link_def g Cons)
    qed
  qed
qed

end
