(* ===== verification/HMC_Insert.thy ===== *)
theory HMC_Insert
  imports HMC_Inv
begin

text \<open>
  A request enters the cube: at the next link in turn, or the first link behind it that has room.
\<close>

definition has_room :: "hmc_system \<Rightarrow> int \<Rightarrow> bool" where
  "has_room s i \<longleftrightarrow> size_u (link_req_queues s ! nat i) < queue_depth s"

lemma HMCResponse_ok:
  assumes "resp_kind ty = Inr (k, n)"
  shows "HMCResponse i ty link quad =
    Inr \<lparr>resp_id = i, rs_type = k, rs_link = link, rs_quad = quad, rs_flits = n, rs_exit_time = 0\<rparr>"
  by (simp add: HMCResponse_def assms)

text \<open>What all steps of the insertion leave alone.\<close>

definition inserted :: "config \<Rightarrow> u64 multiset \<Rightarrow> u64 multiset \<Rightarrow> u64 \<Rightarrow> hmc_system \<Rightarrow> bool \<Rightarrow> hmc_system \<Rightarrow> bool" where
  "inserted cfg M A a s b s' \<longleftrightarrow> xbar_inv cfg M (if b then A + {#a#} else A) s' \<and> same_rest s s' \<and>
     ctrls s' = ctrls s \<and> calls s' = calls s \<and> (\<not> b \<longrightarrow> link_req_queues s' = link_req_queues s)"

lemma InsertReqToLink_ok:
  assumes x: "xbar_inv cfg M A s" and i: "0 \<le> link" "link < hmc_links s" and rq: "req_ok cfg req"
    and k: "resp_kind (rq_type req) = Inr (k, n)"
  shows "okE (\<lambda>(b, s'). b = has_room s link \<and> inserted cfg M A (mem_operand req) s b s' \<and> next_link s' = next_link s)
    (InsertReqToLink req link s)"
proof -
  note r = xbar_req_side [OF x]
  note rr = xbar_resp_side [OF x]
  have nl: "nat link < length (link_req_queues s)" using i r(1) by simp
  then have g: "vget (link_req_queues s) link = Inr (link_req_queues s ! nat link)" using i by (simp add: vget_in)
  show ?thesis
  proof (cases "has_room s link")
    case True
    let ?req = "req\<lparr>rq_link := link\<rparr>" and ?a = "mem_operand req"
    let ?resp = "\<lparr>resp_id = ?a, rs_type = k, rs_link = link, rs_quad = rq_quad req, rs_flits = n, rs_exit_time = 0\<rparr>"
    let ?lq = "(link_req_queues s)[nat link := link_req_queues s ! nat link @ [?req]]"
    let ?ages = "(link_age_counter s)[nat link := 1]"
    let ?s = "s\<lparr>link_req_queues := ?lq, resp_lookup_table := resp_lookup_table s @ [(?a, ?resp)],
      link_age_counter := ?ages, last_req_clk := ds_clk s\<rparr>"
    have run: "InsertReqToLink req link s = Inr (True, ?s)"
      using i r(1,3) nl True
      by (simp add: InsertReqToLink_def g has_room_def HMCResponse_ok [OF k] vset_in mm_insert_def)
    have "ages_ok ?ages ?lq" by (rule ages_ok_update [OF r(2)]) simp
    moreover have "\<forall>r \<in> set (concat ?lq). req_ok cfg r"
      by (rule all_update [OF r(4)]) (use all_nth [OF r(4) nl] rq in \<open>auto simp: req_ok_def\<close>)
    ultimately have "req_side cfg ?s" using r by (simp add: req_side_def)
    moreover have "resp_side ?s" using rr i rq by (auto simp: resp_side_def resp_ok_def req_ok_def)
    moreover have t: "table_keys ?s = table_keys s + {#?a#}" by (simp add: table_keys_def)
    moreover have "reqs_on_way ?s = reqs_on_way s + {#?a#}"
      using tok_push [OF nl, of mem_operand ?req] by (simp add: reqs_on_way_def)
    moreover have "links_ok ?s = links_ok s" "hmc_answered ?s = hmc_answered s" and w: "resps_on_way ?s = resps_on_way s"
      by (simp_all add: links_ok_def resps_on_way_def hmc_answered_def)
    moreover have "hmc_held ?s = hmc_held s + {#?a#}" unfolding hmc_held_def t w by simp
    ultimately have "xbar_inv cfg M (A + {#?a#}) ?s" using x by (auto simp: xbar_inv_def simp del: hmc_system.simps)
    then show ?thesis unfolding run okE_simps by (simp add: same_rest_def inserted_def True)
  next
    case False
    with x show ?thesis by (simp add: InsertReqToLink_def g has_room_def inserted_def)
  qed
qed

lemma IterateNextLink_ok:
  assumes x: "xbar_inv cfg M A s"
  shows "\<exists>s'. IterateNextLink s = Inr s' \<and> xbar_inv cfg M A s' \<and> same_rest s s' \<and> ctrls s' = ctrls s \<and>
    calls s' = calls s \<and> link_req_queues s' = link_req_queues s \<and> next_link s' = (next_link s + 1) mod hmc_links s"
proof -
  let ?s = "s\<lparr>next_link := (next_link s + 1) mod hmc_links s\<rparr>"
  from x have l: "0 < hmc_links s" "0 \<le> next_link s" by (simp_all add: xbar_inv_def links_ok_def)
  then have run: "IterateNextLink s = Inr ?s" by (simp add: IterateNextLink_def smod_nonneg)
  have "xbar_inv cfg M A ?s" by (rule xbar_cong [OF x]) (use l in simp_all)
  then show ?thesis by (simp add: run same_rest_def)
qed

lemma insert_loop_ok:
  assumes "xbar_inv cfg M A s" and "req_ok cfg req" and "resp_kind (rq_type req) = Inr (k, n)"
    and "next_link s = (start_link + j) mod hmc_links s" and "1 \<le> j" and "j \<le> hmc_links s"
    and "0 \<le> start_link" and "start_link < hmc_links s" and "hmc_links s - j < int m"
    and "\<forall>i. 0 \<le> i \<and> i < j \<longrightarrow> \<not> has_room s ((start_link + i) mod hmc_links s)"
  shows "okE (\<lambda>(b, s'). b = (\<exists>i. 0 \<le> i \<and> i < hmc_links s \<and> has_room s i) \<and>
      inserted cfg M A (mem_operand req) s b s') (insert_loop m start_link req s)"
  using assms
proof (induction m arbitrary: s j)
  case (Suc m)
  let ?n = "hmc_links s"
  from Suc.prems(1) have l: "0 < ?n" "0 \<le> next_link s" "next_link s < ?n" by (simp_all add: xbar_inv_def links_ok_def)
  show ?case
  proof (cases "start_link = next_link s")
    case True
    have "(j + start_link) mod ?n = (0 + start_link) mod ?n" using True Suc.prems(4,7,8) by (simp add: add.commute)
    then have "j mod ?n = 0" by (metis add_diff_cancel_right' mod_0 mod_diff_left_eq)
    with Suc.prems(5,6) l have "j = ?n" by (cases "j = ?n") simp_all
    have "\<not> has_room s i" if "0 \<le> i" "i < ?n" for i
    proof -
      from smod_shift_surj [OF that Suc.prems(7)] obtain p where "0 \<le> p" "p < ?n" "(p + start_link) smod ?n = i" by auto
      with Suc.prems(10,7) l \<open>j = ?n\<close> show ?thesis by (auto simp: smod_nonneg add.commute)
    qed
    with Suc.prems(1) True show ?thesis by (auto simp: inserted_def)
  next
    case False
    from InsertReqToLink_ok [OF Suc.prems(1) l(2,3) Suc.prems(2,3)] obtain s1 where
      s1: "InsertReqToLink req (next_link s) s = Inr (has_room s (next_link s), s1)"
        "inserted cfg M A (mem_operand req) s (has_room s (next_link s)) s1" "next_link s1 = next_link s"
      by (auto simp: okE_iff)
    from s1(2) have x1: "xbar_inv cfg M (if has_room s (next_link s) then A + {#mem_operand req#} else A) s1"
      "same_rest s s1" "ctrls s1 = ctrls s" "calls s1 = calls s"
      "\<not> has_room s (next_link s) \<longrightarrow> link_req_queues s1 = link_req_queues s" by (simp_all add: inserted_def)
    from IterateNextLink_ok [OF x1(1)] obtain s2 where
      s2: "IterateNextLink s1 = Inr s2" "xbar_inv cfg M (if has_room s (next_link s) then A + {#mem_operand req#} else A) s2"
        "same_rest s1 s2" "ctrls s2 = ctrls s1" "calls s2 = calls s1" "link_req_queues s2 = link_req_queues s1"
        "next_link s2 = (next_link s1 + 1) mod hmc_links s1" by blast
    note t = same_rest_trans [OF x1(2) s2(3)]
    show ?thesis
    proof (cases "has_room s (next_link s)")
      case True
      with s2 t x1 l False show ?thesis by (auto simp: s1(1) inserted_def)
    next
      case no: False
      have e: "hmc_links s2 = ?n" "queue_depth s2 = queue_depth s" "link_req_queues s2 = link_req_queues s"
        using t x1(5) s2(6) no by (simp_all add: same_rest_def)
      then have room: "has_room s2 = has_room s" by (simp add: has_room_def fun_eq_iff)
      have n2: "next_link s2 = (start_link + (j + 1)) mod ?n"
        using s2(7) s1(3) x1(2) Suc.prems(4) by (simp add: same_rest_def mod_simps add.assoc)
      have jn: "j < ?n"
      proof (rule ccontr)
        assume "\<not> j < ?n"
        with Suc.prems(6) have "j = ?n" by simp
        with Suc.prems(4,7,8) False show False by simp
      qed
      have full: "\<forall>i. 0 \<le> i \<and> i < j + 1 \<longrightarrow> \<not> has_room s2 ((start_link + i) mod hmc_links s2)"
      proof (intro allI impI)
        fix i assume "0 \<le> i \<and> i < j + 1"
        then show "\<not> has_room s2 ((start_link + i) mod hmc_links s2)"
          using Suc.prems(10,4) no by (cases "i = j") (auto simp: room e(1))
      qed
      from Suc.IH [of s2 "j + 1", OF _ Suc.prems(2,3) _ _ _ Suc.prems(7) _ _ full] s2(2) no n2 e(1) jn Suc.prems(5,8,9)
      have "okE (\<lambda>(b, s'). b = (\<exists>i. 0 \<le> i \<and> i < ?n \<and> has_room s i) \<and> inserted cfg M A (mem_operand req) s2 b s')
          (insert_loop m start_link req s2)" by (simp add: room e(1))
      then show ?thesis
        using False no t x1 s2 e by (auto simp: s1(1) inserted_def elim!: okE_mono intro: same_rest_trans)
    qed
  qed
qed simp

lemma InsertHMCReq_ok:
  assumes x: "xbar_inv cfg M A s" and rq: "req_ok cfg req" and k: "resp_kind (rq_type req) = Inr (k, n)"
  shows "okE (\<lambda>(b, s'). b = (\<exists>i. 0 \<le> i \<and> i < hmc_links s \<and> has_room s i) \<and>
      inserted cfg M A (mem_operand req) s b s') (InsertHMCReq req s)"
proof -
  let ?n = "hmc_links s"
  from x have l: "0 < ?n" "0 \<le> next_link s" "next_link s < ?n" by (simp_all add: xbar_inv_def links_ok_def)
  from InsertReqToLink_ok [OF x l(2,3) rq k] obtain s1 where
    s1: "InsertReqToLink req (next_link s) s = Inr (has_room s (next_link s), s1)"
      "inserted cfg M A (mem_operand req) s (has_room s (next_link s)) s1" "next_link s1 = next_link s"
    by (auto simp: okE_iff)
  from s1(2) have x1: "xbar_inv cfg M (if has_room s (next_link s) then A + {#mem_operand req#} else A) s1"
    "same_rest s s1" "ctrls s1 = ctrls s" "calls s1 = calls s"
    "\<not> has_room s (next_link s) \<longrightarrow> link_req_queues s1 = link_req_queues s" by (simp_all add: inserted_def)
  from IterateNextLink_ok [OF x1(1)] obtain s2 where
    s2: "IterateNextLink s1 = Inr s2" "xbar_inv cfg M (if has_room s (next_link s) then A + {#mem_operand req#} else A) s2"
      "same_rest s1 s2" "ctrls s2 = ctrls s1" "calls s2 = calls s1" "link_req_queues s2 = link_req_queues s1"
      "next_link s2 = (next_link s1 + 1) mod hmc_links s1" by blast
  note t = same_rest_trans [OF x1(2) s2(3)]
  show ?thesis
  proof (cases "has_room s (next_link s)")
    case True
    with s2 t x1 l show ?thesis by (auto simp: InsertHMCReq_def s1(1) inserted_def)
  next
    case no: False
    have e: "hmc_links s2 = ?n" "queue_depth s2 = queue_depth s" "link_req_queues s2 = link_req_queues s"
      using t x1(5) s2(6) no by (simp_all add: same_rest_def)
    then have room: "has_room s2 = has_room s" by (simp add: has_room_def fun_eq_iff)
    have n2: "next_link s2 = (next_link s + 1) mod ?n" using s2(7) s1(3) x1(2) by (simp add: same_rest_def)
    have full: "\<forall>i. 0 \<le> i \<and> i < 1 \<longrightarrow> \<not> has_room s2 ((next_link s + i) mod hmc_links s2)"
    proof (intro allI impI)
      fix i :: int assume "0 \<le> i \<and> i < 1"
      then have "i = 0" by simp
      then show "\<not> has_room s2 ((next_link s + i) mod hmc_links s2)" using no l by (simp add: room e(1))
    qed
    from insert_loop_ok [of cfg M A s2 req k n "next_link s" 1 "nat ?n", OF _ rq k _ _ _ l(2) _ _ full] s2(2) no n2 e(1) l
    have "okE (\<lambda>(b, s'). b = (\<exists>i. 0 \<le> i \<and> i < ?n \<and> has_room s i) \<and> inserted cfg M A (mem_operand req) s2 b s')
        (insert_loop (nat ?n) (next_link s) req s2)" by (simp add: room e(1))
    then show ?thesis
      using no t x1 s2 e by (auto simp: InsertHMCReq_def s1(1) inserted_def elim!: okE_mono intro: same_rest_trans)
  qed
qed

text \<open>The client's interface: what the cube accepts it inserts, at whichever link is next.\<close>

lemma accepts_iff_room:
  assumes "xbar_inv cfg M A s"
  shows "HMC_WillAcceptTransaction a w s = Inr (\<exists>i. 0 \<le> i \<and> i < hmc_links s \<and> has_room s i)"
proof -
  have n: "length (link_req_queues s) = nat (hmc_links s)" by (rule xbar_req_side(1) [OF assms])
  have "(\<exists>q \<in> set (link_req_queues s). size_u q < queue_depth s) \<longleftrightarrow>
      (\<exists>j < length (link_req_queues s). size_u (link_req_queues s ! j) < queue_depth s)"
    by (metis in_set_conv_nth)
  also have "\<dots> \<longleftrightarrow> (\<exists>i. 0 \<le> i \<and> i < hmc_links s \<and> has_room s i)"
  proof
    assume "\<exists>j < length (link_req_queues s). size_u (link_req_queues s ! j) < queue_depth s"
    then obtain j where "j < length (link_req_queues s)" "size_u (link_req_queues s ! j) < queue_depth s" by blast
    then show "\<exists>i. 0 \<le> i \<and> i < hmc_links s \<and> has_room s i"
      using n by (intro exI [of _ "int j"]) (auto simp: has_room_def)
  next
    assume "\<exists>i. 0 \<le> i \<and> i < hmc_links s \<and> has_room s i"
    then obtain i where "0 \<le> i" "i < hmc_links s" "has_room s i" by blast
    then show "\<exists>j < length (link_req_queues s). size_u (link_req_queues s ! j) < queue_depth s"
      using n by (intro exI [of _ "nat i"]) (auto simp: has_room_def)
  qed
  finally show ?thesis by (simp add: HMC_WillAcceptTransaction_def)
qed

definition block_ok :: "config \<Rightarrow> bool" where
  "block_ok cfg \<longleftrightarrow> block_size cfg \<in> {0, 32, 64, 128, 256}"

lemma block_req_ok:
  assumes "block_ok cfg"
  shows "\<exists>ty n k m. block_req_type cfg w = Inr ty \<and> req_flits ty = Inr n \<and> resp_kind ty = Inr (k, m) \<and> is_write_type ty = w"
  using assms by (cases w) (auto simp: block_ok_def block_req_type_def req_flits_def resp_kind_def is_write_type_def)

lemma HMC_AddTransaction_ok:
  assumes x: "xbar_inv cfg M A s" and b: "block_ok cfg" and c: "0 \<le> GetChannel cfg a" "GetChannel cfg a < channels cfg"
  shows "okE (\<lambda>(b, s'). HMC_WillAcceptTransaction a w s = Inr b \<and> inserted cfg M A a s b s') (HMC_AddTransaction cfg a w s)"
proof -
  from block_req_ok [OF b, of w] obtain ty n k m where
    t: "block_req_type cfg w = Inr ty" "req_flits ty = Inr n" "resp_kind ty = Inr (k, m)" by blast
  let ?req = "\<lparr>rq_type = ty, mem_operand = a, rq_link = 0, rq_quad = GetChannel cfg a smod 4, rq_vault = GetChannel cfg a,
      rq_flits = n, rq_is_write = is_write_type ty, rq_exit_time = 0\<rparr>"
  have "req_ok cfg ?req" using c by (simp add: req_ok_def smod_nonneg)
  from InsertHMCReq_ok [OF x this, of k m] t show ?thesis
    by (auto simp: HMC_AddTransaction_def HMCRequest_def accepts_iff_room [OF x] elim!: okE_mono)
qed

end
