(* ===== verification/HMC_Run.thy ===== *)
theory HMC_Run
  imports HMC_Insert
begin

text \<open>
  A cycle of the cube: the crossbar and the vaults together, with the two clocks, and the contract of
  a memory.
\<close>

section \<open>Vaults and crossbar\<close>

text \<open>The addresses of the transactions in the vaults are those the table has no request for.\<close>

definition cube_inv :: "config \<Rightarrow> u64 multiset \<Rightarrow> hmc_system \<Rightarrow> bool" where
  "cube_inv cfg A s \<longleftrightarrow> ds_inv cfg s \<and> xbar_inv cfg (image_mset fst (ds_held s)) A s"

text \<open>A step that keeps the invariant, and what else every step keeps.\<close>

definition keeps :: "config \<Rightarrow> u64 multiset \<Rightarrow> hmc_system \<Rightarrow> hmc_system \<Rightarrow> bool" where
  "keeps cfg A s s' \<longleftrightarrow> cube_inv cfg A s' \<and> same_rest s s' \<and> (\<exists>new. calls s' = calls s @ new)"

lemma keeps_refl: "cube_inv cfg A s \<Longrightarrow> keeps cfg A s s"
  by (simp add: keeps_def)

lemma keeps_trans: "keeps cfg A a b \<Longrightarrow> keeps cfg A b c \<Longrightarrow> keeps cfg A a c"
  by (auto simp: keeps_def intro: same_rest_trans)

lemma keeps_step:
  assumes "keeps cfg A a b" and "okE (keeps cfg A b) m"
  shows "okE (keeps cfg A a) m"
  using assms(2) by (rule okE_mono) (rule keeps_trans [OF assms(1)])

lemma keepsI:
  assumes c: "cube_inv cfg A s" and x: "xbar_inv cfg (image_mset fst (ds_held s)) A s'" and "same_rest s s'"
    and "ctrls s' = ctrls s" and "\<exists>new. calls s' = calls s @ new"
  shows "keeps cfg A s s'"
proof -
  have "ds_clk s' = ds_clk s" using assms(3) by (simp add: same_rest_def)
  with c assms(4) have "ds_inv cfg s'" "ds_held s' = ds_held s"
    by (simp_all add: cube_inv_def ds_inv_def ds_held_def)
  with x assms(3,5) show ?thesis by (simp add: keeps_def cube_inv_def)
qed

lemma drain_quad_ok:
  assumes c: "cube_inv cfg A s" and i: "0 \<le> i" "i < 4"
  shows "okE (keeps cfg A s) (drain_quad i s)"
proof -
  from c have ds: "ds_inv cfg s" and x: "xbar_inv cfg (image_mset fst (ds_held s)) A s" by (simp_all add: cube_inv_def)
  note r = xbar_req_side [OF x]
  note rr = xbar_resp_side [OF x]
  have ni: "nat i < length (quad_req_queues s)" using i r(5) by simp
  have g: "vget (quad_req_queues s) i = Inr (quad_req_queues s ! nat i)"
    "vget (quad_resp_queues s) i = Inr (quad_resp_queues s ! nat i)" using i r(5) rr(4) by (simp_all add: vget_in)
  show ?thesis
  proof (cases "quad_req_queues s ! nat i")
    case Nil
    with c show ?thesis by (simp add: drain_quad_def g keeps_refl)
  next
    case (Cons req rest)
    let ?a = "mem_operand req" and ?w = "rq_is_write req" and ?v = "nat (rq_vault req)"
    have "req_ok cfg req" using all_nth [OF r(7) ni] by (simp add: Cons)
    then have v: "0 \<le> rq_vault req" "?v < length (ctrls s)"
      using ds by (simp_all add: req_ok_def ds_inv_def)
    then have gv: "vget (ctrls s) (rq_vault req) = Inr (ctrls s ! ?v)" by (simp add: vget_in)
    show ?thesis
    proof (cases "size_u (quad_resp_queues s ! nat i) < queue_depth s \<and> rq_exit_time req \<le> logic_clk s \<and>
        WillAcceptTransaction ?a ?w (ctrls s ! ?v)")
      case True
      let ?cts = "(ctrls s)[?v := snd (AddTransaction (Transaction ?a ?w) (ctrls s ! ?v))]"
      let ?qq = "(quad_req_queues s)[nat i := rest]"
      let ?s = "s\<lparr>ctrls := ?cts, quad_req_queues := ?qq\<rparr>"
      have run: "drain_quad i s = Inr ?s"
        using True v i r(5) ni by (simp add: drain_quad_def InsertReqToDRAM_def g gv Cons vset_in)
      from add_ctrl [OF ds v(2), of ?a ?w ?s] True
      have d: "ds_inv cfg ?s" "ds_held ?s = ds_held s + {#(?a, if ?w then 1 else 0)#}" by simp_all
      have "\<forall>r \<in> set (concat ?qq). req_ok cfg r"
        by (rule all_update [OF r(7)]) (use all_nth [OF r(7) ni] in \<open>simp add: Cons\<close>)
      then have "req_side cfg ?s" using r by (simp add: req_side_def)
      moreover have "reqs_on_way s = reqs_on_way ?s + {#?a#}"
        using tok_pop [OF ni Cons, of mem_operand] by (simp add: reqs_on_way_def)
      moreover have "links_ok ?s = links_ok s" "resp_side ?s = resp_side s" "table_keys ?s = table_keys s"
        "hmc_held ?s = hmc_held s" "hmc_answered ?s = hmc_answered s"
        by (simp_all add: links_ok_def resp_side_def table_keys_def hmc_held_def resps_on_way_def hmc_answered_def)
      ultimately have "xbar_inv cfg (image_mset fst (ds_held ?s)) A ?s"
        using x unfolding d(2) by (auto simp: xbar_inv_def simp del: hmc_system.simps)
      with d(1) show ?thesis unfolding run okE_simps keeps_def cube_inv_def by (simp add: same_rest_def)
    next
      case False
      then have "drain_quad i s = Inr s" by (auto simp: drain_quad_def g gv Cons)
      with c show ?thesis by (simp add: keeps_refl)
    qed
  qed
qed

text \<open>The queues that wait are served in their order, each once: what waits at the others stays.\<close>

lemma move_requests_ok:
  assumes "cube_inv cfg A s" and "distinct q" and "\<forall>p \<in> set q. 0 \<le> p \<and> p < hmc_links s \<and> link_req_queues s ! nat p \<noteq> []"
  shows "okE (keeps cfg A s) (foldE move_request q s)"
  using assms
proof (induction q arbitrary: s)
  case (Cons p q)
  from Cons.prems(1) have x: "xbar_inv cfg (image_mset fst (ds_held s)) A s" by (simp add: cube_inv_def)
  from move_request_ok [OF x, of p] Cons.prems(3) obtain s1 where
    s1: "move_request p s = Inr s1" "xbar_inv cfg (image_mset fst (ds_held s)) A s1" "same_rest s s1"
      "ctrls s1 = ctrls s" "calls s1 = calls s"
      "\<forall>j. 0 \<le> j \<longrightarrow> j \<noteq> p \<longrightarrow> link_req_queues s1 ! nat j = link_req_queues s ! nat j" by (auto simp: okE_iff)
  have k: "keeps cfg A s s1" by (rule keepsI [OF Cons.prems(1) s1(2,3,4)]) (simp add: s1(5))
  have "hmc_links s1 = hmc_links s" using s1(3) by (simp add: same_rest_def)
  with Cons.prems(2,3) s1(6) have "\<forall>j \<in> set q. 0 \<le> j \<and> j < hmc_links s1 \<and> link_req_queues s1 ! nat j \<noteq> []" by auto
  then have "okE (keeps cfg A s1) (foldE move_request q s1)"
    by (rule Cons.IH [rotated -1]) (use k Cons.prems(2) in \<open>simp_all add: keeps_def\<close>)
  from keeps_step [OF k this] show ?case by (simp add: s1(1))
qed (simp add: keeps_refl)

lemma move_responses_ok:
  assumes "cube_inv cfg A s" and "distinct q" and "\<forall>p \<in> set q. 0 \<le> p \<and> p < 4 \<and> quad_resp_queues s ! nat p \<noteq> []"
  shows "okE (keeps cfg A s) (foldE move_response q s)"
  using assms
proof (induction q arbitrary: s)
  case (Cons p q)
  from Cons.prems(1) have x: "xbar_inv cfg (image_mset fst (ds_held s)) A s" by (simp add: cube_inv_def)
  from move_response_ok [OF x, of p] Cons.prems(3) obtain s1 where
    s1: "move_response p s = Inr s1" "xbar_inv cfg (image_mset fst (ds_held s)) A s1" "same_rest s s1"
      "ctrls s1 = ctrls s" "calls s1 = calls s"
      "\<forall>j. 0 \<le> j \<longrightarrow> j \<noteq> p \<longrightarrow> quad_resp_queues s1 ! nat j = quad_resp_queues s ! nat j" by (auto simp: okE_iff)
  have k: "keeps cfg A s s1" by (rule keepsI [OF Cons.prems(1) s1(2,3,4)]) (simp add: s1(5))
  from Cons.prems(2,3) s1(6) have "\<forall>j \<in> set q. 0 \<le> j \<and> j < 4 \<and> quad_resp_queues s1 ! nat j \<noteq> []" by auto
  then have "okE (keeps cfg A s1) (foldE move_response q s1)"
    by (rule Cons.IH [rotated -1]) (use k Cons.prems(2) in \<open>simp_all add: keeps_def\<close>)
  from keeps_step [OF k this] show ?case by (simp add: s1(1))
qed (simp add: keeps_refl)

lemma waiting_positions:
  assumes "ages_ok ages qs" and "0 < int (length qs)" "int (length qs) < 2 ^ 31"
  shows "\<exists>q. BuildAgeQueue clk ages = Inr q \<and> distinct q \<and>
    set q = {p. 0 \<le> p \<and> p < int (length qs) \<and> qs ! nat p \<noteq> []}"
proof -
  from assms have n: "length ages = length qs" and a: "\<forall>i < length qs. 0 < ages ! i \<longleftrightarrow> qs ! i \<noteq> []"
    by (simp_all add: ages_ok_def)
  have "{p. 0 \<le> p \<and> p < int (length ages) \<and> 0 < ages ! nat p} = {p. 0 \<le> p \<and> p < int (length qs) \<and> qs ! nat p \<noteq> []}"
    using a by (auto simp: n)
  with BuildAgeQueue_ok [of ages clk] assms(2,3) show ?thesis by (auto simp: n okE_iff)
qed

lemma DrainRequests_ok:
  assumes "cube_inv cfg A s"
  shows "okE (keeps cfg A s) (DrainRequests s)"
proof -
  have "okE (keeps cfg A s) (foldE drain_quad (indices 4) s)"
  proof (rule okE_foldE [where I = "keeps cfg A s", OF keeps_refl [OF assms]])
    fix i t assume "i \<in> set (indices 4)" and k: "keeps cfg A s t"
    then have "okE (keeps cfg A t) (drain_quad i t)" by (intro drain_quad_ok) (simp_all add: keeps_def)
    with k show "okE (keeps cfg A s) (drain_quad i t)" by (rule keeps_step)
  qed
  then obtain s1 where s1: "foldE drain_quad (indices 4) s = Inr s1" "keeps cfg A s s1" by (auto simp: okE_iff)
  let ?s = "s1\<lparr>quad_busy := drain_busy (quad_busy s1)\<rparr>"
  from s1(2) have c1: "cube_inv cfg A s1" and x: "xbar_inv cfg (image_mset fst (ds_held s1)) A s1"
    by (simp_all add: keeps_def cube_inv_def)
  from x have l: "links_ok s1" by (simp add: xbar_inv_def)
  have "xbar_inv cfg (image_mset fst (ds_held s1)) A ?s"
    by (rule xbar_cong [OF x]) (use l in \<open>simp_all add: links_ok_def drain_busy_def\<close>)
  then have k: "keeps cfg A s1 ?s" by (intro keepsI [OF c1]) (simp_all add: same_rest_def)
  from waiting_positions [OF xbar_req_side(2) [OF x], of "logic_clk s1"] xbar_req_side(1) [OF x] l obtain q where
    q: "BuildAgeQueue (logic_clk s1) (link_age_counter s1) = Inr q" "distinct q"
      "set q = {p. 0 \<le> p \<and> p < hmc_links s1 \<and> link_req_queues s1 ! nat p \<noteq> []}" by (auto simp: links_ok_def)
  have "okE (keeps cfg A ?s) (foldE move_request q ?s)"
    by (rule move_requests_ok [OF _ q(2)]) (use k q(3) in \<open>simp_all add: keeps_def\<close>)
  from keeps_step [OF keeps_trans [OF s1(2) k] this] show ?thesis by (simp add: DrainRequests_def s1(1) q(1))
qed

lemma DrainResponses_ok:
  assumes "cube_inv cfg A s"
  shows "okE (keeps cfg A s) (DrainResponses s)"
proof -
  have "okE (keeps cfg A s) (foldE answer_link (indices (hmc_links s)) s)"
  proof (rule okE_foldE [where I = "keeps cfg A s", OF keeps_refl [OF assms]])
    fix i t assume "i \<in> set (indices (hmc_links s))" and k: "keeps cfg A s t"
    then have i: "0 \<le> i" "i < hmc_links t" and c: "cube_inv cfg A t" by (simp_all add: keeps_def same_rest_def)
    from c have "xbar_inv cfg (image_mset fst (ds_held t)) A t" by (simp add: cube_inv_def)
    from answer_link_ok [OF this i] have "okE (keeps cfg A t) (answer_link i t)"
      by (rule okE_mono) (auto intro: keepsI [OF c])
    with k show "okE (keeps cfg A s) (answer_link i t)" by (rule keeps_step)
  qed
  then obtain s1 where s1: "foldE answer_link (indices (hmc_links s)) s = Inr s1" "keeps cfg A s s1" by (auto simp: okE_iff)
  let ?s = "s1\<lparr>link_busy := drain_busy (link_busy s1)\<rparr>"
  from s1(2) have c1: "cube_inv cfg A s1" and x: "xbar_inv cfg (image_mset fst (ds_held s1)) A s1"
    by (simp_all add: keeps_def cube_inv_def)
  from x have l: "links_ok s1" by (simp add: xbar_inv_def)
  have "xbar_inv cfg (image_mset fst (ds_held s1)) A ?s"
    by (rule xbar_cong [OF x]) (use l in \<open>simp_all add: links_ok_def drain_busy_def\<close>)
  then have k: "keeps cfg A s1 ?s" by (intro keepsI [OF c1]) (simp_all add: same_rest_def)
  from waiting_positions [OF xbar_resp_side(5) [OF x], of "logic_clk s1"] xbar_resp_side(4) [OF x] obtain q where
    q: "BuildAgeQueue (logic_clk s1) (quad_age_counter s1) = Inr q" "distinct q"
      "set q = {p. 0 \<le> p \<and> p < 4 \<and> quad_resp_queues s1 ! nat p \<noteq> []}" by auto
  have "okE (keeps cfg A ?s) (foldE move_response q ?s)"
    by (rule move_responses_ok [OF _ q(2)]) (use k q(3) in \<open>simp_all add: keeps_def\<close>)
  from keeps_step [OF keeps_trans [OF s1(2) k] this] show ?thesis by (simp add: DrainResponses_def s1(1) q(1))
qed

section \<open>The answers of the vaults\<close>

lemma map_of_in: "k \<in> fst ` set m \<Longrightarrow> \<exists>v. map_of m k = Some v \<and> (k, v) \<in> set m"
  by (metis domD dom_map_of_conv_image_fst map_of_SomeD)

lemma remove_first_key:
  "k \<in> fst ` set m \<Longrightarrow>
   image_mset fst (mset (remove_first (\<lambda>e. fst e = k) m)) + {#k#} = image_mset fst (mset m)"
  by (induction m) auto

lemma VaultCallback_ok:
  assumes x: "xbar_inv cfg (M + {#a#}) A s"
  shows "okE (\<lambda>s'. xbar_inv cfg M A s' \<and> same_rest s s' \<and> ctrls s' = ctrls s \<and> calls s' = calls s) (VaultCallback w a s)"
proof -
  note r = xbar_resp_side [OF x]
  from x have keys: "table_keys s = reqs_on_way s + (M + {#a#})" by (simp add: xbar_inv_def)
  then have "a \<in># table_keys s" by simp
  then have a: "a \<in> fst ` set (resp_lookup_table s)" by (simp add: table_keys_def)
  from map_of_in [OF this] obtain resp where f: "map_of (resp_lookup_table s) a = Some resp"
    "(a, resp) \<in> set (resp_lookup_table s)" by blast
  from r(8) f(2) have k: "resp_id resp = a" "resp_ok (hmc_links s) resp" by auto
  then have d: "0 \<le> rs_quad resp" "rs_quad resp < 4" by (simp_all add: resp_ok_def)
  let ?d = "nat (rs_quad resp)"
  have nd: "?d < length (quad_resp_queues s)" using d r(4) by simp
  let ?qs = "(quad_resp_queues s)[?d := quad_resp_queues s ! ?d @ [resp]]" and ?ages = "(quad_age_counter s)[?d := 1]"
  let ?t = "remove_first (\<lambda>e. fst e = a) (resp_lookup_table s)"
  let ?s = "s\<lparr>resp_lookup_table := ?t, quad_resp_queues := ?qs, quad_age_counter := ?ages\<rparr>"
  have run: "VaultCallback w a s = Inr ?s"
    using d r(4,6) nd by (simp add: VaultCallback_def mm_find_def f(1) vget_in vset_in mm_erase_def)
  have "ages_ok ?ages ?qs" by (rule ages_ok_update [OF r(5)]) simp
  moreover have "\<forall>r \<in> set (concat ?qs). resp_ok (hmc_links s) r"
    by (rule all_update [OF r(7)]) (use all_nth [OF r(7) nd] k in auto)
  moreover have "\<forall>(k, r) \<in> set ?t. resp_id r = k \<and> resp_ok (hmc_links s) r"
    using r(8) set_remove_first [of _ "resp_lookup_table s"] by blast
  ultimately have "resp_side ?s" using r by (simp add: resp_side_def)
  moreover have t: "table_keys s = table_keys ?s + {#a#}" using remove_first_key [OF a] by (simp add: table_keys_def)
  moreover have p: "resps_on_way ?s = resps_on_way s + {#a#}"
    using tok_push [OF nd, of resp_id resp] k(1) by (simp add: resps_on_way_def)
  moreover have "links_ok ?s = links_ok s" "req_side cfg ?s = req_side cfg s" "reqs_on_way ?s = reqs_on_way s"
    "hmc_answered ?s = hmc_answered s"
    by (simp_all add: links_ok_def req_side_def reqs_on_way_def hmc_answered_def)
  moreover have "hmc_held ?s = hmc_held s" unfolding hmc_held_def t p by simp
  ultimately have "xbar_inv cfg M A ?s" using x by (auto simp: xbar_inv_def simp del: hmc_system.simps)
  then show ?thesis unfolding run okE_simps by (simp add: same_rest_def)
qed

text \<open>The cycle of the vaults: all finished transactions become responses.\<close>

definition same_clocks :: "hmc_system \<Rightarrow> hmc_system \<Rightarrow> bool" where
  "same_clocks s s' \<longleftrightarrow> ps_per_dram s' = ps_per_dram s \<and> ps_per_logic s' = ps_per_logic s \<and>
     logic_ps s' = logic_ps s \<and> dram_ps s' = dram_ps s"

lemma DRAMClockTick_ok:
  assumes c: "cube_inv cfg A s" and now: "unat (ds_clk s) < 2 ^ 63"
  shows "okE (\<lambda>s'. cube_inv cfg A s' \<and> same_clocks s s' \<and> ds_clk s' = ds_clk s + 1 \<and> calls s' = calls s)
    (DRAMClockTick cfg (Timing cfg) s)"
proof -
  let ?ctrl = "ctrl_ok cfg (Timing cfg)"
  from c have ds: "ds_inv cfg s" and x: "xbar_inv cfg (image_mset fst (ds_held s)) A s" by (simp_all add: cube_inv_def)
  from ds have cfg: "ds_cfg_ok cfg" and n: "length (ctrls s) = nat (channels cfg)"
    and ct: "\<forall>ct \<in> set (ctrls s). ?ctrl (ds_clk s) ct" by (simp_all add: ds_inv_def)
  let ?J = "\<lambda>N t. xbar_inv cfg (image_mset fst N) A t \<and> same_rest s t \<and> calls t = calls s"
  have "okE (\<lambda>(cts, t). length cts = length (ctrls s) \<and> (\<forall>ct \<in> set cts. ?ctrl (ds_clk s) ct) \<and>
      ?J (sum_list (map outstanding cts) + {#}) t) (each_ctrl (drain_done VaultCallback (ds_clk s)) (ctrls s) s)"
  proof (rule each_ctrl_rule [OF _ ct])
    fix ct N t assume ct: "?ctrl (ds_clk s) ct" and J: "?J (outstanding ct + N) t"
    have "okE (?J N) (VaultCallback w a t)" if "?J (N + {#(a, if w then 1 else 0)#}) t" for w a N t
    proof -
      from that have "xbar_inv cfg (image_mset fst N + {#a#}) A t" by simp
      from VaultCallback_ok [OF this, of w] that show ?thesis by (auto elim!: okE_mono intro: same_rest_trans)
    qed
    from drain_done_rule [where J = ?J, OF this ct J, where clk = "ds_clk s"]
    show "okE (\<lambda>(ct', t). ?ctrl (ds_clk s) ct' \<and> ?J (outstanding ct' + N) t) (drain_done VaultCallback (ds_clk s) ct t)"
      by (rule okE_mono) auto
  qed (use x in \<open>simp add: ds_held_def\<close>)
  then obtain cts t where d: "each_ctrl (drain_done VaultCallback (ds_clk s)) (ctrls s) s = Inr (cts, t)"
    "length cts = length (ctrls s)" "\<forall>ct \<in> set cts. ?ctrl (ds_clk s) ct" "?J (sum_list (map outstanding cts)) t"
    by (auto simp: okE_iff)
  let ?K = "\<lambda>N (_ :: unit). N = sum_list (map outstanding cts)"
  let ?f = "\<lambda>ct (_ :: unit). bindE (ct_ClockTick cfg (Timing cfg) ct) (\<lambda>ct'. Inr (ct', ()))"
  have "okE (\<lambda>(cts', u). length cts' = length cts \<and> (\<forall>ct \<in> set cts'. ?ctrl (ds_clk s + 1) ct) \<and>
      ?K (sum_list (map outstanding cts') + {#}) u) (each_ctrl ?f cts ())"
  proof (rule each_ctrl_rule [OF _ d(3)])
    fix ct N and u :: unit assume "?ctrl (ds_clk s) ct" and "?K (outstanding ct + N) u"
    with ctrl_tick_ok [OF cfg this(1) now]
    show "okE (\<lambda>(ct', u). ?ctrl (ds_clk s + 1) ct' \<and> ?K (outstanding ct' + N) u) (?f ct u)" by (auto simp: okE_iff)
  qed simp
  then obtain cts' u where t: "each_ctrl ?f cts () = Inr (cts', ())" "length cts' = length cts"
    "\<forall>ct \<in> set cts'. ?ctrl (ds_clk s + 1) ct" "sum_list (map outstanding cts') = sum_list (map outstanding cts)"
    by (auto simp: okE_iff)
  let ?s = "t\<lparr>ctrls := cts'\<rparr>"
  have clk: "ds_clk t = ds_clk s" using d(4) by (simp add: same_rest_def)
  have "ds_inv cfg (?s\<lparr>ds_clk := ds_clk ?s + 1\<rparr>)" using cfg n d(2) t(2,3) by (simp add: ds_inv_def clk)
  from next_clk_ok [OF this] obtain s' cs where s': "next_clk cfg ?s = Inr s'" "ds_inv cfg s'"
    "ds_held s' = ds_held ?s" "s' = ?s\<lparr>ds_clk := ds_clk ?s + 1, ctrls := cs\<rparr>" by (auto simp: okE_iff)
  have h: "ds_held s' = sum_list (map outstanding cts)" using s'(3) t(4) by (simp add: ds_held_def)
  from d(4) have l: "links_ok t" by (simp add: xbar_inv_def)
  have "xbar_inv cfg (image_mset fst (ds_held s')) A s'"
    unfolding h by (rule xbar_cong [OF conjunct1 [OF d(4)]]) (use l in \<open>simp_all add: s'(4) links_ok_def\<close>)
  with s'(2) d(4) have "cube_inv cfg A s' \<and> same_clocks s s' \<and> ds_clk s' = ds_clk s + 1 \<and> calls s' = calls s"
    by (simp add: cube_inv_def s'(4) clk same_clocks_def same_rest_def)
  then show ?thesis by (simp add: DRAMClockTick_def d(1) t(1) s'(1))
qed

section \<open>The two clocks\<close>

text \<open>A cycle of the vaults takes 800 ps and one of the logic at most this. The logic clock is ahead
  of the other, by less than a cycle.\<close>

definition rates_ok :: "hmc_system \<Rightarrow> bool" where
  "rates_ok s \<longleftrightarrow> ps_per_dram s = 800 \<and> 0 < unat (ps_per_logic s) \<and> unat (ps_per_logic s) \<le> 800"

definition clocks_ok :: "hmc_system \<Rightarrow> bool" where
  "clocks_ok s \<longleftrightarrow> rates_ok s \<and> unat (dram_ps s) = 800 * unat (ds_clk s) \<and>
     unat (dram_ps s) \<le> unat (logic_ps s) \<and> unat (logic_ps s) < unat (dram_ps s) + 800"

lemma next_logic_keeps:
  assumes "cube_inv cfg A s"
  shows "cube_inv cfg A (next_logic s)"
proof -
  from assms have x: "xbar_inv cfg (image_mset fst (ds_held s)) A s" by (simp add: cube_inv_def)
  then have l: "links_ok s" by (simp add: xbar_inv_def)
  have "xbar_inv cfg (image_mset fst (ds_held s)) A (next_logic s)"
    by (rule xbar_cong [OF x]) (use l in \<open>simp_all add: next_logic_def links_ok_def\<close>)
  moreover have "ds_held (next_logic s) = ds_held s" by (simp add: next_logic_def ds_held_def)
  moreover have "ds_inv cfg (next_logic s)" using assms by (simp add: next_logic_def cube_inv_def ds_inv_def)
  ultimately show ?thesis by (simp add: cube_inv_def)
qed

lemma unat_add_small: "unat (a :: u64) + unat b < 2 ^ 64 \<Longrightarrow> unat (a + b) = unat a + unat b"
  by (simp add: unat_word_ariths)

text \<open>The logic cycles of a cycle of the vaults end, with the logic clock at or beyond the next one.\<close>

lemma logic_loop_ok:
  assumes "cube_inv cfg A s" and "rates_ok s" and "unat (dram_ps s) + 1600 < 2 ^ 64"
    and "unat (logic_ps s) < unat (dram_ps s) + 1600"
    and "unat (dram_ps s) + 800 - unat (logic_ps s) \<le> n"
  shows "okE (\<lambda>t. cube_inv cfg A t \<and> rates_ok t \<and> dram_ps t = dram_ps s \<and> ds_clk t = ds_clk s \<and>
      unat (dram_ps s) + 800 \<le> unat (logic_ps t) \<and>
      unat (logic_ps t) \<le> max (unat (logic_ps s)) (unat (dram_ps s) + 1599) \<and>
      (\<exists>new. calls t = calls s @ new)) (logic_loop n s)"
  using assms
proof (induction n arbitrary: s)
  case 0
  have "unat (800 :: u64) = 800" by simp
  with 0 have "unat (dram_ps s + ps_per_dram s) = unat (dram_ps s) + 800"
    by (subst unat_add_small) (simp_all add: rates_ok_def)
  with 0 have "\<not> logic_ps s < dram_ps s + ps_per_dram s" by (simp add: word_less_nat_alt)
  with 0 show ?case by (subst logic_loop.simps) (auto simp: if_not_P)
next
  case (Suc n)
  have "unat (800 :: u64) = 800" by simp
  with Suc.prems have e: "unat (dram_ps s + ps_per_dram s) = unat (dram_ps s) + 800"
    by (subst unat_add_small) (simp_all add: rates_ok_def)
  show ?case
  proof (cases "logic_ps s < dram_ps s + ps_per_dram s")
    case False
    with e Suc.prems show ?thesis by (subst logic_loop.simps) (auto simp: if_not_P word_less_nat_alt)
  next
    case True
    then have lt: "unat (logic_ps s) < unat (dram_ps s) + 800" by (simp add: word_less_nat_alt e)
    from DrainResponses_ok [OF Suc.prems(1)] obtain s1 where s1: "DrainResponses s = Inr s1" "keeps cfg A s s1"
      by (auto simp: okE_iff)
    then have "cube_inv cfg A s1" by (simp add: keeps_def)
    from DrainRequests_ok [OF this] obtain s2 where s2: "DrainRequests s1 = Inr s2" "keeps cfg A s1 s2"
      by (auto simp: okE_iff)
    have k: "keeps cfg A s s2" by (rule keeps_trans [OF s1(2) s2(2)])
    then have f: "dram_ps s2 = dram_ps s" "logic_ps s2 = logic_ps s" "ps_per_dram s2 = ps_per_dram s"
      "ps_per_logic s2 = ps_per_logic s" "ds_clk s2 = ds_clk s" by (simp_all add: keeps_def same_rest_def)
    obtain new where new: "calls s2 = calls s @ new" using k by (auto simp: keeps_def)
    from Suc.prems(2) have pl: "0 < unat (ps_per_logic s)" "unat (ps_per_logic s) \<le> 800" by (simp_all add: rates_ok_def)
    have l: "unat (logic_ps s + ps_per_logic s) = unat (logic_ps s) + unat (ps_per_logic s)"
      by (rule unat_add_small) (use lt pl Suc.prems(3) in linarith)
    let ?t = "next_logic s2"
    have g: "dram_ps ?t = dram_ps s" "logic_ps ?t = logic_ps s + ps_per_logic s" "ds_clk ?t = ds_clk s"
      "calls ?t = calls s @ new" by (simp_all add: next_logic_def f new)
    have "rates_ok ?t" using Suc.prems(2) by (simp add: rates_ok_def next_logic_def f)
    moreover have "cube_inv cfg A ?t" by (rule next_logic_keeps) (use k in \<open>simp add: keeps_def\<close>)
    ultimately have "okE (\<lambda>t. cube_inv cfg A t \<and> rates_ok t \<and> dram_ps t = dram_ps ?t \<and> ds_clk t = ds_clk ?t \<and>
      unat (dram_ps ?t) + 800 \<le> unat (logic_ps t) \<and>
      unat (logic_ps t) \<le> max (unat (logic_ps ?t)) (unat (dram_ps ?t) + 1599) \<and>
      (\<exists>new. calls t = calls ?t @ new)) (logic_loop n ?t)"
      by (intro Suc.IH) (use lt pl Suc.prems in \<open>simp_all add: g l\<close>)
    moreover have "max (unat (logic_ps s) + unat (ps_per_logic s)) (unat (dram_ps s) + 1599) =
        max (unat (logic_ps s)) (unat (dram_ps s) + 1599)" using lt pl by linarith
    ultimately show ?thesis
      using True by (subst logic_loop.simps) (auto simp: s1(1) s2(1) g l elim!: okE_mono)
  qed
qed

text \<open>The first part of a cycle: a cycle of the vaults, with one of the logic when both clocks agree.\<close>

lemma aligned_cycle_ok:
  assumes c: "cube_inv cfg A s" and r: "rates_ok s" and now: "unat (ds_clk s) < 2 ^ 63"
    and d: "unat (dram_ps s) \<le> unat (logic_ps s)" "unat (logic_ps s) < unat (dram_ps s) + 800"
    and b: "unat (dram_ps s) + 1600 < 2 ^ 64"
  shows "okE (\<lambda>t. cube_inv cfg A t \<and> rates_ok t \<and> dram_ps t = dram_ps s \<and> ds_clk t = ds_clk s + 1 \<and>
      unat (logic_ps t) \<le> unat (dram_ps s) + 800 \<and> (\<exists>new. calls t = calls s @ new))
    (if dram_ps s = logic_ps s then
       bindE (DrainResponses s) (\<lambda>s1. bindE (DRAMClockTick cfg (Timing cfg) s1) (\<lambda>s2.
         bindE (DrainRequests s2) (\<lambda>s3. Inr (next_logic s3))))
     else DRAMClockTick cfg (Timing cfg) s)"
proof (cases "dram_ps s = logic_ps s")
  case True
  from r have pl: "0 < unat (ps_per_logic s)" "unat (ps_per_logic s) \<le> 800" by (simp_all add: rates_ok_def)
  from DrainResponses_ok [OF c] obtain s1 where s1: "DrainResponses s = Inr s1" "keeps cfg A s s1" by (auto simp: okE_iff)
  then have c1: "cube_inv cfg A s1" and f1: "ds_clk s1 = ds_clk s" "same_clocks s s1"
    by (simp_all add: keeps_def same_rest_def same_clocks_def)
  from DRAMClockTick_ok [OF c1] now f1 obtain s2 where s2: "DRAMClockTick cfg (Timing cfg) s1 = Inr s2"
    "cube_inv cfg A s2" "same_clocks s1 s2" "ds_clk s2 = ds_clk s + 1" "calls s2 = calls s1" by (auto simp: okE_iff)
  from DrainRequests_ok [OF s2(2)] obtain s3 where s3: "DrainRequests s2 = Inr s3" "keeps cfg A s2 s3" by (auto simp: okE_iff)
  then have c3: "cube_inv cfg A s3" and f3: "ds_clk s3 = ds_clk s + 1" "same_clocks s2 s3"
    using s2(4) by (simp_all add: keeps_def same_rest_def same_clocks_def)
  obtain o1 o2 where o: "calls s1 = calls s @ o1" "calls s3 = calls s2 @ o2"
    using s1(2) s3(2) by (auto simp: keeps_def)
  have f: "dram_ps s3 = dram_ps s" "logic_ps s3 = dram_ps s" "ps_per_dram s3 = ps_per_dram s" "ps_per_logic s3 = ps_per_logic s"
    using f1(2) s2(3) f3(2) True by (simp_all add: same_clocks_def)
  have l: "unat (dram_ps s + ps_per_logic s) = unat (dram_ps s) + unat (ps_per_logic s)"
    by (rule unat_add_small) (use pl b in linarith)
  have "rates_ok (next_logic s3)" using r by (simp add: rates_ok_def next_logic_def f)
  moreover have "calls (next_logic s3) = calls s @ (o1 @ o2)" by (simp add: next_logic_def o s2(5))
  moreover have "dram_ps (next_logic s3) = dram_ps s" "ds_clk (next_logic s3) = ds_clk s + 1"
    "unat (logic_ps (next_logic s3)) \<le> unat (dram_ps s) + 800"
    using pl by (simp_all add: next_logic_def f f3(1) l)
  ultimately show ?thesis using next_logic_keeps [OF c3] by (simp add: True [symmetric] s1(1) s2(1) s3(1))
next
  case False
  with DRAMClockTick_ok [OF c now] r d show ?thesis
    by (auto simp: same_clocks_def rates_ok_def elim!: okE_mono)
qed

text \<open>A cycle of the cube.\<close>

theorem HMC_ClockTick_ok:
  assumes c: "cube_inv cfg A s" and clk: "clocks_ok s" and now: "unat (ds_clk s) < 2 ^ 54"
  shows "okE (\<lambda>t. cube_inv cfg A t \<and> clocks_ok t \<and> ds_clk t = ds_clk s + 1 \<and> (\<exists>new. calls t = calls s @ new))
    (HMC_ClockTick cfg (Timing cfg) s)"
proof -
  from clk have r: "rates_ok s" and d: "unat (dram_ps s) = 800 * unat (ds_clk s)"
    "unat (dram_ps s) \<le> unat (logic_ps s)" "unat (logic_ps s) < unat (dram_ps s) + 800" by (simp_all add: clocks_ok_def)
  from r have pl: "0 < unat (ps_per_logic s)" "unat (ps_per_logic s) \<le> 800" "ps_per_dram s = 800" by (simp_all add: rates_ok_def)
  have b: "unat (dram_ps s) + 1600 < 2 ^ 64" using now d(1) by simp
  have n63: "unat (ds_clk s) < 2 ^ 63" using now by simp
  have clk1: "unat (ds_clk s + 1) = unat (ds_clk s) + 1" using now by (simp add: unat_word_ariths)
  from aligned_cycle_ok [OF c r n63 d(2,3) b] obtain s1 where s1: "(if dram_ps s = logic_ps s then
       bindE (DrainResponses s) (\<lambda>s1. bindE (DRAMClockTick cfg (Timing cfg) s1) (\<lambda>s2.
         bindE (DrainRequests s2) (\<lambda>s3. Inr (next_logic s3))))
     else DRAMClockTick cfg (Timing cfg) s) = Inr s1"
    and c1: "cube_inv cfg A s1" and r1: "rates_ok s1" and f1: "dram_ps s1 = dram_ps s" "ds_clk s1 = ds_clk s + 1"
      "unat (logic_ps s1) \<le> unat (dram_ps s) + 800" and n1: "\<exists>new. calls s1 = calls s @ new" by (auto simp: okE_iff)
  have "unat (800 :: u64) = 800" by simp
  then have e: "unat (dram_ps s1 + ps_per_dram s1) = unat (dram_ps s) + 800"
    using b r1 by (subst unat_add_small) (simp_all add: rates_ok_def f1)
  have fuel: "unat (dram_ps s1 + ps_per_dram s1 - logic_ps s1) = unat (dram_ps s) + 800 - unat (logic_ps s1)"
    using f1(3) by (subst unat_sub) (simp_all add: word_le_nat_alt e)
  have "unat (dram_ps s1) + 800 - unat (logic_ps s1) \<le> unat (dram_ps s1 + ps_per_dram s1 - logic_ps s1)"
    by (simp only: fuel) (simp add: f1(1))
  from logic_loop_ok [OF c1 r1 _ _ this] b f1(1,3) obtain s2 where
    s2: "logic_loop (unat (dram_ps s1 + ps_per_dram s1 - logic_ps s1)) s1 = Inr s2" "cube_inv cfg A s2" "rates_ok s2"
      "dram_ps s2 = dram_ps s" "ds_clk s2 = ds_clk s + 1" "unat (dram_ps s) + 800 \<le> unat (logic_ps s2)"
      "unat (logic_ps s2) \<le> max (unat (logic_ps s1)) (unat (dram_ps s) + 1599)" "\<exists>new. calls s2 = calls s1 @ new"
    by (auto simp: okE_iff f1(2))
  let ?t = "s2\<lparr>dram_ps := dram_ps s2 + ps_per_dram s2\<rparr>"
  have e2: "unat (dram_ps s2 + ps_per_dram s2) = unat (dram_ps s) + 800"
    using e r1 s2(3) by (simp add: s2(4) f1(1) rates_ok_def)
  from s2(7) f1(3) have "unat (logic_ps s2) < unat (dram_ps s) + 1600" by simp
  then have "clocks_ok ?t" using s2(3,6) e2 d(1) by (simp add: clocks_ok_def rates_ok_def s2(5) clk1)
  moreover have "cube_inv cfg A ?t"
  proof -
    from s2(2) have x: "xbar_inv cfg (image_mset fst (ds_held s2)) A s2" by (simp add: cube_inv_def)
    then have l: "links_ok s2" by (simp add: xbar_inv_def)
    have "xbar_inv cfg (image_mset fst (ds_held s2)) A ?t" by (rule xbar_cong [OF x]) (use l in \<open>simp_all add: links_ok_def\<close>)
    moreover have "ds_held ?t = ds_held s2" by (simp add: ds_held_def)
    moreover have "ds_inv cfg ?t" using s2(2) by (simp add: cube_inv_def ds_inv_def)
    ultimately show ?thesis by (simp add: cube_inv_def)
  qed
  moreover have "HMC_ClockTick cfg (Timing cfg) s = Inr ?t" unfolding HMC_ClockTick_def s1 by (simp add: s2(1))
  ultimately show ?thesis using s2(5,8) n1 by auto
qed

end
