(* ===== verification/HMC_Properties.thy ===== *)
theory HMC_Properties
  imports HMC_Run System_Properties
begin

text \<open>
  The memory cube as a memory: its constructor, its contract, and its properties; and a small
  cube to apply them to.
\<close>

section \<open>The contract of a memory\<close>

definition hmc_inv :: "config \<Rightarrow> hmc_system \<Rightarrow> bool" where
  "hmc_inv cfg s \<longleftrightarrow> block_ok cfg \<and> clocks_ok s \<and> cube_inv cfg (hmc_held s + mset (hmc_answered s)) s"

text \<open>The links: not too many, and with a speed that makes a logic cycle at least one picosecond.\<close>

definition links_cfg_ok :: "config \<Rightarrow> bool" where
  "links_cfg_ok cfg \<longleftrightarrow> 0 < num_links cfg \<and> num_links cfg < 2 ^ 31 \<and> link_width cfg \<noteq> 0 \<and>
     128 sdiv link_width cfg \<noteq> 0 \<and> 0 < link_speed cfg sdiv (128 sdiv link_width cfg) \<and>
     link_speed cfg sdiv (128 sdiv link_width cfg) \<le> 1000000"

lemma SetClockRatio_ok:
  assumes "links_cfg_ok cfg"
  shows "\<exists>pl. SetClockRatio cfg s = Inr (s\<lparr>ps_per_dram := 800, ps_per_logic := pl\<rparr>) \<and> 0 < unat pl \<and> unat pl \<le> 800"
proof -
  let ?v = "link_speed cfg sdiv (128 sdiv link_width cfg)"
  let ?ps = "of_c_int (1000000 sdiv ?v)"
  have v: "0 < ?v" "?v \<le> 1000000" using assms by (simp_all add: links_cfg_ok_def)
  have "1000000 sdiv ?v = 1000000 div ?v" using v by (simp add: sdiv_nonneg)
  moreover have "1000000 div ?v \<ge> 1" using v by (simp add: pos_imp_zdiv_pos_iff zle_add1_eq_le [symmetric])
  moreover have "1000000 div ?v \<le> 1000000" using zdiv_mono2 [of 1000000 1 ?v] v by simp
  ultimately have q: "1 \<le> 1000000 sdiv ?v" "1000000 sdiv ?v \<le> 1000000" by simp_all
  then have "uint ?ps = 1000000 sdiv ?v" by (intro uint_of_c_int) simp_all
  with q have "0 < unat ?ps" by (simp add: unat_eq_nat_uint)
  moreover have "unat (800 :: u64) = 800" by simp
  ultimately have "0 < unat (if ?ps > 800 then 800 else ?ps) \<and> unat (if ?ps > 800 then 800 else ?ps) \<le> 800"
    by (simp add: word_less_nat_alt)
  moreover have "SetClockRatio cfg s = Inr (s\<lparr>ps_per_dram := 800, ps_per_logic := (if ?ps > 800 then 800 else ?ps)\<rparr>)"
    using assms v by (simp add: SetClockRatio_def Let_def links_cfg_ok_def)
  ultimately show ?thesis by blast
qed

lemma HMCMemorySystem_ok:
  assumes cfg: "ds_cfg_ok cfg" and h: "IsHMC cfg" and l: "links_cfg_ok cfg" and b: "block_ok cfg"
  shows "okE (\<lambda>(s, n). hmc_inv cfg s \<and> hmc_held s = {#} \<and> calls s = [] \<and> ds_clk s = 0 \<and>
      n = total_channels + channels cfg) (HMCMemorySystem cfg total_channels)"
proof -
  from cfg have n: "0 \<le> channels cfg" by (auto simp: ds_cfg_ok_def dest!: spec)
  from new_ctrls_ok [OF cfg] obtain cts where
    c: "foldE (\<lambda>i cts. bindE (Controller i cfg) (\<lambda>ct. Inr (cts @ [ct]))) (indices (channels cfg)) [] = Inr cts"
    "length cts = nat (channels cfg)" "\<forall>ct \<in> set cts. ctrl_ok cfg (Timing cfg) 0 ct"
    "sum_list (map outstanding cts) = {#}" by (auto simp: okE_iff)
  let ?s = "dram_system.extend (fst (BaseDRAMSystem cfg total_channels)) \<lparr>logic_clk = 0, ps_per_dram = 0,
      ps_per_logic = 0, logic_ps = 0, dram_ps = 0, next_link = 0, hmc_links = num_links cfg,
      queue_depth = of_c_int (xbar_queue_depth cfg), resp_lookup_table = [],
      link_req_queues = replicate (nat (num_links cfg)) [], link_resp_queues = replicate (nat (num_links cfg)) [],
      quad_req_queues = replicate 4 [], quad_resp_queues = replicate 4 [], link_busy = replicate (nat (num_links cfg)) 0,
      quad_busy = [0, 0, 0, 0], link_age_counter = replicate (nat (num_links cfg)) 0,
      quad_age_counter = [0, 0, 0, 0]\<rparr>"
  from SetClockRatio_ok [OF l, of ?s] obtain pl where
    p: "SetClockRatio cfg ?s = Inr (?s\<lparr>ps_per_dram := 800, ps_per_logic := pl\<rparr>)" "0 < unat pl" "unat pl \<le> 800" by blast
  let ?t = "?s\<lparr>ps_per_dram := 800, ps_per_logic := pl, ctrls := cts\<rparr>"
  have run: "HMCMemorySystem cfg total_channels = Inr (?t, total_channels + channels cfg)"
    using l h n p(1) c(1) by (simp add: HMCMemorySystem_def Let_def BaseDRAMSystem_def links_cfg_ok_def)
  have links: "0 < num_links cfg" "num_links cfg < 2 ^ 31" using l by (simp_all add: links_cfg_ok_def)
  have no [simp]: "tok f (replicate k []) = {#}" for f k by (induction k) (simp_all add: tok_def)
  have "ages_ok (replicate k 0) (replicate k [])" for k by (simp add: ages_ok_def)
  from this [of "nat (num_links cfg)"] this [of 4] have
    ages: "ages_ok (replicate (nat (num_links cfg)) 0) (replicate (nat (num_links cfg)) [])"
      "ages_ok [0, 0, 0, 0] (replicate 4 [])" by (simp_all add: eval_nat_numeral)
  note fields = BaseDRAMSystem_def dram_system.defs
  have "ds_inv cfg ?t" "ds_held ?t = {#}"
    using cfg c by (simp_all add: ds_inv_def ds_held_def fields)
  moreover have "links_ok ?t" using links by (simp add: links_ok_def fields)
  moreover have "req_side cfg ?t" using ages links by (simp add: req_side_def fields)
  moreover have "resp_side ?t" using ages links by (simp add: resp_side_def fields)
  moreover have held: "hmc_held ?t = {#}" "table_keys ?t = {#}" "reqs_on_way ?t = {#}" "hmc_answered ?t = []"
    "calls ?t = []" "ds_clk ?t = 0"
    by (simp_all add: hmc_held_def table_keys_def reqs_on_way_def resps_on_way_def hmc_answered_def fields)
  ultimately have "cube_inv cfg (hmc_held ?t + mset (hmc_answered ?t)) ?t" by (simp add: cube_inv_def xbar_inv_def)
  moreover have "clocks_ok ?t" using p by (simp add: clocks_ok_def rates_ok_def fields)
  ultimately show ?thesis unfolding run using b held by (simp add: hmc_inv_def)
qed

interpretation hmc: memory_port "hmc_inv cfg" HMC_WillAcceptTransaction "HMC_AddTransaction cfg"
  "HMC_ClockTick cfg (Timing cfg)" "\<lambda>s. unat (ds_clk s)" "\<lambda>a _. a" hmc_held hmc_answered "2 ^ 54" for cfg
proof
  fix s a w
  assume inv: "hmc_inv cfg s"
  let ?A = "hmc_held s + mset (hmc_answered s)"
  from inv have b: "block_ok cfg" and k: "clocks_ok s" and c: "cube_inv cfg ?A s" by (simp_all add: hmc_inv_def)
  show "okE (\<lambda>_. True) (HMC_WillAcceptTransaction a w s)" by (simp add: HMC_WillAcceptTransaction_def)
  show "okE (\<lambda>(b, s'). b \<and> hmc_inv cfg s' \<and> unat (ds_clk s') = unat (ds_clk s) \<and>
      hmc_held s' = hmc_held s + {#a#} \<and> hmc_answered s' = hmc_answered s) (HMC_AddTransaction cfg a w s)"
    if acc: "HMC_WillAcceptTransaction a w s = Inr True"
  proof -
    from c have x: "xbar_inv cfg (image_mset fst (ds_held s)) ?A s" and ds: "ds_inv cfg s" by (simp_all add: cube_inv_def)
    from ds have g: "0 \<le> GetChannel cfg a" "GetChannel cfg a < channels cfg" by (simp_all add: ds_inv_def ds_cfg_ok_def)
    from HMC_AddTransaction_ok [OF x b g, of w] acc obtain s' where
      s': "HMC_AddTransaction cfg a w s = Inr (True, s')" "xbar_inv cfg (image_mset fst (ds_held s)) (?A + {#a#}) s'"
        "same_rest s s'" "ctrls s' = ctrls s" "calls s' = calls s"
      by (auto simp: okE_iff inserted_def)
    have an: "hmc_answered s' = hmc_answered s" by (simp add: hmc_answered_def s'(5))
    from s'(2) have "hmc_held s' + mset (hmc_answered s') = ?A + {#a#}" by (simp add: xbar_inv_def)
    then have h: "hmc_held s' = hmc_held s + {#a#}" by (simp add: an)
    have clk: "ds_clk s' = ds_clk s" using s'(3) by (simp add: same_rest_def)
    have "ds_inv cfg s'" "ds_held s' = ds_held s" using ds by (simp_all add: ds_inv_def ds_held_def s'(4) clk)
    with s'(2) have "cube_inv cfg (hmc_held s' + mset (hmc_answered s')) s'" by (simp add: cube_inv_def h an ac_simps)
    moreover have "clocks_ok s'" using k s'(3) by (simp add: clocks_ok_def rates_ok_def same_rest_def)
    ultimately show ?thesis by (simp add: s'(1) hmc_inv_def b clk h an)
  qed
  show "okE (\<lambda>s'. hmc_inv cfg s' \<and> unat (ds_clk s') = unat (ds_clk s) + 1 \<and>
      (\<exists>new. hmc_answered s' = hmc_answered s @ new \<and> hmc_held s = hmc_held s' + mset new))
    (HMC_ClockTick cfg (Timing cfg) s)"
    if now: "unat (ds_clk s) < 2 ^ 54"
  proof -
    from HMC_ClockTick_ok [OF c k now] obtain t new where t: "HMC_ClockTick cfg (Timing cfg) s = Inr t"
      "cube_inv cfg ?A t" "clocks_ok t" "ds_clk t = ds_clk s + 1" "calls t = calls s @ new" by (auto simp: okE_iff)
    from t(2) have a: "hmc_held t + mset (hmc_answered t) = ?A" by (simp add: cube_inv_def xbar_inv_def)
    have an: "hmc_answered t = hmc_answered s @ map fst new" by (simp add: hmc_answered_def t(5))
    with a have "hmc_held s = hmc_held t + mset (map fst new)" by (simp add: ac_simps)
    moreover have "unat (ds_clk t) = unat (ds_clk s) + 1" using now by (simp add: t(4) unat_word_ariths)
    moreover have "hmc_inv cfg t" unfolding hmc_inv_def a using t(2,3) b by simp
    ultimately show ?thesis using an by (auto simp: t(1))
  qed
qed

section \<open>A small cube\<close>

definition ex_hmc_reader :: ini_reader where
  "ex_hmc_reader = \<lparr>ini_Get = (\<lambda>_ opt d. if opt = ''protocol'' then ''HMC'' else d),
     ini_GetInteger = (\<lambda>_ opt d. if opt = ''channel_size'' then 2048 else if opt = ''banks_per_group'' then 1
        else if opt = ''num_links'' then 2 else if opt = ''tRCD'' \<or> opt = ''CL'' \<or> opt = ''CWL'' then 3 else d),
     ini_GetBoolean = (\<lambda>_ _ d. d)\<rparr>"

definition ex_hmc :: config where
  "ex_hmc = ex_cfg\<lparr>protocol := HMC, BL := 64, shift_bits := 9, ch_pos := 22, ra_pos := 4, bg_pos := 5,
     ba_pos := 6, ro_pos := 6, co_mask := 15, request_size_bytes := 512, burst_cycle := 32, read_delay := 35,
     write_delay := 35, num_links := 2\<rparr>"

lemma ex_hmc_Config: "Config ex_hmc_reader zero_config = Inr ex_hmc"
  by code_simp

lemma ex_hmc_fields:
  "protocol ex_hmc = HMC" "channels ex_hmc = 1" "ranks ex_hmc = 2" "bankgroups ex_hmc = 2"
  "banks_per_group ex_hmc = 1" "banks ex_hmc = 2" "rows ex_hmc = 65536" "columns ex_hmc = 1024" "BL ex_hmc = 64"
  "queue_structure ex_hmc = ''PER_BANK''" "trans_queue_size ex_hmc = 32" "enable_self_refresh ex_hmc = False"
  "enable_hbm_dual_cmd ex_hmc = False" "refresh_policy ex_hmc = RANK_LEVEL_STAGGERED"
  "tREFI ex_hmc = 7800" "tREFIb ex_hmc = 1950" "block_size ex_hmc = 64" "num_links ex_hmc = 2"
  "cmd_queue_size ex_hmc = 16" "link_width ex_hmc = 16" "link_speed ex_hmc = 15000"
  by code_simp+

lemma ex_hmc_ok: "ds_cfg_ok ex_hmc"
proof (rule Config_system_ok [OF ex_hmc_Config])
  show "of_c_int (epoch_period ex_hmc) \<noteq> 0" by code_simp
qed (simp_all add: ex_hmc_fields mapping_wf_def refresh_cfg_ok_def)

lemma ex_hmc_links: "IsHMC ex_hmc" "links_cfg_ok ex_hmc" "block_ok ex_hmc"
  by code_simp+

definition ex_hmc_session :: "(u64 \<times> bool) option list \<Rightarrow> (hmc_system \<times> (u64 \<times> bool) list) result" where
  "ex_hmc_session rs = bindE (HMCMemorySystem ex_hmc 0) (\<lambda>(s, _). session HMC_WillAcceptTransaction
     (HMC_AddTransaction ex_hmc) (HMC_ClockTick ex_hmc (Timing ex_hmc)) rs s)"

definition ex_hmc_requests :: "(u64 \<times> bool) option list" where
  "ex_hmc_requests = [Some (64, False), None, Some (64, True), None, None]"

lemma ex_hmc_requests_short: "length ex_hmc_requests \<le> 2 ^ 54"
  by (simp add: ex_hmc_requests_def)

lemma ex_hmc_new:
  obtains s :: hmc_system and n where "HMCMemorySystem ex_hmc 0 = Inr (s, n)" and "hmc_inv ex_hmc s" and "ds_clk s = 0"
  using HMCMemorySystem_ok [OF ex_hmc_ok ex_hmc_links, of 0] by (auto simp: okE_iff)

section \<open>Properties\<close>

text \<open>C5. Conservation in the cube: in every session of at most \<open>2 ^ 54\<close> cycles and offers nothing
  stops the program: no lookup of a response fails (\<open>VaultCallback\<close> does not check), no queue
  is read while empty, no loop of the two clocks hangs. Each accepted request is answered once or is
  still in the cube.\<close>

theorem hmc_session_conserved:
  assumes "ds_cfg_ok cfg" and "links_cfg_ok cfg" and "block_ok cfg" and "HMCMemorySystem cfg n = Inr (s, m)"
    and "length rs \<le> 2 ^ 54"
  shows "okE (\<lambda>(s', log). mset (map fst log) = hmc_held s' + mset (map fst (calls s')))
    (session HMC_WillAcceptTransaction (HMC_AddTransaction cfg) (HMC_ClockTick cfg (Timing cfg)) rs s)"
proof -
  from assms(4) have h: "IsHMC cfg" by (simp add: HMCMemorySystem_def BaseDRAMSystem_def Let_def split: if_splits)
  from HMCMemorySystem_ok [OF assms(1) h assms(2,3), of n] assms(4) have
    "hmc_inv cfg s" "hmc_held s = {#}" "calls s = []" "ds_clk s = 0" by simp_all
  with hmc.session_ok [of cfg s rs] assms(5) show ?thesis
    by (auto simp: case_prod_beta' hmc_answered_def elim!: okE_mono)
qed

theorem hmc_session_conserved_witness:
  "okE (\<lambda>(s', log). mset (map fst log) = hmc_held s' + mset (map fst (calls s')))
    (ex_hmc_session ex_hmc_requests)"
proof -
  obtain s :: hmc_system and n where s: "HMCMemorySystem ex_hmc 0 = Inr (s, n)" by (rule ex_hmc_new)
  from hmc_session_conserved [OF ex_hmc_ok ex_hmc_links(2,3) s ex_hmc_requests_short] show ?thesis by (simp add: ex_hmc_session_def s)
qed

text \<open>C28. The state of the cube, along every session: the table of responses has one entry for each
  request on its way to a vault and for each transaction in a vault; and the two clocks stay in
  step: the vaults are at 800 ps for each cycle, the logic is ahead by less than one cycle.\<close>

theorem hmc_table_and_clocks:
  assumes "ds_cfg_ok cfg" and "links_cfg_ok cfg" and "block_ok cfg" and "HMCMemorySystem cfg n = Inr (s, m)"
    and "length rs \<le> 2 ^ 54"
  shows "okE (\<lambda>(s', _). image_mset fst (mset (resp_lookup_table s')) =
        mset (map mem_operand (concat (link_req_queues s') @ concat (quad_req_queues s'))) + image_mset fst (ds_held s') \<and>
      unat (dram_ps s') = 800 * unat (ds_clk s') \<and> unat (dram_ps s') \<le> unat (logic_ps s') \<and>
      unat (logic_ps s') < unat (dram_ps s') + 800)
    (session HMC_WillAcceptTransaction (HMC_AddTransaction cfg) (HMC_ClockTick cfg (Timing cfg)) rs s)"
proof -
  from assms(4) have h: "IsHMC cfg" by (simp add: HMCMemorySystem_def BaseDRAMSystem_def Let_def split: if_splits)
  from HMCMemorySystem_ok [OF assms(1) h assms(2,3), of n] assms(4) have "hmc_inv cfg s" "ds_clk s = 0" by simp_all
  with hmc.session_ok [of cfg s rs] assms(5) show ?thesis
    by (auto simp: hmc_inv_def cube_inv_def xbar_inv_def clocks_ok_def table_keys_def reqs_on_way_def tok_def
        elim!: okE_mono)
qed

theorem hmc_table_and_clocks_witness:
  "okE (\<lambda>(s', _). unat (logic_ps s') < 800 * unat (ds_clk s') + 800)
    (ex_hmc_session ex_hmc_requests)"
proof -
  obtain s :: hmc_system and n where s: "HMCMemorySystem ex_hmc 0 = Inr (s, n)" by (rule ex_hmc_new)
  from hmc_table_and_clocks [OF ex_hmc_ok ex_hmc_links(2,3) s ex_hmc_requests_short] show ?thesis
    by (auto simp: ex_hmc_session_def s elim!: okE_mono)
qed

text \<open>What the cube promises it does: in every reachable state \<open>AddTransaction\<close> succeeds exactly
  when \<open>WillAcceptTransaction\<close> says so (a queue of some link has room), and then holds the request.\<close>

theorem hmc_accepts_as_promised:
  assumes "hmc_inv cfg s"
  shows "okE (\<lambda>(b, s'). (b \<longleftrightarrow> (\<exists>q \<in> set (link_req_queues s). size_u q < queue_depth s)) \<and>
      hmc_held s' = hmc_held s + (if b then {#a#} else {#}) \<and> calls s' = calls s \<and>
      (\<not> b \<longrightarrow> link_req_queues s' = link_req_queues s)) (HMC_AddTransaction cfg a w s)"
proof -
  let ?A = "hmc_held s + mset (hmc_answered s)"
  from assms have b: "block_ok cfg" and x: "xbar_inv cfg (image_mset fst (ds_held s)) ?A s" and ds: "ds_inv cfg s"
    by (simp_all add: hmc_inv_def cube_inv_def)
  from ds have g: "0 \<le> GetChannel cfg a" "GetChannel cfg a < channels cfg" by (simp_all add: ds_inv_def ds_cfg_ok_def)
  from HMC_AddTransaction_ok [OF x b g, of w] obtain ok s' where
    s': "HMC_AddTransaction cfg a w s = Inr (ok, s')" "HMC_WillAcceptTransaction a w s = Inr ok"
      "inserted cfg (image_mset fst (ds_held s)) ?A a s ok s'" by (auto simp: okE_iff)
  then have k: "xbar_inv cfg (image_mset fst (ds_held s)) (if ok then ?A + {#a#} else ?A) s'" "calls s' = calls s"
    "\<not> ok \<longrightarrow> link_req_queues s' = link_req_queues s" by (simp_all add: inserted_def)
  from k(1,2) have "hmc_held s' = hmc_held s + (if ok then {#a#} else {#})"
    by (simp add: xbar_inv_def hmc_answered_def split: if_splits)
  with k(2,3) s'(2) show ?thesis by (simp add: s'(1) HMC_WillAcceptTransaction_def)
qed

theorem hmc_accepts_as_promised_witness:
  "okE (\<lambda>(s, _). okE (\<lambda>(b, s'). b \<and> hmc_held s' = hmc_held s + {#128#}) (HMC_AddTransaction ex_hmc 128 False s))
    (HMCMemorySystem ex_hmc 0)"
proof -
  obtain s :: hmc_system and n where s: "HMCMemorySystem ex_hmc 0 = Inr (s, n)" "hmc_inv ex_hmc s" by (rule ex_hmc_new)
  have "okE (\<lambda>(s, _). \<exists>q \<in> set (link_req_queues s). size_u q < queue_depth s) (HMCMemorySystem ex_hmc 0)" by code_simp
  with hmc_accepts_as_promised [OF s(2), of 128 False] show ?thesis by (auto simp: s(1) elim!: okE_mono)
qed

text \<open>Arbitration: the order in which the crossbar serves its queues holds the position of every
  queue in which something waits exactly once, and no other position.\<close>

theorem age_queue_complete:
  assumes "0 < length qs" and "length qs < 2 ^ 31" and "length ages = length qs"
    and "\<forall>i < length qs. 0 < ages ! i \<longleftrightarrow> qs ! i \<noteq> []"
  shows "okE (\<lambda>q. distinct q \<and> set q = {p. 0 \<le> p \<and> p < int (length qs) \<and> qs ! nat p \<noteq> []}) (BuildAgeQueue clk ages)"
  using waiting_positions [of ages qs clk] assms by (auto simp: ages_ok_def)

theorem age_queue_complete_witness:
  "okE (\<lambda>q. distinct q \<and> 3 \<in> set q \<and> 1 \<notin> set q) (BuildAgeQueue 3 [2, 0, 0, 1])"
proof -
  let ?qs = "[[0 :: nat], [], [], [5, 7]]" and ?ages = "[2, 0, 0, 1 :: int]"
  have "0 < ?ages ! i \<longleftrightarrow> ?qs ! i \<noteq> []" if "i < 4" for i
  proof -
    from that have "i = 0 \<or> i = 1 \<or> i = 2 \<or> i = 3" by arith
    then show ?thesis by auto
  qed
  then have "okE (\<lambda>q. distinct q \<and> set q = {p. 0 \<le> p \<and> p < int (length ?qs) \<and> ?qs ! nat p \<noteq> []}) (BuildAgeQueue 3 ?ages)"
    by (intro age_queue_complete) simp_all
  then show ?thesis by (rule okE_mono) simp
qed

text \<open>The comment asks for descending ages, but a younger queue may come before an older one.\<close>

lemma age_queue_not_by_age: "BuildAgeQueue 3 [2, 0, 0, 1] = Inr [3, 0]"
  by code_simp

text \<open>A vault that completes a transaction of an address sends back the response of the oldest
  request of this address, whether this was a read or a write: with a read under way to which a
  later write of the address catches up, the write's completion answers the read.\<close>

theorem vault_answers_oldest:
  assumes "mm_entries (resp_lookup_table s) a = r # rs" and "vget (quad_resp_queues s) (rs_quad r) = Inr q"
    and "VaultCallback w a s = Inr s'"
  shows "vget (quad_resp_queues s') (rs_quad r) = Inr (q @ [r]) \<and>
    mm_entries (resp_lookup_table s') = (mm_entries (resp_lookup_table s))(a := rs)"
proof -
  have f: "mm_find (resp_lookup_table s) a = Some r" by (simp add: mm.find_entries assms(1))
  from assms(2) have i: "0 \<le> rs_quad r" "nat (rs_quad r) < length (quad_resp_queues s)"
    by (auto simp: vget_def split: if_splits)
  from assms(2,3) i show ?thesis
    by (auto simp: VaultCallback_def f bindE_eq_Inr vset_def vget_def mm.entries_erase assms(1) split: if_splits)
qed

definition ex_read_resp :: hmc_response where
  "ex_read_resp = \<lparr>resp_id = 64, rs_type = RD_RS, rs_link = 0, rs_quad = 0, rs_flits = 5, rs_exit_time = 0\<rparr>"

definition ex_write_resp :: hmc_response where
  "ex_write_resp = \<lparr>resp_id = 64, rs_type = WR_RS, rs_link = 1, rs_quad = 0, rs_flits = 1, rs_exit_time = 0\<rparr>"

lemma ex_two_requests:
  "okE (\<lambda>(s, _). resp_lookup_table s = [(64, ex_read_resp), (64, ex_write_resp)] \<and>
      quad_resp_queues s = [[], [], [], []] \<and> okE (\<lambda>_. True) (VaultCallback True 64 s))
    (ex_hmc_session [Some (64, False), Some (64, True)])"
  by code_simp

theorem vault_answers_oldest_witness:
  "okE (\<lambda>(s, _). okE (\<lambda>s'. vget (quad_resp_queues s') 0 = Inr [ex_read_resp]) (VaultCallback True 64 s))
    (ex_hmc_session [Some (64, False), Some (64, True)])"
proof -
  from ex_two_requests obtain s log where
    s: "ex_hmc_session [Some (64, False), Some (64, True)] = Inr (s, log)"
      "resp_lookup_table s = [(64, ex_read_resp), (64, ex_write_resp)]" "quad_resp_queues s = [[], [], [], []]"
    and cb: "okE (\<lambda>_. True) (VaultCallback True 64 s)" by (auto simp: okE_iff simp del: session.simps)
  from cb obtain s' where s': "VaultCallback True 64 s = Inr s'" by (auto simp: okE_iff)
  have "mm_entries (resp_lookup_table s) 64 = [ex_read_resp, ex_write_resp]" by (simp add: s(2) mm_entries_def)
  moreover have "vget (quad_resp_queues s) (rs_quad ex_read_resp) = Inr []" by (simp add: s(3) vget_def ex_read_resp_def)
  ultimately have "vget (quad_resp_queues s') (rs_quad ex_read_resp) = Inr ([] @ [ex_read_resp])"
    using vault_answers_oldest [OF _ _ s'] by blast
  then show ?thesis by (simp add: s(1) s' ex_read_resp_def)
qed

end
