(* ===== verification/MemorySystem.thy ===== *)
theory MemorySystem
  imports HMC_Properties
begin

text \<open>
  \<open>memory_system.h\<close> and \<open>memory_system.cc\<close>: the interface for a processor, which owns the configuration
  and one of the two kinds of systems. The dispatch by the virtual functions is a case
  distinction. It keeps the contract of a memory, because both kinds do.
\<close>

datatype dram_ptr = Jedec dram_system | Cube hmc_system

record memory_system =
  ms_config :: config
  ms_dram :: dram_ptr

definition MemorySystem :: "ini_reader \<Rightarrow> config \<Rightarrow> int \<Rightarrow> (memory_system \<times> int) result" where
  "MemorySystem rd c0 total_channels = bindE (Config rd c0) (\<lambda>cfg.
     if IsHMC cfg
     then bindE (HMCMemorySystem cfg total_channels) (\<lambda>(s, n). Inr (\<lparr>ms_config = cfg, ms_dram = Cube s\<rparr>, n))
     else bindE (JedecDRAMSystem cfg total_channels) (\<lambda>(s, n). Inr (\<lparr>ms_config = cfg, ms_dram = Jedec s\<rparr>, n)))"

definition ms_ClockTick :: "memory_system \<Rightarrow> memory_system result" where
  "ms_ClockTick m = (let cfg = ms_config m in case ms_dram m of
     Jedec s \<Rightarrow> bindE (Jedec_ClockTick cfg (Timing cfg) s) (\<lambda>s'. Inr (m\<lparr>ms_dram := Jedec s'\<rparr>))
   | Cube s \<Rightarrow> bindE (HMC_ClockTick cfg (Timing cfg) s) (\<lambda>s'. Inr (m\<lparr>ms_dram := Cube s'\<rparr>)))"

definition ms_WillAcceptTransaction :: "u64 \<Rightarrow> bool \<Rightarrow> memory_system \<Rightarrow> bool result" where
  "ms_WillAcceptTransaction a w m = (case ms_dram m of
     Jedec s \<Rightarrow> Jedec_WillAcceptTransaction (ms_config m) a w s
   | Cube s \<Rightarrow> HMC_WillAcceptTransaction a w s)"

definition ms_AddTransaction :: "u64 \<Rightarrow> bool \<Rightarrow> memory_system \<Rightarrow> (bool \<times> memory_system) result" where
  "ms_AddTransaction a w m = (case ms_dram m of
     Jedec s \<Rightarrow> bindE (Jedec_AddTransaction (ms_config m) a w s) (\<lambda>(b, s'). Inr (b, m\<lparr>ms_dram := Jedec s'\<rparr>))
   | Cube s \<Rightarrow> bindE (HMC_AddTransaction (ms_config m) a w s) (\<lambda>(b, s'). Inr (b, m\<lparr>ms_dram := Cube s'\<rparr>)))"

definition ms_PrintStats :: "memory_system \<Rightarrow> memory_system result" where
  "ms_PrintStats m = (case ms_dram m of
     Jedec s \<Rightarrow> bindE (ds_PrintStats s) (\<lambda>s'. Inr (m\<lparr>ms_dram := Jedec s'\<rparr>))
   | Cube s \<Rightarrow> bindE (ds_PrintStats s) (\<lambda>s'. Inr (m\<lparr>ms_dram := Cube s'\<rparr>)))"

definition ms_stats_mo :: "memory_system \<Rightarrow> memory_system" where
  "ms_stats_mo m = m\<lparr>ms_dram := (case ms_dram m of Jedec s \<Rightarrow> Jedec (stats_mo s) | Cube s \<Rightarrow> Cube (stats_mo s))\<rparr>"

definition ms_ResetStats :: "memory_system \<Rightarrow> memory_system" where
  "ms_ResetStats m = m\<lparr>ms_dram := (case ms_dram m of Jedec s \<Rightarrow> Jedec (ds_ResetStats s) | Cube s \<Rightarrow> Cube (ds_ResetStats s))\<rparr>"

text \<open>The getters.\<close>

definition GetChannelMask :: "memory_system \<Rightarrow> u64" where "GetChannelMask m = ch_mask (ms_config m)"
definition GetRankMask :: "memory_system \<Rightarrow> u64" where "GetRankMask m = ra_mask (ms_config m)"
definition GetBankMask :: "memory_system \<Rightarrow> u64" where "GetBankMask m = ba_mask (ms_config m)"
definition GetRowMask :: "memory_system \<Rightarrow> u64" where "GetRowMask m = ro_mask (ms_config m)"
definition GetBusBits :: "memory_system \<Rightarrow> int" where "GetBusBits m = bus_width (ms_config m)"
definition GetBurstLength :: "memory_system \<Rightarrow> int" where "GetBurstLength m = BL (ms_config m)"
definition GetQueueSize :: "memory_system \<Rightarrow> int" where "GetQueueSize m = trans_queue_size (ms_config m)"

section \<open>The contract of a memory\<close>

definition ms_inv :: "memory_system \<Rightarrow> bool" where
  "ms_inv m \<longleftrightarrow> (case ms_dram m of Jedec s \<Rightarrow> ds_inv (ms_config m) s | Cube s \<Rightarrow> hmc_inv (ms_config m) s)"

definition ms_time :: "memory_system \<Rightarrow> nat" where
  "ms_time m = (case ms_dram m of Jedec s \<Rightarrow> unat (ds_clk s) | Cube s \<Rightarrow> unat (ds_clk s))"

text \<open>The addresses the memory holds, and those it answered, in order.\<close>

definition ms_held :: "memory_system \<Rightarrow> u64 multiset" where
  "ms_held m = (case ms_dram m of Jedec s \<Rightarrow> image_mset fst (ds_held s) | Cube s \<Rightarrow> hmc_held s)"

definition ms_answered :: "memory_system \<Rightarrow> u64 list" where
  "ms_answered m = (case ms_dram m of Jedec s \<Rightarrow> map fst (calls s) | Cube s \<Rightarrow> map fst (calls s))"

lemmas ms_abs = ms_inv_def ms_time_def ms_held_def ms_answered_def

interpretation ms: memory_port ms_inv ms_WillAcceptTransaction ms_AddTransaction ms_ClockTick ms_time
  "\<lambda>a _. a" ms_held ms_answered "2 ^ 54"
proof
  fix m a w
  assume inv: "ms_inv m"
  let ?cfg = "ms_config m"
  show "okE (\<lambda>_. True) (ms_WillAcceptTransaction a w m)"
    using inv jedec.accepts_ok [of ?cfg] hmc.accepts_ok [of ?cfg]
    by (cases "ms_dram m") (simp_all add: ms_inv_def ms_WillAcceptTransaction_def)
  show "okE (\<lambda>(b, m'). b \<and> ms_inv m' \<and> ms_time m' = ms_time m \<and> ms_held m' = ms_held m + {#a#} \<and>
      ms_answered m' = ms_answered m) (ms_AddTransaction a w m)"
    if acc: "ms_WillAcceptTransaction a w m = Inr True"
  proof (cases "ms_dram m")
    case (Jedec s)
    with inv acc jedec.add_ok [of ?cfg s a w] show ?thesis
      by (auto simp: ms_abs ms_WillAcceptTransaction_def ms_AddTransaction_def okE_iff)
  next
    case (Cube s)
    with inv acc hmc.add_ok [of ?cfg s a w] show ?thesis
      by (auto simp: ms_abs ms_WillAcceptTransaction_def ms_AddTransaction_def okE_iff hmc_answered_def)
  qed
  show "okE (\<lambda>m'. ms_inv m' \<and> ms_time m' = ms_time m + 1 \<and>
      (\<exists>new. ms_answered m' = ms_answered m @ new \<and> ms_held m = ms_held m' + mset new)) (ms_ClockTick m)"
    if now: "ms_time m < 2 ^ 54"
  proof (cases "ms_dram m")
    case (Jedec s)
    with inv now jedec.tick_ok [of ?cfg s] obtain s' new where t: "Jedec_ClockTick ?cfg (Timing ?cfg) s = Inr s'"
      "ds_inv ?cfg s'" "unat (ds_clk s') = unat (ds_clk s) + 1" "calls s' = calls s @ new"
      "ds_held s = ds_held s' + mset new" by (auto simp: ms_abs okE_iff)
    then show ?thesis by (auto simp: ms_ClockTick_def Let_def Jedec ms_abs intro!: exI [of _ "map fst new"])
  next
    case (Cube s)
    with inv now hmc.tick_ok [of ?cfg s] show ?thesis
      by (auto simp: ms_ClockTick_def Let_def ms_abs hmc_answered_def okE_iff)
  qed
qed

text \<open>The configurations for which the constructor gives such a memory.\<close>

definition ms_cfg_ok :: "config \<Rightarrow> bool" where
  "ms_cfg_ok cfg \<longleftrightarrow> ds_cfg_ok cfg \<and> (IsHMC cfg \<longrightarrow> links_cfg_ok cfg \<and> block_ok cfg)"

lemma MemorySystem_ok:
  assumes "Config rd c0 = Inr cfg" and "ms_cfg_ok cfg"
  shows "okE (\<lambda>(m, _). ms_inv m \<and> ms_held m = {#} \<and> ms_answered m = [] \<and> ms_time m = 0) (MemorySystem rd c0 n)"
proof (cases "IsHMC cfg")
  case True
  with assms HMCMemorySystem_ok [of cfg n] show ?thesis
    by (auto simp: MemorySystem_def ms_cfg_ok_def ms_abs okE_iff)
next
  case False
  with assms JedecDRAMSystem_ok [of cfg n] show ?thesis
    by (auto simp: MemorySystem_def ms_cfg_ok_def ms_abs okE_iff)
qed

end
