(* ===== verification/Random_Engine.thy ===== *)
theory Random_Engine
  imports Prelude
begin

text \<open>
  \<open>std::mt19937_64\<close>, as the C++ standard defines it: the state is the last 312 words of a sequence,
  from which each call computes the next word and returns it tempered. The traffic generators
  draw their addresses from an engine with the default seed.
\<close>

unbundle bit_operations_syntax

type_synonym engine = "u64 list"

definition mt_twist :: "u64 \<Rightarrow> u64 \<Rightarrow> u64 \<Rightarrow> u64" where
  "mt_twist x0 x1 xm = (let y = (x0 AND 0xFFFFFFFF80000000) OR (x1 AND 0x7FFFFFFF)
     in xm XOR drop_bit 1 y XOR (if y AND 1 = 1 then 0xB5026F5AA96619E9 else 0))"

definition mt_temper :: "u64 \<Rightarrow> u64" where
  "mt_temper x =
     (let z1 = x XOR (drop_bit 29 x AND 0x5555555555555555);
          z2 = z1 XOR (push_bit 17 z1 AND 0x71D67FFFEDA60000);
          z3 = z2 XOR (push_bit 37 z2 AND 0xFFF7EEE000000000)
      in z3 XOR drop_bit 43 z3)"

definition mt19937_64 :: "engine \<Rightarrow> u64 \<times> engine" where
  "mt19937_64 xs = (let x = mt_twist (xs ! 0) (xs ! 1) (xs ! 156) in (mt_temper x, tl xs @ [x]))"

fun mt_seed_loop :: "nat \<Rightarrow> u64 \<Rightarrow> u64 \<Rightarrow> engine" where
  "mt_seed_loop 0 i x = []"
| "mt_seed_loop (Suc n) i x =
     x # mt_seed_loop n (i + 1) (6364136223846793005 * (x XOR drop_bit 62 x) + i)"

definition mt_default :: engine where
  "mt_default = mt_seed_loop 312 1 5489"

text \<open>The engine always has its 312 words.\<close>

lemma length_mt_seed: "length (mt_seed_loop n i x) = n"
  by (induction n arbitrary: i x) auto

lemma length_mt_default: "length mt_default = 312"
  unfolding mt_default_def by (rule length_mt_seed)

lemma length_mt19937_64: "length xs = 312 \<Longrightarrow> length (snd (mt19937_64 xs)) = 312"
  by (simp add: mt19937_64_def Let_def)

text \<open>The first number of the default engine, as implementations of the standard give it.\<close>

lemma mt_first: "fst (mt19937_64 mt_default) = 14514284786278117030"
  by code_simp

end
