(* ===== verification/CPU.thy ===== *)
theory CPU
  imports MemorySystem Trace Random_Engine
begin

text \<open>
  \<open>cpu.h\<close>, \<open>cpu.cc\<close> and the loop of \<open>main.cc\<close>: the three traffic generators. The random
  numbers come from \<open>Random_Engine\<close>. The callbacks of a \<open>CPU\<close> do nothing. Members without an initialiser are arguments of the
  constructors.
\<close>

record cpu =
  memory_system :: memory_system
  cpu_clk :: u64

section \<open>Random traffic\<close>

record random_cpu = cpu +
  last_addr :: u64
  last_write :: bool
  rnd :: engine
  rnd_get_next :: bool

definition RandomCPU :: "u64 \<Rightarrow> memory_system \<Rightarrow> random_cpu" where
  "RandomCPU u m = \<lparr>memory_system = m, cpu_clk = 0, last_addr = u, last_write = False, rnd = mt_default, rnd_get_next = True\<rparr>"

text \<open>The next request: an address, and a write for one number in three.\<close>

definition next_request :: "engine \<Rightarrow> (u64 \<times> bool) \<times> engine" where
  "next_request g = (let (a, g1) = mt19937_64 g; (r, g2) = mt19937_64 g1 in ((a, r mod 3 = 0), g2))"

definition RandomCPU_ClockTick :: "random_cpu \<Rightarrow> random_cpu result" where
  "RandomCPU_ClockTick c =
     bindE (ms_ClockTick (memory_system c)) (\<lambda>m.
     let c1 = (if rnd_get_next c
               then (let ((a, w), g) = next_request (rnd c) in c\<lparr>last_addr := a, last_write := w, rnd := g\<rparr>)
               else c) in
     bindE (offer ms_WillAcceptTransaction ms_AddTransaction (last_addr c1) (last_write c1) m) (\<lambda>(ok, m').
       Inr (c1\<lparr>memory_system := m', rnd_get_next := ok, cpu_clk := cpu_clk c + 1\<rparr>)))"

section \<open>Streams\<close>

record stream_cpu = cpu +
  addr_a :: u64
  addr_b :: u64
  addr_c :: u64
  offset :: u64
  str_gen :: engine
  inserted_a :: bool
  inserted_b :: bool
  inserted_c :: bool

definition StreamCPU :: "u64 \<Rightarrow> memory_system \<Rightarrow> stream_cpu" where
  "StreamCPU u m = \<lparr>memory_system = m, cpu_clk = 0, addr_a = u, addr_b = u, addr_c = u, offset = 0, str_gen = mt_default,
     inserted_a = False, inserted_b = False, inserted_c = False\<rparr>"

definition array_size :: u64 where "array_size = 2097152"

definition stride :: u64 where "stride = 64"

text \<open>\<open>if (!inserted && WillAcceptTransaction) { AddTransaction; inserted = true; }\<close>.\<close>

definition insert_once :: "bool \<Rightarrow> u64 \<Rightarrow> bool \<Rightarrow> memory_system \<Rightarrow> (bool \<times> memory_system) result" where
  "insert_once done a w m =
     (if done then Inr (True, m) else offer ms_WillAcceptTransaction ms_AddTransaction a w m)"

definition next_arrays :: "stream_cpu \<Rightarrow> stream_cpu" where
  "next_arrays c =
     (if offset c \<ge> array_size \<or> cpu_clk c = 0
      then (let (a, g1) = mt19937_64 (str_gen c); (b, g2) = mt19937_64 g1; (d, g3) = mt19937_64 g2
            in c\<lparr>addr_a := a, addr_b := b, addr_c := d, str_gen := g3, offset := 0\<rparr>)
      else c)"

definition next_element :: "stream_cpu \<Rightarrow> stream_cpu" where
  "next_element c =
     (if inserted_a c \<and> inserted_b c \<and> inserted_c c
      then c\<lparr>offset := offset c + stride, inserted_a := False, inserted_b := False, inserted_c := False\<rparr>
      else c)"

definition StreamCPU_ClockTick :: "stream_cpu \<Rightarrow> stream_cpu result" where
  "StreamCPU_ClockTick c0 =
     bindE (ms_ClockTick (memory_system c0)) (\<lambda>m. let c = next_arrays c0 in
     bindE (insert_once (inserted_a c) (addr_a c + offset c) False m) (\<lambda>(ia, m1).
     bindE (insert_once (inserted_b c) (addr_b c + offset c) False m1) (\<lambda>(ib, m2).
     bindE (insert_once (inserted_c c) (addr_c c + offset c) True m2) (\<lambda>(ic, m3).
       Inr (next_element (c\<lparr>memory_system := m3, inserted_a := ia, inserted_b := ib, inserted_c := ic,
                            cpu_clk := cpu_clk c0 + 1\<rparr>))))))"

section \<open>Traces\<close>

record trace_cpu = cpu +
  trace_file :: istream
  tr_trans :: transaction
  tr_get_next :: bool

text \<open>The file as its contents, \<open>None\<close> when it cannot be opened.\<close>

definition TraceBasedCPU :: "transaction \<Rightarrow> memory_system \<Rightarrow> string option \<Rightarrow> trace_cpu result" where
  "TraceBasedCPU u m file = (case file of
     None \<Rightarrow> Inl (AbruptExit ''cpu.cc'' 69)
   | Some cs \<Rightarrow> Inr \<lparr>memory_system = m, cpu_clk = 0,
       trace_file = \<lparr>in_chars = cs, eofbit = False, failbit = False\<rparr>, tr_trans = u, tr_get_next = True\<rparr>)"

definition next_trans :: "trace_cpu \<Rightarrow> trace_cpu" where
  "next_trans c = (if tr_get_next c
     then (let (s, t) = read_transaction (trace_file c) (tr_trans c)
           in c\<lparr>tr_get_next := False, trace_file := s, tr_trans := t\<rparr>)
     else c)"

definition TraceBasedCPU_ClockTick :: "trace_cpu \<Rightarrow> trace_cpu result" where
  "TraceBasedCPU_ClockTick c0 =
     bindE (ms_ClockTick (memory_system c0)) (\<lambda>m.
     if \<not> eofbit (trace_file c0) then
       let c = next_trans c0; t = tr_trans c in
       if added_cycle t \<le> cpu_clk c0 then
         bindE (offer ms_WillAcceptTransaction ms_AddTransaction (t_addr t) (is_write t) m) (\<lambda>(ok, m').
           Inr (c\<lparr>memory_system := m', tr_get_next := ok, cpu_clk := cpu_clk c0 + 1\<rparr>))
       else Inr (c\<lparr>memory_system := m, cpu_clk := cpu_clk c0 + 1\<rparr>)
     else Inr (c0\<lparr>memory_system := m, cpu_clk := cpu_clk c0 + 1\<rparr>))"

section \<open>The main loop\<close>

text \<open>\<open>for (clk = 0; clk < cycles; clk++) cpu->ClockTick();\<close>\<close>

fun run_cycles :: "('c \<Rightarrow> 'c result) \<Rightarrow> nat \<Rightarrow> 'c \<Rightarrow> 'c result" where
  "run_cycles tick 0 c = Inr c"
| "run_cycles tick (Suc n) c = bindE (tick c) (run_cycles tick n)"

definition simulate :: "('a cpu_scheme \<Rightarrow> 'a cpu_scheme result) \<Rightarrow> u64 \<Rightarrow> 'a cpu_scheme \<Rightarrow> 'a cpu_scheme result" where
  "simulate tick cycles c = bindE (run_cycles tick (unat cycles) c) (\<lambda>c'.
     bindE (ms_PrintStats (memory_system c')) (\<lambda>m. Inr (c'\<lparr>memory_system := m\<rparr>)))"

lemma run_cycles_rule:
  assumes "I 0 c" and "\<And>k c. k < n \<Longrightarrow> I k c \<Longrightarrow> okE (I (Suc k)) (tick c)"
  shows "okE (I n) (run_cycles tick n c)"
proof -
  have "okE (I (k + m)) (run_cycles tick m c)" if "I k c" and "k + m \<le> n" for k m c
    using that
  proof (induction m arbitrary: k c)
    case (Suc m)
    from assms(2) [OF _ Suc.prems(1)] Suc.prems(2) obtain c' where "tick c = Inr c'" "I (Suc k) c'" by (auto simp: okE_iff)
    with Suc.IH [of "Suc k" c'] Suc.prems(2) show ?case by simp
  qed simp
  from this [OF assms(1), of n] show ?thesis by simp
qed

section \<open>What is inserted\<close>

text \<open>The requests that a source of requests produces, in order.\<close>

fun draws :: "('g \<Rightarrow> 'r \<times> 'g) \<Rightarrow> nat \<Rightarrow> 'g \<Rightarrow> 'r list \<times> 'g" where
  "draws source 0 g = ([], g)"
| "draws source (Suc n) g = (let (rs, g1) = draws source n g; (r, g2) = source g1 in (rs @ [r], g2))"

definition traffic :: "memory_system \<Rightarrow> u64 multiset" where
  "traffic m = ms_held m + mset (ms_answered m)"

lemma ms_tick_traffic:
  assumes "ms_inv m" and "ms_time m < 2 ^ 54"
  shows "okE (\<lambda>m'. ms_inv m' \<and> ms_time m' = ms_time m + 1 \<and> traffic m' = traffic m) (ms_ClockTick m)"
  using ms.tick_balance [OF assms refl] by (simp add: traffic_def)

lemma ms_offer_traffic:
  assumes "ms_inv m"
  shows "okE (\<lambda>(ok, m'). ms_inv m' \<and> ms_time m' = ms_time m \<and> traffic m' = traffic m + (if ok then {#a#} else {#}))
    (offer ms_WillAcceptTransaction ms_AddTransaction a w m)"
  using ms.offer_balance [OF assms refl] by (simp add: traffic_def)

text \<open>A generator that has drawn \<open>k\<close> requests and inserted all of them but the last one, when this
  still waits.\<close>

definition drawn :: "('g \<Rightarrow> (u64 \<times> bool) \<times> 'g) \<Rightarrow> 'g \<Rightarrow> nat \<Rightarrow> bool \<Rightarrow> u64 \<times> bool \<Rightarrow> 'g \<Rightarrow> memory_system \<Rightarrow> bool" where
  "drawn source g0 n get_next r g m \<longleftrightarrow> ms_inv m \<and> ms_time m = n \<and> (\<exists>k rs g1. k \<le> n \<and>
     draws source k g0 = (rs, g1) \<and> traffic m = mset (map fst rs) \<and> (if get_next then g = g1 else source g1 = (r, g)))"

lemma drawn_offer:
  assumes d: "drawn source g0 n get_next r g m" and n: "n < 2 ^ 54" and t: "ms_ClockTick m = Inr m1"
    and r': "(r', g') = (if get_next then source g else (r, g))"
    and o: "offer ms_WillAcceptTransaction ms_AddTransaction (fst r') (snd r') m1 = Inr (ok, m2)"
  shows "drawn source g0 (Suc n) ok r' g' m2"
proof -
  from d obtain k rs g1 where k: "ms_inv m" "ms_time m = n" "k \<le> n" "draws source k g0 = (rs, g1)"
    "traffic m = mset (map fst rs)" "if get_next then g = g1 else source g1 = (r, g)" by (auto simp: drawn_def)
  from ms_tick_traffic [OF k(1)] k(2) n t have m1: "ms_inv m1" "ms_time m1 = Suc n" "traffic m1 = traffic m" by simp_all
  from ms_offer_traffic [OF m1(1), of "fst r'" "snd r'"] o m1(2,3) have
    m2: "ms_inv m2" "ms_time m2 = Suc n" "traffic m2 = traffic m + (if ok then {#fst r'#} else {#})" by simp_all
  have s: "source g1 = (r', g')" using r' k(6) by (simp split: if_splits)
  show ?thesis
  proof (cases ok)
    case True
    have "draws source (Suc k) g0 = (rs @ [r'], g')" by (simp add: k(4) s)
    moreover have "traffic m2 = mset (map fst (rs @ [r']))" by (simp add: m2(3) k(5) True)
    ultimately show ?thesis using m2(1,2) k(3) True
      unfolding drawn_def by (intro conjI exI [of _ "Suc k"] exI [of _ "rs @ [r']"] exI [of _ g']) simp_all
  next
    case False
    then show ?thesis using m2 k(3,4,5) s
      unfolding drawn_def by (intro conjI exI [of _ k] exI [of _ rs] exI [of _ g1]) simp_all
  qed
qed

lemma drawn_offer_ok:
  assumes "ms_inv m" and "ms_time m < 2 ^ 54"
  shows "\<exists>m1 ok m2. ms_ClockTick m = Inr m1 \<and> offer ms_WillAcceptTransaction ms_AddTransaction a w m1 = Inr (ok, m2)"
proof -
  from ms_tick_traffic [OF assms] obtain m1 where "ms_ClockTick m = Inr m1" "ms_inv m1" by (auto simp: okE_iff)
  with ms_offer_traffic [of m1 a w] show ?thesis by (auto simp: okE_iff)
qed

lemma RandomCPU_tick_ok:
  assumes "drawn (next_request) g0 n (rnd_get_next c) (last_addr c, last_write c) (rnd c) (memory_system c)"
    and "n < 2 ^ 54"
  shows "okE (\<lambda>c. drawn (next_request) g0 (Suc n) (rnd_get_next c) (last_addr c, last_write c) (rnd c)
    (memory_system c)) (RandomCPU_ClockTick c)"
proof -
  obtain a w g where r: "((a, w), g) = (if rnd_get_next c then next_request (rnd c) else ((last_addr c, last_write c), rnd c))"
    by (metis surj_pair)
  from assms(1) have i: "ms_inv (memory_system c)" "ms_time (memory_system c) = n" by (simp_all add: drawn_def)
  from drawn_offer_ok [OF i(1), of a w] i(2) assms(2) obtain m1 ok m2 where
    t: "ms_ClockTick (memory_system c) = Inr m1" "offer ms_WillAcceptTransaction ms_AddTransaction a w m1 = Inr (ok, m2)" by auto
  have "drawn (next_request) g0 (Suc n) ok (a, w) g m2"
    by (rule drawn_offer [OF assms t(1) r]) (simp add: t(2))
  then show ?thesis
    using r t(2) by (cases "rnd_get_next c") (auto simp: RandomCPU_ClockTick_def t(1) split: prod.splits)
qed

text \<open>The requests of a trace: what \<open>operator>>\<close> makes of the stream, line by line.\<close>

definition trace_request :: "istream \<times> transaction \<Rightarrow> (u64 \<times> bool) \<times> (istream \<times> transaction)" where
  "trace_request = (\<lambda>(s, t). let (s', t') = read_transaction s t in ((t_addr t', is_write t'), (s', t')))"

definition trace_inv :: "istream \<times> transaction \<Rightarrow> nat \<Rightarrow> trace_cpu \<Rightarrow> bool" where
  "trace_inv g0 n c \<longleftrightarrow> drawn trace_request g0 n (tr_get_next c) (t_addr (tr_trans c), is_write (tr_trans c))
     (trace_file c, tr_trans c) (memory_system c)"

lemma drawn_tick:
  assumes "drawn source g0 n get_next r g m" and "n < 2 ^ 54"
  shows "okE (drawn source g0 (Suc n) get_next r g) (ms_ClockTick m)"
proof -
  from assms have "ms_inv m" "ms_time m < 2 ^ 54" by (simp_all add: drawn_def)
  from ms_tick_traffic [OF this] obtain m' where m': "ms_ClockTick m = Inr m'" "ms_inv m'" "ms_time m' = ms_time m + 1"
    "traffic m' = traffic m" by (auto simp: okE_iff)
  from assms(1) obtain k rs g1 where k: "ms_time m = n" "k \<le> n" "draws source k g0 = (rs, g1)"
    "traffic m = mset (map fst rs)" "if get_next then g = g1 else source g1 = (r, g)" by (auto simp: drawn_def)
  have "drawn source g0 (Suc n) get_next r g m'"
    unfolding drawn_def using m' k by (intro conjI exI [of _ k] exI [of _ rs] exI [of _ g1]) simp_all
  then show ?thesis by (simp add: m'(1))
qed

lemma drawn_take:
  assumes "drawn source g0 n get_next r g m" and "(r', g') = (if get_next then source g else (r, g))"
  shows "drawn source g0 n False r' g' m"
  using assms by (auto simp: drawn_def split: if_splits)

lemma TraceBasedCPU_tick_ok:
  assumes "trace_inv g0 n c" and n: "n < 2 ^ 54"
  shows "okE (trace_inv g0 (Suc n)) (TraceBasedCPU_ClockTick c)"
proof (cases "eofbit (trace_file c)")
  case True
  with drawn_tick [OF assms(1) [unfolded trace_inv_def] n] show ?thesis
    by (auto simp: TraceBasedCPU_ClockTick_def trace_inv_def okE_iff)
next
  case False
  let ?r = "(t_addr (tr_trans c), is_write (tr_trans c))" and ?g = "(trace_file c, tr_trans c)"
  let ?c = "next_trans c"
  let ?t = "tr_trans ?c" and ?s = "trace_file ?c"
  have d: "drawn trace_request g0 n (tr_get_next c) ?r ?g (memory_system c)" using assms(1) by (simp add: trace_inv_def)
  have r: "((t_addr ?t, is_write ?t), ?s, ?t) = (if tr_get_next c then trace_request ?g else (?r, ?g))"
    by (simp add: next_trans_def trace_request_def split: prod.splits)
  have f: "\<not> tr_get_next ?c" by (simp add: next_trans_def split: prod.splits)
  from d have i: "ms_inv (memory_system c)" "ms_time (memory_system c) = n" by (simp_all add: drawn_def)
  from drawn_offer_ok [OF i(1), of "t_addr ?t" "is_write ?t"] i(2) n obtain m1 ok m2 where
    t: "ms_ClockTick (memory_system c) = Inr m1"
      "offer ms_WillAcceptTransaction ms_AddTransaction (t_addr ?t) (is_write ?t) m1 = Inr (ok, m2)" by auto
  show ?thesis
  proof (cases "added_cycle ?t \<le> cpu_clk c")
    case True
    have "drawn trace_request g0 (Suc n) ok (t_addr ?t, is_write ?t) (?s, ?t) m2"
      by (rule drawn_offer [OF d n t(1) r]) (simp add: t(2))
    then show ?thesis using False True by (simp add: TraceBasedCPU_ClockTick_def t Let_def trace_inv_def)
  next
    case later: False
    from drawn_tick [OF drawn_take [OF d r] n] t(1) have
      "drawn trace_request g0 (Suc n) False (t_addr ?t, is_write ?t) (?s, ?t) m1" by simp
    then show ?thesis using False later f by (simp add: TraceBasedCPU_ClockTick_def t(1) Let_def trace_inv_def)
  qed
qed

text \<open>An element of the stream is its two sources, its target and the offset in their arrays.\<close>

type_synonym element = "u64 \<times> u64 \<times> u64 \<times> u64"

definition element :: "stream_cpu \<Rightarrow> element" where
  "element c = (addr_a c, addr_b c, addr_c c, offset c)"

fun addresses :: "element \<Rightarrow> u64 list" where
  "addresses (a, b, c, i) = [a + i, b + i, c + i]"

fun advance :: "element \<Rightarrow> element" where
  "advance (a, b, c, i) = (a, b, c, i + stride)"

fun at_end :: "element \<Rightarrow> bool" where
  "at_end (a, b, c, i) \<longleftrightarrow> i \<ge> array_size"

text \<open>The stream as a source: the position in the arrays and the engine. The next element is the one at the
  position, or, past the end of the arrays, the first one of three new arrays, whose addresses are the next
  numbers of the engine. At the start there are no arrays.\<close>

definition new_arrays :: "engine \<Rightarrow> element \<times> engine" where
  "new_arrays g = (let (a, g1) = mt19937_64 g; (b, g2) = mt19937_64 g1; (d, g3) = mt19937_64 g2
     in ((a, b, d, 0), g3))"

definition stream_source :: "element \<times> engine \<Rightarrow> element \<times> (element \<times> engine)" where
  "stream_source = (\<lambda>(e, g). let (e', g') = (if at_end e then new_arrays g else (e, g)) in (e', (advance e', g')))"

definition stream_start :: "element \<times> engine" where
  "stream_start = ((0, 0, 0, array_size), mt_default)"

lemma new_arrays_offset: "new_arrays g = ((a, b, d, i), g') \<Longrightarrow> i = 0"
  by (auto simp: new_arrays_def split: prod.splits)

lemma source_not_at_end: "stream_source s = (e, s') \<Longrightarrow> \<not> at_end e"
  by (cases e) (auto simp: stream_source_def array_size_def dest!: new_arrays_offset split: prod.splits if_splits)

definition part :: "bool \<Rightarrow> u64 \<Rightarrow> u64 multiset" where
  "part b a = (if b then {#a#} else {#})"

definition parts :: "stream_cpu \<Rightarrow> u64 multiset" where
  "parts c = part (inserted_a c) (addr_a c + offset c) + part (inserted_b c) (addr_b c + offset c) +
     part (inserted_c c) (addr_c c + offset c)"

text \<open>A generator that has inserted \<open>k\<close> elements of the source and some addresses of the next one. Its fields
  are those of the element it is at, or they still have to be fetched.\<close>

definition stream_at :: "element \<times> engine \<Rightarrow> stream_cpu \<Rightarrow> bool" where
  "stream_at s c \<longleftrightarrow> stream_source s = (element c, (advance (element c), str_gen c))"

definition stream_inv :: "nat \<Rightarrow> stream_cpu \<Rightarrow> bool" where
  "stream_inv n c \<longleftrightarrow> ms_inv (memory_system c) \<and> ms_time (memory_system c) = n \<and> cpu_clk c = of_nat n \<and>
     (\<exists>k L s. k \<le> n \<and> draws stream_source k stream_start = (L, s) \<and>
        traffic (memory_system c) = mset (concat (map addresses L)) + parts c \<and>
        (n \<noteq> 0 \<and> stream_at s c \<or>
         parts c = {#} \<and> \<not> inserted_a c \<and> \<not> inserted_b c \<and> \<not> inserted_c c \<and> str_gen c = snd s \<and>
         (if n = 0 then s = stream_start else fst s = element c)))"

lemma insert_once_ok:
  assumes "ms_inv m"
  shows "okE (\<lambda>(ok, m'). ms_inv m' \<and> ms_time m' = ms_time m \<and> traffic m' + part b a = traffic m + part ok a)
    (insert_once b a w m)"
  using ms_offer_traffic [OF assms, of a w] assms
  by (cases b) (auto simp: insert_once_def part_def elim!: okE_mono)

lemma next_arrays_eq:
  "next_arrays c = (if offset c \<ge> array_size \<or> cpu_clk c = 0
     then (let ((a, b, d, i), g) = new_arrays (str_gen c)
           in c\<lparr>addr_a := a, addr_b := b, addr_c := d, str_gen := g, offset := i\<rparr>) else c)"
  by (simp add: next_arrays_def new_arrays_def split: prod.splits)

lemma next_arrays_inserted [simp]: "inserted_a (next_arrays c) = inserted_a c"
  "inserted_b (next_arrays c) = inserted_b c" "inserted_c (next_arrays c) = inserted_c c"
  by (simp_all add: next_arrays_eq split: prod.splits)

lemma next_arrays_new:
  assumes "at_end (element c) \<or> cpu_clk c = 0" and "at_end (fst s)" and "str_gen c = snd s"
  shows "stream_at s (next_arrays c)"
  using assms by (cases s) (auto simp: stream_at_def stream_source_def next_arrays_eq element_def split: prod.splits)

lemma next_arrays_inv:
  assumes "stream_inv n c" and "n < 2 ^ 54"
  shows "\<exists>k L s. k \<le> n \<and> draws stream_source k stream_start = (L, s) \<and>
    traffic (memory_system c) = mset (concat (map addresses L)) + parts (next_arrays c) \<and> stream_at s (next_arrays c)"
proof -
  from assms have clk: "cpu_clk c = 0 \<longleftrightarrow> n = 0" by (auto simp: stream_inv_def word_of_nat_eq_0_iff dest: dvd_imp_le)
  obtain k L s where L: "k \<le> n" "draws stream_source k stream_start = (L, s)"
    "traffic (memory_system c) = mset (concat (map addresses L)) + parts c"
    and pos: "n \<noteq> 0 \<and> stream_at s c \<or> parts c = {#} \<and> \<not> inserted_a c \<and> \<not> inserted_b c \<and> \<not> inserted_c c \<and>
       str_gen c = snd s \<and> (if n = 0 then s = stream_start else fst s = element c)" using assms(1) unfolding stream_inv_def by blast
  have "parts (next_arrays c) = parts c \<and> stream_at s (next_arrays c)"
  proof (cases "n \<noteq> 0 \<and> stream_at s c")
    case True
    then have "\<not> at_end (element c)" unfolding stream_at_def by (blast dest: source_not_at_end)
    with True clk have "next_arrays c = c" by (auto simp: next_arrays_def element_def)
    with True show ?thesis by simp
  next
    case False
    with pos have f: "parts c = {#}" "\<not> inserted_a c" "\<not> inserted_b c" "\<not> inserted_c c" "str_gen c = snd s"
      "if n = 0 then s = stream_start else fst s = element c" by blast+
    then have p: "parts (next_arrays c) = parts c" by (simp add: parts_def part_def)
    show ?thesis
    proof (cases "n = 0 \<or> at_end (element c)")
      case True
      with f(6) clk have "at_end (element c) \<or> cpu_clk c = 0" "at_end (fst s)"
        by (auto simp: stream_start_def split: if_splits)
      from next_arrays_new [OF this f(5)] p show ?thesis by simp
    next
      case False
      then have "next_arrays c = c" using clk by (auto simp: next_arrays_def element_def)
      moreover have "stream_at s c" using False f(5,6) by (cases s) (auto simp: stream_at_def stream_source_def)
      ultimately show ?thesis by simp
    qed
  qed
  with L show ?thesis by metis
qed

lemma balance3:
  fixes t :: "'a multiset"
  assumes "t1 + a = t + a'" "t2 + b = t1 + b'" "t3 + c = t2 + c'" "t = T + a + b + c"
  shows "t3 = T + a' + b' + c'"
proof (rule multiset_eqI)
  fix x
  show "count t3 x = count (T + a' + b' + c') x"
    using arg_cong [OF assms(1), of "\<lambda>M. count M x"] arg_cong [OF assms(2), of "\<lambda>M. count M x"]
      arg_cong [OF assms(3), of "\<lambda>M. count M x"] by (simp add: assms(4))
qed

lemma StreamCPU_tick_ok:
  assumes inv: "stream_inv n c" and n: "n < 2 ^ 54"
  shows "okE (stream_inv (Suc n)) (StreamCPU_ClockTick c)"
proof -
  let ?c = "next_arrays c"
  let ?a = "addr_a ?c + offset ?c" and ?b = "addr_b ?c + offset ?c" and ?d = "addr_c ?c + offset ?c"
  from next_arrays_inv [OF assms] obtain k L s where L: "k \<le> n" "draws stream_source k stream_start = (L, s)"
    "traffic (memory_system c) = mset (concat (map addresses L)) +
      part (inserted_a ?c) ?a + part (inserted_b ?c) ?b + part (inserted_c ?c) ?d" "stream_at s ?c"
    by (auto simp: parts_def add.assoc)
  from inv have i: "ms_inv (memory_system c)" "ms_time (memory_system c) = n" "cpu_clk c = of_nat n"
    by (simp_all add: stream_inv_def)
  from ms_tick_traffic [OF i(1)] i(2) n obtain m where m: "ms_ClockTick (memory_system c) = Inr m" "ms_inv m"
    "ms_time m = Suc n" "traffic m = traffic (memory_system c)" by (auto simp: okE_iff)
  from insert_once_ok [OF m(2), of "inserted_a ?c" ?a False] obtain ia m1 where
    m1: "insert_once (inserted_a ?c) ?a False m = Inr (ia, m1)" "ms_inv m1" "ms_time m1 = ms_time m"
      "traffic m1 + part (inserted_a ?c) ?a = traffic m + part ia ?a" by (auto simp: okE_iff)
  from insert_once_ok [OF m1(2), of "inserted_b ?c" ?b False] obtain ib m2 where
    m2: "insert_once (inserted_b ?c) ?b False m1 = Inr (ib, m2)" "ms_inv m2" "ms_time m2 = ms_time m1"
      "traffic m2 + part (inserted_b ?c) ?b = traffic m1 + part ib ?b" by (auto simp: okE_iff)
  from insert_once_ok [OF m2(2), of "inserted_c ?c" ?d True] obtain ic m3 where
    m3: "insert_once (inserted_c ?c) ?d True m2 = Inr (ic, m3)" "ms_inv m3" "ms_time m3 = ms_time m2"
      "traffic m3 + part (inserted_c ?c) ?d = traffic m2 + part ic ?d" by (auto simp: okE_iff)
  let ?t = "?c\<lparr>memory_system := m3, inserted_a := ia, inserted_b := ib, inserted_c := ic, cpu_clk := cpu_clk c + 1\<rparr>"
  have run: "StreamCPU_ClockTick c = Inr (next_element ?t)"
    using m1(1) m2(1) m3(1) by (simp add: StreamCPU_ClockTick_def m(1) Let_def)
  have "traffic m = mset (concat (map addresses L)) + part (inserted_a ?c) ?a + part (inserted_b ?c) ?b + part (inserted_c ?c) ?d"
    by (simp only: m(4) L(3))
  note t = balance3 [OF m1(4) m2(4) m3(4) this]
  have time: "ms_time m3 = Suc n" using m(3) m1(3) m2(3) m3(3) by simp
  show ?thesis
  proof (cases "ia \<and> ib \<and> ic")
    case True
    let ?n = "next_element ?t"
    have e: "?n = ?t\<lparr>offset := offset ?c + stride, inserted_a := False, inserted_b := False, inserted_c := False\<rparr>"
      using True by (simp add: next_element_def)
    have "traffic m3 = mset (concat (map addresses (L @ [element ?c])))" using True by (simp add: t part_def element_def)
    moreover have "draws stream_source (Suc k) stream_start = (L @ [element ?c], (element ?n, str_gen ?n))"
      using L(4) by (simp add: L(2) stream_at_def e element_def)
    moreover have "parts ?n = {#}" by (simp add: e parts_def part_def)
    moreover have "memory_system ?n = m3" "cpu_clk ?n = of_nat (Suc n)" "\<not> inserted_a ?n" "\<not> inserted_b ?n" "\<not> inserted_c ?n"
      unfolding e by (simp_all add: i(3))
    ultimately show ?thesis
      using m3(2) time L(1) unfolding run okE_simps stream_inv_def
      by (intro conjI exI [of _ "Suc k"] exI [of _ "L @ [element ?c]"] exI [of _ "(element ?n, str_gen ?n)"])
        (simp_all del: draws.simps)
  next
    case False
    then have "next_element ?t = ?t" by (auto simp: next_element_def)
    moreover have "stream_at s ?t" using L(4) by (simp add: stream_at_def element_def)
    moreover have "traffic m3 = mset (concat (map addresses L)) + parts ?t" by (simp add: t parts_def)
    ultimately show ?thesis
      using L(1,2) m3(2) time i(3) unfolding run okE_simps stream_inv_def
      by (intro conjI exI [of _ k] exI [of _ L] exI [of _ s]) auto
  qed
qed

end
