(* ===== verification/CPU_Properties.thy ===== *)
theory CPU_Properties
  imports CPU
begin

text \<open>
  The properties of whole simulations: a traffic generator on a memory system, as \<open>main\<close> runs it.
\<close>

section \<open>A simulation\<close>

lemma ms_PrintStats_ok:
  assumes "ms_inv m"
  shows "okE (\<lambda>m'. traffic m' = traffic m) (ms_PrintStats m)"
proof (cases "ms_dram m")
  case (Jedec s)
  with assms have "ds_inv (ms_config m) s" by (simp add: ms_inv_def)
  from ds_stats_ok(2) [OF this] show ?thesis
    by (auto simp: ms_PrintStats_def Jedec traffic_def ms_held_def ms_answered_def elim!: okE_mono)
next
  case (Cube s)
  with assms have "ds_inv (ms_config m) s" by (simp add: ms_inv_def hmc_inv_def cube_inv_def)
  from ds_stats_ok(2) [OF this] show ?thesis
    by (auto simp: ms_PrintStats_def Cube traffic_def ms_held_def ms_answered_def hmc_held_def table_keys_def
        resps_on_way_def elim!: okE_mono)
qed

lemma simulate_rule:
  assumes "I 0 c" and "\<And>k c. k < unat cycles \<Longrightarrow> I k c \<Longrightarrow> okE (I (Suc k)) (tick c)"
    and "\<And>c. I (unat cycles) c \<Longrightarrow> ms_inv (memory_system c) \<and> Q (traffic (memory_system c))"
  shows "okE (\<lambda>c. Q (traffic (memory_system c))) (simulate tick cycles c)"
proof -
  from run_cycles_rule [of I c "unat cycles" tick, OF assms(1,2)] obtain c' where
    c': "run_cycles tick (unat cycles) c = Inr c'" "I (unat cycles) c'" by (auto simp: okE_iff)
  from assms(3) [OF c'(2)] have q: "ms_inv (memory_system c')" "Q (traffic (memory_system c'))" by blast+
  from ms_PrintStats_ok [OF q(1)] q(2) show ?thesis by (auto simp: simulate_def c'(1) okE_iff)
qed

lemma new_memory:
  assumes "Config rd c0 = Inr cfg" and "ms_cfg_ok cfg" and "MemorySystem rd c0 n = Inr (m, n')"
  shows "ms_inv m" and "ms_time m = 0" and "traffic m = {#}"
  using MemorySystem_ok [OF assms(1,2), of n] assms(3) by (simp_all add: traffic_def)

lemma ex_ms_cfg_ok: "ms_cfg_ok ex_cfg" "ms_cfg_ok ex_hmc"
  using ex_ds_cfg_ok ex_not_HMC ex_hmc_ok ex_hmc_links by (simp_all add: ms_cfg_ok_def)

lemma ex_memory:
  obtains m n where "MemorySystem ex_reader zero_config 0 = Inr (m, n)"
  using MemorySystem_ok [OF ex_Config ex_ms_cfg_ok(1), of 0] by (auto simp: okE_iff)

lemma ex_hmc_memory:
  obtains m n where "MemorySystem ex_hmc_reader zero_config 0 = Inr (m, n)"
  using MemorySystem_ok [OF ex_hmc_Config ex_ms_cfg_ok(2), of 0] by (auto simp: okE_iff)

section \<open>Properties\<close>

text \<open>A simulation of random traffic, on a JEDEC memory or on a cube, ends without an error, and
  what the memory answered or holds at its end is a prefix of the requests that the engine
  produces: none is skipped, repeated or lost.\<close>

theorem random_traffic_complete:
  assumes "Config rd c0 = Inr cfg" and "ms_cfg_ok cfg" and "MemorySystem rd c0 n = Inr (m, n')"
    and "unat cycles \<le> 2 ^ 54"
  shows "okE (\<lambda>c. \<exists>k \<le> unat cycles. ms_held (memory_system c) + mset (ms_answered (memory_system c)) =
      mset (map fst (fst (draws next_request k mt_default))))
    (simulate RandomCPU_ClockTick cycles (RandomCPU u m))"
proof -
  let ?I = "\<lambda>k c. drawn next_request mt_default k (rnd_get_next c) (last_addr c, last_write c) (rnd c) (memory_system c)"
  have "?I 0 (RandomCPU u m)"
    using new_memory [OF assms(1-3)] by (simp add: drawn_def RandomCPU_def)
  moreover have "okE (?I (Suc k)) (RandomCPU_ClockTick c)" if "k < unat cycles" "?I k c" for k c
    by (rule RandomCPU_tick_ok [OF that(2)]) (use that(1) assms(4) in simp)
  ultimately have "okE (\<lambda>c. \<exists>k \<le> unat cycles. traffic (memory_system c) = mset (map fst (fst (draws next_request k mt_default))))
      (simulate RandomCPU_ClockTick cycles (RandomCPU u m))"
    by (rule simulate_rule [where I = ?I]) (auto simp: drawn_def)
  then show ?thesis by (simp add: traffic_def)
qed

theorem random_traffic_complete_witness:
  "okE (\<lambda>c. \<exists>k \<le> 3. ms_held (memory_system c) + mset (ms_answered (memory_system c)) =
      mset (map fst (fst (draws next_request k mt_default))))
    (bindE (MemorySystem ex_reader zero_config 0) (\<lambda>(m, _).
       simulate RandomCPU_ClockTick 3 (RandomCPU 0 m)))"
proof -
  obtain m n where m: "MemorySystem ex_reader zero_config 0 = Inr (m, n)" by (rule ex_memory)
  have "unat (3 :: u64) = 3" by simp
  with random_traffic_complete [OF ex_Config ex_ms_cfg_ok(1) m, of 3 0] show ?thesis
    by (simp add: m del: draws.simps)
qed

text \<open>A simulation of a trace ends without an error, and what the memory answered or holds at its
  end is a prefix of the transactions that \<open>operator>>\<close> reads from the file, line by line.\<close>

theorem trace_traffic_complete:
  assumes "Config rd c0 = Inr cfg" and "ms_cfg_ok cfg" and "MemorySystem rd c0 n = Inr (m, n')"
    and "unat cycles \<le> 2 ^ 54" and "TraceBasedCPU u m (Some cs) = Inr c"
  shows "okE (\<lambda>c'. \<exists>k \<le> unat cycles. ms_held (memory_system c') + mset (ms_answered (memory_system c')) =
      mset (map fst (fst (draws trace_request k (\<lparr>in_chars = cs, eofbit = False, failbit = False\<rparr>, u)))))
    (simulate TraceBasedCPU_ClockTick cycles c)"
proof -
  let ?I = "trace_inv (\<lparr>in_chars = cs, eofbit = False, failbit = False\<rparr>, u)"
  have "?I 0 c"
    using new_memory [OF assms(1-3)] assms(5) by (auto simp: trace_inv_def drawn_def TraceBasedCPU_def)
  moreover have "okE (?I (Suc k)) (TraceBasedCPU_ClockTick c)" if "k < unat cycles" "?I k c" for k c
    by (rule TraceBasedCPU_tick_ok [OF that(2)]) (use that(1) assms(4) in simp)
  ultimately have "okE (\<lambda>c'. \<exists>k \<le> unat cycles. traffic (memory_system c') =
      mset (map fst (fst (draws trace_request k (\<lparr>in_chars = cs, eofbit = False, failbit = False\<rparr>, u)))))
      (simulate TraceBasedCPU_ClockTick cycles c)"
    by (rule simulate_rule [where I = ?I]) (auto simp: trace_inv_def drawn_def)
  then show ?thesis by (simp add: traffic_def)
qed

definition ex_trace :: string where
  "ex_trace = ''0x40 WRITE 0'' @ [CHR 0x0A] @ ''80 READ 1'' @ [CHR 0x0A]"

theorem trace_traffic_complete_witness:
  "okE (\<lambda>c'. \<exists>k \<le> 3. ms_held (memory_system c') + mset (ms_answered (memory_system c')) =
      mset (map fst (fst (draws trace_request k (\<lparr>in_chars = ex_trace, eofbit = False, failbit = False\<rparr>, Transaction 0 False)))))
    (bindE (MemorySystem ex_hmc_reader zero_config 0) (\<lambda>(m, _).
       bindE (TraceBasedCPU (Transaction 0 False) m (Some ex_trace)) (simulate TraceBasedCPU_ClockTick 3)))"
proof -
  obtain m n where m: "MemorySystem ex_hmc_reader zero_config 0 = Inr (m, n)" by (rule ex_hmc_memory)
  obtain c where c: "TraceBasedCPU (Transaction 0 False) m (Some ex_trace) = Inr c" by (simp add: TraceBasedCPU_def)
  have "unat (3 :: u64) = 3" by simp
  with trace_traffic_complete [OF ex_hmc_Config ex_ms_cfg_ok(2) m _ c, of 3] show ?thesis
    by (simp add: m c del: draws.simps)
qed

text \<open>The end of a trace file that ends with a line break, as text files do: the end of the file is
  not seen before one more transaction was read, the extraction fails, and its result is not
  checked, so the last address is added to the memory a second time, as a read.\<close>

theorem trace_repeats_last_address:
  assumes "\<not> eofbit (trace_file c)" and "\<not> failbit (trace_file c)"
    and "\<forall>x \<in> set (in_chars (trace_file c)). is_space x" and "tr_get_next c"
    and "added_cycle (tr_trans c) \<le> cpu_clk c" and "ms_inv (memory_system c)"
    and "ms_ClockTick (memory_system c) = Inr m"
    and "ms_WillAcceptTransaction (t_addr (tr_trans c)) False m = Inr True"
    and "ms_time (memory_system c) < 2 ^ 54"
  shows "okE (\<lambda>c'. eofbit (trace_file c') \<and>
      ms_held (memory_system c') + mset (ms_answered (memory_system c')) =
      ms_held (memory_system c) + mset (ms_answered (memory_system c)) + {#t_addr (tr_trans c)#})
    (TraceBasedCPU_ClockTick c)"
proof -
  let ?a = "t_addr (tr_trans c)"
  from ms_tick_traffic [OF assms(6,9)] assms(7) have m: "ms_inv m" "traffic m = traffic (memory_system c)" by simp_all
  from ms.offer_ok [OF m(1), of ?a False] ms_offer_traffic [OF m(1), of ?a False] assms(8) obtain m' where
    o: "offer ms_WillAcceptTransaction ms_AddTransaction ?a False m = Inr (True, m')" "traffic m' = traffic m + {#?a#}"
    by (auto simp: okE_iff)
  have n: "next_trans c = c\<lparr>tr_get_next := False, trace_file := (trace_file c)\<lparr>in_chars := [], eofbit := True, failbit := True\<rparr>,
      tr_trans := (tr_trans c)\<lparr>is_write := False\<rparr>\<rparr>"
    using read_transaction_exhausted [OF assms(1-3)] assms(4) by (simp add: next_trans_def)
  show ?thesis
    using assms(1,5) o m(2) by (simp add: TraceBasedCPU_ClockTick_def assms(7) n Let_def traffic_def)
qed

definition ex_trace_cpu :: "memory_system \<Rightarrow> trace_cpu" where
  "ex_trace_cpu m = \<lparr>memory_system = m, cpu_clk = 5, trace_file = \<lparr>in_chars = [CHR 0x0A], eofbit = False, failbit = False\<rparr>,
     tr_trans = Transaction 64 True, tr_get_next = True\<rparr>"

theorem trace_repeats_last_address_witness:
  "okE (\<lambda>(m, _). okE (\<lambda>c'. ms_held (memory_system c') + mset (ms_answered (memory_system c')) = {#64#})
     (TraceBasedCPU_ClockTick (ex_trace_cpu m))) (MemorySystem ex_reader zero_config 0)"
proof -
  obtain m n where m: "MemorySystem ex_reader zero_config 0 = Inr (m, n)" by (rule ex_memory)
  note i = new_memory [OF ex_Config ex_ms_cfg_ok(1) m]
  have "okE (\<lambda>(m, _). okE (\<lambda>m'. ms_WillAcceptTransaction 64 False m' = Inr True) (ms_ClockTick m))
      (MemorySystem ex_reader zero_config 0)" by code_simp
  then obtain m' where "ms_ClockTick m = Inr m'" "ms_WillAcceptTransaction 64 False m' = Inr True"
    by (auto simp: m okE_iff)
  with trace_repeats_last_address [of "ex_trace_cpu m" m'] i show ?thesis
    by (auto simp: m ex_trace_cpu_def Transaction_def is_space_def traffic_def elim!: okE_mono)
qed

text \<open>A file whose last line has no line break: its end is seen when the last transaction is read, and
  from then on nothing is added, so a last transaction whose cycle has not yet come is dropped.\<close>

lemma trace_drops_waiting:
  assumes "eofbit (trace_file c)" and "ms_inv (memory_system c)" and "ms_time (memory_system c) < 2 ^ 54"
  shows "okE (\<lambda>c'. eofbit (trace_file c') \<and> tr_trans c' = tr_trans c \<and> tr_get_next c' = tr_get_next c \<and>
      traffic (memory_system c') = traffic (memory_system c)) (TraceBasedCPU_ClockTick c)"
  using ms_tick_traffic [OF assms(2,3)] assms(1) by (auto simp: TraceBasedCPU_ClockTick_def okE_iff)

text \<open>A simulation of stream-add traffic ends without an error, and what the memory answered or
  holds is all of the addresses \<open>a\<close>, \<open>b\<close> and \<open>c\<close> of the first elements of the stream, each once, and some of
  those of the next element. The stream is the one of \<open>stream_source\<close>: arrays at the addresses that the
  engine yields, from offset 0 in steps of 64 to their end, then new arrays.\<close>

theorem stream_traffic_complete:
  assumes "Config rd c0 = Inr cfg" and "ms_cfg_ok cfg" and "MemorySystem rd c0 n = Inr (m, n')"
    and "unat cycles \<le> 2 ^ 54"
  shows "okE (\<lambda>c. \<exists>k X. k \<le> unat cycles \<and> X \<subseteq># mset (addresses (fst (stream_source (snd (draws stream_source k stream_start))))) \<and>
      ms_held (memory_system c) + mset (ms_answered (memory_system c)) =
      mset (concat (map addresses (fst (draws stream_source k stream_start)))) + X)
    (simulate StreamCPU_ClockTick cycles (StreamCPU u m))"
proof -
  let ?Q = "\<lambda>t. \<exists>k X. k \<le> unat cycles \<and> X \<subseteq># mset (addresses (fst (stream_source (snd (draws stream_source k stream_start))))) \<and>
      t = mset (concat (map addresses (fst (draws stream_source k stream_start)))) + X"
  have "stream_inv 0 (StreamCPU u m)"
    using new_memory [OF assms(1-3)] by (simp add: stream_inv_def StreamCPU_def parts_def part_def stream_start_def)
  moreover have "okE (stream_inv (Suc k)) (StreamCPU_ClockTick c)" if "k < unat cycles" "stream_inv k c" for k and c :: "stream_cpu"
    by (rule StreamCPU_tick_ok [OF that(2)]) (use that(1) assms(4) in simp)
  moreover have "ms_inv (memory_system c) \<and> ?Q (traffic (memory_system c))" if c: "stream_inv (unat cycles) c" for c :: "stream_cpu"
  proof -
    from c obtain k L s where k: "k \<le> unat cycles" "draws stream_source k stream_start = (L, s)"
      "traffic (memory_system c) = mset (concat (map addresses L)) + parts c" "stream_at s c \<or> parts c = {#}"
      by (auto simp: stream_inv_def)
    have "parts c \<subseteq># mset (addresses (element c))" by (simp add: parts_def part_def element_def)
    with k(4) have "parts c \<subseteq># mset (addresses (fst (stream_source s)))" by (auto simp: stream_at_def)
    moreover have "ms_inv (memory_system c)" using c by (simp add: stream_inv_def)
    ultimately show ?thesis using k(1-3) by (intro conjI exI [of _ k] exI [of _ "parts c"]) simp_all
  qed
  ultimately have "okE (\<lambda>c. ?Q (traffic (memory_system c))) (simulate StreamCPU_ClockTick cycles (StreamCPU u m))"
    by (rule simulate_rule [where I = stream_inv])
  then show ?thesis by (simp only: traffic_def)
qed

theorem stream_traffic_complete_witness:
  "okE (\<lambda>c. \<exists>k X. k \<le> 4 \<and> X \<subseteq># mset (addresses (fst (stream_source (snd (draws stream_source k stream_start))))) \<and>
      ms_held (memory_system c) + mset (ms_answered (memory_system c)) =
      mset (concat (map addresses (fst (draws stream_source k stream_start)))) + X)
    (bindE (MemorySystem ex_reader zero_config 0) (\<lambda>(m, _).
       simulate StreamCPU_ClockTick 4 (StreamCPU 0 m)))"
proof -
  obtain m n where m: "MemorySystem ex_reader zero_config 0 = Inr (m, n)" by (rule ex_memory)
  have "unat (4 :: u64) = 4" by simp
  with stream_traffic_complete [OF ex_Config ex_ms_cfg_ok(1) m, of 4 0] show ?thesis
    by (simp only: m bindE_simps case_prod_conv) simp
qed

end
