(* ===== verification/Stack_Config.thy ===== *)
theory Stack_Config
  imports Thermal_Example
begin

text \<open>
  The configuration that the constructor reads from \<open>HBM_4Gb_x128.ini\<close>, a stack of four memory dies
  that comes with the simulator, and the plan of its chip: each bank is 16 by 16 cells, each of 1024
  rows by 1024 bits.
\<close>

definition hbm_reader :: ini_reader where
  "hbm_reader = \<lparr>ini_Get = (\<lambda>_ opt d. if opt = ''protocol'' then ''HBM'' else if opt = ''address_mapping'' then ''rorabgbachco'' else d),
     ini_GetInteger = (\<lambda>_ opt d. case map_of [(''bankgroups'', 4), (''banks_per_group'', 4), (''rows'', 16384), (''columns'', 64),
        (''device_width'', 128), (''BL'', 4), (''num_dies'', 4), (''CL'', 7), (''CWL'', 4), (''tRCDRD'', 7), (''tRCDWR'', 6), (''tRP'', 7),
        (''tRAS'', 17), (''tREFI'', 1950), (''tRRD_L'', 5), (''tWTR_S'', 2), (''tWTR_L'', 4), (''tFAW'', 20), (''tWR'', 8), (''tCCD_S'', 2),
        (''tCCD_L'', 3), (''tXS'', 0), (''tXP'', 5), (''tPPD'', 5), (''channel_size'', 512), (''channels'', 8), (''bus_width'', 128),
        (''cmd_queue_size'', 8), (''epoch_period'', 500000), (''mat_dim_x'', 1024), (''mat_dim_y'', 1024)] opt of
          Some v \<Rightarrow> v | None \<Rightarrow> d),
     ini_GetBoolean = (\<lambda>_ _ d. d)\<rparr>"

definition hbm_real :: real_reader where
  "hbm_real = (\<lambda>_ opt d. if opt = ''tCK'' then d_of_int 2 else d)"

definition hbm_cfg :: config where
  "hbm_cfg = \<lparr>protocol = HBM, channel_size = 512, channels = 8, ranks = 1, banks = 16, bankgroups = 4,
     banks_per_group = 4, rows = 16384, columns = 128, device_width = 128, bus_width = 128,
     devices_per_rank = 1, BL = 4, shift_bits = 6, ch_pos = 5, ra_pos = 12, bg_pos = 10, ba_pos = 8, ro_pos = 12,
     co_pos = 0, ch_mask = 7, ra_mask = 0, bg_mask = 3, ba_mask = 3, ro_mask = 16383, co_mask = 31,
     request_size_bytes = 64, burst_cycle = 2, AL = 0, CL = 7, CWL = 4, RL = 7, WL = 4, tCCD_L = 3, tCCD_S = 2,
     tRTRS = 2, tRTP = 5, tWTR_L = 4, tWTR_S = 2, tWR = 8, tRP = 7, tRRD_L = 5, tRRD_S = 4, tRAS = 17, tRCD = 10,
     tRFC = 74, tRC = 24, tCKE = 6, tCKESR = 12, tXS = 0, tXP = 5, tRFCb = 20, tREFI = 1950, tREFIb = 1950, tFAW = 20,
     tRPRE = 1, tWPRE = 1, read_delay = 9, write_delay = 6, tPPD = 5, t32AW = 330, tRCDRD = 7, tRCDWR = 6,
     ideal_memory_latency = 10, num_links = 4, num_dies = 4, link_width = 16, link_speed = 15000, block_size = 64,
     xbar_queue_depth = 16, address_mapping = ''rorabgbachco'', queue_structure = ''PER_BANK'',
     row_buf_policy = ''OPEN_PAGE'', refresh_policy = RANK_LEVEL_STAGGERED, cmd_queue_size = 8,
     unified_queue = False, trans_queue_size = 32, write_buf_size = 16, enable_self_refresh = False,
     sref_threshold = 1000, aggressive_precharging_enabled = False, enable_hbm_dual_cmd = True,
     epoch_period = 500000, output_level = 1\<rparr>"

definition hbm_thermal :: thermal_params where
  "hbm_thermal = ex_thermal_params\<lparr>num_row_refresh := 1, num_x_grids := 16, num_y_grids := 16, mat_dim_x := 1024,
     mat_dim_y := 1024, tile_row_num := 16384\<rparr>"

lemma hbm_Config: "Config hbm_reader zero_config = Inr hbm_cfg"
  by code_simp

lemma hbm_InitThermalParams:
  "InitThermalParams hbm_reader hbm_real hbm_cfg (InitPowerParams hbm_real hbm_cfg) ex_thermal_params = Inr hbm_thermal"
  by code_simp

definition ex_stack :: thermal_config where
  "ex_stack = \<lparr>tc_cfg = hbm_cfg, tc_pw = InitPowerParams hbm_real hbm_cfg, tc_th = hbm_thermal\<rparr>"

definition ex_stack_plan :: geometry where
  "ex_stack_plan = ex_hbm_plan\<lparr>dimX := 128, dimY := 64\<rparr>"

lemma hbm_fields [simp]:
  "IsHBM hbm_cfg" "\<not> IsHMC hbm_cfg" "channels hbm_cfg = 8" "ranks hbm_cfg = 1" "banks hbm_cfg = 16" "bankgroups hbm_cfg = 4"
  "banks_per_group hbm_cfg = 4" "rows hbm_cfg = 16384" "columns hbm_cfg = 128" "device_width hbm_cfg = 128" "BL hbm_cfg = 4"
  "num_dies hbm_cfg = 4"
  by (simp_all add: hbm_cfg_def IsHBM_def IsHMC_def)

lemma ex_stack_sel [simp]:
  "tc_cfg ex_stack = hbm_cfg" "tc_th ex_stack = hbm_thermal" "num_x_grids hbm_thermal = 16" "num_y_grids hbm_thermal = 16"
  "mat_dim_x hbm_thermal = 1024" "mat_dim_y hbm_thermal = 1024" "num_row_refresh hbm_thermal = 1" "row_tile hbm_thermal = 1"
  "tile_row_num hbm_thermal = 16384"
  by (simp_all add: ex_stack_def hbm_thermal_def ex_thermal_params_def)

lemma ex_stack_plan_sel [simp]:
  "numP ex_stack_plan = 5" "dimX ex_stack_plan = 128" "dimY ex_stack_plan = 64" "num_case ex_stack_plan = 1"
  "bank_x ex_stack_plan = 8" "bank_y ex_stack_plan = 2"
  by (simp_all add: ex_stack_plan_def ex_hbm_plan_def)

lemma ex_stack_geometry: "init_geometry ex_stack = Inr ex_stack_plan"
  by (simp add: init_geometry_def Let_def ex_stack_plan_def ex_hbm_plan_def)

end
