(* ===== verification/Main_Program.thy ===== *)
theory Main_Program
  imports CPU_Properties Stack_Config
begin

text \<open>
  \<open>main.cc\<close>: from the command line to the exit code. The parser of the command line is a vendored
  library: what it makes of the arguments is a parameter, a value for each option that is given; so are
  the files of the machine. The defaults of the options are the program's.
\<close>

section \<open>The command line\<close>

record options =
  given_cycles :: "u64 option"
  given_output_dir :: "string option"
  given_stream :: "string option"
  given_trace :: "string option"
  given_config :: "string option"

datatype 'o parsed = Help_wanted | Parse_failed | Parsed 'o

text \<open>\<open>args::get\<close>: the value that was given, or else the default.\<close>

definition args_get :: "'a option \<Rightarrow> 'a \<Rightarrow> 'a" where
  "args_get given d = (case given of None \<Rightarrow> d | Some v \<Rightarrow> v)"

definition num_cycles :: "options \<Rightarrow> u64" where "num_cycles opts = args_get (given_cycles opts) 100000"
definition stream_type :: "options \<Rightarrow> string" where "stream_type opts = args_get (given_stream opts) []"
definition trace_name :: "options \<Rightarrow> string" where "trace_name opts = args_get (given_trace opts) []"
definition config_name :: "options \<Rightarrow> string" where "config_name opts = args_get (given_config opts) []"

section \<open>The program\<close>

text \<open>The machine: what the INI reader finds in a file that it can load, the contents of a file that can be opened, and the
  values of members that have no initialiser.\<close>

record host =
  ini_file :: "string \<Rightarrow> ini_reader option"
  text_file :: "string \<Rightarrow> string option"
  raw_config :: config
  raw_word :: u64
  raw_trans :: transaction

text \<open>A generator's constructor, its cycles, and the statistics at the end. A trace file comes before the
  type of stream.\<close>

definition finished :: "'a cpu_scheme result \<Rightarrow> memory_system result" where
  "finished r = bindE r (\<lambda>c. Inr (memory_system c))"

definition load_ini :: "host \<Rightarrow> string \<Rightarrow> ini_reader result" where
  "load_ini mc name = (case ini_file mc name of None \<Rightarrow> Inl (AbruptExit ''configuration.cc'' 16) | Some rd \<Rightarrow> Inr rd)"

definition generate :: "host \<Rightarrow> options \<Rightarrow> memory_system result" where
  "generate mc opts =
     bindE (load_ini mc (config_name opts)) (\<lambda>rd.
     bindE (MemorySystem rd (raw_config mc) 0) (\<lambda>(m, _).
     if trace_name opts \<noteq> []
     then bindE (TraceBasedCPU (raw_trans mc) m (text_file mc (trace_name opts))) (\<lambda>c.
            finished (simulate TraceBasedCPU_ClockTick (num_cycles opts) c))
     else if stream_type opts = ''stream'' \<or> stream_type opts = ''s''
     then finished (simulate StreamCPU_ClockTick (num_cycles opts) (StreamCPU (raw_word mc) m))
     else finished (simulate RandomCPU_ClockTick (num_cycles opts) (RandomCPU (raw_word mc) m))))"

text \<open>The exit code, and the memory when a simulation has run.\<close>

definition main_program :: "(string list \<Rightarrow> options parsed) \<Rightarrow> host \<Rightarrow> string list \<Rightarrow> (int \<times> memory_system option) result" where
  "main_program parse mc argv = (case parse argv of
     Help_wanted \<Rightarrow> Inr (0, None)
   | Parse_failed \<Rightarrow> Inr (1, None)
   | Parsed opts \<Rightarrow> if config_name opts = [] then Inr (1, None)
       else bindE (generate mc opts) (\<lambda>m. Inr (0, Some m)))"

section \<open>What a simulation adds\<close>

text \<open>The addresses that the memory has been given by the generator that the options choose: those of a
  prefix of the requests that the file or the random engine yields, at most one in each cycle, or all
  three of a prefix of the elements that the stream yields and some of the three of the next element.\<close>

definition served_by :: "host \<Rightarrow> options \<Rightarrow> u64 multiset \<Rightarrow> bool" where
  "served_by mc opts M \<longleftrightarrow>
     (if trace_name opts \<noteq> [] then \<exists>cs k. text_file mc (trace_name opts) = Some cs \<and> k \<le> unat (num_cycles opts) \<and>
        M = mset (map fst (fst (draws trace_request k (\<lparr>in_chars = cs, eofbit = False, failbit = False\<rparr>, raw_trans mc))))
      else if stream_type opts = ''stream'' \<or> stream_type opts = ''s''
      then \<exists>k X. k \<le> unat (num_cycles opts) \<and>
        X \<subseteq># mset (addresses (fst (stream_source (snd (draws stream_source k stream_start))))) \<and>
        M = mset (concat (map addresses (fst (draws stream_source k stream_start)))) + X
      else \<exists>k \<le> unat (num_cycles opts). M = mset (map fst (fst (draws next_request k mt_default))))"

lemma finished_ok: "okE (\<lambda>c. Q (memory_system c)) r \<Longrightarrow> okE Q (finished r)"
  by (auto simp: finished_def okE_iff)

lemma generate_ok:
  assumes "Config rd (raw_config mc) = Inr cfg" and "ms_cfg_ok cfg" and ini: "ini_file mc (config_name opts) = Some rd"
    and "unat (num_cycles opts) \<le> 2 ^ 54" and "trace_name opts \<noteq> [] \<longrightarrow> text_file mc (trace_name opts) \<noteq> None"
  shows "okE (\<lambda>m. served_by mc opts (ms_held m + mset (ms_answered m))) (generate mc opts)"
proof -
  obtain m n where m: "MemorySystem rd (raw_config mc) 0 = Inr (m, n)"
    using MemorySystem_ok [OF assms(1,2), of 0] by (auto simp: okE_iff)
  consider (trace) "trace_name opts \<noteq> []" | (stream) "trace_name opts = []" "stream_type opts = ''stream'' \<or> stream_type opts = ''s''"
    | (random) "trace_name opts = []" "\<not> (stream_type opts = ''stream'' \<or> stream_type opts = ''s'')" by blast
  then show ?thesis
  proof cases
    case trace
    then obtain cs where cs: "text_file mc (trace_name opts) = Some cs" using assms(5) by blast
    obtain c where c: "TraceBasedCPU (raw_trans mc) m (Some cs) = Inr c" by (simp add: TraceBasedCPU_def)
    from trace_traffic_complete [OF assms(1,2) m assms(4) c]
    have "okE (\<lambda>c. served_by mc opts (ms_held (memory_system c) + mset (ms_answered (memory_system c))))
        (simulate TraceBasedCPU_ClockTick (num_cycles opts) c)"
      by (rule okE_mono) (use trace cs in \<open>auto simp: served_by_def\<close>)
    from finished_ok [OF this] trace show ?thesis by (simp add: generate_def load_ini_def ini m cs c)
  next
    case stream
    from stream_traffic_complete [OF assms(1,2) m assms(4), of "raw_word mc"]
    have "okE (\<lambda>c. served_by mc opts (ms_held (memory_system c) + mset (ms_answered (memory_system c))))
        (simulate StreamCPU_ClockTick (num_cycles opts) (StreamCPU (raw_word mc) m))"
      by (rule okE_mono) (use stream in \<open>simp only: served_by_def if_True if_False simp_thms\<close>)
    from finished_ok [OF this] stream show ?thesis by (simp add: generate_def load_ini_def ini m)
  next
    case random
    from random_traffic_complete [OF assms(1,2) m assms(4), of "raw_word mc"]
    have "okE (\<lambda>c. served_by mc opts (ms_held (memory_system c) + mset (ms_answered (memory_system c))))
        (simulate RandomCPU_ClockTick (num_cycles opts) (RandomCPU (raw_word mc) m))"
      by (rule okE_mono) (use random in \<open>simp add: served_by_def\<close>)
    from finished_ok [OF this] random show ?thesis by (simp add: generate_def load_ini_def ini m)
  qed
qed

section \<open>Properties\<close>

text \<open>C6. The whole program ends with exit code 0 for every configuration file that fits and every number
  of cycles up to \<open>2 ^ 54\<close>, unless a trace file is named that cannot be opened: no error is reachable
  from the command line to the last statistics. Then the addresses that the memory answered or still holds
  are exactly those of a prefix of what the chosen generator yields (for a stream, of whole elements and some
  of the addresses of the next one): none is lost, repeated or invented. A trace file is chosen before a
  stream, a stream before random traffic. A configuration fits by \<open>ms_cfg_ok\<close>, which excludes self
  refresh and sizes that are negative.\<close>

theorem main_exits_0:
  assumes "parse argv = Parsed opts" and "config_name opts \<noteq> []"
    and "ini_file mc (config_name opts) = Some rd"
    and "Config rd (raw_config mc) = Inr cfg" and "ms_cfg_ok cfg"
    and "unat (num_cycles opts) \<le> 2 ^ 54" and "trace_name opts \<noteq> [] \<longrightarrow> text_file mc (trace_name opts) \<noteq> None"
  shows "\<exists>m. main_program parse mc argv = Inr (0, Some m) \<and> served_by mc opts (ms_held m + mset (ms_answered m))"
  using generate_ok [OF assms(4,5,3,6,7)] assms(1,2) by (auto simp: main_program_def okE_iff)

text \<open>The example: \<open>dramsim3main HBM_4Gb_x128.ini -c 1000000 -s random\<close>.\<close>

lemma hbm_ds_cfg_ok: "ds_cfg_ok hbm_cfg"
proof (rule Config_system_ok [OF hbm_Config])
  show "of_c_int (epoch_period hbm_cfg) \<noteq> 0" by code_simp
  show "enable_hbm_dual_cmd hbm_cfg \<longrightarrow> rw_apart hbm_cfg" by code_simp
qed (simp_all add: mapping_wf_def refresh_cfg_ok_def, simp_all add: hbm_cfg_def)

lemma hbm_ms_cfg_ok: "ms_cfg_ok hbm_cfg"
  using hbm_ds_cfg_ok by (simp add: ms_cfg_ok_def)

definition ex_options :: options where
  "ex_options = \<lparr>given_cycles = Some 1000000, given_output_dir = None, given_stream = Some ''random'', given_trace = None,
     given_config = Some ''HBM_4Gb_x128.ini''\<rparr>"

definition ex_host :: host where
  "ex_host = \<lparr>ini_file = (\<lambda>_. Some hbm_reader), text_file = (\<lambda>_. None), raw_config = zero_config, raw_word = 0, raw_trans = Transaction 0 False\<rparr>"

theorem main_exits_0_witness:
  "\<exists>m k. main_program (\<lambda>_. Parsed ex_options) ex_host [] = Inr (0, Some m) \<and> k \<le> 1000000 \<and>
     ms_held m + mset (ms_answered m) = mset (map fst (fst (draws next_request k mt_default)))"
proof -
  have "unat (1000000 :: u64) = 1000000" by simp
  with main_exits_0 [of "\<lambda>_. Parsed ex_options" "[]" ex_options ex_host hbm_reader hbm_cfg] show ?thesis
    by (auto simp: ex_options_def ex_host_def config_name_def num_cycles_def trace_name_def stream_type_def args_get_def hbm_Config
      hbm_ms_cfg_ok served_by_def simp del: draws.simps)
qed

end
