(* ===== verification/Replay_Properties.thy ===== *)
theory Replay_Properties
  imports Thermal_Replay Thermal_Heat
begin

text \<open>
  The properties of the replay: what a trace written by the simulator reads back as, and how the
  cycles between two commands are accounted.
\<close>

section \<open>Reading numbers\<close>

lemma digit_not_space: "is_digit 10 c \<Longrightarrow> c \<noteq> CHR '' ''"
  using digit_char [of 10 c] by (auto simp: is_space_def)

lemma show_nat_head: "\<exists>c cs. show_nat n = c # cs \<and> is_digit 10 c \<and> \<not> is_space c \<and> c \<noteq> CHR ''-'' \<and> c \<noteq> CHR ''+''"
proof -
  obtain c cs where "show_nat n = c # cs" using show_nat_nonempty by (metis neq_Nil_conv)
  moreover from this have "is_digit 10 c" using show_nat_digits [of c n] by simp
  ultimately show ?thesis using digit_char by blast
qed

lemma takeWhile_show: "takeWhile (is_digit 10) (show_nat n) = show_nat n"
  using show_nat_digits by (simp add: takeWhile_eq_all_conv)

lemma read_show_nat: "dropWhile is_space (show_nat n) = show_nat n" "split_sign (show_nat n) = (False, show_nat n)"
  using show_nat_head [of n] by (auto simp: split_sign_def)

lemma stoull_show: "stoull (show_u64 x) = Inr x"
  using unsigned_less [of x] by (simp add: stoull_def show_u64_def read_show_nat takeWhile_show digits_value_show Let_def)

lemma stoi_show: "int_range i \<Longrightarrow> stoi (show_int i) = Inr i"
proof -
  assume i: "int_range i"
  have "\<not> is_space CHR ''-''" by code_simp
  with i show ?thesis
    by (simp add: stoi_def show_int_def read_show_nat takeWhile_show digits_value_show split_sign_def [of "CHR ''-'' # _"])
qed

text \<open>The prefix of a hexadecimal number ends the decimal one: only the digit 0 is read.\<close>

lemma stoi_hex: "stoi (show_hex_int i) = Inr 0"
proof -
  have c: "\<not> is_space CHR ''-''" "\<not> is_space CHR ''0''" "is_digit 10 CHR ''0''" "\<not> is_digit 10 CHR ''x''"
    "digits_value 10 ''0'' = 0" by code_simp+
  have "split_sign (CHR ''-'' # s) = (True, s)" "split_sign (CHR ''0'' # s) = (False, CHR ''0'' # s)" for s
    by (simp_all add: split_sign_def)
  with c show ?thesis by (simp add: stoi_def show_hex_int_def int_range_def)
qed

section \<open>Lines of a trace\<close>

lemma no_space [simp]: "CHR '' '' \<notin> set (show_nat n)" "CHR '' '' \<notin> set (show_hex n)" "CHR '' '' \<notin> set (command_string ct)"
  "command_string ct \<noteq> []"
proof -
  show "CHR '' '' \<notin> set (show_nat n)" using show_nat_digits digit_not_space by blast
  show "CHR '' '' \<notin> set (show_hex n)" using show_hex_digits [of "CHR '' ''" n] by auto
  show "CHR '' '' \<notin> set (command_string ct)" "command_string ct \<noteq> []" by (cases ct; simp add: command_string_def)+
qed

lemma int_tokens [simp]: "CHR '' '' \<notin> set (show_int i)" "show_int i \<noteq> []" "CHR '' '' \<notin> set (show_hex_int i)" "show_hex_int i \<noteq> []"
  "CHR '' '' \<notin> set (show_u64 n)" "show_u64 n \<noteq> []"
  by (simp_all add: show_int_def show_hex_int_def show_u64_def)

lemma split_pad_last [simp]: "split_loop CHR '' '' [] (pad_left n t) = split_loop CHR '' '' [] t"
  using split_pad_left [of n t "[]"] by simp

lemma trace_tokens: "StringSplit (trace_line clk cmd) (CHR '' '') =
    [show_u64 clk, command_string (cmd_type cmd), show_int (Channel cmd), show_int (Rank cmd), show_int (Bankgroup cmd),
     show_int (Bank cmd), show_hex_int (Row cmd), show_hex_int (Column cmd)]"
  by (simp add: StringSplit_def trace_line_def command_text_def split_pad_right split_token split_last)

lemma cmd_map_string: "ct \<noteq> SIZE \<Longrightarrow> um_ref READ cmd_map (command_string ct) = ct"
  by (cases ct) (simp_all add: um_ref_def cmd_map_def command_string_def)

text \<open>C39. A command trace that the simulator wrote does not replay as it was: every line is accepted,
  with its time, command, channel, rank and bank, but the row and the column, which are
  written in hexadecimal and read in decimal, are 0.\<close>

theorem replay_loses_rows:
  assumes "cmd_type cmd \<noteq> SIZE" and "int_range (Channel cmd)" and "int_range (Rank cmd)"
    and "int_range (Bankgroup cmd)" and "int_range (Bank cmd)"
  shows "ParseLine (trace_line clk cmd) =
    Inr (clk, Command (cmd_type cmd) (Address (Channel cmd) (Rank cmd) (Bankgroup cmd) (Bank cmd) 0 0) 0)"
  using assms by (simp add: ParseLine_def trace_tokens stoull_show stoi_show stoi_hex cmd_map_string)

theorem replay_loses_rows_witness:
  "ParseLine (trace_line 1000 (Command ACTIVATE (Address 0 1 2 3 4660 0) 0)) =
     Inr (1000, Command ACTIVATE (Address 0 1 2 3 0 0) 0)"
  using replay_loses_rows [of "Command ACTIVATE (Address 0 1 2 3 4660 0) 0" 1000]
  by (simp add: Command_def Address_def cmd_field_defs int_range_def)

section \<open>Accounting\<close>

definition rank_time :: "replay \<Rightarrow> string \<Rightarrow> int \<Rightarrow> int \<Rightarrow> u64" where
  "rank_time rp name i j = um_ref [] (epoch_vec_counters (channel_stats rp ! nat i)) name ! nat j"

definition time_names :: "string set" where
  "time_names = {''rank_active_cycles'', ''all_bank_idle_cycles''}"

definition replay_shape :: "config \<Rightarrow> replay \<Rightarrow> bool" where
  "replay_shape cfg rp \<longleftrightarrow> int (length (channel_stats rp)) = channels cfg \<and>
     (\<forall>ss \<in> set (channel_stats rp). \<forall>name \<in> time_names. int (length (um_ref [] (epoch_vec_counters ss) name)) = ranks cfg) \<and>
     int (length (bank_active rp)) = channels cfg \<and> (\<forall>rs \<in> set (bank_active rp). int (length rs) = ranks cfg)"

definition rank_open :: "replay \<Rightarrow> int \<Rightarrow> int \<Rightarrow> bool" where
  "rank_open rp i j \<longleftrightarrow> (\<exists>bg \<in> set (bank_active rp ! nat i ! nat j). True \<in> set bg)"

definition time_name :: "replay \<Rightarrow> int \<times> int \<Rightarrow> string" where
  "time_name rp = (\<lambda>(i, j). if rank_open rp i j then ''rank_active_cycles'' else ''all_bank_idle_cycles'')"

definition in_ranks :: "config \<Rightarrow> int \<times> int \<Rightarrow> bool" where
  "in_ranks cfg = (\<lambda>(i, j). 0 \<le> i \<and> i < channels cfg \<and> 0 \<le> j \<and> j < ranks cfg)"

lemma account_rank_ok:
  assumes s: "replay_shape cfg rp" and ij: "in_ranks cfg (i, j)"
  obtains rp' where "account_rank past i j rp = Inr rp'" and "replay_shape cfg rp'" and "bank_active rp' = bank_active rp"
    and "\<And>name i' j'. name \<in> time_names \<Longrightarrow> in_ranks cfg (i', j') \<Longrightarrow> rank_time rp' name i' j' = rank_time rp name i' j' +
      (if (i', j') = (i, j) \<and> name = time_name rp (i, j) then of_c_int (to_c_int past) else 0)"
proof -
  let ?n = "time_name rp (i, j)" and ?ss = "channel_stats rp ! nat i"
  let ?v = "um_ref [] (epoch_vec_counters ?ss) ?n"
  have i: "0 \<le> i" "i < int (length (channel_stats rp))" "nat i < length (channel_stats rp)" "i < int (length (bank_active rp))" "nat i < length (bank_active rp)"
    using s ij by (auto simp: replay_shape_def in_ranks_def nat_less_iff)
  have n: "?n \<in> time_names" by (simp add: time_name_def time_names_def)
  have len: "int (length (um_ref [] (epoch_vec_counters ss) name)) = ranks cfg" if "ss \<in> set (channel_stats rp)" "name \<in> time_names" for ss name
    using s that by (simp add: replay_shape_def)
  have j: "0 \<le> j" "j < int (length ?v)" "j < int (length (bank_active rp ! nat i))"
    using ij len [OF nth_mem [OF i(3)] n] s nth_mem [OF i(5)] by (auto simp: in_ranks_def replay_shape_def)
  define v' where "v' = ?v[nat j := ?v ! nat j + of_c_int (to_c_int past)]"
  define ss' where "ss' = ?ss\<lparr>epoch_vec_counters := um_set ?n v' (epoch_vec_counters ?ss)\<rparr>"
  define rp' where "rp' = rp\<lparr>channel_stats := (channel_stats rp)[nat i := ss']\<rparr>"
  have "IsRankActive rp i j = Inr (rank_open rp i j)"
    using i j by (simp add: IsRankActive_def rank_open_def vget_def)
  moreover have "IncrementVecBy ?n j (to_c_int past) ?ss = Inr ss'"
    using j by (simp add: IncrementVecBy_def Let_def vget_def vset_def ss'_def v'_def)
  ultimately have "account_rank past i j rp = Inr rp'"
    using i by (simp add: account_rank_def on_stats_def time_name_def vget_def vset_def rp'_def)
  moreover have "replay_shape cfg rp'"
  proof -
    have "int (length (um_ref [] (epoch_vec_counters ss') name)) = ranks cfg" if "name \<in> time_names" for name
      using len [OF nth_mem [OF i(3)] that] by (cases "name = ?n") (simp_all add: ss'_def v'_def)
    then show ?thesis using s by (auto simp: replay_shape_def rp'_def dest!: set_update_subset_insert [THEN subsetD])
  qed
  moreover have "rank_time rp' name i' j' = rank_time rp name i' j' +
      (if (i', j') = (i, j) \<and> name = ?n then of_c_int (to_c_int past) else 0)"
    if "name \<in> time_names" "in_ranks cfg (i', j')" for name i' j'
  proof -
    have "0 \<le> i'" "0 \<le> j'" using that(2) by (simp_all add: in_ranks_def)
    then show ?thesis using i j
      by (auto simp: rank_time_def rp'_def ss'_def v'_def nth_list_update eq_nat_nat_iff nat_less_iff)
  qed
  ultimately show thesis using that by (simp add: rp'_def)
qed

lemma account_pairs_ok:
  assumes "replay_shape cfg rp" and "distinct ps" and "\<forall>p \<in> set ps. in_ranks cfg p"
  shows "okE (\<lambda>rp'. replay_shape cfg rp' \<and> bank_active rp' = bank_active rp \<and>
      (\<forall>name i j. name \<in> time_names \<longrightarrow> in_ranks cfg (i, j) \<longrightarrow> rank_time rp' name i j = rank_time rp name i j +
        (if (i, j) \<in> set ps \<and> name = time_name rp (i, j) then of_c_int (to_c_int past) else 0)))
    (foldE (\<lambda>(i, j). account_rank past i j) ps rp)"
  using assms
proof (induction ps arbitrary: rp)
  case (Cons p ps)
  obtain i j where p: "p = (i, j)" by (metis prod.exhaust)
  obtain rp1 where a: "account_rank past i j rp = Inr rp1" "replay_shape cfg rp1" "bank_active rp1 = bank_active rp"
    and t: "\<And>name i' j'. name \<in> time_names \<Longrightarrow> in_ranks cfg (i', j') \<Longrightarrow> rank_time rp1 name i' j' = rank_time rp name i' j' +
      (if (i', j') = (i, j) \<and> name = time_name rp (i, j) then of_c_int (to_c_int past) else 0)"
    by (rule account_rank_ok [OF Cons.prems(1), of i j past]) (use Cons.prems(3) p in auto)
  have "time_name rp1 = time_name rp" by (simp add: time_name_def rank_open_def a(3) fun_eq_iff)
  with Cons.IH [OF a(2)] Cons.prems(2,3) show ?case
    by (auto simp: p a(1,3) t elim!: okE_mono)
qed simp

lemma account_ok:
  assumes "replay_shape cfg rp"
  shows "okE (\<lambda>rp'. replay_shape cfg rp' \<and> bank_active rp' = bank_active rp \<and>
      (\<forall>name i j. name \<in> time_names \<longrightarrow> in_ranks cfg (i, j) \<longrightarrow> rank_time rp' name i j = rank_time rp name i j +
        (if name = time_name rp (i, j) then of_c_int (to_c_int past) else 0))) (account cfg past rp)"
proof -
  let ?ps = "concat (map (\<lambda>i. map (Pair i) (indices (ranks cfg))) (indices (channels cfg)))"
  have d: "distinct ?ps" by (rule distinct_concat_disjoint) (auto simp: distinct_map inj_on_def)
  have m: "(i, j) \<in> set ?ps \<longleftrightarrow> in_ranks cfg (i, j)" for i j by (force simp: in_ranks_def image_iff)
  have all: "\<forall>p \<in> set ?ps. in_ranks cfg p" using m by (metis prod.exhaust)
  have a: "account cfg past rp = foldE (\<lambda>(i, j). account_rank past i j) ?ps rp"
    unfolding account_def by (rule foldE_nested)
  show ?thesis unfolding a by (rule okE_mono [OF account_pairs_ok [OF assms d all]]) (use m in auto)
qed

text \<open>The 64-bit values that pass through an \<open>int\<close> unchanged.\<close>

lemma int_round_trip: "of_c_int (to_c_int x) = x \<longleftrightarrow> x < 2 ^ 31 \<or> 2 ^ 64 - 2 ^ 31 \<le> x"
proof -
  have c: "x < 2 ^ 31 \<longleftrightarrow> uint x < 2 ^ 31" "2 ^ 64 - 2 ^ 31 \<le> x \<longleftrightarrow> 2 ^ 64 - 2 ^ 31 \<le> uint x"
    by (simp_all add: word_less_def word_le_def)
  have u: "0 \<le> uint x" "uint x < 2 ^ 64" using uint_ge_0 uint_lt2p [of x] by simp_all
  define y where "y = to_c_int x"
  have y: "- (2 ^ 31) \<le> y" "y < 2 ^ 31"
    using signed_take_bit_int_greater_eq_minus_exp [of 31 "uint x"] signed_take_bit_int_less_exp [of 31 "uint x"]
    by (simp_all add: y_def to_c_int_def)
  have "uint (of_c_int y) = (if 0 \<le> y then y else y + 2 ^ 64)"
  proof (cases "0 \<le> y")
    case False
    then have "(y + 2 ^ 64) mod 2 ^ 64 = y + 2 ^ 64" using y by (intro mod_pos_pos_trivial) simp_all
    then have "y mod 2 ^ 64 = y + 2 ^ 64" by (simp only: mod_add_self2)
    then show ?thesis using False by (simp add: of_c_int_def uint_word_of_int)
  qed (use y in \<open>simp add: uint_of_c_int\<close>)
  moreover have "y = uint x" if "uint x < 2 ^ 31"
    unfolding y_def to_c_int_def using that by (intro signed_take_bit_int_eq_self) (smt (verit) uint_ge_0 zero_le_power)+
  moreover have "y = uint x - 2 ^ 64" if "2 ^ 64 - 2 ^ 31 \<le> uint x"
  proof -
    have "take_bit 32 (uint x) = take_bit 32 (uint x - 2 ^ 64)"
      by (simp add: take_bit_eq_mod mod_diff_eq [symmetric, of "uint x"])
    then have "signed_take_bit 31 (uint x) = signed_take_bit 31 (uint x - 2 ^ 64)"
      by (simp add: signed_take_bit_eq_iff_take_bit_eq)
    also have "\<dots> = uint x - 2 ^ 64" using that u by (intro signed_take_bit_int_eq_self) simp_all
    finally show ?thesis by (simp add: y_def to_c_int_def)
  qed
  ultimately show ?thesis unfolding c y_def [symmetric] word_uint_eq_iff using y u by (auto split: if_splits)
qed

text \<open>The replay accounts the time between two commands once for every rank, as active where a bank
  of it is open and as idle otherwise. The amount passes through an \<open>int\<close>: an interval of 2 to
  the 31 cycles or more is not counted as it is.\<close>

theorem replay_accounts_time:
  assumes "replay_shape cfg rp"
  shows "okE (\<lambda>rp'. \<forall>i j. 0 \<le> i \<and> i < channels cfg \<and> 0 \<le> j \<and> j < ranks cfg \<longrightarrow>
      rank_time rp' ''rank_active_cycles'' i j = rank_time rp ''rank_active_cycles'' i j +
        (if rank_open rp i j then of_c_int (to_c_int past) else 0) \<and>
      rank_time rp' ''all_bank_idle_cycles'' i j = rank_time rp ''all_bank_idle_cycles'' i j +
        (if rank_open rp i j then 0 else of_c_int (to_c_int past))) (account cfg past rp) \<and>
    (of_c_int (to_c_int past) = past \<longleftrightarrow> past < 2 ^ 31 \<or> 2 ^ 64 - 2 ^ 31 \<le> past)"
proof
  show "okE (\<lambda>rp'. \<forall>i j. 0 \<le> i \<and> i < channels cfg \<and> 0 \<le> j \<and> j < ranks cfg \<longrightarrow>
      rank_time rp' ''rank_active_cycles'' i j = rank_time rp ''rank_active_cycles'' i j +
        (if rank_open rp i j then of_c_int (to_c_int past) else 0) \<and>
      rank_time rp' ''all_bank_idle_cycles'' i j = rank_time rp ''all_bank_idle_cycles'' i j +
        (if rank_open rp i j then 0 else of_c_int (to_c_int past))) (account cfg past rp)"
    by (rule okE_mono [OF account_ok [OF assms]]) (auto simp: time_names_def in_ranks_def time_name_def)
  show "of_c_int (to_c_int past) = past \<longleftrightarrow> past < 2 ^ 31 \<or> 2 ^ 64 - 2 ^ 31 \<le> past" by (rule int_round_trip)
qed

theorem replay_accounts_time_witness:
  "okE (\<lambda>rp. rank_time rp ''all_bank_idle_cycles'' 0 1 = 1000)
     (account ex_cfg 1000 \<lparr>channel_stats = [SimpleStats ex_cfg], thermal_calc = plan_state ex_hbm ex_hbm_plan,
        bank_active = closed_banks ex_cfg, last_clk = 0, timed_commands = []\<rparr>)"
proof -
  let ?rp = "\<lparr>channel_stats = [SimpleStats ex_cfg], thermal_calc = plan_state ex_hbm ex_hbm_plan,
        bank_active = closed_banks ex_cfg, last_clk = 0, timed_commands = []\<rparr>"
  have c: "channels ex_cfg = 1" "ranks ex_cfg = 2" by (simp_all add: ex_cfg_def)
  have v: "um_ref [] (epoch_vec_counters (SimpleStats ex_cfg)) n = [0, 0]" if "n \<in> time_names" for n
    using that by (auto simp: init_stats_fields time_names_def um_ref_def c numeral_2_eq_2)
  have s: "replay_shape ex_cfg ?rp"
    by (auto simp: replay_shape_def v c closed_banks_def vec3_replicate_def)
  have "\<not> rank_open ?rp 0 1" "rank_time ?rp ''all_bank_idle_cycles'' 0 1 = 0" "of_c_int (to_c_int 1000) = 1000"
    using v [of "''all_bank_idle_cycles''"]
    by (simp_all add: rank_open_def closed_banks_def c vec3_replicate_def rank_time_def time_names_def int_round_trip word_less_def)
  with replay_accounts_time [OF s, of 1000] show ?thesis
    by (auto simp: c elim!: okE_mono dest: spec [of _ 1])
qed

end
