(* ===== verification/Thermal_Commands.thy ===== *)
theory Thermal_Commands
  imports Thermal_Epoch
begin

text \<open>
  Where the thermal calculator books the energy of a command on a stack of memory dies (HBM): the
  cells of a bank, and the frame of every booking. A command whose address fits the configuration
  never leaves the map of the chip, and changes only the cells of the banks it concerns.
\<close>

section \<open>Frames\<close>

text \<open>Two maps that differ at most at the cells of a set.\<close>

definition same_outside :: "int set \<Rightarrow> double list list \<Rightarrow> double list list \<Rightarrow> bool" where
  "same_outside R m m' \<longleftrightarrow> length m' = length m \<and>
     (\<forall>k < length m. length (m' ! k) = length (m ! k) \<and>
       (\<forall>i < length (m ! k). int i \<notin> R \<longrightarrow> m' ! k ! i = m ! k ! i))"

lemma same_outside_refl [simp, intro]: "same_outside R m m"
  by (simp add: same_outside_def)

lemma same_outside_trans: "same_outside R a b \<Longrightarrow> same_outside R b c \<Longrightarrow> same_outside R a c"
  by (simp add: same_outside_def)

lemma same_outside_mono: "same_outside R a b \<Longrightarrow> R \<subseteq> S \<Longrightarrow> same_outside S a b"
  by (auto simp: same_outside_def)

lemma same_outside_shape: "same_outside R m m' \<Longrightarrow> map_shape tc m \<Longrightarrow> map_shape tc m'"
  by (simp add: same_outside_def map_shape_def all_set_conv_all_nth)

lemma map_add_frame:
  assumes "map_add k idx e m = Inr m'"
  shows "same_outside {idx} m m'"
  using assms by (auto simp: map_add_def bindE_eq_Inr vget_eq_Inr vset_eq_Inr same_outside_def nth_list_update)

definition modifies :: "int set \<Rightarrow> thermal \<Rightarrow> thermal \<Rightarrow> bool" where
  "modifies R tc tc' \<longleftrightarrow> (\<exists>am cm rc. tc' = tc\<lparr>accu_Pmap := am, cur_Pmap := cm, refresh_count := rc\<rparr> \<and>
     same_outside R (accu_Pmap tc) am \<and> same_outside R (cur_Pmap tc) cm)"

lemma modifiesI:
  assumes "tc' = tc\<lparr>accu_Pmap := am, cur_Pmap := cm, refresh_count := rc\<rparr>"
    and "same_outside R (accu_Pmap tc) am" and "same_outside R (cur_Pmap tc) cm"
  shows "modifies R tc tc'"
  using assms unfolding modifies_def by blast

lemma modifies_refl [simp, intro]: "modifies R tc tc"
  by (rule modifiesI [where am = "accu_Pmap tc" and cm = "cur_Pmap tc" and rc = "refresh_count tc"]) simp_all

lemma modifies_trans:
  assumes "modifies R a b" and "modifies R b c"
  shows "modifies R a c"
proof -
  from assms(1) obtain am cm rc where b: "b = a\<lparr>accu_Pmap := am, cur_Pmap := cm, refresh_count := rc\<rparr>"
    "same_outside R (accu_Pmap a) am" "same_outside R (cur_Pmap a) cm" unfolding modifies_def by blast
  from assms(2) obtain am' cm' rc' where c: "c = b\<lparr>accu_Pmap := am', cur_Pmap := cm', refresh_count := rc'\<rparr>"
    "same_outside R (accu_Pmap b) am'" "same_outside R (cur_Pmap b) cm'" unfolding modifies_def by blast
  have "c = a\<lparr>accu_Pmap := am', cur_Pmap := cm', refresh_count := rc'\<rparr>" by (simp add: b(1) c(1))
  then show ?thesis
    by (rule modifiesI) (use b c(2,3) in \<open>auto intro: same_outside_trans\<close>)
qed

lemma modifies_mono: "modifies R a b \<Longrightarrow> R \<subseteq> S \<Longrightarrow> modifies S a b"
  unfolding modifies_def by (blast intro: same_outside_mono)

lemma modifies_cell:
  assumes "modifies R tc tc'" and "map_shape tc (cur_Pmap tc)" "0 \<le> k" "k < num_case tc"
    and "0 \<le> i" "i < dimX tc * dimY tc * numP tc" "i \<notin> R"
  shows "cur_Pmap tc' ! nat k ! nat i = cur_Pmap tc ! nat k ! nat i"
proof -
  obtain cm where "cur_Pmap tc' = cm" "same_outside R (cur_Pmap tc) cm" using assms(1) by (auto simp: modifies_def)
  moreover have "nat k < length (cur_Pmap tc)" using assms(2-4) by (simp add: map_shape_def nat_less_iff)
  moreover from this have "int (length (cur_Pmap tc ! nat k)) = dimX tc * dimY tc * numP tc"
    using assms(2) by (simp add: map_shape_def)
  ultimately show ?thesis using assms(5-7) by (simp add: same_outside_def nat_less_iff)
qed

text \<open>A loop whose body stays in a frame, with an invariant that every step keeps.\<close>

lemma modifies_foldE:
  assumes "P s" and "\<And>x t. x \<in> set xs \<Longrightarrow> P t \<Longrightarrow> okE (\<lambda>t'. P t' \<and> modifies R t t') (f x t)"
  shows "okE (\<lambda>s'. P s' \<and> modifies R s s') (foldE f xs s)"
proof (rule okE_foldE)
  fix x t assume "x \<in> set xs" and t: "P t \<and> modifies R s t"
  then have "okE (\<lambda>t'. P t' \<and> modifies R t t') (f x t)" using assms(2) by blast
  then show "okE (\<lambda>t'. P t' \<and> modifies R s t') (f x t)"
    by (rule okE_mono) (use t in \<open>auto intro: modifies_trans\<close>)
qed (use assms(1) in simp)

section \<open>The cells of a bank\<close>

text \<open>A stack of dies whose sizes fit the plan, with the default location mapping.\<close>

definition hbm_fits :: "thermal_config \<Rightarrow> bool" where
  "hbm_fits c \<longleftrightarrow> (let cfg = tc_cfg c; th = tc_th c in
     IsHBM cfg \<and> channels cfg \<le> 2 * num_dies cfg \<and>
     1 \<le> bankgroups cfg \<and> bankgroups cfg \<le> 4 \<and> 1 \<le> banks_per_group cfg \<and> banks_per_group cfg \<le> 4 \<and>
     banks cfg = bankgroups cfg * banks_per_group cfg \<and>
     1 \<le> mat_dim_x th \<and> 1 \<le> mat_dim_y th \<and> 1 \<le> num_x_grids th \<and> 1 \<le> num_y_grids th \<and>
     rows cfg = num_x_grids th * mat_dim_x th \<and> columns cfg * device_width cfg = num_y_grids th * mat_dim_y th \<and>
     row_tile th = 1 \<and> tile_row_num th = rows cfg \<and> num_row_refresh th dvd rows cfg \<and> 1 \<le> num_row_refresh th \<and>
     1 \<le> device_width cfg)"

lemma hbm_fitsD:
  assumes "hbm_fits c"
  shows "IsHBM (tc_cfg c)" "\<not> IsHMC (tc_cfg c)" "channels (tc_cfg c) \<le> 2 * num_dies (tc_cfg c)"
    and "1 \<le> bankgroups (tc_cfg c)" "bankgroups (tc_cfg c) \<le> 4"
    and "1 \<le> banks_per_group (tc_cfg c)" "banks_per_group (tc_cfg c) \<le> 4"
    and "banks (tc_cfg c) = bankgroups (tc_cfg c) * banks_per_group (tc_cfg c)"
    and "1 \<le> mat_dim_x (tc_th c)" "1 \<le> mat_dim_y (tc_th c)" "1 \<le> num_x_grids (tc_th c)" "1 \<le> num_y_grids (tc_th c)"
    and "rows (tc_cfg c) = num_x_grids (tc_th c) * mat_dim_x (tc_th c)"
    and "columns (tc_cfg c) * device_width (tc_cfg c) = num_y_grids (tc_th c) * mat_dim_y (tc_th c)"
    and "row_tile (tc_th c) = 1" "tile_row_num (tc_th c) = rows (tc_cfg c)"
    and "num_row_refresh (tc_th c) dvd rows (tc_cfg c)" "1 \<le> num_row_refresh (tc_th c)" "1 \<le> device_width (tc_cfg c)"
  using assms by (auto simp: hbm_fits_def Let_def IsHBM_def IsHMC_def)

lemma hbm_rows_pos:
  assumes "hbm_fits c"
  shows "1 \<le> rows (tc_cfg c)"
  using mult_mono [of 1 "num_x_grids (tc_th c)" 1 "mat_dim_x (tc_th c)"] hbm_fitsD(9,11,13) [OF assms] by simp

text \<open>The positions of a refresh are below the last row.\<close>

definition refresh_below :: "thermal_config \<Rightarrow> int list list \<Rightarrow> bool" where
  "refresh_below c rc \<longleftrightarrow> int (length rc) = channels (tc_cfg c) * ranks (tc_cfg c) \<and>
     (\<forall>ns \<in> set rc. int (length ns) = banks (tc_cfg c) \<and>
       (\<forall>n \<in> set ns. 0 \<le> n \<and> (n + 1) * num_row_refresh (tc_th c) \<le> rows (tc_cfg c)))"

definition hbm_state :: "thermal_config \<Rightarrow> thermal \<Rightarrow> bool" where
  "hbm_state c tc \<longleftrightarrow> numP tc = num_dies (tc_cfg c) + 1 \<and> dimX tc = 8 * num_x_grids (tc_th c) \<and>
     dimY tc = 4 * num_y_grids (tc_th c) \<and> bank_x tc = 8 \<and> bank_y tc = 2 \<and> num_case tc = 1 \<and> phy_map tc = None \<and>
     map_shape tc (accu_Pmap tc) \<and> map_shape tc (cur_Pmap tc) \<and> refresh_below c (refresh_count tc)"

text \<open>The part of a bank whose rows of cells start below a given bit of a row.\<close>

definition bank_cell :: "thermal_config \<Rightarrow> int \<Rightarrow> int \<Rightarrow> int \<Rightarrow> int \<Rightarrow> int \<Rightarrow> int" where
  "bank_cell c ch bg ba x y =
     (let nx = num_x_grids (tc_th c); ny = num_y_grids (tc_th c) in
      ch div 2 * (8 * nx * (4 * ny)) + ((ch mod 2 * 2 + ba mod 2) * ny + y) * (8 * nx) + ((bg * 2 + ba div 2) * nx + x))"

definition bank_part :: "thermal_config \<Rightarrow> int \<Rightarrow> int \<Rightarrow> int \<Rightarrow> int \<Rightarrow> int set" where
  "bank_part c ch bg ba w = {bank_cell c ch bg ba x y | x y.
     0 \<le> x \<and> x < num_x_grids (tc_th c) \<and> 0 \<le> y \<and> y < num_y_grids (tc_th c) \<and> y * mat_dim_y (tc_th c) < w}"

definition bank_cells :: "thermal_config \<Rightarrow> int \<Rightarrow> int \<Rightarrow> int \<Rightarrow> int set" where
  "bank_cells c ch bg ba = {bank_cell c ch bg ba x y | x y.
     0 \<le> x \<and> x < num_x_grids (tc_th c) \<and> 0 \<le> y \<and> y < num_y_grids (tc_th c)}"

lemma bank_partI:
  "0 \<le> x \<Longrightarrow> x < num_x_grids (tc_th c) \<Longrightarrow> 0 \<le> y \<Longrightarrow> y < num_y_grids (tc_th c) \<Longrightarrow> y * mat_dim_y (tc_th c) < w \<Longrightarrow>
   i = bank_cell c ch bg ba x y \<Longrightarrow> i \<in> bank_part c ch bg ba w"
  unfolding bank_part_def by blast

lemma bank_cellsI:
  "0 \<le> x \<Longrightarrow> x < num_x_grids (tc_th c) \<Longrightarrow> 0 \<le> y \<Longrightarrow> y < num_y_grids (tc_th c) \<Longrightarrow>
   i = bank_cell c ch bg ba x y \<Longrightarrow> i \<in> bank_cells c ch bg ba"
  unfolding bank_cells_def by blast

lemma bank_part_subset: "bank_part c ch bg ba w \<subseteq> bank_cells c ch bg ba"
  unfolding bank_part_def bank_cells_def by blast

lemma block_bound:
  assumes "0 \<le> q" "q < (m::int)" "0 \<le> x" "x < n"
  shows "0 \<le> q * n + x" and "q * n + x < m * n"
  using assms cell_bounds(1,2) by blast+

lemma block_unique:
  assumes "q * n + x = q' * n + x'" "0 \<le> x" "x < (n::int)" "0 \<le> x'" "x' < n"
  shows "q = q' \<and> x = x'"
proof -
  have "q = (q * n + x) div n" "q' = (q' * n + x') div n" using assms(2-5) by simp_all
  then have "q = q'" using assms(1) by simp
  then show ?thesis using assms(1) by simp
qed

lemma group_place:
  assumes "0 \<le> bg" "bg < (4::int)" "0 \<le> ba" "ba < 4"
  shows "0 \<le> bg * 2 + ba div 2" "bg * 2 + ba div 2 < 8"
  using assms by linarith+

lemma bank_place:
  shows "0 \<le> (ch::int) mod 2 * 2 + ba mod 2" "ch mod 2 * 2 + ba mod 2 < 4"
  using pos_mod_bound [of 2 ch] pos_mod_bound [of 2 ba] by simp_all

lemma bank_place_unique:
  assumes "bg * 2 + ba div 2 = bg' * 2 + ba' div 2" and "ch mod 2 * 2 + ba mod 2 = ch' mod 2 * 2 + (ba'::int) mod (2::int)"
    and "0 \<le> ba" "ba < 4" "0 \<le> ba'" "ba' < 4"
  shows "bg = bg' \<and> ba = ba' \<and> ch mod 2 = ch' mod 2"
proof -
  have "0 \<le> ba div 2" "ba div 2 < 2" "0 \<le> ba' div 2" "ba' div 2 < 2" using assms(3-6) by linarith+
  from block_unique [OF assms(1) this] have d: "bg = bg'" "ba div 2 = ba' div 2" by simp_all
  from block_unique [OF assms(2)] have m: "ch mod 2 = ch' mod 2" "ba mod 2 = ba' mod 2" by simp_all
  have "ba = ba div 2 * 2 + ba mod 2" "ba' = ba' div 2 * 2 + ba' mod 2" by simp_all
  then show ?thesis using d m by simp
qed

lemma bank_cells_below:
  assumes f: "hbm_fits c" and "0 \<le> ch" "ch div 2 < n"
    and "0 \<le> bg" "bg < bankgroups (tc_cfg c)" "0 \<le> ba" "ba < banks_per_group (tc_cfg c)" and "i \<in> bank_cells c ch bg ba"
  shows "0 \<le> i" and "i < 8 * num_x_grids (tc_th c) * (4 * num_y_grids (tc_th c)) * n"
proof -
  define nx ny where "nx = num_x_grids (tc_th c)" and "ny = num_y_grids (tc_th c)"
  obtain x y where i: "i = bank_cell c ch bg ba x y" and xy: "0 \<le> x" "x < nx" "0 \<le> y" "y < ny"
    using assms(8) by (auto simp: bank_cells_def nx_def ny_def)
  have g: "0 \<le> bg * 2 + ba div 2" "bg * 2 + ba div 2 < 8" using group_place assms(4-7) hbm_fitsD(5,7) [OF f] by simp_all
  note X = block_bound [OF g xy(1,2)]
  note Y = block_bound [OF bank_place xy(3,4), of ch ba]
  have l: "0 \<le> ch div 2" "ch div 2 < n" using assms(2,3) by simp_all
  show "0 \<le> i" "i < 8 * num_x_grids (tc_th c) * (4 * num_y_grids (tc_th c)) * n"
    using cell_index [OF X Y l] by (simp_all add: i bank_cell_def Let_def flip: nx_def ny_def)
qed

lemma bank_cells_in_map:
  assumes f: "hbm_fits c" and "0 \<le> ch" "ch < channels (tc_cfg c)"
    and "0 \<le> bg" "bg < bankgroups (tc_cfg c)" "0 \<le> ba" "ba < banks_per_group (tc_cfg c)" and "i \<in> bank_cells c ch bg ba"
  shows "0 \<le> i" and "i < 8 * num_x_grids (tc_th c) * (4 * num_y_grids (tc_th c)) * (num_dies (tc_cfg c) + 1)"
  using bank_cells_below [OF f assms(2) _ assms(4-8), of "num_dies (tc_cfg c) + 1"] assms(2,3) hbm_fitsD(3) [OF f] by simp_all

lemma bank_cell_unique:
  assumes f: "hbm_fits c" and "0 \<le> bg" "bg < bankgroups (tc_cfg c)" "0 \<le> ba" "ba < banks_per_group (tc_cfg c)"
    and "0 \<le> bg'" "bg' < bankgroups (tc_cfg c)" "0 \<le> ba'" "ba' < banks_per_group (tc_cfg c)"
    and xy: "0 \<le> x" "x < num_x_grids (tc_th c)" "0 \<le> y" "y < num_y_grids (tc_th c)"
    and xy': "0 \<le> x'" "x' < num_x_grids (tc_th c)" "0 \<le> y'" "y' < num_y_grids (tc_th c)"
    and eq: "bank_cell c ch bg ba x y = bank_cell c ch' bg' ba' x' y'"
  shows "ch = ch' \<and> bg = bg' \<and> ba = ba' \<and> x = x' \<and> y = y'"
proof -
  define nx ny where "nx = num_x_grids (tc_th c)" and "ny = num_y_grids (tc_th c)"
  note xy = xy [folded nx_def ny_def] and xy' = xy' [folded nx_def ny_def]
  have g: "0 \<le> bg * 2 + ba div 2" "bg * 2 + ba div 2 < 8" and g': "0 \<le> bg' * 2 + ba' div 2" "bg' * 2 + ba' div 2 < 8"
    using group_place assms(2-9) hbm_fitsD(5,7) [OF f] by simp_all
  note X = block_bound [OF g xy(1,2)] and X' = block_bound [OF g' xy'(1,2)]
  note Y = block_bound [OF bank_place xy(3,4), of ch ba] and Y' = block_bound [OF bank_place xy'(3,4), of ch' ba']
  have "(ch div 2 * (4 * ny) + ((ch mod 2 * 2 + ba mod 2) * ny + y)) * (8 * nx) + ((bg * 2 + ba div 2) * nx + x) =
      (ch' div 2 * (4 * ny) + ((ch' mod 2 * 2 + ba' mod 2) * ny + y')) * (8 * nx) + ((bg' * 2 + ba' div 2) * nx + x')"
    using eq by (simp add: bank_cell_def Let_def algebra_simps flip: nx_def ny_def)
  from block_unique [OF this X X'] have
    "ch div 2 * (4 * ny) + ((ch mod 2 * 2 + ba mod 2) * ny + y) = ch' div 2 * (4 * ny) + ((ch' mod 2 * 2 + ba' mod 2) * ny + y')"
    and q: "(bg * 2 + ba div 2) * nx + x = (bg' * 2 + ba' div 2) * nx + x'" by simp_all
  from block_unique [OF this(1) Y Y'] have l: "ch div 2 = ch' div 2"
    and r: "(ch mod 2 * 2 + ba mod 2) * ny + y = (ch' mod 2 * 2 + ba' mod 2) * ny + y'" by simp_all
  from block_unique [OF q xy(1,2) xy'(1,2)] block_unique [OF r xy(3,4) xy'(3,4)]
  have "bg * 2 + ba div 2 = bg' * 2 + ba' div 2" "ch mod 2 * 2 + ba mod 2 = ch' mod 2 * 2 + ba' mod 2" "x = x'" "y = y'" by simp_all
  from bank_place_unique [OF this(1,2)] have "bg = bg' \<and> ba = ba' \<and> ch mod 2 = ch' mod 2"
    using assms(4,5,8,9) hbm_fitsD(7) [OF f] by simp
  moreover have "ch = ch div 2 * 2 + ch mod 2" "ch' = ch' div 2 * 2 + ch' mod 2" by simp_all
  ultimately show ?thesis using l \<open>x = x'\<close> \<open>y = y'\<close> by simp
qed

section \<open>Booking\<close>

lemma add_cell_frame:
  assumes st: "hbm_state c tc" and "i \<in> R" and "0 \<le> i"
    and "i < 8 * num_x_grids (tc_th c) * (4 * num_y_grids (tc_th c)) * (num_dies (tc_cfg c) + 1)"
  shows "okE (\<lambda>tc'. hbm_state c tc' \<and> modifies R tc tc') (add_cell 0 i e tc)"
proof -
  have shape: "map_shape tc (accu_Pmap tc)" "map_shape tc (cur_Pmap tc)" "0 < num_case tc" "i < dimX tc * dimY tc * numP tc"
    using st assms(4) by (simp_all add: hbm_state_def)
  obtain am where am: "map_add 0 i e (accu_Pmap tc) = Inr am" "map_shape tc am"
    using map_add_ok [OF shape(1) order.refl shape(3) assms(3) shape(4)] by (auto simp: okE_iff)
  obtain cm where cm: "map_add 0 i e (cur_Pmap tc) = Inr cm" "map_shape tc cm"
    using map_add_ok [OF shape(2) order.refl shape(3) assms(3) shape(4)] by (auto simp: okE_iff)
  have "modifies R tc (tc\<lparr>accu_Pmap := am, cur_Pmap := cm\<rparr>)"
    by (rule modifiesI [where am = am and cm = cm and rc = "refresh_count tc"])
      (use map_add_frame [OF am(1)] map_add_frame [OF cm(1)] assms(2) in \<open>auto intro: same_outside_mono\<close>)
  moreover have "hbm_state c (tc\<lparr>accu_Pmap := am, cur_Pmap := cm\<rparr>)"
    using st am(2) cm(2) by (simp add: hbm_state_def map_shape_def)
  ultimately show ?thesis using am(1) cm(1) by (simp add: add_cell_def)
qed

lemma hbm_places:
  assumes "hbm_fits c" and "0 \<le> ch" and "0 \<le> ba"
  shows "MapToVault c tc ch = Inr (0, ch mod 2)" and "MapToBank c tc bg ba = Inr (bg * 2 + ba div 2, ba mod 2)"
    and "MapToZ c tc ch ba' = Inr (ch div 2)"
  using assms hbm_fitsD(1,2) [OF assms(1)]
  by (simp_all add: MapToVault_def MapToBank_def MapToZ_def Let_def sdiv_nonneg smod_nonneg)

lemma div_times_le: "0 < n \<Longrightarrow> r div n * n \<le> (r::int)"
  using div_mult_mod_eq [of r n] pos_mod_sign [of n r] by linarith

lemma div_below:
  assumes "0 < n" and "r < m * (n::int)"
  shows "r div n < m"
proof (rule ccontr)
  assume "\<not> r div n < m"
  then have "m * n \<le> r div n * n" using assms(1) by simp
  also have "\<dots> \<le> r" using div_mult_mod_eq [of r n] pos_mod_sign [OF assms(1), of r] by linarith
  finally show False using assms(2) by simp
qed

lemma mapE_all: "(\<And>x. x \<in> set xs \<Longrightarrow> okE P (f x)) \<Longrightarrow> okE (\<lambda>ys. \<forall>y \<in> set ys. P y) (mapE f xs)"
  using mapE_okE [of xs P f] by (simp add: okE_iff) blast

lemma hbm_grid_x:
  assumes f: "hbm_fits c" and "0 \<le> r" "r < rows (tc_cfg c)"
  obtains x where "grid_x c r = Inr x" and "0 \<le> x" and "x < num_x_grids (tc_th c)"
proof
  note d = hbm_fitsD [OF f]
  have "0 < mat_dim_x (tc_th c)" using d(9) by simp
  then show "grid_x c r = Inr (r div mat_dim_x (tc_th c))" "0 \<le> r div mat_dim_x (tc_th c)" "r div mat_dim_x (tc_th c) < num_x_grids (tc_th c)"
    using assms(2,3) d(13,15) by (simp_all add: grid_x_def idiv_def sdiv_nonneg pos_imp_zdiv_nonneg_iff div_below)
qed

lemma hbm_grid_y:
  assumes f: "hbm_fits c" and "0 \<le> r" "r < rows (tc_cfg c)" and "0 \<le> col" "col < columns (tc_cfg c) * device_width (tc_cfg c)"
  obtains y where "grid_y c r col = Inr y" and "0 \<le> y" and "y < num_y_grids (tc_th c)" and "y * mat_dim_y (tc_th c) \<le> col"
proof
  note d = hbm_fitsD [OF f]
  have p: "0 < mat_dim_y (tc_th c)" "0 < rows (tc_cfg c)" using d(10) hbm_rows_pos [OF f] by simp_all
  then show "grid_y c r col = Inr (col div mat_dim_y (tc_th c))" "0 \<le> col div mat_dim_y (tc_th c)"
      "col div mat_dim_y (tc_th c) < num_y_grids (tc_th c)" "col div mat_dim_y (tc_th c) * mat_dim_y (tc_th c) \<le> col"
    using assms(2-5) d(12,14,15,16)
    by (simp_all add: grid_y_def idiv_def sdiv_nonneg pos_imp_zdiv_nonneg_iff div_below div_times_le)
qed

text \<open>The index that the code computes for a grid place is a cell of the bank.\<close>

lemma hbm_index:
  assumes "hbm_state c tc"
  shows "ch div 2 * (dimX tc * dimY tc) + place_y c tc (ch mod 2) (ba mod 2) y * dimX tc + place_x c tc 0 (bg * 2 + ba div 2) x
    = bank_cell c ch bg ba x y"
  using assms by (simp add: hbm_state_def place_x_def place_y_def bank_cell_def Let_def algebra_simps)

definition address_fits :: "config \<Rightarrow> command \<Rightarrow> bool" where
  "address_fits cfg cmd \<longleftrightarrow> 0 \<le> Bankgroup cmd \<and> Bankgroup cmd < bankgroups cfg \<and> 0 \<le> Bank cmd \<and> Bank cmd < banks_per_group cfg \<and>
     0 \<le> Row cmd \<and> Row cmd < rows cfg \<and> 0 \<le> a_column (addr cmd) \<and> a_column (addr cmd) + BL cfg \<le> columns cfg"

lemma MapToXY_cells:
  assumes f: "hbm_fits c" and st: "hbm_state c tc" and a: "address_fits (tc_cfg c) cmd"
  shows "okE (\<lambda>cells. \<forall>(x, y) \<in> set cells. ch div 2 * (dimX tc * dimY tc) + y * dimX tc + x \<in> bank_part c ch (Bankgroup cmd) (Bank cmd)
      ((a_column (addr cmd) + BL (tc_cfg c)) * device_width (tc_cfg c)))
    (MapToXY c tc cmd (0, ch mod 2) (Bankgroup cmd * 2 + Bank cmd div 2, Bank cmd mod 2))"
proof -
  have r: "0 \<le> Row cmd" "Row cmd < rows (tc_cfg c)" and n: "phy_map tc = None" using a st by (simp_all add: address_fits_def hbm_state_def)
  obtain gx where gx: "grid_x c (Row cmd) = Inr gx" "0 \<le> gx" "gx < num_x_grids (tc_th c)" by (rule hbm_grid_x [OF f r])
  let ?cell = "\<lambda>gy. (place_x c tc 0 (Bankgroup cmd * 2 + Bank cmd div 2) gx, place_y c tc (ch mod 2) (Bank cmd mod 2) gy)"
  let ?P = "\<lambda>(x, y). ch div 2 * (dimX tc * dimY tc) + y * dimX tc + x \<in> bank_part c ch (Bankgroup cmd) (Bank cmd)
    ((a_column (addr cmd) + BL (tc_cfg c)) * device_width (tc_cfg c))"
  have beat: "okE ?P (bindE (grid_y c (Row cmd) ((a_column (addr cmd) + i) * device_width (tc_cfg c) + j)) (\<lambda>gy. Inr (?cell gy)))"
    if "0 \<le> i" "i < BL (tc_cfg c)" "0 \<le> j" "j < device_width (tc_cfg c)" for i j
  proof -
    have "0 \<le> a_column (addr cmd) + i" "a_column (addr cmd) + i < columns (tc_cfg c)" using a that by (simp_all add: address_fits_def)
    note col = block_bound [OF this that(3,4)]
    obtain gy where "grid_y c (Row cmd) ((a_column (addr cmd) + i) * device_width (tc_cfg c) + j) = Inr gy"
      "0 \<le> gy" "gy < num_y_grids (tc_th c)" "gy * mat_dim_y (tc_th c) \<le> (a_column (addr cmd) + i) * device_width (tc_cfg c) + j"
      by (rule hbm_grid_y [OF f r col])
    moreover have "(a_column (addr cmd) + i) * device_width (tc_cfg c) + j < (a_column (addr cmd) + BL (tc_cfg c)) * device_width (tc_cfg c)"
      using that a by (intro block_bound(2)) (simp_all add: address_fits_def)
    ultimately show ?thesis using gx(2,3) by (simp add: hbm_index [OF st] bank_partI)
  qed
  have beats: "okE (\<lambda>row. \<forall>cell \<in> set row. ?P cell) (mapE (\<lambda>j. bindE (grid_y c (Row cmd) ((a_column (addr cmd) + i) * device_width (tc_cfg c) + j))
      (\<lambda>gy. Inr (?cell gy))) (indices (device_width (tc_cfg c))))" if "0 \<le> i" "i < BL (tc_cfg c)" for i
    by (rule mapE_all) (use beat that in auto)
  have "okE (\<lambda>rows. \<forall>row \<in> set rows. \<forall>cell \<in> set row. ?P cell) (mapE (\<lambda>i. mapE (\<lambda>j. bindE (grid_y c (Row cmd)
      ((a_column (addr cmd) + i) * device_width (tc_cfg c) + j)) (\<lambda>gy. Inr (?cell gy))) (indices (device_width (tc_cfg c)))) (indices (BL (tc_cfg c))))"
    by (rule mapE_all) (use beats in simp)
  then show ?thesis unfolding MapToXY_def Let_def gx(1) n
    by (auto simp: GetPhyAddress_def okE_iff)
qed

lemma bank_cell_frame:
  assumes "hbm_fits c" and "0 \<le> ch" "ch < channels (tc_cfg c)" and "hbm_state c tc"
    and "0 \<le> bg" "bg < bankgroups (tc_cfg c)" "0 \<le> ba" "ba < banks_per_group (tc_cfg c)" and "i \<in> R" "R \<subseteq> bank_cells c ch bg ba"
  shows "okE (\<lambda>tc'. hbm_state c tc' \<and> modifies R tc tc') (add_cell 0 i e tc)"
  using add_cell_frame [OF assms(4,9)] bank_cells_in_map [OF assms(1-3,5-8), of i] assms(9,10) by blast

lemma Location_frame:
  assumes f: "hbm_fits c" and ch: "0 \<le> ch" "ch < channels (tc_cfg c)" and st: "hbm_state c tc" and a: "address_fits (tc_cfg c) cmd"
  shows "okE (\<lambda>tc'. hbm_state c tc' \<and> modifies (bank_part c ch (Bankgroup cmd) (Bank cmd)
      ((a_column (addr cmd) + BL (tc_cfg c)) * device_width (tc_cfg c))) tc tc')
    (LocationMappingANDaddEnergy c ch cmd 0 e tc)"
proof -
  let ?R = "bank_part c ch (Bankgroup cmd) (Bank cmd) ((a_column (addr cmd) + BL (tc_cfg c)) * device_width (tc_cfg c))"
  have b: "0 \<le> Bankgroup cmd" "Bankgroup cmd < bankgroups (tc_cfg c)" "0 \<le> Bank cmd" "Bank cmd < banks_per_group (tc_cfg c)"
    using a by (simp_all add: address_fits_def)
  obtain cells where cells: "MapToXY c tc cmd (0, ch mod 2) (Bankgroup cmd * 2 + Bank cmd div 2, Bank cmd mod 2) = Inr cells"
      "\<forall>(x, y) \<in> set cells. ch div 2 * (dimX tc * dimY tc) + y * dimX tc + x \<in> ?R"
    using MapToXY_cells [OF f st a] by (auto simp: okE_iff)
  have "okE (\<lambda>tc'. hbm_state c tc' \<and> modifies ?R tc tc') (foldE (\<lambda>(x, y). add_cell 0 (ch div 2 * dimX tc * dimY tc + y * dimX tc + x)
      (ddiv e (d_of_int (device_width (tc_cfg c))))) cells tc)"
    using cells(2) by (intro modifies_foldE st) (auto simp: mult.assoc intro!: bank_cell_frame [OF f ch _ b _ bank_part_subset])
  then show ?thesis
    using hbm_places [OF f ch(1) b(3), where tc = tc] cells(1) by (simp add: LocationMappingANDaddEnergy_def Let_def)
qed

lemma Location_RF_frame:
  assumes f: "hbm_fits c" and ch: "0 \<le> ch" "ch < channels (tc_cfg c)" and st: "hbm_state c tc"
    and ib: "0 \<le> ib" "ib < banks (tc_cfg c)" and r: "0 \<le> r" "r < rows (tc_cfg c)"
  shows "okE (\<lambda>tc'. hbm_state c tc' \<and>
      modifies (bank_cells c ch (ib div banks_per_group (tc_cfg c)) (ib mod banks_per_group (tc_cfg c))) tc tc')
    (LocationMappingANDaddEnergy_RF c ch cmd ib r 0 e tc)"
proof -
  note d = hbm_fitsD [OF f]
  define bg ba where "bg = ib div banks_per_group (tc_cfg c)" and "ba = ib mod banks_per_group (tc_cfg c)"
  have p: "0 < banks_per_group (tc_cfg c)" using d(6) by simp
  then have b: "0 \<le> bg" "bg < bankgroups (tc_cfg c)" "0 \<le> ba" "ba < banks_per_group (tc_cfg c)"
    using ib d(8) by (simp_all add: bg_def ba_def pos_imp_zdiv_nonneg_iff div_below)
  have div: "idiv ib (banks_per_group (tc_cfg c)) = Inr bg" "ib smod banks_per_group (tc_cfg c) = ba"
    using p ib by (simp_all add: idiv_def sdiv_nonneg smod_nonneg bg_def ba_def)
  obtain gx where gx: "grid_x c r = Inr gx" "0 \<le> gx" "gx < num_x_grids (tc_th c)" by (rule hbm_grid_x [OF f r])
  have gy: "grid_y c r 0 = Inr 0"
    using r d(10,15,16) hbm_rows_pos [OF f] by (simp add: grid_y_def idiv_def sdiv_nonneg)
  have y: "place_y c tc (ch mod 2) (ba mod 2) 0 + i = place_y c tc (ch mod 2) (ba mod 2) i" for i by (simp add: place_y_def)
  have "okE (\<lambda>tc'. hbm_state c tc' \<and> modifies (bank_cells c ch bg ba) tc tc') (foldE (\<lambda>i. add_cell 0 (ch div 2 * (dimX tc * dimY tc) +
      (place_y c tc (ch mod 2) (ba mod 2) 0 + i) * dimX tc + place_x c tc 0 (bg * 2 + ba div 2) gx) e) (indices (num_y_grids (tc_th c))) tc)"
    unfolding y by (intro modifies_foldE st)
      (auto intro!: bank_cell_frame [OF f ch _ b _ order.refl] bank_cellsI [OF gx(2,3) _ _ hbm_index [OF st]])
  moreover have "phy_map tc = None" using st by (simp add: hbm_state_def)
  ultimately show ?thesis
    using hbm_places [OF f ch(1) b(3), where tc = tc] gx(1) gy div
    by (simp add: LocationMappingANDaddEnergy_RF_def Let_def GetPhyAddress_def flip: bg_def ba_def)
qed

lemma next_refresh_frame:
  assumes f: "hbm_fits c" and st: "hbm_state c tc"
    and k: "0 \<le> k" "k < channels (tc_cfg c) * ranks (tc_cfg c)" and ib: "0 \<le> ib" "ib < banks (tc_cfg c)"
  shows "okE (\<lambda>(r, tc'). 0 \<le> r \<and> r + num_row_refresh (tc_th c) \<le> rows (tc_cfg c) \<and> hbm_state c tc' \<and> modifies R tc tc')
    (next_refresh c k ib tc)"
proof -
  define m where "m = num_row_refresh (tc_th c)"
  have rc: "refresh_below c (refresh_count tc)" using st by (simp add: hbm_state_def)
  have k': "nat k < length (refresh_count tc)" using rc k by (simp add: refresh_below_def nat_less_iff)
  define ns where "ns = refresh_count tc ! nat k"
  have ns: "ns \<in> set (refresh_count tc)" using k' by (simp add: ns_def)
  then have ib': "nat ib < length ns" using rc ib by (auto simp: refresh_below_def nat_less_iff)
  define n where "n = ns ! nat ib"
  have "n \<in> set ns" using ib' by (simp add: n_def)
  then have n: "0 \<le> n" "(n + 1) * m \<le> rows (tc_cfg c)" using rc ns by (auto simp: refresh_below_def m_def)
  define n' where "n' = (if (n + 1) * m = rows (tc_cfg c) then 0 else n + 1)"
  have n': "0 \<le> n'" "(n' + 1) * m \<le> rows (tc_cfg c)"
  proof -
    obtain q where q: "rows (tc_cfg c) = m * q" and m: "1 \<le> m" using hbm_fitsD(17,18) [OF f] by (auto simp: m_def elim: dvdE)
    have "1 \<le> q" using q m hbm_rows_pos [OF f] by (metis int_one_le_iff_zero_less mult.commute zero_less_mult_pos2 order_less_le_trans zero_less_one)
    moreover have "n + 1 \<le> q" using n(2) q m by (simp add: mult.commute)
    ultimately show "0 \<le> n'" "(n' + 1) * m \<le> rows (tc_cfg c)" using n(1) m q by (auto simp: n'_def mult.commute)
  qed
  have "next_refresh c k ib tc = Inr (n * m, tc\<lparr>refresh_count := (refresh_count tc)[nat k := ns[nat ib := n']]\<rparr>)"
    using k ib k' ib' by (simp add: next_refresh_def vget_def vset_def Let_def m_def n'_def ns_def n_def nat_less_iff)
  moreover have "refresh_below c ((refresh_count tc)[nat k := ns[nat ib := n']])"
    using rc n' k' ns ib' by (auto simp: refresh_below_def m_def dest!: set_update_subset_insert [THEN subsetD])
  moreover have "modifies R tc (tc\<lparr>refresh_count := (refresh_count tc)[nat k := ns[nat ib := n']]\<rparr>)"
    by (rule modifiesI [where am = "accu_Pmap tc" and cm = "cur_Pmap tc" and rc = "(refresh_count tc)[nat k := ns[nat ib := n']]"]) simp_all
  ultimately show ?thesis using st n hbm_fitsD(18) [OF f]
    by (simp add: hbm_state_def map_shape_def algebra_simps flip: m_def)
qed

definition group_cells :: "thermal_config \<Rightarrow> int \<Rightarrow> int \<Rightarrow> int set" where
  "group_cells c ch ib = bank_cells c ch (ib div banks_per_group (tc_cfg c)) (ib mod banks_per_group (tc_cfg c))"

lemma refresh_rows_frame:
  assumes f: "hbm_fits c" and ch: "0 \<le> ch" "ch < channels (tc_cfg c)" and st: "hbm_state c tc"
    and rk: "0 \<le> Rank cmd" "Rank cmd < ranks (tc_cfg c)" and ib: "0 \<le> ib" "ib < banks (tc_cfg c)"
  shows "okE (\<lambda>tc'. hbm_state c tc' \<and> modifies (group_cells c ch ib) tc tc') (refresh_rows c ch cmd 0 e ib tc)"
proof -
  have "0 \<le> ch * ranks (tc_cfg c) + Rank cmd" "ch * ranks (tc_cfg c) + Rank cmd < channels (tc_cfg c) * ranks (tc_cfg c)"
    using block_bound [OF ch rk] .
  from next_refresh_frame [OF f st this ib, of "group_cells c ch ib"] obtain r tc1 where
    n: "next_refresh c (ch * ranks (tc_cfg c) + Rank cmd) ib tc = Inr (r, tc1)" "0 \<le> r"
      "r + num_row_refresh (tc_th c) \<le> rows (tc_cfg c)" "hbm_state c tc1" "modifies (group_cells c ch ib) tc tc1"
    by (auto simp: okE_iff)
  have "okE (\<lambda>tc'. hbm_state c tc' \<and> modifies (group_cells c ch ib) tc1 tc')
      (foldE (\<lambda>k. LocationMappingANDaddEnergy_RF c ch cmd ib (r + k) 0 e) (indices (num_row_refresh (tc_th c))) tc1)"
    unfolding group_cells_def using n(2-4) by (intro modifies_foldE Location_RF_frame [OF f ch _ ib]) auto
  then show ?thesis unfolding refresh_rows_def n(1)
    by (auto elim!: okE_mono intro: modifies_trans [OF n(5)])
qed

section \<open>Commands\<close>

text \<open>What the simulator guarantees of a command that a controller issues.\<close>

definition cmd_fits :: "config \<Rightarrow> command \<Rightarrow> bool" where
  "cmd_fits cfg cmd \<longleftrightarrow>
     (cmd_type cmd = REFRESH \<or> cmd_type cmd = REFRESH_BANK \<longrightarrow> 0 \<le> Rank cmd \<and> Rank cmd < ranks cfg) \<and>
     (cmd_type cmd = REFRESH_BANK \<longrightarrow> 0 \<le> Bank cmd \<and> Bank cmd < banks_per_group cfg) \<and>
     (cmd_type cmd \<in> {READ, READ_PRECHARGE, WRITE, WRITE_PRECHARGE, ACTIVATE} \<longrightarrow> address_fits cfg cmd)"

definition energy_cells :: "thermal_config \<Rightarrow> int \<Rightarrow> command \<Rightarrow> int set" where
  "energy_cells c ch cmd =
     (if cmd_type cmd = REFRESH then \<Union>ib \<in> {0..<banks (tc_cfg c)}. group_cells c ch ib
      else if cmd_type cmd = REFRESH_BANK then bank_cells c ch 0 (Bank cmd)
      else if cmd_type cmd \<in> {READ, READ_PRECHARGE, WRITE, WRITE_PRECHARGE, ACTIVATE}
      then bank_part c ch (Bankgroup cmd) (Bank cmd) ((a_column (addr cmd) + BL (tc_cfg c)) * device_width (tc_cfg c)) else {})"

lemma UpdateCMDPower_frame:
  assumes f: "hbm_fits c" and ch: "0 \<le> ch" "ch < channels (tc_cfg c)" and st: "hbm_state c tc" and cmd: "cmd_fits (tc_cfg c) cmd"
  shows "okE (\<lambda>tc'. hbm_state c tc' \<and> modifies (energy_cells c ch cmd) tc tc') (UpdateCMDPower c ch cmd tc)"
proof -
  note d = hbm_fitsD [OF f]
  consider (ref) "cmd_type cmd = REFRESH" | (refb) "cmd_type cmd = REFRESH_BANK"
    | (data) "cmd_type cmd \<in> {READ, READ_PRECHARGE, WRITE, WRITE_PRECHARGE, ACTIVATE}"
    | (other) "cmd_type cmd \<in> {PRECHARGE, SREF_ENTER, SREF_EXIT, SIZE}"
    by (cases "cmd_type cmd") auto
  then show ?thesis
  proof cases
    case ref
    have "okE (\<lambda>tc'. hbm_state c tc' \<and> modifies (energy_cells c ch cmd) tc tc')
        (foldE (refresh_rows c ch cmd 0 e) (indices (banks (tc_cfg c))) tc)" for e
    proof (intro modifies_foldE st)
      fix ib t assume "ib \<in> set (indices (banks (tc_cfg c)))" and t: "hbm_state c t"
      then have ib: "0 \<le> ib" "ib < banks (tc_cfg c)" by simp_all
      have "0 \<le> Rank cmd" "Rank cmd < ranks (tc_cfg c)" using cmd ref by (simp_all add: cmd_fits_def)
      from refresh_rows_frame [OF f ch t this ib]
      show "okE (\<lambda>t'. hbm_state c t' \<and> modifies (energy_cells c ch cmd) t t') (refresh_rows c ch cmd 0 e ib t)"
        by (rule okE_mono) (use ib ref in \<open>auto simp: energy_cells_def elim!: modifies_mono\<close>)
    qed
    then show ?thesis using ref d(1) by (simp add: UpdateCMDPower_def Let_def)
  next
    case refb
    have r: "0 \<le> Rank cmd" "Rank cmd < ranks (tc_cfg c)" and b: "0 \<le> Bank cmd" "Bank cmd < banks_per_group (tc_cfg c)"
      using cmd refb by (simp_all add: cmd_fits_def)
    have "1 * banks_per_group (tc_cfg c) \<le> bankgroups (tc_cfg c) * banks_per_group (tc_cfg c)"
      by (rule mult_right_mono) (use d(4,6) in simp_all)
    then have "Bank cmd < banks (tc_cfg c)" using b(2) d(8) by linarith
    from refresh_rows_frame [OF f ch st r b(1) this] show ?thesis
      using refb d(1) b by (simp add: UpdateCMDPower_def Let_def energy_cells_def group_cells_def)
  next
    case data
    then have "address_fits (tc_cfg c) cmd" using cmd by (simp add: cmd_fits_def)
    from Location_frame [OF f ch st this] show ?thesis
      using data d(1) st by (auto simp: UpdateCMDPower_def Let_def energy_cells_def)
  next
    case other
    then show ?thesis using st by (auto simp: UpdateCMDPower_def Let_def split: command_type.splits)
  qed
qed

end
