(* ===== verification/Thermal_Places.thy ===== *)
theory Thermal_Places
  imports Thermal_Commands Stack_Config
begin

text \<open>
  What the commands of a stack of memory dies heat: never another bank than the ones they name,
  never a cell outside of the chip - but a burst always the lowest columns of its bank, and the
  refresh of a single bank always the first bank group.
\<close>

section \<open>The banks of a command\<close>

definition command_banks :: "config \<Rightarrow> int \<Rightarrow> command \<Rightarrow> (int \<times> int \<times> int) set" where
  "command_banks cfg ch cmd =
     (if cmd_type cmd = REFRESH then {ch} \<times> {0..<bankgroups cfg} \<times> {0..<banks_per_group cfg}
      else if cmd_type cmd = REFRESH_BANK then {(ch, 0, Bank cmd)}
      else if cmd_type cmd \<in> {READ, READ_PRECHARGE, WRITE, WRITE_PRECHARGE, ACTIVATE}
      then {(ch, Bankgroup cmd, Bank cmd)} else {})"

definition bank_exists :: "config \<Rightarrow> int \<times> int \<times> int \<Rightarrow> bool" where
  "bank_exists cfg = (\<lambda>(ch, bg, ba). 0 \<le> ch \<and> ch < channels cfg \<and>
     0 \<le> bg \<and> bg < bankgroups cfg \<and> 0 \<le> ba \<and> ba < banks_per_group cfg)"

lemma command_banks_exist:
  assumes "hbm_fits c" and "0 \<le> ch" "ch < channels (tc_cfg c)" and "cmd_fits (tc_cfg c) cmd" and "b \<in> command_banks (tc_cfg c) ch cmd"
  shows "bank_exists (tc_cfg c) b"
  using assms hbm_fitsD(4) [OF assms(1)]
  by (auto simp: command_banks_def bank_exists_def cmd_fits_def address_fits_def split: if_splits)

lemma energy_in_banks:
  assumes "hbm_fits c" and "i \<in> energy_cells c ch cmd"
  obtains k bg ba where "(k, bg, ba) \<in> command_banks (tc_cfg c) ch cmd" and "i \<in> bank_cells c k bg ba"
proof -
  note d = hbm_fitsD [OF assms(1)]
  have p: "0 < banks_per_group (tc_cfg c)" using d(6) by simp
  have group: "0 \<le> ib div banks_per_group (tc_cfg c) \<and> ib div banks_per_group (tc_cfg c) < bankgroups (tc_cfg c) \<and>
      0 \<le> ib mod banks_per_group (tc_cfg c) \<and> ib mod banks_per_group (tc_cfg c) < banks_per_group (tc_cfg c)"
    if "0 \<le> ib" "ib < banks (tc_cfg c)" for ib
    using that p d(8) by (simp add: pos_imp_zdiv_nonneg_iff div_below)
  show thesis
    using assms(2) that group bank_part_subset
    by (auto simp: energy_cells_def command_banks_def group_cells_def split: if_splits) blast+
qed

text \<open>A bank that the command does not name, and the layer of logic, stay untouched.\<close>

lemma other_bank_untouched:
  assumes f: "hbm_fits c" and "0 \<le> ch" "ch < channels (tc_cfg c)" and "cmd_fits (tc_cfg c) cmd"
    and "bank_exists (tc_cfg c) (k, bg, ba)" and "(k, bg, ba) \<notin> command_banks (tc_cfg c) ch cmd" and "i \<in> bank_cells c k bg ba"
  shows "i \<notin> energy_cells c ch cmd"
proof
  assume "i \<in> energy_cells c ch cmd"
  from energy_in_banks [OF f this] obtain k' bg' ba' where
    b: "(k', bg', ba') \<in> command_banks (tc_cfg c) ch cmd" and i: "i \<in> bank_cells c k' bg' ba'" .
  from i obtain x' y' where x': "i = bank_cell c k' bg' ba' x' y'" "0 \<le> x'" "x' < num_x_grids (tc_th c)" "0 \<le> y'" "y' < num_y_grids (tc_th c)"
    by (auto simp: bank_cells_def)
  from assms(7) obtain x y where x: "i = bank_cell c k bg ba x y" "0 \<le> x" "x < num_x_grids (tc_th c)" "0 \<le> y" "y < num_y_grids (tc_th c)"
    by (auto simp: bank_cells_def)
  have e: "0 \<le> bg" "bg < bankgroups (tc_cfg c)" "0 \<le> ba" "ba < banks_per_group (tc_cfg c)"
    "0 \<le> bg'" "bg' < bankgroups (tc_cfg c)" "0 \<le> ba'" "ba' < banks_per_group (tc_cfg c)"
    using command_banks_exist [OF assms(1-4) b] assms(5) by (simp_all add: bank_exists_def)
  have "bank_cell c k bg ba x y = bank_cell c k' bg' ba' x' y'" using x(1) x'(1) by simp
  from bank_cell_unique [OF f e x(2-5) x'(2-5) this] have "k' = k \<and> bg' = bg \<and> ba' = ba" by simp
  with b assms(6) show False by simp
qed

lemma logic_untouched:
  assumes f: "hbm_fits c" and "0 \<le> ch" "ch < channels (tc_cfg c)" and "cmd_fits (tc_cfg c) cmd"
    and "8 * num_x_grids (tc_th c) * (4 * num_y_grids (tc_th c)) * num_dies (tc_cfg c) \<le> i"
  shows "i \<notin> energy_cells c ch cmd"
proof
  assume "i \<in> energy_cells c ch cmd"
  from energy_in_banks [OF f this] obtain k bg ba where
    b: "(k, bg, ba) \<in> command_banks (tc_cfg c) ch cmd" and i: "i \<in> bank_cells c k bg ba" .
  from command_banks_exist [OF assms(1-4) b] have e: "0 \<le> k" "k < channels (tc_cfg c)" "0 \<le> bg" "bg < bankgroups (tc_cfg c)"
    "0 \<le> ba" "ba < banks_per_group (tc_cfg c)" by (simp_all add: bank_exists_def)
  then have "k div 2 < num_dies (tc_cfg c)" using hbm_fitsD(3) [OF f] by linarith
  from bank_cells_below(2) [OF f e(1) this e(3-6) i] assms(5) show False by simp
qed

text \<open>The power of a cell.\<close>

definition power_at_cell :: "thermal \<Rightarrow> int \<Rightarrow> double" where
  "power_at_cell tc i = cur_Pmap tc ! 0 ! nat i"

lemma modifies_power:
  assumes "modifies R tc tc'" and "hbm_state c tc" and "0 \<le> i"
    and "i < 8 * num_x_grids (tc_th c) * (4 * num_y_grids (tc_th c)) * (num_dies (tc_cfg c) + 1)" and "i \<notin> R"
  shows "power_at_cell tc' i = power_at_cell tc i"
  using modifies_cell [OF assms(1), of 0 i] assms(2-5) by (simp add: power_at_cell_def hbm_state_def)

section \<open>An example\<close>

lemma plan_state_places [simp]:
  "bank_x (plan_state c geo) = bank_x geo" "bank_y (plan_state c geo) = bank_y geo" "phy_map (plan_state c geo) = None"
  "refresh_count (plan_state c geo) = replicate (nat (channels (tc_cfg c) * ranks (tc_cfg c))) (replicate (nat (banks (tc_cfg c))) 0)"
  by (simp_all add: plan_state_def Let_def geometry.defs thermal.defs split: sum.splits prod.splits)

declare plan_state_sel [simp]

lemma plan_state_fits:
  assumes "numP geo = num_dies (tc_cfg c) + 1" "dimX geo = 8 * num_x_grids (tc_th c)" "dimY geo = 4 * num_y_grids (tc_th c)"
    and "bank_x geo = 8" "bank_y geo = 2" "num_case geo = 1" and "hbm_fits c"
    and "0 \<le> num_dies (tc_cfg c)" "0 \<le> channels (tc_cfg c)" "0 \<le> ranks (tc_cfg c)"
  shows "hbm_state c (plan_state c geo)"
proof -
  note d = hbm_fitsD [OF assms(7)]
  have "num_row_refresh (tc_th c) \<le> rows (tc_cfg c)" using zdvd_imp_le [OF d(17)] hbm_rows_pos [OF assms(7)] by simp
  moreover have "0 \<le> banks (tc_cfg c)" using d(4,6,8) by simp
  ultimately show ?thesis
    using assms d(11,12) by (auto simp: hbm_state_def map_shape_def refresh_below_def algebra_simps)
qed

lemma ex_stack_fits: "hbm_fits ex_stack"
  by (simp add: hbm_fits_def Let_def)

lemma ex_stack_state: "hbm_state ex_stack (plan_state ex_stack ex_stack_plan)"
  by (rule plan_state_fits) (simp_all add: ex_stack_fits)

section \<open>Properties\<close>

text \<open>On a stack of memory dies the booking of a command whose address fits the configuration never
  fails and keeps the state fit for the next command; it changes neither the power of any bank that the
  command does not name nor that of the logic layer.\<close>

theorem command_energy_in_place:
  assumes "hbm_fits c" and "0 \<le> ch" "ch < channels (tc_cfg c)" and "hbm_state c tc" and "cmd_fits (tc_cfg c) cmd"
  shows "\<exists>tc'. UpdateCMDPower c ch cmd tc = Inr tc' \<and> hbm_state c tc' \<and>
    (\<forall>b i. bank_exists (tc_cfg c) b \<and> b \<notin> command_banks (tc_cfg c) ch cmd \<and> i \<in> (case b of (k, bg, ba) \<Rightarrow> bank_cells c k bg ba) \<longrightarrow>
       power_at_cell tc' i = power_at_cell tc i) \<and>
    (\<forall>i. dimX tc * dimY tc * (numP tc - 1) \<le> i \<and> i < dimX tc * dimY tc * numP tc \<longrightarrow> power_at_cell tc' i = power_at_cell tc i)"
proof -
  obtain tc' where tc': "UpdateCMDPower c ch cmd tc = Inr tc'" "hbm_state c tc'" "modifies (energy_cells c ch cmd) tc tc'"
    using UpdateCMDPower_frame [OF assms] by (auto simp: okE_iff)
  have "power_at_cell tc' i = power_at_cell tc i"
    if "bank_exists (tc_cfg c) (k, bg, ba)" "(k, bg, ba) \<notin> command_banks (tc_cfg c) ch cmd" "i \<in> bank_cells c k bg ba" for k bg ba i
  proof -
    from that(1) have e: "0 \<le> k" "k < channels (tc_cfg c)" "0 \<le> bg" "bg < bankgroups (tc_cfg c)" "0 \<le> ba" "ba < banks_per_group (tc_cfg c)"
      by (simp_all add: bank_exists_def)
    from modifies_power [OF tc'(3) assms(4)] bank_cells_in_map [OF assms(1) e that(3)]
      other_bank_untouched [OF assms(1-3,5) that]
    show ?thesis by blast
  qed
  moreover have "power_at_cell tc' i = power_at_cell tc i"
    if "dimX tc * dimY tc * (numP tc - 1) \<le> i" "i < dimX tc * dimY tc * numP tc" for i
  proof -
    have i: "8 * num_x_grids (tc_th c) * (4 * num_y_grids (tc_th c)) * num_dies (tc_cfg c) \<le> i"
      "i < 8 * num_x_grids (tc_th c) * (4 * num_y_grids (tc_th c)) * (num_dies (tc_cfg c) + 1)"
      using that assms(4) by (simp_all add: hbm_state_def)
    have "0 \<le> num_dies (tc_cfg c)" using assms(2,3) hbm_fitsD(3) [OF assms(1)] by simp
    then have "0 \<le> 8 * num_x_grids (tc_th c) * (4 * num_y_grids (tc_th c)) * num_dies (tc_cfg c)"
      using hbm_fitsD(11,12) [OF assms(1)] by simp
    then have "0 \<le> i" using i(1) by (rule order.trans)
    from modifies_power [OF tc'(3) assms(4) this i(2) logic_untouched [OF assms(1-3,5) i(1)]] show ?thesis .
  qed
  ultimately show ?thesis using tc'(1,2) by auto
qed

theorem command_energy_in_place_witness:
  "\<exists>tc'. UpdateCMDPower ex_stack 3 (Command READ (Address 3 0 2 1 100 7) 0) (plan_state ex_stack ex_stack_plan) = Inr tc' \<and>
     power_at_cell tc' (bank_cell ex_stack 2 1 1 5 6) = dzero \<and> power_at_cell tc' (128 * 64 * 4) = dzero"
proof -
  let ?cmd = "Command READ (Address 3 0 2 1 100 7) 0"
  have "cmd_fits (tc_cfg ex_stack) ?cmd" by (simp add: cmd_fits_def address_fits_def)
  from command_energy_in_place [OF ex_stack_fits _ _ ex_stack_state this, of 3] obtain tc' where
    tc': "UpdateCMDPower ex_stack 3 ?cmd (plan_state ex_stack ex_stack_plan) = Inr tc'" and
    banks: "\<And>k bg ba i. bank_exists hbm_cfg (k, bg, ba) \<Longrightarrow> (k, bg, ba) \<notin> command_banks hbm_cfg 3 ?cmd \<Longrightarrow>
      i \<in> bank_cells ex_stack k bg ba \<Longrightarrow> power_at_cell tc' i = power_at_cell (plan_state ex_stack ex_stack_plan) i" and
    logic: "\<And>i. 32768 \<le> i \<Longrightarrow> i < 40960 \<Longrightarrow> power_at_cell tc' i = power_at_cell (plan_state ex_stack ex_stack_plan) i"
    by auto
  have "bank_cell ex_stack 2 1 1 5 6 \<in> bank_cells ex_stack 2 1 1" by (rule bank_cellsI [OF _ _ _ _ refl]) simp_all
  from banks [OF _ _ this] have "power_at_cell tc' (bank_cell ex_stack 2 1 1 5 6) = dzero"
    by (simp add: bank_exists_def command_banks_def power_at_cell_def bank_cell_def Let_def)
  moreover have "power_at_cell tc' 32768 = dzero" using logic [of 32768] by (simp add: power_at_cell_def)
  ultimately show ?thesis using tc' by simp
qed

lemma refresh_any_group:
  "LocationMappingANDaddEnergy_RF c ch (cmd\<lparr>addr := (addr cmd)\<lparr>a_bankgroup := g\<rparr>\<rparr>) = LocationMappingANDaddEnergy_RF c ch cmd"
  by (simp add: fun_eq_iff LocationMappingANDaddEnergy_RF_def Let_def)

text \<open>C23. The refresh of a single bank books its energy as if the bank were in the first bank group: the
  number of the bank within its group is taken for its number within the rank. The cells of the bank that
  is refreshed get nothing.\<close>

theorem refresh_bank_wrong_group:
  assumes "hbm_fits c" and "0 \<le> ch" "ch < channels (tc_cfg c)" and "hbm_state c tc"
    and "cmd_type cmd = REFRESH_BANK" and "0 \<le> Rank cmd" "Rank cmd < ranks (tc_cfg c)"
    and "0 < Bankgroup cmd" "Bankgroup cmd < bankgroups (tc_cfg c)" and "0 \<le> Bank cmd" "Bank cmd < banks_per_group (tc_cfg c)"
  shows "\<exists>tc'. UpdateCMDPower c ch cmd tc = Inr tc' \<and>
    UpdateCMDPower c ch (cmd\<lparr>addr := (addr cmd)\<lparr>a_bankgroup := 0\<rparr>\<rparr>) tc = Inr tc' \<and>
    (\<forall>i \<in> bank_cells c ch (Bankgroup cmd) (Bank cmd). power_at_cell tc' i = power_at_cell tc i)"
proof -
  have fits: "cmd_fits (tc_cfg c) cmd" using assms(5-7,10,11) by (simp add: cmd_fits_def)
  obtain tc' where tc': "UpdateCMDPower c ch cmd tc = Inr tc'" "hbm_state c tc'" "modifies (energy_cells c ch cmd) tc tc'"
    using UpdateCMDPower_frame [OF assms(1-4) fits] by (auto simp: okE_iff)
  have "UpdateCMDPower c ch (cmd\<lparr>addr := (addr cmd)\<lparr>a_bankgroup := 0\<rparr>\<rparr>) tc = UpdateCMDPower c ch cmd tc"
    using assms(5) by (simp add: UpdateCMDPower_def Let_def refresh_rows_def refresh_any_group Rank_def Bank_def)
  moreover have "power_at_cell tc' i = power_at_cell tc i" if i: "i \<in> bank_cells c ch (Bankgroup cmd) (Bank cmd)" for i
  proof -
    have e: "bank_exists (tc_cfg c) (ch, Bankgroup cmd, Bank cmd)" using assms by (simp add: bank_exists_def)
    have "(ch, Bankgroup cmd, Bank cmd) \<notin> command_banks (tc_cfg c) ch cmd" using assms(5,8) by (simp add: command_banks_def)
    from other_bank_untouched [OF assms(1-3) fits e this i]
      modifies_power [OF tc'(3) assms(4)] bank_cells_in_map [OF assms(1-3) _ assms(9-11) i] assms(8)
    show ?thesis by auto
  qed
  ultimately show ?thesis using tc'(1) by auto
qed

theorem refresh_bank_wrong_group_witness:
  "\<exists>tc'. UpdateCMDPower ex_stack 5 (Command REFRESH_BANK (Address 5 0 3 2 0 0) 0) (plan_state ex_stack ex_stack_plan) = Inr tc' \<and>
     UpdateCMDPower ex_stack 5 (Command REFRESH_BANK (Address 5 0 0 2 0 0) 0) (plan_state ex_stack ex_stack_plan) = Inr tc' \<and>
     power_at_cell tc' (bank_cell ex_stack 5 3 2 0 0) = dzero"
proof -
  have "bank_cell ex_stack 5 3 2 0 0 \<in> bank_cells ex_stack 5 3 2" by (rule bank_cellsI [OF _ _ _ _ refl]) simp_all
  moreover have "power_at_cell (plan_state ex_stack ex_stack_plan) (bank_cell ex_stack 5 3 2 0 0) = dzero"
    by (simp add: power_at_cell_def bank_cell_def Let_def)
  moreover have e: "(Command REFRESH_BANK (Address 5 0 3 2 0 0) 0)\<lparr>addr := (Address 5 0 3 2 0 0)\<lparr>a_bankgroup := 0\<rparr>\<rparr> =
      Command REFRESH_BANK (Address 5 0 0 2 0 0) 0" by (simp add: Command_def Address_def)
  ultimately show ?thesis
    using refresh_bank_wrong_group [OF ex_stack_fits _ _ ex_stack_state, of 5 "Command REFRESH_BANK (Address 5 0 3 2 0 0) 0"] by (auto simp: e)
qed

end
