(* ===== verification/Thermal_Trace.thy ===== *)
theory Thermal_Trace
  imports Thermal_Places Example
begin

text \<open>
  The controllers and the thermal calculator together: \<open>IssueCommand\<close> hands every command to
  \<open>UpdateCMDPower\<close>. Whatever a client asks of a controller of a stack of memory dies, the calculator
  takes all the commands that the controller issues, and they heat the banks of its channel only.
\<close>

section \<open>Booking commands\<close>

definition heat_commands :: "thermal_config \<Rightarrow> (int \<times> command) list \<Rightarrow> thermal \<Rightarrow> thermal result" where
  "heat_commands c es tc = foldE (\<lambda>(ch, cmd). UpdateCMDPower c ch cmd) es tc"

lemma heat_commands_frame:
  assumes f: "hbm_fits c" and st: "hbm_state c tc"
    and cmds: "\<And>ch cmd. (ch, cmd) \<in> set es \<Longrightarrow> 0 \<le> ch \<and> ch < channels (tc_cfg c) \<and> cmd_fits (tc_cfg c) cmd \<and> energy_cells c ch cmd \<subseteq> R"
  shows "okE (\<lambda>tc'. hbm_state c tc' \<and> modifies R tc tc') (heat_commands c es tc)"
  unfolding heat_commands_def
proof (rule modifies_foldE [where P = "hbm_state c", OF st])
  fix e t assume e: "e \<in> set es" and t: "hbm_state c t"
  obtain ch cmd where [simp]: "e = (ch, cmd)" by (cases e)
  from e cmds have "0 \<le> ch" "ch < channels (tc_cfg c)" "cmd_fits (tc_cfg c) cmd" "energy_cells c ch cmd \<subseteq> R" by simp_all
  from UpdateCMDPower_frame [OF f this(1,2) t this(3)] this(4)
  show "okE (\<lambda>t'. hbm_state c t' \<and> modifies R t t') ((\<lambda>(ch, cmd). UpdateCMDPower c ch cmd) e t)"
    by (auto elim!: okE_mono intro: modifies_mono)
qed

section \<open>The commands of a controller\<close>

text \<open>The bits of a row that the accesses of decoded addresses reach: the column of an address counts
  bursts.\<close>

definition burst_columns :: "config \<Rightarrow> int" where
  "burst_columns cfg = 2 ^ nat (LogBase2 (columns cfg) - LogBase2 (BL cfg))"

definition bursts_fit :: "config \<Rightarrow> bool" where
  "bursts_fit cfg \<longleftrightarrow> burst_columns cfg + BL cfg - 1 \<le> columns cfg"

definition access_bits :: "config \<Rightarrow> int" where
  "access_bits cfg = (burst_columns cfg + BL cfg - 1) * device_width cfg"

lemma mapped_address_fits:
  assumes "place_ok cfg (addr cmd)" and "bursts_fit cfg"
  shows "address_fits cfg cmd" and "a_column (addr cmd) + BL cfg \<le> burst_columns cfg + BL cfg - 1"
  using assms by (simp_all add: place_ok_def address_fits_def bursts_fit_def burst_columns_def Bankgroup_def Bank_def Row_def)

lemma issued_fits:
  assumes "cmd_in_range cfg cmd" and "from_map cfg cmd" and "\<forall>a. place_ok cfg (AddressMapping cfg a)" and "bursts_fit cfg"
  shows "cmd_fits cfg cmd"
proof -
  have "address_fits cfg cmd" if "cmd_type cmd \<in> {READ, READ_PRECHARGE, WRITE, WRITE_PRECHARGE, ACTIVATE}"
  proof -
    have "place_ok cfg (addr cmd)" using that assms(2,3) by (simp add: from_map_def)
    from mapped_address_fits(1) [OF this assms(4)] show ?thesis .
  qed
  moreover have "0 \<le> Bank cmd \<and> Bank cmd < banks_per_group cfg" if "cmd_type cmd = REFRESH_BANK"
    using assms(1) that by (simp add: cmd_in_range_def IsRankCMD_def place_of_def in_range_def)
  ultimately show ?thesis using cmd_rank_range [OF assms(1)] by (simp add: cmd_fits_def)
qed

lemma ct_run_issued:
  assumes "ct_run cfg tim ct A R" and "cfg_ok cfg tim" and "(cmd, t) \<in> set (cmd_trace ct)"
  shows "cmd_in_range cfg cmd" and "from_map cfg cmd"
proof -
  have "chan_inv cfg tim (ct_channel ct) (cmd_trace ct) (ct_clk ct)" "trace_mapped cfg (cmd_trace ct)"
    using ct_run_inv [OF assms(1,2)] unfolding ct_inv_def ctl_inv_def by blast+
  then have "\<forall>(c, t) \<in> set (cmd_trace ct). t \<le> ct_clk ct \<and> cmd_in_range cfg c"
    "\<forall>(c, t) \<in> set (cmd_trace ct). from_map cfg c"
    by (simp_all add: chan_inv_def trace_mapped_def)
  from bspec [OF this(1) assms(3)] bspec [OF this(2) assms(3)]
  show "cmd_in_range cfg cmd" "from_map cfg cmd" by simp_all
qed

definition issued_by :: "config \<Rightarrow> int \<Rightarrow> command \<Rightarrow> bool" where
  "issued_by cfg ch cmd \<longleftrightarrow> 0 \<le> ch \<and> ch < channels cfg \<and>
     (\<exists>ct A R t. ct_run cfg (Timing cfg) ct A R \<and> channel_id ct = ch \<and> (cmd, t) \<in> set (cmd_trace ct))"

lemma issued_by_fits:
  assumes "issued_by cfg ch cmd" and "cfg_ok cfg (Timing cfg)" and "\<forall>a. place_ok cfg (AddressMapping cfg a)" and "bursts_fit cfg"
  shows "0 \<le> ch" "ch < channels cfg" "from_map cfg cmd" "cmd_fits cfg cmd"
  using assms(1) issued_fits [OF _ _ assms(3,4)] ct_run_issued [OF _ assms(2)] unfolding issued_by_def by blast+

text \<open>All the cells of a channel, and those that its accesses reach.\<close>

definition channel_cells :: "thermal_config \<Rightarrow> int \<Rightarrow> int set" where
  "channel_cells c ch = (\<Union>bg \<in> {0..<bankgroups (tc_cfg c)}. \<Union>ba \<in> {0..<banks_per_group (tc_cfg c)}. bank_cells c ch bg ba)"

definition reached_cells :: "thermal_config \<Rightarrow> int \<Rightarrow> int set" where
  "reached_cells c ch = (\<Union>bg \<in> {0..<bankgroups (tc_cfg c)}. \<Union>ba \<in> {0..<banks_per_group (tc_cfg c)}.
     bank_part c ch bg ba (access_bits (tc_cfg c)))"

lemma energy_in_channel:
  assumes "hbm_fits c" and "0 \<le> ch" "ch < channels (tc_cfg c)" and "cmd_fits (tc_cfg c) cmd"
  shows "energy_cells c ch cmd \<subseteq> channel_cells c ch"
proof
  fix i assume "i \<in> energy_cells c ch cmd"
  from energy_in_banks [OF assms(1) this] obtain k bg ba where
    b: "(k, bg, ba) \<in> command_banks (tc_cfg c) ch cmd" "i \<in> bank_cells c k bg ba" .
  from command_banks_exist [OF assms b(1)] b have "k = ch" "bg \<in> {0..<bankgroups (tc_cfg c)}" "ba \<in> {0..<banks_per_group (tc_cfg c)}"
    by (auto simp: bank_exists_def command_banks_def split: if_splits)
  with b(2) show "i \<in> channel_cells c ch" unfolding channel_cells_def by blast
qed

lemma bank_part_mono: "v \<le> w \<Longrightarrow> bank_part c ch bg ba v \<subseteq> bank_part c ch bg ba w"
  unfolding bank_part_def by fastforce

lemma access_reaches:
  assumes "hbm_fits c" and "bursts_fit (tc_cfg c)" and "\<forall>a. place_ok (tc_cfg c) (AddressMapping (tc_cfg c) a)"
    and "from_map (tc_cfg c) cmd" and "\<not> IsRefresh cmd"
  shows "energy_cells c ch cmd \<subseteq> reached_cells c ch"
proof (cases "cmd_type cmd \<in> {READ, READ_PRECHARGE, WRITE, WRITE_PRECHARGE, ACTIVATE}")
  case True
  then have "place_ok (tc_cfg c) (addr cmd)" using assms(3,4) by (simp add: from_map_def)
  note a = mapped_address_fits [OF this assms(2)]
  have "(a_column (addr cmd) + BL (tc_cfg c)) * device_width (tc_cfg c) \<le> access_bits (tc_cfg c)"
    unfolding access_bits_def using a(2) hbm_fitsD(19) [OF assms(1)] by (intro mult_right_mono) simp_all
  from bank_part_mono [OF this] a(1) True show ?thesis by (fastforce simp: energy_cells_def reached_cells_def address_fits_def)
next
  case False
  then show ?thesis using assms(5) by (simp add: energy_cells_def IsRefresh_def)
qed

lemma other_channel:
  assumes "hbm_fits c" and "bank_exists (tc_cfg c) (k, bg, ba)" and "k \<noteq> ch" and "i \<in> bank_cells c k bg ba"
  shows "i \<notin> channel_cells c ch"
proof
  assume "i \<in> channel_cells c ch"
  then obtain bg' ba' where b: "0 \<le> bg'" "bg' < bankgroups (tc_cfg c)" "0 \<le> ba'" "ba' < banks_per_group (tc_cfg c)" "i \<in> bank_cells c ch bg' ba'"
    by (auto simp: channel_cells_def)
  from b(5) obtain x' y' where x': "i = bank_cell c ch bg' ba' x' y'" "0 \<le> x'" "x' < num_x_grids (tc_th c)" "0 \<le> y'" "y' < num_y_grids (tc_th c)"
    by (auto simp: bank_cells_def)
  from assms(4) obtain x y where x: "i = bank_cell c k bg ba x y" "0 \<le> x" "x < num_x_grids (tc_th c)" "0 \<le> y" "y < num_y_grids (tc_th c)"
    by (auto simp: bank_cells_def)
  have e: "0 \<le> bg" "bg < bankgroups (tc_cfg c)" "0 \<le> ba" "ba < banks_per_group (tc_cfg c)" using assms(2) by (simp_all add: bank_exists_def)
  have "bank_cell c k bg ba x y = bank_cell c ch bg' ba' x' y'" using x(1) x'(1) by simp
  from bank_cell_unique [OF assms(1) e b(1-4) x(2-5) x'(2-5) this] assms(3) show False by simp
qed

lemma not_reached:
  assumes "hbm_fits c" and "bank_exists (tc_cfg c) (k, bg, ba)" and "0 \<le> x" "x < num_x_grids (tc_th c)" "0 \<le> y" "y < num_y_grids (tc_th c)"
    and "access_bits (tc_cfg c) \<le> y * mat_dim_y (tc_th c)"
  shows "bank_cell c k bg ba x y \<notin> reached_cells c ch"
proof
  assume "bank_cell c k bg ba x y \<in> reached_cells c ch"
  then obtain bg' ba' x' y' where b: "0 \<le> bg'" "bg' < bankgroups (tc_cfg c)" "0 \<le> ba'" "ba' < banks_per_group (tc_cfg c)"
    and x': "bank_cell c k bg ba x y = bank_cell c ch bg' ba' x' y'" "0 \<le> x'" "x' < num_x_grids (tc_th c)" "0 \<le> y'"
      "y' < num_y_grids (tc_th c)" "y' * mat_dim_y (tc_th c) < access_bits (tc_cfg c)"
    by (auto simp: reached_cells_def bank_part_def)
  have e: "0 \<le> bg" "bg < bankgroups (tc_cfg c)" "0 \<le> ba" "ba < banks_per_group (tc_cfg c)" using assms(2) by (simp_all add: bank_exists_def)
  from bank_cell_unique [OF assms(1) e b assms(3-6) x'(2-5,1)] assms(7) x'(6) show False by simp
qed

section \<open>A run of a stack\<close>

lemma hbm_mapping_wf: "mapping_wf hbm_cfg"
  by (simp add: mapping_wf_def)

lemma hbm_cfg_ok: "cfg_ok hbm_cfg (Timing hbm_cfg)"
  by (rule Config_ok [OF hbm_Config hbm_mapping_wf]) (simp_all add: hbm_cfg_def refresh_cfg_ok_def)

lemma hbm_apart: "rw_apart hbm_cfg"
  by code_simp

lemma hbm_bursts: "burst_columns hbm_cfg = 32" "bursts_fit hbm_cfg" "access_bits hbm_cfg = 4480"
  by code_simp+

text \<open>Two reads of channel 2 in different banks.\<close>

definition stack_requests :: "request list" where
  "stack_requests = [Add_trans (Transaction 790976 False), Add_trans (Transaction 20480 False), Ticks 9]"

lemma stack_run_result:
  "okE (\<lambda>(ct, A, R). channel_id ct = 2 \<and> map (\<lambda>(c, t). (c, t)) (cmd_trace ct) =
      [(Command READ (Address 2 0 0 0 3 7) 790976, 8), (Command ACTIVATE (Address 2 0 0 1 0 0) 20480, 6),
       (Command ACTIVATE (Address 2 0 0 0 3 7) 790976, 1)]) (run_client 2 hbm_cfg stack_requests)"
  by code_simp

lemma stack_issued:
  "issued_by hbm_cfg 2 (Command ACTIVATE (Address 2 0 0 0 3 7) 790976)" "issued_by hbm_cfg 2 (Command READ (Address 2 0 0 0 3 7) 790976)"
proof -
  from stack_run_result obtain ct A R where
    r: "run_client 2 hbm_cfg stack_requests = Inr (ct, A, R)" "channel_id ct = 2" and
    t: "cmd_trace ct = [(Command READ (Address 2 0 0 0 3 7) 790976, 8), (Command ACTIVATE (Address 2 0 0 1 0 0) 20480, 6),
       (Command ACTIVATE (Address 2 0 0 0 3 7) 790976, 1)]" by (auto simp: okE_iff)
  from run_client_ok [OF r(1)] r(2) t
  show "issued_by hbm_cfg 2 (Command ACTIVATE (Address 2 0 0 0 3 7) 790976)"
    "issued_by hbm_cfg 2 (Command READ (Address 2 0 0 0 3 7) 790976)"
    unfolding issued_by_def by force+
qed

section \<open>Properties\<close>

text \<open>C8. The thermal calculator takes every sequence of commands that the controllers of a stack issue,
  in whatever order the channels take turns: it never fails, its state keeps fit, and the power of a
  channel whose controller has issued nothing stays as it was.\<close>

theorem controllers_heat_stack:
  assumes "Config rd c0 = Inr (tc_cfg c)" and "mapping_wf (tc_cfg c)" and "cfg_ok (tc_cfg c) (Timing (tc_cfg c))"
    and "bursts_fit (tc_cfg c)" and "hbm_fits c" and "hbm_state c tc"
    and "\<forall>(ch, cmd) \<in> set es. issued_by (tc_cfg c) ch cmd"
  shows "\<exists>tc'. heat_commands c es tc = Inr tc' \<and> hbm_state c tc' \<and>
    (\<forall>k bg ba i. bank_exists (tc_cfg c) (k, bg, ba) \<and> k \<notin> fst ` set es \<and> i \<in> bank_cells c k bg ba \<longrightarrow> power_at_cell tc' i = power_at_cell tc i)"
proof -
  have places: "\<forall>a. place_ok (tc_cfg c) (AddressMapping (tc_cfg c) a)" using Config_places [OF assms(1,2)] by blast
  let ?R = "\<Union>ch \<in> fst ` set es. channel_cells c ch"
  have "0 \<le> ch \<and> ch < channels (tc_cfg c) \<and> cmd_fits (tc_cfg c) cmd \<and> energy_cells c ch cmd \<subseteq> ?R" if "(ch, cmd) \<in> set es" for ch cmd
  proof -
    have "issued_by (tc_cfg c) ch cmd" using assms(7) that by blast
    note i = issued_by_fits [OF this assms(3) places assms(4)]
    moreover have "ch \<in> fst ` set es" using that by force
    ultimately show ?thesis using energy_in_channel [OF assms(5) i(1,2,4)] by blast
  qed
  from heat_commands_frame [OF assms(5,6) this] obtain tc' where
    tc': "heat_commands c es tc = Inr tc'" "hbm_state c tc'" "modifies ?R tc tc'" by (auto simp: okE_iff)
  have "power_at_cell tc' i = power_at_cell tc i"
    if e: "bank_exists (tc_cfg c) (k, bg, ba)" and k: "k \<notin> fst ` set es" and i: "i \<in> bank_cells c k bg ba" for k bg ba i
  proof -
    have "i \<notin> ?R" using other_channel [OF assms(5) e _ i] k by blast
    moreover have "0 \<le> k" "k < channels (tc_cfg c)" "0 \<le> bg" "bg < bankgroups (tc_cfg c)" "0 \<le> ba" "ba < banks_per_group (tc_cfg c)"
      using e by (simp_all add: bank_exists_def)
    ultimately show ?thesis using modifies_power [OF tc'(3) assms(6)] bank_cells_in_map [OF assms(5) _ _ _ _ _ _ i] by blast
  qed
  with tc'(1,2) show ?thesis by blast
qed

theorem controllers_heat_stack_witness:
  "\<exists>tc'. heat_commands ex_stack [(2, Command ACTIVATE (Address 2 0 0 0 3 7) 790976), (2, Command READ (Address 2 0 0 0 3 7) 790976)]
       (plan_state ex_stack ex_stack_plan) = Inr tc' \<and> power_at_cell tc' (bank_cell ex_stack 5 1 1 3 4) = dzero"
proof -
  have b: "bank_cell ex_stack 5 1 1 3 4 \<in> bank_cells ex_stack 5 1 1" by (rule bank_cellsI [OF _ _ _ _ refl]) simp_all
  let ?es = "[(2, Command ACTIVATE (Address 2 0 0 0 3 7) 790976), (2, Command READ (Address 2 0 0 0 3 7) 790976)]"
  obtain tc' where tc': "heat_commands ex_stack ?es (plan_state ex_stack ex_stack_plan) = Inr tc'" and
    p: "\<And>k bg ba i. bank_exists hbm_cfg (k, bg, ba) \<Longrightarrow> k \<notin> fst ` set ?es \<Longrightarrow> i \<in> bank_cells ex_stack k bg ba \<Longrightarrow>
      power_at_cell tc' i = power_at_cell (plan_state ex_stack ex_stack_plan) i"
    using controllers_heat_stack [of hbm_reader zero_config ex_stack "plan_state ex_stack ex_stack_plan" ?es]
    by (auto simp: hbm_Config hbm_mapping_wf hbm_cfg_ok hbm_bursts ex_stack_fits ex_stack_state stack_issued)
  have "power_at_cell tc' (bank_cell ex_stack 5 1 1 3 4) = power_at_cell (plan_state ex_stack ex_stack_plan) (bank_cell ex_stack 5 1 1 3 4)"
    by (rule p [OF _ _ b]) (simp_all add: bank_exists_def)
  also have "\<dots> = dzero" by (simp add: power_at_cell_def bank_cell_def Let_def)
  finally show ?thesis using tc' by blast
qed

text \<open>C22. The activations, reads and writes of a stack heat only the lowest cells of each bank: the column
  of an address counts bursts, but the calculator takes it for a column of the array, so that the bits of a
  row from \<open>access_bits\<close> on never get energy, whatever addresses are used. On the stack that comes
  with the simulator these are the upper eleven of the sixteen cells in a column of each bank.\<close>

theorem accesses_heat_low_cells:
  assumes "Config rd c0 = Inr (tc_cfg c)" and "mapping_wf (tc_cfg c)" and "cfg_ok (tc_cfg c) (Timing (tc_cfg c))"
    and "bursts_fit (tc_cfg c)" and "hbm_fits c" and "hbm_state c tc"
    and "\<forall>(ch, cmd) \<in> set es. issued_by (tc_cfg c) ch cmd \<and> \<not> IsRefresh cmd"
  shows "\<exists>tc'. heat_commands c es tc = Inr tc' \<and>
    (\<forall>k bg ba x y. bank_exists (tc_cfg c) (k, bg, ba) \<and> 0 \<le> x \<and> x < num_x_grids (tc_th c) \<and> 0 \<le> y \<and> y < num_y_grids (tc_th c) \<and>
       access_bits (tc_cfg c) \<le> y * mat_dim_y (tc_th c) \<longrightarrow>
       power_at_cell tc' (bank_cell c k bg ba x y) = power_at_cell tc (bank_cell c k bg ba x y))"
proof -
  have places: "\<forall>a. place_ok (tc_cfg c) (AddressMapping (tc_cfg c) a)" using Config_places [OF assms(1,2)] by blast
  let ?R = "\<Union>ch. reached_cells c ch"
  have "0 \<le> ch \<and> ch < channels (tc_cfg c) \<and> cmd_fits (tc_cfg c) cmd \<and> energy_cells c ch cmd \<subseteq> ?R" if "(ch, cmd) \<in> set es" for ch cmd
  proof -
    have i: "issued_by (tc_cfg c) ch cmd" "\<not> IsRefresh cmd" using assms(7) that by blast+
    note j = issued_by_fits [OF i(1) assms(3) places assms(4)]
    with access_reaches [OF assms(5,4) places j(3) i(2)] show ?thesis by blast
  qed
  from heat_commands_frame [OF assms(5,6) this] obtain tc' where
    tc': "heat_commands c es tc = Inr tc'" "hbm_state c tc'" "modifies ?R tc tc'" by (auto simp: okE_iff)
  have "power_at_cell tc' (bank_cell c k bg ba x y) = power_at_cell tc (bank_cell c k bg ba x y)"
    if e: "bank_exists (tc_cfg c) (k, bg, ba)" and xy: "0 \<le> x" "x < num_x_grids (tc_th c)" "0 \<le> y" "y < num_y_grids (tc_th c)"
      and w: "access_bits (tc_cfg c) \<le> y * mat_dim_y (tc_th c)" for k bg ba x y
  proof -
    have r: "bank_cell c k bg ba x y \<notin> ?R" using not_reached [OF assms(5) e xy w] by blast
    have i: "bank_cell c k bg ba x y \<in> bank_cells c k bg ba" by (rule bank_cellsI [OF xy refl])
    have b: "0 \<le> k" "k < channels (tc_cfg c)" "0 \<le> bg" "bg < bankgroups (tc_cfg c)" "0 \<le> ba" "ba < banks_per_group (tc_cfg c)"
      using e by (simp_all add: bank_exists_def)
    show ?thesis by (rule modifies_power [OF tc'(3) assms(6) bank_cells_in_map [OF assms(5) b i] r])
  qed
  with tc'(1) show ?thesis by blast
qed

theorem accesses_heat_low_cells_witness:
  "\<exists>tc'. heat_commands ex_stack [(2, Command ACTIVATE (Address 2 0 0 0 3 7) 790976), (2, Command READ (Address 2 0 0 0 3 7) 790976)]
       (plan_state ex_stack ex_stack_plan) = Inr tc' \<and> (\<forall>y. 5 \<le> y \<and> y < 16 \<longrightarrow> power_at_cell tc' (bank_cell ex_stack 2 0 0 0 y) =
          power_at_cell (plan_state ex_stack ex_stack_plan) (bank_cell ex_stack 2 0 0 0 y))"
proof -
  let ?es = "[(2, Command ACTIVATE (Address 2 0 0 0 3 7) 790976), (2, Command READ (Address 2 0 0 0 3 7) 790976)]"
  let ?tc = "plan_state ex_stack ex_stack_plan"
  have cfg: "Config hbm_reader zero_config = Inr (tc_cfg ex_stack)" "mapping_wf (tc_cfg ex_stack)"
    "cfg_ok (tc_cfg ex_stack) (Timing (tc_cfg ex_stack))" "bursts_fit (tc_cfg ex_stack)"
    by (simp_all add: hbm_Config hbm_mapping_wf hbm_cfg_ok hbm_bursts)
  have es: "\<forall>(ch, cmd) \<in> set ?es. issued_by (tc_cfg ex_stack) ch cmd \<and> \<not> IsRefresh cmd"
    by (simp add: stack_issued IsRefresh_def)
  from accesses_heat_low_cells [OF cfg ex_stack_fits ex_stack_state es] obtain tc' where
    tc': "heat_commands ex_stack ?es ?tc = Inr tc'" and
    p: "\<forall>k bg ba x y. bank_exists (tc_cfg ex_stack) (k, bg, ba) \<and> 0 \<le> x \<and> x < num_x_grids (tc_th ex_stack) \<and> 0 \<le> y \<and>
      y < num_y_grids (tc_th ex_stack) \<and> access_bits (tc_cfg ex_stack) \<le> y * mat_dim_y (tc_th ex_stack) \<longrightarrow>
      power_at_cell tc' (bank_cell ex_stack k bg ba x y) = power_at_cell ?tc (bank_cell ex_stack k bg ba x y)" by blast
  have "power_at_cell tc' (bank_cell ex_stack 2 0 0 0 y) = power_at_cell (plan_state ex_stack ex_stack_plan) (bank_cell ex_stack 2 0 0 0 y)"
    if "5 \<le> y" "y < 16" for y
  proof -
    have "bank_exists (tc_cfg ex_stack) (2, 0, 0)" by (simp add: bank_exists_def)
    moreover have "access_bits (tc_cfg ex_stack) \<le> y * mat_dim_y (tc_th ex_stack)" using that by (simp add: hbm_bursts)
    moreover have "0 < num_x_grids (tc_th ex_stack)" "0 \<le> y" "y < num_y_grids (tc_th ex_stack)" using that by simp_all
    ultimately show ?thesis using p by blast
  qed
  with tc' show ?thesis by blast
qed

end
