(* ===== verification/Replay_Run.thy ===== *)
theory Replay_Run
  imports Replay_Properties Thermal_Trace System_Reports
begin

text \<open>
  A whole replay (\<open>ThermalReplay::Run\<close>) on a stack of memory dies: no command of a trace that fits the
  stack stops it, and all the energy goes to the first channel, whatever the trace says.
\<close>

section \<open>The state\<close>

definition banks_full :: "config \<Rightarrow> bool vec3 \<Rightarrow> bool" where
  "banks_full cfg v \<longleftrightarrow> int (length v) = ranks cfg \<and> (\<forall>gs \<in> set v. int (length gs) = bankgroups cfg \<and>
     (\<forall>bs \<in> set gs. int (length bs) = banks_per_group cfg))"

definition replay_ok :: "thermal_config \<Rightarrow> replay \<Rightarrow> bool" where
  "replay_ok c rp \<longleftrightarrow> replay_shape (tc_cfg c) rp \<and> (\<forall>v \<in> set (bank_active rp). banks_full (tc_cfg c) v) \<and>
     hbm_state c (thermal_calc rp) \<and> thermal_ok c (thermal_calc rp) \<and>
     energies_shape (tc_cfg c) (nat (channels (tc_cfg c))) (thermal_calc rp)"

text \<open>What the file relies on of the members that the class lacks: the reports keep the time that is
  counted for every rank.\<close>

definition api_ok :: "stats_api \<Rightarrow> bool" where
  "api_ok api \<longleftrightarrow> (\<forall>clk ss. \<forall>name \<in> time_names.
     length (um_ref [] (epoch_vec_counters (PrintEpochStats_at api clk ss)) name) = length (um_ref [] (epoch_vec_counters ss) name) \<and>
     length (um_ref [] (epoch_vec_counters (PrintFinalStats_at api clk ss)) name) = length (um_ref [] (epoch_vec_counters ss) name))"

text \<open>A command of a trace that fits.\<close>

definition replay_fits :: "config \<Rightarrow> command \<Rightarrow> bool" where
  "replay_fits cfg cmd \<longleftrightarrow> cmd_fits cfg cmd \<and> cmd_type cmd \<noteq> SIZE \<and> 0 \<le> Channel cmd \<and> Channel cmd < channels cfg \<and>
     (cmd_type cmd \<in> {ACTIVATE, PRECHARGE, READ_PRECHARGE, WRITE_PRECHARGE} \<longrightarrow> 0 \<le> Rank cmd \<and> Rank cmd < ranks cfg \<and>
       0 \<le> Bankgroup cmd \<and> Bankgroup cmd < bankgroups cfg \<and> 0 \<le> Bank cmd \<and> Bank cmd < banks_per_group cfg)"

section \<open>Statistics and banks\<close>

text \<open>Steps that change nothing but statistics and banks.\<close>

definition heats_none :: "thermal_config \<Rightarrow> replay \<Rightarrow> replay \<Rightarrow> bool" where
  "heats_none c rp rp' \<longleftrightarrow> replay_ok c rp' \<and> cur_Pmap (thermal_calc rp') = cur_Pmap (thermal_calc rp) \<and>
     accu_Pmap (thermal_calc rp') = accu_Pmap (thermal_calc rp) \<and> timed_commands rp' = timed_commands rp"

lemma heats_none_refl: "replay_ok c rp \<Longrightarrow> heats_none c rp rp"
  by (simp add: heats_none_def)

lemma heats_none_ok: "heats_none c rp rp' \<Longrightarrow> replay_ok c rp'"
  by (simp add: heats_none_def)

lemma heats_none_trans: "heats_none c a b \<Longrightarrow> heats_none c b d \<Longrightarrow> heats_none c a d"
  by (simp add: heats_none_def)

lemma heats_none_then:
  assumes "okE (heats_none c a) m" and "\<And>b. heats_none c a b \<Longrightarrow> okE (heats_none c b) (f b)"
  shows "okE (heats_none c a) (bindE m f)"
proof -
  obtain b where b: "m = Inr b" "heats_none c a b" using assms(1) by (rule okE_E)
  show ?thesis unfolding b(1) bindE_simps by (rule okE_mono [OF assms(2) [OF b(2)]]) (rule heats_none_trans [OF b(2)])
qed

lemma heats_none_foldE:
  assumes "replay_ok c rp" and "\<And>x rp'. x \<in> set xs \<Longrightarrow> replay_ok c rp' \<Longrightarrow> okE (heats_none c rp') (f x rp')"
  shows "okE (heats_none c rp) (foldE f xs rp)"
proof (rule okE_foldE)
  show "heats_none c rp rp" by (rule heats_none_refl [OF assms(1)])
  fix x s assume x: "x \<in> set xs" and s: "heats_none c rp s"
  show "okE (heats_none c rp) (f x s)" by (rule okE_mono [OF assms(2) [OF x heats_none_ok [OF s]]]) (rule heats_none_trans [OF s])
qed

lemma on_stats_ok:
  assumes "replay_ok c rp" and "0 \<le> i" "i < channels (tc_cfg c)"
    and f: "\<And>ss. okE (\<lambda>ss'. \<forall>name \<in> time_names. length (um_ref [] (epoch_vec_counters ss') name) =
      length (um_ref [] (epoch_vec_counters ss) name)) (f ss)"
  shows "okE (heats_none c rp) (on_stats i f rp)"
proof -
  have i: "nat i < length (channel_stats rp)" using assms(1-3) by (simp add: replay_ok_def replay_shape_def nat_less_iff)
  obtain ss' where ss': "f (channel_stats rp ! nat i) = Inr ss'"
    "\<forall>name \<in> time_names. length (um_ref [] (epoch_vec_counters ss') name) = length (um_ref [] (epoch_vec_counters (channel_stats rp ! nat i)) name)"
    using f [of "channel_stats rp ! nat i"] by (auto simp: okE_iff)
  have "replay_ok c (rp\<lparr>channel_stats := (channel_stats rp)[nat i := ss']\<rparr>)"
    using assms(1) ss'(2) nth_mem [OF i]
    by (auto simp: replay_ok_def replay_shape_def dest!: set_update_subset_insert [THEN subsetD])
  then show ?thesis using assms(2) i ss'(1) by (simp add: on_stats_def vget_def vset_def nat_less_iff heats_none_def)
qed

lemma count_command_ok:
  assumes "replay_ok c rp" and "replay_fits (tc_cfg c) cmd"
  shows "okE (heats_none c rp) (count_command cmd rp)"
proof -
  have "0 \<le> Channel cmd" "Channel cmd < channels (tc_cfg c)" "cmd_type cmd \<noteq> SIZE" using assms(2) by (simp_all add: replay_fits_def)
  moreover have "okE (heats_none c rp)
      (on_stats (Channel cmd) (\<lambda>ss. Inr (Increment name ss)) rp)" for name
    by (rule on_stats_ok [OF assms(1) calculation(1,2)]) (simp add: Increment_def)
  ultimately show ?thesis by (cases "cmd_type cmd") (simp_all add: count_command_def Let_def)
qed

lemma set_bank_ok:
  assumes "replay_ok c rp" and "0 \<le> Channel cmd" "Channel cmd < channels (tc_cfg c)" and "0 \<le> Rank cmd" "Rank cmd < ranks (tc_cfg c)"
    and "0 \<le> Bankgroup cmd" "Bankgroup cmd < bankgroups (tc_cfg c)" and "0 \<le> Bank cmd" "Bank cmd < banks_per_group (tc_cfg c)"
  shows "okE (heats_none c rp) (set_bank cmd b rp)"
proof -
  let ?v = "bank_active rp ! nat (Channel cmd)"
  let ?gs = "?v ! nat (Rank cmd)"
  let ?bs = "?gs ! nat (Bankgroup cmd)"
  have i: "nat (Channel cmd) < length (bank_active rp)" using assms(1-3) by (simp add: replay_ok_def replay_shape_def nat_less_iff)
  have v: "banks_full (tc_cfg c) ?v" using assms(1) nth_mem [OF i] by (simp add: replay_ok_def)
  then have r: "nat (Rank cmd) < length ?v" using assms(4,5) by (simp add: banks_full_def nat_less_iff)
  then have gs: "?gs \<in> set ?v" by simp
  then have g: "nat (Bankgroup cmd) < length ?gs" using v assms(6,7) by (simp add: banks_full_def nat_less_iff)
  then have "?bs \<in> set ?gs" by simp
  then have k: "nat (Bank cmd) < length ?bs" using v gs assms(8,9) by (simp add: banks_full_def nat_less_iff)
  define w where "w = ?v[nat (Rank cmd) := ?gs[nat (Bankgroup cmd) := ?bs[nat (Bank cmd) := b]]]"
  have "banks_full (tc_cfg c) w" unfolding w_def
    using v r g k by (simp add: banks_full_def all_set_conv_all_nth nth_list_update)
  moreover have "length w = length ?v" by (simp add: w_def)
  moreover have "vec3_upd ?v (Rank cmd) (Bankgroup cmd) (Bank cmd) (\<lambda>_. Inr b) = Inr w"
    using assms r g k by (simp add: vec3_upd_def vget_def vset_def w_def nat_less_iff)
  ultimately show ?thesis
    using assms i by (auto simp: set_bank_def vget_def vset_def nat_less_iff heats_none_def replay_ok_def replay_shape_def
        dest!: set_update_subset_insert [THEN subsetD])
qed

lemma update_bank_ok:
  assumes "replay_ok c rp" and "replay_fits (tc_cfg c) cmd"
  shows "okE (heats_none c rp) (update_bank cmd rp)"
  using assms by (auto simp: update_bank_def replay_fits_def intro!: set_bank_ok heats_none_refl)

lemma account_heats_none:
  assumes "replay_ok c rp"
  shows "okE (heats_none c rp) (account (tc_cfg c) past rp)"
proof -
  have fr: "thermal_calc rp' = thermal_calc rp \<and> timed_commands rp' = timed_commands rp" if a: "account (tc_cfg c) past rp = Inr rp'" for rp'
  proof -
    have "thermal_calc t = thermal_calc s \<and> timed_commands t = timed_commands s" if "account_rank past i j s = Inr t" for i j s t
      using that by (auto simp: account_rank_def on_stats_def bindE_eq_Inr)
    then have "thermal_calc t = thermal_calc s \<and> timed_commands t = timed_commands s"
      if "foldE (account_rank past i) (indices (ranks (tc_cfg c))) s = Inr t" for i s t
      using foldE_inv [OF that, of "\<lambda>u. thermal_calc u = thermal_calc s \<and> timed_commands u = timed_commands s"] by metis
    then show ?thesis
      using foldE_inv [OF a [unfolded account_def], of "\<lambda>u. thermal_calc u = thermal_calc rp \<and> timed_commands u = timed_commands rp"] by metis
  qed
  have "replay_shape (tc_cfg c) rp" using assms by (simp add: replay_ok_def)
  from account_ok [OF this] show ?thesis
    by (rule okE_mono) (use fr assms in \<open>auto simp: heats_none_def replay_ok_def\<close>)
qed

section \<open>Epochs and commands\<close>

lemma with_background:
  assumes "replay_ok c rp" and "UpdateBackgroundEnergy i r e (thermal_calc rp) = Inr tc"
    and "energies_shape (tc_cfg c) (nat (channels (tc_cfg c))) tc"
  shows "heats_none c rp (rp\<lparr>thermal_calc := tc\<rparr>)"
proof -
  obtain bg where bg: "tc = (thermal_calc rp)\<lparr>background_energy := bg\<rparr>"
    using assms(2) by (auto simp: UpdateBackgroundEnergy_def bindE_eq_Inr)
  have "thermal_ok c tc"
    using energy_change_ok [OF _ Background_change [OF assms(2)]] assms(1) by (simp add: replay_ok_def)
  moreover have "hbm_state c tc" using assms(1) by (simp add: bg replay_ok_def hbm_state_def map_shape_def)
  ultimately show ?thesis using assms(1,3) by (simp add: heats_none_def replay_ok_def replay_shape_def bg)
qed

lemma epoch_channel_ok:
  assumes "replay_ok c rp" and "api_ok api" and "0 \<le> i" "i < channels (tc_cfg c)"
  shows "okE (heats_none c rp) (epoch_channel api (tc_cfg c) clk i rp)"
  unfolding epoch_channel_def
proof (rule heats_none_then)
  show "okE (heats_none c rp) (on_stats i (\<lambda>ss. Inr (PrintEpochStats_at api clk ss)) rp)"
    by (rule on_stats_ok [OF assms(1,3,4)]) (use assms(2) in \<open>simp add: api_ok_def\<close>)
  fix rp1 assume rp1: "heats_none c rp rp1"
  show "okE (heats_none c rp1) (foldE (\<lambda>r rp. bindE (vget (channel_stats rp) i) (\<lambda>ss.
        bindE (UpdateBackgroundEnergy i r (RankBackgroundEnergy api ss r) (thermal_calc rp)) (\<lambda>tc.
        Inr (rp\<lparr>thermal_calc := tc\<rparr>)))) (indices (ranks (tc_cfg c))) rp1)"
  proof (rule heats_none_foldE [OF heats_none_ok [OF rp1]])
    fix r s assume r: "r \<in> set (indices (ranks (tc_cfg c)))" and s: "replay_ok c s"
    let ?e = "RankBackgroundEnergy api (channel_stats s ! nat i) r"
    have sh: "thermal_ok c (thermal_calc s)" "energies_shape (tc_cfg c) (nat (channels (tc_cfg c))) (thermal_calc s)"
      using s by (simp_all add: replay_ok_def)
    obtain tc where tc: "UpdateBackgroundEnergy i r ?e (thermal_calc s) = Inr tc"
      "energies_shape (tc_cfg c) (nat (channels (tc_cfg c))) tc"
      using UpdateBackground_ok [OF sh assms(3), of r ?e] r assms(3,4) by (auto simp: okE_iff)
    have "vget (channel_stats s) i = Inr (channel_stats s ! nat i)"
      using s assms(3,4) by (simp add: replay_ok_def replay_shape_def vget_def)
    with tc(1) with_background [OF s tc]
    show "okE (heats_none c s) (bindE (vget (channel_stats s) i) (\<lambda>ss.
        bindE (UpdateBackgroundEnergy i r (RankBackgroundEnergy api ss r) (thermal_calc s)) (\<lambda>tc. Inr (s\<lparr>thermal_calc := tc\<rparr>))))"
      by simp
  qed
qed

lemma ProcessCMD_ok:
  assumes "replay_ok c rp" and "api_ok api" and "replay_fits (tc_cfg c) cmd" and "of_c_int (epoch_period (tc_cfg c)) \<noteq> (0::u64)"
  shows "okE (heats_none c rp) (ProcessCMD api (tc_cfg c) cmd clk rp)"
proof -
  have last: "okE (heats_none c s) (Inr (s\<lparr>last_clk := clk\<rparr>))" if "replay_ok c s" for s
    using that by (simp add: heats_none_def replay_ok_def replay_shape_def)
  show ?thesis
    unfolding ProcessCMD_def using assms(4)
    by (auto intro!: heats_none_then account_heats_none count_command_ok update_bank_ok last heats_none_foldE epoch_channel_ok heats_none_refl
        assms(1-3) simp: heats_none_ok simp del: okE_bind)
qed

section \<open>Passes\<close>

text \<open>The energy of a cell in the map that the final report uses.\<close>

definition accu_at_cell :: "thermal \<Rightarrow> int \<Rightarrow> double" where
  "accu_at_cell tc i = accu_Pmap tc ! 0 ! nat i"

lemma modifies_accu:
  assumes "modifies R tc tc'" and "hbm_state c tc" and "0 \<le> i"
    and "i < 8 * num_x_grids (tc_th c) * (4 * num_y_grids (tc_th c)) * (num_dies (tc_cfg c) + 1)" and "i \<notin> R"
  shows "accu_at_cell tc' i = accu_at_cell tc i"
proof -
  obtain am where am: "accu_Pmap tc' = am" "same_outside R (accu_Pmap tc) am" using assms(1) by (auto simp: modifies_def)
  have "0 < length (accu_Pmap tc)" "int (length (accu_Pmap tc ! 0)) = dimX tc * dimY tc * numP tc"
    using assms(2) by (auto simp: hbm_state_def map_shape_def)
  with am assms(2-5) show ?thesis by (simp add: accu_at_cell_def same_outside_def hbm_state_def nat_less_iff)
qed

text \<open>Steps that heat nothing outside of the first channel.\<close>

definition heats_first :: "thermal_config \<Rightarrow> replay \<Rightarrow> replay \<Rightarrow> bool" where
  "heats_first c rp rp' \<longleftrightarrow> replay_ok c rp' \<and> timed_commands rp' = timed_commands rp \<and>
     (\<forall>i. 0 \<le> i \<and> i < 8 * num_x_grids (tc_th c) * (4 * num_y_grids (tc_th c)) * (num_dies (tc_cfg c) + 1) \<and> i \<notin> channel_cells c 0 \<longrightarrow>
       power_at_cell (thermal_calc rp') i = power_at_cell (thermal_calc rp) i \<and>
       accu_at_cell (thermal_calc rp') i = accu_at_cell (thermal_calc rp) i)"

lemma heats_first_trans: "heats_first c a b \<Longrightarrow> heats_first c b d \<Longrightarrow> heats_first c a d"
  by (simp add: heats_first_def)

lemma heats_none_heats: "heats_none c a b \<Longrightarrow> heats_first c a b"
  by (simp add: heats_first_def heats_none_def power_at_cell_def accu_at_cell_def)

definition trace_fits :: "config \<Rightarrow> replay \<Rightarrow> bool" where
  "trace_fits cfg rp \<longleftrightarrow> (\<forall>(t, cmd) \<in> set (timed_commands rp). replay_fits cfg cmd)"

lemma trace_fits_kept: "heats_first c a b \<Longrightarrow> trace_fits cfg b \<longleftrightarrow> trace_fits cfg a"
  by (simp add: heats_first_def trace_fits_def)

lemma heats_foldE:
  assumes "replay_ok c rp" and "\<And>x rp'. x \<in> set xs \<Longrightarrow> replay_ok c rp' \<Longrightarrow> okE (heats_first c rp') (f x rp')"
  shows "okE (heats_first c rp) (foldE f xs rp)"
proof (rule okE_foldE)
  show "heats_first c rp rp" by (rule heats_none_heats [OF heats_none_refl [OF assms(1)]])
  fix x s assume x: "x \<in> set xs" and s: "heats_first c rp s"
  then have "replay_ok c s" by (simp add: heats_first_def)
  show "okE (heats_first c rp) (f x s)"
    by (rule okE_mono [OF assms(2) [OF x \<open>replay_ok c s\<close>]]) (rule heats_first_trans [OF s])
qed

text \<open>What a replay relies on: a stack that fits its plan, the members that the class lacks, and a period.\<close>

definition replay_env :: "stats_api \<Rightarrow> thermal_config \<Rightarrow> bool" where
  "replay_env api c \<longleftrightarrow> hbm_fits c \<and> 0 < channels (tc_cfg c) \<and> api_ok api \<and> of_c_int (epoch_period (tc_cfg c)) \<noteq> (0::u64)"

lemma replay_envD:
  assumes "replay_env api c"
  shows "hbm_fits c" "0 < channels (tc_cfg c)" "api_ok api" "of_c_int (epoch_period (tc_cfg c)) \<noteq> (0::u64)"
  using assms by (simp_all add: replay_env_def)

lemma replay_command_ok:
  assumes "replay_ok c rp" and "replay_fits (tc_cfg c) cmd" and "replay_env api c"
  shows "okE (heats_first c rp) (replay_command api c clk (t, cmd) rp)"
proof -
  note fits = replay_envD(1,2) [OF assms(3)] and api = replay_envD(3) [OF assms(3)] and period = replay_envD(4) [OF assms(3)]
  obtain rp1 where rp1: "ProcessCMD api (tc_cfg c) cmd (clk + t) rp = Inr rp1" "heats_none c rp rp1"
    by (rule okE_E [OF ProcessCMD_ok [OF assms(1) api assms(2) period, of "clk + t"]])
  have ok: "hbm_state c (thermal_calc rp1)" "thermal_ok c (thermal_calc rp1)" using rp1(2) by (simp_all add: heats_none_def replay_ok_def)
  have cmd: "cmd_fits (tc_cfg c) cmd" using assms(2) by (simp add: replay_fits_def)
  obtain tc where tc: "UpdateCMDPower c 0 cmd (thermal_calc rp1) = Inr tc" "hbm_state c tc"
    "modifies (energy_cells c 0 cmd) (thermal_calc rp1) tc"
    using UpdateCMDPower_frame [OF fits(1) order_refl fits(2) ok(1) cmd] by (auto simp: okE_iff)
  have "thermal_ok c tc" by (rule energy_change_ok [OF ok(2) UpdateCMDPower_change [OF tc(1)]])
  moreover have "background_energy tc = background_energy (thermal_calc rp1)" using tc(3) by (auto simp: modifies_def)
  moreover have "modifies (channel_cells c 0) (thermal_calc rp1) tc"
    by (rule modifies_mono [OF tc(3) energy_in_channel [OF fits(1) order_refl fits(2) cmd]])
  then have "power_at_cell tc i = power_at_cell (thermal_calc rp1) i \<and> accu_at_cell tc i = accu_at_cell (thermal_calc rp1) i"
    if "0 \<le> i" "i < 8 * num_x_grids (tc_th c) * (4 * num_y_grids (tc_th c)) * (num_dies (tc_cfg c) + 1)" "i \<notin> channel_cells c 0" for i
    using modifies_power [OF _ ok(1) that] modifies_accu [OF _ ok(1) that] by blast
  ultimately have "heats_first c rp1 (rp1\<lparr>thermal_calc := tc\<rparr>)"
    using rp1(2) tc(2) by (simp add: heats_first_def heats_none_def replay_ok_def replay_shape_def energies_shape_def)
  from heats_first_trans [OF heats_none_heats [OF rp1(2)] this] show ?thesis by (simp add: replay_command_def rp1(1) tc(1))
qed

lemma closed_banks_ok:
  assumes "replay_ok c rp" and fits: "hbm_fits c" "0 < channels (tc_cfg c)"
  shows "heats_none c rp (rp\<lparr>bank_active := closed_banks (tc_cfg c)\<rparr>)"
proof -
  have "0 \<le> ranks (tc_cfg c)"
    using assms by (cases "bank_active rp") (auto simp: replay_ok_def replay_shape_def)
  then show ?thesis using assms(1) fits(2) hbm_fitsD(4,6) [OF fits(1)]
    by (auto simp: heats_none_def replay_ok_def replay_shape_def closed_banks_def vec3_replicate_def banks_full_def)
qed

lemma replay_once_ok:
  assumes "replay_ok c rp" and "trace_fits (tc_cfg c) rp" and env: "replay_env api c"
  shows "okE (\<lambda>(clk', rp'). heats_first c rp rp' \<and> clk' = clk + (if timed_commands rp = [] then 0 else fst (last (timed_commands rp))))
    (replay_once api c (clk, rp))"
proof -
  have "okE (heats_first c rp) (foldE (replay_command api c clk) (timed_commands rp) rp)"
    by (rule heats_foldE [OF assms(1)]) (use assms(2) env in \<open>auto simp: trace_fits_def intro!: replay_command_ok\<close>)
  then obtain rp1 where rp1: "foldE (replay_command api c clk) (timed_commands rp) rp = Inr rp1" "heats_first c rp rp1"
    by (rule okE_E)
  have "replay_ok c rp1" using rp1(2) by (simp add: heats_first_def)
  from heats_first_trans [OF rp1(2) heats_none_heats [OF closed_banks_ok [OF this replay_envD(1,2) [OF env]]]] show ?thesis
    by (simp add: replay_once_def rp1(1) Let_def)
qed

lemma replay_passes_ok:
  assumes "replay_ok c rp" and "trace_fits (tc_cfg c) rp" and env: "replay_env api c"
  shows "okE (\<lambda>(clk', rp'). heats_first c rp rp' \<and>
      clk' = clk + of_nat (length xs) * (if timed_commands rp = [] then 0 else fst (last (timed_commands rp))))
    (foldE (\<lambda>_. replay_once api c) xs (clk, rp))"
  using assms(1,2)
proof (induction xs arbitrary: clk rp)
  case Nil
  then show ?case by (simp add: heats_none_heats heats_none_refl)
next
  case (Cons x xs)
  define off where "off = (if timed_commands rp = [] then 0 else fst (last (timed_commands rp)))"
  obtain rp1 where rp1: "replay_once api c (clk, rp) = Inr (clk + off, rp1)" "heats_first c rp rp1"
    using replay_once_ok [OF Cons.prems(1,2) env, of clk] by (auto simp: okE_iff off_def)
  have "replay_ok c rp1" "timed_commands rp1 = timed_commands rp" using rp1(2) by (simp_all add: heats_first_def)
  with Cons.IH [of rp1 "clk + off"] Cons.prems(2) trace_fits_kept [OF rp1(2)] show ?case
    by (auto simp: rp1(1) off_def algebra_simps elim!: okE_mono intro: heats_first_trans [OF rp1(2)])
qed

section \<open>The run\<close>

text \<open>The same energy added to a row of cells.\<close>

lemma map_adds:
  assumes "0 < length pm" and "0 \<le> k" and "k + int n \<le> int (length (pm ! 0))"
  shows "okE (\<lambda>pm'. length pm' = length pm \<and> length (pm' ! 0) = length (pm ! 0) \<and> (\<forall>x < length (pm ! 0).
      pm' ! 0 ! x = (if k \<le> int x \<and> int x < k + int n then dadd (pm ! 0 ! x) e else pm ! 0 ! x)))
    (foldE (\<lambda>i. map_add 0 (k + i) e) (indices (int n)) pm)"
  using assms(3)
proof (induction n)
  case (Suc n)
  then obtain pm' where p: "foldE (\<lambda>i. map_add 0 (k + i) e) (indices (int n)) pm = Inr pm'" "length pm' = length pm"
    "length (pm' ! 0) = length (pm ! 0)"
    "\<forall>x < length (pm ! 0). pm' ! 0 ! x = (if k \<le> int x \<and> int x < k + int n then dadd (pm ! 0 ! x) e else pm ! 0 ! x)"
    by (auto simp: okE_iff)
  have l: "nat (k + int n) < length (pm ! 0)" using Suc.prems assms(2) by (simp add: nat_less_iff)
  have "indices (int (Suc n)) = indices (int n) @ [int n]" unfolding indices_def nat_int by simp
  then have "foldE (\<lambda>i. map_add 0 (k + i) e) (indices (int (Suc n))) pm = map_add 0 (k + int n) e pm'"
    by (simp only: foldE_append p(1) bindE_simps foldE.simps) (cases "map_add 0 (k + int n) e pm'"; simp)
  also have "\<dots> = Inr (pm'[0 := (pm' ! 0)[nat (k + int n) := dadd (pm' ! 0 ! nat (k + int n)) e]])"
    using assms(1,2) l p(2,3) by (simp add: map_add_def vget_def vset_def nat_less_iff)
  finally have fold: "foldE (\<lambda>i. map_add 0 (k + i) e) (indices (int (Suc n))) pm =
      Inr (pm'[0 := (pm' ! 0)[nat (k + int n) := dadd (pm' ! 0 ! nat (k + int n)) e]])" .
  obtain j where j: "k = int j" using assms(2) zero_le_imp_eq_int by blast
  have n: "nat (int j + int n) = j + n" by simp
  show ?case unfolding fold okE_simps using assms(1) l p(2-4) unfolding j n by (auto simp: nth_list_update)
qed (auto simp: indices_def)

text \<open>The share of the background energy that the final report adds to every cell of the memory dies.\<close>

definition bg_share :: "thermal \<Rightarrow> double" where
  "bg_share tc = ddiv (ddiv (total_background tc) (d_of_int (dimX tc * dimY tc * (numP tc - 1)))) (d_of_int 1000)"

lemma UpdatePowerMaps_adds:
  assumes "map_shape tc (accu_Pmap tc)" and "num_case tc = 1" and "1 \<le> dimX tc * dimY tc" and "1 \<le> numP tc"
    and "UpdatePowerMaps c e False clk tc = Inr tc'" and "0 \<le> i" "i < dimX tc * dimY tc * (numP tc - 1)"
  shows "accu_at_cell tc' i = dadd (accu_at_cell tc i) e"
proof -
  let ?N = "dimX tc * dimY tc" and ?A = "accu_Pmap tc"
  define l where "l = dmul (ddiv (ddiv (avg_logic_power tc) (d_of_int (dimX tc))) (d_of_int (dimY tc))) (d_of_int (uint clk))"
  have A: "0 < length ?A" "int (length (?A ! 0)) = ?N * numP tc" using assms(1,2) by (auto simp: map_shape_def)
  have nn: "0 \<le> ?N * (numP tc - 1)" "0 \<le> ?N" using assms(3,4) by simp_all
  have le: "?N * (numP tc - 1) + ?N = ?N * numP tc" by (simp add: algebra_simps)
  obtain p1 where p1: "foldE (\<lambda>i. map_add 0 i e) (indices (?N * (numP tc - 1))) ?A = Inr p1" "length p1 = length ?A"
    "length (p1 ! 0) = length (?A ! 0)" "\<forall>x < length (?A ! 0). int x < ?N * (numP tc - 1) \<longrightarrow> p1 ! 0 ! x = dadd (?A ! 0 ! x) e"
    using map_adds [of ?A 0 "nat (?N * (numP tc - 1))" e] A le nn by (auto simp: okE_iff)
  obtain p2 where p2: "foldE (\<lambda>i. map_add 0 (?N * (numP tc - 1) + i) l) (indices ?N) p1 = Inr p2"
    "\<forall>x < length (?A ! 0). int x < ?N * (numP tc - 1) \<longrightarrow> p2 ! 0 ! x = p1 ! 0 ! x"
    using map_adds [of p1 "?N * (numP tc - 1)" "nat ?N" l] A le nn p1(2,3) by (auto simp: okE_iff)
  have "indices (num_case tc) = [0]" by (simp add: assms(2) indices_def)
  then have "accu_Pmap tc' = p2"
    using assms(5) p1(1) p2(1) by (auto simp: UpdatePowerMaps_def Let_def update_map_def l_def)
  moreover have "i < ?N * numP tc" using assms(7) le nn(2) by linarith
  then have "nat i < length (?A ! 0)" using A(2) assms(6) by (simp add: nat_less_iff)
  ultimately show ?thesis using p1(4) p2(2) assms(6,7) by (simp add: accu_at_cell_def)
qed

text \<open>The final report leaves the power of the epoch as it is, and adds the background to the memory dies.\<close>

lemma PrintFinalPT_keeps:
  assumes "PrintFinalPT slu c clk tc = Inr (tc', csv)" and "thermal_ok c tc" and "stacked c"
  shows "cur_Pmap tc' = cur_Pmap tc" and "bg_share tc' = bg_share tc"
    and "\<lbrakk>num_case tc = 1; 0 \<le> i; i < dimX tc * dimY tc * (numP tc - 1)\<rbrakk> \<Longrightarrow> accu_at_cell tc' i = dadd (accu_at_cell tc i) (bg_share tc)"
proof -
  obtain pm where pm: "UpdatePowerMaps c (bg_share tc) False clk tc = Inr (put_map False pm tc)"
    by (rule UpdatePowerMaps_ok [OF assms(2)])
  then have fold: "foldE (final_case slu c clk) (indices (num_case (put_map False pm tc))) (put_map False pm tc, []) = Inr (tc', csv)"
    using assms(1,3) by (auto simp: PrintFinalPT_def stacked_def Let_def bg_share_def final_case_def [abs_def])
  have "cur_Pmap (fst (tc', csv)) = cur_Pmap tc \<and> accu_Pmap (fst (tc', csv)) = pm \<and> bg_share (fst (tc', csv)) = bg_share tc"
    by (rule foldE_inv [OF fold])
      (auto simp: put_map_def final_case_def CalcFinalT_def bindE_eq_Inr bg_share_def total_background_def)
  then have k: "cur_Pmap tc' = cur_Pmap tc" "accu_at_cell tc' i = accu_at_cell (put_map False pm tc) i" "bg_share tc' = bg_share tc"
    by (simp_all add: accu_at_cell_def put_map_def)
  show "cur_Pmap tc' = cur_Pmap tc" "bg_share tc' = bg_share tc" by (rule k)+
  show "accu_at_cell tc' i = dadd (accu_at_cell tc i) (bg_share tc)"
    if "num_case tc = 1" "0 \<le> i" "i < dimX tc * dimY tc * (numP tc - 1)"
    using UpdatePowerMaps_adds [OF _ that(1) _ _ pm that(2,3)] assms(2) dims_pos [of c tc] k(2) by (simp add: thermal_ok_def)
qed

text \<open>A run on a stack of memory dies never fails: every command of a trace that fits is processed and
  booked, as often as it is repeated, and the final report is made. But the calculator is told of the
  first channel whatever the trace says: the banks of every other channel get no energy but the
  background of the final report.\<close>

lemma Run_ok:
  assumes "replay_env api c" and "replay_ok c rp" and "trace_fits (tc_cfg c) rp" and "solver_keeps_length slu"
    and "timed_commands rp \<noteq> []" and "repeats * fst (last (timed_commands rp)) \<noteq> 0"
  shows "okE (\<lambda>(rp', csv). thermal_ok c (thermal_calc rp') \<and>
    (\<forall>k bg ba i. bank_exists (tc_cfg c) (k, bg, ba) \<and> k \<noteq> 0 \<and> i \<in> bank_cells c k bg ba \<longrightarrow>
       power_at_cell (thermal_calc rp') i = power_at_cell (thermal_calc rp) i \<and>
       accu_at_cell (thermal_calc rp') i = dadd (accu_at_cell (thermal_calc rp) i) (bg_share (thermal_calc rp')))) (Run api slu c repeats rp)"
proof -
  note env = replay_envD [OF assms(1)]
  define clk where "clk = repeats * fst (last (timed_commands rp))"
  obtain rp1 where p: "foldE (\<lambda>_. replay_once api c) (indices (uint repeats)) (0, rp) = Inr (clk, rp1)" and h: "heats_first c rp rp1"
    using replay_passes_ok [OF assms(2,3,1), of 0 "indices (uint repeats)"] assms(5) by (auto simp: okE_iff clk_def)
  have "replay_ok c rp1" using h by (simp add: heats_first_def)
  then have "okE (heats_none c rp1) (foldE (\<lambda>i. on_stats i (\<lambda>ss. Inr (PrintFinalStats_at api clk ss))) (indices (channels (tc_cfg c))) rp1)"
    by (rule heats_none_foldE) (use env(3) in \<open>auto simp: api_ok_def intro!: on_stats_ok\<close>)
  then obtain rp2 where f: "foldE (\<lambda>i. on_stats i (\<lambda>ss. Inr (PrintFinalStats_at api clk ss))) (indices (channels (tc_cfg c))) rp1 = Inr rp2"
    and q: "heats_none c rp1 rp2" by (rule okE_E)
  have ok: "thermal_ok c (thermal_calc rp2)" "stacked c"
    using q hbm_fitsD(1) [OF env(1)] by (simp_all add: heats_none_def replay_ok_def stacked_def)
  have hs: "hbm_state c (thermal_calc rp2)" using q by (simp add: heats_none_def replay_ok_def)
  obtain tc csv where pt: "PrintFinalPT slu c clk (thermal_calc rp2) = Inr (tc, csv)" "thermal_ok c tc"
    using PrintFinalPT_ok [OF ok assms(4,6)] by (auto simp: okE_iff clk_def)
  note keeps = PrintFinalPT_keeps [OF pt(1) ok]
  have "heats_first c rp rp2" by (rule heats_first_trans [OF h heats_none_heats [OF q]])
  then have same: "power_at_cell tc i = power_at_cell (thermal_calc rp) i \<and> accu_at_cell (thermal_calc rp2) i = accu_at_cell (thermal_calc rp) i"
    if "0 \<le> i" "i < 8 * num_x_grids (tc_th c) * (4 * num_y_grids (tc_th c)) * (num_dies (tc_cfg c) + 1)" "i \<notin> channel_cells c 0" for i
    using that keeps(1) by (simp add: heats_first_def power_at_cell_def)
  have "power_at_cell tc i = power_at_cell (thermal_calc rp) i \<and> accu_at_cell tc i = dadd (accu_at_cell (thermal_calc rp) i) (bg_share tc)"
    if "bank_exists (tc_cfg c) (k, bg, ba)" "k \<noteq> 0" "i \<in> bank_cells c k bg ba" for k bg ba i
  proof -
    have e: "0 \<le> k" "k < channels (tc_cfg c)" "0 \<le> bg" "bg < bankgroups (tc_cfg c)" "0 \<le> ba" "ba < banks_per_group (tc_cfg c)"
      using that(1) by (simp_all add: bank_exists_def)
    then have "k div 2 < num_dies (tc_cfg c)" using hbm_fitsD(3) [OF env(1)] by linarith
    from bank_cells_below [OF env(1) e(1) this e(3-6) that(3)] hs
    have "0 \<le> i" "i < dimX (thermal_calc rp2) * dimY (thermal_calc rp2) * (numP (thermal_calc rp2) - 1)" "num_case (thermal_calc rp2) = 1"
      by (simp_all add: hbm_state_def algebra_simps)
    from keeps(3) [OF this(3,1,2)] keeps(2) same [OF bank_cells_in_map [OF env(1) e that(3)] other_channel [OF env(1) that]]
    show ?thesis by simp
  qed
  then show ?thesis using pt(2) by (auto simp: Run_def p f pt(1))
qed

end
