(* ===== verification/Replay_Main.thy ===== *)
theory Replay_Main
  imports Main_Program Replay_Run
begin

text \<open>
  The \<open>main\<close> function of \<open>thermal_replay.cc\<close>: the arguments, the configuration with its thermal
  parameters, the trace file, the run, the exit code. The vendored parser is a parameter, as for the
  simulator; the type of the memory and the directory are read and not used by what is modelled.
\<close>

section \<open>The program\<close>

record replay_options =
  given_repeats :: "u64 option"
  given_config_file :: "string option"
  given_trace_file :: "string option"

text \<open>The constructor of \<open>Config\<close> with \<open>THERMAL\<close>; the parameters of the calculator start from
  what the members hold.\<close>

definition Config_thermal :: "ini_reader \<Rightarrow> real_reader \<Rightarrow> config \<Rightarrow> thermal_params \<Rightarrow> thermal_config result" where
  "Config_thermal rd GetReal c0 t0 =
     bindE (Config rd c0) (\<lambda>cfg.
     bindE (InitThermalParams rd GetReal cfg (InitPowerParams GetReal cfg) t0) (\<lambda>th.
     Inr \<lparr>tc_cfg = cfg, tc_pw = InitPowerParams GetReal cfg, tc_th = th\<rparr>))"

text \<open>The file is opened when the calculator and the banks have been set up.\<close>

definition open_replay :: "thermal_config \<Rightarrow> string option \<Rightarrow> replay result" where
  "open_replay c file = (case file of
     None \<Rightarrow> bindE (ThermalCalculator c) (\<lambda>_. Inl (ExitFailure ''thermal_replay.cc'' 36))
   | Some cs \<Rightarrow> ThermalReplay c cs)"

text \<open>What the machine gives: \<open>host\<close> as for the simulator, the real numbers of an INI file, and the thermal
  members before they are set.\<close>

definition replay_main :: "(string list \<Rightarrow> replay_options parsed) \<Rightarrow> host \<Rightarrow> (string \<Rightarrow> real_reader) \<Rightarrow> thermal_params \<Rightarrow>
    stats_api \<Rightarrow> superlu \<Rightarrow> string list \<Rightarrow> (int \<times> (replay \<times> csv_row list) option) result" where
  "replay_main parse mc reals t0 api slu argv = (case parse argv of
     Help_wanted \<Rightarrow> Inr (0, None)
   | Parse_failed \<Rightarrow> Inr (1, None)
   | Parsed opts \<Rightarrow>
       let name = args_get (given_config_file opts) [] in
       bindE (load_ini mc name) (\<lambda>rd.
       bindE (Config_thermal rd (reals name) (raw_config mc) t0) (\<lambda>c.
       bindE (open_replay c (text_file mc (args_get (given_trace_file opts) []))) (\<lambda>rp.
       bindE (Run api slu c (args_get (given_repeats opts) 10) rp) (\<lambda>r. Inr (0, Some r))))))"

section \<open>The start\<close>

text \<open>The plan of a stack of memory dies.\<close>

definition hbm_plan :: "thermal_config \<Rightarrow> geometry" where
  "hbm_plan c = \<lparr>numP = num_dies (tc_cfg c) + 1, dimX = 8 * num_x_grids (tc_th c), dimY = 4 * num_y_grids (tc_th c),
     vault_x = 1, vault_y = 2, bank_x = 8, bank_y = 2, num_case = 1\<rparr>"

definition replay_stack :: "thermal_config \<Rightarrow> bool" where
  "replay_stack c \<longleftrightarrow> hbm_fits c \<and> 0 < channels (tc_cfg c) \<and> 0 \<le> ranks (tc_cfg c) \<and> dims_ok c (hbm_plan c) \<and>
     loc_mapping (tc_th c) = [] \<and> of_c_int (epoch_period (tc_cfg c)) \<noteq> (0::u64)"

lemma hbm_plan_banks:
  assumes "IsHBM (tc_cfg c)"
  shows "\<exists>rws. PrintCSV_bank c geo = Inr rws"
proof -
  have "\<not> IsHMC (tc_cfg c)" using assms by (auto simp: IsHBM_def IsHMC_def)
  then have "\<exists>r. bank_row c geo v g b = Inr r" for v g b
    using assms by (simp add: bank_row_def Let_def MapToVault_def MapToZ_def MapToBank_def)
  then obtain f where f: "bank_row c geo v g b = Inr (f v g b)" for v g b by metis
  show ?thesis unfolding PrintCSV_bank_def f [abs_def] by (simp add: mapE_ok [OF refl] f)
qed

lemma init_geometry_stack: "hbm_fits c \<Longrightarrow> init_geometry c = Inr (hbm_plan c)"
  by (simp add: init_geometry_def Let_def hbm_plan_def hbm_fitsD)

lemma time_vectors:
  assumes "name \<in> time_names" and "0 \<le> ranks cfg"
  shows "int (length (um_ref [] (epoch_vec_counters (SimpleStats cfg)) name)) = ranks cfg"
  using assms by (auto simp: init_stats_fields time_names_def um_ref_def)

lemma ThermalReplay_start:
  assumes st: "replay_stack c" and cmds: "mapE ParseLine (getlines [] cs) = Inr cmds"
  shows "case ThermalReplay c cs of
      Inr rp \<Rightarrow> replay_ok c rp \<and> timed_commands rp = cmds \<and> (\<forall>i < nat (numP (hbm_plan c) * dimX (hbm_plan c) * dimY (hbm_plan c)).
        power_at_cell (thermal_calc rp) (int i) = dzero \<and> accu_at_cell (thermal_calc rp) (int i) = dzero)
    | Inl e \<Rightarrow> e = Overflow"
proof -
  have f: "hbm_fits c" "0 < channels (tc_cfg c)" "0 \<le> ranks (tc_cfg c)" "dims_ok c (hbm_plan c)" "loc_mapping (tc_th c) = []"
    using st by (simp_all add: replay_stack_def)
  have pm: "SetPhyAddressMapping c = Inr None" using f(5) by (simp add: SetPhyAddressMapping_def)
  note start = ThermalCalculator_start [OF init_geometry_stack [OF f(1)] f(4) pm disjI2 [OF hbm_plan_banks [OF hbm_fitsD(1) [OF f(1)]]]]
  show ?thesis
  proof (cases "ThermalCalculator c")
    case (Inl e)
    then show ?thesis using start by (simp add: ThermalReplay_def)
  next
    case (Inr tc)
    then have t: "thermal_ok c tc" "geometry.truncate tc = hbm_plan c" "phy_map tc = None"
      "refresh_count tc = replicate (nat (channels (tc_cfg c) * ranks (tc_cfg c))) (replicate (nat (banks (tc_cfg c))) 0)"
      "background_energy tc = replicate (nat (channels (tc_cfg c))) (replicate (nat (ranks (tc_cfg c))) dzero)"
      "cur_Pmap tc = replicate (nat (num_case (hbm_plan c))) (replicate (nat (numP (hbm_plan c) * dimX (hbm_plan c) * dimY (hbm_plan c))) dzero)"
      using start by simp_all
    have "\<forall>m \<in> set (accu_Pmap tc). set m \<subseteq> {dzero}" using start Inr by simp
    moreover have "accu_Pmap tc ! 0 \<in> set (accu_Pmap tc)" "int (length (accu_Pmap tc ! 0)) = dimX tc * dimY tc * numP tc"
      using t(1,2) by (auto simp: thermal_ok_def map_shape_def geometry.defs hbm_plan_def)
    ultimately have accu: "accu_Pmap tc ! 0 ! i = dzero" if "i < nat (numP (hbm_plan c) * dimX (hbm_plan c) * dimY (hbm_plan c))" for i
      using that t(2) nth_mem [of i "accu_Pmap tc ! 0"] by (fastforce simp: geometry.defs hbm_plan_def ac_simps)
    have g: "numP tc = num_dies (tc_cfg c) + 1" "dimX tc = 8 * num_x_grids (tc_th c)" "dimY tc = 4 * num_y_grids (tc_th c)"
      "bank_x tc = 8" "bank_y tc = 2" "num_case tc = 1" using t(2) by (simp_all add: geometry.defs hbm_plan_def)
    have "num_row_refresh (tc_th c) \<le> rows (tc_cfg c)" using zdvd_imp_le [OF hbm_fitsD(17) [OF f(1)]] hbm_rows_pos [OF f(1)] by simp
    then have "refresh_below c (refresh_count tc)"
      using f(2,3) hbm_fitsD(4,6,8) [OF f(1)] by (simp add: t(4) refresh_below_def)
    then have "hbm_state c tc" using t(1,3) g by (simp add: hbm_state_def thermal_ok_def)
    moreover have "energies_shape (tc_cfg c) (nat (channels (tc_cfg c))) tc" by (simp add: energies_shape_def t(5))
    ultimately show ?thesis
      using t(1) f(2,3) hbm_fitsD(4,6) [OF f(1)]
      by (simp add: ThermalReplay_def Inr cmds replay_ok_def replay_shape_def time_vectors closed_banks_def vec3_replicate_def
          banks_full_def power_at_cell_def accu_at_cell_def t(6) accu hbm_plan_def)
  qed
qed

section \<open>Properties\<close>

definition replay_trace :: "config \<Rightarrow> string \<Rightarrow> u64 \<Rightarrow> bool" where
  "replay_trace cfg cs repeats \<longleftrightarrow> (\<exists>cmds. mapE ParseLine (getlines [] cs) = Inr cmds \<and> cmds \<noteq> [] \<and>
     (\<forall>(t, cmd) \<in> set cmds. replay_fits cfg cmd) \<and> repeats * fst (last cmds) \<noteq> 0)"

text \<open>C24. The replay program, on a configuration file of a stack of memory dies and a trace that is not
  empty, whose commands fit the stack and whose length in cycles, as often as it is repeated, is not 0, can fail
  in one way only, when no number of time steps is large enough; otherwise its exit code is 0 and the
  calculator is well formed. But every command is booked on the first channel, whatever channel the
  trace names: in every cell of a bank of any other channel there is no command energy in the power map, and
  the accumulated map, which the final report prints, holds nothing but the cell's share of the background.\<close>

theorem replay_heats_first_channel:
  assumes "parse argv = Parsed opts" and "ini_file mc (args_get (given_config_file opts) []) = Some rd"
    and "Config_thermal rd (reals (args_get (given_config_file opts) [])) (raw_config mc) t0 = Inr c" and "replay_stack c"
    and "text_file mc (args_get (given_trace_file opts) []) = Some cs"
    and "replay_trace (tc_cfg c) cs (args_get (given_repeats opts) 10)" and "api_ok api" and "solver_keeps_length slu"
  shows "case replay_main parse mc reals t0 api slu argv of
      Inl e \<Rightarrow> e = Overflow
    | Inr (code, result) \<Rightarrow> code = 0 \<and> (\<exists>rp csv. result = Some (rp, csv) \<and> thermal_ok c (thermal_calc rp) \<and>
        (\<forall>k bg ba i. bank_exists (tc_cfg c) (k, bg, ba) \<and> k \<noteq> 0 \<and> i \<in> bank_cells c k bg ba \<longrightarrow>
           power_at_cell (thermal_calc rp) i = dzero \<and>
           accu_at_cell (thermal_calc rp) i = dadd dzero (bg_share (thermal_calc rp))))"
proof -
  let ?repeats = "args_get (given_repeats opts) 10"
  have f: "hbm_fits c" and env: "replay_env api c" using assms(4,7) by (simp_all add: replay_stack_def replay_env_def)
  obtain cmds where cmds: "mapE ParseLine (getlines [] cs) = Inr cmds" "cmds \<noteq> []" "\<forall>(t, cmd) \<in> set cmds. replay_fits (tc_cfg c) cmd"
    "?repeats * fst (last cmds) \<noteq> 0" using assms(6) by (auto simp: replay_trace_def)
  note start = ThermalReplay_start [OF assms(4) cmds(1)]
  have main: "replay_main parse mc reals t0 api slu argv = bindE (ThermalReplay c cs) (\<lambda>rp. bindE (Run api slu c ?repeats rp) (\<lambda>r. Inr (0, Some r)))"
    by (simp add: replay_main_def assms(1,2,3,5) load_ini_def open_replay_def Let_def)
  show ?thesis
  proof (cases "ThermalReplay c cs")
    case (Inl e)
    then show ?thesis using start by (simp add: main)
  next
    case (Inr rp)
    have cold0: "\<And>n. n < nat (numP (hbm_plan c) * dimX (hbm_plan c) * dimY (hbm_plan c)) \<Longrightarrow>
        power_at_cell (thermal_calc rp) (int n) = dzero \<and> accu_at_cell (thermal_calc rp) (int n) = dzero"
      using start by (simp add: Inr)
    have "replay_ok c rp" "trace_fits (tc_cfg c) rp" "timed_commands rp = cmds"
      using start cmds(3) by (simp_all add: Inr trace_fits_def)
    from Run_ok [OF env this(1,2) assms(8), of ?repeats] this(3) cmds(2,4) obtain rp' csv where
      run: "Run api slu c ?repeats rp = Inr (rp', csv)" "thermal_ok c (thermal_calc rp')" and
      cold: "\<And>k bg ba i. bank_exists (tc_cfg c) (k, bg, ba) \<Longrightarrow> k \<noteq> 0 \<Longrightarrow> i \<in> bank_cells c k bg ba \<Longrightarrow>
        power_at_cell (thermal_calc rp') i = power_at_cell (thermal_calc rp) i \<and>
        accu_at_cell (thermal_calc rp') i = dadd (accu_at_cell (thermal_calc rp) i) (bg_share (thermal_calc rp'))" by (auto simp: okE_iff)
    have "power_at_cell (thermal_calc rp) i = dzero \<and> accu_at_cell (thermal_calc rp) i = dzero"
      if "bank_exists (tc_cfg c) (k, bg, ba)" "i \<in> bank_cells c k bg ba" for k bg ba i
    proof -
      have e: "0 \<le> k" "k < channels (tc_cfg c)" "0 \<le> bg" "bg < bankgroups (tc_cfg c)" "0 \<le> ba" "ba < banks_per_group (tc_cfg c)"
        using that(1) by (simp_all add: bank_exists_def)
      have "0 \<le> i" "i < numP (hbm_plan c) * dimX (hbm_plan c) * dimY (hbm_plan c)"
        using bank_cells_in_map [OF f e that(2)] by (simp_all add: hbm_plan_def algebra_simps)
      then have "nat i < nat (numP (hbm_plan c) * dimX (hbm_plan c) * dimY (hbm_plan c))" by simp
      from cold0 [OF this] \<open>0 \<le> i\<close> show ?thesis by simp
    qed
    then have "power_at_cell (thermal_calc rp') i = dzero \<and> accu_at_cell (thermal_calc rp') i = dadd dzero (bg_share (thermal_calc rp'))"
      if "bank_exists (tc_cfg c) (k, bg, ba)" "k \<noteq> 0" "i \<in> bank_cells c k bg ba" for k bg ba i
      using that cold [OF that] by metis
    with run show ?thesis by (auto simp: main Inr)
  qed
qed

section \<open>An example\<close>

text \<open>A row of bank 6 of channel 3 is opened and read, ten times.\<close>

definition ex_replay_file :: string where
  "ex_replay_file = ''1000 activate 3 0 1 2 9 0'' @ newline @ ''1010 read 3 0 1 2 9 4'' @ newline"

definition ex_api :: stats_api where
  "ex_api = \<lparr>PrintEpochStats_at = (\<lambda>_ ss. ss), RankBackgroundEnergy = (\<lambda>_ _. dlit 5 1), PrintFinalStats_at = (\<lambda>_ ss. ss)\<rparr>"

lemma ex_times: "stoull ''1000'' = Inr 1000" "stoull ''1010'' = Inr 1010"
proof -
  have "dropWhile is_space ''1000'' = ''1000''" "split_sign ''1000'' = (False, ''1000'')" "takeWhile (is_digit 10) ''1000'' = ''1000''"
    "digits_value 10 ''1000'' = 1000" by code_simp+
  then show "stoull ''1000'' = Inr 1000" by (simp add: stoull_def)
  have "dropWhile is_space ''1010'' = ''1010''" "split_sign ''1010'' = (False, ''1010'')" "takeWhile (is_digit 10) ''1010'' = ''1010''"
    "digits_value 10 ''1010'' = 1010" by code_simp+
  then show "stoull ''1010'' = Inr 1010" by (simp add: stoull_def)
qed

lemma ex_trace_parses: "mapE ParseLine (getlines [] ex_replay_file) =
    Inr [(1000, Command ACTIVATE (Address 3 0 1 2 9 0) 0), (1010, Command READ (Address 3 0 1 2 9 4) 0)]"
proof -
  have l: "getlines [] ex_replay_file = [''1000 activate 3 0 1 2 9 0'', ''1010 read 3 0 1 2 9 4'']" by code_simp
  have s: "StringSplit ''1000 activate 3 0 1 2 9 0'' CHR '' '' = [''1000'', ''activate'', ''3'', ''0'', ''1'', ''2'', ''9'', ''0'']"
    "StringSplit ''1010 read 3 0 1 2 9 4'' CHR '' '' = [''1010'', ''read'', ''3'', ''0'', ''1'', ''2'', ''9'', ''4'']" by code_simp+
  have n: "stoi ''0'' = Inr 0" "stoi ''1'' = Inr 1" "stoi ''2'' = Inr 2" "stoi ''3'' = Inr 3" "stoi ''4'' = Inr 4" "stoi ''9'' = Inr 9"
    "um_ref READ cmd_map ''activate'' = ACTIVATE" "um_ref READ cmd_map ''read'' = READ" by code_simp+
  show ?thesis by (simp add: l ParseLine_def s n ex_times)
qed

lemma ex_replay_stack: "replay_stack ex_stack"
  by (simp add: replay_stack_def ex_stack_fits dims_ok_def grid_ok_def numLayer_def hbm_plan_def)
    (simp add: hbm_thermal_def ex_thermal_params_def hbm_cfg_def of_c_int_def)

lemma ex_replay_trace: "replay_trace hbm_cfg ex_replay_file 10"
  by (simp add: replay_trace_def ex_trace_parses replay_fits_def cmd_fits_def address_fits_def)

lemma ex_Config_thermal: "Config_thermal hbm_reader hbm_real zero_config ex_thermal_params = Inr ex_stack"
  by (simp add: Config_thermal_def hbm_Config hbm_InitThermalParams ex_stack_def)

theorem replay_heats_first_channel_witness:
  "case replay_main (\<lambda>_. Parsed \<lparr>given_repeats = None, given_config_file = Some ''HBM_4Gb_x128.ini'', given_trace_file = Some ''cmd.trace''\<rparr>)
      (ex_host\<lparr>text_file := (\<lambda>name. if name = ''cmd.trace'' then Some ex_replay_file else None)\<rparr>) (\<lambda>_. hbm_real) ex_thermal_params
      ex_api ex_solver [] of
     Inl e \<Rightarrow> e = Overflow
   | Inr (code, result) \<Rightarrow> code = 0 \<and> (\<exists>rp csv. result = Some (rp, csv) \<and>
       power_at_cell (thermal_calc rp) (bank_cell ex_stack 3 1 2 0 0) = dzero \<and>
       accu_at_cell (thermal_calc rp) (bank_cell ex_stack 3 1 2 0 0) = dadd dzero (bg_share (thermal_calc rp)))"
proof -
  let ?o = "\<lparr>given_repeats = None, given_config_file = Some ''HBM_4Gb_x128.ini'', given_trace_file = Some ''cmd.trace''\<rparr>"
  let ?mc = "ex_host\<lparr>text_file := (\<lambda>name. if name = ''cmd.trace'' then Some ex_replay_file else None)\<rparr>"
  have ini: "ini_file ?mc (args_get (given_config_file ?o) []) = Some hbm_reader"
    "text_file ?mc (args_get (given_trace_file ?o) []) = Some ex_replay_file" by (simp_all add: ex_host_def args_get_def)
  have cfg: "Config_thermal hbm_reader ((\<lambda>_. hbm_real) (args_get (given_config_file ?o) [])) (raw_config ?mc) ex_thermal_params = Inr ex_stack"
    by (simp add: ex_Config_thermal ex_host_def)
  have trc: "replay_trace (tc_cfg ex_stack) ex_replay_file (args_get (given_repeats ?o) 10)" by (simp add: args_get_def ex_replay_trace)
  have api: "api_ok ex_api" by (simp add: api_ok_def ex_api_def)
  have slu: "solver_keeps_length ex_solver" by (simp add: solver_keeps_length_def ex_solver_def)
  have b: "bank_exists (tc_cfg ex_stack) (3, 1, 2)" "bank_cell ex_stack 3 1 2 0 0 \<in> bank_cells ex_stack 3 1 2"
    by (simp add: bank_exists_def) (rule bank_cellsI [OF _ _ _ _ refl]; simp)
  from replay_heats_first_channel [of "\<lambda>_. Parsed ?o" "[]" ?o, OF refl ini(1) cfg ex_replay_stack ini(2) trc api slu] b
  show ?thesis by (auto split: sum.splits) (metis zero_neq_numeral)+
qed

end
