(* ===== verification/Callbacks.thy ===== *)
theory Callbacks
  imports MemorySystem
begin

text \<open>
  The callbacks of the client (\<open>RegisterCallbacks\<close> in \<open>dram_system.cc\<close> and \<open>memory_system.cc\<close>). The
  models of the systems log the calls; here the cycles call the registered functions at the places where
  the code does, on the state of the client. A locale states what both forms have in common: the client
  sees exactly the calls of the log, in their order. With the contract of the memory (\<open>Memory_Port\<close>)
  this gives what the client itself sees of a session: each of its transactions is answered once,
  by the callback of its kind (in a cube, of its response), or still held.
\<close>

section \<open>Callbacks\<close>

text \<open>A callback changes the state of the client; it does not call the memory.\<close>

record 'u callbacks =
  read_callback :: "u64 \<Rightarrow> 'u \<Rightarrow> 'u"
  write_callback :: "u64 \<Rightarrow> 'u \<Rightarrow> 'u"

definition call_back :: "'u callbacks \<Rightarrow> bool \<Rightarrow> u64 \<Rightarrow> 'u \<Rightarrow> 'u" where
  "call_back cb w a u = (if w then write_callback cb a u else read_callback cb a u)"

fun deliver :: "'u callbacks \<Rightarrow> (u64 \<times> int) list \<Rightarrow> 'u \<Rightarrow> 'u" where
  "deliver cb [] u = u"
| "deliver cb ((a, w) # log) u = deliver cb log (call_back cb (w = 1) a u)"

lemma deliver_append [simp]: "deliver cb (xs @ ys) u = deliver cb ys (deliver cb xs u)"
  by (induction cb xs u rule: deliver.induct) simp_all

section \<open>The contract\<close>

text \<open>A step in both forms: \<open>f\<close> logs its calls, \<open>g\<close> makes them.\<close>

definition logs_calls :: "('s \<Rightarrow> (u64 \<times> int) list) \<Rightarrow> 'u callbacks \<Rightarrow> ('s \<Rightarrow> 's result) \<Rightarrow> ('s \<times> 'u \<Rightarrow> ('s \<times> 'u) result) \<Rightarrow> bool" where
  "logs_calls L cb f g \<longleftrightarrow>
     (\<forall>s s'. f s = Inr s' \<longrightarrow> (\<exists>new. L s' = L s @ new)) \<and>
     (\<forall>s u. g (s, u) = bindE (f s) (\<lambda>s'. Inr (s', deliver cb (drop (length (L s)) (L s')) u)))"

definition quiet :: "('s \<Rightarrow> (u64 \<times> int) list) \<Rightarrow> ('s \<Rightarrow> 's result) \<Rightarrow> bool" where
  "quiet L f \<longleftrightarrow> (\<forall>s s'. f s = Inr s' \<longrightarrow> L s' = L s)"

text \<open>A step without calls passes the client by.\<close>

definition passing :: "('s \<Rightarrow> 's result) \<Rightarrow> 's \<times> 'u \<Rightarrow> ('s \<times> 'u) result" where
  "passing f = (\<lambda>(s, u). bindE (f s) (\<lambda>s'. Inr (s', u)))"

lemma quiet_logs: "quiet L f \<Longrightarrow> logs_calls L cb f (passing f)"
  by (auto simp: quiet_def logs_calls_def passing_def bindE_def split: sum.splits)

lemma logs_calls_bind:
  assumes "logs_calls L cb f f'" and "logs_calls L cb g g'"
  shows "logs_calls L cb (\<lambda>s. bindE (f s) g) (\<lambda>x. bindE (f' x) g')"
  unfolding logs_calls_def
proof (intro conjI allI impI)
  fix s s' assume "bindE (f s) g = Inr s'"
  then obtain s1 where "f s = Inr s1" "g s1 = Inr s'" by (auto simp: bindE_eq_Inr)
  then obtain n1 n2 where "L s1 = L s @ n1" "L s' = L s1 @ n2" using assms unfolding logs_calls_def by blast
  then show "\<exists>new. L s' = L s @ new" by simp
next
  fix s u
  show "bindE (f' (s, u)) g' = bindE (bindE (f s) g) (\<lambda>s'. Inr (s', deliver cb (drop (length (L s)) (L s')) u))"
  proof (cases "f s")
    case (Inl e)
    then show ?thesis using assms(1) by (simp add: logs_calls_def)
  next
    case (Inr s1)
    then obtain n1 where n1: "L s1 = L s @ n1" using assms(1) unfolding logs_calls_def by blast
    have f': "f' (s, u) = Inr (s1, deliver cb n1 u)" using assms(1) Inr n1 by (simp add: logs_calls_def)
    show ?thesis
    proof (cases "g s1")
      case (Inl e)
      then show ?thesis using assms(2) by (simp add: logs_calls_def Inr f')
    next
      case g: (Inr s2)
      then obtain n2 where n2: "L s2 = L s1 @ n2" using assms(2) unfolding logs_calls_def by blast
      then show ?thesis using assms(2) g n1 by (simp add: logs_calls_def Inr f')
    qed
  qed
qed

lemma logs_calls_foldE:
  assumes "\<And>x. x \<in> set xs \<Longrightarrow> logs_calls L cb (f x) (g x)"
  shows "logs_calls L cb (foldE f xs) (foldE g xs)"
  using assms
proof (induction xs)
  case Nil
  then show ?case by (simp add: logs_calls_def)
next
  case (Cons x xs)
  from logs_calls_bind [OF Cons.prems Cons.IH] Cons.prems show ?case by simp
qed

lemma quiet_foldE: "(\<And>x. x \<in> set xs \<Longrightarrow> quiet L (f x)) \<Longrightarrow> quiet L (foldE f xs)"
  by (induction xs) (fastforce simp: quiet_def bindE_eq_Inr)+

text \<open>The interface: a memory whose cycle exists in both forms.\<close>

locale calling_memory =
  fixes tick :: "'s \<Rightarrow> 's result" and tick_calling :: "'u callbacks \<Rightarrow> 's \<times> 'u \<Rightarrow> ('s \<times> 'u) result"
    and log :: "'s \<Rightarrow> (u64 \<times> int) list"
  assumes both: "logs_calls log cb tick (tick_calling cb)"
begin

text \<open>Whatever the client does in its callbacks, the memory runs the same, and the client ends in the
  state that the new part of the log leads to.\<close>

lemma client_sees_log:
  "tick_calling cb (s, u) = bindE (tick s) (\<lambda>s'. Inr (s', deliver cb (drop (length (log s)) (log s')) u))"
  using both unfolding logs_calls_def by blast

lemma log_grows: "tick s = Inr s' \<Longrightarrow> \<exists>new. log s' = log s @ new"
  using both unfolding logs_calls_def by blast

lemma cycles_see_log:
  "((\<lambda>r. bindE r (tick_calling cb)) ^^ n) (Inr (s, u)) =
     bindE (((\<lambda>r. bindE r tick) ^^ n) (Inr s)) (\<lambda>s'. Inr (s', deliver cb (drop (length (log s)) (log s')) u))"
proof -
  have c: "logs_calls log cb (\<lambda>s. ((\<lambda>r. bindE r tick) ^^ n) (Inr s)) (\<lambda>x. ((\<lambda>r. bindE r (tick_calling cb)) ^^ n) (Inr x))"
  proof (induction n)
    case 0
    then show ?case by (simp add: logs_calls_def)
  next
    case (Suc n)
    from logs_calls_bind [OF this both] show ?case by simp
  qed
  then show ?thesis unfolding logs_calls_def by blast
qed

end

section \<open>One controller for each channel\<close>

definition call_and_log :: "'u callbacks \<Rightarrow> bool \<Rightarrow> u64 \<Rightarrow> (u64 \<times> int) list \<times> 'u \<Rightarrow> ((u64 \<times> int) list \<times> 'u) result" where
  "call_and_log cb w a = (\<lambda>(log, u). Inr (log @ [(a, if w then 1 else 0)], call_back cb w a u))"

definition Jedec_ClockTick_calling :: "config \<Rightarrow> timing \<Rightarrow> 'u callbacks \<Rightarrow> dram_system \<times> 'u \<Rightarrow> (dram_system \<times> 'u) result" where
  "Jedec_ClockTick_calling cfg tim cb = (\<lambda>(s, u).
     bindE (each_ctrl (drain_done (call_and_log cb) (ds_clk s)) (ctrls s) (calls s, u)) (\<lambda>(cts, log, u').
     bindE (each_ctrl (tick_ctrl cfg tim) cts (active_cycles s, ds_concurrent_serve s))
       (\<lambda>(cts', active, concurrent).
     bindE (next_clk cfg (s\<lparr>ctrls := cts', calls := log, active_cycles := active,
                     ds_concurrent_serve := concurrent\<rparr>)) (\<lambda>s'. Inr (s', u')))))"

lemma drain_done_calling:
  "\<exists>ct' out. \<forall>log u. drain_done log_call clk ct log = Inr (ct', log @ out) \<and>
     drain_done (call_and_log cb) clk ct (log, u) = Inr (ct', log @ out, deliver cb out u)"
proof (induction "length (return_queue ct)" arbitrary: ct rule: less_induct)
  case less
  obtain a k ct1 where r: "ReturnDoneTrans clk ct = ((a, k), ct1)" by (metis surj_pair)
  note step = drain_done.simps [of _ clk ct, unfolded r fst_conv snd_conv Let_def]
  show ?case
  proof (cases "k = 1 \<or> k = 0")
    case True
    then have "length (return_queue ct1) < length (return_queue ct)"
      by (intro ReturnDoneTrans_shrinks [OF r]) (auto simp: no_trans_def)
    from less [OF this] obtain ct' out where
      ih: "\<And>log u. drain_done log_call clk ct1 log = Inr (ct', log @ out)"
        "\<And>log u. drain_done (call_and_log cb) clk ct1 (log, u) = Inr (ct', log @ out, deliver cb out u)" by blast
    show ?thesis
      by (rule exI [of _ ct'], rule exI [of _ "(a, k) # out"])
        (use True in \<open>auto simp: step log_call_def call_and_log_def ih\<close>)
  next
    case False
    then show ?thesis by (intro exI [of _ ct1] exI [of _ "[]"]) (simp add: step)
  qed
qed

lemma each_ctrl_calling:
  "\<exists>cts' out. \<forall>log u. each_ctrl (drain_done log_call clk) cts log = Inr (cts', log @ out) \<and>
     each_ctrl (drain_done (call_and_log cb) clk) cts (log, u) = Inr (cts', log @ out, deliver cb out u)"
proof (induction cts)
  case (Cons ct cts)
  then obtain cts' out where
    ih: "\<And>log u. each_ctrl (drain_done log_call clk) cts log = Inr (cts', log @ out)"
      "\<And>log u. each_ctrl (drain_done (call_and_log cb) clk) cts (log, u) = Inr (cts', log @ out, deliver cb out u)" by blast
  from drain_done_calling [of clk ct cb] obtain ct' out0 where
    d: "\<And>log u. drain_done log_call clk ct log = Inr (ct', log @ out0)"
      "\<And>log u. drain_done (call_and_log cb) clk ct (log, u) = Inr (ct', log @ out0, deliver cb out0 u)" by blast
  show ?case by (rule exI [of _ "ct' # cts'"], rule exI [of _ "out0 @ out"]) (simp add: d ih)
qed simp

lemma next_clk_keeps_calls: "next_clk cfg s = Inr s' \<Longrightarrow> calls s' = calls s"
  by (auto simp: next_clk_def Let_def ds_PrintEpochStats_def bindE_eq_Inr split: if_splits)

lemma Jedec_logs: "logs_calls calls cb (Jedec_ClockTick cfg tim) (Jedec_ClockTick_calling cfg tim cb)"
  unfolding logs_calls_def
proof (intro conjI allI impI)
  fix s s' assume run: "Jedec_ClockTick cfg tim s = Inr s'"
  obtain cts out where "\<And>log u. each_ctrl (drain_done log_call (ds_clk s)) (ctrls s) log = Inr (cts, log @ out)"
    using each_ctrl_calling [of "ds_clk s" "ctrls s" cb] by blast
  with run show "\<exists>new. calls s' = calls s @ new"
    by (auto simp: Jedec_ClockTick_def bindE_eq_Inr dest!: next_clk_keeps_calls)
next
  fix s :: dram_system and u
  obtain cts out where c: "\<And>log u. each_ctrl (drain_done log_call (ds_clk s)) (ctrls s) log = Inr (cts, log @ out)"
    "\<And>log u. each_ctrl (drain_done (call_and_log cb) (ds_clk s)) (ctrls s) (log, u) = Inr (cts, log @ out, deliver cb out u)"
    using each_ctrl_calling [of "ds_clk s" "ctrls s" cb] by blast
  show "Jedec_ClockTick_calling cfg tim cb (s, u) =
      bindE (Jedec_ClockTick cfg tim s) (\<lambda>s'. Inr (s', deliver cb (drop (length (calls s)) (calls s')) u))"
    by (auto simp: Jedec_ClockTick_def Jedec_ClockTick_calling_def c bindE_def dest!: next_clk_keeps_calls split: sum.splits prod.splits)
qed

interpretation jedec_calls: calling_memory "Jedec_ClockTick cfg tim" "Jedec_ClockTick_calling cfg tim" calls
  by unfold_locales (rule Jedec_logs)

section \<open>The ideal memory\<close>

fun ideal_calling :: "'u callbacks \<Rightarrow> u64 \<Rightarrow> int \<Rightarrow> transaction list \<Rightarrow> 'u \<Rightarrow> transaction list \<times> (u64 \<times> int) list \<times> 'u" where
  "ideal_calling cb clk lat [] u = ([], [], u)"
| "ideal_calling cb clk lat (t # ts) u =
     (if clk - added_cycle t \<ge> of_c_int lat then
        let u1 = call_back cb (is_write t) (t_addr t) u in
        (case ts of [] \<Rightarrow> ([], [done_pair t], u1)
         | t1 # ts1 \<Rightarrow> (let (kept, out, u2) = ideal_calling cb clk lat ts1 u1 in (t1 # kept, done_pair t # out, u2)))
      else (let (kept, out, u2) = ideal_calling cb clk lat ts u in (t # kept, out, u2)))"

definition Ideal_ClockTick_calling :: "'u callbacks \<Rightarrow> ideal_system \<times> 'u \<Rightarrow> (ideal_system \<times> 'u) result" where
  "Ideal_ClockTick_calling cb = (\<lambda>(s, u).
     let (kept, out, u') = ideal_calling cb (ds_clk s) (latency s) (infinite_buffer_q s) u in
     Inr (s\<lparr>infinite_buffer_q := kept, calls := calls s @ out, ds_clk := ds_clk s + 1\<rparr>, u'))"

lemma ideal_calling_loop:
  "ideal_calling cb clk lat ts u = (let (kept, out) = ideal_loop clk lat ts in (kept, out, deliver cb out u))"
proof (induction cb clk lat ts u rule: ideal_calling.induct)
  case (2 cb clk lat t ts u)
  then show ?case by (cases ts) (auto simp: Let_def done_pair_def split: prod.splits)
qed simp

lemma Ideal_logs: "logs_calls calls cb Ideal_ClockTick (Ideal_ClockTick_calling cb)"
  by (auto simp: logs_calls_def Ideal_ClockTick_def Ideal_ClockTick_calling_def ideal_calling_loop Let_def split: prod.splits)

interpretation ideal_calls: calling_memory Ideal_ClockTick Ideal_ClockTick_calling calls
  by unfold_locales (rule Ideal_logs)

section \<open>The memory cube\<close>

text \<open>Only the links of the cube call the client; the callback of a vault is the cube's own.\<close>

definition answer_link_calling :: "'u callbacks \<Rightarrow> int \<Rightarrow> hmc_system \<times> 'u \<Rightarrow> (hmc_system \<times> 'u) result" where
  "answer_link_calling cb i = (\<lambda>(s, u).
     bindE (vget (link_resp_queues s) i) (\<lambda>q.
     case q of [] \<Rightarrow> Inr (s, u)
     | resp # rest \<Rightarrow>
        if rs_exit_time resp \<le> logic_clk s then
          bindE (vset (link_resp_queues s) i rest) (\<lambda>qs. Inr (s\<lparr>link_resp_queues := qs,
            calls := calls s @ [(resp_id resp, if rs_type resp = RD_RS then 0 else 1)]\<rparr>,
            call_back cb (rs_type resp \<noteq> RD_RS) (resp_id resp) u))
        else Inr (s, u)))"

definition rest_of_responses :: "hmc_system \<Rightarrow> hmc_system result" where
  "rest_of_responses s1 = (let s = s1\<lparr>link_busy := drain_busy (link_busy s1)\<rparr> in
     bindE (BuildAgeQueue (logic_clk s) (quad_age_counter s)) (\<lambda>age_queue. foldE move_response age_queue s))"

definition DrainResponses_calling :: "'u callbacks \<Rightarrow> hmc_system \<times> 'u \<Rightarrow> (hmc_system \<times> 'u) result" where
  "DrainResponses_calling cb x =
     bindE (foldE (answer_link_calling cb) (indices (hmc_links (fst x))) x) (passing rest_of_responses)"

fun logic_loop_calling :: "'u callbacks \<Rightarrow> nat \<Rightarrow> hmc_system \<times> 'u \<Rightarrow> (hmc_system \<times> 'u) result" where
  "logic_loop_calling cb n x =
     (if logic_ps (fst x) < dram_ps (fst x) + ps_per_dram (fst x) then
        (case n of 0 \<Rightarrow> Inl Endless
         | Suc m \<Rightarrow> bindE (DrainResponses_calling cb x) (\<lambda>x1. bindE (passing DrainRequests x1) (\<lambda>(s2, u).
             logic_loop_calling cb m (next_logic s2, u))))
      else Inr x)"

declare logic_loop_calling.simps [simp del]

definition HMC_ClockTick_calling :: "config \<Rightarrow> timing \<Rightarrow> 'u callbacks \<Rightarrow> hmc_system \<times> 'u \<Rightarrow> (hmc_system \<times> 'u) result" where
  "HMC_ClockTick_calling cfg tim cb x =
     bindE (if dram_ps (fst x) = logic_ps (fst x) then
              bindE (DrainResponses_calling cb x) (\<lambda>x1. bindE (passing (DRAMClockTick cfg tim) x1) (\<lambda>x2.
              bindE (passing DrainRequests x2) (passing (\<lambda>s. Inr (next_logic s)))))
            else passing (DRAMClockTick cfg tim) x) (\<lambda>(s1, u1).
     bindE (logic_loop_calling cb (unat (dram_ps s1 + ps_per_dram s1 - logic_ps s1)) (s1, u1))
       (passing (\<lambda>s. Inr (s\<lparr>dram_ps := dram_ps s + ps_per_dram s\<rparr>))))"

lemma quiet_bind: "quiet L f \<Longrightarrow> quiet L g \<Longrightarrow> quiet L (\<lambda>s. bindE (f s) g)"
  by (fastforce simp: quiet_def bindE_eq_Inr)

lemma bindE_InrE:
  assumes "bindE m f = Inr y"
  obtains x where "m = Inr x" and "f x = Inr y"
  using assms by (auto simp: bindE_eq_Inr)

lemma quiet_move_response: "quiet calls (move_response i)"
  by (auto simp: quiet_def move_response_def Let_def elim!: bindE_InrE split: if_splits)

lemma quiet_move_request: "quiet calls (move_request i)"
  by (auto simp: quiet_def move_request_def Let_def elim!: bindE_InrE split: if_splits)

lemma quiet_drain_quad: "quiet calls (drain_quad i)"
  by (auto simp: quiet_def drain_quad_def InsertReqToDRAM_def elim!: bindE_InrE split: list.splits if_splits)

lemma quiet_DrainRequests: "quiet calls DrainRequests"
  unfolding quiet_def
proof (intro allI impI)
  fix s s' assume "DrainRequests s = Inr s'"
  then obtain s1 qs where r: "foldE drain_quad (indices 4) s = Inr s1"
    "foldE move_request qs (s1\<lparr>quad_busy := drain_busy (quad_busy s1)\<rparr>) = Inr s'"
    by (auto simp: DrainRequests_def Let_def bindE_eq_Inr)
  from quiet_foldE [of _ calls drain_quad, OF quiet_drain_quad] r(1) have "calls s1 = calls s" unfolding quiet_def by blast
  moreover from quiet_foldE [of _ calls move_request, OF quiet_move_request] r(2) have
    "calls s' = calls (s1\<lparr>quad_busy := drain_busy (quad_busy s1)\<rparr>)" unfolding quiet_def by blast
  ultimately show "calls s' = calls s" by simp
qed

lemma quiet_rest: "quiet calls rest_of_responses"
  unfolding quiet_def
proof (intro allI impI)
  fix s s' assume "rest_of_responses s = Inr s'"
  then obtain qs where r: "foldE move_response qs (s\<lparr>link_busy := drain_busy (link_busy s)\<rparr>) = Inr s'"
    by (auto simp: rest_of_responses_def Let_def bindE_eq_Inr)
  from quiet_foldE [of _ calls move_response, OF quiet_move_response] r have
    "calls s' = calls (s\<lparr>link_busy := drain_busy (link_busy s)\<rparr>)" unfolding quiet_def by blast
  then show "calls s' = calls s" by simp
qed

lemma quiet_VaultCallback: "quiet calls (VaultCallback w a)"
  by (auto simp: quiet_def VaultCallback_def elim!: bindE_InrE split: option.splits)

lemma drain_done_keeps:
  assumes "\<And>w a. quiet L (callback w a)" and "drain_done callback clk ct s = Inr (ct', s')"
  shows "L s' = L s"
  using assms(2)
proof (induction "length (return_queue ct)" arbitrary: ct s rule: less_induct)
  case less
  obtain a k ct1 where r: "ReturnDoneTrans clk ct = ((a, k), ct1)" by (metis surj_pair)
  note step = drain_done.simps [of callback clk ct, unfolded r fst_conv snd_conv Let_def]
  show ?case
  proof (cases "k = 1 \<or> k = 0")
    case True
    then have l: "length (return_queue ct1) < length (return_queue ct)"
      by (intro ReturnDoneTrans_shrinks [OF r]) (auto simp: no_trans_def)
    from True less.prems obtain w s1 where "callback w a s = Inr s1" "drain_done callback clk ct1 s1 = Inr (ct', s')"
      by (auto simp: step elim!: bindE_InrE split: if_splits)
    with less.hyps [OF l] assms(1) show ?thesis by (fastforce simp: quiet_def)
  next
    case False
    with less.prems show ?thesis by (simp add: step)
  qed
qed

lemma each_ctrl_keeps:
  assumes "\<And>ct s ct' s'. f ct s = Inr (ct', s') \<Longrightarrow> L s' = L s"
  shows "each_ctrl f cts s = Inr (cts', s') \<Longrightarrow> L s' = L s"
proof (induction cts arbitrary: s cts')
  case (Cons ct cts)
  then show ?case using assms by (fastforce elim!: bindE_InrE)
qed simp

lemma quiet_DRAMClockTick: "quiet calls (DRAMClockTick cfg tim)"
  unfolding quiet_def
proof (intro allI impI)
  fix s s' assume "DRAMClockTick cfg tim s = Inr s'"
  then obtain cts s1 cts' where r: "each_ctrl (drain_done VaultCallback (ds_clk s)) (ctrls s) s = Inr (cts, s1)"
    "next_clk cfg (s1\<lparr>ctrls := cts'\<rparr>) = Inr s'" by (auto simp: DRAMClockTick_def elim!: bindE_InrE)
  have "calls s1 = calls s"
    by (rule each_ctrl_keeps [OF drain_done_keeps [OF quiet_VaultCallback] r(1)])
  with next_clk_keeps_calls [OF r(2)] show "calls s' = calls s" by simp
qed

lemma answer_link_logs: "logs_calls calls cb (answer_link i) (answer_link_calling cb i)"
  by (auto simp: logs_calls_def answer_link_def answer_link_calling_def bindE_def split: sum.splits list.splits if_splits)

lemma logs_calls_dep:
  "(\<And>n. logs_calls L cb (f n) (g n)) \<Longrightarrow> logs_calls L cb (\<lambda>s. f (h s) s) (\<lambda>x. g (h (fst x)) x)"
  unfolding logs_calls_def by auto

lemma logs_calls_if:
  "logs_calls L cb f f' \<Longrightarrow> logs_calls L cb g g' \<Longrightarrow>
   logs_calls L cb (\<lambda>s. if b s then f s else g s) (\<lambda>x. if b (fst x) then f' x else g' x)"
  unfolding logs_calls_def by auto

lemma DrainResponses_logs: "logs_calls calls cb DrainResponses (DrainResponses_calling cb)"
proof -
  have links: "logs_calls calls cb (\<lambda>s. foldE answer_link (indices (hmc_links s)) s)
      (\<lambda>x. foldE (answer_link_calling cb) (indices (hmc_links (fst x))) x)"
    by (rule logs_calls_dep [where h = hmc_links], rule logs_calls_foldE, rule answer_link_logs)
  have "DrainResponses = (\<lambda>s. bindE (foldE answer_link (indices (hmc_links s)) s) rest_of_responses)"
    unfolding DrainResponses_def rest_of_responses_def ..
  moreover have "DrainResponses_calling cb = (\<lambda>x. bindE (foldE (answer_link_calling cb) (indices (hmc_links (fst x))) x) (passing rest_of_responses))"
    by (rule ext) (simp add: DrainResponses_calling_def)
  ultimately show ?thesis using logs_calls_bind [OF links quiet_logs [OF quiet_rest]] by simp
qed

lemma quiet_update: "(\<And>s. L (h s) = L s) \<Longrightarrow> quiet L (\<lambda>s. Inr (h s))"
  by (simp add: quiet_def)

lemma logic_loop_logs: "logs_calls calls cb (logic_loop n) (logic_loop_calling cb n)"
proof (induction n)
  case 0
  then show ?case
    by (auto simp: logs_calls_def logic_loop.simps [of 0] logic_loop_calling.simps [of _ 0])
next
  case (Suc n)
  have next_quiet: "quiet calls (\<lambda>s. Inr (next_logic s))" by (rule quiet_update) (simp add: next_logic_def)
  note body = logs_calls_bind [OF DrainResponses_logs logs_calls_bind [OF quiet_logs [OF quiet_DrainRequests]
    logs_calls_bind [OF quiet_logs [OF next_quiet] Suc.IH]]]
  have stop: "logs_calls calls cb (\<lambda>s. Inr s) (\<lambda>x. Inr x)" by (simp add: logs_calls_def)
  have f: "logic_loop (Suc n) = (\<lambda>s. if logic_ps s < dram_ps s + ps_per_dram s
      then bindE (DrainResponses s) (\<lambda>s1. bindE (DrainRequests s1) (\<lambda>s2. bindE (Inr (next_logic s2)) (logic_loop n))) else Inr s)"
    by (rule ext) (simp add: logic_loop.simps [of "Suc n"])
  have g: "logic_loop_calling cb (Suc n) = (\<lambda>x. if logic_ps (fst x) < dram_ps (fst x) + ps_per_dram (fst x)
      then bindE (DrainResponses_calling cb x) (\<lambda>x1. bindE (passing DrainRequests x1) (\<lambda>x2.
        bindE (passing (\<lambda>s. Inr (next_logic s)) x2) (logic_loop_calling cb n))) else Inr x)"
    by (rule ext) (simp add: logic_loop_calling.simps [of _ "Suc n"] passing_def split_def)
  show ?case unfolding f g by (rule logs_calls_if [OF body stop])
qed

lemma HMC_logs: "logs_calls calls cb (HMC_ClockTick cfg tim) (HMC_ClockTick_calling cfg tim cb)"
proof -
  have next_quiet: "quiet calls (\<lambda>s. Inr (next_logic s))" by (rule quiet_update) (simp add: next_logic_def)
  have time_quiet: "quiet calls (\<lambda>s :: hmc_system. Inr (s\<lparr>dram_ps := dram_ps s + ps_per_dram s\<rparr>))" by (rule quiet_update) simp
  note first = logs_calls_if [where b = "\<lambda>s. dram_ps s = logic_ps s", OF
    logs_calls_bind [OF DrainResponses_logs logs_calls_bind [OF quiet_logs [OF quiet_DRAMClockTick]
      logs_calls_bind [OF quiet_logs [OF quiet_DrainRequests] quiet_logs [OF next_quiet]]]]
    quiet_logs [OF quiet_DRAMClockTick]]
  note loop = logs_calls_dep [where f = logic_loop and g = "logic_loop_calling cb" and h = "\<lambda>s. unat (dram_ps s + ps_per_dram s - logic_ps s)",
    OF logic_loop_logs]
  have f: "HMC_ClockTick cfg tim = (\<lambda>s. bindE (if dram_ps s = logic_ps s then
        bindE (DrainResponses s) (\<lambda>s1. bindE (DRAMClockTick cfg tim s1) (\<lambda>s2. bindE (DrainRequests s2) (\<lambda>s. Inr (next_logic s))))
      else DRAMClockTick cfg tim s) (\<lambda>s1. bindE (logic_loop (unat (dram_ps s1 + ps_per_dram s1 - logic_ps s1)) s1)
      (\<lambda>s. Inr (s\<lparr>dram_ps := dram_ps s + ps_per_dram s\<rparr>))))"
    by (rule ext) (simp add: HMC_ClockTick_def)
  have g: "HMC_ClockTick_calling cfg tim cb = (\<lambda>x. bindE (if dram_ps (fst x) = logic_ps (fst x) then
        bindE (DrainResponses_calling cb x) (\<lambda>x1. bindE (passing (DRAMClockTick cfg tim) x1) (\<lambda>x2.
        bindE (passing DrainRequests x2) (passing (\<lambda>s. Inr (next_logic s)))))
      else passing (DRAMClockTick cfg tim) x) (\<lambda>x1. bindE (logic_loop_calling cb
        (unat (dram_ps (fst x1) + ps_per_dram (fst x1) - logic_ps (fst x1))) x1)
      (passing (\<lambda>s. Inr (s\<lparr>dram_ps := dram_ps s + ps_per_dram s\<rparr>)))))"
    by (rule ext) (simp add: HMC_ClockTick_calling_def split_def)
  show ?thesis unfolding f g by (rule logs_calls_bind [OF first logs_calls_bind [OF loop quiet_logs [OF time_quiet]]])
qed

interpretation hmc_calls: calling_memory "HMC_ClockTick cfg tim" "HMC_ClockTick_calling cfg tim" calls
  by unfold_locales (rule HMC_logs)

section \<open>The memory system\<close>

definition ms_log :: "memory_system \<Rightarrow> (u64 \<times> int) list" where
  "ms_log m = (case ms_dram m of Jedec s \<Rightarrow> calls s | Cube s \<Rightarrow> calls s)"

definition ms_ClockTick_calling :: "'u callbacks \<Rightarrow> memory_system \<times> 'u \<Rightarrow> (memory_system \<times> 'u) result" where
  "ms_ClockTick_calling cb = (\<lambda>(m, u). let cfg = ms_config m in case ms_dram m of
     Jedec s \<Rightarrow> bindE (Jedec_ClockTick_calling cfg (Timing cfg) cb (s, u)) (\<lambda>(s', u'). Inr (m\<lparr>ms_dram := Jedec s'\<rparr>, u'))
   | Cube s \<Rightarrow> bindE (HMC_ClockTick_calling cfg (Timing cfg) cb (s, u)) (\<lambda>(s', u'). Inr (m\<lparr>ms_dram := Cube s'\<rparr>, u')))"

lemma ms_logs: "logs_calls ms_log cb ms_ClockTick (ms_ClockTick_calling cb)"
  unfolding logs_calls_def
proof (intro conjI allI impI)
  fix m m' assume "ms_ClockTick m = Inr m'"
  then show "\<exists>new. ms_log m' = ms_log m @ new"
    using jedec_calls.log_grows hmc_calls.log_grows
    by (auto simp: ms_ClockTick_def Let_def ms_log_def elim!: bindE_InrE split: dram_ptr.splits)
next
  fix m and u :: 'a
  show "ms_ClockTick_calling cb (m, u) = bindE (ms_ClockTick m) (\<lambda>m'. Inr (m', deliver cb (drop (length (ms_log m)) (ms_log m')) u))"
    by (cases "ms_dram m")
      (simp_all add: ms_ClockTick_calling_def ms_ClockTick_def Let_def jedec_calls.client_sees_log hmc_calls.client_sees_log
        ms_log_def bindE_assoc)
qed

interpretation ms_calls: calling_memory ms_ClockTick ms_ClockTick_calling ms_log
  by unfold_locales (rule ms_logs)

section \<open>A client and its memory\<close>

record 'u attached =
  at_memory :: memory_system
  at_callbacks :: "'u callbacks"
  at_client :: 'u

definition RegisterCallbacks :: "(u64 \<Rightarrow> 'u \<Rightarrow> 'u) \<Rightarrow> (u64 \<Rightarrow> 'u \<Rightarrow> 'u) \<Rightarrow> 'u attached \<Rightarrow> 'u attached" where
  "RegisterCallbacks on_read on_write x = x\<lparr>at_callbacks := \<lparr>read_callback = on_read, write_callback = on_write\<rparr>\<rparr>"

definition GetMemorySystem :: "ini_reader \<Rightarrow> config \<Rightarrow> int \<Rightarrow> (u64 \<Rightarrow> 'u \<Rightarrow> 'u) \<Rightarrow> (u64 \<Rightarrow> 'u \<Rightarrow> 'u) \<Rightarrow> 'u \<Rightarrow> ('u attached \<times> int) result" where
  "GetMemorySystem rd c0 total_channels on_read on_write u =
     bindE (MemorySystem rd c0 total_channels) (\<lambda>(m, n).
       Inr (\<lparr>at_memory = m, at_callbacks = \<lparr>read_callback = on_read, write_callback = on_write\<rparr>, at_client = u\<rparr>, n))"

definition attached_ClockTick :: "'u attached \<Rightarrow> 'u attached result" where
  "attached_ClockTick x = bindE (ms_ClockTick_calling (at_callbacks x) (at_memory x, at_client x))
     (\<lambda>(m, u). Inr (x\<lparr>at_memory := m, at_client := u\<rparr>))"

text \<open>What a client asks of its memory between the cycles.\<close>

definition attached_accepts :: "u64 \<Rightarrow> bool \<Rightarrow> 'u attached \<Rightarrow> bool result" where
  "attached_accepts a w x = ms_WillAcceptTransaction a w (at_memory x)"

definition attached_add :: "u64 \<Rightarrow> bool \<Rightarrow> 'u attached \<Rightarrow> (bool \<times> 'u attached) result" where
  "attached_add a w x = bindE (ms_AddTransaction a w (at_memory x)) (\<lambda>(b, m). Inr (b, x\<lparr>at_memory := m\<rparr>))"

section \<open>What the client sees\<close>

text \<open>The transactions a memory holds: addresses and kinds in a JEDEC memory. Of a cube only the addresses are
  followed, and the kind is 0.\<close>

definition ms_kind :: "memory_system \<Rightarrow> u64 \<times> int \<Rightarrow> u64 \<times> int" where
  "ms_kind m = (\<lambda>(a, w). (a, case ms_dram m of Jedec _ \<Rightarrow> w | Cube _ \<Rightarrow> 0))"

definition ms_tokens :: "memory_system \<Rightarrow> (u64 \<times> int) multiset" where
  "ms_tokens m = (case ms_dram m of Jedec s \<Rightarrow> ds_held s | Cube s \<Rightarrow> image_mset (\<lambda>a. (a, 0)) (hmc_held s))"

lemma ms_kind_simps [simp]:
  "ms_kind (m\<lparr>ms_dram := Jedec s\<rparr>) = (\<lambda>p. p)" "ms_kind (m\<lparr>ms_dram := Cube s'\<rparr>) = (\<lambda>p. (fst p, 0))"
  by (simp_all add: ms_kind_def fun_eq_iff split_def)

lemma ms_tick_tokens:
  assumes "ms_inv m" and "ms_time m < 2 ^ 54"
  shows "okE (\<lambda>m'. ms_inv m' \<and> ms_time m' = ms_time m + 1 \<and> ms_kind m' = ms_kind m \<and> (\<exists>new. ms_log m' = ms_log m @ new \<and>
    ms_tokens m = ms_tokens m' + mset (map (ms_kind m) new))) (ms_ClockTick m)"
proof (cases "ms_dram m")
  case (Jedec s)
  let ?cfg = "ms_config m"
  from assms jedec.tick_ok [of ?cfg s] obtain s' new where t: "Jedec_ClockTick ?cfg (Timing ?cfg) s = Inr s'"
    "ds_inv ?cfg s'" "unat (ds_clk s') = unat (ds_clk s) + 1" "calls s' = calls s @ new"
    "ds_held s = ds_held s' + mset new" by (auto simp: Jedec ms_abs okE_iff)
  have "ms_kind m = (\<lambda>p. p)" by (simp add: ms_kind_def Jedec fun_eq_iff)
  with t show ?thesis by (simp add: ms_ClockTick_def Let_def Jedec ms_abs ms_log_def ms_tokens_def)
next
  case (Cube s)
  let ?cfg = "ms_config m"
  from assms hmc.tick_ok [of ?cfg s] obtain s' new where t: "HMC_ClockTick ?cfg (Timing ?cfg) s = Inr s'"
    "hmc_inv ?cfg s'" "unat (ds_clk s') = unat (ds_clk s) + 1" "hmc_answered s' = hmc_answered s @ new"
    "hmc_held s = hmc_held s' + mset new" by (auto simp: Cube ms_abs okE_iff)
  from hmc_calls.log_grows [OF t(1)] obtain log where log: "calls s' = calls s @ log" by blast
  with t(4) have "new = map fst log" by (simp add: hmc_answered_def)
  moreover have "ms_kind m = (\<lambda>p. (fst p, 0))" by (simp add: ms_kind_def Cube fun_eq_iff split_def)
  ultimately show ?thesis using t log
    by (simp add: ms_ClockTick_def Let_def Cube ms_abs ms_log_def ms_tokens_def image_mset.compositionality o_def)
qed

lemma ms_offer_jedec:
  assumes "ms_dram m = Jedec s"
  shows "offer ms_WillAcceptTransaction ms_AddTransaction a w m =
    bindE (offer (Jedec_WillAcceptTransaction (ms_config m)) (Jedec_AddTransaction (ms_config m)) a w s)
      (\<lambda>(ok, s'). Inr (ok, m\<lparr>ms_dram := Jedec s'\<rparr>))"
  using assms by (cases m) (simp add: offer_def ms_WillAcceptTransaction_def ms_AddTransaction_def bindE_def
      split: sum.splits)

lemma ms_offer_cube:
  assumes "ms_dram m = Cube s"
  shows "offer ms_WillAcceptTransaction ms_AddTransaction a w m =
    bindE (offer HMC_WillAcceptTransaction (HMC_AddTransaction (ms_config m)) a w s)
      (\<lambda>(ok, s'). Inr (ok, m\<lparr>ms_dram := Cube s'\<rparr>))"
  using assms by (cases m) (simp add: offer_def ms_WillAcceptTransaction_def ms_AddTransaction_def bindE_def
      split: sum.splits)

lemma ms_offer_tokens:
  assumes "ms_inv m"
  shows "okE (\<lambda>(ok, m'). ms_inv m' \<and> ms_time m' = ms_time m \<and> ms_kind m' = ms_kind m \<and>
      ms_tokens m' = ms_tokens m + (if ok then {#ms_kind m (a, if w then 1 else 0)#} else {#}))
    (offer ms_WillAcceptTransaction ms_AddTransaction a w m)"
proof (cases "ms_dram m")
  case (Jedec s)
  with assms have "ds_inv (ms_config m) s" by (simp add: ms_inv_def)
  from jedec.offer_ok [OF this, of a w] obtain ok s' where
    o: "offer (Jedec_WillAcceptTransaction (ms_config m)) (Jedec_AddTransaction (ms_config m)) a w s = Inr (ok, s')"
    "ds_inv (ms_config m) s'" "unat (ds_clk s') = unat (ds_clk s)"
    "ds_held s' = ds_held s + (if ok then {#(a, if w then 1 else 0)#} else {#})" by (auto simp: okE_iff)
  have "ms_kind m = (\<lambda>p. p)" by (simp add: ms_kind_def Jedec fun_eq_iff)
  with o show ?thesis by (simp add: ms_offer_jedec [OF Jedec] ms_abs ms_log_def ms_tokens_def Jedec)
next
  case (Cube s)
  with assms have "hmc_inv (ms_config m) s" by (simp add: ms_inv_def)
  from hmc.offer_ok [OF this, of a w] obtain ok s' where
    o: "offer HMC_WillAcceptTransaction (HMC_AddTransaction (ms_config m)) a w s = Inr (ok, s')"
    "hmc_inv (ms_config m) s'" "unat (ds_clk s') = unat (ds_clk s)"
    "hmc_held s' = hmc_held s + (if ok then {#a#} else {#})" by (auto simp: okE_iff)
  have "ms_kind m = (\<lambda>p. (fst p, 0))" by (simp add: ms_kind_def Cube fun_eq_iff split_def)
  with o show ?thesis by (simp add: ms_offer_cube [OF Cube] ms_abs ms_log_def ms_tokens_def Cube)
qed

text \<open>A cycle with its calls, and a session of cycles and offers. \<open>calls_of\<close> is the state to which answers
  lead a client: the read callback is called for a read, the write callback for a write.\<close>

definition calls_of :: "(u64 \<Rightarrow> 'u \<Rightarrow> 'u) \<Rightarrow> (u64 \<Rightarrow> 'u \<Rightarrow> 'u) \<Rightarrow> (u64 \<times> int) list \<Rightarrow> 'u \<Rightarrow> 'u" where
  "calls_of on_read on_write answers u = fold (\<lambda>(a, w) u. if w = 1 then on_write a u else on_read a u) answers u"

lemma calls_of_append [simp]:
  "calls_of r w (xs @ ys) u = calls_of r w ys (calls_of r w xs u)"
  by (simp add: calls_of_def)

lemma deliver_calls_of: "deliver cb xs u = calls_of (read_callback cb) (write_callback cb) xs u"
  by (induction cb xs u rule: deliver.induct) (simp_all add: calls_of_def call_back_def)

lemma attached_tick_ok:
  assumes "ms_inv (at_memory x)" and "ms_time (at_memory x) < 2 ^ 54"
  shows "okE (\<lambda>x'. ms_inv (at_memory x') \<and> ms_time (at_memory x') = ms_time (at_memory x) + 1 \<and>
      ms_kind (at_memory x') = ms_kind (at_memory x) \<and> at_callbacks x' = at_callbacks x \<and>
      (\<exists>new. at_client x' = calls_of (read_callback (at_callbacks x)) (write_callback (at_callbacks x)) new (at_client x) \<and>
        ms_tokens (at_memory x) = ms_tokens (at_memory x') + mset (map (ms_kind (at_memory x)) new)))
    (attached_ClockTick x)"
proof -
  from ms_tick_tokens [OF assms] obtain m' new where t: "ms_ClockTick (at_memory x) = Inr m'" "ms_inv m'"
    "ms_time m' = ms_time (at_memory x) + 1" "ms_kind m' = ms_kind (at_memory x)" "ms_log m' = ms_log (at_memory x) @ new"
    "ms_tokens (at_memory x) = ms_tokens m' + mset (map (ms_kind (at_memory x)) new)" by (auto simp: okE_iff)
  then show ?thesis
    by (auto simp: attached_ClockTick_def ms_calls.client_sees_log deliver_calls_of intro!: exI [of _ new])
qed

lemma attached_offer:
  "offer attached_accepts attached_add a w x =
     bindE (offer ms_WillAcceptTransaction ms_AddTransaction a w (at_memory x)) (\<lambda>(ok, m). Inr (ok, x\<lparr>at_memory := m\<rparr>))"
  by (cases x) (simp add: offer_def attached_accepts_def attached_add_def bindE_def split: sum.splits)

definition pairs :: "(u64 \<times> bool) list \<Rightarrow> (u64 \<times> int) list" where
  "pairs log = map (\<lambda>(a, w). (a, if w then 1 else 0)) log"

lemma pairs_simps [simp]: "pairs [] = []" "pairs ((a, w) # log) = (a, if w then 1 else 0) # pairs log"
  by (simp_all add: pairs_def)

lemma attached_session_ok:
  assumes "ms_inv (at_memory x)" and "ms_time (at_memory x) + length rs \<le> 2 ^ 54"
  shows "okE (\<lambda>(x', log). \<exists>answers.
      at_client x' = calls_of (read_callback (at_callbacks x)) (write_callback (at_callbacks x)) answers (at_client x) \<and>
      ms_kind (at_memory x') = ms_kind (at_memory x) \<and>
      ms_tokens (at_memory x) + mset (map (ms_kind (at_memory x)) (pairs log)) =
        ms_tokens (at_memory x') + mset (map (ms_kind (at_memory x)) answers))
    (session attached_accepts attached_add attached_ClockTick rs x)"
  using assms
proof (induction rs arbitrary: x)
  case Nil
  show ?case by (auto simp: calls_of_def intro!: exI [of _ "[]"])
next
  case (Cons r rs)
  let ?m = "at_memory x"
  show ?case
  proof (cases r)
    case None
    from attached_tick_ok [OF Cons.prems(1)] Cons.prems(2) obtain y new where
      t: "attached_ClockTick x = Inr y" "ms_inv (at_memory y)" "ms_time (at_memory y) = ms_time ?m + 1"
        "ms_kind (at_memory y) = ms_kind ?m" "at_callbacks y = at_callbacks x"
        "at_client y = calls_of (read_callback (at_callbacks x)) (write_callback (at_callbacks x)) new (at_client x)"
        "ms_tokens ?m = ms_tokens (at_memory y) + mset (map (ms_kind ?m) new)" by (auto simp: okE_iff)
    from Cons.IH [OF t(2)] t(3) Cons.prems(2) obtain z log answers where
      z: "session attached_accepts attached_add attached_ClockTick rs y = Inr (z, log)"
        "at_client z = calls_of (read_callback (at_callbacks x)) (write_callback (at_callbacks x)) answers (at_client y)"
        "ms_kind (at_memory z) = ms_kind ?m"
        "ms_tokens (at_memory y) + mset (map (ms_kind ?m) (pairs log)) = ms_tokens (at_memory z) + mset (map (ms_kind ?m) answers)"
      by (auto simp: okE_iff t(4,5))
    have "ms_tokens ?m + mset (map (ms_kind ?m) (pairs log)) = ms_tokens (at_memory z) + mset (map (ms_kind ?m) (new @ answers))"
      using t(7) z(4) by (simp add: ac_simps)
    with t(1,6) z(1-3) show ?thesis by (auto simp: None intro!: exI [of _ "new @ answers"])
  next
    case (Some p)
    obtain a w where p: "p = (a, w)" by (cases p)
    from ms_offer_tokens [OF Cons.prems(1), of a w] obtain ok m' where
      o: "offer ms_WillAcceptTransaction ms_AddTransaction a w ?m = Inr (ok, m')" "ms_inv m'" "ms_time m' = ms_time ?m"
        "ms_kind m' = ms_kind ?m" "ms_tokens m' = ms_tokens ?m + (if ok then {#ms_kind ?m (a, if w then 1 else 0)#} else {#})"
      by (auto simp: okE_iff)
    from Cons.IH [of "x\<lparr>at_memory := m'\<rparr>"] o(2,3) Cons.prems(2) obtain z log answers where
      z: "session attached_accepts attached_add attached_ClockTick rs (x\<lparr>at_memory := m'\<rparr>) = Inr (z, log)"
        "at_client z = calls_of (read_callback (at_callbacks x)) (write_callback (at_callbacks x)) answers (at_client x)"
        "ms_kind (at_memory z) = ms_kind ?m"
        "ms_tokens m' + mset (map (ms_kind ?m) (pairs log)) = ms_tokens (at_memory z) + mset (map (ms_kind ?m) answers)"
      by (auto simp: okE_iff o(4))
    have "ms_tokens ?m + mset (map (ms_kind ?m) (pairs (if ok then (a, w) # log else log))) =
        ms_tokens (at_memory z) + mset (map (ms_kind ?m) answers)"
      using o(5) z(4) by (cases ok) (simp_all add: ac_simps)
    with z(1-3) show ?thesis by (auto simp: Some p attached_offer o(1) intro!: exI [of _ answers])
  qed
qed

lemma ms_kind_same:
  assumes "ms_kind m' = ms_kind m"
  shows "(\<exists>s s'. ms_dram m = Jedec s \<and> ms_dram m' = Jedec s') \<or> (\<exists>s s'. ms_dram m = Cube s \<and> ms_dram m' = Cube s')"
  using fun_cong [OF assms, of "(0, 1)"] by (cases "ms_dram m"; cases "ms_dram m'") (simp_all add: ms_kind_def)

lemma tokens_jedec:
  assumes "ms_dram m = Jedec s" and "ms_dram m' = Jedec s'"
    and "ms_tokens m + mset (map (ms_kind m) xs) = ms_tokens m' + mset (map (ms_kind m) ys)"
  shows "ds_held s + mset xs = ds_held s' + mset ys"
proof -
  have "ms_kind m = (\<lambda>p. p)" by (simp add: ms_kind_def assms(1) fun_eq_iff)
  with assms show ?thesis by (simp add: ms_tokens_def)
qed

lemma tokens_cube:
  assumes "ms_dram m = Cube s" and "ms_dram m' = Cube s'"
    and "ms_tokens m + mset (map (ms_kind m) xs) = ms_tokens m' + mset (map (ms_kind m) ys)"
  shows "hmc_held s + mset (map fst xs) = hmc_held s' + mset (map fst ys)"
proof -
  have "ms_kind m = (\<lambda>p. (fst p, 0))" by (simp add: ms_kind_def assms(1) fun_eq_iff split_def)
  with arg_cong [OF assms(3), of "image_mset fst"] show ?thesis
    by (simp add: ms_tokens_def assms(1,2) multiset.map_comp o_def)
qed

lemma pairs_fst: "map fst (pairs log) = map fst log"
  by (induction log) auto

section \<open>Properties\<close>

text \<open>C15. A client sees its answers. In any state of a memory, a JEDEC one or a cube, let a client register two
  callbacks and then offer transactions and let cycles pass (up to cycle \<open>2 ^ 54\<close>). Nothing fails, and
  the client ends in the state to which a list of answers leads it, each read passed to the read callback and
  each write to the write callback. The answers and what the memory holds at the end are exactly
  what it held at the beginning and what it accepted: addresses and kinds for a JEDEC memory, only addresses for a
  cube, where an answer is of the kind of its response.\<close>

theorem client_sees_answers:
  assumes "ms_inv (at_memory x)" and "ms_time (at_memory x) + length rs \<le> 2 ^ 54"
  shows "okE (\<lambda>(x', log). \<exists>answers.
      at_client x' = fold (\<lambda>(a, w) u. if w = 1 then on_write a u else on_read a u) answers (at_client x) \<and>
      (case (ms_dram (at_memory x), ms_dram (at_memory x')) of
         (Jedec s, Jedec s') \<Rightarrow> ds_held s + mset (map (\<lambda>(a, w). (a, if w then 1 else 0)) log) = ds_held s' + mset answers
       | (Cube s, Cube s') \<Rightarrow> hmc_held s + mset (map fst log) = hmc_held s' + mset (map fst answers)
       | _ \<Rightarrow> False))
    (session attached_accepts attached_add attached_ClockTick rs (RegisterCallbacks on_read on_write x))"
proof -
  let ?x = "RegisterCallbacks on_read on_write x"
  have x: "at_memory ?x = at_memory x" "at_client ?x = at_client x" "read_callback (at_callbacks ?x) = on_read"
    "write_callback (at_callbacks ?x) = on_write" by (simp_all add: RegisterCallbacks_def)
  from attached_session_ok [of ?x rs] assms obtain x' log answers where
    r: "session attached_accepts attached_add attached_ClockTick rs ?x = Inr (x', log)"
      "at_client x' = calls_of on_read on_write answers (at_client x)" "ms_kind (at_memory x') = ms_kind (at_memory x)"
      "ms_tokens (at_memory x) + mset (map (ms_kind (at_memory x)) (pairs log)) =
        ms_tokens (at_memory x') + mset (map (ms_kind (at_memory x)) answers)"
    by (auto simp: x okE_iff)
  from ms_kind_same [OF r(3)] show ?thesis
    using tokens_jedec [OF _ _ r(4)] tokens_cube [OF _ _ r(4)] r(1,2)
    by (auto simp: calls_of_def pairs_def [symmetric] pairs_fst intro!: exI [of _ answers])
qed

text \<open>A client that writes down what it is told.\<close>

definition ex_client :: "((u64 \<times> bool) list attached \<times> int) result" where
  "ex_client = GetMemorySystem ex_reader zero_config 0 (\<lambda>a u. u) (\<lambda>a u. u) []"

theorem client_sees_answers_witness:
  "\<exists>x n x' s'. ex_client = Inr (x, n) \<and> session attached_accepts attached_add attached_ClockTick (ex_session @ [None])
       (RegisterCallbacks (\<lambda>a u. u @ [(a, False)]) (\<lambda>a u. u @ [(a, True)]) x) = Inr (x', [(64, False), (128, True), (64, False)]) \<and>
     at_client x' = [(128, True), (64, False), (64, False)] \<and> ms_dram (at_memory x') = Jedec s' \<and> ds_held s' = {#}"
proof -
  let ?P = "\<lambda>(x, n). okE (\<lambda>(x', log). at_client x' = [(128, True), (64, False), (64, False)] \<and>
      log = [(64, False), (128, True), (64, False)])
    (session attached_accepts attached_add attached_ClockTick (ex_session @ [None])
      (RegisterCallbacks (\<lambda>a u. u @ [(a, False)]) (\<lambda>a u. u @ [(a, True)]) x))"
  have "okE ?P ex_client" by code_simp
  then obtain x n where x: "ex_client = Inr (x, n)" and p: "?P (x, n)" by (auto simp: okE_iff)
  from x obtain m where m: "MemorySystem ex_reader zero_config 0 = Inr (m, n)" "at_memory x = m" "at_client x = []"
    by (auto simp: ex_client_def GetMemorySystem_def bindE_eq_Inr)
  have "ms_cfg_ok ex_cfg" using ex_ds_cfg_ok ex_not_HMC by (simp add: ms_cfg_ok_def)
  from MemorySystem_ok [OF ex_Config this, of 0] m have i: "ms_inv m" "ms_held m = {#}" "ms_time m = 0" by simp_all
  obtain x' where r: "session attached_accepts attached_add attached_ClockTick (ex_session @ [None])
      (RegisterCallbacks (\<lambda>a u. u @ [(a, False)]) (\<lambda>a u. u @ [(a, True)]) x) = Inr (x', [(64, False), (128, True), (64, False)])"
    "at_client x' = [(128, True), (64, False), (64, False)]" using p by (auto simp: okE_iff)
  obtain s where s: "ms_dram m = Jedec s" "ds_held s = {#}"
    using m(1) i(2) by (auto simp: MemorySystem_def ex_Config ex_not_HMC bindE_eq_Inr ms_held_def)
  have "length (ex_session @ [None]) \<le> 2 ^ 54" by (simp add: ex_session_def)
  with client_sees_answers [of x "ex_session @ [None]" "\<lambda>a u. u @ [(a, True)]" "\<lambda>a u. u @ [(a, False)]", unfolded r okE_simps] i
  obtain answers s' where a: "fold (\<lambda>(a, w) u. if w = 1 then u @ [(a, True)] else u @ [(a, False)]) answers [] =
      [(128, True), (64, False), (64, False)]"
    and s': "ms_dram (at_memory x') = Jedec s'" "{#(64, 0), (128, 1), (64, 0)#} = ds_held s' + mset answers"
    unfolding m(2) by (cases "ms_dram (at_memory x')") (auto simp: s m(3) r(2))
  have "length (fold (\<lambda>(a, w) u. if w = 1 then u @ [(a, True)] else u @ [(a, False)]) xs u) = length u + length xs"
    for xs :: "(u64 \<times> int) list" and u by (induction xs arbitrary: u) auto
  from this [of answers "[]"] have n: "size (mset answers) = 3" by (simp add: a)
  from arg_cong [OF s'(2), of size] n have "ds_held s' = {#}" by simp
  with x r s'(1) show ?thesis by blast
qed

end
