(* ===== verification/Phases.thy ===== *)
theory Phases
  imports MemorySystem Text_Format
begin

text \<open>
  The phases that the client reports (\<open>stats_mo\<close> in \<open>dram_system.cc\<close>): the lines that a call
  prints, and what the lines of a whole run add up to. A ratio is computed and printed in
  type \<open>float\<close>; it is a parameter, a function of its numerator and its denominator.
\<close>

section \<open>A phase\<close>

record phase =
  ph_number :: u64
  ph_read_cmds :: u64
  ph_write_cmds :: u64
  ph_read_hits :: u64
  ph_write_hits :: u64
  ph_active :: u64
  ph_concurrent :: u64

text \<open>The numbers since the last call.\<close>

definition current_phase :: "u64 \<Rightarrow> 'a dram_system_scheme \<Rightarrow> phase" where
  "current_phase cycle s =
     \<lparr>ph_number = cycle div 10000,
      ph_read_cmds = sum_list (map read_cmds (ctrls s)) - last_read_cmds s,
      ph_write_cmds = sum_list (map write_cmds (ctrls s)) - last_write_cmds s,
      ph_read_hits = sum_list (map read_row_hits (ctrls s)) - last_read_hits s,
      ph_write_hits = sum_list (map write_row_hits (ctrls s)) - last_write_hits s,
      ph_active = active_cycles s - last_active_cycles s,
      ph_concurrent = ds_concurrent_serve s - last_concurrent_serve s\<rparr>"

definition phase_text :: "(u64 \<Rightarrow> u64 \<Rightarrow> string) \<Rightarrow> phase \<Rightarrow> string" where
  "phase_text ratio p =
     ''Phase '' @ show_u64 (ph_number p) @ '' '' @ ratio (ph_read_hits p + ph_write_hits p) (ph_read_cmds p + ph_write_cmds p) @
       '' '' @ ratio (ph_concurrent p) (ph_active p) @ newline @
     ''Total read commands: '' @ show_u64 (ph_read_cmds p) @ '', write commands: '' @ show_u64 (ph_write_cmds p) @
       '', read row hit: '' @ show_u64 (ph_read_hits p) @ '', write row hit: '' @ show_u64 (ph_write_hits p) @ newline @
     ''DRAM active cycles: '' @ show_u64 (ph_active p) @ '', concurrent serve: '' @ show_u64 (ph_concurrent p) @ newline @
     ''Read row buffer hit rate: '' @ ratio (ph_read_hits p) (ph_read_cmds p) @
       '', write row buffer hit rate: '' @ ratio (ph_write_hits p) (ph_write_cmds p) @ newline @ newline"

text \<open>The call: the text for the output file, and the new state.\<close>

definition stats_mo_out :: "(u64 \<Rightarrow> u64 \<Rightarrow> string) \<Rightarrow> u64 \<Rightarrow> 'a dram_system_scheme \<Rightarrow> string \<times> 'a dram_system_scheme" where
  "stats_mo_out ratio cycle s = (phase_text ratio (current_phase cycle s), stats_mo s)"

section \<open>A run with phases\<close>

inductive phase_run :: "config \<Rightarrow> dram_system \<Rightarrow> phase list \<Rightarrow> bool" for cfg where
  start: "JedecDRAMSystem cfg n = Inr (s, m) \<Longrightarrow> phase_run cfg s []"
| add: "phase_run cfg s ps \<Longrightarrow> Jedec_AddTransaction cfg a w s = Inr (b, s') \<Longrightarrow> phase_run cfg s' ps"
| tick: "phase_run cfg s ps \<Longrightarrow> Jedec_ClockTick cfg (Timing cfg) s = Inr s' \<Longrightarrow> phase_run cfg s' ps"
| final: "phase_run cfg s ps \<Longrightarrow> ds_PrintStats s = Inr s' \<Longrightarrow> phase_run cfg s' ps"
| reset: "phase_run cfg s ps \<Longrightarrow> phase_run cfg (ds_ResetStats s) ps"
| report: "phase_run cfg s ps \<Longrightarrow> phase_run cfg (stats_mo s) (ps @ [current_phase cycle s])"

definition last_counts :: "dram_system \<Rightarrow> u64 list" where
  "last_counts s = [last_read_cmds s, last_write_cmds s, last_read_hits s, last_write_hits s, last_active_cycles s, last_concurrent_serve s]"

definition phase_sums :: "phase list \<Rightarrow> u64 list" where
  "phase_sums ps = map (\<lambda>f. sum_list (map f ps)) [ph_read_cmds, ph_write_cmds, ph_read_hits, ph_write_hits, ph_active, ph_concurrent]"

lemma last_counts_kept:
  "JedecDRAMSystem cfg n = Inr (s, m) \<Longrightarrow> last_counts s = [0, 0, 0, 0, 0, 0]"
  "Jedec_AddTransaction cfg a w s = Inr (b, s') \<Longrightarrow> last_counts s' = last_counts s"
  "Jedec_ClockTick cfg tim s = Inr s' \<Longrightarrow> last_counts s' = last_counts s"
  "ds_PrintStats s = Inr s' \<Longrightarrow> last_counts s' = last_counts s"
  "last_counts (ds_ResetStats s) = last_counts s"
  by (auto simp: last_counts_def JedecDRAMSystem_def BaseDRAMSystem_def Jedec_AddTransaction_def Jedec_ClockTick_def next_clk_def
      ds_PrintEpochStats_def ds_PrintStats_def ds_ResetStats_def Let_def bindE_eq_Inr split: if_splits)

lemma phase_run_sums: "phase_run cfg s ps \<Longrightarrow> phase_sums ps = last_counts s"
  by (induction rule: phase_run.induct)
    (auto simp: last_counts_kept phase_sums_def, auto simp: last_counts_def current_phase_def stats_mo_def)

lemma session_phases:
  assumes "session (Jedec_WillAcceptTransaction cfg) (Jedec_AddTransaction cfg) (Jedec_ClockTick cfg (Timing cfg)) rs s = Inr (s', log)"
    and "phase_run cfg s ps"
  shows "phase_run cfg s' ps"
  using assms
proof (induction rs arbitrary: s log)
  case (Cons r rs)
  show ?case
  proof (cases r)
    case None
    with Cons show ?thesis by (auto simp: bindE_eq_Inr intro: phase_run.tick)
  next
    case (Some p)
    with Cons show ?thesis by (cases p) (auto simp: bindE_eq_Inr offer_def split: if_splits intro: phase_run.add)
  qed
qed simp

section \<open>Property\<close>

text \<open>C27. The phases of a run, whenever they are reported, lose nothing and count nothing twice: with the one
  that a call would report now they add up to what the controllers have counted since the start, for
  commands, row hits, active cycles and served requests alike - a reset of the statistics included,
  which the counters of the phases do not see.\<close>

theorem phases_add_up:
  assumes "phase_run cfg s ps"
  shows "phase_sums (ps @ [current_phase cycle s]) =
    [sum_list (map read_cmds (ctrls s)), sum_list (map write_cmds (ctrls s)), sum_list (map read_row_hits (ctrls s)),
     sum_list (map write_row_hits (ctrls s)), active_cycles s, ds_concurrent_serve s]"
  using phase_run_sums [OF assms] by (simp add: phase_sums_def last_counts_def current_phase_def)

text \<open>The session of the example, with two reports at its end: two reads are served.\<close>

theorem phases_add_up_witness:
  "okE (\<lambda>(s, log). phase_sums ([current_phase 0 s, current_phase 20000 (stats_mo s)]) = [2, 0, 0, 0, 7, 7]) ex_jedec"
proof -
  obtain s0 n s log where j: "JedecDRAMSystem ex_cfg 0 = Inr (s0, n)" "ex_jedec = Inr (s, log)" "session (Jedec_WillAcceptTransaction ex_cfg)
      (Jedec_AddTransaction ex_cfg) (Jedec_ClockTick ex_cfg (Timing ex_cfg)) ex_session s0 = Inr (s, log)"
    using ex_jedec_result by (auto simp: okE_iff ex_jedec_def bindE_eq_Inr)
  have "phase_run ex_cfg s []" by (rule session_phases [OF j(3) phase_run.start [OF j(1)]])
  then have "phase_run ex_cfg (stats_mo s) [current_phase 0 s]" using phase_run.report by fastforce
  from phases_add_up [OF this, of 20000] ex_jedec_value show ?thesis by (simp add: j(2) stats_mo_def)
qed

end
