(* ===== verification/Spec2Isabelle.thy ===== *)
theory Spec2Isabelle
  imports Controller_Properties Queue_Properties Stats_Properties Channel_Properties System_Properties
    Thermal_Plan System_Reports Replay_Main Callbacks Phases
begin

text \<open>
  A model of DRAMsim3, a cycle-accurate simulator of DRAM memories, and proofs about it.

  The program. A \<^emph>\<open>traffic generator\<close> owns a \<^emph>\<open>memory system\<close>: in each cycle it calls its clock, and adds
  a read or write transaction when the memory accepts it. A memory system is a \<^emph>\<open>DRAM system\<close> with
  one \<^emph>\<open>controller\<close> for each channel, or a \<^emph>\<open>memory cube\<close>, where requests travel over links and a
  crossbar to the controllers and responses travel back, in a second, faster clock. The system
  adds transactions to its controllers, calls their clocks, and takes back the transactions that
  are done, for which it calls a callback of the client. In each cycle a controller lets its
  \<^emph>\<open>refresh\<close> generator ask for refreshes, issues the refresh that waits or else a ready command from
  its \<^emph>\<open>command queues\<close>, and moves one transaction from its buffers to the command queues. Whether a command is ready is the decision of the
  \<^emph>\<open>channel state\<close>, which keeps the state machine of every bank, the earliest cycle of every kind of
  command at every bank (raised after each command by the distances of a \<^emph>\<open>timing table\<close>) and the
  activation windows of every rank. At the end of every epoch and of the run the \<^emph>\<open>statistics\<close> of
  every channel become a report of energies and averages, as text and as JSON. Compiled with
  \<open>THERMAL\<close>, a \<^emph>\<open>thermal calculator\<close> books the energy of every command on a map of the chip, and at
  the same points hands the map to a \<^emph>\<open>thermal solver\<close>; a second program replays a trace of commands
  on it.

  The theories, in the order of the program's parts (paths are under \<open>src/src\<close>):

  \<^item> \<open>Prelude\<close>: results with errors, \<open>int\<close> and \<open>uint64_t\<close>, vectors with checked access, arrays with
    three indices and multimaps, with their contracts as locales.
  \<^item> \<open>Common\<close> (\<open>common.h\<close>, \<open>common.cc\<close>): addresses, commands, transactions and helpers.
  \<^item> \<open>Configuration\<close>, \<open>Address_Map\<close>, \<open>ConfigOk\<close> (\<open>configuration.h\<close>, \<open>configuration.cc\<close>): the constructor
    of \<open>Config\<close>, its size computation and address mapping, and what a configuration it accepts
    satisfies. The INI reader, a vendored library, is a parameter: a record of its functions.
  \<^item> \<open>Double\<close>: the type \<open>double\<close> of C, binary64 with rounding to nearest even, and its bounds.
    \<open>Power_Params\<close>: the rest of \<open>Config\<close>: energies, files, thermal parameters.
  \<^item> \<open>Timing\<close> (\<open>timing.h\<close>, \<open>timing.cc\<close>): the table of distances between commands.
  \<^item> \<open>BankState\<close> (\<open>bankstate.h\<close>, \<open>bankstate.cc\<close>): a bank, and the protocol that it refines.
  \<^item> \<open>ChannelState\<close>, \<open>ChannelTiming\<close>, \<open>ChannelRun\<close> (\<open>channel_state.h\<close>, \<open>channel_state.cc\<close>): the operations
    of a channel; its five update loops reduced to the table; its invariant along every run.
    \<open>Timing_Table\<close>: what the table asks of a trace, from the table alone, and that the loops enforce it but
    for the \<open>same_rank\<close> distances after \<open>REFRESH_BANK\<close>, which they never apply.
  \<^item> \<open>SimpleStats\<close> (\<open>simple_stats.h\<close>, \<open>simple_stats.cc\<close>): counters, vectors and histograms.
    \<open>Text_Format\<close> (\<open>operator<<\<close> of \<open>common.cc\<close>) and \<open>Stats_Report\<close>: the figures, the reports and their text;
    \<open>Report_Properties\<close>: they refine the operations on the counters and lose nothing.
  \<^item> \<open>Refresh\<close> (\<open>refresh.h\<close>, \<open>refresh.cc\<close>), \<open>CommandQueue\<close> (\<open>command_queue.h\<close>, \<open>command_queue.cc\<close>).
  \<^item> \<open>Controller\<close>, \<open>ControllerInv\<close>, \<open>ControllerRun\<close> (\<open>controller.h\<close>, \<open>controller.cc\<close>): the operations of
    a controller, its invariants, and its runs.
  \<^item> \<open>Default_Config\<close>, \<open>Example\<close>: a configuration read from a small INI file, and runs of a
    controller with it, evaluated; they show that the hypotheses of the properties can hold.
  \<^item> \<open>Memory_Port\<close>: the contract between a memory and its client, a locale: a memory in a good state
    answers whether it accepts a transaction, an accepted transaction is held, and a cycle loses and
    invents nothing. Every session of a client then balances what it added with what is held or
    answered. It is interpreted by the three systems and by the memory system.
  \<^item> \<open>DRAMSystem\<close>, \<open>IdealSystem\<close> (\<open>dram_system.h\<close>, \<open>dram_system.cc\<close>): the base class, the system with one
    controller for each channel, and the ideal memory.
  \<^item> \<open>HMC\<close> (\<open>hmc.h\<close>, \<open>hmc.cc\<close>): the memory cube. \<open>HMC_Queues\<close>: its queues as lists and the order of service;
    \<open>HMC_Inv\<close>: the invariant of the crossbar and its moves; \<open>HMC_Insert\<close>: a request enters;
    \<open>HMC_Run\<close>: the vaults, the two clocks, a whole cycle.
  \<^item> \<open>MemorySystem\<close> (\<open>memory_system.h\<close>, \<open>memory_system.cc\<close>): the choice between both and the interface.
    \<open>Phases\<close>: the lines of \<open>stats_mo\<close>, and what they add up to over a run. \<open>Callbacks\<close>: the functions that the
    client registers and exchanges; a locale states that the cycles with calls do what the cycles with
    a log do, interpreted for each kind of memory, and a session of a client ends in the state to which
    its answers lead it.
  \<^item> \<open>Trace\<close> (\<open>operator>>\<close> of \<open>common.cc\<close>, with what it uses of input streams), \<open>Random_Engine\<close> (the engine
    \<open>std::mt19937_64\<close>), \<open>CPU\<close> (\<open>cpu.h\<close>, \<open>cpu.cc\<close>, the loop of \<open>main.cc\<close>): the traffic generators, each with
    the source it draws from (for a stream the engine, the arrays and the place in them).
    \<open>Main_Program\<close> (\<open>main.cc\<close>): from the options to the exit code; the vendored parser is a parameter.
  \<^item> \<open>Thermal_Solver\<close> (\<open>thermal_config.h\<close>, \<open>thermal_solver.c\<close>, \<open>sp_ienv.c\<close>): the chip as a grid of thermal
    resistances, the steady and the transient solver. \<open>Thermal_Matrix\<close>: the conductance matrix fills its
    array, is symmetric, and is what the compressed form holds; \<open>Thermal_Heat\<close>: the right-hand sides
    and the transient solver as steps of the explicit formula. The linear solver SuperLU is a
    parameter: a record of the functions that are called.
  \<^item> \<open>Thermal\<close> (\<open>thermal.h\<close>, \<open>thermal.cc\<close>): the thermal calculator; \<open>Thermal_Example\<close>: configurations;
    \<open>Thermal_Plan\<close>: the floor plan and the places of vaults, banks and refreshed rows; \<open>Thermal_Epoch\<close>: its
    constructor and its runs. \<open>Stack_Config\<close>: the stack of \<open>HBM_4Gb_x128.ini\<close>, read by the model of the
    constructor. \<open>Thermal_Commands\<close>: the cells of a bank and the frame of every booking on a stack;
    \<open>Thermal_Places\<close>: which banks a command heats; \<open>Thermal_Trace\<close>: the commands that the controllers issue,
    booked in any interleaving.
  \<^item> \<open>Thermal_Replay\<close> (\<open>thermal_replay.h\<close>, \<open>thermal_replay.cc\<close>) and \<open>Replay_Properties\<close>: the replay of a trace.
    \<open>Replay_Run\<close>: no command that fits a stack stops a run, and what it heats, in the power map of an
    epoch and in the accumulated map of the final report; \<open>Replay_Main\<close>: the program.
  \<^item> \<open>System_Reports\<close> (the ends of epochs and of the run in \<open>dram_system.cc\<close> and \<open>controller.cc\<close>): all channels'
    reports, the JSON files and the thermal calculator together.
  \<^item> \<open>Channel_Properties\<close>, \<open>Queue_Properties\<close>, \<open>Stats_Properties\<close>, \<open>Controller_Properties\<close>,
    \<open>System_Properties\<close>, \<open>HMC_Properties\<close>, \<open>CPU_Properties\<close>: the other properties.

  State and errors. A class is a record with the fields of the class; an operation takes the
  object and returns it changed. References that objects share (the channel state and statistics
  in the command queue, the channel state in the refresh generator) are arguments and results.
  \<open>AbruptExit\<close>, \<open>exit(1)\<close>, an uncaught exception, a division by zero and an access out of bounds
  are the errors of \<open>sim_error\<close>, so that "the program never stops" is a theorem that a result is not
  an error. \<open>uint64_t\<close> is a 64-bit word; \<open>int\<close> is an integer that is not bounded, with the
  conversions to and from words written out, and with checks for overflow where the code can run into it
  (the searches with doubles as bounds, the loop of \<open>UpdateEpoch\<close>, the number of entries of the
  conductance matrix). A vector that is made or reserved with a negative size is a \<open>length_error\<close>; that
  the memory of the machine is exhausted is not modelled.
  \<open>double\<close> is binary64 with every operation rounded by itself (no fused operations, no wider
  registers); literals are rounded quotients. Tables of the standard library whose order of
  iteration is not fixed are lists of pairs in some order.

  Bounds and fuel. Loops are structural recursions or folds where the code's are bounded;
  \<open>GetCommandToIssue\<close> counts its queues down, \<open>LogBase2\<close> and the loop over finished transactions have
  termination proofs, and so does the loop over blocks of eight entries in the transient solver; the
  two searches with doubles as bounds (time steps, row tiles) are \<open>while_option\<close>, and that they
  always stop is a theorem. The loop over the channels in \<open>UpdateEpoch\<close>, whose index the inner loop
  changes too, has the number of channels as fuel, since each pass raises the index. Two loops of the
  cube have fuel, with \<open>Endless\<close> for a hang: the search for a link
  with room gets as much as there are links, and the loop over the logic cycles gets the distance of
  the two clocks in picoseconds, which each round shortens; that this is enough is part of the
  theorems. The clock of a controller's run does not wrap: a cycle has the hypothesis
  \<open>clk < clk + 1\<close> (584 years of simulated time at 1 GHz). A session has at most \<open>2 ^ 63\<close> cycles, one of a
  cube \<open>2 ^ 54\<close>, since the cube counts picoseconds. An \<open>assert\<close> is checked, as in a build without \<open>NDEBUG\<close>.
  A thermal grid is one whose entries, at most 7 for each node, can be counted in an \<open>int\<close> (\<open>grid_ok\<close>).

  Not modelled: messages on the console; the parser of the command line and the INI reader (vendored:
  what they find is a parameter) and what is in the files that are opened; a callback that calls the
  memory again from within its cycle; the layout of JSON and of
  numbers of type \<open>double\<close> and \<open>float\<close> in text, which are parameters; SuperLU, and the memory it reports;
  \<open>square_array\<close>, which nothing calls, and \<open>UpdateLogicPower\<close> and \<open>XbarArbitrate\<close>, which are declared and
  defined nowhere. The code under \<open>THERMAL\<close> does not compile against
  the class \<open>SimpleStats\<close> of the repository (it has no \<open>RankBackgroundEnergy\<close> and no reports with streams):
  these members are parameters, and the systems' cycles are modelled without \<open>THERMAL\<close>, the parts that
  \<open>THERMAL\<close> adds in their own theories.
  Runs of a controller are stated for configurations without self refresh (\<open>cfg_ok\<close>), because the program
  always stops when it leaves self refresh (\<open>self_refresh_exit_stops\<close>).
\<close>

end
